(* ===== verification/Prelude.thy ===== *)
theory Prelude
  imports Main "HOL-Library.Word" "HOL-Library.Multiset" "HOL-Library.List_Lexorder" "HOL-Library.Product_Lexorder"
begin

text \<open>
  The vocabulary every component shares: bytes and byte strings, Rust's \<open>Result\<close> as a sum
  type with its \<open>?\<close> operator, the signed 64-bit arithmetic of the source (wrapping and
  saturating), and the list and association-list lemmas the component proofs rest on.

  Conventions. A Rust \<open>String\<close> or \<open>&str\<close> is a \<^typ>\<open>string\<close>, one \<^typ>\<open>char\<close> per UTF-8
  byte, so \<open>len()\<close> is \<^const>\<open>length\<close>. A \<open>[u8; 32]\<close> is a \<open>bytes\<close> value; the places where
  the source checks the length (\<open>try_into\<close>) check it in the model. An \<open>i64\<close> is an \<^typ>\<open>int\<close>
  with the wrap-around written out by \<open>wrap64\<close>; a \<open>u64\<close> is a \<open>64 word\<close>. A \<open>HashMap\<close> is an
  association list with distinct keys wherever the code iterates over it, and a map otherwise.
\<close>

type_synonym byte = "8 word"
type_synonym bytes = "byte list"
type_synonym u64 = "64 word"
type_synonym u32 = "32 word"

text \<open>Facts about results, about association lists and about saturating arithmetic.\<close>

named_theorems result_simps
named_theorems alist_simps
named_theorems i64_simps

subsection \<open>Results\<close>

text \<open>\<open>Inl\<close> carries the error, \<open>Inr\<close> the value; \<open>rbind\<close> is the \<open>?\<close> operator.\<close>

definition rbind :: "'e + 'a \<Rightarrow> ('a \<Rightarrow> 'e + 'b) \<Rightarrow> 'e + 'b" where
  "rbind r f = (case r of Inl e \<Rightarrow> Inl e | Inr x \<Rightarrow> f x)"

definition ok_or :: "'e \<Rightarrow> 'a option \<Rightarrow> 'e + 'a" where
  "ok_or e x = (case x of None \<Rightarrow> Inl e | Some v \<Rightarrow> Inr v)"

definition is_ok :: "'e + 'a \<Rightarrow> bool" where
  "is_ok r = (case r of Inl _ \<Rightarrow> False | Inr _ \<Rightarrow> True)"

fun mapM :: "('a \<Rightarrow> 'e + 'b) \<Rightarrow> 'a list \<Rightarrow> 'e + 'b list" where
  "mapM f [] = Inr []"
| "mapM f (x # xs) = rbind (f x) (\<lambda>y. rbind (mapM f xs) (\<lambda>ys. Inr (y # ys)))"

lemma rbind_simps [simp]:
  "rbind (Inl e) f = Inl e"
  "rbind (Inr x) f = f x"
  by (simp_all add: rbind_def)

lemma ok_or_simps [simp]:
  "ok_or e None = Inl e"
  "ok_or e (Some v) = Inr v"
  by (simp_all add: ok_or_def)

lemma is_ok_simps [simp]:
  "is_ok (Inl e) = False"
  "is_ok (Inr x) = True"
  by (simp_all add: is_ok_def)

lemma rbind_eq_Inr [result_simps]:
  "rbind r f = Inr y \<longleftrightarrow> (\<exists>x. r = Inr x \<and> f x = Inr y)"
  by (cases r) auto

lemma rbind_eq_Inl [result_simps]:
  "rbind r f = Inl e \<longleftrightarrow> r = Inl e \<or> (\<exists>x. r = Inr x \<and> f x = Inl e)"
  by (cases r) auto

lemma ok_or_eq_Inr [result_simps]: "ok_or e x = Inr v \<longleftrightarrow> x = Some v"
  by (cases x) auto

lemma ok_or_eq_Inl [result_simps]: "ok_or e x = Inl e' \<longleftrightarrow> x = None \<and> e' = e"
  by (cases x) auto

lemma is_ok_iff [result_simps]: "is_ok r \<longleftrightarrow> (\<exists>x. r = Inr x)"
  by (cases r) auto

lemma not_is_ok_iff: "\<not> is_ok r \<longleftrightarrow> (\<exists>e. r = Inl e)"
  by (cases r) auto

text \<open>
  The same operator for an operation on a mutable state: an error keeps the state reached so far.
\<close>

definition sbind :: "('e + 'a) \<times> 's \<Rightarrow> ('a \<Rightarrow> 's \<Rightarrow> ('e + 'b) \<times> 's) \<Rightarrow> ('e + 'b) \<times> 's" where
  "sbind m f = (case m of (Inl e, s) \<Rightarrow> (Inl e, s) | (Inr x, s) \<Rightarrow> f x s)"

lemma sbind_simps [simp]:
  "sbind (Inl e, s) f = (Inl e, s)"
  "sbind (Inr x, s) f = f x s"
  by (simp_all add: sbind_def)

lemma sbind_eq_Inr [result_simps]:
  "sbind m f = (Inr y, s') \<longleftrightarrow> (\<exists>x s. m = (Inr x, s) \<and> f x s = (Inr y, s'))"
  by (cases m; cases "fst m") (auto simp: sbind_def)

lemma sguard_eq_Inr: "(if b then (Inl e, s) else m) = (Inr y, s') \<longleftrightarrow> \<not> b \<and> m = (Inr y, s')"
  by simp

lemma case_prod_eq: "(case x of (a, b) \<Rightarrow> f a b) = r \<longleftrightarrow> (\<exists>a b. x = (a, b) \<and> f a b = r)"
  by (cases x) auto

lemma sbind_InrE:
  assumes "sbind m f = (Inr y, s')"
  obtains x s where "m = (Inr x, s)" and "f x s = (Inr y, s')"
  using assms unfolding sbind_eq_Inr by blast

lemma mapM_ok: "(\<And>x. x \<in> set xs \<Longrightarrow> \<exists>y. f x = Inr y) \<Longrightarrow> \<exists>ys. mapM f xs = Inr ys"
proof (induction xs)
  case (Cons x xs)
  then obtain y ys where "f x = Inr y" "mapM f xs = Inr ys" by fastforce
  then show ?case by simp
qed simp

lemma mapM_eq_Inr: "mapM f xs = Inr ys \<longleftrightarrow> list_all2 (\<lambda>x y. f x = Inr y) xs ys"
proof (induction xs arbitrary: ys)
  case Nil
  then show ?case by auto
next
  case (Cons x xs)
  then show ?case by (cases ys) (auto simp: result_simps)
qed

subsection \<open>Signed 64-bit integers\<close>

definition i64_min :: int where "i64_min = - (2 ^ 63)"
definition i64_max :: int where "i64_max = 2 ^ 63 - 1"

definition in_i64 :: "int \<Rightarrow> bool" where
  "in_i64 x \<longleftrightarrow> i64_min \<le> x \<and> x \<le> i64_max"

text \<open>Two's complement wrap-around, the release-build meaning of \<open>+\<close> and \<open>-\<close> on \<open>i64\<close>.\<close>

definition wrap64 :: "int \<Rightarrow> int" where
  "wrap64 x = (x + 2 ^ 63) mod 2 ^ 64 - 2 ^ 63"

definition i64_add :: "int \<Rightarrow> int \<Rightarrow> int" where
  "i64_add a b = wrap64 (a + b)"

definition i64_sub :: "int \<Rightarrow> int \<Rightarrow> int" where
  "i64_sub a b = wrap64 (a - b)"

text \<open>\<open>saturating_sub\<close> and \<open>saturating_abs\<close> clamp instead.\<close>

definition i64_clamp :: "int \<Rightarrow> int" where
  "i64_clamp x = max i64_min (min i64_max x)"

definition i64_saturating_sub :: "int \<Rightarrow> int \<Rightarrow> int" where
  "i64_saturating_sub a b = i64_clamp (a - b)"

definition i64_saturating_abs :: "int \<Rightarrow> int" where
  "i64_saturating_abs a = i64_clamp \<bar>a\<bar>"

lemmas i64_defs = i64_min_def i64_max_def in_i64_def

lemma wrap64_id [i64_simps]: "in_i64 x \<Longrightarrow> wrap64 x = x"
  by (simp add: wrap64_def i64_defs)

lemma wrap64_in_range: "in_i64 (wrap64 x)"
proof -
  have "0 \<le> (x + 2 ^ 63) mod 2 ^ 64" and "(x + 2 ^ 63) mod 2 ^ 64 < (2 ^ 64 :: int)"
    by simp_all
  then show ?thesis by (simp add: wrap64_def i64_defs)
qed

lemma i64_add_exact [i64_simps]: "in_i64 (a + b) \<Longrightarrow> i64_add a b = a + b"
  by (simp add: i64_add_def wrap64_id)

lemma i64_sub_exact [i64_simps]: "in_i64 (a - b) \<Longrightarrow> i64_sub a b = a - b"
  by (simp add: i64_sub_def wrap64_id)

lemma i64_clamp_range: "in_i64 (i64_clamp x)"
  by (simp add: i64_clamp_def i64_defs)

lemma i64_clamp_id [i64_simps]: "in_i64 x \<Longrightarrow> i64_clamp x = x"
  by (simp add: i64_clamp_def in_i64_def)

lemma i64_clamp_le_iff: "in_i64 m \<Longrightarrow> m < i64_max \<Longrightarrow> i64_clamp x \<le> m \<longleftrightarrow> x \<le> m"
  by (auto simp: i64_clamp_def i64_defs)

text \<open>A saturated distance that stays under a bound below the maximum is the true distance.\<close>

lemma saturating_distance_lt:
  assumes "in_i64 a" and "in_i64 b" and "k < i64_max"
  shows "i64_saturating_abs (i64_saturating_sub a b) < k \<longleftrightarrow> \<bar>a - b\<bar> < k"
proof -
  have "a - b \<le> 2 ^ 64" and "- (2 ^ 64) \<le> a - b"
    using assms(1,2) by (simp_all add: i64_defs)
  then show ?thesis
    using assms(3)
    by (auto simp: i64_saturating_sub_def i64_saturating_abs_def i64_clamp_def i64_defs)
qed

subsection \<open>Lists\<close>

text \<open>\<open>find\<close> returns the first match, \<open>position\<close> its index.\<close>

fun position :: "('a \<Rightarrow> bool) \<Rightarrow> 'a list \<Rightarrow> nat option" where
  "position P [] = None"
| "position P (x # xs) = (if P x then Some 0 else map_option Suc (position P xs))"

text \<open>\<open>Vec::remove(i)\<close>.\<close>

definition remove_at :: "nat \<Rightarrow> 'a list \<Rightarrow> 'a list" where
  "remove_at i xs = take i xs @ drop (Suc i) xs"

text \<open>Push unless already there, the \<open>if !v.iter().any(..) { v.push(..) }\<close> of the source.\<close>

definition push_new :: "'a list \<Rightarrow> 'a \<Rightarrow> 'a list" where
  "push_new xs x = (if x \<in> set xs then xs else xs @ [x])"

text \<open>Update the first match in place (\<open>iter_mut().find(..)\<close>).\<close>

fun update_first :: "('a \<Rightarrow> bool) \<Rightarrow> ('a \<Rightarrow> 'a) \<Rightarrow> 'a list \<Rightarrow> 'a list" where
  "update_first P f [] = []"
| "update_first P f (x # xs) = (if P x then f x # xs else x # update_first P f xs)"

lemma set_push_new [simp]: "set (push_new xs x) = insert x (set xs)"
  by (auto simp: push_new_def)

lemma distinct_push_new: "distinct xs \<Longrightarrow> distinct (push_new xs x)"
  by (simp add: push_new_def)

lemma set_foldl_push_new [simp]: "set (foldl push_new xs ys) = set xs \<union> set ys"
  by (induction ys arbitrary: xs) auto

lemma distinct_foldl_push_new: "distinct xs \<Longrightarrow> distinct (foldl push_new xs ys)"
  by (induction ys arbitrary: xs) (auto intro: distinct_push_new)

lemma filter_neq_absent [simp]: "p \<notin> set xs \<Longrightarrow> filter (\<lambda>a. a \<noteq> p) xs = xs"
  by (induction xs) auto

lemma position_Some:
  "position P xs = Some i \<Longrightarrow> i < length xs \<and> P (xs ! i) \<and> (\<forall>j < i. \<not> P (xs ! j))"
proof (induction xs arbitrary: i)
  case Nil
  then show ?case by simp
next
  case (Cons x xs)
  show ?case
  proof (cases "P x")
    case True
    with Cons.prems show ?thesis by simp
  next
    case False
    with Cons.prems obtain k where k: "position P xs = Some k" "i = Suc k" by auto
    with Cons.IH [OF k(1)] False show ?thesis
      by (auto simp: nth_Cons split: nat.splits)
  qed
qed

lemma position_None: "position P xs = None \<longleftrightarrow> (\<forall>x \<in> set xs. \<not> P x)"
  by (induction xs) auto

lemma set_remove_at_subset: "set (remove_at i xs) \<subseteq> set xs"
  by (auto simp: remove_at_def dest: in_set_takeD in_set_dropD)

lemma insert_set_remove_at: "i < length xs \<Longrightarrow> set xs = insert (xs ! i) (set (remove_at i xs))"
  by (metis id_take_nth_drop list.simps(15) remove_at_def set_append Un_insert_right)

lemma map_remove_at: "map f (remove_at i xs) = remove_at i (map f xs)"
  by (simp add: remove_at_def take_map drop_map)

lemma remove_at_split: "i < length xs \<Longrightarrow> xs = take i xs @ xs ! i # drop (Suc i) xs"
  by (rule id_take_nth_drop)

lemma distinct_remove_at: "distinct xs \<Longrightarrow> distinct (remove_at i xs)"
  unfolding remove_at_def
  by (auto simp: set_take_disj_set_drop_if_distinct distinct_take distinct_drop)

lemma distinct_nth_notin_remove_at:
  assumes "distinct xs" and "i < length xs"
  shows "xs ! i \<notin> set (remove_at i xs)"
proof -
  have "distinct (take i xs @ xs ! i # drop (Suc i) xs)"
    using assms by (simp add: id_take_nth_drop [symmetric])
  then show ?thesis by (simp add: remove_at_def)
qed

lemma update_first_no_match: "\<forall>x \<in> set xs. \<not> P x \<Longrightarrow> update_first P f xs = xs"
  by (induction xs) auto

lemma update_first_split:
  assumes "\<exists>x \<in> set xs. P x"
  obtains ys x zs where "xs = ys @ x # zs" "P x" "\<forall>y \<in> set ys. \<not> P y"
    "update_first P f xs = ys @ f x # zs"
  using assms
proof (induction xs arbitrary: thesis)
  case Nil
  then show ?case by simp
next
  case (Cons a xs)
  show ?case
  proof (cases "P a")
    case True
    then show ?thesis using Cons.prems(1) [of "[]" a xs] by simp
  next
    case False
    with Cons.prems(2) have "\<exists>x \<in> set xs. P x" by auto
    with Cons.IH obtain ys x zs where "xs = ys @ x # zs" "P x" "\<forall>y \<in> set ys. \<not> P y"
      "update_first P f xs = ys @ f x # zs" by blast
    then show ?thesis using Cons.prems(1) [of "a # ys" x zs] False by simp
  qed
qed

subsection \<open>Association lists\<close>

text \<open>\<open>HashMap::insert\<close> and \<open>HashMap::remove\<close> on an association list with distinct keys.\<close>

fun al_insert :: "'k \<Rightarrow> 'v \<Rightarrow> ('k \<times> 'v) list \<Rightarrow> ('k \<times> 'v) list" where
  "al_insert k v [] = [(k, v)]"
| "al_insert k v (p # ps) = (if fst p = k then (k, v) # ps else p # al_insert k v ps)"

definition al_remove :: "'k \<Rightarrow> ('k \<times> 'v) list \<Rightarrow> ('k \<times> 'v) list" where
  "al_remove k m = filter (\<lambda>p. fst p \<noteq> k) m"

abbreviation al_keys :: "('k \<times> 'v) list \<Rightarrow> 'k list" where
  "al_keys m \<equiv> map fst m"

lemma map_of_al_insert [alist_simps]: "map_of (al_insert k v m) = (map_of m)(k \<mapsto> v)"
  by (induction m) auto

lemma map_of_al_remove [alist_simps]: "map_of (al_remove k m) = (map_of m)(k := None)"
  by (induction m) (auto simp: al_remove_def)

lemma set_al_keys_insert [alist_simps]:
  "set (al_keys (al_insert k v m)) = insert k (set (al_keys m))"
  by (induction m) auto

lemma distinct_al_insert [alist_simps]:
  "distinct (al_keys m) \<Longrightarrow> distinct (al_keys (al_insert k v m))"
  by (induction m) (auto simp: set_al_keys_insert simp flip: set_map)

lemma distinct_al_remove [alist_simps]:
  "distinct (al_keys m) \<Longrightarrow> distinct (al_keys (al_remove k m))"
  by (simp add: al_remove_def distinct_map_filter)

lemma set_al_keys_remove [alist_simps]:
  "set (al_keys (al_remove k m)) = set (al_keys m) - {k}"
  by (auto simp: al_remove_def)

lemma length_al_remove_le: "length (al_remove k m) \<le> length m"
  by (simp add: al_remove_def)

lemma length_al_remove_less:
  assumes "k \<in> set (al_keys m)"
  shows "length (al_remove k m) < length m"
proof -
  from assms obtain p where "p \<in> set m" and "fst p = k" by auto
  then show ?thesis unfolding al_remove_def by (intro length_filter_less [of p]) auto
qed

lemma length_al_insert_le: "length (al_insert k v m) \<le> Suc (length m)"
  by (induction m) auto

lemma length_al_insert_present: "k \<in> set (al_keys m) \<Longrightarrow> length (al_insert k v m) = length m"
  by (induction m) auto

lemma al_insert_absent: "k \<notin> set (al_keys m) \<Longrightarrow> al_insert k v m = m @ [(k, v)]"
  by (induction m) auto

text \<open>A property of every entry, kept by insertion of a good entry and by removal.\<close>

definition al_all :: "('k \<Rightarrow> 'v \<Rightarrow> bool) \<Rightarrow> ('k \<times> 'v) list \<Rightarrow> bool" where
  "al_all P m \<longleftrightarrow> (\<forall>(k, v) \<in> set m. P k v)"

lemma al_all_Nil [simp]: "al_all P []"
  by (simp add: al_all_def)

lemma al_all_insert: "al_all P m \<Longrightarrow> P k v \<Longrightarrow> al_all P (al_insert k v m)"
  unfolding al_all_def by (induction m) auto

lemma al_all_remove: "al_all P m \<Longrightarrow> al_all P (al_remove k m)"
  by (auto simp: al_all_def al_remove_def)

lemma al_all_mono: "al_all P m \<Longrightarrow> (\<And>k v. P k v \<Longrightarrow> Q k v) \<Longrightarrow> al_all Q m"
  by (auto simp: al_all_def)

lemma al_all_lookup: "al_all P m \<Longrightarrow> map_of m k = Some v \<Longrightarrow> P k v"
  unfolding al_all_def by (drule map_of_SomeD) blast

lemma al_all_key: "al_all (\<lambda>k v. Q k) m \<Longrightarrow> k \<in> set (al_keys m) \<Longrightarrow> Q k"
  by (auto simp: al_all_def)

lemma map_of_key: "map_of m k = Some v \<Longrightarrow> k \<in> set (al_keys m)"
  by (metis domI dom_map_of_conv_image_fst set_map)

lemma key_lookup: "k \<in> set (al_keys m) \<longleftrightarrow> map_of m k \<noteq> None"
  by (metis map_of_eq_None_iff set_map)

text \<open>Byte encodings of the fixed-width integers, \<open>to_be_bytes\<close> and \<open>to_le_bytes\<close>.\<close>

definition be_bytes :: "nat \<Rightarrow> nat \<Rightarrow> bytes" where
  "be_bytes n x = map (\<lambda>i. word_of_nat (x div 256 ^ (n - 1 - i))) [0..<n]"

definition le_bytes :: "nat \<Rightarrow> nat \<Rightarrow> bytes" where
  "le_bytes n x = map (\<lambda>i. word_of_nat (x div 256 ^ i)) [0..<n]"

definition str_bytes :: "string \<Rightarrow> bytes" where
  "str_bytes s = map of_char s"

lemma length_be_bytes [simp]: "length (be_bytes n x) = n"
  by (simp add: be_bytes_def)

lemma length_le_bytes [simp]: "length (le_bytes n x) = n"
  by (simp add: le_bytes_def)

lemma length_str_bytes [simp]: "length (str_bytes s) = length s"
  by (simp add: str_bytes_def)

lemma of_char_byte_inj:
  assumes "(of_char c :: byte) = of_char d"
  shows "c = d"
proof -
  have "(word_of_nat (of_char c) :: byte) = word_of_nat (of_char d)"
    using assms by (simp only: of_nat_of_char)
  then have "of_char c mod 256 = (of_char d mod 256 :: nat)"
    by (simp add: word_of_nat_eq_iff take_bit_eq_mod)
  then have "of_char c = (of_char d :: nat)" by simp
  then show ?thesis by simp
qed

lemma str_bytes_inj [simp]: "str_bytes s = str_bytes t \<longleftrightarrow> s = t"
proof
  assume "str_bytes s = str_bytes t"
  then show "s = t"
    unfolding str_bytes_def by (rule map_inj_on) (auto intro: inj_onI of_char_byte_inj)
qed simp

text \<open>The little-endian digits of a number determine it, so both encodings are injective.\<close>

lemma le_digits_inj:
  fixes x y :: nat
  assumes "x < 256 ^ n" "y < 256 ^ n" "\<And>i. i < n \<Longrightarrow> (x div 256 ^ i) mod 256 = (y div 256 ^ i) mod 256"
  shows "x = y"
  using assms
proof (induction n arbitrary: x y)
  case 0
  then show ?case by simp
next
  case (Suc n)
  have "x div 256 = y div 256"
  proof (rule Suc.IH)
    show "x div 256 < 256 ^ n" and "y div 256 < 256 ^ n"
      using Suc.prems(1,2) by (auto simp: less_mult_imp_div_less mult.commute)
  next
    fix i assume "i < n"
    then show "x div 256 div 256 ^ i mod 256 = y div 256 div 256 ^ i mod 256"
      using Suc.prems(3) [of "Suc i"] by (simp add: div_mult2_eq)
  qed
  moreover have "x mod 256 = y mod 256" using Suc.prems(3) [of 0] by simp
  ultimately show "x = y" by (metis div_mult_mod_eq)
qed

lemma word_of_nat_byte_eq: "(word_of_nat a :: byte) = word_of_nat b \<longleftrightarrow> a mod 256 = b mod 256"
  by (simp add: word_of_nat_eq_iff take_bit_eq_mod)

lemma le_bytes_inj:
  assumes "x < 256 ^ n" "y < 256 ^ n" "le_bytes n x = le_bytes n y"
  shows "x = y"
  using assms(1,2)
proof (rule le_digits_inj)
  fix i assume "i < n"
  then show "(x div 256 ^ i) mod 256 = (y div 256 ^ i) mod 256"
    using assms(3) by (simp add: le_bytes_def word_of_nat_byte_eq)
qed

lemma be_bytes_rev: "be_bytes n x = rev (le_bytes n x)"
proof (rule nth_equalityI)
  fix i assume "i < length (be_bytes n x)"
  then show "be_bytes n x ! i = rev (le_bytes n x) ! i"
    by (simp add: be_bytes_def le_bytes_def rev_nth)
qed simp

lemma be_bytes_inj:
  "x < 256 ^ n \<Longrightarrow> y < 256 ^ n \<Longrightarrow> be_bytes n x = be_bytes n y \<Longrightarrow> x = y"
  by (rule le_bytes_inj) (simp_all add: be_bytes_rev)

text \<open>String prefixes: \<open>str::starts_with\<close> and \<open>strip_prefix\<close>.\<close>

fun starts_with :: "'a list \<Rightarrow> 'a list \<Rightarrow> bool" where
  "starts_with xs [] = True"
| "starts_with [] (p # ps) = False"
| "starts_with (x # xs) (p # ps) = (x = p \<and> starts_with xs ps)"

definition strip_prefix :: "'a list \<Rightarrow> 'a list \<Rightarrow> 'a list option" where
  "strip_prefix p xs = (if starts_with xs p then Some (drop (length p) xs) else None)"

lemma starts_with_iff: "starts_with xs p \<longleftrightarrow> (\<exists>ys. xs = p @ ys)"
  by (induction xs p rule: starts_with.induct) auto

lemma starts_with_append [simp]: "starts_with (p @ ys) p"
  by (auto simp: starts_with_iff)

lemma strip_prefix_append [simp]: "strip_prefix p (p @ ys) = Some ys"
  by (simp add: strip_prefix_def)

lemma strip_prefix_Some: "strip_prefix p xs = Some ys \<longleftrightarrow> xs = p @ ys"
  by (auto simp: strip_prefix_def starts_with_iff)

subsection \<open>Decimal numbers\<close>

text \<open>\<open>u64::to_string\<close>, and \<open>str::parse\<close> on digits: at least one, nothing else.\<close>

fun show_nat :: "nat \<Rightarrow> string" where
  "show_nat n = (if n < 10 then [char_of (48 + n)] else show_nat (n div 10) @ [char_of (48 + n mod 10)])"

declare show_nat.simps [simp del]

definition show_int :: "int \<Rightarrow> string" where
  "show_int n = (if n < 0 then CHR ''-'' # show_nat (nat (- n)) else show_nat (nat n))"

definition digit :: "char \<Rightarrow> nat option" where
  "digit c = (let n = of_char c in if 48 \<le> n \<and> n \<le> (57 :: nat) then Some (n - 48) else None)"

fun parse_digits :: "nat \<Rightarrow> string \<Rightarrow> nat option" where
  "parse_digits a [] = Some a"
| "parse_digits a (c # cs) = Option.bind (digit c) (\<lambda>d. parse_digits (a * 10 + d) cs)"

definition parse_i64 :: "string \<Rightarrow> int option" where
  "parse_i64 s =
     Option.bind (case s of
         [] \<Rightarrow> None
       | c # cs \<Rightarrow>
           if cs \<noteq> [] \<and> c = CHR ''-'' then map_option (\<lambda>n. - int n) (parse_digits 0 cs)
           else if cs \<noteq> [] \<and> c = CHR ''+'' then map_option int (parse_digits 0 cs)
           else map_option int (parse_digits 0 s))
       (\<lambda>n. if - (2 ^ 63) \<le> n \<and> n < 2 ^ 63 then Some n else None)"

lemma digit_char [simp]: "d < 10 \<Longrightarrow> digit (char_of (48 + d)) = Some d"
proof -
  assume d: "d < 10"
  have "(of_char (char_of (48 + d) :: char) :: nat) = 48 + d"
    using d by (simp only: of_char_of) simp
  then show "digit (char_of (48 + d)) = Some d" unfolding digit_def Let_def using d by simp
qed

lemma parse_digits_append:
  "parse_digits a (s @ t) = Option.bind (parse_digits a s) (\<lambda>b. parse_digits b t)"
  by (induction a s rule: parse_digits.induct) (auto split: option.splits Option.bind_splits)

lemma parse_show_nat [simp]: "parse_digits 0 (show_nat n) = Some n"
proof (induction n rule: show_nat.induct)
  case (1 n)
  show ?case
  proof (cases "n < 10")
    case True
    then show ?thesis by (simp add: show_nat.simps [of n])
  next
    case False
    then show ?thesis using 1 by (simp add: show_nat.simps [of n] parse_digits_append)
  qed
qed

lemma show_nat_digits: "show_nat n \<noteq> [] \<and> digit (hd (show_nat n)) \<noteq> None"
proof (induction n rule: show_nat.induct)
  case (1 n)
  then show ?case by (cases "n < 10") (auto simp: show_nat.simps [of n])
qed

lemma parse_show_i64:
  assumes "- (2 ^ 63) \<le> n" "n < 2 ^ 63"
  shows "parse_i64 (show_int n) = Some n"
proof -
  have p: "parse_i64 (show_nat m) = (if int m < 2 ^ 63 then Some (int m) else None)" for m
  proof -
    obtain c cs where s: "show_nat m = c # cs" "digit c \<noteq> None"
      using show_nat_digits [of m] by (cases "show_nat m") auto
    have "c \<noteq> CHR ''-''" "c \<noteq> CHR ''+''" using s(2) by (auto simp: digit_def)
    then show ?thesis using parse_show_nat [of m] unfolding s(1) parse_i64_def by (simp only: list.case if_False simp_thms) simp
  qed
  show ?thesis
  proof (cases "n < 0")
    case True
    then have "show_nat (nat (- n)) \<noteq> []" using show_nat_digits by blast
    then show ?thesis using True assms by (simp add: parse_i64_def show_int_def)
  next
    case False
    then show ?thesis using assms p [of "nat n"] by (simp add: show_int_def)
  qed
qed

end
