(* ===== verification/Json.thy ===== *)
theory Json
  imports Prelude
begin

text \<open>
  The JSON data model (\<open>serde_json::Value\<close>) and the accessors the source uses on it. An object
  is an association list; the wire numbers the modelled code reads are integers.
\<close>

datatype json =
    JNull
  | JBool bool
  | JNum int
  | JStr string
  | JArr "json list"
  | JObj "(string \<times> json) list"

text \<open>
  The model has \<open>serde_json\<close>'s integers and no floating-point numbers. The nesting of arrays and
  objects: \<open>serde_json\<close> prints any, and its parser refuses the 128th level.
\<close>

primrec json_depth :: "json \<Rightarrow> nat" where
  "json_depth JNull = 0"
| "json_depth (JBool b) = 0"
| "json_depth (JNum n) = 0"
| "json_depth (JStr s) = 0"
| "json_depth (JArr vs) = Suc (foldr max (map json_depth vs) 0)"
| "json_depth (JObj m) = Suc (foldr max (map snd (map (map_prod id json_depth) m)) 0)"

definition JSON_MAX_DEPTH :: nat where "JSON_MAX_DEPTH = 127"

declare json_depth.simps(5,6) [simp del]

lemma foldr_max_le: "foldr max xs (0::nat) \<le> d \<longleftrightarrow> (\<forall>x \<in> set xs. x \<le> d)"
  by (induction xs) auto

lemma json_depth_le [simp]:
  "0 < d \<Longrightarrow> json_depth (JArr vs) \<le> d \<longleftrightarrow> (\<forall>v \<in> set vs. json_depth v \<le> d - 1)"
  "0 < d \<Longrightarrow> json_depth (JObj m) \<le> d \<longleftrightarrow> (\<forall>p \<in> set m. json_depth (snd p) \<le> d - 1)"
  by (cases d; auto simp: json_depth.simps foldr_max_le)+

fun as_str :: "json \<Rightarrow> string option" where
  "as_str (JStr s) = Some s"
| "as_str _ = None"

fun as_object :: "json \<Rightarrow> (string \<times> json) list option" where
  "as_object (JObj m) = Some m"
| "as_object _ = None"

fun is_string :: "json \<Rightarrow> bool" where
  "is_string (JStr s) = True"
| "is_string _ = False"

text \<open>\<open>Value::get\<close> by key and \<open>Value::pointer\<close> along a path of object keys.\<close>

fun jget :: "string \<Rightarrow> json \<Rightarrow> json option" where
  "jget k (JObj m) = map_of m k"
| "jget k _ = None"

fun jpointer :: "string list \<Rightarrow> json \<Rightarrow> json option" where
  "jpointer [] v = Some v"
| "jpointer (k # ks) v = Option.bind (jget k v) (jpointer ks)"

text \<open>\<open>Map::remove\<close>, \<open>Map::retain\<close> and the in-place update behind \<open>pointer_mut\<close>.\<close>

definition jobj_remove :: "string \<Rightarrow> (string \<times> json) list \<Rightarrow> (string \<times> json) list" where
  "jobj_remove k m = filter (\<lambda>p. fst p \<noteq> k) m"

fun jupdate :: "string list \<Rightarrow> (json \<Rightarrow> json) \<Rightarrow> json \<Rightarrow> json" where
  "jupdate [] f v = f v"
| "jupdate (k # ks) f (JObj m) = JObj (map (\<lambda>(k', v). if k' = k then (k', jupdate ks f v) else (k', v)) m)"
| "jupdate (k # ks) f v = v"

lemma is_string_iff: "is_string v \<longleftrightarrow> (\<exists>s. v = JStr s)"
  by (cases v) auto

lemma as_str_Some [simp]: "as_str v = Some s \<longleftrightarrow> v = JStr s"
  by (cases v) auto

lemma as_object_Some [simp]: "as_object v = Some m \<longleftrightarrow> v = JObj m"
  by (cases v) auto

lemma map_of_update_key:
  "map_of (map (\<lambda>(k', v). if k' = k then (k', f v) else (k', v)) m) k'' =
   (if k'' = k then map_option f (map_of m k) else map_of m k'')"
  by (induction m) auto

lemma jget_jupdate:
  "jget k' (jupdate (k # ks) f v) =
   (if k' = k then map_option (jupdate ks f) (jget k v) else jget k' v)"
  by (cases v) (auto simp: map_of_update_key)

text \<open>An update at a path is what a later read of that path sees.\<close>

lemma jpointer_jupdate:
  "jpointer ks (jupdate ks f v) = map_option f (jpointer ks v)"
proof (induction ks arbitrary: v)
  case Nil
  then show ?case by simp
next
  case (Cons k ks)
  then show ?case by (cases "jget k v") (auto simp: jget_jupdate)
qed


end
