(* ===== verification/Codec.thy ===== *)
theory Codec
  imports Json "HOL-Library.Char_ord"
begin

text \<open>
  The wire codec (\<open>codec/src/lib.rs\<close>): newline-delimited JSON with a frame cap, and the session
  policy that rides on it, the strike counter (\<open>net/src/framing.rs\<close>), the synthesized errors
  (\<open>net/src/errors.rs\<close>) and \<open>recv_frame\<close> (\<open>net/src/endpoint.rs\<close>).

  \<open>serde_json\<close> is a parameter: a parser and a compact printer. A byte source is the list of bytes
  still to come and what the read after them reports, end of file or an I/O error; the reader sees
  it one byte at a time, so how the bytes were chunked on the wire plays no part.
\<close>

record serde =
  from_slice :: "bytes \<Rightarrow> json option"
  to_vec :: "json \<Rightarrow> bytes option"

text \<open>
  The values of \<open>serde_json::Value\<close> the model has: integers in the range of \<open>i64\<close> and \<open>u64\<close>, and objects
  in the key order of its map. Compact JSON has no raw newline, and what is printed of such a value
  parses back to it, unless it is nested beyond what the parser accepts.
\<close>

primrec serde_value :: "json \<Rightarrow> bool" where
  "serde_value JNull = True"
| "serde_value (JBool b) = True"
| "serde_value (JNum n) = (- (2 ^ 63) \<le> n \<and> n < 2 ^ 64)"
| "serde_value (JStr s) = True"
| "serde_value (JArr vs) = list_all id (map serde_value vs)"
| "serde_value (JObj m) = (sorted_wrt (<) (al_keys m) \<and> list_all snd (map (map_prod id serde_value) m))"

definition serde_roundtrip :: "serde \<Rightarrow> bool" where
  "serde_roundtrip S \<longleftrightarrow> (\<forall>v line. to_vec S v = Some line \<longrightarrow> 10 \<notin> set line \<and>
     (serde_value v \<longrightarrow> json_depth v \<le> JSON_MAX_DEPTH \<longrightarrow> from_slice S line = Some v))"

definition MAX_FRAME_BYTES :: nat where
  "MAX_FRAME_BYTES = 16 * 1024 * 1024"

datatype violation = TooLarge | InvalidJson

datatype inbound = Frame json | Violation violation

datatype io_error = IoError

record frame_reader =
  fr_reader :: bytes
  fr_broken :: bool
  fr_max_frame :: nat
  fr_buf :: bytes
  fr_discarding :: bool

definition fr_new :: "bytes \<Rightarrow> bool \<Rightarrow> nat \<Rightarrow> frame_reader" where
  "fr_new reader broken max_frame = \<lparr>fr_reader = reader, fr_broken = broken, fr_max_frame = max_frame,
     fr_buf = [], fr_discarding = False\<rparr>"

definition parse_line :: "serde \<Rightarrow> bytes \<Rightarrow> inbound" where
  "parse_line S line = (case from_slice S line of Some v \<Rightarrow> Frame v | None \<Rightarrow> Violation InvalidJson)"

function fr_next :: "serde \<Rightarrow> frame_reader \<Rightarrow> (io_error + inbound option) \<times> frame_reader" where
  "fr_next S r =
     (case fr_reader r of
        [] \<Rightarrow>
          if fr_broken r then (Inl IoError, r)
          else if fr_discarding r then (Inr (Some (Violation TooLarge)), r\<lparr>fr_discarding := False\<rparr>)
          else (Inr None, r)
      | byte # rest \<Rightarrow>
          let r = r\<lparr>fr_reader := rest\<rparr> in
          if byte = 10 then
            if fr_discarding r then (Inr (Some (Violation TooLarge)), r\<lparr>fr_discarding := False\<rparr>)
            else (Inr (Some (parse_line S (fr_buf r))), r\<lparr>fr_buf := []\<rparr>)
          else if fr_discarding r then fr_next S r
          else if length (fr_buf r) \<ge> fr_max_frame r
          then fr_next S (r\<lparr>fr_discarding := True, fr_buf := []\<rparr>)
          else fr_next S (r\<lparr>fr_buf := fr_buf r @ [byte]\<rparr>))"
  by pat_completeness auto
termination by (relation "measure (\<lambda>(S, r). length (fr_reader r))") auto

declare fr_next.simps [simp del]

definition write_frame :: "serde \<Rightarrow> bytes \<Rightarrow> json \<Rightarrow> io_error + bytes" where
  "write_frame S w frame =
     (case to_vec S frame of None \<Rightarrow> Inl IoError | Some line \<Rightarrow> Inr (w @ line @ [10]))"

fun write_frames :: "serde \<Rightarrow> bytes \<Rightarrow> json list \<Rightarrow> io_error + bytes" where
  "write_frames S w [] = Inr w"
| "write_frames S w (f # fs) = rbind (write_frame S w f) (\<lambda>w'. write_frames S w' fs)"

fun read_frames :: "serde \<Rightarrow> nat \<Rightarrow> frame_reader \<Rightarrow> (io_error + inbound option) list \<times> frame_reader" where
  "read_frames S 0 r = ([], r)"
| "read_frames S (Suc n) r =
     (let (x, r') = fr_next S r; (xs, r'') = read_frames S n r' in (x # xs, r''))"

subsection \<open>Strikes and synthesized errors\<close>

datatype strike_outcome = Continue | Close

text \<open>The counter is a \<open>u8\<close> with a saturating increment.\<close>

definition strikes_register :: "8 word \<Rightarrow> strike_outcome \<times> 8 word" where
  "strikes_register s = (let s' = (if s = - 1 then s else s + 1) in (if s' \<ge> 3 then Close else Continue, s'))"

definition ERR_FRAMING :: int where "ERR_FRAMING = - 32051"
definition ERR_LIMIT :: int where "ERR_LIMIT = - 32053"
definition ERR_SERVICE :: int where "ERR_SERVICE = - 32054"
definition ERR_PARSE :: int where "ERR_PARSE = - 32700"
definition MSG_SERVICE :: string where "MSG_SERVICE = ''unknown or unauthorized service''"

definition synthesized :: "json \<Rightarrow> int \<Rightarrow> string \<Rightarrow> json" where
  "synthesized i code message = JObj [(''jsonrpc'', JStr ''2.0''), (''id'', i), (''error'',
     JObj [(''code'', JNum code), (''message'', JStr message),
       (''data'', JObj [(''source'', JStr ''mcpmesh'')])])]"

definition synthesized_limited :: "json \<Rightarrow> u64 \<Rightarrow> json" where
  "synthesized_limited i retry_after_ms = JObj [(''jsonrpc'', JStr ''2.0''), (''id'', i), (''error'',
     JObj [(''code'', JNum ERR_LIMIT), (''message'', JStr ''rate limited''),
       (''data'', JObj [(''source'', JStr ''mcpmesh''), (''retry_after_ms'', JNum (uint retry_after_ms))])])]"

definition violation_error :: "violation \<Rightarrow> json" where
  "violation_error v = (case v of
     TooLarge \<Rightarrow> synthesized JNull ERR_FRAMING ''frame exceeds max_frame_bytes''
   | InvalidJson \<Rightarrow> synthesized JNull ERR_PARSE ''frame is not valid JSON'')"

lemma strikes_Continue: "strikes_register s = (Continue, s') \<longleftrightarrow> s < 2 \<and> s' = s + 1"
proof -
  have m: "s = - 1 \<longleftrightarrow> unat s = 255" by (simp add: word_unat_eq_iff unsigned_minus_1_eq_mask mask_eq_exp_minus_1)
  have "unat (s + 1) = unat s + 1" if "s \<noteq> - 1"
    using that m unsigned_less [where ?'a = nat, of s] by (simp add: unat_word_ariths)
  then have "s \<noteq> - 1 \<and> s + 1 < 3 \<longleftrightarrow> s < 2" using m by (auto simp: word_less_nat_alt)
  then show ?thesis by (auto simp: strikes_register_def Let_def not_le)
qed

lemma strikes_Close: "strikes_register s = (Close, s') \<Longrightarrow> 2 \<le> s"
  using strikes_Continue [of s] by (cases "strikes_register s") (auto simp: not_less [symmetric] strikes_register_def Let_def split: if_splits)

text \<open>
  \<open>recv_frame\<close>: the frame (if any), the reader, the strikes, and the error frames sent while
  waiting for it. The sends are best effort, so their failure changes nothing here.
\<close>

function recv_frame ::
  "serde \<Rightarrow> frame_reader \<Rightarrow> 8 word \<Rightarrow> json list \<Rightarrow> json option \<times> frame_reader \<times> 8 word \<times> json list" where
  "recv_frame S r strikes sent =
     (case fr_next S r of
        (Inr (Some (Frame v)), r') \<Rightarrow> (Some v, r', strikes, sent)
      | (Inr None, r') \<Rightarrow> (None, r', strikes, sent)
      | (Inl _, r') \<Rightarrow> (None, r', strikes, sent)
      | (Inr (Some (Violation v)), r') \<Rightarrow>
          (case strikes_register strikes of
             (Close, s') \<Rightarrow> (None, r', s', sent @ [violation_error v])
           | (Continue, s') \<Rightarrow> recv_frame S r' s' (sent @ [violation_error v])))"
  by pat_completeness auto
termination
  by (relation "measure (\<lambda>(S, r, s, sent). 2 - unat s)")
    (auto simp: strikes_Continue [unfolded eq_commute [of "strikes_register _"]] strikes_Continue word_less_nat_alt unat_word_ariths)

declare recv_frame.simps [simp del]

subsection \<open>Reading line by line\<close>

text \<open>The verdict on one line: too long, or whatever the parser says.\<close>

definition line_verdict :: "serde \<Rightarrow> nat \<Rightarrow> bytes \<Rightarrow> inbound" where
  "line_verdict S cap line = (if length line > cap then Violation TooLarge else parse_line S line)"

definition terminated :: "bytes list \<Rightarrow> bytes" where
  "terminated lines = concat (map (\<lambda>l. l @ [10]) lines)"

lemma terminated_simps [simp]:
  "terminated [] = []" "terminated (l # ls) = l @ 10 # terminated ls"
  by (simp_all add: terminated_def)

lemma terminated_append [simp]: "terminated (ls @ ls') = terminated ls @ terminated ls'"
  by (simp add: terminated_def)

lemma fr_next_discarding:
  "10 \<notin> set line \<Longrightarrow> fr_reader r = line @ 10 # rest \<Longrightarrow> fr_discarding r \<Longrightarrow>
     fr_next S r = (Inr (Some (Violation TooLarge)), r\<lparr>fr_reader := rest, fr_discarding := False\<rparr>)"
proof (induction line arbitrary: r)
  case Nil
  then show ?case by (subst fr_next.simps) simp
next
  case (Cons b line)
  then show ?case by (subst fr_next.simps) (simp add: Let_def)
qed

lemma fr_next_partial:
  "10 \<notin> set line \<Longrightarrow> fr_reader r = line @ 10 # rest \<Longrightarrow> \<not> fr_discarding r \<Longrightarrow>
   length (fr_buf r) \<le> fr_max_frame r \<Longrightarrow>
     fr_next S r = (Inr (Some (line_verdict S (fr_max_frame r) (fr_buf r @ line))), r\<lparr>fr_reader := rest, fr_buf := []\<rparr>)"
proof (induction line arbitrary: r)
  case Nil
  then show ?case by (subst fr_next.simps) (simp add: line_verdict_def)
next
  case (Cons b line)
  show ?case
  proof (cases "length (fr_buf r) \<ge> fr_max_frame r")
    case True
    let ?r = "r\<lparr>fr_reader := line @ 10 # rest, fr_discarding := True, fr_buf := []\<rparr>"
    have "fr_next S r = fr_next S ?r"
      using Cons.prems True by (subst fr_next.simps) (simp add: Let_def)
    also have "\<dots> = (Inr (Some (Violation TooLarge)), ?r\<lparr>fr_reader := rest, fr_discarding := False\<rparr>)"
      using Cons.prems by (intro fr_next_discarding) auto
    finally show ?thesis using Cons.prems True by (simp add: line_verdict_def)
  next
    case False
    let ?r = "r\<lparr>fr_reader := line @ 10 # rest, fr_buf := fr_buf r @ [b]\<rparr>"
    have "fr_next S r = fr_next S ?r"
      using Cons.prems False by (subst fr_next.simps) (simp add: Let_def)
    also have "\<dots> = (Inr (Some (line_verdict S (fr_max_frame r) (fr_buf r @ b # line))),
        ?r\<lparr>fr_reader := rest, fr_buf := []\<rparr>)"
      using Cons.IH [of ?r] Cons.prems False by simp
    finally show ?thesis by simp
  qed
qed

lemma fr_next_line:
  "10 \<notin> set line \<Longrightarrow>
     fr_next S (fr_new (line @ 10 # rest) br cap) = (Inr (Some (line_verdict S cap line)), fr_new rest br cap)"
  using fr_next_partial [of line "fr_new (line @ 10 # rest) br cap" rest S] by (simp add: fr_new_def)

lemma fr_next_eof: "fr_next S (fr_new [] False cap) = (Inr None, fr_new [] False cap)"
  by (subst fr_next.simps) (simp add: fr_new_def)

lemma read_lines:
  "\<forall>l \<in> set lines. 10 \<notin> set l \<Longrightarrow>
     read_frames S (length lines) (fr_new (terminated lines @ rest) br cap) =
       (map (\<lambda>l. Inr (Some (line_verdict S cap l))) lines, fr_new rest br cap)"
  by (induction lines) (simp_all add: fr_next_line)

lemma write_frames_lines:
  "write_frames S w fs = Inr w' \<longleftrightarrow>
     (\<exists>lines. list_all2 (\<lambda>f l. to_vec S f = Some l) fs lines \<and> w' = w @ terminated lines)"
proof (induction fs arbitrary: w)
  case Nil
  then show ?case by auto
next
  case (Cons f fs)
  then show ?case
    by (auto simp: write_frame_def result_simps list_all2_Cons1 split: option.splits)
qed

lemma fr_next_byte:
  "fr_reader r = b # rest \<Longrightarrow> fr_next S r =
     (if b = 10 then
        if fr_discarding r then (Inr (Some (Violation TooLarge)), r\<lparr>fr_reader := rest, fr_discarding := False\<rparr>)
        else (Inr (Some (parse_line S (fr_buf r))), r\<lparr>fr_reader := rest, fr_buf := []\<rparr>)
      else if fr_discarding r then fr_next S (r\<lparr>fr_reader := rest\<rparr>)
      else if length (fr_buf r) \<ge> fr_max_frame r
      then fr_next S (r\<lparr>fr_reader := rest, fr_discarding := True, fr_buf := []\<rparr>)
      else fr_next S (r\<lparr>fr_reader := rest, fr_buf := fr_buf r @ [b]\<rparr>))"
  by (subst fr_next.simps) (simp add: Let_def)

text \<open>The line buffer never exceeds the cap, whatever the peer sends.\<close>

lemma fr_buf_bounded:
  "length (fr_buf r) \<le> fr_max_frame r \<Longrightarrow> fr_next S r = (x, r') \<Longrightarrow>
     length (fr_buf r') \<le> fr_max_frame r' \<and> fr_max_frame r' = fr_max_frame r"
proof (induction S r arbitrary: x r' rule: fr_next.induct)
  case (1 S r)
  show ?case
  proof (cases "fr_reader r")
    case Nil
    then show ?thesis using "1.prems" by (subst (asm) fr_next.simps) (auto split: if_splits)
  next
    case (Cons b rest)
    note IH = "1.IH" [OF Cons refl]
    consider "b = 10" | "b \<noteq> 10" "fr_discarding r" | "b \<noteq> 10" "\<not> fr_discarding r" "fr_max_frame r \<le> length (fr_buf r)"
      | "b \<noteq> 10" "\<not> fr_discarding r" "length (fr_buf r) < fr_max_frame r" by linarith
    then show ?thesis
    proof cases
      case 1
      then show ?thesis using "1.prems" Cons by (auto simp: fr_next_byte split: if_splits)
    next
      case 2
      then show ?thesis using "1.prems" Cons IH(1) [of x r'] by (simp add: fr_next_byte)
    next
      case 3
      then show ?thesis using "1.prems" Cons IH(2) [of x r'] by (simp add: fr_next_byte)
    next
      case 4
      then show ?thesis using "1.prems" Cons IH(3) [of x r'] by (simp add: fr_next_byte)
    qed
  qed
qed

subsection \<open>Receiving under the strike policy\<close>

definition is_violation :: "inbound \<Rightarrow> bool" where
  "is_violation x = (case x of Frame _ \<Rightarrow> False | Violation _ \<Rightarrow> True)"

fun violation_of :: "inbound \<Rightarrow> violation" where
  "violation_of (Violation v) = v"
| "violation_of (Frame _) = InvalidJson"

text \<open>A well-formed line after fewer than three bad ones in total is delivered, the bad ones answered.\<close>

lemma recv_frame_delivers:
  assumes "\<forall>l \<in> set bad. 10 \<notin> set l \<and> is_violation (line_verdict S cap l)"
    and "10 \<notin> set good" "line_verdict S cap good = Frame v" "unat s + length bad < 3"
  shows "recv_frame S (fr_new (terminated bad @ good @ 10 # rest) br cap) s sent =
     (Some v, fr_new rest br cap, s + of_nat (length bad),
      sent @ map (\<lambda>l. violation_error (violation_of (line_verdict S cap l))) bad)"
  using assms
proof (induction bad arbitrary: s sent)
  case Nil
  then show ?case by (subst recv_frame.simps) (simp add: fr_next_line)
next
  case (Cons l bad)
  obtain w where w: "line_verdict S cap l = Violation w"
    using Cons.prems(1) by (auto simp: is_violation_def split: inbound.splits)
  have lt: "s < 2" "unat (s + 1) = unat s + 1"
    using Cons.prems(4) by (auto simp: word_less_nat_alt unat_word_ariths)
  then have "strikes_register s = (Continue, s + 1)" by (simp add: strikes_Continue)
  then have "recv_frame S (fr_new (terminated (l # bad) @ good @ 10 # rest) br cap) s sent =
      recv_frame S (fr_new (terminated bad @ good @ 10 # rest) br cap) (s + 1) (sent @ [violation_error w])"
    using Cons.prems(1) by (subst recv_frame.simps) (simp add: fr_next_line w)
  also have "\<dots> = (Some v, fr_new rest br cap, s + 1 + of_nat (length bad),
      (sent @ [violation_error w]) @ map (\<lambda>l. violation_error (violation_of (line_verdict S cap l))) bad)"
    using Cons.prems lt by (intro Cons.IH) auto
  finally show ?case by (simp add: w algebra_simps)
qed

text \<open>The strike that brings the total to three ends the read, with its error still sent.\<close>

lemma recv_frame_strikes_out:
  assumes "\<forall>l \<in> set (bad @ [final]). 10 \<notin> set l \<and> is_violation (line_verdict S cap l)"
    and "unat s + length bad = 2"
  shows "\<exists>s'. recv_frame S (fr_new (terminated (bad @ [final]) @ rest) br cap) s sent =
     (None, fr_new rest br cap, s',
      sent @ map (\<lambda>l. violation_error (violation_of (line_verdict S cap l))) (bad @ [final]))"
  using assms
proof (induction bad arbitrary: s sent)
  case Nil
  obtain w where w: "line_verdict S cap final = Violation w"
    using Nil.prems(1) by (auto simp: is_violation_def split: inbound.splits)
  have "\<not> s < 2" using Nil.prems(2) by (simp add: word_less_nat_alt)
  then obtain s' where "strikes_register s = (Close, s')"
    by (cases "strikes_register s"; cases "fst (strikes_register s)") (auto simp: strikes_Continue)
  then show ?case using Nil.prems(1) by (subst recv_frame.simps) (simp add: fr_next_line w)
next
  case (Cons l bad)
  obtain w where w: "line_verdict S cap l = Violation w"
    using Cons.prems(1) by (auto simp: is_violation_def split: inbound.splits)
  have lt: "s < 2" "unat (s + 1) = unat s + 1"
    using Cons.prems(2) by (auto simp: word_less_nat_alt unat_word_ariths)
  then have "strikes_register s = (Continue, s + 1)" by (simp add: strikes_Continue)
  then have step: "recv_frame S (fr_new (terminated ((l # bad) @ [final]) @ rest) br cap) s sent =
      recv_frame S (fr_new (terminated (bad @ [final]) @ rest) br cap) (s + 1) (sent @ [violation_error w])"
    using Cons.prems(1) by (subst recv_frame.simps) (simp add: fr_next_line w)
  have "\<exists>s'. recv_frame S (fr_new (terminated (bad @ [final]) @ rest) br cap) (s + 1) (sent @ [violation_error w]) =
     (None, fr_new rest br cap, s', (sent @ [violation_error w]) @
       map (\<lambda>l. violation_error (violation_of (line_verdict S cap l))) (bad @ [final]))"
    using Cons.prems lt by (intro Cons.IH) auto
  then show ?case unfolding step by (simp add: w)
qed

end
