(* ===== verification/Service.thy ===== *)
theory Service
  imports Json
begin

text \<open>
  Service selection on the first frame of a session, and the reserved \<open>_meta\<close> namespace
  (\<open>net/src/service.rs\<close>). A caller may name a service under either spelling of the routing key;
  every reserved key, and a \<open>clientInfo\<close> that imitates a principal, is removed from the frame before
  anything acts on it, through nested JSON-RPC batches.
\<close>

definition MAX_BATCH_DEPTH :: nat where "MAX_BATCH_DEPTH = 8"
definition CLIENT_INFO_KEY :: string where "CLIENT_INFO_KEY = ''io.modelcontextprotocol/clientInfo''"
definition LEGACY_META_PREFIX :: string where "LEGACY_META_PREFIX = ''mcpmesh/''"
definition META_PREFIX :: string where "META_PREFIX = ''tech.counterpunch.mcpmesh/''"

definition RESERVED_META_PREFIXES :: "string list" where
  "RESERVED_META_PREFIXES = [LEGACY_META_PREFIX, META_PREFIX]"

definition SERVICE_KEYS :: "string list" where
  "SERVICE_KEYS = [''tech.counterpunch.mcpmesh/service'', ''mcpmesh/service'']"

definition PEER_KEYS :: "string list" where
  "PEER_KEYS = [''tech.counterpunch.mcpmesh/peer'', ''mcpmesh/peer'']"

definition PRINCIPAL_PREFIXES :: "string list" where
  "PRINCIPAL_PREFIXES = [''eid:'', ''b64u:'']"

datatype service_decision = Selected string | Refuse

definition reserved_key :: "string \<Rightarrow> bool" where
  "reserved_key k \<longleftrightarrow> (\<exists>p \<in> set RESERVED_META_PREFIXES. starts_with k p)"

abbreviation meta_path :: "string list" where
  "meta_path \<equiv> [''params'', ''_meta'']"

definition retain_unreserved :: "json \<Rightarrow> json" where
  "retain_unreserved v = (case as_object v of None \<Rightarrow> v | Some m \<Rightarrow> JObj (filter (\<lambda>p. \<not> reserved_key (fst p)) m))"

function strip_reserved_meta_to_depth :: "nat \<Rightarrow> json \<Rightarrow> json" where
  "strip_reserved_meta_to_depth depth frame =
     (case frame of
        JArr batch \<Rightarrow>
          if depth < MAX_BATCH_DEPTH then JArr (map (strip_reserved_meta_to_depth (depth + 1)) batch)
          else JArr batch
      | _ \<Rightarrow> jupdate meta_path retain_unreserved frame)"
  by pat_completeness auto
termination by (relation "measure (\<lambda>(d, _). MAX_BATCH_DEPTH - d)") auto

definition strip_reserved_meta :: "json \<Rightarrow> json" where
  "strip_reserved_meta frame = strip_reserved_meta_to_depth 0 frame"

text \<open>Whether a \<open>_meta\<close> object names its client software in the principal grammar.\<close>

definition impersonates :: "(string \<times> json) list \<Rightarrow> bool" where
  "impersonates meta =
     (case Option.bind (Option.bind (map_of meta CLIENT_INFO_KEY) (jget ''name'')) as_str of
        None \<Rightarrow> False
      | Some n \<Rightarrow> \<exists>p \<in> set PRINCIPAL_PREFIXES. starts_with n p)"

definition drop_client_info :: "json \<Rightarrow> json" where
  "drop_client_info v =
     (case as_object v of None \<Rightarrow> v
      | Some m \<Rightarrow> if impersonates m then JObj (jobj_remove CLIENT_INFO_KEY m) else v)"

definition meta_impersonates :: "json \<Rightarrow> bool" where
  "meta_impersonates frame =
     (case Option.bind (jpointer meta_path frame) as_object of None \<Rightarrow> False | Some m \<Rightarrow> impersonates m)"

function strip_impersonating_client_info_to_depth :: "nat \<Rightarrow> json \<Rightarrow> bool \<times> json" where
  "strip_impersonating_client_info_to_depth depth frame =
     (case frame of
        JArr batch \<Rightarrow>
          if depth \<ge> MAX_BATCH_DEPTH then (False, frame)
          else let done = map (strip_impersonating_client_info_to_depth (depth + 1)) batch
               in (\<exists>x \<in> set done. fst x, JArr (map snd done))
      | _ \<Rightarrow> (meta_impersonates frame, jupdate meta_path drop_client_info frame))"
  by pat_completeness auto
termination by (relation "measure (\<lambda>(d, _). MAX_BATCH_DEPTH - d)") auto

definition strip_impersonating_client_info :: "json \<Rightarrow> bool \<times> json" where
  "strip_impersonating_client_info frame = strip_impersonating_client_info_to_depth 0 frame"

definition select_service :: "json \<Rightarrow> string list \<Rightarrow> service_decision \<times> json" where
  "select_service init caller_allowed =
     (let entries = map (\<lambda>key. jpointer (meta_path @ [key]) init) SERVICE_KEYS;
          present = List.map_filter id entries;
          malformed = (\<exists>v \<in> set present. \<not> is_string v);
          conflicting = (case (Option.bind (entries ! 0) as_str, Option.bind (entries ! 1) as_str) of
              (Some a, Some b) \<Rightarrow> a \<noteq> b | _ \<Rightarrow> False);
          requested = (case List.map_filter as_str present of [] \<Rightarrow> None | s # _ \<Rightarrow> Some s);
          frame = snd (strip_impersonating_client_info (strip_reserved_meta init))
      in (if malformed \<or> conflicting then Refuse
          else case requested of
            Some name \<Rightarrow> if name \<in> set caller_allowed then Selected name else Refuse
          | None \<Rightarrow> (case caller_allowed of [only] \<Rightarrow> Selected only | _ \<Rightarrow> Refuse),
          frame))"

declare strip_reserved_meta_to_depth.simps [simp del] strip_impersonating_client_info_to_depth.simps [simp del]

subsection \<open>Reading a request\<close>

text \<open>What a caller asked for: nothing, one service, or something unusable.\<close>

datatype service_request = Unnamed | Named string | Incoherent

definition service_request :: "json \<Rightarrow> service_request" where
  "service_request init =
     (case (jpointer (meta_path @ [''tech.counterpunch.mcpmesh/service'']) init,
            jpointer (meta_path @ [''mcpmesh/service'']) init) of
        (None, None) \<Rightarrow> Unnamed
      | (Some (JStr s), None) \<Rightarrow> Named s
      | (None, Some (JStr s)) \<Rightarrow> Named s
      | (Some (JStr s), Some (JStr t)) \<Rightarrow> if s = t then Named s else Incoherent
      | _ \<Rightarrow> Incoherent)"

lemma map_filter_simps2 [simp]:
  "List.map_filter f [] = []"
  "List.map_filter f (x # xs) = (case f x of None \<Rightarrow> List.map_filter f xs | Some y \<Rightarrow> y # List.map_filter f xs)"
  by (simp_all add: map_filter_simps split: option.splits)

lemma select_service_decision:
  "fst (select_service init allowed) =
     (case service_request init of
        Named s \<Rightarrow> if s \<in> set allowed then Selected s else Refuse
      | Unnamed \<Rightarrow> (case allowed of [only] \<Rightarrow> Selected only | _ \<Rightarrow> Refuse)
      | Incoherent \<Rightarrow> Refuse)"
proof -
  define a where "a = jpointer (meta_path @ [''tech.counterpunch.mcpmesh/service'']) init"
  define b where "b = jpointer (meta_path @ [''mcpmesh/service'']) init"
  have ab: "map (\<lambda>key. jpointer (meta_path @ [key]) init) SERVICE_KEYS = [a, b]"
    by (simp add: SERVICE_KEYS_def a_def b_def del: jpointer.simps)
  have "fst (select_service init allowed) =
     (case (case (a, b) of (None, None) \<Rightarrow> Unnamed | (Some (JStr s), None) \<Rightarrow> Named s | (None, Some (JStr s)) \<Rightarrow> Named s
      | (Some (JStr s), Some (JStr t)) \<Rightarrow> if s = t then Named s else Incoherent
      | _ \<Rightarrow> Incoherent) of
        Named s \<Rightarrow> if s \<in> set allowed then Selected s else Refuse
      | Unnamed \<Rightarrow> (case allowed of [only] \<Rightarrow> Selected only | _ \<Rightarrow> Refuse)
      | Incoherent \<Rightarrow> Refuse)"
    unfolding select_service_def Let_def ab
    by (cases a; cases b; (cases "the a")?; (cases "the b")?) (simp_all split: list.splits)
  then show ?thesis by (simp add: service_request_def a_def b_def del: jpointer.simps)
qed

subsection \<open>What stripping leaves\<close>

text \<open>The frames a server would unwrap from a batch, down to the nesting bound.\<close>

function frames_within :: "nat \<Rightarrow> json \<Rightarrow> json list" where
  "frames_within depth frame =
     (case frame of
        JArr batch \<Rightarrow> if depth < MAX_BATCH_DEPTH then concat (map (frames_within (depth + 1)) batch) else []
      | _ \<Rightarrow> [frame])"
  by pat_completeness auto
termination by (relation "measure (\<lambda>(d, _). MAX_BATCH_DEPTH - d)") auto

declare frames_within.simps [simp del]

text \<open>A frame with no reserved \<open>_meta\<close> key and no imitated principal.\<close>

definition meta_clean :: "json \<Rightarrow> bool" where
  "meta_clean frame \<longleftrightarrow>
     (case Option.bind (jpointer meta_path frame) as_object of
        None \<Rightarrow> True | Some m \<Rightarrow> (\<forall>k \<in> fst ` set m. \<not> reserved_key k) \<and> \<not> impersonates m)"

definition no_reserved :: "json \<Rightarrow> bool" where
  "no_reserved frame \<longleftrightarrow>
     (case Option.bind (jpointer meta_path frame) as_object of
        None \<Rightarrow> True | Some m \<Rightarrow> \<forall>k \<in> fst ` set m. \<not> reserved_key k)"

lemma map_of_jobj_remove [simp]: "map_of (jobj_remove k m) k = None"
  by (auto simp: jobj_remove_def map_of_eq_None_iff)

lemma drop_client_info_clean:
  "as_object (drop_client_info v) = Some m \<Longrightarrow> \<not> impersonates m"
  by (auto simp: drop_client_info_def impersonates_def split: option.splits if_splits)

lemma drop_client_info_keys:
  "as_object (drop_client_info v) = Some m \<Longrightarrow> \<exists>m'. as_object v = Some m' \<and> fst ` set m \<subseteq> fst ` set m'"
  by (auto simp: drop_client_info_def jobj_remove_def split: option.splits if_splits)

text \<open>\<open>jupdate\<close> never turns a value into a batch or back.\<close>

lemma jupdate_JArr [simp]: "jupdate (k # ks) f v = JArr xs \<longleftrightarrow> v = JArr xs"
  by (cases v) auto

fun is_batch :: "json \<Rightarrow> bool" where
  "is_batch (JArr _) = True"
| "is_batch _ = False"

lemma is_batch_jupdate [simp]: "is_batch (jupdate (k # ks) f v) = is_batch v"
  by (cases v) auto

lemma is_batch_iff: "is_batch v \<longleftrightarrow> (\<exists>xs. v = JArr xs)"
  by (cases v) auto

lemma frames_within_flat: "\<not> is_batch v \<Longrightarrow> frames_within d v = [v]"
  by (subst frames_within.simps) (cases v; simp)

lemma frames_within_batch:
  "frames_within d (JArr xs) = (if d < MAX_BATCH_DEPTH then concat (map (frames_within (Suc d)) xs) else [])"
  by (subst frames_within.simps) simp

lemma strip_reserved_flat:
  "\<not> is_batch v \<Longrightarrow> strip_reserved_meta_to_depth d v = jupdate meta_path retain_unreserved v"
  by (subst strip_reserved_meta_to_depth.simps) (cases v; simp)

lemma strip_reserved_batch:
  "strip_reserved_meta_to_depth d (JArr xs) =
     JArr (if d < MAX_BATCH_DEPTH then map (strip_reserved_meta_to_depth (Suc d)) xs else xs)"
  by (subst strip_reserved_meta_to_depth.simps) simp

lemma strip_impersonating_flat:
  "\<not> is_batch v \<Longrightarrow> strip_impersonating_client_info_to_depth d v =
     (meta_impersonates v, jupdate meta_path drop_client_info v)"
  by (subst strip_impersonating_client_info_to_depth.simps) (cases v; simp)

lemma strip_impersonating_batch:
  "snd (strip_impersonating_client_info_to_depth d (JArr xs)) =
     JArr (if d < MAX_BATCH_DEPTH then map (\<lambda>x. snd (strip_impersonating_client_info_to_depth (Suc d) x)) xs else xs)"
  by (subst strip_impersonating_client_info_to_depth.simps) (simp add: Let_def comp_def not_less)

lemma jpointer_meta_jupdate [simp]: "jpointer meta_path (jupdate meta_path f v) = map_option f (jpointer meta_path v)"
  by (rule jpointer_jupdate)

lemma strip_reserved_clean:
  "f \<in> set (frames_within d (strip_reserved_meta_to_depth d v)) \<Longrightarrow> no_reserved f"
proof (induction d v rule: strip_reserved_meta_to_depth.induct)
  case (1 d v)
  show ?case
  proof (cases "is_batch v")
    case True
    then obtain xs where v: "v = JArr xs" by (auto simp: is_batch_iff)
    show ?thesis
      using "1.prems" "1.IH" [OF v] by (auto simp: v strip_reserved_batch frames_within_batch split: if_splits)
  next
    case False
    then have "frames_within d (strip_reserved_meta_to_depth d v) = [jupdate meta_path retain_unreserved v]"
      by (simp add: strip_reserved_flat frames_within_flat)
    moreover have "no_reserved (jupdate meta_path retain_unreserved v)"
      unfolding no_reserved_def jpointer_meta_jupdate
      by (cases "jpointer meta_path v") (auto simp: retain_unreserved_def split: option.splits)
    ultimately show ?thesis using "1.prems" by simp
  qed
qed

lemma strip_impersonating_clean:
  "\<forall>g \<in> set (frames_within d v). no_reserved g \<Longrightarrow>
   f \<in> set (frames_within d (snd (strip_impersonating_client_info_to_depth d v))) \<Longrightarrow> meta_clean f"
proof (induction d v rule: strip_reserved_meta_to_depth.induct)
  case (1 d v)
  show ?case
  proof (cases "is_batch v")
    case True
    then obtain xs where v: "v = JArr xs" by (auto simp: is_batch_iff)
    show ?thesis
    proof (cases "d < MAX_BATCH_DEPTH")
      case True
      then obtain x where x: "x \<in> set xs" "f \<in> set (frames_within (Suc d) (snd (strip_impersonating_client_info_to_depth (Suc d) x)))"
        using "1.prems"(2) by (auto simp: v strip_impersonating_batch frames_within_batch)
      moreover have "\<forall>g \<in> set (frames_within (Suc d) x). no_reserved g"
        using "1.prems"(1) x(1) True by (auto simp: v frames_within_batch)
      ultimately show ?thesis using "1.IH" [OF v True x(1)] by simp
    next
      case False
      then show ?thesis using "1.prems"(2) by (simp add: v strip_impersonating_batch frames_within_batch)
    qed
  next
    case False
    then have "frames_within d (snd (strip_impersonating_client_info_to_depth d v)) = [jupdate meta_path drop_client_info v]"
      and nr: "no_reserved v"
      using "1.prems"(1) by (simp_all add: strip_impersonating_flat frames_within_flat)
    moreover have "meta_clean (jupdate meta_path drop_client_info v)"
    proof (cases "Option.bind (jpointer meta_path (jupdate meta_path drop_client_info v)) as_object")
      case None
      then show ?thesis by (simp add: meta_clean_def del: jpointer.simps jupdate.simps)
    next
      case (Some m)
      then obtain w where w: "jpointer meta_path v = Some w" "as_object (drop_client_info w) = Some m"
        unfolding jpointer_meta_jupdate by (auto simp: bind_eq_Some_conv simp del: jpointer.simps)
      then obtain m' where m': "as_object w = Some m'" "fst ` set m \<subseteq> fst ` set m'"
        using drop_client_info_keys by blast
      have "\<forall>k \<in> fst ` set m'. \<not> reserved_key k"
        using nr w(1) m'(1) by (simp add: no_reserved_def del: jpointer.simps)
      then have "\<forall>k \<in> fst ` set m. \<not> reserved_key k" using m'(2) by blast
      then show ?thesis using drop_client_info_clean [OF w(2)] unfolding meta_clean_def Some by simp
    qed
    ultimately show ?thesis using "1.prems"(2) by simp
  qed
qed

lemma selected_frames_clean:
  "f \<in> set (frames_within 0 (snd (select_service init allowed))) \<Longrightarrow> meta_clean f"
  using strip_impersonating_clean strip_reserved_clean
  unfolding select_service_def Let_def snd_conv strip_impersonating_client_info_def strip_reserved_meta_def
  by blast

subsection \<open>What stripping keeps\<close>

lemma jget_retain: "\<not> reserved_key k \<Longrightarrow> jget k (retain_unreserved v) = jget k v"
proof -
  assume k: "\<not> reserved_key k"
  have "map_of (filter (\<lambda>p. \<not> reserved_key (fst p)) m) k = map_of m k" for m :: "(string \<times> json) list"
    using k by (induction m) auto
  then show ?thesis by (cases v) (auto simp: retain_unreserved_def)
qed

lemma jget_drop_client_info: "k \<noteq> CLIENT_INFO_KEY \<Longrightarrow> jget k (drop_client_info v) = jget k v"
proof -
  assume k: "k \<noteq> CLIENT_INFO_KEY"
  have "map_of (jobj_remove CLIENT_INFO_KEY m) k = map_of m k" for m
    using k by (induction m) (auto simp: jobj_remove_def)
  then show ?thesis by (cases v) (auto simp: drop_client_info_def)
qed

lemma jpointer_snoc: "jpointer (ks @ [k]) v = Option.bind (jpointer ks v) (jget k)"
proof (induction ks arbitrary: v)
  case Nil
  then show ?case by (cases "jget k v") auto
next
  case (Cons a ks)
  then show ?case by (cases "jget a v") auto
qed

text \<open>On a request that is not a batch, everything but the removed keys is untouched.\<close>

lemma selected_frame_flat:
  "\<not> is_batch init \<Longrightarrow> snd (select_service init allowed) =
     jupdate meta_path drop_client_info (jupdate meta_path retain_unreserved init)"
  unfolding select_service_def Let_def snd_conv strip_impersonating_client_info_def strip_reserved_meta_def
  by (simp add: strip_reserved_flat strip_impersonating_flat del: jupdate.simps)

lemma jget_jupdate_other: "k \<noteq> k' \<Longrightarrow> jget k (jupdate (k' # ks) f v) = jget k v"
  by (simp add: jget_jupdate)

lemma jpointer_meta_retained:
  assumes "\<And>v. jget k (f v) = jget k v"
  shows "jpointer (meta_path @ [k]) (jupdate meta_path f v) = jpointer (meta_path @ [k]) v"
  unfolding jpointer_snoc jpointer_meta_jupdate using assms by (cases "jpointer meta_path v") auto

end
