(* ===== verification/Libs.thy ===== *)
theory Libs
  imports Json "HOL-Library.Countable"
begin

text \<open>
  The third-party libraries the trust kernel calls, as one record of functions that every
  definition using them takes as its first argument: \<open>data_encoding::BASE64URL_NOPAD\<close>,
  \<open>BASE32_NOPAD\<close> and \<open>HEXLOWER\<close>, \<open>ed25519_dalek\<close>, \<open>blake3\<close>, \<open>serde_jcs\<close>, \<open>serde_json\<close> to and from
  bytes (a parsed object keeps its members as they stand in the text) and \<open>chrono\<close>'s RFC 3339
  parser and printer. Nothing is assumed about them by the definitions. The laws their documentation promises are the
  predicates below, and a theorem that relies on one names it as a hypothesis.
\<close>

record libs =
  b64_encode :: "bytes \<Rightarrow> string"
  b64_decode :: "string \<Rightarrow> bytes option"
  vk_from_bytes :: "bytes \<Rightarrow> bool"
  verify_strict :: "bytes \<Rightarrow> bytes \<Rightarrow> bytes \<Rightarrow> bool"
  ed_sign :: "bytes \<Rightarrow> bytes \<Rightarrow> bytes"
  ed_pk :: "bytes \<Rightarrow> bytes"
  jcs_to_vec :: "json \<Rightarrow> bytes option"
  rfc3339_parse :: "string \<Rightarrow> int option"
  rfc3339_print :: "int \<Rightarrow> string"
  hexlower :: "bytes \<Rightarrow> string"
  hexlower_decode :: "string \<Rightarrow> bytes option"
  b32_encode :: "bytes \<Rightarrow> string"
  b32_decode :: "string \<Rightarrow> bytes option"
  blake3_hash :: "bytes \<Rightarrow> bytes"
  json_to_vec :: "json \<Rightarrow> bytes"
  json_to_vec_pretty :: "json \<Rightarrow> bytes"
  json_from_slice :: "bytes \<Rightarrow> json option"

text \<open>Base64url without padding is a canonical encoding: a bijection on the strings it decodes.\<close>

definition b64_canonical :: "libs \<Rightarrow> bool" where
  "b64_canonical L \<longleftrightarrow>
     (\<forall>bs. b64_decode L (b64_encode L bs) = Some bs) \<and>
     (\<forall>s bs. b64_decode L s = Some bs \<longrightarrow> s = b64_encode L bs)"

text \<open>
  Ed25519: signatures are 64 bytes, public keys 32 bytes that \<open>VerifyingKey::from_bytes\<close>
  accepts, and a signature verifies under the signer's public key.
\<close>

definition ed25519_correct :: "libs \<Rightarrow> bool" where
  "ed25519_correct L \<longleftrightarrow>
     (\<forall>sk m. length (ed_sign L sk m) = 64 \<and> verify_strict L (ed_pk L sk) m (ed_sign L sk m)) \<and>
     (\<forall>sk. length (ed_pk L sk) = 32 \<and> vk_from_bytes L (ed_pk L sk))"

text \<open>Lower-case hexadecimal is injective.\<close>

definition hex_injective :: "libs \<Rightarrow> bool" where
  "hex_injective L \<longleftrightarrow> inj (hexlower L)"

text \<open>And canonical: it decodes exactly what it encodes.\<close>

definition hex_canonical :: "libs \<Rightarrow> bool" where
  "hex_canonical L \<longleftrightarrow> (\<forall>s bs. hexlower_decode L s = Some bs \<longleftrightarrow> s = hexlower L bs)"

text \<open>Every JSON value has a canonical form.\<close>

definition jcs_total :: "libs \<Rightarrow> bool" where
  "jcs_total L \<longleftrightarrow> (\<forall>v. jcs_to_vec L v \<noteq> None)"

text \<open>Base32 decodes what it encodes, and a BLAKE3 digest has 32 bytes.\<close>

definition b32_roundtrip :: "libs \<Rightarrow> bool" where
  "b32_roundtrip L \<longleftrightarrow> (\<forall>bs. b32_decode L (b32_encode L bs) = Some bs)"

definition blake3_32 :: "libs \<Rightarrow> bool" where
  "blake3_32 L \<longleftrightarrow> (\<forall>bs. length (blake3_hash L bs) = 32)"

text \<open>
  JSON text: a value whose objects have distinct keys, whose numbers fit the integer types of
  \<open>serde_json\<close> and which is nested no deeper than its parser accepts parses back from its text,
  compact or pretty.
\<close>

primrec json_printable :: "json \<Rightarrow> bool" where
  "json_printable JNull = True"
| "json_printable (JBool b) = True"
| "json_printable (JNum n) = (- (2 ^ 63) \<le> n \<and> n < 2 ^ 64)"
| "json_printable (JStr s) = True"
| "json_printable (JArr vs) = list_all id (map json_printable vs)"
| "json_printable (JObj m) = (distinct (al_keys m) \<and> list_all snd (map (map_prod id json_printable) m))"

definition json_text_roundtrip :: "libs \<Rightarrow> bool" where
  "json_text_roundtrip L \<longleftrightarrow>
     (\<forall>v. json_printable v \<longrightarrow> json_depth v \<le> JSON_MAX_DEPTH \<longrightarrow>
       json_from_slice L (json_to_vec L v) = Some v \<and> json_from_slice L (json_to_vec_pretty L v) = Some v)"

text \<open>\<open>Signature::from_slice\<close> accepts exactly the 64-byte slices.\<close>

definition sig_from_slice :: "bytes \<Rightarrow> bytes option" where
  "sig_from_slice bs = (if length bs = 64 then Some bs else None)"

lemma b64_decode_inj:
  "b64_canonical L \<Longrightarrow> b64_decode L s = Some bs \<Longrightarrow> b64_decode L t = Some bs \<Longrightarrow> s = t"
  unfolding b64_canonical_def by metis

lemma b64_decode_encode: "b64_canonical L \<Longrightarrow> b64_decode L (b64_encode L bs) = Some bs"
  by (simp add: b64_canonical_def)

lemma sig_from_slice_Some [simp]: "sig_from_slice bs = Some s \<longleftrightarrow> length bs = 64 \<and> s = bs"
  by (auto simp: sig_from_slice_def)

text \<open>
  A concrete instance for the witnesses: bytes as the characters with the same codes, a
  checksum-like signature, the constant JCS form of a value's size, and decimal-free timestamps
  (one character per second since the epoch).
\<close>

instance json :: countable
  by countable_datatype

definition demo_sign :: "bytes \<Rightarrow> bytes \<Rightarrow> bytes" where
  "demo_sign sk m = replicate 64 (foldl (\<lambda>a b. a * 31 + b) 7 (sk @ m))"

definition demo_libs :: libs where
  "demo_libs = \<lparr>
     b64_encode = map (\<lambda>b. char_of (unat b)),
     b64_decode = (\<lambda>s. Some (str_bytes s)),
     vk_from_bytes = (\<lambda>pk. length pk = 32),
     verify_strict = (\<lambda>pk m s. s = demo_sign pk m),
     ed_sign = (\<lambda>sk m. demo_sign (take 32 (sk @ replicate 32 0)) m),
     ed_pk = (\<lambda>sk. take 32 (sk @ replicate 32 0)),
     jcs_to_vec = (\<lambda>v. Some (word_of_nat (size v) # [])),
     rfc3339_parse = (\<lambda>s. Some (int (length s))),
     rfc3339_print = (\<lambda>t. replicate (nat t) CHR ''t''),
     hexlower = map (\<lambda>b. char_of (unat b)),
     hexlower_decode = (\<lambda>s. Some (str_bytes s)),
     b32_encode = map (\<lambda>b. char_of (unat b)),
     b32_decode = (\<lambda>s. Some (str_bytes s)),
     blake3_hash = (\<lambda>bs. map (\<lambda>i. foldl (\<lambda>a b. a * 31 + b) (of_nat i) bs) [0..<32]),
     json_to_vec = (\<lambda>v. replicate (to_nat v) 0),
     json_to_vec_pretty = (\<lambda>v. replicate (to_nat v) 0),
     json_from_slice = (\<lambda>bs. Some (from_nat (length bs)))\<rparr>"

lemma of_char_byte_char_of: "of_char (char_of (unat b) :: char) = (b :: byte)"
proof -
  have "unat b < 256" using unsigned_less [where ?'a = nat, of b] by simp
  then have "of_char (char_of (unat b) :: char) = unat b" by simp
  then have "of_nat (of_char (char_of (unat b) :: char)) = (of_nat (unat b) :: byte)" by simp
  then show ?thesis unfolding of_nat_of_char by simp
qed

lemma str_bytes_chars [simp]: "str_bytes (map (\<lambda>b. char_of (unat b)) bs) = bs"
  by (simp add: str_bytes_def of_char_byte_char_of comp_def)

lemma chars_str_bytes: "map (\<lambda>b. char_of (unat b)) (str_bytes s) = s"
  by (metis str_bytes_chars str_bytes_inj)

lemma demo_b64 [simp]: "b64_canonical demo_libs"
  unfolding b64_canonical_def demo_libs_def by (auto simp: chars_str_bytes)

lemma demo_ed25519 [simp]: "ed25519_correct demo_libs"
  by (auto simp: ed25519_correct_def demo_libs_def demo_sign_def)

lemma demo_hex [simp]: "hex_injective demo_libs"
proof -
  have "b = c" if "(char_of (unat b) :: char) = char_of (unat c)" for b c :: byte
    using arg_cong [OF that, of "of_char :: char \<Rightarrow> byte"] by (simp only: of_char_byte_char_of)
  then have "inj (\<lambda>b :: byte. char_of (unat b) :: char)" by (rule injI)
  then show ?thesis by (simp add: hex_injective_def demo_libs_def)
qed

lemma demo_hex_canonical [simp]: "hex_canonical demo_libs"
  unfolding hex_canonical_def demo_libs_def by (auto simp: chars_str_bytes)

lemma demo_b32 [simp]: "b32_roundtrip demo_libs"
  by (simp add: b32_roundtrip_def demo_libs_def)

lemma demo_blake3 [simp]: "blake3_32 demo_libs"
  by (simp add: blake3_32_def demo_libs_def)

lemma demo_json_text [simp]: "json_text_roundtrip demo_libs"
  by (simp add: json_text_roundtrip_def demo_libs_def)

lemma demo_jcs [simp]: "jcs_total demo_libs"
  by (simp add: jcs_total_def demo_libs_def)

end
