(* ===== verification/Serde.thy ===== *)
theory Serde
  imports Libs
begin

text \<open>
  What \<open>serde\<close>'s derived decoders do with a JSON value. A struct decodes from an object, where
  unknown members are ignored and a repeated known member is an error, or from an array that lists
  the fields in declaration order. A field is required, or has a default.
\<close>

definition struct_members :: "string list \<Rightarrow> json \<Rightarrow> (string \<times> json) list option" where
  "struct_members names v = (case v of
     JObj m \<Rightarrow> (if distinct (filter (\<lambda>k. k \<in> set names) (al_keys m)) then Some m else None)
   | JArr vs \<Rightarrow> (if length vs \<le> length names then Some (zip names vs) else None)
   | _ \<Rightarrow> None)"

text \<open>\<open>deny_unknown_fields\<close>: an unknown member is an error too.\<close>

definition struct_members_strict :: "string list \<Rightarrow> json \<Rightarrow> (string \<times> json) list option" where
  "struct_members_strict names v = (case v of
     JObj m \<Rightarrow> (if distinct (al_keys m) \<and> set (al_keys m) \<subseteq> set names then Some m else None)
   | JArr vs \<Rightarrow> (if length vs \<le> length names then Some (zip names vs) else None)
   | _ \<Rightarrow> None)"

definition required :: "(string \<times> json) list \<Rightarrow> string \<Rightarrow> (json \<Rightarrow> 'a option) \<Rightarrow> 'a option" where
  "required m k dec = Option.bind (map_of m k) dec"

definition defaulted :: "(string \<times> json) list \<Rightarrow> string \<Rightarrow> 'a \<Rightarrow> (json \<Rightarrow> 'a option) \<Rightarrow> 'a option" where
  "defaulted m k dflt dec = (case map_of m k of None \<Rightarrow> Some dflt | Some v \<Rightarrow> dec v)"

fun de_bool :: "json \<Rightarrow> bool option" where
  "de_bool (JBool b) = Some b"
| "de_bool _ = None"

fun de_uint :: "nat \<Rightarrow> json \<Rightarrow> int option" where
  "de_uint w (JNum n) = (if 0 \<le> n \<and> n < 2 ^ w then Some n else None)"
| "de_uint w _ = None"

definition de_word :: "json \<Rightarrow> 'a::len word option" where
  "de_word v = map_option word_of_int (de_uint LENGTH('a) v)"

text \<open>\<open>all_some f xs\<close>: the values of \<open>f\<close> when all are there.\<close>

fun all_some :: "('a \<Rightarrow> 'b option) \<Rightarrow> 'a list \<Rightarrow> 'b list option" where
  "all_some f [] = Some []"
| "all_some f (x # xs) = Option.bind (f x) (\<lambda>y. map_option ((#) y) (all_some f xs))"

definition de_list :: "(json \<Rightarrow> 'a option) \<Rightarrow> json \<Rightarrow> 'a list option" where
  "de_list dec v = (case v of JArr vs \<Rightarrow> all_some dec vs | _ \<Rightarrow> None)"

definition de_option :: "(json \<Rightarrow> 'a option) \<Rightarrow> json \<Rightarrow> 'a option option" where
  "de_option dec v = (if v = JNull then Some None else map_option Some (dec v))"

definition de_key32 :: "json \<Rightarrow> bytes option" where
  "de_key32 v = Option.bind (de_list de_word v) (\<lambda>bs. if length bs = 32 then Some bs else None)"

definition ser_bytes :: "bytes \<Rightarrow> json" where
  "ser_bytes bs = JArr (map (\<lambda>b. JNum (uint b)) bs)"

definition ser_strings :: "string list \<Rightarrow> json" where
  "ser_strings ss = JArr (map JStr ss)"

text \<open>A field skipped when absent (\<open>skip_serializing_if = "Option::is_none"\<close>).\<close>

definition opt_field :: "string \<Rightarrow> string option \<Rightarrow> (string \<times> json) list" where
  "opt_field k x = (case x of None \<Rightarrow> [] | Some s \<Rightarrow> [(k, JStr s)])"

lemma de_word_uint [simp]: "de_word (JNum (uint (w :: 'a::len word))) = Some w"
  by (simp add: de_word_def)

lemma all_some_map [simp]: "(\<And>x. x \<in> set xs \<Longrightarrow> f (g x) = Some (h x)) \<Longrightarrow> all_some f (map g xs) = Some (map h xs)"
  by (induction xs) auto

lemma de_ser_bytes [simp]: "de_list de_word (ser_bytes bs) = Some bs"
  by (simp add: de_list_def ser_bytes_def)

lemma de_key32_ser [simp]: "de_key32 (ser_bytes bs) = (if length bs = 32 then Some bs else None)"
  by (simp add: de_key32_def)

lemma de_ser_strings [simp]: "de_list as_str (ser_strings ss) = Some ss"
  by (simp add: de_list_def ser_strings_def)

lemma de_option_Str [simp]: "de_option as_str (JStr s) = Some (Some s)" "de_option dec JNull = Some None"
  by (simp_all add: de_option_def)

lemma ser_depth [simp]: "0 < d \<Longrightarrow> json_depth (ser_bytes bs) \<le> d" "0 < d \<Longrightarrow> json_depth (ser_strings ss) \<le> d"
  by (auto simp: ser_bytes_def ser_strings_def)

lemma ser_printable [simp]: "json_printable (ser_bytes bs)" "json_printable (ser_strings ss)"
  by (auto simp: ser_bytes_def ser_strings_def list.pred_map list_all_iff
      intro: order_trans [OF _ uint_ge_0] less_trans [OF uint_lt2p])

end
