(* ===== verification/Roster_View.thy ===== *)
theory Roster_View
  imports Roster_Doc
begin

text \<open>
  Roster validation and the resolvable view (\<open>trust/src/roster/validate.rs\<close>): the six install
  rules, the rotation bridge, the view's lookups and the degraded-mode state machine.

  \<open>wf_roster\<close> and \<open>spec_view\<close> are the abstract specification of \<open>build_view\<close>: which documents
  are structurally valid and which device resolves to whom, stated without the loops.
\<close>

subsection \<open>The view and its lookups\<close>

record resolved_device =
  d_user_id :: string
  d_display_name :: string
  d_groups :: "string list"
  d_role :: string
  d_label :: string

record roster_member_entry =
  me_user_id :: string
  me_display_name :: string
  me_groups :: "string list"

record roster_view =
  v_org_id :: string
  v_serial :: u64
  v_expires_at_epoch :: int
  v_devices :: "(bytes \<times> resolved_device) list"
  v_revoked :: "bytes list"
  v_groups :: "string list"
  v_users :: "roster_member_entry list"

datatype roster_state = Approved | DegradedGrace | DegradedStopped

fun severity :: "roster_state \<Rightarrow> nat" where
  "severity Approved = 0"
| "severity DegradedGrace = 1"
| "severity DegradedStopped = 2"

text \<open>Severity is a linear order on the states, \<open>Approved < DegradedGrace < DegradedStopped\<close>.\<close>

instantiation roster_state :: linorder
begin

definition less_eq_roster_state :: "roster_state \<Rightarrow> roster_state \<Rightarrow> bool" where
  "less_eq_roster_state a b \<longleftrightarrow> severity a \<le> severity b"

definition less_roster_state :: "roster_state \<Rightarrow> roster_state \<Rightarrow> bool" where
  "less_roster_state a b \<longleftrightarrow> severity a < severity b"

instance
proof
  fix x y z :: roster_state
  show "x < y \<longleftrightarrow> x \<le> y \<and> \<not> y \<le> x"
    by (auto simp: less_eq_roster_state_def less_roster_state_def)
  show "x \<le> x" by (simp add: less_eq_roster_state_def)
  show "x \<le> y \<Longrightarrow> y \<le> z \<Longrightarrow> x \<le> z" by (simp add: less_eq_roster_state_def)
  show "x \<le> y \<Longrightarrow> y \<le> x \<Longrightarrow> x = y" by (cases x; cases y) (simp_all add: less_eq_roster_state_def)
  show "x \<le> y \<or> y \<le> x" by (auto simp: less_eq_roster_state_def)
qed

end

definition view_resolve :: "roster_view \<Rightarrow> bytes \<Rightarrow> resolved_device option" where
  "view_resolve v endpoint = map_of (v_devices v) endpoint"

definition view_is_revoked :: "roster_view \<Rightarrow> bytes \<Rightarrow> bool" where
  "view_is_revoked v endpoint \<longleftrightarrow> endpoint \<in> set (v_revoked v)"

definition device_endpoints :: "roster_view \<Rightarrow> bytes list" where
  "device_endpoints v = al_keys (v_devices v)"

definition role_rank :: "string \<Rightarrow> nat" where
  "role_rank role = (if role = ''primary'' then 0 else if role = ''mirror'' then 1 else 2)"

definition devices_for_user :: "roster_view \<Rightarrow> string \<Rightarrow> (bytes \<times> string) list" where
  "devices_for_user v user_id =
     sort_key (\<lambda>(eid, role). (role_rank role, eid))
       (map (\<lambda>(eid, d). (eid, d_role d)) (filter (\<lambda>(_, d). d_user_id d = user_id) (v_devices v)))"

definition state :: "roster_view \<Rightarrow> int \<Rightarrow> int \<Rightarrow> roster_state" where
  "state v now_epoch grace_secs =
     (if now_epoch \<le> v_expires_at_epoch v then Approved
      else if now_epoch \<le> i64_add (v_expires_at_epoch v) grace_secs then DegradedGrace
      else DegradedStopped)"

definition staleness_state :: "int \<Rightarrow> int \<Rightarrow> int option \<Rightarrow> int \<Rightarrow> roster_state" where
  "staleness_state now_epoch grace_secs last_confirmed max_staleness_secs =
     (case last_confirmed of
        None \<Rightarrow> Approved
      | Some lc \<Rightarrow>
          let stale = i64_saturating_sub now_epoch lc in
          if stale \<le> max_staleness_secs then Approved
          else if stale \<le> i64_add max_staleness_secs grace_secs then DegradedGrace
          else DegradedStopped)"

definition effective_state :: "roster_view \<Rightarrow> int \<Rightarrow> int \<Rightarrow> int option \<Rightarrow> int \<Rightarrow> roster_state" where
  "effective_state v now_epoch grace_secs last_confirmed max_staleness_secs =
     (let expiry = state v now_epoch grace_secs;
          staleness = staleness_state now_epoch grace_secs last_confirmed max_staleness_secs
      in if severity staleness \<ge> severity expiry then staleness else expiry)"

subsection \<open>Building the view: rules 4 and 5\<close>

fun check_users :: "string list \<Rightarrow> string list \<Rightarrow> roster_user list \<Rightarrow> roster_error + unit" where
  "check_users group_set seen_users [] = Inr ()"
| "check_users group_set seen_users (u # us) =
     (if ru_user_id u \<in> set seen_users then Inl (DuplicateUser (ru_user_id u))
      else if ru_user_id u \<in> set group_set then Inl (NamespaceCollision (ru_user_id u))
      else case find (\<lambda>g. g \<notin> set group_set) (ru_groups u) of
             Some g \<Rightarrow> Inl (UndeclaredGroup g)
           | None \<Rightarrow> check_users group_set (ru_user_id u # seen_users) us)"

definition resolved :: "roster_user \<Rightarrow> roster_device \<Rightarrow> resolved_device" where
  "resolved u d = \<lparr>d_user_id = ru_user_id u, d_display_name = ru_display_name u,
     d_groups = ru_groups u, d_role = rd_role d, d_label = rd_label d\<rparr>"

definition member_entry :: "roster_user \<Rightarrow> roster_member_entry" where
  "member_entry u = \<lparr>me_user_id = ru_user_id u, me_display_name = ru_display_name u,
     me_groups = ru_groups u\<rparr>"

text \<open>The two nested loops over users and their devices visit this sequence of pairs.\<close>

definition user_devices :: "roster \<Rightarrow> (roster_user \<times> roster_device) list" where
  "user_devices r = concat (map (\<lambda>u. map (\<lambda>d. (u, d)) (ru_devices u)) (ro_users r))"

fun add_devices :: "libs \<Rightarrow> bytes list \<Rightarrow> (roster_user \<times> roster_device) list \<Rightarrow>
    (bytes \<times> resolved_device) list \<Rightarrow> roster_error + (bytes \<times> resolved_device) list" where
  "add_devices L revoked [] devices = Inr devices"
| "add_devices L revoked ((u, d) # ps) devices =
     rbind (decode_endpoint_id L (rd_endpoint_id d)) (\<lambda>eid.
       if eid \<in> set revoked then add_devices L revoked ps devices
       else if eid \<in> set (al_keys devices) then Inl DuplicateEndpoint
       else add_devices L revoked ps (al_insert eid (resolved u d) devices))"

definition build_view :: "libs \<Rightarrow> roster \<Rightarrow> int \<Rightarrow> roster_error + roster_view" where
  "build_view L r expires_at_epoch =
     rbind (check_users (ro_groups r) [] (ro_users r)) (\<lambda>_.
     rbind (mapM (decode_endpoint_id L) (ro_revoked_endpoints r)) (\<lambda>es.
     let revoked = foldl push_new [] es in
     rbind (add_devices L revoked (user_devices r) []) (\<lambda>devices.
     Inr \<lparr>v_org_id = ro_org_id r, v_serial = ro_serial r, v_expires_at_epoch = expires_at_epoch,
          v_devices = devices, v_revoked = revoked, v_groups = ro_groups r,
          v_users = map member_entry (ro_users r)\<rparr>)))"

subsection \<open>Installing and loading\<close>

definition parse_rfc3339 :: "libs \<Rightarrow> string \<Rightarrow> roster_error + int" where
  "parse_rfc3339 L s = ok_or BadTimestamp (rfc3339_parse L s)"

text \<open>
  \<open>AnchorChange\<close> has the single field \<open>adopted_root_pk\<close>. A \<open>VerifyingKey\<close> is its 32 bytes.
\<close>

record anchor_change =
  adopted_root_pk :: "string option"

definition resolve_verifier :: "libs \<Rightarrow> roster \<Rightarrow> bytes \<Rightarrow> roster_error + bytes \<times> anchor_change" where
  "resolve_verifier L r pinned =
     (if is_ok (verify L r pinned) then Inr (pinned, \<lparr>adopted_root_pk = None\<rparr>)
      else case (ro_successor_root_pk r, ro_successor_sig r) of
        (Some succ_pk_b64u, Some succ_sig_b64u) \<Rightarrow>
          rbind (decode_b64u L succ_pk_b64u) (\<lambda>succ_pk.
          if length succ_pk \<noteq> 32 then Inl BadSignature else
          rbind (decode_b64u L succ_sig_b64u) (\<lambda>succ_sig.
          rbind (verify_org_rotation L pinned (ro_org_id r) succ_pk succ_sig) (\<lambda>_.
          if \<not> vk_from_bytes L succ_pk then Inl BadSignature else
          rbind (verify L r succ_pk) (\<lambda>_.
          Inr (succ_pk, \<lparr>adopted_root_pk = Some succ_pk_b64u\<rparr>)))))
      | _ \<Rightarrow> Inl BadSignature)"

definition has_rotation :: "roster \<Rightarrow> bool" where
  "has_rotation r \<longleftrightarrow> ro_successor_root_pk r \<noteq> None \<or> ro_successor_sig r \<noteq> None"

definition validate_for_install_with_anchor ::
  "libs \<Rightarrow> roster \<Rightarrow> bytes \<Rightarrow> u64 \<Rightarrow> int \<Rightarrow> roster_error + roster_view \<times> anchor_change" where
  "validate_for_install_with_anchor L r root_pk installed_serial now_epoch =
     (if ro_format r \<noteq> ROSTER_FORMAT \<and> ro_format r \<noteq> ROSTER_FORMAT_ROTATION
      then Inl (BadFormat (ro_format r))
      else if has_rotation r \<noteq> (ro_format r = ROSTER_FORMAT_ROTATION)
      then Inl (BadFormat (ro_format r))
      else rbind (resolve_verifier L r root_pk) (\<lambda>(_, anchor).
        if ro_serial r \<le> installed_serial then Inl (StaleSerial (ro_serial r) installed_serial)
        else rbind (parse_rfc3339 L (ro_issued_at r)) (\<lambda>issued.
             rbind (parse_rfc3339 L (ro_expires_at r)) (\<lambda>expires.
             if now_epoch < i64_sub issued SKEW_SECS \<or> now_epoch > i64_add expires SKEW_SECS
             then Inl OutOfValidity
             else rbind (build_view L r expires) (\<lambda>view. Inr (view, anchor))))))"

definition validate_for_install :: "libs \<Rightarrow> roster \<Rightarrow> bytes \<Rightarrow> u64 \<Rightarrow> int \<Rightarrow> roster_error + roster_view" where
  "validate_for_install L r root_pk installed_serial now_epoch =
     rbind (validate_for_install_with_anchor L r root_pk installed_serial now_epoch) (\<lambda>(v, _). Inr v)"

definition load_installed :: "libs \<Rightarrow> roster \<Rightarrow> bytes \<Rightarrow> roster_error + roster_view" where
  "load_installed L r root_pk =
     (if ro_format r \<noteq> ROSTER_FORMAT \<and> ro_format r \<noteq> ROSTER_FORMAT_ROTATION
      then Inl (BadFormat (ro_format r))
      else rbind (resolve_verifier L r root_pk) (\<lambda>_.
        rbind (parse_rfc3339 L (ro_expires_at r)) (\<lambda>expires. build_view L r expires)))"

subsection \<open>The specification of a structurally valid roster\<close>

definition endpoint_of :: "libs \<Rightarrow> string \<Rightarrow> bytes" where
  "endpoint_of L s = (case decode_endpoint_id L s of Inr e \<Rightarrow> e | Inl _ \<Rightarrow> [])"

definition decodes :: "libs \<Rightarrow> string \<Rightarrow> bool" where
  "decodes L s = is_ok (decode_endpoint_id L s)"

definition spec_revoked :: "libs \<Rightarrow> roster \<Rightarrow> bytes list" where
  "spec_revoked L r = foldl push_new [] (map (endpoint_of L) (ro_revoked_endpoints r))"

definition active_pairs ::
  "libs \<Rightarrow> bytes list \<Rightarrow> (roster_user \<times> roster_device) list \<Rightarrow> (bytes \<times> resolved_device) list" where
  "active_pairs L revoked ps =
     filter (\<lambda>p. fst p \<notin> set revoked)
       (map (\<lambda>(u, d). (endpoint_of L (rd_endpoint_id d), resolved u d)) ps)"

definition spec_devices :: "libs \<Rightarrow> roster \<Rightarrow> (bytes \<times> resolved_device) list" where
  "spec_devices L r = active_pairs L (spec_revoked L r) (user_devices r)"

definition wf_names :: "roster \<Rightarrow> bool" where
  "wf_names r \<longleftrightarrow> distinct (map ru_user_id (ro_users r)) \<and>
     (\<forall>u \<in> set (ro_users r). ru_user_id u \<notin> set (ro_groups r) \<and> set (ru_groups u) \<subseteq> set (ro_groups r))"

definition wf_endpoints :: "libs \<Rightarrow> roster \<Rightarrow> bool" where
  "wf_endpoints L r \<longleftrightarrow> (\<forall>s \<in> set (ro_revoked_endpoints r). decodes L s) \<and>
     (\<forall>(u, d) \<in> set (user_devices r). decodes L (rd_endpoint_id d)) \<and>
     distinct (al_keys (spec_devices L r))"

definition wf_roster :: "libs \<Rightarrow> roster \<Rightarrow> bool" where
  "wf_roster L r \<longleftrightarrow> wf_names r \<and> wf_endpoints L r"

definition spec_view :: "libs \<Rightarrow> roster \<Rightarrow> int \<Rightarrow> roster_view" where
  "spec_view L r expires_at_epoch =
     \<lparr>v_org_id = ro_org_id r, v_serial = ro_serial r, v_expires_at_epoch = expires_at_epoch,
      v_devices = spec_devices L r, v_revoked = spec_revoked L r, v_groups = ro_groups r,
      v_users = map member_entry (ro_users r)\<rparr>"

subsection \<open>\<open>build_view\<close> implements the specification\<close>

lemma decodes_iff: "decodes L s \<longleftrightarrow> decode_endpoint_id L s = Inr (endpoint_of L s)"
  by (cases "decode_endpoint_id L s") (auto simp: decodes_def endpoint_of_def)

lemma endpoint_of_eq: "decode_endpoint_id L s = Inr e \<Longrightarrow> endpoint_of L s = e"
  by (simp add: endpoint_of_def)

lemma endpoint_of_inj:
  "b64_canonical L \<Longrightarrow> decodes L s \<Longrightarrow> decodes L t \<Longrightarrow> endpoint_of L s = endpoint_of L t \<longleftrightarrow> s = t"
  using decode_endpoint_id_inj by (auto simp: decodes_iff)

lemma check_users_Inr:
  "check_users gs seen us = Inr () \<longleftrightarrow>
     distinct (map ru_user_id us) \<and> set (map ru_user_id us) \<inter> set seen = {} \<and>
     (\<forall>u \<in> set us. ru_user_id u \<notin> set gs \<and> set (ru_groups u) \<subseteq> set gs)"
proof (induction us arbitrary: seen)
  case Nil
  then show ?case by simp
next
  case (Cons u us)
  have "find (\<lambda>g. g \<notin> set gs) (ru_groups u) = None \<longleftrightarrow> set (ru_groups u) \<subseteq> set gs"
    by (auto simp: find_None_iff)
  then show ?case using Cons by (auto split: option.splits)
qed

lemma decode_all:
  "mapM (decode_endpoint_id L) ss = Inr es \<longleftrightarrow> (\<forall>s \<in> set ss. decodes L s) \<and> es = map (endpoint_of L) ss"
proof (induction ss arbitrary: es)
  case Nil
  then show ?case by auto
next
  case (Cons s ss)
  show ?case
  proof (cases "decode_endpoint_id L s")
    case (Inl e)
    then show ?thesis by (simp add: decodes_def)
  next
    case (Inr e)
    then show ?thesis using Cons.IH
      by (auto simp: result_simps decodes_def endpoint_of_def)
  qed
qed

lemma active_pairs_Cons:
  "active_pairs L rv ((u, d) # ps) =
     (if endpoint_of L (rd_endpoint_id d) \<in> set rv then active_pairs L rv ps
      else (endpoint_of L (rd_endpoint_id d), resolved u d) # active_pairs L rv ps)"
  by (simp add: active_pairs_def)

lemma add_devices_Inr:
  "distinct (al_keys devs) \<Longrightarrow> add_devices L rv ps devs = Inr devs' \<longleftrightarrow>
     (\<forall>(u, d) \<in> set ps. decodes L (rd_endpoint_id d)) \<and>
     distinct (al_keys (devs @ active_pairs L rv ps)) \<and> devs' = devs @ active_pairs L rv ps"
proof (induction L rv ps devs rule: add_devices.induct)
  case (1 L rv devs)
  then show ?case by (auto simp: active_pairs_def)
next
  case (2 L rv u d ps devs)
  show ?case
  proof (cases "decode_endpoint_id L (rd_endpoint_id d)")
    case (Inl e)
    then show ?thesis by (auto simp: decodes_def)
  next
    case (Inr e)
    note dec = this endpoint_of_eq [OF this]
    have ok: "decodes L (rd_endpoint_id d)" using dec by (simp add: decodes_def)
    consider "e \<in> set rv" | "e \<notin> set rv" "e \<in> set (al_keys devs)"
      | "e \<notin> set rv" "e \<notin> set (al_keys devs)" by blast
    then show ?thesis
    proof cases
      case 1
      then show ?thesis using 2 dec ok by (simp add: active_pairs_Cons)
    next
      case 2
      then show ?thesis using dec by (auto simp: active_pairs_Cons)
    next
      case 3
      then have "distinct (al_keys (devs @ [(e, resolved u d)]))" using "2.prems" by simp
      moreover have "al_insert e (resolved u d) devs = devs @ [(e, resolved u d)]"
        using 3 by (simp add: al_insert_absent)
      ultimately show ?thesis using "2.IH"(2) [of e] 3 dec ok by (simp add: active_pairs_Cons)
    qed
  qed
qed

lemma build_view_correct:
  "build_view L r expires = Inr v \<longleftrightarrow> wf_roster L r \<and> v = spec_view L r expires"
  unfolding build_view_def Let_def
  by (auto simp: result_simps check_users_Inr decode_all add_devices_Inr wf_roster_def wf_names_def
      wf_endpoints_def spec_view_def spec_devices_def spec_revoked_def)

lemma build_view_wf: "wf_roster L r \<Longrightarrow> build_view L r expires = Inr (spec_view L r expires)"
  by (simp add: build_view_correct)

lemma spec_revoked_set: "set (spec_revoked L r) = endpoint_of L ` set (ro_revoked_endpoints r)"
  by (simp add: spec_revoked_def)

lemma spec_view_sel [simp]:
  "v_devices (spec_view L r t) = spec_devices L r"
  "v_revoked (spec_view L r t) = spec_revoked L r"
  "v_serial (spec_view L r t) = ro_serial r"
  "v_org_id (spec_view L r t) = ro_org_id r"
  "v_expires_at_epoch (spec_view L r t) = t"
  "v_groups (spec_view L r t) = ro_groups r"
  "v_users (spec_view L r t) = map member_entry (ro_users r)"
  by (simp_all add: spec_view_def)

lemma mem_spec_devices:
  "(e, x) \<in> set (spec_devices L r) \<longleftrightarrow>
     (\<exists>u d. u \<in> set (ro_users r) \<and> d \<in> set (ru_devices u) \<and> e = endpoint_of L (rd_endpoint_id d) \<and>
        x = resolved u d \<and> e \<notin> set (spec_revoked L r))"
  unfolding spec_devices_def active_pairs_def user_devices_def by (auto simp: image_iff)

text \<open>Who an endpoint resolves to, read off the document.\<close>

lemma view_resolve_spec:
  assumes "wf_roster L r"
  shows "view_resolve (spec_view L r t) e = Some x \<longleftrightarrow>
     (\<exists>u d. u \<in> set (ro_users r) \<and> d \<in> set (ru_devices u) \<and> e = endpoint_of L (rd_endpoint_id d) \<and>
        x = resolved u d \<and> e \<notin> set (spec_revoked L r))"
proof -
  have "distinct (al_keys (spec_devices L r))" using assms by (simp add: wf_roster_def wf_endpoints_def)
  then show ?thesis by (simp add: view_resolve_def mem_spec_devices)
qed

lemma view_revoked_not_resolved: "wf_roster L r \<Longrightarrow> view_is_revoked (spec_view L r t) e \<Longrightarrow>
    view_resolve (spec_view L r t) e = None"
  by (cases "view_resolve (spec_view L r t) e") (auto simp: view_resolve_spec view_is_revoked_def)

subsection \<open>The rotation bridge\<close>

lemma resolve_verifier_Inr:
  "resolve_verifier L r pinned = Inr (k, a) \<longleftrightarrow>
     (verify L r pinned = Inr () \<and> k = pinned \<and> adopted_root_pk a = None) \<or>
     (\<not> is_ok (verify L r pinned) \<and> (\<exists>pk s sg. ro_successor_root_pk r = Some pk \<and> ro_successor_sig r = Some s \<and>
        decode_b64u L pk = Inr k \<and> length k = 32 \<and> decode_b64u L s = Inr sg \<and>
        verify_org_rotation L pinned (ro_org_id r) k sg = Inr () \<and> vk_from_bytes L k \<and>
        verify L r k = Inr () \<and> adopted_root_pk a = Some pk))"
  by (cases a) (auto simp: resolve_verifier_def result_simps split: option.splits if_splits)

lemma resolve_verifier_body_verifies:
  "resolve_verifier L r pinned = Inr (k, a) \<Longrightarrow> verify L r k = Inr ()"
  by (auto simp: resolve_verifier_Inr)

lemma resolve_verifier_direct:
  "verify L r k = Inr () \<Longrightarrow> resolve_verifier L r k = Inr (k, \<lparr>adopted_root_pk = None\<rparr>)"
  by (simp add: resolve_verifier_def)

subsection \<open>The install rules\<close>

definition format_ok :: "roster \<Rightarrow> bool" where
  "format_ok r \<longleftrightarrow> (ro_format r = ROSTER_FORMAT \<and> \<not> has_rotation r) \<or>
     (ro_format r = ROSTER_FORMAT_ROTATION \<and> has_rotation r)"

definition in_window :: "libs \<Rightarrow> roster \<Rightarrow> int \<Rightarrow> bool" where
  "in_window L r now \<longleftrightarrow> (\<exists>issued expires. rfc3339_parse L (ro_issued_at r) = Some issued \<and>
     rfc3339_parse L (ro_expires_at r) = Some expires \<and>
     i64_sub issued SKEW_SECS \<le> now \<and> now \<le> i64_add expires SKEW_SECS)"

lemma formats_differ: "ROSTER_FORMAT \<noteq> ROSTER_FORMAT_ROTATION"
  by (simp add: ROSTER_FORMAT_def ROSTER_FORMAT_ROTATION_def)

lemma validate_Inr:
  "validate_for_install_with_anchor L r root installed now = Inr (v, a) \<longleftrightarrow>
     format_ok r \<and> (\<exists>k. resolve_verifier L r root = Inr (k, a)) \<and> installed < ro_serial r \<and>
     in_window L r now \<and>
     (\<exists>expires. rfc3339_parse L (ro_expires_at r) = Some expires \<and> build_view L r expires = Inr v)"
  unfolding validate_for_install_with_anchor_def format_ok_def in_window_def parse_rfc3339_def
  using formats_differ
  by (auto simp: result_simps not_less not_le split: if_splits prod.splits)

lemma load_installed_Inr:
  "load_installed L r root = Inr v \<longleftrightarrow>
     (ro_format r = ROSTER_FORMAT \<or> ro_format r = ROSTER_FORMAT_ROTATION) \<and>
     is_ok (resolve_verifier L r root) \<and>
     (\<exists>expires. rfc3339_parse L (ro_expires_at r) = Some expires \<and> build_view L r expires = Inr v)"
  by (auto simp: load_installed_def parse_rfc3339_def result_simps split: if_splits)

subsection \<open>Degraded mode\<close>

lemma effective_state_max:
  "effective_state v now g lc m = max (state v now g) (staleness_state now g lc m)"
  by (auto simp: effective_state_def Let_def max_def less_eq_roster_state_def)

lemma le_Approved [simp]: "s \<le> Approved \<longleftrightarrow> s = Approved"
  by (cases s) (auto simp: less_eq_roster_state_def)

lemma le_Stopped [simp]: "s \<le> DegradedStopped"
  by (cases s) (auto simp: less_eq_roster_state_def)

lemma Approved_le [simp]: "Approved \<le> s"
  by (auto simp: less_eq_roster_state_def)

lemma state_mono: "now \<le> now' \<Longrightarrow> state v now g \<le> state v now' g"
  by (auto simp: state_def less_eq_roster_state_def)

lemma saturating_sub_mono: "a \<le> a' \<Longrightarrow> i64_saturating_sub a b \<le> i64_saturating_sub a' b"
  by (auto simp: i64_saturating_sub_def i64_clamp_def)

lemma staleness_state_mono: "now \<le> now' \<Longrightarrow> staleness_state now g lc m \<le> staleness_state now' g lc m"
  using saturating_sub_mono [of now now' "the lc"]
  by (auto simp: staleness_state_def Let_def less_eq_roster_state_def split: option.splits)

lemma devices_for_user_set:
  "set (devices_for_user v u) = {(e, d_role d) | e d. (e, d) \<in> set (v_devices v) \<and> d_user_id d = u}"
  by (auto simp: devices_for_user_def)

end
