(* ===== verification/Peer_Store.thy ===== *)
theory Peer_Store
  imports Libs "HOL-Library.Char_ord"
begin

text \<open>
  The pair allowlist (\<open>node/src/allowlist.rs\<close>): three key-ordered tables in one database, the
  peers, the revoked endpoints and the revoked identities. A stored row is either readable or
  corrupt (it no longer deserialises), and a table read or write may fail; the store keeps which
  tables fail, so that the fail-closed decisions of the source are visible in the model.

  The lemmas show what each write changes, that the tables stay in key order, and what
  \<open>admission\<close> decides: the single place where a pairing-mode endpoint is admitted or refused.
\<close>

subsection \<open>Ordered tables\<close>

fun tbl_insert :: "'k::linorder \<Rightarrow> 'v \<Rightarrow> ('k \<times> 'v) list \<Rightarrow> ('k \<times> 'v) list" where
  "tbl_insert k v [] = [(k, v)]"
| "tbl_insert k v ((k', v') # m) =
     (if k < k' then (k, v) # (k', v') # m
      else if k = k' then (k, v) # m
      else (k', v') # tbl_insert k v m)"

abbreviation tbl_remove :: "'k::linorder \<Rightarrow> ('k \<times> 'v) list \<Rightarrow> ('k \<times> 'v) list" where
  "tbl_remove \<equiv> al_remove"

definition tbl_ok :: "('k::linorder \<times> 'v) list \<Rightarrow> bool" where
  "tbl_ok m \<longleftrightarrow> sorted_wrt (<) (al_keys m)"

text \<open>The contract of an ordered key-value table, as the store's clients rely on it.\<close>

locale kv_table =
  fixes ins :: "'k \<Rightarrow> 'v \<Rightarrow> 't \<Rightarrow> 't"
    and del :: "'k \<Rightarrow> 't \<Rightarrow> 't"
    and look :: "'t \<Rightarrow> 'k \<Rightarrow> 'v option"
    and ok :: "'t \<Rightarrow> bool"
  assumes look_ins: "look (ins k v t) k' = (if k' = k then Some v else look t k')"
    and look_del: "look (del k t) k' = (if k' = k then None else look t k')"
    and ok_ins: "ok t \<Longrightarrow> ok (ins k v t)"
    and ok_del: "ok t \<Longrightarrow> ok (del k t)"
begin

lemma read_your_write: "look (ins k v t) k = Some v"
  by (simp add: look_ins)

lemma write_frame: "k' \<noteq> k \<Longrightarrow> look (ins k v t) k' = look t k'"
  by (simp add: look_ins)

lemma last_write_wins: "look (ins k v (ins k w t)) = look (ins k v t)"
  by (auto simp: look_ins)

lemma delete_then_absent: "look (del k t) k = None"
  by (simp add: look_del)

lemma delete_undoes_insert: "look t k = None \<Longrightarrow> look (del k (ins k v t)) = look t"
  by (auto simp: look_ins look_del)

end

lemma map_of_tbl_insert [alist_simps]: "map_of (tbl_insert k v m) = (map_of m)(k \<mapsto> v)"
  by (induction k v m rule: tbl_insert.induct) auto

lemma keys_tbl_insert [alist_simps]: "set (al_keys (tbl_insert k v m)) = insert k (set (al_keys m))"
  by (induction k v m rule: tbl_insert.induct) auto

lemma tbl_ok_insert: "tbl_ok m \<Longrightarrow> tbl_ok (tbl_insert k v m)"
  unfolding tbl_ok_def
  by (induction k v m rule: tbl_insert.induct) (auto simp: keys_tbl_insert simp flip: set_map)

lemma tbl_ok_remove: "tbl_ok m \<Longrightarrow> tbl_ok (tbl_remove k m)"
  unfolding tbl_ok_def al_remove_def by (induction m) auto

lemma tbl_ok_distinct: "tbl_ok m \<Longrightarrow> distinct (al_keys m)"
  unfolding tbl_ok_def by (simp add: strict_sorted_iff)

interpretation kv: kv_table tbl_insert tbl_remove map_of tbl_ok
  by unfold_locales (auto simp: alist_simps tbl_ok_insert tbl_ok_remove)

subsection \<open>Rows and the store\<close>

datatype 'a row = Row 'a | Corrupt

record revoked_entry =
  re_endpoint_id :: bytes
  re_revoked_at :: u64
  re_reason :: "string option"
  re_source :: string
  re_signer_user_id :: "string option"
  re_issued_at :: "u64 option"

record peer_entry =
  pe_endpoint_id :: bytes
  pe_nickname :: string
  pe_services :: "string list"
  pe_paired_at :: "string option"
  pe_user_id :: "string option"
  pe_last_addr :: "string option"

datatype table = PEERS | REVOKED | REVOKED_USERS

datatype store_error = DbError | DecodeError

record peer_store =
  ps_peers :: "(bytes \<times> peer_entry row) list"
  ps_revoked :: "(bytes \<times> revoked_entry row) list"
  ps_revoked_users :: "(string \<times> revoked_entry row) list"
  ps_fails :: "table \<Rightarrow> bool"

datatype admission = Refused | Unpaired | Admitted peer_entry

definition store_open :: "(table \<Rightarrow> bool) \<Rightarrow> peer_store" where
  "store_open fails = \<lparr>ps_peers = [], ps_revoked = [], ps_revoked_users = [], ps_fails = fails\<rparr>"

text \<open>Every read and every write transaction first opens its table.\<close>

definition with_table :: "peer_store \<Rightarrow> table \<Rightarrow> 'a \<Rightarrow> store_error + 'a" where
  "with_table s t x = (if ps_fails s t then Inl DbError else Inr x)"

definition unreadable_entry :: "bytes \<Rightarrow> revoked_entry" where
  "unreadable_entry e = \<lparr>re_endpoint_id = e, re_revoked_at = 0,
     re_reason = Some ''unreadable revocation row'', re_source = ''unknown'',
     re_signer_user_id = None, re_issued_at = None\<rparr>"

definition revoked_entry_of :: "peer_store \<Rightarrow> bytes \<Rightarrow> store_error + revoked_entry option" where
  "revoked_entry_of s endpoint_id =
     rbind (with_table s REVOKED ()) (\<lambda>_.
       Inr (case map_of (ps_revoked s) endpoint_id of
          None \<Rightarrow> None
        | Some (Row e) \<Rightarrow> Some e
        | Some Corrupt \<Rightarrow> Some (unreadable_entry endpoint_id)))"

definition store_is_revoked :: "peer_store \<Rightarrow> bytes \<Rightarrow> bool" where
  "store_is_revoked s endpoint_id =
     (case revoked_entry_of s endpoint_id of Inr v \<Rightarrow> v \<noteq> None | Inl _ \<Rightarrow> True)"

definition is_user_revoked :: "peer_store \<Rightarrow> string \<Rightarrow> bool" where
  "is_user_revoked s user_id =
     (case with_table s REVOKED_USERS () of
        Inr _ \<Rightarrow> map_of (ps_revoked_users s) user_id \<noteq> None
      | Inl _ \<Rightarrow> True)"

definition is_roster_user_revoked :: "peer_store \<Rightarrow> string \<Rightarrow> bool" where
  "is_roster_user_revoked s roster_user_id \<longleftrightarrow>
     starts_with roster_user_id ''b64u:'' \<and> is_user_revoked s roster_user_id"

text \<open>
  \<open>decide_admission\<close> over its three reads, each a result. They are lazy in the source, so a
  later read is only looked at when the earlier ones did not decide.
\<close>

definition decide_admission ::
  "store_error + bool \<Rightarrow> store_error + peer_entry row option \<Rightarrow> (string \<Rightarrow> store_error + bool) \<Rightarrow> admission" where
  "decide_admission endpoint_revoked pair_row identity_revoked =
     (case rbind endpoint_revoked (\<lambda>rv.
        if rv then Inr Refused
        else rbind pair_row (\<lambda>raw.
          case raw of
            None \<Rightarrow> Inr Unpaired
          | Some Corrupt \<Rightarrow> Inr Unpaired
          | Some (Row entry) \<Rightarrow>
              (case pe_user_id entry of
                 None \<Rightarrow> Inr (Admitted entry)
               | Some uid \<Rightarrow> rbind (identity_revoked uid) (\<lambda>ir.
                   if ir then Inr Refused else Inr (Admitted entry)))))
      of Inr a \<Rightarrow> a | Inl (_ :: store_error) \<Rightarrow> Refused)"

definition store_admission :: "peer_store \<Rightarrow> bytes \<Rightarrow> admission" where
  "store_admission s endpoint_id =
     decide_admission
       (with_table s REVOKED (map_of (ps_revoked s) endpoint_id \<noteq> None))
       (with_table s PEERS (map_of (ps_peers s) endpoint_id))
       (\<lambda>uid. with_table s REVOKED_USERS (map_of (ps_revoked_users s) uid \<noteq> None))"

definition is_refused :: "peer_store \<Rightarrow> bytes \<Rightarrow> bool" where
  "is_refused s endpoint_id = (store_admission s endpoint_id = Refused)"

subsection \<open>Writes\<close>

definition revoke_user :: "peer_store \<Rightarrow> string \<Rightarrow> revoked_entry \<Rightarrow> store_error + peer_store" where
  "revoke_user s user_id e =
     with_table s REVOKED_USERS (s\<lparr>ps_revoked_users := tbl_insert user_id (Row e) (ps_revoked_users s)\<rparr>)"

definition unrevoke_user :: "peer_store \<Rightarrow> string \<Rightarrow> store_error + bool \<times> peer_store" where
  "unrevoke_user s user_id =
     with_table s REVOKED_USERS
       (map_of (ps_revoked_users s) user_id \<noteq> None,
        s\<lparr>ps_revoked_users := tbl_remove user_id (ps_revoked_users s)\<rparr>)"

definition list_revoked_users :: "peer_store \<Rightarrow> store_error + (string \<times> revoked_entry) list" where
  "list_revoked_users s =
     with_table s REVOKED_USERS
       (map (\<lambda>(uid, r). (uid, case r of Row e \<Rightarrow> e | Corrupt \<Rightarrow> unreadable_entry (replicate 32 0)))
         (ps_revoked_users s))"

definition revoke :: "peer_store \<Rightarrow> revoked_entry \<Rightarrow> store_error + peer_store" where
  "revoke s e =
     with_table s REVOKED (s\<lparr>ps_revoked := tbl_insert (re_endpoint_id e) (Row e) (ps_revoked s)\<rparr>)"

definition unrevoke :: "peer_store \<Rightarrow> bytes \<Rightarrow> store_error + bool \<times> peer_store" where
  "unrevoke s endpoint_id =
     with_table s REVOKED
       (map_of (ps_revoked s) endpoint_id \<noteq> None,
        s\<lparr>ps_revoked := tbl_remove endpoint_id (ps_revoked s)\<rparr>)"

definition list_revoked :: "peer_store \<Rightarrow> store_error + revoked_entry list" where
  "list_revoked s =
     with_table s REVOKED
       (map (\<lambda>(k, r). case r of Row e \<Rightarrow> e
            | Corrupt \<Rightarrow> unreadable_entry (if length k = 32 then k else replicate 32 0)) (ps_revoked s))"

definition store_add :: "peer_store \<Rightarrow> peer_entry \<Rightarrow> store_error + peer_store" where
  "store_add s e =
     with_table s PEERS (s\<lparr>ps_peers := tbl_insert (pe_endpoint_id e) (Row e) (ps_peers s)\<rparr>)"

definition set_last_addr :: "peer_store \<Rightarrow> bytes \<Rightarrow> string \<Rightarrow> store_error + bool \<times> peer_store" where
  "set_last_addr s endpoint_id last_addr =
     rbind (with_table s PEERS (map_of (ps_peers s) endpoint_id)) (\<lambda>existing.
       case existing of
         None \<Rightarrow> Inr (False, s)
       | Some Corrupt \<Rightarrow> Inl DecodeError
       | Some (Row entry) \<Rightarrow>
           if pe_last_addr entry = Some last_addr then Inr (False, s)
           else Inr (True, s\<lparr>ps_peers :=
             tbl_insert endpoint_id (Row (entry\<lparr>pe_last_addr := Some last_addr\<rparr>)) (ps_peers s)\<rparr>))"

definition clear_last_addr :: "peer_store \<Rightarrow> bytes \<Rightarrow> store_error + string option \<times> peer_store" where
  "clear_last_addr s endpoint_id =
     rbind (with_table s PEERS (map_of (ps_peers s) endpoint_id)) (\<lambda>existing.
       case existing of
         None \<Rightarrow> Inr (None, s)
       | Some Corrupt \<Rightarrow> Inl DecodeError
       | Some (Row entry) \<Rightarrow>
           (case pe_last_addr entry of
              None \<Rightarrow> Inr (None, s)
            | Some previous \<Rightarrow> Inr (Some previous, s\<lparr>ps_peers :=
                tbl_insert endpoint_id (Row (entry\<lparr>pe_last_addr := None\<rparr>)) (ps_peers s)\<rparr>)))"

subsection \<open>Reads\<close>

definition store_resolve :: "peer_store \<Rightarrow> bytes \<Rightarrow> store_error + peer_entry option" where
  "store_resolve s endpoint_id =
     rbind (with_table s PEERS (map_of (ps_peers s) endpoint_id)) (\<lambda>v.
       Inr (case v of Some (Row entry) \<Rightarrow> Some entry | _ \<Rightarrow> None))"

fun readable :: "('k \<times> 'a row) list \<Rightarrow> 'a list" where
  "readable [] = []"
| "readable ((k, Row e) # m) = e # readable m"
| "readable ((k, Corrupt) # m) = readable m"

definition store_list :: "peer_store \<Rightarrow> store_error + peer_entry list" where
  "store_list s = with_table s PEERS (readable (ps_peers s))"

definition entry_for :: "peer_store \<Rightarrow> string \<Rightarrow> store_error + peer_entry option" where
  "entry_for s nickname =
     rbind (store_list s) (\<lambda>es. Inr (find (\<lambda>e. pe_nickname e = nickname) es))"

definition entries_for_user :: "peer_store \<Rightarrow> string \<Rightarrow> store_error + peer_entry list" where
  "entries_for_user s user_id =
     rbind (store_list s) (\<lambda>es. Inr (filter (\<lambda>e. pe_user_id e = Some user_id) es))"

definition has_nickname :: "string \<Rightarrow> peer_entry row \<Rightarrow> bool" where
  "has_nickname nickname r = (case r of Row e \<Rightarrow> pe_nickname e = nickname | Corrupt \<Rightarrow> False)"

definition store_remove :: "peer_store \<Rightarrow> string \<Rightarrow> store_error + bool \<times> peer_store" where
  "store_remove s nickname =
     (let victims = map fst (filter (\<lambda>(k, r). has_nickname nickname r) (ps_peers s))
      in with_table s PEERS
        (victims \<noteq> [], s\<lparr>ps_peers := foldl (\<lambda>m k. tbl_remove k m) (ps_peers s) victims\<rparr>))"

subsection \<open>What the operations do\<close>

lemma with_table_Inr [result_simps]: "with_table s t x = Inr y \<longleftrightarrow> \<not> ps_fails s t \<and> y = x"
  by (auto simp: with_table_def)

lemma mem_readable: "e \<in> set (readable m) \<longleftrightarrow> (\<exists>k. (k, Row e) \<in> set m)"
  by (induction m rule: readable.induct) auto

text \<open>The invariant of the store: key-ordered tables, and a readable row sits under its own key.\<close>

definition keyed_by_self :: "(bytes \<times> peer_entry row) list \<Rightarrow> bool" where
  "keyed_by_self m \<longleftrightarrow> (\<forall>(k, r) \<in> set m. case r of Row e \<Rightarrow> pe_endpoint_id e = k | Corrupt \<Rightarrow> True)"

definition store_ok :: "peer_store \<Rightarrow> bool" where
  "store_ok s \<longleftrightarrow> tbl_ok (ps_peers s) \<and> tbl_ok (ps_revoked s) \<and> tbl_ok (ps_revoked_users s) \<and>
     keyed_by_self (ps_peers s)"

lemma set_tbl_insert: "set (tbl_insert k v m) \<subseteq> insert (k, v) (set m)"
  by (induction k v m rule: tbl_insert.induct) auto

lemma keyed_by_self_insert:
  "keyed_by_self m \<Longrightarrow> pe_endpoint_id e = k \<Longrightarrow> keyed_by_self (tbl_insert k (Row e) m)"
  unfolding keyed_by_self_def using set_tbl_insert [of k "Row e" m] by fastforce

lemma keyed_by_self_remove: "keyed_by_self m \<Longrightarrow> keyed_by_self (tbl_remove k m)"
  by (auto simp: keyed_by_self_def al_remove_def)

lemma keyed_lookup: "keyed_by_self m \<Longrightarrow> map_of m k = Some (Row e) \<Longrightarrow> pe_endpoint_id e = k"
  unfolding keyed_by_self_def by (drule map_of_SomeD) fastforce

lemma store_ok_open: "store_ok (store_open f)"
  by (simp add: store_ok_def store_open_def tbl_ok_def keyed_by_self_def)

lemma store_ok_add: "store_ok s \<Longrightarrow> store_add s e = Inr s' \<Longrightarrow> store_ok s'"
  by (auto simp: store_add_def result_simps store_ok_def kv.ok_ins keyed_by_self_insert)

lemma store_ok_revoke: "store_ok s \<Longrightarrow> revoke s e = Inr s' \<Longrightarrow> store_ok s'"
  by (auto simp: revoke_def result_simps store_ok_def kv.ok_ins)

lemma store_ok_unrevoke: "store_ok s \<Longrightarrow> unrevoke s e = Inr (b, s') \<Longrightarrow> store_ok s'"
  by (auto simp: unrevoke_def result_simps store_ok_def kv.ok_del)

lemma store_ok_revoke_user: "store_ok s \<Longrightarrow> revoke_user s u e = Inr s' \<Longrightarrow> store_ok s'"
  by (auto simp: revoke_user_def result_simps store_ok_def kv.ok_ins)

lemma store_ok_unrevoke_user: "store_ok s \<Longrightarrow> unrevoke_user s u = Inr (b, s') \<Longrightarrow> store_ok s'"
  by (auto simp: unrevoke_user_def result_simps store_ok_def kv.ok_del)

lemma store_ok_set_last_addr:
  "store_ok s \<Longrightarrow> set_last_addr s e a = Inr (b, s') \<Longrightarrow> store_ok s'"
  by (auto simp: set_last_addr_def result_simps store_ok_def
      split: option.splits row.splits if_splits
      intro!: kv.ok_ins keyed_by_self_insert) (metis keyed_lookup)

lemma store_ok_clear_last_addr:
  "store_ok s \<Longrightarrow> clear_last_addr s e = Inr (b, s') \<Longrightarrow> store_ok s'"
  by (auto simp: clear_last_addr_def result_simps store_ok_def
      split: option.splits row.splits if_splits
      intro!: kv.ok_ins keyed_by_self_insert) (metis keyed_lookup)

lemma foldl_remove_filter: "foldl (\<lambda>m k. tbl_remove k m) m ks = filter (\<lambda>p. fst p \<notin> set ks) m"
  by (induction ks arbitrary: m) (auto simp: al_remove_def intro: filter_cong)

lemma tbl_ok_filter: "tbl_ok m \<Longrightarrow> tbl_ok (filter P m)"
  unfolding tbl_ok_def by (induction m) auto

lemma store_ok_remove: "store_ok s \<Longrightarrow> store_remove s n = Inr (b, s') \<Longrightarrow> store_ok s'"
  by (auto simp: store_remove_def Let_def result_simps store_ok_def foldl_remove_filter tbl_ok_filter
      keyed_by_self_def)

text \<open>Removal by nickname deletes exactly the readable rows that carry it.\<close>

lemma store_remove_rows:
  assumes "store_ok s" "store_remove s n = Inr (b, s')"
  shows "map_of (ps_peers s') k =
      (case map_of (ps_peers s) k of
         Some r \<Rightarrow> if has_nickname n r then None else Some r | None \<Rightarrow> None)"
    and "b \<longleftrightarrow> (\<exists>k r. map_of (ps_peers s) k = Some r \<and> has_nickname n r)"
proof -
  let ?m = "ps_peers s"
  have d: "distinct (al_keys ?m)" using assms(1) by (simp add: store_ok_def tbl_ok_distinct)
  have s': "ps_peers s' = filter (\<lambda>p. fst p \<notin> fst ` {x \<in> set ?m. case x of (k, r) \<Rightarrow> has_nickname n r}) ?m"
    and b: "b \<longleftrightarrow> filter (\<lambda>(k, r). has_nickname n r) ?m \<noteq> []"
    using assms(2) by (auto simp: store_remove_def Let_def result_simps foldl_remove_filter)
  have *: "k \<in> fst ` {x \<in> set ?m. case x of (k, r) \<Rightarrow> has_nickname n r} \<longleftrightarrow> (\<exists>r. map_of ?m k = Some r \<and> has_nickname n r)" for k
    using d by (force simp: image_iff)
  have flt: "map_of (filter (\<lambda>p. fst p \<notin> A) m) k = (if k \<in> A then None else map_of m k)" for A m
    by (induction m) auto
  show "map_of (ps_peers s') k =
      (case map_of ?m k of Some r \<Rightarrow> if has_nickname n r then None else Some r | None \<Rightarrow> None)"
    unfolding s' flt using * [of k] by (auto split: option.splits)
  show "b \<longleftrightarrow> (\<exists>k r. map_of ?m k = Some r \<and> has_nickname n r)"
    unfolding b filter_empty_conv using d by auto
qed

subsection \<open>Admission\<close>

text \<open>The decision, fully spelled out: precedence and the fail-closed reading of every error.\<close>

lemma admission_Refused:
  "store_admission s e = Refused \<longleftrightarrow>
     ps_fails s REVOKED \<or> map_of (ps_revoked s) e \<noteq> None \<or> ps_fails s PEERS \<or>
     (\<exists>entry uid. map_of (ps_peers s) e = Some (Row entry) \<and> pe_user_id entry = Some uid \<and>
        (ps_fails s REVOKED_USERS \<or> map_of (ps_revoked_users s) uid \<noteq> None))"
  by (auto simp: store_admission_def decide_admission_def with_table_def split: option.splits row.splits)

lemma admission_Admitted:
  "store_admission s e = Admitted entry \<longleftrightarrow>
     \<not> ps_fails s REVOKED \<and> map_of (ps_revoked s) e = None \<and> \<not> ps_fails s PEERS \<and>
     map_of (ps_peers s) e = Some (Row entry) \<and>
     (\<forall>uid. pe_user_id entry = Some uid \<longrightarrow>
        \<not> ps_fails s REVOKED_USERS \<and> map_of (ps_revoked_users s) uid = None)"
  by (auto simp: store_admission_def decide_admission_def with_table_def split: option.splits row.splits)

lemma is_refused_iff:
  "is_refused s e \<longleftrightarrow>
     store_is_revoked s e \<or> ps_fails s PEERS \<or>
     (\<exists>entry uid. map_of (ps_peers s) e = Some (Row entry) \<and> pe_user_id entry = Some uid \<and>
        is_user_revoked s uid)"
  by (auto simp: is_refused_def admission_Refused store_is_revoked_def revoked_entry_of_def
      is_user_revoked_def with_table_def split: option.splits row.splits)

lemma user_revoked_after_revoke_user:
  "revoke_user s u x = Inr s' \<Longrightarrow> is_user_revoked s' u"
  unfolding revoke_user_def result_simps
  by (auto simp: is_user_revoked_def with_table_def alist_simps)

end
