(* ===== verification/Gate.thy ===== *)
theory Gate
  imports Roster_View Peer_Store
begin

text \<open>
  Trust gates: the interface every trust policy implements (\<open>TrustGate\<close> in
  \<open>net/src/identity.rs\<close>), the static and pairing gates (\<open>net/src/identity.rs\<close>,
  \<open>node/src/allowlist.rs\<close>), the roster gate and the composed gate of the daemon
  (\<open>node/src/roster/gate.rs\<close>), and the principal-to-endpoint resolution of the revoke paths
  (\<open>node/src/daemon/sever.rs\<close>).

  The locales state what a gate's callers rely on: an identity is stamped with the authenticated
  key, a revoked endpoint is never resolved, a revoked endpoint is severed at registration, and an
  admitted one is not. They are interpreted on every gate of the code. The clock is a parameter.
\<close>

subsection \<open>Identities\<close>

record peer_identity =
  pi_endpoint :: bytes
  pi_name :: string
  pi_user_id :: "string option"
  pi_groups :: "string list"

text \<open>\<open>EndpointId::principal\<close>, the machine rendering of a device identity.\<close>

definition principal :: "libs \<Rightarrow> bytes \<Rightarrow> string" where
  "principal L e = ''eid:'' @ hexlower L e"

lemma principal_inj: "hex_injective L \<Longrightarrow> principal L a = principal L b \<longleftrightarrow> a = b"
  by (auto simp: principal_def hex_injective_def inj_def)

subsection \<open>The gate interface\<close>

locale trust_gate =
  fixes resolve :: "bytes \<Rightarrow> peer_identity option"
    and is_revoked :: "bytes \<Rightarrow> bool"
  assumes stamped: "resolve e = Some i \<Longrightarrow> pi_endpoint i = e"
    and revoked_refused: "is_revoked e \<Longrightarrow> resolve e = None"
begin

lemma admitted_not_revoked: "resolve e = Some i \<Longrightarrow> \<not> is_revoked e"
  using revoked_refused by fastforce

text \<open>Two endpoints never share an identity: the stamp tells them apart.\<close>

lemma identities_distinct: "resolve a = Some i \<Longrightarrow> resolve b = Some i \<Longrightarrow> a = b"
  using stamped by metis

end

locale severing_gate = trust_gate +
  fixes should_sever_now :: "bytes \<Rightarrow> string option \<Rightarrow> bool"
    and roster_user :: "bytes \<Rightarrow> string option"
  assumes revoked_severed: "is_revoked e \<Longrightarrow> should_sever_now e (roster_user e)"
    and admitted_kept: "resolve e = Some i \<Longrightarrow> \<not> should_sever_now e (roster_user e)"
begin

text \<open>
  The register-time recheck agrees with the accept-time decision: what the gate resolves it does
  not sever in the same state, and what it severs it does not resolve.
\<close>

lemma severed_not_admitted: "should_sever_now e (roster_user e) \<Longrightarrow> resolve e = None"
  using admitted_kept by (cases "resolve e") auto

end

subsection \<open>The static gate\<close>

type_synonym static_gate = "(bytes \<times> peer_identity) list"

definition static_resolve :: "static_gate \<Rightarrow> bytes \<Rightarrow> peer_identity option" where
  "static_resolve g endpoint = map_option (\<lambda>i. i\<lparr>pi_endpoint := endpoint\<rparr>) (map_of g endpoint)"

text \<open>The trait's defaults: no revocation, no severing, no roster.\<close>

definition default_is_revoked :: "bytes \<Rightarrow> bool" where
  "default_is_revoked endpoint = False"

definition default_should_sever_now :: "bytes \<Rightarrow> string option \<Rightarrow> bool" where
  "default_should_sever_now endpoint roster_user = False"

definition default_roster_user :: "bytes \<Rightarrow> string option" where
  "default_roster_user endpoint = None"

interpretation static_gate: severing_gate "static_resolve g" default_is_revoked
  default_should_sever_now default_roster_user for g
  by unfold_locales (auto simp: static_resolve_def default_is_revoked_def default_should_sever_now_def)

subsection \<open>The pairing gate\<close>

definition identity_of :: "bytes \<Rightarrow> peer_entry \<Rightarrow> peer_identity" where
  "identity_of endpoint e =
     \<lparr>pi_endpoint = endpoint, pi_name = pe_nickname e, pi_user_id = pe_user_id e, pi_groups = []\<rparr>"

definition allowlist_resolve :: "peer_store \<Rightarrow> bytes \<Rightarrow> peer_identity option" where
  "allowlist_resolve s endpoint =
     (case store_admission s endpoint of
        Admitted e \<Rightarrow> Some (identity_of endpoint e)
      | Refused \<Rightarrow> None
      | Unpaired \<Rightarrow> None)"

definition allowlist_is_revoked :: "peer_store \<Rightarrow> bytes \<Rightarrow> bool" where
  "allowlist_is_revoked s endpoint = is_refused s endpoint"

definition allowlist_should_sever_now :: "peer_store \<Rightarrow> bytes \<Rightarrow> string option \<Rightarrow> bool" where
  "allowlist_should_sever_now s endpoint roster_user = is_refused s endpoint"

interpretation allowlist_gate: severing_gate "allowlist_resolve s" "allowlist_is_revoked s"
  "allowlist_should_sever_now s" default_roster_user for s
  by unfold_locales
    (auto simp: allowlist_resolve_def identity_of_def allowlist_is_revoked_def is_refused_def
      allowlist_should_sever_now_def split: admission.splits)

subsection \<open>The roster gate\<close>

definition DEFAULT_GRACE_SECS :: int where "DEFAULT_GRACE_SECS = 72 * 3600"

record roster_gate =
  rg_view :: "roster_view option"
  rg_grace_secs :: int
  rg_last_confirmed :: "int option"
  rg_max_staleness :: int

definition rg_empty :: roster_gate where
  "rg_empty = \<lparr>rg_view = None, rg_grace_secs = DEFAULT_GRACE_SECS, rg_last_confirmed = None,
     rg_max_staleness = i64_max\<rparr>"

definition rg_with_grace :: "int \<Rightarrow> roster_gate" where
  "rg_with_grace grace_secs = \<lparr>rg_view = None, rg_grace_secs = grace_secs, rg_last_confirmed = None,
     rg_max_staleness = i64_max\<rparr>"

definition rg_with_freshness :: "int \<Rightarrow> int \<Rightarrow> roster_gate" where
  "rg_with_freshness grace_secs max_staleness = \<lparr>rg_view = None, rg_grace_secs = grace_secs,
     rg_last_confirmed = None, rg_max_staleness = max_staleness\<rparr>"

definition rg_set_last_confirmed :: "roster_gate \<Rightarrow> int \<Rightarrow> roster_gate" where
  "rg_set_last_confirmed g epoch = g\<lparr>rg_last_confirmed := Some epoch\<rparr>"

definition rg_effective_state :: "roster_gate \<Rightarrow> int \<Rightarrow> roster_state option" where
  "rg_effective_state g now_epoch =
     map_option (\<lambda>view. effective_state view now_epoch (rg_grace_secs g) (rg_last_confirmed g)
       (rg_max_staleness g)) (rg_view g)"

definition rg_install :: "roster_gate \<Rightarrow> roster_view \<Rightarrow> roster_gate" where
  "rg_install g view = g\<lparr>rg_view := Some view\<rparr>"

definition roster_identity :: "bytes \<Rightarrow> resolved_device \<Rightarrow> peer_identity" where
  "roster_identity endpoint d = \<lparr>pi_endpoint = endpoint, pi_name = d_user_id d,
     pi_user_id = Some (d_user_id d), pi_groups = d_groups d\<rparr>"

definition rg_resolve :: "roster_gate \<Rightarrow> int \<Rightarrow> bytes \<Rightarrow> peer_identity option" where
  "rg_resolve g now endpoint =
     Option.bind (rg_view g) (\<lambda>view.
       if rg_effective_state g now = Some DegradedStopped then None
       else if view_is_revoked view endpoint then None
       else map_option (roster_identity endpoint) (view_resolve view endpoint))"

definition rg_is_revoked :: "roster_gate \<Rightarrow> bytes \<Rightarrow> bool" where
  "rg_is_revoked g endpoint =
     (case rg_view g of Some v \<Rightarrow> view_is_revoked v endpoint | None \<Rightarrow> False)"

definition rg_roster_user :: "roster_gate \<Rightarrow> int \<Rightarrow> bytes \<Rightarrow> string option" where
  "rg_roster_user g now endpoint = Option.bind (rg_resolve g now endpoint) pi_user_id"

text \<open>The roster gate inherits the trait's default \<open>should_sever_now\<close>, so it is not a severing gate.\<close>

interpretation roster_gate: trust_gate "rg_resolve g now" "rg_is_revoked g" for g now
  by unfold_locales
    (auto simp: rg_resolve_def rg_is_revoked_def roster_identity_def bind_eq_Some_conv
      split: if_splits option.splits)

subsection \<open>The composed gate\<close>

record composed_gate =
  cg_roster :: roster_gate
  cg_pairs :: peer_store

definition roster_identity_revoked :: "composed_gate \<Rightarrow> string option \<Rightarrow> bool" where
  "roster_identity_revoked g roster_user_id =
     (case roster_user_id of None \<Rightarrow> False | Some u \<Rightarrow> is_roster_user_revoked (cg_pairs g) u)"

definition cg_roster_user :: "composed_gate \<Rightarrow> int \<Rightarrow> bytes \<Rightarrow> string option" where
  "cg_roster_user g now endpoint = rg_roster_user (cg_roster g) now endpoint"

definition cg_resolve :: "composed_gate \<Rightarrow> int \<Rightarrow> bytes \<Rightarrow> peer_identity option" where
  "cg_resolve g now endpoint =
     (if rg_is_revoked (cg_roster g) endpoint then None
      else let pair = store_admission (cg_pairs g) endpoint in
        if pair = Refused then None
        else case rg_resolve (cg_roster g) now endpoint of
          Some i \<Rightarrow> if roster_identity_revoked g (pi_user_id i) then None else Some i
        | None \<Rightarrow> (case pair of Admitted e \<Rightarrow> Some (identity_of endpoint e)
                  | Refused \<Rightarrow> None | Unpaired \<Rightarrow> None))"

definition cg_is_revoked :: "composed_gate \<Rightarrow> int \<Rightarrow> bytes \<Rightarrow> bool" where
  "cg_is_revoked g now endpoint \<longleftrightarrow>
     rg_is_revoked (cg_roster g) endpoint \<or> allowlist_is_revoked (cg_pairs g) endpoint \<or>
     roster_identity_revoked g (rg_roster_user (cg_roster g) now endpoint)"

definition cg_should_sever_now :: "composed_gate \<Rightarrow> bytes \<Rightarrow> string option \<Rightarrow> bool" where
  "cg_should_sever_now g endpoint roster_user \<longleftrightarrow>
     allowlist_is_revoked (cg_pairs g) endpoint \<or> rg_is_revoked (cg_roster g) endpoint \<or>
     roster_identity_revoked g roster_user \<or>
     (roster_user \<noteq> None \<and>
      (case rg_view (cg_roster g) of Some v \<Rightarrow> view_resolve v endpoint = None | None \<Rightarrow> False))"

lemma rg_resolve_Some:
  "rg_resolve g now e = Some i \<longleftrightarrow>
     (\<exists>v d. rg_view g = Some v \<and> rg_effective_state g now \<noteq> Some DegradedStopped \<and>
        \<not> view_is_revoked v e \<and> view_resolve v e = Some d \<and> i = roster_identity e d)"
  by (auto simp: rg_resolve_def bind_eq_Some_conv)

lemma rg_resolve_user: "rg_resolve g now e = Some i \<Longrightarrow> \<exists>u. pi_user_id i = Some u"
  by (auto simp: rg_resolve_Some roster_identity_def)

lemma rg_roster_user_resolve:
  "rg_roster_user g now e = (case rg_resolve g now e of Some i \<Rightarrow> pi_user_id i | None \<Rightarrow> None)"
  by (simp add: rg_roster_user_def split: option.splits)

lemma refused_iff_revoked: "store_admission s e = Refused \<longleftrightarrow> allowlist_is_revoked s e"
  by (simp add: allowlist_is_revoked_def is_refused_def)

lemma cg_resolve_cases:
  "cg_resolve g now e = Some i \<longleftrightarrow>
     \<not> rg_is_revoked (cg_roster g) e \<and> \<not> allowlist_is_revoked (cg_pairs g) e \<and>
     (case rg_resolve (cg_roster g) now e of
        Some j \<Rightarrow> i = j \<and> \<not> roster_identity_revoked g (pi_user_id j)
      | None \<Rightarrow> (\<exists>p. store_admission (cg_pairs g) e = Admitted p \<and> i = identity_of e p))"
  by (auto simp: cg_resolve_def Let_def refused_iff_revoked split: option.splits admission.splits)

interpretation composed_gate: severing_gate "cg_resolve g now" "cg_is_revoked g now"
  "cg_should_sever_now g" "cg_roster_user g now" for g now
proof unfold_locales
  fix e i
  show "cg_resolve g now e = Some i \<Longrightarrow> pi_endpoint i = e"
    by (auto simp: cg_resolve_cases identity_of_def roster_gate.stamped split: option.splits)
  show "cg_is_revoked g now e \<Longrightarrow> cg_resolve g now e = None"
    by (cases "cg_resolve g now e")
      (auto simp: cg_resolve_cases cg_is_revoked_def rg_roster_user_resolve roster_identity_revoked_def
        split: option.splits)
  show "cg_is_revoked g now e \<Longrightarrow> cg_should_sever_now g e (cg_roster_user g now e)"
    by (auto simp: cg_is_revoked_def cg_should_sever_now_def cg_roster_user_def)
  assume adm: "cg_resolve g now e = Some i"
  show "\<not> cg_should_sever_now g e (cg_roster_user g now e)"
  proof (cases "rg_resolve (cg_roster g) now e")
    case None
    with adm show ?thesis
      by (simp add: cg_resolve_cases cg_should_sever_now_def cg_roster_user_def rg_roster_user_resolve
          roster_identity_revoked_def)
  next
    case (Some j)
    then obtain v d where "rg_view (cg_roster g) = Some v" "view_resolve v e = Some d"
      by (auto simp: rg_resolve_Some)
    with Some adm show ?thesis
      by (simp add: cg_resolve_cases cg_should_sever_now_def cg_roster_user_def rg_roster_user_resolve)
  qed
qed

subsection \<open>Principals\<close>

definition endpoints_for_principal ::
  "libs \<Rightarrow> peer_store \<Rightarrow> roster_view option \<Rightarrow> string \<Rightarrow> store_error + bytes list" where
  "endpoints_for_principal L s roster p =
     rbind (store_list s) (\<lambda>entries.
     let stored = map pe_endpoint_id
           (filter (\<lambda>e. principal L (pe_endpoint_id e) = p \<or> pe_user_id e = Some p) entries);
         rostered = (case roster of
             None \<Rightarrow> []
           | Some view \<Rightarrow> map fst (filter (\<lambda>(bs, d). principal L bs = p \<or> d_user_id d = p \<or>
               p \<in> set (d_groups d)) (v_devices view)))
     in Inr (foldl push_new (foldl push_new [] stored) rostered))"

text \<open>The namespace one endpoint answers to: its device principal, its person, its groups.\<close>

definition names_endpoint ::
  "libs \<Rightarrow> peer_store \<Rightarrow> roster_view option \<Rightarrow> string \<Rightarrow> bytes \<Rightarrow> bool" where
  "names_endpoint L s roster p e \<longleftrightarrow>
     (\<exists>entry \<in> set (readable (ps_peers s)). pe_endpoint_id entry = e \<and>
        (principal L e = p \<or> pe_user_id entry = Some p)) \<or>
     (\<exists>v d. roster = Some v \<and> (e, d) \<in> set (v_devices v) \<and>
        (principal L e = p \<or> d_user_id d = p \<or> p \<in> set (d_groups d)))"

lemma endpoints_for_principal_spec:
  "endpoints_for_principal L s roster p = Inr es \<Longrightarrow>
     e \<in> set es \<longleftrightarrow> names_endpoint L s roster p e"
  by (auto simp: endpoints_for_principal_def store_list_def result_simps Let_def names_endpoint_def
      image_iff split: option.splits)

end
