(* ===== verification/Registry.thy ===== *)
theory Registry
  imports Gate
begin

text \<open>
  The live-connection registry (\<open>net/src/registry.rs\<close>): checked registration, per-stream roster
  promotion, per-session admission records, and the two sever passes. Connections are numbered;
  \<open>conn.close\<close> is recorded as the set of closed connections.

  The mutex makes every operation atomic; the interleavings with roster installs and allow-list
  revokes are the step relations of \<open>Sever\<close>.
\<close>

type_synonym conn = nat

record tracked =
  t_endpoint_id :: bytes
  t_roster_user :: "string option"
  t_admitted :: "(string \<times> nat) list"
  t_conn :: conn

record conn_registry =
  cr_inner :: "(u64 \<times> tracked) list"
  cr_seq :: u64

definition cr_new :: conn_registry where
  "cr_new = \<lparr>cr_inner = [], cr_seq = 0\<rparr>"

text \<open>The pure sever rule of a roster install.\<close>

definition should_sever :: "bytes \<Rightarrow> string option \<Rightarrow> bytes set \<Rightarrow> bytes set \<Rightarrow> bool" where
  "should_sever endpoint_id roster_user revoked active_devices \<longleftrightarrow>
     endpoint_id \<in> revoked \<or> (roster_user \<noteq> None \<and> endpoint_id \<notin> active_devices)"

definition register_checked ::
  "conn_registry \<Rightarrow> conn \<Rightarrow> bytes \<Rightarrow> string option \<Rightarrow> (bytes \<Rightarrow> bool) \<Rightarrow> u64 option \<times> conn_registry" where
  "register_checked r conn remote_id roster_user should_sever_now =
     (if should_sever_now remote_id then (None, r)
      else let i = cr_seq r in
        (Some i, r\<lparr>cr_seq := i + 1,
           cr_inner := al_insert i \<lparr>t_endpoint_id = remote_id, t_roster_user = roster_user,
             t_admitted = [], t_conn = conn\<rparr> (cr_inner r)\<rparr>))"

text \<open>\<open>Drop for Registration\<close>.\<close>

definition deregister :: "conn_registry \<Rightarrow> u64 \<Rightarrow> conn_registry" where
  "deregister r i = r\<lparr>cr_inner := al_remove i (cr_inner r)\<rparr>"

text \<open>
  \<open>ConnTracker::admit_roster_user\<close>: the answer, the new registry, and the new value of the
  tracker's \<open>promoted\<close> flag.
\<close>

definition admit_roster_user ::
  "conn_registry \<Rightarrow> u64 \<Rightarrow> bool \<Rightarrow> string option \<Rightarrow> (bytes \<Rightarrow> bool) \<Rightarrow> bool \<times> conn_registry \<times> bool" where
  "admit_roster_user r i promoted roster_user should_sever_now =
     (case roster_user of
        None \<Rightarrow> (True, r, promoted)
      | Some user \<Rightarrow>
          if promoted then (True, r, promoted)
          else case map_of (cr_inner r) i of
            None \<Rightarrow> (False, r, promoted)
          | Some t \<Rightarrow>
              if should_sever_now (t_endpoint_id t) then (False, r, promoted)
              else (True, r\<lparr>cr_inner := al_insert i (t\<lparr>t_roster_user := Some user\<rparr>) (cr_inner r)\<rparr>, True))"

definition count_up :: "(string \<times> nat) list \<Rightarrow> string \<Rightarrow> (string \<times> nat) list" where
  "count_up m p = al_insert p (case map_of m p of None \<Rightarrow> 1 | Some n \<Rightarrow> Suc n) m"

definition count_down :: "(string \<times> nat) list \<Rightarrow> string \<Rightarrow> (string \<times> nat) list" where
  "count_down m p =
     (case map_of m p of
        None \<Rightarrow> m
      | Some n \<Rightarrow> if n - 1 = 0 then al_remove p m else al_insert p (n - 1) m)"

definition admit_session ::
  "conn_registry \<Rightarrow> u64 \<Rightarrow> string list \<Rightarrow> bool \<Rightarrow> bool \<times> conn_registry" where
  "admit_session r i principals still_admitted =
     (case map_of (cr_inner r) i of
        None \<Rightarrow> (False, r)
      | Some t \<Rightarrow>
          if \<not> still_admitted then (False, r)
          else (True, r\<lparr>cr_inner := al_insert i (t\<lparr>t_admitted := foldl count_up (t_admitted t) principals\<rparr>)
                 (cr_inner r)\<rparr>))"

text \<open>\<open>Drop for AdmittedSession\<close>.\<close>

definition end_session :: "conn_registry \<Rightarrow> u64 \<Rightarrow> string list \<Rightarrow> conn_registry" where
  "end_session r i principals =
     (case map_of (cr_inner r) i of
        None \<Rightarrow> r
      | Some t \<Rightarrow> r\<lparr>cr_inner := al_insert i (t\<lparr>t_admitted := foldl count_down (t_admitted t) principals\<rparr>)
                 (cr_inner r)\<rparr>)"

text \<open>A sever pass closes the matching connections and returns how many it closed.\<close>

definition sever_matching :: "conn_registry \<Rightarrow> (bytes \<Rightarrow> string option \<Rightarrow> bool) \<Rightarrow> conn list" where
  "sever_matching r should =
     map t_conn (filter (\<lambda>t. should (t_endpoint_id t) (t_roster_user t)) (map snd (cr_inner r)))"

definition sever_matching_admitted ::
  "conn_registry \<Rightarrow> (bytes \<Rightarrow> bool) \<Rightarrow> (string \<Rightarrow> bool) \<Rightarrow> conn list" where
  "sever_matching_admitted r endpoints principals =
     map t_conn (filter (\<lambda>t. endpoints (t_endpoint_id t) \<or> (\<exists>p \<in> set (al_keys (t_admitted t)). principals p))
       (map snd (cr_inner r)))"

definition cr_len :: "conn_registry \<Rightarrow> nat" where
  "cr_len r = length (cr_inner r)"

definition cr_is_empty :: "conn_registry \<Rightarrow> bool" where
  "cr_is_empty r = (cr_inner r = [])"

subsection \<open>Counting admitted sessions\<close>

definition counter_ok :: "(string \<times> nat) list \<Rightarrow> bool" where
  "counter_ok m \<longleftrightarrow> distinct (al_keys m) \<and> al_all (\<lambda>p n. 0 < n) m"

definition count_of :: "(string \<times> nat) list \<Rightarrow> string \<Rightarrow> nat" where
  "count_of m p = (case map_of m p of None \<Rightarrow> 0 | Some n \<Rightarrow> n)"

lemma counter_ok_insert: "counter_ok m \<Longrightarrow> 0 < n \<Longrightarrow> counter_ok (al_insert p n m)"
  by (simp add: counter_ok_def distinct_al_insert al_all_insert)

lemma counter_ok_remove: "counter_ok m \<Longrightarrow> counter_ok (al_remove p m)"
  by (simp add: counter_ok_def distinct_al_remove al_all_remove)

lemma counter_ok_up: "counter_ok m \<Longrightarrow> counter_ok (count_up m p)"
  unfolding count_up_def by (rule counter_ok_insert) (auto split: option.splits)

lemma counter_ok_down: "counter_ok m \<Longrightarrow> counter_ok (count_down m p)"
  by (auto simp: count_down_def counter_ok_insert counter_ok_remove split: option.splits)

lemma count_of_up [simp]: "count_of (count_up m p) q = count_of m q + (if q = p then 1 else 0)"
  by (simp add: count_of_def count_up_def alist_simps split: option.splits)

lemma count_of_down [simp]: "count_of (count_down m p) q = count_of m q - (if q = p then 1 else 0)"
  by (auto simp: count_of_def count_down_def alist_simps split: option.splits)

lemma count_of_ups: "count_of (foldl count_up m ps) q = count_of m q + count_list ps q"
  by (induction ps arbitrary: m) auto

lemma count_of_downs: "count_of (foldl count_down m ps) q = count_of m q - count_list ps q"
  by (induction ps arbitrary: m) auto

lemma counter_ok_ups: "counter_ok m \<Longrightarrow> counter_ok (foldl count_up m ps)"
  by (induction ps arbitrary: m) (auto intro: counter_ok_up)

lemma counter_ok_downs: "counter_ok m \<Longrightarrow> counter_ok (foldl count_down m ps)"
  by (induction ps arbitrary: m) (auto intro: counter_ok_down)

lemma map_of_count:
  assumes "counter_ok m"
  shows "map_of m p = (if count_of m p = 0 then None else Some (count_of m p))"
proof (cases "map_of m p")
  case None
  then show ?thesis by (simp add: count_of_def)
next
  case (Some n)
  then have "0 < n" using assms al_all_lookup by (fastforce simp: counter_ok_def)
  with Some show ?thesis by (simp add: count_of_def)
qed

lemma admitted_key_iff: "counter_ok m \<Longrightarrow> p \<in> set (al_keys m) \<longleftrightarrow> 0 < count_of m p"
  by (simp add: key_lookup map_of_count del: set_map)

subsection \<open>The registry invariant\<close>

text \<open>
  Identifiers are issued in order, so every key is below the next one; the per-session counters
  are positive. \<open>cr_seq\<close> would wrap after \<open>2 ^ 64\<close> registrations, which the step relation's
  guard excludes.
\<close>

definition registry_ok :: "conn_registry \<Rightarrow> bool" where
  "registry_ok r \<longleftrightarrow> distinct (al_keys (cr_inner r)) \<and>
     al_all (\<lambda>i t. i < cr_seq r \<and> counter_ok (t_admitted t)) (cr_inner r)"

definition seq_ok :: "conn_registry \<Rightarrow> bool" where
  "seq_ok r \<longleftrightarrow> cr_seq r \<noteq> - 1"

lemma registry_ok_new: "registry_ok cr_new"
  by (simp add: registry_ok_def cr_new_def)

lemma registry_fresh: "registry_ok r \<Longrightarrow> cr_seq r \<notin> set (al_keys (cr_inner r))"
  by (auto simp: registry_ok_def al_all_def)

lemma less_word_add_1: "(a :: u64) \<noteq> - 1 \<Longrightarrow> b \<le> a \<Longrightarrow> b < a + 1"
proof -
  assume "a \<noteq> - 1" and "b \<le> a"
  then have "\<not> a + 1 \<le> a" by (simp add: inc_less_eq_iff)
  then have "a < a + 1" by simp
  with \<open>b \<le> a\<close> show ?thesis by (rule le_less_trans)
qed

lemma registry_tracked_ok:
  "registry_ok r \<Longrightarrow> map_of (cr_inner r) i = Some t \<Longrightarrow> i < cr_seq r \<and> counter_ok (t_admitted t)"
  unfolding registry_ok_def by (blast dest: al_all_lookup)

lemma registry_ok_update:
  assumes "registry_ok r" "map_of (cr_inner r) i = Some t0" "counter_ok (t_admitted t)"
  shows "registry_ok (r\<lparr>cr_inner := al_insert i t (cr_inner r)\<rparr>)"
  using assms registry_tracked_ok [OF assms(1,2)]
  by (simp add: registry_ok_def distinct_al_insert al_all_insert)

lemma registry_ok_register:
  assumes "registry_ok r" "seq_ok r" "register_checked r c e u sn = (x, r')"
  shows "registry_ok r'"
proof (cases "sn e")
  case True
  with assms show ?thesis by (simp add: register_checked_def)
next
  case False
  have lt: "i < cr_seq r + 1" if "i \<le> cr_seq r" for i
    using assms(2) that by (auto simp: seq_ok_def intro: less_word_add_1)
  have "al_all (\<lambda>i t. i < cr_seq r + 1 \<and> counter_ok (t_admitted t)) (cr_inner r)"
    using assms(1) by (auto simp: registry_ok_def elim!: al_all_mono intro: lt)
  with False assms lt [of "cr_seq r"] show ?thesis
    by (auto simp: registry_ok_def register_checked_def Let_def distinct_al_insert al_all_insert
        counter_ok_def)
qed

lemma registry_ok_deregister: "registry_ok r \<Longrightarrow> registry_ok (deregister r i)"
  by (simp add: registry_ok_def deregister_def distinct_al_remove al_all_remove)

lemma registry_ok_promote:
  "registry_ok r \<Longrightarrow> admit_roster_user r i p u sn = (b, r', p') \<Longrightarrow> registry_ok r'"
  by (auto simp: admit_roster_user_def split: option.splits if_splits
      intro!: registry_ok_update dest: registry_tracked_ok)

lemma registry_ok_admit_session:
  "registry_ok r \<Longrightarrow> admit_session r i ps sa = (b, r') \<Longrightarrow> registry_ok r'"
  by (auto simp: admit_session_def split: option.splits if_splits
      intro!: registry_ok_update counter_ok_ups dest: registry_tracked_ok)

lemma registry_ok_end_session: "registry_ok r \<Longrightarrow> registry_ok (end_session r i ps)"
  by (auto simp: end_session_def split: option.splits
      intro!: registry_ok_update counter_ok_downs dest: registry_tracked_ok)

lemma sever_matching_set:
  "set (sever_matching r f) =
     {t_conn t | i t. (i, t) \<in> set (cr_inner r) \<and> f (t_endpoint_id t) (t_roster_user t)}"
  by (force simp: sever_matching_def)

lemma sever_admitted_set:
  "set (sever_matching_admitted r f g) =
     {t_conn t | i t. (i, t) \<in> set (cr_inner r) \<and>
        (f (t_endpoint_id t) \<or> (\<exists>p \<in> set (al_keys (t_admitted t)). g p))}"
  by (force simp: sever_matching_admitted_def)

end
