(* ===== verification/Session.thy ===== *)
theory Session
  imports Codec Service Registry
begin

text \<open>
  One accepted session (\<open>net/src/endpoint.rs\<close>): the service registry and its hot-swappable handle,
  the allow check over the caller's principals (\<open>local-api/src/principals.rs\<close>), the per-session
  resolution of the caller, and \<open>run_session\<close> up to the hand-off to the backend.

  The gate and the live registry can change between any two reads of one session; each read is
  therefore an argument of its own, and the theorems hold for every combination of values. A
  backend is a number.
\<close>

datatype service_kind = Run | Socket

record service_entry =
  se_backend :: nat
  se_allow :: "string list"
  se_kind :: service_kind
  se_ephemeral :: bool

type_synonym services = "(string \<times> service_entry) list"

definition with_allow_replaced :: "services \<Rightarrow> string \<Rightarrow> string list \<Rightarrow> services option" where
  "with_allow_replaced ss name allow =
     (if name \<notin> set (al_keys ss) then None
      else Some (map (\<lambda>(svc, entry). (svc, entry\<lparr>se_allow := (if svc = name then allow else se_allow entry)\<rparr>)) ss))"

text \<open>
  \<open>LiveServices\<close>: the current registry behind an \<open>Arc\<close>. Every store installs a new allocation, so
  \<open>Arc::ptr_eq\<close> on handles both alive is equality of the version.
\<close>

record live_services =
  ls_version :: nat
  ls_services :: services

definition live_store :: "live_services \<Rightarrow> services \<Rightarrow> live_services" where
  "live_store live ss = \<lparr>ls_version = Suc (ls_version live), ls_services = ss\<rparr>"

subsection \<open>Principals and the allow check\<close>

definition principal_set :: "string option \<Rightarrow> string option \<Rightarrow> string list \<Rightarrow> string list" where
  "principal_set eid user_id groups =
     foldl (\<lambda>acc v. if v = [] then acc else push_new acc v)
       (foldl push_new [] (filter (\<lambda>s. s \<noteq> []) groups)) (List.map_filter id [eid, user_id])"

definition identity_principals :: "libs \<Rightarrow> peer_identity \<Rightarrow> string list" where
  "identity_principals L i = principal_set (Some (principal L (pi_endpoint i))) (pi_user_id i) (pi_groups i)"

definition caller_admits :: "libs \<Rightarrow> peer_identity \<Rightarrow> string list \<Rightarrow> bool" where
  "caller_admits L i allow \<longleftrightarrow> (\<exists>a \<in> set allow. a \<in> set (identity_principals L i))"

definition still_admits :: "libs \<Rightarrow> live_services \<Rightarrow> live_services \<Rightarrow> string \<Rightarrow> peer_identity \<Rightarrow> bool" where
  "still_admits L live snapshot name i \<longleftrightarrow>
     ls_version live = ls_version snapshot \<or>
     (case map_of (ls_services live) name of Some e \<Rightarrow> caller_admits L i (se_allow e) | None \<Rightarrow> False)"

subsection \<open>Resolving the caller\<close>

text \<open>
  The four reads of \<open>resolve_session_principal\<close>: the roster user before, the identity, the roster
  user after, and the sever recheck under the registry lock.
\<close>

record gate_reads =
  gr_before :: "string option"
  gr_identity :: "peer_identity option"
  gr_after :: "string option"
  gr_recheck :: "bytes \<Rightarrow> string option \<Rightarrow> bool"

definition resolve_session_principal ::
  "gate_reads \<Rightarrow> conn_registry \<Rightarrow> u64 \<Rightarrow> bool \<Rightarrow> peer_identity option \<times> conn_registry \<times> bool" where
  "resolve_session_principal g r i promoted =
     (case gr_identity g of
        None \<Rightarrow> (None, r, promoted)
      | Some identity \<Rightarrow>
          let roster_user = (case gr_before g of None \<Rightarrow> gr_after g | Some u \<Rightarrow> Some u) in
          case admit_roster_user r i promoted roster_user (\<lambda>eid. gr_recheck g eid roster_user) of
            (True, r', p') \<Rightarrow> (Some identity, r', p')
          | (False, r', p') \<Rightarrow> (None, r', p'))"

subsection \<open>Running a session\<close>

datatype session_end =
    Closed_Early
  | Refused_With json
  | Served peer_identity string nat json

definition allowed_services :: "libs \<Rightarrow> services \<Rightarrow> peer_identity option \<Rightarrow> string list" where
  "allowed_services L ss identity =
     (case identity of
        Some i \<Rightarrow> map fst (filter (\<lambda>(_, e). caller_admits L i (se_allow e)) ss)
      | None \<Rightarrow> [])"

definition refusal :: "json \<Rightarrow> json" where
  "refusal init = synthesized (case jget ''id'' init of Some i \<Rightarrow> i | None \<Rightarrow> JNull) ERR_SERVICE MSG_SERVICE"

text \<open>
  The authorization part of \<open>run_session\<close>, from the arrived first frame on: \<open>snapshot\<close> is the
  registry read when it arrived, \<open>live\<close> the one at the admit recheck.
\<close>

definition authorize ::
  "libs \<Rightarrow> live_services \<Rightarrow> live_services \<Rightarrow> gate_reads \<Rightarrow> conn_registry \<Rightarrow> u64 \<Rightarrow> bool \<Rightarrow> json \<Rightarrow>
    session_end \<times> conn_registry \<times> bool" where
  "authorize L snapshot live g r i promoted init =
     (let (identity, r1, p1) = resolve_session_principal g r i promoted;
          allowed = allowed_services L (ls_services snapshot) identity;
          (decision, frame) = select_service init allowed
      in case (decision, identity) of
           (Selected name, Some ident) \<Rightarrow>
             (case admit_session r1 i (identity_principals L ident) (still_admits L live snapshot name ident) of
                (True, r2) \<Rightarrow>
                  (Served ident name (se_backend (the (map_of (ls_services snapshot) name))) frame, r2, p1)
              | (False, r2) \<Rightarrow> (Refused_With (refusal frame), r2, p1))
         | _ \<Rightarrow> (Refused_With (refusal frame), r1, p1))"

definition run_session ::
  "libs \<Rightarrow> serde \<Rightarrow> frame_reader \<Rightarrow> live_services \<Rightarrow> live_services \<Rightarrow> gate_reads \<Rightarrow> conn_registry \<Rightarrow> u64 \<Rightarrow> bool \<Rightarrow>
    session_end \<times> conn_registry \<times> bool \<times> json list" where
  "run_session L S reader snapshot live g r i promoted =
     (case recv_frame S reader 0 [] of
        (None, _, _, sent) \<Rightarrow> (Closed_Early, r, promoted, sent)
      | (Some init, _, _, sent) \<Rightarrow>
          let (e, r', p') = authorize L snapshot live g r i promoted init in
          (e, r', p', sent @ (case e of Refused_With err \<Rightarrow> [err] | _ \<Rightarrow> [])))"

subsection \<open>Principals\<close>

lemma set_fold_push_nonempty:
  "set (foldl (\<lambda>acc v. if v = [] then acc else push_new acc v) acc vs) = set acc \<union> (set vs - {[]})"
  by (induction vs arbitrary: acc) auto

lemma set_principal_set:
  "set (principal_set eid user_id groups) = (set groups \<union> set_option eid \<union> set_option user_id) - {[]}"
  by (cases eid; cases user_id) (auto simp: principal_set_def set_fold_push_nonempty)

lemma distinct_fold_push_nonempty:
  "distinct acc \<Longrightarrow> distinct (foldl (\<lambda>acc v. if v = [] then acc else push_new acc v) acc vs)"
  by (induction vs arbitrary: acc) (auto simp: push_new_def)

lemma distinct_fold_push_new: "distinct acc \<Longrightarrow> distinct (foldl push_new acc vs)"
  by (induction vs arbitrary: acc) (auto simp: push_new_def)

lemma distinct_identity_principals: "distinct (identity_principals L i)"
  unfolding identity_principals_def principal_set_def
  by (intro distinct_fold_push_nonempty distinct_fold_push_new) simp

lemma principal_nonempty: "principal L e \<noteq> []"
  by (simp add: principal_def)

lemma mem_identity_principals:
  "p \<in> set (identity_principals L i) \<longleftrightarrow>
     p \<noteq> [] \<and> (p = principal L (pi_endpoint i) \<or> pi_user_id i = Some p \<or> p \<in> set (pi_groups i))"
  by (auto simp: identity_principals_def set_principal_set principal_nonempty)

lemma caller_admits_iff:
  "caller_admits L i allow \<longleftrightarrow> (\<exists>p \<in> set allow. p \<noteq> [] \<and>
     (p = principal L (pi_endpoint i) \<or> pi_user_id i = Some p \<or> p \<in> set (pi_groups i)))"
  by (auto simp: caller_admits_def mem_identity_principals)

subsection \<open>Authorization\<close>

lemma resolve_session_principal_Some:
  "resolve_session_principal g r i pr = (Some ident, r', p') \<Longrightarrow>
     gr_identity g = Some ident \<and>
     (\<exists>u. u = (case gr_before g of None \<Rightarrow> gr_after g | Some u \<Rightarrow> Some u) \<and>
        admit_roster_user r i pr u (\<lambda>eid. gr_recheck g eid u) = (True, r', p'))"
  by (auto simp: resolve_session_principal_def Let_def split: option.splits prod.splits bool.splits)

lemma selected_mem: "select_service init allowed = (Selected name, frame) \<Longrightarrow> name \<in> set allowed"
  using select_service_decision [of init allowed]
  by (auto split: service_request.splits list.splits if_splits)

lemma mem_allowed_services:
  "name \<in> set (allowed_services L ss (Some i)) \<longleftrightarrow> (\<exists>e. (name, e) \<in> set ss \<and> caller_admits L i (se_allow e))"
  by (force simp: allowed_services_def)

lemma allowed_services_None [simp]: "allowed_services L ss None = []"
  by (simp add: allowed_services_def)

text \<open>
  A served session, taken apart: a resolved caller, a selected service whose allow list names the
  caller in the snapshot and still does at the admit, and a tracked connection that now counts the
  session's principals.
\<close>

lemma authorize_Served:
  assumes "authorize L snapshot live g r i pr init = (Served ident name backend frame, r', p')"
  shows "\<exists>r1. resolve_session_principal g r i pr = (Some ident, r1, p') \<and>
     select_service init (allowed_services L (ls_services snapshot) (Some ident)) = (Selected name, frame) \<and>
     admit_session r1 i (identity_principals L ident) (still_admits L live snapshot name ident) = (True, r') \<and>
     backend = se_backend (the (map_of (ls_services snapshot) name))"
  using assms unfolding authorize_def Let_def
  by (auto split: prod.splits option.splits service_decision.splits bool.splits)

lemma admit_session_True:
  "admit_session r i ps ok = (True, r') \<longleftrightarrow> ok \<and> (\<exists>t. map_of (cr_inner r) i = Some t \<and>
     r' = r\<lparr>cr_inner := al_insert i (t\<lparr>t_admitted := foldl count_up (t_admitted t) ps\<rparr>) (cr_inner r)\<rparr>)"
  by (auto simp: admit_session_def split: option.splits)

lemma admit_session_False: "admit_session r i ps ok = (False, r') \<Longrightarrow> r' = r"
  by (auto simp: admit_session_def split: option.splits if_splits)

lemma admit_roster_user_False: "admit_roster_user r i p u sn = (False, r', p') \<Longrightarrow> r' = r \<and> p' = p"
  by (auto simp: admit_roster_user_def split: option.splits if_splits)

text \<open>Everything else is one and the same refusal, whatever the services are.\<close>

lemma authorize_not_Served:
  "authorize L snapshot live g r i pr init = (e, r', p') \<Longrightarrow>
     (\<exists>ident name b f. e = Served ident name b f) \<or> (\<exists>frame. e = Refused_With (refusal frame))"
  unfolding authorize_def Let_def
  by (auto split: prod.splits option.splits service_decision.splits bool.splits)

text \<open>Stripping never changes the request id, so the refusal echoes it.\<close>

lemma refusal_stripped: "refusal (snd (select_service init allowed)) = refusal init"
proof (cases "is_batch init")
  case True
  then obtain xs where "init = JArr xs" by (auto simp: is_batch_iff)
  then have "\<exists>ys. snd (select_service init allowed) = JArr ys"
    unfolding select_service_def Let_def snd_conv strip_impersonating_client_info_def strip_reserved_meta_def
    by (simp add: strip_reserved_batch strip_impersonating_batch)
  with \<open>init = JArr xs\<close> show ?thesis by (auto simp: refusal_def)
next
  case False
  then show ?thesis by (simp add: refusal_def selected_frame_flat jget_jupdate_other del: jupdate.simps)
qed

end
