(* ===== verification/Sever.thy ===== *)
theory Sever
  imports Session
begin

text \<open>
  Swap, then sever: the daemon's answer to a connection or a session that is being admitted while
  trust changes under it. The pure parts are \<open>install_roster_view_and_sever\<close>, the staleness sweep
  (\<open>node/src/daemon/roster_install.rs\<close>) and the revoke path (\<open>node/src/daemon/handlers.rs\<close>); the
  step relation interleaves them with \<open>run_mesh_connection\<close> and \<open>run_session\<close>
  (\<open>net/src/endpoint.rs\<close>), one step per lock-protected section or shared read.

  Steps of the environment: the clock moves freely, the pair store and the freshness record change
  at any time, a peer closes its connection at any time. \<open>reload_lock\<close> makes the installer and the
  revoker one process with the phases of \<open>admin\<close>.
\<close>

subsection \<open>The severing operations\<close>

definition install_roster_view_and_sever ::
  "roster_gate \<Rightarrow> conn_registry \<Rightarrow> roster_view \<Rightarrow> roster_gate \<times> conn list" where
  "install_roster_view_and_sever g r view =
     (let revoked = set (v_revoked view); active_devices = set (device_endpoints view); g' = rg_install g view
      in (g', sever_matching r (\<lambda>eid roster_user. should_sever eid roster_user revoked active_devices)))"

definition should_staleness_sever :: "roster_state option \<Rightarrow> bool" where
  "should_staleness_sever st \<longleftrightarrow> st = Some DegradedStopped"

definition staleness_sweep_once :: "roster_gate \<Rightarrow> conn_registry \<Rightarrow> int \<Rightarrow> conn list" where
  "staleness_sweep_once g r now =
     (if \<not> should_staleness_sever (rg_effective_state g now) then []
      else sever_matching r (\<lambda>_ roster_user. roster_user \<noteq> None))"

definition sever_principals ::
  "libs \<Rightarrow> peer_store \<Rightarrow> roster_gate \<Rightarrow> conn_registry \<Rightarrow> string list \<Rightarrow> store_error + conn list" where
  "sever_principals L store g r principals =
     rbind (mapM (endpoints_for_principal L store (rg_view g)) principals) (\<lambda>targets.
     Inr (sever_matching_admitted r (\<lambda>eid. eid \<in> set (concat targets)) (\<lambda>p. p \<in> set principals)))"

text \<open>
  The principals an unpair of \<open>nickname\<close> strips (\<open>revoke_service_access\<close>, step 0): each of its
  devices, and its person unless another device paired by ceremony still carries that person.
\<close>

fun strip_principals :: "libs \<Rightarrow> peer_entry list \<Rightarrow> peer_entry list \<Rightarrow> string list \<Rightarrow> string list" where
  "strip_principals L others [] principals = principals"
| "strip_principals L others (target # targets) principals =
     (let ps = principals @ [principal L (pe_endpoint_id target)] in
      strip_principals L others targets
        (case pe_user_id target of
           None \<Rightarrow> ps
         | Some user_id \<Rightarrow>
             if \<not> (\<exists>o' \<in> set others. pe_user_id o' = Some user_id \<and> pe_paired_at o' \<noteq> None) \<and>
                user_id \<notin> set ps
             then ps @ [user_id] else ps))"

definition revoke_principals :: "libs \<Rightarrow> peer_store \<Rightarrow> string \<Rightarrow> store_error + string list" where
  "revoke_principals L store nickname =
     rbind (store_list store) (\<lambda>entries.
     let (targets, others) = List.partition (\<lambda>e. pe_nickname e = nickname) entries
     in Inr (strip_principals L others targets []))"

subsection \<open>The interleaved world\<close>

datatype conn_phase =
    Fresh
  | Accepted
  | Reading "string option"
  | Serving u64 bool
  | Gone

datatype stream_phase =
    Off
  | Snapped conn live_services "string option"
  | Identified conn live_services "string option" peer_identity
  | Reread conn live_services "string option" peer_identity
  | Promoted conn live_services peer_identity

record running =
  rs_reg :: u64
  rs_conn :: conn
  rs_ident :: peer_identity
  rs_name :: string

datatype admin =
    Quiet
  | Install_Ready roster_view
  | Install_Swapped roster_view
  | Revoke_Swapped "string list"

record world =
  w_now :: int
  w_gate :: composed_gate
  w_live :: live_services
  w_reg :: conn_registry
  w_closed :: "conn set"
  w_conn :: "conn \<Rightarrow> conn_phase"
  w_stream :: "nat \<Rightarrow> stream_phase"
  w_running :: "running list"
  w_admin :: admin

definition w_init :: "composed_gate \<Rightarrow> live_services \<Rightarrow> world" where
  "w_init g live = \<lparr>w_now = 0, w_gate = g, w_live = live, w_reg = cr_new, w_closed = {},
     w_conn = (\<lambda>_. Fresh), w_stream = (\<lambda>_. Off), w_running = [], w_admin = Quiet\<rparr>"

abbreviation w_roster :: "world \<Rightarrow> roster_gate" where
  "w_roster w \<equiv> cg_roster (w_gate w)"

text \<open>
  \<open>swap\<close> is any registry rebuild that severs nothing: a grant, \<open>register_service\<close>, a re-registration
  with a smaller allow list, \<open>unregister_service\<close>, \<open>unregister_ephemeral\<close>, and whatever hand edits of
  the config file such a reload picks up. The new registry is arbitrary; sessions already running
  finish. \<open>revoke_swap\<close> is the rebuild of a revoke or an unpair of \<open>ps\<close>, whose sever pass follows
  under the same \<open>reload_lock\<close>; \<open>revoke_failed\<close> is that pass failing on a store read, which the verb
  reports. The close of the connections this node dialled (\<open>close_refused_peer_conns\<close>), which an
  unpair runs besides, is in theory \<open>Hooks\<close>.
\<close>

inductive step :: "libs \<Rightarrow> (conn \<Rightarrow> bytes) \<Rightarrow> world \<Rightarrow> world \<Rightarrow> bool" for L peer where
  tick: "step L peer w (w\<lparr>w_now := t\<rparr>)"
| pairs: "step L peer w (w\<lparr>w_gate := (w_gate w)\<lparr>cg_pairs := s\<rparr>\<rparr>)"
| confirm: "step L peer w (w\<lparr>w_gate := (w_gate w)\<lparr>cg_roster := rg_set_last_confirmed (w_roster w) t\<rparr>\<rparr>)"
| peer_close: "step L peer w (w\<lparr>w_closed := insert c (w_closed w)\<rparr>)"
| accept: "w_conn w c = Fresh \<Longrightarrow> cg_resolve (w_gate w) (w_now w) (peer c) \<noteq> None \<Longrightarrow>
    step L peer w (w\<lparr>w_conn := (w_conn w)(c := Accepted)\<rparr>)"
| refuse: "w_conn w c = Fresh \<Longrightarrow> cg_resolve (w_gate w) (w_now w) (peer c) = None \<Longrightarrow>
    step L peer w (w\<lparr>w_conn := (w_conn w)(c := Gone), w_closed := insert c (w_closed w)\<rparr>)"
| read_user: "w_conn w c = Accepted \<Longrightarrow>
    step L peer w (w\<lparr>w_conn := (w_conn w)(c := Reading (cg_roster_user (w_gate w) (w_now w) (peer c)))\<rparr>)"
| register: "w_conn w c = Reading u \<Longrightarrow> seq_ok (w_reg w) \<Longrightarrow>
    register_checked (w_reg w) c (peer c) u (\<lambda>e. cg_should_sever_now (w_gate w) e u) = (Some i, r') \<Longrightarrow>
    step L peer w (w\<lparr>w_conn := (w_conn w)(c := Serving i (u \<noteq> None)), w_reg := r'\<rparr>)"
| register_refused: "w_conn w c = Reading u \<Longrightarrow>
    register_checked (w_reg w) c (peer c) u (\<lambda>e. cg_should_sever_now (w_gate w) e u) = (None, r') \<Longrightarrow>
    step L peer w (w\<lparr>w_conn := (w_conn w)(c := Gone), w_closed := insert c (w_closed w), w_reg := r'\<rparr>)"
| deregister: "w_conn w c = Serving i pr \<Longrightarrow> c \<in> w_closed w \<Longrightarrow>
    step L peer w (w\<lparr>w_conn := (w_conn w)(c := Gone), w_reg := deregister (w_reg w) i\<rparr>)"
| snapshot: "w_conn w c = Serving i pr \<Longrightarrow> w_stream w s = Off \<Longrightarrow>
    step L peer w (w\<lparr>w_stream := (w_stream w)(s :=
      Snapped c (w_live w) (cg_roster_user (w_gate w) (w_now w) (peer c)))\<rparr>)"
| identify: "w_stream w s = Snapped c snap before \<Longrightarrow>
    cg_resolve (w_gate w) (w_now w) (peer c) = Some ident \<Longrightarrow>
    step L peer w (w\<lparr>w_stream := (w_stream w)(s := Identified c snap before ident)\<rparr>)"
| reread: "w_stream w s = Identified c snap before ident \<Longrightarrow>
    user = (case before of None \<Rightarrow> cg_roster_user (w_gate w) (w_now w) (peer c) | Some u \<Rightarrow> Some u) \<Longrightarrow>
    step L peer w (w\<lparr>w_stream := (w_stream w)(s := Reread c snap user ident)\<rparr>)"
| promote: "w_stream w s = Reread c snap user ident \<Longrightarrow> w_conn w c = Serving i pr \<Longrightarrow>
    admit_roster_user (w_reg w) i pr user (\<lambda>e. cg_should_sever_now (w_gate w) e user) = (True, r', pr') \<Longrightarrow>
    step L peer w (w\<lparr>w_stream := (w_stream w)(s := Promoted c snap ident), w_reg := r',
      w_conn := (w_conn w)(c := Serving i pr')\<rparr>)"
| admit: "w_stream w s = Promoted c snap ident \<Longrightarrow> w_conn w c = Serving i pr \<Longrightarrow>
    select_service init (allowed_services L (ls_services snap) (Some ident)) = (Selected name, frame) \<Longrightarrow>
    admit_session (w_reg w) i (identity_principals L ident) (still_admits L (w_live w) snap name ident) = (True, r') \<Longrightarrow>
    step L peer w (w\<lparr>w_stream := (w_stream w)(s := Off), w_reg := r',
      w_running := \<lparr>rs_reg = i, rs_conn = c, rs_ident = ident, rs_name = name\<rparr> # w_running w\<rparr>)"
| abandon: "step L peer w (w\<lparr>w_stream := (w_stream w)(s := Off)\<rparr>)"
| finish: "w_running w = xs @ s # ys \<Longrightarrow>
    step L peer w (w\<lparr>w_running := xs @ ys,
      w_reg := end_session (w_reg w) (rs_reg s) (identity_principals L (rs_ident s))\<rparr>)"
| install_begin: "w_admin w = Quiet \<Longrightarrow> step L peer w (w\<lparr>w_admin := Install_Ready v\<rparr>)"
| install_swap: "w_admin w = Install_Ready v \<Longrightarrow>
    step L peer w (w\<lparr>w_admin := Install_Swapped v,
      w_gate := (w_gate w)\<lparr>cg_roster := fst (install_roster_view_and_sever (w_roster w) (w_reg w) v)\<rparr>\<rparr>)"
| install_sever: "w_admin w = Install_Swapped v \<Longrightarrow>
    step L peer w (w\<lparr>w_admin := Quiet,
      w_closed := w_closed w \<union> set (snd (install_roster_view_and_sever (w_roster w) (w_reg w) v))\<rparr>)"
| sweep: "step L peer w (w\<lparr>w_closed := w_closed w \<union> set (staleness_sweep_once (w_roster w) (w_reg w) (w_now w))\<rparr>)"
| swap: "w_admin w = Quiet \<Longrightarrow> distinct (al_keys ss) \<Longrightarrow>
    step L peer w (w\<lparr>w_live := live_store (w_live w) ss\<rparr>)"
| revoke_swap: "w_admin w = Quiet \<Longrightarrow> distinct (al_keys ss) \<Longrightarrow>
    step L peer w (w\<lparr>w_live := live_store (w_live w) ss, w_admin := Revoke_Swapped ps\<rparr>)"
| revoke_sever: "w_admin w = Revoke_Swapped ps \<Longrightarrow>
    sever_principals L (cg_pairs (w_gate w)) (w_roster w) (w_reg w) ps = Inr cs \<Longrightarrow>
    step L peer w (w\<lparr>w_admin := Quiet, w_closed := w_closed w \<union> set cs\<rparr>)"
| revoke_failed: "w_admin w = Revoke_Swapped ps \<Longrightarrow>
    sever_principals L (cg_pairs (w_gate w)) (w_roster w) (w_reg w) ps = Inl err \<Longrightarrow>
    step L peer w (w\<lparr>w_admin := Quiet\<rparr>)"

inductive reach :: "libs \<Rightarrow> (conn \<Rightarrow> bytes) \<Rightarrow> composed_gate \<Rightarrow> live_services \<Rightarrow> world \<Rightarrow> bool" for L peer g live where
  start: "reach L peer g live (w_init g live)"
| next_step: "reach L peer g live w \<Longrightarrow> step L peer w w' \<Longrightarrow> reach L peer g live w'"

subsection \<open>The registry follows the connections\<close>

definition conn_ok :: "(conn \<Rightarrow> bytes) \<Rightarrow> world \<Rightarrow> bool" where
  "conn_ok peer w \<longleftrightarrow> registry_ok (w_reg w) \<and>
     (\<forall>i t. map_of (cr_inner (w_reg w)) i = Some t \<longrightarrow> t_endpoint_id t = peer (t_conn t) \<and>
        (\<exists>pr. w_conn w (t_conn t) = Serving i pr \<and> (pr \<longrightarrow> t_roster_user t \<noteq> None))) \<and>
     (\<forall>c i pr. w_conn w c = Serving i pr \<longrightarrow> (\<exists>t. map_of (cr_inner (w_reg w)) i = Some t \<and> t_conn t = c))"

lemma conn_okI:
  assumes "registry_ok (w_reg w)"
    and "\<And>i t. map_of (cr_inner (w_reg w)) i = Some t \<Longrightarrow> t_endpoint_id t = peer (t_conn t) \<and>
        (\<exists>pr. w_conn w (t_conn t) = Serving i pr \<and> (pr \<longrightarrow> t_roster_user t \<noteq> None))"
    and "\<And>c i pr. w_conn w c = Serving i pr \<Longrightarrow> \<exists>t. map_of (cr_inner (w_reg w)) i = Some t \<and> t_conn t = c"
  shows "conn_ok peer w"
  using assms by (simp add: conn_ok_def)

lemma conn_ok_entry:
  "conn_ok peer w \<Longrightarrow> map_of (cr_inner (w_reg w)) i = Some t \<Longrightarrow> t_endpoint_id t = peer (t_conn t) \<and>
     (\<exists>pr. w_conn w (t_conn t) = Serving i pr \<and> (pr \<longrightarrow> t_roster_user t \<noteq> None))"
  by (simp add: conn_ok_def)

lemma conn_ok_serving:
  "conn_ok peer w \<Longrightarrow> w_conn w c = Serving i pr \<Longrightarrow> \<exists>t. map_of (cr_inner (w_reg w)) i = Some t \<and> t_conn t = c"
  by (simp add: conn_ok_def)

lemma conn_ok_registry: "conn_ok peer w \<Longrightarrow> registry_ok (w_reg w)"
  by (simp add: conn_ok_def)

lemma register_checked_Some:
  assumes "registry_ok r" "register_checked r c e u sn = (Some i, r')"
  shows "\<not> sn e \<and> i = cr_seq r \<and> cr_seq r' = cr_seq r + 1 \<and> map_of (cr_inner r) i = None \<and>
     map_of (cr_inner r') = (map_of (cr_inner r))(i \<mapsto>
       \<lparr>t_endpoint_id = e, t_roster_user = u, t_admitted = [], t_conn = c\<rparr>)"
proof -
  have "map_of (cr_inner r) (cr_seq r) = None"
    using registry_fresh [OF assms(1)] by (simp add: map_of_eq_None_iff)
  with assms(2) show ?thesis by (auto simp: register_checked_def Let_def alist_simps split: if_splits)
qed

lemma register_checked_None: "register_checked r c e u sn = (None, r') \<Longrightarrow> r' = r"
  by (auto simp: register_checked_def Let_def split: if_splits)

lemma admit_roster_user_True:
  assumes "admit_roster_user r i pr user sn = (True, r', pr')"
  shows "(r' = r \<and> pr' = pr) \<or>
     (\<exists>t u. user = Some u \<and> pr' \<and> map_of (cr_inner r) i = Some t \<and> \<not> sn (t_endpoint_id t) \<and>
        cr_seq r' = cr_seq r \<and> map_of (cr_inner r') = (map_of (cr_inner r))(i \<mapsto> t\<lparr>t_roster_user := Some u\<rparr>))"
  using assms by (auto simp: admit_roster_user_def alist_simps split: option.splits if_splits)

lemma admit_session_map:
  assumes "admit_session r i ps ok = (True, r')"
  shows "ok \<and> (\<exists>t. map_of (cr_inner r) i = Some t \<and> cr_seq r' = cr_seq r \<and> map_of (cr_inner r') =
     (map_of (cr_inner r))(i \<mapsto> t\<lparr>t_admitted := foldl count_up (t_admitted t) ps\<rparr>))"
  using assms by (auto simp: admit_session_True alist_simps)

lemma end_session_map:
  "cr_seq (end_session r i ps) = cr_seq r"
  "map_of (cr_inner (end_session r i ps)) = (case map_of (cr_inner r) i of None \<Rightarrow> map_of (cr_inner r)
     | Some t \<Rightarrow> (map_of (cr_inner r))(i \<mapsto> t\<lparr>t_admitted := foldl count_down (t_admitted t) ps\<rparr>))"
  by (auto simp: end_session_def alist_simps split: option.splits)

lemma deregister_map:
  "cr_seq (deregister r i) = cr_seq r"
  "map_of (cr_inner (deregister r i)) = (map_of (cr_inner r))(i := None)"
  by (auto simp: deregister_def alist_simps)

lemma conn_ok_update:
  assumes "conn_ok peer w" "map_of (cr_inner (w_reg w)) i = Some t" "registry_ok (w_reg w')"
    and "map_of (cr_inner (w_reg w')) = (map_of (cr_inner (w_reg w)))(i \<mapsto> t')"
    and "w_conn w' = (w_conn w)(t_conn t := Serving i pr')"
    and "t_conn t' = t_conn t" "t_endpoint_id t' = t_endpoint_id t" "pr' \<longrightarrow> t_roster_user t' \<noteq> None"
  shows "conn_ok peer w'"
proof (rule conn_okI)
  show "registry_ok (w_reg w')" by fact
next
  fix j u assume j: "map_of (cr_inner (w_reg w')) j = Some u"
  show "t_endpoint_id u = peer (t_conn u) \<and>
      (\<exists>pr. w_conn w' (t_conn u) = Serving j pr \<and> (pr \<longrightarrow> t_roster_user u \<noteq> None))"
  proof (cases "j = i")
    case True
    then have "u = t'" using j assms(4) by simp
    then show ?thesis using True conn_ok_entry [OF assms(1,2)] assms(5-8) by simp
  next
    case False
    then have u: "map_of (cr_inner (w_reg w)) j = Some u" using j assms(4) by simp
    have "t_conn u \<noteq> t_conn t" using conn_ok_entry [OF assms(1) u] conn_ok_entry [OF assms(1,2)] False by auto
    then show ?thesis using conn_ok_entry [OF assms(1) u] assms(5) by simp
  qed
next
  fix c j pr assume "w_conn w' c = Serving j pr"
  then show "\<exists>u. map_of (cr_inner (w_reg w')) j = Some u \<and> t_conn u = c"
    using assms(2,4-6) conn_ok_serving [OF assms(1), of c j] by (auto split: if_splits)
qed

lemma conn_ok_phase:
  assumes "conn_ok peer w" "\<And>i pr. w_conn w c \<noteq> Serving i pr" "\<And>i pr. ph \<noteq> Serving i pr"
    and "w_reg w' = w_reg w" "w_conn w' = (w_conn w)(c := ph)"
  shows "conn_ok peer w'"
proof -
  have "t_conn t \<noteq> c" if "map_of (cr_inner (w_reg w)) j = Some t" for j t
    using conn_ok_entry [OF assms(1) that] assms(2) by auto
  then show ?thesis using assms by (auto simp: conn_ok_def)
qed

lemma conn_ok_step:
  assumes "step L peer w w'" "conn_ok peer w"
  shows "conn_ok peer w'"
  using assms
proof cases
  case (register c u i r')
  note rs = register_checked_Some [OF conn_ok_registry [OF assms(2)] register(4)]
  have "\<And>t. map_of (cr_inner (w_reg w)) j = Some t \<Longrightarrow> t_conn t \<noteq> c" for j
    using conn_ok_entry [OF assms(2), of j] register(2) by auto
  then show ?thesis unfolding register(1)
    using rs registry_ok_register [OF conn_ok_registry [OF assms(2)] register(3,4)]
      conn_ok_entry [OF assms(2)]
    by (intro conn_okI) (auto split: if_splits dest: conn_ok_serving [OF assms(2)])
next
  case (register_refused c u r')
  then show ?thesis
    by (intro conn_ok_phase [OF assms(2), of c Gone]) (auto dest: register_checked_None)
next
  case (accept c)
  then show ?thesis by (intro conn_ok_phase [OF assms(2), of c Accepted]) auto
next
  case (refuse c)
  then show ?thesis by (intro conn_ok_phase [OF assms(2), of c Gone]) auto
next
  case (read_user c)
  then show ?thesis
    by (intro conn_ok_phase [OF assms(2), of c "Reading (cg_roster_user (w_gate w) (w_now w) (peer c))"]) auto
next
  case (deregister c i pr)
  have "\<And>t. map_of (cr_inner (w_reg w)) j = Some t \<Longrightarrow> j \<noteq> i \<Longrightarrow> t_conn t \<noteq> c" for j
    using conn_ok_entry [OF assms(2), of j] deregister(2) by auto
  moreover have "j \<noteq> i" if "w_conn w c' = Serving j pr'" "c' \<noteq> c" for c' j pr'
    using conn_ok_serving [OF assms(2) that(1)] conn_ok_serving [OF assms(2) deregister(2)] that(2) by auto
  ultimately show ?thesis unfolding deregister(1)
    using conn_ok_entry [OF assms(2)] conn_ok_serving [OF assms(2)] registry_ok_deregister [OF conn_ok_registry [OF assms(2)]]
    by (intro conn_okI) (auto simp: deregister_map split: if_splits)
next
  case (promote s c snap user ident i pr r' pr')
  have "registry_ok r'" by (rule registry_ok_promote [OF conn_ok_registry [OF assms(2)] promote(4)])
  moreover obtain t where t: "map_of (cr_inner (w_reg w)) i = Some t" "t_conn t = c"
    using conn_ok_serving [OF assms(2) promote(3)] by blast
  moreover have "pr \<longrightarrow> t_roster_user t \<noteq> None" using conn_ok_entry [OF assms(2) t(1)] t(2) promote(3) by simp
  moreover obtain t' where "map_of (cr_inner r') = (map_of (cr_inner (w_reg w)))(i \<mapsto> t')"
    "t_conn t' = t_conn t" "t_endpoint_id t' = t_endpoint_id t"
    "pr' \<longrightarrow> t_roster_user t' \<noteq> None"
    using admit_roster_user_True [OF promote(4)]
  proof (elim disjE exE conjE)
    assume "r' = w_reg w" "pr' = pr"
    then show thesis using that [of t] calculation t by (simp add: fun_upd_idem)
  next
    fix t0 u assume "map_of (cr_inner (w_reg w)) i = Some t0"
      "map_of (cr_inner r') = (map_of (cr_inner (w_reg w)))(i \<mapsto> t0\<lparr>t_roster_user := Some u\<rparr>)"
    then show thesis using that [of "t0\<lparr>t_roster_user := Some u\<rparr>"] t by simp
  qed
  ultimately show ?thesis unfolding promote(1)
    by (intro conn_ok_update [where t' = t' and pr' = pr', OF assms(2) t(1)]) auto
next
  case (admit s c snap ident i pr init name frame r')
  have "registry_ok r'" by (rule registry_ok_admit_session [OF conn_ok_registry [OF assms(2)] admit(5)])
  moreover obtain t where t: "map_of (cr_inner (w_reg w)) i = Some t"
    "map_of (cr_inner r') = (map_of (cr_inner (w_reg w)))(i \<mapsto>
       t\<lparr>t_admitted := foldl count_up (t_admitted t) (identity_principals L ident)\<rparr>)"
    using admit_session_map [OF admit(5)] by blast
  moreover obtain pr where "w_conn w (t_conn t) = Serving i pr" "pr \<longrightarrow> t_roster_user t \<noteq> None"
    using conn_ok_entry [OF assms(2) t(1)] by blast
  ultimately show ?thesis unfolding admit(1)
    by (intro conn_ok_update [where t' = "t\<lparr>t_admitted := foldl count_up (t_admitted t) (identity_principals L ident)\<rparr>"
          and pr' = pr, OF assms(2) t(1)]) (auto simp: fun_upd_idem)
next
  case (finish xs s ys)
  note ok = registry_ok_end_session [OF conn_ok_registry [OF assms(2)]]
  show ?thesis
  proof (cases "map_of (cr_inner (w_reg w)) (rs_reg s)")
    case None
    then have "end_session (w_reg w) (rs_reg s) ps = w_reg w" for ps by (simp add: end_session_def)
    then show ?thesis using assms(2) unfolding finish(1) by (simp add: conn_ok_def)
  next
    case (Some t)
    obtain pr where "w_conn w (t_conn t) = Serving (rs_reg s) pr" "pr \<longrightarrow> t_roster_user t \<noteq> None"
      using conn_ok_entry [OF assms(2) Some] by blast
    then show ?thesis using ok Some unfolding finish(1)
      by (intro conn_ok_update [where pr' = pr and
            t' = "t\<lparr>t_admitted := foldl count_down (t_admitted t) (identity_principals L (rs_ident s))\<rparr>",
            OF assms(2) Some]) (auto simp: end_session_map fun_upd_idem)
  qed
qed (use assms(2) in \<open>auto simp: conn_ok_def\<close>)

subsection \<open>Roster installs\<close>

abbreviation sever_rule :: "roster_view \<Rightarrow> bytes \<Rightarrow> string option \<Rightarrow> bool" where
  "sever_rule v e u \<equiv> should_sever e u (set (v_revoked v)) (set (device_endpoints v))"

text \<open>The recheck under the registry lock is at least as strict as the rule of the sever pass.\<close>

lemma recheck_covers_sever_rule:
  assumes "rg_view (cg_roster g) = Some v" "sever_rule v e u"
  shows "cg_should_sever_now g e u"
  using assms
  by (auto simp: should_sever_def cg_should_sever_now_def rg_is_revoked_def view_is_revoked_def
      device_endpoints_def view_resolve_def map_of_eq_None_iff intro: rev_image_eqI)

definition roster_ok :: "world \<Rightarrow> bool" where
  "roster_ok w \<longleftrightarrow> (\<forall>v. w_admin w = Install_Swapped v \<longrightarrow> rg_view (w_roster w) = Some v) \<and>
     ((\<forall>v. w_admin w \<noteq> Install_Swapped v) \<longrightarrow>
       (\<forall>v i t. rg_view (w_roster w) = Some v \<longrightarrow> map_of (cr_inner (w_reg w)) i = Some t \<longrightarrow>
          t_conn t \<notin> w_closed w \<longrightarrow> \<not> sever_rule v (t_endpoint_id t) (t_roster_user t)))"

lemma roster_ok_entry:
  "roster_ok w \<Longrightarrow> (\<And>v. w_admin w \<noteq> Install_Swapped v) \<Longrightarrow> rg_view (w_roster w) = Some v \<Longrightarrow>
   map_of (cr_inner (w_reg w)) i = Some t \<Longrightarrow> t_conn t \<notin> w_closed w \<Longrightarrow>
     \<not> sever_rule v (t_endpoint_id t) (t_roster_user t)"
  by (simp add: roster_ok_def)

lemma rg_view_confirmed [simp]: "rg_view (rg_set_last_confirmed g t) = rg_view g"
  by (simp add: rg_set_last_confirmed_def)

lemma rg_view_installed [simp]: "rg_view (fst (install_roster_view_and_sever g r v)) = Some v"
  by (simp add: install_roster_view_and_sever_def Let_def rg_install_def)

lemma roster_ok_reg:
  assumes "roster_ok w" "w_gate w' = w_gate w" "w_admin w' = w_admin w" "w_closed w \<subseteq> w_closed w'"
    and "\<And>i t. map_of (cr_inner (w_reg w')) i = Some t \<Longrightarrow>
       (\<exists>t0. map_of (cr_inner (w_reg w)) i = Some t0 \<and> t_conn t0 = t_conn t \<and>
          t_endpoint_id t0 = t_endpoint_id t \<and> t_roster_user t0 = t_roster_user t) \<or>
       \<not> cg_should_sever_now (w_gate w) (t_endpoint_id t) (t_roster_user t)"
  shows "roster_ok w'"
proof -
  have "\<not> sever_rule v (t_endpoint_id t) (t_roster_user t)"
    if v: "\<And>v. w_admin w \<noteq> Install_Swapped v" "rg_view (w_roster w) = Some v"
      and t: "map_of (cr_inner (w_reg w')) i = Some t" "t_conn t \<notin> w_closed w'" for v i t
    using assms(5) [OF t(1)] recheck_covers_sever_rule [OF v(2)] roster_ok_entry [OF assms(1) v] t(2) assms(4)
    by fastforce
  then show ?thesis using assms(1-3) by (auto simp: roster_ok_def)
qed

lemma roster_ok_step:
  assumes "step L peer w w'" "conn_ok peer w" "roster_ok w"
  shows "roster_ok w'"
  using assms(1)
proof cases
  case (register c u i r')
  show ?thesis unfolding register(1)
    by (rule roster_ok_reg [OF assms(3)])
      (use register_checked_Some [OF conn_ok_registry [OF assms(2)] register(4)] in \<open>auto split: if_splits\<close>)
next
  case (register_refused c u r')
  show ?thesis unfolding register_refused(1)
    by (rule roster_ok_reg [OF assms(3)]) (use register_checked_None [OF register_refused(3)] in auto)
next
  case (deregister c i pr)
  show ?thesis unfolding deregister(1)
    by (rule roster_ok_reg [OF assms(3)]) (auto simp: deregister_map split: if_splits)
next
  case (promote s c snap user ident i pr r' pr')
  show ?thesis unfolding promote(1)
    by (rule roster_ok_reg [OF assms(3)]) (use admit_roster_user_True [OF promote(4)] in \<open>auto split: if_splits\<close>)
next
  case (admit s c snap ident i pr init name frame r')
  show ?thesis unfolding admit(1)
    by (rule roster_ok_reg [OF assms(3)]) (use admit_session_map [OF admit(5)] in \<open>auto split: if_splits\<close>)
next
  case (finish xs s ys)
  show ?thesis unfolding finish(1)
    by (rule roster_ok_reg [OF assms(3)]) (auto simp: end_session_map split: if_splits option.splits)
next
  case (install_sever v)
  have v: "rg_view (w_roster w) = Some v" using assms(3) install_sever(2) by (simp add: roster_ok_def)
  show ?thesis unfolding install_sever(1) roster_ok_def
    by (auto simp: v install_roster_view_and_sever_def Let_def sever_matching_set dest: map_of_SomeD)
qed (use assms(3) in \<open>auto simp: roster_ok_def\<close>)

subsection \<open>Running sessions\<close>

definition sessions_as :: "libs \<Rightarrow> running list \<Rightarrow> u64 \<Rightarrow> string \<Rightarrow> nat" where
  "sessions_as L xs i p = length (filter (\<lambda>s. rs_reg s = i \<and> p \<in> set (identity_principals L (rs_ident s))) xs)"

lemma count_list_distinct: "distinct xs \<Longrightarrow> count_list xs p = (if p \<in> set xs then 1 else 0)"
  by (induction xs) auto

lemma sessions_as_simps [simp]:
  "sessions_as L [] i p = 0"
  "sessions_as L (s # xs) i p = (if rs_reg s = i then count_list (identity_principals L (rs_ident s)) p else 0) + sessions_as L xs i p"
  "sessions_as L (xs @ ys) i p = sessions_as L xs i p + sessions_as L ys i p"
  using count_list_distinct [OF distinct_identity_principals [of L "rs_ident s"]]
  by (auto simp: sessions_as_def)

text \<open>
  The counters of a tracked connection are exactly the sessions running on it, and a session on an
  open connection has its entry.
\<close>

definition session_ok :: "libs \<Rightarrow> world \<Rightarrow> bool" where
  "session_ok L w \<longleftrightarrow>
     (\<forall>s \<in> set (w_running w). rs_reg s < cr_seq (w_reg w) \<and> (rs_conn s \<notin> w_closed w \<longrightarrow>
        (\<exists>t. map_of (cr_inner (w_reg w)) (rs_reg s) = Some t \<and> t_conn t = rs_conn s))) \<and>
     (\<forall>i t p. map_of (cr_inner (w_reg w)) i = Some t \<longrightarrow> count_of (t_admitted t) p = sessions_as L (w_running w) i p)"

lemma session_okI:
  assumes "\<And>s. s \<in> set (w_running w) \<Longrightarrow> rs_reg s < cr_seq (w_reg w)"
    and "\<And>s. s \<in> set (w_running w) \<Longrightarrow> rs_conn s \<notin> w_closed w \<Longrightarrow>
      \<exists>t. map_of (cr_inner (w_reg w)) (rs_reg s) = Some t \<and> t_conn t = rs_conn s"
    and "\<And>i t p. map_of (cr_inner (w_reg w)) i = Some t \<Longrightarrow> count_of (t_admitted t) p = sessions_as L (w_running w) i p"
  shows "session_ok L w"
  using assms by (simp add: session_ok_def)

lemma session_ok_reg: "session_ok L w \<Longrightarrow> s \<in> set (w_running w) \<Longrightarrow> rs_reg s < cr_seq (w_reg w)"
  by (simp add: session_ok_def)

lemma session_ok_entry:
  "session_ok L w \<Longrightarrow> s \<in> set (w_running w) \<Longrightarrow> rs_conn s \<notin> w_closed w \<Longrightarrow>
     \<exists>t. map_of (cr_inner (w_reg w)) (rs_reg s) = Some t \<and> t_conn t = rs_conn s"
  by (simp add: session_ok_def)

lemma session_ok_count:
  "session_ok L w \<Longrightarrow> map_of (cr_inner (w_reg w)) i = Some t \<Longrightarrow>
     count_of (t_admitted t) p = sessions_as L (w_running w) i p"
  by (simp add: session_ok_def)

text \<open>Steps that touch neither the sessions nor the registry, and close more connections.\<close>

lemma session_ok_frame:
  assumes "session_ok L w" "w_running w' = w_running w" "w_reg w' = w_reg w" "w_closed w \<subseteq> w_closed w'"
  shows "session_ok L w'"
  using assms by (auto simp: session_ok_def)

lemma sessions_as_absent: "(\<And>s. s \<in> set xs \<Longrightarrow> rs_reg s \<noteq> i) \<Longrightarrow> sessions_as L xs i p = 0"
  by (auto simp: sessions_as_def filter_empty_conv)

lemma session_ok_step:
  assumes "step L peer w w'" "conn_ok peer w" "session_ok L w"
  shows "session_ok L w'"
  using assms(1)
proof cases
  case (register c u i r')
  note rs = register_checked_Some [OF conn_ok_registry [OF assms(2)] register(4)]
  have lt: "rs_reg s < cr_seq (w_reg w) + 1" if "s \<in> set (w_running w)" for s
    using register(3) session_ok_reg [OF assms(3) that] by (auto simp: seq_ok_def intro: less_word_add_1)
  have ne: "rs_reg s \<noteq> i" if "s \<in> set (w_running w)" for s
    using session_ok_reg [OF assms(3) that] rs by auto
  then have "sessions_as L (w_running w) i p = 0" for p by (rule sessions_as_absent)
  with ne show ?thesis unfolding register(1)
    using rs lt session_ok_entry [OF assms(3)] session_ok_count [OF assms(3)] session_ok_reg [OF assms(3)]
    by (intro session_okI) (auto simp: count_of_def split: if_splits)
next
  case (register_refused c u r')
  then show ?thesis by (intro session_ok_frame [OF assms(3)]) (auto dest: register_checked_None)
next
  case (deregister c i pr)
  obtain t where t: "map_of (cr_inner (w_reg w)) i = Some t" "t_conn t = c"
    using conn_ok_serving [OF assms(2) deregister(2)] by blast
  show ?thesis unfolding deregister(1)
    using session_ok_entry [OF assms(3)] session_ok_count [OF assms(3)] session_ok_reg [OF assms(3)] t deregister(3)
    by (intro session_okI) (auto simp: deregister_map split: if_splits, fastforce)
next
  case (promote s c snap user ident i pr r' pr')
  show ?thesis unfolding promote(1) using admit_roster_user_True [OF promote(4)]
  proof (elim disjE exE conjE)
    assume "r' = w_reg w"
    then show "session_ok L (w\<lparr>w_stream := (w_stream w)(s := Promoted c snap ident), w_reg := r',
        w_conn := (w_conn w)(c := Serving i pr')\<rparr>)"
      by (intro session_ok_frame [OF assms(3)]) auto
  next
    fix t u assume t: "map_of (cr_inner (w_reg w)) i = Some t" "cr_seq r' = cr_seq (w_reg w)"
      "map_of (cr_inner r') = (map_of (cr_inner (w_reg w)))(i \<mapsto> t\<lparr>t_roster_user := Some u\<rparr>)"
    show "session_ok L (w\<lparr>w_stream := (w_stream w)(s := Promoted c snap ident), w_reg := r',
        w_conn := (w_conn w)(c := Serving i pr')\<rparr>)"
      using t session_ok_entry [OF assms(3)] session_ok_count [OF assms(3)] session_ok_reg [OF assms(3)]
      by (intro session_okI) (auto split: if_splits, fastforce)
  qed
next
  case (admit s c snap ident i pr init name frame r')
  obtain t where t: "map_of (cr_inner (w_reg w)) i = Some t" "cr_seq r' = cr_seq (w_reg w)"
    "map_of (cr_inner r') = (map_of (cr_inner (w_reg w)))(i \<mapsto>
       t\<lparr>t_admitted := foldl count_up (t_admitted t) (identity_principals L ident)\<rparr>)"
    using admit_session_map [OF admit(5)] by blast
  have c: "t_conn t = c" using conn_ok_serving [OF assms(2) admit(3)] t(1) by auto
  have lt: "i < cr_seq (w_reg w)"
    using registry_tracked_ok [OF conn_ok_registry [OF assms(2)] t(1)] by simp
  show ?thesis unfolding admit(1)
    using t c lt session_ok_entry [OF assms(3)] session_ok_count [OF assms(3)] session_ok_reg [OF assms(3)]
    by (intro session_okI) (auto simp: count_of_ups split: if_splits, fastforce)
next
  case (finish xs s ys)
  let ?r = "end_session (w_reg w) (rs_reg s) (identity_principals L (rs_ident s))"
  have cnt: "count_of (t_admitted t) p = sessions_as L (xs @ ys) i p"
    if "map_of (cr_inner ?r) i = Some t" for i t p
    using that session_ok_count [OF assms(3), of i _ p] finish(2)
    by (auto simp: end_session_map count_of_downs split: option.splits if_splits)
  show ?thesis unfolding finish(1)
  proof (rule session_okI)
    fix s' assume "s' \<in> set (w_running (w\<lparr>w_running := xs @ ys, w_reg := ?r\<rparr>))"
    then have s': "s' \<in> set (w_running w)" using finish(2) by auto
    show "rs_reg s' < cr_seq (w_reg (w\<lparr>w_running := xs @ ys, w_reg := ?r\<rparr>))"
      using session_ok_reg [OF assms(3) s'] by (simp add: end_session_map)
    assume "rs_conn s' \<notin> w_closed (w\<lparr>w_running := xs @ ys, w_reg := ?r\<rparr>)"
    with session_ok_entry [OF assms(3) s']
    show "\<exists>t. map_of (cr_inner (w_reg (w\<lparr>w_running := xs @ ys, w_reg := ?r\<rparr>))) (rs_reg s') = Some t \<and>
        t_conn t = rs_conn s'"
      by (auto simp: end_session_map split: option.splits)
  qed (simp add: cnt)
qed (use assms(3) in \<open>auto intro: session_ok_frame\<close>)

subsection \<open>Snapshots and authorization\<close>

fun stream_snapshot :: "stream_phase \<Rightarrow> live_services option" where
  "stream_snapshot Off = None"
| "stream_snapshot (Snapped c snap b) = Some snap"
| "stream_snapshot (Identified c snap b i) = Some snap"
| "stream_snapshot (Reread c snap u i) = Some snap"
| "stream_snapshot (Promoted c snap i) = Some snap"

text \<open>A snapshot is older than the live registry, or it is the live registry.\<close>

definition stream_ok :: "world \<Rightarrow> bool" where
  "stream_ok w \<longleftrightarrow> distinct (al_keys (ls_services (w_live w))) \<and>
     (\<forall>s snap. stream_snapshot (w_stream w s) = Some snap \<longrightarrow>
        ls_version snap < ls_version (w_live w) \<or> snap = w_live w)"

lemma stream_ok_step:
  assumes "step L peer w w'" "stream_ok w"
  shows "stream_ok w'"
  using assms(1)
proof cases
  case (swap ss)
  have "ls_version snap < Suc (ls_version (w_live w))" if "stream_snapshot (w_stream w s) = Some snap" for s snap
    using assms(2) that by (auto simp: stream_ok_def less_Suc_eq)
  then show ?thesis using swap by (auto simp: stream_ok_def live_store_def)
next
  case (revoke_swap ss ps)
  have "ls_version snap < Suc (ls_version (w_live w))" if "stream_snapshot (w_stream w s) = Some snap" for s snap
    using assms(2) that by (auto simp: stream_ok_def less_Suc_eq)
  then show ?thesis using revoke_swap by (auto simp: stream_ok_def live_store_def)
next
  case (identify s c snap before ident)
  then show ?thesis using assms(2) unfolding stream_ok_def by (auto; metis stream_snapshot.simps(2))
next
  case (reread s c snap before ident user)
  then show ?thesis using assms(2) unfolding stream_ok_def by (auto; metis stream_snapshot.simps(3))
next
  case (promote s c snap user ident i pr r' pr')
  then show ?thesis using assms(2) unfolding stream_ok_def by (auto; metis stream_snapshot.simps(4))
qed (use assms(2) in \<open>auto simp: stream_ok_def\<close>)

definition authorized :: "libs \<Rightarrow> live_services \<Rightarrow> running \<Rightarrow> bool" where
  "authorized L live s \<longleftrightarrow>
     (\<exists>e. map_of (ls_services live) (rs_name s) = Some e \<and> caller_admits L (rs_ident s) (se_allow e))"

text \<open>The admit is decided by the registry that is live under the lock.\<close>

lemma admitted_authorized:
  assumes "stream_ok w" "w_stream w s = Promoted c snap ident"
    and "select_service init (allowed_services L (ls_services snap) (Some ident)) = (Selected name, frame)"
    and "still_admits L (w_live w) snap name ident"
  shows "\<exists>e. map_of (ls_services (w_live w)) name = Some e \<and> caller_admits L ident (se_allow e)"
proof (cases "ls_version (w_live w) = ls_version snap")
  case True
  have "stream_snapshot (w_stream w s) = Some snap" by (simp add: assms(2))
  with True assms(1) have "snap = w_live w" by (auto simp: stream_ok_def)
  with selected_mem [OF assms(3)] assms(1) show ?thesis
    unfolding mem_allowed_services stream_ok_def by (metis map_of_is_SomeI)
next
  case False
  then show ?thesis using assms(4) by (auto simp: still_admits_def split: option.splits)
qed

text \<open>A session admitted as \<open>p\<close> is found by the sever pass of a revoke of \<open>p\<close>.\<close>

lemma sever_principals_hits:
  assumes "conn_ok peer w" "session_ok L w" "s \<in> set (w_running w)" "rs_conn s \<notin> w_closed w"
    and "p \<in> set (identity_principals L (rs_ident s))" "p \<in> set ps"
    and "sever_principals L st g (w_reg w) ps = Inr cs"
  shows "rs_conn s \<in> set cs"
proof -
  obtain t where t: "map_of (cr_inner (w_reg w)) (rs_reg s) = Some t" "t_conn t = rs_conn s"
    using session_ok_entry [OF assms(2-4)] by blast
  have "0 < sessions_as L (w_running w) (rs_reg s) p"
    using assms(3,5) by (auto simp: sessions_as_def filter_empty_conv)
  then have "0 < count_of (t_admitted t) p" using session_ok_count [OF assms(2) t(1)] by simp
  then have "p \<in> set (al_keys (t_admitted t))"
    using registry_tracked_ok [OF conn_ok_registry [OF assms(1)] t(1)] by (simp add: admitted_key_iff del: set_map)
  then show ?thesis using assms(6,7) t map_of_SomeD [OF t(1)]
    by (auto simp: sever_principals_def result_simps sever_admitted_set simp del: set_map intro!: exI [of _ t] exI [of _ "rs_reg s"])
qed

text \<open>A step starts at most one session, which the registry then live admits, and reopens nothing.\<close>

lemma step_sessions:
  assumes "step L peer w w'" "stream_ok w" "s \<in> set (w_running w')"
  shows "s \<in> set (w_running w) \<or> authorized L (w_live w') s"
  using assms(1)
proof cases
  case (admit st c snap ident i pr init name frame r')
  have "\<exists>e. map_of (ls_services (w_live w)) name = Some e \<and> caller_admits L ident (se_allow e)"
    using admit_session_map [OF admit(5)] by (intro admitted_authorized [OF assms(2) admit(2,4)]) simp
  then show ?thesis using assms(3) unfolding admit(1) by (auto simp: authorized_def)
qed (use assms(3) in auto)

lemma step_closed: "step L peer w w' \<Longrightarrow> w_closed w \<subseteq> w_closed w'"
  by (cases rule: step.cases) auto

subsection \<open>Reachable worlds\<close>

lemma reach_invariants:
  assumes "reach L peer g live w" "distinct (al_keys (ls_services live))"
  shows "conn_ok peer w \<and> roster_ok w \<and> session_ok L w \<and> stream_ok w"
  using assms
proof induction
  case start
  then show ?case
    by (auto simp: w_init_def conn_ok_def registry_ok_new roster_ok_def session_ok_def stream_ok_def
        cr_new_def registry_ok_new [unfolded cr_new_def])
next
  case (next_step w w')
  then show ?case
    using conn_ok_step [OF next_step.hyps(2)] roster_ok_step [OF next_step.hyps(2)]
      session_ok_step [OF next_step.hyps(2)] stream_ok_step [OF next_step.hyps(2)]
    by blast
qed

lemma reach_steps: "(step L peer)\<^sup>*\<^sup>* w w' \<Longrightarrow> reach L peer g live w \<Longrightarrow> reach L peer g live w'"
  by (induction rule: rtranclp_induct) (auto intro: reach.next_step)

text \<open>
  A session that runs on an open connection at the end of a run was already running at its start,
  or some registry live during the run admits it.
\<close>

lemma run_sessions:
  assumes "(step L peer)\<^sup>*\<^sup>* w w'" "reach L peer g live w" "distinct (al_keys (ls_services live))"
    and "s \<in> set (w_running w')" "rs_conn s \<notin> w_closed w'"
  shows "s \<in> set (w_running w) \<and> rs_conn s \<notin> w_closed w \<or>
     (\<exists>v. (step L peer)\<^sup>*\<^sup>* w v \<and> (step L peer)\<^sup>*\<^sup>* v w' \<and> authorized L (w_live v) s)"
  using assms(1,4,5)
proof (induction rule: rtranclp_induct)
  case base
  then show ?case by simp
next
  case (step v v')
  have "stream_ok v" using reach_invariants [OF reach_steps [OF step.hyps(1) assms(2)] assms(3)] by simp
  from step_sessions [OF step.hyps(2) this step.prems(1)] show ?case
  proof
    assume "s \<in> set (w_running v)"
    moreover have "rs_conn s \<notin> w_closed v" using step.prems(2) step_closed [OF step.hyps(2)] by auto
    ultimately show ?thesis using step.IH step.hyps(2) by (meson rtranclp.rtrancl_into_rtrancl)
  next
    assume "authorized L (w_live v') s"
    then show ?thesis using step.hyps by (meson rtranclp.rtrancl_into_rtrancl rtranclp.rtrancl_refl)
  qed
qed

end
