(* ===== verification/Session_Props.thy ===== *)
theory Session_Props
  imports Session
begin

text \<open>
  The theorems about the wire codec, the strike policy, service selection and the authorization of
  one session.
\<close>

subsection \<open>Instances for the witnesses\<close>

definition demo_frame :: json where
  "demo_frame = JObj [(''id'', JNum 1), (''x'', JArr [])]"

definition demo_serde :: serde where
  "demo_serde = \<lparr>from_slice = (\<lambda>b. if b = str_bytes ''null'' then Some JNull
       else if b = str_bytes ''true'' then Some (JBool True)
       else if b = str_bytes ''{\"id\":1,\"x\":[]}'' then Some demo_frame else None),
     to_vec = (\<lambda>v. if v = JNull then Some (str_bytes ''null'')
       else if v = JBool True then Some (str_bytes ''true'')
       else if v = demo_frame then Some (str_bytes ''{\"id\":1,\"x\":[]}'') else None)\<rparr>"

lemma demo_serde_ok: "serde_roundtrip demo_serde"
  by (simp add: serde_roundtrip_def demo_serde_def str_bytes_def demo_frame_def)

subsection \<open>The codec\<close>

text \<open>
  Framing violations never desynchronise the stream: over any sequence of newline-terminated
  lines the reader gives each line its own verdict, too large exactly when it exceeds the cap,
  otherwise what the parser says, and is left at the first byte after them with an empty buffer.
\<close>

theorem lines_are_judged_one_by_one:
  assumes "\<forall>l \<in> set lines. 10 \<notin> set l"
  shows "read_frames S (length lines) (fr_new (terminated lines @ rest) br cap) =
     (map (\<lambda>l. Inr (Some (if length l > cap then Violation TooLarge
         else case from_slice S l of Some v \<Rightarrow> Frame v | None \<Rightarrow> Violation InvalidJson))) lines,
      fr_new rest br cap)"
  using read_lines [OF assms, of S rest br cap] by (simp add: line_verdict_def [abs_def] parse_line_def)

theorem lines_are_judged_one_by_one_witness:
  "fst (read_frames demo_serde 3 (fr_new (terminated [str_bytes ''toolong'', [], str_bytes ''true''] @ []) False 5)) =
     [Inr (Some (Violation TooLarge)), Inr (Some (Violation InvalidJson)), Inr (Some (Frame (JBool True)))]"
  using lines_are_judged_one_by_one [of "[str_bytes ''toolong'', [], str_bytes ''true'']" demo_serde "[]" False 5]
  by (simp add: demo_serde_def str_bytes_def numeral_3_eq_3)

text \<open>
  C31. What one end writes the other end reads: a sequence of frames whose lines fit the cap, whose numbers
  are integers of \<open>serde_json\<close>'s range, whose objects have their keys in the order of its map (as every
  \<open>Value\<close> has) and which nest arrays and objects at most 127 deep comes back unchanged and in order, and
  then the end of the stream. Floating-point numbers are not in the model, and frames nested deeper,
  which \<open>serde_json\<close> prints and does not parse, are outside the claim.
\<close>

theorem frames_roundtrip:
  assumes "serde_roundtrip S" "write_frames S [] fs = Inr w"
    and "\<forall>f \<in> set fs. serde_value f \<and> json_depth f \<le> JSON_MAX_DEPTH"
    and "\<forall>f \<in> set fs. \<forall>line. to_vec S f = Some line \<longrightarrow> length line \<le> cap"
  shows "fst (read_frames S (length fs) (fr_new w False cap)) = map (\<lambda>f. Inr (Some (Frame f))) fs \<and>
     fst (fr_next S (snd (read_frames S (length fs) (fr_new w False cap)))) = Inr None"
proof -
  from assms(2) obtain lines where l: "list_all2 (\<lambda>f l. to_vec S f = Some l) fs lines" "w = terminated lines"
    by (auto simp: write_frames_lines)
  have len: "length fs = length lines" using l(1) by (rule list_all2_lengthD)
  have "\<forall>l \<in> set lines. 10 \<notin> set l"
  proof
    fix x assume "x \<in> set lines"
    then obtain k where "k < length lines" "x = lines ! k" by (auto simp: in_set_conv_nth)
    then have "to_vec S (fs ! k) = Some x" using l(1) by (simp add: list_all2_conv_all_nth)
    then show "10 \<notin> set x" using assms(1) by (simp add: serde_roundtrip_def)
  qed
  note rd = read_lines [OF this, of S "[]" False cap]
  have v: "map (line_verdict S cap) lines = map Frame fs"
  proof (intro nth_equalityI)
    fix k assume "k < length (map (line_verdict S cap) lines)"
    then have k: "k < length lines" "to_vec S (fs ! k) = Some (lines ! k)" "fs ! k \<in> set fs"
      using l(1) len by (simp_all add: list_all2_conv_all_nth)
    then have "length (lines ! k) \<le> cap" "from_slice S (lines ! k) = Some (fs ! k)"
      using assms(1,3,4) by (auto simp: serde_roundtrip_def)
    with k len show "map (line_verdict S cap) lines ! k = map Frame fs ! k"
      by (simp add: line_verdict_def parse_line_def)
  qed (simp add: len)
  have "map (\<lambda>l. Inr (Some (line_verdict S cap l))) lines = map (\<lambda>f. Inr (Some (Frame f)) :: io_error + inbound option) fs"
    using arg_cong [OF v, of "map (\<lambda>x. Inr (Some x) :: io_error + inbound option)"] by (simp add: comp_def)
  with rd show ?thesis by (simp add: l(2) len fr_next_eof)
qed

theorem frames_roundtrip_witness:
  "\<exists>w. write_frames demo_serde [] [JNull, demo_frame] = Inr w \<and>
     fst (read_frames demo_serde 2 (fr_new w False 16)) = [Inr (Some (Frame JNull)), Inr (Some (Frame demo_frame))]"
proof -
  obtain w where w: "write_frames demo_serde [] [JNull, demo_frame] = Inr w"
    by (simp add: write_frame_def demo_serde_def demo_frame_def)
  have v: "\<forall>f \<in> set [JNull, demo_frame]. serde_value f \<and> json_depth f \<le> JSON_MAX_DEPTH"
    by (simp add: demo_frame_def JSON_MAX_DEPTH_def)
  have "\<forall>f \<in> set [JNull, demo_frame]. \<forall>line. to_vec demo_serde f = Some line \<longrightarrow> length line \<le> 16"
    by (auto simp: demo_serde_def str_bytes_def demo_frame_def)
  from frames_roundtrip [OF demo_serde_ok w v this] w show ?thesis by (auto simp: numeral_2_eq_2)
qed

text \<open>
  The reader's memory is bounded by the cap, whatever bytes arrive and however many frames are
  read.
\<close>

theorem reader_buffer_bounded:
  assumes "read_frames S n (fr_new input br cap) = (xs, r)"
  shows "length (fr_buf r) \<le> cap"
proof -
  have "length (fr_buf r) \<le> fr_max_frame r \<and> fr_max_frame r = fr_max_frame r0"
    if "length (fr_buf r0) \<le> fr_max_frame r0" "read_frames S n r0 = (xs, r)" for r0
    using that
  proof (induction n arbitrary: r0 xs)
    case 0
    then show ?case by simp
  next
    case (Suc n)
    obtain x r1 where x: "fr_next S r0 = (x, r1)" by fastforce
    with Suc.prems(2) obtain ys where "read_frames S n r1 = (ys, r)"
      by (auto simp: Let_def split: prod.splits)
    with Suc.IH [of r1 ys] fr_buf_bounded [OF Suc.prems(1) x] show ?case by simp
  qed
  from this [of "fr_new input br cap"] assms show ?thesis by (simp add: fr_new_def)
qed

theorem reader_buffer_bounded_witness:
  "length (fr_buf (snd (read_frames demo_serde 1 (fr_new (replicate 9 65) False 4)))) \<le> 4"
  by (rule reader_buffer_bounded [of demo_serde 1 "replicate 9 65" False 4]) (rule surjective_pairing)

text \<open>
  The strike policy: fewer than three bad lines before a good one are each answered with their
  error and the good frame is delivered; the third bad line is answered too, and ends the session
  without a frame. Strikes from earlier reads count.
\<close>

theorem strike_policy:
  assumes "\<forall>l \<in> set bad. 10 \<notin> set l \<and> is_violation (line_verdict S cap l)"
    and "10 \<notin> set good" "line_verdict S cap good = Frame v"
  shows "(unat s + length bad < 3 \<longrightarrow>
       recv_frame S (fr_new (terminated bad @ good @ 10 # rest) br cap) s sent =
         (Some v, fr_new rest br cap, s + of_nat (length bad),
          sent @ map (\<lambda>l. violation_error (violation_of (line_verdict S cap l))) bad)) \<and>
     (bad \<noteq> [] \<and> unat s + length bad = 3 \<longrightarrow>
       (\<exists>s'. recv_frame S (fr_new (terminated bad @ good @ 10 # rest) br cap) s sent =
         (None, fr_new (good @ 10 # rest) br cap, s',
          sent @ map (\<lambda>l. violation_error (violation_of (line_verdict S cap l))) bad)))"
proof -
  have "\<exists>s'. recv_frame S (fr_new (terminated bad @ good @ 10 # rest) br cap) s sent =
       (None, fr_new (good @ 10 # rest) br cap, s',
        sent @ map (\<lambda>l. violation_error (violation_of (line_verdict S cap l))) bad)"
    if b: "bad \<noteq> []" "unat s + length bad = 3"
  proof -
    have sp: "butlast bad @ [last bad] = bad" using b(1) by simp
    then have "length bad = Suc (length (butlast bad))" by (metis length_append_singleton)
    then show ?thesis
      using recv_frame_strikes_out [of "butlast bad" "last bad" S cap s "good @ 10 # rest" br sent] assms(1) b(2)
      unfolding sp by simp
  qed
  then show ?thesis using recv_frame_delivers [OF assms] by blast
qed

theorem strike_policy_witness:
  "fst (recv_frame demo_serde (fr_new (terminated [[], []] @ str_bytes ''true'' @ 10 # []) False 8) 0 []) = Some (JBool True) \<and>
   fst (recv_frame demo_serde (fr_new (terminated [[], [], []] @ str_bytes ''true'' @ 10 # []) False 8) 0 []) = None"
  using strike_policy [of "[[], []]" demo_serde 8 "str_bytes ''true''" "JBool True" 0 "[]" False "[]"]
    strike_policy [of "[[], [], []]" demo_serde 8 "str_bytes ''true''" "JBool True" 0 "[]" False "[]"]
  by (auto simp: is_violation_def line_verdict_def parse_line_def demo_serde_def str_bytes_def)

subsection \<open>Service selection\<close>

text \<open>
  The service a session gets: the one it names, under either spelling of the key, if its caller
  is allowed it; the caller's only allowed service when it names none; a refusal when it names
  one it is not allowed, names two different ones, or puts anything but a string under a key.
\<close>

theorem select_service_spec:
  "fst (select_service init allowed) =
     (case (jpointer [''params'', ''_meta'', ''tech.counterpunch.mcpmesh/service''] init,
            jpointer [''params'', ''_meta'', ''mcpmesh/service''] init) of
        (None, None) \<Rightarrow> (case allowed of [only] \<Rightarrow> Selected only | _ \<Rightarrow> Refuse)
      | (Some (JStr s), None) \<Rightarrow> if s \<in> set allowed then Selected s else Refuse
      | (None, Some (JStr s)) \<Rightarrow> if s \<in> set allowed then Selected s else Refuse
      | (Some (JStr s), Some (JStr t)) \<Rightarrow> if s = t \<and> s \<in> set allowed then Selected s else Refuse
      | _ \<Rightarrow> Refuse)"
  unfolding select_service_decision service_request_def append.simps
  by (simp del: jpointer.simps split: option.splits json.splits)

text \<open>
  The frame a backend receives carries no forged authority: in it, and in every request a server
  would unwrap from it as a batch down to the nesting bound, \<open>params._meta\<close> has no reserved key and
  no \<open>clientInfo\<close> named in the principal grammar.
\<close>

theorem selected_frame_has_no_forged_authority:
  "\<forall>f \<in> set (frames_within 0 (snd (select_service init allowed))). meta_clean f"
  using selected_frames_clean by blast

definition demo_forged :: json where
  "demo_forged = JArr [JObj [(''id'', JNum 1), (''params'', JObj [(''_meta'', JObj [(''mcpmesh/peer'', JStr ''root''),
     (''io.modelcontextprotocol/clientInfo'', JObj [(''name'', JStr ''eid:00'')]), (''keep'', JNum 7)])])]]"

theorem selected_frame_has_no_forged_authority_witness:
  "\<exists>f \<in> set (frames_within 0 demo_forged). \<not> meta_clean f \<and>
     (\<forall>g \<in> set (frames_within 0 (snd (select_service demo_forged []))). meta_clean g)"
proof -
  let ?f = "JObj [(''id'', JNum 1), (''params'', JObj [(''_meta'', JObj [(''mcpmesh/peer'', JStr ''root''),
     (''io.modelcontextprotocol/clientInfo'', JObj [(''name'', JStr ''eid:00'')]), (''keep'', JNum 7)])])]"
  have "?f \<in> set (frames_within 0 demo_forged)"
    by (simp add: demo_forged_def frames_within_batch frames_within_flat MAX_BATCH_DEPTH_def)
  moreover have "\<not> meta_clean ?f"
    by (simp add: meta_clean_def impersonates_def CLIENT_INFO_KEY_def PRINCIPAL_PREFIXES_def reserved_key_def RESERVED_META_PREFIXES_def LEGACY_META_PREFIX_def META_PREFIX_def)
  ultimately show ?thesis using selected_frame_has_no_forged_authority [of demo_forged "[]"] by blast
qed

text \<open>
  Removing reserved keys removes nothing else: on a single request every member but \<open>params\<close> is
  unchanged, and inside \<open>params._meta\<close> every key that is neither reserved nor \<open>clientInfo\<close> keeps its
  value.
\<close>

theorem selected_frame_keeps_the_rest:
  assumes "\<not> is_batch init"
  shows "(k \<noteq> ''params'' \<longrightarrow> jget k (snd (select_service init allowed)) = jget k init) \<and>
     (\<not> reserved_key k \<and> k \<noteq> CLIENT_INFO_KEY \<longrightarrow>
        jpointer (meta_path @ [k]) (snd (select_service init allowed)) = jpointer (meta_path @ [k]) init)"
proof (intro conjI impI)
  assume "k \<noteq> ''params''"
  then show "jget k (snd (select_service init allowed)) = jget k init"
    by (simp add: selected_frame_flat [OF assms] jget_jupdate_other del: jupdate.simps)
next
  assume "\<not> reserved_key k \<and> k \<noteq> CLIENT_INFO_KEY"
  then have "jget k (drop_client_info v) = jget k v" "jget k (retain_unreserved v) = jget k v" for v
    by (simp_all add: jget_drop_client_info jget_retain)
  then show "jpointer (meta_path @ [k]) (snd (select_service init allowed)) = jpointer (meta_path @ [k]) init"
    unfolding selected_frame_flat [OF assms] by (simp only: jpointer_meta_retained)
qed

theorem selected_frame_keeps_the_rest_witness:
  "jget ''id'' (snd (select_service (JObj [(''id'', JNum 3)]) [])) = Some (JNum 3)"
  using selected_frame_keeps_the_rest [of "JObj [(''id'', JNum 3)]" "''id''" "[]"] by simp

subsection \<open>Authorization of a session\<close>


definition demo_identity :: peer_identity where
  "demo_identity = \<lparr>pi_endpoint = replicate 32 1, pi_name = ''bob'', pi_user_id = Some ''b64u:bob'', pi_groups = []\<rparr>"

definition demo_reads :: gate_reads where
  "demo_reads = \<lparr>gr_before = None, gr_identity = Some demo_identity, gr_after = None, gr_recheck = (\<lambda>_ _. False)\<rparr>"

definition demo_live :: live_services where
  "demo_live = \<lparr>ls_version = 0, ls_services = [(''kb'', \<lparr>se_backend = 3, se_allow = [''b64u:bob''], se_kind = Run, se_ephemeral = False\<rparr>)]\<rparr>"

definition demo_init :: json where
  "demo_init = JObj [(''id'', JNum 1), (''params'', JObj [(''_meta'', JObj [(''mcpmesh/service'', JStr ''kb'')])])]"

definition demo_registry :: conn_registry where
  "demo_registry = snd (register_checked cr_new 0 (replicate 32 1) None (\<lambda>_. False))"

lemma demo_request: "service_request demo_init = Named ''kb''"
  by (simp add: service_request_def demo_init_def)

lemma demo_admits: "caller_admits demo_libs demo_identity [''b64u:bob'']"
  by (simp add: caller_admits_iff demo_identity_def)

lemma demo_authorize:
  "\<exists>frame r. authorize demo_libs demo_live demo_live demo_reads demo_registry 0 False demo_init =
     (Served demo_identity ''kb'' 3 frame, r, False)"
proof -
  have al: "allowed_services demo_libs (ls_services demo_live) (Some demo_identity) = [''kb'']"
    using demo_admits by (simp add: allowed_services_def demo_live_def)
  obtain d f where sel: "select_service demo_init [''kb''] = (d, f)" by fastforce
  then have "d = Selected ''kb''" using select_service_decision [of demo_init "[''kb'']"] demo_request by simp
  with sel al show ?thesis
    by (simp add: authorize_def resolve_session_principal_def demo_reads_def admit_roster_user_def admit_session_def
        demo_registry_def register_checked_def cr_new_def still_admits_def Let_def demo_live_def)
qed


text \<open>
  Refusals are no oracle: a caller that names a service it may not use gets the very same answer,
  with its own request id and the one fixed message, whether the service exists or not, whatever
  the registries look like, and the connection's record is left the same.
\<close>

theorem refusal_is_no_oracle:
  assumes "service_request init = Named name"
    and "\<forall>ident. gr_identity g = Some ident \<longrightarrow> name \<notin> set (allowed_services L (ls_services snap1) (Some ident))"
    and "\<forall>ident. gr_identity g = Some ident \<longrightarrow> name \<notin> set (allowed_services L (ls_services snap2) (Some ident))"
  shows "authorize L snap1 live1 g r i pr init = authorize L snap2 live2 g r i pr init \<and>
     fst (authorize L snap1 live1 g r i pr init) =
       Refused_With (synthesized (case jget ''id'' init of Some x \<Rightarrow> x | None \<Rightarrow> JNull) ERR_SERVICE MSG_SERVICE)"
proof -
  obtain identity r1 p1 where rs: "resolve_session_principal g r i pr = (identity, r1, p1)" by (metis prod_cases3)
  have "authorize L snap live g r i pr init = (Refused_With (refusal init), r1, p1)"
    if n: "\<forall>ident. gr_identity g = Some ident \<longrightarrow> name \<notin> set (allowed_services L (ls_services snap) (Some ident))"
    for snap live
  proof -
    have "name \<notin> set (allowed_services L (ls_services snap) identity)"
      using n resolve_session_principal_Some [of g r i pr] rs by (cases identity) auto
    then have "fst (select_service init (allowed_services L (ls_services snap) identity)) = Refuse"
      using assms(1) by (simp add: select_service_decision)
    then show ?thesis
      using refusal_stripped [of init "allowed_services L (ls_services snap) identity"]
      by (cases "select_service init (allowed_services L (ls_services snap) identity)")
        (simp add: authorize_def rs)
  qed
  from this [OF assms(2)] this [OF assms(3)] show ?thesis by (simp add: refusal_def)
qed

theorem refusal_is_no_oracle_witness:
  "authorize demo_libs (demo_live\<lparr>ls_services := []\<rparr>) demo_live demo_reads demo_registry 0 False demo_init =
   authorize demo_libs (demo_live\<lparr>ls_services := [(''kb'', \<lparr>se_backend = 3, se_allow = [], se_kind = Run, se_ephemeral = False\<rparr>)]\<rparr>)
     demo_live demo_reads demo_registry 0 False demo_init"
proof -
  have "\<forall>ident. gr_identity demo_reads = Some ident \<longrightarrow>
      ''kb'' \<notin> set (allowed_services demo_libs (ls_services (demo_live\<lparr>ls_services := []\<rparr>)) (Some ident))"
    and "\<forall>ident. gr_identity demo_reads = Some ident \<longrightarrow>
      ''kb'' \<notin> set (allowed_services demo_libs (ls_services (demo_live\<lparr>ls_services :=
        [(''kb'', \<lparr>se_backend = 3, se_allow = [], se_kind = Run, se_ephemeral = False\<rparr>)]\<rparr>)) (Some ident))"
    by (simp_all add: allowed_services_def caller_admits_def)
  from refusal_is_no_oracle [OF demo_request this] show ?thesis by blast
qed

end
