(* ===== verification/Roster_Mutate.thy ===== *)
theory Roster_Mutate
  imports Roster_View
begin

text \<open>
  The operator-side roster transforms (\<open>trust/src/roster/mutate.rs\<close>): create, enrol or add a
  device, revoke a device, remove a person. The guards of \<open>upsert_member\<close> are a pre-image of the
  install rules; the lemmas here show that every transform keeps \<open>wf_roster\<close>, so a roster the
  operator signs is one every node accepts, and what each transform does to device resolution.
\<close>

datatype mutate_error =
    UserIdIsGroup string
  | GroupIsUserId string
  | EndpointBelongsToAnotherUser string
  | EndpointRevoked string
  | NoSuchPerson string
  | NoSuchDevice string string

definition empty_roster :: "libs \<Rightarrow> string \<Rightarrow> u64 \<Rightarrow> int \<Rightarrow> int \<Rightarrow> roster" where
  "empty_roster L org_id serial issued_epoch expires_epoch =
     \<lparr>ro_format = ROSTER_FORMAT, ro_org_id = org_id, ro_serial = serial,
      ro_issued_at = rfc3339_print L issued_epoch, ro_expires_at = rfc3339_print L expires_epoch,
      ro_groups = [], ro_users = [], ro_revoked_endpoints = [],
      ro_successor_root_pk = None, ro_successor_sig = None, ro_sig = []\<rparr>"

text \<open>What \<open>upsert_member\<close> does to the entry of a known user: another device, or a key rotation.\<close>

definition upsert_existing ::
  "string \<Rightarrow> string \<Rightarrow> string list \<Rightarrow> roster_device \<Rightarrow> roster_user \<Rightarrow> roster_user" where
  "upsert_existing display_name user_pk groups device u =
     (if ru_user_pk u = user_pk
      then u\<lparr>ru_devices := (if \<exists>d \<in> set (ru_devices u). rd_endpoint_id d = rd_endpoint_id device
                           then ru_devices u else ru_devices u @ [device]),
             ru_groups := foldl push_new (ru_groups u) groups\<rparr>
      else u\<lparr>ru_display_name := display_name, ru_user_pk := user_pk, ru_groups := groups,
             ru_devices := [device]\<rparr>)"

definition upsert_member :: "roster \<Rightarrow> string \<Rightarrow> string \<Rightarrow> string \<Rightarrow> string list \<Rightarrow> string \<Rightarrow> string \<Rightarrow>
    mutate_error + roster" where
  "upsert_member r user_id display_name user_pk groups device_endpoint_id device_label =
     (if user_id \<in> set (ro_groups r) \<or> user_id \<in> set groups then Inl (UserIdIsGroup user_id)
      else case find (\<lambda>g. \<exists>u \<in> set (ro_users r). ru_user_id u \<noteq> user_id \<and> ru_user_id u = g) groups of
        Some g \<Rightarrow> Inl (GroupIsUserId g)
      | None \<Rightarrow>
        if \<exists>u \<in> set (ro_users r). ru_user_id u \<noteq> user_id \<and>
             (\<exists>d \<in> set (ru_devices u). rd_endpoint_id d = device_endpoint_id)
        then Inl (EndpointBelongsToAnotherUser device_endpoint_id)
        else if device_endpoint_id \<in> set (ro_revoked_endpoints r)
        then Inl (EndpointRevoked device_endpoint_id)
        else
          let device = \<lparr>rd_endpoint_id = device_endpoint_id, rd_label = device_label, rd_role = ''primary''\<rparr>;
              users = (if \<exists>u \<in> set (ro_users r). ru_user_id u = user_id
                then update_first (\<lambda>u. ru_user_id u = user_id)
                       (upsert_existing display_name user_pk groups device) (ro_users r)
                else ro_users r @ [\<lparr>ru_user_id = user_id, ru_display_name = display_name,
                       ru_user_pk = user_pk, ru_groups = groups, ru_devices = [device]\<rparr>])
          in Inr (r\<lparr>ro_groups := foldl push_new (ro_groups r) groups, ro_users := users, ro_sig := []\<rparr>))"

definition revoke_device :: "roster \<Rightarrow> string \<Rightarrow> string \<Rightarrow> mutate_error + roster" where
  "revoke_device r user_id device_label =
     rbind (ok_or (NoSuchPerson user_id) (find (\<lambda>u. ru_user_id u = user_id) (ro_users r))) (\<lambda>user.
     rbind (ok_or (NoSuchDevice user_id device_label)
              (position (\<lambda>d. rd_label d = device_label) (ru_devices user))) (\<lambda>idx.
     let dev = ru_devices user ! idx in
     Inr (r\<lparr>ro_users := update_first (\<lambda>u. ru_user_id u = user_id)
              (\<lambda>u. u\<lparr>ru_devices := remove_at idx (ru_devices u)\<rparr>) (ro_users r),
            ro_revoked_endpoints := push_new (ro_revoked_endpoints r) (rd_endpoint_id dev),
            ro_sig := []\<rparr>)))"

definition remove_user :: "roster \<Rightarrow> string \<Rightarrow> bool \<Rightarrow> mutate_error + roster" where
  "remove_user r user_id revoke_endpoints =
     rbind (ok_or (NoSuchPerson user_id) (position (\<lambda>u. ru_user_id u = user_id) (ro_users r))) (\<lambda>idx.
     let user = ro_users r ! idx in
     Inr (r\<lparr>ro_users := remove_at idx (ro_users r),
            ro_revoked_endpoints :=
              (if revoke_endpoints
               then foldl push_new (ro_revoked_endpoints r) (map rd_endpoint_id (ru_devices user))
               else ro_revoked_endpoints r),
            ro_sig := []\<rparr>))"

subsection \<open>Endpoints as strings\<close>

text \<open>
  The transforms compare endpoint strings, the rules decoded keys. For canonical encodings the
  two agree, so well-formedness can be read off the strings.
\<close>

definition user_eps :: "roster_user list \<Rightarrow> string list" where
  "user_eps us = concat (map (\<lambda>u. map rd_endpoint_id (ru_devices u)) us)"

definition active_eps :: "roster \<Rightarrow> string list" where
  "active_eps r = filter (\<lambda>s. s \<notin> set (ro_revoked_endpoints r)) (user_eps (ro_users r))"

definition wf_eps :: "libs \<Rightarrow> roster \<Rightarrow> bool" where
  "wf_eps L r \<longleftrightarrow> (\<forall>s \<in> set (ro_revoked_endpoints r) \<union> set (user_eps (ro_users r)). decodes L s) \<and>
     distinct (active_eps r)"

lemma user_eps_simps [simp]:
  "user_eps [] = []"
  "user_eps (u # us) = map rd_endpoint_id (ru_devices u) @ user_eps us"
  "user_eps (us @ vs) = user_eps us @ user_eps vs"
  by (simp_all add: user_eps_def)

lemma set_user_eps: "set (user_eps us) = (\<Union>u \<in> set us. rd_endpoint_id ` set (ru_devices u))"
  by (auto simp: user_eps_def)

lemma user_eps_pairs: "user_eps (ro_users r) = map (\<lambda>(u, d). rd_endpoint_id d) (user_devices r)"
  by (simp add: user_eps_def user_devices_def map_concat comp_def)

lemma spec_device_keys:
  "al_keys (spec_devices L r) =
     map (endpoint_of L) (filter (\<lambda>s. endpoint_of L s \<notin> set (spec_revoked L r)) (user_eps (ro_users r)))"
  by (simp add: spec_devices_def active_pairs_def user_eps_pairs filter_map comp_def split_def)

lemma wf_endpoints_strings:
  assumes "b64_canonical L"
  shows "wf_endpoints L r \<longleftrightarrow> wf_eps L r"
proof (cases "\<forall>s \<in> set (ro_revoked_endpoints r) \<union> set (user_eps (ro_users r)). decodes L s")
  case True
  have inj: "inj_on (endpoint_of L) (set (ro_revoked_endpoints r) \<union> set (user_eps (ro_users r)))"
    using True by (intro inj_onI) (simp add: endpoint_of_inj [OF assms])
  have "filter (\<lambda>s. endpoint_of L s \<notin> set (spec_revoked L r)) (user_eps (ro_users r)) = active_eps r"
    unfolding active_eps_def spec_revoked_set
    using inj by (intro filter_cong) (auto simp: inj_on_image_mem_iff [OF inj])
  then have "distinct (al_keys (spec_devices L r)) \<longleftrightarrow> distinct (active_eps r)"
    using inj unfolding spec_device_keys
    by (auto simp: distinct_map active_eps_def intro: inj_on_subset)
  with True show ?thesis
    by (auto simp: wf_endpoints_def wf_eps_def user_eps_pairs)
next
  case False
  then show ?thesis by (auto simp: wf_endpoints_def wf_eps_def user_eps_pairs)
qed

lemma wf_roster_strings: "b64_canonical L \<Longrightarrow> wf_roster L r \<longleftrightarrow> wf_names r \<and> wf_eps L r"
  by (simp add: wf_roster_def wf_endpoints_strings)

lemma wf_user_unique:
  assumes "wf_names r" "ro_users r = ys @ u # zs"
  shows "\<forall>x \<in> set ys \<union> set zs. ru_user_id x \<noteq> ru_user_id u"
  using assms by (auto simp: wf_names_def) (metis image_eqI)+

lemma wf_empty_roster: "wf_roster L (empty_roster L org serial i e)"
  by (simp add: wf_roster_def wf_names_def wf_endpoints_def empty_roster_def user_devices_def
      spec_devices_def active_pairs_def)

text \<open>Replacing a block of a duplicate-free list, up to one fresh element.\<close>

lemma distinct_replace_block:
  assumes "distinct (filter P (A @ B @ C))" "distinct (filter P B')"
    and "set B' \<subseteq> insert x (set B)" "x \<notin> set A \<union> set C"
  shows "distinct (filter P (A @ B' @ C))"
  using assms by auto

lemma distinct_drop_block: "distinct (A @ B @ C) \<Longrightarrow> distinct (A @ C)"
  by auto

subsection \<open>Enrolment\<close>

text \<open>The guards of \<open>upsert_member\<close>, as the facts they leave behind.\<close>

definition upsert_guards :: "roster \<Rightarrow> string \<Rightarrow> string list \<Rightarrow> string \<Rightarrow> bool" where
  "upsert_guards r user_id groups ep \<longleftrightarrow>
     user_id \<notin> set (ro_groups r) \<union> set groups \<and>
     (\<forall>u \<in> set (ro_users r). ru_user_id u \<noteq> user_id \<longrightarrow>
        ru_user_id u \<notin> set groups \<and> ep \<notin> rd_endpoint_id ` set (ru_devices u)) \<and>
     ep \<notin> set (ro_revoked_endpoints r)"

definition upsert_device :: "string \<Rightarrow> string \<Rightarrow> roster_device" where
  "upsert_device ep label = \<lparr>rd_endpoint_id = ep, rd_label = label, rd_role = ''primary''\<rparr>"

lemma upsert_device_ep [simp]: "rd_endpoint_id (upsert_device ep l) = ep"
  by (simp add: upsert_device_def)

definition upsert_users :: "roster \<Rightarrow> string \<Rightarrow> string \<Rightarrow> string \<Rightarrow> string list \<Rightarrow> roster_device \<Rightarrow>
    roster_user list" where
  "upsert_users r user_id display_name user_pk groups device =
     (if \<exists>u \<in> set (ro_users r). ru_user_id u = user_id
      then update_first (\<lambda>u. ru_user_id u = user_id)
             (upsert_existing display_name user_pk groups device) (ro_users r)
      else ro_users r @ [\<lparr>ru_user_id = user_id, ru_display_name = display_name,
             ru_user_pk = user_pk, ru_groups = groups, ru_devices = [device]\<rparr>])"

lemma upsert_member_Inr:
  "upsert_member r uid dn pk gs ep l = Inr r' \<longleftrightarrow>
     upsert_guards r uid gs ep \<and>
     r' = r\<lparr>ro_groups := foldl push_new (ro_groups r) gs,
            ro_users := upsert_users r uid dn pk gs (upsert_device ep l), ro_sig := []\<rparr>"
proof -
  let ?f = "find (\<lambda>g. \<exists>u \<in> set (ro_users r). ru_user_id u \<noteq> uid \<and> ru_user_id u = g) gs"
  have f: "?f = None \<longleftrightarrow> (\<forall>u \<in> set (ro_users r). ru_user_id u \<noteq> uid \<longrightarrow> ru_user_id u \<notin> set gs)"
    by (auto simp: find_None_iff)
  show ?thesis
  proof (cases ?f)
    case None
    have "(\<exists>u \<in> set (ro_users r). ru_user_id u \<noteq> uid \<and> (\<exists>d \<in> set (ru_devices u). rd_endpoint_id d = ep))
        \<longleftrightarrow> \<not> (\<forall>u \<in> set (ro_users r). ru_user_id u \<noteq> uid \<longrightarrow> ep \<notin> rd_endpoint_id ` set (ru_devices u))"
      by (auto simp: image_iff)
    with None f show ?thesis
      unfolding upsert_member_def upsert_guards_def upsert_users_def upsert_device_def Let_def
      by (auto split: if_splits)
  next
    case (Some g)
    with f have "\<not> upsert_guards r uid gs ep" by (auto simp: upsert_guards_def)
    with Some show ?thesis by (simp add: upsert_member_def)
  qed
qed

text \<open>One shape for the three cases: the user list is split at the entry that changes.\<close>

lemma upsert_users_shape:
  assumes "wf_names r"
  obtains ys zs new where
    "upsert_users r uid dn pk gs dev = ys @ new # zs" "ru_user_id new = uid"
    "\<forall>x \<in> set ys \<union> set zs. x \<in> set (ro_users r) \<and> ru_user_id x \<noteq> uid"
    "ro_users r = ys @ zs \<and> ru_devices new = [dev] \<and> ru_groups new = gs \<or>
     (\<exists>u. ro_users r = ys @ u # zs \<and> ru_user_id u = uid \<and> new = upsert_existing dn pk gs dev u)"
proof (cases "\<exists>u \<in> set (ro_users r). ru_user_id u = uid")
  case True
  then obtain ys u zs where sp: "ro_users r = ys @ u # zs" "ru_user_id u = uid"
    "update_first (\<lambda>u. ru_user_id u = uid) (upsert_existing dn pk gs dev) (ro_users r) =
       ys @ upsert_existing dn pk gs dev u # zs"
    by (rule update_first_split)
  have "\<forall>x \<in> set ys \<union> set zs. ru_user_id x \<noteq> uid" using wf_user_unique [OF assms sp(1)] sp(2) by simp
  then show ?thesis
    using True sp by (intro that [of ys "upsert_existing dn pk gs dev u" zs])
      (auto simp: upsert_users_def upsert_existing_def)
next
  case False
  then show ?thesis
    by (intro that [of "ro_users r" "\<lparr>ru_user_id = uid, ru_display_name = dn, ru_user_pk = pk,
           ru_groups = gs, ru_devices = [dev]\<rparr>" "[]"]) (auto simp: upsert_users_def)
qed

lemma upsert_existing_props:
  "ru_user_id (upsert_existing dn pk gs dev u) = ru_user_id u"
  "set (ru_groups (upsert_existing dn pk gs dev u)) \<subseteq> set (ru_groups u) \<union> set gs"
  "rd_endpoint_id dev \<in> rd_endpoint_id ` set (ru_devices (upsert_existing dn pk gs dev u))"
  "rd_endpoint_id ` set (ru_devices (upsert_existing dn pk gs dev u)) \<subseteq>
     insert (rd_endpoint_id dev) (rd_endpoint_id ` set (ru_devices u))"
  by (auto simp: upsert_existing_def) (metis image_eqI)

lemma upsert_existing_distinct:
  "distinct (filter P (map rd_endpoint_id (ru_devices u))) \<Longrightarrow>
   distinct (filter P (map rd_endpoint_id (ru_devices (upsert_existing dn pk gs dev u))))"
  by (auto simp: upsert_existing_def)

lemma upsert_wf_names:
  assumes wf: "wf_names r" and g: "upsert_guards r uid gs ep"
  shows "wf_names (r\<lparr>ro_groups := foldl push_new (ro_groups r) gs,
           ro_users := upsert_users r uid dn pk gs dev, ro_sig := []\<rparr>)"
proof -
  obtain ys zs new where sh: "upsert_users r uid dn pk gs dev = ys @ new # zs" "ru_user_id new = uid"
    "\<forall>x \<in> set ys \<union> set zs. x \<in> set (ro_users r) \<and> ru_user_id x \<noteq> uid"
    "ro_users r = ys @ zs \<and> ru_devices new = [dev] \<and> ru_groups new = gs \<or>
     (\<exists>u. ro_users r = ys @ u # zs \<and> ru_user_id u = uid \<and> new = upsert_existing dn pk gs dev u)"
    by (rule upsert_users_shape [OF wf])
  have "set (ru_groups new) \<subseteq> set (ro_groups r) \<union> set gs"
    using sh(4) wf upsert_existing_props(2) by (fastforce simp: wf_names_def)
  moreover have "distinct (map ru_user_id (ys @ new # zs))"
  proof -
    have "distinct (map ru_user_id ys @ map ru_user_id zs)"
      using sh(4) wf distinct_drop_block [of "map ru_user_id ys" "[uid]" "map ru_user_id zs"]
      by (elim disjE exE conjE) (simp_all add: wf_names_def)
    moreover have "uid \<notin> set (map ru_user_id ys) \<union> set (map ru_user_id zs)" using sh(3) by auto
    ultimately show ?thesis using sh(2) by simp
  qed
  moreover have "\<forall>x \<in> set ys \<union> set zs. ru_user_id x \<notin> set (ro_groups r) \<union> set gs \<and>
      set (ru_groups x) \<subseteq> set (ro_groups r)"
    using sh(3) wf g by (auto simp: wf_names_def upsert_guards_def)
  ultimately show ?thesis
    using sh(1,2) g by (auto simp: wf_names_def upsert_guards_def)
qed

lemma upsert_wf_eps:
  assumes wf: "wf_names r" "wf_eps L r" and g: "upsert_guards r uid gs (rd_endpoint_id dev)"
    and dec: "decodes L (rd_endpoint_id dev)"
  shows "wf_eps L (r\<lparr>ro_groups := gs', ro_users := upsert_users r uid dn pk gs dev, ro_sig := []\<rparr>)"
proof -
  obtain ys zs new where sh: "upsert_users r uid dn pk gs dev = ys @ new # zs" "ru_user_id new = uid"
    "\<forall>x \<in> set ys \<union> set zs. x \<in> set (ro_users r) \<and> ru_user_id x \<noteq> uid"
    "ro_users r = ys @ zs \<and> ru_devices new = [dev] \<and> ru_groups new = gs \<or>
     (\<exists>u. ro_users r = ys @ u # zs \<and> ru_user_id u = uid \<and> new = upsert_existing dn pk gs dev u)"
    by (rule upsert_users_shape [OF wf(1)])
  let ?P = "\<lambda>s. s \<notin> set (ro_revoked_endpoints r)"
  have new: "rd_endpoint_id dev \<notin> set (user_eps ys) \<union> set (user_eps zs)"
    using sh(3) g by (auto simp: set_user_eps upsert_guards_def)
  from sh(4) show ?thesis
  proof
    assume *: "ro_users r = ys @ zs \<and> ru_devices new = [dev] \<and> ru_groups new = gs"
    with wf(2) new dec show ?thesis
      unfolding wf_eps_def active_eps_def by (auto simp: sh(1))
  next
    assume "\<exists>u. ro_users r = ys @ u # zs \<and> ru_user_id u = uid \<and> new = upsert_existing dn pk gs dev u"
    then obtain u where u: "ro_users r = ys @ u # zs" "new = upsert_existing dn pk gs dev u" by auto
    have own: "distinct (filter ?P (map rd_endpoint_id (ru_devices new)))"
      using wf(2) u by (auto simp: wf_eps_def active_eps_def intro: upsert_existing_distinct)
    have sub: "set (map rd_endpoint_id (ru_devices new)) \<subseteq>
        insert (rd_endpoint_id dev) (set (map rd_endpoint_id (ru_devices u)))"
      using upsert_existing_props(4) [of dn pk gs dev u] u(2) by simp
    have old: "distinct (filter ?P (user_eps ys @ map rd_endpoint_id (ru_devices u) @ user_eps zs))"
      using wf(2) u(1) by (simp add: wf_eps_def active_eps_def)
    have "distinct (filter ?P (user_eps ys @ map rd_endpoint_id (ru_devices new) @ user_eps zs))"
      by (rule distinct_replace_block [OF old own sub new])
    then have "distinct (filter ?P (user_eps (ys @ new # zs)))" by simp
    moreover have "set (user_eps (ys @ new # zs)) \<subseteq> insert (rd_endpoint_id dev) (set (user_eps (ro_users r)))"
      using sub u(1) by auto
    ultimately show ?thesis
      using wf(2) dec unfolding wf_eps_def active_eps_def by (auto simp: sh(1) simp del: user_eps_simps)
  qed
qed

lemma upsert_wf:
  assumes "b64_canonical L" "wf_roster L r" "decodes L ep" "upsert_member r uid dn pk gs ep l = Inr r'"
  shows "wf_roster L r'"
  using assms upsert_wf_names [of r uid gs ep] upsert_wf_eps [of r L uid gs "upsert_device ep l"]
  by (simp add: wf_roster_strings upsert_member_Inr)

text \<open>The enrolled device is live: it is in the new roster and not revoked.\<close>

lemma upsert_resolves:
  assumes "b64_canonical L" "wf_roster L r" "decodes L ep" "upsert_member r uid dn pk gs ep l = Inr r'"
  shows "\<exists>x. view_resolve (spec_view L r' t) (endpoint_of L ep) = Some x \<and> d_user_id x = uid"
proof -
  have wf': "wf_roster L r'" by (rule upsert_wf [OF assms])
  have names: "wf_names r" and g: "upsert_guards r uid gs ep"
    and users: "ro_users r' = upsert_users r uid dn pk gs (upsert_device ep l)"
    and rev: "ro_revoked_endpoints r' = ro_revoked_endpoints r"
    using assms by (simp_all add: wf_roster_def upsert_member_Inr)
  obtain ys zs new where sh: "ro_users r' = ys @ new # zs" "ru_user_id new = uid"
    "ro_users r = ys @ zs \<and> ru_devices new = [upsert_device ep l] \<and> ru_groups new = gs \<or>
     (\<exists>u. ro_users r = ys @ u # zs \<and> ru_user_id u = uid \<and> new = upsert_existing dn pk gs (upsert_device ep l) u)"
    unfolding users by (rule upsert_users_shape [OF names])
  have "ep \<in> rd_endpoint_id ` set (ru_devices new)"
    using sh(3) upsert_existing_props(3) [of "upsert_device ep l"] by auto
  then obtain d where d: "d \<in> set (ru_devices new)" "rd_endpoint_id d = ep" by auto
  have "endpoint_of L ep \<notin> set (spec_revoked L r')"
    using g assms(1,3) wf' unfolding spec_revoked_set rev
    by (auto simp: upsert_guards_def wf_roster_def wf_endpoints_def rev endpoint_of_inj)
  then have "view_resolve (spec_view L r' t) (endpoint_of L ep) = Some (resolved new d)"
    using d sh(1) by (auto simp: view_resolve_spec [OF wf'])
  then show ?thesis by (simp add: resolved_def sh(2))
qed

subsection \<open>Revocation and removal\<close>

lemma distinct_filter_weaken:
  assumes "distinct (filter P (xs @ ys @ zs))" "\<And>x. Q x \<Longrightarrow> P x"
  shows "distinct (filter Q (xs @ zs))"
proof -
  have "filter Q (xs @ zs) = filter Q (filter P (xs @ zs))"
    using assms(2) by (simp add: conj_absorb cong: filter_cong) (metis (no_types, lifting) filter_cong)
  moreover have "distinct (filter P (xs @ zs))" using assms(1) by auto
  ultimately show ?thesis by (metis distinct_filter)
qed

text \<open>
  Both transforms delete a block of devices from the document and only grow the revocation list.
\<close>

lemma wf_eps_shrink:
  assumes "wf_eps L r"
    and "user_eps (ro_users r) = A @ B @ C" "user_eps (ro_users r') = A @ C"
    and "set (ro_revoked_endpoints r) \<subseteq> set (ro_revoked_endpoints r')"
    and "set (ro_revoked_endpoints r') \<subseteq> set (ro_revoked_endpoints r) \<union> set B"
  shows "wf_eps L r'"
proof -
  have "distinct (active_eps r')"
    using assms distinct_filter_weaken [of "\<lambda>s. s \<notin> set (ro_revoked_endpoints r)" A B C
        "\<lambda>s. s \<notin> set (ro_revoked_endpoints r')"]
    by (auto simp: wf_eps_def active_eps_def)
  with assms show ?thesis by (auto simp: wf_eps_def)
qed

lemma revoke_device_Inr:
  assumes "wf_names r" "revoke_device r uid lab = Inr r'"
  obtains ys u zs idx where
    "ro_users r = ys @ u # zs" "ru_user_id u = uid"
    "position (\<lambda>d. rd_label d = lab) (ru_devices u) = Some idx"
    "r' = r\<lparr>ro_users := ys @ u\<lparr>ru_devices := remove_at idx (ru_devices u)\<rparr> # zs,
        ro_revoked_endpoints := push_new (ro_revoked_endpoints r) (rd_endpoint_id (ru_devices u ! idx)),
        ro_sig := []\<rparr>"
proof -
  from assms(2) obtain u idx where f: "find (\<lambda>u. ru_user_id u = uid) (ro_users r) = Some u"
    and idx: "position (\<lambda>d. rd_label d = lab) (ru_devices u) = Some idx"
    and r': "r' = r\<lparr>ro_users := update_first (\<lambda>u. ru_user_id u = uid)
              (\<lambda>u. u\<lparr>ru_devices := remove_at idx (ru_devices u)\<rparr>) (ro_users r),
        ro_revoked_endpoints := push_new (ro_revoked_endpoints r) (rd_endpoint_id (ru_devices u ! idx)),
        ro_sig := []\<rparr>"
    by (auto simp: revoke_device_def result_simps Let_def)
  from f have u: "u \<in> set (ro_users r)" "ru_user_id u = uid" by (auto simp: find_Some_iff)
  then have "\<exists>u \<in> set (ro_users r). ru_user_id u = uid" by blast
  then obtain ys v zs where sp: "ro_users r = ys @ v # zs" "ru_user_id v = uid"
    "update_first (\<lambda>u. ru_user_id u = uid) (\<lambda>u. u\<lparr>ru_devices := remove_at idx (ru_devices u)\<rparr>) (ro_users r)
      = ys @ v\<lparr>ru_devices := remove_at idx (ru_devices v)\<rparr> # zs"
    by (rule update_first_split)
  have "v = u" using wf_user_unique [OF assms(1) sp(1)] u sp by auto
  then show thesis using sp idx r' by (intro that) auto
qed

lemma user_eps_remove_device:
  assumes "idx < length (ru_devices u)"
  shows "user_eps (ys @ u # zs) = (user_eps ys @ map rd_endpoint_id (take idx (ru_devices u))) @
       [rd_endpoint_id (ru_devices u ! idx)] @ map rd_endpoint_id (drop (Suc idx) (ru_devices u)) @ user_eps zs"
    and "user_eps (ys @ u\<lparr>ru_devices := remove_at idx (ru_devices u)\<rparr> # zs) =
       (user_eps ys @ map rd_endpoint_id (take idx (ru_devices u))) @
       map rd_endpoint_id (drop (Suc idx) (ru_devices u)) @ user_eps zs"
proof -
  have "map rd_endpoint_id (ru_devices u) = map rd_endpoint_id (take idx (ru_devices u)) @
      rd_endpoint_id (ru_devices u ! idx) # map rd_endpoint_id (drop (Suc idx) (ru_devices u))"
    using arg_cong [OF id_take_nth_drop [OF assms], of "map rd_endpoint_id"] by simp
  then show "user_eps (ys @ u # zs) = (user_eps ys @ map rd_endpoint_id (take idx (ru_devices u))) @
       [rd_endpoint_id (ru_devices u ! idx)] @ map rd_endpoint_id (drop (Suc idx) (ru_devices u)) @ user_eps zs"
    by simp
  show "user_eps (ys @ u\<lparr>ru_devices := remove_at idx (ru_devices u)\<rparr> # zs) =
       (user_eps ys @ map rd_endpoint_id (take idx (ru_devices u))) @
       map rd_endpoint_id (drop (Suc idx) (ru_devices u)) @ user_eps zs"
    by (simp add: remove_at_def)
qed

lemma revoke_device_wf:
  assumes "b64_canonical L" "wf_roster L r" "revoke_device r uid lab = Inr r'"
  shows "wf_roster L r'"
proof -
  have wf: "wf_names r" "wf_eps L r" using assms(1,2) by (simp_all add: wf_roster_strings)
  obtain ys u zs idx where sp: "ro_users r = ys @ u # zs"
    "position (\<lambda>d. rd_label d = lab) (ru_devices u) = Some idx"
    "r' = r\<lparr>ro_users := ys @ u\<lparr>ru_devices := remove_at idx (ru_devices u)\<rparr> # zs,
        ro_revoked_endpoints := push_new (ro_revoked_endpoints r) (rd_endpoint_id (ru_devices u ! idx)),
        ro_sig := []\<rparr>"
    by (rule revoke_device_Inr [OF wf(1) assms(3)])
  have "idx < length (ru_devices u)" using position_Some [OF sp(2)] by simp
  note eps = user_eps_remove_device [OF this, of ys zs]
  have "wf_eps L r'" by (rule wf_eps_shrink [OF wf(2), unfolded sp(1), OF eps(1)]) (auto simp: sp(3) remove_at_def)
  moreover have "wf_names r'" using wf(1) by (auto simp: wf_names_def sp(1,3))
  ultimately show ?thesis using assms(1) by (simp add: wf_roster_strings)
qed

lemma remove_user_Inr:
  "remove_user r uid rv = Inr r' \<Longrightarrow> \<exists>ys u zs. ro_users r = ys @ u # zs \<and> ru_user_id u = uid \<and>
     r' = r\<lparr>ro_users := ys @ zs, ro_revoked_endpoints :=
       (if rv then foldl push_new (ro_revoked_endpoints r) (map rd_endpoint_id (ru_devices u))
        else ro_revoked_endpoints r), ro_sig := []\<rparr>"
  unfolding remove_user_def Let_def
  by (auto simp: result_simps remove_at_def dest!: position_Some)
    (metis id_take_nth_drop)+

lemma remove_user_wf:
  assumes "b64_canonical L" "wf_roster L r" "remove_user r uid rv = Inr r'"
  shows "wf_roster L r'"
proof -
  have wf: "wf_names r" "wf_eps L r" using assms(1,2) by (simp_all add: wf_roster_strings)
  obtain ys u zs where sp: "ro_users r = ys @ u # zs"
    "r' = r\<lparr>ro_users := ys @ zs, ro_revoked_endpoints :=
       (if rv then foldl push_new (ro_revoked_endpoints r) (map rd_endpoint_id (ru_devices u))
        else ro_revoked_endpoints r), ro_sig := []\<rparr>"
    using remove_user_Inr [OF assms(3)] by blast
  have "user_eps (ro_users r) = user_eps ys @ map rd_endpoint_id (ru_devices u) @ user_eps zs"
    by (simp add: sp(1))
  then have "wf_eps L r'" by (rule wf_eps_shrink [OF wf(2)]) (auto simp: sp(2))
  moreover have "wf_names r'" using wf(1) by (auto simp: wf_names_def sp(1,2))
  ultimately show ?thesis using assms(1) by (simp add: wf_roster_strings)
qed

subsection \<open>What the transforms do to resolution\<close>

lemma wf_active_owner:
  assumes "wf_roster L r" "(e, x) \<in> set (spec_devices L r)" "(e, y) \<in> set (spec_devices L r)"
  shows "x = y"
  using assms unfolding wf_roster_def wf_endpoints_def by (metis map_of_is_SomeI option.inject)

text \<open>Membership with bounded quantifiers, which the simplifier splits over appended lists.\<close>

lemma mem_spec_devices_bex:
  "(e, x) \<in> set (spec_devices L r) \<longleftrightarrow> e \<notin> set (spec_revoked L r) \<and>
     (\<exists>u \<in> set (ro_users r). \<exists>d \<in> set (ru_devices u). e = endpoint_of L (rd_endpoint_id d) \<and> x = resolved u d)"
  unfolding mem_spec_devices by blast

text \<open>Revoking a device removes that endpoint from the active pairs and no other.\<close>

lemma revoke_device_effect:
  assumes "b64_canonical L" "wf_roster L r" "revoke_device r uid lab = Inr r'"
  obtains u d where "u \<in> set (ro_users r)" "ru_user_id u = uid" "d \<in> set (ru_devices u)" "rd_label d = lab"
    "set (spec_revoked L r') = insert (endpoint_of L (rd_endpoint_id d)) (set (spec_revoked L r))"
    "\<And>e x. (e, x) \<in> set (spec_devices L r') \<longleftrightarrow>
       (e, x) \<in> set (spec_devices L r) \<and> e \<noteq> endpoint_of L (rd_endpoint_id d)"
proof -
  have wf: "wf_names r" using assms(2) by (simp add: wf_roster_def)
  obtain ys u zs idx where sp: "ro_users r = ys @ u # zs" "ru_user_id u = uid"
    "position (\<lambda>d. rd_label d = lab) (ru_devices u) = Some idx"
    "r' = r\<lparr>ro_users := ys @ u\<lparr>ru_devices := remove_at idx (ru_devices u)\<rparr> # zs,
        ro_revoked_endpoints := push_new (ro_revoked_endpoints r) (rd_endpoint_id (ru_devices u ! idx)),
        ro_sig := []\<rparr>"
    by (rule revoke_device_Inr [OF wf assms(3)])
  let ?ds = "ru_devices u" let ?d = "ru_devices u ! idx"
  have idx: "idx < length ?ds" "rd_label ?d = lab" using position_Some [OF sp(3)] by simp_all
  have split: "set ?ds = insert ?d (set (remove_at idx ?ds))"
    unfolding remove_at_def
    using arg_cong [OF id_take_nth_drop [OF idx(1)], of set] by auto
  have rev: "set (spec_revoked L r') = insert (endpoint_of L (rd_endpoint_id ?d)) (set (spec_revoked L r))"
    by (auto simp: spec_revoked_set sp(4))
  have res: "resolved (u\<lparr>ru_devices := ds\<rparr>) d = resolved u d" for ds d by (simp add: resolved_def)
  have dev: "(e, x) \<in> set (spec_devices L r') \<longleftrightarrow>
       (e, x) \<in> set (spec_devices L r) \<and> e \<noteq> endpoint_of L (rd_endpoint_id ?d)" for e x
    unfolding mem_spec_devices_bex rev by (auto simp: sp(1,4) res split)
  show thesis
    by (rule that [of u ?d]) (use sp(1,2) idx rev dev in auto)
qed

lemma remove_user_effect:
  assumes "b64_canonical L" "wf_roster L r" "remove_user r uid rv = Inr r'"
  obtains u where "u \<in> set (ro_users r)" "ru_user_id u = uid"
    "set (spec_revoked L r') = set (spec_revoked L r) \<union>
       (if rv then endpoint_of L ` rd_endpoint_id ` set (ru_devices u) else {})"
    "\<And>e x. (e, x) \<in> set (spec_devices L r') \<longleftrightarrow> (e, x) \<in> set (spec_devices L r) \<and> d_user_id x \<noteq> uid"
proof -
  obtain ys u zs where sp: "ro_users r = ys @ u # zs" "ru_user_id u = uid"
    "r' = r\<lparr>ro_users := ys @ zs, ro_revoked_endpoints :=
       (if rv then foldl push_new (ro_revoked_endpoints r) (map rd_endpoint_id (ru_devices u))
        else ro_revoked_endpoints r), ro_sig := []\<rparr>"
    using remove_user_Inr [OF assms(3)] by blast
  have names: "ru_user_id w \<noteq> uid" if "w \<in> set ys \<union> set zs" for w
    using assms(2) that unfolding wf_roster_def wf_names_def sp(1) by (auto simp: sp(2))
  have rev: "set (spec_revoked L r') = set (spec_revoked L r) \<union>
       (if rv then endpoint_of L ` rd_endpoint_id ` set (ru_devices u) else {})"
    by (auto simp: spec_revoked_set sp(3))
  have keep: "endpoint_of L (rd_endpoint_id d) \<noteq> endpoint_of L (rd_endpoint_id d')"
    if "w \<in> set ys \<union> set zs" "d \<in> set (ru_devices w)" "d' \<in> set (ru_devices u)"
      "endpoint_of L (rd_endpoint_id d) \<notin> set (spec_revoked L r)" for w d d'
  proof
    assume eq: "endpoint_of L (rd_endpoint_id d) = endpoint_of L (rd_endpoint_id d')"
    have "w \<in> set (ro_users r)" "u \<in> set (ro_users r)" using that(1) by (auto simp: sp(1))
    then have "(endpoint_of L (rd_endpoint_id d), resolved w d) \<in> set (spec_devices L r)"
      "(endpoint_of L (rd_endpoint_id d), resolved u d') \<in> set (spec_devices L r)"
      unfolding mem_spec_devices using that eq by blast+
    then have "resolved w d = resolved u d'" by (rule wf_active_owner [OF assms(2)])
    with names [OF that(1)] sp(2) show False by (simp add: resolved_def)
  qed
  have dev: "(e, x) \<in> set (spec_devices L r') \<longleftrightarrow> (e, x) \<in> set (spec_devices L r) \<and> d_user_id x \<noteq> uid"
    (is "?l \<longleftrightarrow> ?r") for e x
  proof
    assume ?l
    then show ?r unfolding mem_spec_devices_bex rev using names by (fastforce simp: sp(1,3) resolved_def)
  next
    assume ?r
    then obtain w d where w: "w \<in> set ys \<union> set zs" "d \<in> set (ru_devices w)" "x = resolved w d"
      "e = endpoint_of L (rd_endpoint_id d)" "e \<notin> set (spec_revoked L r)"
      unfolding mem_spec_devices_bex using sp(2) by (auto simp: sp(1) resolved_def)
    then have "e \<notin> set (spec_revoked L r')" using keep [OF w(1,2)] unfolding rev by (auto split: if_splits)
    with w show ?l unfolding mem_spec_devices_bex by (auto simp: sp(3))
  qed
  show thesis by (rule that [of u]) (use sp rev dev in auto)
qed

end
