(* ===== verification/Roster_Props.thy ===== *)
theory Roster_Props
  imports Roster_Mutate
begin

text \<open>
  The theorems of the roster trust kernel (\<open>trust/src/roster/\<close>): which documents a node
  installs, what the installed view answers, how a view degrades, and that the operator's
  transforms, once signed, install everywhere with the effect they promise.
\<close>

subsection \<open>A roster for the witnesses\<close>

definition demo_ep :: "nat \<Rightarrow> string" where
  "demo_ep n = encode_b64u demo_libs (replicate 32 (of_nat n))"

definition demo_device :: "nat \<Rightarrow> string \<Rightarrow> roster_device" where
  "demo_device n l = \<lparr>rd_endpoint_id = demo_ep n, rd_label = l, rd_role = ''primary''\<rparr>"

definition demo_user :: roster_user where
  "demo_user = \<lparr>ru_user_id = ''alice'', ru_display_name = ''Alice'', ru_user_pk = ''pk'', ru_groups = [''eng''],
     ru_devices = [demo_device 1 ''laptop'', demo_device 2 ''phone'']\<rparr>"

definition demo_roster :: roster where
  "demo_roster = \<lparr>ro_format = ROSTER_FORMAT, ro_org_id = ''acme'', ro_serial = 5,
     ro_issued_at = ''tt'', ro_expires_at = ''tttttt'', ro_groups = [''eng''], ro_users = [demo_user],
     ro_revoked_endpoints = [demo_ep 3], ro_successor_root_pk = None, ro_successor_sig = None, ro_sig = []\<rparr>"

definition demo_root :: bytes where
  "demo_root = replicate 32 9"

lemma demo_ep_decodes [simp]: "decode_endpoint_id demo_libs (demo_ep n) = Inr (replicate 32 (of_nat n))"
  by (simp add: demo_ep_def decode_encode_endpoint_id)

lemma demo_ep_endpoint [simp]: "endpoint_of demo_libs (demo_ep n) = replicate 32 (of_nat n)"
  by (simp add: endpoint_of_def)

lemma demo_ep_ok [simp]: "decodes demo_libs (demo_ep n)"
  by (simp add: decodes_def)

lemma demo_parse [simp]: "rfc3339_parse demo_libs s = Some (int (length s))"
  by (simp add: demo_libs_def)

lemma demo_roster_sel [simp]:
  "ro_serial demo_roster = 5" "ro_expires_at demo_roster = ''tttttt''" "ro_users demo_roster = [demo_user]"
  "ro_revoked_endpoints demo_roster = [demo_ep 3]"
  by (simp_all add: demo_roster_def)

lemma demo_wf [simp]: "wf_roster demo_libs demo_roster"
  by (simp add: wf_roster_def wf_names_def wf_endpoints_def demo_roster_def demo_user_def demo_device_def
      user_devices_def spec_devices_def active_pairs_def spec_revoked_def push_new_def)

lemma demo_format [simp]: "format_ok demo_roster"
  by (simp add: format_ok_def demo_roster_def has_rotation_def)

lemma demo_window [simp]: "in_window demo_libs demo_roster 4"
  by (simp add: in_window_def demo_roster_def i64_simps i64_defs SKEW_SECS_def)

subsection \<open>Signing leaves the rules alone\<close>

lemma sig_irrelevant [simp]:
  "wf_roster L (r\<lparr>ro_sig := s\<rparr>) = wf_roster L r" "spec_view L (r\<lparr>ro_sig := s\<rparr>) t = spec_view L r t"
  "format_ok (r\<lparr>ro_sig := s\<rparr>) = format_ok r" "in_window L (r\<lparr>ro_sig := s\<rparr>) now = in_window L r now"
  by (simp_all add: wf_roster_def wf_names_def wf_endpoints_def spec_devices_def spec_revoked_def user_devices_def
      spec_view_def format_ok_def has_rotation_def in_window_def)

lemma in_window_expires: "in_window L r now \<Longrightarrow> rfc3339_parse L (ro_expires_at r) = Some (the (rfc3339_parse L (ro_expires_at r)))"
  by (auto simp: in_window_def)

text \<open>What the operator signs, every node that pins the operator's key installs.\<close>

lemma signed_installs:
  assumes "b64_canonical L" "ed25519_correct L" "jcs_total L" "wf_roster L r" "format_ok r"
    and "installed < ro_serial r" "in_window L r now"
  shows "\<exists>r'. sign L root r = Inr r' \<and>
     validate_for_install_with_anchor L r' (ed_pk L root) installed now =
       Inr (spec_view L r (the (rfc3339_parse L (ro_expires_at r))), \<lparr>adopted_root_pk = None\<rparr>)"
proof -
  obtain r' where r': "sign L root r = Inr r'" using sign_total [OF assms(3)] by blast
  then obtain s where s: "r' = r\<lparr>ro_sig := s\<rparr>" using sign_fields by blast
  have "resolve_verifier L r' (ed_pk L root) = Inr (ed_pk L root, \<lparr>adopted_root_pk = None\<rparr>)"
    by (rule resolve_verifier_direct [OF sign_verifies [OF assms(1,2) r']])
  with s assms in_window_expires [OF assms(7)]
  have "validate_for_install_with_anchor L r' (ed_pk L root) installed now =
      Inr (spec_view L r (the (rfc3339_parse L (ro_expires_at r))), \<lparr>adopted_root_pk = None\<rparr>)"
    by (auto simp: validate_Inr build_view_correct)
  with r' show ?thesis by blast
qed

lemma view_resolve_eqI:
  assumes "wf_roster L r" "wf_roster L r'"
    and "\<And>x. (e, x) \<in> set (spec_devices L r) \<longleftrightarrow> (e, x) \<in> set (spec_devices L r')"
  shows "view_resolve (spec_view L r t) e = view_resolve (spec_view L r' t') e"
proof -
  have "view_resolve (spec_view L r t) e = Some x \<longleftrightarrow> view_resolve (spec_view L r' t') e = Some x" for x
    unfolding view_resolve_spec [OF assms(1)] view_resolve_spec [OF assms(2)]
    using assms(3) [of x] unfolding mem_spec_devices by blast
  then show ?thesis by (metis option.exhaust)
qed

subsection \<open>Installation\<close>

text \<open>
  C26. A roster document is installed exactly when every rule holds: the format tag agrees with the
  presence of the rotation fields; the body verifies under the pinned root, or else the pinned
  root has cross-signed the successor key named in the document and the body verifies under that
  successor (which is then the adopted anchor); the serial is strictly above the installed one;
  the clock is inside the validity window widened by the skew; and the names and endpoints are
  well formed. The view handed on is the one the document describes.
\<close>

theorem install_accepts_iff:
  "validate_for_install_with_anchor L r root installed now = Inr (v, a) \<longleftrightarrow>
     format_ok r \<and>
     ((verify L r root = Inr () \<and> adopted_root_pk a = None) \<or>
      (\<not> is_ok (verify L r root) \<and> (\<exists>pk k s sg. ro_successor_root_pk r = Some pk \<and>
         decode_b64u L pk = Inr k \<and> length k = 32 \<and> ro_successor_sig r = Some s \<and> decode_b64u L s = Inr sg \<and>
         verify_org_rotation L root (ro_org_id r) k sg = Inr () \<and> vk_from_bytes L k \<and>
         verify L r k = Inr () \<and> adopted_root_pk a = Some pk))) \<and>
     installed < ro_serial r \<and> in_window L r now \<and> wf_roster L r \<and>
     (\<exists>expires. rfc3339_parse L (ro_expires_at r) = Some expires \<and> v = spec_view L r expires)"
  unfolding validate_Inr resolve_verifier_Inr build_view_correct by blast

text \<open>
  A refused document reports the first rule it breaks, in the order format, signature, serial,
  validity window, structure; a node therefore never reports a serial or window problem for a
  document whose signature it could not check.
\<close>

theorem install_error_order:
  assumes "validate_for_install_with_anchor L r root installed now = Inl e"
  shows "(\<not> format_ok r \<and> e = BadFormat (ro_format r)) \<or>
     (format_ok r \<and> resolve_verifier L r root = Inl e) \<or>
     (format_ok r \<and> is_ok (resolve_verifier L r root) \<and>
       (if ro_serial r \<le> installed then e = StaleSerial (ro_serial r) installed
        else if rfc3339_parse L (ro_issued_at r) = None \<or> rfc3339_parse L (ro_expires_at r) = None
        then e = BadTimestamp
        else if \<not> in_window L r now then e = OutOfValidity
        else build_view L r (the (rfc3339_parse L (ro_expires_at r))) = Inl e))"
proof -
  have fmt: "format_ok r \<longleftrightarrow> \<not> (ro_format r \<noteq> ROSTER_FORMAT \<and> ro_format r \<noteq> ROSTER_FORMAT_ROTATION) \<and>
      (has_rotation r \<longleftrightarrow> ro_format r = ROSTER_FORMAT_ROTATION)"
    using formats_differ by (auto simp: format_ok_def)
  show ?thesis
  proof (cases "format_ok r \<and> is_ok (resolve_verifier L r root)")
    case False
    with assms fmt show ?thesis
      by (cases "resolve_verifier L r root") (auto simp: validate_for_install_with_anchor_def split: if_splits)
  next
    case True
    with assms fmt show ?thesis
      by (cases "resolve_verifier L r root")
        (auto simp: validate_for_install_with_anchor_def parse_rfc3339_def in_window_def not_less result_simps
          split: if_splits option.splits prod.splits)
  qed
qed

theorem install_error_order_witness:
  "format_ok demo_roster \<and>
   validate_for_install_with_anchor demo_libs (demo_roster\<lparr>ro_format := ''x''\<rparr>) demo_root 0 4 = Inl (BadFormat ''x'') \<and>
   \<not> format_ok (demo_roster\<lparr>ro_format := ''x''\<rparr>)"
proof -
  let ?r = "demo_roster\<lparr>ro_format := ''x''\<rparr>"
  have "validate_for_install_with_anchor demo_libs ?r demo_root 0 4 = Inl (BadFormat ''x'')"
    by (simp add: validate_for_install_with_anchor_def ROSTER_FORMAT_def ROSTER_FORMAT_ROTATION_def)
  with install_error_order [OF this] show ?thesis
    by (auto simp: format_ok_def ROSTER_FORMAT_def ROSTER_FORMAT_ROTATION_def demo_roster_def has_rotation_def)
qed

text \<open>
  What was installed loads again after a restart, to the same view: under the root that was
  pinned at install time (the re-pin of an adopted successor may have failed), and under the
  adopted successor when there is one.
\<close>

theorem installed_roster_reloads:
  assumes "validate_for_install_with_anchor L r root installed now = Inr (v, a)"
  shows "load_installed L r root = Inr v \<and>
     (\<forall>pk. adopted_root_pk a = Some pk \<longrightarrow> (\<exists>k. decode_b64u L pk = Inr k \<and> load_installed L r k = Inr v))"
proof -
  from assms obtain k where fmt: "format_ok r" and k: "resolve_verifier L r root = Inr (k, a)"
    and bv: "\<exists>expires. rfc3339_parse L (ro_expires_at r) = Some expires \<and> build_view L r expires = Inr v"
    unfolding validate_Inr by blast
  have load: "load_installed L r x = Inr v" if "is_ok (resolve_verifier L r x)" for x
    using that fmt bv by (auto simp: load_installed_Inr format_ok_def)
  have "decode_b64u L pk = Inr k" if "adopted_root_pk a = Some pk" for pk
    using k that by (auto simp: resolve_verifier_Inr)
  moreover have "is_ok (resolve_verifier L r k)"
    using resolve_verifier_direct [OF resolve_verifier_body_verifies [OF k]] by simp
  ultimately show ?thesis using load k by simp
qed

definition demo_signed :: roster where
  "demo_signed = demo_roster\<lparr>ro_sig := encode_b64u demo_libs (ed_sign demo_libs demo_root
     (case canonical_bytes demo_libs demo_roster of Inr c \<Rightarrow> c | Inl _ \<Rightarrow> []))\<rparr>"

lemma demo_signed_installs:
  "validate_for_install_with_anchor demo_libs demo_signed (ed_pk demo_libs demo_root) 4 4 =
     Inr (spec_view demo_libs demo_roster 6, \<lparr>adopted_root_pk = None\<rparr>)"
proof -
  have "sign demo_libs demo_root demo_roster = Inr demo_signed"
    using canonical_bytes_total [OF demo_jcs, of demo_roster] by (auto simp: sign_def demo_signed_def)
  then show ?thesis
    using signed_installs [OF demo_b64 demo_ed25519 demo_jcs demo_wf demo_format, of 4 4 demo_root] by auto
qed

theorem installed_roster_reloads_witness:
  "load_installed demo_libs demo_signed (ed_pk demo_libs demo_root) = Inr (spec_view demo_libs demo_roster 6)"
  using installed_roster_reloads [OF demo_signed_installs] by simp

text \<open>
  An installed view resolves an endpoint exactly to the entry the document lists for it, and
  only if the document does not revoke it: revocation wins over membership. No endpoint is both
  resolved and revoked.
\<close>

theorem installed_view_resolves_iff:
  assumes "validate_for_install_with_anchor L r root installed now = Inr (v, a)"
  shows "(view_resolve v e = Some x \<longleftrightarrow>
      (\<exists>u d. u \<in> set (ro_users r) \<and> d \<in> set (ru_devices u) \<and> decode_endpoint_id L (rd_endpoint_id d) = Inr e \<and>
         x = resolved u d \<and> \<not> view_is_revoked v e)) \<and>
     (view_is_revoked v e \<longleftrightarrow> (\<exists>s \<in> set (ro_revoked_endpoints r). decode_endpoint_id L s = Inr e))"
proof -
  from assms obtain t where wf: "wf_roster L r" and v: "v = spec_view L r t"
    by (auto simp: validate_Inr build_view_correct)
  have dec: "decode_endpoint_id L (rd_endpoint_id d) = Inr e \<longleftrightarrow> e = endpoint_of L (rd_endpoint_id d)"
    if "u \<in> set (ro_users r)" "d \<in> set (ru_devices u)" for u d
  proof -
    have "(u, d) \<in> set (user_devices r)" using that by (auto simp: user_devices_def)
    with wf have "decodes L (rd_endpoint_id d)" by (auto simp: wf_roster_def wf_endpoints_def)
    then show ?thesis by (auto simp: decodes_iff)
  qed
  have "decode_endpoint_id L s = Inr e \<longleftrightarrow> e = endpoint_of L s" if "s \<in> set (ro_revoked_endpoints r)" for s
    using that wf by (auto simp: wf_roster_def wf_endpoints_def decodes_iff)
  then have "view_is_revoked v e \<longleftrightarrow> (\<exists>s \<in> set (ro_revoked_endpoints r). decode_endpoint_id L s = Inr e)"
    by (auto simp: view_is_revoked_def v spec_revoked_set)
  moreover have "view_resolve v e = Some x \<longleftrightarrow>
      (\<exists>u d. u \<in> set (ro_users r) \<and> d \<in> set (ru_devices u) \<and> decode_endpoint_id L (rd_endpoint_id d) = Inr e \<and>
         x = resolved u d \<and> \<not> view_is_revoked v e)"
    unfolding v view_resolve_spec [OF wf] using dec by (auto simp: view_is_revoked_def)
  ultimately show ?thesis by blast
qed

theorem installed_view_resolves_iff_witness:
  "view_is_revoked (spec_view demo_libs demo_roster 6) (replicate 32 3) \<longleftrightarrow>
     (\<exists>s \<in> set (ro_revoked_endpoints demo_signed). decode_endpoint_id demo_libs s = Inr (replicate 32 3))"
  using installed_view_resolves_iff [OF demo_signed_installs] by blast

subsection \<open>What an installed view answers\<close>

text \<open>
  The dial list of a user is complete, free of duplicates and ordered: exactly the endpoints
  that resolve to that user with their roles, primaries first, then mirrors, then the rest, ties
  broken by endpoint; it never contains a revoked endpoint.
\<close>

theorem devices_for_user_spec:
  assumes "validate_for_install_with_anchor L r root installed now = Inr (v, a)"
  shows "set (devices_for_user v u) = {(e, d_role x) | e x. view_resolve v e = Some x \<and> d_user_id x = u} \<and>
     distinct (map fst (devices_for_user v u)) \<and>
     sorted (map (\<lambda>(e, role). (role_rank role, e)) (devices_for_user v u)) \<and>
     (\<forall>(e, role) \<in> set (devices_for_user v u). \<not> view_is_revoked v e)"
proof -
  from assms obtain t where wf: "wf_roster L r" and v: "v = spec_view L r t"
    by (auto simp: validate_Inr build_view_correct)
  have dist: "distinct (al_keys (v_devices v))" using wf by (simp add: v wf_roster_def wf_endpoints_def)
  then have mem: "(e, x) \<in> set (v_devices v) \<longleftrightarrow> view_resolve v e = Some x" for e x
    by (simp add: view_resolve_def)
  have "mset (map fst (devices_for_user v u)) = mset (map fst (filter (\<lambda>(_, d). d_user_id d = u) (v_devices v)))"
    by (simp add: devices_for_user_def case_prod_beta image_mset.compositionality comp_def)
  then have "distinct (map fst (devices_for_user v u))"
    using dist by (metis distinct_map_filter mset_eq_imp_distinct_iff)
  moreover have "\<not> view_is_revoked v e" if "view_resolve v e = Some x" for e x
    using that view_revoked_not_resolved [OF wf, of t e] v by auto
  ultimately show ?thesis
    by (auto simp: devices_for_user_set mem) (simp add: devices_for_user_def)
qed

theorem devices_for_user_spec_witness:
  "distinct (map fst (devices_for_user (spec_view demo_libs demo_roster 6) ''alice''))"
  using devices_for_user_spec [OF demo_signed_installs, of "''alice''"] by blast

text \<open>
  Time only degrades a roster: with the same view, grace, confirmation and staleness bound,
  the effective state at a later instant is at least as severe, and it is \<open>Approved\<close> exactly while
  the clock is within the expiry and the last confirmation within the staleness bound.
\<close>

theorem effective_state_degrades:
  assumes "now \<le> now'"
  shows "effective_state v now g lc m \<le> effective_state v now' g lc m \<and>
     (effective_state v now g lc m = Approved \<longleftrightarrow> now \<le> v_expires_at_epoch v \<and>
        (case lc of None \<Rightarrow> True | Some c \<Rightarrow> i64_saturating_sub now c \<le> m))"
proof -
  have "effective_state v now g lc m \<le> effective_state v now' g lc m"
    unfolding effective_state_max
    using state_mono [OF assms, of v g] staleness_state_mono [OF assms, of g lc m] by (rule max.mono)
  moreover have "effective_state v now g lc m = Approved \<longleftrightarrow>
      state v now g = Approved \<and> staleness_state now g lc m = Approved"
    unfolding effective_state_max by (metis max.bounded_iff le_Approved)
  moreover have "state v now g = Approved \<longleftrightarrow> now \<le> v_expires_at_epoch v"
    by (simp add: state_def)
  moreover have "staleness_state now g lc m = Approved \<longleftrightarrow>
      (case lc of None \<Rightarrow> True | Some c \<Rightarrow> i64_saturating_sub now c \<le> m)"
    by (simp add: staleness_state_def Let_def split: option.splits)
  ultimately show ?thesis by simp
qed

theorem effective_state_degrades_witness:
  "effective_state (spec_view demo_libs demo_roster 6) 5 10 (Some 4) 100 = Approved \<and>
   Approved \<le> effective_state (spec_view demo_libs demo_roster 6) 7 10 (Some 4) 100"
  using effective_state_degrades [of 5 7 "spec_view demo_libs demo_roster 6" 10 "Some 4" 100]
  by (simp add: i64_simps i64_defs i64_saturating_sub_def)

subsection \<open>The operator's transforms, signed and installed\<close>

text \<open>
  Enrolling a member (or adding a device to one) in a well-formed roster and signing the result
  gives a document every node pinning the operator's key installs, and in the installed view the
  enrolled device resolves to the enrolled user.
\<close>

theorem enrolled_device_is_admitted:
  assumes "b64_canonical L" "ed25519_correct L" "jcs_total L" "wf_roster L r" "format_ok r" "decodes L ep"
    and "upsert_member r uid dn pk gs ep l = Inr r1" "installed < ro_serial r" "in_window L r now"
  shows "\<exists>r2 v a x. sign L root r1 = Inr r2 \<and>
     validate_for_install_with_anchor L r2 (ed_pk L root) installed now = Inr (v, a) \<and>
     view_resolve v (endpoint_of L ep) = Some x \<and> d_user_id x = uid"
proof -
  from assms(7) have same: "ro_serial r1 = ro_serial r" "in_window L r1 now = in_window L r now"
    "format_ok r1 = format_ok r"
    by (auto simp: upsert_member_Inr in_window_def format_ok_def has_rotation_def)
  have "wf_roster L r1" by (rule upsert_wf [OF assms(1,4,6,7)])
  then obtain r2 where
    "sign L root r1 = Inr r2"
    "validate_for_install_with_anchor L r2 (ed_pk L root) installed now =
       Inr (spec_view L r1 (the (rfc3339_parse L (ro_expires_at r1))), \<lparr>adopted_root_pk = None\<rparr>)"
    using signed_installs [OF assms(1-3), of r1 installed now root] assms same by auto
  then show ?thesis using upsert_resolves [OF assms(1,4,6,7)] by blast
qed

theorem enrolled_device_is_admitted_witness:
  "\<exists>r1 r2 v a x. upsert_member demo_roster ''bob'' ''Bob'' ''pk2'' [''ops''] (demo_ep 4) ''desk'' = Inr r1 \<and>
     sign demo_libs demo_root r1 = Inr r2 \<and>
     validate_for_install_with_anchor demo_libs r2 (ed_pk demo_libs demo_root) 4 4 = Inr (v, a) \<and>
     view_resolve v (replicate 32 4) = Some x \<and> d_user_id x = ''bob''"
proof -
  have "upsert_guards demo_roster ''bob'' [''ops''] (demo_ep 4)"
    by (simp add: upsert_guards_def demo_roster_def demo_user_def demo_device_def demo_ep_def encode_b64u_def
        demo_libs_def)
  then obtain r1 where r1: "upsert_member demo_roster ''bob'' ''Bob'' ''pk2'' [''ops''] (demo_ep 4) ''desk'' = Inr r1"
    using upsert_member_Inr by blast
  with enrolled_device_is_admitted [OF demo_b64 demo_ed25519 demo_jcs demo_wf demo_format demo_ep_ok r1, of 4 4]
  show ?thesis by auto
qed

text \<open>
  Revoking a device, signing and installing cuts exactly that device: the endpoint labelled so
  in the user's entry is revoked and resolves to nobody, and every other endpoint resolves as
  before.
\<close>

theorem revoked_device_is_cut:
  assumes "b64_canonical L" "ed25519_correct L" "jcs_total L" "wf_roster L r" "format_ok r"
    and "revoke_device r uid lab = Inr r1" "installed < ro_serial r" "in_window L r now"
  shows "\<exists>r2 v a u d. sign L root r1 = Inr r2 \<and>
     validate_for_install_with_anchor L r2 (ed_pk L root) installed now = Inr (v, a) \<and>
     u \<in> set (ro_users r) \<and> ru_user_id u = uid \<and> d \<in> set (ru_devices u) \<and> rd_label d = lab \<and>
     view_is_revoked v (endpoint_of L (rd_endpoint_id d)) \<and>
     (\<forall>e. view_resolve v e = (if e = endpoint_of L (rd_endpoint_id d) then None
            else view_resolve (spec_view L r t) e))"
proof -
  from assms(6) have same: "ro_serial r1 = ro_serial r" "in_window L r1 now = in_window L r now"
    "format_ok r1 = format_ok r"
    by (auto simp: revoke_device_def Let_def result_simps in_window_def format_ok_def has_rotation_def)
  have wf: "wf_roster L r1" by (rule revoke_device_wf [OF assms(1,4,6)])
  then obtain r2 where r2:
    "sign L root r1 = Inr r2"
    "validate_for_install_with_anchor L r2 (ed_pk L root) installed now =
       Inr (spec_view L r1 (the (rfc3339_parse L (ro_expires_at r1))), \<lparr>adopted_root_pk = None\<rparr>)"
    using signed_installs [OF assms(1-3), of r1 installed now root] assms same by auto
  obtain u d where d: "u \<in> set (ro_users r)" "ru_user_id u = uid" "d \<in> set (ru_devices u)" "rd_label d = lab"
    "set (spec_revoked L r1) = insert (endpoint_of L (rd_endpoint_id d)) (set (spec_revoked L r))"
    "\<And>e x. (e, x) \<in> set (spec_devices L r1) \<longleftrightarrow>
       (e, x) \<in> set (spec_devices L r) \<and> e \<noteq> endpoint_of L (rd_endpoint_id d)"
    by (rule revoke_device_effect [OF assms(1,4,6)]) blast
  let ?v = "spec_view L r1 (the (rfc3339_parse L (ro_expires_at r1)))"
  have rev: "view_is_revoked ?v (endpoint_of L (rd_endpoint_id d))" by (simp add: view_is_revoked_def d(5))
  then have "\<forall>e. view_resolve ?v e = (if e = endpoint_of L (rd_endpoint_id d) then None
            else view_resolve (spec_view L r t) e)"
    using view_revoked_not_resolved [OF wf rev] view_resolve_eqI [OF wf assms(4)] d(6) by simp
  with r2 d rev show ?thesis by blast
qed

theorem revoked_device_is_cut_witness:
  "\<exists>r1 r2 v a. revoke_device demo_roster ''alice'' ''phone'' = Inr r1 \<and> sign demo_libs demo_root r1 = Inr r2 \<and>
     validate_for_install_with_anchor demo_libs r2 (ed_pk demo_libs demo_root) 4 4 = Inr (v, a) \<and>
     view_is_revoked v (replicate 32 2)"
proof -
  obtain r1 where r1: "revoke_device demo_roster ''alice'' ''phone'' = Inr r1"
    by (simp add: revoke_device_def demo_user_def demo_device_def Let_def)
  with revoked_device_is_cut [OF demo_b64 demo_ed25519 demo_jcs demo_wf demo_format r1, of 4 4 demo_root]
  show ?thesis by (fastforce simp: demo_user_def demo_device_def)
qed

text \<open>
  Removing a person, signing and installing: nobody resolves to that user any more and every
  other resolution is unchanged; with the departing flag each of the person's devices is revoked,
  without it (a key rotation) the revocation list stays as it was, so the same hardware can enrol
  again.
\<close>

theorem removed_user_is_gone:
  assumes "b64_canonical L" "ed25519_correct L" "jcs_total L" "wf_roster L r" "format_ok r"
    and "remove_user r uid rv = Inr r1" "installed < ro_serial r" "in_window L r now"
  shows "\<exists>r2 v a u. sign L root r1 = Inr r2 \<and>
     validate_for_install_with_anchor L r2 (ed_pk L root) installed now = Inr (v, a) \<and>
     u \<in> set (ro_users r) \<and> ru_user_id u = uid \<and>
     (\<forall>e x. view_resolve v e = Some x \<longleftrightarrow> view_resolve (spec_view L r t) e = Some x \<and> d_user_id x \<noteq> uid) \<and>
     (\<forall>e. view_is_revoked v e \<longleftrightarrow> view_is_revoked (spec_view L r t) e \<or>
        (rv \<and> (\<exists>d \<in> set (ru_devices u). e = endpoint_of L (rd_endpoint_id d))))"
proof -
  from assms(6) have same: "ro_serial r1 = ro_serial r" "in_window L r1 now = in_window L r now"
    "format_ok r1 = format_ok r"
    by (auto simp: remove_user_def Let_def result_simps in_window_def format_ok_def has_rotation_def)
  have wf: "wf_roster L r1" by (rule remove_user_wf [OF assms(1,4,6)])
  then obtain r2 where r2:
    "sign L root r1 = Inr r2"
    "validate_for_install_with_anchor L r2 (ed_pk L root) installed now =
       Inr (spec_view L r1 (the (rfc3339_parse L (ro_expires_at r1))), \<lparr>adopted_root_pk = None\<rparr>)"
    using signed_installs [OF assms(1-3), of r1 installed now root] assms same by auto
  obtain u where u: "u \<in> set (ro_users r)" "ru_user_id u = uid"
    "set (spec_revoked L r1) = set (spec_revoked L r) \<union>
       (if rv then endpoint_of L ` rd_endpoint_id ` set (ru_devices u) else {})"
    "\<And>e x. (e, x) \<in> set (spec_devices L r1) \<longleftrightarrow> (e, x) \<in> set (spec_devices L r) \<and> d_user_id x \<noteq> uid"
    by (rule remove_user_effect [OF assms(1,4,6)]) blast
  let ?v = "spec_view L r1 (the (rfc3339_parse L (ro_expires_at r1)))"
  have "\<forall>e x. view_resolve ?v e = Some x \<longleftrightarrow> view_resolve (spec_view L r t) e = Some x \<and> d_user_id x \<noteq> uid"
    unfolding view_resolve_spec [OF wf] view_resolve_spec [OF assms(4)]
    using u(4) unfolding mem_spec_devices by blast
  moreover have "\<forall>e. view_is_revoked ?v e \<longleftrightarrow> view_is_revoked (spec_view L r t) e \<or>
        (rv \<and> (\<exists>d \<in> set (ru_devices u). e = endpoint_of L (rd_endpoint_id d)))"
    by (auto simp: view_is_revoked_def u(3))
  ultimately show ?thesis using r2 u(1,2) by blast
qed

theorem removed_user_is_gone_witness:
  "\<exists>r1 r2 v a. remove_user demo_roster ''alice'' True = Inr r1 \<and> sign demo_libs demo_root r1 = Inr r2 \<and>
     validate_for_install_with_anchor demo_libs r2 (ed_pk demo_libs demo_root) 4 4 = Inr (v, a) \<and>
     view_is_revoked v (replicate 32 1) \<and> view_is_revoked v (replicate 32 2)"
proof -
  obtain r1 where r1: "remove_user demo_roster ''alice'' True = Inr r1"
    by (simp add: remove_user_def demo_user_def Let_def)
  with removed_user_is_gone [OF demo_b64 demo_ed25519 demo_jcs demo_wf demo_format r1, of 4 4 demo_root]
  show ?thesis by (fastforce simp: demo_user_def demo_device_def)
qed

subsection \<open>Signatures\<close>

text \<open>
  The signing input of a roster fixes every field but the signature itself: two rosters with
  the same input are equal up to \<open>sig\<close>, and setting \<open>sig\<close> does not change the input.
\<close>

theorem signing_input_covers_all_fields:
  "without_sig (roster_to_value r) = without_sig (roster_to_value r') \<longleftrightarrow> r\<lparr>ro_sig := s\<rparr> = r'\<lparr>ro_sig := s\<rparr>"
  using without_sig_inj without_sig_upd by metis

text \<open>
  The signed statements of the mesh are never confusable: no introduction, root rotation,
  device revocation or device binding shares its signed bytes with a statement of another kind,
  whatever their fields.
\<close>

theorem statements_are_domain_separated:
  "org_rotation_preimage o1 k1 \<noteq> device_revocation_preimage u2 d2 t2 \<and>
   org_rotation_preimage o1 k1 \<noteq> device_binding_preimage u3 d3 \<and>
   device_revocation_preimage u2 d2 t2 \<noteq> device_binding_preimage u3 d3 \<and>
   introduce_preimage a4 b4 c4 \<noteq> org_rotation_preimage o1 k1 \<and>
   introduce_preimage a4 b4 c4 \<noteq> device_revocation_preimage u2 d2 t2 \<and>
   introduce_preimage a4 b4 c4 \<noteq> device_binding_preimage u3 d3"
  unfolding preimage_defs append_assoc using domains_differ by metis

end
