(* ===== verification/Sever_Props.thy ===== *)
theory Sever_Props
  imports Sever Session_Props Roster_Props
begin

text \<open>
  The theorems about severing: what a completed roster install, revoke or staleness sweep leaves
  running, in every interleaving with connections and sessions being admitted.
\<close>

subsection \<open>A run for the witnesses\<close>

definition demo_peer :: "conn \<Rightarrow> bytes" where
  "demo_peer c = replicate 32 1"

definition demo_entry :: peer_entry where
  "demo_entry = \<lparr>pe_endpoint_id = replicate 32 1, pe_nickname = ''bob'', pe_services = [], pe_paired_at = Some ''t'',
     pe_user_id = Some ''b64u:bob'', pe_last_addr = None\<rparr>"

definition demo_store :: peer_store where
  "demo_store = (store_open (\<lambda>_. False))\<lparr>ps_peers := [(replicate 32 1, Row demo_entry)]\<rparr>"

definition demo_gate :: composed_gate where
  "demo_gate = \<lparr>cg_roster = rg_empty, cg_pairs = demo_store\<rparr>"

lemma demo_gate_view: "rg_view (cg_roster demo_gate) = None"
  by (simp add: demo_gate_def rg_empty_def)

lemma demo_gate_roster [simp]: "rg_resolve (cg_roster demo_gate) now e = None" "rg_is_revoked (cg_roster demo_gate) e = False"
  by (simp_all add: rg_resolve_def rg_is_revoked_def demo_gate_view)

lemma demo_gate_admission [simp]: "store_admission (cg_pairs demo_gate) (replicate 32 1) = Admitted demo_entry"
  by (simp add: store_admission_def decide_admission_def demo_gate_def demo_store_def store_open_def with_table_def
      demo_entry_def)

lemma demo_gate_reads [simp]:
  "cg_resolve demo_gate now (demo_peer c) = Some demo_identity" "cg_roster_user demo_gate now (demo_peer c) = None"
  "\<not> cg_should_sever_now demo_gate (demo_peer c) None"
  by (simp_all add: cg_resolve_def Let_def identity_of_def demo_entry_def demo_identity_def demo_peer_def
      cg_roster_user_def rg_roster_user_resolve cg_should_sever_now_def allowlist_is_revoked_def is_refused_def
      roster_identity_revoked_def)

abbreviation demo_w0 :: world where "demo_w0 \<equiv> w_init demo_gate demo_live"

definition demo_w1 :: world where
  "demo_w1 = demo_w0\<lparr>w_conn := (w_conn demo_w0)(0 := Accepted)\<rparr>"
definition demo_w2 :: world where
  "demo_w2 = demo_w1\<lparr>w_conn := (w_conn demo_w1)(0 := Reading None)\<rparr>"
definition demo_w3 :: world where
  "demo_w3 = demo_w2\<lparr>w_conn := (w_conn demo_w2)(0 := Serving 0 False), w_reg := demo_registry\<rparr>"
definition demo_w4 :: world where
  "demo_w4 = demo_w3\<lparr>w_stream := (w_stream demo_w3)(0 := Snapped 0 demo_live None)\<rparr>"
definition demo_w5 :: world where
  "demo_w5 = demo_w4\<lparr>w_stream := (w_stream demo_w4)(0 := Identified 0 demo_live None demo_identity)\<rparr>"
definition demo_w6 :: world where
  "demo_w6 = demo_w5\<lparr>w_stream := (w_stream demo_w5)(0 := Reread 0 demo_live None demo_identity)\<rparr>"
definition demo_w7 :: world where
  "demo_w7 = demo_w6\<lparr>w_stream := (w_stream demo_w6)(0 := Promoted 0 demo_live demo_identity), w_reg := demo_registry,
     w_conn := (w_conn demo_w6)(0 := Serving 0 False)\<rparr>"

definition demo_registry2 :: conn_registry where
  "demo_registry2 = snd (admit_session demo_registry 0 (identity_principals demo_libs demo_identity) True)"

definition demo_session :: running where
  "demo_session = \<lparr>rs_reg = 0, rs_conn = 0, rs_ident = demo_identity, rs_name = ''kb''\<rparr>"

definition demo_w8 :: world where
  "demo_w8 = demo_w7\<lparr>w_stream := (w_stream demo_w7)(0 := Off), w_reg := demo_registry2, w_running := [demo_session]\<rparr>"

lemmas demo_worlds = demo_w1_def demo_w2_def demo_w3_def demo_w4_def demo_w5_def demo_w6_def demo_w7_def w_init_def

lemma demo_register: "register_checked cr_new 0 e None (\<lambda>e. cg_should_sever_now demo_gate e None) =
    (Some 0, demo_registry)" if "e = demo_peer 0"
proof -
  have "\<not> cg_should_sever_now demo_gate (replicate 32 1) None" using demo_gate_reads(3) by (simp add: demo_peer_def)
  with that show ?thesis by (simp add: register_checked_def demo_registry_def cr_new_def Let_def demo_peer_def)
qed

lemma demo_reach: "reach demo_libs demo_peer demo_gate demo_live demo_w8"
proof -
  let ?step = "step demo_libs demo_peer"
  have s1: "?step demo_w0 demo_w1" unfolding demo_w1_def by (rule step.accept) (simp_all add: w_init_def)
  have s2: "?step demo_w1 demo_w2" unfolding demo_w2_def
    using step.read_user [of demo_w1 0 demo_libs demo_peer] by (simp add: demo_w1_def w_init_def)
  have s3: "?step demo_w2 demo_w3"
  proof -
    have "w_conn demo_w2 0 = Reading None" "seq_ok (w_reg demo_w2)"
      "register_checked (w_reg demo_w2) 0 (demo_peer 0) None (\<lambda>e. cg_should_sever_now (w_gate demo_w2) e None) =
        (Some 0, demo_registry)"
      by (simp_all add: demo_worlds seq_ok_def cr_new_def [THEN arg_cong, of cr_seq] demo_register)
    from step.register [where w = demo_w2 and c = 0 and u = None and peer = demo_peer and i = 0 and r' = demo_registry and L = demo_libs, OF this]
    show ?thesis unfolding demo_w3_def by simp
  qed
  have s4: "?step demo_w3 demo_w4"
    using step.snapshot [of demo_w3 0 0 False 0 demo_libs demo_peer] by (simp add: demo_w4_def demo_worlds)
  have s5: "?step demo_w4 demo_w5" unfolding demo_w5_def by (rule step.identify) (simp_all add: demo_worlds)
  have "w_stream demo_w5 0 = Identified 0 demo_live None demo_identity"
    "None = (case None of None \<Rightarrow> cg_roster_user (w_gate demo_w5) (w_now demo_w5) (demo_peer 0) | Some u \<Rightarrow> Some u)"
    by (simp add: demo_worlds) (simp add: demo_worlds)
  then have s6: "?step demo_w5 demo_w6" unfolding demo_w6_def by (rule step.reread)
  have s7: "?step demo_w6 demo_w7" unfolding demo_w7_def
    by (rule step.promote [where pr = False and user = None and i = 0]) (simp_all add: demo_worlds admit_roster_user_def)
  obtain d f where sel: "select_service demo_init [''kb''] = (d, f)" by fastforce
  then have "d = Selected ''kb''" using select_service_decision [of demo_init "[''kb'']"] demo_request by simp
  moreover have "allowed_services demo_libs (ls_services demo_live) (Some demo_identity) = [''kb'']"
    using demo_admits by (simp add: allowed_services_def demo_live_def)
  moreover have "admit_session demo_registry 0 (identity_principals demo_libs demo_identity) True = (True, demo_registry2)"
    by (simp add: demo_registry2_def admit_session_def demo_registry_def register_checked_def Let_def cr_new_def)
  ultimately have s8: "?step demo_w7 demo_w8" unfolding demo_w8_def demo_session_def
    using sel step.admit [where w = demo_w7 and s = 0 and c = 0 and snap = demo_live and ident = demo_identity and i = 0 and
        pr = False and L = demo_libs and init = demo_init and name = "''kb''" and frame = f and r' = demo_registry2 and
        peer = demo_peer]
    by (simp add: demo_worlds still_admits_def)
  show ?thesis
    by (meson reach.start reach.next_step s1 s2 s3 s4 s5 s6 s7 s8)
qed

lemma demo_live_distinct: "distinct (al_keys (ls_services demo_live))"
  by (simp add: demo_live_def)

subsection \<open>Swap, then sever\<close>

text \<open>
  C1. When no roster install is between its swap and its sever, whatever connections and sessions
  were being admitted meanwhile: every registered connection that is still open belongs to an
  endpoint the installed roster does not revoke, and if it was tracked as roster-resolved, to an
  endpoint the roster still lists; and no session runs on an open connection of a revoked endpoint.
\<close>

theorem roster_install_severs:
  assumes "reach L peer g live w" "distinct (al_keys (ls_services live))"
    and "\<forall>v. w_admin w \<noteq> Install_Swapped v" "rg_view (cg_roster (w_gate w)) = Some v"
  shows "(\<forall>i t. map_of (cr_inner (w_reg w)) i = Some t \<and> t_conn t \<notin> w_closed w \<longrightarrow>
       t_endpoint_id t = peer (t_conn t) \<and> \<not> view_is_revoked v (peer (t_conn t)) \<and>
       (t_roster_user t \<noteq> None \<longrightarrow> view_resolve v (peer (t_conn t)) \<noteq> None)) \<and>
     (\<forall>s \<in> set (w_running w). rs_conn s \<notin> w_closed w \<longrightarrow> \<not> view_is_revoked v (peer (rs_conn s)))"
proof -
  have inv: "conn_ok peer w" "roster_ok w" "session_ok L w" using reach_invariants [OF assms(1,2)] by simp_all
  have entry: "t_endpoint_id t = peer (t_conn t) \<and> \<not> view_is_revoked v (peer (t_conn t)) \<and>
       (t_roster_user t \<noteq> None \<longrightarrow> view_resolve v (peer (t_conn t)) \<noteq> None)"
    if t: "map_of (cr_inner (w_reg w)) i = Some t" "t_conn t \<notin> w_closed w" for i t
    using roster_ok_entry [OF inv(2) _ assms(4) t] conn_ok_entry [OF inv(1) t(1)] assms(3)
    by (auto simp: should_sever_def view_is_revoked_def device_endpoints_def view_resolve_def map_of_eq_None_iff)
  moreover have "\<not> view_is_revoked v (peer (rs_conn s))" if "s \<in> set (w_running w)" "rs_conn s \<notin> w_closed w" for s
    using session_ok_entry [OF inv(3) that] entry that(2) by fastforce
  ultimately show ?thesis by blast
qed

text \<open>The witness continues the run: the session is running, then a roster is installed.\<close>

definition demo_view :: roster_view where
  "demo_view = spec_view demo_libs demo_roster 6"

definition demo_w9 :: world where "demo_w9 = demo_w8\<lparr>w_admin := Install_Ready demo_view\<rparr>"
definition demo_w10 :: world where
  "demo_w10 = demo_w9\<lparr>w_admin := Install_Swapped demo_view, w_gate := (w_gate demo_w9)\<lparr>cg_roster :=
     fst (install_roster_view_and_sever (w_roster demo_w9) (w_reg demo_w9) demo_view)\<rparr>\<rparr>"
definition demo_w11 :: world where
  "demo_w11 = demo_w10\<lparr>w_admin := Quiet, w_closed := w_closed demo_w10 \<union>
     set (snd (install_roster_view_and_sever (w_roster demo_w10) (w_reg demo_w10) demo_view))\<rparr>"

lemma demo_reach_install: "reach demo_libs demo_peer demo_gate demo_live demo_w11"
proof -
  have "step demo_libs demo_peer demo_w8 demo_w9" unfolding demo_w9_def
    by (rule step.install_begin) (simp add: demo_w8_def demo_worlds)
  moreover have "step demo_libs demo_peer demo_w9 demo_w10" unfolding demo_w10_def
    by (rule step.install_swap) (simp add: demo_w9_def)
  moreover have "step demo_libs demo_peer demo_w10 demo_w11" unfolding demo_w11_def
    by (rule step.install_sever) (simp add: demo_w10_def)
  ultimately show ?thesis using demo_reach by (meson reach.next_step)
qed

theorem roster_install_severs_witness:
  "demo_session \<in> set (w_running demo_w11) \<and> 0 \<notin> w_closed demo_w11 \<and> \<not> view_is_revoked demo_view (demo_peer 0)"
proof -
  have "\<forall>v. w_admin demo_w11 \<noteq> Install_Swapped v" "rg_view (cg_roster (w_gate demo_w11)) = Some demo_view"
    by (simp_all add: demo_w11_def demo_w10_def)
  note facts = roster_install_severs [OF demo_reach_install demo_live_distinct this]
  have s: "demo_session \<in> set (w_running demo_w11)" by (simp add: demo_w11_def demo_w10_def demo_w9_def demo_w8_def)
  have "w_reg demo_w10 = demo_registry2" by (simp add: demo_w10_def demo_w9_def demo_w8_def)
  moreover have "w_closed demo_w10 = {}" by (simp add: demo_w10_def demo_w9_def demo_w8_def demo_worlds)
  moreover have "replicate 32 (1 :: byte) \<notin> set (v_revoked demo_view)"
    by (simp add: demo_view_def spec_revoked_set)
  ultimately have "0 \<notin> w_closed demo_w11"
    by (simp add: demo_w11_def install_roster_view_and_sever_def Let_def sever_matching_def should_sever_def
        demo_registry2_def admit_session_def demo_registry_def register_checked_def cr_new_def)
  with facts s show ?thesis by (auto simp: demo_session_def)
qed

text \<open>
  C2. A revoke whose sever pass ran reaches every session, in every interleaving with connections
  and sessions being admitted: when the pass has closed its connections, no session admitted as one
  of the revoked principals runs on an open connection, also not one that was being admitted while
  the registry was swapped; and from then on such a session runs on an open connection only if some
  registry live after the revoke admits its caller to its service. Registry rebuilds that
  sever nothing (\<open>unregister_service\<close>, \<open>unregister_ephemeral\<close>, a re-registration) let running sessions
  finish: they are steps of the runs here, and the claim is about revokes only. A sever pass that
  fails on a store read is reported by the verb and not covered.
\<close>

theorem revoke_reaches_every_session:
  assumes "reach L peer g live w" "distinct (al_keys (ls_services live))" "w_admin w = Revoke_Swapped ps"
    and "sever_principals L (cg_pairs (w_gate w)) (cg_roster (w_gate w)) (w_reg w) ps = Inr cs"
    and "w' = w\<lparr>w_admin := Quiet, w_closed := w_closed w \<union> set cs\<rparr>" "(step L peer)\<^sup>*\<^sup>* w' w''"
  shows "step L peer w w' \<and>
     (\<forall>s \<in> set (w_running w'). set (identity_principals L (rs_ident s)) \<inter> set ps \<noteq> {} \<longrightarrow> rs_conn s \<in> w_closed w') \<and>
     (\<forall>s \<in> set (w_running w''). set (identity_principals L (rs_ident s)) \<inter> set ps \<noteq> {} \<longrightarrow> rs_conn s \<notin> w_closed w'' \<longrightarrow>
       (\<exists>v e. (step L peer)\<^sup>*\<^sup>* w' v \<and> (step L peer)\<^sup>*\<^sup>* v w'' \<and>
          map_of (ls_services (w_live v)) (rs_name s) = Some e \<and> caller_admits L (rs_ident s) (se_allow e)))"
proof -
  have inv: "conn_ok peer w" "session_ok L w" using reach_invariants [OF assms(1,2)] by simp_all
  have s1: "step L peer w w'" unfolding assms(5) by (rule step.revoke_sever [OF assms(3,4)])
  have cut: "rs_conn s \<in> w_closed w'"
    if "s \<in> set (w_running w')" "set (identity_principals L (rs_ident s)) \<inter> set ps \<noteq> {}" for s
    using sever_principals_hits [OF inv, of s _ ps] that assms(4) unfolding assms(5) by fastforce
  have "\<exists>v e. (step L peer)\<^sup>*\<^sup>* w' v \<and> (step L peer)\<^sup>*\<^sup>* v w'' \<and>
       map_of (ls_services (w_live v)) (rs_name s) = Some e \<and> caller_admits L (rs_ident s) (se_allow e)"
    if "s \<in> set (w_running w'')" "set (identity_principals L (rs_ident s)) \<inter> set ps \<noteq> {}" "rs_conn s \<notin> w_closed w''" for s
    using run_sessions [OF assms(6) reach.next_step [OF assms(1) s1] assms(2) that(1,3)] cut [OF _ that(2)]
    unfolding authorized_def by blast
  with s1 cut show ?thesis by blast
qed

text \<open>The witness revokes the person of the running session: her connection is closed.\<close>

definition demo_w12 :: world where
  "demo_w12 = demo_w8\<lparr>w_live := live_store (w_live demo_w8) [], w_admin := Revoke_Swapped [''b64u:bob'']\<rparr>"

theorem revoke_reaches_every_session_witness:
  "\<exists>cs. sever_principals demo_libs (cg_pairs (w_gate demo_w12)) (cg_roster (w_gate demo_w12)) (w_reg demo_w12)
      [''b64u:bob''] = Inr cs \<and> demo_session \<in> set (w_running demo_w12) \<and> rs_conn demo_session \<notin> w_closed demo_w12 \<and>
      rs_conn demo_session \<in> w_closed demo_w12 \<union> set cs"
proof -
  have "step demo_libs demo_peer demo_w8 demo_w12" unfolding demo_w12_def
    by (rule step.revoke_swap) (simp_all add: demo_w8_def demo_worlds)
  then have r: "reach demo_libs demo_peer demo_gate demo_live demo_w12" using demo_reach by (meson reach.next_step)
  have a: "w_admin demo_w12 = Revoke_Swapped [''b64u:bob'']" "demo_session \<in> set (w_running demo_w12)"
    "rs_conn demo_session \<notin> w_closed demo_w12"
    by (simp_all add: demo_w12_def demo_w8_def demo_worlds)
  have "\<exists>cs. sever_principals demo_libs (cg_pairs (w_gate demo_w12)) (cg_roster (w_gate demo_w12)) (w_reg demo_w12)
      [''b64u:bob''] = Inr cs"
    by (simp add: sever_principals_def demo_w12_def demo_w8_def demo_worlds endpoints_for_principal_def store_list_def
        demo_gate_def demo_store_def store_open_def demo_entry_def with_table_def result_simps rg_empty_def)
  then obtain cs where cs: "sever_principals demo_libs (cg_pairs (w_gate demo_w12)) (cg_roster (w_gate demo_w12)) (w_reg demo_w12)
      [''b64u:bob''] = Inr cs"
    by blast
  have "''b64u:bob'' \<in> set (identity_principals demo_libs (rs_ident demo_session))"
    by (simp add: mem_identity_principals demo_session_def demo_identity_def)
  with revoke_reaches_every_session [OF r demo_live_distinct a(1) cs refl rtranclp.rtrancl_refl] a cs
  show ?thesis by auto
qed

text \<open>
  The admission counters of a tracked connection are exact at every moment: for each principal,
  the number of sessions now running on the connection that were admitted as it.
\<close>

theorem admission_counters_exact:
  assumes "reach L peer g live w" "distinct (al_keys (ls_services live))"
    and "map_of (cr_inner (w_reg w)) i = Some t"
  shows "count_of (t_admitted t) p =
     length (filter (\<lambda>s. rs_reg s = i \<and> p \<in> set (identity_principals L (rs_ident s))) (w_running w)) \<and>
     (p \<in> set (al_keys (t_admitted t)) \<longleftrightarrow>
       (\<exists>s \<in> set (w_running w). rs_reg s = i \<and> p \<in> set (identity_principals L (rs_ident s))))"
proof -
  have inv: "conn_ok peer w" "session_ok L w" using reach_invariants [OF assms(1,2)] by simp_all
  have c: "count_of (t_admitted t) p = sessions_as L (w_running w) i p" by (rule session_ok_count [OF inv(2) assms(3)])
  moreover have "p \<in> set (al_keys (t_admitted t)) \<longleftrightarrow> 0 < count_of (t_admitted t) p"
    using registry_tracked_ok [OF conn_ok_registry [OF inv(1)] assms(3)] by (simp add: admitted_key_iff del: set_map)
  ultimately show ?thesis by (auto simp: sessions_as_def filter_empty_conv)
qed

theorem admission_counters_exact_witness:
  "\<exists>t. map_of (cr_inner (w_reg demo_w8)) 0 = Some t \<and> count_of (t_admitted t) ''b64u:bob'' = 1"
proof -
  obtain t where t: "map_of (cr_inner (w_reg demo_w8)) 0 = Some t"
    by (simp add: demo_w8_def demo_registry2_def admit_session_def demo_registry_def register_checked_def Let_def cr_new_def)
  have "''b64u:bob'' \<in> set (identity_principals demo_libs demo_identity)"
    by (simp add: mem_identity_principals demo_identity_def)
  with admission_counters_exact [OF demo_reach demo_live_distinct t, of "''b64u:bob''"] t show ?thesis
    by (simp add: demo_w8_def demo_session_def)
qed

end
