(* ===== verification/Gate_Props.thy ===== *)
theory Gate_Props
  imports Sever_Props
begin

text \<open>
  The theorems about the peer store and the trust gates: who is admitted, what wins over what, and
  that every store error refuses.
\<close>

subsection \<open>Admission\<close>

text \<open>
  The pairing decision, over the three tables: an endpoint is admitted exactly when it is not
  revoked, has a readable pair row, and the person on that row (if any) is not revoked, with every
  table it takes to know this readable; it is refused exactly when it or its person is revoked or a
  read that was needed failed; a corrupt pair row counts as no row.
\<close>

theorem pairing_admission_exact:
  "(store_admission s e = Refused \<longleftrightarrow>
     ps_fails s REVOKED \<or> e \<in> dom (map_of (ps_revoked s)) \<or> ps_fails s PEERS \<or>
     (\<exists>entry uid. map_of (ps_peers s) e = Some (Row entry) \<and> pe_user_id entry = Some uid \<and>
        (ps_fails s REVOKED_USERS \<or> uid \<in> dom (map_of (ps_revoked_users s))))) \<and>
   (store_admission s e = Admitted entry \<longleftrightarrow>
     store_admission s e \<noteq> Refused \<and> map_of (ps_peers s) e = Some (Row entry))"
proof -
  have "store_admission s e = Admitted entry \<longleftrightarrow>
     store_admission s e \<noteq> Refused \<and> map_of (ps_peers s) e = Some (Row entry)"
    unfolding admission_Refused admission_Admitted by auto
  then show ?thesis unfolding admission_Refused dom_def mem_Collect_eq by blast
qed

text \<open>
  The daemon's gate: the roster's identity first, the pairing identity only when the roster
  gives none (not listed, no roster, or a degraded one), and neither when the roster revokes the
  endpoint, the pair store refuses it, or the person the roster names is revoked as an identity.
\<close>

theorem composed_gate_decides:
  "cg_resolve g now e = Some i \<longleftrightarrow>
     \<not> rg_is_revoked (cg_roster g) e \<and> store_admission (cg_pairs g) e \<noteq> Refused \<and>
     (case rg_resolve (cg_roster g) now e of
        Some j \<Rightarrow> i = j \<and> \<not> roster_identity_revoked g (pi_user_id j)
      | None \<Rightarrow> \<exists>p. store_admission (cg_pairs g) e = Admitted p \<and> i = identity_of e p)"
  unfolding cg_resolve_cases refused_iff_revoked by simp

text \<open>
  The contract the connection handler relies on, for the daemon's gate in every state and at every
  instant: an admitted identity carries the authenticated endpoint, a revoked endpoint is not
  admitted, a revoked endpoint is severed by the register-time recheck, and an endpoint just
  admitted is not.
\<close>

theorem composed_gate_contract:
  "(cg_resolve g now e = Some i \<longrightarrow> pi_endpoint i = e \<and> \<not> cg_should_sever_now g e (cg_roster_user g now e)) \<and>
   (cg_is_revoked g now e \<longrightarrow> cg_resolve g now e = None \<and> cg_should_sever_now g e (cg_roster_user g now e))"
  using composed_gate.stamped composed_gate.admitted_kept composed_gate.revoked_refused composed_gate.revoked_severed
  by blast

theorem composed_gate_contract_witness:
  "pi_endpoint demo_identity = demo_peer 0 \<and> \<not> cg_should_sever_now demo_gate (demo_peer 0) (cg_roster_user demo_gate 5 (demo_peer 0))"
  using composed_gate_contract [of demo_gate 5 "demo_peer 0" demo_identity] by simp

text \<open>
  Revoking a person outlives the devices known at the time: after \<open>revoke_user\<close>, a device added
  later under that person is refused by the daemon's gate, whatever the roster says of it.
\<close>

theorem revoked_person_covers_future_devices:
  assumes "revoke_user s u x = Inr s1" "store_add s1 entry = Inr s2" "pe_user_id entry = Some u" "cg_pairs g = s2"
  shows "cg_resolve g now (pe_endpoint_id entry) = None"
proof -
  have "map_of (ps_revoked_users s2) u \<noteq> None" "map_of (ps_peers s2) (pe_endpoint_id entry) = Some (Row entry)"
    using assms(1,2) by (auto simp: revoke_user_def store_add_def result_simps alist_simps)
  then have "store_admission s2 (pe_endpoint_id entry) = Refused"
    using assms(3) unfolding admission_Refused by blast
  then show ?thesis by (simp add: cg_resolve_def assms(4) Let_def)
qed

theorem revoked_person_covers_future_devices_witness:
  "\<exists>s1 s2. revoke_user demo_store ''b64u:bob'' (unreadable_entry []) = Inr s1 \<and> store_add s1 demo_entry = Inr s2 \<and>
     cg_resolve (demo_gate\<lparr>cg_pairs := s2\<rparr>) 0 (replicate 32 1) = None"
proof -
  have ok: "\<not> ps_fails demo_store t" for t by (simp add: demo_store_def store_open_def)
  obtain s1 where s1: "revoke_user demo_store ''b64u:bob'' (unreadable_entry []) = Inr s1"
    using ok by (simp add: revoke_user_def with_table_def)
  then have "\<not> ps_fails s1 t" for t using ok by (auto simp: revoke_user_def result_simps)
  then obtain s2 where s2: "store_add s1 demo_entry = Inr s2" by (simp add: store_add_def with_table_def)
  have "pe_user_id demo_entry = Some ''b64u:bob''" "cg_pairs (demo_gate\<lparr>cg_pairs := s2\<rparr>) = s2"
    by (simp_all add: demo_entry_def)
  from revoked_person_covers_future_devices [OF s1 s2 this, of 0] s1 s2 show ?thesis by (simp add: demo_entry_def)
qed

text \<open>
  Removing a nickname deletes exactly the readable rows that carry it, keeps every other row
  (corrupt ones included) and reports whether there was one; the store stays well formed.
\<close>

theorem remove_nickname_exact:
  assumes "store_ok s" "store_remove s n = Inr (b, s')"
  shows "store_ok s' \<and>
     map_of (ps_peers s') k = (case map_of (ps_peers s) k of
        Some r \<Rightarrow> if has_nickname n r then None else Some r | None \<Rightarrow> None) \<and>
     (b \<longleftrightarrow> (\<exists>k r. map_of (ps_peers s) k = Some r \<and> has_nickname n r))"
  using store_ok_remove [OF assms] store_remove_rows [OF assms] by blast

lemma demo_store_ok: "store_ok demo_store"
  by (simp add: demo_store_def store_ok_def store_open_def tbl_ok_def keyed_by_self_def demo_entry_def)

theorem remove_nickname_exact_witness:
  "\<exists>b s'. store_remove demo_store ''bob'' = Inr (b, s') \<and> b \<and> map_of (ps_peers s') (replicate 32 1) = None"
proof -
  obtain b s' where r: "store_remove demo_store ''bob'' = Inr (b, s')"
    by (simp add: store_remove_def Let_def with_table_def demo_store_def store_open_def)
  have "map_of (ps_peers demo_store) (replicate 32 1) = Some (Row demo_entry)" "has_nickname ''bob'' (Row demo_entry)"
    by (simp_all add: demo_store_def demo_entry_def has_nickname_def)
  with remove_nickname_exact [OF demo_store_ok r, of "replicate 32 1"] r show ?thesis by auto
qed

text \<open>
  Un-revoking undoes a revoke: after revoking an endpoint that was not revoked and un-revoking it,
  the pair store decides every endpoint as before, and the un-revoke reports that it removed a row.
\<close>

theorem unrevoke_undoes_revoke:
  assumes "map_of (ps_revoked s) (re_endpoint_id x) = None" "revoke s x = Inr s1"
  shows "\<exists>s2. unrevoke s1 (re_endpoint_id x) = Inr (True, s2) \<and> store_admission s1 (re_endpoint_id x) = Refused \<and>
     (\<forall>e. store_admission s2 e = store_admission s e)"
proof -
  from assms(2) have f: "\<not> ps_fails s REVOKED"
    and s1: "s1 = s\<lparr>ps_revoked := tbl_insert (re_endpoint_id x) (Row x) (ps_revoked s)\<rparr>"
    by (simp_all add: revoke_def result_simps)
  let ?s2 = "s1\<lparr>ps_revoked := tbl_remove (re_endpoint_id x) (ps_revoked s1)\<rparr>"
  have "unrevoke s1 (re_endpoint_id x) = Inr (True, ?s2)"
    using f by (simp add: unrevoke_def with_table_def s1 alist_simps)
  moreover have "store_admission s1 (re_endpoint_id x) = Refused"
    by (simp add: admission_Refused s1 alist_simps)
  moreover have "map_of (ps_revoked ?s2) = map_of (ps_revoked s)"
    using assms(1) by (auto simp: s1 alist_simps)
  then have "store_admission ?s2 e = store_admission s e" for e
    by (simp add: store_admission_def with_table_def s1)
  ultimately show ?thesis by blast
qed

theorem unrevoke_undoes_revoke_witness:
  "\<exists>s1 s2. revoke demo_store (unreadable_entry (replicate 32 1)) = Inr s1 \<and> unrevoke s1 (replicate 32 1) = Inr (True, s2) \<and>
     store_admission s1 (replicate 32 1) = Refused"
proof -
  have "map_of (ps_revoked demo_store) (re_endpoint_id (unreadable_entry (replicate 32 1))) = None"
    by (simp add: demo_store_def store_open_def)
  moreover obtain s1 where s1: "revoke demo_store (unreadable_entry (replicate 32 1)) = Inr s1"
    by (simp add: revoke_def with_table_def demo_store_def store_open_def)
  ultimately show ?thesis
    using unrevoke_undoes_revoke [of demo_store "unreadable_entry (replicate 32 1)" s1] s1
    by (auto simp: unreadable_entry_def)
qed

subsection \<open>Severing by principal\<close>

text \<open>
  The endpoints a principal names, for a revoke: exactly the stored peers whose device principal
  or person it is, and the rostered devices whose device principal, user or group it is. A nickname
  names nobody.
\<close>

theorem principal_names_exactly:
  assumes "endpoints_for_principal L s roster p = Inr es"
  shows "e \<in> set es \<longleftrightarrow>
     (\<exists>entry \<in> set (readable (ps_peers s)). pe_endpoint_id entry = e \<and>
        (principal L e = p \<or> pe_user_id entry = Some p)) \<or>
     (\<exists>v d. roster = Some v \<and> (e, d) \<in> set (v_devices v) \<and>
        (principal L e = p \<or> d_user_id d = p \<or> p \<in> set (d_groups d)))"
  using endpoints_for_principal_spec [OF assms] unfolding names_endpoint_def by simp

theorem principal_names_exactly_witness:
  "\<exists>es. endpoints_for_principal demo_libs demo_store None ''b64u:bob'' = Inr es \<and> replicate 32 1 \<in> set es"
proof -
  obtain es where es: "endpoints_for_principal demo_libs demo_store None ''b64u:bob'' = Inr es"
    by (simp add: endpoints_for_principal_def store_list_def with_table_def demo_store_def store_open_def Let_def)
  have "demo_entry \<in> set (readable (ps_peers demo_store))" "pe_endpoint_id demo_entry = replicate 32 1"
    "pe_user_id demo_entry = Some ''b64u:bob''"
    by (simp_all add: demo_store_def demo_entry_def)
  then show ?thesis using principal_names_exactly [OF es, of "replicate 32 1"] es by blast
qed

end
