(* ===== verification/Rate_Limits.thy ===== *)
theory Rate_Limits
  imports Prelude Complex_Main
begin

text \<open>
  Rate limiting (\<open>node/src/limits.rs\<close>): the token bucket, the bounded map of per-endpoint buckets and
  the daemon's bundle of limiters.

  An \<open>f64\<close> is modelled by the rational it stands for, with the rounding of every arithmetic operation
  as a parameter \<open>rnd\<close> (any function; the theorems name what they need of it). \<open>Instant\<close>s are natural
  numbers of nanoseconds. \<open>HashMap\<close> iteration order is that of an association list.
\<close>

type_synonym rounding = "rat \<Rightarrow> rat"

subsection \<open>The token bucket\<close>

record token_bucket =
  tb_capacity :: rat
  tb_refill_per_sec :: rat
  tb_tokens :: rat
  tb_last_refill :: nat

definition tb_new :: "rat \<Rightarrow> rat \<Rightarrow> nat \<Rightarrow> token_bucket" where
  "tb_new capacity refill_per_sec now = \<lparr>tb_capacity = capacity, tb_refill_per_sec = refill_per_sec,
     tb_tokens = capacity, tb_last_refill = now\<rparr>"

text \<open>\<open>as u64\<close> on a float saturates at both ends.\<close>

definition f64_as_u64 :: "rat \<Rightarrow> u64" where
  "f64_as_u64 x = word_of_int (max 0 (min (2 ^ 64 - 1) \<lfloor>x\<rfloor>))"

definition u32_max :: nat where "u32_max = 2 ^ 32 - 1"

text \<open>Subtraction on \<open>nat\<close> is \<open>saturating_duration_since\<close>.\<close>

definition secs_since :: "rounding \<Rightarrow> nat \<Rightarrow> nat \<Rightarrow> rat" where
  "secs_since rnd now earlier = rnd (of_nat (now - earlier) / 10 ^ 9)"

text \<open>The lazy refill, capped at the burst allowance.\<close>

definition refilled :: "rounding \<Rightarrow> token_bucket \<Rightarrow> nat \<Rightarrow> rat" where
  "refilled rnd b now =
     min (rnd (tb_tokens b + rnd (secs_since rnd now (tb_last_refill b) * tb_refill_per_sec b))) (tb_capacity b)"

definition retry_after_ms :: "rounding \<Rightarrow> token_bucket \<Rightarrow> rat \<Rightarrow> rat \<Rightarrow> u64" where
  "retry_after_ms rnd b tokens cost =
     (let deficit = rnd (cost - tokens);
          secs = (if tb_refill_per_sec b > 0 then rnd (deficit / tb_refill_per_sec b) else of_nat u32_max)
      in f64_as_u64 (of_int \<lceil>rnd (secs * 1000)\<rceil>))"

definition try_take_cost :: "rounding \<Rightarrow> token_bucket \<Rightarrow> nat \<Rightarrow> rat \<Rightarrow> (u64 + unit) \<times> token_bucket" where
  "try_take_cost rnd b now cost =
     (let tokens = refilled rnd b now
      in if tokens \<ge> cost then (Inr (), b\<lparr>tb_last_refill := now, tb_tokens := rnd (tokens - cost)\<rparr>)
         else (Inl (retry_after_ms rnd b tokens cost), b\<lparr>tb_last_refill := now, tb_tokens := tokens\<rparr>))"

definition try_take :: "rounding \<Rightarrow> token_bucket \<Rightarrow> nat \<Rightarrow> (u64 + unit) \<times> token_bucket" where
  "try_take rnd b now = try_take_cost rnd b now 1"

subsection \<open>Per-endpoint buckets\<close>

definition IDLE_TTL :: nat where "IDLE_TTL = 600 * 10 ^ 9"
definition MAX_BUCKETS :: nat where "MAX_BUCKETS = 4096"

record tracked_bucket =
  tk_bucket :: token_bucket
  tk_last_seen :: nat

record rate_limiter =
  rl_capacity :: rat
  rl_refill_per_sec :: rat
  rl_buckets :: "(bytes \<times> tracked_bucket) list"

definition per_minute_f64 :: "rounding \<Rightarrow> rat \<Rightarrow> rat \<Rightarrow> rate_limiter" where
  "per_minute_f64 rnd per_min burst =
     \<lparr>rl_capacity = max burst 1, rl_refill_per_sec = rnd (max per_min 1 / 60), rl_buckets = []\<rparr>"

definition per_minute :: "rounding \<Rightarrow> u32 \<Rightarrow> u32 \<Rightarrow> rate_limiter" where
  "per_minute rnd per_min burst = \<lparr>rl_capacity = of_nat (unat (max burst 1)),
     rl_refill_per_sec = rnd (of_nat (unat (max per_min 1)) / 60), rl_buckets = []\<rparr>"

definition unlimited_shared :: "rounding \<Rightarrow> rate_limiter" where
  "unlimited_shared rnd = per_minute rnd (- 1) (- 1)"

definition make_room :: "(bytes \<times> tracked_bucket) list \<Rightarrow> nat \<Rightarrow> (bytes \<times> tracked_bucket) list" where
  "make_room m now =
     (let m' = filter (\<lambda>(_, t). now - tk_last_seen t < IDLE_TTL) m
      in if length m' \<ge> MAX_BUCKETS
         then al_remove (fst (arg_min_list (\<lambda>(_, t). tk_last_seen t) m')) m'
         else m')"

definition check_cost :: "rounding \<Rightarrow> rate_limiter \<Rightarrow> bytes \<Rightarrow> nat \<Rightarrow> rat \<Rightarrow> (u64 + unit) \<times> rate_limiter" where
  "check_cost rnd rl endpoint now cost =
     (let m = (if endpoint \<in> set (al_keys (rl_buckets rl)) then rl_buckets rl
               else al_insert endpoint
                 \<lparr>tk_bucket = tb_new (rl_capacity rl) (rl_refill_per_sec rl) now, tk_last_seen = now\<rparr>
                 (make_room (rl_buckets rl) now));
          t = the (map_of m endpoint);
          (answer, bucket) = try_take_cost rnd (tk_bucket t) now cost
      in (answer, rl\<lparr>rl_buckets := al_insert endpoint \<lparr>tk_bucket = bucket, tk_last_seen = now\<rparr> m\<rparr>))"

definition check :: "rounding \<Rightarrow> rate_limiter \<Rightarrow> bytes \<Rightarrow> nat \<Rightarrow> (u64 + unit) \<times> rate_limiter" where
  "check rnd rl endpoint now =
     (let m = (if endpoint \<in> set (al_keys (rl_buckets rl)) then rl_buckets rl
               else al_insert endpoint
                 \<lparr>tk_bucket = tb_new (rl_capacity rl) (rl_refill_per_sec rl) now, tk_last_seen = now\<rparr>
                 (make_room (rl_buckets rl) now));
          t = the (map_of m endpoint);
          (answer, bucket) = try_take rnd (tk_bucket t) now
      in (answer, rl\<lparr>rl_buckets := al_insert endpoint \<lparr>tk_bucket = bucket, tk_last_seen = now\<rparr> m\<rparr>))"

definition rl_tracked :: "rate_limiter \<Rightarrow> nat" where
  "rl_tracked rl = length (rl_buckets rl)"

text \<open>\<open>RateGate\<close>: a session without an authenticated endpoint is never limited.\<close>

definition gate_admit_at :: "rounding \<Rightarrow> rate_limiter \<Rightarrow> bytes option \<Rightarrow> nat \<Rightarrow> (u64 + unit) \<times> rate_limiter" where
  "gate_admit_at rnd limiter endpoint now =
     (case endpoint of Some eid \<Rightarrow> check rnd limiter eid now | None \<Rightarrow> (Inr (), limiter))"

subsection \<open>The daemon's limiters\<close>

definition PAIR_ACCEPT_PER_MIN :: u32 where "PAIR_ACCEPT_PER_MIN = 30"
definition BLOB_CONN_PER_MIN :: u32 where "BLOB_CONN_PER_MIN = 60"
definition PING_PER_MIN :: u32 where "PING_PER_MIN = 60"
definition MIN_BLOB_BYTES_PER_MIN :: u64 where "MIN_BLOB_BYTES_PER_MIN = 2 * 16 * 1024"
definition MAX_TRACKED_SERVICES :: nat where "MAX_TRACKED_SERVICES = 256"

record service_bucket =
  sb_effective_rpm :: "u32 option"
  sb_limiter :: rate_limiter

record mesh_limiters =
  ml_requests :: rate_limiter
  ml_global_rpm :: "u32 option"
  ml_services :: "(string \<times> service_bucket) list"
  ml_pair_accept :: token_bucket
  ml_blob_bytes :: "rate_limiter option"
  ml_blob_conn :: rate_limiter
  ml_ping :: rate_limiter
  ml_ping_refused :: u64

definition effective_rpm :: "mesh_limiters \<Rightarrow> u32 option \<Rightarrow> u32 option" where
  "effective_rpm ml configured =
     map_option (\<lambda>global. case configured of None \<Rightarrow> global | Some c \<Rightarrow> min c global) (ml_global_rpm ml)"

definition for_service :: "rounding \<Rightarrow> mesh_limiters \<Rightarrow> string \<Rightarrow> u32 option \<Rightarrow> rate_limiter \<times> mesh_limiters" where
  "for_service rnd ml name configured =
     (let effective = effective_rpm ml configured;
          fresh = (let m = (if length (ml_services ml) \<ge> MAX_TRACKED_SERVICES \<and> name \<notin> set (al_keys (ml_services ml))
                            then al_remove (fst (hd (ml_services ml))) (ml_services ml) else ml_services ml);
                       limiter = (case effective of None \<Rightarrow> unlimited_shared rnd | Some rpm \<Rightarrow> per_minute rnd rpm rpm)
                   in (limiter, ml\<lparr>ml_services := al_insert name
                         \<lparr>sb_effective_rpm = effective, sb_limiter = limiter\<rparr> m\<rparr>))
      in case map_of (ml_services ml) name of
           Some existing \<Rightarrow> if sb_effective_rpm existing = effective then (sb_limiter existing, ml) else fresh
         | None \<Rightarrow> fresh)"

definition tracked_rpm :: "mesh_limiters \<Rightarrow> string \<Rightarrow> u32 option option" where
  "tracked_rpm ml name = map_option sb_effective_rpm (map_of (ml_services ml) name)"

definition from_config :: "rounding \<Rightarrow> u32 \<Rightarrow> u64 \<Rightarrow> nat \<Rightarrow> mesh_limiters" where
  "from_config rnd rate_limit_per_min blob_bytes_per_min now =
     \<lparr>ml_requests = per_minute rnd rate_limit_per_min rate_limit_per_min,
      ml_global_rpm = Some rate_limit_per_min, ml_services = [],
      ml_pair_accept = tb_new (of_nat (unat PAIR_ACCEPT_PER_MIN)) (rnd (of_nat (unat PAIR_ACCEPT_PER_MIN) / 60)) now,
      ml_blob_bytes = (if blob_bytes_per_min > 0
        then let per_min = rnd (of_nat (unat (max blob_bytes_per_min MIN_BLOB_BYTES_PER_MIN)))
             in Some (per_minute_f64 rnd per_min per_min)
        else None),
      ml_blob_conn = per_minute rnd BLOB_CONN_PER_MIN BLOB_CONN_PER_MIN,
      ml_ping = per_minute rnd PING_PER_MIN PING_PER_MIN, ml_ping_refused = 0\<rparr>"

definition unlimited :: "rounding \<Rightarrow> nat \<Rightarrow> mesh_limiters" where
  "unlimited rnd now =
     \<lparr>ml_requests = unlimited_shared rnd, ml_global_rpm = None, ml_services = [],
      ml_pair_accept = tb_new (of_nat u32_max) (of_nat u32_max) now, ml_blob_bytes = None,
      ml_blob_conn = unlimited_shared rnd, ml_ping = unlimited_shared rnd, ml_ping_refused = 0\<rparr>"

definition admit_pair_accept_at :: "rounding \<Rightarrow> mesh_limiters \<Rightarrow> nat \<Rightarrow> bool \<times> mesh_limiters" where
  "admit_pair_accept_at rnd ml now =
     (let (answer, b) = try_take rnd (ml_pair_accept ml) now in (is_ok answer, ml\<lparr>ml_pair_accept := b\<rparr>))"

definition admit_blob_bytes_at :: "rounding \<Rightarrow> mesh_limiters \<Rightarrow> bytes \<Rightarrow> u64 \<Rightarrow> nat \<Rightarrow> bool \<times> mesh_limiters" where
  "admit_blob_bytes_at rnd ml endpoint bytes now =
     (case ml_blob_bytes ml of
        None \<Rightarrow> (True, ml)
      | Some limiter \<Rightarrow>
          let (answer, limiter') = check_cost rnd limiter endpoint now (rnd (of_nat (unat bytes)))
          in (is_ok answer, ml\<lparr>ml_blob_bytes := Some limiter'\<rparr>))"

definition blob_bytes_enabled :: "mesh_limiters \<Rightarrow> bool" where
  "blob_bytes_enabled ml = (ml_blob_bytes ml \<noteq> None)"

definition admit_ping_at :: "rounding \<Rightarrow> mesh_limiters \<Rightarrow> bytes \<Rightarrow> nat \<Rightarrow> bool \<times> mesh_limiters" where
  "admit_ping_at rnd ml endpoint now =
     (let (answer, l) = check rnd (ml_ping ml) endpoint now; admitted = is_ok answer
      in (admitted, ml\<lparr>ml_ping := l, ml_ping_refused := (if admitted then ml_ping_refused ml else ml_ping_refused ml + 1)\<rparr>))"

definition admit_blob_conn_at :: "rounding \<Rightarrow> mesh_limiters \<Rightarrow> bytes \<Rightarrow> nat \<Rightarrow> bool \<times> mesh_limiters" where
  "admit_blob_conn_at rnd ml endpoint now =
     (let (answer, l) = check rnd (ml_blob_conn ml) endpoint now in (is_ok answer, ml\<lparr>ml_blob_conn := l\<rparr>))"

subsection \<open>The bucket invariant\<close>

text \<open>What IEEE 754 rounding guarantees: monotone, exact on zero, idempotent.\<close>

definition rounding_ok :: "rounding \<Rightarrow> bool" where
  "rounding_ok rnd \<longleftrightarrow> (\<forall>x y. x \<le> y \<longrightarrow> rnd x \<le> rnd y) \<and> rnd 0 = 0 \<and> (\<forall>x. rnd (rnd x) = rnd x)"

lemma rounding_mono: "rounding_ok rnd \<Longrightarrow> x \<le> y \<Longrightarrow> rnd x \<le> rnd y"
  by (simp add: rounding_ok_def)

lemma rounding_nonneg: "rounding_ok rnd \<Longrightarrow> 0 \<le> x \<Longrightarrow> 0 \<le> rnd x"
  using rounding_mono [of rnd 0 x] by (simp add: rounding_ok_def)

lemma rounding_idem: "rounding_ok rnd \<Longrightarrow> rnd (rnd x) = rnd x"
  by (simp add: rounding_ok_def)

text \<open>Between nothing and the burst allowance, in representable numbers.\<close>

definition bucket_ok :: "rounding \<Rightarrow> token_bucket \<Rightarrow> bool" where
  "bucket_ok rnd b \<longleftrightarrow> 0 \<le> tb_tokens b \<and> tb_tokens b \<le> tb_capacity b \<and> 0 \<le> tb_refill_per_sec b \<and>
     rnd (tb_tokens b) = tb_tokens b \<and> rnd (tb_capacity b) = tb_capacity b"

lemma bucket_ok_new: "rounding_ok rnd \<Longrightarrow> 0 \<le> c \<Longrightarrow> rnd c = c \<Longrightarrow> 0 \<le> r \<Longrightarrow> bucket_ok rnd (tb_new c r now)"
  by (simp add: bucket_ok_def tb_new_def)

lemma refilled_ok:
  assumes "rounding_ok rnd" "bucket_ok rnd b"
  shows "0 \<le> refilled rnd b now" "refilled rnd b now \<le> tb_capacity b" "rnd (refilled rnd b now) = refilled rnd b now"
proof -
  note nonneg = rounding_nonneg [OF assms(1)]
  have "0 \<le> secs_since rnd now (tb_last_refill b)"
    unfolding secs_since_def by (rule nonneg) simp
  moreover have "0 \<le> tb_refill_per_sec b" "0 \<le> tb_tokens b" "0 \<le> tb_capacity b"
    using assms(2) by (auto simp: bucket_ok_def)
  ultimately have "0 \<le> tb_tokens b + rnd (secs_since rnd now (tb_last_refill b) * tb_refill_per_sec b)"
    using nonneg [of "secs_since rnd now (tb_last_refill b) * tb_refill_per_sec b"] by simp
  from nonneg [OF this] \<open>0 \<le> tb_capacity b\<close> show "0 \<le> refilled rnd b now"
    by (simp add: refilled_def)
  show "refilled rnd b now \<le> tb_capacity b" by (simp add: refilled_def)
  show "rnd (refilled rnd b now) = refilled rnd b now"
    using assms(2) rounding_idem [OF assms(1)] by (simp add: refilled_def min_def bucket_ok_def)
qed

lemma try_take_cost_unfold:
  "try_take_cost rnd b now cost =
     (if refilled rnd b now \<ge> cost
      then (Inr (), b\<lparr>tb_last_refill := now, tb_tokens := rnd (refilled rnd b now - cost)\<rparr>)
      else (Inl (retry_after_ms rnd b (refilled rnd b now) cost),
            b\<lparr>tb_last_refill := now, tb_tokens := refilled rnd b now\<rparr>))"
  unfolding try_take_cost_def Let_def by (rule refl)

lemma bucket_ok_take:
  assumes "rounding_ok rnd" "bucket_ok rnd b" "0 \<le> cost" "try_take_cost rnd b now cost = (r, b')"
  shows "bucket_ok rnd b' \<and> tb_capacity b' = tb_capacity b \<and> tb_refill_per_sec b' = tb_refill_per_sec b"
proof -
  note t = refilled_ok [OF assms(1,2), of now]
  have "rnd (refilled rnd b now - cost) \<le> tb_capacity b"
    using rounding_mono [OF assms(1), of "refilled rnd b now - cost" "refilled rnd b now"] assms(3) t by simp
  moreover have "0 \<le> rnd (refilled rnd b now - cost)" if "cost \<le> refilled rnd b now"
    using rounding_nonneg [OF assms(1), of "refilled rnd b now - cost"] that by simp
  ultimately show ?thesis
    using assms(2,4) t rounding_idem [OF assms(1), of "refilled rnd b now - cost"]
    by (auto simp: try_take_cost_unfold bucket_ok_def split: if_splits)
qed

subsection \<open>The rate a bucket grants\<close>

text \<open>The answers to a sequence of requests, and the total cost of those admitted.\<close>

fun take_all :: "rounding \<Rightarrow> token_bucket \<Rightarrow> (nat \<times> rat) list \<Rightarrow> (u64 + unit) list \<times> token_bucket" where
  "take_all rnd b [] = ([], b)"
| "take_all rnd b ((now, cost) # rs) =
     (let (r, b') = try_take_cost rnd b now cost; (rs', b'') = take_all rnd b' rs in (r # rs', b''))"

definition admitted_cost :: "(nat \<times> rat) list \<Rightarrow> (u64 + unit) list \<Rightarrow> rat" where
  "admitted_cost rs answers = sum_list (map (\<lambda>((now, cost), r). if is_ok r then cost else 0) (zip rs answers))"

lemma admitted_cost_simps [simp]:
  "admitted_cost [] as = 0" "admitted_cost ((now, cost) # rs) (r # as) = (if is_ok r then cost else 0) + admitted_cost rs as"
  by (simp_all add: admitted_cost_def)

definition secs_between :: "nat \<Rightarrow> nat \<Rightarrow> rat" where
  "secs_between a b = (of_nat b - of_nat a) / 10 ^ 9"

lemma secs_between_trans: "secs_between a b + secs_between b c = secs_between a c"
  by (simp add: secs_between_def field_simps)

text \<open>
  In exact arithmetic and on a monotonic clock, what is left plus what was granted never exceeds what
  there was plus what flowed in.
\<close>

lemma take_all_bound:
  assumes "take_all (\<lambda>x. x) b rs = (as, b')" "0 \<le> tb_refill_per_sec b"
    and "sorted (tb_last_refill b # map fst rs)" "\<forall>r \<in> set rs. fst r \<le> end_time" "tb_last_refill b \<le> end_time"
    and "\<forall>r \<in> set rs. 0 \<le> snd r"
  shows "tb_tokens b' + admitted_cost rs as \<le>
     tb_tokens b + secs_between (tb_last_refill b) end_time * tb_refill_per_sec b"
  using assms
proof (induction rs arbitrary: b as)
  case Nil
  then show ?case by (simp add: secs_between_def)
next
  case (Cons r rs)
  obtain now cost where r: "r = (now, cost)" by fastforce
  obtain x b1 where x: "try_take_cost (\<lambda>x. x) b now cost = (x, b1)" by fastforce
  then obtain as' where as': "as = x # as'" "take_all (\<lambda>x. x) b1 rs = (as', b')"
    using Cons.prems(1) by (auto simp: r Let_def split: prod.splits)
  have b1: "tb_last_refill b1 = now" "tb_refill_per_sec b1 = tb_refill_per_sec b"
    and tok: "tb_tokens b1 + (if is_ok x then cost else 0) = refilled (\<lambda>x. x) b now"
    using x by (auto simp: try_take_cost_unfold split: if_splits)
  have "refilled (\<lambda>x. x) b now \<le> tb_tokens b + secs_between (tb_last_refill b) now * tb_refill_per_sec b"
    using Cons.prems(3) by (simp add: refilled_def secs_since_def secs_between_def r of_nat_diff)
  moreover have "tb_tokens b' + admitted_cost rs as' \<le>
     tb_tokens b1 + secs_between now end_time * tb_refill_per_sec b"
    using Cons.IH [OF as'(2)] Cons.prems b1 r by simp
  ultimately have "tb_tokens b' + admitted_cost (r # rs) as \<le>
      tb_tokens b + (secs_between (tb_last_refill b) now + secs_between now end_time) * tb_refill_per_sec b"
    using tok by (simp add: r as'(1) algebra_simps)
  then show ?case by (simp only: secs_between_trans)
qed

subsection \<open>Bounded maps\<close>

lemma make_room_length: "length m \<le> MAX_BUCKETS \<Longrightarrow> length (make_room m now) < MAX_BUCKETS"
proof -
  assume m: "length m \<le> MAX_BUCKETS"
  let ?m = "filter (\<lambda>(_, t). now - tk_last_seen t < IDLE_TTL) m"
  have len: "length ?m \<le> MAX_BUCKETS" using m length_filter_le [of _ m] by (rule order_trans [rotated])
  show ?thesis
  proof (cases "length ?m \<ge> MAX_BUCKETS")
    case True
    then have "?m \<noteq> []" by (auto simp: MAX_BUCKETS_def)
    then have "fst (arg_min_list (\<lambda>(_, t). tk_last_seen t) ?m) \<in> set (al_keys ?m)"
      unfolding list.set_map by (intro imageI arg_min_list_in)
    then have "length (al_remove (fst (arg_min_list (\<lambda>(_, t). tk_last_seen t) ?m)) ?m) < length ?m"
      by (rule length_al_remove_less)
    with True len show ?thesis by (simp add: make_room_def Let_def)
  qed (simp add: make_room_def Let_def)
qed

text \<open>A limiter tracks distinct endpoints, at most \<open>MAX_BUCKETS\<close> of them.\<close>

definition limiter_ok :: "rate_limiter \<Rightarrow> bool" where
  "limiter_ok rl \<longleftrightarrow> distinct (al_keys (rl_buckets rl)) \<and> length (rl_buckets rl) \<le> MAX_BUCKETS"

lemma map_of_filter_distinct:
  "distinct (al_keys xs) \<Longrightarrow> map_of (filter P xs) k = map_of xs k \<or> map_of (filter P xs) k = None"
  by (induction xs) (auto simp: map_of_eq_None_iff)

lemma make_room_map:
  assumes "distinct (al_keys m)"
  shows "distinct (al_keys (make_room m now))"
    and "map_of (make_room m now) k = map_of m k \<or> map_of (make_room m now) k = None"
proof -
  let ?m = "filter (\<lambda>(_, t). now - tk_last_seen t < IDLE_TTL) m"
  have d: "distinct (al_keys ?m)" using assms by (rule distinct_map_filter)
  then show "distinct (al_keys (make_room m now))"
    by (simp add: make_room_def Let_def distinct_al_remove)
  show "map_of (make_room m now) k = map_of m k \<or> map_of (make_room m now) k = None"
    using map_of_filter_distinct [OF assms, of "\<lambda>(_, t). now - tk_last_seen t < IDLE_TTL" k]
    by (auto simp: make_room_def Let_def alist_simps)
qed

lemma check_cost_map:
  assumes "check_cost rnd rl e now cost = (r, rl')" "limiter_ok rl"
  shows "limiter_ok rl'"
    and "e' \<noteq> e \<Longrightarrow> map_of (rl_buckets rl') e' = map_of (rl_buckets rl) e' \<or> map_of (rl_buckets rl') e' = None"
proof -
  let ?new = "\<lparr>tk_bucket = tb_new (rl_capacity rl) (rl_refill_per_sec rl) now, tk_last_seen = now\<rparr>"
  let ?room = "make_room (rl_buckets rl) now"
  let ?m = "if e \<in> set (al_keys (rl_buckets rl)) then rl_buckets rl else al_insert e ?new ?room"
  obtain t where rl': "rl_buckets rl' = al_insert e t ?m"
    using assms(1) by (auto simp: check_cost_def Let_def simp del: set_map split: prod.splits)
  have ok: "distinct (al_keys (rl_buckets rl))" "length (rl_buckets rl) \<le> MAX_BUCKETS"
    using assms(2) by (simp_all add: limiter_ok_def)
  have len: "length (al_insert e ?new ?room) \<le> MAX_BUCKETS"
    using make_room_length [OF ok(2), of now] length_al_insert_le [of e ?new ?room] by simp
  have key: "e \<in> set (al_keys ?m)" by (auto simp: alist_simps simp del: set_map)
  have "length (rl_buckets rl') \<le> MAX_BUCKETS"
    using ok(2) len unfolding rl' length_al_insert_present [OF key] by simp
  moreover have "distinct (al_keys (rl_buckets rl'))"
    unfolding rl' using ok(1) make_room_map(1) [OF ok(1), of now] by (simp add: distinct_al_insert)
  ultimately show "limiter_ok rl'" by (simp add: limiter_ok_def)
  show "map_of (rl_buckets rl') e' = map_of (rl_buckets rl) e' \<or> map_of (rl_buckets rl') e' = None" if "e' \<noteq> e"
    using make_room_map(2) [OF ok(1), of now e'] that by (simp add: rl' alist_simps del: set_map)
qed

lemma check_is_cost_1: "check rnd rl e now = check_cost rnd rl e now 1"
  by (simp add: check_def check_cost_def try_take_def)

fun check_all :: "rounding \<Rightarrow> rate_limiter \<Rightarrow> (bytes \<times> nat \<times> rat) list \<Rightarrow> rate_limiter" where
  "check_all rnd rl [] = rl"
| "check_all rnd rl ((e, now, cost) # cs) = check_all rnd (snd (check_cost rnd rl e now cost)) cs"

lemma check_all_ok: "limiter_ok rl \<Longrightarrow> limiter_ok (check_all rnd rl cs)"
  by (induction rnd rl cs rule: check_all.induct) (auto intro: check_cost_map(1) [OF surjective_pairing])

subsection \<open>Per-service limiters\<close>

definition services_ok :: "mesh_limiters \<Rightarrow> bool" where
  "services_ok ml \<longleftrightarrow> length (ml_services ml) \<le> MAX_TRACKED_SERVICES \<and>
     (\<forall>(name, b) \<in> set (ml_services ml). \<forall>g. ml_global_rpm ml = Some g \<longrightarrow>
        (\<exists>r \<le> g. sb_effective_rpm b = Some r))"

lemma effective_rpm_ceiling: "ml_global_rpm ml = Some g \<Longrightarrow> \<exists>r \<le> g. effective_rpm ml c = Some r"
  by (cases c) (auto simp: effective_rpm_def)

lemma set_al_insert_subset: "set (al_insert k v m) \<subseteq> insert (k, v) (set m)"
  by (induction m) auto

lemma services_ok_insert:
  assumes "services_ok ml" "length (al_insert name b m) \<le> MAX_TRACKED_SERVICES" "set m \<subseteq> set (ml_services ml)"
    and "\<And>g. ml_global_rpm ml = Some g \<Longrightarrow> \<exists>r \<le> g. sb_effective_rpm b = Some r"
  shows "services_ok (ml\<lparr>ml_services := al_insert name b m\<rparr>)"
  using assms set_al_insert_subset [of name b m] unfolding services_ok_def by (simp; blast)

lemma for_service_fresh_length:
  assumes "length ss \<le> MAX_TRACKED_SERVICES"
  shows "length (al_insert name b (if length ss \<ge> MAX_TRACKED_SERVICES \<and> name \<notin> set (al_keys ss)
           then al_remove (fst (hd ss)) ss else ss)) \<le> MAX_TRACKED_SERVICES"
proof (cases "name \<in> set (al_keys ss)")
  case True
  then show ?thesis using assms by (simp add: length_al_insert_present del: set_map)
next
  case False
  show ?thesis
  proof (cases "length ss \<ge> MAX_TRACKED_SERVICES")
    case True
    then have "ss \<noteq> []" by (auto simp: MAX_TRACKED_SERVICES_def)
    then have "fst (hd ss) \<in> set (al_keys ss)" by simp
    from length_al_remove_less [OF this] show ?thesis
      using assms True False length_al_insert_le [of name b "al_remove (fst (hd ss)) ss"] by simp
  next
    case f: False
    then show ?thesis using length_al_insert_le [of name b ss] by (simp add: not_le)
  qed
qed

lemma for_service_ok:
  assumes "services_ok ml" "for_service rnd ml name c = (l, ml')"
  shows "services_ok ml'"
proof -
  let ?ss = "ml_services ml"
  let ?m = "if length ?ss \<ge> MAX_TRACKED_SERVICES \<and> name \<notin> set (al_keys ?ss) then al_remove (fst (hd ?ss)) ?ss else ?ss"
  have len: "length ?ss \<le> MAX_TRACKED_SERVICES" using assms(1) by (simp add: services_ok_def)
  have sub: "set ?m \<subseteq> set ?ss" by (simp add: al_remove_def)
  have "services_ok (ml\<lparr>ml_services := al_insert name \<lparr>sb_effective_rpm = effective_rpm ml c, sb_limiter = lim\<rparr> ?m\<rparr>)" for lim
    using effective_rpm_ceiling [of ml _ c] by (intro services_ok_insert [OF assms(1) for_service_fresh_length [OF len] sub]) simp
  then show ?thesis
    using assms by (auto simp: for_service_def Let_def simp del: set_map split: option.splits if_splits)
qed

end
