(* ===== verification/Rate_Props.thy ===== *)
theory Rate_Props
  imports Rate_Limits
begin

text \<open>The theorems about rate limiting: bounds on what is granted, on memory, and on configuration.\<close>

lemma rounding_id: "rounding_ok (\<lambda>x. x)"
  by (simp add: rounding_ok_def)

definition demo_bucket :: token_bucket where
  "demo_bucket = tb_new 2 1 0"

text \<open>
  A bucket holds between nothing and its burst allowance, through any sequence of requests, at any
  instants (even out of order), for any IEEE rounding: it never goes negative and never banks more
  than the burst.
\<close>

theorem bucket_stays_within_burst:
  assumes "rounding_ok rnd" "bucket_ok rnd b" "\<forall>r \<in> set rs. 0 \<le> snd r" "take_all rnd b rs = (as, b')"
  shows "0 \<le> tb_tokens b' \<and> tb_tokens b' \<le> tb_capacity b"
proof -
  have "bucket_ok rnd b' \<and> tb_capacity b' = tb_capacity b"
    using assms(2-4)
  proof (induction rs arbitrary: b as)
    case Nil
    then show ?case by simp
  next
    case (Cons r rs)
    obtain now cost where r: "r = (now, cost)" by fastforce
    obtain x b1 where x: "try_take_cost rnd b now cost = (x, b1)" by fastforce
    then obtain as' where as': "take_all rnd b1 rs = (as', b')"
      using Cons.prems(3) by (auto simp: r Let_def split: prod.splits)
    have "bucket_ok rnd b1 \<and> tb_capacity b1 = tb_capacity b"
      using bucket_ok_take [OF assms(1) Cons.prems(1) _ x] Cons.prems(2) by (simp add: r)
    then show ?case using Cons.IH [OF _ _ as'] Cons.prems(2) by simp
  qed
  then show ?thesis by (simp add: bucket_ok_def)
qed

theorem bucket_stays_within_burst_witness:
  "0 \<le> tb_tokens (snd (take_all (\<lambda>x. x) demo_bucket [(0, 1), (0, 1), (0, 1)]))"
proof -
  have "bucket_ok (\<lambda>x. x) demo_bucket" by (simp add: demo_bucket_def bucket_ok_new rounding_id)
  from bucket_stays_within_burst [OF rounding_id this _ surjective_pairing, of "[(0, 1), (0, 1), (0, 1)]"]
  show ?thesis by simp
qed

text \<open>
  C37. The rate guarantee: a full bucket admits, over any run of requests on a monotonic clock up to
  some instant, a total cost of at most the burst plus the refill rate times the elapsed time (the
  arithmetic taken as exact).
\<close>

theorem bucket_rate_bound:
  assumes "take_all (\<lambda>x. x) (tb_new capacity rate start) rs = (as, b')" "0 \<le> rate"
    and "sorted (start # map fst rs)" "\<forall>r \<in> set rs. fst r \<le> end_time \<and> 0 \<le> snd r" "start \<le> end_time" "0 \<le> capacity"
  shows "admitted_cost rs as \<le> capacity + (of_nat (end_time - start) / 10 ^ 9) * rate"
proof -
  have "bucket_ok (\<lambda>x. x) (tb_new capacity rate start)"
    using assms(2,6) by (simp add: bucket_ok_def tb_new_def)
  moreover have "bucket_ok (\<lambda>x. x) b0 \<Longrightarrow> \<forall>r \<in> set rs. 0 \<le> snd r \<Longrightarrow> take_all (\<lambda>x. x) b0 rs = (as, b') \<Longrightarrow> 0 \<le> tb_tokens b'"
    for b0 as
  proof (induction rs arbitrary: b0 as)
    case Nil
    then show ?case by (simp add: bucket_ok_def)
  next
    case (Cons r rs)
    obtain now cost where r: "r = (now, cost)" by fastforce
    obtain x b1 where x: "try_take_cost (\<lambda>x. x) b0 now cost = (x, b1)" by fastforce
    then obtain as' where as': "take_all (\<lambda>x. x) b1 rs = (as', b')"
      using Cons.prems(3) by (auto simp: r Let_def split: prod.splits)
    have "bucket_ok (\<lambda>x. x) b1"
      using bucket_ok_take [OF rounding_id Cons.prems(1) _ x] Cons.prems(2) by (simp add: r)
    then show ?case using Cons.IH [OF _ _ as'] Cons.prems(2) by simp
  qed
  ultimately have "0 \<le> tb_tokens b'" using assms(1,4) by blast
  then show ?thesis
    using take_all_bound [OF assms(1), of end_time] assms(2-5)
    by (simp add: tb_new_def secs_between_def of_nat_diff)
qed

theorem bucket_rate_bound_witness:
  "admitted_cost [(0, 1), (0, 1), (0, 1), (1000000000, 1)] (fst (take_all (\<lambda>x. x) demo_bucket
      [(0, 1), (0, 1), (0, 1), (1000000000, 1)])) \<le> 3"
  using bucket_rate_bound [of 2 1 0 "[(0, 1), (0, 1), (0, 1), (1000000000, 1)]" _ _ 1000000000]
  by (simp add: demo_bucket_def) (metis prod.collapse)

text \<open>
  Memory is bounded: whatever endpoints call, in whatever order, at whatever instants and costs, a
  limiter never tracks more than \<open>MAX_BUCKETS\<close> of them; and a call by one endpoint leaves every
  other endpoint's bucket as it was, or forgets it.
\<close>

theorem limiter_memory_bounded:
  assumes "limiter_ok rl"
  shows "rl_tracked (check_all rnd rl calls) \<le> MAX_BUCKETS \<and>
     (e' \<noteq> e \<longrightarrow> map_of (rl_buckets (snd (check_cost rnd rl e now cost))) e' \<in> {map_of (rl_buckets rl) e', None})"
  using check_all_ok [OF assms, of rnd calls] check_cost_map(2) [OF surjective_pairing assms, of e' e rnd now cost]
  by (auto simp: rl_tracked_def limiter_ok_def)

theorem limiter_memory_bounded_witness:
  "rl_tracked (check_all (\<lambda>x. x) (per_minute (\<lambda>x. x) 60 60) [([1], 0, 1), ([2], 0, 1)]) \<le> MAX_BUCKETS"
  using limiter_memory_bounded [of "per_minute (\<lambda>x. x) 60 60" "\<lambda>x. x" "[([1], 0, 1), ([2], 0, 1)]"]
  by (simp add: limiter_ok_def per_minute_def)

fun configure_all :: "rounding \<Rightarrow> mesh_limiters \<Rightarrow> (string \<times> u32 option) list \<Rightarrow> mesh_limiters" where
  "configure_all rnd ml [] = ml"
| "configure_all rnd ml ((name, c) # cs) = configure_all rnd (snd (for_service rnd ml name c)) cs"

lemma configure_all_ok: "services_ok ml \<Longrightarrow> services_ok (configure_all rnd ml cs)"
  by (induction rnd ml cs rule: configure_all.induct) (auto intro: for_service_ok [OF _ surjective_pairing])

lemma configure_all_global: "ml_global_rpm (configure_all rnd ml cs) = ml_global_rpm ml"
  by (induction rnd ml cs rule: configure_all.induct)
    (auto simp: for_service_def Let_def simp del: set_map split: option.splits)

text \<open>
  The global request rate is a ceiling no service configuration lifts: after any sequence of
  per-service configurations every tracked service has a rate no higher than the global one, and at
  most \<open>MAX_TRACKED_SERVICES\<close> are tracked.
\<close>

theorem global_rate_is_a_ceiling:
  assumes "tracked_rpm (configure_all rnd (from_config rnd global blob now) cs) name = Some rpm"
  shows "(\<exists>r. rpm = Some r \<and> r \<le> global) \<and>
     length (ml_services (configure_all rnd (from_config rnd global blob now) cs)) \<le> MAX_TRACKED_SERVICES"
proof -
  have "services_ok (from_config rnd global blob now)" by (simp add: services_ok_def from_config_def)
  then have "services_ok (configure_all rnd (from_config rnd global blob now) cs)" by (rule configure_all_ok)
  moreover have "ml_global_rpm (configure_all rnd (from_config rnd global blob now) cs) = Some global"
    by (simp add: configure_all_global from_config_def)
  ultimately show ?thesis
    using assms unfolding services_ok_def tracked_rpm_def by (fastforce dest: map_of_SomeD)
qed

theorem global_rate_is_a_ceiling_witness:
  "tracked_rpm (configure_all (\<lambda>x. x) (from_config (\<lambda>x. x) 100 0 0) [(''kb'', Some 500)]) ''kb'' = Some (Some 100) \<and>
   (100 :: u32) \<le> 100"
proof -
  have t: "tracked_rpm (configure_all (\<lambda>x. x) (from_config (\<lambda>x. x) 100 0 0) [(''kb'', Some 500)]) ''kb'' = Some (Some 100)"
    by (simp add: tracked_rpm_def for_service_def from_config_def effective_rpm_def Let_def MAX_TRACKED_SERVICES_def)
  from global_rate_is_a_ceiling [OF t] t show ?thesis by simp
qed

text \<open>
  A reload keeps every peer's budget: asking for a service's limiter with the rate it already has
  hands back the limiter in use, spent buckets included, and changes nothing.
\<close>

theorem reload_keeps_buckets:
  assumes "map_of (ml_services ml) name = Some b" "sb_effective_rpm b = effective_rpm ml configured"
  shows "for_service rnd ml name configured = (sb_limiter b, ml)"
  using assms by (simp add: for_service_def Let_def)

theorem reload_keeps_buckets_witness:
  "\<exists>l ml. for_service (\<lambda>x. x) (from_config (\<lambda>x. x) 100 0 0) ''kb'' (Some 5) = (l, ml) \<and>
     for_service (\<lambda>x. x) ml ''kb'' (Some 5) = (l, ml)"
proof -
  obtain l ml where f: "for_service (\<lambda>x. x) (from_config (\<lambda>x. x) 100 0 0) ''kb'' (Some 5) = (l, ml)" by fastforce
  then have "map_of (ml_services ml) ''kb'' = Some \<lparr>sb_effective_rpm = Some 5, sb_limiter = l\<rparr>"
    "effective_rpm ml (Some 5) = Some 5"
    by (auto simp: for_service_def from_config_def effective_rpm_def Let_def MAX_TRACKED_SERVICES_def)
  with f reload_keeps_buckets [of ml "''kb''" "\<lparr>sb_effective_rpm = Some 5, sb_limiter = l\<rparr>" "Some 5"] show ?thesis by simp
qed

end
