(* ===== verification/Binding.thy ===== *)
theory Binding
  imports Roster_Doc
begin

text \<open>
  Self-sovereign identities (\<open>trust/src/binding.rs\<close>): a device proves at pairing that it belongs to
  the holder of a user key by presenting a signed device-to-user binding, and the identity other
  nodes store is the encoded user key. An introduction lets one user vouch for someone else's
  device; the two statements have their own domains, so neither passes for the other.
\<close>

definition user_id :: "libs \<Rightarrow> bytes \<Rightarrow> string" where
  "user_id L user_key = encode_b64u L (ed_pk L user_key)"

definition present :: "libs \<Rightarrow> bytes \<Rightarrow> bytes \<Rightarrow> string \<times> string" where
  "present L user_key device_endpoint_id =
     (let sig = sign_device_binding L user_key device_endpoint_id
      in (encode_b64u L (ed_pk L user_key), encode_b64u L sig))"

definition as_key32 :: "bytes \<Rightarrow> roster_error + bytes" where
  "as_key32 bs = (if length bs = 32 then Inr bs else Inl BadSignature)"

definition verify_presented :: "libs \<Rightarrow> string \<Rightarrow> string \<Rightarrow> bytes \<Rightarrow> roster_error + string" where
  "verify_presented L user_pk_b64u binding_sig_b64u authenticated_endpoint =
     rbind (decode_b64u L user_pk_b64u) (\<lambda>pk_bytes.
     rbind (as_key32 pk_bytes) (\<lambda>user_pk.
     rbind (decode_b64u L binding_sig_b64u) (\<lambda>sig.
     rbind (verify_device_binding L user_pk authenticated_endpoint sig) (\<lambda>_.
     Inr (encode_b64u L user_pk)))))"

definition decode32 :: "libs \<Rightarrow> string \<Rightarrow> roster_error + bytes" where
  "decode32 L b64u = rbind (decode_b64u L b64u) as_key32"

text \<open>\<open>Option::map(decode32).transpose()\<close>.\<close>

definition decode32_opt :: "libs \<Rightarrow> string option \<Rightarrow> roster_error + bytes option" where
  "decode32_opt L x = (case x of None \<Rightarrow> Inr None | Some s \<Rightarrow> rbind (decode32 L s) (\<lambda>k. Inr (Some k)))"

definition endorse :: "libs \<Rightarrow> bytes \<Rightarrow> bytes \<Rightarrow> string option \<Rightarrow> roster_error + string" where
  "endorse L user_key subject_endpoint_id subject_user_pk_b64u =
     rbind (decode32_opt L subject_user_pk_b64u) (\<lambda>subject_pk.
     Inr (encode_b64u L (sign_introduction L user_key subject_endpoint_id subject_pk)))"

definition verify_endorsement ::
  "libs \<Rightarrow> string \<Rightarrow> string \<Rightarrow> bytes \<Rightarrow> string option \<Rightarrow> roster_error + unit" where
  "verify_endorsement L endorser_pk_b64u evidence_b64u subject_endpoint_id subject_user_pk_b64u =
     rbind (decode32 L endorser_pk_b64u) (\<lambda>endorser_pk.
     rbind (decode32_opt L subject_user_pk_b64u) (\<lambda>subject_pk.
     rbind (decode_b64u L evidence_b64u) (\<lambda>sig.
     verify_introduction L endorser_pk subject_endpoint_id subject_pk sig)))"

lemma as_key32_Inr [result_simps]: "as_key32 bs = Inr k \<longleftrightarrow> length bs = 32 \<and> k = bs"
  by (auto simp: as_key32_def)

text \<open>A verified presentation names exactly the identity it presented.\<close>

lemma verify_presented_Inr:
  assumes "b64_canonical L"
  shows "verify_presented L pk sig e = Inr uid \<longleftrightarrow>
    uid = pk \<and> (\<exists>k s. pk = encode_b64u L k \<and> sig = encode_b64u L s \<and> length k = 32 \<and> length s = 64 \<and>
      vk_from_bytes L k \<and> verify_strict L k (device_binding_preimage k e) s)"
  unfolding verify_presented_def verify_device_binding_def result_simps decode_b64u_Inr [OF assms]
  by (auto simp: verify_statement_Inr encode_b64u_inj [OF assms])

lemma present_verifies:
  assumes "b64_canonical L" and "ed25519_correct L"
  shows "verify_presented L (fst (present L key e)) (snd (present L key e)) e = Inr (user_id L key)"
  using assms(2)
  by (simp add: verify_presented_def present_def user_id_def Let_def decode_encode_b64u [OF assms(1)] as_key32_def
      sign_device_binding_def verify_device_binding_def verify_statement_signed)
    (simp add: ed25519_correct_def)

text \<open>The signed texts of a binding and of an introduction never coincide.\<close>

lemma binding_is_no_introduction:
  "length k = length k' \<Longrightarrow> device_binding_preimage k e \<noteq> introduce_preimage k' e' s"
  by (auto simp: device_binding_preimage_def introduce_preimage_def DEVICE_BINDING_DOMAIN_def INTRODUCE_DOMAIN_def
      str_bytes_def)

end
