(* ===== verification/Invites.thy ===== *)
theory Invites
  imports Serde
begin

text \<open>
  Pairing invites (\<open>node/src/pairing/mod.rs\<close>, \<open>node/src/pairing/persist.rs\<close>): the invite and the line it
  travels on, the registry of outstanding invites, and the file every change is written through
  to. An invite is a bearer credential with a use count; the lemmas show what each operation does
  to the counts in memory and on disk.

  \<open>LiveInvites\<close> serialises its writers with a lock held across the disk write, so each mutating
  operation is one step. The flag \<open>ok\<close> says whether the replacement of the file succeeds: the
  writer prepares a temporary file and renames it over the target, so a failure leaves the target
  as it was. \<open>map.values()\<close> has no defined order; the model takes the order of its list.
\<close>

definition INVITE_SCHEME :: string where "INVITE_SCHEME = ''mcpmesh-invite:''"
definition ENROLL_SCHEME :: string where "ENROLL_SCHEME = ''mcpmesh-enroll:''"
definition MAX_APP_LABEL_LEN :: nat where "MAX_APP_LABEL_LEN = 256"

definition is_enrollment_line :: "string \<Rightarrow> bool" where
  "is_enrollment_line line = starts_with line ENROLL_SCHEME"

datatype self_enroll = RefuseEnroll | AllowEnroll

record invite =
  iv_secret :: bytes
  iv_inviter_id :: bytes
  iv_inviter_addr_json :: string
  iv_nickname :: string
  iv_services :: "string list"
  iv_expires_at_epoch :: u64
  iv_app_label :: "string option"
  iv_peer_nickname :: "string option"
  iv_as_self :: bool
  iv_uses_remaining :: u32

subsection \<open>The invite line\<close>

definition invite_to_value :: "invite \<Rightarrow> json" where
  "invite_to_value i = JObj ([(''secret'', ser_bytes (iv_secret i)), (''inviter_id'', ser_bytes (iv_inviter_id i)),
     (''inviter_addr_json'', JStr (iv_inviter_addr_json i)), (''nickname'', JStr (iv_nickname i)),
     (''services'', ser_strings (iv_services i)), (''expires_at_epoch'', JNum (uint (iv_expires_at_epoch i)))]
     @ opt_field ''app_label'' (iv_app_label i) @ opt_field ''peer_nickname'' (iv_peer_nickname i)
     @ (if iv_as_self i then [(''as_self'', JBool True)] else [])
     @ [(''uses_remaining'', JNum (uint (iv_uses_remaining i)))])"

definition invite_fields :: "string list" where
  "invite_fields = [''secret'', ''inviter_id'', ''inviter_addr_json'', ''nickname'', ''services'',
     ''expires_at_epoch'', ''app_label'', ''peer_nickname'', ''as_self'', ''uses_remaining'']"

definition invite_from_value :: "json \<Rightarrow> invite option" where
  "invite_from_value v =
     Option.bind (struct_members invite_fields v) (\<lambda>m.
     Option.bind (required m ''secret'' de_key32) (\<lambda>secret.
     Option.bind (required m ''inviter_id'' de_key32) (\<lambda>inviter_id.
     Option.bind (required m ''inviter_addr_json'' as_str) (\<lambda>addr.
     Option.bind (required m ''nickname'' as_str) (\<lambda>nickname.
     Option.bind (required m ''services'' (de_list as_str)) (\<lambda>services.
     Option.bind (required m ''expires_at_epoch'' de_word) (\<lambda>expires.
     Option.bind (defaulted m ''app_label'' None (de_option as_str)) (\<lambda>app_label.
     Option.bind (defaulted m ''peer_nickname'' None (de_option as_str)) (\<lambda>peer_nickname.
     Option.bind (defaulted m ''as_self'' False de_bool) (\<lambda>as_self.
     Option.bind (defaulted m ''uses_remaining'' 1 de_word) (\<lambda>uses.
     Some \<lparr>iv_secret = secret, iv_inviter_id = inviter_id, iv_inviter_addr_json = addr, iv_nickname = nickname,
       iv_services = services, iv_expires_at_epoch = expires, iv_app_label = app_label,
       iv_peer_nickname = peer_nickname, iv_as_self = as_self, iv_uses_remaining = uses\<rparr>)))))))))))"

definition invite_encode :: "libs \<Rightarrow> invite \<Rightarrow> string" where
  "invite_encode L i =
     (let wire = i\<lparr>iv_peer_nickname := None\<rparr>; json = json_to_vec L (invite_to_value wire)
      in (if iv_as_self i then ENROLL_SCHEME else INVITE_SCHEME) @ b32_encode L json)"

datatype invite_error = NotAnInvite | BadBase32 | BadInvite | SchemeDisagrees

definition invite_decode :: "libs \<Rightarrow> string \<Rightarrow> invite_error + invite" where
  "invite_decode L line =
     rbind (ok_or NotAnInvite (case strip_prefix INVITE_SCHEME line of
              Some p \<Rightarrow> Some p | None \<Rightarrow> strip_prefix ENROLL_SCHEME line)) (\<lambda>payload.
     rbind (ok_or BadBase32 (b32_decode L payload)) (\<lambda>json.
     rbind (ok_or BadInvite (Option.bind (json_from_slice L json) invite_from_value)) (\<lambda>i.
     if iv_as_self i = starts_with line ENROLL_SCHEME then Inr i else Inl SchemeDisagrees)))"

text \<open>The arrays of an invite have the length their type fixes.\<close>

definition invite_ok :: "invite \<Rightarrow> bool" where
  "invite_ok i \<longleftrightarrow> length (iv_secret i) = 32 \<and> length (iv_inviter_id i) = 32"

lemma opt_field_simps [simp]:
  "opt_field k None = []" "opt_field k (Some s) = [(k, JStr s)]"
  by (simp_all add: opt_field_def)

lemma invite_value_roundtrip: "invite_ok i \<Longrightarrow> invite_from_value (invite_to_value i) = Some i"
  by (cases "iv_app_label i"; cases "iv_peer_nickname i")
    (simp_all add: invite_ok_def invite_from_value_def invite_to_value_def invite_fields_def struct_members_def
      required_def defaulted_def)

lemma uint_printable [simp]: "json_printable (JNum (uint (w :: u64)))" "json_printable (JNum (uint (v :: u32)))"
  using uint_lt2p [of w] uint_lt2p [of v] by (auto intro: order_trans [OF _ uint_ge_0])

lemma invite_depth: "2 \<le> d \<Longrightarrow> json_depth (invite_to_value i) \<le> d"
  by (cases "iv_app_label i"; cases "iv_peer_nickname i") (simp_all add: invite_to_value_def)

lemma invite_printable: "json_printable (invite_to_value i)"
  by (cases "iv_app_label i"; cases "iv_peer_nickname i") (simp_all add: invite_to_value_def del: json_printable.simps(3))

subsection \<open>The file\<close>

datatype io_error = IoError

datatype invite_file = FileAbsent | FileUnreadable | FileBytes bytes

definition file_load :: "libs \<Rightarrow> invite_file \<Rightarrow> u64 \<Rightarrow> invite list" where
  "file_load L f now_epoch = (case f of
     FileAbsent \<Rightarrow> []
   | FileUnreadable \<Rightarrow> []
   | FileBytes bs \<Rightarrow> (case Option.bind (json_from_slice L bs) (de_list invite_from_value) of
         Some v \<Rightarrow> filter (\<lambda>i. iv_expires_at_epoch i \<ge> now_epoch) v
       | None \<Rightarrow> []))"

definition file_store :: "libs \<Rightarrow> bool \<Rightarrow> invite list \<Rightarrow> io_error + invite_file" where
  "file_store L ok invites =
     (if ok then Inr (FileBytes (json_to_vec L (JArr (map invite_to_value invites)))) else Inl IoError)"

subsection \<open>The registry\<close>

text \<open>\<open>li_file\<close> is the content of the attached file; \<open>None\<close> is a registry without one.\<close>

record live_invites =
  li_inner :: "(bytes \<times> invite) list"
  li_file :: "invite_file option"

datatype redeem = RedeemOk invite | Expired | Unknown | Unavailable

definition li_new :: live_invites where
  "li_new = \<lparr>li_inner = [], li_file = None\<rparr>"

definition collect_invites :: "invite list \<Rightarrow> (bytes \<times> invite) list" where
  "collect_invites is = foldl (\<lambda>m i. al_insert (iv_secret i) i m) [] is"

definition li_load :: "libs \<Rightarrow> bool \<Rightarrow> invite_file \<Rightarrow> u64 \<Rightarrow> live_invites" where
  "li_load L ok file now_epoch =
     (let on_disk = length (file_load L file 0);
          live = file_load L file now_epoch;
          reaped = length live \<noteq> on_disk;
          m = collect_invites live
      in \<lparr>li_inner = m,
          li_file = Some (if reaped then (case file_store L ok (map snd m) of Inr f \<Rightarrow> f | Inl _ \<Rightarrow> file) else file)\<rparr>)"

definition persist :: "libs \<Rightarrow> bool \<Rightarrow> live_invites \<Rightarrow> (io_error + unit) \<times> live_invites" where
  "persist L ok r = (case li_file r of
     None \<Rightarrow> (Inr (), r)
   | Some _ \<Rightarrow> (case file_store L ok (map snd (li_inner r)) of
         Inl e \<Rightarrow> (Inl e, r)
       | Inr f \<Rightarrow> (Inr (), r\<lparr>li_file := Some f\<rparr>)))"

definition mint :: "libs \<Rightarrow> bool \<Rightarrow> live_invites \<Rightarrow> invite \<Rightarrow> (io_error + unit) \<times> live_invites" where
  "mint L ok r i =
     (let secret = iv_secret i;
          displaced = map_of (li_inner r) secret;
          r' = r\<lparr>li_inner := al_insert secret i (li_inner r)\<rparr>
      in case persist L ok r' of
           (Inr u, r'') \<Rightarrow> (Inr u, r'')
         | (Inl e, r'') \<Rightarrow> (Inl e, r''\<lparr>li_inner := (case displaced of
               Some prev \<Rightarrow> al_insert secret prev (li_inner r'')
             | None \<Rightarrow> al_remove secret (li_inner r''))\<rparr>))"

definition peek_live_alias :: "live_invites \<Rightarrow> bytes \<Rightarrow> u64 \<Rightarrow> string option option" where
  "peek_live_alias r secret now_epoch = (case map_of (li_inner r) secret of
     Some i \<Rightarrow> if iv_expires_at_epoch i \<ge> now_epoch then Some (iv_peer_nickname i) else None
   | None \<Rightarrow> None)"

definition peek_live :: "live_invites \<Rightarrow> bytes \<Rightarrow> u64 \<Rightarrow> bool" where
  "peek_live r secret now_epoch \<longleftrightarrow> peek_live_alias r secret now_epoch \<noteq> None"

definition peek_is_self :: "live_invites \<Rightarrow> bytes \<Rightarrow> u64 \<Rightarrow> bool" where
  "peek_is_self r secret now_epoch = (case map_of (li_inner r) secret of
     Some i \<Rightarrow> iv_expires_at_epoch i \<ge> now_epoch \<and> iv_as_self i
   | None \<Rightarrow> False)"

definition li_count :: "live_invites \<Rightarrow> nat" where
  "li_count r = length (li_inner r)"

definition checked_pred :: "u32 \<Rightarrow> u32 option" where
  "checked_pred n = (if n = 0 then None else Some (n - 1))"

definition saturating_succ :: "u32 \<Rightarrow> u32" where
  "saturating_succ n = (if n = - 1 then - 1 else n + 1)"

definition try_redeem :: "libs \<Rightarrow> bool \<Rightarrow> live_invites \<Rightarrow> bytes \<Rightarrow> u64 \<Rightarrow> redeem \<times> live_invites" where
  "try_redeem L ok r secret now_epoch =
     (case map_of (li_inner r) secret of
        None \<Rightarrow> (Unknown, r)
      | Some i \<Rightarrow>
          if iv_expires_at_epoch i < now_epoch then
            (case persist L ok (r\<lparr>li_inner := al_remove secret (li_inner r)\<rparr>) of
               (Inr _, r') \<Rightarrow> (Expired, r')
             | (Inl _, r') \<Rightarrow> (Unavailable, r'))
          else (case checked_pred (iv_uses_remaining i) of
            None \<Rightarrow> (Unknown, r)
          | Some left \<Rightarrow>
              (let i' = i\<lparr>iv_uses_remaining := left\<rparr>;
                   inner = (if left = 0 then al_remove secret (li_inner r) else al_insert secret i' (li_inner r))
               in case persist L ok (r\<lparr>li_inner := inner\<rparr>) of
                    (Inr _, r') \<Rightarrow> (RedeemOk i', r')
                  | (Inl _, r') \<Rightarrow>
                      (Unavailable, r'\<lparr>li_inner := al_insert secret
                         (i'\<lparr>iv_uses_remaining := saturating_succ left\<rparr>) (li_inner r')\<rparr>))))"

definition remove_expired :: "libs \<Rightarrow> bool \<Rightarrow> live_invites \<Rightarrow> u64 \<Rightarrow> live_invites" where
  "remove_expired L ok r now_epoch =
     (let r' = r\<lparr>li_inner := filter (\<lambda>(_, i). iv_expires_at_epoch i \<ge> now_epoch) (li_inner r)\<rparr>
      in if length (li_inner r') \<noteq> length (li_inner r) then snd (persist L ok r') else r')"

subsection \<open>What the operations do to the counts\<close>

text \<open>
  A registry whose entries sit under their own secrets, a file that holds the image of such a
  registry (or none), and how many uses of a secret either still has.
\<close>

definition keyed :: "(bytes \<times> invite) list \<Rightarrow> bool" where
  "keyed m \<longleftrightarrow> distinct (al_keys m) \<and> al_all (\<lambda>k i. iv_secret i = k \<and> invite_ok i) m"

definition file_image :: "libs \<Rightarrow> (bytes \<times> invite) list \<Rightarrow> invite_file" where
  "file_image L m = FileBytes (json_to_vec L (JArr (map invite_to_value (map snd m))))"

definition file_holds :: "libs \<Rightarrow> invite_file \<Rightarrow> (bytes \<times> invite) list \<Rightarrow> bool" where
  "file_holds L f m \<longleftrightarrow> keyed m \<and> (f = file_image L m \<or> m = [] \<and> f \<in> {FileAbsent, FileUnreadable})"

definition uses :: "(bytes \<times> invite) list \<Rightarrow> bytes \<Rightarrow> nat" where
  "uses m k = (case map_of m k of Some i \<Rightarrow> unat (iv_uses_remaining i) | None \<Rightarrow> 0)"

definition within :: "libs \<Rightarrow> (bytes \<Rightarrow> nat) \<Rightarrow> live_invites \<Rightarrow> bool" where
  "within L b r \<longleftrightarrow> keyed (li_inner r) \<and> (\<forall>k. uses (li_inner r) k \<le> b k) \<and>
     (\<forall>f. li_file r = Some f \<longrightarrow> (\<exists>m. file_holds L f m \<and> (\<forall>k. uses m k \<le> b k)))"

lemma file_store_eq: "file_store L ok (map snd m) = (if ok then Inr (file_image L m) else Inl IoError)"
  by (simp add: file_store_def file_image_def)

lemma keyed_Nil [simp]: "keyed []"
  by (simp add: keyed_def)

lemma keyed_insert: "keyed m \<Longrightarrow> invite_ok i \<Longrightarrow> keyed (al_insert (iv_secret i) i m)"
  by (simp add: keyed_def alist_simps al_all_insert)

lemma keyed_remove: "keyed m \<Longrightarrow> keyed (al_remove k m)"
  by (simp add: keyed_def alist_simps al_all_remove)

lemma keyed_filter: "keyed m \<Longrightarrow> keyed (filter P m)"
  by (auto simp: keyed_def al_all_def distinct_map_filter)

lemma invite_keyed_lookup: "keyed m \<Longrightarrow> map_of m k = Some i \<Longrightarrow> iv_secret i = k \<and> invite_ok i"
  unfolding keyed_def by (rule al_all_lookup [of "\<lambda>k i. iv_secret i = k \<and> invite_ok i"]) auto

lemma uses_insert: "uses (al_insert k i m) k' = (if k' = k then unat (iv_uses_remaining i) else uses m k')"
  by (simp add: uses_def alist_simps)

lemma uses_remove: "uses (al_remove k m) k' = (if k' = k then 0 else uses m k')"
  by (simp add: uses_def alist_simps)

lemma map_of_filter_Some:
  "distinct (al_keys m) \<Longrightarrow> map_of (filter P m) k = Some i \<Longrightarrow> map_of m k = Some i"
  by (auto dest!: map_of_SomeD)

lemma uses_filter: "distinct (al_keys m) \<Longrightarrow> uses (filter P m) k \<le> uses m k"
  using map_of_filter_Some [of m P k] by (cases "map_of (filter P m) k") (auto simp: uses_def)

text \<open>Collecting the values of a keyed list gives the list back.\<close>

lemma collect_append:
  "keyed (m @ m') \<Longrightarrow> foldl (\<lambda>m i. al_insert (iv_secret i) i m) m (map snd m') = m @ m'"
proof (induction m' arbitrary: m)
  case (Cons p m')
  obtain k i where p: "p = (k, i)" by (cases p)
  have "iv_secret i = k" "k \<notin> set (al_keys m)"
    using Cons.prems by (auto simp: p keyed_def al_all_def)
  then show ?case using Cons.IH [of "m @ [p]"] Cons.prems by (simp add: p al_insert_absent)
qed simp

lemma collect_keyed: "keyed m \<Longrightarrow> collect_invites (map snd m) = m"
  using collect_append [of "[]" m] by (simp add: collect_invites_def)

lemma file_load_holds:
  assumes "json_text_roundtrip L" and "file_holds L f m"
  shows "file_load L f now = map snd (filter (\<lambda>(_, i). now \<le> iv_expires_at_epoch i) m)"
proof -
  have ok: "invite_ok i" if "i \<in> snd ` set m" for i
    using assms(2) that by (auto simp: file_holds_def keyed_def al_all_def)
  have "json_printable (JArr (map invite_to_value (map snd m)))"
    by (simp add: list_all_iff invite_printable)
  moreover have "json_depth (JArr (map invite_to_value (map snd m))) \<le> JSON_MAX_DEPTH"
    by (simp add: invite_depth JSON_MAX_DEPTH_def)
  ultimately have "file_load L (file_image L m) now = filter (\<lambda>i. now \<le> iv_expires_at_epoch i) (map snd m)"
    using assms(1) ok
    by (simp add: file_load_def file_image_def json_text_roundtrip_def de_list_def invite_value_roundtrip)
  then show ?thesis using assms(2)
    by (auto simp: file_holds_def file_load_def filter_map comp_def case_prod_unfold)
qed

lemma persist_Inr:
  "persist L ok r = (Inr u, r') \<longleftrightarrow>
     (if li_file r = None then r' = r else ok \<and> r' = r\<lparr>li_file := Some (file_image L (li_inner r))\<rparr>)"
  by (auto simp: persist_def file_store_eq split: option.splits)

lemma persist_Inl: "persist L ok r = (Inl e, r') \<longleftrightarrow> li_file r \<noteq> None \<and> \<not> ok \<and> r' = r"
  by (cases e) (auto simp: persist_def file_store_eq split: option.splits)

text \<open>A write-through leaves memory and file with the same counts.\<close>

lemma within_persisted:
  assumes "keyed (li_inner r)" and "\<And>k. uses (li_inner r) k \<le> b k" and "persist L ok r = (Inr u, r')"
  shows "within L b r'"
  using assms by (auto simp: persist_Inr within_def file_holds_def split: if_splits)

lemma within_inner:
  assumes "within L b r" and "keyed m" and "\<And>k. uses m k \<le> b k"
  shows "within L b (r\<lparr>li_inner := m\<rparr>)"
  using assms by (simp add: within_def)

lemma within_persist_any:
  assumes "within L b r" and "keyed m" and "\<And>k. uses m k \<le> b k"
  shows "within L b (snd (persist L ok (r\<lparr>li_inner := m\<rparr>)))"
proof (cases "persist L ok (r\<lparr>li_inner := m\<rparr>)")
  case (Pair x r')
  then show ?thesis
  proof (cases x)
    case (Inl e)
    then have "r' = r\<lparr>li_inner := m\<rparr>" using Pair persist_Inl by metis
    then show ?thesis using Pair within_inner [OF assms] by simp
  next
    case (Inr u)
    then show ?thesis using Pair within_persisted [of "r\<lparr>li_inner := m\<rparr>" b L ok u r'] assms by simp
  qed
qed

text \<open>One lemma per operation: \<open>b\<close> bounds the uses left, in memory and on disk.\<close>

lemma within_mono: "within L b r \<Longrightarrow> (\<And>k. b k \<le> b' k) \<Longrightarrow> within L b' r"
  unfolding within_def by (meson order_trans)

lemma mint_Inr:
  assumes "within L b r" and "invite_ok i" and "mint L ok r i = (Inr u, r')"
  shows "within L (b(iv_secret i := b (iv_secret i) + unat (iv_uses_remaining i))) r'"
proof -
  let ?r = "r\<lparr>li_inner := al_insert (iv_secret i) i (li_inner r)\<rparr>"
  from assms(3) have p: "persist L ok ?r = (Inr u, r')" by (auto simp: mint_def Let_def split: prod.splits sum.splits)
  show ?thesis
  proof (rule within_persisted [OF _ _ p])
    show "keyed (li_inner ?r)" using assms(1,2) by (simp add: within_def keyed_insert)
    show "uses (li_inner ?r) k \<le> (b(iv_secret i := b (iv_secret i) + unat (iv_uses_remaining i))) k" for k
      using assms(1) by (simp add: within_def uses_insert)
  qed
qed

lemma mint_Inl:
  assumes "within L b r" and "invite_ok i" and "mint L ok r i = (Inl e, r')"
  shows "within L b r'" and "map_of (li_inner r') = map_of (li_inner r)" and "li_file r' = li_file r"
proof -
  let ?r = "r\<lparr>li_inner := al_insert (iv_secret i) i (li_inner r)\<rparr>"
  let ?m = "case map_of (li_inner r) (iv_secret i) of
      Some prev \<Rightarrow> al_insert (iv_secret i) prev (li_inner ?r) | None \<Rightarrow> al_remove (iv_secret i) (li_inner ?r)"
  from assms(3) obtain r'' where p: "persist L ok ?r = (Inl e, r'')" and r': "r' = r''\<lparr>li_inner :=
      (case map_of (li_inner r) (iv_secret i) of
         Some prev \<Rightarrow> al_insert (iv_secret i) prev (li_inner r'') | None \<Rightarrow> al_remove (iv_secret i) (li_inner r''))\<rparr>"
    by (auto simp: mint_def Let_def split: prod.splits sum.splits)
  from p have r'': "r'' = ?r" using persist_Inl by metis
  have r': "r' = r\<lparr>li_inner := ?m\<rparr>" using r' unfolding r'' by simp
  have k: "keyed (li_inner r)" using assms(1) by (simp add: within_def)
  have "map_of ?m = map_of (li_inner r)" by (auto simp: alist_simps split: option.splits)
  then show "map_of (li_inner r') = map_of (li_inner r)" by (simp add: r')
  then have u: "uses (li_inner r') = uses (li_inner r)" by (auto simp: uses_def)
  have ki: "keyed (li_inner ?r)" using keyed_insert [OF k assms(2)] by simp
  have "keyed ?m"
  proof (cases "map_of (li_inner r) (iv_secret i)")
    case None
    then show ?thesis using keyed_remove [OF ki] by simp
  next
    case (Some prev)
    then have "iv_secret prev = iv_secret i" "invite_ok prev" using invite_keyed_lookup [OF k] by auto
    then show ?thesis using Some keyed_insert [OF ki, of prev] by simp
  qed
  then show "within L b r'" using assms(1) u by (simp add: within_def r')
  show "li_file r' = li_file r" by (simp add: r')
qed

lemma checked_pred_Some: "checked_pred n = Some m \<longleftrightarrow> n \<noteq> 0 \<and> m = n - 1"
  by (auto simp: checked_pred_def)

lemma unat_pred: "n \<noteq> 0 \<Longrightarrow> unat (n - 1 :: u32) = unat n - 1"
  by (rule unat_minus_one)

lemma saturating_succ_pred: "n \<noteq> 0 \<Longrightarrow> saturating_succ (n - 1) = n"
  by (auto simp: saturating_succ_def diff_eq_eq)

text \<open>The registry after a use was taken from an entry.\<close>

definition spend :: "bytes \<Rightarrow> invite \<Rightarrow> (bytes \<times> invite) list \<Rightarrow> (bytes \<times> invite) list" where
  "spend k i m = (let left = iv_uses_remaining i - 1
     in if left = 0 then al_remove k m else al_insert k (i\<lparr>iv_uses_remaining := left\<rparr>) m)"

lemma try_redeem_cases:
  assumes "try_redeem L ok r k now = (x, r')"
  obtains
    (absent) "map_of (li_inner r) k = None" "x = Unknown" "r' = r"
  | (expired) i where "map_of (li_inner r) k = Some i" "iv_expires_at_epoch i < now"
      "r' = snd (persist L ok (r\<lparr>li_inner := al_remove k (li_inner r)\<rparr>))" "x \<in> {Expired, Unavailable}"
  | (spent) i where "map_of (li_inner r) k = Some i" "\<not> iv_expires_at_epoch i < now" "iv_uses_remaining i = 0"
      "x = Unknown" "r' = r"
  | (redeemed) i u where "map_of (li_inner r) k = Some i" "\<not> iv_expires_at_epoch i < now" "iv_uses_remaining i \<noteq> 0"
      "persist L ok (r\<lparr>li_inner := spend k i (li_inner r)\<rparr>) = (Inr u, r')"
      "x = RedeemOk (i\<lparr>iv_uses_remaining := iv_uses_remaining i - 1\<rparr>)"
  | (unrecorded) i where "map_of (li_inner r) k = Some i" "\<not> iv_expires_at_epoch i < now" "iv_uses_remaining i \<noteq> 0"
      "li_file r \<noteq> None" "\<not> ok" "x = Unavailable" "r' = r\<lparr>li_inner := al_insert k i (spend k i (li_inner r))\<rparr>"
proof (cases "map_of (li_inner r) k")
  case None
  then show thesis using assms by (intro absent) (auto simp: try_redeem_def)
next
  case (Some i)
  show thesis
  proof (cases "iv_expires_at_epoch i < now")
    case True
    show thesis
      using assms Some True
      by (intro expired [OF Some True]) (auto simp: try_redeem_def split: prod.splits sum.splits)
  next
    case live: False
    show thesis
    proof (cases "iv_uses_remaining i = 0")
      case True
      then show thesis using assms Some live by (intro spent [OF Some live True]) (auto simp: try_redeem_def checked_pred_def)
    next
      case False
      let ?r = "r\<lparr>li_inner := spend k i (li_inner r)\<rparr>"
      obtain y r'' where p: "persist L ok ?r = (y, r'')" by (cases "persist L ok ?r")
      have t: "try_redeem L ok r k now = (case persist L ok ?r of
          (Inr _, r') \<Rightarrow> (RedeemOk (i\<lparr>iv_uses_remaining := iv_uses_remaining i - 1\<rparr>), r')
        | (Inl _, r') \<Rightarrow> (Unavailable, r'\<lparr>li_inner := al_insert k
             (i\<lparr>iv_uses_remaining := saturating_succ (iv_uses_remaining i - 1)\<rparr>) (li_inner r')\<rparr>))"
        using Some live False
        by (simp add: try_redeem_def checked_pred_def spend_def Let_def split: prod.splits sum.splits)
      show thesis
      proof (cases y)
        case (Inr u)
        then show thesis using assms p t by (intro redeemed [OF Some live False]) auto
      next
        case (Inl e)
        then have "li_file r \<noteq> None" "\<not> ok" "r'' = ?r" using p persist_Inl [of L ok ?r e r''] by auto
        then show thesis
          using assms p t Inl by (intro unrecorded [OF Some live False]) (auto simp: saturating_succ_pred [OF False])
      qed
    qed
  qed
qed

lemma keyed_spend: "keyed m \<Longrightarrow> map_of m k = Some i \<Longrightarrow> keyed (spend k i m)"
proof -
  assume k: "keyed m" and i: "map_of m k = Some i"
  have ik: "iv_secret i = k" "invite_ok (i\<lparr>iv_uses_remaining := n\<rparr>)" for n
    using invite_keyed_lookup [OF k i] by (auto simp: invite_ok_def)
  have "keyed (al_insert k (i\<lparr>iv_uses_remaining := n\<rparr>) m)" for n using keyed_insert [OF k ik(2)] ik(1) by simp
  then show ?thesis by (simp add: spend_def Let_def keyed_remove [OF k])
qed

lemma uses_spend:
  "iv_uses_remaining i \<noteq> 0 \<Longrightarrow>
   uses (spend k i m) k' = (if k' = k then unat (iv_uses_remaining i) - 1 else uses m k')"
  by (simp add: spend_def Let_def uses_insert uses_remove unat_pred)

lemma uses_Some: "map_of m k = Some i \<Longrightarrow> uses m k = unat (iv_uses_remaining i)"
  by (simp add: uses_def)

lemma redeem_Ok:
  assumes "within L b r" and "try_redeem L ok r k now = (RedeemOk i, r')"
  shows "0 < b k" and "within L (b(k := b k - 1)) r'"
    and "\<exists>i'. map_of (li_inner r) k = Some i' \<and> now \<le> iv_expires_at_epoch i' \<and> iv_uses_remaining i' \<noteq> 0 \<and>
           i = i'\<lparr>iv_uses_remaining := iv_uses_remaining i' - 1\<rparr>"
proof -
  from assms(2) obtain i' u where i': "map_of (li_inner r) k = Some i'" "\<not> iv_expires_at_epoch i' < now" "iv_uses_remaining i' \<noteq> 0"
      "i = i'\<lparr>iv_uses_remaining := iv_uses_remaining i' - 1\<rparr>"
    and p: "persist L ok (r\<lparr>li_inner := spend k i' (li_inner r)\<rparr>) = (Inr u, r')"
    by (cases rule: try_redeem_cases) auto
  have k: "keyed (li_inner r)" and b: "\<And>j. uses (li_inner r) j \<le> b j" using assms(1) by (auto simp: within_def)
  have u: "unat (iv_uses_remaining i') \<le> b k" using b [of k] uses_Some [OF i'(1)] by simp
  moreover have "unat (iv_uses_remaining i') \<noteq> 0" using i'(3) by (simp add: unat_eq_0)
  ultimately show "0 < b k" by simp
  show "within L (b(k := b k - 1)) r'"
  proof (rule within_persisted [OF _ _ p])
    show "keyed (li_inner (r\<lparr>li_inner := spend k i' (li_inner r)\<rparr>))" using keyed_spend [OF k i'(1)] by simp
    show "uses (li_inner (r\<lparr>li_inner := spend k i' (li_inner r)\<rparr>)) j \<le> (b(k := b k - 1)) j" for j
      using diff_le_mono [OF u] b [of j] by (simp add: uses_spend [OF i'(3)])
  qed
  show "\<exists>i'. map_of (li_inner r) k = Some i' \<and> now \<le> iv_expires_at_epoch i' \<and> iv_uses_remaining i' \<noteq> 0 \<and>
      i = i'\<lparr>iv_uses_remaining := iv_uses_remaining i' - 1\<rparr>"
    using i' by (intro exI [of _ i']) (simp add: not_less)
qed

lemma redeem_not_Ok:
  assumes "within L b r" and "try_redeem L ok r k now = (x, r')" and "\<And>i. x \<noteq> RedeemOk i"
  shows "within L b r'"
proof -
  have k: "keyed (li_inner r)" and b: "\<And>j. uses (li_inner r) j \<le> b j" using assms(1) by (auto simp: within_def)
  from assms(2) show ?thesis
  proof (cases rule: try_redeem_cases)
    case (expired i)
    have "uses (al_remove k (li_inner r)) j \<le> b j" for j using b [of j] by (simp add: uses_remove)
    then show ?thesis using within_persist_any [OF assms(1) keyed_remove [OF k]] expired(3) by simp
  next
    case (unrecorded i)
    have i: "iv_secret i = k" "invite_ok i" using invite_keyed_lookup [OF k unrecorded(1)] by auto
    have "uses (al_insert k i (spend k i (li_inner r))) j \<le> b j" for j
      using b [of j] b [of k] uses_Some [OF unrecorded(1)] by (simp add: uses_insert uses_spend [OF unrecorded(3)])
    then show ?thesis
      using within_inner [OF assms(1) keyed_insert [OF keyed_spend [OF k unrecorded(1)] i(2)]] unrecorded(7) i(1) by simp
  qed (use assms in auto)
qed

lemma remove_expired_within: "within L b r \<Longrightarrow> within L b (remove_expired L ok r now)"
proof -
  assume w: "within L b r"
  let ?m = "filter (\<lambda>(_, i). now \<le> iv_expires_at_epoch i) (li_inner r)"
  have k: "keyed (li_inner r)" and b: "\<And>j. uses (li_inner r) j \<le> b j" using w by (auto simp: within_def)
  have u: "uses ?m j \<le> b j" for j using b [of j] uses_filter [of "li_inner r" _ j] k by (meson keyed_def order_trans)
  have "within L b (snd (persist L ok (r\<lparr>li_inner := ?m\<rparr>)))" "within L b (r\<lparr>li_inner := ?m\<rparr>)"
    by (rule within_persist_any [OF w keyed_filter [OF k] u], rule within_inner [OF w keyed_filter [OF k] u])
  then show ?thesis by (simp add: remove_expired_def Let_def)
qed

lemma load_holds:
  assumes "json_text_roundtrip L" and "file_holds L f m"
  shows "li_inner (li_load L ok f now) = filter (\<lambda>(_, i). now \<le> iv_expires_at_epoch i) m"
    and "\<exists>f' m'. li_file (li_load L ok f now) = Some f' \<and> file_holds L f' m' \<and>
           (m' = m \<or> m' = filter (\<lambda>(_, i). now \<le> iv_expires_at_epoch i) m)"
proof -
  let ?m = "filter (\<lambda>(_, i). now \<le> iv_expires_at_epoch i) m"
  have k: "keyed ?m" using assms(2) by (auto simp: file_holds_def intro: keyed_filter)
  have l: "file_load L f now = map snd ?m" by (rule file_load_holds [OF assms])
  show "li_inner (li_load L ok f now) = ?m" by (simp add: li_load_def l collect_keyed [OF k] Let_def)
  have "file_holds L (file_image L ?m) ?m" using k by (simp add: file_holds_def)
  then show "\<exists>f' m'. li_file (li_load L ok f now) = Some f' \<and> file_holds L f' m' \<and> (m' = m \<or> m' = ?m)"
    using assms(2) by (auto simp: li_load_def Let_def l collect_keyed [OF k] file_store_eq)
qed

lemma load_within:
  assumes "json_text_roundtrip L" and "within L b r" and "li_file r = Some f"
  shows "within L b (li_load L ok f now)"
proof -
  from assms(2,3) obtain m where m: "file_holds L f m" "\<And>k. uses m k \<le> b k" by (auto simp: within_def)
  then have "distinct (al_keys m)" and km: "keyed m" by (auto simp: file_holds_def keyed_def)
  then have u: "uses (filter P m) k \<le> b k" for P k using uses_filter m(2) order_trans by metis
  show ?thesis
    using load_holds [OF assms(1) m(1), of ok now] keyed_filter [OF km] u m(2) unfolding within_def by auto
qed

end
