(* ===== verification/Unicode.thy ===== *)
theory Unicode
  imports Prelude
begin

text \<open>
  Text as the program's \<open>str\<close> operations see it: a string is its UTF-8 bytes, and what looks at
  characters (\<open>trim\<close>, \<open>chars\<close>, \<open>char::is_control\<close>) works on the decoded scalar values.
\<close>

type_synonym utext = "nat list"

definition is_whitespace :: "nat \<Rightarrow> bool" where
  "is_whitespace c \<longleftrightarrow> 9 \<le> c \<and> c \<le> 13 \<or> c \<in> {32, 133, 160, 5760, 8232, 8233, 8239, 8287, 12288} \<or>
     8192 \<le> c \<and> c \<le> 8202"

definition is_control :: "nat \<Rightarrow> bool" where
  "is_control c \<longleftrightarrow> c < 32 \<or> 127 \<le> c \<and> c < 160"

definition trim_matches :: "(nat \<Rightarrow> bool) \<Rightarrow> utext \<Rightarrow> utext" where
  "trim_matches p w = rev (dropWhile p (rev (dropWhile p w)))"

fun utf8_chars :: "nat list \<Rightarrow> nat list" where
  "utf8_chars [] = []"
| "utf8_chars (a # bs) =
     (if a < 128 then a # utf8_chars bs
      else (case bs of
        [] \<Rightarrow> []
      | b # cs \<Rightarrow>
          if a < 224 then ((a - 192) * 64 + (b - 128)) # utf8_chars cs
          else (case cs of
            [] \<Rightarrow> []
          | c # ds \<Rightarrow>
              if a < 240 then ((a - 224) * 4096 + (b - 128) * 64 + (c - 128)) # utf8_chars ds
              else (case ds of
                [] \<Rightarrow> []
              | d # es \<Rightarrow> ((a - 240) * 262144 + (b - 128) * 4096 + (c - 128) * 64 + (d - 128)) # utf8_chars es))))"

definition utf8_char :: "nat \<Rightarrow> nat list" where
  "utf8_char c =
     (if c < 128 then [c]
      else if c < 2048 then [192 + c div 64, 128 + c mod 64]
      else if c < 65536 then [224 + c div 4096, 128 + c div 64 mod 64, 128 + c mod 64]
      else [240 + c div 262144, 128 + c div 4096 mod 64, 128 + c div 64 mod 64, 128 + c mod 64])"

definition chars_of :: "string \<Rightarrow> nat list" where
  "chars_of s = utf8_chars (map of_char s)"

definition string_of_chars :: "nat list \<Rightarrow> string" where
  "string_of_chars cs = map char_of (concat (map utf8_char cs))"

lemma utf8_char_parses: "c < 1114112 \<Longrightarrow> utf8_chars (utf8_char c @ r) = c # utf8_chars r"
proof -
  assume c: "c < 1114112"
  have d1: "c mod 64 + 64 * (c div 64) = c" by simp
  have d2: "c div 64 mod 64 + 64 * (c div 4096) = c div 64" "c div 4096 mod 64 + 64 * (c div 262144) = c div 4096"
    using mod_mult_div_eq [of "c div 64" 64] mod_mult_div_eq [of "c div 4096" 64] by (simp_all flip: div_mult2_eq)
  have "c mod 64 + (64 * (c div 64 mod 64) + 4096 * (c div 4096)) = c"
    "c mod 64 + (64 * (c div 64 mod 64) + (4096 * (c div 4096 mod 64) + 262144 * (c div 262144))) = c"
    using d1 d2 by linarith+
  then show ?thesis using c d1 by (auto simp: utf8_char_def div_less_iff_less_mult algebra_simps)
qed

definition str_trim :: "string \<Rightarrow> string" where
  "str_trim s = string_of_chars (trim_matches is_whitespace (chars_of s))"

lemma chars_ascii: "\<forall>c \<in> set s. (of_char c :: nat) < 128 \<Longrightarrow> chars_of s = map of_char s"
  by (induction s) (auto simp: chars_of_def)

lemma string_ascii: "\<forall>c \<in> set s. (of_char c :: nat) < 128 \<Longrightarrow> string_of_chars (map of_char s) = s"
  by (induction s) (auto simp: string_of_chars_def utf8_char_def)

lemma trim_nothing:
  assumes "cs = [] \<or> \<not> p (hd cs) \<and> \<not> p (last cs)"
  shows "trim_matches p cs = cs"
proof -
  have "dropWhile p cs = cs" using assms by (cases cs) auto
  moreover have "dropWhile p (rev cs) = rev cs" using assms by (cases cs rule: rev_cases) auto
  ultimately show ?thesis by (simp add: trim_matches_def)
qed

end
