(* ===== verification/Phrase.thy ===== *)
theory Phrase
  imports Libs Unicode "HOL-Library.Char_ord"
begin

text \<open>
  Words a human reads aloud or writes down: the short authentication code of a pairing and the
  fingerprints (\<open>node/src/pairing/sas.rs\<close>), and the recovery phrase of a user key
  (\<open>node/src/pairing/recovery.rs\<close>), 32 key bytes as 32 words and one checksum word.

  What a person typed is a sequence of Unicode scalar values. \<open>to_lowercase\<close> is written out for
  ASCII words; on a word with other characters it is a parameter.
\<close>

definition WORDS :: "string list" where
  "WORDS = [
     ''abandon'', ''ability'', ''able'', ''about'', ''above'', ''absent'', ''absorb'', ''abstract'',
     ''absurd'', ''abuse'', ''access'', ''accident'', ''account'', ''accuse'', ''achieve'', ''acid'',
     ''acoustic'', ''acquire'', ''across'', ''act'', ''action'', ''actor'', ''actress'', ''actual'',
     ''adapt'', ''add'', ''addict'', ''address'', ''adjust'', ''admit'', ''adult'', ''advance'',
     ''advice'', ''aerobic'', ''affair'', ''afford'', ''afraid'', ''again'', ''age'', ''agent'',
     ''agree'', ''ahead'', ''aim'', ''air'', ''airport'', ''aisle'', ''alarm'', ''album'',
     ''alcohol'', ''alert'', ''alien'', ''all'', ''alley'', ''allow'', ''almost'', ''alone'',
     ''alpha'', ''already'', ''also'', ''alter'', ''always'', ''amateur'', ''amazing'', ''among'',
     ''amount'', ''amused'', ''analyst'', ''anchor'', ''ancient'', ''anger'', ''angle'', ''angry'',
     ''animal'', ''ankle'', ''announce'', ''annual'', ''another'', ''answer'', ''antenna'', ''antique'',
     ''anxiety'', ''any'', ''apart'', ''apology'', ''appear'', ''apple'', ''approve'', ''april'',
     ''arch'', ''arctic'', ''area'', ''arena'', ''argue'', ''arm'', ''armed'', ''armor'',
     ''army'', ''around'', ''arrange'', ''arrest'', ''arrive'', ''arrow'', ''art'', ''artefact'',
     ''artist'', ''artwork'', ''ask'', ''aspect'', ''assault'', ''asset'', ''assist'', ''assume'',
     ''asthma'', ''athlete'', ''atom'', ''attack'', ''attend'', ''attitude'', ''attract'', ''auction'',
     ''audit'', ''august'', ''aunt'', ''author'', ''auto'', ''autumn'', ''average'', ''avocado'',
     ''avoid'', ''awake'', ''aware'', ''away'', ''awesome'', ''awful'', ''awkward'', ''axis'',
     ''baby'', ''bachelor'', ''bacon'', ''badge'', ''bag'', ''balance'', ''balcony'', ''ball'',
     ''bamboo'', ''banana'', ''banner'', ''bar'', ''barely'', ''bargain'', ''barrel'', ''base'',
     ''basic'', ''basket'', ''battle'', ''beach'', ''bean'', ''beauty'', ''because'', ''become'',
     ''beef'', ''before'', ''begin'', ''behave'', ''behind'', ''believe'', ''below'', ''belt'',
     ''bench'', ''benefit'', ''best'', ''betray'', ''better'', ''between'', ''beyond'', ''bicycle'',
     ''bid'', ''bike'', ''bind'', ''biology'', ''bird'', ''birth'', ''bitter'', ''black'',
     ''blade'', ''blame'', ''blanket'', ''blast'', ''bleak'', ''bless'', ''blind'', ''blood'',
     ''blossom'', ''blouse'', ''blue'', ''blur'', ''blush'', ''board'', ''boat'', ''body'',
     ''boil'', ''bomb'', ''bone'', ''bonus'', ''book'', ''boost'', ''border'', ''boring'',
     ''borrow'', ''boss'', ''bottom'', ''bounce'', ''box'', ''boy'', ''bracket'', ''brain'',
     ''brand'', ''brass'', ''brave'', ''bread'', ''breeze'', ''brick'', ''bridge'', ''brief'',
     ''bright'', ''bring'', ''brisk'', ''broccoli'', ''broken'', ''bronze'', ''broom'', ''brother'',
     ''brown'', ''brush'', ''bubble'', ''buddy'', ''budget'', ''buffalo'', ''build'', ''bulb'',
     ''bulk'', ''bullet'', ''bundle'', ''bunker'', ''burden'', ''burger'', ''burst'', ''bus'',
     ''business'', ''busy'', ''butter'', ''buyer'', ''buzz'', ''cabbage'', ''cabin'', ''cable'']"

fun join :: "string \<Rightarrow> string list \<Rightarrow> string" where
  "join sep [] = []"
| "join sep [w] = w"
| "join sep (w # ws) = w @ sep @ join sep ws"

definition digest_words :: "nat \<Rightarrow> bytes \<Rightarrow> string" where
  "digest_words n digest = join ''-'' (map (\<lambda>i. WORDS ! (unat (digest ! i) mod length WORDS)) [0..<n])"

subsection \<open>Codes\<close>

definition sas_transcript :: "bytes \<Rightarrow> bytes \<Rightarrow> bytes \<Rightarrow> bytes" where
  "sas_transcript id_a id_b secret =
     (let (lo, hi) = (if id_a \<le> id_b then (id_a, id_b) else (id_b, id_a))
      in str_bytes ''mcpmesh/pair/sas/1'' @ lo @ hi @ secret)"

definition short_auth_code :: "libs \<Rightarrow> bytes \<Rightarrow> bytes \<Rightarrow> bytes \<Rightarrow> string" where
  "short_auth_code L id_a id_b secret = digest_words 3 (blake3_hash L (sas_transcript id_a id_b secret))"

definition org_fingerprint_input :: "bytes \<Rightarrow> bytes" where
  "org_fingerprint_input pk_bytes = str_bytes ''mcpmesh/roster/org-root-fingerprint/1'' @ pk_bytes"

definition fingerprint_words :: "libs \<Rightarrow> bytes \<Rightarrow> string" where
  "fingerprint_words L pk_bytes = digest_words 4 (blake3_hash L (org_fingerprint_input pk_bytes))"

definition join_code_input :: "bytes \<Rightarrow> bytes \<Rightarrow> bytes" where
  "join_code_input user_pk device_endpoint_id =
     str_bytes ''mcpmesh/join/code-fingerprint/1'' @ user_pk @ device_endpoint_id"

definition join_code_fingerprint :: "libs \<Rightarrow> bytes \<Rightarrow> bytes \<Rightarrow> string" where
  "join_code_fingerprint L user_pk device_endpoint_id =
     digest_words 4 (blake3_hash L (join_code_input user_pk device_endpoint_id))"

subsection \<open>The recovery phrase\<close>

definition text_of :: "string \<Rightarrow> utext" where
  "text_of s = map of_char s"

definition is_ascii_alphabetic :: "nat \<Rightarrow> bool" where
  "is_ascii_alphabetic c \<longleftrightarrow> 65 \<le> c \<and> c \<le> 90 \<or> 97 \<le> c \<and> c \<le> 122"

fun split_whitespace :: "utext \<Rightarrow> utext \<Rightarrow> utext list" where
  "split_whitespace cur [] = (if cur = [] then [] else [cur])"
| "split_whitespace cur (c # cs) =
     (if is_whitespace c then (if cur = [] then [] else [cur]) @ split_whitespace [] cs
      else split_whitespace (cur @ [c]) cs)"

definition to_lowercase :: "(utext \<Rightarrow> utext) \<Rightarrow> utext \<Rightarrow> utext" where
  "to_lowercase unicode_lower w =
     (if \<forall>c \<in> set w. c < 128 then map (\<lambda>c. if 65 \<le> c \<and> c \<le> 90 then c + 32 else c) w
      else unicode_lower w)"

definition phrase_words :: "(utext \<Rightarrow> utext) \<Rightarrow> utext \<Rightarrow> utext list" where
  "phrase_words unicode_lower phrase =
     filter (\<lambda>w. w \<noteq> []) (map (\<lambda>w. to_lowercase unicode_lower (trim_matches (\<lambda>c. \<not> is_ascii_alphabetic c) w))
       (split_whitespace [] phrase))"

definition KEY_WORDS :: nat where "KEY_WORDS = 32"
definition PHRASE_WORDS :: nat where "PHRASE_WORDS = KEY_WORDS + 1"

definition checksum :: "libs \<Rightarrow> bytes \<Rightarrow> byte" where
  "checksum L key = blake3_hash L key ! 0"

definition key_words :: "libs \<Rightarrow> bytes \<Rightarrow> string list" where
  "key_words L key = map (\<lambda>b. WORDS ! unat b) key @ [WORDS ! unat (checksum L key)]"

definition phrase_encode :: "libs \<Rightarrow> bytes \<Rightarrow> string" where
  "phrase_encode L key = join '' '' (key_words L key)"

datatype phrase_error = WrongCount nat | NotARecoveryWord nat utext | ChecksumMismatch

fun phrase_loop :: "libs \<Rightarrow> nat \<Rightarrow> utext list \<Rightarrow> bytes \<Rightarrow> phrase_error + bytes" where
  "phrase_loop L i [] key = Inr key"
| "phrase_loop L i (w # ws) key =
     (case position (\<lambda>c. text_of c = w) WORDS of
        None \<Rightarrow> Inl (NotARecoveryWord (i + 1) w)
      | Some idx \<Rightarrow>
          if i < KEY_WORDS then phrase_loop L (i + 1) ws (key[i := word_of_nat idx])
          else if word_of_nat idx = checksum L key then phrase_loop L (i + 1) ws key
          else Inl ChecksumMismatch)"

definition phrase_decode :: "libs \<Rightarrow> (utext \<Rightarrow> utext) \<Rightarrow> utext \<Rightarrow> phrase_error + bytes" where
  "phrase_decode L unicode_lower phrase =
     (let words = phrase_words unicode_lower phrase
      in if length words \<noteq> PHRASE_WORDS then Inl (WrongCount (length words))
         else phrase_loop L 0 words (replicate 32 0))"

subsection \<open>The word list\<close>

lemma length_WORDS: "length WORDS = 256"
  by (simp add: WORDS_def)

lemma WORDS_ascending: "successively (<) WORDS"
  by code_simp

lemma WORDS_letters: "list_all (\<lambda>w. w \<noteq> [] \<and> list_all (\<lambda>c. CHR ''a'' \<le> c \<and> c \<le> CHR ''z'') w) WORDS"
  by code_simp

lemma distinct_WORDS: "distinct WORDS"
  using WORDS_ascending by (simp add: successively_conv_sorted_wrt transp_on_less strict_sorted_iff)

lemma text_of_inj [simp]: "text_of a = text_of b \<longleftrightarrow> a = b"
  by (simp add: text_of_def inj_map_eq_map inj_on_def)

lemma word_index:
  "position (\<lambda>c. text_of c = w) WORDS = Some n \<longleftrightarrow> n < 256 \<and> w = text_of (WORDS ! n)"
proof
  assume "position (\<lambda>c. text_of c = w) WORDS = Some n"
  then show "n < 256 \<and> w = text_of (WORDS ! n)" using position_Some by (fastforce simp: length_WORDS)
next
  assume n: "n < 256 \<and> w = text_of (WORDS ! n)"
  then have "position (\<lambda>c. text_of c = w) WORDS \<noteq> None"
    unfolding position_None by (metis length_WORDS nth_mem)
  then obtain m where m: "position (\<lambda>c. text_of c = w) WORDS = Some m" by blast
  then have "m < length WORDS" "WORDS ! m = WORDS ! n" using position_Some n by fastforce+
  then have "m = n" using n distinct_WORDS nth_eq_iff_index_eq length_WORDS by metis
  with m show "position (\<lambda>c. text_of c = w) WORDS = Some n" by simp
qed

lemma byte_index: "unat (b :: byte) < 256" "n < 256 \<Longrightarrow> unat (word_of_nat n :: byte) = n"
  using unsigned_less [where ?'a = nat, of b] by (simp_all add: unat_of_nat)

lemma word_of_byte:
  "position (\<lambda>c. text_of c = w) WORDS = Some n \<longleftrightarrow>
   (\<exists>b :: byte. n = unat b \<and> w = text_of (WORDS ! unat b))"
  unfolding word_index using byte_index by metis

lemma word_of_byte_text: "position (\<lambda>c. text_of c = text_of (WORDS ! unat (b :: byte))) WORDS = Some (unat b)"
  apply (rule word_of_byte [THEN iffD2])
  apply (rule exI [of _ b])
  apply (rule conjI)
  apply (rule refl)
  apply (rule refl)
  done

lemma word_of_byte_pos [simp]: "position (\<lambda>c. c = WORDS ! unat (b :: byte)) WORDS = Some (unat b)"
  using word_of_byte_text by (simp only: text_of_inj)

lemma word_eq [simp]: "WORDS ! unat a = WORDS ! unat b \<longleftrightarrow> a = (b :: byte)"
proof
  assume e: "WORDS ! unat a = WORDS ! unat b"
  have "Some (unat a) = Some (unat b)"
    unfolding word_of_byte_pos [symmetric] e ..
  then show "a = b" by (simp add: word_unat_eq_iff)
qed simp

lemma word_cases:
  obtains (none) "position (\<lambda>c. text_of c = w) WORDS = None" "\<And>b :: byte. w \<noteq> text_of (WORDS ! unat b)"
  | (byte) b :: byte where "w = text_of (WORDS ! unat b)"
proof (cases "position (\<lambda>c. text_of c = w) WORDS")
  case None
  then have "w \<noteq> text_of (WORDS ! unat b)" for b :: byte using word_of_byte_pos [of b] by auto
  with None show ?thesis by (rule none)
next
  case (Some n)
  then show ?thesis using word_of_byte byte by blast
qed

lemma ex_list_Suc: "(\<exists>xs. length xs = Suc n \<and> Q xs) \<longleftrightarrow> (\<exists>x xs. length xs = n \<and> Q (x # xs))"
  by (metis length_Suc_conv)

text \<open>Decoding, from any position on.\<close>

lemma phrase_loop_Inr:
  assumes "length key = 32" "i \<le> 32" "length ws = 33 - i"
  shows "phrase_loop L i ws key = Inr k \<longleftrightarrow>
    (\<exists>bs. length bs = 32 - i \<and> k = take i key @ bs \<and>
       ws = map text_of (map (\<lambda>b. WORDS ! unat b) bs @ [WORDS ! unat (checksum L k)]))"
  using assms
proof (induction ws arbitrary: i key)
  case (Cons w ws)
  show ?case
  proof (cases "i < 32")
    case True
    have l: "32 - i = Suc (31 - i)" using True by simp
    have t: "take (Suc i) (key[i := b]) = take i key @ [b]" for b
      using True Cons.prems(1) by (simp add: take_Suc_conv_app_nth)
    have IH: "phrase_loop L (Suc i) ws (key[i := b]) = Inr k \<longleftrightarrow>
      (\<exists>bs. length bs = 31 - i \<and> k = take i key @ b # bs \<and>
         ws = map text_of (map (\<lambda>b. WORDS ! unat b) bs @ [WORDS ! unat (checksum L k)]))" for b
      using Cons.IH [of "key[i := b]" "Suc i"] Cons.prems True t by simp
    have "phrase_loop L i (w # ws) key = Inr k \<longleftrightarrow>
      (\<exists>b. w = text_of (WORDS ! unat b) \<and> phrase_loop L (Suc i) ws (key[i := b]) = Inr k)"
      by (cases w rule: word_cases) (simp_all add: KEY_WORDS_def True)
    also have "\<dots> \<longleftrightarrow> (\<exists>b bs. length bs = 31 - i \<and> k = take i key @ b # bs \<and>
       w # ws = map text_of (map (\<lambda>b. WORDS ! unat b) (b # bs) @ [WORDS ! unat (checksum L k)]))"
      unfolding IH by auto
    also have "\<dots> \<longleftrightarrow> (\<exists>bs. length bs = 32 - i \<and> k = take i key @ bs \<and>
       w # ws = map text_of (map (\<lambda>b. WORDS ! unat b) bs @ [WORDS ! unat (checksum L k)]))"
      unfolding l ex_list_Suc ..
    finally show ?thesis .
  next
    case False
    then have "i = 32" "ws = []" using Cons.prems by auto
    then show ?thesis using Cons.prems(1)
      by (cases w rule: word_cases) (auto simp: KEY_WORDS_def)
  qed
qed simp

lemma phrase_decode_Inr:
  "phrase_decode L lower p = Inr k \<longleftrightarrow> length k = 32 \<and> phrase_words lower p = map text_of (key_words L k)"
proof -
  have "phrase_decode L lower p = Inr k \<longleftrightarrow> length (phrase_words lower p) = 33 \<and>
      phrase_loop L 0 (phrase_words lower p) (replicate 32 0) = Inr k"
    by (simp add: phrase_decode_def Let_def PHRASE_WORDS_def KEY_WORDS_def)
  also have "\<dots> \<longleftrightarrow> length k = 32 \<and> phrase_words lower p = map text_of (key_words L k)"
    using phrase_loop_Inr [of "replicate 32 0" 0 "phrase_words lower p" L k] by (auto simp: key_words_def)
  finally show ?thesis .
qed

text \<open>Writing a phrase down and reading it back.\<close>

lemma text_of_append [simp]: "text_of (a @ b) = text_of a @ text_of b"
  by (simp add: text_of_def)

lemma WORDS_plain:
  assumes "w \<in> set WORDS"
  shows "w \<noteq> [] \<and> (\<forall>c \<in> set (text_of w). 97 \<le> c \<and> c \<le> 122)"
proof -
  have "w \<noteq> []" and l: "\<forall>c \<in> set w. CHR ''a'' \<le> c \<and> c \<le> CHR ''z''"
    using WORDS_letters assms by (auto simp: list_all_iff)
  moreover have "97 \<le> (of_char c :: nat) \<and> (of_char c :: nat) \<le> 122" if "c \<in> set w" for c
    using l that unfolding less_eq_char_def by fastforce
  ultimately show ?thesis by (simp add: text_of_def)
qed

lemma split_word:
  "\<forall>c \<in> set w. \<not> is_whitespace c \<Longrightarrow> split_whitespace cur (w @ rest) = split_whitespace (cur @ w) rest"
  by (induction w arbitrary: cur) auto

lemma split_join:
  "ws \<noteq> [] \<Longrightarrow> \<forall>w \<in> set ws. w \<noteq> [] \<and> (\<forall>c \<in> set (text_of w). \<not> is_whitespace c) \<Longrightarrow>
   split_whitespace [] (text_of (join '' '' ws)) = map text_of ws"
proof (induction "'' ''" ws rule: join.induct)
  case (2 w)
  then show ?case using split_word [of "text_of w" "[]" "[]"] by (simp add: text_of_def)
next
  case (3 w v ws)
  have "text_of '' '' = [32]" "is_whitespace 32" by (simp_all add: text_of_def is_whitespace_def)
  then show ?case using 3 split_word [of "text_of w" "[]"] by (simp add: text_of_def)
qed simp

lemma trim_alphabetic: "\<forall>c \<in> set w. is_ascii_alphabetic c \<Longrightarrow> trim_matches (\<lambda>c. \<not> is_ascii_alphabetic c) w = w"
proof -
  assume a: "\<forall>c \<in> set w. is_ascii_alphabetic c"
  have "dropWhile (\<lambda>c. \<not> is_ascii_alphabetic c) v = v" if "\<forall>c \<in> set v. is_ascii_alphabetic c" for v
    using that by (cases v) auto
  from this [OF a] this [of "rev w"] a show ?thesis by (simp add: trim_matches_def)
qed

lemma phrase_words_join:
  assumes "ws \<noteq> []" "set ws \<subseteq> set WORDS"
  shows "phrase_words lower (text_of (join '' '' ws)) = map text_of ws"
proof -
  have p: "w \<noteq> [] \<and> (\<forall>c \<in> set (text_of w). 97 \<le> c \<and> c \<le> 122)" if "w \<in> set ws" for w
    using WORDS_plain assms(2) that by blast
  have "\<not> is_whitespace c" if "97 \<le> c" "c \<le> 122" for c using that by (auto simp: is_whitespace_def)
  then have "split_whitespace [] (text_of (join '' '' ws)) = map text_of ws"
    using p by (intro split_join [OF assms(1)]) blast
  moreover have "to_lowercase lower (trim_matches (\<lambda>c. \<not> is_ascii_alphabetic c) (text_of w)) = text_of w"
    if "w \<in> set ws" for w
  proof -
    have "trim_matches (\<lambda>c. \<not> is_ascii_alphabetic c) (text_of w) = text_of w"
      using p [OF that] by (intro trim_alphabetic) (auto simp: is_ascii_alphabetic_def)
    moreover have "map (\<lambda>c. if 65 \<le> c \<and> c \<le> 90 then c + 32 else c) (text_of w) = text_of w"
      using p [OF that] by (intro map_idI) auto
    moreover have "\<forall>c \<in> set (text_of w). c < 128" using p [OF that] by fastforce
    ultimately show ?thesis by (simp add: to_lowercase_def)
  qed
  moreover have "text_of w \<noteq> []" if "w \<in> set ws" for w using p [OF that] by (simp add: text_of_def)
  ultimately show ?thesis by (simp add: phrase_words_def cong: map_cong)
qed

lemma key_words_in: "set (key_words L k) \<subseteq> set WORDS"
  using byte_index(1) by (auto simp: key_words_def length_WORDS intro!: nth_mem)

subsection \<open>The short authentication code\<close>

lemma sas_sym: "sas_transcript a b s = sas_transcript b a s"
  by (auto simp: sas_transcript_def)

lemma sas_transcript_inj:
  assumes "length a = 32" "length b = 32" "length a' = 32" "length b' = 32"
  shows "sas_transcript a b s = sas_transcript a' b' s' \<longleftrightarrow> {a, b} = {a', b'} \<and> s = s'"
  using assms by (auto simp: sas_transcript_def doubleton_eq_iff split: if_splits)

lemma transcripts_disjoint:
  "sas_transcript a b s \<noteq> org_fingerprint_input pk" "sas_transcript a b s \<noteq> join_code_input u e"
  "org_fingerprint_input pk \<noteq> join_code_input u e"
  by (auto simp: sas_transcript_def org_fingerprint_input_def join_code_input_def str_bytes_def Let_def)

end
