(* ===== verification/Config_Write.thy ===== *)
theory Config_Write
  imports Peer_Store "HOL-Library.Countable"
begin

text \<open>
  The daemon's \<open>config.toml\<close>: its surgical read-modify-write writers
  (\<open>node/src/daemon/config_write.rs\<close>) and what \<open>Config::load\<close> (\<open>node/src/config.rs\<close>) reads back.

  A TOML table is a key-ordered association list (\<open>toml::Table\<close> is a \<open>BTreeMap\<close>). The TOML parser and
  printer are parameters; \<open>toml_roundtrip\<close> is what their documentation promises of a printed
  document behind a comment line. \<open>atomic_write\<close> replaces the whole file or leaves it alone, and the
  environment's choice between the two is the flag \<open>ok\<close> of every writer.
\<close>

datatype toml =
    TString string
  | TInteger int
  | TFloat u64
  | TBoolean bool
  | TDatetime string
  | TArray "toml list"
  | TTable "(string \<times> toml) list"

type_synonym toml_table = "(string \<times> toml) list"

record toml_lib =
  toml_from_str :: "string \<Rightarrow> toml_table option"
  toml_to_string_pretty :: "toml_table \<Rightarrow> string option"

datatype config_file = Absent | Unreadable | Content string

datatype config_error =
    ReadConfig
  | ParseConfig
  | SerializeConfig
  | WriteConfig
  | NotATable string
  | AllowNotAnArray string

fun toml_as_str :: "toml \<Rightarrow> string option" where
  "toml_as_str (TString s) = Some s"
| "toml_as_str _ = None"

fun toml_as_table :: "toml \<Rightarrow> toml_table option" where
  "toml_as_table (TTable t) = Some t"
| "toml_as_table _ = None"

fun toml_as_array :: "toml \<Rightarrow> toml list option" where
  "toml_as_array (TArray a) = Some a"
| "toml_as_array _ = None"

fun toml_as_integer :: "toml \<Rightarrow> int option" where
  "toml_as_integer (TInteger i) = Some i"
| "toml_as_integer _ = None"

subsection \<open>Reading and replacing the file\<close>

definition read_config_for_rmw :: "config_file \<Rightarrow> config_error + string" where
  "read_config_for_rmw f =
     (case f of Content s \<Rightarrow> Inr s | Absent \<Rightarrow> Inr [] | Unreadable \<Rightarrow> Inl ReadConfig)"

definition CONFIG_HEADER :: string where
  "CONFIG_HEADER = ''# mcpmesh config '' @ [CHR 0xE2, CHR 0x80, CHR 0x94] @
     '' every table and key is documented in docs/config.md (https://github.com/counterpunchtech/mcpmesh/blob/main/docs/config.md)''"

definition NEWLINE :: string where "NEWLINE = [CHR 0x0A]"

definition atomic_write :: "bool \<Rightarrow> string \<Rightarrow> config_error + config_file" where
  "atomic_write ok s = (if ok then Inr (Content s) else Inl WriteConfig)"

definition write_config_doc :: "toml_lib \<Rightarrow> bool \<Rightarrow> toml_table \<Rightarrow> config_error + config_file" where
  "write_config_doc T ok doc =
     rbind (ok_or SerializeConfig (toml_to_string_pretty T doc)) (\<lambda>rendered.
     atomic_write ok (CONFIG_HEADER @ NEWLINE @ rendered))"

text \<open>
  The discipline of every writer: read, parse, edit the document, and write it back only when the
  edit says it changed something. An edit fails, or returns the new document and that flag.
\<close>

definition rmw ::
  "toml_lib \<Rightarrow> bool \<Rightarrow> config_file \<Rightarrow> (toml_table \<Rightarrow> config_error + toml_table \<times> bool) \<Rightarrow> config_error + config_file \<times> bool" where
  "rmw T ok f edit =
     rbind (read_config_for_rmw f) (\<lambda>existing.
     rbind (ok_or ParseConfig (toml_from_str T existing)) (\<lambda>doc.
     rbind (edit doc) (\<lambda>(doc', changed).
     if changed then rbind (write_config_doc T ok doc') (\<lambda>f'. Inr (f', True)) else Inr (f, False))))"

subsection \<open>String keys of one table\<close>

definition upsert_strings_edit :: "string \<Rightarrow> (string \<times> string) list \<Rightarrow> toml_table \<Rightarrow> config_error + toml_table \<times> bool" where
  "upsert_strings_edit table pairs doc =
     (case (case map_of doc table of None \<Rightarrow> TTable [] | Some v \<Rightarrow> v) of
        TTable entry \<Rightarrow>
          Inr (tbl_insert table (TTable (foldl (\<lambda>t (k, v). tbl_insert k (TString v) t) entry pairs)) doc, True)
      | _ \<Rightarrow> Inl (NotATable table))"

definition upsert_config_strings ::
  "toml_lib \<Rightarrow> bool \<Rightarrow> config_file \<Rightarrow> string \<Rightarrow> (string \<times> string) list \<Rightarrow> config_error + config_file \<times> bool" where
  "upsert_config_strings T ok f table pairs = rmw T ok f (upsert_strings_edit table pairs)"

definition write_identity_pin :: "toml_lib \<Rightarrow> bool \<Rightarrow> config_file \<Rightarrow> string \<Rightarrow> string \<Rightarrow> config_error + config_file \<times> bool" where
  "write_identity_pin T ok f org_root_pk org_id =
     upsert_config_strings T ok f ''identity'' [(''org_root_pk'', org_root_pk), (''org_id'', org_id)]"

definition write_identity_user_id :: "toml_lib \<Rightarrow> bool \<Rightarrow> config_file \<Rightarrow> string \<Rightarrow> config_error + config_file \<times> bool" where
  "write_identity_user_id T ok f user_id = upsert_config_strings T ok f ''identity'' [(''user_id'', user_id)]"

definition write_join_pin ::
  "toml_lib \<Rightarrow> bool \<Rightarrow> config_file \<Rightarrow> string \<Rightarrow> string \<Rightarrow> string \<Rightarrow> string \<Rightarrow> config_error + config_file \<times> bool" where
  "write_join_pin T ok f org_id org_root_pk user_id user_key =
     upsert_config_strings T ok f ''identity''
       [(''org_id'', org_id), (''org_root_pk'', org_root_pk), (''user_id'', user_id), (''user_key'', user_key)]"

definition write_roster_url :: "toml_lib \<Rightarrow> bool \<Rightarrow> config_file \<Rightarrow> string \<Rightarrow> config_error + config_file \<times> bool" where
  "write_roster_url T ok f url = upsert_config_strings T ok f ''roster'' [(''url'', url)]"

definition write_identity_nickname :: "toml_lib \<Rightarrow> bool \<Rightarrow> config_file \<Rightarrow> string \<Rightarrow> config_error + config_file \<times> bool" where
  "write_identity_nickname T ok f nickname = upsert_config_strings T ok f ''identity'' [(''nickname'', nickname)]"

definition write_relays :: "toml_lib \<Rightarrow> bool \<Rightarrow> config_file \<Rightarrow> string list \<Rightarrow> config_error + config_file \<times> bool" where
  "write_relays T ok f urls = rmw T ok f (\<lambda>doc.
     case (case map_of doc ''network'' of None \<Rightarrow> TTable [] | Some v \<Rightarrow> v) of
       TTable network \<Rightarrow>
         Inr (tbl_insert ''network''
               (TTable (tbl_insert ''relay_urls'' (TArray (map TString urls))
                         (tbl_insert ''relay_mode'' (TString ''custom'') network))) doc, True)
     | _ \<Rightarrow> Inl (NotATable ''network''))"

subsection \<open>Service entries\<close>

datatype backend_spec =
    RunSpec "string list" "(string \<times> string) list" "string option"
  | SocketSpec string

definition services_table :: "toml_table \<Rightarrow> toml_table option" where
  "services_table doc = Option.bind (map_of doc ''services'') toml_as_table"

definition remove_service_edit :: "string \<Rightarrow> toml_table \<Rightarrow> config_error + toml_table \<times> bool" where
  "remove_service_edit name doc =
     (case services_table doc of
        None \<Rightarrow> Inr (doc, False)
      | Some services \<Rightarrow>
          if map_of services name = None then Inr (doc, False)
          else Inr (tbl_insert ''services'' (TTable (tbl_remove name services)) doc, True))"

definition remove_service_from_config ::
  "toml_lib \<Rightarrow> bool \<Rightarrow> config_file \<Rightarrow> string \<Rightarrow> config_error + config_file \<times> bool" where
  "remove_service_from_config T ok f name = rmw T ok f (remove_service_edit name)"

text \<open>The field \<open>k\<close> of the entry \<open>name\<close>, when the entry is a table.\<close>

definition entry_field :: "toml_table \<Rightarrow> string \<Rightarrow> string \<Rightarrow> toml option" where
  "entry_field services name k = Option.bind (Option.bind (map_of services name) toml_as_table) (\<lambda>t. map_of t k)"

definition allow_strings :: "toml option \<Rightarrow> string list" where
  "allow_strings v = (case Option.bind v toml_as_array of None \<Rightarrow> [] | Some arr \<Rightarrow> List.map_filter toml_as_str arr)"

definition backend_fields :: "backend_spec \<Rightarrow> toml_table" where
  "backend_fields b = (case b of
     RunSpec cmd env cwd \<Rightarrow>
       (let e = tbl_insert ''run'' (TArray (map TString cmd)) [];
            e = (case cwd of Some c \<Rightarrow> tbl_insert ''cwd'' (TString c) e | None \<Rightarrow> e)
        in if env = [] then e
           else tbl_insert ''env'' (TTable (foldl (\<lambda>t (k, v). tbl_insert k (TString v) t) [] env)) e)
   | SocketSpec path \<Rightarrow> tbl_insert ''socket'' (TString path) [])"

definition write_service_edit ::
  "string \<Rightarrow> backend_spec \<Rightarrow> string list \<Rightarrow> u32 option \<Rightarrow> toml_table \<Rightarrow> config_error + toml_table \<times> bool" where
  "write_service_edit name backend allow rate_limit_per_min doc =
     (case (case map_of doc ''services'' of None \<Rightarrow> TTable [] | Some v \<Rightarrow> v) of
        TTable services \<Rightarrow>
          (let merged_allow = foldl push_new (allow_strings (entry_field services name ''allow'')) allow;
               entry = tbl_insert ''allow'' (TArray (map TString merged_allow)) (backend_fields backend);
               preserved_rate = (case rate_limit_per_min of
                   Some r \<Rightarrow> Some (uint r)
                 | None \<Rightarrow> Option.bind (entry_field services name ''rate_limit_per_min'') toml_as_integer);
               entry = (case preserved_rate of
                   Some rate \<Rightarrow> tbl_insert ''rate_limit_per_min'' (TInteger rate) entry
                 | None \<Rightarrow> entry)
           in Inr (tbl_insert ''services'' (TTable (tbl_insert name (TTable entry) services)) doc, True))
      | _ \<Rightarrow> Inl (NotATable ''services''))"

definition write_service_to_config ::
  "toml_lib \<Rightarrow> bool \<Rightarrow> config_file \<Rightarrow> string \<Rightarrow> backend_spec \<Rightarrow> string list \<Rightarrow> u32 option \<Rightarrow> config_error + config_file \<times> bool" where
  "write_service_to_config T ok f name backend allow rate =
     rmw T ok f (write_service_edit name backend allow rate)"

subsection \<open>Allow lists\<close>

definition append_allow_one :: "string \<Rightarrow> string \<Rightarrow> toml_table \<Rightarrow> config_error + toml_table \<times> bool" where
  "append_allow_one p svc services_tbl =
     (case map_of services_tbl svc of
        None \<Rightarrow> Inr (services_tbl, False)
      | Some v \<Rightarrow>
          rbind (ok_or (NotATable svc) (toml_as_table v)) (\<lambda>entry.
          rbind (ok_or (AllowNotAnArray svc)
                  (toml_as_array (case map_of entry ''allow'' of None \<Rightarrow> TArray [] | Some a \<Rightarrow> a))) (\<lambda>allow_arr.
          if \<exists>a \<in> set allow_arr. toml_as_str a = Some p then Inr (services_tbl, False)
          else Inr (tbl_insert svc (TTable (tbl_insert ''allow'' (TArray (allow_arr @ [TString p])) entry)) services_tbl,
                    True))))"

fun append_allow_loop ::
  "string \<Rightarrow> string list \<Rightarrow> toml_table \<Rightarrow> bool \<Rightarrow> config_error + toml_table \<times> bool" where
  "append_allow_loop p [] services_tbl changed = Inr (services_tbl, changed)"
| "append_allow_loop p (svc # svcs) services_tbl changed =
     rbind (append_allow_one p svc services_tbl) (\<lambda>(services_tbl', c).
     append_allow_loop p svcs services_tbl' (changed \<or> c))"

definition append_allow_edit :: "string \<Rightarrow> string list \<Rightarrow> toml_table \<Rightarrow> config_error + toml_table \<times> bool" where
  "append_allow_edit p services doc =
     (case services_table doc of
        None \<Rightarrow> Inr (doc, False)
      | Some services_tbl \<Rightarrow>
          rbind (append_allow_loop p services services_tbl False) (\<lambda>(tbl, changed).
          Inr (tbl_insert ''services'' (TTable tbl) doc, changed)))"

definition append_allow_to_config ::
  "toml_lib \<Rightarrow> bool \<Rightarrow> config_file \<Rightarrow> string \<Rightarrow> string list \<Rightarrow> config_error + config_file \<times> bool" where
  "append_allow_to_config T ok f p services = rmw T ok f (append_allow_edit p services)"

text \<open>\<open>allow.retain(..)\<close> on a service entry: a malformed entry or list is left as it is.\<close>

definition keep_str :: "(string \<Rightarrow> bool) \<Rightarrow> toml \<Rightarrow> bool" where
  "keep_str strip a = (case toml_as_str a of None \<Rightarrow> True | Some s \<Rightarrow> \<not> strip s)"

definition retain_allow :: "(string \<Rightarrow> bool) \<Rightarrow> toml \<Rightarrow> toml" where
  "retain_allow strip v = (case v of
     TTable svc \<Rightarrow>
       (case map_of svc ''allow'' of
          Some (TArray allow) \<Rightarrow>
            TTable (tbl_insert ''allow'' (TArray (filter (keep_str strip) allow)) svc)
        | _ \<Rightarrow> v)
   | _ \<Rightarrow> v)"

definition entry_allow_arr :: "toml \<Rightarrow> toml list" where
  "entry_allow_arr v = (case Option.bind (toml_as_table v) (\<lambda>t. map_of t ''allow'') of
     Some (TArray arr) \<Rightarrow> arr | _ \<Rightarrow> [])"

definition remove_principal_edit :: "string \<Rightarrow> string \<Rightarrow> toml_table \<Rightarrow> config_error + toml_table \<times> bool" where
  "remove_principal_edit service p doc =
     (case services_table doc of
        None \<Rightarrow> Inr (doc, False)
      | Some services_tbl \<Rightarrow>
          (case map_of services_tbl service of
             None \<Rightarrow> Inr (doc, False)
           | Some entry \<Rightarrow>
               (let entry' = retain_allow (\<lambda>s. s = p) entry
                in if length (entry_allow_arr entry') = length (entry_allow_arr entry) then Inr (doc, False)
                   else Inr (tbl_insert ''services'' (TTable (tbl_insert service entry' services_tbl)) doc, True))))"

definition remove_principal_from_service ::
  "toml_lib \<Rightarrow> bool \<Rightarrow> config_file \<Rightarrow> string \<Rightarrow> string \<Rightarrow> config_error + config_file \<times> bool" where
  "remove_principal_from_service T ok f service p = rmw T ok f (remove_principal_edit service p)"

definition remove_allow_edit :: "string list \<Rightarrow> toml_table \<Rightarrow> config_error + toml_table \<times> bool" where
  "remove_allow_edit principals doc =
     (case services_table doc of
        None \<Rightarrow> Inr (doc, False)
      | Some services_tbl \<Rightarrow>
          (let tbl = map (\<lambda>(k, v). (k, retain_allow (\<lambda>s. s \<in> set principals) v)) services_tbl;
               changed = (\<exists>(k, v) \<in> set services_tbl.
                  length (entry_allow_arr (retain_allow (\<lambda>s. s \<in> set principals) v)) \<noteq> length (entry_allow_arr v))
           in Inr (tbl_insert ''services'' (TTable tbl) doc, changed)))"

definition remove_allow_from_config ::
  "toml_lib \<Rightarrow> bool \<Rightarrow> config_file \<Rightarrow> string list \<Rightarrow> config_error + config_file \<times> bool" where
  "remove_allow_from_config T ok f principals = rmw T ok f (remove_allow_edit principals)"

subsection \<open>Reading the configuration back\<close>

text \<open>
  The parts of \<open>Config\<close> the modelled code reads: the identity strings and the service entries. A
  missing file is the default configuration. The remaining tables decode or not as the parameter
  \<open>V\<close> says.
\<close>

record service_cfg =
  sc_run :: "string list option"
  sc_socket :: "string option"
  sc_allow :: "string list"
  sc_env :: "(string \<times> string) list"
  sc_cwd :: "string option"
  sc_rate_limit_per_min :: "u32 option"

record identity_cfg =
  id_nickname :: "string option"
  id_org_id :: "string option"
  id_org_root_pk :: "string option"
  id_user_id :: "string option"

record config =
  cfg_identity :: identity_cfg
  cfg_services :: "(string \<times> service_cfg) list"

datatype backend = RunBackend "string list" | SocketBackend string

definition backend_result :: "service_cfg \<Rightarrow> backend option" where
  "backend_result sc =
     (case (sc_run sc, sc_socket sc) of
        (Some cmd, None) \<Rightarrow> Some (RunBackend cmd)
      | (None, Some p) \<Rightarrow> Some (SocketBackend p)
      | (Some _, Some _) \<Rightarrow> None
      | (None, None) \<Rightarrow> None)"

text \<open>An optional field: absent, decoded, or an error.\<close>

definition opt_key :: "(toml \<Rightarrow> 'a option) \<Rightarrow> toml_table \<Rightarrow> string \<Rightarrow> 'a option option" where
  "opt_key dec t k = (case map_of t k of None \<Rightarrow> Some None | Some v \<Rightarrow> map_option Some (dec v))"

definition toml_strings :: "toml \<Rightarrow> string list option" where
  "toml_strings v = (case v of
     TArray arr \<Rightarrow> if \<forall>x \<in> set arr. toml_as_str x \<noteq> None then Some (List.map_filter toml_as_str arr) else None
   | _ \<Rightarrow> None)"

definition toml_string_map :: "toml \<Rightarrow> (string \<times> string) list option" where
  "toml_string_map v = (case v of
     TTable t \<Rightarrow> if \<forall>(k, x) \<in> set t. toml_as_str x \<noteq> None
               then Some (List.map_filter (\<lambda>(k, x). map_option (Pair k) (toml_as_str x)) t) else None
   | _ \<Rightarrow> None)"

definition toml_u32 :: "toml \<Rightarrow> u32 option" where
  "toml_u32 v = (case toml_as_integer v of
     Some i \<Rightarrow> if 0 \<le> i \<and> i < 2 ^ 32 then Some (word_of_int i) else None
   | None \<Rightarrow> None)"

definition decode_service :: "toml \<Rightarrow> service_cfg option" where
  "decode_service v =
     Option.bind (toml_as_table v) (\<lambda>t.
     Option.bind (opt_key toml_strings t ''run'') (\<lambda>run.
     Option.bind (opt_key toml_as_str t ''socket'') (\<lambda>socket.
     Option.bind (opt_key toml_strings t ''allow'') (\<lambda>allow.
     Option.bind (opt_key toml_string_map t ''env'') (\<lambda>env.
     Option.bind (opt_key toml_as_str t ''cwd'') (\<lambda>cwd.
     Option.bind (opt_key toml_u32 t ''rate_limit_per_min'') (\<lambda>rate.
     Some \<lparr>sc_run = run, sc_socket = socket, sc_allow = (case allow of Some a \<Rightarrow> a | None \<Rightarrow> []),
           sc_env = (case env of Some e \<Rightarrow> e | None \<Rightarrow> []), sc_cwd = cwd, sc_rate_limit_per_min = rate\<rparr>)))))))"

definition decode_identity :: "toml \<Rightarrow> identity_cfg option" where
  "decode_identity v =
     Option.bind (toml_as_table v) (\<lambda>t.
     Option.bind (opt_key toml_as_str t ''nickname'') (\<lambda>nickname.
     Option.bind (opt_key toml_as_str t ''org_id'') (\<lambda>org_id.
     Option.bind (opt_key toml_as_str t ''org_root_pk'') (\<lambda>org_root_pk.
     Option.bind (opt_key toml_as_str t ''user_id'') (\<lambda>user_id.
     Some \<lparr>id_nickname = nickname, id_org_id = org_id, id_org_root_pk = org_root_pk, id_user_id = user_id\<rparr>)))))"

fun decode_services :: "toml_table \<Rightarrow> (string \<times> service_cfg) list option" where
  "decode_services [] = Some []"
| "decode_services ((name, v) # t) =
     Option.bind (decode_service v) (\<lambda>sc. map_option (\<lambda>scs. (name, sc) # scs) (decode_services t))"

definition decode_config :: "(toml_table \<Rightarrow> bool) \<Rightarrow> toml_table \<Rightarrow> config option" where
  "decode_config V doc =
     (if \<not> V doc then None else
      Option.bind (opt_key decode_identity doc ''identity'') (\<lambda>ident.
      Option.bind (opt_key (\<lambda>v. Option.bind (toml_as_table v) decode_services) doc ''services'') (\<lambda>services.
      Some \<lparr>cfg_identity = (case ident of Some i \<Rightarrow> i
              | None \<Rightarrow> \<lparr>id_nickname = None, id_org_id = None, id_org_root_pk = None, id_user_id = None\<rparr>),
            cfg_services = (case services of Some s \<Rightarrow> s | None \<Rightarrow> [])\<rparr>)))"

definition config_load :: "toml_lib \<Rightarrow> (toml_table \<Rightarrow> bool) \<Rightarrow> config_file \<Rightarrow> config option" where
  "config_load T V f =
     (case f of
        Absent \<Rightarrow> decode_config (\<lambda>_. True) []
      | Unreadable \<Rightarrow> None
      | Content s \<Rightarrow> Option.bind (toml_from_str T s) (decode_config V))"

subsection \<open>What a writer leaves on disk\<close>

definition toml_roundtrip :: "toml_lib \<Rightarrow> bool" where
  "toml_roundtrip T \<longleftrightarrow> toml_from_str T [] = Some [] \<and>
     (\<forall>doc s. toml_to_string_pretty T doc = Some s \<longrightarrow>
        toml_from_str T (CONFIG_HEADER @ NEWLINE @ s) = Some doc)"

definition config_doc :: "toml_lib \<Rightarrow> config_file \<Rightarrow> toml_table option" where
  "config_doc T f = (case read_config_for_rmw f of Inr s \<Rightarrow> toml_from_str T s | Inl _ \<Rightarrow> None)"

lemma write_config_doc_Inr:
  "toml_roundtrip T \<Longrightarrow> write_config_doc T ok doc = Inr f \<Longrightarrow> config_doc T f = Some doc \<and> (\<exists>s. f = Content s)"
  by (auto simp: write_config_doc_def atomic_write_def config_doc_def read_config_for_rmw_def
      toml_roundtrip_def result_simps split: if_splits)

lemma rmw_Inr:
  assumes "toml_roundtrip T" and "rmw T ok f edit = Inr (f', changed)"
  obtains doc doc' where "config_doc T f = Some doc" and "edit doc = Inr (doc', changed)"
    and "config_doc T f' = Some (if changed then doc' else doc)" and "\<not> changed \<Longrightarrow> f' = f"
    and "changed \<Longrightarrow> \<exists>s. f' = Content s"
proof -
  from assms(2) obtain s doc doc' c where
    s: "read_config_for_rmw f = Inr s" and doc: "toml_from_str T s = Some doc" and
    ed: "edit doc = Inr (doc', c)" and
    w: "(if c then rbind (write_config_doc T ok doc') (\<lambda>f'. Inr (f', True)) else Inr (f, False)) = Inr (f', changed)"
    by (auto simp: rmw_def result_simps)
  have cd: "config_doc T f = Some doc" using s doc by (simp add: config_doc_def)
  show thesis
  proof (cases c)
    case True
    with w have "write_config_doc T ok doc' = Inr f'" and "changed" by (auto simp: result_simps)
    then show thesis using that [OF cd, of doc'] ed True write_config_doc_Inr [OF assms(1)] by auto
  next
    case False
    with w have "f' = f" and "\<not> changed" by auto
    then show thesis using that [OF cd, of doc'] ed False cd by auto
  qed
qed

text \<open>The allow list of a service: the strings of its \<open>allow\<close> array.\<close>

definition svc_allow :: "toml_table \<Rightarrow> string \<Rightarrow> string list" where
  "svc_allow doc svc = (case services_table doc of
     None \<Rightarrow> [] | Some t \<Rightarrow> allow_strings (entry_field t svc ''allow''))"

definition svc_field :: "toml_table \<Rightarrow> string \<Rightarrow> string \<Rightarrow> toml option" where
  "svc_field doc svc k = (case services_table doc of None \<Rightarrow> None | Some t \<Rightarrow> entry_field t svc k)"

lemma svc_allow_field: "svc_allow doc svc = allow_strings (svc_field doc svc ''allow'')"
  by (simp add: svc_allow_def svc_field_def allow_strings_def split: option.splits)

definition has_service :: "toml_table \<Rightarrow> string \<Rightarrow> bool" where
  "has_service doc svc \<longleftrightarrow> (case services_table doc of None \<Rightarrow> False | Some t \<Rightarrow> map_of t svc \<noteq> None)"

lemma toml_as_str_Some: "toml_as_str v = Some s \<longleftrightarrow> v = TString s"
  by (cases v) auto

lemma toml_as_table_Some [simp]: "toml_as_table v = Some t \<longleftrightarrow> v = TTable t"
  by (cases v) auto

lemma toml_as_array_Some [simp]: "toml_as_array v = Some t \<longleftrightarrow> v = TArray t"
  by (cases v) auto

lemma services_table_insert [simp]:
  "services_table (tbl_insert ''services'' (TTable t) doc) = Some t"
  by (simp add: services_table_def alist_simps)

lemma services_table_other [simp]:
  "k \<noteq> ''services'' \<Longrightarrow> services_table (tbl_insert k v doc) = services_table doc"
  by (simp add: services_table_def alist_simps)

lemma set_allow_strings_arr: "p \<in> set (allow_strings (Some (TArray arr))) \<longleftrightarrow> (\<exists>v \<in> set arr. toml_as_str v = Some p)"
  by (force simp: allow_strings_def List.map_filter_def toml_as_str_Some)

lemma allow_strings_append:
  "allow_strings (Some (TArray (arr @ [TString p]))) = allow_strings (Some (TArray arr)) @ [p]"
  by (simp add: allow_strings_def List.map_filter_def)

lemma allow_strings_map [simp]: "allow_strings (Some (TArray (map TString xs))) = xs"
  by (simp add: allow_strings_def List.map_filter_def comp_def)

lemma strings_keep:
  "List.map_filter toml_as_str (filter (keep_str strip) arr) = filter (\<lambda>s. \<not> strip s) (List.map_filter toml_as_str arr)"
proof (induction arr)
  case (Cons v arr)
  then show ?case by (cases "toml_as_str v") (auto simp: List.map_filter_def keep_str_def)
qed (simp add: List.map_filter_def)

lemma allow_strings_none [simp]: "allow_strings None = []"
  by (simp add: allow_strings_def)

lemma entry_field_insert:
  "entry_field (tbl_insert svc (TTable e) t) svc' k = (if svc' = svc then map_of e k else entry_field t svc' k)"
  by (simp add: entry_field_def alist_simps)

lemma entry_field_table: "map_of t svc = Some (TTable e) \<Longrightarrow> entry_field t svc k = map_of e k"
  by (simp add: entry_field_def)

text \<open>A grant appends the principal to every named service that exists, once, and touches nothing else.\<close>

definition grants :: "string \<Rightarrow> string list \<Rightarrow> toml_table \<Rightarrow> toml_table \<Rightarrow> bool" where
  "grants p svcs t t' \<longleftrightarrow>
     (\<forall>s. allow_strings (entry_field t' s ''allow'') =
        (if s \<in> set svcs \<and> map_of t s \<noteq> None then push_new (allow_strings (entry_field t s ''allow'')) p
         else allow_strings (entry_field t s ''allow''))) \<and>
     (\<forall>s k. k \<noteq> ''allow'' \<longrightarrow> entry_field t' s k = entry_field t s k) \<and>
     (\<forall>s. (map_of t' s = None) = (map_of t s = None))"

lemma append_allow_one_Inr:
  assumes "append_allow_one p svc t = Inr (t', c)"
  shows "grants p [svc] t t' \<and> (\<not> c \<longrightarrow> t' = t)"
proof (cases "map_of t svc")
  case None
  with assms show ?thesis by (auto simp: append_allow_one_def grants_def)
next
  case (Some v)
  with assms obtain e arr where e: "v = TTable e"
    and arr: "(case map_of e ''allow'' of None \<Rightarrow> TArray [] | Some a \<Rightarrow> a) = TArray arr"
    and r: "(if \<exists>a \<in> set arr. toml_as_str a = Some p then Inr (t, False)
       else Inr (tbl_insert svc (TTable (tbl_insert ''allow'' (TArray (arr @ [TString p])) e)) t, True))
       = (Inr (t', c) :: config_error + _)"
    by (auto simp: append_allow_one_def result_simps)
  have al: "allow_strings (entry_field t svc ''allow'') = allow_strings (Some (TArray arr))"
    using arr Some e
    by (auto simp: entry_field_table allow_strings_def List.map_filter_def split: option.splits)
  show ?thesis
  proof (cases "\<exists>a \<in> set arr. toml_as_str a = Some p")
    case True
    then have "p \<in> set (allow_strings (entry_field t svc ''allow''))" by (simp add: al set_allow_strings_arr)
    with True r show ?thesis by (auto simp: grants_def push_new_def)
  next
    case False
    have t': "t' = tbl_insert svc (TTable (tbl_insert ''allow'' (TArray (arr @ [TString p])) e)) t" and c: c
      using r False by auto
    have np: "p \<notin> set (allow_strings (Some (TArray arr)))" using False by (simp add: set_allow_strings_arr)
    show ?thesis
      using Some e c np
      by (auto simp: t' grants_def al [unfolded entry_field_table [OF Some [unfolded e]]] push_new_def
          entry_field_insert alist_simps allow_strings_append entry_field_table)
  qed
qed

lemma grants_trans:
  assumes "grants p [svc] t u" and "grants p svcs u t'"
  shows "grants p (svc # svcs) t t'"
  using assms unfolding grants_def by (auto simp: push_new_def)

lemma append_allow_loop_Inr:
  "append_allow_loop p svcs t c = Inr (t', c') \<Longrightarrow> grants p svcs t t' \<and> (\<not> c' \<longrightarrow> t' = t \<and> \<not> c)"
proof (induction svcs arbitrary: t c)
  case Nil
  then show ?case by (simp add: grants_def)
next
  case (Cons svc svcs)
  from Cons.prems obtain u d where u: "append_allow_one p svc t = Inr (u, d)"
    and r: "append_allow_loop p svcs u (c \<or> d) = Inr (t', c')" by (auto simp: result_simps)
  from Cons.IH [OF r] append_allow_one_Inr [OF u] show ?case using grants_trans by blast
qed

text \<open>The effect of each writer on the parsed document.\<close>

lemma append_allow_edit_cases:
  assumes "append_allow_edit p svcs doc = Inr (doc', c)"
  obtains "services_table doc = None" and "\<not> c"
    | t t' where "services_table doc = Some t" and "services_table (if c then doc' else doc) = Some t'"
        and "grants p svcs t t'" and "doc' = tbl_insert ''services'' (TTable t') doc"
proof (cases "services_table doc")
  case None
  with assms have "\<not> c" by (simp add: append_allow_edit_def)
  then show thesis by (rule that(1) [OF None])
next
  case (Some t)
  with assms obtain t' where l: "append_allow_loop p svcs t False = Inr (t', c)"
    and d: "doc' = tbl_insert ''services'' (TTable t') doc"
    by (auto simp: append_allow_edit_def result_simps)
  from append_allow_loop_Inr [OF l] have "grants p svcs t t'" and "\<not> c \<Longrightarrow> t' = t" by blast+
  then show thesis using that(2) [OF Some _ _ d] Some d by (cases c) auto
qed

lemma append_allow_edit_Inr:
  assumes "append_allow_edit p svcs doc = Inr (doc', c)"
  shows "svc_allow (if c then doc' else doc) s =
      (if s \<in> set svcs \<and> has_service doc s then push_new (svc_allow doc s) p else svc_allow doc s)"
    and "has_service (if c then doc' else doc) s = has_service doc s"
    and "j \<noteq> ''allow'' \<Longrightarrow> svc_field (if c then doc' else doc) s j = svc_field doc s j"
    and "k \<noteq> ''services'' \<Longrightarrow> map_of (if c then doc' else doc) k = map_of doc k"
proof -
  have "svc_allow (if c then doc' else doc) s =
      (if s \<in> set svcs \<and> has_service doc s then push_new (svc_allow doc s) p else svc_allow doc s) \<and>
      has_service (if c then doc' else doc) s = has_service doc s \<and>
      (j \<noteq> ''allow'' \<longrightarrow> svc_field (if c then doc' else doc) s j = svc_field doc s j) \<and>
      (k \<noteq> ''services'' \<longrightarrow> map_of (if c then doc' else doc) k = map_of doc k)"
    using assms
  proof (cases rule: append_allow_edit_cases)
    case 1
    then show ?thesis by (simp add: has_service_def)
  next
    case (2 t t')
    then show ?thesis unfolding svc_allow_def svc_field_def has_service_def grants_def by (auto simp: alist_simps)
  qed
  then show "svc_allow (if c then doc' else doc) s =
      (if s \<in> set svcs \<and> has_service doc s then push_new (svc_allow doc s) p else svc_allow doc s)"
    and "has_service (if c then doc' else doc) s = has_service doc s"
    and "j \<noteq> ''allow'' \<Longrightarrow> svc_field (if c then doc' else doc) s j = svc_field doc s j"
    and "k \<noteq> ''services'' \<Longrightarrow> map_of (if c then doc' else doc) k = map_of doc k" by blast+
qed

lemma allow_of_entry:
  "allow_strings (entry_field t s ''allow'') =
     (case map_of t s of None \<Rightarrow> [] | Some v \<Rightarrow> List.map_filter toml_as_str (entry_allow_arr v))"
  by (auto simp: entry_field_def allow_strings_def entry_allow_arr_def List.map_filter_def
      split: option.splits toml.splits bind_split)

lemma entry_allow_arr_retain: "entry_allow_arr (retain_allow strip v) = filter (keep_str strip) (entry_allow_arr v)"
  by (cases v) (auto simp: retain_allow_def entry_allow_arr_def alist_simps split: option.splits toml.splits)

lemma retain_allow_other:
  "k \<noteq> ''allow'' \<Longrightarrow> Option.bind (toml_as_table (retain_allow strip v)) (\<lambda>t. map_of t k) =
     Option.bind (toml_as_table v) (\<lambda>t. map_of t k)"
  by (cases v) (auto simp: retain_allow_def alist_simps split: option.splits toml.splits)

lemma remove_allow_edit_Inr:
  assumes "remove_allow_edit ps doc = Inr (doc', c)"
  shows "svc_allow (if c then doc' else doc) s = filter (\<lambda>a. a \<notin> set ps) (svc_allow doc s)"
    and "has_service (if c then doc' else doc) s = has_service doc s"
    and "j \<noteq> ''allow'' \<Longrightarrow> svc_field (if c then doc' else doc) s j = svc_field doc s j"
    and "k \<noteq> ''services'' \<Longrightarrow> map_of (if c then doc' else doc) k = map_of doc k"
proof -
  show "j \<noteq> ''allow'' \<Longrightarrow> svc_field (if c then doc' else doc) s j = svc_field doc s j"
    using assms by (auto simp: remove_allow_edit_def svc_field_def entry_field_def map_of_map retain_allow_other bind_map_option
        comp_def split: option.splits)
  show "k \<noteq> ''services'' \<Longrightarrow> map_of (if c then doc' else doc) k = map_of doc k"
    using assms by (auto simp: remove_allow_edit_def alist_simps split: option.splits)
  show "has_service (if c then doc' else doc) s = has_service doc s"
    using assms by (auto simp: remove_allow_edit_def has_service_def map_of_map split: option.splits)
  show "svc_allow (if c then doc' else doc) s = filter (\<lambda>a. a \<notin> set ps) (svc_allow doc s)"
  proof (cases "services_table doc")
    case None
    then show ?thesis using assms by (auto simp: remove_allow_edit_def svc_allow_def)
  next
    case (Some t)
    have new: "svc_allow doc' s = filter (\<lambda>a. a \<notin> set ps) (svc_allow doc s)"
      using assms Some
      by (auto simp: remove_allow_edit_def svc_allow_def allow_of_entry map_of_map entry_allow_arr_retain strings_keep
          split: option.splits)
    show ?thesis
    proof (cases c)
      case False
      then have len: "length (filter (keep_str (\<lambda>s. s \<in> set ps)) (entry_allow_arr v)) = length (entry_allow_arr v)"
        if "map_of t s = Some v" for v
        using assms Some map_of_SomeD [OF that] by (auto simp: remove_allow_edit_def entry_allow_arr_retain)
      have "filter (keep_str (\<lambda>s. s \<in> set ps)) (entry_allow_arr v) = entry_allow_arr v" if "map_of t s = Some v" for v
        using len [OF that] by (metis filter_True length_filter_less less_irrefl)
      then show ?thesis
        using False Some by (auto simp: svc_allow_def allow_of_entry strings_keep [symmetric] split: option.splits)
    qed (use new in simp)
  qed
qed

lemma keep_none: "p \<notin> set (List.map_filter toml_as_str arr) \<Longrightarrow> filter (keep_str (\<lambda>s. s = p)) arr = arr"
  by (induction arr) (auto simp: List.map_filter_def keep_str_def split: option.splits if_splits)

lemma keep_some: "p \<in> set (List.map_filter toml_as_str arr) \<Longrightarrow> filter (keep_str (\<lambda>s. s = p)) arr \<noteq> arr"
proof
  assume "p \<in> set (List.map_filter toml_as_str arr)" and "filter (keep_str (\<lambda>s. s = p)) arr = arr"
  then have "p \<in> set (filter (\<lambda>s. s \<noteq> p) (List.map_filter toml_as_str arr))"
    by (metis strings_keep)
  then show False by simp
qed

lemma keep_length: "length (filter (keep_str strip) arr) = length arr \<longleftrightarrow> filter (keep_str strip) arr = arr"
  by (metis filter_True length_filter_less less_irrefl)

lemma retain_allow_same: "entry_allow_arr (retain_allow strip v) = entry_allow_arr v \<Longrightarrow> filter (keep_str strip) (entry_allow_arr v) = entry_allow_arr v"
  by (simp add: entry_allow_arr_retain)

lemma remove_principal_edit_Inr:
  assumes "remove_principal_edit svc p doc = Inr (doc', c)"
  shows "svc_allow (if c then doc' else doc) s =
      (if s = svc then filter (\<lambda>a. a \<noteq> p) (svc_allow doc s) else svc_allow doc s)"
    and "has_service (if c then doc' else doc) s = has_service doc s"
    and "j \<noteq> ''allow'' \<Longrightarrow> svc_field (if c then doc' else doc) s j = svc_field doc s j"
    and "k \<noteq> ''services'' \<Longrightarrow> map_of (if c then doc' else doc) k = map_of doc k"
    and "c \<longleftrightarrow> p \<in> set (svc_allow doc svc)"
proof -
  consider (none) "doc' = doc" "\<not> c" "services_table doc = None \<or> (\<exists>t. services_table doc = Some t \<and> map_of t svc = None)"
    | (some) t v where "services_table doc = Some t" "map_of t svc = Some v"
        "c = (filter (keep_str (\<lambda>s. s = p)) (entry_allow_arr v) \<noteq> entry_allow_arr v)"
        "doc' = (if c then tbl_insert ''services'' (TTable (tbl_insert svc (retain_allow (\<lambda>s. s = p) v) t)) doc else doc)"
    using assms by (auto simp: remove_principal_edit_def entry_allow_arr_retain keep_length Let_def split: option.splits if_splits)
  then have "svc_allow (if c then doc' else doc) s =
      (if s = svc then filter (\<lambda>a. a \<noteq> p) (svc_allow doc s) else svc_allow doc s) \<and>
    has_service (if c then doc' else doc) s = has_service doc s \<and>
    (j \<noteq> ''allow'' \<longrightarrow> svc_field (if c then doc' else doc) s j = svc_field doc s j) \<and>
    (k \<noteq> ''services'' \<longrightarrow> map_of (if c then doc' else doc) k = map_of doc k) \<and>
    (c \<longleftrightarrow> p \<in> set (svc_allow doc svc))"
  proof cases
    case none
    then show ?thesis by (auto simp: svc_allow_def entry_field_def)
  next
    case some
    have a: "svc_allow doc svc = List.map_filter toml_as_str (entry_allow_arr v)"
      using some(1,2) by (simp add: svc_allow_def allow_of_entry)
    have cp: "c \<longleftrightarrow> p \<in> set (svc_allow doc svc)"
      using some(3) keep_none keep_some unfolding a by metis
    show ?thesis
    proof (cases c)
      case False
      then have "filter (\<lambda>a. a \<noteq> p) (svc_allow doc svc) = svc_allow doc svc" using cp by (metis (mono_tags) filter_True)
      then show ?thesis using cp False by auto
    next
      case True
      then have d: "doc' = tbl_insert ''services'' (TTable (tbl_insert svc (retain_allow (\<lambda>s. s = p) v) t)) doc"
        using some(4) by simp
      have "j \<noteq> ''allow'' \<longrightarrow> svc_field (if c then doc' else doc) s j = svc_field doc s j"
        using True some(1,2) by (auto simp: d svc_field_def entry_field_def alist_simps retain_allow_other)
      then show ?thesis
        using True cp some(1,2)
        by (auto simp: d svc_allow_def has_service_def allow_of_entry alist_simps entry_allow_arr_retain strings_keep)
    qed
  qed
  then show "svc_allow (if c then doc' else doc) s =
      (if s = svc then filter (\<lambda>a. a \<noteq> p) (svc_allow doc s) else svc_allow doc s)"
    and "has_service (if c then doc' else doc) s = has_service doc s"
    and "j \<noteq> ''allow'' \<Longrightarrow> svc_field (if c then doc' else doc) s j = svc_field doc s j"
    and "k \<noteq> ''services'' \<Longrightarrow> map_of (if c then doc' else doc) k = map_of doc k"
    and "c \<longleftrightarrow> p \<in> set (svc_allow doc svc)" by blast+
qed

text \<open>Registering a service keeps every grant already on disk, adds the given ones, and touches no other service.\<close>

lemma write_service_edit_Inr:
  assumes "write_service_edit name b allow rate doc = Inr (doc', c)"
  shows "c" and "svc_allow doc' s = (if s = name then foldl push_new (svc_allow doc name) allow else svc_allow doc s)"
    and "has_service doc' s = (s = name \<or> has_service doc s)"
    and "s \<noteq> name \<Longrightarrow> svc_field doc' s j = svc_field doc s j"
    and "k \<noteq> ''services'' \<Longrightarrow> map_of doc' k = map_of doc k"
    and "svc_field doc' name ''run'' = map_of (backend_fields b) ''run''"
    and "svc_field doc' name ''socket'' = map_of (backend_fields b) ''socket''"
proof -
  define t where "t = (case services_table doc of Some t \<Rightarrow> t | None \<Rightarrow> [])"
  have "\<exists>e. doc' = tbl_insert ''services'' (TTable (tbl_insert name (TTable e) t)) doc \<and> c \<and>
      map_of e ''allow'' = Some (TArray (map TString (foldl push_new (allow_strings (entry_field t name ''allow'')) allow))) \<and>
      map_of e ''run'' = map_of (backend_fields b) ''run'' \<and> map_of e ''socket'' = map_of (backend_fields b) ''socket''"
    using assms
    by (auto simp: write_service_edit_def t_def services_table_def Let_def alist_simps split: option.splits toml.splits)
  then obtain e where d: "doc' = tbl_insert ''services'' (TTable (tbl_insert name (TTable e) t)) doc" and c: c
    and e: "map_of e ''allow'' = Some (TArray (map TString (foldl push_new (allow_strings (entry_field t name ''allow'')) allow)))"
      "map_of e ''run'' = map_of (backend_fields b) ''run''" "map_of e ''socket'' = map_of (backend_fields b) ''socket''"
    by blast
  have old: "svc_allow doc x = allow_strings (entry_field t x ''allow'')" "svc_field doc x j = entry_field t x j"
    "has_service doc x = (map_of t x \<noteq> None)" for x
    by (auto simp: t_def svc_allow_def svc_field_def has_service_def entry_field_def split: option.splits)
  show c by (rule c)
  show "svc_allow doc' s = (if s = name then foldl push_new (svc_allow doc name) allow else svc_allow doc s)"
    by (simp add: d svc_allow_def [of "tbl_insert _ _ _"] entry_field_insert e old)
  show "has_service doc' s = (s = name \<or> has_service doc s)"
    by (simp add: d has_service_def [of "tbl_insert _ _ _"] old alist_simps)
  show "s \<noteq> name \<Longrightarrow> svc_field doc' s j = svc_field doc s j"
    by (simp add: d svc_field_def [of "tbl_insert _ _ _"] entry_field_insert old)
  show "k \<noteq> ''services'' \<Longrightarrow> map_of doc' k = map_of doc k"
    by (simp add: d alist_simps)
  show "svc_field doc' name ''run'' = map_of (backend_fields b) ''run''"
    and "svc_field doc' name ''socket'' = map_of (backend_fields b) ''socket''"
    by (simp_all add: d svc_field_def entry_field_insert e)
qed

lemma backend_fields_one:
  "(Option.bind (map_of (backend_fields b) ''run'') toml_strings \<noteq> None) \<noteq>
   (Option.bind (map_of (backend_fields b) ''socket'') toml_as_str \<noteq> None)"
proof -
  have "toml_strings (TArray (map TString cmd)) \<noteq> None" for cmd by (simp add: toml_strings_def)
  then show ?thesis
    by (cases b) (auto simp: backend_fields_def alist_simps Let_def split: option.splits)
qed

lemma remove_service_edit_Inr:
  assumes "remove_service_edit name doc = Inr (doc', c)"
  shows "has_service (if c then doc' else doc) s = (s \<noteq> name \<and> has_service doc s)"
    and "s \<noteq> name \<Longrightarrow> svc_field (if c then doc' else doc) s j = svc_field doc s j"
    and "k \<noteq> ''services'' \<Longrightarrow> map_of (if c then doc' else doc) k = map_of doc k"
    and "c = has_service doc name"
  using assms
  by (auto simp: remove_service_edit_def has_service_def svc_field_def entry_field_def alist_simps
      split: option.splits if_splits)

text \<open>A string upsert sets its keys and leaves every other key of the document alone.\<close>

lemma foldl_insert_strings:
  "map_of (foldl (\<lambda>t (k, v). tbl_insert k (TString v) t) t pairs) k =
     (case map_of (rev pairs) k of Some v \<Rightarrow> Some (TString v) | None \<Rightarrow> map_of t k)"
  by (induction pairs rule: rev_induct) (auto simp: alist_simps)

definition table_field :: "toml_table \<Rightarrow> string \<Rightarrow> string \<Rightarrow> toml option" where
  "table_field doc table k = Option.bind (Option.bind (map_of doc table) toml_as_table) (\<lambda>t. map_of t k)"

lemma upsert_strings_edit_Inr:
  assumes "upsert_strings_edit table pairs doc = Inr (doc', c)"
  shows "c" and "table_field doc' table k =
      (case map_of (rev pairs) k of Some v \<Rightarrow> Some (TString v) | None \<Rightarrow> table_field doc table k)"
    and "t \<noteq> table \<Longrightarrow> map_of doc' t = map_of doc t"
proof -
  define e where "e = (case map_of doc table of None \<Rightarrow> TTable [] | Some v \<Rightarrow> v)"
  have "(case e of TTable entry \<Rightarrow>
        Inr (tbl_insert table (TTable (foldl (\<lambda>t (k, v). tbl_insert k (TString v) t) entry pairs)) doc, True)
      | _ \<Rightarrow> Inl (NotATable table)) = (Inr (doc', c) :: config_error + _)"
    using assms unfolding upsert_strings_edit_def e_def .
  then obtain t' where t': "e = TTable t'" and c: c
    and d: "doc' = tbl_insert table (TTable (foldl (\<lambda>t (k, v). tbl_insert k (TString v) t) t' pairs)) doc"
    by (cases e) auto
  show c by (rule c)
  have "table_field doc table k = map_of t' k"
    using t' by (auto simp: table_field_def e_def split: option.splits)
  then show "table_field doc' table k =
      (case map_of (rev pairs) k of Some v \<Rightarrow> Some (TString v) | None \<Rightarrow> table_field doc table k)"
    unfolding d table_field_def [of "tbl_insert _ _ _"] by (auto simp: alist_simps foldl_insert_strings split: option.splits)
  show "t \<noteq> table \<Longrightarrow> map_of doc' t = map_of doc t" by (simp add: d alist_simps)
qed

subsection \<open>What the loader sees\<close>

lemma decode_services_lookup:
  "decode_services t = Some scs \<Longrightarrow> map_of scs s = Option.bind (map_of t s) decode_service"
  by (induction t arbitrary: scs rule: decode_services.induct) (auto simp: bind_eq_Some_conv)

lemma decode_services_keys: "decode_services t = Some scs \<Longrightarrow> al_keys scs = al_keys t"
  by (induction t arbitrary: scs rule: decode_services.induct) (auto simp: bind_eq_Some_conv)

lemma decode_services_known: "decode_services t = Some scs \<Longrightarrow> map_of scs s \<noteq> None \<longleftrightarrow> map_of t s \<noteq> None"
  by (metis decode_services_keys key_lookup)

definition config_services :: "toml_table \<Rightarrow> config \<Rightarrow> bool" where
  "config_services doc cfg \<longleftrightarrow> (\<forall>s.
     (map_of (cfg_services cfg) s \<noteq> None \<longleftrightarrow> has_service doc s) \<and>
     (\<forall>sc. map_of (cfg_services cfg) s = Some sc \<longrightarrow> sc_allow sc = svc_allow doc s \<and>
        sc_run sc = Option.bind (svc_field doc s ''run'') toml_strings \<and>
        sc_socket sc = Option.bind (svc_field doc s ''socket'') toml_as_str))"

lemma toml_strings_allow: "toml_strings v = Some xs \<Longrightarrow> allow_strings (Some v) = xs"
  by (cases v) (auto simp: toml_strings_def allow_strings_def split: if_splits)

lemma opt_key_Some: "opt_key dec t k = Some r \<Longrightarrow> r = Option.bind (map_of t k) dec"
  by (auto simp: opt_key_def split: option.splits)

lemma decode_service_fields:
  assumes "decode_service v = Some sc"
  obtains t where "v = TTable t" and "sc_allow sc = allow_strings (map_of t ''allow'')"
    and "sc_run sc = Option.bind (map_of t ''run'') toml_strings"
    and "sc_socket sc = Option.bind (map_of t ''socket'') toml_as_str"
proof -
  from assms obtain t run socket allow env cwd rate where v: "v = TTable t" and
    f: "opt_key toml_strings t ''run'' = Some run" "opt_key toml_as_str t ''socket'' = Some socket"
       "opt_key toml_strings t ''allow'' = Some allow" and
    sc: "sc_run sc = run" "sc_socket sc = socket" "sc_allow sc = (case allow of Some a \<Rightarrow> a | None \<Rightarrow> [])"
    by (auto simp: decode_service_def bind_eq_Some_conv)
  have "sc_allow sc = allow_strings (map_of t ''allow'')"
    using f(3) sc(3) by (auto simp: opt_key_def toml_strings_allow split: option.splits)
  then show thesis using opt_key_Some [OF f(1)] opt_key_Some [OF f(2)] sc(1,2) by (intro that [OF v]) simp_all
qed

lemma decode_config_services:
  assumes "decode_config V doc = Some cfg"
  shows "config_services doc cfg"
proof -
  from assms obtain services where
    o': "opt_key (\<lambda>v. Option.bind (toml_as_table v) decode_services) doc ''services'' = Some services" and
    c: "cfg_services cfg = (case services of Some s \<Rightarrow> s | None \<Rightarrow> [])"
    by (auto simp: decode_config_def bind_eq_Some_conv split: if_splits)
  show ?thesis
  proof (cases "map_of doc ''services''")
    case None
    then show ?thesis using o' c
      by (auto simp: opt_key_def config_services_def has_service_def services_table_def)
  next
    case (Some v)
    then obtain t where v: "v = TTable t" and d: "decode_services t = Some (cfg_services cfg)"
      using o' c by (auto simp: opt_key_def bind_eq_Some_conv)
    have st: "services_table doc = Some t" using Some v by (simp add: services_table_def)
    show ?thesis unfolding config_services_def
    proof (intro allI conjI impI)
      fix s
      show "(map_of (cfg_services cfg) s \<noteq> None) = has_service doc s"
        using decode_services_known [OF d, of s] by (simp add: has_service_def st)
      fix sc assume "map_of (cfg_services cfg) s = Some sc"
      then obtain x where x: "map_of t s = Some x" "decode_service x = Some sc"
        using decode_services_lookup [OF d, of s] by (auto simp: bind_eq_Some_conv)
      from x(2) obtain e where e: "x = TTable e" "sc_allow sc = allow_strings (map_of e ''allow'')"
        "sc_run sc = Option.bind (map_of e ''run'') toml_strings"
        "sc_socket sc = Option.bind (map_of e ''socket'') toml_as_str" by (rule decode_service_fields)
      show "sc_allow sc = svc_allow doc s" and "sc_run sc = Option.bind (svc_field doc s ''run'') toml_strings"
        and "sc_socket sc = Option.bind (svc_field doc s ''socket'') toml_as_str"
        using e x(1) by (simp_all add: svc_allow_def svc_field_def st entry_field_table)
    qed
  qed
qed

end
