(* ===== verification/Service_Access.thy ===== *)
theory Service_Access
  imports Config_Write Sever
begin

text \<open>
  Who may call which service, as the daemon's verbs change it (\<open>node/src/daemon/handlers.rs\<close>):
  registering and unregistering services, granting and revoking one principal, the pairing grant,
  and the unpair. An allow list lives in two places, the entry of \<open>config.toml\<close> and the in-memory
  registration of an ephemeral service; the live registry every session reads is rebuilt from both.

  All of these verbs run under \<open>reload_lock\<close>, so each is one step on the state. An operation
  returns its result and the state it leaves, also when it fails: what was written before the
  failure stays written. The flag \<open>ok\<close> says whether the replacement of the config file succeeds.
\<close>

record ephemeral_service =
  es_backend :: backend_spec
  es_allow :: "string list"
  es_rate_limit_per_min :: "u32 option"

record daemon =
  dm_config :: config_file
  dm_ephemeral :: "(string \<times> ephemeral_service) list"
  dm_live :: live_services
  dm_store :: peer_store
  dm_roster :: roster_gate
  dm_registry :: conn_registry

text \<open>
  The environment: the TOML library, whether the tables of the configuration this model does not
  read decode, and the handle of the backend object built for a service.
\<close>

record access_env =
  ae_toml :: toml_lib
  ae_other_ok :: "toml_table \<Rightarrow> bool"
  ae_backend :: "string \<Rightarrow> backend_spec \<Rightarrow> u32 option \<Rightarrow> nat"

datatype access_error =
    ConfigFailed config_error
  | ConfigLoad
  | StoreFailed store_error
  | NoSuchService string
  | PrincipalRevoked string
  | InvalidRate
  | NameTaken string
  | NoPairedPeer string

definition lift_config :: "config_error + 'a \<Rightarrow> access_error + 'a" where
  "lift_config r = (case r of Inl e \<Rightarrow> Inl (ConfigFailed e) | Inr x \<Rightarrow> Inr x)"

definition lift_store :: "store_error + 'a \<Rightarrow> access_error + 'a" where
  "lift_store r = (case r of Inl e \<Rightarrow> Inl (StoreFailed e) | Inr x \<Rightarrow> Inr x)"

subsection \<open>Building the registry\<close>

definition spec_kind :: "backend_spec \<Rightarrow> service_kind" where
  "spec_kind b = (case b of SocketSpec _ \<Rightarrow> Socket | RunSpec _ _ _ \<Rightarrow> Run)"

definition service_spec :: "service_cfg \<Rightarrow> backend_spec option" where
  "service_spec sc = (case backend_result sc of
     Some (RunBackend cmd) \<Rightarrow> Some (RunSpec cmd (sc_env sc) (sc_cwd sc))
   | Some (SocketBackend path) \<Rightarrow> Some (SocketSpec path)
   | None \<Rightarrow> None)"

definition add_config_service :: "access_env \<Rightarrow> services \<Rightarrow> string \<times> service_cfg \<Rightarrow> services" where
  "add_config_service E m p = (case p of (name, sc) \<Rightarrow>
     (case service_spec sc of
        None \<Rightarrow> m
      | Some b \<Rightarrow> al_insert name
          \<lparr>se_backend = ae_backend E name b (sc_rate_limit_per_min sc), se_allow = sc_allow sc,
           se_kind = spec_kind b, se_ephemeral = False\<rparr> m))"

definition add_ephemeral_service :: "access_env \<Rightarrow> services \<Rightarrow> string \<times> ephemeral_service \<Rightarrow> services" where
  "add_ephemeral_service E m p = (case p of (name, e) \<Rightarrow>
     al_insert name
       \<lparr>se_backend = ae_backend E name (es_backend e) (es_rate_limit_per_min e), se_allow = es_allow e,
        se_kind = spec_kind (es_backend e), se_ephemeral = True\<rparr> m)"

definition build_services_with_ephemeral ::
  "access_env \<Rightarrow> config \<Rightarrow> (string \<times> ephemeral_service) list \<Rightarrow> services" where
  "build_services_with_ephemeral E cfg ephemeral =
     foldl (add_ephemeral_service E) (foldl (add_config_service E) [] (cfg_services cfg)) ephemeral"

definition load :: "access_env \<Rightarrow> config_file \<Rightarrow> config option" where
  "load E f = config_load (ae_toml E) (ae_other_ok E) f"

definition swap_services :: "daemon \<Rightarrow> services \<Rightarrow> daemon" where
  "swap_services d ss = d\<lparr>dm_live := live_store (dm_live d) ss\<rparr>"

definition reload_services_from_disk :: "access_env \<Rightarrow> daemon \<Rightarrow> (access_error + unit) \<times> daemon" where
  "reload_services_from_disk E d =
     (case load E (dm_config d) of
        None \<Rightarrow> (Inl ConfigLoad, d)
      | Some cfg \<Rightarrow> (Inr (), swap_services d (build_services_with_ephemeral E cfg (dm_ephemeral d))))"

subsection \<open>Ephemeral allow lists\<close>

definition grant_ephemeral :: "daemon \<Rightarrow> string \<Rightarrow> string \<Rightarrow> bool option \<times> daemon" where
  "grant_ephemeral d service p =
     (case map_of (dm_ephemeral d) service of
        None \<Rightarrow> (None, d)
      | Some e \<Rightarrow>
          if p \<in> set (es_allow e) then (Some False, d)
          else (Some True, d\<lparr>dm_ephemeral := al_insert service (e\<lparr>es_allow := es_allow e @ [p]\<rparr>) (dm_ephemeral d)\<rparr>))"

definition revoke_ephemeral :: "daemon \<Rightarrow> string \<Rightarrow> string \<Rightarrow> bool option \<times> daemon" where
  "revoke_ephemeral d service p =
     (case map_of (dm_ephemeral d) service of
        None \<Rightarrow> (None, d)
      | Some e \<Rightarrow>
          (let kept = filter (\<lambda>a. a \<noteq> p) (es_allow e)
           in (Some (length kept \<noteq> length (es_allow e)),
               d\<lparr>dm_ephemeral := al_insert service (e\<lparr>es_allow := kept\<rparr>) (dm_ephemeral d)\<rparr>)))"

definition apply_ephemeral_allow :: "access_env \<Rightarrow> daemon \<Rightarrow> string \<Rightarrow> (access_error + unit) \<times> daemon" where
  "apply_ephemeral_allow E d service =
     (case Option.bind (map_of (dm_ephemeral d) service)
             (\<lambda>e. with_allow_replaced (ls_services (dm_live d)) service (es_allow e)) of
        Some ss \<Rightarrow> (Inr (), swap_services d ss)
      | None \<Rightarrow> reload_services_from_disk E d)"

definition service_servable_in_config :: "access_env \<Rightarrow> daemon \<Rightarrow> string \<Rightarrow> access_error + bool" where
  "service_servable_in_config E d service =
     (case load E (dm_config d) of
        None \<Rightarrow> Inl ConfigLoad
      | Some cfg \<Rightarrow> Inr (case map_of (cfg_services cfg) service of
            Some sc \<Rightarrow> backend_result sc \<noteq> None | None \<Rightarrow> False))"

text \<open>
  The tail of a grant and of a revoke: a real rebuild when the file moved, a targeted swap when
  only the ephemeral list did.
\<close>

definition install_allow_change ::
  "access_env \<Rightarrow> daemon \<Rightarrow> string \<Rightarrow> bool \<Rightarrow> bool option \<Rightarrow> (access_error + unit) \<times> daemon" where
  "install_allow_change E d service config_moved ephemeral_moved =
     (if config_moved then reload_services_from_disk E d
      else if ephemeral_moved = Some True then apply_ephemeral_allow E d service
      else (Inr (), d))"

text \<open>A config write, as a step of a verb.\<close>

definition write_config :: "daemon \<Rightarrow> config_error + config_file \<times> bool \<Rightarrow> (access_error + bool) \<times> daemon" where
  "write_config d r = (case r of
     Inl e \<Rightarrow> (Inl (ConfigFailed e), d)
   | Inr (f, changed) \<Rightarrow> (Inr changed, d\<lparr>dm_config := f\<rparr>))"

subsection \<open>Severing\<close>

definition sever :: "libs \<Rightarrow> daemon \<Rightarrow> string list \<Rightarrow> (access_error + conn list) \<times> daemon" where
  "sever L d ps = (lift_store (sever_principals L (dm_store d) (dm_roster d) (dm_registry d) ps), d)"

subsection \<open>Grants\<close>

fun grant_ephemeral_all :: "daemon \<Rightarrow> string \<Rightarrow> string list \<Rightarrow> bool \<Rightarrow> bool \<times> daemon" where
  "grant_ephemeral_all d p [] changed = (changed, d)"
| "grant_ephemeral_all d p (svc # svcs) changed =
     (case grant_ephemeral d svc p of
        (moved, d') \<Rightarrow> grant_ephemeral_all d' p svcs (changed \<or> moved = Some True))"

definition grant_service_access ::
  "access_env \<Rightarrow> bool \<Rightarrow> daemon \<Rightarrow> string \<Rightarrow> string list \<Rightarrow> (access_error + unit) \<times> daemon" where
  "grant_service_access E ok d p services =
     sbind (write_config d (append_allow_to_config (ae_toml E) ok (dm_config d) p services)) (\<lambda>changed d.
     case grant_ephemeral_all d p services changed of
       (changed, d) \<Rightarrow> if changed then reload_services_from_disk E d else (Inr (), d))"

definition principal_to_endpoint :: "libs \<Rightarrow> string \<Rightarrow> bytes option" where
  "principal_to_endpoint L p =
     Option.bind (strip_prefix ''eid:'' p) (\<lambda>hex.
     Option.bind (hexlower_decode L hex) (\<lambda>bs. if length bs = 32 then Some bs else None))"

definition principal_is_revoked :: "libs \<Rightarrow> peer_store \<Rightarrow> roster_view option \<Rightarrow> string \<Rightarrow> bool" where
  "principal_is_revoked L store roster p =
     (case principal_to_endpoint L p of
        Some e \<Rightarrow> is_refused store e \<or> (case roster of Some v \<Rightarrow> view_is_revoked v e | None \<Rightarrow> False)
      | None \<Rightarrow> starts_with p ''b64u:'' \<and> is_user_revoked store p)"

definition grant_service_allow ::
  "libs \<Rightarrow> access_env \<Rightarrow> bool \<Rightarrow> daemon \<Rightarrow> string \<Rightarrow> string \<Rightarrow> (access_error + unit) \<times> daemon" where
  "grant_service_allow L E ok d service p =
     (if principal_is_revoked L (dm_store d) (rg_view (dm_roster d)) p then (Inl (PrincipalRevoked p), d)
      else
        sbind (if map_of (dm_ephemeral d) service \<noteq> None then (Inr True, d)
               else (service_servable_in_config E d service, d)) (\<lambda>servable d.
        if \<not> servable then (Inl (NoSuchService service), d)
        else
          sbind (write_config d (append_allow_to_config (ae_toml E) ok (dm_config d) p [service])) (\<lambda>config_moved d.
          case grant_ephemeral d service p of
            (moved, d) \<Rightarrow> install_allow_change E d service config_moved moved)))"

subsection \<open>Revocation of one grant\<close>

definition revoke_service_allow ::
  "libs \<Rightarrow> access_env \<Rightarrow> bool \<Rightarrow> daemon \<Rightarrow> string \<Rightarrow> string \<Rightarrow> (access_error + conn list) \<times> daemon" where
  "revoke_service_allow L E ok d service p =
     (case revoke_ephemeral d service p of
        (ephemeral_moved, d) \<Rightarrow>
          sbind (write_config d (remove_principal_from_service (ae_toml E) ok (dm_config d) service p)) (\<lambda>config_moved d.
          sbind (if ephemeral_moved = None \<and> \<not> config_moved then (service_servable_in_config E d service, d)
                 else (Inr True, d)) (\<lambda>known d.
          if \<not> known then (Inl (NoSuchService service), d)
          else sbind (install_allow_change E d service config_moved ephemeral_moved) (\<lambda>_ d.
               if config_moved \<or> ephemeral_moved = Some True then sever L d [p] else (Inr [], d)))))"

subsection \<open>Unpairing\<close>

definition revoke_service_access ::
  "libs \<Rightarrow> access_env \<Rightarrow> bool \<Rightarrow> daemon \<Rightarrow> string \<Rightarrow> (access_error + bool \<times> conn list) \<times> daemon" where
  "revoke_service_access L E ok d nickname =
     sbind (lift_store (revoke_principals L (dm_store d) nickname), d) (\<lambda>ps d.
     if ps = [] then (Inr (False, []), d)
     else
       sbind (write_config d (remove_allow_from_config (ae_toml E) ok (dm_config d) ps)) (\<lambda>changed d.
       sbind (if changed then reload_services_from_disk E d else (Inr (), d)) (\<lambda>_ d.
       sbind (sever L d ps) (\<lambda>severed d. (Inr (changed, severed), d)))))"

text \<open>
  The principals an unpair strips from the blob scopes (\<open>remove_peer\<close>); the scopes themselves are
  not part of this state.
\<close>

fun blob_principals_loop :: "libs \<Rightarrow> peer_entry list \<Rightarrow> peer_entry list \<Rightarrow> string list \<Rightarrow> string list" where
  "blob_principals_loop L others [] ps = ps"
| "blob_principals_loop L others (t # targets) ps =
     (let ps = ps @ [principal L (pe_endpoint_id t)]
      in blob_principals_loop L others targets
           (case pe_user_id t of
              None \<Rightarrow> ps
            | Some uid \<Rightarrow>
                if \<not> (\<exists>other \<in> set others. pe_user_id other = Some uid) \<and> uid \<notin> set ps
                then ps @ [uid] else ps))"

definition blob_revoke_principals :: "libs \<Rightarrow> peer_store \<Rightarrow> string \<Rightarrow> store_error + string list" where
  "blob_revoke_principals L store nickname =
     rbind (store_list store) (\<lambda>entries.
     let (targets, others) = List.partition (\<lambda>e. pe_nickname e = nickname) entries
     in Inr (blob_principals_loop L others targets []))"

definition remove_peer ::
  "libs \<Rightarrow> access_env \<Rightarrow> bool \<Rightarrow> bool \<Rightarrow> daemon \<Rightarrow> string \<Rightarrow> (access_error + conn list \<times> string list) \<times> daemon" where
  "remove_peer L E ok has_blobs d nickname =
     sbind (revoke_service_access L E ok d nickname) (\<lambda>r d. case r of (revoked, severed) \<Rightarrow>
     sbind (if has_blobs then (lift_store (blob_revoke_principals L (dm_store d) nickname), d)
            else (Inr [], d)) (\<lambda>blob_ps d.
     sbind (case store_remove (dm_store d) nickname of
              Inl e \<Rightarrow> (Inl (StoreFailed e), d)
            | Inr (removed, store) \<Rightarrow> (Inr removed, d\<lparr>dm_store := store\<rparr>)) (\<lambda>removed d.
     if \<not> revoked \<and> \<not> removed then (Inl (NoPairedPeer nickname), d)
     else (Inr (severed, blob_ps), d))))"

subsection \<open>Registration\<close>

definition register_service ::
  "access_env \<Rightarrow> bool \<Rightarrow> daemon \<Rightarrow> string \<Rightarrow> backend_spec \<Rightarrow> string list \<Rightarrow> bool \<Rightarrow> u32 option \<Rightarrow> (access_error + unit) \<times> daemon" where
  "register_service E ok d name backend allow ephemeral rate =
     (if rate = Some 0 then (Inl InvalidRate, d)
      else if ephemeral then
        (case load E (dm_config d) of
           None \<Rightarrow> (Inl ConfigLoad, d)
         | Some cfg \<Rightarrow>
             if map_of (cfg_services cfg) name \<noteq> None then (Inl (NameTaken name), d)
             else reload_services_from_disk E
               (d\<lparr>dm_ephemeral := al_insert name
                   \<lparr>es_backend = backend, es_allow = allow, es_rate_limit_per_min = rate\<rparr> (dm_ephemeral d)\<rparr>))
      else if map_of (dm_ephemeral d) name \<noteq> None then (Inl (NameTaken name), d)
      else sbind (write_config d (write_service_to_config (ae_toml E) ok (dm_config d) name backend allow rate))
             (\<lambda>_ d. reload_services_from_disk E d))"

text \<open>A failed reload is only logged here.\<close>

definition unregister_ephemeral :: "access_env \<Rightarrow> daemon \<Rightarrow> string list \<Rightarrow> daemon" where
  "unregister_ephemeral E d names =
     (if names = [] then d
      else snd (reload_services_from_disk E
        (d\<lparr>dm_ephemeral := foldl (\<lambda>m name. al_remove name m) (dm_ephemeral d) names\<rparr>)))"

definition unregister_service ::
  "access_env \<Rightarrow> bool \<Rightarrow> daemon \<Rightarrow> string \<Rightarrow> (access_error + unit) \<times> daemon" where
  "unregister_service E ok d name =
     (let dropped_ephemeral = map_of (dm_ephemeral d) name \<noteq> None;
          d = d\<lparr>dm_ephemeral := al_remove name (dm_ephemeral d)\<rparr>
      in sbind (write_config d (remove_service_from_config (ae_toml E) ok (dm_config d) name)) (\<lambda>removed_config d.
         if dropped_ephemeral \<or> removed_config then reload_services_from_disk E d else (Inr (), d)))"

subsection \<open>Who the registry admits\<close>

text \<open>
  \<open>synced\<close>: the live registry is what a reload would build. A completed reload establishes it and
  every successful verb keeps it, but it is not an invariant of the daemon: a verb that fails
  after its first write and a hand edit of the file leave the live registry behind its sources, and
  a later verb that finds nothing to change does not rebuild it. The lemmas of the last section
  therefore start from any state, with only the keys of the two hash maps distinct.

  What the library promises of the documents it parses, and the allow list in force for a service:
  the ephemeral registration's if there is one, otherwise the one on disk of a servable entry.
\<close>

definition toml_ok :: "toml_lib \<Rightarrow> bool" where
  "toml_ok T \<longleftrightarrow> toml_roundtrip T \<and>
     (\<forall>s doc t. toml_from_str T s = Some doc \<and> services_table doc = Some t \<longrightarrow> distinct (al_keys t))"

definition live_allow :: "daemon \<Rightarrow> string \<Rightarrow> string list" where
  "live_allow d s = (case map_of (ls_services (dm_live d)) s of Some e \<Rightarrow> se_allow e | None \<Rightarrow> [])"

definition cfg_allow :: "access_env \<Rightarrow> config_file \<Rightarrow> string \<Rightarrow> string list" where
  "cfg_allow E f s = (case load E f of
     Some cfg \<Rightarrow> (case map_of (cfg_services cfg) s of
         Some sc \<Rightarrow> if backend_result sc \<noteq> None then sc_allow sc else [] | None \<Rightarrow> [])
   | None \<Rightarrow> [])"

definition eff_allow :: "access_env \<Rightarrow> daemon \<Rightarrow> string \<Rightarrow> string list" where
  "eff_allow E d s = (case map_of (dm_ephemeral d) s of
     Some e \<Rightarrow> es_allow e | None \<Rightarrow> cfg_allow E (dm_config d) s)"

definition synced :: "access_env \<Rightarrow> daemon \<Rightarrow> bool" where
  "synced E d \<longleftrightarrow> distinct (al_keys (dm_ephemeral d)) \<and> distinct (al_keys (ls_services (dm_live d))) \<and>
     load E (dm_config d) \<noteq> None \<and> (\<forall>s. live_allow d s = eff_allow E d s)"

lemma service_spec_None: "service_spec sc = None \<longleftrightarrow> backend_result sc = None"
  by (auto simp: service_spec_def split: option.splits backend.splits)

lemma foldl_add_ephemeral:
  "distinct (al_keys xs) \<Longrightarrow> map_of (foldl (add_ephemeral_service E) m xs) s =
     (case map_of xs s of
        Some e \<Rightarrow> Some \<lparr>se_backend = ae_backend E s (es_backend e) (es_rate_limit_per_min e), se_allow = es_allow e,
                     se_kind = spec_kind (es_backend e), se_ephemeral = True\<rparr>
      | None \<Rightarrow> map_of m s)"
proof (induction xs arbitrary: m)
  case (Cons x xs)
  obtain n e where x: "x = (n, e)" by (cases x)
  have "map_of xs n = None" using Cons.prems x by (metis distinct.simps(2) fst_conv key_lookup list.simps(9))
  then show ?case using Cons by (auto simp: x add_ephemeral_service_def alist_simps split: option.splits)
qed simp

lemma foldl_add_config:
  "distinct (al_keys xs) \<Longrightarrow> map_of (foldl (add_config_service E) m xs) s =
     (case Option.bind (map_of xs s) (\<lambda>sc. map_option (Pair sc) (service_spec sc)) of
        Some (sc, b) \<Rightarrow> Some \<lparr>se_backend = ae_backend E s b (sc_rate_limit_per_min sc), se_allow = sc_allow sc,
                     se_kind = spec_kind b, se_ephemeral = False\<rparr>
      | None \<Rightarrow> map_of m s)"
proof (induction xs arbitrary: m)
  case (Cons x xs)
  obtain n sc where x: "x = (n, sc)" by (cases x)
  have "map_of xs n = None" using Cons.prems x by (metis distinct.simps(2) fst_conv key_lookup list.simps(9))
  then show ?case using Cons
    by (auto simp: x add_config_service_def alist_simps split: option.splits)
qed simp

lemma distinct_build: "distinct (al_keys (build_services_with_ephemeral E cfg eph))"
proof -
  have c: "distinct (al_keys (foldl (add_config_service E) m xs))" if "distinct (al_keys m)" for m xs
    using that
    by (induction xs arbitrary: m) (auto simp: add_config_service_def alist_simps split: prod.splits option.splits)
  have e: "distinct (al_keys (foldl (add_ephemeral_service E) m xs))" if "distinct (al_keys m)" for m xs
    using that by (induction xs arbitrary: m) (auto simp: add_ephemeral_service_def alist_simps split: prod.splits)
  show ?thesis unfolding build_services_with_ephemeral_def by (intro e c) simp
qed

lemma load_doc:
  assumes "toml_ok (ae_toml E)" and "load E f = Some cfg"
  obtains doc where "config_doc (ae_toml E) f = Some doc" and "config_services doc cfg"
    and "distinct (al_keys (cfg_services cfg))"
proof -
  have dist: "distinct (al_keys (cfg_services cfg))"
    if D: "decode_config V doc = Some cfg" and d: "\<And>t. services_table doc = Some t \<Longrightarrow> distinct (al_keys t)" for V doc
  proof -
    from D obtain services where
      o': "opt_key (\<lambda>v. Option.bind (toml_as_table v) decode_services) doc ''services'' = Some services" and
      c: "cfg_services cfg = (case services of Some s \<Rightarrow> s | None \<Rightarrow> [])"
      by (auto simp: decode_config_def bind_eq_Some_conv split: if_splits)
    show ?thesis
    proof (cases "map_of doc ''services''")
      case None
      then show ?thesis using o' c by (simp add: opt_key_def)
    next
      case (Some v)
      then obtain t where "v = TTable t" and "decode_services t = Some (cfg_services cfg)"
        using o' c by (auto simp: opt_key_def bind_eq_Some_conv)
      then show ?thesis using d [of t] Some decode_services_keys [of t] by (simp add: services_table_def)
    qed
  qed
  show thesis
  proof (cases f)
    case Absent
    then have "decode_config (\<lambda>_. True) [] = Some cfg" using assms(2) by (simp add: load_def config_load_def)
    then have "config_services [] cfg" and "distinct (al_keys (cfg_services cfg))"
      by (auto intro: decode_config_services dist simp: services_table_def)
    moreover have "config_doc (ae_toml E) f = Some []"
      using assms(1) Absent by (simp add: config_doc_def read_config_for_rmw_def toml_ok_def toml_roundtrip_def)
    ultimately show thesis by (intro that)
  next
    case Unreadable
    then show thesis using assms(2) by (simp add: load_def config_load_def)
  next
    case (Content s)
    then obtain doc where doc: "toml_from_str (ae_toml E) s = Some doc" "decode_config (ae_other_ok E) doc = Some cfg"
      using assms(2) by (auto simp: load_def config_load_def bind_eq_Some_conv)
    have "distinct (al_keys t)" if "services_table doc = Some t" for t
      using assms(1) doc(1) that unfolding toml_ok_def by blast
    then have "distinct (al_keys (cfg_services cfg))" by (rule dist [OF doc(2)])
    moreover have "config_doc (ae_toml E) f = Some doc"
      using doc(1) Content by (simp add: config_doc_def read_config_for_rmw_def)
    ultimately show thesis using decode_config_services [OF doc(2)] by (intro that)
  qed
qed

definition doc_servable :: "toml_table \<Rightarrow> string \<Rightarrow> bool" where
  "doc_servable doc s \<longleftrightarrow> has_service doc s \<and>
     (Option.bind (svc_field doc s ''run'') toml_strings \<noteq> None) \<noteq>
     (Option.bind (svc_field doc s ''socket'') toml_as_str \<noteq> None)"

lemma backend_result_Some: "backend_result sc \<noteq> None \<longleftrightarrow> (sc_run sc \<noteq> None) \<noteq> (sc_socket sc \<noteq> None)"
  by (auto simp: backend_result_def split: option.splits)

lemma servable_doc:
  assumes "config_services doc cfg"
  shows "(\<exists>sc. map_of (cfg_services cfg) s = Some sc \<and> backend_result sc \<noteq> None) \<longleftrightarrow> doc_servable doc s"
  using assms unfolding config_services_def doc_servable_def backend_result_Some
  by (metis not_None_eq)

lemma cfg_allow_doc:
  assumes "toml_ok (ae_toml E)" and "load E f \<noteq> None" and "config_doc (ae_toml E) f = Some doc"
  shows "cfg_allow E f s = (if doc_servable doc s then svc_allow doc s else [])"
    and "service_servable_in_config E (d\<lparr>dm_config := f\<rparr>) s = Inr (doc_servable doc s)"
proof -
  obtain cfg where l: "load E f = Some cfg" using assms(2) by auto
  have cs: "config_services doc cfg" using load_doc [OF assms(1) l] assms(3) by auto
  note sd = servable_doc [OF cs, of s]
  have al: "\<And>sc. map_of (cfg_services cfg) s = Some sc \<Longrightarrow> sc_allow sc = svc_allow doc s"
    using cs by (simp add: config_services_def)
  show "cfg_allow E f s = (if doc_servable doc s then svc_allow doc s else [])"
    using sd al by (auto simp: cfg_allow_def l split: option.splits)
  show "service_servable_in_config E (d\<lparr>dm_config := f\<rparr>) s = Inr (doc_servable doc s)"
    using sd by (auto simp: service_servable_in_config_def l split: option.splits)
qed

lemma reload_Inr:
  assumes "toml_ok (ae_toml E)" and "distinct (al_keys (dm_ephemeral d))"
    and "reload_services_from_disk E d = (Inr (), d')"
  shows "synced E d'" and "\<exists>ss. d' = swap_services d ss"
proof -
  from assms(3) obtain cfg where l: "load E (dm_config d) = Some cfg"
    and d': "d' = swap_services d (build_services_with_ephemeral E cfg (dm_ephemeral d))"
    by (auto simp: reload_services_from_disk_def split: option.splits)
  from load_doc [OF assms(1) l] have dc: "distinct (al_keys (cfg_services cfg))" by blast
  have "live_allow d' s = eff_allow E d' s" for s
    by (auto simp: d' swap_services_def live_store_def live_allow_def eff_allow_def cfg_allow_def l
        build_services_with_ephemeral_def foldl_add_ephemeral [OF assms(2)] foldl_add_config [OF dc] service_spec_None [symmetric]
        bind_eq_None_conv split: option.splits prod.splits if_splits)
  then show "synced E d'"
    using assms(2) distinct_build l by (simp add: synced_def d' swap_services_def live_store_def)
  show "\<exists>ss. d' = swap_services d ss" using d' by blast
qed

subsection \<open>The steps of the verbs\<close>

definition servable :: "access_env \<Rightarrow> config_file \<Rightarrow> string \<Rightarrow> bool" where
  "servable E f s \<longleftrightarrow> (\<exists>cfg sc. load E f = Some cfg \<and> map_of (cfg_services cfg) s = Some sc \<and> backend_result sc \<noteq> None)"

lemma servable_in_config: "service_servable_in_config E d s = Inr b \<Longrightarrow> b = servable E (dm_config d) s"
  by (auto simp: service_servable_in_config_def servable_def split: option.splits)

lemma write_config_Inr [result_simps]:
  "write_config d r = (Inr c, d') \<longleftrightarrow> (\<exists>f. r = Inr (f, c) \<and> d' = d\<lparr>dm_config := f\<rparr>)"
  by (cases r) (auto simp: write_config_def)

lemma config_of_doc:
  assumes "toml_ok (ae_toml E)" and "load E f \<noteq> None" and "config_doc (ae_toml E) f = Some doc"
  shows "cfg_allow E f s = (if doc_servable doc s then svc_allow doc s else [])"
    and "servable E f s = doc_servable doc s"
proof -
  show "cfg_allow E f s = (if doc_servable doc s then svc_allow doc s else [])"
    by (rule cfg_allow_doc(1) [OF assms])
  obtain cfg where l: "load E f = Some cfg" using assms(2) by auto
  have cs: "config_services doc cfg" using load_doc [OF assms(1) l] assms(3) by auto
  show "servable E f s = doc_servable doc s" using servable_doc [OF cs, of s] by (auto simp: servable_def l)
qed

lemma config_grant:
  assumes T: "toml_ok (ae_toml E)" and w: "append_allow_to_config (ae_toml E) ok f p svcs = Inr (f', c)"
    and l: "load E f \<noteq> None" "load E f' \<noteq> None"
  shows "cfg_allow E f' s = (if s \<in> set svcs \<and> servable E f s then push_new (cfg_allow E f s) p else cfg_allow E f s)"
    and "servable E f' s = servable E f s" and "\<not> c \<Longrightarrow> f' = f"
proof -
  have "toml_roundtrip (ae_toml E)" using T by (simp add: toml_ok_def)
  from rmw_Inr [OF this w [unfolded append_allow_to_config_def]]
  obtain doc doc' where d: "config_doc (ae_toml E) f = Some doc" "append_allow_edit p svcs doc = Inr (doc', c)"
      "config_doc (ae_toml E) f' = Some (if c then doc' else doc)" and n: "\<not> c \<Longrightarrow> f' = f" by metis
  note e = append_allow_edit_Inr [OF d(2)]
  have sv: "doc_servable (if c then doc' else doc) s = doc_servable doc s"
    using e(2) [of s] e(3) [of "''run''" s] e(3) [of "''socket''" s] by (simp add: doc_servable_def)
  show "servable E f' s = servable E f s"
    using sv config_of_doc(2) [OF T l(2) d(3)] config_of_doc(2) [OF T l(1) d(1)] by simp
  show "cfg_allow E f' s = (if s \<in> set svcs \<and> servable E f s then push_new (cfg_allow E f s) p else cfg_allow E f s)"
    unfolding config_of_doc [OF T l(1) d(1)] config_of_doc(1) [OF T l(2) d(3)] sv e(1)
    by (auto simp: doc_servable_def)
  show "\<not> c \<Longrightarrow> f' = f" by (rule n)
qed

lemma config_revoke_one:
  assumes T: "toml_ok (ae_toml E)" and w: "remove_principal_from_service (ae_toml E) ok f svc p = Inr (f', c)"
    and l: "load E f \<noteq> None" "load E f' \<noteq> None"
  shows "cfg_allow E f' s = (if s = svc then filter (\<lambda>a. a \<noteq> p) (cfg_allow E f s) else cfg_allow E f s)"
    and "servable E f' s = servable E f s" and "\<not> c \<Longrightarrow> f' = f"
    and "config_doc (ae_toml E) f' = Some doc \<Longrightarrow> p \<notin> set (svc_allow doc svc)"
proof -
  have "toml_roundtrip (ae_toml E)" using T by (simp add: toml_ok_def)
  from rmw_Inr [OF this w [unfolded remove_principal_from_service_def]]
  obtain d1 d2 where d: "config_doc (ae_toml E) f = Some d1" "remove_principal_edit svc p d1 = Inr (d2, c)"
      "config_doc (ae_toml E) f' = Some (if c then d2 else d1)" and n: "\<not> c \<Longrightarrow> f' = f" by metis
  note e = remove_principal_edit_Inr [OF d(2)]
  have sv: "doc_servable (if c then d2 else d1) s = doc_servable d1 s"
    using e(2) [of s] e(3) [of "''run''" s] e(3) [of "''socket''" s] by (simp add: doc_servable_def)
  show "servable E f' s = servable E f s"
    using sv config_of_doc(2) [OF T l(2) d(3)] config_of_doc(2) [OF T l(1) d(1)] by simp
  show "cfg_allow E f' s = (if s = svc then filter (\<lambda>a. a \<noteq> p) (cfg_allow E f s) else cfg_allow E f s)"
    unfolding config_of_doc(1) [OF T l(1) d(1)] config_of_doc(1) [OF T l(2) d(3)] sv e(1) by simp
  show "\<not> c \<Longrightarrow> f' = f" by (rule n)
  show "config_doc (ae_toml E) f' = Some doc \<Longrightarrow> p \<notin> set (svc_allow doc svc)"
    using d(3) e(1) [of svc] by auto
qed

lemma config_revoke_all:
  assumes T: "toml_ok (ae_toml E)" and w: "remove_allow_from_config (ae_toml E) ok f ps = Inr (f', c)"
    and l: "load E f \<noteq> None" "load E f' \<noteq> None"
  shows "cfg_allow E f' s = filter (\<lambda>a. a \<notin> set ps) (cfg_allow E f s)" and "\<not> c \<Longrightarrow> f' = f"
proof -
  have "toml_roundtrip (ae_toml E)" using T by (simp add: toml_ok_def)
  from rmw_Inr [OF this w [unfolded remove_allow_from_config_def]]
  obtain d1 d2 where d: "config_doc (ae_toml E) f = Some d1" "remove_allow_edit ps d1 = Inr (d2, c)"
      "config_doc (ae_toml E) f' = Some (if c then d2 else d1)" and n: "\<not> c \<Longrightarrow> f' = f" by metis
  note e = remove_allow_edit_Inr [OF d(2)]
  have sv: "doc_servable (if c then d2 else d1) s = doc_servable d1 s"
    using e(2) [of s] e(3) [of "''run''" s] e(3) [of "''socket''" s] by (simp add: doc_servable_def)
  show "cfg_allow E f' s = filter (\<lambda>a. a \<notin> set ps) (cfg_allow E f s)"
    unfolding config_of_doc(1) [OF T l(1) d(1)] config_of_doc(1) [OF T l(2) d(3)] sv e(1) by simp
  show "\<not> c \<Longrightarrow> f' = f" by (rule n)
qed

lemma map_of_map_key: "map_of (map (\<lambda>(k, v). (k, f k v)) m) s = map_option (f s) (map_of m s)"
  by (induction m) auto

lemma map_of_allow_replaced:
  assumes "with_allow_replaced ss name allow = Some ss'"
  shows "map_of ss' s = map_option (\<lambda>e. e\<lparr>se_allow := (if s = name then allow else se_allow e)\<rparr>) (map_of ss s)"
    and "al_keys ss' = al_keys ss" and "name \<in> set (al_keys ss)"
  using assms
  by (auto simp: with_allow_replaced_def map_of_map_key [of "\<lambda>k e. e\<lparr>se_allow := (if k = name then allow else se_allow e)\<rparr>"]
      split: if_splits)

subsection \<open>What each verb does to the live registry\<close>

text \<open>An operation that only swaps the registry leaves what the allow lists in force are computed from.\<close>

lemma swap_services_fields [simp]:
  "dm_config (swap_services d ss) = dm_config d" "dm_ephemeral (swap_services d ss) = dm_ephemeral d"
  "dm_store (swap_services d ss) = dm_store d" "dm_roster (swap_services d ss) = dm_roster d"
  "dm_registry (swap_services d ss) = dm_registry d"
  by (simp_all add: swap_services_def)

lemma eff_allow_swap [simp]: "eff_allow E (swap_services d ss) = eff_allow E d"
  by (rule ext) (simp add: eff_allow_def split: option.splits)

lemma synced_live: "synced E d \<Longrightarrow> live_allow d s = eff_allow E d s"
  by (simp add: synced_def)

lemma grant_ephemeral_effect:
  assumes "grant_ephemeral d svc p = (moved, d')"
  shows "eff_allow E d' s =
      (if s = svc \<and> map_of (dm_ephemeral d) svc \<noteq> None then push_new (eff_allow E d s) p else eff_allow E d s)"
    and "moved = None \<longleftrightarrow> map_of (dm_ephemeral d) svc = None" and "moved \<noteq> Some True \<Longrightarrow> d' = d"
    and "distinct (al_keys (dm_ephemeral d)) \<Longrightarrow> distinct (al_keys (dm_ephemeral d'))"
    and "dm_live d' = dm_live d" and "dm_config d' = dm_config d" and "dm_store d' = dm_store d"
    and "dm_roster d' = dm_roster d" and "dm_registry d' = dm_registry d"
  using assms
  by (auto simp: grant_ephemeral_def eff_allow_def alist_simps push_new_def split: option.splits if_splits)

lemma revoke_ephemeral_effect:
  assumes "revoke_ephemeral d svc p = (moved, d')"
  shows "eff_allow E d' s =
      (if s = svc \<and> map_of (dm_ephemeral d) svc \<noteq> None then filter (\<lambda>a. a \<noteq> p) (eff_allow E d s) else eff_allow E d s)"
    and "moved = None \<longleftrightarrow> map_of (dm_ephemeral d) svc = None"
    and "map_of (dm_ephemeral d') svc = Some e \<Longrightarrow> p \<notin> set (es_allow e)"
    and "distinct (al_keys (dm_ephemeral d)) \<Longrightarrow> distinct (al_keys (dm_ephemeral d'))"
    and "dm_live d' = dm_live d" and "dm_config d' = dm_config d" and "dm_store d' = dm_store d"
    and "dm_roster d' = dm_roster d" and "dm_registry d' = dm_registry d"
  using assms
  by (auto simp: revoke_ephemeral_def eff_allow_def alist_simps Let_def split: option.splits)

lemma revoke_ephemeral_moved:
  assumes "revoke_ephemeral d svc p = (moved, d')" and "moved \<noteq> Some True"
  shows "map_of (dm_ephemeral d) svc = Some e \<Longrightarrow> p \<notin> set (es_allow e)"
proof -
  assume e: "map_of (dm_ephemeral d) svc = Some e"
  then have "length (filter (\<lambda>a. a \<noteq> p) (es_allow e)) = length (es_allow e)"
    using assms by (auto simp: revoke_ephemeral_def Let_def)
  then show "p \<notin> set (es_allow e)"
    by (metis (mono_tags, lifting) length_filter_less less_irrefl)
qed

lemma live_allow_cong: "dm_live d' = dm_live d \<Longrightarrow> live_allow d' s = live_allow d s"
  by (simp add: live_allow_def)

lemma daemon_config_same [simp]: "d\<lparr>dm_config := dm_config d\<rparr> = d"
  by simp

lemma eff_allow_config:
  "eff_allow E (d\<lparr>dm_config := f\<rparr>) s =
     (case map_of (dm_ephemeral d) s of Some e \<Rightarrow> es_allow e | None \<Rightarrow> cfg_allow E f s)"
  by (simp add: eff_allow_def split: option.splits)

text \<open>Everything but the live registry is the same.\<close>

definition same_sources :: "daemon \<Rightarrow> daemon \<Rightarrow> bool" where
  "same_sources d d' \<longleftrightarrow> dm_config d' = dm_config d \<and> dm_ephemeral d' = dm_ephemeral d \<and> dm_store d' = dm_store d \<and>
     dm_roster d' = dm_roster d \<and> dm_registry d' = dm_registry d"

lemma same_sources_swap: "same_sources d (swap_services d ss)"
  by (simp add: same_sources_def)

lemma same_sources_eff: "same_sources d d' \<Longrightarrow> eff_allow E d' = eff_allow E d"
  by (rule ext) (simp add: eff_allow_def same_sources_def split: option.splits)

definition maps_ok :: "daemon \<Rightarrow> bool" where
  "maps_ok d \<longleftrightarrow> distinct (al_keys (dm_ephemeral d)) \<and> distinct (al_keys (ls_services (dm_live d)))"

text \<open>Only the list of one service moved, to the list its source has now.\<close>

definition one_moved :: "access_env \<Rightarrow> daemon \<Rightarrow> daemon \<Rightarrow> string \<Rightarrow> bool" where
  "one_moved E d d' service \<longleftrightarrow> live_allow d' service = eff_allow E d' service \<and>
     (\<forall>s. s \<noteq> service \<longrightarrow> live_allow d' s = live_allow d s)"

lemma maps_ok_synced: "synced E d \<Longrightarrow> maps_ok d"
  by (simp add: synced_def maps_ok_def)

text \<open>A reload, or the targeted swap of an ephemeral list.\<close>

lemma apply_ephemeral_any:
  assumes T: "toml_ok (ae_toml E)" and m: "maps_ok d" and a: "apply_ephemeral_allow E d service = (Inr (), d')"
  shows "maps_ok d' \<and> same_sources d d' \<and> (synced E d' \<or> one_moved E d d' service)"
proof -
  consider (fast) e ss where "map_of (dm_ephemeral d) service = Some e"
      "with_allow_replaced (ls_services (dm_live d)) service (es_allow e) = Some ss" "d' = swap_services d ss"
    | (slow) "reload_services_from_disk E d = (Inr (), d')"
    using a by (auto simp: apply_ephemeral_allow_def bind_eq_Some_conv split: option.splits)
  then show ?thesis
  proof cases
    case fast
    note r = map_of_allow_replaced [OF fast(2)]
    from r(3) obtain old where "map_of (ls_services (dm_live d)) service = Some old"
      by (metis key_lookup not_None_eq)
    then have "one_moved E d d' service" using fast(1)
      by (auto simp: fast(3) one_moved_def swap_services_def live_store_def live_allow_def eff_allow_def r(1)
          split: option.splits)
    then show ?thesis using m r(2)
      by (simp add: fast(3) maps_ok_def same_sources_def) (simp add: swap_services_def live_store_def)
  next
    case slow
    then show ?thesis using reload_Inr [OF T, of d d'] m same_sources_swap maps_ok_synced
      unfolding maps_ok_def by metis
  qed
qed

lemma install_any:
  assumes T: "toml_ok (ae_toml E)" and m: "maps_ok d" and "install_allow_change E d service c moved = (Inr (), d')"
  shows "maps_ok d' \<and> same_sources d d' \<and>
     (if c \<or> moved = Some True then synced E d' \<or> one_moved E d d' service else d' = d)"
proof (cases c)
  case True
  then have "reload_services_from_disk E d = (Inr (), d')" using assms(3) by (simp add: install_allow_change_def)
  then show ?thesis using reload_Inr [OF T, of d d'] m same_sources_swap maps_ok_synced True
    unfolding maps_ok_def by metis
next
  case False
  show ?thesis
  proof (cases "moved = Some True")
    case True
    then have "apply_ephemeral_allow E d service = (Inr (), d')"
      using assms(3) False by (simp add: install_allow_change_def)
    then show ?thesis using apply_ephemeral_any [OF T m] True by simp
  next
    case nm: False
    then have "d' = d" using assms(3) False by (simp add: install_allow_change_def)
    then show ?thesis using False nm m by (simp add: same_sources_def)
  qed
qed

lemma one_moved_cong: "dm_live d0 = dm_live d \<Longrightarrow> one_moved E d d' service \<Longrightarrow> one_moved E d0 d' service"
  by (simp add: one_moved_def live_allow_def)

lemma synced_after:
  assumes "synced E d" and "synced E d' \<or> one_moved E d d' service" and "maps_ok d'"
    and "load E (dm_config d') \<noteq> None" and "\<And>s. s \<noteq> service \<Longrightarrow> eff_allow E d' s = eff_allow E d s"
  shows "synced E d'"
proof (cases "synced E d'")
  case False
  then have m: "one_moved E d d' service" using assms(2) by blast
  have "live_allow d' s = eff_allow E d' s" for s
    using m assms(5) [of s] synced_live [OF assms(1)] by (cases "s = service") (simp_all add: one_moved_def)
  then show ?thesis using assms(3,4) by (simp add: synced_def maps_ok_def)
qed

lemma load_of_synced: "synced E d \<Longrightarrow> load E (dm_config d) \<noteq> None"
  by (simp add: synced_def)

lemma synced_distinct: "synced E d \<Longrightarrow> distinct (al_keys (dm_ephemeral d)) \<and> distinct (al_keys (ls_services (dm_live d)))"
  by (simp add: synced_def)

lemma grant_service_allow_steps:
  assumes "grant_service_allow L E ok d service p = (Inr (), d')"
  obtains f c moved d2 where "\<not> principal_is_revoked L (dm_store d) (rg_view (dm_roster d)) p"
    and "map_of (dm_ephemeral d) service \<noteq> None \<or> servable E (dm_config d) service"
    and "append_allow_to_config (ae_toml E) ok (dm_config d) p [service] = Inr (f, c)"
    and "grant_ephemeral (d\<lparr>dm_config := f\<rparr>) service p = (moved, d2)"
    and "install_allow_change E d2 service c moved = (Inr (), d')"
proof -
  from assms obtain b d1 f c moved d2 where
    nr: "\<not> principal_is_revoked L (dm_store d) (rg_view (dm_roster d)) p" and
    b: "(if map_of (dm_ephemeral d) service \<noteq> None then (Inr True, d)
         else (service_servable_in_config E d service, d)) = (Inr b, d1)" and "\<not> \<not> b" and
    w: "append_allow_to_config (ae_toml E) ok (dm_config d1) p [service] = Inr (f, c)" and
    ge: "grant_ephemeral (d1\<lparr>dm_config := f\<rparr>) service p = (moved, d2)" and
    r: "install_allow_change E d2 service c moved = (Inr (), d')"
    unfolding grant_service_allow_def sguard_eq_Inr sbind_eq_Inr write_config_Inr case_prod_eq by blast
  from b have d1: "d1 = d" by (auto split: if_splits)
  from b \<open>\<not> \<not> b\<close> have serv: "map_of (dm_ephemeral d) service \<noteq> None \<or> servable E (dm_config d) service"
    using servable_in_config by (auto split: if_splits)
  show thesis by (rule that [OF nr serv w [unfolded d1] ge [unfolded d1] r])
qed

lemma toml_ok_roundtrip: "toml_ok T \<Longrightarrow> toml_roundtrip T"
  by (simp add: toml_ok_def)

lemma rmw_unchanged: "toml_ok T \<Longrightarrow> rmw T ok f edit = Inr (f', c) \<Longrightarrow> \<not> c \<Longrightarrow> f' = f"
  using rmw_Inr [OF toml_ok_roundtrip] by metis

lemma reload_load: "reload_services_from_disk E d = (Inr (), d') \<Longrightarrow> load E (dm_config d) \<noteq> None"
  by (auto simp: reload_services_from_disk_def split: option.splits)

lemma install_load: "install_allow_change E d service True moved = (Inr (), d') \<Longrightarrow> load E (dm_config d) \<noteq> None"
  using reload_load by (simp add: install_allow_change_def)

lemma grant_service_allow_effect:
  assumes T: "toml_ok (ae_toml E)" and M: "maps_ok d" and l: "load E (dm_config d) \<noteq> None"
    and g: "grant_service_allow L E ok d service p = (Inr (), d')"
  shows "eff_allow E d' s = (if s = service then push_new (eff_allow E d s) p else eff_allow E d s)"
    and "\<not> principal_is_revoked L (dm_store d) (rg_view (dm_roster d)) p"
    and "d' = d \<or> synced E d' \<or> one_moved E d d' service"
    and "maps_ok d'" and "load E (dm_config d') \<noteq> None"
proof -
  from g obtain f c moved d2 where
    nr: "\<not> principal_is_revoked L (dm_store d) (rg_view (dm_roster d)) p" and
    serv: "map_of (dm_ephemeral d) service \<noteq> None \<or> servable E (dm_config d) service" and
    w: "append_allow_to_config (ae_toml E) ok (dm_config d) p [service] = Inr (f, c)" and
    ge: "grant_ephemeral (d\<lparr>dm_config := f\<rparr>) service p = (moved, d2)" and
    r: "install_allow_change E d2 service c moved = (Inr (), d')" by (rule grant_service_allow_steps)
  show "\<not> principal_is_revoked L (dm_store d) (rg_view (dm_roster d)) p" by (rule nr)
  note ge' = grant_ephemeral_effect [OF ge]
  have same: "f = dm_config d" if "\<not> c"
    using rmw_unchanged [OF T w [unfolded append_allow_to_config_def] that] .
  have lf: "load E f \<noteq> None" using install_load [of E d2 service moved d'] r same l ge'(6) by (cases c) auto
  note cg = config_grant [OF T w l lf]
  have e2: "eff_allow E d2 s = (if s = service then push_new (eff_allow E d s) p else eff_allow E d s)" for s
    using serv cg(1) [of s] unfolding ge'(1) eff_allow_config eff_allow_def [of E d] by (auto split: option.splits)
  have m2: "maps_ok d2" using M ge'(4,5) by (simp add: maps_ok_def)
  note I = install_any [OF T m2 r]
  show "eff_allow E d' s = (if s = service then push_new (eff_allow E d s) p else eff_allow E d s)"
    using same_sources_eff I e2 by metis
  show "maps_ok d'" using I by blast
  show "load E (dm_config d') \<noteq> None" using I lf ge'(6) by (simp add: same_sources_def)
  show "d' = d \<or> synced E d' \<or> one_moved E d d' service"
  proof (cases "c \<or> moved = Some True")
    case True
    then show ?thesis using I one_moved_cong [of d d2] ge'(5) by auto
  next
    case False
    then have "d' = d" using I ge'(3) same by auto
    then show ?thesis ..
  qed
qed

lemma sever_Inr [result_simps]:
  "sever L d ps = (Inr conns, d') \<longleftrightarrow>
     d' = d \<and> sever_principals L (dm_store d) (dm_roster d) (dm_registry d) ps = Inr conns"
  by (auto simp: sever_def lift_store_def split: sum.splits)

text \<open>Whether one of the two sources of a service lists the principal.\<close>

definition listed :: "access_env \<Rightarrow> daemon \<Rightarrow> string \<Rightarrow> string \<Rightarrow> bool" where
  "listed E d service p \<longleftrightarrow>
     (\<exists>e. map_of (dm_ephemeral d) service = Some e \<and> p \<in> set (es_allow e)) \<or>
     (\<exists>doc. config_doc (ae_toml E) (dm_config d) = Some doc \<and> p \<in> set (svc_allow doc service))"

lemma listed_eff:
  assumes "toml_ok (ae_toml E)" and "load E (dm_config d) \<noteq> None" and "p \<in> set (eff_allow E d s)"
  shows "listed E d s p"
proof (cases "map_of (dm_ephemeral d) s")
  case None
  obtain cfg where "load E (dm_config d) = Some cfg" using assms(2) by blast
  then obtain doc where doc: "config_doc (ae_toml E) (dm_config d) = Some doc" by (rule load_doc [OF assms(1)])
  have "p \<in> set (svc_allow doc s)"
    using assms(3) None config_of_doc(1) [OF assms(1,2) doc, of s] by (simp add: eff_allow_def split: if_splits)
  then show ?thesis using doc by (auto simp: listed_def)
next
  case (Some e)
  then show ?thesis using assms(3) by (simp add: listed_def eff_allow_def)
qed

lemma revoke_ephemeral_flag:
  "revoke_ephemeral d svc p = (moved, d') \<Longrightarrow>
     moved = Some True \<longleftrightarrow> (\<exists>e. map_of (dm_ephemeral d) svc = Some e \<and> p \<in> set (es_allow e))"
proof -
  assume r: "revoke_ephemeral d svc p = (moved, d')"
  have "length (filter (\<lambda>a. a \<noteq> p) xs) \<noteq> length xs \<longleftrightarrow> p \<in> set xs" for xs
  proof (cases "p \<in> set xs")
    case True
    then show ?thesis using length_filter_less [of p xs "\<lambda>a. a \<noteq> p"] by simp
  next
    case False
    then have "filter (\<lambda>a. a \<noteq> p) xs = xs" by (intro filter_True) auto
    then show ?thesis using False by simp
  qed
  then show ?thesis using r by (auto simp: revoke_ephemeral_def Let_def split: option.splits)
qed

lemma remove_principal_flag:
  assumes "toml_ok (ae_toml E)" and "remove_principal_from_service (ae_toml E) ok f svc p = Inr (f', c)"
  shows "c \<longleftrightarrow> (\<exists>doc. config_doc (ae_toml E) f = Some doc \<and> p \<in> set (svc_allow doc svc))"
proof -
  from rmw_Inr [OF toml_ok_roundtrip [OF assms(1)] assms(2) [unfolded remove_principal_from_service_def]]
  obtain d1 d2 where "config_doc (ae_toml E) f = Some d1" "remove_principal_edit svc p d1 = Inr (d2, c)" by metis
  then show ?thesis using remove_principal_edit_Inr(5) [of svc p d1 d2 c] by simp
qed

lemma revoke_service_allow_effect:
  assumes T: "toml_ok (ae_toml E)" and M: "maps_ok d" and l: "load E (dm_config d) \<noteq> None"
    and g: "revoke_service_allow L E ok d service p = (Inr conns, d')"
  shows "eff_allow E d' s = (if s = service then filter (\<lambda>a. a \<noteq> p) (eff_allow E d s) else eff_allow E d s)"
    and "\<not> listed E d' service p" and "maps_ok d'" and "load E (dm_config d') \<noteq> None"
    and "if listed E d service p
         then (synced E d' \<or> one_moved E d d' service) \<and>
           sever_principals L (dm_store d) (dm_roster d) (dm_registry d) [p] = Inr conns
         else dm_live d' = dm_live d \<and> conns = []"
proof -
  from g obtain moved d1 f c k d3 d4 u where
    re: "revoke_ephemeral d service p = (moved, d1)" and
    w: "remove_principal_from_service (ae_toml E) ok (dm_config d1) service p = Inr (f, c)" and
    kn: "(if moved = None \<and> \<not> c then (service_servable_in_config E (d1\<lparr>dm_config := f\<rparr>) service, d1\<lparr>dm_config := f\<rparr>)
         else (Inr True, d1\<lparr>dm_config := f\<rparr>)) = (Inr k, d3)" and
    ru: "install_allow_change E d3 service c moved = (Inr u, d4)" and
    sv: "(if c \<or> moved = Some True then sever L d4 [p] else (Inr [], d4)) = (Inr conns, d')"
    unfolding revoke_service_allow_def sguard_eq_Inr sbind_eq_Inr write_config_Inr case_prod_eq by blast
  from ru have r: "install_allow_change E d3 service c moved = (Inr (), d4)" by simp
  from kn have d3: "d3 = d1\<lparr>dm_config := f\<rparr>" by (auto split: if_splits)
  note re' = revoke_ephemeral_effect [OF re]
  have flag: "listed E d service p \<longleftrightarrow> c \<or> moved = Some True"
    using revoke_ephemeral_flag [OF re] remove_principal_flag [OF T w] re'(6) unfolding listed_def by auto
  have same: "f = dm_config d" if "\<not> c"
    using rmw_unchanged [OF T w [unfolded remove_principal_from_service_def] that] re'(6) by simp
  have lf: "load E f \<noteq> None" using install_load [of E d3 service moved d4] r same l d3 by (cases c) auto
  note cr = config_revoke_one [OF T w [unfolded re'(6)] l lf]
  have e3: "eff_allow E d3 s = (if s = service then filter (\<lambda>a. a \<noteq> p) (eff_allow E d s) else eff_allow E d s)" for s
  proof (cases "map_of (dm_ephemeral d) s")
    case None
    then have "map_of (dm_ephemeral d1) s = None" using re
      by (auto simp: revoke_ephemeral_def Let_def alist_simps split: option.splits)
    then show ?thesis using None cr(1) [of s] by (auto simp: d3 eff_allow_def)
  next
    case (Some e)
    then have k: "map_of (dm_ephemeral d1) s \<noteq> None" using re
      by (auto simp: revoke_ephemeral_def Let_def alist_simps split: option.splits)
    then have "eff_allow E d3 s = eff_allow E d1 s" by (auto simp: d3 eff_allow_def)
    then show ?thesis using re'(1) [of E s] Some by auto
  qed
  have m3: "maps_ok d3" using M re'(4,5) by (simp add: maps_ok_def d3)
  note I = install_any [OF T m3 r]
  have d': "d' = d4" using sv by (auto simp: result_simps split: if_splits)
  have src: "dm_store d4 = dm_store d" "dm_roster d4 = dm_roster d" "dm_registry d4 = dm_registry d"
    "dm_ephemeral d4 = dm_ephemeral d1" "dm_config d4 = f"
    using I re'(7-9) by (simp_all add: same_sources_def d3)
  show "eff_allow E d' s = (if s = service then filter (\<lambda>a. a \<noteq> p) (eff_allow E d s) else eff_allow E d s)"
    using same_sources_eff I e3 d' by metis
  show "\<not> listed E d' service p" using re'(3) cr(4) src by (auto simp: listed_def d')
  show "maps_ok d'" using I d' by blast
  show "load E (dm_config d') \<noteq> None" using lf src d' by simp
  show "if listed E d service p
         then (synced E d' \<or> one_moved E d d' service) \<and>
           sever_principals L (dm_store d) (dm_roster d) (dm_registry d) [p] = Inr conns
         else dm_live d' = dm_live d \<and> conns = []"
  proof (cases "listed E d service p")
    case True
    then have "synced E d' \<or> one_moved E d d' service"
      using I flag one_moved_cong [of d d3] re'(5) by (auto simp: d3 d')
    then show ?thesis using True flag sv src by (auto simp: result_simps)
  next
    case False
    then show ?thesis using I flag sv re'(5) d' by (auto simp: d3)
  qed
qed

subsection \<open>Unpairing\<close>

lemma strip_principals_set:
  "set (strip_principals L others targets ps) = set ps \<union> {principal L (pe_endpoint_id t) | t. t \<in> set targets} \<union>
     {u | t u. t \<in> set targets \<and> pe_user_id t = Some u \<and>
        \<not> (\<exists>other \<in> set others. pe_user_id other = Some u \<and> pe_paired_at other \<noteq> None)}"
proof (induction targets arbitrary: ps)
  case (Cons t targets)
  show ?case
    by (cases "pe_user_id t") (auto simp: Let_def Cons.IH)
qed simp

lemma revoke_principals_set:
  assumes "revoke_principals L store nickname = Inr ps"
  shows "set ps = {principal L (pe_endpoint_id t) | t. t \<in> set (readable (ps_peers store)) \<and> pe_nickname t = nickname} \<union>
     {u | t u. t \<in> set (readable (ps_peers store)) \<and> pe_nickname t = nickname \<and> pe_user_id t = Some u \<and>
        \<not> (\<exists>other \<in> set (readable (ps_peers store)). pe_nickname other \<noteq> nickname \<and>
             pe_user_id other = Some u \<and> pe_paired_at other \<noteq> None)}"
proof -
  from assms have ps: "ps = strip_principals L (filter (\<lambda>e. pe_nickname e \<noteq> nickname) (readable (ps_peers store)))
      (filter (\<lambda>e. pe_nickname e = nickname) (readable (ps_peers store))) []"
    by (auto simp: revoke_principals_def store_list_def result_simps comp_def)
  show ?thesis
    unfolding ps strip_principals_set list.set(1) Un_empty_left set_filter mem_Collect_eq Bex_def conj_assoc ..
qed

text \<open>The connections a sever pass selects.\<close>

lemma sever_principals_set:
  assumes "sever_principals L store g r ps = Inr conns"
  shows "c \<in> set conns \<longleftrightarrow> (\<exists>i t. (i, t) \<in> set (cr_inner r) \<and> t_conn t = c \<and>
     (\<exists>p \<in> set ps. names_endpoint L store (rg_view g) p (t_endpoint_id t) \<or> p \<in> set (al_keys (t_admitted t))))"
proof -
  have look: "e \<in> set (concat ts) \<longleftrightarrow> (\<exists>p \<in> set qs. names_endpoint L store (rg_view g) p e)"
    if "mapM (endpoints_for_principal L store (rg_view g)) qs = Inr ts" for qs ts e
    using that
  proof (induction qs arbitrary: ts)
    case (Cons q qs)
    then obtain es ts' where "endpoints_for_principal L store (rg_view g) q = Inr es"
      "mapM (endpoints_for_principal L store (rg_view g)) qs = Inr ts'" "ts = es # ts'"
      by (auto simp: result_simps)
    then show ?case using Cons.IH endpoints_for_principal_spec by auto
  qed simp
  from assms obtain ts where "mapM (endpoints_for_principal L store (rg_view g)) ps = Inr ts"
    "conns = sever_matching_admitted r (\<lambda>eid. eid \<in> set (concat ts)) (\<lambda>p. p \<in> set ps)"
    by (auto simp: sever_principals_def result_simps)
  then show ?thesis using look unfolding sever_admitted_set by (simp only: sever_admitted_set) blast
qed

lemma revoke_service_access_effect:
  assumes T: "toml_ok (ae_toml E)" and M: "maps_ok d" and l: "load E (dm_config d) \<noteq> None"
    and g: "revoke_service_access L E ok d nickname = (Inr (revoked, severed), d')"
  obtains ps where "revoke_principals L (dm_store d) nickname = Inr ps" and "maps_ok d'"
    and "load E (dm_config d') \<noteq> None"
    and "\<And>s. eff_allow E d' s = (if map_of (dm_ephemeral d) s \<noteq> None then eff_allow E d s
           else filter (\<lambda>a. a \<notin> set ps) (eff_allow E d s))"
    and "dm_store d' = dm_store d" and "dm_ephemeral d' = dm_ephemeral d"
    and "\<And>c. c \<in> set severed \<longleftrightarrow> (\<exists>i t. (i, t) \<in> set (cr_inner (dm_registry d)) \<and> t_conn t = c \<and>
       (\<exists>p \<in> set ps. names_endpoint L (dm_store d) (rg_view (dm_roster d)) p (t_endpoint_id t) \<or>
          p \<in> set (al_keys (t_admitted t))))"
    and "synced E d' \<or> dm_live d' = dm_live d \<and> (\<forall>doc s p. config_doc (ae_toml E) (dm_config d) = Some doc \<longrightarrow>
       p \<in> set ps \<longrightarrow> p \<notin> set (svc_allow doc s))"
    and "synced E d \<Longrightarrow> synced E d'"
proof -
  from g obtain ps where ps: "revoke_principals L (dm_store d) nickname = Inr ps"
    and r: "(if ps = [] then (Inr (False, []), d)
     else
       sbind (write_config d (remove_allow_from_config (ae_toml E) ok (dm_config d) ps)) (\<lambda>changed d.
       sbind (if changed then reload_services_from_disk E d else (Inr (), d)) (\<lambda>_ d.
       sbind (sever L d ps) (\<lambda>severed d. (Inr (changed, severed), d))))) = (Inr (revoked, severed), d')"
    by (cases "revoke_principals L (dm_store d) nickname") (auto simp: revoke_service_access_def lift_store_def)
  show thesis
  proof (cases "ps = []")
    case True
    with r have d': "d' = d" and sv: "severed = []" by simp_all
    show thesis by (rule that [OF ps]) (use M l in \<open>simp_all add: d' sv True\<close>)
  next
    case False
    with r obtain f c u d2 where w: "remove_allow_from_config (ae_toml E) ok (dm_config d) ps = Inr (f, c)"
      and rl: "(if c then reload_services_from_disk E (d\<lparr>dm_config := f\<rparr>) else (Inr (), d\<lparr>dm_config := f\<rparr>)) = (Inr u, d2)"
      and sv: "sever_principals L (dm_store d2) (dm_roster d2) (dm_registry d2) ps = Inr severed" and d': "d' = d2"
      unfolding sbind_eq_Inr write_config_Inr sever_Inr if_not_P [OF False] by blast
    have same: "f = dm_config d" if "\<not> c"
      using rmw_unchanged [OF T w [unfolded remove_allow_from_config_def] that] .
    have lf: "load E f \<noteq> None" using rl reload_load [of E "d\<lparr>dm_config := f\<rparr>"] same l by (cases c) auto
    have e: "eff_allow E (d\<lparr>dm_config := f\<rparr>) s = (if map_of (dm_ephemeral d) s \<noteq> None then eff_allow E d s
           else filter (\<lambda>a. a \<notin> set ps) (eff_allow E d s))" for s
      using config_revoke_all(1) [OF T w l lf, of s] by (auto simp: eff_allow_def)
    have quiet: "p \<notin> set (svc_allow doc s)"
      if "\<not> c" "config_doc (ae_toml E) (dm_config d) = Some doc" "p \<in> set ps" for doc s p
    proof -
      from rmw_Inr [OF toml_ok_roundtrip [OF T] w [unfolded remove_allow_from_config_def]]
      obtain d1 d2 where d: "config_doc (ae_toml E) (dm_config d) = Some d1" "remove_allow_edit ps d1 = Inr (d2, c)" by metis
      have eq: "svc_allow doc s = filter (\<lambda>a. a \<notin> set ps) (svc_allow doc s)"
        using remove_allow_edit_Inr(1) [OF d(2), of s] d(1) that(1,2) by simp
      show ?thesis by (subst eq) (simp add: that(3))
    qed
    have I: "same_sources (d\<lparr>dm_config := f\<rparr>) d2 \<and> maps_ok d2 \<and> (if c then synced E d2 else d2 = d)"
    proof (cases c)
      case True
      then have "reload_services_from_disk E (d\<lparr>dm_config := f\<rparr>) = (Inr (), d2)" using rl by simp
      then show ?thesis using True reload_Inr [OF T, of "d\<lparr>dm_config := f\<rparr>" d2] M same_sources_swap maps_ok_synced
        by (auto simp: maps_ok_def)
    next
      case False
      then show ?thesis using rl same M by (auto simp: same_sources_def)
    qed
    then have ss: "same_sources (d\<lparr>dm_config := f\<rparr>) d'" by (simp add: d')
    note ss' = ss [unfolded same_sources_def, simplified]
    have st: "synced E d' \<or> dm_live d' = dm_live d \<and> (\<forall>doc s p. config_doc (ae_toml E) (dm_config d) = Some doc \<longrightarrow>
       p \<in> set ps \<longrightarrow> p \<notin> set (svc_allow doc s))"
      using I quiet by (cases c) (simp_all add: d')
    have sy: "synced E d \<Longrightarrow> synced E d'" using I by (cases c) (simp_all add: d')
    show thesis
    proof (rule that [OF ps])
      show "maps_ok d'" and "load E (dm_config d') \<noteq> None" using I lf ss' d' by simp_all
      show "eff_allow E d' s = (if map_of (dm_ephemeral d) s \<noteq> None then eff_allow E d s
           else filter (\<lambda>a. a \<notin> set ps) (eff_allow E d s))" for s
        using same_sources_eff [OF ss] e by simp
      show "c \<in> set severed \<longleftrightarrow> (\<exists>i t. (i, t) \<in> set (cr_inner (dm_registry d)) \<and> t_conn t = c \<and>
         (\<exists>p \<in> set ps. names_endpoint L (dm_store d) (rg_view (dm_roster d)) p (t_endpoint_id t) \<or>
            p \<in> set (al_keys (t_admitted t))))" for c
        using sever_principals_set [OF sv, of c] ss' d' by simp
    qed (use ss' st sy in simp_all)
  qed
qed

lemma remove_peer_steps:
  assumes "remove_peer L E ok has_blobs d nickname = (Inr (severed, blob_ps), d')"
  obtains revoked d1 removed st where "revoke_service_access L E ok d nickname = (Inr (revoked, severed), d1)"
    and "store_remove (dm_store d1) nickname = Inr (removed, st)" and "d' = d1\<lparr>dm_store := st\<rparr>"
    and "revoked \<or> removed" and "has_blobs \<longrightarrow> blob_revoke_principals L (dm_store d1) nickname = Inr blob_ps"
proof -
  from assms obtain revoked d1 bp d2 removed d3 where
    1: "revoke_service_access L E ok d nickname = (Inr (revoked, severed), d1)" and
    2: "(if has_blobs then (lift_store (blob_revoke_principals L (dm_store d1) nickname), d1) else (Inr [], d1)) = (Inr bp, d2)" and
    3: "(case store_remove (dm_store d2) nickname of Inl e \<Rightarrow> (Inl (StoreFailed e), d2)
            | Inr (removed, store) \<Rightarrow> (Inr removed, d2\<lparr>dm_store := store\<rparr>)) = (Inr removed, d3)" and
    n: "\<not> (\<not> revoked \<and> \<not> removed)" and
    4: "(Inr (severed, bp), d3) = ((Inr (severed, blob_ps), d') :: (access_error + _) \<times> _)"
    unfolding remove_peer_def sguard_eq_Inr sbind_eq_Inr case_prod_eq by blast
  from 2 have d2: "d2 = d1" and b: "has_blobs \<longrightarrow> blob_revoke_principals L (dm_store d1) nickname = Inr bp"
    by (auto simp: lift_store_def split: if_splits sum.splits)
  from 3 obtain st where st: "store_remove (dm_store d1) nickname = Inr (removed, st)" and d3: "d3 = d1\<lparr>dm_store := st\<rparr>"
    unfolding d2 by (auto split: sum.splits)
  show thesis by (rule that [OF 1 st]) (use 4 d3 n b in auto)
qed

lemma remove_peer_effect:
  assumes T: "toml_ok (ae_toml E)" and M: "maps_ok d" and l: "load E (dm_config d) \<noteq> None"
    and g: "remove_peer L E ok has_blobs d nickname = (Inr (severed, blob_ps), d')"
  obtains ps removed where "revoke_principals L (dm_store d) nickname = Inr ps" and "maps_ok d'"
    and "load E (dm_config d') \<noteq> None"
    and "\<And>s. eff_allow E d' s = (if map_of (dm_ephemeral d) s \<noteq> None then eff_allow E d s
           else filter (\<lambda>a. a \<notin> set ps) (eff_allow E d s))"
    and "store_remove (dm_store d) nickname = Inr (removed, dm_store d')" and "dm_ephemeral d' = dm_ephemeral d"
    and "\<And>c. c \<in> set severed \<longleftrightarrow> (\<exists>i t. (i, t) \<in> set (cr_inner (dm_registry d)) \<and> t_conn t = c \<and>
       (\<exists>p \<in> set ps. names_endpoint L (dm_store d) (rg_view (dm_roster d)) p (t_endpoint_id t) \<or>
          p \<in> set (al_keys (t_admitted t))))"
    and "synced E d' \<or> dm_live d' = dm_live d \<and> (\<forall>doc s p. config_doc (ae_toml E) (dm_config d) = Some doc \<longrightarrow>
       p \<in> set ps \<longrightarrow> p \<notin> set (svc_allow doc s))"
    and "synced E d \<Longrightarrow> synced E d'"
proof -
  obtain revoked d1 removed st where
    1: "revoke_service_access L E ok d nickname = (Inr (revoked, severed), d1)" and
    st: "store_remove (dm_store d1) nickname = Inr (removed, st)" and d': "d' = d1\<lparr>dm_store := st\<rparr>"
    by (rule remove_peer_steps [OF g])
  have ef: "eff_allow E d' = eff_allow E d1"
    by (rule ext) (simp add: d' eff_allow_def split: option.splits)
  have sy: "synced E d' = synced E d1" "maps_ok d' = maps_ok d1"
    using ef by (simp_all add: d' synced_def live_allow_def maps_ok_def)
  show thesis
    by (rule revoke_service_access_effect [OF T M l 1], rule that)
      (use st ef sy in \<open>simp_all add: d'\<close>)
qed

subsection \<open>The pairing grant and registration\<close>

lemma grant_ephemeral_all_effect:
  assumes "grant_ephemeral_all d p svcs ch = (ch', d')"
  shows "eff_allow E d' s = (if s \<in> set svcs \<and> map_of (dm_ephemeral d) s \<noteq> None then push_new (eff_allow E d s) p
           else eff_allow E d s) \<and>
     (distinct (al_keys (dm_ephemeral d)) \<longrightarrow> distinct (al_keys (dm_ephemeral d'))) \<and>
     (map_of (dm_ephemeral d') s = None) = (map_of (dm_ephemeral d) s = None) \<and>
     dm_config d' = dm_config d \<and> (\<not> ch' \<longrightarrow> d' = d \<and> \<not> ch) \<and> (ch \<longrightarrow> ch')"
  using assms
proof (induction svcs arbitrary: d ch)
  case Nil
  then show ?case by simp
next
  case (Cons svc svcs)
  obtain m d1 where g: "grant_ephemeral d svc p = (m, d1)" by (cases "grant_ephemeral d svc p")
  have r: "grant_ephemeral_all d1 p svcs (ch \<or> m = Some True) = (ch', d')" using Cons.prems g by simp
  note ge = grant_ephemeral_effect [OF g]
  have keys: "(map_of (dm_ephemeral d1) s = None) = (map_of (dm_ephemeral d) s = None)" for s
    using g by (auto simp: grant_ephemeral_def alist_simps split: option.splits if_splits)
  have pn: "push_new (push_new xs p) p = push_new xs p" for xs by (simp add: push_new_def)
  note IH = Cons.IH [OF r]
  note IH1 = IH [THEN conjunct1] and IH2 = IH [THEN conjunct2, THEN conjunct1]
    and IH3 = IH [THEN conjunct2, THEN conjunct2, THEN conjunct1]
    and IH4 = IH [THEN conjunct2, THEN conjunct2, THEN conjunct2, THEN conjunct1]
    and IH5 = IH [THEN conjunct2, THEN conjunct2, THEN conjunct2, THEN conjunct2]
  have "eff_allow E d' s = (if s \<in> set (svc # svcs) \<and> map_of (dm_ephemeral d) s \<noteq> None then push_new (eff_allow E d s) p
           else eff_allow E d s)"
    using IH1 ge(1) [of E s] keys [of s] pn
    by (cases "s = svc"; cases "s \<in> set svcs"; cases "map_of (dm_ephemeral d) s") simp_all
  moreover have "distinct (al_keys (dm_ephemeral d)) \<longrightarrow> distinct (al_keys (dm_ephemeral d'))"
    by (rule impI, rule mp [OF IH2], erule ge(4))
  moreover have "dm_config d' = dm_config d" using IH4 ge(6) by (rule trans)
  moreover have "(map_of (dm_ephemeral d') s = None) = (map_of (dm_ephemeral d) s = None)"
    using IH3 keys [of s] by (rule trans)
  moreover have "d' = d \<and> \<not> ch" if "\<not> ch'"
  proof -
    from that have "d' = d1 \<and> \<not> (ch \<or> m = Some True)" by (rule mp [OF conjunct1 [OF IH5]])
    then show ?thesis using ge(3) by (cases "m = Some True") simp_all
  qed
  moreover have "ch \<longrightarrow> ch'" using conjunct2 [OF IH5] by simp
  ultimately show ?case by blast
qed

lemma grant_service_access_any:
  assumes T: "toml_ok (ae_toml E)" and M: "maps_ok d" and l: "load E (dm_config d) \<noteq> None"
    and g: "grant_service_access E ok d p svcs = (Inr u, d')"
  shows "(d' = d \<or> synced E d') \<and> eff_allow E d' s =
     (if s \<in> set svcs \<and> (map_of (dm_ephemeral d) s \<noteq> None \<or> servable E (dm_config d) s)
      then push_new (eff_allow E d s) p else eff_allow E d s)"
proof -
  from g obtain f c c' d2 where w: "append_allow_to_config (ae_toml E) ok (dm_config d) p svcs = Inr (f, c)"
    and ge: "grant_ephemeral_all (d\<lparr>dm_config := f\<rparr>) p svcs c = (c', d2)"
    and r: "(if c' then reload_services_from_disk E d2 else (Inr (), d2)) = (Inr u, d')"
    unfolding grant_service_access_def sbind_eq_Inr write_config_Inr case_prod_eq by blast
  have ge': "eff_allow E d2 s = (if s \<in> set svcs \<and> map_of (dm_ephemeral d) s \<noteq> None
         then push_new (eff_allow E (d\<lparr>dm_config := f\<rparr>) s) p else eff_allow E (d\<lparr>dm_config := f\<rparr>) s)"
    "distinct (al_keys (dm_ephemeral d2))" "dm_config d2 = f" "\<not> c' \<Longrightarrow> d2 = d\<lparr>dm_config := f\<rparr> \<and> \<not> c" for s
    using grant_ephemeral_all_effect [OF ge, of E s] M by (auto simp: maps_ok_def)
  have same: "f = dm_config d" if "\<not> c"
    using rmw_unchanged [OF T w [unfolded append_allow_to_config_def] that] .
  have lf: "load E f \<noteq> None"
    using r reload_load [of E d2 d'] ge'(3,4) same l by (cases c') auto
  note cg = config_grant(1) [OF T w l lf]
  have e2: "eff_allow E d2 s =
     (if s \<in> set svcs \<and> (map_of (dm_ephemeral d) s \<noteq> None \<or> servable E (dm_config d) s)
      then push_new (eff_allow E d s) p else eff_allow E d s)" for s
  proof (cases "map_of (dm_ephemeral d) s")
    case None
    then show ?thesis using cg [of s] unfolding ge'(1) by (auto simp: eff_allow_def)
  next
    case (Some e)
    then show ?thesis unfolding ge'(1) by (auto simp: eff_allow_def)
  qed
  show ?thesis
  proof (cases c')
    case True
    then have "reload_services_from_disk E d2 = (Inr (), d')" using r by simp
    from reload_Inr [OF T ge'(2) this] show ?thesis using e2 [of s] by auto
  next
    case False
    then have "d' = d" using r ge'(4) same by auto
    moreover have "eff_allow E d s = eff_allow E d2 s" using False ge'(4) same by simp
    ultimately show ?thesis using e2 [of s] by simp
  qed
qed

lemma grant_service_access_effect:
  assumes "toml_ok (ae_toml E)" and "synced E d" and "grant_service_access E ok d p svcs = (Inr u, d')"
  shows "synced E d' \<and> eff_allow E d' s =
     (if s \<in> set svcs \<and> (map_of (dm_ephemeral d) s \<noteq> None \<or> servable E (dm_config d) s)
      then push_new (eff_allow E d s) p else eff_allow E d s)"
  using grant_service_access_any [OF assms(1) maps_ok_synced load_of_synced assms(3)] assms(2) by auto

lemma grant_service_allow_synced:
  assumes "toml_ok (ae_toml E)" and "synced E d" and "grant_service_allow L E ok d service p = (Inr (), d')"
  shows "synced E d'"
proof -
  note e = grant_service_allow_effect [OF assms(1) maps_ok_synced [OF assms(2)] load_of_synced [OF assms(2)] assms(3)]
  show ?thesis using e(3) assms(2) synced_after [of E d d' service, OF assms(2) _ e(4,5)] e(1) by auto
qed

lemma revoke_service_allow_synced:
  assumes "toml_ok (ae_toml E)" and "synced E d" and "revoke_service_allow L E ok d service p = (Inr conns, d')"
  shows "synced E d'"
proof -
  note e = revoke_service_allow_effect [OF assms(1) maps_ok_synced [OF assms(2)] load_of_synced [OF assms(2)] assms(3)]
  show ?thesis
  proof (cases "listed E d service p")
    case True
    then have "synced E d' \<or> one_moved E d d' service" using e(5) by simp
    then show ?thesis by (rule synced_after [OF assms(2) _ e(3,4)]) (simp add: e(1))
  next
    case False
    then have live: "dm_live d' = dm_live d" using e(5) by simp
    have "p \<notin> set (eff_allow E d service)"
      using False listed_eff [OF assms(1) load_of_synced [OF assms(2)]] by blast
    then have "filter (\<lambda>a. a \<noteq> p) (eff_allow E d service) = eff_allow E d service" by (intro filter_True) auto
    then have "live_allow d' s = eff_allow E d' s" for s
      using e(1) [of s] synced_live [OF assms(2), of s] live_allow_cong [OF live, of s] by (cases "s = service") simp_all
    then show ?thesis using e(3,4) by (simp add: synced_def maps_ok_def)
  qed
qed

lemma register_service_effect:
  assumes T: "toml_ok (ae_toml E)" and S: "synced E d"
    and g: "register_service E ok d name b allow eph rate = (Inr u, d')"
  shows "synced E d' \<and> (s \<noteq> name \<longrightarrow> eff_allow E d' s = eff_allow E d s) \<and>
     (eph \<longrightarrow> eff_allow E d' name = allow) \<and>
     (\<not> eph \<longrightarrow> set allow \<union> set (eff_allow E d name) \<subseteq> set (eff_allow E d' name))"
proof (cases eph)
  case True
  then obtain cfg where "load E (dm_config d) = Some cfg" and r: "reload_services_from_disk E
      (d\<lparr>dm_ephemeral := al_insert name \<lparr>es_backend = b, es_allow = allow, es_rate_limit_per_min = rate\<rparr> (dm_ephemeral d)\<rparr>)
      = (Inr (), d')"
    using g by (auto simp: register_service_def split: if_splits option.splits)
  have "distinct (al_keys (dm_ephemeral (d\<lparr>dm_ephemeral :=
      al_insert name \<lparr>es_backend = b, es_allow = allow, es_rate_limit_per_min = rate\<rparr> (dm_ephemeral d)\<rparr>)))"
    using synced_distinct [OF S] by (simp add: alist_simps)
  from reload_Inr [OF T this r] True show ?thesis
    by (auto simp: eff_allow_def alist_simps split: option.splits)
next
  case False
  then obtain f c where ne: "map_of (dm_ephemeral d) name = None"
    and w: "write_service_to_config (ae_toml E) ok (dm_config d) name b allow rate = Inr (f, c)"
    and r: "reload_services_from_disk E (d\<lparr>dm_config := f\<rparr>) = (Inr (), d')"
    using g by (auto simp: register_service_def result_simps split: if_splits)
  have lf: "load E f \<noteq> None" using reload_load [OF r] by simp
  from rmw_Inr [OF toml_ok_roundtrip [OF T] w [unfolded write_service_to_config_def]]
  obtain doc doc' where d: "config_doc (ae_toml E) (dm_config d) = Some doc"
    "write_service_edit name b allow rate doc = Inr (doc', c)"
    "config_doc (ae_toml E) f = Some (if c then doc' else doc)" by metis
  note e = write_service_edit_Inr [OF d(2)]
  have d3: "config_doc (ae_toml E) f = Some doc'" using d(3) e(1) by simp
  note old = config_of_doc(1) [OF T load_of_synced [OF S] d(1)] and new = config_of_doc(1) [OF T lf d3]
  have sv: "doc_servable doc' name"
    using backend_fields_one [of b] e(3,6,7) by (simp add: doc_servable_def)
  have oth: "doc_servable doc' s = doc_servable doc s" if "s \<noteq> name" for s
    using that e(3) e(4) by (simp add: doc_servable_def)
  have "distinct (al_keys (dm_ephemeral (d\<lparr>dm_config := f\<rparr>)))" using synced_distinct [OF S] by simp
  from reload_Inr [OF T this r] have "synced E d'" and ef: "eff_allow E d' = eff_allow E (d\<lparr>dm_config := f\<rparr>)" by auto
  moreover have "eff_allow E d' s = eff_allow E d s" if "s \<noteq> name"
    using that oth e(2) by (auto simp: ef eff_allow_def old new split: option.splits)
  moreover have "set allow \<union> set (eff_allow E d name) \<subseteq> set (eff_allow E d' name)"
    using ne sv e(2) by (auto simp: ef eff_allow_def old new)
  ultimately show ?thesis using False by simp
qed

lemma unregister_service_effect:
  assumes T: "toml_ok (ae_toml E)" and S: "synced E d"
    and g: "unregister_service E ok d name = (Inr u, d')"
  shows "synced E d' \<and> eff_allow E d' s = (if s = name then [] else eff_allow E d s)"
proof -
  define d0 where "d0 = d\<lparr>dm_ephemeral := al_remove name (dm_ephemeral d)\<rparr>"
  from g obtain f c where w: "remove_service_from_config (ae_toml E) ok (dm_config d) name = Inr (f, c)"
    and r: "(if map_of (dm_ephemeral d) name \<noteq> None \<or> c then reload_services_from_disk E (d0\<lparr>dm_config := f\<rparr>)
       else (Inr (), d0\<lparr>dm_config := f\<rparr>)) = (Inr u, d')"
    unfolding unregister_service_def Let_def sbind_eq_Inr write_config_Inr d0_def by auto
  have same: "f = dm_config d" if "\<not> c"
    using rmw_unchanged [OF T w [unfolded remove_service_from_config_def] that] .
  have lf: "load E f \<noteq> None"
    using r reload_load [of E "d0\<lparr>dm_config := f\<rparr>" d'] same load_of_synced [OF S]
    by (cases "map_of (dm_ephemeral d) name \<noteq> None \<or> c") auto
  from rmw_Inr [OF toml_ok_roundtrip [OF T] w [unfolded remove_service_from_config_def]]
  obtain doc doc' where d: "config_doc (ae_toml E) (dm_config d) = Some doc"
    "remove_service_edit name doc = Inr (doc', c)"
    "config_doc (ae_toml E) f = Some (if c then doc' else doc)" by metis
  note e = remove_service_edit_Inr [OF d(2)]
  note old = config_of_doc(1) [OF T load_of_synced [OF S] d(1)] and new = config_of_doc(1) [OF T lf d(3)]
  have sv: "doc_servable (if c then doc' else doc) s = (s \<noteq> name \<and> doc_servable doc s)" for s
    using e(1) [of s] e(2) [of s] by (cases "s = name") (simp_all add: doc_servable_def)
  have al: "s \<noteq> name \<Longrightarrow> svc_allow (if c then doc' else doc) s = svc_allow doc s" for s
    using e(2) [of s] by (simp add: svc_allow_field)
  have ef: "eff_allow E (d0\<lparr>dm_config := f\<rparr>) s = (if s = name then [] else eff_allow E d s)" for s
    using sv [of s] al [of s]
    by (cases "map_of (dm_ephemeral d) s") (auto simp: eff_allow_def d0_def alist_simps old new)
  show ?thesis
  proof (cases "map_of (dm_ephemeral d) name \<noteq> None \<or> c")
    case True
    then have rl: "reload_services_from_disk E (d0\<lparr>dm_config := f\<rparr>) = (Inr (), d')" using r by simp
    have "distinct (al_keys (dm_ephemeral (d0\<lparr>dm_config := f\<rparr>)))"
      using synced_distinct [OF S] by (simp add: d0_def alist_simps)
    from reload_Inr [OF T this rl] ef [of s] show ?thesis by auto
  next
    case False
    then have n: "map_of (dm_ephemeral d) name = None" and f: "f = dm_config d" using same by auto
    have "al_remove name (dm_ephemeral d) = dm_ephemeral d"
      using n unfolding al_remove_def by (intro filter_True) (metis key_lookup list.set_map rev_image_eqI)
    then have "d0\<lparr>dm_config := f\<rparr> = d" by (simp add: d0_def f)
    then show ?thesis using r False S ef [of s] by auto
  qed
qed

end
