(* ===== verification/Pairing.thy ===== *)
theory Pairing
  imports Binding Invites Phrase Service_Access
begin

text \<open>
  The pairing ceremony (\<open>node/src/pairing/rendezvous.rs\<close>), both sides of it. The inviter's side
  reads one frame from an authenticated connection and answers with one; the redeemer's side checks
  the invite, dials, exchanges the frames and stores the result. The dial, the connection and the
  exchange are arguments.

  Each side acts on its node: the daemon's state, the registry of invites, the identity it presents
  and the display surfaces of a ceremony. A failing store read or write ends the handler with an
  error, which the other side sees as a connection closed without a reply.
\<close>

record self_binding =
  sb_user_pk :: string
  sb_sig :: string

record recent_pairing =
  rp_peer_nickname :: string
  rp_sas_code :: string
  rp_paired_at_epoch :: u64
  rp_self_enroll :: bool

text \<open>
  The frame a redeemer sends. A node keeps the ones \<open>redeem_invite\<close> wrote, each with the endpoint the
  connection it wrote on had authenticated: what left the machine, as the peer at the other end saw
  it.
\<close>

record redeemer_hello =
  rh_secret :: bytes
  rh_redeemer_id :: bytes
  rh_redeemer_nickname :: string
  rh_user_pk :: "string option"
  rh_binding_sig :: "string option"
  rh_attest :: bool

record pair_node =
  pn_daemon :: daemon
  pn_invites :: live_invites
  pn_boot_binding :: "self_binding option"
  pn_imported_binding :: "self_binding option"
  pn_adopted_binding :: "self_binding option"
  pn_user_key :: "bytes option"
  pn_recent :: "recent_pairing list"
  pn_audit :: "(string \<times> string option) list"
  pn_endpoint_id :: bytes
  pn_self_nickname :: string
  pn_admit_attested :: bool
  pn_sent :: "(bytes \<times> redeemer_hello) list"

text \<open>What surrounds one ceremony: the clock readings, which writes succeed, the address observed.\<close>

record pair_io =
  io_now :: u64
  io_later :: u64
  io_config_ok :: bool
  io_invites_ok :: bool
  io_observed :: "string option"

subsection \<open>Frames\<close>

datatype refusal_code = NicknameTaken | IdentityRevoked | UnknownCode

datatype pair_reply =
    ReplyOk bytes string "string option" "string option"
  | ReplyRefused string "refusal_code option"

text \<open>The hand-written decoder accepts any value.\<close>

definition refusal_code_from_value :: "json \<Rightarrow> refusal_code" where
  "refusal_code_from_value v =
     (if v = JStr ''nickname_taken'' then NicknameTaken
      else if v = JStr ''identity_revoked'' then IdentityRevoked
      else UnknownCode)"

definition ser_option :: "string option \<Rightarrow> json" where
  "ser_option x = (case x of None \<Rightarrow> JNull | Some s \<Rightarrow> JStr s)"

definition hello_to_value :: "redeemer_hello \<Rightarrow> json" where
  "hello_to_value h = JObj [(''secret'', ser_bytes (rh_secret h)), (''redeemer_id'', ser_bytes (rh_redeemer_id h)),
     (''redeemer_nickname'', JStr (rh_redeemer_nickname h)), (''user_pk'', ser_option (rh_user_pk h)),
     (''binding_sig'', ser_option (rh_binding_sig h)), (''attest'', JBool (rh_attest h))]"

definition hello_from_value :: "json \<Rightarrow> redeemer_hello option" where
  "hello_from_value v =
     Option.bind (struct_members [''secret'', ''redeemer_id'', ''redeemer_nickname'', ''user_pk'', ''binding_sig'', ''attest''] v) (\<lambda>m.
     Option.bind (required m ''secret'' de_key32) (\<lambda>secret.
     Option.bind (required m ''redeemer_id'' de_key32) (\<lambda>redeemer_id.
     Option.bind (required m ''redeemer_nickname'' as_str) (\<lambda>nickname.
     Option.bind (defaulted m ''user_pk'' None (de_option as_str)) (\<lambda>user_pk.
     Option.bind (defaulted m ''binding_sig'' None (de_option as_str)) (\<lambda>binding_sig.
     Option.bind (defaulted m ''attest'' False de_bool) (\<lambda>attest.
     Some \<lparr>rh_secret = secret, rh_redeemer_id = redeemer_id, rh_redeemer_nickname = nickname,
       rh_user_pk = user_pk, rh_binding_sig = binding_sig, rh_attest = attest\<rparr>)))))))"

lemma hello_roundtrip:
  "length (rh_secret h) = 32 \<Longrightarrow> length (rh_redeemer_id h) = 32 \<Longrightarrow> hello_from_value (hello_to_value h) = Some h"
  by (cases "rh_user_pk h"; cases "rh_binding_sig h")
    (simp_all add: hello_from_value_def hello_to_value_def struct_members_def required_def defaulted_def ser_option_def)

subsection \<open>Refusals\<close>

definition EM_DASH :: string where "EM_DASH = [CHR 0xE2, CHR 0x80, CHR 0x94]"
definition QUOTE :: string where "QUOTE = [CHR 0x27]"

definition REASON_REFUSED :: string where "REASON_REFUSED = ''pairing refused''"
definition REASON_MALFORMED :: string where "REASON_MALFORMED = ''malformed request''"
definition REASON_ID_MISMATCH :: string where "REASON_ID_MISMATCH = ''id mismatch''"

definition REASON_IDENTITY_REVOKED :: string where
  "REASON_IDENTITY_REVOKED = ''your identity is revoked on the inviter, which refuses any device presenting it '' @
     EM_DASH @ '' only the inviter can lift that (peer_unrevoke)''"

definition reason_nickname_taken :: "string \<Rightarrow> bool \<Rightarrow> string" where
  "reason_nickname_taken nickname invite_survived =
     ''nickname '' @ QUOTE @ nickname @ QUOTE @ '' is already taken by another paired peer; '' @
     (if invite_survived then ''the invite was NOT consumed '' @ EM_DASH @ '' rename this node and redeem the same invite again''
      else ''ask the inviter for a fresh invite'')"

definition collision_refusal :: "string \<Rightarrow> bool \<Rightarrow> pair_reply" where
  "collision_refusal nickname invite_survived =
     ReplyRefused (reason_nickname_taken nickname invite_survived) (if invite_survived then Some NicknameTaken else None)"

definition collision_reply :: "string option \<Rightarrow> redeemer_hello \<Rightarrow> bool \<Rightarrow> pair_reply" where
  "collision_reply alias hello invite_survived = (case alias of
     None \<Rightarrow> collision_refusal (rh_redeemer_nickname hello) invite_survived
   | Some _ \<Rightarrow> ReplyRefused REASON_REFUSED None)"

definition effective_redeemer_nickname :: "string option \<Rightarrow> string \<Rightarrow> string" where
  "effective_redeemer_nickname alias claimed = (case alias of Some a \<Rightarrow> a | None \<Rightarrow> claimed)"

definition nickname_collision :: "peer_store \<Rightarrow> string \<Rightarrow> bytes \<Rightarrow> store_error + bool" where
  "nickname_collision store nickname tls_id =
     rbind (store_list store) (\<lambda>es. Inr (\<exists>e \<in> set es. pe_nickname e = nickname \<and> pe_endpoint_id e \<noteq> tls_id))"

definition resolve_and_check_collision ::
  "peer_store \<Rightarrow> string \<Rightarrow> bytes \<Rightarrow> store_error + peer_entry option \<times> bool" where
  "resolve_and_check_collision store nickname tls_id =
     rbind (store_resolve store tls_id) (\<lambda>existing.
     if existing = None then rbind (nickname_collision store nickname tls_id) (\<lambda>c. Inr (existing, c))
     else Inr (existing, False))"

definition verified_user_id :: "libs \<Rightarrow> string option \<Rightarrow> string option \<Rightarrow> bytes \<Rightarrow> string option" where
  "verified_user_id L user_pk binding_sig authenticated_id = (case (user_pk, binding_sig) of
     (Some pk, Some sig) \<Rightarrow> (case verify_presented L pk sig authenticated_id of Inr uid \<Rightarrow> Some uid | Inl _ \<Rightarrow> None)
   | _ \<Rightarrow> None)"

definition merge_hint :: "string option \<Rightarrow> string option \<Rightarrow> string option" where
  "merge_hint observed existing = (case observed of Some a \<Rightarrow> Some a | None \<Rightarrow> existing)"

subsection \<open>The identity a node presents\<close>

definition node_self_binding :: "pair_node \<Rightarrow> self_binding option" where
  "node_self_binding n = (case pn_adopted_binding n of Some b \<Rightarrow> Some b | None \<Rightarrow>
     (case pn_imported_binding n of Some b \<Rightarrow> Some b | None \<Rightarrow> pn_boot_binding n))"

datatype sign_refusal = Enrolled | NoIdentity | IdentityChanged | NoKey | KeyMismatch

definition sign_ceremony_binding ::
  "libs \<Rightarrow> pair_node \<Rightarrow> self_binding option \<Rightarrow> bytes \<Rightarrow> sign_refusal + string" where
  "sign_ceremony_binding L n presented endpoint_id =
     (if pn_adopted_binding n \<noteq> None then Inl Enrolled
      else case presented of
        None \<Rightarrow> Inl NoIdentity
      | Some p \<Rightarrow>
          if node_self_binding n \<noteq> Some p then Inl IdentityChanged
          else (case pn_user_key n of
            None \<Rightarrow> Inl NoKey
          | Some k \<Rightarrow>
              if length k \<noteq> 32 then Inl NoKey
              else if encode_b64u L (ed_pk L k) \<noteq> sb_user_pk p then Inl KeyMismatch
              else Inr (snd (present L k endpoint_id))))"

record inviter_ctx =
  ic_admit_attested :: bool
  ic_self_endpoint_id :: bytes
  ic_self_nickname :: string
  ic_self_binding :: "self_binding option"

definition node_inviter_ctx :: "pair_node \<Rightarrow> inviter_ctx" where
  "node_inviter_ctx n = \<lparr>ic_admit_attested = pn_admit_attested n, ic_self_endpoint_id = pn_endpoint_id n,
     ic_self_nickname = pn_self_nickname n, ic_self_binding = node_self_binding n\<rparr>"

definition RECENT_PAIRINGS_CAP :: nat where "RECENT_PAIRINGS_CAP = 8"

definition record_pairing :: "recent_pairing \<Rightarrow> pair_node \<Rightarrow> pair_node" where
  "record_pairing entry n =
     n\<lparr>pn_recent := (if length (pn_recent n) \<ge> RECENT_PAIRINGS_CAP then tl (pn_recent n) else pn_recent n) @ [entry]\<rparr>"

definition audit_trust :: "string \<Rightarrow> string option \<Rightarrow> pair_node \<Rightarrow> pair_node" where
  "audit_trust event target n = n\<lparr>pn_audit := pn_audit n @ [(event, target)]\<rparr>"

abbreviation pn_store :: "pair_node \<Rightarrow> peer_store" where
  "pn_store n \<equiv> dm_store (pn_daemon n)"

definition with_store :: "peer_store \<Rightarrow> pair_node \<Rightarrow> pair_node" where
  "with_store s n = n\<lparr>pn_daemon := (pn_daemon n)\<lparr>dm_store := s\<rparr>\<rparr>"

datatype pair_error = PairStore store_error | PairGrant access_error

definition lift_pair :: "store_error + 'a \<Rightarrow> pair_error + 'a" where
  "lift_pair r = (case r of Inl e \<Rightarrow> Inl (PairStore e) | Inr x \<Rightarrow> Inr x)"

definition node_store_add :: "peer_entry \<Rightarrow> pair_node \<Rightarrow> (pair_error + unit) \<times> pair_node" where
  "node_store_add entry n = (case store_add (pn_store n) entry of
     Inl e \<Rightarrow> (Inl (PairStore e), n)
   | Inr s \<Rightarrow> (Inr (), with_store s n))"

definition node_grant ::
  "access_env \<Rightarrow> bool \<Rightarrow> string \<Rightarrow> string list \<Rightarrow> pair_node \<Rightarrow> (pair_error + unit) \<times> pair_node" where
  "node_grant E ok p services n = (case grant_service_access E ok (pn_daemon n) p services of
     (Inl e, d) \<Rightarrow> (Inl (PairGrant e), n\<lparr>pn_daemon := d\<rparr>)
   | (Inr u, d) \<Rightarrow> (Inr u, n\<lparr>pn_daemon := d\<rparr>))"

subsection \<open>Attestation: another device of a known person\<close>

record admit_plan =
  ap_user_id :: string
  ap_nickname :: string
  ap_services :: "string list"

definition attestation_decision :: "libs \<Rightarrow> redeemer_hello \<Rightarrow> bytes \<Rightarrow> inviter_ctx \<Rightarrow> peer_store \<Rightarrow> string + admit_plan" where
  "attestation_decision L hello tls_id ctx store =
     (if \<not> ic_admit_attested ctx then Inl ''not enabled on this node''
      else case (rh_user_pk hello, rh_binding_sig hello) of
        (Some user_pk, Some sig) \<Rightarrow>
          (case verify_presented L user_pk sig tls_id of
             Inl _ \<Rightarrow> Inl ''binding does not verify against the authenticated endpoint''
           | Inr uid \<Rightarrow>
               if store_is_revoked store tls_id then Inl ''endpoint is revoked''
               else if is_user_revoked store uid then Inl ''identity is revoked''
               else (case entries_for_user store uid of
                   Inl _ \<Rightarrow> Inl ''peer store read failed''
                 | Inr [] \<Rightarrow> Inl ''no existing row for that identity''
                 | Inr (e # es) \<Rightarrow>
                     Inr \<lparr>ap_user_id = uid, ap_nickname = pe_nickname e,
                          ap_services = foldl (\<lambda>ss e. filter (\<lambda>s. s \<in> set (pe_services e)) ss) (pe_services e) es\<rparr>))
      | _ \<Rightarrow> Inl ''no binding presented'')"

definition handle_attestation ::
  "libs \<Rightarrow> pair_io \<Rightarrow> inviter_ctx \<Rightarrow> bytes \<Rightarrow> redeemer_hello \<Rightarrow> pair_node \<Rightarrow> (pair_error + pair_reply) \<times> pair_node" where
  "handle_attestation L io ctx tls_id hello n =
     (case attestation_decision L hello tls_id ctx (pn_store n) of
        Inl _ \<Rightarrow> (Inr (ReplyRefused REASON_REFUSED None), n)
      | Inr plan \<Rightarrow>
          sbind (lift_pair (store_resolve (pn_store n) tls_id), n) (\<lambda>prior n.
          sbind (node_store_add \<lparr>pe_endpoint_id = tls_id, pe_nickname = ap_nickname plan, pe_services = ap_services plan,
              pe_paired_at = (case Option.bind prior pe_paired_at of Some t \<Rightarrow> Some t
                              | None \<Rightarrow> Some (show_nat (unat (io_later io)))),
              pe_user_id = Some (ap_user_id plan), pe_last_addr = Option.bind prior pe_last_addr\<rparr> n) (\<lambda>_ n.
          (Inr (ReplyOk (ic_self_endpoint_id ctx) (ic_self_nickname ctx)
              (map_option sb_user_pk (ic_self_binding ctx)) (map_option sb_sig (ic_self_binding ctx))),
           audit_trust ''device_attest'' (Some (principal L tls_id)) n))))"

subsection \<open>The inviter\<close>

text \<open>A redeemed self-enrollment invite: no row, no grant, a binding for the authenticated endpoint.\<close>

definition enroll_device ::
  "libs \<Rightarrow> pair_io \<Rightarrow> inviter_ctx \<Rightarrow> bytes \<Rightarrow> redeemer_hello \<Rightarrow> invite \<Rightarrow> pair_node \<Rightarrow> (pair_error + pair_reply) \<times> pair_node" where
  "enroll_device L io ctx tls_id hello i n =
     (case ic_self_binding ctx of
        None \<Rightarrow> (Inr (ReplyRefused ''this device has no user identity to enroll into'' None), n)
      | Some self_binding \<Rightarrow>
          (case sign_ceremony_binding L n (ic_self_binding ctx) tls_id of
             Inl _ \<Rightarrow> (Inr (ReplyRefused REASON_REFUSED None), n)
           | Inr sig \<Rightarrow>
               (let n = audit_trust ''self_enroll'' (Some (principal L tls_id)) n;
                    sas = short_auth_code L (iv_inviter_id i) tls_id (rh_secret hello);
                    n = record_pairing \<lparr>rp_peer_nickname = ''(this person'' @ QUOTE @ ''s device)'', rp_sas_code = sas,
                          rp_paired_at_epoch = io_later io, rp_self_enroll = True\<rparr> n
                in (Inr (ReplyOk (iv_inviter_id i) (iv_nickname i) (Some (sb_user_pk self_binding)) (Some sig)), n))))"

text \<open>The row an ordinary redemption writes: the merge with the row already stored.\<close>

definition redeemer_entry ::
  "libs \<Rightarrow> pair_io \<Rightarrow> bytes \<Rightarrow> redeemer_hello \<Rightarrow> string \<Rightarrow> peer_entry option \<Rightarrow> peer_entry" where
  "redeemer_entry L io tls_id hello claimed existing =
     \<lparr>pe_endpoint_id = tls_id,
      pe_nickname = (case existing of Some e \<Rightarrow> pe_nickname e | None \<Rightarrow> claimed),
      pe_services = (case existing of Some e \<Rightarrow> pe_services e | None \<Rightarrow> []),
      pe_paired_at = (case Option.bind existing pe_paired_at of Some t \<Rightarrow> Some t
                      | None \<Rightarrow> Some (show_nat (unat (io_now io)))),
      pe_user_id = (case verified_user_id L (rh_user_pk hello) (rh_binding_sig hello) tls_id of
                      Some uid \<Rightarrow> Some uid | None \<Rightarrow> Option.bind existing pe_user_id),
      pe_last_addr = merge_hint (io_observed io) (Option.bind existing pe_last_addr)\<rparr>"

definition entry_principal :: "libs \<Rightarrow> peer_entry \<Rightarrow> string" where
  "entry_principal L entry =
     (case pe_user_id entry of Some uid \<Rightarrow> uid | None \<Rightarrow> principal L (pe_endpoint_id entry))"

definition admit_redeemer ::
  "libs \<Rightarrow> access_env \<Rightarrow> pair_io \<Rightarrow> inviter_ctx \<Rightarrow> bytes \<Rightarrow> redeemer_hello \<Rightarrow> invite \<Rightarrow> pair_node \<Rightarrow>
   (pair_error + pair_reply) \<times> pair_node" where
  "admit_redeemer L E io ctx tls_id hello i n =
     (let claimed = effective_redeemer_nickname (iv_peer_nickname i) (rh_redeemer_nickname hello)
      in sbind (lift_pair (resolve_and_check_collision (pn_store n) claimed tls_id), n) (\<lambda>r n. case r of (existing, collides) \<Rightarrow>
         if collides then
           (Inr (collision_reply (iv_peer_nickname i) hello (iv_uses_remaining i > 0)), n)
         else
           (let entry = redeemer_entry L io tls_id hello claimed existing
            in if (case pe_user_id entry of Some uid \<Rightarrow> is_user_revoked (pn_store n) uid | None \<Rightarrow> False) then
                 (Inr (ReplyRefused REASON_IDENTITY_REVOKED (Some IdentityRevoked)), n)
               else
                 sbind (node_store_add entry n) (\<lambda>_ n.
                 sbind (node_grant E (io_config_ok io) (entry_principal L entry) (iv_services i) n) (\<lambda>_ n.
                   (Inr (ReplyOk (iv_inviter_id i) (iv_nickname i)
                       (map_option sb_user_pk (ic_self_binding ctx)) (map_option sb_sig (ic_self_binding ctx))),
                    record_pairing \<lparr>rp_peer_nickname = pe_nickname entry,
                       rp_sas_code = short_auth_code L (iv_inviter_id i) tls_id (rh_secret hello),
                       rp_paired_at_epoch = io_now io, rp_self_enroll = False\<rparr> n))))))"

text \<open>The collision pre-check, run before the invite is spent.\<close>

definition collision_precheck :: "pair_io \<Rightarrow> bytes \<Rightarrow> redeemer_hello \<Rightarrow> pair_node \<Rightarrow> pair_error + pair_reply option" where
  "collision_precheck io tls_id hello n =
     (if peek_is_self (pn_invites n) (rh_secret hello) (io_now io) then Inr None
      else case peek_live_alias (pn_invites n) (rh_secret hello) (io_now io) of
        None \<Rightarrow> Inr None
      | Some alias \<Rightarrow>
          lift_pair (rbind (resolve_and_check_collision (pn_store n)
              (effective_redeemer_nickname alias (rh_redeemer_nickname hello)) tls_id) (\<lambda>(_, collides).
            Inr (if collides then Some (collision_reply alias hello True) else None))))"

definition redeem_secret :: "libs \<Rightarrow> pair_io \<Rightarrow> redeemer_hello \<Rightarrow> pair_node \<Rightarrow> redeem \<times> pair_node" where
  "redeem_secret L io hello n =
     (case try_redeem L (io_invites_ok io) (pn_invites n) (rh_secret hello) (io_now io) of
        (x, r) \<Rightarrow> (x, n\<lparr>pn_invites := r\<rparr>))"

definition handle_inviter_side ::
  "libs \<Rightarrow> access_env \<Rightarrow> pair_io \<Rightarrow> inviter_ctx \<Rightarrow> bytes \<Rightarrow> json option \<Rightarrow> pair_node \<Rightarrow> (pair_error + pair_reply) \<times> pair_node" where
  "handle_inviter_side L E io ctx tls_id frame n =
     (case Option.bind frame hello_from_value of
        None \<Rightarrow> (Inr (ReplyRefused REASON_MALFORMED None), n)
      | Some hello \<Rightarrow>
          if tls_id \<noteq> rh_redeemer_id hello then (Inr (ReplyRefused REASON_ID_MISMATCH None), n)
          else if rh_attest hello then handle_attestation L io ctx tls_id hello n
          else sbind (collision_precheck io tls_id hello n, n) (\<lambda>refusal n.
            case refusal of
              Some reply \<Rightarrow> (Inr reply, n)
            | None \<Rightarrow>
                (case redeem_secret L io hello n of
                   (RedeemOk i, n) \<Rightarrow>
                     if iv_as_self i \<and> iv_uses_remaining i > 0 then (Inr (ReplyRefused REASON_REFUSED None), n)
                     else if iv_as_self i then enroll_device L io ctx tls_id hello i n
                     else admit_redeemer L E io ctx tls_id hello i n
                 | (_, n) \<Rightarrow> (Inr (ReplyRefused REASON_REFUSED None), n))))"

end
