(* ===== verification/Redeem.thy ===== *)
theory Redeem
  imports Pairing
begin

text \<open>
  The redeemer's side of the ceremony and the two control verbs around it: \<open>redeem_invite\<close>
  (\<open>node/src/pairing/rendezvous.rs\<close>), \<open>mint_invite\<close> and \<open>redeem\<close> (\<open>node/src/daemon/handlers.rs\<close>). A
  refusal carries its code; the fixed sentences that explain a code to a person are left out, the
  inviter's own reason is kept.
\<close>

definition ERR_NICKNAME_TAKEN :: int where "ERR_NICKNAME_TAKEN = -32043"
definition ERR_INVITE_EXPIRED :: int where "ERR_INVITE_EXPIRED = -32044"
definition ERR_INVITE_NOT_LIVE :: int where "ERR_INVITE_NOT_LIVE = -32045"
definition ERR_INVITER_UNREACHABLE :: int where "ERR_INVITER_UNREACHABLE = -32046"
definition ERR_INVITER_MISMATCH :: int where "ERR_INVITER_MISMATCH = -32047"
definition ERR_INVITE_NAME_CONFLICT :: int where "ERR_INVITE_NAME_CONFLICT = -32048"
definition ERR_INVITE_REFUSED :: int where "ERR_INVITE_REFUSED = -32049"
definition ERR_SELF_ENROLL_NOT_OFFERED :: int where "ERR_SELF_ENROLL_NOT_OFFERED = -32052"
definition ERR_PRINCIPAL_REVOKED :: int where "ERR_PRINCIPAL_REVOKED = -32056"
definition ERR_PAIR_IDENTITY_REVOKED :: int where "ERR_PAIR_IDENTITY_REVOKED = -32057"
definition ERR_SELF_ENROLL_NO_KEY :: int where "ERR_SELF_ENROLL_NO_KEY = -32059"

datatype redeem_error =
    BadInviteLine invite_error
  | PairRefusal int "string option"
  | NameTakenByPeer string
  | RedeemStore store_error
  | BadAddress
  | ExchangeError
  | AdoptFailed
  | InvalidParams
  | ConfigUnreadable
  | UnknownServices "string list"
  | NotPersisted

datatype exchange_result = ReplyFrame pair_reply | ClosedNotLive | ExchangeFailed

text \<open>The network, as the redeemer uses it.\<close>

record pair_dial =
  dl_addr_id :: "string \<Rightarrow> bytes option"
  dl_connect :: "bytes \<Rightarrow> bytes option"
  dl_exchange :: "redeemer_hello \<Rightarrow> exchange_result"

record pair_result =
  pr_peer_nickname :: string
  pr_sas_code :: string
  pr_enrolled_as_self :: bool
  pr_services :: "string list"
  pr_app_label :: "string option"
  pr_peer_user_id :: "string option"

definition refusal_error :: "string \<Rightarrow> refusal_code option \<Rightarrow> redeem_error" where
  "refusal_error reason code =
     (let msg = ''pairing refused: '' @ reason
      in case code of
        Some NicknameTaken \<Rightarrow> NameTakenByPeer msg
      | Some IdentityRevoked \<Rightarrow> PairRefusal ERR_PAIR_IDENTITY_REVOKED (Some msg)
      | _ \<Rightarrow> PairRefusal ERR_INVITE_REFUSED (Some msg))"

definition nickname_squat :: "peer_store \<Rightarrow> string \<Rightarrow> bytes \<Rightarrow> store_error + bool" where
  "nickname_squat store nickname inviter_id =
     rbind (store_list store) (\<lambda>es. Inr (\<exists>e \<in> set es. pe_nickname e = nickname \<and> pe_endpoint_id e \<noteq> inviter_id))"

definition lift_redeem :: "store_error + 'a \<Rightarrow> redeem_error + 'a" where
  "lift_redeem r = (case r of Inl e \<Rightarrow> Inl (RedeemStore e) | Inr x \<Rightarrow> Inr x)"

text \<open>Everything that is checked before a packet is sent.\<close>

definition redeem_checks ::
  "libs \<Rightarrow> pair_io \<Rightarrow> pair_dial \<Rightarrow> string option \<Rightarrow> self_enroll \<Rightarrow> string \<Rightarrow> peer_store \<Rightarrow> redeem_error + invite" where
  "redeem_checks L io net as_nickname self_enroll line store =
     rbind (case invite_decode L line of Inl e \<Rightarrow> Inl (BadInviteLine e) | Inr i \<Rightarrow> Inr i) (\<lambda>i.
     if iv_as_self i \<and> self_enroll = RefuseEnroll then Inl (PairRefusal ERR_SELF_ENROLL_NOT_OFFERED None)
     else if iv_expires_at_epoch i < io_now io then Inl (PairRefusal ERR_INVITE_EXPIRED None)
     else
       rbind (if iv_as_self i then Inr False
              else lift_redeem (nickname_squat store
                (case as_nickname of Some a \<Rightarrow> a | None \<Rightarrow> iv_nickname i) (iv_inviter_id i))) (\<lambda>clash.
       if clash then Inl (PairRefusal ERR_INVITE_NAME_CONFLICT None)
       else if \<not> iv_as_self i \<and> is_refused store (iv_inviter_id i) then Inl (PairRefusal ERR_PRINCIPAL_REVOKED None)
       else case dl_addr_id net (iv_inviter_addr_json i) of
         None \<Rightarrow> Inl BadAddress
       | Some addr_id \<Rightarrow> if addr_id \<noteq> iv_inviter_id i then Inl (PairRefusal ERR_INVITER_MISMATCH None) else Inr i))"

definition node_hello :: "pair_node \<Rightarrow> bytes \<Rightarrow> redeemer_hello" where
  "node_hello n secret = \<lparr>rh_secret = secret, rh_redeemer_id = pn_endpoint_id n, rh_redeemer_nickname = pn_self_nickname n,
     rh_user_pk = map_option sb_user_pk (node_self_binding n), rh_binding_sig = map_option sb_sig (node_self_binding n),
     rh_attest = False\<rparr>"

text \<open>
  The dial and the exchange. \<open>dl_connect\<close> is the dial: the endpoint the TLS handshake authenticated, if
  it got through. \<open>send_hello\<close> marks the write of the frame; a write that fails part of the way counts
  as sent.
\<close>

definition send_hello :: "bytes \<Rightarrow> redeemer_hello \<Rightarrow> pair_node \<Rightarrow> pair_node" where
  "send_hello remote hello n = n\<lparr>pn_sent := pn_sent n @ [(remote, hello)]\<rparr>"

definition redeem_exchange ::
  "pair_dial \<Rightarrow> invite \<Rightarrow> pair_node \<Rightarrow> (redeem_error + bytes \<times> string \<times> string option \<times> string option) \<times> pair_node" where
  "redeem_exchange net i n =
     (case dl_connect net (iv_inviter_id i) of
        None \<Rightarrow> (Inl (PairRefusal ERR_INVITER_UNREACHABLE None), n)
      | Some remote \<Rightarrow>
          if remote \<noteq> iv_inviter_id i then (Inl (PairRefusal ERR_INVITER_MISMATCH None), n)
          else
            (let hello = node_hello n (iv_secret i);
                 n = send_hello remote hello n
             in (case dl_exchange net hello of
               ClosedNotLive \<Rightarrow> Inl (PairRefusal ERR_INVITE_NOT_LIVE None)
             | ExchangeFailed \<Rightarrow> Inl ExchangeError
             | ReplyFrame (ReplyRefused reason code) \<Rightarrow> Inl (refusal_error reason code)
             | ReplyFrame (ReplyOk inviter_id nickname user_pk sig) \<Rightarrow> Inr (inviter_id, nickname, user_pk, sig), n)))"

definition adopt_binding :: "bool \<Rightarrow> self_binding \<Rightarrow> pair_node \<Rightarrow> (redeem_error + unit) \<times> pair_node" where
  "adopt_binding ok b n =
     (if ok then (Inr (), audit_trust ''self_enroll_adopt'' (Some (sb_user_pk b)) (n\<lparr>pn_adopted_binding := Some b\<rparr>))
      else (Inl AdoptFailed, n))"

definition finish_self_enroll ::
  "libs \<Rightarrow> bool \<Rightarrow> string \<Rightarrow> invite \<Rightarrow> string option \<Rightarrow> string option \<Rightarrow> pair_node \<Rightarrow> (redeem_error + pair_result) \<times> pair_node" where
  "finish_self_enroll L adopt_ok local_name i user_pk sig n =
     (case (user_pk, sig) of
        (Some pk, Some s) \<Rightarrow>
          (case verify_presented L pk s (pn_endpoint_id n) of
             Inl _ \<Rightarrow> (Inl (PairRefusal ERR_INVITE_REFUSED None), n)
           | Inr _ \<Rightarrow>
               sbind (adopt_binding adopt_ok \<lparr>sb_user_pk = pk, sb_sig = s\<rparr> n) (\<lambda>_ n.
               (Inr \<lparr>pr_peer_nickname = local_name,
                     pr_sas_code = short_auth_code L (iv_inviter_id i) (pn_endpoint_id n) (iv_secret i),
                     pr_enrolled_as_self = True, pr_services = [], pr_app_label = iv_app_label i,
                     pr_peer_user_id = Some pk\<rparr>, n)))
      | _ \<Rightarrow> (Inl (PairRefusal ERR_INVITE_REFUSED None), n))"

definition inviter_entry ::
  "pair_io \<Rightarrow> string \<Rightarrow> invite \<Rightarrow> string option \<Rightarrow> peer_entry option \<Rightarrow> peer_entry" where
  "inviter_entry io local_name i inviter_user_id existing =
     \<lparr>pe_endpoint_id = iv_inviter_id i, pe_nickname = local_name,
      pe_services = foldl push_new (case existing of Some e \<Rightarrow> pe_services e | None \<Rightarrow> []) (iv_services i),
      pe_paired_at = Some (show_nat (unat (io_later io))),
      pe_user_id = (case inviter_user_id of Some uid \<Rightarrow> Some uid | None \<Rightarrow> Option.bind existing pe_user_id),
      pe_last_addr = merge_hint (io_observed io) (Option.bind existing pe_last_addr)\<rparr>"

definition finish_pairing ::
  "libs \<Rightarrow> pair_io \<Rightarrow> (string \<Rightarrow> pair_node \<Rightarrow> pair_node) option \<Rightarrow> string \<Rightarrow> invite \<Rightarrow> string option \<Rightarrow> pair_node \<Rightarrow>
   (redeem_error + pair_result) \<times> pair_node" where
  "finish_pairing L io grant_back local_name i inviter_user_id n =
     (let self_id = pn_endpoint_id n in
      if (case inviter_user_id of Some uid \<Rightarrow> is_user_revoked (pn_store n) uid | None \<Rightarrow> False) then
        (Inl (PairRefusal ERR_PRINCIPAL_REVOKED None), n)
      else
        sbind (lift_redeem (store_resolve (pn_store n) (iv_inviter_id i)), n) (\<lambda>existing n.
        sbind (case store_add (pn_store n) (inviter_entry io local_name i inviter_user_id existing) of
                 Inl e \<Rightarrow> (Inl (RedeemStore e), n) | Inr s \<Rightarrow> (Inr (), with_store s n)) (\<lambda>_ n.
        let n = (case grant_back of
              Some hook \<Rightarrow> hook (case inviter_user_id of Some uid \<Rightarrow> uid | None \<Rightarrow> principal L (iv_inviter_id i)) n
            | None \<Rightarrow> n)
        in (Inr \<lparr>pr_peer_nickname = local_name,
                 pr_sas_code = short_auth_code L (iv_inviter_id i) self_id (iv_secret i),
                 pr_enrolled_as_self = False, pr_services = iv_services i, pr_app_label = iv_app_label i,
                 pr_peer_user_id = inviter_user_id\<rparr>, n))))"

definition redeem_invite ::
  "libs \<Rightarrow> pair_io \<Rightarrow> pair_dial \<Rightarrow> bool \<Rightarrow> (string \<Rightarrow> pair_node \<Rightarrow> pair_node) option \<Rightarrow> string \<Rightarrow> string option \<Rightarrow>
   self_enroll \<Rightarrow> pair_node \<Rightarrow> (redeem_error + pair_result) \<times> pair_node" where
  "redeem_invite L io net adopt_ok grant_back line as_nickname self_enroll n =
     sbind (redeem_checks L io net as_nickname self_enroll line (pn_store n), n) (\<lambda>i n.
     let local_name = (case as_nickname of Some a \<Rightarrow> a | None \<Rightarrow> iv_nickname i)
     in sbind (redeem_exchange net i n) (\<lambda>(_, _, user_pk, sig) n.
        if iv_as_self i then finish_self_enroll L adopt_ok local_name i user_pk sig n
        else finish_pairing L io grant_back local_name i (verified_user_id L user_pk sig (iv_inviter_id i)) n))"

end
