(* ===== verification/Pair_Verbs.thy ===== *)
theory Pair_Verbs
  imports Redeem
begin

text \<open>
  The control verbs around a ceremony (\<open>node/src/daemon/handlers.rs\<close>): minting an invite, and
  redeeming one with the mutual grant. The secret, the address and the clock are arguments of a
  mint; the checks on a caller-chosen name work on its characters.
\<close>

definition MAX_ALIAS_CHARS :: nat where "MAX_ALIAS_CHARS = 64"

definition validated_alias :: "string option \<Rightarrow> redeem_error + string option" where
  "validated_alias alias = (case alias of
     None \<Rightarrow> Inr None
   | Some raw \<Rightarrow>
       (let name = trim_matches is_whitespace (chars_of raw)
        in if name = [] then Inl InvalidParams
           else if of_char CHR ''/'' \<in> set name then Inl InvalidParams
           else if \<exists>c \<in> set name. is_control c then Inl InvalidParams
           else if length name > MAX_ALIAS_CHARS then Inl InvalidParams
           else Inr (Some (string_of_chars name))))"

subsection \<open>Minting\<close>

definition MAX_INVITE_USES :: u32 where "MAX_INVITE_USES = 64"
definition INVITE_TTL_SECS :: u64 where "INVITE_TTL_SECS = 24 * 60 * 60"

definition known_service_names :: "config \<Rightarrow> (string \<times> ephemeral_service) list \<Rightarrow> string list" where
  "known_service_names cfg ephemeral =
     sort (foldl (\<lambda>out name. if name \<in> set out then out else out @ [name])
       (map fst (filter (\<lambda>(_, sc). backend_result sc \<noteq> None) (cfg_services cfg))) (map fst ephemeral))"

definition unregistered_service_error :: "string list \<Rightarrow> string list \<Rightarrow> string list option" where
  "unregistered_service_error requested served =
     (let unknown = filter (\<lambda>r. r \<notin> set served) requested in if unknown = [] then None else Some unknown)"

record mint_request =
  mq_services :: "string list"
  mq_app_label :: "string option"
  mq_max_uses :: "u32 option"
  mq_peer_nickname :: "string option"
  mq_as_self :: bool

definition mint_checks :: "access_env \<Rightarrow> mint_request \<Rightarrow> pair_node \<Rightarrow> redeem_error + u32 \<times> string option" where
  "mint_checks E q n =
     rbind (case mq_max_uses q of None \<Rightarrow> Inr 1 | Some m \<Rightarrow> if m = 0 then Inl InvalidParams else Inr (min m MAX_INVITE_USES)) (\<lambda>uses_remaining.
     if mq_as_self q \<and> (case mq_max_uses q of Some m \<Rightarrow> m > 1 | None \<Rightarrow> False) then Inl InvalidParams
     else if mq_as_self q \<and> mq_services q \<noteq> [] then Inl InvalidParams
     else if mq_as_self q \<and> pn_adopted_binding n \<noteq> None then Inl (PairRefusal ERR_SELF_ENROLL_NO_KEY None)
     else if mq_as_self q \<and> node_self_binding n = None then Inl InvalidParams
     else
       rbind (validated_alias (mq_peer_nickname q)) (\<lambda>peer_nickname.
       if peer_nickname \<noteq> None \<and> (case mq_max_uses q of Some m \<Rightarrow> m > 1 | None \<Rightarrow> False) then Inl InvalidParams
       else
         rbind (case peer_nickname of
                  None \<Rightarrow> Inr False
                | Some alias \<Rightarrow> lift_redeem (rbind (store_list (pn_store n)) (\<lambda>es. Inr (\<exists>e \<in> set es. pe_nickname e = alias)))) (\<lambda>taken.
         if taken then Inl InvalidParams
         else if (case mq_app_label q of Some l \<Rightarrow> length l > MAX_APP_LABEL_LEN | None \<Rightarrow> False) then Inl InvalidParams
         else if mq_services q = [] \<and> \<not> mq_as_self q then Inl InvalidParams
         else case load E (dm_config (pn_daemon n)) of
           None \<Rightarrow> Inl ConfigUnreadable
         | Some cfg \<Rightarrow>
             (case unregistered_service_error (mq_services q) (known_service_names cfg (dm_ephemeral (pn_daemon n))) of
                Some unknown \<Rightarrow> Inl (UnknownServices unknown)
              | None \<Rightarrow> Inr (uses_remaining, peer_nickname)))))"

definition minted :: "mint_request \<Rightarrow> u32 \<Rightarrow> string option \<Rightarrow> bytes \<Rightarrow> string \<Rightarrow> u64 \<Rightarrow> pair_node \<Rightarrow> invite" where
  "minted q uses_remaining peer_nickname secret addr_json now n =
     \<lparr>iv_secret = secret, iv_inviter_id = pn_endpoint_id n, iv_inviter_addr_json = addr_json,
      iv_nickname = pn_self_nickname n, iv_services = mq_services q, iv_expires_at_epoch = now + INVITE_TTL_SECS,
      iv_app_label = mq_app_label q, iv_peer_nickname = peer_nickname, iv_as_self = mq_as_self q,
      iv_uses_remaining = uses_remaining\<rparr>"

definition mint_invite ::
  "libs \<Rightarrow> access_env \<Rightarrow> bool \<Rightarrow> bool \<Rightarrow> bytes \<Rightarrow> string \<Rightarrow> u64 \<Rightarrow> mint_request \<Rightarrow> pair_node \<Rightarrow>
   (redeem_error + string \<times> u64 \<times> u32) \<times> pair_node" where
  "mint_invite L E reap_ok ok secret addr_json now q n =
     sbind (mint_checks E q n, n) (\<lambda>(uses_remaining, peer_nickname) n.
     let i = minted q uses_remaining peer_nickname secret addr_json now n;
         r = remove_expired L reap_ok (pn_invites n) now
     in case mint L ok r i of
          (Inl _, r) \<Rightarrow> (Inl NotPersisted, n\<lparr>pn_invites := r\<rparr>)
        | (Inr _, r) \<Rightarrow> (Inr (invite_encode L i, iv_expires_at_epoch i, uses_remaining), n\<lparr>pn_invites := r\<rparr>))"

subsection \<open>Redeeming, with the mutual grant\<close>

text \<open>The grant-back names the services of the configuration file; a failure is only logged.\<close>

definition node_grant_back :: "access_env \<Rightarrow> bool \<Rightarrow> string \<Rightarrow> pair_node \<Rightarrow> pair_node" where
  "node_grant_back E ok p n = (case load E (dm_config (pn_daemon n)) of
     None \<Rightarrow> n
   | Some cfg \<Rightarrow>
       (let served = map fst (cfg_services cfg)
        in if served = [] then n else snd (node_grant E ok p served n)))"

definition pair_verb ::
  "libs \<Rightarrow> access_env \<Rightarrow> pair_io \<Rightarrow> pair_dial \<Rightarrow> bool \<Rightarrow> string \<Rightarrow> string option \<Rightarrow> self_enroll \<Rightarrow> pair_node \<Rightarrow>
   (redeem_error + pair_result) \<times> pair_node" where
  "pair_verb L E io net adopt_ok line as_nickname self_enroll n =
     sbind (validated_alias as_nickname, n) (\<lambda>as_nickname n.
     redeem_invite L io net adopt_ok (Some (node_grant_back E (io_config_ok io))) line as_nickname self_enroll n)"

end
