(* ===== verification/Access_Props.thy ===== *)
theory Access_Props
  imports Service_Access Sever_Props
begin

text \<open>
  The theorems about who may call which service after the daemon's verbs, from any state a failed
  verb or a hand edit may have left: what a grant, a revoke and an unpair do to the two sources of an
  allow list, to the live registry and to the connections; when they rebuild the registry and when
  they leave it alone; and that no sequence of successful verbs lets a registry that agrees with its
  sources drift from them.
\<close>

subsection \<open>An instance of the TOML library\<close>

instance toml :: countable
  by countable_datatype

definition tables_distinct :: "toml_table \<Rightarrow> bool" where
  "tables_distinct doc \<longleftrightarrow> (case services_table doc of Some t \<Rightarrow> distinct (al_keys t) | None \<Rightarrow> True)"

definition demo_toml :: toml_lib where
  "demo_toml = \<lparr>
     toml_from_str = (\<lambda>s. if s = [] then Some [] else
        case strip_prefix (CONFIG_HEADER @ NEWLINE) s of
          Some body \<Rightarrow> (let doc = from_nat (length body) in if tables_distinct doc then Some doc else None)
        | None \<Rightarrow> None),
     toml_to_string_pretty = (\<lambda>doc. if tables_distinct doc then Some (replicate (to_nat doc) CHR ''x'') else None)\<rparr>"

lemma demo_toml_ok: "toml_ok demo_toml"
proof -
  have ne: "CONFIG_HEADER @ NEWLINE @ s \<noteq> []" for s by (simp add: NEWLINE_def)
  have "strip_prefix (CONFIG_HEADER @ NEWLINE) (CONFIG_HEADER @ NEWLINE @ s) = Some s" for s
    using strip_prefix_append [of "CONFIG_HEADER @ NEWLINE" s] by simp
  then have rt: "toml_roundtrip demo_toml"
    using ne by (auto simp: toml_roundtrip_def demo_toml_def Let_def split: if_splits)
  have "toml_from_str demo_toml s = Some doc \<Longrightarrow> tables_distinct doc" for s doc
    by (auto simp: demo_toml_def Let_def tables_distinct_def services_table_def split: if_splits option.splits)
  then have "distinct (al_keys t)" if "toml_from_str demo_toml s = Some doc" "services_table doc = Some t" for s doc t
    using that by (fastforce simp: tables_distinct_def)
  then show ?thesis using rt unfolding toml_ok_def by blast
qed

text \<open>The file a document is stored in, and what a writer does to it.\<close>

definition demo_file :: "toml_table \<Rightarrow> config_file" where
  "demo_file doc = Content (CONFIG_HEADER @ NEWLINE @ replicate (to_nat doc) CHR ''x'')"

lemma demo_toml_parse: "tables_distinct doc \<Longrightarrow> toml_from_str demo_toml (CONFIG_HEADER @ NEWLINE @ replicate (to_nat doc) CHR ''x'') = Some doc"
proof -
  assume "tables_distinct doc"
  then have "toml_to_string_pretty demo_toml doc = Some (replicate (to_nat doc) CHR ''x'')" by (simp add: demo_toml_def)
  then show ?thesis using demo_toml_ok unfolding toml_ok_def toml_roundtrip_def by blast
qed

lemma demo_rmw:
  assumes "tables_distinct doc" and "edit doc = Inr (doc', c)" and "tables_distinct doc'"
  shows "rmw demo_toml True (demo_file doc) edit = Inr (if c then (demo_file doc', True) else (demo_file doc, False))"
  using assms demo_toml_parse [OF assms(1)]
  by (simp add: rmw_def read_config_for_rmw_def demo_file_def write_config_doc_def atomic_write_def)
    (simp add: demo_toml_def)

definition demo_env :: access_env where
  "demo_env = \<lparr>ae_toml = demo_toml, ae_other_ok = (\<lambda>_. True), ae_backend = (\<lambda>_ _ _. 3)\<rparr>"

lemma demo_env_ok: "toml_ok (ae_toml demo_env)"
  by (simp add: demo_env_def demo_toml_ok)

definition demo_doc :: "string list \<Rightarrow> toml_table" where
  "demo_doc allow = [(''services'', TTable [(''kb'', TTable
     [(''allow'', TArray (map TString allow)), (''socket'', TString ''/run/kb'')])])]"

lemma demo_doc_distinct [simp]: "tables_distinct (demo_doc allow)"
  by (simp add: tables_distinct_def demo_doc_def services_table_def)

lemma strings_TString: "toml_strings (TArray (map TString xs)) = Some xs"
  by (simp add: toml_strings_def List.map_filter_def comp_def)

lemma demo_config_load: "tables_distinct doc \<Longrightarrow> load demo_env (demo_file doc) = decode_config (\<lambda>_. True) doc"
  using demo_toml_parse [of doc] by (simp add: load_def config_load_def demo_env_def demo_file_def)

lemma demo_load: "load demo_env (demo_file (demo_doc allow)) = Some
   \<lparr>cfg_identity = \<lparr>id_nickname = None, id_org_id = None, id_org_root_pk = None, id_user_id = None\<rparr>,
    cfg_services = [(''kb'', \<lparr>sc_run = None, sc_socket = Some ''/run/kb'', sc_allow = allow, sc_env = [], sc_cwd = None,
       sc_rate_limit_per_min = None\<rparr>)]\<rparr>"
  unfolding demo_config_load [OF demo_doc_distinct]
  by (simp add: decode_config_def opt_key_def demo_doc_def decode_service_def strings_TString)

text \<open>
  A daemon that serves \<open>kb\<close> from disk to Bob and holds an ephemeral service \<open>tmp\<close> Bob was granted;
  Bob is paired.
\<close>

definition demo_source :: "string list \<Rightarrow> daemon" where
  "demo_source allow = \<lparr>dm_config = demo_file (demo_doc allow),
     dm_ephemeral = [(''tmp'', \<lparr>es_backend = SocketSpec ''/run/tmp'', es_allow = [''b64u:bob''], es_rate_limit_per_min = None\<rparr>)],
     dm_live = \<lparr>ls_version = 0, ls_services = []\<rparr>, dm_store = demo_store, dm_roster = rg_empty, dm_registry = cr_new\<rparr>"

definition demo_daemon :: "string list \<Rightarrow> daemon" where
  "demo_daemon allow = snd (reload_services_from_disk demo_env (demo_source allow))"

lemma demo_reload: "reload_services_from_disk demo_env (demo_source allow) = (Inr (), demo_daemon allow)"
  unfolding demo_daemon_def reload_services_from_disk_def by (simp add: demo_source_def demo_load)

lemma demo_synced: "synced demo_env (demo_daemon allow)"
  by (rule reload_Inr(1) [OF demo_env_ok _ demo_reload]) (simp add: demo_source_def)

lemma demo_daemon_fields [simp]:
  "dm_config (demo_daemon allow) = demo_file (demo_doc allow)"
  "dm_ephemeral (demo_daemon allow) =
     [(''tmp'', \<lparr>es_backend = SocketSpec ''/run/tmp'', es_allow = [''b64u:bob''], es_rate_limit_per_min = None\<rparr>)]"
  "dm_store (demo_daemon allow) = demo_store" "dm_roster (demo_daemon allow) = rg_empty"
  "dm_registry (demo_daemon allow) = cr_new"
  by (simp_all add: demo_daemon_def reload_services_from_disk_def demo_source_def demo_load)

lemma demo_eff: "eff_allow demo_env (demo_daemon allow) ''kb'' = allow"
  by (simp add: eff_allow_def cfg_allow_def demo_load backend_result_def)

lemma demo_maps: "maps_ok (demo_daemon allow)"
  by (rule maps_ok_synced [OF demo_synced])

lemma demo_loads: "load demo_env (dm_config (demo_daemon allow)) \<noteq> None"
  by (rule load_of_synced [OF demo_synced])

subsection \<open>Grants\<close>

text \<open>
  C38. What a successful grant does, from any state whose configuration file loads. The principal is
  not one that admission would refuse as revoked. The list in force for the named service (its
  ephemeral registration's, or its servable entry's on disk) gains the principal, every other list in
  force is unchanged. If the principal was not in that list, the grant is live at once: the live
  registry admits exactly that list for the service, and every other service has its previous live
  list or the one in force (a reload also brings in hand edits). If the principal was already in
  the list in force, the verb may succeed without touching anything, also when the live
  registry lacks it because an earlier reload failed or the file was edited by hand. Where the live
  registry agreed with its sources before, it does so after, and the change is exactly the grant.
\<close>
theorem grant_takes_effect:
  assumes "toml_ok (ae_toml E)" "maps_ok d" "load E (dm_config d) \<noteq> None"
    and "grant_service_allow L E ok d service p = (Inr (), d')"
  shows "\<not> principal_is_revoked L (dm_store d) (rg_view (dm_roster d)) p \<and>
     (\<forall>s. eff_allow E d' s = (if s = service then push_new (eff_allow E d s) p else eff_allow E d s)) \<and>
     (d' = d \<and> p \<in> set (eff_allow E d service) \<or>
      live_allow d' service = push_new (eff_allow E d service) p \<and>
      (\<forall>s. s \<noteq> service \<longrightarrow> live_allow d' s = live_allow d s \<or> live_allow d' s = eff_allow E d s)) \<and>
     (synced E d \<longrightarrow> synced E d' \<and>
      (\<forall>s. live_allow d' s = (if s = service then push_new (live_allow d s) p else live_allow d s)))"
proof -
  note e = grant_service_allow_effect [OF assms]
  have "p \<in> set (eff_allow E d service)" if "d' = d"
    using e(1) [of service] that by (auto simp: push_new_def split: if_splits)
  then have "d' = d \<and> p \<in> set (eff_allow E d service) \<or>
      live_allow d' service = push_new (eff_allow E d service) p \<and>
      (\<forall>s. s \<noteq> service \<longrightarrow> live_allow d' s = live_allow d s \<or> live_allow d' s = eff_allow E d s)"
    using e(3) e(1) synced_live by (auto simp: one_moved_def)
  moreover have "synced E d' \<and> (\<forall>s. live_allow d' s = (if s = service then push_new (live_allow d s) p else live_allow d s))"
    if "synced E d"
    using grant_service_allow_synced [OF assms(1) that assms(4)] synced_live [OF that] synced_live e(1) by simp
  ultimately show ?thesis using e(1,2) by blast
qed

lemma demo_not_revoked: "\<not> principal_is_revoked demo_libs demo_store None ''b64u:eve''"
  by (simp add: principal_is_revoked_def principal_to_endpoint_def strip_prefix_def demo_store_def store_open_def
      is_user_revoked_def with_table_def)

lemma demo_append: "append_allow_to_config demo_toml True (demo_file (demo_doc [''b64u:bob''])) ''b64u:eve'' [''kb''] =
   Inr (demo_file (demo_doc [''b64u:bob'', ''b64u:eve'']), True)"
proof -
  have "append_allow_edit ''b64u:eve'' [''kb''] (demo_doc [''b64u:bob'']) = Inr (demo_doc [''b64u:bob'', ''b64u:eve''], True)"
    by (simp add: append_allow_edit_def services_table_def demo_doc_def append_allow_one_def)
  then show ?thesis
    using demo_rmw [of "demo_doc [''b64u:bob'']" _ "demo_doc [''b64u:bob'', ''b64u:eve'']" True]
    by (simp add: append_allow_to_config_def)
qed

lemma demo_reload_any:
  "dm_config d = demo_file (demo_doc a) \<Longrightarrow> \<exists>d'. reload_services_from_disk demo_env d = (Inr (), d')"
  by (simp add: reload_services_from_disk_def demo_load)

lemma demo_env_toml [simp]: "ae_toml demo_env = demo_toml"
  by (simp add: demo_env_def)

lemma demo_grant: "\<exists>d'. grant_service_allow demo_libs demo_env True (demo_daemon [''b64u:bob'']) ''kb'' ''b64u:eve'' = (Inr (), d') \<and>
   dm_config d' = demo_file (demo_doc [''b64u:bob'', ''b64u:eve'']) \<and> map_of (dm_ephemeral d') ''kb'' = None"
proof -
  let ?d = "demo_daemon [''b64u:bob'']" and ?f = "demo_file (demo_doc [''b64u:bob'', ''b64u:eve''])"
  have "rg_view rg_empty = None" by (simp add: rg_empty_def)
  moreover obtain d' where r: "reload_services_from_disk demo_env (?d\<lparr>dm_config := ?f\<rparr>) = (Inr (), d')"
    using demo_reload_any [of "?d\<lparr>dm_config := ?f\<rparr>"] by auto
  ultimately have "grant_service_allow demo_libs demo_env True ?d ''kb'' ''b64u:eve'' = (Inr (), d')"
    by (simp add: grant_service_allow_def service_servable_in_config_def demo_load demo_append demo_not_revoked
        backend_result_def write_config_def grant_ephemeral_def install_allow_change_def)
  moreover have "dm_config d' = ?f" "map_of (dm_ephemeral d') ''kb'' = None"
    using r by (auto simp: reload_services_from_disk_def demo_load)
  ultimately show ?thesis by blast
qed

theorem grant_takes_effect_witness:
  "\<exists>d'. grant_service_allow demo_libs demo_env True (demo_daemon [''b64u:bob'']) ''kb'' ''b64u:eve'' = (Inr (), d') \<and>
     live_allow d' ''kb'' = [''b64u:bob'', ''b64u:eve'']"
proof -
  obtain d' where ok: "grant_service_allow demo_libs demo_env True (demo_daemon [''b64u:bob'']) ''kb'' ''b64u:eve'' = (Inr (), d')"
    using demo_grant by blast
  have "live_allow (demo_daemon [''b64u:bob'']) ''kb'' = [''b64u:bob'']" using synced_live [OF demo_synced] demo_eff by simp
  then have "live_allow d' ''kb'' = [''b64u:bob'', ''b64u:eve'']"
    using grant_takes_effect [OF demo_env_ok demo_maps demo_loads ok] demo_synced by (simp add: push_new_def)
  with ok show ?thesis by blast
qed

subsection \<open>Revocation of a grant\<close>

text \<open>
  C39. What a successful revoke does, from any state whose configuration file loads. Afterwards neither
  source of the service lists the principal, and every other list in force is unchanged. If one
  of the two sources listed it, the revoke is live at once: the live registry admits exactly the list in
  force, without the principal, and the connections selected for closing are exactly the tracked ones
  whose endpoint the principal names (as its device, its person, its roster user or a group of
  it) or that carry a session admitted as the principal. If neither source listed it, the verb
  leaves the live registry as it is and closes nothing, also when the live list still has the principal
  because an earlier attempt failed after it had stripped the sources. Where the live registry
  agreed with its sources before, it does so after, and the change is exactly the revoke.
\<close>
theorem revoke_takes_effect:
  assumes "toml_ok (ae_toml E)" "maps_ok d" "load E (dm_config d) \<noteq> None"
    and "revoke_service_allow L E ok d service p = (Inr conns, d')"
  shows "\<not> listed E d' service p \<and>
     (\<forall>s. eff_allow E d' s = (if s = service then filter (\<lambda>a. a \<noteq> p) (eff_allow E d s) else eff_allow E d s)) \<and>
     (listed E d service p \<longrightarrow>
      live_allow d' service = filter (\<lambda>a. a \<noteq> p) (eff_allow E d service) \<and>
      (\<forall>s. s \<noteq> service \<longrightarrow> live_allow d' s = live_allow d s \<or> live_allow d' s = eff_allow E d s) \<and>
      (\<forall>c. c \<in> set conns \<longleftrightarrow> (\<exists>i t. (i, t) \<in> set (cr_inner (dm_registry d)) \<and> t_conn t = c \<and>
         (names_endpoint L (dm_store d) (rg_view (dm_roster d)) p (t_endpoint_id t) \<or>
          p \<in> set (al_keys (t_admitted t)))))) \<and>
     (\<not> listed E d service p \<longrightarrow> dm_live d' = dm_live d \<and> conns = []) \<and>
     (synced E d \<longrightarrow> synced E d' \<and>
      (\<forall>s. live_allow d' s = (if s = service then filter (\<lambda>a. a \<noteq> p) (live_allow d s) else live_allow d s)))"
proof -
  note e = revoke_service_allow_effect [OF assms]
  have "live_allow d' service = filter (\<lambda>a. a \<noteq> p) (eff_allow E d service) \<and>
      (\<forall>s. s \<noteq> service \<longrightarrow> live_allow d' s = live_allow d s \<or> live_allow d' s = eff_allow E d s) \<and>
      (\<forall>c. c \<in> set conns \<longleftrightarrow> (\<exists>i t. (i, t) \<in> set (cr_inner (dm_registry d)) \<and> t_conn t = c \<and>
         (names_endpoint L (dm_store d) (rg_view (dm_roster d)) p (t_endpoint_id t) \<or>
          p \<in> set (al_keys (t_admitted t)))))"
    if l: "listed E d service p"
  proof -
    have "synced E d' \<or> one_moved E d d' service"
      and sv: "sever_principals L (dm_store d) (dm_roster d) (dm_registry d) [p] = Inr conns" using e(5) l by simp_all
    then have "live_allow d' service = filter (\<lambda>a. a \<noteq> p) (eff_allow E d service) \<and>
      (\<forall>s. s \<noteq> service \<longrightarrow> live_allow d' s = live_allow d s \<or> live_allow d' s = eff_allow E d s)"
      using e(1) synced_live by (auto simp: one_moved_def)
    then show ?thesis using sever_principals_set [OF sv] by simp
  qed
  moreover have "dm_live d' = dm_live d \<and> conns = []" if "\<not> listed E d service p" using e(5) that by simp
  moreover have "synced E d' \<and>
      (\<forall>s. live_allow d' s = (if s = service then filter (\<lambda>a. a \<noteq> p) (live_allow d s) else live_allow d s))"
    if "synced E d"
    using revoke_service_allow_synced [OF assms(1) that assms(4)] synced_live [OF that] synced_live e(1) by simp
  ultimately show ?thesis using e(1,2) by blast
qed

lemma demo_remove: "remove_principal_from_service demo_toml True (demo_file (demo_doc [''b64u:bob'', ''b64u:eve''])) ''kb'' ''b64u:eve'' =
   Inr (demo_file (demo_doc [''b64u:bob'']), True)"
proof -
  have "remove_principal_edit ''kb'' ''b64u:eve'' (demo_doc [''b64u:bob'', ''b64u:eve'']) = Inr (demo_doc [''b64u:bob''], True)"
    by (simp add: remove_principal_edit_def services_table_def demo_doc_def retain_allow_def entry_allow_arr_def keep_str_def)
  then show ?thesis
    using demo_rmw [of "demo_doc [''b64u:bob'', ''b64u:eve'']" _ "demo_doc [''b64u:bob'']" True]
    by (simp add: remove_principal_from_service_def)
qed

lemma demo_sever: "dm_store d = demo_store \<Longrightarrow> dm_roster d = rg_empty \<Longrightarrow> dm_registry d = cr_new \<Longrightarrow>
   sever demo_libs d ps = (Inr [], d)"
proof -
  assume "dm_store d = demo_store" "dm_roster d = rg_empty" "dm_registry d = cr_new"
  moreover have "\<exists>es. endpoints_for_principal demo_libs demo_store None p = Inr es" for p
    by (simp add: endpoints_for_principal_def store_list_def demo_store_def store_open_def with_table_def)
  then have "\<exists>es. mapM (endpoints_for_principal demo_libs demo_store None) ps = Inr es" by (rule mapM_ok)
  ultimately show ?thesis
    by (auto simp: sever_def lift_store_def sever_principals_def rg_empty_def cr_new_def sever_matching_admitted_def result_simps)
qed

theorem revoke_takes_effect_witness:
  "\<exists>d'. revoke_service_allow demo_libs demo_env True (demo_daemon [''b64u:bob'', ''b64u:eve'']) ''kb'' ''b64u:eve'' = (Inr [], d') \<and>
     live_allow d' ''kb'' = [''b64u:bob'']"
proof -
  let ?d = "demo_daemon [''b64u:bob'', ''b64u:eve'']" and ?f = "demo_file (demo_doc [''b64u:bob''])"
  obtain d' where r: "reload_services_from_disk demo_env (?d\<lparr>dm_config := ?f\<rparr>) = (Inr (), d')"
    using demo_reload_any [of "?d\<lparr>dm_config := ?f\<rparr>"] by auto
  then have "dm_store d' = demo_store" "dm_roster d' = rg_empty" "dm_registry d' = cr_new"
    by (auto simp: reload_services_from_disk_def demo_load)
  then have ok: "revoke_service_allow demo_libs demo_env True ?d ''kb'' ''b64u:eve'' = (Inr [], d')"
    using r by (simp add: revoke_service_allow_def revoke_ephemeral_def demo_remove write_config_def
        install_allow_change_def demo_sever)
  have "live_allow ?d ''kb'' = [''b64u:bob'', ''b64u:eve'']" using synced_live [OF demo_synced] demo_eff by simp
  then have "live_allow d' ''kb'' = [''b64u:bob'']"
    using revoke_takes_effect [OF demo_env_ok demo_maps demo_loads ok] demo_synced by simp
  with ok show ?thesis by blast
qed

subsection \<open>Unpairing\<close>

text \<open>
  The principals of a paired peer: its devices, and its person unless a device of another name that
  was paired by ceremony carries that person.
\<close>

definition peer_names :: "libs \<Rightarrow> peer_store \<Rightarrow> string \<Rightarrow> string set" where
  "peer_names L store nickname =
     {principal L (pe_endpoint_id t) | t. t \<in> set (readable (ps_peers store)) \<and> pe_nickname t = nickname} \<union>
     {u | t u. t \<in> set (readable (ps_peers store)) \<and> pe_nickname t = nickname \<and> pe_user_id t = Some u \<and>
        \<not> (\<exists>other \<in> set (readable (ps_peers store)). pe_nickname other \<noteq> nickname \<and>
             pe_user_id other = Some u \<and> pe_paired_at other \<noteq> None)}"


lemma demo_paired_ok: "store_ok demo_store"
  by (simp add: keyed_by_self_def store_ok_def tbl_ok_def demo_store_def store_open_def demo_entry_def)

lemma demo_principals: "revoke_principals demo_libs demo_store ''bob'' = Inr [principal demo_libs (replicate 32 1), ''b64u:bob'']"
  by (simp add: revoke_principals_def store_list_def demo_store_def store_open_def with_table_def demo_entry_def principal_def)

lemma demo_remove_all: "remove_allow_from_config demo_toml True (demo_file (demo_doc [''b64u:bob'']))
     [principal demo_libs (replicate 32 1), ''b64u:bob''] = Inr (demo_file (demo_doc []), True)"
proof -
  have "remove_allow_edit [principal demo_libs (replicate 32 1), ''b64u:bob''] (demo_doc [''b64u:bob'']) = Inr (demo_doc [], True)"
    by (simp add: remove_allow_edit_def services_table_def demo_doc_def retain_allow_def entry_allow_arr_def keep_str_def)
  then show ?thesis
    using demo_rmw [of "demo_doc [''b64u:bob'']" _ "demo_doc []" True] by (simp add: remove_allow_from_config_def)
qed


subsection \<open>Retries\<close>

text \<open>
  A revoke that failed is not finished by its retry. The first attempt strips the ephemeral list in
  memory and then fails on an unreadable configuration file; the second, with the file readable
  again, finds nothing to strip and reports success, rebuilds nothing and closes nothing: the
  principal is in neither source, and the live registry still admits it.
\<close>
theorem retried_revoke_leaves_live:
  "\<exists>e d1 d2. revoke_service_allow demo_libs demo_env True ((demo_daemon [''b64u:bob''])\<lparr>dm_config := Unreadable\<rparr>)
       ''tmp'' ''b64u:bob'' = (Inl e, d1) \<and>
     revoke_service_allow demo_libs demo_env True (d1\<lparr>dm_config := dm_config (demo_daemon [''b64u:bob''])\<rparr>)
       ''tmp'' ''b64u:bob'' = (Inr [], d2) \<and>
     \<not> listed demo_env d2 ''tmp'' ''b64u:bob'' \<and> ''b64u:bob'' \<in> set (live_allow d2 ''tmp'')"
proof -
  let ?d = "demo_daemon [''b64u:bob'']"
  let ?e = "[(''tmp'', \<lparr>es_backend = SocketSpec ''/run/tmp'', es_allow = [], es_rate_limit_per_min = None\<rparr>)]"
  have r0: "remove_principal_from_service demo_toml True Unreadable ''tmp'' ''b64u:bob'' = Inl ReadConfig"
    by (simp add: remove_principal_from_service_def rmw_def read_config_for_rmw_def)
  have "remove_principal_edit ''tmp'' ''b64u:bob'' (demo_doc [''b64u:bob'']) = Inr (demo_doc [''b64u:bob''], False)"
    by (simp add: remove_principal_edit_def services_table_def demo_doc_def)
  then have r1: "remove_principal_from_service demo_toml True (demo_file (demo_doc [''b64u:bob''])) ''tmp'' ''b64u:bob'' =
      Inr (demo_file (demo_doc [''b64u:bob'']), False)"
    using demo_rmw [of "demo_doc [''b64u:bob'']" _ "demo_doc [''b64u:bob'']" False]
    by (simp add: remove_principal_from_service_def)
  define d1 where "d1 = ?d\<lparr>dm_config := Unreadable, dm_ephemeral := ?e\<rparr>"
  define d2 where "d2 = ?d\<lparr>dm_ephemeral := ?e\<rparr>"
  have 1: "revoke_service_allow demo_libs demo_env True (?d\<lparr>dm_config := Unreadable\<rparr>) ''tmp'' ''b64u:bob'' =
      (Inl (ConfigFailed ReadConfig), d1)"
    by (simp add: revoke_service_allow_def revoke_ephemeral_def r0 write_config_def d1_def)
  have "d1\<lparr>dm_config := dm_config ?d\<rparr> = d2" by (cases ?d) (simp add: d1_def d2_def)
  moreover have 2: "revoke_service_allow demo_libs demo_env True d2 ''tmp'' ''b64u:bob'' = (Inr [], d2)"
    by (simp add: revoke_service_allow_def revoke_ephemeral_def r1 write_config_def install_allow_change_def d2_def)
  moreover have "\<not> listed demo_env d2 ''tmp'' ''b64u:bob''"
    using revoke_service_allow_effect(2) [OF demo_env_ok _ _ 2] demo_loads [of "[''b64u:bob'']"]
      maps_ok_synced [OF demo_synced [of "[''b64u:bob'']"]]
    by (simp add: maps_ok_def d2_def)
  moreover have "''b64u:bob'' \<in> set (live_allow d2 ''tmp'')"
    using synced_live [OF demo_synced, of "[''b64u:bob'']" "''tmp''"] by (simp add: live_allow_def eff_allow_def d2_def)
  ultimately show ?thesis using 1 by metis
qed

text \<open>
  A grant whose principal is already on disk, left there by an attempt whose reload failed or by a
  hand edit, reports success and leaves the live registry without it.
\<close>
theorem retried_grant_is_not_live:
  "\<exists>d. grant_service_allow demo_libs demo_env True d ''kb'' ''b64u:eve'' = (Inr (), d) \<and>
     ''b64u:eve'' \<in> set (eff_allow demo_env d ''kb'') \<and> ''b64u:eve'' \<notin> set (live_allow d ''kb'')"
proof -
  let ?f = "demo_file (demo_doc [''b64u:bob'', ''b64u:eve''])"
  let ?d = "(demo_daemon [''b64u:bob''])\<lparr>dm_config := ?f\<rparr>"
  have "append_allow_edit ''b64u:eve'' [''kb''] (demo_doc [''b64u:bob'', ''b64u:eve'']) =
      Inr (demo_doc [''b64u:bob'', ''b64u:eve''], False)"
    by (simp add: append_allow_edit_def services_table_def demo_doc_def append_allow_one_def)
  then have a: "append_allow_to_config demo_toml True ?f ''b64u:eve'' [''kb''] = Inr (?f, False)"
    using demo_rmw [of "demo_doc [''b64u:bob'', ''b64u:eve'']" _ "demo_doc [''b64u:bob'', ''b64u:eve'']" False]
    by (simp add: append_allow_to_config_def)
  have "rg_view rg_empty = None" by (simp add: rg_empty_def)
  then have "grant_service_allow demo_libs demo_env True ?d ''kb'' ''b64u:eve'' = (Inr (), ?d)"
    by (simp add: grant_service_allow_def service_servable_in_config_def demo_load a demo_not_revoked
        backend_result_def write_config_def grant_ephemeral_def install_allow_change_def)
  moreover have "eff_allow demo_env ?d ''kb'' = [''b64u:bob'', ''b64u:eve'']"
    by (simp add: eff_allow_def cfg_allow_def demo_load backend_result_def)
  moreover have "live_allow ?d ''kb'' = [''b64u:bob'']"
    using synced_live [OF demo_synced, of "[''b64u:bob'']" "''kb''"] demo_eff by (simp add: live_allow_def)
  ultimately show ?thesis by (intro exI [of _ ?d]) simp
qed

subsection \<open>Sequences of verbs\<close>

text \<open>One successful verb, with whatever arguments and whatever the file system did.\<close>

inductive verb :: "libs \<Rightarrow> access_env \<Rightarrow> daemon \<Rightarrow> daemon \<Rightarrow> bool" for L E where
  Grant: "grant_service_allow L E ok d service p = (Inr u, d') \<Longrightarrow> verb L E d d'"
| Pair_Grant: "grant_service_access E ok d p services = (Inr u, d') \<Longrightarrow> verb L E d d'"
| Revoke: "revoke_service_allow L E ok d service p = (Inr conns, d') \<Longrightarrow> verb L E d d'"
| Unpair: "remove_peer L E ok has_blobs d nickname = (Inr r, d') \<Longrightarrow> verb L E d d'"
| Register: "register_service E ok d name b allow ephemeral rate = (Inr u, d') \<Longrightarrow> verb L E d d'"
| Unregister: "unregister_service E ok d name = (Inr u, d') \<Longrightarrow> verb L E d d'"

lemma verb_synced: "toml_ok (ae_toml E) \<Longrightarrow> synced E d \<Longrightarrow> verb L E d d' \<Longrightarrow> synced E d'"
proof (erule verb.cases, goal_cases)
  case (4 ok d has_blobs nickname r d')
  then show ?case
    by (cases r) (auto elim: remove_peer_effect [OF _ maps_ok_synced load_of_synced])
qed (auto dest: grant_service_allow_synced grant_service_access_effect revoke_service_allow_synced
      register_service_effect unregister_service_effect)

text \<open>
  A live registry that agrees with its sources keeps doing so under verbs that succeed: after any number of successful verbs, in any
  order, the live list of every service is the list of its ephemeral registration when it has one,
  and otherwise the list of its entry in the configuration file when that entry can be served.
\<close>
theorem registry_matches_sources:
  assumes "toml_ok (ae_toml E)" "synced E d" "(verb L E)\<^sup>*\<^sup>* d d'"
  shows "live_allow d' s = (case map_of (dm_ephemeral d') s of
       Some e \<Rightarrow> es_allow e
     | None \<Rightarrow> (case load E (dm_config d') of
           Some cfg \<Rightarrow> (case map_of (cfg_services cfg) s of
               Some sc \<Rightarrow> if backend_result sc \<noteq> None then sc_allow sc else [] | None \<Rightarrow> [])
         | None \<Rightarrow> []))"
proof -
  from assms(3) have "synced E d'"
    by (induction rule: rtranclp_induct) (auto intro: assms(2) verb_synced [OF assms(1)])
  then have "live_allow d' s = eff_allow E d' s" by (rule synced_live)
  then show ?thesis unfolding eff_allow_def cfg_allow_def .
qed

theorem registry_matches_sources_witness:
  "\<exists>d'. (verb demo_libs demo_env)\<^sup>*\<^sup>* (demo_daemon [''b64u:bob'']) d' \<and> d' \<noteq> demo_daemon [''b64u:bob''] \<and>
     live_allow d' ''kb'' = [''b64u:bob'', ''b64u:eve'']"
proof -
  obtain d' where g: "grant_service_allow demo_libs demo_env True (demo_daemon [''b64u:bob'']) ''kb'' ''b64u:eve'' = (Inr (), d')"
    and c: "dm_config d' = demo_file (demo_doc [''b64u:bob'', ''b64u:eve''])" "map_of (dm_ephemeral d') ''kb'' = None"
    using demo_grant by blast
  have v: "(verb demo_libs demo_env)\<^sup>*\<^sup>* (demo_daemon [''b64u:bob'']) d'" using verb.Grant [OF g] by blast
  have "live_allow d' ''kb'' = [''b64u:bob'', ''b64u:eve'']"
    using registry_matches_sources [OF demo_env_ok demo_synced v, of "''kb''"]
    by (simp add: c demo_load backend_result_def)
  moreover have "live_allow (demo_daemon [''b64u:bob'']) ''kb'' = [''b64u:bob'']"
    using synced_live [OF demo_synced] demo_eff by simp
  ultimately show ?thesis using v by fastforce
qed

end
