(* ===== verification/Invite_Props.thy ===== *)
theory Invite_Props
  imports Invites
begin

text \<open>
  The theorems about invites as bearer credentials: what travels on the line, that a use is never
  issued twice, and that an invite handed out stays redeemable across restarts until it expires.
\<close>

subsection \<open>Accounting for uses\<close>

text \<open>
  A run of a component that mints uses of a credential, spends them one at a time and does other
  things in between, with the totals minted and spent per credential.
\<close>

inductive ledger :: "('k \<Rightarrow> nat \<Rightarrow> 's \<Rightarrow> 's \<Rightarrow> bool) \<Rightarrow> ('k \<Rightarrow> 's \<Rightarrow> 's \<Rightarrow> bool) \<Rightarrow> ('s \<Rightarrow> 's \<Rightarrow> bool) \<Rightarrow>
   's \<Rightarrow> ('k \<Rightarrow> nat) \<Rightarrow> ('k \<Rightarrow> nat) \<Rightarrow> 's \<Rightarrow> bool" for mints spends others s0 where
  Start: "ledger mints spends others s0 (\<lambda>_. 0) (\<lambda>_. 0) s0"
| Mints: "ledger mints spends others s0 m g s \<Longrightarrow> mints k n s s' \<Longrightarrow>
    ledger mints spends others s0 (m(k := m k + n)) g s'"
| Spends: "ledger mints spends others s0 m g s \<Longrightarrow> spends k s s' \<Longrightarrow>
    ledger mints spends others s0 m (g(k := g k + 1)) s'"
| Others: "ledger mints spends others s0 m g s \<Longrightarrow> others s s' \<Longrightarrow> ledger mints spends others s0 m g s'"

locale use_budget =
  fixes holds :: "('k \<Rightarrow> nat) \<Rightarrow> 's \<Rightarrow> bool"
    and mints :: "'k \<Rightarrow> nat \<Rightarrow> 's \<Rightarrow> 's \<Rightarrow> bool"
    and spends :: "'k \<Rightarrow> 's \<Rightarrow> 's \<Rightarrow> bool"
    and others :: "'s \<Rightarrow> 's \<Rightarrow> bool"
  assumes mint_adds: "holds b s \<Longrightarrow> mints k n s s' \<Longrightarrow> holds (b(k := b k + n)) s'"
    and spend_takes: "holds b s \<Longrightarrow> spends k s s' \<Longrightarrow> 0 < b k \<and> holds (b(k := b k - 1)) s'"
    and others_keep: "holds b s \<Longrightarrow> others s s' \<Longrightarrow> holds b s'"
begin

lemma budget_invariant:
  assumes "ledger mints spends others s0 m g s" and "holds (\<lambda>_. 0) s0"
  shows "(\<forall>k. g k \<le> m k) \<and> holds (\<lambda>k. m k - g k) s"
  using assms
proof (induction rule: ledger.induct)
  case (Mints m g s k n s')
  then have "holds ((\<lambda>j. m j - g j)(k := m k - g k + n)) s'" by (auto dest: mint_adds)
  moreover have "(\<lambda>j. m j - g j)(k := m k - g k + n) = (\<lambda>j. (m(k := m k + n)) j - g j)"
    using Mints by auto
  ultimately show ?case using Mints by (auto simp: le_add1 trans_le_add1)
next
  case (Spends m g s k s')
  then have s: "0 < m k - g k" "holds ((\<lambda>j. m j - g j)(k := m k - g k - 1)) s'"
    by (auto dest: spend_takes)
  moreover have "(\<lambda>j. m j - g j)(k := m k - g k - 1) = (\<lambda>j. m j - (g(k := g k + 1)) j)" by auto
  ultimately show ?case using Spends by auto
qed (auto dest: others_keep)

lemma never_overspent: "ledger mints spends others s0 m g s \<Longrightarrow> holds (\<lambda>_. 0) s0 \<Longrightarrow> g k \<le> m k"
  using budget_invariant by blast

end

text \<open>
  The registry of invites in these terms. The other steps: a mint that failed, an attempt that was
  refused, a reap, a restart from the file, and the loss of the file.
\<close>

definition invite_mints :: "libs \<Rightarrow> bytes \<Rightarrow> nat \<Rightarrow> live_invites \<Rightarrow> live_invites \<Rightarrow> bool" where
  "invite_mints L k n r r' \<longleftrightarrow> (\<exists>ok i u. invite_ok i \<and> iv_secret i = k \<and> n = unat (iv_uses_remaining i) \<and>
     mint L ok r i = (Inr u, r'))"

definition invite_spends :: "libs \<Rightarrow> bytes \<Rightarrow> live_invites \<Rightarrow> live_invites \<Rightarrow> bool" where
  "invite_spends L k r r' \<longleftrightarrow> (\<exists>ok now i. try_redeem L ok r k now = (RedeemOk i, r'))"

inductive invite_others :: "libs \<Rightarrow> live_invites \<Rightarrow> live_invites \<Rightarrow> bool" for L where
  Mint_Failed: "invite_ok i \<Longrightarrow> mint L ok r i = (Inl e, r') \<Longrightarrow> invite_others L r r'"
| Not_Redeemed: "try_redeem L ok r k now = (x, r') \<Longrightarrow> (\<And>i. x \<noteq> RedeemOk i) \<Longrightarrow> invite_others L r r'"
| Reaped: "invite_others L r (remove_expired L ok r now)"
| Restarted: "li_file r = Some f \<Longrightarrow> invite_others L r (li_load L ok f now)"
| File_Lost: "f \<in> {FileAbsent, FileUnreadable} \<Longrightarrow> invite_others L r (r\<lparr>li_file := Some f\<rparr>)"

text \<open>Only a library whose JSON text round-trips gives the laws, so the text library is fixed first.\<close>

definition text_within :: "libs \<Rightarrow> (bytes \<Rightarrow> nat) \<Rightarrow> live_invites \<Rightarrow> bool" where
  "text_within L b r \<longleftrightarrow> json_text_roundtrip L \<and> within L b r"

lemma file_lost_within:
  "within L b r \<Longrightarrow> f \<in> {FileAbsent, FileUnreadable} \<Longrightarrow> within L b (r\<lparr>li_file := Some f\<rparr>)"
  by (auto simp: within_def file_holds_def uses_def intro!: exI [of _ "[]"])

interpretation invite_uses: use_budget "text_within L" "invite_mints L" "invite_spends L" "invite_others L" for L
proof
  fix b s k n s' assume "text_within L b s" "invite_mints L k n s s'"
  then show "text_within L (b(k := b k + n)) s'" by (auto simp: text_within_def invite_mints_def mint_Inr)
next
  fix b s k s' assume "text_within L b s" "invite_spends L k s s'"
  then show "0 < b k \<and> text_within L (b(k := b k - 1)) s'"
    using redeem_Ok(1,2) [of L b s] by (fastforce simp: text_within_def invite_spends_def)
next
  fix b s s' assume w: "text_within L b s" and o': "invite_others L s s'"
  from o' w show "text_within L b s'"
    by (cases rule: invite_others.cases)
      (auto simp: text_within_def intro: mint_Inl(1) redeem_not_Ok remove_expired_within load_within file_lost_within)
qed

definition li_fresh :: "live_invites \<Rightarrow> bool" where
  "li_fresh r \<longleftrightarrow> li_inner r = [] \<and> li_file r \<in> {None, Some FileAbsent}"

lemma fresh_within: "li_fresh r \<Longrightarrow> within L (\<lambda>_. 0) r"
  by (auto simp: li_fresh_def within_def file_holds_def uses_def intro!: exI [of _ "[]"])

text \<open>
  C25. A use of an invite is never issued twice: over any run of mints, redemptions, reaps, restarts and
  file losses, with any disk write failing and any clock, the number of redemptions granted on a
  secret is at most the number of uses minted on it.
\<close>

theorem uses_never_reissued:
  assumes "json_text_roundtrip L" "li_fresh r0"
    "ledger (invite_mints L) (invite_spends L) (invite_others L) r0 minted granted r"
  shows "granted secret \<le> minted secret"
  using invite_uses.never_overspent [OF assms(3)] fresh_within [OF assms(2)] assms(1) by (simp add: text_within_def)

definition demo_invite :: invite where
  "demo_invite = \<lparr>iv_secret = replicate 32 7, iv_inviter_id = replicate 32 1, iv_inviter_addr_json = ''{}'',
     iv_nickname = ''alice'', iv_services = [''kb''], iv_expires_at_epoch = 100, iv_app_label = None,
     iv_peer_nickname = Some ''bob'', iv_as_self = False, iv_uses_remaining = 2\<rparr>"

definition demo_registry :: live_invites where
  "demo_registry = \<lparr>li_inner = [], li_file = Some FileAbsent\<rparr>"

lemma demo_invite_fields [simp]:
  "invite_ok demo_invite" "iv_secret demo_invite = replicate 32 7" "iv_uses_remaining demo_invite = 2"
  "iv_expires_at_epoch demo_invite = 100" "iv_as_self demo_invite = False"
  "iv_peer_nickname demo_invite = Some ''bob''" "iv_services demo_invite = [''kb'']"
  "iv_inviter_id demo_invite = replicate 32 1" "iv_nickname demo_invite = ''alice''"
  by (simp_all add: invite_ok_def demo_invite_def)

lemma demo_mint: "mint demo_libs True demo_registry demo_invite = (Inr (), \<lparr>li_inner = [(replicate 32 7, demo_invite)],
    li_file = Some (file_image demo_libs [(replicate 32 7, demo_invite)])\<rparr>)"
  by (simp add: mint_def Let_def demo_registry_def persist_def file_store_def file_image_def)

lemma ledger_mints_eq:
  "ledger M S O' s0 m g s \<Longrightarrow> M k n s s' \<Longrightarrow> m' = m(k := m k + n) \<Longrightarrow> ledger M S O' s0 m' g s'"
  by (auto intro: ledger.Mints)

theorem uses_never_reissued_witness:
  "\<exists>granted r. ledger (invite_mints demo_libs) (invite_spends demo_libs) (invite_others demo_libs) demo_registry
       ((\<lambda>_. 0)(replicate 32 7 := 2)) granted r \<and> granted (replicate 32 7) = 1 \<and> granted (replicate 32 7) \<le> 2"
proof -
  let ?k = "replicate 32 (7 :: byte)" and ?r = "snd (mint demo_libs True demo_registry demo_invite)"
  let ?l = "ledger (invite_mints demo_libs) (invite_spends demo_libs) (invite_others demo_libs) demo_registry"
  have "invite_mints demo_libs ?k 2 demo_registry ?r"
    unfolding invite_mints_def using demo_mint by (intro exI [of _ True] exI [of _ demo_invite]) simp
  then have m: "?l ((\<lambda>_. 0)(?k := 2)) (\<lambda>_. 0) ?r"
    by (rule ledger_mints_eq [OF ledger.Start]) (simp add: numeral_2_eq_2)
  obtain x r' where t: "try_redeem demo_libs True ?r ?k 50 = (x, r')" by fastforce
  then have "\<exists>i. x = RedeemOk i"
    by (auto simp: demo_mint try_redeem_def persist_def file_store_def checked_pred_def Let_def)
  then have "invite_spends demo_libs ?k ?r r'" using t unfolding invite_spends_def by blast
  then have s: "?l ((\<lambda>_. 0)(?k := 2)) ((\<lambda>_. 0)(?k := 1)) r'"
    using ledger.Spends [OF m, where ?k = ?k] by simp
  have "li_fresh demo_registry" by (simp add: li_fresh_def demo_registry_def)
  from uses_never_reissued [OF demo_json_text this s, of ?k] s show ?thesis by fastforce
qed

subsection \<open>Outliving a restart\<close>

lemma redeem_live:
  assumes "map_of (li_inner r) k = Some i" and "now \<le> iv_expires_at_epoch i" and "iv_uses_remaining i \<noteq> 0"
  shows "\<exists>r'. try_redeem L True r k now = (RedeemOk (i\<lparr>iv_uses_remaining := iv_uses_remaining i - 1\<rparr>), r')"
proof -
  obtain x r' where t: "try_redeem L True r k now = (x, r')" by fastforce
  then have "x = RedeemOk (i\<lparr>iv_uses_remaining := iv_uses_remaining i - 1\<rparr>)"
    by (cases rule: try_redeem_cases) (use assms in auto)
  with t show ?thesis by blast
qed

text \<open>
  An invite that was handed out can be redeemed until it expires, also after a restart: once
  \<open>mint\<close> has succeeded on a registry with a file, a daemon that boots from that file at any time up
  to the expiry, whether or not its own rewrite of the file works, grants a redemption of it as soon
  as the redemption can be recorded, and hands out the invite as it was minted, with one use less.
\<close>

theorem minted_invite_survives_restart:
  assumes "json_text_roundtrip L" "keyed (li_inner r)" "invite_ok i" "iv_uses_remaining i \<noteq> 0"
    "li_file r = Some f0" "mint L ok r i = (Inr u, r1)" "li_file r1 = Some f"
    "now \<le> iv_expires_at_epoch i" "now \<le> later" "later \<le> iv_expires_at_epoch i"
  shows "\<exists>r2. try_redeem L True (li_load L ok' f now) (iv_secret i) later =
     (RedeemOk (i\<lparr>iv_uses_remaining := iv_uses_remaining i - 1\<rparr>), r2)"
proof -
  let ?m = "al_insert (iv_secret i) i (li_inner r)"
  have "persist L ok (r\<lparr>li_inner := ?m\<rparr>) = (Inr u, r1)"
    using assms(6) by (auto simp: mint_def Let_def split: prod.splits sum.splits)
  then have f: "f = file_image L ?m" using assms(5,7) by (auto simp: persist_Inr split: if_splits)
  have k: "keyed ?m" by (rule keyed_insert [OF assms(2,3)])
  then have "file_holds L f ?m" by (simp add: file_holds_def f)
  from load_holds(1) [OF assms(1) this]
  have "li_inner (li_load L ok' f now) = filter (\<lambda>(_, j). now \<le> iv_expires_at_epoch j) ?m" .
  moreover have "map_of ?m (iv_secret i) = Some i" by (simp add: alist_simps)
  then have "(iv_secret i, i) \<in> set (filter (\<lambda>(_, j). now \<le> iv_expires_at_epoch j) ?m)"
    using assms(8) by (auto dest: map_of_SomeD)
  moreover have "distinct (al_keys (filter (\<lambda>(_, j). now \<le> iv_expires_at_epoch j) ?m))"
    using keyed_filter [OF k] by (simp add: keyed_def)
  ultimately have "map_of (li_inner (li_load L ok' f now)) (iv_secret i) = Some i"
    by (metis (no_types, lifting) map_of_is_SomeI)
  from redeem_live [OF this assms(10,4)] show ?thesis by blast
qed

theorem minted_invite_survives_restart_witness:
  "\<exists>r2. try_redeem demo_libs True
       (li_load demo_libs False (file_image demo_libs [(replicate 32 7, demo_invite)]) 50) (replicate 32 7) 60 =
     (RedeemOk (demo_invite\<lparr>iv_uses_remaining := 1\<rparr>), r2)"
proof -
  have "\<exists>r2. try_redeem demo_libs True
       (li_load demo_libs False (file_image demo_libs [(replicate 32 7, demo_invite)]) 50) (iv_secret demo_invite) 60 =
     (RedeemOk (demo_invite\<lparr>iv_uses_remaining := iv_uses_remaining demo_invite - 1\<rparr>), r2)"
    by (rule minted_invite_survives_restart [OF demo_json_text _ _ _ _ demo_mint]) (simp_all add: demo_registry_def)
  then show ?thesis by simp
qed

subsection \<open>The line\<close>

lemma scheme_simps [simp]:
  "strip_prefix INVITE_SCHEME (ENROLL_SCHEME @ x) = None" "\<not> starts_with (INVITE_SCHEME @ x) ENROLL_SCHEME"
  by (simp_all add: strip_prefix_def INVITE_SCHEME_def ENROLL_SCHEME_def)

lemma invite_line_decodes:
  assumes "b32_roundtrip L" "json_text_roundtrip L" "invite_ok i"
  shows "invite_decode L (invite_encode L i) = Inr (i\<lparr>iv_peer_nickname := None\<rparr>)"
proof -
  let ?w = "i\<lparr>iv_peer_nickname := None\<rparr>"
  have "invite_ok ?w" using assms(3) by (simp add: invite_ok_def)
  then have "json_from_slice L (json_to_vec L (invite_to_value ?w)) = Some (invite_to_value ?w)"
    "invite_from_value (invite_to_value ?w) = Some ?w"
    using assms(2) invite_printable invite_depth by (auto simp: JSON_MAX_DEPTH_def json_text_roundtrip_def invite_value_roundtrip)
  then show ?thesis
    using assms(1) by (auto simp: invite_decode_def invite_encode_def Let_def b32_roundtrip_def)
qed

text \<open>
  The line carries the invite and nothing private: decoding the line of an invite gives the invite
  back without the inviter's own name for its redeemer, and a line that decodes at all was offered
  under the scheme of the ceremony it asks for, which the pre-screen reads off the line.
\<close>

theorem invite_line_roundtrip:
  assumes "b32_roundtrip L" "json_text_roundtrip L" "invite_ok i"
  shows "invite_decode L (invite_encode L i) = Inr (i\<lparr>iv_peer_nickname := None\<rparr>) \<and>
     is_enrollment_line (invite_encode L i) = iv_as_self i \<and>
     (\<forall>line j. invite_decode L line = Inr j \<longrightarrow> iv_as_self j = is_enrollment_line line)"
proof -
  have "is_enrollment_line (invite_encode L i) = iv_as_self i"
    by (simp add: is_enrollment_line_def invite_encode_def Let_def)
  moreover have "iv_as_self j = is_enrollment_line line" if "invite_decode L line = Inr j" for line j
    using that by (auto simp: invite_decode_def is_enrollment_line_def result_simps split: if_splits)
  ultimately show ?thesis using invite_line_decodes [OF assms] by blast
qed

theorem invite_line_roundtrip_witness:
  "invite_decode demo_libs (invite_encode demo_libs demo_invite) = Inr (demo_invite\<lparr>iv_peer_nickname := None\<rparr>)"
  using invite_line_roundtrip [OF demo_b32 demo_json_text demo_invite_fields(1)] by blast

end
