(* ===== verification/Pairing_Props.thy ===== *)
theory Pairing_Props
  imports Pair_Verbs Access_Props Invite_Props
begin

text \<open>
  The theorems about the pairing ceremony: what it takes to get a row in the other side's store, what
  a refusal reveals, what a device attested by its user key receives, and that a ceremony that
  succeeds leaves both nodes admitting each other.
\<close>

subsection \<open>The effect of the inviter's handler on its store\<close>

lemma grant_ephemeral_all_keeps:
  "grant_ephemeral_all d p svcs c = (c', d') \<Longrightarrow>
   dm_store d' = dm_store d \<and> dm_roster d' = dm_roster d \<and> dm_registry d' = dm_registry d"
proof (induction svcs arbitrary: d c)
  case (Cons svc svcs)
  obtain m d1 where g: "grant_ephemeral d svc p = (m, d1)" by fastforce
  then show ?case using Cons.IH [of d1] Cons.prems grant_ephemeral_effect(7,8,9) [OF g] by simp
qed simp

lemma reload_keeps:
  "reload_services_from_disk E d = (r, d') \<Longrightarrow>
   dm_store d' = dm_store d \<and> dm_roster d' = dm_roster d \<and> dm_registry d' = dm_registry d"
  by (auto simp: reload_services_from_disk_def split: option.splits)

lemma grant_keeps:
  assumes "grant_service_access E ok d p svcs = (r, d')"
  shows "dm_store d' = dm_store d \<and> dm_roster d' = dm_roster d \<and> dm_registry d' = dm_registry d"
proof (cases "append_allow_to_config (ae_toml E) ok (dm_config d) p svcs")
  case (Inl e)
  then show ?thesis using assms by (auto simp: grant_service_access_def write_config_def)
next
  case (Inr fc)
  obtain f c where fc: "fc = (f, c)" by fastforce
  obtain c' d2 where g: "grant_ephemeral_all (d\<lparr>dm_config := f\<rparr>) p svcs c = (c', d2)" by fastforce
  then show ?thesis
    using assms Inr grant_ephemeral_all_keeps [OF g] reload_keeps [of E d2 r d']
    by (auto simp: grant_service_access_def write_config_def fc split: if_splits)
qed

lemma node_grant_keeps:
  assumes "node_grant E ok p svcs n = (r, n')"
  shows "pn_store n' = pn_store n \<and> pn_invites n' = pn_invites n \<and> pn_endpoint_id n' = pn_endpoint_id n \<and>
    pn_sent n' = pn_sent n \<and> dm_roster (pn_daemon n') = dm_roster (pn_daemon n)"
  using assms grant_keeps [of E ok "pn_daemon n" p svcs]
  by (auto simp: node_grant_def split: prod.splits sum.splits)

lemma lift_pair_Inr [simp]: "lift_pair r = Inr x \<longleftrightarrow> r = Inr x"
  by (cases r) (auto simp: lift_pair_def)

lemma surfaces_keep [simp]:
  "pn_daemon (record_pairing p n) = pn_daemon n" "pn_daemon (audit_trust e t n) = pn_daemon n"
  "pn_invites (record_pairing p n) = pn_invites n" "pn_invites (audit_trust e t n) = pn_invites n"
  "pn_endpoint_id (record_pairing p n) = pn_endpoint_id n" "pn_endpoint_id (audit_trust e t n) = pn_endpoint_id n"
  "pn_sent (record_pairing p n) = pn_sent n" "pn_sent (audit_trust e t n) = pn_sent n"
  by (simp_all add: record_pairing_def audit_trust_def)

lemma with_store_fields [simp]:
  "pn_store (with_store s n) = s" "pn_invites (with_store s n) = pn_invites n"
  "pn_endpoint_id (with_store s n) = pn_endpoint_id n" "pn_recent (with_store s n) = pn_recent n"
  "pn_sent (with_store s n) = pn_sent n"
  by (simp_all add: with_store_def)

text \<open>Every branch either leaves the store alone or adds one row, the row of the authenticated endpoint.\<close>

lemma attestation_effect:
  assumes "handle_attestation L io ctx tls hello n = (r, n')"
  shows "pn_daemon n' = pn_daemon n \<or>
    (\<exists>plan entry. attestation_decision L hello tls ctx (pn_store n) = Inr plan \<and>
       store_add (pn_store n) entry = Inr (pn_store n') \<and> pe_endpoint_id entry = tls \<and>
       pe_user_id entry = Some (ap_user_id plan) \<and> pe_services entry = ap_services plan \<and>
       pn_daemon n' = (pn_daemon n)\<lparr>dm_store := pn_store n'\<rparr>)"
proof (cases "attestation_decision L hello tls ctx (pn_store n)")
  case (Inl e)
  then show ?thesis using assms by (simp add: handle_attestation_def)
next
  case (Inr plan)
  show ?thesis
  proof (cases "store_resolve (pn_store n) tls")
    case (Inl e)
    then show ?thesis using assms Inr by (auto simp: handle_attestation_def lift_pair_def)
  next
    case (Inr prior)
    define entry where "entry = \<lparr>pe_endpoint_id = tls, pe_nickname = ap_nickname plan, pe_services = ap_services plan,
        pe_paired_at = (case Option.bind prior pe_paired_at of Some t \<Rightarrow> Some t
                        | None \<Rightarrow> Some (show_nat (unat (io_later io)))),
        pe_user_id = Some (ap_user_id plan), pe_last_addr = Option.bind prior pe_last_addr\<rparr>"
    have "pn_daemon n' = pn_daemon n \<or> store_add (pn_store n) entry = Inr (pn_store n') \<and>
        pn_daemon n' = (pn_daemon n)\<lparr>dm_store := pn_store n'\<rparr>"
      using assms Inr \<open>attestation_decision L hello tls ctx (pn_store n) = Inr plan\<close>
      by (auto simp: handle_attestation_def lift_pair_def node_store_add_def entry_def [symmetric]
          with_store_def split: sum.splits)
    then show ?thesis using \<open>attestation_decision L hello tls ctx (pn_store n) = Inr plan\<close>
      by (auto simp: entry_def)
  qed
qed

lemma enroll_keeps: "enroll_device L io ctx tls hello i n = (r, n') \<Longrightarrow> pn_daemon n' = pn_daemon n"
  by (auto simp: enroll_device_def Let_def split: option.splits sum.splits)

lemma admit_effect:
  assumes "admit_redeemer L E io ctx tls hello i n = (r, n')"
  shows "pn_daemon n' = pn_daemon n \<or>
    (\<exists>existing entry. store_resolve (pn_store n) tls = Inr existing \<and>
       entry = redeemer_entry L io tls hello (effective_redeemer_nickname (iv_peer_nickname i) (rh_redeemer_nickname hello)) existing \<and>
       (\<forall>uid. pe_user_id entry = Some uid \<longrightarrow> \<not> is_user_revoked (pn_store n) uid) \<and>
       store_add (pn_store n) entry = Inr (pn_store n'))"
proof -
  let ?claimed = "effective_redeemer_nickname (iv_peer_nickname i) (rh_redeemer_nickname hello)"
  show ?thesis
  proof (cases "resolve_and_check_collision (pn_store n) ?claimed tls")
    case (Inl e)
    then show ?thesis using assms by (auto simp: admit_redeemer_def lift_pair_def)
  next
    case (Inr ec)
    obtain existing collides where ec: "ec = (existing, collides)" by fastforce
    have ex: "store_resolve (pn_store n) tls = Inr existing"
      using Inr by (auto simp: ec resolve_and_check_collision_def result_simps split: if_splits)
    define entry where "entry = redeemer_entry L io tls hello ?claimed existing"
    show ?thesis
    proof (cases "collides \<or> (case pe_user_id entry of Some uid \<Rightarrow> is_user_revoked (pn_store n) uid | None \<Rightarrow> False)")
      case True
      then show ?thesis using assms Inr
        by (auto simp: admit_redeemer_def lift_pair_def ec Let_def entry_def split: if_splits)
    next
      case False
      have "pn_daemon n' = pn_daemon n \<or> store_add (pn_store n) entry = Inr (pn_store n')"
      proof (cases "store_add (pn_store n) entry")
        case (Inl e)
        then show ?thesis using assms Inr False
          by (auto simp: admit_redeemer_def lift_pair_def ec Let_def entry_def [symmetric] node_store_add_def)
      next
        case (Inr s)
        obtain g n2 where g: "node_grant E (io_config_ok io) (entry_principal L entry) (iv_services i) (with_store s n) = (g, n2)"
          by fastforce
        have "pn_store n' = pn_store n2"
          using assms Inr False \<open>resolve_and_check_collision (pn_store n) ?claimed tls = Inr ec\<close> g
          by (cases g) (auto simp: admit_redeemer_def lift_pair_def ec Let_def entry_def [symmetric] node_store_add_def)
        then show ?thesis using node_grant_keeps [OF g] Inr by simp
      qed
      then show ?thesis using ex False by (auto simp: entry_def split: option.splits)
    qed
  qed
qed

lemma node_store_add_keeps: "node_store_add e n = (r, n') \<Longrightarrow> pn_invites n' = pn_invites n"
  by (auto simp: node_store_add_def split: sum.splits)

text \<open>Whatever becomes of the row, the spent use stays spent.\<close>

lemma admit_invites:
  assumes "admit_redeemer L E io ctx tls hello i n = (r, n')"
  shows "pn_invites n' = pn_invites n"
  using assms
  by (auto simp: admit_redeemer_def lift_pair_def Let_def sbind_def split: sum.splits prod.splits if_splits
      dest!: node_store_add_keeps node_grant_keeps)

lemma redeem_secret_keeps:
  "redeem_secret L io hello n = (x, n1) \<Longrightarrow> \<exists>r. n1 = n\<lparr>pn_invites := r\<rparr> \<and>
     try_redeem L (io_invites_ok io) (pn_invites n) (rh_secret hello) (io_now io) = (x, r)"
  by (auto simp: redeem_secret_def split: prod.splits)

lemma handle_cases:
  assumes "handle_inviter_side L E io ctx tls frame n = (r, n')"
  obtains
    (unchanged) "pn_daemon n' = pn_daemon n"
  | (attested) hello where "Option.bind frame hello_from_value = Some hello" "rh_redeemer_id hello = tls" "rh_attest hello"
      "handle_attestation L io ctx tls hello n = (r, n')"
  | (redeemed) hello i n1 where "Option.bind frame hello_from_value = Some hello" "rh_redeemer_id hello = tls"
      "\<not> rh_attest hello" "collision_precheck io tls hello n = Inr None"
      "redeem_secret L io hello n = (RedeemOk i, n1)" "\<not> iv_as_self i"
      "admit_redeemer L E io ctx tls hello i n1 = (r, n')"
proof (cases "Option.bind frame hello_from_value")
  case None
  then show thesis using assms by (intro unchanged) (auto simp: handle_inviter_side_def)
next
  case (Some hello)
  show thesis
  proof (cases "rh_redeemer_id hello = tls \<and> \<not> rh_attest hello \<and> collision_precheck io tls hello n = Inr None")
    case True
    obtain x n1 where x: "redeem_secret L io hello n = (x, n1)" by fastforce
    then have d: "pn_daemon n1 = pn_daemon n" using redeem_secret_keeps by fastforce
    show thesis
    proof (cases "\<exists>i. x = RedeemOk i \<and> \<not> iv_as_self i")
      case t: True
      then show thesis using assms x True Some by (auto simp: handle_inviter_side_def intro: redeemed)
    next
      case False
      have "pn_daemon n' = pn_daemon n1"
        using assms x True False Some
        by (auto simp: handle_inviter_side_def split: redeem.splits if_splits dest: enroll_keeps)
      then show thesis using d by (intro unchanged) simp
    qed
  next
    case False
    show thesis
    proof (cases "rh_redeemer_id hello = tls \<and> rh_attest hello")
      case True
      then show thesis using assms Some by (intro attested [of hello]) (auto simp: handle_inviter_side_def)
    next
      case f: False
      then show thesis using assms Some False
        by (cases "collision_precheck io tls hello n")
          (auto simp: handle_inviter_side_def split: if_splits option.splits intro: unchanged)
    qed
  qed
qed

text \<open>What an accepted attestation proved.\<close>

lemma attestation_Inr:
  assumes "attestation_decision L hello tls ctx store = Inr plan"
  shows "ic_admit_attested ctx \<and> \<not> store_is_revoked store tls \<and> \<not> is_user_revoked store (ap_user_id plan) \<and>
    verified_user_id L (rh_user_pk hello) (rh_binding_sig hello) tls = Some (ap_user_id plan) \<and>
    (\<exists>e es. entries_for_user store (ap_user_id plan) = Inr (e # es) \<and> ap_nickname plan = pe_nickname e \<and>
       ap_services plan = foldl (\<lambda>ss e. filter (\<lambda>s. s \<in> set (pe_services e)) ss) (pe_services e) es)"
  using assms
  by (auto simp: attestation_decision_def verified_user_id_def split: if_splits option.splits sum.splits list.splits)

lemma set_foldl_filter: "set (foldl (\<lambda>ss e. filter (\<lambda>s. s \<in> set (f e)) ss) ss es) = {s \<in> set ss. \<forall>e \<in> set es. s \<in> set (f e)}"
  by (induction es arbitrary: ss) auto

lemma entries_for_user_set:
  "entries_for_user store uid = Inr es \<Longrightarrow> set es = {e \<in> set (readable (ps_peers store)). pe_user_id e = Some uid}"
  by (auto simp: entries_for_user_def store_list_def result_simps)

lemma store_add_row: "store_add s e = Inr s' \<Longrightarrow> map_of (ps_peers s') = (map_of (ps_peers s))(pe_endpoint_id e \<mapsto> Row e)"
  by (auto simp: store_add_def result_simps alist_simps)


subsection \<open>What a refusal reveals\<close>

text \<open>
  No redemption oracle: a well-formed redemption of a secret that no live invite carries is answered
  with the same bytes whatever the reason, never issued, expired, or already spent and gone, whatever
  the disk does and whatever the caller claims to be called, and it changes nothing but the registry
  of invites (where an expired one is dropped).
\<close>

theorem dead_secret_reveals_nothing:
  assumes "Option.bind frame hello_from_value = Some hello" "rh_redeemer_id hello = tls" "\<not> rh_attest hello"
    "\<forall>i. map_of (li_inner (pn_invites n)) (rh_secret hello) = Some i \<longrightarrow> iv_expires_at_epoch i < io_now io"
  shows "\<exists>invites. handle_inviter_side L E io ctx tls frame n =
     (Inr (ReplyRefused REASON_REFUSED None), n\<lparr>pn_invites := invites\<rparr>)"
proof -
  let ?m = "map_of (li_inner (pn_invites n)) (rh_secret hello)"
  have "\<not> peek_is_self (pn_invites n) (rh_secret hello) (io_now io)"
    "peek_live_alias (pn_invites n) (rh_secret hello) (io_now io) = None"
    using assms(4) by (cases ?m; auto simp: peek_is_self_def peek_live_alias_def)+
  then have pre: "collision_precheck io tls hello n = Inr None" by (simp add: collision_precheck_def)
  obtain x r where t: "try_redeem L (io_invites_ok io) (pn_invites n) (rh_secret hello) (io_now io) = (x, r)" by fastforce
  have "x \<in> {Unknown, Expired, Unavailable}"
    using t assms(4) by (cases rule: try_redeem_cases) auto
  then show ?thesis using assms(1-3) pre t
    by (auto simp: handle_inviter_side_def redeem_secret_def)
qed

subsection \<open>A ceremony that succeeds\<close>

lemma pair_Inr_cases:
  assumes "sbind m f = (Inr y, n')"
  obtains x n1 where "m = (Inr x, n1)" "f x n1 = (Inr y, n')"
  using assms unfolding sbind_eq_Inr by blast

lemma lift_redeem_Inr [simp]: "lift_redeem r = Inr x \<longleftrightarrow> r = Inr x"
  by (cases r) (auto simp: lift_redeem_def)

lemma redeem_checks_Inr:
  assumes "redeem_checks L io net as_nickname self_enroll line store = Inr i"
  shows "invite_decode L line = Inr i \<and> io_now io \<le> iv_expires_at_epoch i \<and>
    (\<not> iv_as_self i \<longrightarrow> \<not> is_refused store (iv_inviter_id i)) \<and> (iv_as_self i \<longrightarrow> self_enroll = AllowEnroll)"
  using assms
  by (cases self_enroll)
    (auto simp: redeem_checks_def result_simps split: sum.splits if_splits option.splits)

lemma send_hello_fields [simp]:
  "pn_daemon (send_hello to h n) = pn_daemon n" "pn_invites (send_hello to h n) = pn_invites n"
  "pn_endpoint_id (send_hello to h n) = pn_endpoint_id n" "pn_sent (send_hello to h n) = pn_sent n @ [(to, h)]"
  by (simp_all add: send_hello_def)

lemma redeem_exchange_Inr:
  assumes "redeem_exchange net i n = (Inr (inviter_id, nickname, user_pk, sig), n1)"
  shows "dl_connect net (iv_inviter_id i) = Some (iv_inviter_id i) \<and>
    dl_exchange net (node_hello n (iv_secret i)) = ReplyFrame (ReplyOk inviter_id nickname user_pk sig) \<and>
    n1 = send_hello (iv_inviter_id i) (node_hello n (iv_secret i)) n"
  using assms
  by (auto simp: redeem_exchange_def refusal_error_def Let_def split: option.splits if_splits exchange_result.splits pair_reply.splits)

lemma finish_pairing_Inr:
  assumes "finish_pairing L io hook local_name i uid n = (Inr res, n')"
  obtains existing s where "\<forall>u. uid = Some u \<longrightarrow> \<not> is_user_revoked (pn_store n) u"
    "store_resolve (pn_store n) (iv_inviter_id i) = Inr existing"
    "store_add (pn_store n) (inviter_entry io local_name i uid existing) = Inr s"
    "n' = (case hook of Some h \<Rightarrow> h (case uid of Some u \<Rightarrow> u | None \<Rightarrow> principal L (iv_inviter_id i)) (with_store s n)
           | None \<Rightarrow> with_store s n)"
    "pr_sas_code res = short_auth_code L (iv_inviter_id i) (pn_endpoint_id n) (iv_secret i)"
    "pr_peer_nickname res = local_name" "pr_services res = iv_services i" "pr_peer_user_id res = uid"
proof -
  have u: "\<not> (case uid of Some uid \<Rightarrow> is_user_revoked (pn_store n) uid | None \<Rightarrow> False)"
    using assms by (auto simp: finish_pairing_def Let_def split: if_splits)
  obtain existing where e: "store_resolve (pn_store n) (iv_inviter_id i) = Inr existing"
    using assms u by (cases "store_resolve (pn_store n) (iv_inviter_id i)") (auto simp: finish_pairing_def lift_redeem_def)
  obtain s where a: "store_add (pn_store n) (inviter_entry io local_name i uid existing) = Inr s"
    using assms u e by (cases "store_add (pn_store n) (inviter_entry io local_name i uid existing)")
      (auto simp: finish_pairing_def lift_redeem_def)
  show thesis
    by (rule that [OF _ e a]) (use assms u e a in \<open>auto simp: finish_pairing_def lift_redeem_def Let_def split: option.splits\<close>)
qed

text \<open>The inviter's half, when it answers \<open>Ok\<close> to a redemption.\<close>

lemma admit_Ok:
  assumes "admit_redeemer L E io ctx tls hello i n = (Inr (ReplyOk a b c d), n')"
  obtains existing entry s d' where "store_resolve (pn_store n) tls = Inr existing"
    "entry = redeemer_entry L io tls hello (effective_redeemer_nickname (iv_peer_nickname i) (rh_redeemer_nickname hello)) existing"
    "\<forall>uid. pe_user_id entry = Some uid \<longrightarrow> \<not> is_user_revoked (pn_store n) uid"
    "store_add (pn_store n) entry = Inr s"
    "grant_service_access E (io_config_ok io) ((pn_daemon n)\<lparr>dm_store := s\<rparr>) (entry_principal L entry) (iv_services i) = (Inr (), d')"
    "pn_daemon n' = d'"
    "\<exists>rs. pn_recent n' = rs @ [\<lparr>rp_peer_nickname = pe_nickname entry,
        rp_sas_code = short_auth_code L (iv_inviter_id i) tls (rh_secret hello),
        rp_paired_at_epoch = io_now io, rp_self_enroll = False\<rparr>]"
proof -
  let ?claimed = "effective_redeemer_nickname (iv_peer_nickname i) (rh_redeemer_nickname hello)"
  obtain existing collides where rc: "resolve_and_check_collision (pn_store n) ?claimed tls = Inr (existing, collides)"
    using assms by (cases "resolve_and_check_collision (pn_store n) ?claimed tls") (auto simp: admit_redeemer_def lift_pair_def)
  have ex: "store_resolve (pn_store n) tls = Inr existing"
    using rc by (auto simp: resolve_and_check_collision_def result_simps split: if_splits)
  have c: "\<not> collides"
    using assms rc by (auto simp: admit_redeemer_def lift_pair_def collision_reply_def collision_refusal_def Let_def split: option.splits if_splits)
  define entry where "entry = redeemer_entry L io tls hello ?claimed existing"
  have u: "\<not> (case pe_user_id entry of Some uid \<Rightarrow> is_user_revoked (pn_store n) uid | None \<Rightarrow> False)"
    using assms rc c by (auto simp: admit_redeemer_def lift_pair_def Let_def entry_def split: if_splits)
  obtain s where s: "store_add (pn_store n) entry = Inr s"
    using assms rc c u by (cases "store_add (pn_store n) entry")
      (auto simp: admit_redeemer_def lift_pair_def Let_def node_store_add_def simp flip: entry_def)
  obtain g n2 where g: "node_grant E (io_config_ok io) (entry_principal L entry) (iv_services i) (with_store s n) = (g, n2)"
    by fastforce
  have g': "g = Inr ()" and n': "n' = record_pairing \<lparr>rp_peer_nickname = pe_nickname entry,
        rp_sas_code = short_auth_code L (iv_inviter_id i) tls (rh_secret hello),
        rp_paired_at_epoch = io_now io, rp_self_enroll = False\<rparr> n2"
    using assms rc c u s g by (cases g; auto simp: admit_redeemer_def lift_pair_def Let_def node_store_add_def simp flip: entry_def)+
  obtain d' where d': "grant_service_access E (io_config_ok io) ((pn_daemon n)\<lparr>dm_store := s\<rparr>) (entry_principal L entry) (iv_services i) = (Inr (), d')"
      "pn_daemon n2 = d'"
    using g g' by (auto simp: node_grant_def with_store_def split: prod.splits sum.splits)
  show thesis
    by (rule that [OF ex entry_def _ s d'(1)]) (use u n' d'(2) in \<open>auto simp: record_pairing_def split: option.splits\<close>)
qed

lemma handle_Ok:
  assumes "handle_inviter_side L E io ctx tls frame n = (Inr (ReplyOk a b c d), n')"
    and "Option.bind frame hello_from_value = Some hello" and "\<not> rh_attest hello"
    and "map_of (li_inner (pn_invites n)) (rh_secret hello) = Some i" and "\<not> iv_as_self i"
  obtains r where "rh_redeemer_id hello = tls" "admit_redeemer L E io ctx tls hello (i\<lparr>iv_uses_remaining := iv_uses_remaining i - 1\<rparr>)
     (n\<lparr>pn_invites := r\<rparr>) = (Inr (ReplyOk a b c d), n')"
proof -
  have cr: "collision_reply al hello survived \<noteq> ReplyOk a b c d" for al survived
    by (simp add: collision_reply_def collision_refusal_def split: option.splits)
  have tls: "rh_redeemer_id hello = tls" using assms(1,2) by (auto simp: handle_inviter_side_def split: if_splits)
  obtain x n1 where x: "redeem_secret L io hello n = (x, n1)" by fastforce
  have pre: "collision_precheck io tls hello n = Inr None"
  proof (cases "collision_precheck io tls hello n")
    case (Inl e)
    then show ?thesis using assms(1-3) tls by (auto simp: handle_inviter_side_def)
  next
    case (Inr reply)
    have "reply = None \<or> (\<exists>alias. reply = Some (collision_reply alias hello True))"
      using Inr by (auto simp: collision_precheck_def result_simps split: if_splits option.splits)
    then show ?thesis using Inr assms(1-3) tls cr by (auto simp: handle_inviter_side_def)
  qed
  from redeem_secret_keeps [OF x] obtain r where n1: "n1 = n\<lparr>pn_invites := r\<rparr>"
    and t: "try_redeem L (io_invites_ok io) (pn_invites n) (rh_secret hello) (io_now io) = (x, r)" by blast
  from t show thesis
  proof (cases rule: try_redeem_cases)
    case (redeemed i' u)
    then have "x = RedeemOk (i\<lparr>iv_uses_remaining := iv_uses_remaining i - 1\<rparr>)" using assms(4) by simp
    then show thesis using assms(1-3,5) tls pre x n1 by (intro that [OF tls]) (auto simp: handle_inviter_side_def)
  qed (use assms tls pre x n1 in \<open>auto simp: handle_inviter_side_def\<close>)
qed

lemma admitted_after_add:
  assumes "store_add s e = Inr s'" "\<not> store_is_revoked s (pe_endpoint_id e)"
    "\<forall>uid. pe_user_id e = Some uid \<longrightarrow> \<not> is_user_revoked s uid"
  shows "store_admission s' (pe_endpoint_id e) = Admitted e"
proof -
  have "\<not> ps_fails s REVOKED" "map_of (ps_revoked s) (pe_endpoint_id e) = None"
    using assms(2) by (auto simp: store_is_revoked_def revoked_entry_of_def with_table_def split: option.splits row.splits if_splits)
  moreover have "\<not> ps_fails s REVOKED_USERS \<and> map_of (ps_revoked_users s) uid = None" if "pe_user_id e = Some uid" for uid
    using assms(3) that by (auto simp: is_user_revoked_def with_table_def split: if_splits)
  ultimately show ?thesis using assms(1)
    unfolding admission_Admitted by (auto simp: store_add_def result_simps alist_simps)
qed

lemma resolved_row: "store_resolve s e = Inr (Some x) \<Longrightarrow> map_of (ps_peers s) e = Some (Row x)"
  by (auto simp: store_resolve_def result_simps split: option.splits row.splits)

text \<open>The redeemer's half.\<close>

lemma pair_verb_Inr:
  assumes "pair_verb L E io net adopt_ok line nick se n = (Inr res, n')"
    and "invite_decode L line = Inr i" and "\<not> iv_as_self i"
  obtains inviter_id nickname user_pk sig entry where
    "dl_exchange net (node_hello n (iv_secret i)) = ReplyFrame (ReplyOk inviter_id nickname user_pk sig)"
    "store_admission (pn_store n') (iv_inviter_id i) = Admitted entry" "set (iv_services i) \<subseteq> set (pe_services entry)"
    "pe_nickname entry = pr_peer_nickname res" "pr_services res = iv_services i"
    "\<exists>alias. validated_alias nick = Inr alias \<and> pr_peer_nickname res = (case alias of Some x \<Rightarrow> x | None \<Rightarrow> iv_nickname i)"
    "pr_sas_code res = short_auth_code L (iv_inviter_id i) (pn_endpoint_id n) (iv_secret i)"
proof -
  obtain nick' where v: "validated_alias nick = Inr nick'" and
    r: "redeem_invite L io net adopt_ok (Some (node_grant_back E (io_config_ok io))) line nick' se n = (Inr res, n')"
    using assms(1) unfolding pair_verb_def sbind_eq_Inr by auto
  let ?local = "case nick' of Some a \<Rightarrow> a | None \<Rightarrow> iv_nickname i"
  obtain i' where c: "redeem_checks L io net nick' se line (pn_store n) = Inr i'"
    using r by (cases "redeem_checks L io net nick' se line (pn_store n)") (auto simp: redeem_invite_def)
  have i': "i' = i" and nr: "\<not> is_refused (pn_store n) (iv_inviter_id i)"
    using redeem_checks_Inr [OF c] assms(2,3) by auto
  obtain inviter_id nickname user_pk sig n1 where ex: "redeem_exchange net i n = (Inr (inviter_id, nickname, user_pk, sig), n1)"
    using r c by (cases "redeem_exchange net i n"; cases "fst (redeem_exchange net i n)") (auto simp: redeem_invite_def i' Let_def)
  have n1: "n1 = send_hello (iv_inviter_id i) (node_hello n (iv_secret i)) n" using redeem_exchange_Inr [OF ex] by simp
  let ?uid = "verified_user_id L user_pk sig (iv_inviter_id i)"
  have f: "finish_pairing L io (Some (node_grant_back E (io_config_ok io))) ?local i ?uid n1 = (Inr res, n')"
    using r c ex assms(3) by (simp add: redeem_invite_def i' Let_def)
  from f show thesis
  proof (rule finish_pairing_Inr)
    fix existing s
    assume a: "\<forall>u. ?uid = Some u \<longrightarrow> \<not> is_user_revoked (pn_store n1) u"
      "store_resolve (pn_store n1) (iv_inviter_id i) = Inr existing"
      "store_add (pn_store n1) (inviter_entry io ?local i ?uid existing) = Inr s"
      "n' = (case Some (node_grant_back E (io_config_ok io)) of
           Some h \<Rightarrow> h (case ?uid of Some u \<Rightarrow> u | None \<Rightarrow> principal L (iv_inviter_id i)) (with_store s n1)
         | None \<Rightarrow> with_store s n1)"
      "pr_sas_code res = short_auth_code L (iv_inviter_id i) (pn_endpoint_id n1) (iv_secret i)"
      "pr_peer_nickname res = ?local" "pr_services res = iv_services i"
    let ?e = "inviter_entry io ?local i ?uid existing"
    have e: "pe_endpoint_id ?e = iv_inviter_id i" "pe_nickname ?e = ?local" "set (iv_services i) \<subseteq> set (pe_services ?e)"
      by (auto simp: inviter_entry_def set_foldl_push_new)
    have "\<not> store_is_revoked (pn_store n1) (pe_endpoint_id ?e)" using nr e(1) by (simp add: n1 is_refused_iff)
    moreover have "\<not> is_user_revoked (pn_store n1) u" if "pe_user_id ?e = Some u" for u
    proof (cases ?uid)
      case None
      then have "Option.bind existing pe_user_id = Some u" using that by (simp add: inviter_entry_def)
      then obtain x where "existing = Some x" "pe_user_id x = Some u" by (cases existing) auto
      then show ?thesis using nr resolved_row a(2) by (auto simp: n1 is_refused_iff)
    next
      case (Some u')
      then show ?thesis using that a(1) by (auto simp: inviter_entry_def)
    qed
    ultimately have "store_admission s (iv_inviter_id i) = Admitted ?e"
      using admitted_after_add [OF a(3)] e(1) by auto
    moreover have "pn_store n' = s"
      using a(4) node_grant_keeps [of E "io_config_ok io" _ _ "with_store s n1"]
      by (auto simp: node_grant_back_def Let_def split: option.splits) (metis prod.collapse with_store_fields(1))+
    ultimately show thesis
      using that [of inviter_id nickname user_pk sig ?e] redeem_exchange_Inr [OF ex] a(5-7) e v by (simp add: n1)
  qed
qed

lemma synced_store: "synced E d \<Longrightarrow> synced E (d\<lparr>dm_store := s\<rparr>)"
proof -
  assume "synced E d"
  moreover have "eff_allow E (d\<lparr>dm_store := s\<rparr>) x = eff_allow E d x" for x
    by (simp add: eff_allow_def split: option.split)
  ultimately show ?thesis by (simp add: synced_def live_allow_def)
qed

text \<open>What the pairing grant leaves in force, and live.\<close>

lemma granted_in_force:
  assumes "toml_ok (ae_toml E)" "maps_ok d" "load E (dm_config d) \<noteq> None"
    and "grant_service_access E ok (d\<lparr>dm_store := st\<rparr>) p svcs = (Inr (), d')"
  shows "\<forall>s \<in> set svcs. (map_of (dm_ephemeral d) s \<noteq> None \<or> servable E (dm_config d) s) \<longrightarrow>
       p \<in> set (eff_allow E d' s) \<and>
       (synced E d \<or> (\<exists>s \<in> set svcs. (map_of (dm_ephemeral d) s \<noteq> None \<or> servable E (dm_config d) s) \<and> p \<notin> set (eff_allow E d s)) \<longrightarrow>
        p \<in> set (live_allow d' s))"
proof -
  let ?d = "d\<lparr>dm_store := st\<rparr>"
  have ef: "eff_allow E ?d = eff_allow E d" by (rule ext) (simp add: eff_allow_def split: option.split)
  have m: "maps_ok ?d" "load E (dm_config ?d) \<noteq> None" using assms(2,3) by (simp_all add: maps_ok_def)
  note g = grant_service_access_any [OF assms(1) m assms(4), unfolded ef]
  have live: "synced E d'"
    if "synced E d \<or> (\<exists>s \<in> set svcs. (map_of (dm_ephemeral d) s \<noteq> None \<or> servable E (dm_config d) s) \<and> p \<notin> set (eff_allow E d s))"
    using that
  proof
    assume "synced E d"
    then show ?thesis using grant_service_access_effect [OF assms(1) synced_store assms(4)] by blast
  next
    assume "\<exists>s \<in> set svcs. (map_of (dm_ephemeral d) s \<noteq> None \<or> servable E (dm_config d) s) \<and> p \<notin> set (eff_allow E d s)"
    then obtain s where s: "s \<in> set svcs" "map_of (dm_ephemeral d) s \<noteq> None \<or> servable E (dm_config d) s"
      "p \<notin> set (eff_allow E d s)" by blast
    then have "p \<in> set (eff_allow E d' s)" using g [of s] by (auto simp: push_new_def)
    then have "d' \<noteq> ?d" using s(3) ef by auto
    then show ?thesis using g by blast
  qed
  have "p \<in> set (eff_allow E d' s)"
    if "s \<in> set svcs" "map_of (dm_ephemeral d) s \<noteq> None \<or> servable E (dm_config d) s" for s
    using g [of s] that by (auto simp: push_new_def)
  then show ?thesis using live synced_live by metis
qed

text \<open>The invite in the inviter's registry is the one the line carries.\<close>

definition registered :: "pair_node \<Rightarrow> invite \<Rightarrow> bool" where
  "registered n i \<longleftrightarrow> (\<exists>j. map_of (li_inner (pn_invites n)) (iv_secret i) = Some j \<and> i = j\<lparr>iv_peer_nickname := None\<rparr>)"

text \<open>What the inviter's node answers to a redeemer's frame, as the redeemer sees it.\<close>

definition answers :: "libs \<Rightarrow> access_env \<Rightarrow> pair_io \<Rightarrow> pair_node \<Rightarrow> bytes \<Rightarrow> redeemer_hello \<Rightarrow> exchange_result" where
  "answers L E io n tls hello = (case handle_inviter_side L E io (node_inviter_ctx n) tls (Some (hello_to_value hello)) n of
     (Inr reply, _) \<Rightarrow> ReplyFrame reply | (Inl _, _) \<Rightarrow> ExchangeFailed)"


text \<open>An instance of the ceremony: Alice serves \<open>kb\<close>, Bob redeems her invite.\<close>

definition demo_alice :: pair_node where
  "demo_alice = \<lparr>pn_daemon = (demo_daemon [''b64u:bob''])\<lparr>dm_store := store_open (\<lambda>_. False)\<rparr>,
     pn_invites = \<lparr>li_inner = [(replicate 32 7, demo_invite)], li_file = None\<rparr>,
     pn_boot_binding = None, pn_imported_binding = None, pn_adopted_binding = None, pn_user_key = None,
     pn_recent = [], pn_audit = [], pn_endpoint_id = replicate 32 1, pn_self_nickname = ''alice'', pn_admit_attested = False, pn_sent = []\<rparr>"

definition demo_bob :: pair_node where
  "demo_bob = \<lparr>pn_daemon = (demo_daemon [])\<lparr>dm_store := store_open (\<lambda>_. False)\<rparr>, pn_invites = li_new,
     pn_boot_binding = None, pn_imported_binding = None, pn_adopted_binding = None, pn_user_key = None,
     pn_recent = [], pn_audit = [], pn_endpoint_id = replicate 32 9, pn_self_nickname = ''bob'', pn_admit_attested = False, pn_sent = []\<rparr>"

definition demo_io :: pair_io where
  "demo_io = \<lparr>io_now = 50, io_later = 51, io_config_ok = True, io_invites_ok = True, io_observed = None\<rparr>"

lemma demo_io_fields [simp]:
  "io_now demo_io = 50" "io_config_ok demo_io = True" "io_invites_ok demo_io = True"
  by (simp_all add: demo_io_def)

definition demo_net :: pair_dial where
  "demo_net = \<lparr>dl_addr_id = (\<lambda>_. Some (replicate 32 1)), dl_connect = Some,
     dl_exchange = answers demo_libs demo_env demo_io demo_alice (replicate 32 9)\<rparr>"

lemma demo_append_any:
  assumes "p \<noteq> ''b64u:bob''"
  shows "append_allow_to_config demo_toml True (demo_file (demo_doc [''b64u:bob''])) p [''kb''] =
     Inr (demo_file (demo_doc [''b64u:bob'', p]), True)"
proof -
  have "append_allow_edit p [''kb''] (demo_doc [''b64u:bob'']) = Inr (demo_doc [''b64u:bob'', p], True)"
    using assms by (simp add: append_allow_edit_def services_table_def demo_doc_def append_allow_one_def)
  then show ?thesis
    using demo_rmw [of "demo_doc [''b64u:bob'']" _ "demo_doc [''b64u:bob'', p]" True] by (simp add: append_allow_to_config_def)
qed

lemma demo_access_grant:
  assumes "p \<noteq> ''b64u:bob''" "dm_config d = demo_file (demo_doc [''b64u:bob''])"
    "dm_ephemeral d = dm_ephemeral (demo_daemon [])"
  shows "\<exists>d'. grant_service_access demo_env True d p [''kb''] = (Inr (), d')"
proof -
  let ?d = "d\<lparr>dm_config := demo_file (demo_doc [''b64u:bob'', p])\<rparr>"
  obtain d' where "reload_services_from_disk demo_env ?d = (Inr (), d')"
    using demo_reload_any [of ?d] by auto
  then show ?thesis using assms
    by (simp add: grant_service_access_def demo_append_any write_config_def grant_ephemeral_def)
qed

lemma demo_collision: "resolve_and_check_collision (store_open (\<lambda>_. False)) x e = Inr (None, False)"
  by (simp add: resolve_and_check_collision_def store_resolve_def store_open_def with_table_def
      nickname_collision_def store_list_def)

lemma demo_alice_answers:
  "\<exists>user_pk sig. answers demo_libs demo_env demo_io demo_alice (replicate 32 9) (node_hello demo_bob (replicate 32 7)) =
     ReplyFrame (ReplyOk (replicate 32 1) ''alice'' user_pk sig)"
proof -
  let ?h = "node_hello demo_bob (replicate 32 7)" and ?e = "replicate 32 (9 :: byte)"
  have h: "hello_from_value (hello_to_value ?h) = Some ?h"
    by (intro hello_roundtrip) (simp_all add: node_hello_def demo_bob_def)
  have hf: "rh_redeemer_id ?h = ?e" "\<not> rh_attest ?h" "rh_secret ?h = replicate 32 7" "rh_user_pk ?h = None" "rh_binding_sig ?h = None"
    by (simp_all add: node_hello_def demo_bob_def node_self_binding_def)
  have st: "pn_store demo_alice = store_open (\<lambda>_. False)" by (simp add: demo_alice_def)
  have pre: "collision_precheck demo_io ?e ?h demo_alice = Inr None"
    by (simp add: collision_precheck_def hf st demo_collision lift_pair_def)
      (simp add: demo_alice_def peek_live_alias_def peek_is_self_def demo_collision)
  let ?i = "demo_invite\<lparr>iv_uses_remaining := 1\<rparr>"
  obtain r where red: "redeem_secret demo_libs demo_io ?h demo_alice = (RedeemOk ?i, demo_alice\<lparr>pn_invites := r\<rparr>)"
    by (simp add: redeem_secret_def hf)
      (simp add: demo_alice_def try_redeem_def checked_pred_def persist_def Let_def)
  define entry where "entry = redeemer_entry demo_libs demo_io ?e ?h
    (effective_redeemer_nickname (Some ''bob'') (rh_redeemer_nickname ?h)) None"
  have u: "pe_user_id entry = None" by (simp add: entry_def redeemer_entry_def hf verified_user_id_def)
  obtain s where s: "store_add (store_open (\<lambda>_. False)) entry = Inr s"
    by (simp add: store_add_def with_table_def store_open_def)
  have "entry_principal demo_libs entry \<noteq> ''b64u:bob''" by (simp add: entry_principal_def u principal_def)
  then obtain d' where g: "grant_service_access demo_env True ((pn_daemon demo_alice)\<lparr>dm_store := s\<rparr>)
      (entry_principal demo_libs entry) [''kb''] = (Inr (), d')"
    using demo_access_grant [of "entry_principal demo_libs entry" "(pn_daemon demo_alice)\<lparr>dm_store := s\<rparr>"]
    by (auto simp: demo_alice_def)
  have "\<exists>n'. admit_redeemer demo_libs demo_env demo_io (node_inviter_ctx demo_alice) ?e ?h ?i (demo_alice\<lparr>pn_invites := r\<rparr>) =
     (Inr (ReplyOk (iv_inviter_id ?i) (iv_nickname ?i) (map_option sb_user_pk (ic_self_binding (node_inviter_ctx demo_alice)))
        (map_option sb_sig (ic_self_binding (node_inviter_ctx demo_alice)))), n')"
    using s g u
    by (simp add: admit_redeemer_def st demo_collision lift_pair_def Let_def node_store_add_def node_grant_def with_store_def
        flip: entry_def)
  then show ?thesis using h hf pre red
    by (auto simp: answers_def handle_inviter_side_def)
qed

lemma demo_line: "invite_decode demo_libs (invite_encode demo_libs demo_invite) = Inr (demo_invite\<lparr>iv_peer_nickname := None\<rparr>)"
  by (rule invite_line_decodes) simp_all

lemma demo_ceremony:
  "\<exists>res b'. pair_verb demo_libs demo_env demo_io demo_net True (invite_encode demo_libs demo_invite) None RefuseEnroll demo_bob = (Inr res, b')"
proof -
  let ?i = "demo_invite\<lparr>iv_peer_nickname := None\<rparr>" and ?s = "store_open (\<lambda>_. False)"
  have st: "pn_store demo_bob = ?s" by (simp add: demo_bob_def)
  have empty: "store_list ?s = Inr []" "\<not> is_refused ?s e" "store_resolve ?s e = Inr None" for e
    by (simp_all add: store_list_def store_open_def with_table_def store_resolve_def is_refused_def store_admission_def decide_admission_def)
  have "nickname_squat ?s x e = Inr False" for x e by (simp add: nickname_squat_def empty)
  then have c: "redeem_checks demo_libs demo_io demo_net None RefuseEnroll (invite_encode demo_libs demo_invite) ?s = Inr ?i"
    by (simp add: redeem_checks_def demo_line empty lift_redeem_def demo_net_def)
  obtain user_pk sig where ex: "dl_exchange demo_net (node_hello demo_bob (iv_secret ?i)) = ReplyFrame (ReplyOk (replicate 32 1) ''alice'' user_pk sig)"
    using demo_alice_answers by (auto simp: demo_net_def)
  then obtain n1 where e: "redeem_exchange demo_net ?i demo_bob = (Inr (replicate 32 1, ''alice'', user_pk, sig), n1)"
    and st1: "pn_store n1 = ?s"
    using st by (simp add: redeem_exchange_def demo_net_def Let_def)
  have "\<not> is_user_revoked ?s uid" for uid by (simp add: is_user_revoked_def with_table_def store_open_def)
  then have "\<exists>res b'. finish_pairing demo_libs demo_io (Some h) x ?i uid n1 = (Inr res, b')" for h x uid
    by (cases uid) (simp_all add: finish_pairing_def st1 empty lift_redeem_def store_add_def with_table_def Let_def,
      simp_all add: store_open_def)
  then show ?thesis
    by (simp add: pair_verb_def validated_alias_def redeem_invite_def st c e Let_def)
qed


lemma demo_hello_decodes:
  "Option.bind (Some (hello_to_value (node_hello demo_bob (replicate 32 b)))) hello_from_value = Some (node_hello demo_bob (replicate 32 b))"
  using hello_roundtrip [of "node_hello demo_bob (replicate 32 b)"] by (simp add: node_hello_def demo_bob_def)

lemma demo_alice_row:
  "\<exists>reply a'. handle_inviter_side demo_libs demo_env demo_io (node_inviter_ctx demo_alice) (replicate 32 9)
      (Some (hello_to_value (node_hello demo_bob (replicate 32 7)))) demo_alice = (Inr reply, a') \<and>
     map_of (ps_peers (pn_store a')) (replicate 32 9) \<noteq> map_of (ps_peers (pn_store demo_alice)) (replicate 32 9)"
proof -
  let ?h = "node_hello demo_bob (replicate 32 7)" and ?e = "replicate 32 (9 :: byte)"
  obtain c d a' where h: "handle_inviter_side demo_libs demo_env demo_io (node_inviter_ctx demo_alice) ?e (Some (hello_to_value ?h)) demo_alice =
      (Inr (ReplyOk (replicate 32 1) ''alice'' c d), a')"
    using demo_alice_answers by (auto simp: answers_def split: prod.splits sum.splits)
  have "\<not> rh_attest ?h" "map_of (li_inner (pn_invites demo_alice)) (rh_secret ?h) = Some demo_invite"
    by (simp_all add: node_hello_def demo_alice_def)
  from handle_Ok [OF h demo_hello_decodes this] obtain r where
    "admit_redeemer demo_libs demo_env demo_io (node_inviter_ctx demo_alice) ?e ?h (demo_invite\<lparr>iv_uses_remaining := iv_uses_remaining demo_invite - 1\<rparr>)
      (demo_alice\<lparr>pn_invites := r\<rparr>) = (Inr (ReplyOk (replicate 32 1) ''alice'' c d), a')" by auto
  then have "\<exists>row. map_of (ps_peers (pn_store a')) ?e = Some (Row row)"
  proof (rule admit_Ok, goal_cases)
    case (1 existing entry s d')
    then have "pn_store a' = s" "pe_endpoint_id entry = ?e" using grant_keeps [OF 1(5)] by (auto simp: redeemer_entry_def)
    then show ?case using store_add_row [OF 1(4)] by auto
  qed
  moreover have "map_of (ps_peers (pn_store demo_alice)) ?e = None" by (simp add: demo_alice_def store_open_def)
  ultimately show ?thesis using h by fastforce
qed


theorem dead_secret_reveals_nothing_witness:
  "\<exists>invites. handle_inviter_side demo_libs demo_env demo_io (node_inviter_ctx demo_alice) (replicate 32 9)
      (Some (hello_to_value (node_hello demo_bob (replicate 32 8)))) demo_alice =
     (Inr (ReplyRefused REASON_REFUSED None), demo_alice\<lparr>pn_invites := invites\<rparr>)"
  by (rule dead_secret_reveals_nothing [OF demo_hello_decodes])
    (auto simp: node_hello_def demo_bob_def demo_alice_def)

subsection \<open>Attested devices\<close>

text \<open>
  A device admitted on its user key alone never arrives with more than the person already had
  everywhere: the row an attestation writes lists exactly the services every row of that person
  lists, and the attestation grants nothing, the configuration, the ephemeral allow lists and the
  live registry staying as they were.
\<close>

theorem attested_device_gets_least:
  assumes "handle_attestation L io ctx tls hello n = (r, n')"
    "map_of (ps_peers (pn_store n')) tls \<noteq> map_of (ps_peers (pn_store n)) tls"
  shows "\<exists>row uid. map_of (ps_peers (pn_store n')) tls = Some (Row row) \<and> pe_user_id row = Some uid \<and>
     verified_user_id L (rh_user_pk hello) (rh_binding_sig hello) tls = Some uid \<and>
     (\<exists>k \<in> set (readable (ps_peers (pn_store n))). pe_user_id k = Some uid) \<and>
     set (pe_services row) = (\<Inter>k \<in> {k \<in> set (readable (ps_peers (pn_store n))). pe_user_id k = Some uid}. set (pe_services k)) \<and>
     pn_daemon n' = (pn_daemon n)\<lparr>dm_store := pn_store n'\<rparr>"
proof -
  from attestation_effect [OF assms(1)] assms(2) obtain plan entry where
    p: "attestation_decision L hello tls ctx (pn_store n) = Inr plan" "store_add (pn_store n) entry = Inr (pn_store n')"
      "pe_endpoint_id entry = tls" "pe_user_id entry = Some (ap_user_id plan)" "pe_services entry = ap_services plan"
      "pn_daemon n' = (pn_daemon n)\<lparr>dm_store := pn_store n'\<rparr>" by fastforce
  note a = attestation_Inr [OF p(1)]
  from a obtain k es where k: "entries_for_user (pn_store n) (ap_user_id plan) = Inr (k # es)"
    "ap_services plan = foldl (\<lambda>ss e. filter (\<lambda>s. s \<in> set (pe_services e)) ss) (pe_services k) es" by blast
  have m: "{x \<in> set (readable (ps_peers (pn_store n))). pe_user_id x = Some (ap_user_id plan)} = set (k # es)"
    using entries_for_user_set [OF k(1)] by simp
  have "set (pe_services entry) = (\<Inter>x \<in> set (k # es). set (pe_services x))"
    unfolding p(5) k(2) set_foldl_filter by auto
  moreover have "\<exists>x \<in> set (readable (ps_peers (pn_store n))). pe_user_id x = Some (ap_user_id plan)" using m by auto
  ultimately show ?thesis using p(3,4,6) store_add_row [OF p(2)] a unfolding m [symmetric] by auto
qed

text \<open>An instance: Alice already knows Carol's phone and admits attested devices.\<close>

definition demo_phone :: peer_entry where
  "demo_phone = \<lparr>pe_endpoint_id = replicate 32 1, pe_nickname = ''carol'', pe_services = [''kb''], pe_paired_at = Some ''50'',
     pe_user_id = Some (user_id demo_libs (replicate 32 5)), pe_last_addr = None\<rparr>"

definition demo_host :: pair_node where
  "demo_host = demo_alice\<lparr>pn_daemon := (pn_daemon demo_alice)\<lparr>dm_store :=
     (store_open (\<lambda>_. False))\<lparr>ps_peers := [(replicate 32 1, Row demo_phone)]\<rparr>\<rparr>, pn_admit_attested := True\<rparr>"

definition demo_attest :: redeemer_hello where
  "demo_attest = (case present demo_libs (replicate 32 5) (replicate 32 9) of (pk, sig) \<Rightarrow>
     \<lparr>rh_secret = replicate 32 0, rh_redeemer_id = replicate 32 9, rh_redeemer_nickname = ''laptop'',
      rh_user_pk = Some pk, rh_binding_sig = Some sig, rh_attest = True\<rparr>)"

lemma demo_attested:
  "\<exists>r n'. handle_attestation demo_libs demo_io (node_inviter_ctx demo_host) (replicate 32 9) demo_attest demo_host = (r, n') \<and>
     map_of (ps_peers (pn_store n')) (replicate 32 9) \<noteq> map_of (ps_peers (pn_store demo_host)) (replicate 32 9)"
proof -
  have v: "verify_presented demo_libs (fst (present demo_libs (replicate 32 5) (replicate 32 9)))
      (snd (present demo_libs (replicate 32 5) (replicate 32 9))) (replicate 32 9) = Inr (user_id demo_libs (replicate 32 5))"
    by (rule present_verifies) simp_all
  have st: "pn_store demo_host = (store_open (\<lambda>_. False))\<lparr>ps_peers := [(replicate 32 1, Row demo_phone)]\<rparr>"
    by (simp add: demo_host_def)
  have h: "rh_user_pk demo_attest = Some (fst (present demo_libs (replicate 32 5) (replicate 32 9)))"
    "rh_binding_sig demo_attest = Some (snd (present demo_libs (replicate 32 5) (replicate 32 9)))"
    by (simp_all add: demo_attest_def split: prod.splits)
  have c: "ic_admit_attested (node_inviter_ctx demo_host)" by (simp add: node_inviter_ctx_def demo_host_def)
  have d: "attestation_decision demo_libs demo_attest (replicate 32 9) (node_inviter_ctx demo_host) (pn_store demo_host) =
     Inr \<lparr>ap_user_id = user_id demo_libs (replicate 32 5), ap_nickname = ''carol'', ap_services = [''kb'']\<rparr>"
    by (simp add: attestation_decision_def c h v st store_is_revoked_def revoked_entry_of_def is_user_revoked_def with_table_def
        store_open_def entries_for_user_def store_list_def demo_phone_def)
  have r: "store_resolve (pn_store demo_host) (replicate 32 9) = Inr None"
    by (simp add: st store_resolve_def with_table_def store_open_def)
  show ?thesis
    by (simp add: handle_attestation_def d r lift_pair_def node_store_add_def store_add_def with_table_def alist_simps)
      (simp add: st store_open_def alist_simps)
qed

theorem attested_device_gets_least_witness:
  "\<exists>r n' row. handle_attestation demo_libs demo_io (node_inviter_ctx demo_host) (replicate 32 9) demo_attest demo_host = (r, n') \<and>
     map_of (ps_peers (pn_store n')) (replicate 32 9) = Some (Row row) \<and> set (pe_services row) = {''kb''}"
proof -
  obtain r n' where a: "handle_attestation demo_libs demo_io (node_inviter_ctx demo_host) (replicate 32 9) demo_attest demo_host = (r, n')"
    "map_of (ps_peers (pn_store n')) (replicate 32 9) \<noteq> map_of (ps_peers (pn_store demo_host)) (replicate 32 9)"
    using demo_attested by blast
  have "readable (ps_peers (pn_store demo_host)) = [demo_phone]" by (simp add: demo_host_def)
  with attested_device_gets_least [OF a] a(1) show ?thesis
    by (auto simp: demo_phone_def)
qed

end
