(* ===== verification/Verb_Props.thy ===== *)
theory Verb_Props
  imports Pairing_Props
begin

text \<open>
  The theorems about the two control verbs of pairing: what an invite that was minted may do, and to
  whom the secret of an invite is shown.
\<close>

lemma node_grant_sent: "pn_sent (snd (node_grant E ok p svcs n)) = pn_sent n"
  using node_grant_keeps [of E ok p svcs n] by (cases "node_grant E ok p svcs n") simp

lemma grant_back_sent: "pn_sent (node_grant_back E ok p n) = pn_sent n"
  by (simp add: node_grant_back_def Let_def node_grant_sent split: option.split)

lemma finish_self_enroll_sent:
  "finish_self_enroll L adopt_ok local_name i user_pk sig n = (r, n') \<Longrightarrow> pn_sent n' = pn_sent n"
  by (auto simp: finish_self_enroll_def adopt_binding_def split: option.splits sum.splits if_splits)

lemma finish_pairing_sent:
  "finish_pairing L io (Some (node_grant_back E ok)) local_name i uid n = (r, n') \<Longrightarrow> pn_sent n' = pn_sent n"
  by (auto simp: finish_pairing_def lift_redeem_def Let_def grant_back_sent split: sum.splits if_splits option.splits)

text \<open>
  C28. What redeeming a pairing line sends, and to whom: at most one frame, and a frame only on a connection
  on which the endpoint the line names has authenticated itself, after the line decoded, was found not
  to be expired, and, unless it is a self-enrollment this caller asked for, that endpoint was found
  neither revoked here nor to take a name already in use. The frame carries the secret of that
  line. Where nothing is sent, the redemption fails and changes nothing: so when the dial reaches
  another endpoint than the one named, the secret has not left this node.
\<close>

theorem secret_only_to_invited:
  assumes "pair_verb L E io net adopt_ok line as_nickname self_enroll n = (r, n')"
  shows "\<exists>sent. pn_sent n' = pn_sent n @ sent \<and>
    (sent = [] \<and> n' = n \<and> (\<exists>e. r = Inl e) \<or>
     (\<exists>i. invite_decode L line = Inr i \<and> sent = [(iv_inviter_id i, node_hello n (iv_secret i))] \<and>
        dl_connect net (iv_inviter_id i) = Some (iv_inviter_id i) \<and> io_now io \<le> iv_expires_at_epoch i \<and>
        (if iv_as_self i then self_enroll = AllowEnroll
         else \<not> is_refused (pn_store n) (iv_inviter_id i) \<and>
           (\<exists>alias. validated_alias as_nickname = Inr alias \<and>
              nickname_squat (pn_store n) (case alias of Some a \<Rightarrow> a | None \<Rightarrow> iv_nickname i) (iv_inviter_id i) = Inr False))))"
proof -
  let ?hook = "Some (node_grant_back E (io_config_ok io))"
  show ?thesis
  proof (cases "validated_alias as_nickname")
    case (Inl e)
    then show ?thesis using assms by (auto simp: pair_verb_def)
  next
    case al: (Inr al)
    then have v: "redeem_invite L io net adopt_ok ?hook line al self_enroll n = (r, n')" using assms by (simp add: pair_verb_def)
    show ?thesis
    proof (cases "redeem_checks L io net al self_enroll line (pn_store n)")
      case (Inl e)
      then show ?thesis using v by (auto simp: redeem_invite_def)
    next
      case c: (Inr i)
      note ck = redeem_checks_Inr [OF c]
      have squat: "nickname_squat (pn_store n) (case al of Some a \<Rightarrow> a | None \<Rightarrow> iv_nickname i) (iv_inviter_id i) = Inr False"
        if "\<not> iv_as_self i"
        using c that by (auto simp: redeem_checks_def result_simps split: sum.splits if_splits option.splits)
      show ?thesis
      proof (cases "dl_connect net (iv_inviter_id i) = Some (iv_inviter_id i)")
        case False
        then obtain e where "redeem_exchange net i n = (Inl e, n)"
          by (cases "dl_connect net (iv_inviter_id i)") (auto simp: redeem_exchange_def)
        then show ?thesis using v c by (auto simp: redeem_invite_def Let_def)
      next
        case True
        let ?n1 = "send_hello (iv_inviter_id i) (node_hello n (iv_secret i)) n"
        obtain x where x: "redeem_exchange net i n = (x, ?n1)"
          using True by (simp add: redeem_exchange_def Let_def)
        have "pn_sent n' = pn_sent ?n1"
        proof (cases x)
          case (Inl e)
          then show ?thesis using v c x by (simp add: redeem_invite_def Let_def)
        next
          case (Inr y)
          then show ?thesis
            using v c x finish_self_enroll_sent [of L adopt_ok _ i _ _ ?n1 r n'] finish_pairing_sent [of L io E _ _ i _ ?n1 r n']
            by (cases y; cases "iv_as_self i") (simp_all add: redeem_invite_def Let_def)
        qed
        then show ?thesis using True ck squat al by auto
      qed
    qed
  qed
qed

text \<open>The witness: a completed ceremony sends its one frame, and a dial that reaches a stranger sends none.\<close>

theorem secret_only_to_invited_witness:
  "(\<exists>res b'. pair_verb demo_libs demo_env demo_io demo_net True (invite_encode demo_libs demo_invite) None RefuseEnroll demo_bob =
       (Inr res, b') \<and> pn_sent b' = [(replicate 32 1, node_hello demo_bob (replicate 32 7))]) \<and>
   (\<exists>e. pair_verb demo_libs demo_env demo_io (demo_net\<lparr>dl_connect := \<lambda>_. Some (replicate 32 66)\<rparr>) True
      (invite_encode demo_libs demo_invite) None RefuseEnroll demo_bob = (Inl e, demo_bob))"
proof
  have n: "pn_sent demo_bob = []" by (simp add: demo_bob_def)
  obtain res b' where ok: "pair_verb demo_libs demo_env demo_io demo_net True (invite_encode demo_libs demo_invite) None RefuseEnroll demo_bob = (Inr res, b')"
    using demo_ceremony by blast
  with secret_only_to_invited [OF ok] n
  show "\<exists>res b'. pair_verb demo_libs demo_env demo_io demo_net True (invite_encode demo_libs demo_invite) None RefuseEnroll demo_bob =
       (Inr res, b') \<and> pn_sent b' = [(replicate 32 1, node_hello demo_bob (replicate 32 7))]"
    by (auto simp: demo_line)
  obtain r n' where p: "pair_verb demo_libs demo_env demo_io (demo_net\<lparr>dl_connect := \<lambda>_. Some (replicate 32 66)\<rparr>) True
      (invite_encode demo_libs demo_invite) None RefuseEnroll demo_bob = (r, n')" by fastforce
  have "replicate 32 (66 :: byte) \<noteq> replicate 32 1" by simp
  with secret_only_to_invited [OF p] p
  show "\<exists>e. pair_verb demo_libs demo_env demo_io (demo_net\<lparr>dl_connect := \<lambda>_. Some (replicate 32 66)\<rparr>) True
      (invite_encode demo_libs demo_invite) None RefuseEnroll demo_bob = (Inl e, demo_bob)"
    by (auto simp: demo_line)
qed

subsection \<open>Minting\<close>

lemma set_push_distinct:
  "set (foldl (\<lambda>out name. if name \<in> set out then out else out @ [name]) acc ns) = set acc \<union> set ns"
  by (induction ns arbitrary: acc) auto

lemma set_known_services:
  "set (known_service_names cfg ephemeral) \<subseteq> fst ` set (cfg_services cfg) \<union> fst ` set ephemeral"
  by (auto simp: known_service_names_def set_push_distinct)

lemma unregistered_None: "unregistered_service_error req served = None \<longleftrightarrow> set req \<subseteq> set served"
  by (auto simp: unregistered_service_error_def Let_def filter_empty_conv)

lemma one_u32: "m \<noteq> 0 \<Longrightarrow> (1 :: u32) \<le> m" "m \<noteq> 0 \<Longrightarrow> \<not> 1 < m \<Longrightarrow> m = (1 :: u32)"
  by (simp_all add: word_less_nat_alt word_le_nat_alt word_unat_eq_iff)

definition many_uses :: "mint_request \<Rightarrow> bool" where
  "many_uses q \<longleftrightarrow> (case mq_max_uses q of Some m \<Rightarrow> m > 1 | None \<Rightarrow> False)"

lemma mint_checks_Inr:
  assumes "mint_checks E q n = Inr (uses_remaining, alias)"
  shows "uses_remaining = (case mq_max_uses q of None \<Rightarrow> 1 | Some m \<Rightarrow> min m MAX_INVITE_USES)" "mq_max_uses q \<noteq> Some 0"
    "mq_as_self q \<Longrightarrow> \<not> many_uses q \<and> mq_services q = [] \<and> pn_adopted_binding n = None \<and> node_self_binding n \<noteq> None"
    "alias \<noteq> None \<Longrightarrow> \<not> many_uses q \<and> alias \<notin> (\<lambda>e. Some (pe_nickname e)) ` set (readable (ps_peers (pn_store n)))"
    "\<not> mq_as_self q \<Longrightarrow> mq_services q \<noteq> []"
    "\<exists>cfg. load E (dm_config (pn_daemon n)) = Some cfg \<and>
       set (mq_services q) \<subseteq> fst ` set (cfg_services cfg) \<union> fst ` set (dm_ephemeral (pn_daemon n))"
proof -
  let ?uses = "case mq_max_uses q of None \<Rightarrow> Inr 1 | Some m \<Rightarrow> if m = 0 then Inl InvalidParams else Inr (min m MAX_INVITE_USES)"
  obtain u where u: "?uses = Inr u" using assms unfolding mint_checks_def by (cases ?uses) simp_all
  note step = assms [unfolded mint_checks_def u rbind_simps, folded many_uses_def]
  have s: "mq_as_self q \<longrightarrow> \<not> many_uses q \<and> mq_services q = [] \<and> pn_adopted_binding n = None \<and> node_self_binding n \<noteq> None"
    using step by (auto split: if_split_asm)
  then have self: "\<not> (mq_as_self q \<and> many_uses q)" "\<not> (mq_as_self q \<and> mq_services q \<noteq> [])"
    "\<not> (mq_as_self q \<and> pn_adopted_binding n \<noteq> None)" "\<not> (mq_as_self q \<and> node_self_binding n = None)" by simp_all
  note step = step [unfolded if_not_P [OF self(1)] if_not_P [OF self(2)] if_not_P [OF self(3)] if_not_P [OF self(4)]]
  obtain al where al: "validated_alias (mq_peer_nickname q) = Inr al" using step by (auto simp: result_simps)
  note step = step [unfolded al rbind_simps]
  have many: "\<not> (al \<noteq> None \<and> many_uses q)" using step by (auto split: if_split_asm)
  note step = step [unfolded if_not_P [OF many]]
  let ?taken = "case al of None \<Rightarrow> Inr False
    | Some alias \<Rightarrow> lift_redeem (rbind (store_list (pn_store n)) (\<lambda>es. Inr (\<exists>e \<in> set es. pe_nickname e = alias)))"
  have taken: "?taken = Inr False" using step by (cases ?taken) (auto split: if_split_asm)
  note step = step [unfolded taken rbind_simps if_False]
  obtain cfg where cfg: "load E (dm_config (pn_daemon n)) = Some cfg" using step by (auto split: if_split_asm option.split_asm)
  note step = step [unfolded cfg option.case]
  have r: "unregistered_service_error (mq_services q) (known_service_names cfg (dm_ephemeral (pn_daemon n))) = None"
    "mq_services q \<noteq> [] \<or> mq_as_self q" "uses_remaining = u" "alias = al"
    using step by (auto split: if_split_asm option.split_asm)
  show "uses_remaining = (case mq_max_uses q of None \<Rightarrow> 1 | Some m \<Rightarrow> min m MAX_INVITE_USES)" "mq_max_uses q \<noteq> Some 0"
    using u r(3) by (auto split: option.splits if_split_asm)
  show "mq_as_self q \<Longrightarrow> \<not> many_uses q \<and> mq_services q = [] \<and> pn_adopted_binding n = None \<and> node_self_binding n \<noteq> None"
    using s by blast
  show "alias \<noteq> None \<Longrightarrow> \<not> many_uses q \<and> alias \<notin> (\<lambda>e. Some (pe_nickname e)) ` set (readable (ps_peers (pn_store n)))"
    using many taken r(4) by (auto simp: result_simps store_list_def split: option.splits)
  show "\<not> mq_as_self q \<Longrightarrow> mq_services q \<noteq> []" using r(2) by blast
  show "\<exists>cfg. load E (dm_config (pn_daemon n)) = Some cfg \<and>
       set (mq_services q) \<subseteq> fst ` set (cfg_services cfg) \<union> fst ` set (dm_ephemeral (pn_daemon n))"
    using r(1) cfg set_known_services [of cfg "dm_ephemeral (pn_daemon n)"] unfolding unregistered_None by blast
qed

lemma mint_checks_uses:
  assumes "mint_checks E q n = Inr (u, alias)"
  shows "1 \<le> u" "u \<le> 64" "mq_max_uses q = Some m \<Longrightarrow> u \<le> m" "\<not> many_uses q \<Longrightarrow> u = 1"
proof -
  have m: "min (1 :: u32) 64 = 1" by simp
  show "1 \<le> u" "u \<le> 64" "mq_max_uses q = Some m \<Longrightarrow> u \<le> m"
    using mint_checks_Inr(1,2) [OF assms] by (auto simp: MAX_INVITE_USES_def one_u32 split: option.splits)
  show "\<not> many_uses q \<Longrightarrow> u = 1"
    using mint_checks_Inr(1,2) [OF assms] m
    by (cases "mq_max_uses q") (auto simp: MAX_INVITE_USES_def many_uses_def dest!: one_u32(2))
qed

lemma mint_stores:
  "mint L ok r i = (Inr u, r') \<Longrightarrow> map_of (li_inner r') (iv_secret i) = Some i"
  by (cases "li_file r") (auto simp: mint_def persist_def Let_def alist_simps split: sum.splits prod.splits)

text \<open>
  What a mint hands out: an invite between 1 and 64 uses, no more than were asked for, good for 24
  hours, registered under its secret, whose services are all served by this node; a self-enrollment
  invite has one use, carries no service, and is only minted by a node that holds its own identity;
  an invite that gives the redeemer a name has one use, and no stored peer has that name.
\<close>

theorem minted_invite_is_bounded:
  assumes "mint_invite L E reap_ok ok secret addr_json now q n = (Inr (line, expires, uses_left), n')"
  shows "\<exists>i cfg. line = invite_encode L i \<and> map_of (li_inner (pn_invites n')) secret = Some i \<and>
    n' = n\<lparr>pn_invites := pn_invites n'\<rparr> \<and> iv_inviter_id i = pn_endpoint_id n \<and>
    expires = now + 86400 \<and> iv_expires_at_epoch i = expires \<and> iv_uses_remaining i = uses_left \<and>
    1 \<le> uses_left \<and> uses_left \<le> 64 \<and> (\<forall>m. mq_max_uses q = Some m \<longrightarrow> uses_left \<le> m) \<and>
    load E (dm_config (pn_daemon n)) = Some cfg \<and>
    set (iv_services i) \<subseteq> fst ` set (cfg_services cfg) \<union> fst ` set (dm_ephemeral (pn_daemon n)) \<and>
    (if iv_as_self i then uses_left = 1 \<and> iv_services i = [] \<and> pn_adopted_binding n = None \<and> node_self_binding n \<noteq> None
     else iv_services i \<noteq> []) \<and>
    (iv_peer_nickname i \<noteq> None \<longrightarrow> uses_left = 1 \<and>
       iv_peer_nickname i \<notin> (\<lambda>e. Some (pe_nickname e)) ` set (readable (ps_peers (pn_store n))))"
proof -
  obtain u al where c: "mint_checks E q n = Inr (u, al)"
    using assms by (cases "mint_checks E q n") (auto simp: mint_invite_def)
  let ?i = "minted q u al secret addr_json now n"
  obtain x r' where x: "mint L ok (remove_expired L reap_ok (pn_invites n) now) ?i = (x, r')" by fastforce
  then have r: "mint L ok (remove_expired L reap_ok (pn_invites n) now) ?i = (Inr (), r')"
    and o: "line = invite_encode L ?i" "expires = iv_expires_at_epoch ?i" "uses_left = u" "n' = n\<lparr>pn_invites := r'\<rparr>"
    using assms by (cases x; simp add: mint_invite_def c Let_def)+
  obtain cfg where cfg: "load E (dm_config (pn_daemon n)) = Some cfg"
    "set (mq_services q) \<subseteq> fst ` set (cfg_services cfg) \<union> fst ` set (dm_ephemeral (pn_daemon n))"
    using mint_checks_Inr(6) [OF c] by blast
  have i: "iv_secret ?i = secret" "iv_inviter_id ?i = pn_endpoint_id n" "iv_expires_at_epoch ?i = now + 86400" "iv_uses_remaining ?i = u"
    "iv_services ?i = mq_services q" "iv_as_self ?i = mq_as_self q" "iv_peer_nickname ?i = al"
    by (simp_all add: minted_def INVITE_TTL_SECS_def)
  show ?thesis
  proof (intro exI [of _ ?i] exI [of _ cfg] conjI)
    show "n' = n\<lparr>pn_invites := pn_invites n'\<rparr>" "map_of (li_inner (pn_invites n')) secret = Some ?i"
      using mint_stores [OF r] by (simp_all add: o(4) i(1))
    show "\<forall>m. mq_max_uses q = Some m \<longrightarrow> uses_left \<le> m" "1 \<le> uses_left" "uses_left \<le> 64"
      using mint_checks_uses(1-3) [OF c] by (simp_all add: o(3))
    show "if iv_as_self ?i then uses_left = 1 \<and> iv_services ?i = [] \<and> pn_adopted_binding n = None \<and> node_self_binding n \<noteq> None
      else iv_services ?i \<noteq> []"
      using mint_checks_Inr(3,5) [OF c] mint_checks_uses(4) [OF c] by (cases "mq_as_self q") (simp_all only: i o(3) if_True if_False, blast+)
    show "iv_peer_nickname ?i \<noteq> None \<longrightarrow> uses_left = 1 \<and>
       iv_peer_nickname ?i \<notin> (\<lambda>e. Some (pe_nickname e)) ` set (readable (ps_peers (pn_store n)))"
      using mint_checks_Inr(4) [OF c] mint_checks_uses(4) [OF c] unfolding i o(3) by blast
  qed (use o cfg i in simp_all)
qed

definition demo_request :: mint_request where
  "demo_request = \<lparr>mq_services = [''kb''], mq_app_label = None, mq_max_uses = Some 100, mq_peer_nickname = None, mq_as_self = False\<rparr>"

lemma demo_mint_checks: "mint_checks demo_env demo_request demo_alice = Inr (64, None)"
  by (simp add: mint_checks_def demo_request_def demo_alice_def validated_alias_def demo_load MAX_INVITE_USES_def
      unregistered_service_error_def known_service_names_def backend_result_def)

theorem minted_invite_is_bounded_witness:
  "\<exists>line expires n' i. mint_invite demo_libs demo_env True True (replicate 32 3) ''addr'' 50 demo_request demo_alice =
      (Inr (line, expires, 64), n') \<and> map_of (li_inner (pn_invites n')) (replicate 32 3) = Some i \<and> line = invite_encode demo_libs i"
proof -
  obtain line expires n' where m: "mint_invite demo_libs demo_env True True (replicate 32 3) ''addr'' 50 demo_request demo_alice =
      (Inr (line, expires, 64), n')"
    by (simp add: mint_invite_def demo_mint_checks Let_def)
      (simp add: demo_alice_def mint_def persist_def remove_expired_def Let_def)
  from minted_invite_is_bounded [OF m] m show ?thesis by auto
qed

end
