(* ===== verification/Phrase_Props.thy ===== *)
theory Phrase_Props
  imports Phrase
begin

text \<open>
  The theorems about the words people compare and write down: a recovery phrase is read back to the
  one key it was written for, and a short authentication code commits to both endpoints and the secret.
\<close>

text \<open>
  C29. A recovery phrase, in whatever case, spacing and punctuation it was typed, is accepted exactly
  when it spells the words of the phrase written down for a 32-byte key, and then that key is the
  result; so what \<open>encode\<close> wrote always reads back, and no other text does.
\<close>

theorem phrase_reads_back:
  "phrase_decode L lower p = Inr k \<longleftrightarrow>
   length k = 32 \<and> phrase_words lower p = phrase_words lower (text_of (phrase_encode L k))"
proof -
  have "phrase_words lower (text_of (phrase_encode L k)) = map text_of (key_words L k)"
    unfolding phrase_encode_def by (rule phrase_words_join [OF _ key_words_in]) (simp add: key_words_def)
  then show ?thesis by (simp add: phrase_decode_Inr)
qed

text \<open>
  The short authentication code: both ends hash the same transcript, whichever of them computes
  it; two ceremonies between 32-byte endpoints hash the same transcript only when they join the same
  two endpoints with the same secret; and no such transcript is the text an organisation's
  fingerprint or a join code is computed from.
\<close>

theorem sas_commits_to_the_ceremony:
  assumes "length a = 32" "length b = 32" "length a' = 32" "length b' = 32"
  shows "short_auth_code L a b s = short_auth_code L b a s \<and>
    (sas_transcript a b s = sas_transcript a' b' s' \<longleftrightarrow> {a, b} = {a', b'} \<and> s = s') \<and>
    sas_transcript a b s \<noteq> org_fingerprint_input pk \<and> sas_transcript a b s \<noteq> join_code_input u e"
proof (intro conjI)
  show "short_auth_code L a b s = short_auth_code L b a s" by (simp add: short_auth_code_def sas_sym [of a b s])
qed (rule sas_transcript_inj [OF assms] transcripts_disjoint)+

theorem sas_commits_to_the_ceremony_witness:
  "sas_transcript (replicate 32 1) (replicate 32 2) [3] \<noteq> sas_transcript (replicate 32 2) (replicate 32 4) [3]"
  using sas_commits_to_the_ceremony [of "replicate 32 1" "replicate 32 2" "replicate 32 2" "replicate 32 4" demo_libs "[3]" "[3]"]
  by (auto simp: doubleton_eq_iff)

end
