(* ===== verification/Attest.thy ===== *)
theory Attest
  imports Pair_Verbs
begin

text \<open>
  Device attestation, the dialling side (\<open>AttestOffer\<close> and \<open>attest_to\<close> in
  \<open>node/src/pairing/rendezvous.rs\<close>, the verbs \<open>attest_offer\<close> and \<open>attest_to\<close> in
  \<open>node/src/daemon/handlers.rs\<close>): a device presents its binding to a node that already pairs with
  this person, and stores that node's row. The answering side is \<open>handle_attestation\<close> in \<open>Pairing\<close>.
\<close>

definition ATTEST_SCHEME :: string where "ATTEST_SCHEME = ''mcpmesh-attest:''"

record attest_offer =
  ao_node_id :: bytes
  ao_node_addr_json :: string

definition offer_to_value :: "attest_offer \<Rightarrow> json" where
  "offer_to_value a = JObj [(''node_id'', ser_bytes (ao_node_id a)), (''node_addr_json'', JStr (ao_node_addr_json a))]"

definition offer_from_value :: "json \<Rightarrow> attest_offer option" where
  "offer_from_value v =
     Option.bind (struct_members [''node_id'', ''node_addr_json''] v) (\<lambda>m.
     Option.bind (required m ''node_id'' de_key32) (\<lambda>node_id.
     Option.bind (required m ''node_addr_json'' as_str) (\<lambda>addr.
     Some \<lparr>ao_node_id = node_id, ao_node_addr_json = addr\<rparr>)))"

definition offer_encode :: "libs \<Rightarrow> attest_offer \<Rightarrow> string" where
  "offer_encode L a = ATTEST_SCHEME @ b64_encode L (json_to_vec L (offer_to_value a))"

datatype attest_error =
    NotAnOffer
  | BadBase64
  | MalformedOffer
  | NoUserKey
  | OffererRevoked
  | BadOfferAddress
  | PeerIdMismatch
  | DialFailed
  | NoAttestReply
  | AttestRefused string
  | AttestStore store_error
  | NotAdmitting

definition offer_decode :: "libs \<Rightarrow> string \<Rightarrow> attest_error + attest_offer" where
  "offer_decode L line =
     rbind (ok_or NotAnOffer (strip_prefix ATTEST_SCHEME (str_trim line))) (\<lambda>body.
     rbind (ok_or BadBase64 (b64_decode L body)) (\<lambda>raw.
     ok_or MalformedOffer (Option.bind (json_from_slice L raw) offer_from_value)))"

text \<open>The verb that offers: refused on a node that does not admit attested devices.\<close>

definition attest_offer_verb :: "libs \<Rightarrow> string \<Rightarrow> pair_node \<Rightarrow> attest_error + string" where
  "attest_offer_verb L addr_json n =
     (if pn_admit_attested n
      then Inr (offer_encode L \<lparr>ao_node_id = pn_endpoint_id n, ao_node_addr_json = addr_json\<rparr>)
      else Inl NotAdmitting)"

subsection \<open>Presenting the binding\<close>

definition attest_hello :: "pair_node \<Rightarrow> self_binding \<Rightarrow> redeemer_hello" where
  "attest_hello n b = \<lparr>rh_secret = replicate 32 0, rh_redeemer_id = pn_endpoint_id n, rh_redeemer_nickname = [],
     rh_user_pk = Some (sb_user_pk b), rh_binding_sig = Some (sb_sig b), rh_attest = True\<rparr>"

text \<open>Everything up to the reply: the checks before the dial, the identity reached, the exchange.\<close>

definition attest_exchange ::
  "pair_dial \<Rightarrow> pair_node \<Rightarrow> attest_offer \<Rightarrow> self_binding \<Rightarrow> attest_error + bytes \<times> string \<times> string option \<times> string option" where
  "attest_exchange net n offer b =
     (if is_refused (pn_store n) (ao_node_id offer) then Inl OffererRevoked
      else case dl_addr_id net (ao_node_addr_json offer) of
        None \<Rightarrow> Inl BadOfferAddress
      | Some addr_id \<Rightarrow>
          if addr_id \<noteq> ao_node_id offer then Inl PeerIdMismatch
          else (case dl_connect net (ao_node_id offer) of
            None \<Rightarrow> Inl DialFailed
          | Some remote \<Rightarrow>
              if remote \<noteq> ao_node_id offer then Inl PeerIdMismatch
              else (case dl_exchange net (attest_hello n b) of
                ReplyFrame (ReplyOk peer_id nickname user_pk sig) \<Rightarrow>
                  if peer_id = ao_node_id offer then Inr (peer_id, nickname, user_pk, sig) else Inl PeerIdMismatch
              | ReplyFrame (ReplyRefused reason _) \<Rightarrow> Inl (AttestRefused reason)
              | _ \<Rightarrow> Inl NoAttestReply)))"

definition offerer_entry ::
  "pair_io \<Rightarrow> bytes \<Rightarrow> string \<Rightarrow> string option \<Rightarrow> peer_entry option \<Rightarrow> peer_entry" where
  "offerer_entry io peer_id nickname peer_user_id existing =
     \<lparr>pe_endpoint_id = peer_id, pe_nickname = nickname,
      pe_services = (case existing of Some e \<Rightarrow> pe_services e | None \<Rightarrow> []),
      pe_paired_at = (case Option.bind existing pe_paired_at of Some t \<Rightarrow> Some t
                      | None \<Rightarrow> Some (show_nat (unat (io_later io)))),
      pe_user_id = (case peer_user_id of Some uid \<Rightarrow> Some uid | None \<Rightarrow> Option.bind existing pe_user_id),
      pe_last_addr = merge_hint (io_observed io) (Option.bind existing pe_last_addr)\<rparr>"

definition lift_attest :: "store_error + 'a \<Rightarrow> attest_error + 'a" where
  "lift_attest r = (case r of Inl e \<Rightarrow> Inl (AttestStore e) | Inr x \<Rightarrow> Inr x)"

definition attest_to ::
  "libs \<Rightarrow> pair_io \<Rightarrow> pair_dial \<Rightarrow> string \<Rightarrow> string option \<Rightarrow> pair_node \<Rightarrow> (attest_error + pair_result) \<times> pair_node" where
  "attest_to L io net line nickname_for_peer n =
     sbind (offer_decode L line, n) (\<lambda>offer n.
     sbind (ok_or NoUserKey (node_self_binding n), n) (\<lambda>b n.
     sbind (attest_exchange net n offer b, n) (\<lambda>(peer_id, peer_nickname, peer_pk, peer_sig) n.
     let peer_user_id = verified_user_id L peer_pk peer_sig peer_id
     in sbind (lift_attest (store_resolve (pn_store n) peer_id), n) (\<lambda>existing n.
        let nickname = (case nickname_for_peer of Some a \<Rightarrow> a | None \<Rightarrow>
              (case existing of Some e \<Rightarrow> pe_nickname e | None \<Rightarrow> peer_nickname))
        in case store_add (pn_store n) (offerer_entry io peer_id nickname peer_user_id existing) of
             Inl e \<Rightarrow> (Inl (AttestStore e), n)
           | Inr s \<Rightarrow> (Inr \<lparr>pr_peer_nickname = nickname, pr_sas_code = [], pr_enrolled_as_self = False,
               pr_services = [], pr_app_label = None, pr_peer_user_id = peer_user_id\<rparr>, with_store s n)))))"

subsection \<open>Lemmas\<close>

lemma lift_attest_Inr [simp]: "lift_attest r = Inr x \<longleftrightarrow> r = Inr x"
  by (cases r) (auto simp: lift_attest_def)

lemma offer_value_roundtrip: "length (ao_node_id a) = 32 \<Longrightarrow> offer_from_value (offer_to_value a) = Some a"
  by (simp add: offer_from_value_def offer_to_value_def struct_members_def required_def)

lemma attest_exchange_Inr:
  "attest_exchange net n offer b = Inr (peer_id, nickname, user_pk, sig) \<longleftrightarrow>
   \<not> is_refused (pn_store n) (ao_node_id offer) \<and> dl_addr_id net (ao_node_addr_json offer) = Some (ao_node_id offer) \<and>
   dl_connect net (ao_node_id offer) = Some (ao_node_id offer) \<and> peer_id = ao_node_id offer \<and>
   dl_exchange net (attest_hello n b) = ReplyFrame (ReplyOk (ao_node_id offer) nickname user_pk sig)"
  by (auto simp: attest_exchange_def split: option.splits if_splits exchange_result.splits pair_reply.splits)

lemma attest_to_Inr:
  assumes "attest_to L io net line nick n = (Inr res, n')"
  obtains offer b nickname user_pk sig existing s where "offer_decode L line = Inr offer" "node_self_binding n = Some b"
    "attest_exchange net n offer b = Inr (ao_node_id offer, nickname, user_pk, sig)"
    "store_resolve (pn_store n) (ao_node_id offer) = Inr existing"
    "store_add (pn_store n) (offerer_entry io (ao_node_id offer) (pr_peer_nickname res)
       (verified_user_id L user_pk sig (ao_node_id offer)) existing) = Inr s"
    "n' = with_store s n" "pr_sas_code res = []" "pr_peer_user_id res = verified_user_id L user_pk sig (ao_node_id offer)"
    "pr_peer_nickname res = (case nick of Some a \<Rightarrow> a | None \<Rightarrow> (case existing of Some e \<Rightarrow> pe_nickname e | None \<Rightarrow> nickname))"
proof -
  obtain offer where o: "offer_decode L line = Inr offer"
    using assms by (cases "offer_decode L line") (auto simp: attest_to_def)
  obtain b where b: "node_self_binding n = Some b"
    using assms o by (cases "node_self_binding n") (auto simp: attest_to_def ok_or_def)
  obtain x where x: "attest_exchange net n offer b = Inr x"
    using assms o b by (cases "attest_exchange net n offer b") (auto simp: attest_to_def ok_or_def)
  obtain peer_id nickname user_pk sig where x': "x = (peer_id, nickname, user_pk, sig)" by (cases x)
  then have p: "peer_id = ao_node_id offer" using x by (simp add: attest_exchange_Inr)
  note rest = assms [unfolded attest_to_def]
  obtain existing where e: "store_resolve (pn_store n) (ao_node_id offer) = Inr existing"
    using rest o b x x' p
    by (cases "store_resolve (pn_store n) (ao_node_id offer)") (auto simp: ok_or_def lift_attest_def)
  let ?nick = "case nick of Some a \<Rightarrow> a | None \<Rightarrow> (case existing of Some e \<Rightarrow> pe_nickname e | None \<Rightarrow> nickname)"
  let ?entry = "offerer_entry io (ao_node_id offer) ?nick (verified_user_id L user_pk sig (ao_node_id offer)) existing"
  obtain s where s: "store_add (pn_store n) ?entry = Inr s"
    using rest o b x x' p e by (cases "store_add (pn_store n) ?entry") (auto simp: ok_or_def lift_attest_def)
  have "n' = with_store s n \<and> pr_sas_code res = [] \<and> pr_peer_user_id res = verified_user_id L user_pk sig (ao_node_id offer) \<and>
     pr_peer_nickname res = ?nick"
    using rest o b x x' p e s by (auto simp: ok_or_def lift_attest_def)
  then show thesis using o b x x' p e s by (intro that [of offer b nickname user_pk sig existing s]) auto
qed

end
