(* ===== verification/Roster_Store.thy ===== *)
theory Roster_Store
  imports Roster_View Invites Unicode
begin

text \<open>
  The installed roster on disk (\<open>node/src/roster/mod.rs\<close>), the freshness sidecar
  (\<open>node/src/roster/freshness.rs\<close>) and the enrollment codes a person copies
  (\<open>node/src/roster/enroll.rs\<close>). The file holds a re-serialisation of the accepted document; the
  flag \<open>ok\<close> says whether the atomic replacement succeeds.
\<close>

type_synonym disk_file = invite_file

subsection \<open>The document as JSON\<close>

definition device_from_value :: "json \<Rightarrow> roster_device option" where
  "device_from_value v =
     Option.bind (struct_members_strict [''endpoint_id'', ''label'', ''role''] v) (\<lambda>m.
     Option.bind (required m ''endpoint_id'' as_str) (\<lambda>endpoint_id.
     Option.bind (required m ''label'' as_str) (\<lambda>label.
     Option.bind (defaulted m ''role'' ''primary'' as_str) (\<lambda>role.
     Some \<lparr>rd_endpoint_id = endpoint_id, rd_label = label, rd_role = role\<rparr>))))"

definition user_from_value :: "json \<Rightarrow> roster_user option" where
  "user_from_value v =
     Option.bind (struct_members_strict [''user_id'', ''display_name'', ''user_pk'', ''groups'', ''devices''] v) (\<lambda>m.
     Option.bind (required m ''user_id'' as_str) (\<lambda>user_id.
     Option.bind (required m ''display_name'' as_str) (\<lambda>display_name.
     Option.bind (required m ''user_pk'' as_str) (\<lambda>user_pk.
     Option.bind (required m ''groups'' (de_list as_str)) (\<lambda>groups.
     Option.bind (required m ''devices'' (de_list device_from_value)) (\<lambda>devices.
     Some \<lparr>ru_user_id = user_id, ru_display_name = display_name, ru_user_pk = user_pk, ru_groups = groups,
       ru_devices = devices\<rparr>))))))"

definition roster_fields :: "string list" where
  "roster_fields = [''format'', ''org_id'', ''serial'', ''issued_at'', ''expires_at'', ''groups'', ''users'',
     ''revoked_endpoints'', ''successor_root_pk'', ''successor_sig'', ''sig'']"

definition roster_from_value :: "json \<Rightarrow> roster option" where
  "roster_from_value v =
     Option.bind (struct_members_strict roster_fields v) (\<lambda>m.
     Option.bind (required m ''format'' as_str) (\<lambda>format.
     Option.bind (required m ''org_id'' as_str) (\<lambda>org_id.
     Option.bind (required m ''serial'' de_word) (\<lambda>serial.
     Option.bind (required m ''issued_at'' as_str) (\<lambda>issued_at.
     Option.bind (required m ''expires_at'' as_str) (\<lambda>expires_at.
     Option.bind (required m ''groups'' (de_list as_str)) (\<lambda>groups.
     Option.bind (required m ''users'' (de_list user_from_value)) (\<lambda>users.
     Option.bind (required m ''revoked_endpoints'' (de_list as_str)) (\<lambda>revoked.
     Option.bind (defaulted m ''successor_root_pk'' None (de_option as_str)) (\<lambda>succ_pk.
     Option.bind (defaulted m ''successor_sig'' None (de_option as_str)) (\<lambda>succ_sig.
     Option.bind (required m ''sig'' as_str) (\<lambda>sig.
     Some \<lparr>ro_format = format, ro_org_id = org_id, ro_serial = serial, ro_issued_at = issued_at,
       ro_expires_at = expires_at, ro_groups = groups, ro_users = users, ro_revoked_endpoints = revoked,
       ro_successor_root_pk = succ_pk, ro_successor_sig = succ_sig, ro_sig = sig\<rparr>))))))))))))"

definition parse_roster :: "libs \<Rightarrow> bytes \<Rightarrow> roster option" where
  "parse_roster L bs = Option.bind (json_from_slice L bs) roster_from_value"

lemma de_list_map [simp]:
  "(\<And>x. x \<in> set xs \<Longrightarrow> f (g x) = Some x) \<Longrightarrow> de_list f (JArr (map g xs)) = Some xs"
  using all_some_map [of xs f g id] by (simp add: de_list_def)

lemma device_roundtrip [simp]: "device_from_value (device_to_value d) = Some d"
  by (simp add: device_from_value_def device_to_value_def struct_members_strict_def required_def defaulted_def)

lemma user_roundtrip [simp]: "user_from_value (user_to_value u) = Some u"
  by (simp add: user_from_value_def user_to_value_def struct_members_strict_def required_def)

lemma roster_roundtrip [simp]: "roster_from_value (roster_to_value r) = Some r"
  by (cases "ro_successor_root_pk r"; cases "ro_successor_sig r")
    (simp_all add: roster_from_value_def roster_to_value_def roster_fields_def struct_members_strict_def required_def
      defaulted_def de_option_def)

lemma roster_printable: "json_printable (roster_to_value r)"
  by (cases "ro_successor_root_pk r"; cases "ro_successor_sig r")
    (simp_all add: roster_to_value_def user_to_value_def device_to_value_def list_all_iff del: json_printable.simps(3))

lemma roster_depth: "json_depth (roster_to_value r) \<le> JSON_MAX_DEPTH"
  by (cases "ro_successor_root_pk r"; cases "ro_successor_sig r")
    (simp_all add: JSON_MAX_DEPTH_def roster_to_value_def user_to_value_def device_to_value_def)

lemma parse_printed:
  assumes "json_text_roundtrip L"
  shows "parse_roster L (json_to_vec L (roster_to_value r)) = Some r"
    "parse_roster L (json_to_vec_pretty L (roster_to_value r)) = Some r"
  using assms roster_printable roster_depth by (simp_all add: parse_roster_def json_text_roundtrip_def)

subsection \<open>The store\<close>

datatype store_roster_error =
    ReadRoster
  | ParseRoster
  | ReadSource
  | ParseSource
  | Invalid roster_error
  | PersistRoster

definition lift_invalid :: "roster_error + 'a \<Rightarrow> store_roster_error + 'a" where
  "lift_invalid r = (case r of Inl e \<Rightarrow> Inl (Invalid e) | Inr x \<Rightarrow> Inr x)"

lemma lift_invalid_Inr [simp]: "lift_invalid r = Inr x \<longleftrightarrow> r = Inr x"
  by (cases r) (auto simp: lift_invalid_def)

definition rs_load :: "libs \<Rightarrow> disk_file \<Rightarrow> bytes \<Rightarrow> store_roster_error + roster_view option" where
  "rs_load L f root_pk = (case f of
     FileAbsent \<Rightarrow> Inr None
   | FileUnreadable \<Rightarrow> Inl ReadRoster
   | FileBytes bs \<Rightarrow> (case parse_roster L bs of
         None \<Rightarrow> Inl ParseRoster
       | Some r \<Rightarrow> rbind (lift_invalid (load_installed L r root_pk)) (\<lambda>v. Inr (Some v))))"

definition installed_serial :: "libs \<Rightarrow> disk_file \<Rightarrow> store_roster_error + u64" where
  "installed_serial L f = (case f of
     FileAbsent \<Rightarrow> Inr 0
   | FileUnreadable \<Rightarrow> Inl ReadRoster
   | FileBytes bs \<Rightarrow> Inr (case parse_roster L bs of Some r \<Rightarrow> ro_serial r | None \<Rightarrow> 0))"

definition install_from_file ::
  "libs \<Rightarrow> bool \<Rightarrow> disk_file \<Rightarrow> disk_file \<Rightarrow> bytes \<Rightarrow> int \<Rightarrow> store_roster_error + (roster_view \<times> anchor_change) \<times> disk_file" where
  "install_from_file L ok stored src root_pk now_epoch =
     rbind (case src of FileBytes bs \<Rightarrow> Inr bs | _ \<Rightarrow> Inl ReadSource) (\<lambda>bs.
     rbind (ok_or ParseSource (parse_roster L bs)) (\<lambda>r.
     rbind (installed_serial L stored) (\<lambda>installed.
     rbind (lift_invalid (validate_for_install_with_anchor L r root_pk installed now_epoch)) (\<lambda>x.
     if ok then Inr (x, FileBytes (json_to_vec_pretty L (roster_to_value r))) else Inl PersistRoster))))"

definition parse_org_root_pk :: "libs \<Rightarrow> string \<Rightarrow> bytes option" where
  "parse_org_root_pk L b64u = (case decode_b64u L b64u of
     Inl _ \<Rightarrow> None
   | Inr bs \<Rightarrow> if length bs = 32 \<and> vk_from_bytes L bs then Some bs else None)"

lemma install_from_file_Inr:
  "install_from_file L ok stored src root_pk now = Inr (x, f') \<longleftrightarrow>
   (\<exists>bs r installed. src = FileBytes bs \<and> parse_roster L bs = Some r \<and> installed_serial L stored = Inr installed \<and>
      validate_for_install_with_anchor L r root_pk installed now = Inr x \<and> ok \<and>
      f' = FileBytes (json_to_vec_pretty L (roster_to_value r)))"
  by (cases src; cases x) (auto simp: install_from_file_def result_simps split: if_splits)

text \<open>What was persisted is the accepted document, and its serial becomes the high-water mark.\<close>

lemma install_from_file_serial:
  assumes "json_text_roundtrip L" and "install_from_file L ok stored src root_pk now = Inr ((v, a), f')"
  shows "\<exists>old. installed_serial L stored = Inr old \<and> installed_serial L f' = Inr (v_serial v) \<and> old < v_serial v"
proof -
  from assms(2) obtain bs r old where
    i: "installed_serial L stored = Inr old" and v: "validate_for_install_with_anchor L r root_pk old now = Inr (v, a)" and
    f: "f' = FileBytes (json_to_vec_pretty L (roster_to_value r))"
    unfolding install_from_file_Inr by blast
  from v have "old < ro_serial r" "v_serial v = ro_serial r"
    by (auto simp: validate_for_install_with_anchor_def build_view_correct spec_view_def result_simps not_le split: if_splits prod.splits)
  then show ?thesis using i f by (simp add: installed_serial_def parse_printed [OF assms(1)])
qed

subsection \<open>The freshness sidecar\<close>

datatype sidecar = SidecarAbsent | SidecarUnreadable | SidecarText string

text \<open>\<open>FreshnessStore::load\<close> and \<open>store\<close>: one decimal epoch; a text that is no number is no confirmation.\<close>

definition fresh_load :: "sidecar \<Rightarrow> unit + int option" where
  "fresh_load f = (case f of
     SidecarAbsent \<Rightarrow> Inr None
   | SidecarUnreadable \<Rightarrow> Inl ()
   | SidecarText s \<Rightarrow> Inr (parse_i64 (str_trim s)))"

definition fresh_store :: "bool \<Rightarrow> sidecar \<Rightarrow> int \<Rightarrow> sidecar" where
  "fresh_store ok f epoch = (if ok then SidecarText (show_int epoch) else f)"

subsection \<open>Enrollment codes\<close>

definition ORG_SCHEME :: string where "ORG_SCHEME = ''mcpmesh-org:''"
definition JOIN_SCHEME :: string where "JOIN_SCHEME = ''mcpmesh-join:''"
definition DEVICE_SCHEME :: string where "DEVICE_SCHEME = ''mcpmesh-device:''"

record org_invite_code =
  oi_org_id :: string
  oi_org_root_pk :: string
  oi_roster_url :: "string option"

record join_code =
  jc_display_name :: string
  jc_requested_user_id :: string
  jc_user_pk :: string
  jc_device_endpoint_id :: string
  jc_device_label :: string
  jc_binding_sig :: string

record device_code =
  dc_device_endpoint_id :: string
  dc_device_label :: string

definition encode_code :: "libs \<Rightarrow> string \<Rightarrow> json \<Rightarrow> string" where
  "encode_code L scheme value = scheme @ b32_encode L (json_to_vec L value)"

definition decode_code :: "libs \<Rightarrow> string \<Rightarrow> (json \<Rightarrow> 'a option) \<Rightarrow> string \<Rightarrow> 'a option" where
  "decode_code L scheme dec line =
     Option.bind (strip_prefix scheme line) (\<lambda>payload.
     Option.bind (b32_decode L payload) (\<lambda>json.
     Option.bind (json_from_slice L json) dec))"

definition org_invite_to_value :: "org_invite_code \<Rightarrow> json" where
  "org_invite_to_value c = JObj ([(''org_id'', JStr (oi_org_id c)), (''org_root_pk'', JStr (oi_org_root_pk c))]
     @ opt_field ''roster_url'' (oi_roster_url c))"

definition org_invite_from_value :: "json \<Rightarrow> org_invite_code option" where
  "org_invite_from_value v =
     Option.bind (struct_members [''org_id'', ''org_root_pk'', ''roster_url''] v) (\<lambda>m.
     Option.bind (required m ''org_id'' as_str) (\<lambda>org_id.
     Option.bind (required m ''org_root_pk'' as_str) (\<lambda>org_root_pk.
     Option.bind (defaulted m ''roster_url'' None (de_option as_str)) (\<lambda>roster_url.
     Some \<lparr>oi_org_id = org_id, oi_org_root_pk = org_root_pk, oi_roster_url = roster_url\<rparr>))))"

definition join_to_value :: "join_code \<Rightarrow> json" where
  "join_to_value c = JObj [(''display_name'', JStr (jc_display_name c)),
     (''requested_user_id'', JStr (jc_requested_user_id c)), (''user_pk'', JStr (jc_user_pk c)),
     (''device_endpoint_id'', JStr (jc_device_endpoint_id c)), (''device_label'', JStr (jc_device_label c)),
     (''binding_sig'', JStr (jc_binding_sig c))]"

definition join_from_value :: "json \<Rightarrow> join_code option" where
  "join_from_value v =
     Option.bind (struct_members [''display_name'', ''requested_user_id'', ''user_pk'', ''device_endpoint_id'',
       ''device_label'', ''binding_sig''] v) (\<lambda>m.
     Option.bind (required m ''display_name'' as_str) (\<lambda>display_name.
     Option.bind (required m ''requested_user_id'' as_str) (\<lambda>requested_user_id.
     Option.bind (required m ''user_pk'' as_str) (\<lambda>user_pk.
     Option.bind (required m ''device_endpoint_id'' as_str) (\<lambda>device_endpoint_id.
     Option.bind (required m ''device_label'' as_str) (\<lambda>device_label.
     Option.bind (required m ''binding_sig'' as_str) (\<lambda>binding_sig.
     Some \<lparr>jc_display_name = display_name, jc_requested_user_id = requested_user_id, jc_user_pk = user_pk,
       jc_device_endpoint_id = device_endpoint_id, jc_device_label = device_label, jc_binding_sig = binding_sig\<rparr>)))))))"

definition device_code_to_value :: "device_code \<Rightarrow> json" where
  "device_code_to_value c = JObj [(''device_endpoint_id'', JStr (dc_device_endpoint_id c)),
     (''device_label'', JStr (dc_device_label c))]"

definition device_code_from_value :: "json \<Rightarrow> device_code option" where
  "device_code_from_value v =
     Option.bind (struct_members [''device_endpoint_id'', ''device_label''] v) (\<lambda>m.
     Option.bind (required m ''device_endpoint_id'' as_str) (\<lambda>device_endpoint_id.
     Option.bind (required m ''device_label'' as_str) (\<lambda>device_label.
     Some \<lparr>dc_device_endpoint_id = device_endpoint_id, dc_device_label = device_label\<rparr>)))"

definition org_invite_encode :: "libs \<Rightarrow> org_invite_code \<Rightarrow> string" where
  "org_invite_encode L c = encode_code L ORG_SCHEME (org_invite_to_value c)"

definition org_invite_decode :: "libs \<Rightarrow> string \<Rightarrow> org_invite_code option" where
  "org_invite_decode L = decode_code L ORG_SCHEME org_invite_from_value"

definition join_encode :: "libs \<Rightarrow> join_code \<Rightarrow> string" where
  "join_encode L c = encode_code L JOIN_SCHEME (join_to_value c)"

definition join_decode :: "libs \<Rightarrow> string \<Rightarrow> join_code option" where
  "join_decode L = decode_code L JOIN_SCHEME join_from_value"

definition device_code_encode :: "libs \<Rightarrow> device_code \<Rightarrow> string" where
  "device_code_encode L c = encode_code L DEVICE_SCHEME (device_code_to_value c)"

definition device_code_decode :: "libs \<Rightarrow> string \<Rightarrow> device_code option" where
  "device_code_decode L = decode_code L DEVICE_SCHEME device_code_from_value"

lemma code_roundtrip:
  assumes "b32_roundtrip L" and "json_text_roundtrip L" and "json_printable value" and "json_depth value \<le> JSON_MAX_DEPTH"
    and "dec value = Some x"
  shows "decode_code L scheme dec (encode_code L scheme value) = Some x"
  using assms by (simp add: decode_code_def encode_code_def strip_prefix_append b32_roundtrip_def json_text_roundtrip_def)

lemma code_values:
  "org_invite_from_value (org_invite_to_value i) = Some i"
    "json_printable (org_invite_to_value i) \<and> json_depth (org_invite_to_value i) \<le> JSON_MAX_DEPTH"
  "join_from_value (join_to_value j) = Some j"
    "json_printable (join_to_value j) \<and> json_depth (join_to_value j) \<le> JSON_MAX_DEPTH"
  "device_code_from_value (device_code_to_value d) = Some d"
    "json_printable (device_code_to_value d) \<and> json_depth (device_code_to_value d) \<le> JSON_MAX_DEPTH"
  by (cases "oi_roster_url i";
    simp add: JSON_MAX_DEPTH_def org_invite_from_value_def org_invite_to_value_def struct_members_def required_def defaulted_def de_option_def
      join_from_value_def join_to_value_def device_code_from_value_def device_code_to_value_def)+

text \<open>A code reads back as what it was made from, and never as a code of another kind.\<close>

lemma codes_roundtrip:
  assumes "b32_roundtrip L" and "json_text_roundtrip L"
  shows "org_invite_decode L (org_invite_encode L i) = Some i" "join_decode L (join_encode L j) = Some j"
    "device_code_decode L (device_code_encode L d) = Some d"
  unfolding org_invite_decode_def org_invite_encode_def join_decode_def join_encode_def device_code_decode_def
    device_code_encode_def
  by (rule code_roundtrip [OF assms], rule conjunct1 [OF code_values(2)] conjunct1 [OF code_values(4)] conjunct1 [OF code_values(6)],
    rule conjunct2 [OF code_values(2)] conjunct2 [OF code_values(4)] conjunct2 [OF code_values(6)], rule code_values)+

lemma codes_disjoint:
  "org_invite_decode L (join_encode L j) = None" "org_invite_decode L (device_code_encode L d) = None"
  "join_decode L (org_invite_encode L i) = None" "join_decode L (device_code_encode L d) = None"
  "device_code_decode L (org_invite_encode L i) = None" "device_code_decode L (join_encode L j) = None"
  by (simp_all add: org_invite_decode_def org_invite_encode_def join_decode_def join_encode_def device_code_decode_def
      device_code_encode_def decode_code_def encode_code_def strip_prefix_def ORG_SCHEME_def JOIN_SCHEME_def DEVICE_SCHEME_def)

end
