(* ===== verification/Roster_Install.thy ===== *)
theory Roster_Install
  imports Roster_Store Pairing
begin

text \<open>
  The roster install pipeline of a node (\<open>node/src/daemon/roster_install.rs\<close>), the confirmation of
  freshness (\<open>node/src/daemon.rs\<close>) and what a boot restores (\<open>node/src/daemon/boot.rs\<close>). The manual
  verb and the automatic channels install through the same store, under \<open>reload_lock\<close>, so each is
  one step; an operation that fails keeps what it had already written.
\<close>

text \<open>
  The node: the pairing half extended by the roster file, the freshness sidecar, the operator's key
  files, the URL the poll loop fetches, and the connections the daemon has closed.
\<close>

record mesh_node = pair_node +
  mn_roster_file :: disk_file
  mn_confirmed :: sidecar
  mn_root_key :: disk_file
  mn_next_key :: disk_file
  mn_poll_url :: "string option"
  mn_transport_live :: bool
  mn_app_metadata :: string
  mn_closed :: "conn set"

text \<open>The clock, and which of the writes succeed.\<close>

record install_io =
  ii_now :: int
  ii_stage_ok :: bool
  ii_roster_ok :: bool
  ii_pin_ok :: bool
  ii_confirm_ok :: bool
  ii_reconcile_ok :: bool

datatype install_error =
    BadParams
  | ConfigRead
  | NoOrgRoot
  | BadOrgRoot
  | StageFailed
  | StoreRefused store_roster_error
  | PinFailed config_error

abbreviation mn_gate :: "mesh_node \<Rightarrow> roster_gate" where
  "mn_gate n \<equiv> dm_roster (pn_daemon n)"

abbreviation mn_config :: "mesh_node \<Rightarrow> config_file" where
  "mn_config n \<equiv> dm_config (pn_daemon n)"

definition with_gate :: "roster_gate \<Rightarrow> mesh_node \<Rightarrow> mesh_node" where
  "with_gate g n = n\<lparr>pn_daemon := (pn_daemon n)\<lparr>dm_roster := g\<rparr>\<rparr>"

definition with_config :: "config_file \<Rightarrow> mesh_node \<Rightarrow> mesh_node" where
  "with_config f n = n\<lparr>pn_daemon := (pn_daemon n)\<lparr>dm_config := f\<rparr>\<rparr>"

definition node_audit :: "string \<Rightarrow> string option \<Rightarrow> mesh_node \<Rightarrow> mesh_node" where
  "node_audit event target n = n\<lparr>pn_audit := pn_audit n @ [(event, target)]\<rparr>"

subsection \<open>The steps of an install\<close>

definition mesh_config_org_root_pk :: "access_env \<Rightarrow> mesh_node \<Rightarrow> install_error + string option" where
  "mesh_config_org_root_pk E n = (case load E (mn_config n) of
     None \<Rightarrow> Inl ConfigRead
   | Some cfg \<Rightarrow> Inr (id_org_root_pk (cfg_identity cfg)))"

definition audit_successor_adoption :: "anchor_change \<Rightarrow> string \<Rightarrow> mesh_node \<Rightarrow> mesh_node" where
  "audit_successor_adoption anchor org_id n = (case adopted_root_pk anchor of
     None \<Rightarrow> n
   | Some _ \<Rightarrow> node_audit ''org_root_rotated'' (Some org_id) n)"

definition pin_root :: "access_env \<Rightarrow> bool \<Rightarrow> string \<Rightarrow> string \<Rightarrow> mesh_node \<Rightarrow> (install_error + unit) \<times> mesh_node" where
  "pin_root E ok pk org_id n = (case write_identity_pin (ae_toml E) ok (mn_config n) pk org_id of
     Inl e \<Rightarrow> (Inl (PinFailed e), n)
   | Inr (f, _) \<Rightarrow> (Inr (), with_config f n))"

definition adopt_successor_root ::
  "access_env \<Rightarrow> bool \<Rightarrow> anchor_change \<Rightarrow> string \<Rightarrow> mesh_node \<Rightarrow> (install_error + unit) \<times> mesh_node" where
  "adopt_successor_root E ok anchor org_id n = (case adopted_root_pk anchor of
     None \<Rightarrow> (Inr (), n)
   | Some new_pk \<Rightarrow> sbind (pin_root E ok new_pk org_id n) (\<lambda>_ n.
       (Inr (), audit_successor_adoption anchor org_id n)))"

definition confirm_roster_current :: "install_io \<Rightarrow> mesh_node \<Rightarrow> mesh_node" where
  "confirm_roster_current io n =
     (with_gate (rg_set_last_confirmed (mn_gate n) (ii_now io)) n)
       \<lparr>mn_confirmed := fresh_store (ii_confirm_ok io) (mn_confirmed n) (ii_now io)\<rparr>"

text \<open>Swap, sever, audit; the severed connections are returned and recorded as closed.\<close>

definition install_view_and_sever :: "roster_view \<Rightarrow> mesh_node \<Rightarrow> conn list \<times> mesh_node" where
  "install_view_and_sever view n =
     (case install_roster_view_and_sever (mn_gate n) (dm_registry (pn_daemon n)) view of
        (g, severed) \<Rightarrow>
          (severed, node_audit ''roster_install'' (Some (v_org_id view @ ''/'' @ show_nat (unat (v_serial view))))
             ((with_gate g n)\<lparr>mn_closed := mn_closed n \<union> set severed\<rparr>)))"

text \<open>The roster's user id for this device replaces the proposal in the configuration.\<close>

definition reconcile_user_id_from_roster :: "access_env \<Rightarrow> bool \<Rightarrow> mesh_node \<Rightarrow> mesh_node" where
  "reconcile_user_id_from_roster E ok n =
     (case Option.bind (rg_view (mn_gate n)) (\<lambda>v. view_resolve v (pn_endpoint_id n)) of
        None \<Rightarrow> n
      | Some d \<Rightarrow>
          (let proposed = Option.bind (load E (mn_config n)) (\<lambda>cfg. id_user_id (cfg_identity cfg))
           in if proposed = Some (d_user_id d) then n
              else (case write_identity_user_id (ae_toml E) ok (mn_config n) (d_user_id d) of
                Inr (f, _) \<Rightarrow> with_config f n
              | Inl _ \<Rightarrow> n)))"

definition store_install ::
  "libs \<Rightarrow> bool \<Rightarrow> disk_file \<Rightarrow> bytes \<Rightarrow> int \<Rightarrow> mesh_node \<Rightarrow> (install_error + roster_view \<times> anchor_change) \<times> mesh_node" where
  "store_install L ok src pk now n = (case install_from_file L ok (mn_roster_file n) src pk now of
     Inl e \<Rightarrow> (Inl (StoreRefused e), n)
   | Inr (x, f) \<Rightarrow> (Inr x, n\<lparr>mn_roster_file := f\<rparr>))"

definition gate_serial :: "roster_gate \<Rightarrow> u64" where
  "gate_serial g = (case rg_view g of Some v \<Rightarrow> v_serial v | None \<Rightarrow> 0)"

subsection \<open>The channels\<close>

text \<open>Gossip and the URL poll: bytes with an announced serial.\<close>

definition converge_roster_bytes ::
  "libs \<Rightarrow> access_env \<Rightarrow> install_io \<Rightarrow> bytes \<Rightarrow> u64 \<Rightarrow> mesh_node \<Rightarrow> (install_error + bool) \<times> mesh_node" where
  "converge_roster_bytes L E io bs serial n =
     (if serial \<le> gate_serial (mn_gate n) then (Inr False, n)
      else
        sbind (mesh_config_org_root_pk E n, n) (\<lambda>pinned n.
        sbind (ok_or NoOrgRoot pinned, n) (\<lambda>pk_str n.
        sbind (ok_or BadOrgRoot (parse_org_root_pk L pk_str), n) (\<lambda>pk n.
        if \<not> ii_stage_ok io then (Inl StageFailed, n)
        else
          sbind (store_install L (ii_roster_ok io) (FileBytes bs) pk (ii_now io) n) (\<lambda>(view, anchor) n.
          sbind (adopt_successor_root E (ii_pin_ok io) anchor (v_org_id view) n) (\<lambda>_ n.
          case install_view_and_sever view (confirm_roster_current io n) of
            (_, n) \<Rightarrow> (Inr True, reconcile_user_id_from_roster E (ii_reconcile_ok io) n)))))))"

record install_result =
  ir_org_id :: string
  ir_serial :: u64
  ir_severed :: "conn list"

text \<open>The manual verb. The anchor is pinned after validation; an adopted successor wins over the caller's.\<close>

definition install_roster ::
  "libs \<Rightarrow> access_env \<Rightarrow> install_io \<Rightarrow> disk_file \<Rightarrow> string option \<Rightarrow> mesh_node \<Rightarrow> (install_error + install_result) \<times> mesh_node" where
  "install_roster L E io src org_root_pk n =
     sbind (case org_root_pk of
              Some s \<Rightarrow> Inr s
            | None \<Rightarrow> rbind (mesh_config_org_root_pk E n) (ok_or NoOrgRoot), n) (\<lambda>pk_str n.
     sbind (ok_or BadOrgRoot (parse_org_root_pk L pk_str), n) (\<lambda>pk n.
     sbind (store_install L (ii_roster_ok io) src pk (ii_now io) n) (\<lambda>(view, anchor) n.
     let n = audit_successor_adoption anchor (v_org_id view) n;
         pk_str = (case adopted_root_pk anchor of Some a \<Rightarrow> a | None \<Rightarrow> pk_str)
     in sbind (if org_root_pk \<noteq> None \<or> adopted_root_pk anchor \<noteq> None
               then pin_root E (ii_pin_ok io) pk_str (v_org_id view) n else (Inr (), n)) (\<lambda>_ n.
        case install_view_and_sever view (confirm_roster_current io n) of
          (severed, n) \<Rightarrow>
            (Inr \<lparr>ir_org_id = v_org_id view, ir_serial = v_serial view, ir_severed = severed\<rparr>,
             reconcile_user_id_from_roster E (ii_reconcile_ok io) n)))))"

subsection \<open>Joining, naming and the URL\<close>

definition org_join ::
  "libs \<Rightarrow> access_env \<Rightarrow> bool \<Rightarrow> string \<Rightarrow> string \<Rightarrow> string \<Rightarrow> string \<Rightarrow> mesh_node \<Rightarrow> (install_error + string \<times> bool) \<times> mesh_node" where
  "org_join L E ok org_id org_root_pk uid user_key n =
     sbind (ok_or BadOrgRoot (parse_org_root_pk L org_root_pk), n) (\<lambda>_ n.
     case write_join_pin (ae_toml E) ok (mn_config n) org_id org_root_pk uid user_key of
       Inl e \<Rightarrow> (Inl (PinFailed e), n)
     | Inr (f, _) \<Rightarrow> (Inr (org_id, \<not> mn_transport_live n), with_config f n))"

definition set_nickname :: "access_env \<Rightarrow> bool \<Rightarrow> string \<Rightarrow> mesh_node \<Rightarrow> (install_error + unit) \<times> mesh_node" where
  "set_nickname E ok nickname n =
     (let nickname = str_trim nickname in
      if nickname = [] \<or> CHR ''/'' \<in> set nickname then (Inl BadParams, n)
      else (case write_identity_nickname (ae_toml E) ok (mn_config n) nickname of
         Inl e \<Rightarrow> (Inl (PinFailed e), n)
       | Inr (f, _) \<Rightarrow> (Inr (), (with_config f n)\<lparr>pn_self_nickname := nickname\<rparr>)))"

definition APP_METADATA_MAX_BYTES :: nat where "APP_METADATA_MAX_BYTES = 256"

definition set_app_metadata :: "string \<Rightarrow> mesh_node \<Rightarrow> (install_error + unit) \<times> mesh_node" where
  "set_app_metadata metadata n =
     (if length metadata > APP_METADATA_MAX_BYTES then (Inl BadParams, n)
      else (Inr (), n\<lparr>mn_app_metadata := metadata\<rparr>))"

definition respawn_poll_loop :: "string \<Rightarrow> mesh_node \<Rightarrow> mesh_node" where
  "respawn_poll_loop url n = n\<lparr>mn_poll_url := Some url\<rparr>"

definition set_roster_url :: "access_env \<Rightarrow> bool \<Rightarrow> string \<Rightarrow> mesh_node \<Rightarrow> (install_error + unit) \<times> mesh_node" where
  "set_roster_url E ok url n = (case write_roster_url (ae_toml E) ok (mn_config n) url of
     Inl e \<Rightarrow> (Inl (PinFailed e), n)
   | Inr (f, _) \<Rightarrow>
       (let n = with_config f n
        in (Inr (), case load E (mn_config n) of
              Some cfg \<Rightarrow> if id_org_root_pk (cfg_identity cfg) \<noteq> None then respawn_poll_loop url n else n
            | None \<Rightarrow> n)))"

subsection \<open>Boot\<close>

text \<open>
  The roster a boot loads: under the pinned root, and none on any failure. Then the sidecar arms the
  freshness clock; an installed roster without a sidecar counts as confirmed now.
\<close>

definition boot_view :: "libs \<Rightarrow> config \<Rightarrow> disk_file \<Rightarrow> roster_view option" where
  "boot_view L cfg f =
     Option.bind (id_org_root_pk (cfg_identity cfg)) (\<lambda>pk_str.
     Option.bind (parse_org_root_pk L pk_str) (\<lambda>pk.
     case rs_load L f pk of Inr v \<Rightarrow> v | Inl _ \<Rightarrow> None))"

definition boot_confirm :: "install_io \<Rightarrow> mesh_node \<Rightarrow> mesh_node" where
  "boot_confirm io n = (case fresh_load (mn_confirmed n) of
     Inr (Some lc) \<Rightarrow> with_gate (rg_set_last_confirmed (mn_gate n) lc) n
   | Inr None \<Rightarrow> if rg_view (mn_gate n) \<noteq> None then confirm_roster_current io n else n
   | Inl _ \<Rightarrow> n)"

definition boot_roster :: "libs \<Rightarrow> access_env \<Rightarrow> install_io \<Rightarrow> int \<Rightarrow> int \<Rightarrow> mesh_node \<Rightarrow> (install_error + unit) \<times> mesh_node" where
  "boot_roster L E io grace max_staleness n = (case load E (mn_config n) of
     None \<Rightarrow> (Inl ConfigRead, n)
   | Some cfg \<Rightarrow>
       (let empty = rg_with_freshness grace max_staleness;
            g = (case boot_view L cfg (mn_roster_file n) of Some v \<Rightarrow> rg_install empty v | None \<Rightarrow> empty)
        in (Inr (), boot_confirm io (with_gate g n))))"

end
