(* ===== verification/Org_Author.thy ===== *)
theory Org_Author
  imports Roster_Install Roster_Mutate
begin

text \<open>
  Authoring an organisation's roster (\<open>node/src/daemon/org_author.rs\<close>) and the key files it signs
  with (\<open>trust/src/keys.rs\<close>): create, approve, revoke, rotate. A key file is 32 raw bytes; the key a
  mint generates is an argument. The authoring lock serialises the verbs, so each is one step.
\<close>

subsection \<open>Key files\<close>

datatype key_error = KeyIo | KeyMalformed

definition load_or_generate ::
  "bool \<Rightarrow> bytes \<Rightarrow> disk_file \<Rightarrow> key_error + (bytes \<times> bool) \<times> disk_file" where
  "load_or_generate ok generated f = (case f of
     FileBytes bs \<Rightarrow> if length bs = 32 then Inr ((bs, False), f) else Inl KeyMalformed
   | FileUnreadable \<Rightarrow> Inl KeyIo
   | FileAbsent \<Rightarrow> if ok then Inr ((generated, True), FileBytes generated) else Inl KeyIo)"

definition write_signing_key :: "bool \<Rightarrow> bytes \<Rightarrow> bool \<Rightarrow> disk_file \<Rightarrow> key_error + disk_file" where
  "write_signing_key ok key replace f =
     (if ok \<and> (replace \<or> f = FileAbsent) then Inr (FileBytes key) else Inl KeyIo)"

subsection \<open>Shared steps\<close>

datatype org_error =
    BadOrgParams
  | NotOperator
  | KeyFile key_error
  | AlreadyCreated
  | NoInstalledRoster
  | BadInstalledRoster
  | BadJoinCode
  | ForgedJoinCode
  | MutationRejected mutate_error
  | SignFailed roster_error
  | SameKey
  | PromoteFailed
  | InstallFailed install_error

definition lift_org :: "('e \<Rightarrow> org_error) \<Rightarrow> 'e + 'a \<Rightarrow> org_error + 'a" where
  "lift_org c r = (case r of Inl e \<Rightarrow> Inl (c e) | Inr x \<Rightarrow> Inr x)"

lemma lift_org_Inr [simp]: "lift_org c r = Inr x \<longleftrightarrow> r = Inr x"
  by (cases r) (auto simp: lift_org_def)

text \<open>What surrounds one verb: the writes of the install, and those of the key files.\<close>

record author_io =
  ai_install :: install_io
  ai_key_ok :: bool
  ai_generated :: bytes
  ai_promote_ok :: bool
  ai_rollback_ok :: bool
  ai_url_ok :: bool

definition mint_signed :: "libs \<Rightarrow> bytes \<Rightarrow> roster \<Rightarrow> roster_error + roster" where
  "mint_signed L root body = sign L root body"

definition load_operator_roster :: "libs \<Rightarrow> mesh_node \<Rightarrow> org_error + bytes \<times> roster" where
  "load_operator_roster L n =
     (case mn_root_key n of
        FileAbsent \<Rightarrow> Inl NotOperator
      | f \<Rightarrow>
          rbind (lift_org KeyFile (load_or_generate False [] f)) (\<lambda>((root, _), _).
          rbind (case mn_roster_file n of FileBytes bs \<Rightarrow> Inr bs | _ \<Rightarrow> Inl NoInstalledRoster) (\<lambda>bs.
          rbind (ok_or BadInstalledRoster (parse_roster L bs)) (\<lambda>r. Inr (root, r)))))"

definition install_authored ::
  "libs \<Rightarrow> access_env \<Rightarrow> install_io \<Rightarrow> roster \<Rightarrow> string option \<Rightarrow> mesh_node \<Rightarrow> (org_error + install_result) \<times> mesh_node" where
  "install_authored L E io r org_root_pk n =
     (if \<not> ii_stage_ok io then (Inl (InstallFailed StageFailed), n)
      else (case install_roster L E io (FileBytes (json_to_vec L (roster_to_value r))) org_root_pk n of
          (x, n) \<Rightarrow> (lift_org InstallFailed x, n)))"

subsection \<open>Creating\<close>

definition DEFAULT_EXPIRES_SECS :: int where "DEFAULT_EXPIRES_SECS = 90 * 86400"

record create_result =
  cr_org_id :: string
  cr_serial :: u64
  cr_org_invite :: string
  cr_fingerprint :: string

definition org_create ::
  "libs \<Rightarrow> access_env \<Rightarrow> author_io \<Rightarrow> string \<Rightarrow> int option \<Rightarrow> string option \<Rightarrow> mesh_node \<Rightarrow> (org_error + create_result) \<times> mesh_node" where
  "org_create L E io name expires_secs roster_url n =
     (let expires = (case expires_secs of Some e \<Rightarrow> e | None \<Rightarrow> DEFAULT_EXPIRES_SECS) in
      if str_trim name = [] \<or> CHR ''/'' \<in> set name \<or> expires \<le> 0 then (Inl BadOrgParams, n)
      else (case load_or_generate (ai_key_ok io) (ai_generated io) (mn_root_key n) of
          Inl e \<Rightarrow> (Inl (KeyFile e), n)
        | Inr ((root, created), f) \<Rightarrow>
            if \<not> created then (Inl AlreadyCreated, n)
            else
              let n = n\<lparr>mn_root_key := f\<rparr>; now = ii_now (ai_install io); pk = encode_b64u L (ed_pk L root)
              in sbind (lift_org SignFailed (mint_signed L root
                     (empty_roster L name 1 now (i64_clamp (now + expires)))), n) (\<lambda>r n.
                 sbind (install_authored L E (ai_install io) r (Some pk) n) (\<lambda>installed n.
                 let n = (case roster_url of Some url \<Rightarrow> snd (set_roster_url E (ai_url_ok io) url n) | None \<Rightarrow> n)
                 in (Inr \<lparr>cr_org_id = ir_org_id installed, cr_serial = ir_serial installed,
                       cr_org_invite = org_invite_encode L \<lparr>oi_org_id = name, oi_org_root_pk = pk, oi_roster_url = roster_url\<rparr>,
                       cr_fingerprint = fingerprint_words L (ed_pk L root)\<rparr>, n)))))"

subsection \<open>Approving\<close>

definition inspect_join_code :: "libs \<Rightarrow> string \<Rightarrow> org_error + join_code \<times> bytes \<times> bytes \<times> string" where
  "inspect_join_code L line =
     rbind (ok_or BadJoinCode (join_decode L line)) (\<lambda>jc.
     rbind (lift_org (\<lambda>_. BadJoinCode) (decode_endpoint_id L (jc_user_pk jc))) (\<lambda>user_pk.
     rbind (lift_org (\<lambda>_. BadJoinCode) (decode_endpoint_id L (jc_device_endpoint_id jc))) (\<lambda>device_id.
     rbind (lift_org (\<lambda>_. BadJoinCode) (decode_b64u L (jc_binding_sig jc))) (\<lambda>sig.
     rbind (lift_org (\<lambda>_. ForgedJoinCode) (verify_device_binding L user_pk device_id sig)) (\<lambda>_.
     Inr (jc, user_pk, device_id, join_code_fingerprint L user_pk device_id))))))"

definition org_join_code :: "libs \<Rightarrow> string \<Rightarrow> org_error + (string \<times> string \<times> string) \<times> string" where
  "org_join_code L line =
     rbind (inspect_join_code L line) (\<lambda>(jc, _, _, fingerprint).
     Inr ((jc_display_name jc, jc_requested_user_id jc, jc_device_label jc), fingerprint))"

record approve_result =
  ar_user_id :: string
  ar_groups :: "string list"
  ar_org_id :: string
  ar_serial :: u64
  ar_fingerprint :: string

definition org_approve ::
  "libs \<Rightarrow> access_env \<Rightarrow> author_io \<Rightarrow> string \<Rightarrow> string list \<Rightarrow> string option \<Rightarrow> mesh_node \<Rightarrow> (org_error + approve_result) \<times> mesh_node" where
  "org_approve L E io line groups uid_override n =
     sbind (inspect_join_code L line, n) (\<lambda>(jc, _, _, code_fp) n.
     sbind (load_operator_roster L n, n) (\<lambda>(root, r) n.
     let uid = (case uid_override of Some u \<Rightarrow> u | None \<Rightarrow> jc_requested_user_id jc) in
     if str_trim uid = [] \<or> CHR ''/'' \<in> set uid then (Inl BadOrgParams, n)
     else
       sbind (lift_org MutationRejected (upsert_member (r\<lparr>ro_serial := ro_serial r + 1\<rparr>) uid (jc_display_name jc)
           (jc_user_pk jc) groups (jc_device_endpoint_id jc) (jc_device_label jc)), n) (\<lambda>r n.
       sbind (lift_org SignFailed (sign L root r), n) (\<lambda>r n.
       sbind (install_authored L E (ai_install io) r None n) (\<lambda>installed n.
       (Inr \<lparr>ar_user_id = uid, ar_groups = groups, ar_org_id = ir_org_id installed, ar_serial = ir_serial installed,
             ar_fingerprint = code_fp\<rparr>, n))))))"

subsection \<open>Revoking\<close>

fun split_once :: "char \<Rightarrow> string \<Rightarrow> (string \<times> string) option" where
  "split_once sep [] = None"
| "split_once sep (c # cs) =
     (if c = sep then Some ([], cs) else map_option (\<lambda>(a, b). (c # a, b)) (split_once sep cs))"

datatype revoke_mode = KeyRotation | DeviceCut | PersonCut

definition revoke_target :: "string \<Rightarrow> bool \<Rightarrow> roster \<Rightarrow> mutate_error + revoke_mode \<times> roster" where
  "revoke_target target user_key r =
     (if user_key then rbind (remove_user r target False) (\<lambda>r. Inr (KeyRotation, r))
      else case split_once CHR ''/'' target of
        Some (person, device) \<Rightarrow> rbind (revoke_device r person device) (\<lambda>r. Inr (DeviceCut, r))
      | None \<Rightarrow> rbind (remove_user r target True) (\<lambda>r. Inr (PersonCut, r)))"

record revoke_result =
  rr_target :: string
  rr_mode :: revoke_mode
  rr_org_id :: string
  rr_serial :: u64
  rr_severed :: "conn list"

definition org_revoke ::
  "libs \<Rightarrow> access_env \<Rightarrow> author_io \<Rightarrow> string \<Rightarrow> bool \<Rightarrow> mesh_node \<Rightarrow> (org_error + revoke_result) \<times> mesh_node" where
  "org_revoke L E io target user_key n =
     (if str_trim target = [] \<or> user_key \<and> CHR ''/'' \<in> set target then (Inl BadOrgParams, n)
      else
        sbind (load_operator_roster L n, n) (\<lambda>(root, r) n.
        sbind (lift_org MutationRejected (revoke_target target user_key (r\<lparr>ro_serial := ro_serial r + 1\<rparr>)), n) (\<lambda>(mode, r) n.
        sbind (lift_org SignFailed (sign L root r), n) (\<lambda>r n.
        sbind (install_authored L E (ai_install io) r None n) (\<lambda>installed n.
        (Inr \<lparr>rr_target = target, rr_mode = mode, rr_org_id = ir_org_id installed, rr_serial = ir_serial installed,
              rr_severed = ir_severed installed\<rparr>, n))))))"

subsection \<open>Rotating the root\<close>

definition rotated_body :: "libs \<Rightarrow> bytes \<Rightarrow> bytes \<Rightarrow> roster \<Rightarrow> roster" where
  "rotated_body L current successor_pk r =
     r\<lparr>ro_serial := ro_serial r + 1, ro_successor_root_pk := Some (encode_b64u L successor_pk),
       ro_successor_sig := Some (encode_b64u L (sign_org_rotation L current (ro_org_id r) successor_pk)),
       ro_format := ROSTER_FORMAT_ROTATION\<rparr>"

record rotate_result =
  or_org_id :: string
  or_serial :: u64
  or_new_root_pk :: string
  or_old_fingerprint :: string
  or_new_fingerprint :: string

text \<open>
  The staged key is renamed over the root key first. When publishing then fails, the saved
  predecessor is written back, best effort.
\<close>

definition restore_root :: "bool \<Rightarrow> disk_file \<Rightarrow> mesh_node \<Rightarrow> mesh_node" where
  "restore_root ok prior n = (case prior of
     FileBytes bs \<Rightarrow>
       if length bs \<noteq> 32 then n
       else (case write_signing_key ok bs True (mn_root_key n) of Inr f \<Rightarrow> n\<lparr>mn_root_key := f\<rparr> | Inl _ \<Rightarrow> n)
   | _ \<Rightarrow> n)"

definition org_rotate :: "libs \<Rightarrow> access_env \<Rightarrow> author_io \<Rightarrow> mesh_node \<Rightarrow> (org_error + rotate_result) \<times> mesh_node" where
  "org_rotate L E io n =
     sbind (load_operator_roster L n, n) (\<lambda>(current, r) n.
     case load_or_generate (ai_key_ok io) (ai_generated io) (mn_next_key n) of
       Inl e \<Rightarrow> (Inl (KeyFile e), n)
     | Inr ((successor, _), f) \<Rightarrow>
         let n = n\<lparr>mn_next_key := f\<rparr>; successor_pk = ed_pk L successor in
         if successor_pk = ed_pk L current then (Inl SameKey, n)
         else
           sbind (lift_org SignFailed (sign L successor (rotated_body L current successor_pk r)), n) (\<lambda>r n.
           if \<not> ai_promote_ok io then (Inl PromoteFailed, n)
           else
             let prior = mn_root_key n; n = n\<lparr>mn_root_key := mn_next_key n, mn_next_key := FileAbsent\<rparr>;
                 new_pk = encode_b64u L successor_pk
             in case install_authored L E (ai_install io) r (Some new_pk) n of
                  (Inl e, n) \<Rightarrow> (Inl e, restore_root (ai_rollback_ok io) prior n)
                | (Inr installed, n) \<Rightarrow>
                    (Inr \<lparr>or_org_id = ir_org_id installed, or_serial = ir_serial installed, or_new_root_pk = new_pk,
                          or_old_fingerprint = fingerprint_words L (ed_pk L current),
                          or_new_fingerprint = fingerprint_words L successor_pk\<rparr>, n)))"

end
