(* ===== verification/Runs.thy ===== *)
theory Runs
  imports Prelude
begin

text \<open>
  Runs of a labelled step relation, and the interface by which a component's detailed steps
  implement an abstract specification: a simulation by an abstraction function. \<open>ok\<close> collects the
  laws of the libraries under which the simulation holds.
\<close>

inductive run :: "('s \<Rightarrow> 'l \<Rightarrow> 's \<Rightarrow> bool) \<Rightarrow> 's \<Rightarrow> 'l list \<Rightarrow> 's \<Rightarrow> bool" for step where
  run_nil: "run step s [] s"
| run_snoc: "run step s ls t \<Longrightarrow> step t l u \<Longrightarrow> run step s (ls @ [l]) u"

lemma run_one: "step s l t \<Longrightarrow> run step s [l] t"
  using run_snoc [OF run_nil, of step s l t] by simp

lemma run_invariant:
  assumes "run step s ls t" and "P s" and "\<And>t l u. P t \<Longrightarrow> step t l u \<Longrightarrow> P u"
  shows "P t"
  using assms(1,2) by (induction rule: run.induct) (auto intro: assms(3))

lemma run_invariant_labels:
  assumes "run R s ls t" and "I s" and "\<And>t l u. I t \<Longrightarrow> R t l u \<Longrightarrow> l \<in> set ls \<Longrightarrow> I u"
  shows "I t"
proof -
  have "run R s ks t \<Longrightarrow> I s \<Longrightarrow> set ks \<subseteq> set ls \<Longrightarrow> I t" for ks t
    by (induction rule: run.induct) (auto intro: assms(3))
  with assms(1,2) show ?thesis by blast
qed

locale simulation =
  fixes ok :: bool
    and concrete :: "'c \<Rightarrow> 'l \<Rightarrow> 'c \<Rightarrow> bool"
    and abstract :: "'a \<Rightarrow> 'l \<Rightarrow> 'a \<Rightarrow> bool"
    and view_of :: "'c \<Rightarrow> 'a"
  assumes step_simulates: "ok \<Longrightarrow> concrete s l t \<Longrightarrow> abstract (view_of s) l (view_of t)"
begin

lemma run_simulates: "ok \<Longrightarrow> run concrete s ls t \<Longrightarrow> run abstract (view_of s) ls (view_of t)"
  by (erule run.induct) (auto intro: run.intros step_simulates)

lemma invariant_transfers:
  assumes "ok" and "run concrete s ls t" and "P (view_of s)" and "\<And>a l b. P a \<Longrightarrow> abstract a l b \<Longrightarrow> P b"
  shows "P (view_of t)"
  by (rule run_invariant [where P = P, OF run_simulates [OF assms(1,2)] assms(3,4)])

end

end
