(* ===== verification/Authority.thy ===== *)
theory Authority
  imports Org_Author Runs
begin

text \<open>
  What the roster channels promise, as an abstract machine of three components (the document on
  disk, the pinned anchor, the view in force), and the simulation that the verbs of
  \<open>Roster_Install\<close> and \<open>Org_Author\<close>, with every write failing or not, implement it.
\<close>

subsection \<open>The specification\<close>

record authority =
  au_doc :: "roster option"
  au_anchor :: "string option"
  au_view :: "roster_view option"

definition au_serial :: "authority \<Rightarrow> u64" where
  "au_serial a = (case au_doc a of Some r \<Rightarrow> ro_serial r | None \<Rightarrow> 0)"

definition restart_view :: "libs \<Rightarrow> authority \<Rightarrow> roster_view option" where
  "restart_view L a =
     Option.bind (au_anchor a) (\<lambda>p.
     Option.bind (parse_org_root_pk L p) (\<lambda>k.
     Option.bind (au_doc a) (\<lambda>r.
     case load_installed L r k of Inr v \<Rightarrow> Some v | Inl _ \<Rightarrow> None)))"

lemma case_ok_Some: "(case r of Inl _ \<Rightarrow> None | Inr v \<Rightarrow> Some v) = Some w \<longleftrightarrow> r = Inr w"
  by (cases r) auto

lemma restart_view_Some:
  "restart_view L a = Some v \<longleftrightarrow> (\<exists>p k r. au_anchor a = Some p \<and> parse_org_root_pk L p = Some k \<and> au_doc a = Some r \<and>
     load_installed L r k = Inr v)"
  by (auto simp: restart_view_def bind_eq_Some_conv case_ok_Some)

text \<open>The label of a step is the root the operator names in it, if any.\<close>

inductive authority_step :: "libs \<Rightarrow> authority \<Rightarrow> string option \<Rightarrow> authority \<Rightarrow> bool" for L where
  au_idle: "authority_step L a c a"
| au_persist: "c = Some p \<or> c = None \<and> au_anchor a = Some p \<Longrightarrow> parse_org_root_pk L p = Some k \<Longrightarrow>
    validate_for_install_with_anchor L r k (au_serial a) now = Inr (v, ch) \<Longrightarrow>
    authority_step L a c (a\<lparr>au_doc := Some r\<rparr>)"
| au_accept: "c = Some p \<or> c = None \<and> au_anchor a = Some p \<Longrightarrow> parse_org_root_pk L p = Some k \<Longrightarrow>
    validate_for_install_with_anchor L r k (au_serial a) now = Inr (v, ch) \<Longrightarrow>
    authority_step L a c (a\<lparr>au_doc := Some r,
      au_anchor := Some (case adopted_root_pk ch of Some s \<Rightarrow> s | None \<Rightarrow> p), au_view := Some v\<rparr>)"
| au_choose: "parse_org_root_pk L p = Some k \<Longrightarrow> authority_step L a (Some p) (a\<lparr>au_anchor := Some p\<rparr>)"
| au_restart: "authority_step L a c (a\<lparr>au_view := restart_view L a\<rparr>)"

subsection \<open>What it guarantees\<close>

lemma validate_serial:
  "validate_for_install_with_anchor L r k old now = Inr (v, ch) \<Longrightarrow> old < ro_serial r \<and> v_serial v = ro_serial r"
  by (auto simp: validate_Inr build_view_correct spec_view_def)

lemma load_installed_serial: "load_installed L r k = Inr v \<Longrightarrow> v_serial v = ro_serial r"
  by (auto simp: load_installed_Inr build_view_correct spec_view_def)

definition view_serial :: "roster_view option \<Rightarrow> u64" where
  "view_serial v = (case v of Some v \<Rightarrow> v_serial v | None \<Rightarrow> 0)"

lemma view_serial_simps [simp]: "view_serial None = 0" "view_serial (Some v) = v_serial v"
  by (simp_all add: view_serial_def)

lemma au_serial_upd [simp]:
  "au_serial (a\<lparr>au_doc := Some r\<rparr>) = ro_serial r" "au_serial (a\<lparr>au_anchor := p\<rparr>) = au_serial a"
  "au_serial (a\<lparr>au_view := v\<rparr>) = au_serial a"
  by (simp_all add: au_serial_def)

lemma restart_serial: "view_serial (restart_view L a) \<le> au_serial a"
proof (cases "restart_view L a")
  case (Some v)
  then obtain r where "au_doc a = Some r" "v_serial v = ro_serial r"
    by (auto simp: restart_view_Some load_installed_serial)
  with Some show ?thesis by (simp add: au_serial_def)
qed simp

lemma authority_step_serial:
  assumes "authority_step L a c b"
  shows "au_serial a \<le> au_serial b \<and> (au_doc a = au_doc b \<or> au_serial a < au_serial b) \<and>
    (view_serial (au_view a) \<le> au_serial a \<longrightarrow> view_serial (au_view b) \<le> au_serial b)"
  using assms by cases (auto dest!: validate_serial simp: restart_serial)

text \<open>
  The keys an anchor may become: those the operator named, and from each of them those it
  cross-signed as a successor.
\<close>

inductive vouched :: "libs \<Rightarrow> bytes set \<Rightarrow> bytes \<Rightarrow> bool" for L R where
  vouched_chosen: "k \<in> R \<Longrightarrow> vouched L R k"
| vouched_rotation: "vouched L R k \<Longrightarrow> verify_org_rotation L k org k' sg = Inr () \<Longrightarrow> vouched L R k'"

lemma vouched_mono: "vouched L R k \<Longrightarrow> R \<subseteq> S \<Longrightarrow> vouched L S k"
  by (induction rule: vouched.induct) (auto intro: vouched.intros)

definition root_keys :: "libs \<Rightarrow> string option list \<Rightarrow> bytes set" where
  "root_keys L cs = {k. \<exists>p. Some p \<in> set cs \<and> parse_org_root_pk L p = Some k}"

definition signed_under :: "libs \<Rightarrow> bytes set \<Rightarrow> roster \<Rightarrow> bool" where
  "signed_under L R r \<longleftrightarrow> (\<exists>k. vouched L R k \<and> verify L r k = Inr ())"

definition chained :: "libs \<Rightarrow> bytes set \<Rightarrow> authority \<Rightarrow> bool" where
  "chained L R a \<longleftrightarrow>
     (\<forall>p k. au_anchor a = Some p \<and> parse_org_root_pk L p = Some k \<longrightarrow> vouched L R k) \<and>
     (\<forall>v. au_view a = Some v \<longrightarrow> (\<exists>r expires. signed_under L R r \<and> build_view L r expires = Inr v))"

lemma resolve_verifier_vouched:
  assumes "resolve_verifier L r k = Inr (k', ch)" and "vouched L R k"
  shows "vouched L R k' \<and> verify L r k' = Inr () \<and>
    (\<forall>s. adopted_root_pk ch = Some s \<longrightarrow> parse_org_root_pk L s = Some k') \<and> (adopted_root_pk ch = None \<longrightarrow> k' = k)"
  using assms by (auto simp: resolve_verifier_Inr parse_org_root_pk_def intro: vouched_rotation)

lemma validate_vouched:
  assumes "validate_for_install_with_anchor L r k old now = Inr (v, ch)" and "vouched L R k"
  shows "signed_under L R r \<and> (\<exists>e. build_view L r e = Inr v) \<and>
    (\<forall>s j. adopted_root_pk ch = Some s \<longrightarrow> parse_org_root_pk L s = Some j \<longrightarrow> vouched L R j)"
proof -
  obtain k' where "resolve_verifier L r k = Inr (k', ch)" and b: "\<exists>e. build_view L r e = Inr v"
    using assms(1) by (auto simp: validate_Inr)
  with resolve_verifier_vouched [OF this(1) assms(2)] show ?thesis by (auto simp: signed_under_def)
qed

lemma chained_mono: "chained L R a \<Longrightarrow> R \<subseteq> S \<Longrightarrow> chained L S a"
  unfolding chained_def signed_under_def by (meson vouched_mono)

lemma root_keys_append [simp]: "root_keys L (cs @ ds) = root_keys L cs \<union> root_keys L ds"
  by (auto simp: root_keys_def)

lemma root_key_vouched:
  assumes "c = Some p \<or> c = None \<and> au_anchor a = Some p" and "parse_org_root_pk L p = Some k" and "chained L R a"
  shows "vouched L (R \<union> root_keys L [c]) k"
  using assms by (auto simp: root_keys_def chained_def intro: vouched_chosen vouched_mono)

lemma authority_step_chained:
  assumes "authority_step L a c b" and a: "chained L R a"
  shows "chained L (R \<union> root_keys L [c]) b"
proof -
  have a': "chained L (R \<union> root_keys L [c]) a" by (rule chained_mono [OF a]) simp
  from assms(1) show ?thesis
  proof cases
    case (au_accept p k r now v ch)
    note v = root_key_vouched [OF au_accept(2,3) a]
    show ?thesis using validate_vouched [OF au_accept(4) v] v au_accept(1,3)
      by (auto simp: chained_def split: option.splits)
  next
    case (au_choose p k)
    then show ?thesis using a' by (auto simp: chained_def root_keys_def intro: vouched_chosen)
  next
    case au_restart
    have "\<exists>r e. signed_under L (R \<union> root_keys L [c]) r \<and> build_view L r e = Inr v" if "restart_view L a = Some v" for v
    proof -
      from that obtain p k r where p: "au_anchor a = Some p" "parse_org_root_pk L p = Some k" and r: "load_installed L r k = Inr v"
        by (auto simp: restart_view_Some)
      from p a' have v: "vouched L (R \<union> root_keys L [c]) k" by (auto simp: chained_def)
      from r obtain x e where "resolve_verifier L r k = Inr x" "build_view L r e = Inr v"
        by (auto simp: load_installed_Inr is_ok_def split: sum.splits)
      then show ?thesis using resolve_verifier_vouched [of L r k "fst x" "snd x", OF _ v] by (auto simp: signed_under_def)
    qed
    then show ?thesis using a' au_restart by (auto simp: chained_def)
  qed (use a' in \<open>auto simp: chained_def\<close>)
qed

lemma authority_run_chained:
  "run (authority_step L) a cs b \<Longrightarrow> chained L R a \<Longrightarrow> chained L (R \<union> root_keys L cs) b"
proof (induction rule: run.induct)
  case (run_nil s)
  then show ?case by (auto intro: chained_mono)
next
  case (run_snoc s ls t l u)
  then show ?case using authority_step_chained [of L t l u "R \<union> root_keys L ls"] by (simp add: Un_assoc)
qed

subsection \<open>The abstraction\<close>

definition doc_of :: "libs \<Rightarrow> disk_file \<Rightarrow> roster option" where
  "doc_of L f = (case f of FileBytes bs \<Rightarrow> parse_roster L bs | _ \<Rightarrow> None)"

definition anchor_of :: "toml_lib \<Rightarrow> config_file \<Rightarrow> string option" where
  "anchor_of T f = Option.bind (config_doc T f) (\<lambda>doc.
     Option.bind (table_field doc ''identity'' ''org_root_pk'') toml_as_str)"

definition authority_of :: "libs \<Rightarrow> access_env \<Rightarrow> mesh_node \<Rightarrow> authority" where
  "authority_of L E n = \<lparr>au_doc = doc_of L (mn_roster_file n), au_anchor = anchor_of (ae_toml E) (mn_config n),
     au_view = rg_view (mn_gate n)\<rparr>"

lemma authority_of_upd [simp]:
  "authority_of L E (with_gate g n) = (authority_of L E n)\<lparr>au_view := rg_view g\<rparr>"
  "authority_of L E (with_config f n) = (authority_of L E n)\<lparr>au_anchor := anchor_of (ae_toml E) f\<rparr>"
  "authority_of L E (node_audit e t n) = authority_of L E n"
  "authority_of L E (n\<lparr>mn_roster_file := d\<rparr>) = (authority_of L E n)\<lparr>au_doc := doc_of L d\<rparr>"
  "authority_of L E (n\<lparr>mn_confirmed := s\<rparr>) = authority_of L E n"
  "authority_of L E (n\<lparr>mn_closed := cs\<rparr>) = authority_of L E n"
  "authority_of L E (n\<lparr>mn_root_key := f1\<rparr>) = authority_of L E n"
  "authority_of L E (n\<lparr>mn_next_key := f1\<rparr>) = authority_of L E n"
  "authority_of L E (n\<lparr>mn_poll_url := u\<rparr>) = authority_of L E n"
  "authority_of L E (n\<lparr>mn_app_metadata := x\<rparr>) = authority_of L E n"
  "authority_of L E (n\<lparr>pn_self_nickname := x\<rparr>) = authority_of L E n"
  by (simp_all add: authority_of_def with_gate_def with_config_def node_audit_def)

lemma authority_of_sel [simp]:
  "au_doc (authority_of L E n) = doc_of L (mn_roster_file n)"
  "au_anchor (authority_of L E n) = anchor_of (ae_toml E) (mn_config n)"
  "au_view (authority_of L E n) = rg_view (mn_gate n)"
  by (simp_all add: authority_of_def)

lemma authority_same:
  assumes "anchor_of (ae_toml E) f = au_anchor (authority_of L E n)"
  shows "authority_of L E (with_config f n) = authority_of L E n"
  unfolding authority_of_upd assms by simp

text \<open>Writers of other keys leave the anchor alone.\<close>

lemma upsert_anchor:
  assumes "toml_roundtrip T" and "upsert_config_strings T ok f table pairs = Inr (f', c)"
  shows "anchor_of T f' = (if table = ''identity'' then
      (case map_of (rev pairs) ''org_root_pk'' of Some v \<Rightarrow> Some v | None \<Rightarrow> anchor_of T f) else anchor_of T f)"
proof -
  obtain doc doc' where d: "config_doc T f = Some doc" "upsert_strings_edit table pairs doc = Inr (doc', c)"
    "config_doc T f' = Some (if c then doc' else doc)"
    by (rule rmw_Inr [OF assms(1) assms(2) [unfolded upsert_config_strings_def]])
  note u = upsert_strings_edit_Inr [OF d(2)]
  show ?thesis
  proof (cases "table = ''identity''")
    case True
    then show ?thesis using d u(1) u(2) [of "''org_root_pk''"] by (simp add: anchor_of_def split: option.splits)
  next
    case False
    then show ?thesis using d u(1) u(3) [of "''identity''"] by (simp add: anchor_of_def table_field_def)
  qed
qed

lemma anchor_written:
  assumes "toml_roundtrip T"
  shows "write_identity_pin T ok f pk org = Inr (f', c) \<Longrightarrow> anchor_of T f' = Some pk"
    and "write_join_pin T ok f org pk uid key = Inr (f', c) \<Longrightarrow> anchor_of T f' = Some pk"
    and "write_identity_user_id T ok f uid = Inr (f', c) \<Longrightarrow> anchor_of T f' = anchor_of T f"
    and "write_identity_nickname T ok f name = Inr (f', c) \<Longrightarrow> anchor_of T f' = anchor_of T f"
    and "write_roster_url T ok f url = Inr (f', c) \<Longrightarrow> anchor_of T f' = anchor_of T f"
  unfolding write_identity_pin_def write_join_pin_def write_identity_user_id_def write_identity_nickname_def
    write_roster_url_def by (drule upsert_anchor [OF assms]; simp)+

text \<open>What the loader calls the pinned root is the anchor.\<close>

lemma decode_identity_root:
  "decode_identity v = Some i \<Longrightarrow> id_org_root_pk i = Option.bind (toml_as_table v) (\<lambda>t. Option.bind (map_of t ''org_root_pk'') toml_as_str)"
  by (auto simp: decode_identity_def bind_eq_Some_conv dest!: opt_key_Some)

lemma load_anchor:
  assumes "toml_roundtrip (ae_toml E)" and "load E f = Some cfg"
  shows "id_org_root_pk (cfg_identity cfg) = anchor_of (ae_toml E) f"
proof -
  obtain V doc where d: "config_doc (ae_toml E) f = Some doc" "decode_config V doc = Some cfg"
    using assms by (auto simp: load_def config_load_def config_doc_def read_config_for_rmw_def toml_roundtrip_def
        bind_eq_Some_conv split: config_file.splits)
  then obtain ident where o': "opt_key decode_identity doc ''identity'' = Some ident" and
    c: "cfg_identity cfg = (case ident of Some i \<Rightarrow> i
              | None \<Rightarrow> \<lparr>id_nickname = None, id_org_id = None, id_org_root_pk = None, id_user_id = None\<rparr>)"
    by (auto simp: decode_config_def bind_eq_Some_conv split: if_splits)
  show ?thesis
  proof (cases "map_of doc ''identity''")
    case None
    then show ?thesis using o' c d by (simp add: opt_key_def anchor_of_def table_field_def)
  next
    case (Some v)
    then obtain i where "decode_identity v = Some i" "cfg_identity cfg = i"
      using o' c by (auto simp: opt_key_def)
    with Some d decode_identity_root [of v i] show ?thesis
      by (cases "toml_as_table v") (simp_all add: anchor_of_def table_field_def)
  qed
qed

end
