(* ===== verification/Authority_Props.thy ===== *)
theory Authority_Props
  imports Authority
begin

text \<open>
  The verbs of \<open>Roster_Install\<close> and \<open>Org_Author\<close> implement the specification of \<open>Authority\<close>; what
  follows for the life of a node, under every failure of a write.
\<close>

subsection \<open>One verb at a time\<close>

text \<open>\<open>ends P m\<close>: whether it failed or not, \<open>m\<close> leaves a state that satisfies \<open>P\<close>.\<close>

definition ends :: "('s \<Rightarrow> bool) \<Rightarrow> ('e + 'a) \<times> 's \<Rightarrow> bool" where
  "ends P m = P (snd m)"

lemma ends_simps [simp]: "ends P (r, s) = P s"
  by (simp add: ends_def)

lemma ends_sbind:
  assumes "\<And>e s. m = (Inl e, s) \<Longrightarrow> P s" and "\<And>x s. m = (Inr x, s) \<Longrightarrow> ends P (f x s)"
  shows "ends P (sbind m f)"
  using assms by (cases m; cases "fst m") auto

lemma ends_pure:
  assumes "P s" and "\<And>x. r = Inr x \<Longrightarrow> ends P (f x s)"
  shows "ends P (sbind (r, s) f)"
  using assms by (cases r) auto

lemma ends_if: "(b \<Longrightarrow> ends P m) \<Longrightarrow> (\<not> b \<Longrightarrow> ends P m') \<Longrightarrow> ends P (if b then m else m')"
  by simp

lemma installed_serial_doc: "installed_serial L (mn_roster_file n) = Inr s \<Longrightarrow> s = au_serial (authority_of L E n)"
  by (auto simp: installed_serial_def au_serial_def doc_of_def split: invite_file.splits option.splits)

lemma authority_confirm [simp]: "authority_of L E (confirm_roster_current io n) = authority_of L E n"
  unfolding confirm_roster_current_def by (simp add: rg_set_last_confirmed_def)

lemma authority_install_view:
  "install_view_and_sever v n = (cs, n') \<Longrightarrow> authority_of L E n' = (authority_of L E n)\<lparr>au_view := Some v\<rparr>"
  by (auto simp: install_view_and_sever_def install_roster_view_and_sever_def Let_def rg_install_def)

lemma authority_reconcile:
  assumes "toml_roundtrip (ae_toml E)"
  shows "authority_of L E (reconcile_user_id_from_roster E ok n) = authority_of L E n"
  using anchor_written(3) [OF assms]
  by (auto simp: reconcile_user_id_from_roster_def Let_def authority_same split: option.splits sum.splits)

lemma authority_audit [simp]: "authority_of L E (audit_successor_adoption ch org n) = authority_of L E n"
  by (simp add: audit_successor_adoption_def split: option.splits)

lemma authority_pin_root:
  assumes "toml_roundtrip (ae_toml E)" and "pin_root E ok pk org n = (r, n')"
  shows "(\<exists>e. r = Inl e \<and> n' = n) \<or>
    r = Inr () \<and> authority_of L E n' = (authority_of L E n)\<lparr>au_anchor := Some pk\<rparr>"
  using assms(2) anchor_written(1) [OF assms(1)]
  by (auto simp: pin_root_def split: sum.splits prod.splits)

lemma authority_store_install:
  assumes "json_text_roundtrip L" and "store_install L ok src k now n = (Inr (v, ch), n')"
  shows "\<exists>r. validate_for_install_with_anchor L r k (au_serial (authority_of L E n)) now = Inr (v, ch) \<and>
    authority_of L E n' = (authority_of L E n)\<lparr>au_doc := Some r\<rparr>"
proof -
  from assms(2) obtain f where f: "install_from_file L ok (mn_roster_file n) src k now = Inr ((v, ch), f)"
    and n': "n' = n\<lparr>mn_roster_file := f\<rparr>"
    by (auto simp: store_install_def split: sum.splits prod.splits)
  from f obtain r s where r: "installed_serial L (mn_roster_file n) = Inr s"
    "validate_for_install_with_anchor L r k s now = Inr (v, ch)" "f = FileBytes (json_to_vec_pretty L (roster_to_value r))"
    unfolding install_from_file_Inr by blast
  have d: "doc_of L f = Some r" using r(3) by (simp add: doc_of_def parse_printed [OF assms(1)])
  show ?thesis using r(2) unfolding installed_serial_doc [OF r(1), where E = E] n' using d by (intro exI [of _ r]) simp
qed

lemma store_install_Inl: "store_install L ok src k now n = (Inl e, n') \<Longrightarrow> n' = n"
  by (auto simp: store_install_def split: sum.splits prod.splits)

text \<open>The last steps of both channels: confirm, swap and sever, reconcile.\<close>

lemma authority_finish:
  assumes "toml_roundtrip (ae_toml E)" and "install_view_and_sever v (confirm_roster_current io n) = (cs, n')"
  shows "authority_of L E (reconcile_user_id_from_roster E ok n') = (authority_of L E n)\<lparr>au_view := Some v\<rparr>"
  using authority_install_view [OF assms(2)] by (simp add: authority_reconcile [OF assms(1)])

lemma anchor_same [simp]: "au_anchor a = Some p \<Longrightarrow> a\<lparr>au_anchor := Some p\<rparr> = a"
  by (cases a) simp

lemma mesh_config_anchor:
  "toml_roundtrip (ae_toml E) \<Longrightarrow> mesh_config_org_root_pk E n = Inr p \<Longrightarrow> p = au_anchor (authority_of L E n)"
  by (auto simp: mesh_config_org_root_pk_def load_anchor split: option.splits)

lemma ok_or_Inr [simp]: "ok_or e x = Inr y \<longleftrightarrow> x = Some y"
  by (cases x) auto

lemma authority_adopt:
  assumes "toml_roundtrip (ae_toml E)" and "adopt_successor_root E ok ch org n = (r, n')"
  shows "(\<exists>e. r = Inl e \<and> authority_of L E n' = authority_of L E n) \<or> r = Inr () \<and> authority_of L E n' =
      (case adopted_root_pk ch of None \<Rightarrow> authority_of L E n | Some s \<Rightarrow> (authority_of L E n)\<lparr>au_anchor := Some s\<rparr>)"
proof (cases "adopted_root_pk ch")
  case (Some s)
  obtain x t where x: "pin_root E ok s org n = (x, t)" by (cases "pin_root E ok s org n")
  show ?thesis using authority_pin_root [OF assms(1) x, where L = L] assms(2) Some
    by (auto simp: adopt_successor_root_def x)
qed (use assms(2) in \<open>simp add: adopt_successor_root_def\<close>)

text \<open>After the document is on disk the pin may fail; only when it succeeds is the view swapped.\<close>

lemma accept_ends:
  assumes T: "toml_roundtrip (ae_toml E)" and p: "c = Some p \<or> c = None \<and> au_anchor a = Some p"
    and k: "parse_org_root_pk L p = Some k"
    and d: "validate_for_install_with_anchor L d k (au_serial a) now = Inr (v, ch)"
    and n: "authority_of L E n = a\<lparr>au_doc := Some d\<rparr>"
    and m: "\<And>e s. m = (Inl e, s) \<Longrightarrow> authority_of L E s = authority_of L E n"
      "\<And>x s. m = (Inr x, s) \<Longrightarrow> authority_of L E s = (authority_of L E n)\<lparr>au_anchor :=
        Some (case adopted_root_pk ch of Some s \<Rightarrow> s | None \<Rightarrow> p)\<rparr>"
  shows "ends (\<lambda>n'. authority_step L a c (authority_of L E n'))
    (sbind m (\<lambda>_ n. case install_view_and_sever v (confirm_roster_current io n) of
       (cs, n) \<Rightarrow> (Inr (f cs), reconcile_user_id_from_roster E ok n)))"
proof (rule ends_sbind)
  show "authority_step L a c (authority_of L E s)" if "m = (Inl e, s)" for e s
    using au_persist [OF p k d] m(1) [OF that] n by simp
  fix x s assume s: "m = (Inr x, s)"
  obtain cs t where t: "install_view_and_sever v (confirm_roster_current io s) = (cs, t)"
    by (cases "install_view_and_sever v (confirm_roster_current io s)")
  have "authority_of L E (reconcile_user_id_from_roster E ok t) = a\<lparr>au_doc := Some d,
      au_anchor := Some (case adopted_root_pk ch of Some s \<Rightarrow> s | None \<Rightarrow> p), au_view := Some v\<rparr>"
    using authority_finish [OF T t] m(2) [OF s] n by simp
  then show "ends (\<lambda>n'. authority_step L a c (authority_of L E n'))
      (case install_view_and_sever v (confirm_roster_current io s) of
         (cs, n) \<Rightarrow> (Inr (f cs), reconcile_user_id_from_roster E ok n))"
    using au_accept [OF p k d] unfolding t by simp
qed

lemma converge_simulates:
  assumes T: "toml_roundtrip (ae_toml E)" and J: "json_text_roundtrip L"
  shows "ends (\<lambda>n'. authority_step L (authority_of L E n) None (authority_of L E n'))
    (converge_roster_bytes L E io bs serial n)" (is "ends ?P _")
proof -
  have store: "ends ?P (sbind (store_install L (ii_roster_ok io) (FileBytes bs) k (ii_now io) n) (\<lambda>(view, anchor) n.
      sbind (adopt_successor_root E (ii_pin_ok io) anchor (v_org_id view) n) (\<lambda>_ n.
      case install_view_and_sever view (confirm_roster_current io n) of
        (_, n) \<Rightarrow> (Inr True, reconcile_user_id_from_roster E (ii_reconcile_ok io) n))))"
    if "mesh_config_org_root_pk E n = Inr (Some p)" and k: "parse_org_root_pk L p = Some k" for p k
  proof (rule ends_sbind)
    fix x s assume s: "store_install L (ii_roster_ok io) (FileBytes bs) k (ii_now io) n = (Inr x, s)"
    obtain v ch where x: "x = (v, ch)" by (cases x)
    obtain d where d: "validate_for_install_with_anchor L d k (au_serial (authority_of L E n)) (ii_now io) = Inr (v, ch)"
      "authority_of L E s = (authority_of L E n)\<lparr>au_doc := Some d\<rparr>"
      using authority_store_install [OF J s [unfolded x]] by blast
    have p: "au_anchor (authority_of L E n) = Some p" using mesh_config_anchor [OF T that(1), where L = L] by simp
    have p': "None = Some p \<or> None = None \<and> au_anchor (authority_of L E n) = Some p" using p by blast
    show "ends ?P ((\<lambda>(view, anchor) n. sbind (adopt_successor_root E (ii_pin_ok io) anchor (v_org_id view) n) (\<lambda>_ n.
        case install_view_and_sever view (confirm_roster_current io n) of
          (_, n) \<Rightarrow> (Inr True, reconcile_user_id_from_roster E (ii_reconcile_ok io) n))) x s)"
      unfolding x prod.case
    proof (rule accept_ends [OF T p' k d])
      fix y t assume "adopt_successor_root E (ii_pin_ok io) ch (v_org_id v) s = (Inr y, t)"
      from authority_adopt [OF T this, where L = L] p d(2)
      show "authority_of L E t = (authority_of L E s)\<lparr>au_anchor := Some (case adopted_root_pk ch of Some s \<Rightarrow> s | None \<Rightarrow> p)\<rparr>"
        by (auto split: option.splits)
    qed (use authority_adopt [OF T, where L = L] in blast)
  qed (drule store_install_Inl, simp add: au_idle)
  show ?thesis unfolding converge_roster_bytes_def
    by (intro ends_if ends_pure) (auto intro: au_idle store)
qed

lemma install_simulates:
  assumes T: "toml_roundtrip (ae_toml E)" and J: "json_text_roundtrip L"
  shows "ends (\<lambda>n'. authority_step L (authority_of L E n) c (authority_of L E n')) (install_roster L E io src c n)"
    (is "ends ?P _")
proof -
  have store: "ends ?P (sbind (store_install L (ii_roster_ok io) src k (ii_now io) n) (\<lambda>(view, anchor) n.
      let n = audit_successor_adoption anchor (v_org_id view) n;
          pk_str = (case adopted_root_pk anchor of Some a \<Rightarrow> a | None \<Rightarrow> p)
      in sbind (if c \<noteq> None \<or> adopted_root_pk anchor \<noteq> None
                then pin_root E (ii_pin_ok io) pk_str (v_org_id view) n else (Inr (), n)) (\<lambda>_ n.
         case install_view_and_sever view (confirm_roster_current io n) of
           (severed, n) \<Rightarrow>
             (Inr \<lparr>ir_org_id = v_org_id view, ir_serial = v_serial view, ir_severed = severed\<rparr>,
              reconcile_user_id_from_roster E (ii_reconcile_ok io) n))))"
    if p: "c = Some p \<or> c = None \<and> au_anchor (authority_of L E n) = Some p" and k: "parse_org_root_pk L p = Some k" for p k
  proof (rule ends_sbind)
    fix x s assume s: "store_install L (ii_roster_ok io) src k (ii_now io) n = (Inr x, s)"
    obtain v ch where x: "x = (v, ch)" by (cases x)
    obtain d where d: "validate_for_install_with_anchor L d k (au_serial (authority_of L E n)) (ii_now io) = Inr (v, ch)"
      "authority_of L E s = (authority_of L E n)\<lparr>au_doc := Some d\<rparr>"
      using authority_store_install [OF J s [unfolded x]] by blast
    define t where "t = audit_successor_adoption ch (v_org_id v) s"
    have t: "authority_of L E t = (authority_of L E n)\<lparr>au_doc := Some d\<rparr>" using d(2) by (simp add: t_def)
    define q where "q = (case adopted_root_pk ch of Some a \<Rightarrow> a | None \<Rightarrow> p)"
    show "ends ?P ((\<lambda>(view, anchor) n.
        let n = audit_successor_adoption anchor (v_org_id view) n;
            pk_str = (case adopted_root_pk anchor of Some a \<Rightarrow> a | None \<Rightarrow> p)
        in sbind (if c \<noteq> None \<or> adopted_root_pk anchor \<noteq> None
                  then pin_root E (ii_pin_ok io) pk_str (v_org_id view) n else (Inr (), n)) (\<lambda>_ n.
           case install_view_and_sever view (confirm_roster_current io n) of
             (severed, n) \<Rightarrow>
               (Inr \<lparr>ir_org_id = v_org_id view, ir_serial = v_serial view, ir_severed = severed\<rparr>,
                reconcile_user_id_from_roster E (ii_reconcile_ok io) n))) x s)"
      unfolding x prod.case Let_def t_def [symmetric] q_def [symmetric]
    proof (rule accept_ends [OF T p k d(1) t])
      fix e u assume "(if c \<noteq> None \<or> adopted_root_pk ch \<noteq> None
          then pin_root E (ii_pin_ok io) q (v_org_id v) t else (Inr (), t)) = (Inl e, u)"
      then show "authority_of L E u = authority_of L E t"
        by (auto split: if_splits dest: authority_pin_root [OF T, where L = L])
    next
      fix y u assume "(if c \<noteq> None \<or> adopted_root_pk ch \<noteq> None
          then pin_root E (ii_pin_ok io) q (v_org_id v) t else (Inr (), t)) = (Inr y, u)"
      then show "authority_of L E u = (authority_of L E t)\<lparr>au_anchor := Some (case adopted_root_pk ch of Some s \<Rightarrow> s | None \<Rightarrow> p)\<rparr>"
        using p t by (auto simp: q_def split: if_splits dest: authority_pin_root [OF T, where L = L])
    qed
  qed (drule store_install_Inl, simp add: au_idle)
  have root: "c = Some p \<or> c = None \<and> au_anchor (authority_of L E n) = Some p"
    if "(case c of Some s \<Rightarrow> Inr s | None \<Rightarrow> rbind (mesh_config_org_root_pk E n) (ok_or NoOrgRoot)) = Inr p" for p
    using that mesh_config_anchor [OF T, of n "Some p" L] by (auto simp: result_simps split: option.splits)
  show ?thesis unfolding install_roster_def
    by (rule ends_pure, rule au_idle, rule ends_pure, rule au_idle, rule store) (auto dest: root)
qed

lemma ends_snd: "ends P m \<Longrightarrow> P (snd m)"
  by (simp add: ends_def)

lemma ends_weaken: "ends P m \<Longrightarrow> (\<And>s. P s \<Longrightarrow> Q s) \<Longrightarrow> ends Q m"
  by (simp add: ends_def)

lemma ends_map: "ends P (r, s) \<Longrightarrow> ends P (r', s)"
  by simp

lemma install_authored_simulates:
  assumes T: "toml_roundtrip (ae_toml E)" and J: "json_text_roundtrip L"
    and n: "authority_of L E n = authority_of L E n0"
  shows "ends (\<lambda>n'. authority_step L (authority_of L E n0) c (authority_of L E n')) (install_authored L E io r c n)"
  using install_simulates [OF T J, of n c io "FileBytes (json_to_vec L (roster_to_value r))"] n
  by (auto simp: install_authored_def au_idle ends_def split: prod.splits)

lemma set_roster_url_authority:
  assumes "toml_roundtrip (ae_toml E)"
  shows "authority_of L E (snd (set_roster_url E ok url n)) = authority_of L E n"
  using anchor_written(5) [OF assms]
  by (auto simp: set_roster_url_def respawn_poll_loop_def Let_def authority_same split: sum.splits option.splits)

lemma set_nickname_authority:
  assumes "toml_roundtrip (ae_toml E)"
  shows "authority_of L E (snd (set_nickname E ok name n)) = authority_of L E n"
  using anchor_written(4) [OF assms] by (auto simp: set_nickname_def Let_def authority_same split: sum.splits)

lemma org_join_simulates:
  assumes "toml_roundtrip (ae_toml E)"
  shows "ends (\<lambda>n'. authority_step L (authority_of L E n) (Some pk) (authority_of L E n'))
    (org_join L E ok org pk uid key n)"
  unfolding org_join_def
  by (rule ends_pure, rule au_idle)
    (auto split: sum.splits intro: au_idle au_choose simp: anchor_written(2) [OF assms])

lemma boot_view_restart:
  assumes "toml_roundtrip (ae_toml E)" and "load E (mn_config n) = Some cfg"
  shows "boot_view L cfg (mn_roster_file n) = restart_view L (authority_of L E n)"
  unfolding boot_view_def restart_view_def load_anchor [OF assms]
  by (auto simp: rs_load_def doc_of_def lift_invalid_def intro!: Option.bind_cong split: invite_file.splits option.splits sum.splits)

lemma boot_simulates:
  assumes T: "toml_roundtrip (ae_toml E)"
  shows "ends (\<lambda>n'. authority_step L (authority_of L E n) c (authority_of L E n')) (boot_roster L E io grace stale n)"
proof (cases "load E (mn_config n)")
  case (Some cfg)
  define g where "g = (case boot_view L cfg (mn_roster_file n) of
      Some v \<Rightarrow> rg_install (rg_with_freshness grace stale) v | None \<Rightarrow> rg_with_freshness grace stale)"
  have g: "rg_view g = restart_view L (authority_of L E n)"
    unfolding g_def boot_view_restart [OF T Some] by (simp add: rg_install_def rg_with_freshness_def split: option.splits)
  have "authority_of L E (boot_confirm io (with_gate g n)) = authority_of L E (with_gate g n)"
    by (auto simp: boot_confirm_def rg_set_last_confirmed_def with_gate_def split: option.splits sum.splits)
  then show ?thesis using Some g by (simp add: boot_roster_def g_def [symmetric] Let_def au_restart)
qed (simp add: boot_roster_def au_idle)

subsection \<open>Authoring\<close>

lemma ends_result: "ends P m \<Longrightarrow> ends P (sbind m (\<lambda>x n. (Inr (g x), n)))"
  by (cases m; cases "fst m") auto

lemma ends_prod: "(\<And>a b. x = (a, b) \<Longrightarrow> ends P (f a b s)) \<Longrightarrow> ends P ((case x of (a, b) \<Rightarrow> f a b) s)"
  by (cases x) simp

text \<open>A verb that reads, edits, signs and installs is one step, or none.\<close>

lemma org_approve_simulates:
  assumes T: "toml_roundtrip (ae_toml E)" and J: "json_text_roundtrip L"
  shows "ends (\<lambda>n'. authority_step L (authority_of L E n) None (authority_of L E n'))
    (org_approve L E io line groups uid n)"
  unfolding org_approve_def Let_def
  by (intro ends_pure ends_prod ends_if ends_result install_authored_simulates [OF T J refl])
    (auto intro: au_idle)

lemma org_revoke_simulates:
  assumes T: "toml_roundtrip (ae_toml E)" and J: "json_text_roundtrip L"
  shows "ends (\<lambda>n'. authority_step L (authority_of L E n) None (authority_of L E n'))
    (org_revoke L E io target user_key n)"
  unfolding org_revoke_def Let_def
  by (intro ends_pure ends_prod ends_if ends_result install_authored_simulates [OF T J refl])
    (auto intro: au_idle)

lemma ends_result_then:
  "ends P m \<Longrightarrow> (\<And>s. P s \<Longrightarrow> P (h s)) \<Longrightarrow> ends P (sbind m (\<lambda>x n. (Inr (g x), h n)))"
  by (cases m; cases "fst m") auto

lemma org_create_simulates:
  assumes T: "toml_roundtrip (ae_toml E)" and J: "json_text_roundtrip L"
  shows "ends (\<lambda>n'. authority_step L (authority_of L E n) (Some (encode_b64u L (ed_pk L (ai_generated io)))) (authority_of L E n'))
    (org_create L E io name expires url n)" (is "ends ?P _")
proof (cases "load_or_generate (ai_key_ok io) (ai_generated io) (mn_root_key n)")
  case (Inl e)
  then show ?thesis by (simp add: org_create_def Let_def au_idle)
next
  case (Inr x)
  obtain root created f where x: "x = ((root, created), f)" by (metis prod.exhaust)
  show ?thesis
  proof (cases created)
    case True
    with Inr x have root: "root = ai_generated io" by (auto simp: load_or_generate_def split: invite_file.splits if_splits)
    have n: "authority_of L E (n\<lparr>mn_root_key := f\<rparr>) = authority_of L E n" by simp
    show ?thesis unfolding org_create_def Let_def Inr x sum.case prod.case root using True
      by (intro ends_if ends_pure ends_result_then install_authored_simulates [OF T J n])
        (auto simp: au_idle set_roster_url_authority [OF T] split: option.split)
  qed (use Inr x in \<open>simp add: org_create_def Let_def au_idle\<close>)
qed

definition next_root :: "libs \<Rightarrow> author_io \<Rightarrow> mesh_node \<Rightarrow> string option" where
  "next_root L io n = (case load_or_generate (ai_key_ok io) (ai_generated io) (mn_next_key n) of
     Inl _ \<Rightarrow> None | Inr ((key, _), _) \<Rightarrow> Some (encode_b64u L (ed_pk L key)))"

lemma restore_root_authority [simp]: "authority_of L E (restore_root ok f n) = authority_of L E n"
  by (simp add: restore_root_def split: invite_file.splits sum.splits)

lemma org_rotate_simulates:
  assumes T: "toml_roundtrip (ae_toml E)" and J: "json_text_roundtrip L"
  shows "ends (\<lambda>n'. authority_step L (authority_of L E n) (next_root L io n) (authority_of L E n')) (org_rotate L E io n)"
    (is "ends ?P _")
proof (cases "load_or_generate (ai_key_ok io) (ai_generated io) (mn_next_key n)")
  case (Inl e)
  then show ?thesis unfolding org_rotate_def by (intro ends_pure ends_prod) (auto intro: au_idle)
next
  case (Inr x)
  obtain key created f where x: "x = ((key, created), f)" by (metis prod.exhaust)
  define pk where "pk = encode_b64u L (ed_pk L key)"
  have c: "next_root L io n = Some pk" by (simp add: next_root_def Inr x pk_def)
  have install: "ends ?P (case install_authored L E (ai_install io) r (Some pk) m of
      (Inl e, n) \<Rightarrow> (Inl e, restore_root ok g n) | (Inr installed, n) \<Rightarrow> (Inr (h installed), n))"
    if "authority_of L E m = authority_of L E n" for r m ok g and h :: "install_result \<Rightarrow> rotate_result"
    using install_authored_simulates [OF T J that, of "Some pk" "ai_install io" r] unfolding c
    by (cases "install_authored L E (ai_install io) r (Some pk) m"; cases "fst (install_authored L E (ai_install io) r (Some pk) m)") auto
  show ?thesis unfolding org_rotate_def Let_def
    apply (rule ends_pure, rule au_idle, rule ends_prod)
    apply (simp only: Inr x sum.case prod.case pk_def [symmetric])
    apply (intro ends_pure ends_if install)
        apply (simp_all add: au_idle)
    done
qed

subsection \<open>The life of a node\<close>

text \<open>
  Every verb and channel that reads or writes the roster, the pinned root or the view in force, with
  any clock and any pattern of failing writes. The label is the root the operator names in the step.
\<close>

inductive node_step :: "libs \<Rightarrow> access_env \<Rightarrow> mesh_node \<Rightarrow> string option \<Rightarrow> mesh_node \<Rightarrow> bool" for L E where
  ns_converge: "node_step L E n None (snd (converge_roster_bytes L E io bs serial n))"
| ns_install: "node_step L E n c (snd (install_roster L E io src c n))"
| ns_join: "node_step L E n (Some pk) (snd (org_join L E ok org pk uid key n))"
| ns_url: "node_step L E n None (snd (set_roster_url E ok url n))"
| ns_nickname: "node_step L E n None (snd (set_nickname E ok name n))"
| ns_metadata: "node_step L E n None (snd (set_app_metadata metadata n))"
| ns_boot: "node_step L E n None (snd (boot_roster L E io grace stale n))"
| ns_create: "node_step L E n (Some (encode_b64u L (ed_pk L (ai_generated aio)))) (snd (org_create L E aio name expires url n))"
| ns_approve: "node_step L E n None (snd (org_approve L E aio line groups uid n))"
| ns_revoke: "node_step L E n None (snd (org_revoke L E aio target user_key n))"
| ns_rotate: "node_step L E n (next_root L aio n) (snd (org_rotate L E aio n))"

definition roster_laws :: "libs \<Rightarrow> access_env \<Rightarrow> bool" where
  "roster_laws L E \<longleftrightarrow> toml_roundtrip (ae_toml E) \<and> json_text_roundtrip L"

lemma node_simulates:
  assumes "roster_laws L E" and "node_step L E n c n'"
  shows "authority_step L (authority_of L E n) c (authority_of L E n')"
proof -
  have T: "toml_roundtrip (ae_toml E)" and J: "json_text_roundtrip L" using assms(1) by (auto simp: roster_laws_def)
  note verbs = converge_simulates [OF T J] install_simulates [OF T J] org_join_simulates [OF T] boot_simulates [OF T]
    org_create_simulates [OF T J] org_approve_simulates [OF T J] org_revoke_simulates [OF T J] org_rotate_simulates [OF T J]
  from assms(2) show ?thesis
    by cases (auto intro!: verbs [THEN ends_snd] simp: set_roster_url_authority [OF T] set_nickname_authority [OF T]
        set_app_metadata_def au_idle)
qed

interpretation node: simulation "roster_laws L E" "node_step L E" "authority_step L" "authority_of L E" for L E
  by unfold_locales (rule node_simulates)

end
