(* ===== verification/Install_Props.thy ===== *)
theory Install_Props
  imports Authority_Props Roster_Props Pairing_Props
begin

text \<open>
  The theorems of the roster channels: the refinement, what it implies for the life of a node, and
  what a successful approval, revocation or a failed rotation leaves behind.
\<close>

subsection \<open>What one installation leaves\<close>

text \<open>The parts of a node no installation touches.\<close>

definition frame :: "mesh_node \<Rightarrow> disk_file \<times> disk_file \<times> conn_registry" where
  "frame n = (mn_root_key n, mn_next_key n, dm_registry (pn_daemon n))"

lemma frame_upd [simp]:
  "frame (with_gate g n) = frame n" "frame (with_config f n) = frame n" "frame (node_audit e t n) = frame n"
  "frame (n\<lparr>mn_roster_file := d\<rparr>) = frame n" "frame (n\<lparr>mn_confirmed := s\<rparr>) = frame n"
  "frame (n\<lparr>mn_closed := cs\<rparr>) = frame n" "frame (audit_successor_adoption ch org n) = frame n"
  "frame (confirm_roster_current io n) = frame n" "frame (reconcile_user_id_from_roster E ok n) = frame n"
  by (simp_all add: frame_def with_gate_def with_config_def node_audit_def audit_successor_adoption_def
      confirm_roster_current_def reconcile_user_id_from_roster_def Let_def split: option.split sum.split)

lemma frame_store: "ends (\<lambda>n'. frame n' = frame n) (store_install L ok src k now n)"
  by (auto simp: store_install_def split: sum.split)

lemma frame_pin: "ends (\<lambda>n'. frame n' = frame n) (pin_root E ok pk org n)"
  by (auto simp: pin_root_def split: sum.split)

lemma frame_swap: "frame (snd (install_view_and_sever v n)) = frame n"
  by (simp add: install_view_and_sever_def split: prod.split)

lemma ends_keep:
  assumes "ends (\<lambda>t. F t = F s0) m" and "\<And>x s. ends (\<lambda>t. F t = F s) (f x s)"
  shows "ends (\<lambda>t. F t = F s0) (sbind m f)"
  using assms by (cases m; cases "fst m") (auto simp: ends_def)

lemma ends_keep_if: "ends P m \<Longrightarrow> P s \<Longrightarrow> ends P (if b then m else (Inr x, s))"
  by simp

lemma install_frame: "ends (\<lambda>n'. frame n' = frame n) (install_roster L E io src c n)"
  unfolding install_roster_def Let_def
proof (intro ends_keep ends_prod)
  fix v :: roster_view and ch :: anchor_change and n n1 :: mesh_node and p :: string and k
  show "ends (\<lambda>t. frame t = frame n) (store_install L (ii_roster_ok io) src k (ii_now io) n)" by (rule frame_store)
  show "ends (\<lambda>t. frame t = frame n1)
     (if c \<noteq> None \<or> adopted_root_pk ch \<noteq> None
      then pin_root E (ii_pin_ok io) p (v_org_id v) (audit_successor_adoption ch (v_org_id v) n1)
      else (Inr (), audit_successor_adoption ch (v_org_id v) n1))"
    using frame_pin [of "audit_successor_adoption ch (v_org_id v) n1" E] by simp
  show "ends (\<lambda>t. frame t = frame n)
     (case install_view_and_sever v (confirm_roster_current io n) of
        (severed, n) \<Rightarrow> (Inr \<lparr>ir_org_id = v_org_id v, ir_serial = v_serial v, ir_severed = severed\<rparr>,
          reconcile_user_id_from_roster E (ii_reconcile_ok io) n))"
    using frame_swap [of v "confirm_roster_current io n"]
    by (cases "install_view_and_sever v (confirm_roster_current io n)") simp
qed simp_all

text \<open>A successful installation, from its result back to the document.\<close>

lemma install_roster_Inr:
  assumes T: "toml_roundtrip (ae_toml E)" and J: "json_text_roundtrip L"
    and "install_roster L E io src c n = (Inr res, n')"
  obtains bs r k now old v ch where "src = FileBytes bs" and "parse_roster L bs = Some r"
    and "validate_for_install_with_anchor L r k old now = Inr (v, ch)"
    and "doc_of L (mn_roster_file n') = Some r" and "rg_view (mn_gate n') = Some v"
    and "ir_serial res = v_serial v"
    and "ir_severed res = sever_matching (dm_registry (pn_daemon n)) (\<lambda>eid user.
      should_sever eid user (set (v_revoked v)) (set (device_endpoints v)))"
    and "set (ir_severed res) \<subseteq> mn_closed n'"
proof -
  from assms(3) obtain p k n1 v ch y n2 where
    st: "store_install L (ii_roster_ok io) src k (ii_now io) n = (Inr (v, ch), n1)" and
    m0: "(if c \<noteq> None \<or> adopted_root_pk ch \<noteq> None
       then pin_root E (ii_pin_ok io) (case adopted_root_pk ch of Some a \<Rightarrow> a | None \<Rightarrow> p) (v_org_id v)
         (audit_successor_adoption ch (v_org_id v) n1)
       else (Inr (), audit_successor_adoption ch (v_org_id v) n1)) = (Inr y, n2)" and
    last: "(case install_view_and_sever v (confirm_roster_current io n2) of
          (severed, n) \<Rightarrow>
            (Inr \<lparr>ir_org_id = v_org_id v, ir_serial = v_serial v, ir_severed = severed\<rparr>,
             reconcile_user_id_from_roster E (ii_reconcile_ok io) n)) = (Inr res, n')"
    unfolding install_roster_def Let_def
    apply (elim sbind_InrE)
    apply (simp only: split_paired_all prod.case prod.inject)
    apply (elim sbind_InrE conjE)
    apply hypsubst
    subgoal premises prems for p _ k _ v ch n1 y n2
      by (rule prems(1) [where ?n1.0 = n1 and ?n2.0 = n2 and k = k and v = v and ch = ch and p = p and y = y]) ((fact prems)+, insert prems, simp split: prod.splits)
    done
  from st obtain f where f: "install_from_file L (ii_roster_ok io) (mn_roster_file n) src k (ii_now io) = Inr ((v, ch), f)"
    and n1: "n1 = n\<lparr>mn_roster_file := f\<rparr>"
    by (auto simp: store_install_def split: sum.splits prod.splits)
  from f obtain bs r old where r: "src = FileBytes bs" "parse_roster L bs = Some r"
    "validate_for_install_with_anchor L r k old (ii_now io) = Inr (v, ch)" "f = FileBytes (json_to_vec_pretty L (roster_to_value r))"
    unfolding install_from_file_Inr by blast
  have doc: "doc_of L (mn_roster_file n1) = Some r" using r(4) n1 by (simp add: doc_of_def parse_printed [OF J])
  define t where "t = audit_successor_adoption ch (v_org_id v) n1"
  note m = m0 [folded t_def]
  have "\<exists>q. a = a\<lparr>au_anchor := q\<rparr>" for a :: authority by (rule exI [of _ "au_anchor a"]) simp
  then have "\<exists>q. authority_of L E n2 = (authority_of L E n1)\<lparr>au_anchor := q\<rparr>"
    using m by (auto simp: t_def split: if_splits dest!: authority_pin_root [OF T, where L = L])
  then have au: "au_doc (authority_of L E n2) = Some r" using doc by (metis authority.select_convs(1) authority.surjective
      authority.update_convs(2) authority_of_sel(1))
  obtain cs n3 where sw: "install_view_and_sever v (confirm_roster_current io n2) = (cs, n3)" by fastforce
  have n': "n' = reconcile_user_id_from_roster E (ii_reconcile_ok io) n3" and res: "ir_severed res = cs" "ir_serial res = v_serial v"
    using last sw by auto
  have fin: "authority_of L E n' = (authority_of L E n2)\<lparr>au_view := Some v\<rparr>"
    unfolding n' by (rule authority_finish [OF T sw])
  have pin: "frame u = frame t" if "pin_root E ok pk org t = (x, u)" for ok pk org x u
    using frame_pin [of t E ok pk org] that by simp
  have "frame n2 = frame t" using m by (auto split: if_splits dest: pin)
  then have "frame n2 = frame n" by (simp add: t_def n1)
  then have cs: "cs = sever_matching (dm_registry (pn_daemon n)) (\<lambda>eid user.
      should_sever eid user (set (v_revoked v)) (set (device_endpoints v)))" and closed: "set cs \<subseteq> mn_closed n3"
    using sw by (auto simp: install_view_and_sever_def install_roster_view_and_sever_def Let_def node_audit_def
        with_gate_def confirm_roster_current_def frame_def)
  have closed': "mn_closed n' = mn_closed n3"
    unfolding n' by (simp add: reconcile_user_id_from_roster_def with_config_def Let_def split: option.split sum.split)
  show thesis
  proof (rule that [OF r(1-3)])
    show "doc_of L (mn_roster_file n') = Some r" "rg_view (mn_gate n') = Some v"
      using arg_cong [OF fin, of au_doc] arg_cong [OF fin, of au_view] au by simp_all
    show "ir_severed res = sever_matching (dm_registry (pn_daemon n)) (\<lambda>eid user.
      should_sever eid user (set (v_revoked v)) (set (device_endpoints v)))" "set (ir_severed res) \<subseteq> mn_closed n'"
      using cs closed closed' res by simp_all
  qed (use res in simp_all)
qed

subsection \<open>An organisation for the witnesses\<close>

definition demo_mesh :: mesh_node where
  "demo_mesh = pair_node.extend demo_alice \<lparr>mn_roster_file = FileAbsent, mn_confirmed = SidecarAbsent,
     mn_root_key = FileBytes demo_root, mn_next_key = FileAbsent, mn_poll_url = None, mn_transport_live = True,
     mn_app_metadata = [], mn_closed = {}\<rparr>"

definition demo_pin :: string where "demo_pin = encode_b64u demo_libs demo_root"

definition demo_writes :: install_io where
  "demo_writes = \<lparr>ii_now = 4, ii_stage_ok = True, ii_roster_ok = True, ii_pin_ok = True, ii_confirm_ok = True,
     ii_reconcile_ok = True\<rparr>"

definition demo_source_file :: "roster \<Rightarrow> disk_file" where
  "demo_source_file r = FileBytes (json_to_vec demo_libs (roster_to_value r))"

lemma demo_root_pk [simp]: "ed_pk demo_libs demo_root = demo_root"
  by (simp add: demo_libs_def demo_root_def)

lemma demo_pin_parses [simp]: "parse_org_root_pk demo_libs demo_pin = Some demo_root"
  by (simp add: parse_org_root_pk_def demo_pin_def decode_encode_b64u [OF demo_b64]) (simp add: demo_libs_def demo_root_def)

lemma demo_laws [simp]: "roster_laws demo_libs demo_env"
  using demo_toml_ok by (simp add: roster_laws_def demo_env_def toml_ok_def)

lemma demo_pin_write:
  assumes "tables_distinct doc" "map_of doc ''identity'' = None"
  shows "\<exists>doc'. write_identity_pin demo_toml True (demo_file doc) pk org = Inr (demo_file doc', True) \<and> tables_distinct doc' \<and>
    services_table doc' = services_table doc"
proof -
  let ?d = "tbl_insert ''identity'' (TTable [(''org_id'', TString org), (''org_root_pk'', TString pk)]) doc"
  have "upsert_strings_edit ''identity'' [(''org_root_pk'', pk), (''org_id'', org)] doc = Inr (?d, True)"
    using assms(2) by (simp add: upsert_strings_edit_def)
  moreover have "tables_distinct ?d" using assms(1) by (simp add: tables_distinct_def)
  ultimately have "write_identity_pin demo_toml True (demo_file doc) pk org = Inr (demo_file ?d, True)" "tables_distinct ?d"
    using demo_rmw [OF assms(1), of _ ?d True] by (simp_all add: write_identity_pin_def upsert_config_strings_def)
  moreover have "services_table ?d = services_table doc" by simp
  ultimately show ?thesis by blast
qed

text \<open>An installation with every write succeeding.\<close>

lemma install_roster_step:
  assumes "src = FileBytes bs" "parse_roster L bs = Some r" "parse_org_root_pk L p = Some k"
    and "c = Some p \<or> c = None \<and> mesh_config_org_root_pk E n = Inr (Some p)"
    and "installed_serial L (mn_roster_file n) = Inr s" "ii_roster_ok io"
    and "validate_for_install_with_anchor L r k s (ii_now io) = Inr (v, \<lparr>adopted_root_pk = None\<rparr>)"
  shows "install_roster L E io src c n =
    (let n = n\<lparr>mn_roster_file := FileBytes (json_to_vec_pretty L (roster_to_value r))\<rparr> in
     sbind (if c \<noteq> None then pin_root E (ii_pin_ok io) p (v_org_id v) n else (Inr (), n)) (\<lambda>_ n.
        case install_view_and_sever v (confirm_roster_current io n) of
          (severed, n) \<Rightarrow>
            (Inr \<lparr>ir_org_id = v_org_id v, ir_serial = v_serial v, ir_severed = severed\<rparr>,
             reconcile_user_id_from_roster E (ii_reconcile_ok io) n)))"
proof -
  let ?f = "FileBytes (json_to_vec_pretty L (roster_to_value r))"
  have "install_from_file L (ii_roster_ok io) (mn_roster_file n) src k (ii_now io) = Inr ((v, \<lparr>adopted_root_pk = None\<rparr>), ?f)"
    unfolding install_from_file_Inr using assms(1,2,5-7) by blast
  then have st: "store_install L (ii_roster_ok io) src k (ii_now io) n =
      (Inr (v, \<lparr>adopted_root_pk = None\<rparr>), n\<lparr>mn_roster_file := ?f\<rparr>)" by (simp add: store_install_def)
  have root: "(case c of Some s \<Rightarrow> Inr s | None \<Rightarrow> rbind (mesh_config_org_root_pk E n) (ok_or NoOrgRoot)) = Inr p"
    using assms(4) by auto
  show ?thesis by (simp add: install_roster_def root assms(3) st audit_successor_adoption_def)
qed

lemma install_roster_ok:
  assumes "src = FileBytes bs" "parse_roster L bs = Some r" "parse_org_root_pk L p = Some k"
    and "c = Some p \<or> c = None \<and> mesh_config_org_root_pk E n = Inr (Some p)"
    and "installed_serial L (mn_roster_file n) = Inr s" "ii_roster_ok io"
    and "validate_for_install_with_anchor L r k s (ii_now io) = Inr (v, \<lparr>adopted_root_pk = None\<rparr>)"
    and "c = None \<or> is_ok (write_identity_pin (ae_toml E) (ii_pin_ok io) (mn_config n) p (v_org_id v))"
  shows "\<exists>res n'. install_roster L E io src c n = (Inr res, n')"
proof -
  let ?n = "n\<lparr>mn_roster_file := FileBytes (json_to_vec_pretty L (roster_to_value r))\<rparr>"
  have "\<exists>m. (if c \<noteq> None then pin_root E (ii_pin_ok io) p (v_org_id v) ?n else (Inr (), ?n)) = (Inr (), m)"
    using assms(8) by (auto simp: pin_root_def is_ok_def split: sum.splits)
  then show ?thesis unfolding install_roster_step [OF assms(1-7)] Let_def by (auto split: prod.split)
qed

lemma demo_doc_identity [simp]: "map_of (demo_doc allow) ''identity'' = None"
  by (simp add: demo_doc_def)

lemma demo_mesh_sel [simp]:
  "mn_roster_file demo_mesh = FileAbsent" "rg_view (mn_gate demo_mesh) = None"
  "mn_config demo_mesh = demo_file (demo_doc [''b64u:bob''])" "mn_root_key demo_mesh = FileBytes demo_root"
  by (simp_all add: demo_mesh_def pair_node.defs demo_alice_def rg_empty_def)

lemma demo_installs:
  obtains res n' where "install_roster demo_libs demo_env demo_writes (demo_source_file demo_signed) (Some demo_pin) demo_mesh = (Inr res, n')"
proof -
  have s: "sign demo_libs demo_root demo_roster = Inr demo_signed"
    using canonical_bytes_total [OF demo_jcs, of demo_roster] by (auto simp: sign_def demo_signed_def)
  then have v: "validate_for_install_with_anchor demo_libs demo_signed demo_root 0 4 =
      Inr (spec_view demo_libs demo_roster 6, \<lparr>adopted_root_pk = None\<rparr>)"
    using signed_installs [OF demo_b64 demo_ed25519 demo_jcs demo_wf demo_format, of 0 4 demo_root] by auto
  obtain doc' where "write_identity_pin demo_toml True (demo_file (demo_doc [''b64u:bob''])) demo_pin (ro_org_id demo_roster) =
      Inr (demo_file doc', True)"
    using demo_pin_write [of "demo_doc [''b64u:bob'']" demo_pin "ro_org_id demo_roster"] by auto
  then have w: "is_ok (write_identity_pin (ae_toml demo_env) (ii_pin_ok demo_writes) (mn_config demo_mesh) demo_pin
      (v_org_id (spec_view demo_libs demo_roster 6)))"
    by (simp add: demo_env_def demo_writes_def)
  have "\<exists>res n'. install_roster demo_libs demo_env demo_writes (demo_source_file demo_signed) (Some demo_pin) demo_mesh = (Inr res, n')"
  proof (rule install_roster_ok)
    show "parse_roster demo_libs (json_to_vec demo_libs (roster_to_value demo_signed)) = Some demo_signed"
      by (rule parse_printed(1) [OF demo_json_text])
    show "validate_for_install_with_anchor demo_libs demo_signed demo_root 0 (ii_now demo_writes) =
        Inr (spec_view demo_libs demo_roster 6, \<lparr>adopted_root_pk = None\<rparr>)" by (simp add: v demo_writes_def)
    show "Some demo_pin = None \<or> is_ok (write_identity_pin (ae_toml demo_env) (ii_pin_ok demo_writes) (mn_config demo_mesh) demo_pin
      (v_org_id (spec_view demo_libs demo_roster 6)))" using w by simp
  qed (simp_all add: demo_source_file_def installed_serial_def demo_writes_def)
  then show thesis using that by blast
qed

lemma demo_runs:
  obtains res n' where "install_roster demo_libs demo_env demo_writes (demo_source_file demo_signed) (Some demo_pin) demo_mesh = (Inr res, n')"
    and "run (node_step demo_libs demo_env) demo_mesh [Some demo_pin] n'"
proof (rule demo_installs)
  fix res n' assume r: "install_roster demo_libs demo_env demo_writes (demo_source_file demo_signed) (Some demo_pin) demo_mesh = (Inr res, n')"
  have "node_step demo_libs demo_env demo_mesh (Some demo_pin)
      (snd (install_roster demo_libs demo_env demo_writes (demo_source_file demo_signed) (Some demo_pin) demo_mesh))"
    by (rule ns_install)
  then show thesis using that [OF r] run_one [of "node_step demo_libs demo_env"] by (simp add: r)
qed

subsection \<open>The life of a node\<close>

text \<open>
  C7. Whatever sequence of roster verbs, converging channels and restarts a node goes through, and
  whichever of their writes fail, its document on disk, its pinned root and its view in force change
  only as the abstract authority allows: a document is stored only after it validated under the root
  in use with a serial above the stored one, the view follows the store and never leads it, and the
  anchor moves only to a root the operator names or to the successor the document adopted.
\<close>
theorem roster_channels_refine:
  assumes "roster_laws L E" and "run (node_step L E) n cs n'"
  shows "run (authority_step L) (authority_of L E n) cs (authority_of L E n')"
  using assms by (rule node.run_simulates)

theorem roster_channels_refine_witness:
  "\<exists>n'. run (authority_step demo_libs) (authority_of demo_libs demo_env demo_mesh) [Some demo_pin] (authority_of demo_libs demo_env n')
     \<and> au_doc (authority_of demo_libs demo_env n') = Some demo_signed"
proof (rule demo_runs)
  fix res n' assume i: "install_roster demo_libs demo_env demo_writes (demo_source_file demo_signed) (Some demo_pin) demo_mesh = (Inr res, n')"
    and r: "run (node_step demo_libs demo_env) demo_mesh [Some demo_pin] n'"
  have T: "toml_roundtrip (ae_toml demo_env)" using demo_laws by (simp add: roster_laws_def)
  have "doc_of demo_libs (mn_roster_file n') = Some demo_signed"
    by (rule install_roster_Inr [OF T demo_json_text i])
      (use parse_printed(1) [OF demo_json_text, of demo_signed] in \<open>auto simp: demo_source_file_def\<close>)
  with roster_channels_refine [OF demo_laws r] show ?thesis by auto
qed

definition stored_serial :: "libs \<Rightarrow> mesh_node \<Rightarrow> u64" where
  "stored_serial L n = (case doc_of L (mn_roster_file n) of Some r \<Rightarrow> ro_serial r | None \<Rightarrow> 0)"

lemma au_serial_stored [simp]: "au_serial (authority_of L E n) = stored_serial L n"
  by (simp add: au_serial_def stored_serial_def)

lemma authority_run_serial:
  assumes "run (authority_step L) a cs b"
  shows "au_serial a \<le> au_serial b \<and> (au_doc a = au_doc b \<or> au_serial a < au_serial b) \<and>
    (view_serial (au_view a) \<le> au_serial a \<longrightarrow> view_serial (au_view b) \<le> au_serial b)"
  using assms
proof (induction rule: run.induct)
  case (run_snoc s ls t l u)
  then show ?case using authority_step_serial [OF run_snoc.hyps(2)] by auto
qed auto

text \<open>
  C9. A roster never goes back. Over any run of a node, through any channel and with any writes
  failing, the serial of the document on disk never decreases, a different document always has a
  strictly larger serial (so an older roster, or another one with the same serial, is never
  installed), and the view in force never has a serial above the document a restart would load.
\<close>
theorem serial_never_goes_back:
  assumes "roster_laws L E" and "run (node_step L E) n cs n'" and "gate_serial (mn_gate n) \<le> stored_serial L n"
  shows "stored_serial L n \<le> stored_serial L n' \<and>
    (doc_of L (mn_roster_file n) = doc_of L (mn_roster_file n') \<or> stored_serial L n < stored_serial L n') \<and>
    gate_serial (mn_gate n') \<le> stored_serial L n'"
  using authority_run_serial [OF node.run_simulates [OF assms(1,2)]] assms(3)
  by (simp add: gate_serial_def view_serial_def)

theorem serial_never_goes_back_witness:
  "\<exists>n'. run (node_step demo_libs demo_env) demo_mesh [Some demo_pin] n' \<and>
     stored_serial demo_libs demo_mesh = 0 \<and> stored_serial demo_libs demo_mesh \<le> stored_serial demo_libs n'"
proof (rule demo_runs)
  fix res n' assume r: "run (node_step demo_libs demo_env) demo_mesh [Some demo_pin] n'"
  have "stored_serial demo_libs demo_mesh = 0" by (simp add: stored_serial_def doc_of_def)
  moreover have "gate_serial (mn_gate demo_mesh) = 0" by (simp add: gate_serial_def)
  ultimately show ?thesis using serial_never_goes_back [OF demo_laws r] r by auto
qed

text \<open>
  C8. The chain of trust. Start from a node with no view in force. After any run, the root its
  configuration pins is a key the operator named (the initial pin included) or one reached from such
  a key by successions each cross-signed by its predecessor; and the view in force is the view of a
  document whose body verifies under such a key. No channel, and no failed write, moves the anchor
  any other way.
\<close>
theorem anchor_moves_only_by_rotation:
  assumes "roster_laws L E" and "run (node_step L E) n cs n'" and "rg_view (mn_gate n) = None"
  defines "R \<equiv> root_keys L (anchor_of (ae_toml E) (mn_config n) # cs)"
  shows "(\<forall>cfg p k. load E (mn_config n') = Some cfg \<and> id_org_root_pk (cfg_identity cfg) = Some p \<and>
        parse_org_root_pk L p = Some k \<longrightarrow> vouched L R k) \<and>
    (\<forall>v. rg_view (mn_gate n') = Some v \<longrightarrow> (\<exists>r expires. signed_under L R r \<and> build_view L r expires = Inr v))"
proof -
  let ?R0 = "root_keys L [anchor_of (ae_toml E) (mn_config n)]"
  have "chained L ?R0 (authority_of L E n)"
    using assms(3) by (auto simp: chained_def root_keys_def intro: vouched_chosen)
  from authority_run_chained [OF node.run_simulates [OF assms(1,2)] this]
  have "chained L R (authority_of L E n')" using root_keys_append [of L "[anchor_of (ae_toml E) (mn_config n)]" cs]
    by (simp add: R_def)
  moreover have "toml_roundtrip (ae_toml E)" using assms(1) by (simp add: roster_laws_def)
  ultimately show ?thesis by (auto simp: chained_def load_anchor)
qed

theorem anchor_moves_only_by_rotation_witness:
  "\<exists>n' v r expires. run (node_step demo_libs demo_env) demo_mesh [Some demo_pin] n' \<and> rg_view (mn_gate n') = Some v \<and>
     signed_under demo_libs (root_keys demo_libs [anchor_of (ae_toml demo_env) (mn_config demo_mesh), Some demo_pin]) r \<and>
     build_view demo_libs r expires = Inr v"
proof (rule demo_runs)
  fix res n' assume i: "install_roster demo_libs demo_env demo_writes (demo_source_file demo_signed) (Some demo_pin) demo_mesh = (Inr res, n')"
    and r: "run (node_step demo_libs demo_env) demo_mesh [Some demo_pin] n'"
  have T: "toml_roundtrip (ae_toml demo_env)" using demo_laws by (simp add: roster_laws_def)
  obtain v where v: "rg_view (mn_gate n') = Some v" by (rule install_roster_Inr [OF T demo_json_text i])
  with anchor_moves_only_by_rotation [OF demo_laws r] r show ?thesis by fastforce
qed

subsection \<open>Authoring takes effect\<close>

text \<open>The operator's verbs succeed only through the installation of the edited, signed document.\<close>

lemma install_authored_Inr:
  assumes T: "toml_roundtrip (ae_toml E)" and J: "json_text_roundtrip L"
    and "install_authored L E io r c n = (Inr res, n')"
  obtains v where "rg_view (mn_gate n') = Some v" and "\<exists>e. build_view L r e = Inr v" and "ir_serial res = ro_serial r"
    and "doc_of L (mn_roster_file n') = Some r"
    and "ir_severed res = sever_matching (dm_registry (pn_daemon n)) (\<lambda>eid user.
      should_sever eid user (set (v_revoked v)) (set (device_endpoints v)))"
    and "set (ir_severed res) \<subseteq> mn_closed n'"
proof -
  from assms(3) have i: "install_roster L E io (FileBytes (json_to_vec L (roster_to_value r))) c n = (Inr res, n')"
    by (auto simp: install_authored_def split: if_splits prod.splits)
  show thesis
  proof (rule install_roster_Inr [OF T J i])
    fix bs r' k now old v ch
    assume a: "FileBytes (json_to_vec L (roster_to_value r)) = FileBytes bs" "parse_roster L bs = Some r'"
      "validate_for_install_with_anchor L r' k old now = Inr (v, ch)" "doc_of L (mn_roster_file n') = Some r'"
      "rg_view (mn_gate n') = Some v" "ir_serial res = v_serial v"
      "ir_severed res = sever_matching (dm_registry (pn_daemon n)) (\<lambda>eid user.
         should_sever eid user (set (v_revoked v)) (set (device_endpoints v)))" "set (ir_severed res) \<subseteq> mn_closed n'"
    have "r' = r" using a(1,2) parse_printed(1) [OF J, of r] by simp
    then show thesis using that [of v] a validate_serial [OF a(3)] by (auto simp: validate_Inr)
  qed
qed

lemma load_operator_roster_Inr:
  "load_operator_roster L n = Inr (root, r) \<Longrightarrow> mn_root_key n = FileBytes root \<and> length root = 32 \<and> doc_of L (mn_roster_file n) = Some r"
  by (auto simp: load_operator_roster_def load_or_generate_def doc_of_def result_simps split: invite_file.splits if_splits)

lemma org_approve_Inr:
  assumes "org_approve L E io line groups uid_override n = (Inr res, n')" and "doc_of L (mn_roster_file n) = Some r"
  obtains jc user_pk dev fp root r1 r2 installed where "inspect_join_code L line = Inr (jc, user_pk, dev, fp)"
    and "upsert_member (r\<lparr>ro_serial := ro_serial r + 1\<rparr>) (ar_user_id res) (jc_display_name jc)
           (jc_user_pk jc) groups (jc_device_endpoint_id jc) (jc_device_label jc) = Inr r1"
    and "sign L root r1 = Inr r2" and "install_authored L E (ai_install io) r2 None n = (Inr installed, n')"
    and "ar_serial res = ir_serial installed"
proof -
  from assms(1) obtain jc user_pk dev fp root r0 r1 r2 installed where
    "inspect_join_code L line = Inr (jc, user_pk, dev, fp)" "load_operator_roster L n = Inr (root, r0)"
    "upsert_member (r0\<lparr>ro_serial := ro_serial r0 + 1\<rparr>) (ar_user_id res) (jc_display_name jc)
           (jc_user_pk jc) groups (jc_device_endpoint_id jc) (jc_device_label jc) = Inr r1"
    "sign L root r1 = Inr r2" "install_authored L E (ai_install io) r2 None n = (Inr installed, n')"
    "ar_serial res = ir_serial installed"
    unfolding org_approve_def Let_def by (auto elim!: sbind_InrE split: if_splits)
  then show thesis using load_operator_roster_Inr [of L n root r0] assms(2) that [of jc user_pk dev fp r1 root r2] by auto
qed

text \<open>
  C11. Approval takes effect. When \<open>org_approve\<close> succeeds on an operator's node, the join code carried a
  device binding that verifies, the new roster is on disk and in force with the next serial, and the
  device of the code resolves to the user it was approved as.
\<close>
theorem approved_device_is_in_force:
  assumes "roster_laws L E" "b64_canonical L" "org_approve L E io line groups uid_override n = (Inr res, n')"
    and "doc_of L (mn_roster_file n) = Some r" "wf_roster L r"
  shows "\<exists>jc user_pk dev fp sig v x. inspect_join_code L line = Inr (jc, user_pk, dev, fp) \<and>
     verify_device_binding L user_pk dev sig = Inr () \<and> rg_view (mn_gate n') = Some v \<and>
     v_serial v = ro_serial r + 1 \<and> ar_serial res = v_serial v \<and> stored_serial L n' = v_serial v \<and>
     view_resolve v dev = Some x \<and> d_user_id x = ar_user_id res"
proof -
  have T: "toml_roundtrip (ae_toml E)" and J: "json_text_roundtrip L" using assms(1) by (auto simp: roster_laws_def)
  let ?r = "r\<lparr>ro_serial := ro_serial r + 1\<rparr>"
  have wf: "wf_roster L ?r"
    using assms(5) by (simp add: wf_roster_def wf_names_def wf_endpoints_def spec_devices_def spec_revoked_def user_devices_def)
  obtain jc user_pk dev fp root r1 r2 installed where a: "inspect_join_code L line = Inr (jc, user_pk, dev, fp)"
    "upsert_member ?r (ar_user_id res) (jc_display_name jc) (jc_user_pk jc) groups (jc_device_endpoint_id jc) (jc_device_label jc) = Inr r1"
    "sign L root r1 = Inr r2" "install_authored L E (ai_install io) r2 None n = (Inr installed, n')" "ar_serial res = ir_serial installed"
    by (rule org_approve_Inr [OF assms(3,4)])
  from a(1) obtain sig where sig: "verify_device_binding L user_pk dev sig = Inr ()"
    and dev: "decode_endpoint_id L (jc_device_endpoint_id jc) = Inr dev"
    by (auto simp: inspect_join_code_def result_simps)
  obtain s where r2: "r2 = r1\<lparr>ro_sig := s\<rparr>" using sign_fields [OF a(3)] by blast
  have ser: "ro_serial r1 = ro_serial r + 1" using a(2) by (auto simp: upsert_member_Inr)
  obtain v e where v: "rg_view (mn_gate n') = Some v" "build_view L r2 e = Inr v" "ir_serial installed = ro_serial r2"
    "doc_of L (mn_roster_file n') = Some r2"
    by (rule install_authored_Inr [OF T J a(4)]) blast
  have "decodes L (jc_device_endpoint_id jc)" "endpoint_of L (jc_device_endpoint_id jc) = dev"
    using dev by (simp_all add: decodes_def endpoint_of_def)
  with upsert_resolves [OF assms(2) wf _ a(2), of e] obtain x where "view_resolve (spec_view L r1 e) dev = Some x"
    "d_user_id x = ar_user_id res" by auto
  moreover have "v = spec_view L r1 e" using v(2) by (simp add: build_view_correct r2)
  ultimately show ?thesis using a(1) sig v(1,3,4) a(5) ser by (auto simp: r2 stored_serial_def)
qed

lemma revoke_severs:
  assumes "(i, t) \<in> set (cr_inner r)" "t_endpoint_id t \<in> set (v_revoked v)"
  shows "t_conn t \<in> set (sever_matching r (\<lambda>eid user. should_sever eid user (set (v_revoked v)) (set (device_endpoints v))))"
  using assms unfolding sever_matching_set by (auto simp: should_sever_def)

text \<open>
  C10. Revocation takes effect at once. When \<open>org_revoke\<close> of \<open>person/device\<close> succeeds, the device the
  person's entry lists under that label is revoked in the view in force and resolves to nobody, and
  every connection of that endpoint registered at that moment has been closed.
\<close>
theorem revoked_device_is_severed:
  assumes "roster_laws L E" "b64_canonical L" "org_revoke L E io target False n = (Inr res, n')"
    and "split_once CHR ''/'' target = Some (person, device)"
    and "doc_of L (mn_roster_file n) = Some r" "wf_roster L r"
  shows "\<exists>u d v. u \<in> set (ro_users r) \<and> ru_user_id u = person \<and> d \<in> set (ru_devices u) \<and> rd_label d = device \<and>
     rg_view (mn_gate n') = Some v \<and> view_is_revoked v (endpoint_of L (rd_endpoint_id d)) \<and>
     view_resolve v (endpoint_of L (rd_endpoint_id d)) = None \<and>
     (\<forall>i t. (i, t) \<in> set (cr_inner (dm_registry (pn_daemon n))) \<longrightarrow> t_endpoint_id t = endpoint_of L (rd_endpoint_id d) \<longrightarrow>
        t_conn t \<in> mn_closed n')"
proof -
  have T: "toml_roundtrip (ae_toml E)" and J: "json_text_roundtrip L" using assms(1) by (auto simp: roster_laws_def)
  let ?r = "r\<lparr>ro_serial := ro_serial r + 1\<rparr>"
  have wf: "wf_roster L ?r"
    using assms(6) by (simp add: wf_roster_def wf_names_def wf_endpoints_def spec_devices_def spec_revoked_def user_devices_def)
  from assms(3) obtain root r0 mode r1 r2 installed where
    r0: "load_operator_roster L n = Inr (root, r0)" and
    "revoke_target target False (r0\<lparr>ro_serial := ro_serial r0 + 1\<rparr>) = Inr (mode, r1)" and
    a: "sign L root r1 = Inr r2" "install_authored L E (ai_install io) r2 None n = (Inr installed, n')"
    unfolding org_revoke_def Let_def by (auto elim!: sbind_InrE split: if_splits)
  then have rev: "revoke_device ?r person device = Inr r1"
    using load_operator_roster_Inr [OF r0] assms(4,5) by (auto simp: revoke_target_def result_simps)
  obtain s where r2: "r2 = r1\<lparr>ro_sig := s\<rparr>" using sign_fields [OF a(1)] by blast
  obtain u d where d: "u \<in> set (ro_users r)" "ru_user_id u = person" "d \<in> set (ru_devices u)" "rd_label d = device"
    "set (spec_revoked L r1) = insert (endpoint_of L (rd_endpoint_id d)) (set (spec_revoked L ?r))"
    by (rule revoke_device_effect [OF assms(2) wf rev]) auto
  obtain v e where v: "rg_view (mn_gate n') = Some v" "build_view L r2 e = Inr v"
    "ir_severed installed = sever_matching (dm_registry (pn_daemon n)) (\<lambda>eid user.
      should_sever eid user (set (v_revoked v)) (set (device_endpoints v)))" "set (ir_severed installed) \<subseteq> mn_closed n'"
    by (rule install_authored_Inr [OF T J a(2)]) blast
  have vs: "v = spec_view L r1 e" and wf1: "wf_roster L r1" using v(2) by (simp_all add: build_view_correct r2)
  have "view_is_revoked v (endpoint_of L (rd_endpoint_id d))" by (simp add: vs view_is_revoked_def d(5))
  moreover have "view_resolve v (endpoint_of L (rd_endpoint_id d)) = None"
    using view_revoked_not_resolved [OF wf1] calculation by (simp add: vs)
  moreover have "t_conn t \<in> mn_closed n'" if "(i, t) \<in> set (cr_inner (dm_registry (pn_daemon n)))"
      "t_endpoint_id t = endpoint_of L (rd_endpoint_id d)" for i t
    using revoke_severs [OF that(1), of v] that(2) v(3,4) d(5) by (auto simp: vs)
  ultimately show ?thesis using d(1-4) v(1) by blast
qed

subsection \<open>A rotation that fails\<close>

lemma sbind_InlE:
  assumes "sbind m f = (Inl e, s')"
  obtains "m = (Inl e, s')" | x s where "m = (Inr x, s)" and "f x s = (Inl e, s')"
  using assms by (cases m; cases "fst m") auto

lemma pure_InlE:
  assumes "sbind (r, s) f = (Inl e, s')"
  obtains "r = Inl e" and "s' = s" | x where "r = Inr x" and "f x s = (Inl e, s')"
  using assms by (cases r) auto

text \<open>A pin that could not be written leaves the document already stored.\<close>

lemma install_roster_PinFailed:
  assumes T: "toml_roundtrip (ae_toml E)" and J: "json_text_roundtrip L"
    and "install_roster L E io (FileBytes bs) c n = (Inl (PinFailed x), n')"
  shows "doc_of L (mn_roster_file n') = parse_roster L bs"
proof -
  from assms(3) obtain p k n1 v ch where
    st: "store_install L (ii_roster_ok io) (FileBytes bs) k (ii_now io) n = (Inr (v, ch), n1)" and
    m: "(if c \<noteq> None \<or> adopted_root_pk ch \<noteq> None
       then pin_root E (ii_pin_ok io) (case adopted_root_pk ch of Some a \<Rightarrow> a | None \<Rightarrow> p) (v_org_id v)
         (audit_successor_adoption ch (v_org_id v) n1)
       else (Inr (), audit_successor_adoption ch (v_org_id v) n1)) = (Inl (PinFailed x), n')"
    unfolding install_roster_def Let_def
    apply (elim pure_InlE)
      apply (auto simp: mesh_config_org_root_pk_def result_simps ok_or_def split: option.splits)[1]
     apply (simp add: ok_or_def split: option.splits)
    apply (erule sbind_InlE)
     apply (simp add: store_install_def split: sum.splits prod.splits)
    apply (simp only: split_paired_all prod.case)
    apply (erule sbind_InlE)
     apply assumption
    apply (simp split: prod.splits)
    done
  from st obtain f where f: "install_from_file L (ii_roster_ok io) (mn_roster_file n) (FileBytes bs) k (ii_now io) = Inr ((v, ch), f)"
    and n1: "n1 = n\<lparr>mn_roster_file := f\<rparr>"
    by (auto simp: store_install_def split: sum.splits prod.splits)
  then have "doc_of L (mn_roster_file n1) = parse_roster L bs"
    unfolding install_from_file_Inr by (auto simp: doc_of_def parse_printed [OF J])
  moreover have "mn_roster_file n' = mn_roster_file n1"
    using m by (auto simp: pin_root_def audit_successor_adoption_def node_audit_def split: if_splits option.splits sum.splits)
  ultimately show ?thesis by simp
qed

lemma install_authored_frame: "install_authored L E io r c n = (x, n') \<Longrightarrow> frame n' = frame n"
  using install_frame [of n L E io "FileBytes (json_to_vec L (roster_to_value r))" c]
  by (auto simp: install_authored_def ends_def split: if_splits prod.splits)

text \<open>
  C30. A rotation that fails while publishing tries to put the predecessor key back. If the rollback
  write succeeds, the operator keeps signing with the root it signed with before, and the successor
  key, which was renamed over it, is in no file; if the rollback write fails, the verb
  reports the same error and the root key file holds the successor's key. Either way the staged key is
  gone, and when only the pin could not be written, the document naming the successor is already
  stored.
\<close>
theorem failed_rotation_restores_root:
  assumes "roster_laws L E" "org_rotate L E io n = (Inl (InstallFailed e), n')"
  shows "(if ai_rollback_ok io then mn_root_key n' = mn_root_key n
     else \<exists>k. mn_root_key n' = FileBytes k \<and> next_root L io n = Some (encode_b64u L (ed_pk L k))) \<and>
    mn_next_key n' = FileAbsent \<and>
    (\<forall>x. e = PinFailed x \<longrightarrow> (\<exists>d. doc_of L (mn_roster_file n') = Some d \<and> ro_successor_root_pk d = next_root L io n))"
proof -
  have T: "toml_roundtrip (ae_toml E)" and J: "json_text_roundtrip L" using assms(1) by (auto simp: roster_laws_def)
  note rot = assms(2) [unfolded org_rotate_def Let_def]
  from rot obtain current r where op: "load_operator_roster L n = Inr (current, r)"
    by (rule pure_InlE) (auto simp: load_operator_roster_def result_simps lift_org_def ok_or_def split: invite_file.splits sum.splits option.splits)
  obtain key created f where g: "load_or_generate (ai_key_ok io) (ai_generated io) (mn_next_key n) = Inr ((key, created), f)"
    using rot by (cases "load_or_generate (ai_key_ok io) (ai_generated io) (mn_next_key n)") (auto simp: op)
  let ?n = "n\<lparr>mn_root_key := f, mn_next_key := FileAbsent\<rparr>" and ?pk = "encode_b64u L (ed_pk L key)"
  from rot obtain r' where "sign L key (rotated_body L current (ed_pk L key) r) = Inr r'" and
    inst: "(case install_authored L E (ai_install io) r' (Some ?pk) ?n of
       (Inl e, n') \<Rightarrow> (Inl e, restore_root (ai_rollback_ok io) (mn_root_key (n\<lparr>mn_next_key := f\<rparr>)) n')
     | (Inr installed, n') \<Rightarrow> (Inr \<lparr>or_org_id = ir_org_id installed, or_serial = ir_serial installed, or_new_root_pk = ?pk,
                          or_old_fingerprint = fingerprint_words L (ed_pk L current),
                          or_new_fingerprint = fingerprint_words L (ed_pk L key)\<rparr>, n')) = (Inl (InstallFailed e), n')"
    by (auto simp: op g lift_org_def split: if_splits sum.splits elim!: pure_InlE)
  then obtain m where m: "install_authored L E (ai_install io) r' (Some ?pk) ?n = (Inl (InstallFailed e), m)"
    and n': "n' = restore_root (ai_rollback_ok io) (mn_root_key n) m" and suc: "ro_successor_root_pk r' = Some ?pk"
    by (auto simp: rotated_body_def split: prod.splits sum.splits dest!: sign_fields)
  have fr: "frame m = frame ?n" by (rule install_authored_frame [OF m])
  have keys: "mn_root_key n = FileBytes current" "length current = 32" using load_operator_roster_Inr [OF op] by auto
  have f: "f = FileBytes key" using g by (auto simp: load_or_generate_def split: invite_file.splits if_splits)
  have "mn_root_key n' = (if ai_rollback_ok io then mn_root_key n else FileBytes key)" "mn_next_key n' = FileAbsent"
    "mn_roster_file n' = mn_roster_file m"
    using fr unfolding n' keys by (simp_all add: restore_root_def keys(2) write_signing_key_def frame_def f)
  moreover have "doc_of L (mn_roster_file m) = Some r'" if "e = PinFailed x" for x
  proof -
    from m that have "install_roster L E (ai_install io) (FileBytes (json_to_vec L (roster_to_value r'))) (Some ?pk) ?n = (Inl (PinFailed x), m)"
      by (auto simp: install_authored_def lift_org_def split: if_splits prod.splits sum.splits)
    from install_roster_PinFailed [OF T J this] show ?thesis by (simp add: parse_printed [OF J])
  qed
  ultimately show ?thesis using suc by (auto simp: next_root_def g)
qed

subsection \<open>An operator for the witnesses\<close>

definition demo_identity_doc :: toml_table where
  "demo_identity_doc = [(''identity'', TTable [(''org_root_pk'', TString demo_pin)])]"

definition demo_operator :: mesh_node where
  "demo_operator = with_config (demo_file demo_identity_doc)
     (demo_mesh\<lparr>mn_roster_file := FileBytes (json_to_vec_pretty demo_libs (roster_to_value demo_signed)),
        mn_next_key := FileBytes (replicate 32 8)\<rparr>)"

definition demo_author :: author_io where
  "demo_author = \<lparr>ai_install = demo_writes, ai_key_ok = True, ai_generated = [], ai_promote_ok = True, ai_rollback_ok = True,
     ai_url_ok = True\<rparr>"

lemma demo_operator_sel [simp]:
  "mn_roster_file demo_operator = FileBytes (json_to_vec_pretty demo_libs (roster_to_value demo_signed))"
  "mn_root_key demo_operator = FileBytes demo_root" "mn_next_key demo_operator = FileBytes (replicate 32 8)"
  "mn_config demo_operator = demo_file demo_identity_doc"
  by (simp_all add: demo_operator_def with_config_def)

lemma demo_pinned: "mesh_config_org_root_pk demo_env demo_operator = Inr (Some demo_pin)"
proof -
  have "tables_distinct demo_identity_doc" by (simp add: tables_distinct_def demo_identity_doc_def services_table_def)
  from demo_config_load [OF this] show ?thesis
    by (simp add: mesh_config_org_root_pk_def demo_identity_doc_def decode_config_def opt_key_def decode_identity_def)
qed

lemma demo_operator_doc: "doc_of demo_libs (mn_roster_file demo_operator) = Some demo_signed"
  by (simp add: doc_of_def parse_printed [OF demo_json_text])

lemma demo_operator_loads: "load_operator_roster demo_libs demo_operator = Inr (demo_root, demo_signed)"
proof -
  have "length demo_root = 32" by (simp add: demo_root_def)
  then show ?thesis by (simp add: load_operator_roster_def load_or_generate_def lift_org_def parse_printed [OF demo_json_text])
qed

lemma demo_signed_serial: "installed_serial demo_libs (mn_roster_file demo_operator) = Inr 5"
  by (simp add: installed_serial_def parse_printed [OF demo_json_text] demo_signed_def)

text \<open>Whatever well-formed successor document the operator signs, installs.\<close>

lemma demo_authored:
  assumes "wf_roster demo_libs r1" "format_ok r1" "in_window demo_libs r1 4" "5 < ro_serial r1"
  shows "\<exists>r2 res n'. sign demo_libs demo_root r1 = Inr r2 \<and> install_authored demo_libs demo_env demo_writes r2 None demo_operator = (Inr res, n')"
proof -
  obtain r2 v where r2: "sign demo_libs demo_root r1 = Inr r2"
    "validate_for_install_with_anchor demo_libs r2 demo_root 5 4 = Inr (v, \<lparr>adopted_root_pk = None\<rparr>)"
    using signed_installs [OF demo_b64 demo_ed25519 demo_jcs assms(1,2,4,3), of demo_root] by auto
  have "\<exists>res n'. install_roster demo_libs demo_env demo_writes (FileBytes (json_to_vec demo_libs (roster_to_value r2))) None demo_operator = (Inr res, n')"
  proof (rule install_roster_ok)
    show "parse_roster demo_libs (json_to_vec demo_libs (roster_to_value r2)) = Some r2" by (rule parse_printed(1) [OF demo_json_text])
    show "validate_for_install_with_anchor demo_libs r2 demo_root 5 (ii_now demo_writes) = Inr (v, \<lparr>adopted_root_pk = None\<rparr>)"
      using r2(2) by (simp add: demo_writes_def)
    show "None = Some demo_pin \<or> None = None \<and> mesh_config_org_root_pk demo_env demo_operator = Inr (Some demo_pin)"
      using demo_pinned by simp
    show "installed_serial demo_libs (mn_roster_file demo_operator) = Inr 5" by (rule demo_signed_serial)
  qed (simp_all add: demo_writes_def)
  then show ?thesis using r2(1) by (auto simp: install_authored_def demo_writes_def)
qed

definition demo_join :: join_code where
  "demo_join = \<lparr>jc_display_name = ''Bob'', jc_requested_user_id = ''bob'', jc_user_pk = encode_b64u demo_libs (replicate 32 5),
     jc_device_endpoint_id = demo_ep 4, jc_device_label = ''desk'',
     jc_binding_sig = encode_b64u demo_libs (sign_device_binding demo_libs (replicate 32 5) (replicate 32 4))\<rparr>"

lemma demo_bind_window [simp]: "in_window demo_libs (r\<lparr>ro_serial := s\<rparr>) t = in_window demo_libs r t"
  "format_ok (r\<lparr>ro_serial := s\<rparr>) = format_ok r"
  "wf_roster demo_libs (r\<lparr>ro_serial := s\<rparr>) = wf_roster demo_libs r"
  by (simp_all add: in_window_def format_ok_def has_rotation_def wf_roster_def wf_names_def wf_endpoints_def spec_devices_def
      spec_revoked_def user_devices_def)

lemma demo_signed_facts [simp]: "wf_roster demo_libs demo_signed" "format_ok demo_signed" "in_window demo_libs demo_signed 4"
  "ro_serial demo_signed = 5"
  by (simp_all add: demo_signed_def)

lemma str_trim_ascii:
  assumes "\<forall>c \<in> set s. (of_char c :: nat) < 128" and "s = [] \<or> \<not> is_whitespace (of_char (hd s)) \<and> \<not> is_whitespace (of_char (last s))"
  shows "str_trim s = s"
proof -
  have "trim_matches is_whitespace (map of_char s) = map of_char s"
    by (rule trim_nothing) (use assms(2) in \<open>cases "s = []"; simp add: hd_map last_map\<close>)
  then show ?thesis by (simp add: str_trim_def chars_ascii [OF assms(1)] string_ascii [OF assms(1)])
qed

lemma demo_revokes:
  obtains res n' where "org_revoke demo_libs demo_env demo_author ''alice/phone'' False demo_operator = (Inr res, n')"
proof -
  let ?r = "demo_signed\<lparr>ro_serial := 6\<rparr>"
  obtain r1 where r1: "revoke_device ?r ''alice'' ''phone'' = Inr r1"
    by (simp add: revoke_device_def demo_signed_def demo_user_def demo_device_def Let_def)
  have wf: "wf_roster demo_libs ?r" by simp
  have "wf_roster demo_libs r1" by (rule revoke_device_wf [OF demo_b64 wf r1])
  moreover have "format_ok r1 = format_ok demo_signed" "in_window demo_libs r1 4 = in_window demo_libs demo_signed 4" "ro_serial r1 = 6"
    using r1 by (auto simp: revoke_device_def Let_def result_simps in_window_def format_ok_def has_rotation_def)
  ultimately obtain r2 res n' where "sign demo_libs demo_root r1 = Inr r2"
    "install_authored demo_libs demo_env demo_writes r2 None demo_operator = (Inr res, n')"
    using demo_authored [of r1] by auto
  moreover have "revoke_target ''alice/phone'' False (demo_signed\<lparr>ro_serial := ro_serial demo_signed + 1\<rparr>) = Inr (DeviceCut, r1)"
    using r1 by (simp add: revoke_target_def)
  moreover have "str_trim ''alice/phone'' = ''alice/phone''" by (rule str_trim_ascii) (simp_all add: is_whitespace_def)
  ultimately have "\<exists>x. org_revoke demo_libs demo_env demo_author ''alice/phone'' False demo_operator = (Inr x, n')"
    by (simp add: org_revoke_def demo_operator_loads demo_author_def lift_org_def)
  then show thesis using that by blast
qed

lemma demo_approves:
  obtains res n' where "org_approve demo_libs demo_env demo_author (join_encode demo_libs demo_join) [''ops''] None demo_operator = (Inr res, n')"
proof -
  let ?r = "demo_signed\<lparr>ro_serial := 6\<rparr>"
  have wf: "wf_roster demo_libs ?r" by simp
  have "upsert_guards ?r ''bob'' [''ops''] (demo_ep 4)"
    by (simp add: upsert_guards_def demo_signed_def demo_roster_def demo_user_def demo_device_def demo_ep_def encode_b64u_def
        demo_libs_def)
  then obtain r1 where r1: "upsert_member ?r ''bob'' ''Bob'' (jc_user_pk demo_join) [''ops''] (demo_ep 4) ''desk'' = Inr r1"
    using upsert_member_Inr by blast
  have "wf_roster demo_libs r1" by (rule upsert_wf [OF demo_b64 wf demo_ep_ok r1])
  moreover have "format_ok r1 = format_ok demo_signed" "in_window demo_libs r1 4 = in_window demo_libs demo_signed 4" "ro_serial r1 = 6"
    using r1 by (auto simp: upsert_member_Inr in_window_def format_ok_def has_rotation_def)
  ultimately obtain r2 res n' where i: "sign demo_libs demo_root r1 = Inr r2"
    "install_authored demo_libs demo_env demo_writes r2 None demo_operator = (Inr res, n')"
    using demo_authored [of r1] by auto
  have pk: "ed_pk demo_libs (replicate 32 5) = replicate 32 5" by (simp add: demo_libs_def)
  have "verify_device_binding demo_libs (replicate 32 5) (replicate 32 4) (sign_device_binding demo_libs (replicate 32 5) (replicate 32 4)) = Inr ()"
    using verify_statement_signed [OF demo_ed25519, of "replicate 32 5"]
    unfolding verify_device_binding_def sign_device_binding_def pk by simp
  moreover have "decode_endpoint_id demo_libs (encode_b64u demo_libs (replicate 32 5)) = Inr (replicate 32 5)"
    by (rule decode_encode_endpoint_id [OF demo_b64]) simp
  moreover have "join_decode demo_libs (join_encode demo_libs demo_join) = Some demo_join"
    by (rule codes_roundtrip(2) [OF demo_b32 demo_json_text])
  ultimately have "inspect_join_code demo_libs (join_encode demo_libs demo_join) =
      Inr (demo_join, replicate 32 5, replicate 32 4, join_code_fingerprint demo_libs (replicate 32 5) (replicate 32 4))"
    by (simp add: inspect_join_code_def demo_join_def lift_org_def decode_encode_b64u)
  moreover have "str_trim ''bob'' = ''bob''" by (rule str_trim_ascii) (simp_all add: is_whitespace_def)
  ultimately have "\<exists>x. org_approve demo_libs demo_env demo_author (join_encode demo_libs demo_join) [''ops''] None demo_operator = (Inr x, n')"
    using r1 i by (simp add: org_approve_def demo_operator_loads demo_author_def lift_org_def demo_join_def)
  then show thesis using that by blast
qed

theorem approved_device_is_in_force_witness:
  "\<exists>res n' v x. org_approve demo_libs demo_env demo_author (join_encode demo_libs demo_join) [''ops''] None demo_operator = (Inr res, n') \<and>
     rg_view (mn_gate n') = Some v \<and> v_serial v = 6 \<and> (\<exists>dev. view_resolve v dev = Some x \<and> d_user_id x = ar_user_id res)"
proof (rule demo_approves)
  fix res n' assume r: "org_approve demo_libs demo_env demo_author (join_encode demo_libs demo_join) [''ops''] None demo_operator = (Inr res, n')"
  show ?thesis using approved_device_is_in_force [OF demo_laws demo_b64 r demo_operator_doc] r by auto
qed

theorem revoked_device_is_severed_witness:
  "\<exists>res n' v. org_revoke demo_libs demo_env demo_author ''alice/phone'' False demo_operator = (Inr res, n') \<and>
     rg_view (mn_gate n') = Some v \<and> view_resolve v (replicate 32 2) = None"
proof (rule demo_revokes)
  fix res n' assume r: "org_revoke demo_libs demo_env demo_author ''alice/phone'' False demo_operator = (Inr res, n')"
  have "split_once CHR ''/'' ''alice/phone'' = Some (''alice'', ''phone'')" by simp
  from revoked_device_is_severed [OF demo_laws demo_b64 r this demo_operator_doc] r show ?thesis
    by (fastforce simp: demo_signed_def demo_user_def demo_device_def)
qed

lemma pin_write_fails: "\<exists>e. write_identity_pin T False f pk org = Inl e"
proof (cases "write_identity_pin T False f pk org")
  case (Inr x)
  then show ?thesis
    using upsert_strings_edit_Inr(1)
    by (fastforce simp: write_identity_pin_def upsert_config_strings_def rmw_def result_simps write_config_doc_def
        atomic_write_def split: if_splits)
qed auto

lemma demo_rotation_fails:
  obtains x n' where "org_rotate demo_libs demo_env (demo_author\<lparr>ai_install := demo_writes\<lparr>ii_pin_ok := False\<rparr>\<rparr>) demo_operator =
    (Inl (InstallFailed (PinFailed x)), n')"
proof -
  let ?k = "replicate 32 (8 :: byte)" and ?io = "demo_writes\<lparr>ii_pin_ok := False\<rparr>" and ?pk = "encode_b64u demo_libs (replicate 32 8)"
  have pk: "ed_pk demo_libs ?k = ?k" by (simp add: demo_libs_def)
  let ?r = "rotated_body demo_libs demo_root ?k demo_signed"
  have "wf_roster demo_libs ?r" "format_ok ?r" "in_window demo_libs ?r 4" "ro_serial ?r = 6"
    using demo_signed_facts(1,3)
    by (simp_all add: rotated_body_def wf_roster_def wf_names_def wf_endpoints_def spec_devices_def spec_revoked_def
        user_devices_def format_ok_def has_rotation_def in_window_def)
  then obtain r2 v where r2: "sign demo_libs ?k ?r = Inr r2"
    "validate_for_install_with_anchor demo_libs r2 ?k 5 4 = Inr (v, \<lparr>adopted_root_pk = None\<rparr>)"
    using signed_installs [OF demo_b64 demo_ed25519 demo_jcs, of ?r 5 4 ?k] by (auto simp: pk)
  let ?n = "demo_operator\<lparr>mn_root_key := FileBytes ?k, mn_next_key := FileAbsent\<rparr>"
  have vk: "parse_org_root_pk demo_libs ?pk = Some ?k"
    by (simp add: parse_org_root_pk_def decode_encode_b64u) (simp add: demo_libs_def)
  have "\<exists>x m. install_roster demo_libs demo_env ?io (FileBytes (json_to_vec demo_libs (roster_to_value r2))) (Some ?pk) ?n =
      (Inl (PinFailed x), m)"
  proof -
    obtain e where e: "write_identity_pin (ae_toml demo_env) False (mn_config ?n) ?pk (v_org_id v) = Inl e"
      using pin_write_fails by blast
    have s5: "installed_serial demo_libs (mn_roster_file ?n) = Inr 5" using demo_signed_serial by simp
    have "install_roster demo_libs demo_env ?io (FileBytes (json_to_vec demo_libs (roster_to_value r2))) (Some ?pk) ?n =
      (Inl (PinFailed e), ?n\<lparr>mn_roster_file := FileBytes (json_to_vec_pretty demo_libs (roster_to_value r2))\<rparr>)"
      by (subst install_roster_step [where v = v, OF refl parse_printed(1) [OF demo_json_text] vk _ s5])
        (use r2(2) e in \<open>simp_all add: demo_writes_def pin_root_def\<close>)
    then show ?thesis by blast
  qed
  then obtain x m where i: "install_authored demo_libs demo_env ?io r2 (Some ?pk) ?n = (Inl (InstallFailed (PinFailed x)), m)"
    by (auto simp: install_authored_def demo_writes_def lift_org_def)
  have ne: "?k \<noteq> demo_root" by (simp add: demo_root_def)
  have "load_or_generate (ai_key_ok demo_author) (ai_generated demo_author) (mn_next_key demo_operator) = Inr ((?k, False), FileBytes ?k)"
    by (simp add: load_or_generate_def)
  then have "\<exists>n'. org_rotate demo_libs demo_env (demo_author\<lparr>ai_install := demo_writes\<lparr>ii_pin_ok := False\<rparr>\<rparr>) demo_operator =
    (Inl (InstallFailed (PinFailed x)), n')"
    using i ne r2(1) by (simp add: org_rotate_def demo_operator_loads pk lift_org_def demo_author_def)
  then show thesis using that by blast
qed

theorem failed_rotation_restores_root_witness:
  "\<exists>e n' d. org_rotate demo_libs demo_env (demo_author\<lparr>ai_install := demo_writes\<lparr>ii_pin_ok := False\<rparr>\<rparr>) demo_operator = (Inl e, n') \<and>
     mn_root_key n' = FileBytes demo_root \<and> mn_next_key n' = FileAbsent \<and> doc_of demo_libs (mn_roster_file n') = Some d \<and>
     ro_successor_root_pk d = Some (encode_b64u demo_libs (replicate 32 8))"
proof (rule demo_rotation_fails)
  fix x n'
  assume r: "org_rotate demo_libs demo_env (demo_author\<lparr>ai_install := demo_writes\<lparr>ii_pin_ok := False\<rparr>\<rparr>) demo_operator =
    (Inl (InstallFailed (PinFailed x)), n')"
  have "next_root demo_libs (demo_author\<lparr>ai_install := demo_writes\<lparr>ii_pin_ok := False\<rparr>\<rparr>) demo_operator =
      Some (encode_b64u demo_libs (replicate 32 8))"
    by (simp add: next_root_def load_or_generate_def) (simp add: demo_libs_def)
  moreover have "ai_rollback_ok (demo_author\<lparr>ai_install := demo_writes\<lparr>ii_pin_ok := False\<rparr>\<rparr>)"
    by (simp add: demo_author_def)
  ultimately show ?thesis using failed_rotation_restores_root [OF demo_laws r] r by simp
qed

end
