(* ===== verification/Blob_Scopes.thy ===== *)
theory Blob_Scopes
  imports Roster_Store Gate
begin

text \<open>
  The scopes of the app-blob provider (\<open>node/src/blobs/scope.rs\<close>): which blob hashes are shared under
  which name, with which principals, and which were withdrawn; and the keyed store that persists
  them, with the migration of its predecessor. A \<open>BTreeSet\<close> is a sorted list without duplicates, a
  \<open>BTreeMap\<close> a table in key order; \<open>P\<close> is the hash parser of \<open>iroh-blobs\<close>.
\<close>

subsection \<open>Ordered sets\<close>

type_synonym bset = "string list"

definition bset_ok :: "bset \<Rightarrow> bool" where
  "bset_ok s \<longleftrightarrow> sorted s \<and> distinct s"

definition bset_insert :: "string \<Rightarrow> bset \<Rightarrow> bset" where
  "bset_insert x s = insort_insert x s"

definition bset_remove :: "string \<Rightarrow> bset \<Rightarrow> bset" where
  "bset_remove x s = filter (\<lambda>y. y \<noteq> x) s"

lemma set_bset_insert [simp]: "set (bset_insert x s) = insert x (set s)"
  by (simp add: bset_insert_def set_insort_insert)

lemma set_bset_remove [simp]: "set (bset_remove x s) = set s - {x}"
  by (auto simp: bset_remove_def)

lemma bset_ok_ops: "bset_ok s \<Longrightarrow> bset_ok (bset_insert x s)" "bset_ok s \<Longrightarrow> bset_ok (bset_remove x s)" "bset_ok []"
  by (simp_all add: bset_ok_def bset_insert_def bset_remove_def sorted_insort_insert distinct_insort_insert sorted_wrt_filter sorted_filter [where f = id, simplified])

lemma bset_insert_append: "bset_ok (s @ [x]) \<Longrightarrow> bset_insert x s = s @ [x]"
  by (induction s) (auto simp: bset_ok_def bset_insert_def insort_insert_key_def)

lemma bset_rebuild: "bset_ok s \<Longrightarrow> foldl (\<lambda>t x. bset_insert x t) [] s = s"
proof (induction s rule: rev_induct)
  case (snoc x s)
  then have "bset_ok s" by (auto simp: bset_ok_def sorted_append)
  with snoc show ?case by (simp add: bset_insert_append)
qed simp

subsection \<open>The table of scopes\<close>

definition DEFAULT_LIST_LIMIT :: nat where "DEFAULT_LIST_LIMIT = 256"
definition MAX_LIST_LIMIT :: nat where "MAX_LIST_LIMIT = 4096"

record scope =
  sp_hashes :: bset
  sp_grants :: bset
  sp_withdrawn :: bset

type_synonym blob_scopes = "(string \<times> scope) list"

definition scope_default :: scope where
  "scope_default = \<lparr>sp_hashes = [], sp_grants = [], sp_withdrawn = []\<rparr>"

text \<open>\<open>entry(name).or_default()\<close>.\<close>

definition scope_entry :: "blob_scopes \<Rightarrow> string \<Rightarrow> scope" where
  "scope_entry s name = (case map_of s name of Some sc \<Rightarrow> sc | None \<Rightarrow> scope_default)"

definition publish_hash :: "string \<Rightarrow> string \<Rightarrow> blob_scopes \<Rightarrow> blob_scopes" where
  "publish_hash name h s =
     (let sc = scope_entry s name
      in tbl_insert name (sc\<lparr>sp_withdrawn := bset_remove h (sp_withdrawn sc), sp_hashes := bset_insert h (sp_hashes sc)\<rparr>) s)"

definition grant_scope :: "string \<Rightarrow> string \<Rightarrow> blob_scopes \<Rightarrow> blob_scopes" where
  "grant_scope name p s =
     (let sc = scope_entry s name in tbl_insert name (sc\<lparr>sp_grants := bset_insert p (sp_grants sc)\<rparr>) s)"

fun remove_all :: "string list \<Rightarrow> bset \<Rightarrow> bool \<times> bset" where
  "remove_all [] g = (False, g)"
| "remove_all (p # ps) g = (case remove_all ps (bset_remove p g) of (c, g') \<Rightarrow> (p \<in> set g \<or> c, g'))"

definition revoke_grants :: "string list \<Rightarrow> scope \<Rightarrow> bool \<times> scope" where
  "revoke_grants ps sc = (case remove_all ps (sp_grants sc) of (c, g) \<Rightarrow> (c, sc\<lparr>sp_grants := g\<rparr>))"

definition scopes_revoke_principals :: "string list \<Rightarrow> blob_scopes \<Rightarrow> bool \<times> blob_scopes" where
  "scopes_revoke_principals ps s =
     (list_ex (\<lambda>(_, sc). fst (revoke_grants ps sc)) s, map (\<lambda>(name, sc). (name, snd (revoke_grants ps sc))) s)"

definition revoke_from_scope :: "string \<Rightarrow> string list \<Rightarrow> blob_scopes \<Rightarrow> bool \<times> blob_scopes" where
  "revoke_from_scope name ps s = (case map_of s name of
     None \<Rightarrow> (False, s)
   | Some sc \<Rightarrow> (case revoke_grants ps sc of (c, sc') \<Rightarrow> (c, tbl_insert name sc' s)))"

definition unpublish_hash :: "string \<Rightarrow> string \<Rightarrow> blob_scopes \<Rightarrow> bool \<times> blob_scopes" where
  "unpublish_hash name h s = (case map_of s name of
     None \<Rightarrow> (False, s)
   | Some sc \<Rightarrow>
       (h \<in> set (sp_hashes sc),
        tbl_insert name (sc\<lparr>sp_withdrawn := bset_insert h (sp_withdrawn sc), sp_hashes := bset_remove h (sp_hashes sc)\<rparr>) s))"

definition live_hashes :: "blob_scopes \<Rightarrow> string list" where
  "live_hashes s = concat (map (\<lambda>(_, sc). sp_hashes sc) s)"

definition is_withdrawn :: "string \<Rightarrow> string \<Rightarrow> blob_scopes \<Rightarrow> bool" where
  "is_withdrawn name h s = (case map_of s name of Some sc \<Rightarrow> h \<in> set (sp_withdrawn sc) | None \<Rightarrow> False)"

definition has_scope :: "string \<Rightarrow> blob_scopes \<Rightarrow> bool" where
  "has_scope name s = (map_of s name \<noteq> None)"

definition allows :: "string \<Rightarrow> string list \<Rightarrow> blob_scopes \<Rightarrow> bool" where
  "allows h principals s = list_ex (\<lambda>(_, sc). h \<notin> set (sp_withdrawn sc) \<and> h \<in> set (sp_hashes sc) \<and>
     list_ex (\<lambda>g. g \<in> set principals) (sp_grants sc)) s"

definition scope_list :: "blob_scopes \<Rightarrow> (string \<times> string list \<times> string list \<times> string list) list" where
  "scope_list s = map (\<lambda>(name, sc). (name, sp_hashes sc, sp_grants sc, sp_withdrawn sc)) s"

subsection \<open>Listing\<close>

record list_query =
  lq_scope :: "string option"
  lq_hash :: "string option"
  lq_limit :: "nat option"
  lq_offset :: "nat option"
  lq_counts_only :: bool

record scope_row =
  sr_name :: string
  sr_hashes :: "string list"
  sr_grants :: "string list"
  sr_withdrawn :: "string list"
  sr_hash_count :: nat
  sr_grant_count :: nat
  sr_withdrawn_count :: nat

record scope_page =
  pg_rows :: "scope_row list"
  pg_total :: nat
  pg_truncated :: bool

definition is_ascii_hexdigit :: "char \<Rightarrow> bool" where
  "is_ascii_hexdigit c \<longleftrightarrow> (let n = of_char c :: nat in 48 \<le> n \<and> n \<le> 57 \<or> 65 \<le> n \<and> n \<le> 70 \<or> 97 \<le> n \<and> n \<le> 102)"

definition is_ascii_alphanumeric :: "char \<Rightarrow> bool" where
  "is_ascii_alphanumeric c \<longleftrightarrow> (let n = of_char c :: nat in 48 \<le> n \<and> n \<le> 57 \<or> 65 \<le> n \<and> n \<le> 90 \<or> 97 \<le> n \<and> n \<le> 122)"

definition parse_blob_hash :: "(string \<Rightarrow> bytes option) \<Rightarrow> string \<Rightarrow> bytes option" where
  "parse_blob_hash P s =
     (if length s = 64 \<and> list_all is_ascii_hexdigit s \<or> length s = 52 \<and> list_all is_ascii_alphanumeric s
      then P s else None)"

definition canonical_hash :: "libs \<Rightarrow> (string \<Rightarrow> bytes option) \<Rightarrow> string \<Rightarrow> string option" where
  "canonical_hash L P s = map_option (hexlower L) (parse_blob_hash P s)"

definition matching :: "string option \<Rightarrow> string option \<Rightarrow> blob_scopes \<Rightarrow> blob_scopes" where
  "matching want_scope want_hash s = filter (\<lambda>(name, sc).
     (case want_scope of None \<Rightarrow> True | Some w \<Rightarrow> w = name) \<and>
     (case want_hash of None \<Rightarrow> True | Some h \<Rightarrow> h \<in> set (sp_hashes sc))) s"

definition page_row :: "bool \<Rightarrow> string \<times> scope \<Rightarrow> scope_row" where
  "page_row counts_only = (\<lambda>(name, sc).
     let take_set = (\<lambda>s. if counts_only then [] else s)
     in \<lparr>sr_name = name, sr_hashes = take_set (sp_hashes sc), sr_grants = take_set (sp_grants sc),
         sr_withdrawn = take_set (sp_withdrawn sc), sr_hash_count = length (sp_hashes sc),
         sr_grant_count = length (sp_grants sc), sr_withdrawn_count = length (sp_withdrawn sc)\<rparr>)"

definition list_page :: "libs \<Rightarrow> (string \<Rightarrow> bytes option) \<Rightarrow> list_query \<Rightarrow> blob_scopes \<Rightarrow> scope_page option" where
  "list_page L P q s =
     Option.bind (case lq_hash q of None \<Rightarrow> Some None | Some h \<Rightarrow> map_option Some (canonical_hash L P h)) (\<lambda>want_hash.
     let found = matching (lq_scope q) want_hash s;
         offset = (case lq_offset q of Some n \<Rightarrow> n | None \<Rightarrow> 0);
         limit = min (case lq_limit q of Some n \<Rightarrow> n | None \<Rightarrow> DEFAULT_LIST_LIMIT) MAX_LIST_LIMIT;
         rows = map (page_row (lq_counts_only q)) (take limit (drop offset found))
     in Some \<lparr>pg_rows = rows, pg_total = length found, pg_truncated = offset + length rows < length found\<rparr>)"

end
