(* ===== verification/Blob_Store.thy ===== *)
theory Blob_Store
  imports Blob_Scopes
begin

text \<open>
  The scope store (\<open>ScopeStore\<close> in \<open>node/src/blobs/scope.rs\<close>): the table in memory, and the keyed rows
  on disk, one per scope. A mutation changes the memory first and then writes, under one lock, so
  each is one step; the flag \<open>ok\<close> says whether the write transaction commits.
\<close>

subsection \<open>Rows\<close>

definition scope_to_value :: "scope \<Rightarrow> json" where
  "scope_to_value sc = JObj [(''hashes'', ser_strings (sp_hashes sc)), (''grants'', ser_strings (sp_grants sc)),
     (''withdrawn'', ser_strings (sp_withdrawn sc))]"

definition de_bset :: "json \<Rightarrow> bset option" where
  "de_bset v = map_option (foldl (\<lambda>t x. bset_insert x t) []) (de_list as_str v)"

definition scope_from_value :: "json \<Rightarrow> scope option" where
  "scope_from_value v =
     Option.bind (struct_members [''hashes'', ''grants'', ''withdrawn''] v) (\<lambda>m.
     Option.bind (required m ''hashes'' de_bset) (\<lambda>hashes.
     Option.bind (required m ''grants'' de_bset) (\<lambda>grants.
     Option.bind (defaulted m ''withdrawn'' [] de_bset) (\<lambda>withdrawn.
     Some \<lparr>sp_hashes = hashes, sp_grants = grants, sp_withdrawn = withdrawn\<rparr>))))"

text \<open>The sidecar of older versions is one document; later members of an object win.\<close>

definition scopes_from_value :: "json \<Rightarrow> blob_scopes option" where
  "scopes_from_value v =
     Option.bind (struct_members [''scopes''] v) (\<lambda>m.
     defaulted m ''scopes'' [] (\<lambda>v.
       Option.bind (as_object v) (\<lambda>entries.
       map_option (foldl (\<lambda>t (k, sc). tbl_insert k sc t) [])
         (all_some (\<lambda>(k, v). map_option (Pair k) (scope_from_value v)) entries))))"

definition scope_row_bytes :: "libs \<Rightarrow> scope \<Rightarrow> bytes" where
  "scope_row_bytes L sc = json_to_vec L (scope_to_value sc)"

definition row_scope :: "libs \<Rightarrow> bytes \<Rightarrow> scope option" where
  "row_scope L bs = Option.bind (json_from_slice L bs) scope_from_value"

type_synonym scope_rows = "(string \<times> bytes) list"

definition load_rows :: "libs \<Rightarrow> scope_rows \<Rightarrow> blob_scopes option" where
  "load_rows L rows = map_option (foldl (\<lambda>t (k, sc). tbl_insert k sc t) [])
     (all_some (\<lambda>(k, bs). map_option (Pair k) (row_scope L bs)) rows)"

definition write_rows :: "libs \<Rightarrow> blob_scopes \<Rightarrow> scope_rows \<Rightarrow> scope_rows" where
  "write_rows L s rows = foldl (\<lambda>t (name, sc). tbl_insert name (scope_row_bytes L sc) t) rows s"

subsection \<open>The store\<close>

record scope_store =
  ss_inner :: blob_scopes
  ss_db :: "scope_rows option"

datatype scope_store_error = OpenDb | ReadSidecar | ParseSidecar | CommitImport | RenameSidecar | BadRow | CommitRows

text \<open>What is on disk: the keyed file (\<open>None\<close> before it was ever created) and the old sidecar.\<close>

record scope_files =
  sf_rows :: scope_rows
  sf_sidecar :: disk_file

definition ss_new :: scope_store where
  "ss_new = \<lparr>ss_inner = [], ss_db = None\<rparr>"

definition ss_open :: "libs \<Rightarrow> bool \<Rightarrow> bool \<Rightarrow> bool \<Rightarrow> scope_files \<Rightarrow> (scope_store_error + scope_store) \<times> scope_files" where
  "ss_open L create_ok commit_ok rename_ok fs =
     (if \<not> create_ok then (Inl OpenDb, fs)
      else if sf_rows fs = [] \<and> sf_sidecar fs \<noteq> FileAbsent then
        (case sf_sidecar fs of
           FileBytes bs \<Rightarrow>
             (case Option.bind (json_from_slice L bs) scopes_from_value of
                None \<Rightarrow> (Inl ParseSidecar, fs)
              | Some s \<Rightarrow>
                  if \<not> commit_ok then (Inl CommitImport, fs)
                  else
                    let fs = fs\<lparr>sf_rows := write_rows L s (sf_rows fs)\<rparr>
                    in if \<not> rename_ok then (Inl RenameSidecar, fs)
                       else (Inr \<lparr>ss_inner = s, ss_db = Some (sf_rows fs)\<rparr>, fs\<lparr>sf_sidecar := FileAbsent\<rparr>))
         | _ \<Rightarrow> (Inl ReadSidecar, fs))
      else
        (case load_rows L (sf_rows fs) of
           None \<Rightarrow> (Inl BadRow, fs)
         | Some s \<Rightarrow> (Inr \<lparr>ss_inner = s, ss_db = Some (sf_rows fs)\<rparr>, fs)))"

definition persist_all :: "libs \<Rightarrow> bool \<Rightarrow> blob_scopes \<Rightarrow> scope_store \<Rightarrow> (scope_store_error + unit) \<times> scope_store" where
  "persist_all L ok s st = (case ss_db st of
     None \<Rightarrow> (Inr (), st)
   | Some rows \<Rightarrow>
       if ok then (Inr (), st\<lparr>ss_db := Some (write_rows L s (filter (\<lambda>(k, _). map_of s k \<noteq> None) rows))\<rparr>)
       else (Inl CommitRows, st))"

definition persist_scope :: "libs \<Rightarrow> bool \<Rightarrow> string \<Rightarrow> scope option \<Rightarrow> scope_store \<Rightarrow> (scope_store_error + unit) \<times> scope_store" where
  "persist_scope L ok name sc st = (case ss_db st of
     None \<Rightarrow> (Inr (), st)
   | Some rows \<Rightarrow>
       if ok then (Inr (), st\<lparr>ss_db := Some (case sc of
         Some sc \<Rightarrow> tbl_insert name (scope_row_bytes L sc) rows | None \<Rightarrow> tbl_remove name rows)\<rparr>)
       else (Inl CommitRows, st))"

definition store_publish_hash :: "libs \<Rightarrow> bool \<Rightarrow> string \<Rightarrow> string \<Rightarrow> scope_store \<Rightarrow> (scope_store_error + unit) \<times> scope_store" where
  "store_publish_hash L ok name h st =
     (let s = publish_hash name h (ss_inner st)
      in persist_scope L ok name (map_of s name) (st\<lparr>ss_inner := s\<rparr>))"

definition store_grant :: "libs \<Rightarrow> bool \<Rightarrow> string \<Rightarrow> string \<Rightarrow> scope_store \<Rightarrow> (scope_store_error + unit) \<times> scope_store" where
  "store_grant L ok name p st =
     (let s = grant_scope name p (ss_inner st)
      in persist_scope L ok name (map_of s name) (st\<lparr>ss_inner := s\<rparr>))"

definition store_revoke_from_scope ::
  "libs \<Rightarrow> bool \<Rightarrow> string \<Rightarrow> string list \<Rightarrow> scope_store \<Rightarrow> (scope_store_error + bool) \<times> scope_store" where
  "store_revoke_from_scope L ok name ps st =
     (case revoke_from_scope name ps (ss_inner st) of (changed, s) \<Rightarrow>
        sbind (persist_scope L ok name (map_of s name) (st\<lparr>ss_inner := s\<rparr>)) (\<lambda>_ st. (Inr changed, st)))"

definition store_unpublish_hash ::
  "libs \<Rightarrow> bool \<Rightarrow> string \<Rightarrow> string \<Rightarrow> scope_store \<Rightarrow> (scope_store_error + bool) \<times> scope_store" where
  "store_unpublish_hash L ok name h st =
     (case unpublish_hash name h (ss_inner st) of (changed, s) \<Rightarrow>
        sbind (persist_scope L ok name (map_of s name) (st\<lparr>ss_inner := s\<rparr>)) (\<lambda>_ st. (Inr changed, st)))"

text \<open>The sweep over all scopes is written only when it changed something in memory.\<close>

definition store_revoke_principals ::
  "libs \<Rightarrow> bool \<Rightarrow> string list \<Rightarrow> scope_store \<Rightarrow> (scope_store_error + bool) \<times> scope_store" where
  "store_revoke_principals L ok ps st =
     (case scopes_revoke_principals ps (ss_inner st) of (changed, s) \<Rightarrow>
        let st = st\<lparr>ss_inner := s\<rparr>
        in if changed then sbind (persist_all L ok s st) (\<lambda>_ st. (Inr changed, st)) else (Inr changed, st))"

end
