(* ===== verification/Blob_Gate.thy ===== *)
theory Blob_Gate
  imports Blob_Store Session Rate_Limits
begin

text \<open>
  The app-blob provider's request gate and its progress frames (\<open>node/src/blobs/provider.rs\<close>). The
  gate loop owns its state and handles one provider message at a time; a message is one step, with
  the identity the trust gate resolves and the scope table read at that moment. The streams of
  \<open>iroh-blobs\<close> are the messages and updates they deliver.
\<close>

subsection \<open>Admission of a request\<close>

datatype abort_reason = Permission | RateLimited

definition IROH_CHUNK_BYTES :: u64 where "IROH_CHUNK_BYTES = 16 * 1024"

definition request_budget_ok :: "rounding \<Rightarrow> mesh_limiters \<Rightarrow> bytes option \<Rightarrow> nat \<Rightarrow> bool \<times> mesh_limiters" where
  "request_budget_ok rnd ml endpoint now = (case endpoint of
     None \<Rightarrow> (False, ml)
   | Some eid \<Rightarrow> admit_blob_bytes_at rnd ml eid IROH_CHUNK_BYTES now)"

definition get_admission ::
  "rounding \<Rightarrow> bool \<Rightarrow> bytes option \<Rightarrow> mesh_limiters \<Rightarrow> nat \<Rightarrow> (abort_reason + unit) \<times> mesh_limiters" where
  "get_admission rnd allow endpoint ml now =
     (if \<not> allow then (Inl Permission, ml)
      else case endpoint of
        None \<Rightarrow> (Inl Permission, ml)
      | Some eid \<Rightarrow>
          (case request_budget_ok rnd ml (Some eid) now of (ok, ml) \<Rightarrow>
             (if ok then Inr () else Inl RateLimited, ml)))"

definition throttle_decision ::
  "rounding \<Rightarrow> bytes option \<Rightarrow> u64 \<Rightarrow> mesh_limiters \<Rightarrow> nat \<Rightarrow> (abort_reason + unit) \<times> mesh_limiters" where
  "throttle_decision rnd endpoint chunk ml now = (case endpoint of
     None \<Rightarrow> (Inl Permission, ml)
   | Some eid \<Rightarrow>
       (case admit_blob_bytes_at rnd ml eid chunk now of (ok, ml) \<Rightarrow>
          (if ok then Inr () else Inl RateLimited, ml)))"

text \<open>Which status to record: a budget refusal is reported once per endpoint until it fetches again.\<close>

definition audit_status ::
  "abort_reason + unit \<Rightarrow> bytes option \<Rightarrow> bytes list \<Rightarrow> string option \<times> bytes list" where
  "audit_status decision endpoint reported = (case decision of
     Inl Permission \<Rightarrow> (Some ''denied'', reported)
   | Inl RateLimited \<Rightarrow>
       (case endpoint of
          Some eid \<Rightarrow> if eid \<in> set reported then (None, reported) else (Some ''rate_limited'', eid # reported)
        | None \<Rightarrow> (Some ''rate_limited'', reported))
   | Inr () \<Rightarrow>
       (Some ''ok'', case endpoint of Some eid \<Rightarrow> filter (\<lambda>e. e \<noteq> eid) reported | None \<Rightarrow> reported))"

subsection \<open>The gate loop\<close>

datatype provider_message =
    ClientConnected u64 "bytes option"
  | Throttle u64 u64
  | GetRequest u64 string bool
  | GetManyRequest u64
  | PushRequest u64
  | ObserveRequest u64
  | ConnectionClosed u64

record fetch_record =
  fr_peer :: "string option"
  fr_hash :: string
  fr_status :: string
  fr_principal :: "string option"

record blob_gate =
  bg_conns :: "(u64 \<times> bytes) list"
  bg_reported :: "bytes list"
  bg_limits :: mesh_limiters
  bg_audit :: "fetch_record list"

definition get_allowed :: "libs \<Rightarrow> blob_scopes \<Rightarrow> peer_identity option \<Rightarrow> string \<Rightarrow> bool \<Rightarrow> bool" where
  "get_allowed L scopes identity h is_blob \<longleftrightarrow> is_blob \<and>
     (case identity of None \<Rightarrow> False | Some i \<Rightarrow> allows h (identity_principals L i) scopes)"

definition handle_get ::
  "libs \<Rightarrow> rounding \<Rightarrow> (bytes \<Rightarrow> peer_identity option) \<Rightarrow> blob_scopes \<Rightarrow> nat \<Rightarrow> u64 \<Rightarrow> string \<Rightarrow> bool \<Rightarrow> blob_gate
    \<Rightarrow> (abort_reason + unit) \<times> blob_gate" where
  "handle_get L rnd resolve scopes now conn h is_blob g =
     (let endpoint = map_of (bg_conns g) conn;
          identity = Option.bind endpoint resolve;
          peer = map_option (\<lambda>i. case pi_user_id i of Some u \<Rightarrow> u | None \<Rightarrow> pi_name i) identity
      in case get_admission rnd (get_allowed L scopes identity h is_blob) endpoint (bg_limits g) now of (decision, ml) \<Rightarrow>
         (case audit_status decision endpoint (bg_reported g) of (status, reported) \<Rightarrow>
            (decision, g\<lparr>bg_limits := ml, bg_reported := reported,
               bg_audit := (case status of None \<Rightarrow> bg_audit g
                 | Some s \<Rightarrow> bg_audit g @ [\<lparr>fr_peer = peer, fr_hash = h, fr_status = s,
                     fr_principal = map_option (principal L) endpoint\<rparr>])\<rparr>)))"

text \<open>One message: its answer, if it has one, and the loop's next state.\<close>

definition gate_message ::
  "libs \<Rightarrow> rounding \<Rightarrow> (bytes \<Rightarrow> peer_identity option) \<Rightarrow> blob_scopes \<Rightarrow> nat \<Rightarrow> provider_message \<Rightarrow> blob_gate
    \<Rightarrow> (abort_reason + unit) option \<times> blob_gate" where
  "gate_message L rnd resolve scopes now msg g = (case msg of
     ClientConnected conn (Some eid) \<Rightarrow> (Some (Inr ()), g\<lparr>bg_conns := al_insert conn eid (bg_conns g)\<rparr>)
   | ClientConnected conn None \<Rightarrow> (Some (Inl Permission), g)
   | Throttle conn chunk \<Rightarrow>
       (case throttle_decision rnd (map_of (bg_conns g) conn) chunk (bg_limits g) now of (d, ml) \<Rightarrow>
          (Some d, g\<lparr>bg_limits := ml\<rparr>))
   | GetRequest conn h is_blob \<Rightarrow>
       (case handle_get L rnd resolve scopes now conn h is_blob g of (d, g) \<Rightarrow> (Some d, g))
   | GetManyRequest conn \<Rightarrow> (Some (Inl Permission), g)
   | PushRequest conn \<Rightarrow> (Some (Inl Permission), g)
   | ObserveRequest conn \<Rightarrow> (Some (Inl Permission), g)
   | ConnectionClosed conn \<Rightarrow> (None, g\<lparr>bg_conns := al_remove conn (bg_conns g)\<rparr>))"

definition gate_start :: "mesh_limiters \<Rightarrow> blob_gate" where
  "gate_start ml = \<lparr>bg_conns = [], bg_reported = [], bg_limits = ml, bg_audit = []\<rparr>"

subsection \<open>Progress frames\<close>

definition u64_saturating_sub :: "u64 \<Rightarrow> u64 \<Rightarrow> u64" where
  "u64_saturating_sub a b = (if b \<le> a then a - b else 0)"

definition u64_saturating_mul :: "u64 \<Rightarrow> u64 \<Rightarrow> u64" where
  "u64_saturating_mul a b = (if unat a * unat b < 2 ^ 64 then a * b else - 1)"

definition u32_saturating_succ :: "u32 \<Rightarrow> u32" where
  "u32_saturating_succ a = (if a = - 1 then a else a + 1)"

definition PROGRESS_STRIDE_BYTES :: u64 where "PROGRESS_STRIDE_BYTES = 1024 * 1024"
definition FRAMES_PER_EPOCH :: u32 where "FRAMES_PER_EPOCH = 16"

datatype blob_direction = Serve | Fetch
datatype transfer_state = TransferStarted | TransferProgress | TransferCompleted | TransferAborted

record blob_transfer =
  bt_direction :: blob_direction
  bt_hash :: string
  bt_bytes_done :: u64
  bt_bytes_total :: "u64 option"
  bt_state :: transfer_state
  bt_peer :: "string option"

record transfer_progress =
  tp_hash :: string
  tp_peer :: "string option"
  tp_total :: "u64 option"
  tp_done :: u64
  tp_last_emitted :: u64
  tp_epochs :: u32
  tp_in_epoch :: u32

definition stride :: "transfer_progress \<Rightarrow> u64" where
  "stride st = (case tp_total st of
     Some t \<Rightarrow> max (t div 100) PROGRESS_STRIDE_BYTES
   | None \<Rightarrow> max (u64_saturating_mul PROGRESS_STRIDE_BYTES (push_bit (unat (min (tp_epochs st) 40)) 1)) PROGRESS_STRIDE_BYTES)"

definition note_emitted :: "transfer_progress \<Rightarrow> transfer_progress" where
  "note_emitted st =
     (let st = st\<lparr>tp_last_emitted := tp_done st\<rparr>
      in if tp_total st \<noteq> None then st
         else let st = st\<lparr>tp_in_epoch := tp_in_epoch st + 1\<rparr>
              in if tp_in_epoch st \<ge> FRAMES_PER_EPOCH
                 then st\<lparr>tp_in_epoch := 0, tp_epochs := u32_saturating_succ (tp_epochs st)\<rparr> else st)"

definition emit_transfer :: "transfer_progress \<Rightarrow> transfer_state \<Rightarrow> blob_transfer" where
  "emit_transfer st phase = \<lparr>bt_direction = Serve, bt_hash = tp_hash st, bt_bytes_done = tp_done st,
     bt_bytes_total = tp_total st, bt_state = phase, bt_peer = tp_peer st\<rparr>"

definition emit_fetch :: "transfer_progress \<Rightarrow> transfer_state \<Rightarrow> blob_transfer" where
  "emit_fetch st phase = \<lparr>bt_direction = Fetch, bt_hash = tp_hash st, bt_bytes_done = tp_done st,
     bt_bytes_total = tp_total st, bt_state = phase, bt_peer = None\<rparr>"

datatype request_update = Started string u64 | Progress u64 | Completed | Aborted

text \<open>The new state, the frames sent, and whether the transfer is over.\<close>

definition apply_transfer_update ::
  "string option \<Rightarrow> request_update \<Rightarrow> transfer_progress option \<Rightarrow> transfer_progress option \<times> blob_transfer list \<times> bool" where
  "apply_transfer_update peer update st = (case update of
     Started h bytes \<Rightarrow>
       (let cur = \<lparr>tp_hash = h, tp_peer = peer, tp_total = Some bytes, tp_done = 0, tp_last_emitted = 0, tp_epochs = 0,
                   tp_in_epoch = 0\<rparr>
        in (Some cur, [emit_transfer cur TransferStarted], False))
   | Progress end_offset \<Rightarrow>
       (case st of None \<Rightarrow> (None, [], False)
        | Some cur \<Rightarrow>
            let cur = cur\<lparr>tp_done := end_offset\<rparr>
            in if u64_saturating_sub (tp_done cur) (tp_last_emitted cur) \<ge> stride cur
               then let cur = note_emitted cur in (Some cur, [emit_transfer cur TransferProgress], False)
               else (Some cur, [], False))
   | Completed \<Rightarrow>
       (case st of None \<Rightarrow> (None, [], True)
        | Some cur \<Rightarrow>
            let cur = (case tp_total cur of Some t \<Rightarrow> cur\<lparr>tp_done := max (tp_done cur) t\<rparr> | None \<Rightarrow> cur)
            in (Some cur, [emit_transfer cur TransferCompleted], True))
   | Aborted \<Rightarrow>
       (case st of None \<Rightarrow> (None, [], True) | Some cur \<Rightarrow> (st, [emit_transfer cur TransferAborted], True)))"

text \<open>
  The drain task of one admitted request: updates until a terminal one; a stream that ends without
  one is reported as aborted.
\<close>

fun drain_updates :: "string option \<Rightarrow> request_update list \<Rightarrow> transfer_progress option \<Rightarrow> blob_transfer list" where
  "drain_updates peer [] st = (case st of Some cur \<Rightarrow> [emit_transfer cur TransferAborted] | None \<Rightarrow> [])"
| "drain_updates peer (u # us) st =
     (case apply_transfer_update peer u st of (st, frames, terminal) \<Rightarrow>
        if terminal then frames else frames @ drain_updates peer us st)"

text \<open>The fetching side: the progress reports of one source.\<close>

definition fetch_progress :: "u64 \<Rightarrow> transfer_progress \<Rightarrow> transfer_progress \<times> blob_transfer list" where
  "fetch_progress offset st =
     (let st = st\<lparr>tp_done := offset\<rparr>
      in if u64_saturating_sub (tp_done st) (tp_last_emitted st) \<ge> stride st
         then let st = note_emitted st in (st, [emit_fetch st TransferProgress])
         else (st, []))"

fun fetch_progress_all :: "u64 list \<Rightarrow> transfer_progress \<Rightarrow> transfer_progress \<times> blob_transfer list" where
  "fetch_progress_all [] st = (st, [])"
| "fetch_progress_all (x # xs) st =
     (case fetch_progress x st of (st, frames) \<Rightarrow>
        (case fetch_progress_all xs st of (st, frames') \<Rightarrow> (st, frames @ frames')))"

definition fetch_started :: "string \<Rightarrow> transfer_progress" where
  "fetch_started h = \<lparr>tp_hash = h, tp_peer = None, tp_total = None, tp_done = 0, tp_last_emitted = 0, tp_epochs = 0,
     tp_in_epoch = 0\<rparr>"

end
