(* ===== verification/Blob_Verbs.thy ===== *)
theory Blob_Verbs
  imports Blob_Gate Runs
begin

text \<open>
  The blob verbs (\<open>node/src/daemon/handlers.rs\<close>) over the provider (\<open>node/src/blobs/provider.rs\<close>) and
  the collector that reclaims what no scope names. The bytes are those the local store holds
  complete, by hash; importing a file and minting a ticket are the store's own, so a publish starts
  from the imported hash and a ticket is not modelled. The membership mutations are serialized by a
  lock, so a republish is two steps with the lock held between: the check, and the insert.
\<close>

datatype blob_error =
    NoSuchBlobScope string
  | NoSuchBlob string
  | BlobWithdrawn string string
  | BadHash
  | ScopeStore scope_store_error

definition lift_scope :: "(scope_store_error + 'a) \<times> 's \<Rightarrow> (blob_error + 'a) \<times> 's" where
  "lift_scope m = (case m of (Inl e, s) \<Rightarrow> (Inl (ScopeStore e), s) | (Inr x, s) \<Rightarrow> (Inr x, s))"

record app_blobs =
  ab_scopes :: scope_store
  ab_held :: "bytes list"
  ab_pins :: "bytes list"
  ab_gc_runs :: u64
  ab_gc_protected :: nat

definition with_scopes :: "(scope_store_error + 'a) \<times> scope_store \<Rightarrow> app_blobs \<Rightarrow> (blob_error + 'a) \<times> app_blobs" where
  "with_scopes m b = lift_scope (case m of (r, st) \<Rightarrow> (r, b\<lparr>ab_scopes := st\<rparr>))"

definition scopes_of :: "app_blobs \<Rightarrow> blob_scopes" where
  "scopes_of b = ss_inner (ab_scopes b)"

subsection \<open>Importing and publishing\<close>

text \<open>The import leaves the bytes held, under a temporary tag that protects them from a sweep.\<close>

definition import_path :: "bytes \<Rightarrow> app_blobs \<Rightarrow> app_blobs" where
  "import_path h b = b\<lparr>ab_held := push_new (ab_held b) h, ab_pins := h # ab_pins b\<rparr>"

definition unpin :: "bytes \<Rightarrow> app_blobs \<Rightarrow> app_blobs" where
  "unpin h b = b\<lparr>ab_pins := remove1 h (ab_pins b)\<rparr>"

definition publish_insert :: "libs \<Rightarrow> bool \<Rightarrow> string \<Rightarrow> bytes \<Rightarrow> app_blobs \<Rightarrow> (blob_error + string) \<times> app_blobs" where
  "publish_insert L ok name h b =
     (case with_scopes (store_publish_hash L ok name (hexlower L h) (ab_scopes b)) b of
        (r, b) \<Rightarrow> (rbind r (\<lambda>_. Inr (hexlower L h)), unpin h b))"

definition publish_scope :: "libs \<Rightarrow> bool \<Rightarrow> string \<Rightarrow> bytes \<Rightarrow> app_blobs \<Rightarrow> (blob_error + string) \<times> app_blobs" where
  "publish_scope L ok name h b = publish_insert L ok name h (import_path h b)"

definition republish_check ::
  "libs \<Rightarrow> (string \<Rightarrow> bytes option) \<Rightarrow> bool \<Rightarrow> string \<Rightarrow> string \<Rightarrow> app_blobs \<Rightarrow> (blob_error + bytes) \<times> app_blobs" where
  "republish_check L P pin_ok name h b =
     (if \<not> has_scope name (scopes_of b) then (Inl (NoSuchBlobScope name), b)
      else case parse_blob_hash P h of
        None \<Rightarrow> (Inl BadHash, b)
      | Some hash \<Rightarrow>
          (let pinned = (if pin_ok then b\<lparr>ab_pins := hash # ab_pins b\<rparr> else b); canonical = hexlower L hash
           in if hash \<notin> set (ab_held b) then (Inl (NoSuchBlob canonical), b)
              else if is_withdrawn name canonical (scopes_of b) then (Inl (BlobWithdrawn name canonical), b)
              else (Inr hash, pinned)))"

definition republish ::
  "libs \<Rightarrow> (string \<Rightarrow> bytes option) \<Rightarrow> bool \<Rightarrow> bool \<Rightarrow> string \<Rightarrow> string \<Rightarrow> app_blobs \<Rightarrow> (blob_error + string) \<times> app_blobs" where
  "republish L P pin_ok ok name h b =
     sbind (republish_check L P pin_ok name h b) (\<lambda>hash b.
       if pin_ok then publish_insert L ok name hash b
       else (case with_scopes (store_publish_hash L ok name (hexlower L hash) (ab_scopes b)) b of
               (r, b) \<Rightarrow> (rbind r (\<lambda>_. Inr (hexlower L hash)), b)))"

definition unpublish ::
  "libs \<Rightarrow> (string \<Rightarrow> bytes option) \<Rightarrow> bool \<Rightarrow> string \<Rightarrow> string \<Rightarrow> app_blobs \<Rightarrow> (blob_error + bool) \<times> app_blobs" where
  "unpublish L P ok name h b =
     sbind (ok_or BadHash (canonical_hash L P h), b) (\<lambda>canonical b.
       with_scopes (store_unpublish_hash L ok name canonical (ab_scopes b)) b)"

subsection \<open>The verbs\<close>

definition blob_publish :: "libs \<Rightarrow> bool \<Rightarrow> string \<Rightarrow> bytes \<Rightarrow> app_blobs \<Rightarrow> (blob_error + string) \<times> app_blobs" where
  "blob_publish L ok name h b = publish_scope L ok name h b"

definition blob_grant :: "libs \<Rightarrow> bool \<Rightarrow> string \<Rightarrow> string \<Rightarrow> app_blobs \<Rightarrow> (blob_error + unit) \<times> app_blobs" where
  "blob_grant L ok name p b = with_scopes (store_grant L ok name p (ab_scopes b)) b"

definition blob_revoke :: "libs \<Rightarrow> bool \<Rightarrow> string \<Rightarrow> string list \<Rightarrow> app_blobs \<Rightarrow> (blob_error + unit) \<times> app_blobs" where
  "blob_revoke L ok name ps b =
     (if \<not> has_scope name (scopes_of b) then (Inl (NoSuchBlobScope name), b)
      else sbind (with_scopes (store_revoke_from_scope L ok name ps (ab_scopes b)) b) (\<lambda>_ b. (Inr (), b)))"

definition blob_unpublish ::
  "libs \<Rightarrow> (string \<Rightarrow> bytes option) \<Rightarrow> bool \<Rightarrow> string \<Rightarrow> string \<Rightarrow> app_blobs \<Rightarrow> (blob_error + unit) \<times> app_blobs" where
  "blob_unpublish L P ok name h b =
     sbind (ok_or BadHash (canonical_hash L P h), b) (\<lambda>hash_hex b.
       if \<not> has_scope name (scopes_of b) then (Inl (NoSuchBlobScope name), b)
       else sbind (unpublish L P ok name hash_hex b) (\<lambda>_ b. (Inr (), b)))"

definition blob_republish ::
  "libs \<Rightarrow> (string \<Rightarrow> bytes option) \<Rightarrow> bool \<Rightarrow> bool \<Rightarrow> string \<Rightarrow> string \<Rightarrow> app_blobs \<Rightarrow> (blob_error + string) \<times> app_blobs" where
  "blob_republish L P pin_ok ok name h b = republish L P pin_ok ok name h b"

text \<open>The daemon without a provider lists nothing.\<close>

definition blob_list :: "libs \<Rightarrow> (string \<Rightarrow> bytes option) \<Rightarrow> list_query \<Rightarrow> app_blobs option \<Rightarrow> scope_page option" where
  "blob_list L P q provider = (case provider of
     None \<Rightarrow> Some \<lparr>pg_rows = [], pg_total = 0, pg_truncated = False\<rparr>
   | Some b \<Rightarrow> list_page L P q (scopes_of b))"

definition provider_revoke_principals :: "libs \<Rightarrow> bool \<Rightarrow> string list \<Rightarrow> app_blobs \<Rightarrow> (blob_error + bool) \<times> app_blobs" where
  "provider_revoke_principals L ok ps b = with_scopes (store_revoke_principals L ok ps (ab_scopes b)) b"

subsection \<open>Collection\<close>

text \<open>
  The protect callback turns the liveness root into hashes, skipping what does not parse; the sweep
  then keeps those and what a temporary tag pins.
\<close>

definition gc_protected :: "(string \<Rightarrow> bytes option) \<Rightarrow> blob_scopes \<Rightarrow> bytes list" where
  "gc_protected P s = List.map_filter (parse_blob_hash P) (remdups (live_hashes s))"

definition gc_run :: "(string \<Rightarrow> bytes option) \<Rightarrow> app_blobs \<Rightarrow> app_blobs" where
  "gc_run P b = (let keep = gc_protected P (scopes_of b)
     in b\<lparr>ab_held := filter (\<lambda>h. h \<in> set keep \<or> h \<in> set (ab_pins b)) (ab_held b),
         ab_gc_runs := ab_gc_runs b + 1, ab_gc_protected := length keep\<rparr>)"

end
