(* ===== verification/Dial_Addr.thy ===== *)
theory Dial_Addr
  imports Prelude
begin

text \<open>
  Addresses a node dials (\<open>node/src/daemon/dial.rs\<close>): \<open>iroh\<close>'s \<open>EndpointAddr\<close> as its id and its
  transport addresses, and the filter that keeps what can be a QUIC peer at all. An IPv4 address is
  its four octets, an IPv6 address its eight segments, as \<open>std::net\<close> has them.
\<close>

datatype ip_addr = V4 "byte list" | V6 "16 word list"

datatype transport_addr = Relay string | Ip ip_addr "16 word" | CustomAddr string

record dial_addr =
  da_id :: bytes
  da_addrs :: "transport_addr list"

text \<open>\<open>IpAddr::to_canonical\<close>: an IPv4-mapped IPv6 address is the IPv4 address.\<close>

definition octets_of :: "16 word \<Rightarrow> byte list" where
  "octets_of s = [ucast (drop_bit 8 s), ucast s]"

definition to_canonical :: "ip_addr \<Rightarrow> ip_addr" where
  "to_canonical a = (case a of
     V6 [s0, s1, s2, s3, s4, s5, s6, s7] \<Rightarrow>
       if [s0, s1, s2, s3, s4] = replicate 5 0 \<and> s5 = - 1 then V4 (octets_of s6 @ octets_of s7) else a
   | _ \<Rightarrow> a)"

definition v4_is_unspecified :: "byte list \<Rightarrow> bool" where
  "v4_is_unspecified os \<longleftrightarrow> os = replicate 4 0"

definition v4_is_multicast :: "byte list \<Rightarrow> bool" where
  "v4_is_multicast os \<longleftrightarrow> 224 \<le> os ! 0 \<and> os ! 0 \<le> 239"

definition v4_is_broadcast :: "byte list \<Rightarrow> bool" where
  "v4_is_broadcast os \<longleftrightarrow> os = replicate 4 255"

definition v6_is_unspecified :: "16 word list \<Rightarrow> bool" where
  "v6_is_unspecified ss \<longleftrightarrow> ss = replicate 8 0"

definition v6_is_multicast :: "16 word list \<Rightarrow> bool" where
  "v6_is_multicast ss \<longleftrightarrow> drop_bit 8 (ss ! 0) = 255"

definition is_dialable_addr :: "transport_addr \<Rightarrow> bool" where
  "is_dialable_addr a = (case a of
     Ip ip port \<Rightarrow>
       if port = 0 then False
       else (case to_canonical ip of
         V4 os \<Rightarrow> \<not> v4_is_unspecified os \<and> \<not> v4_is_multicast os \<and> \<not> v4_is_broadcast os \<and> os ! 0 < 240
       | V6 ss \<Rightarrow> \<not> v6_is_unspecified ss \<and> \<not> v6_is_multicast ss)
   | _ \<Rightarrow> True)"

definition bare_addr :: "bytes \<Rightarrow> dial_addr" where
  "bare_addr i = \<lparr>da_id = i, da_addrs = []\<rparr>"

definition dialable_only :: "dial_addr \<Rightarrow> dial_addr" where
  "dialable_only a =
     (let kept = filter is_dialable_addr (da_addrs a)
      in if kept = [] then bare_addr (da_id a) else \<lparr>da_id = da_id a, da_addrs = kept\<rparr>)"

text \<open>
  The dial address of a stored peer: the hint counts only when it parses and names the same
  endpoint. \<open>A\<close> is the JSON reader of \<open>EndpointAddr\<close>.
\<close>

definition stored_dial_addr :: "(string \<Rightarrow> dial_addr option) \<Rightarrow> string option \<Rightarrow> bytes \<Rightarrow> dial_addr" where
  "stored_dial_addr A last_addr endpoint_id =
     (case Option.bind last_addr A of
        Some a \<Rightarrow> if da_id a = endpoint_id then dialable_only a else bare_addr endpoint_id
      | None \<Rightarrow> bare_addr endpoint_id)"

lemma dialable_only_sel [simp]: "da_id (dialable_only a) = da_id a" "da_addrs (dialable_only a) = filter is_dialable_addr (da_addrs a)"
  by (simp_all add: dialable_only_def Let_def bare_addr_def)

lemma stored_dial_addr_id [simp]: "da_id (stored_dial_addr A h e) = e"
  by (auto simp: stored_dial_addr_def bare_addr_def split: option.split)

lemma stored_dial_addr_dialable: "a \<in> set (da_addrs (stored_dial_addr A h e)) \<Longrightarrow> is_dialable_addr a"
  by (auto simp: stored_dial_addr_def bare_addr_def split: option.splits if_splits)

text \<open>The mapped form of an IPv4 address is judged as the IPv4 address.\<close>

definition u16_of :: "byte \<Rightarrow> byte \<Rightarrow> 16 word" where
  "u16_of a b = semiring_bit_operations_class.or (push_bit 8 (ucast a)) (ucast b)"

definition v4_mapped :: "byte list \<Rightarrow> ip_addr" where
  "v4_mapped os = V6 [0, 0, 0, 0, 0, - 1, u16_of (os ! 0) (os ! 1), u16_of (os ! 2) (os ! 3)]"

lemma octets_of_pair: "octets_of (u16_of a b) = [a, b]"
proof -
  have "ucast (drop_bit 8 (u16_of a b)) = a" unfolding u16_of_def
    by (rule bit_word_eqI) (auto simp: bit_simps dest: bit_imp_le_length)
  moreover have "ucast (u16_of a b) = b" unfolding u16_of_def
    by (rule bit_word_eqI) (auto simp: bit_simps)
  ultimately show ?thesis by (simp add: octets_of_def)
qed

lemma to_canonical_mapped: "length os = 4 \<Longrightarrow> to_canonical (v4_mapped os) = V4 os"
proof -
  assume "length os = 4"
  then obtain a b c d where "os = [a, b, c, d]" by (auto simp: length_Suc_conv numeral_eq_Suc)
  then show ?thesis by (simp add: to_canonical_def v4_mapped_def octets_of_pair numeral_eq_Suc)
qed

lemma mapped_judged_alike: "length os = 4 \<Longrightarrow> is_dialable_addr (Ip (v4_mapped os) p) = is_dialable_addr (Ip (V4 os) p)"
  by (simp add: is_dialable_addr_def to_canonical_mapped) (simp add: to_canonical_def)

end
