(* ===== verification/Blob_Fetch.thy ===== *)
theory Blob_Fetch
  imports Blob_Gate Runs Dial_Addr
begin

text \<open>
  Fetching a blob (\<open>node/src/blobs/provider.rs\<close>): the hedged-dial schedule, and the loop that races
  dials and tries one transfer at a time; and the registry of running fetches with their cancel
  tokens (\<open>node/src/daemon/handlers.rs\<close>, \<open>node/src/cancel.rs\<close>). What a dial or a transfer answers,
  and when the hedge timer fires, are the labels of the steps.
\<close>

subsection \<open>The schedule\<close>

definition MAX_IN_FLIGHT_DIALS :: nat where "MAX_IN_FLIGHT_DIALS = 3"

record hedge_plan =
  hp_total :: nat
  hp_next :: nat
  hp_in_flight :: nat

definition hp_new :: "nat \<Rightarrow> hedge_plan" where
  "hp_new n = \<lparr>hp_total = n, hp_next = 0, hp_in_flight = 0\<rparr>"

definition may_start :: "hedge_plan \<Rightarrow> bool" where
  "may_start p \<longleftrightarrow> hp_next p < hp_total p \<and> hp_in_flight p < MAX_IN_FLIGHT_DIALS"

definition hp_start :: "hedge_plan \<Rightarrow> nat option \<times> hedge_plan" where
  "hp_start p = (if \<not> may_start p then (None, p)
     else (Some (hp_next p), p\<lparr>hp_next := hp_next p + 1, hp_in_flight := hp_in_flight p + 1\<rparr>))"

definition hp_finished :: "hedge_plan \<Rightarrow> hedge_plan" where
  "hp_finished p = p\<lparr>hp_in_flight := hp_in_flight p - 1\<rparr>"

definition exhausted :: "hedge_plan \<Rightarrow> bool" where
  "exhausted p \<longleftrightarrow> hp_total p \<le> hp_next p \<and> hp_in_flight p = 0"

subsection \<open>The sources\<close>

fun dedup_sources :: "bytes list \<Rightarrow> dial_addr list \<Rightarrow> dial_addr list" where
  "dedup_sources seen [] = []"
| "dedup_sources seen (a # as) =
     (if da_id a \<in> set seen then dedup_sources seen as else a # dedup_sources (da_id a # seen) as)"

definition blob_sources :: "dial_addr \<Rightarrow> dial_addr list \<Rightarrow> bool \<Rightarrow> dial_addr list" where
  "blob_sources ticket_addr alternates with_publisher =
     (if with_publisher then [dialable_only ticket_addr] else []) @ dedup_sources [da_id ticket_addr] alternates"

subsection \<open>The loop\<close>

text \<open>
  The racer is entered with the dials still in flight. It returns a connection, which is then
  transferred over, or \<open>None\<close> when every source is spent. \<open>fd_log\<close> records the dials started, as
  ghost state.
\<close>

datatype fetch_phase = Racing | Transferring nat | Fetched nat | NoSourceLeft

record fetch_dial =
  fd_plan :: hedge_plan
  fd_flight :: "nat list"
  fd_phase :: fetch_phase
  fd_log :: "nat list"

definition start_dial :: "fetch_dial \<Rightarrow> fetch_dial" where
  "start_dial f = (case hp_start (fd_plan f) of
     (None, _) \<Rightarrow> f
   | (Some i, p) \<Rightarrow> f\<lparr>fd_plan := p, fd_flight := fd_flight f @ [i], fd_log := fd_log f @ [i]\<rparr>)"

text \<open>Entering the racer: with nothing in flight, the next source is started at once.\<close>

definition enter_race :: "fetch_dial \<Rightarrow> fetch_dial" where
  "enter_race f = (let f = f\<lparr>fd_phase := Racing\<rparr> in
     let f = (if fd_flight f = [] then start_dial f else f)
     in if exhausted (fd_plan f) \<and> fd_flight f = [] then f\<lparr>fd_phase := NoSourceLeft\<rparr> else f)"

datatype fetch_event = DialOk nat | DialErr nat | HedgeTick | TransferOk | TransferErr

definition dial_answered :: "nat \<Rightarrow> fetch_dial \<Rightarrow> fetch_dial" where
  "dial_answered i f = f\<lparr>fd_plan := hp_finished (fd_plan f), fd_flight := remove1 i (fd_flight f)\<rparr>"

definition race_next :: "fetch_dial \<Rightarrow> fetch_dial" where
  "race_next f = (if exhausted (fd_plan f) \<and> fd_flight f = [] then f\<lparr>fd_phase := NoSourceLeft\<rparr> else f)"

fun fetch_step :: "fetch_event \<Rightarrow> fetch_dial \<Rightarrow> fetch_dial option" where
  "fetch_step (DialOk i) f =
     (if fd_phase f = Racing \<and> i \<in> set (fd_flight f) then Some ((dial_answered i f)\<lparr>fd_phase := Transferring i\<rparr>) else None)"
| "fetch_step (DialErr i) f =
     (if fd_phase f = Racing \<and> i \<in> set (fd_flight f) then Some (race_next (start_dial (dial_answered i f))) else None)"
| "fetch_step HedgeTick f =
     (if fd_phase f = Racing \<and> may_start (fd_plan f) then Some (start_dial f) else None)"
| "fetch_step TransferOk f =
     (case fd_phase f of Transferring i \<Rightarrow> Some (f\<lparr>fd_phase := Fetched i\<rparr>) | _ \<Rightarrow> None)"
| "fetch_step TransferErr f =
     (case fd_phase f of Transferring i \<Rightarrow> Some (enter_race f) | _ \<Rightarrow> None)"

definition fetch_from :: "nat \<Rightarrow> fetch_dial" where
  "fetch_from n = enter_race \<lparr>fd_plan = hp_new n, fd_flight = [], fd_phase = Racing, fd_log = []\<rparr>"

subsection \<open>Running fetches\<close>

text \<open>
  A token is the number of its allocation; \<open>fg_cancelled\<close> holds the tripped ones. A guard is a
  running \<open>blob_fetch\<close>: the hash it registered under and the token it watches.
\<close>

record fetch_slot =
  fs_token :: nat
  fs_waiters :: nat

record fetch_registry =
  fg_slots :: "(string \<times> fetch_slot) list"
  fg_next_token :: nat
  fg_cancelled :: "nat list"
  fg_guards :: "(nat \<times> string \<times> nat) list"

definition is_cancelled :: "fetch_registry \<Rightarrow> nat \<Rightarrow> bool" where
  "is_cancelled r t \<longleftrightarrow> t \<in> set (fg_cancelled r)"

definition new_token :: "fetch_registry \<Rightarrow> nat \<times> fetch_registry" where
  "new_token r = (fg_next_token r, r\<lparr>fg_next_token := fg_next_token r + 1\<rparr>)"

text \<open>\<open>FetchGuard::register\<close>: \<open>g\<close> names the new guard.\<close>

definition guard_register :: "nat \<Rightarrow> string \<Rightarrow> fetch_registry \<Rightarrow> fetch_registry" where
  "guard_register g h r =
     (case (case map_of (fg_slots r) h of
              Some slot \<Rightarrow> (slot, r)
            | None \<Rightarrow> (case new_token r of (t, r) \<Rightarrow> (\<lparr>fs_token = t, fs_waiters = 0\<rparr>, r))) of (slot, r) \<Rightarrow>
        (case (if is_cancelled r (fs_token slot)
               then (case new_token r of (t, r) \<Rightarrow> (slot\<lparr>fs_token := t\<rparr>, r)) else (slot, r)) of (slot, r) \<Rightarrow>
           r\<lparr>fg_slots := al_insert h (slot\<lparr>fs_waiters := fs_waiters slot + 1\<rparr>) (fg_slots r),
             fg_guards := (g, h, fs_token slot) # fg_guards r\<rparr>))"

text \<open>\<open>Drop for FetchGuard\<close>.\<close>

definition guard_drop :: "nat \<Rightarrow> fetch_registry \<Rightarrow> fetch_registry" where
  "guard_drop g r = (case map_of (fg_guards r) g of
     None \<Rightarrow> r
   | Some (h, t) \<Rightarrow>
       (let r = r\<lparr>fg_guards := al_remove g (fg_guards r)\<rparr>
        in case map_of (fg_slots r) h of
             None \<Rightarrow> r
           | Some slot \<Rightarrow>
               (let slot = slot\<lparr>fs_waiters := fs_waiters slot - 1\<rparr>
                in if fs_waiters slot = 0 then r\<lparr>fg_slots := al_remove h (fg_slots r)\<rparr>
                   else r\<lparr>fg_slots := al_insert h slot (fg_slots r)\<rparr>)))"

definition cancel_token :: "nat \<Rightarrow> fetch_registry \<Rightarrow> fetch_registry" where
  "cancel_token t r = r\<lparr>fg_cancelled := push_new (fg_cancelled r) t\<rparr>"

definition blob_fetch_cancel ::
  "libs \<Rightarrow> (string \<Rightarrow> bytes option) \<Rightarrow> string \<Rightarrow> fetch_registry \<Rightarrow> bool option \<times> fetch_registry" where
  "blob_fetch_cancel L P h r = (case canonical_hash L P h of
     None \<Rightarrow> (None, r)
   | Some key \<Rightarrow>
       (case map_of (fg_slots r) key of
          Some slot \<Rightarrow> (Some True, cancel_token (fs_token slot) r)
        | None \<Rightarrow> (Some False, r)))"

definition registry_new :: fetch_registry where
  "registry_new = \<lparr>fg_slots = [], fg_next_token = 0, fg_cancelled = [], fg_guards = []\<rparr>"

end
