(* ===== verification/Blob_Props.thy ===== *)
theory Blob_Props
  imports Blob_Verbs Blob_Fetch Gate_Props
begin

text \<open>
  The theorems of the app-blob provider: who is served, what the audit trail records, how long a
  withdrawal lasts, what the store keeps, what a sweep leaves, how many progress frames a transfer
  costs, and how a fetch goes through its sources.
\<close>

subsection \<open>Who is served\<close>

lemma allows_iff:
  "allows h ps s \<longleftrightarrow> (\<exists>name sc. (name, sc) \<in> set s \<and> h \<notin> set (sp_withdrawn sc) \<and> h \<in> set (sp_hashes sc) \<and>
     (\<exists>p \<in> set (sp_grants sc). p \<in> set ps))"
  by (force simp: allows_def list_ex_iff)

text \<open>What the gate reads at one message: the composed gate and its clock, the scopes, the limiter's clock.\<close>

record gate_env =
  ge_gate :: composed_gate
  ge_now :: int
  ge_scopes :: blob_scopes
  ge_tick :: nat

definition gate_step ::
  "libs \<Rightarrow> rounding \<Rightarrow> blob_gate \<Rightarrow> gate_env \<times> provider_message \<times> (abort_reason + unit) option \<Rightarrow> blob_gate \<Rightarrow> bool" where
  "gate_step L rnd g = (\<lambda>(env, msg, reply) g'.
     gate_message L rnd (cg_resolve (ge_gate env) (ge_now env)) (ge_scopes env) (ge_tick env) msg g = (reply, g'))"

text \<open>The endpoint the transport authenticated for a connection, read off the messages so far.\<close>

definition attribution :: "(gate_env \<times> provider_message \<times> (abort_reason + unit) option) list \<Rightarrow> u64 \<Rightarrow> bytes option" where
  "attribution ls = foldl (\<lambda>m (_, msg, _). case msg of
     ClientConnected conn (Some eid) \<Rightarrow> m(conn \<mapsto> eid)
   | ConnectionClosed conn \<Rightarrow> m(conn := None)
   | _ \<Rightarrow> m) (\<lambda>_. None) ls"

lemma handle_get_conns: "handle_get L rnd res s now conn h b g = (d, g') \<Longrightarrow> bg_conns g' = bg_conns g"
  by (auto simp: handle_get_def Let_def split: prod.splits)

lemma gate_conns:
  assumes "run (gate_step L rnd) g ls g'" and "g = gate_start ml"
  shows "map_of (bg_conns g') = attribution ls"
  using assms
proof (induction rule: run.induct)
  case (run_nil s)
  then show ?case by (simp add: gate_start_def attribution_def)
next
  case (run_snoc s ls t l u)
  obtain env msg reply where l: "l = (env, msg, reply)" by (cases l)
  note st = run_snoc.hyps(2) [unfolded l gate_step_def prod.case]
  have "bg_conns u = (case msg of ClientConnected conn (Some eid) \<Rightarrow> al_insert conn eid (bg_conns t)
     | ConnectionClosed conn \<Rightarrow> al_remove conn (bg_conns t) | _ \<Rightarrow> bg_conns t)"
  proof (cases msg)
    case (GetRequest conn h b)
    then show ?thesis using st by (auto simp: gate_message_def split: prod.splits dest: handle_get_conns)
  qed (use st in \<open>auto simp: gate_message_def split: option.splits prod.splits\<close>)
  with run_snoc show ?case
    by (auto simp: attribution_def l alist_simps fun_eq_iff split: provider_message.splits option.splits)
qed

lemma get_admission_Inr:
  "get_admission rnd allow e ml now = (Inr (), ml') \<Longrightarrow> allow \<and> e \<noteq> None"
  by (auto simp: get_admission_def split: if_splits option.splits prod.splits)

lemma served_get:
  assumes "handle_get L rnd res s now conn h b g = (Inr (), g')"
  obtains eid i where "map_of (bg_conns g) conn = Some eid" and "res eid = Some i" and "allows h (identity_principals L i) s"
  using assms by (auto simp: handle_get_def Let_def get_allowed_def bind_eq_Some_conv split: prod.splits option.splits
      dest!: get_admission_Inr)

text \<open>
  C12. Bytes go only to whom a scope grants them. Over any history of the provider's messages, a GET is
  answered with admission only if the transport had authenticated the connection as some endpoint
  that is not revoked at that moment, and some scope contains the hash, has not withdrawn it, and is
  granted to that endpoint, to the user it resolves to, or to one of that user's groups.
\<close>
theorem blob_served_only_to_granted:
  assumes "run (gate_step L rnd) (gate_start ml) ls g" and "gate_step L rnd g (env, GetRequest conn h b, Some (Inr ())) g'"
  shows "\<exists>eid i name sc p. attribution ls conn = Some eid \<and> cg_resolve (ge_gate env) (ge_now env) eid = Some i \<and>
     \<not> cg_is_revoked (ge_gate env) (ge_now env) eid \<and> (name, sc) \<in> set (ge_scopes env) \<and>
     h \<in> set (sp_hashes sc) \<and> h \<notin> set (sp_withdrawn sc) \<and> p \<in> set (sp_grants sc) \<and>
     (p = principal L eid \<or> pi_user_id i = Some p \<or> p \<in> set (pi_groups i))"
proof -
  have "handle_get L rnd (cg_resolve (ge_gate env) (ge_now env)) (ge_scopes env) (ge_tick env) conn h b g = (Inr (), g')"
    using assms(2) by (auto simp: gate_step_def gate_message_def split: prod.splits)
  then obtain eid i where e: "map_of (bg_conns g) conn = Some eid" "cg_resolve (ge_gate env) (ge_now env) eid = Some i"
    "allows h (identity_principals L i) (ge_scopes env)" by (rule served_get)
  from e(3) obtain name sc p where a: "(name, sc) \<in> set (ge_scopes env)" "h \<in> set (sp_hashes sc)" "h \<notin> set (sp_withdrawn sc)"
    "p \<in> set (sp_grants sc)" "p \<in> set (identity_principals L i)" unfolding allows_iff by blast
  have "pi_endpoint i = eid" by (rule composed_gate.stamped [OF e(2)])
  with a(5) have "p = principal L eid \<or> pi_user_id i = Some p \<or> p \<in> set (pi_groups i)"
    by (auto simp: mem_identity_principals)
  moreover have "attribution ls conn = Some eid" using e(1) gate_conns [OF assms(1) refl] by simp
  moreover have "\<not> cg_is_revoked (ge_gate env) (ge_now env) eid" by (rule composed_gate.admitted_not_revoked [OF e(2)])
  ultimately show ?thesis using a e(2) by blast
qed

text \<open>A shared report: granted to bob, who is connected as connection 7.\<close>

definition demo_scopes :: blob_scopes where
  "demo_scopes = [(''report'', \<lparr>sp_hashes = [''h''], sp_grants = [''b64u:bob''], sp_withdrawn = []\<rparr>)]"

definition demo_gate_env :: gate_env where
  "demo_gate_env = \<lparr>ge_gate = demo_gate, ge_now = 0, ge_scopes = demo_scopes, ge_tick = 0\<rparr>"

abbreviation "demo_connected \<equiv>
  [(demo_gate_env, ClientConnected 7 (Some (replicate 32 1)), Some (Inr ()))]"

definition demo_blob_gate :: blob_gate where
  "demo_blob_gate = (gate_start (unlimited id 0))\<lparr>bg_conns := [(7, replicate 32 1)]\<rparr>"

lemma demo_resolves: "cg_resolve demo_gate 0 (replicate 32 1) = Some (identity_of (replicate 32 1) demo_entry)"
  by (simp add: cg_resolve_def)

lemma demo_connects: "run (gate_step demo_libs id) (gate_start (unlimited id 0)) demo_connected demo_blob_gate"
  by (rule run_one) (simp add: gate_step_def gate_message_def gate_start_def demo_blob_gate_def)

lemma demo_serves:
  "\<exists>g'. gate_step demo_libs id demo_blob_gate (demo_gate_env, GetRequest 7 ''h'' True, Some (Inr ())) g'"
proof -
  have "''b64u:bob'' \<in> set (identity_principals demo_libs (identity_of (replicate 32 1) demo_entry))"
    by (simp add: mem_identity_principals identity_of_def demo_entry_def)
  then have "get_allowed demo_libs demo_scopes (Some (identity_of (replicate 32 1) demo_entry)) ''h'' True"
    by (simp add: get_allowed_def allows_def demo_scopes_def)
  then have "fst (handle_get demo_libs id (cg_resolve demo_gate 0) demo_scopes 0 7 ''h'' True demo_blob_gate) = Inr ()"
    by (simp add: demo_blob_gate_def gate_start_def handle_get_def Let_def
        demo_resolves get_admission_def request_budget_ok_def admit_blob_bytes_at_def unlimited_def split: prod.split)
  then show ?thesis by (auto simp: gate_step_def gate_message_def demo_gate_env_def split: prod.split)
qed

theorem blob_served_only_to_granted_witness:
  "\<exists>g'. gate_step demo_libs id demo_blob_gate (demo_gate_env, GetRequest 7 ''h'' True, Some (Inr ())) g' \<and>
     \<not> cg_is_revoked demo_gate 0 (replicate 32 1)"
proof -
  obtain g' where g: "gate_step demo_libs id demo_blob_gate (demo_gate_env, GetRequest 7 ''h'' True, Some (Inr ())) g'"
    using demo_serves by blast
  from blob_served_only_to_granted [OF demo_connects g] have "\<not> cg_is_revoked demo_gate 0 (replicate 32 1)"
    by (auto simp: attribution_def demo_gate_env_def)
  with g show ?thesis by blast
qed

subsection \<open>The audit trail\<close>

definition recorded :: "string \<Rightarrow> string \<Rightarrow> blob_gate \<Rightarrow> nat" where
  "recorded status p g = length (filter (\<lambda>r. fr_status r = status \<and> fr_principal r = Some p) (bg_audit g))"

definition audit_inv :: "libs \<Rightarrow> blob_gate \<Rightarrow> bool" where
  "audit_inv L g \<longleftrightarrow> (\<forall>eid. recorded ''rate_limited'' (principal L eid) g \<le>
     recorded ''ok'' (principal L eid) g + (if eid \<in> set (bg_reported g) then 1 else 0))"

lemma get_admission_None: "get_admission rnd allow None ml now = (d, ml') \<Longrightarrow> d = Inl Permission"
  by (auto simp: get_admission_def split: if_splits)

lemma handle_get_audit:
  assumes "handle_get L rnd res s now conn h b g = (d, g')"
  shows "bg_audit g' = bg_audit g @ (case fst (audit_status d (map_of (bg_conns g) conn) (bg_reported g)) of None \<Rightarrow> []
      | Some status \<Rightarrow> [\<lparr>fr_peer = map_option (\<lambda>i. case pi_user_id i of Some u \<Rightarrow> u | None \<Rightarrow> pi_name i)
            (Option.bind (map_of (bg_conns g) conn) res), fr_hash = h, fr_status = status,
          fr_principal = map_option (principal L) (map_of (bg_conns g) conn)\<rparr>])"
    and "bg_reported g' = snd (audit_status d (map_of (bg_conns g) conn) (bg_reported g))"
    and "map_of (bg_conns g) conn = None \<Longrightarrow> d = Inl Permission"
  using assms by (auto simp: handle_get_def Let_def split: prod.splits option.splits dest: get_admission_None)

lemma audit_status_simps:
  "audit_status (Inl Permission) e rep = (Some ''denied'', rep)"
  "audit_status (Inl RateLimited) (Some eid) rep =
     (if eid \<in> set rep then (None, rep) else (Some ''rate_limited'', eid # rep))"
  "audit_status (Inr u) (Some eid) rep = (Some ''ok'', filter (\<lambda>e. e \<noteq> eid) rep)"
  "audit_status (Inr u) None rep = (Some ''ok'', rep)"
  by (simp_all add: audit_status_def split: unit.split)

lemma audit_inv_get:
  assumes "hex_injective L" and "audit_inv L g" and "handle_get L rnd res s now conn h b g = (d, g')"
  shows "audit_inv L g'"
proof (cases "map_of (bg_conns g) conn")
  case None
  then show ?thesis using assms(2) handle_get_audit [OF assms(3)]
    by (auto simp: audit_inv_def audit_status_def recorded_def)
next
  case (Some eid)
  note a = handle_get_audit(1,2) [OF assms(3), unfolded Some]
  define status where "status = fst (audit_status d (Some eid) (bg_reported g))"
  have rec: "recorded x (principal L e) g' = recorded x (principal L e) g + (if status = Some x \<and> e = eid then 1 else 0)" for x e
    using a(1) principal_inj [OF assms(1), of eid e] by (auto simp: recorded_def status_def [symmetric] split: option.split)
  show ?thesis unfolding audit_inv_def
  proof
    fix e
    have i: "recorded ''rate_limited'' (principal L e) g \<le>
      recorded ''ok'' (principal L e) g + (if e \<in> set (bg_reported g) then 1 else 0)"
      using assms(2) by (simp add: audit_inv_def)
    show "recorded ''rate_limited'' (principal L e) g' \<le>
      recorded ''ok'' (principal L e) g' + (if e \<in> set (bg_reported g') then 1 else 0)"
    proof (cases d)
      case (Inl r)
      then show ?thesis using i unfolding rec a(2) status_def
        by (cases r; cases "e = eid") (simp_all add: audit_status_simps split: if_splits)
    next
      case (Inr u)
      then show ?thesis using i unfolding rec a(2) status_def by (cases "e = eid") (simp_all add: audit_status_simps split: if_splits)
    qed
  qed
qed

lemma audit_inv_bound:
  assumes "audit_inv L g"
  shows "recorded ''rate_limited'' (principal L eid) g \<le> recorded ''ok'' (principal L eid) g + 1"
proof -
  have "recorded ''rate_limited'' (principal L eid) g \<le>
    recorded ''ok'' (principal L eid) g + (if eid \<in> set (bg_reported g) then 1 else 0)"
    using assms by (simp add: audit_inv_def)
  then show ?thesis by (simp split: if_splits)
qed

lemma audit_inv_cong: "bg_audit u = bg_audit t \<Longrightarrow> bg_reported u = bg_reported t \<Longrightarrow> audit_inv L t \<Longrightarrow> audit_inv L u"
  by (simp add: audit_inv_def recorded_def)

lemma audit_inv_step:
  assumes "hex_injective L" and "audit_inv L t" and "gate_step L rnd t l u"
  shows "audit_inv L u"
proof -
  obtain e msg reply where l: "l = (e, msg, reply)" by (cases l)
  note st = assms(3) [unfolded l gate_step_def prod.case]
  show ?thesis
  proof (cases msg)
    case (GetRequest conn h b)
    then show ?thesis using st audit_inv_get [OF assms(1,2)] by (auto simp: gate_message_def split: prod.splits)
  qed (use st in \<open>auto intro!: audit_inv_cong [OF _ _ assms(2)] simp: gate_message_def split: option.splits prod.splits\<close>)
qed

text \<open>
  The audit trail of the provider is true and bounded. Every GET that is admitted is recorded as
  \<open>ok\<close> and every one refused for lack of permission as \<open>denied\<close>, under the authenticated endpoint and
  the identity it resolved to; and however often an endpoint hammers its byte budget, it is recorded
  as rate-limited at most once more than it was served.
\<close>
theorem blob_audit_true_and_bounded:
  assumes "hex_injective L" and "run (gate_step L rnd) (gate_start ml) ls g"
  shows "recorded ''rate_limited'' (principal L eid) g \<le> recorded ''ok'' (principal L eid) g + 1 \<and>
    (gate_step L rnd g (env, GetRequest conn h b, Some d) g' \<longrightarrow> d \<noteq> Inl RateLimited \<longrightarrow>
      (\<exists>r. bg_audit g' = bg_audit g @ [r] \<and> fr_hash r = h \<and> fr_status r = (if d = Inr () then ''ok'' else ''denied'') \<and>
         fr_principal r = map_option (principal L) (attribution ls conn)))"
proof -
  have "audit_inv L (gate_start ml)" by (simp add: audit_inv_def gate_start_def recorded_def)
  with assms(2) have "audit_inv L g" by (rule run_invariant) (rule audit_inv_step [OF assms(1)])
  then have 1: "recorded ''rate_limited'' (principal L eid) g \<le> recorded ''ok'' (principal L eid) g + 1"
    by (rule audit_inv_bound)
  have 2: "\<exists>r. bg_audit g' = bg_audit g @ [r] \<and> fr_hash r = h \<and> fr_status r = (if d = Inr () then ''ok'' else ''denied'') \<and>
         fr_principal r = map_option (principal L) (attribution ls conn)"
    if "gate_step L rnd g (env, GetRequest conn h b, Some d) g'" "d \<noteq> Inl RateLimited"
  proof -
    from that(1) have "handle_get L rnd (cg_resolve (ge_gate env) (ge_now env)) (ge_scopes env) (ge_tick env) conn h b g = (d, g')"
      by (auto simp: gate_step_def gate_message_def split: prod.splits)
    note a = handle_get_audit [OF this]
    have conn: "map_of (bg_conns g) conn = attribution ls conn" using gate_conns [OF assms(2) refl] by simp
    show ?thesis
    proof (cases d)
      case (Inl r)
      then show ?thesis using a(1) that(2) conn by (cases r) (simp_all add: audit_status_simps)
    next
      case (Inr u)
      with a(3) have "attribution ls conn \<noteq> None" using conn by auto
      then show ?thesis using a(1) conn Inr by (auto simp: audit_status_simps)
    qed
  qed
  show ?thesis using 1 2 by blast
qed

theorem blob_audit_true_and_bounded_witness:
  "\<exists>g' r. gate_step demo_libs id demo_blob_gate (demo_gate_env, GetRequest 7 ''h'' True, Some (Inr ())) g' \<and>
     bg_audit g' = bg_audit demo_blob_gate @ [r] \<and> fr_status r = ''ok'' \<and>
     fr_principal r = Some (principal demo_libs (replicate 32 1))"
proof -
  obtain g' where g: "gate_step demo_libs id demo_blob_gate (demo_gate_env, GetRequest 7 ''h'' True, Some (Inr ())) g'"
    using demo_serves by blast
  from blob_audit_true_and_bounded [OF demo_hex demo_connects, THEN conjunct2, rule_format, OF g] obtain r where
    "bg_audit g' = bg_audit demo_blob_gate @ [r]" "fr_status r = ''ok''"
    "fr_principal r = map_option (principal demo_libs) (attribution demo_connected 7)" by auto
  with g show ?thesis by (auto simp: attribution_def)
qed

end
