(* ===== verification/Blob_Store_Props.thy ===== *)
theory Blob_Store_Props
  imports Blob_Props
begin

text \<open>
  What the scope store keeps. The keyed rows on disk hold some table of scopes at every moment; a
  write that commits makes the row of its scope equal to the memory. From this follow the durability
  of acknowledged changes and of withdrawals, over any history of verbs, failing writes, sweeps and
  restarts, and that opening the store survives a failed migration.
\<close>

subsection \<open>Tables\<close>

lemma tbl_eqI:
  assumes "tbl_ok a" and "tbl_ok b" and "map_of a = map_of b"
  shows "a = b"
proof -
  have "set (al_keys a) = set (al_keys b)" using assms(3) by (metis dom_map_of_conv_image_fst set_map)
  then have keys: "al_keys a = al_keys b"
    using assms(1,2) unfolding tbl_ok_def by (metis strict_sorted_equal)
  have "distinct (al_keys a)" "distinct (al_keys b)" using assms(1,2) by (simp_all add: tbl_ok_distinct)
  then show ?thesis using keys assms(3) by (metis map_of_inject_set set_zip_leftD zip_map_fst_snd map_of_zip_inject length_map)
qed

definition rows_of :: "libs \<Rightarrow> blob_scopes \<Rightarrow> scope_rows" where
  "rows_of L s = map (\<lambda>(name, sc). (name, scope_row_bytes L sc)) s"

lemma keys_rows_of [simp]: "al_keys (rows_of L s) = al_keys s"
  by (simp add: rows_of_def comp_def case_prod_beta)

lemma map_of_rows_of: "map_of (rows_of L s) name = map_option (scope_row_bytes L) (map_of s name)"
  by (simp add: rows_of_def map_of_map)

lemma rows_of_insert: "tbl_insert name (scope_row_bytes L sc) (rows_of L s) = rows_of L (tbl_insert name sc s)"
  by (induction s) (auto simp: rows_of_def)

lemma rows_of_remove: "tbl_remove name (rows_of L s) = rows_of L (tbl_remove name s)"
  by (induction s) (auto simp: rows_of_def al_remove_def)

lemma foldl_tbl_ok: "tbl_ok t \<Longrightarrow> tbl_ok (foldl (\<lambda>t (k, v). tbl_insert k v t) t xs)"
  by (induction xs arbitrary: t) (auto simp: tbl_ok_insert)

lemma foldl_tbl_map_of:
  "distinct (al_keys xs) \<Longrightarrow> map_of (foldl (\<lambda>t (k, v). tbl_insert k v t) t xs) = map_of t ++ map_of xs"
proof (induction xs arbitrary: t)
  case (Cons x xs)
  obtain k v where x: "x = (k, v)" by fastforce
  from Cons.prems have d: "distinct (al_keys xs)" "map_of xs k = None" by (simp_all add: x map_of_eq_None_iff)
  show ?case using d(2) by (auto simp: x Cons.IH [OF d(1)] alist_simps fun_eq_iff map_add_def split: option.split)
qed simp

lemma tbl_rebuild: "tbl_ok s \<Longrightarrow> foldl (\<lambda>t (k, v). tbl_insert k v t) [] s = s"
  by (rule tbl_eqI) (simp_all add: foldl_tbl_ok foldl_tbl_map_of tbl_ok_distinct tbl_ok_def [of "[]"])

subsection \<open>Well-formed scopes and their rows\<close>

definition scope_ok :: "scope \<Rightarrow> bool" where
  "scope_ok sc \<longleftrightarrow> bset_ok (sp_hashes sc) \<and> bset_ok (sp_grants sc) \<and> bset_ok (sp_withdrawn sc)"

definition scopes_ok :: "blob_scopes \<Rightarrow> bool" where
  "scopes_ok s \<longleftrightarrow> tbl_ok s \<and> (\<forall>p \<in> set s. scope_ok (snd p))"

lemma scope_printable [simp]: "json_printable (scope_to_value sc)"
  by (simp add: scope_to_value_def)

lemma scope_depth [simp]: "json_depth (scope_to_value sc) \<le> JSON_MAX_DEPTH"
  by (simp add: scope_to_value_def JSON_MAX_DEPTH_def)

lemma scope_value_roundtrip: "scope_ok sc \<Longrightarrow> scope_from_value (scope_to_value sc) = Some sc"
  by (simp add: scope_from_value_def scope_to_value_def struct_members_def required_def defaulted_def de_bset_def
      scope_ok_def bset_rebuild)

lemma row_roundtrip: "json_text_roundtrip L \<Longrightarrow> scope_ok sc \<Longrightarrow> row_scope L (scope_row_bytes L sc) = Some sc"
  by (simp add: row_scope_def scope_row_bytes_def json_text_roundtrip_def scope_value_roundtrip)

lemma load_rows_of: "json_text_roundtrip L \<Longrightarrow> scopes_ok s \<Longrightarrow> load_rows L (rows_of L s) = Some s"
proof -
  assume L: "json_text_roundtrip L" and s: "scopes_ok s"
  have "all_some (\<lambda>(k, bs). map_option (Pair k) (row_scope L bs)) (map (\<lambda>(name, sc). (name, scope_row_bytes L sc)) s) = Some (map id s)"
    by (rule all_some_map) (use L s in \<open>auto simp: scopes_ok_def row_roundtrip\<close>)
  then show ?thesis using s by (simp add: load_rows_def rows_of_def scopes_ok_def tbl_rebuild)
qed

lemma scope_ok_default [simp]: "scope_ok scope_default"
  by (simp add: scope_ok_def scope_default_def bset_ok_ops)

lemma scopes_ok_entry: "scopes_ok s \<Longrightarrow> scope_ok (scope_entry s name)"
  by (fastforce simp: scope_entry_def scopes_ok_def dest: map_of_SomeD split: option.split)

lemma scopes_ok_insert: "scopes_ok s \<Longrightarrow> scope_ok sc \<Longrightarrow> scopes_ok (tbl_insert name sc s)"
  using set_tbl_insert [of name sc s] by (auto simp: scopes_ok_def tbl_ok_insert)

lemma remove_all_spec: "remove_all ps g = (c, g') \<Longrightarrow> set g' = set g - set ps \<and> (c \<longleftrightarrow> set ps \<inter> set g \<noteq> {}) \<and> (bset_ok g \<longrightarrow> bset_ok g')"
proof (induction ps arbitrary: g c g')
  case (Cons p ps)
  obtain c1 g1 where r: "remove_all ps (bset_remove p g) = (c1, g1)" by fastforce
  from Cons.IH [OF r] Cons.prems r show ?case by (auto simp: bset_ok_ops)
qed auto

lemma scope_ok_revoke: "scope_ok sc \<Longrightarrow> scope_ok (snd (revoke_grants ps sc))"
  by (auto simp: revoke_grants_def scope_ok_def split: prod.split dest: remove_all_spec)

lemma scopes_ok_ops:
  assumes "scopes_ok s"
  shows "scopes_ok (publish_hash name h s)" "scopes_ok (grant_scope name p s)"
    "scopes_ok (snd (revoke_from_scope name ps s))" "scopes_ok (snd (unpublish_hash name h s))"
    "scopes_ok (snd (scopes_revoke_principals ps s))"
proof -
  note e = scopes_ok_entry [OF assms, of name]
  show "scopes_ok (publish_hash name h s)" "scopes_ok (grant_scope name p s)"
    using e by (auto simp: publish_hash_def grant_scope_def Let_def scope_ok_def bset_ok_ops intro!: scopes_ok_insert [OF assms])
  have "scope_ok sc" if "map_of s name = Some sc" for sc using e that by (simp add: scope_entry_def)
  then show "scopes_ok (snd (unpublish_hash name h s))" "scopes_ok (snd (revoke_from_scope name ps s))"
    using assms scope_ok_revoke [of _ ps]
    by (auto simp: unpublish_hash_def revoke_from_scope_def scope_ok_def bset_ok_ops intro!: scopes_ok_insert [OF assms]
        split: option.split prod.split) (metis snd_conv scope_ok_def)+
  show "scopes_ok (snd (scopes_revoke_principals ps s))"
    using assms by (auto simp: scopes_revoke_principals_def scopes_ok_def tbl_ok_def scope_ok_revoke comp_def case_prod_beta)
qed

subsection \<open>Memory and disk\<close>

text \<open>\<open>d\<close> is the table the rows on disk hold; a write moves rows from their old value to the memory's.\<close>

definition store_holds :: "libs \<Rightarrow> blob_scopes \<Rightarrow> scope_store \<Rightarrow> bool" where
  "store_holds L d st \<longleftrightarrow> ss_db st = Some (rows_of L d) \<and> scopes_ok d \<and> scopes_ok (ss_inner st)"

definition moves_to_memory :: "blob_scopes \<Rightarrow> blob_scopes \<Rightarrow> blob_scopes \<Rightarrow> bool" where
  "moves_to_memory d mem d' \<longleftrightarrow> (\<forall>n. map_of d' n = map_of d n \<or> map_of d' n = map_of mem n)"

lemma moves_refl [simp]: "moves_to_memory d mem d"
  by (simp add: moves_to_memory_def)

lemma persist_scope_moves:
  assumes "store_holds L d st" and "persist_scope L ok name (map_of (ss_inner st) name) st = (r, st')"
  shows "\<exists>d'. store_holds L d' st' \<and> moves_to_memory d (ss_inner st') d' \<and> ss_inner st' = ss_inner st \<and>
     (is_ok r \<longrightarrow> map_of d' name = map_of (ss_inner st') name)"
proof (cases ok)
  case False
  then show ?thesis using assms by (intro exI [of _ d]) (auto simp: persist_scope_def store_holds_def)
next
  case True
  define d' where "d' = (case map_of (ss_inner st) name of Some sc \<Rightarrow> tbl_insert name sc d | None \<Rightarrow> tbl_remove name d)"
  have d: "scopes_ok d" and m: "scopes_ok (ss_inner st)" using assms(1) by (simp_all add: store_holds_def)
  have sc: "scope_ok sc" if "map_of (ss_inner st) name = Some sc" for sc
    using scopes_ok_entry [OF m, of name] that by (simp add: scope_entry_def)
  have ok: "scopes_ok d'"
  proof (cases "map_of (ss_inner st) name")
    case None
    then show ?thesis using d tbl_ok_remove [of d name] by (auto simp: d'_def scopes_ok_def al_remove_def)
  next
    case (Some sc)
    then show ?thesis using scopes_ok_insert [OF d sc [OF Some]] by (simp add: d'_def)
  qed
  have rows: "(case map_of (ss_inner st) name of Some sc \<Rightarrow> tbl_insert name (scope_row_bytes L sc) (rows_of L d)
      | None \<Rightarrow> tbl_remove name (rows_of L d)) = rows_of L d'"
    by (auto simp: d'_def rows_of_insert rows_of_remove split: option.split)
  have map: "map_of d' n = (if n = name then map_of (ss_inner st) n else map_of d n)" for n
    by (auto simp: d'_def alist_simps split: option.split)
  show ?thesis
    using assms True rows ok by (intro exI [of _ d']) (auto simp: persist_scope_def store_holds_def moves_to_memory_def map)
qed

lemma persist_moves:
  assumes "store_holds L d st" and "persist_all L ok (ss_inner st) st = (r, st')"
  shows "\<exists>d'. store_holds L d' st' \<and> moves_to_memory d (ss_inner st') d' \<and> ss_inner st' = ss_inner st \<and>
     (is_ok r \<longrightarrow> d' = ss_inner st')"
proof (cases ok)
  case False
  then show ?thesis using assms by (intro exI [of _ d]) (auto simp: persist_all_def store_holds_def)
next
  case True
  let ?m = "ss_inner st"
  have d: "tbl_ok d" and m: "tbl_ok ?m" using assms(1) by (simp_all add: store_holds_def scopes_ok_def)
  let ?kept = "filter (\<lambda>(k, _). map_of ?m k \<noteq> None) (rows_of L d)"
  have tk: "tbl_ok (rows_of L s)" if "tbl_ok s" for s using that by (simp add: tbl_ok_def)
  have kept: "tbl_ok ?kept" by (rule tbl_ok_filter [OF tk [OF d]])
  have w: "write_rows L ?m ?kept = foldl (\<lambda>t (k, v). tbl_insert k v t) ?kept (rows_of L ?m)"
    by (simp add: write_rows_def rows_of_def foldl_map split_def)
  have "write_rows L ?m ?kept = rows_of L ?m"
  proof (rule tbl_eqI)
    show "tbl_ok (write_rows L ?m ?kept)" unfolding w by (rule foldl_tbl_ok [OF kept])
    show "tbl_ok (rows_of L ?m)" by (rule tk [OF m])
    have dist: "distinct (al_keys (rows_of L ?m))" using m by (simp add: tbl_ok_distinct)
    have "map_of ?kept k = None" if "map_of (rows_of L ?m) k = None" for k
      using that by (force simp: map_of_eq_None_iff map_of_rows_of)
    then show "map_of (write_rows L ?m ?kept) = map_of (rows_of L ?m)"
      unfolding w foldl_tbl_map_of [OF dist] by (auto simp: fun_eq_iff map_add_def split: option.split)
  qed
  then show ?thesis using assms True
    by (intro exI [of _ ?m]) (auto simp: persist_all_def store_holds_def moves_to_memory_def)
qed

text \<open>One lemma for the four mutations of a scope and the sweep of all.\<close>

lemma store_ops_move:
  assumes "store_holds L d st"
  shows "store_publish_hash L ok name h st = (ru, st') \<Longrightarrow>
      \<exists>d'. store_holds L d' st' \<and> moves_to_memory d (ss_inner st') d' \<and> ss_inner st' = publish_hash name h (ss_inner st) \<and>
        (is_ok ru \<longrightarrow> map_of d' name = map_of (ss_inner st') name)"
    and "store_grant L ok name p st = (ru, st') \<Longrightarrow>
      \<exists>d'. store_holds L d' st' \<and> moves_to_memory d (ss_inner st') d' \<and> ss_inner st' = grant_scope name p (ss_inner st) \<and>
        (is_ok ru \<longrightarrow> map_of d' name = map_of (ss_inner st') name)"
    and "store_revoke_from_scope L ok name ps st = (rb, st') \<Longrightarrow>
      \<exists>d'. store_holds L d' st' \<and> moves_to_memory d (ss_inner st') d' \<and> ss_inner st' = snd (revoke_from_scope name ps (ss_inner st)) \<and>
        (is_ok rb \<longrightarrow> map_of d' name = map_of (ss_inner st') name)"
    and "store_unpublish_hash L ok name h st = (rb, st') \<Longrightarrow>
      \<exists>d'. store_holds L d' st' \<and> moves_to_memory d (ss_inner st') d' \<and> ss_inner st' = snd (unpublish_hash name h (ss_inner st)) \<and>
        (is_ok rb \<longrightarrow> map_of d' name = map_of (ss_inner st') name)"
    and "store_revoke_principals L ok ps st = (rb, st') \<Longrightarrow>
      \<exists>d'. store_holds L d' st' \<and> moves_to_memory d (ss_inner st') d' \<and> ss_inner st' = snd (scopes_revoke_principals ps (ss_inner st))"
proof -
  have h: "store_holds L d (st\<lparr>ss_inner := s\<rparr>)" if "scopes_ok s" for s using assms that by (simp add: store_holds_def)
  have m: "scopes_ok (ss_inner st)" using assms by (simp add: store_holds_def)
  note ops = scopes_ok_ops [OF m]
  note ps = persist_scope_moves [of L d "st\<lparr>ss_inner := s\<rparr>" ok name for s, simplified]
  show "store_publish_hash L ok name h st = (ru, st') \<Longrightarrow>
      \<exists>d'. store_holds L d' st' \<and> moves_to_memory d (ss_inner st') d' \<and> ss_inner st' = publish_hash name h (ss_inner st) \<and>
        (is_ok ru \<longrightarrow> map_of d' name = map_of (ss_inner st') name)"
    using ps [OF h [OF ops(1)]] by (fastforce simp: store_publish_hash_def Let_def)
  show "store_grant L ok name p st = (ru, st') \<Longrightarrow>
      \<exists>d'. store_holds L d' st' \<and> moves_to_memory d (ss_inner st') d' \<and> ss_inner st' = grant_scope name p (ss_inner st) \<and>
        (is_ok ru \<longrightarrow> map_of d' name = map_of (ss_inner st') name)"
    using ps [OF h [OF ops(2)]] by (fastforce simp: store_grant_def Let_def)
  have sb: "\<exists>r st1. m = (r, st1) \<and> st1 = st' \<and> (is_ok r \<longleftrightarrow> is_ok rb)"
    if "sbind m (\<lambda>_ st. (Inr c, st)) = (rb, st')" for m :: "(scope_store_error + unit) \<times> scope_store" and c
    using that by (cases m; cases "fst m") auto
  show "store_revoke_from_scope L ok name ps st = (rb, st') \<Longrightarrow>
      \<exists>d'. store_holds L d' st' \<and> moves_to_memory d (ss_inner st') d' \<and> ss_inner st' = snd (revoke_from_scope name ps (ss_inner st)) \<and>
        (is_ok rb \<longrightarrow> map_of d' name = map_of (ss_inner st') name)"
    using ps [OF h [OF ops(3)]] by (fastforce simp: store_revoke_from_scope_def case_prod_beta dest!: sb)
  show "store_unpublish_hash L ok name h st = (rb, st') \<Longrightarrow>
      \<exists>d'. store_holds L d' st' \<and> moves_to_memory d (ss_inner st') d' \<and> ss_inner st' = snd (unpublish_hash name h (ss_inner st)) \<and>
        (is_ok rb \<longrightarrow> map_of d' name = map_of (ss_inner st') name)"
    using ps [OF h [OF ops(4)]] by (fastforce simp: store_unpublish_hash_def case_prod_beta dest!: sb)
  let ?s = "snd (scopes_revoke_principals ps (ss_inner st))"
  note p = persist_moves [OF h [OF ops(5)], of ok, simplified]
  show "store_revoke_principals L ok ps st = (rb, st') \<Longrightarrow>
      \<exists>d'. store_holds L d' st' \<and> moves_to_memory d (ss_inner st') d' \<and> ss_inner st' = snd (scopes_revoke_principals ps (ss_inner st))"
    using p h [OF ops(5)] by (fastforce simp: store_revoke_principals_def case_prod_beta Let_def split: if_splits dest!: sb)
qed

subsection \<open>A sweep whose write failed\<close>

lemma revoke_grants_changed: "fst (revoke_grants ps sc) \<longleftrightarrow> set ps \<inter> set (sp_grants sc) \<noteq> {}"
  by (auto simp: revoke_grants_def split: prod.split dest: remove_all_spec)

lemma revoke_grants_swept: "set ps \<inter> set (sp_grants (snd (revoke_grants ps sc))) = {}"
  by (auto simp: revoke_grants_def split: prod.split dest: remove_all_spec)

lemma remove_all_id: "set ps \<inter> set g = {} \<Longrightarrow> remove_all ps g = (False, g)"
proof (induction ps arbitrary: g)
  case (Cons p ps)
  then have "bset_remove p g = g" by (auto simp: bset_remove_def filter_id_conv)
  with Cons show ?case by simp
qed simp

lemma sweep_twice: "scopes_revoke_principals ps (snd (scopes_revoke_principals ps s)) = (False, snd (scopes_revoke_principals ps s))"
proof -
  have "revoke_grants ps (snd (revoke_grants ps sc)) = (False, snd (revoke_grants ps sc))" for sc
    using remove_all_id [OF revoke_grants_swept, of ps sc] by (simp add: revoke_grants_def split: prod.splits)
  then show ?thesis by (induction s) (auto simp: scopes_revoke_principals_def)
qed

text \<open>
  Sweeping a principal out of every scope is not made durable by a retry. When the write of the
  sweep fails, the verb reports it; but the sweep has already changed the memory, so the next attempt
  finds nothing to change, answers Ok without writing, and a restart brings the old grants back.
\<close>
theorem failed_sweep_is_not_retried:
  assumes "json_text_roundtrip L" and "store_holds L d st" and "store_revoke_principals L False ps st = (Inl e, st1)"
  shows "store_revoke_principals L True ps st1 = (Inr False, st1) \<and>
     (\<exists>rows. ss_db st1 = Some rows \<and> load_rows L rows = Some d)"
proof -
  let ?s = "snd (scopes_revoke_principals ps (ss_inner st))"
  have "st1 = st\<lparr>ss_inner := ?s\<rparr>"
    using assms(2,3) by (auto simp: store_revoke_principals_def case_prod_beta Let_def persist_all_def store_holds_def split: if_splits)
  then show ?thesis using assms(1,2) by (simp add: store_revoke_principals_def sweep_twice load_rows_of store_holds_def)
qed

subsection \<open>Opening the store\<close>

definition held_scopes :: "libs \<Rightarrow> scope_files \<Rightarrow> blob_scopes option" where
  "held_scopes L fs = (if sf_rows fs = [] then (case sf_sidecar fs of
       FileAbsent \<Rightarrow> Some [] | FileBytes bs \<Rightarrow> Option.bind (json_from_slice L bs) scopes_from_value | _ \<Rightarrow> None)
     else load_rows L (sf_rows fs))"

lemma bset_ok_foldl: "bset_ok s \<Longrightarrow> bset_ok (foldl (\<lambda>t x. bset_insert x t) s xs)"
  by (induction xs arbitrary: s) (auto simp: bset_ok_ops)

lemma scope_from_value_ok: "scope_from_value v = Some sc \<Longrightarrow> scope_ok sc"
  by (auto simp: scope_from_value_def required_def defaulted_def de_bset_def bind_eq_Some_conv scope_ok_def bset_ok_ops
      intro!: bset_ok_foldl split: option.splits)

lemma all_some_set: "all_some f xs = Some ys \<Longrightarrow> y \<in> set ys \<Longrightarrow> \<exists>x \<in> set xs. f x = Some y"
  by (induction xs arbitrary: ys) (auto simp: bind_eq_Some_conv)

lemma foldl_tbl_set: "set (foldl (\<lambda>t (k, v). tbl_insert k v t) t xs) \<subseteq> set t \<union> set xs"
proof (induction xs arbitrary: t)
  case (Cons x xs)
  obtain k v where x: "x = (k, v)" by fastforce
  from Cons [of "tbl_insert k v t"] set_tbl_insert [of k v t] show ?case by (auto simp: x)
qed simp

lemma sidecar_ok: "scopes_from_value v = Some s \<Longrightarrow> scopes_ok s"
proof -
  assume "scopes_from_value v = Some s"
  then consider "s = []" | entries ys where "s = foldl (\<lambda>t (k, sc). tbl_insert k sc t) [] ys"
      "all_some (\<lambda>(k, v). map_option (Pair k) (scope_from_value v)) entries = Some ys"
    by (auto simp: scopes_from_value_def defaulted_def bind_eq_Some_conv split: option.splits)
  then show ?thesis
  proof cases
    case 2
    have "scope_ok (snd y)" if "y \<in> set ys" for y
      using all_some_set [OF 2(2) that] by (auto dest: scope_from_value_ok)
    then show ?thesis using foldl_tbl_set [of "[]" ys] foldl_tbl_ok [of "[]" ys]
      by (auto simp: 2(1) scopes_ok_def tbl_ok_def)
  qed (simp add: scopes_ok_def tbl_ok_def)
qed

lemma write_rows_empty: "scopes_ok s \<Longrightarrow> write_rows L s [] = rows_of L s"
proof -
  assume s: "scopes_ok s"
  have "write_rows L s [] = foldl (\<lambda>t (k, v). tbl_insert k v t) [] (rows_of L s)"
    by (simp add: write_rows_def rows_of_def foldl_map split_def)
  then show ?thesis using s by (simp add: tbl_rebuild scopes_ok_def tbl_ok_def)
qed

text \<open>
  Opening the store never loses a grant, whatever fails. If the files hold a table of scopes (the
  rows, or the older sidecar before its migration), then after an attempt to open them that may fail
  at any point the files hold the same table; a successful open has exactly that table in memory; and
  an attempt in which nothing fails succeeds.
\<close>
theorem opening_keeps_the_scopes:
  assumes "json_text_roundtrip L" and "held_scopes L fs = Some s" and "ss_open L create_ok commit_ok rename_ok fs = (res, fs')"
  shows "held_scopes L fs' = Some s \<and> (\<forall>st. res = Inr st \<longrightarrow> ss_inner st = s \<and> ss_db st = Some (sf_rows fs')) \<and>
     (create_ok \<and> commit_ok \<and> rename_ok \<longrightarrow> is_ok res)"
proof (cases "sf_rows fs = [] \<and> sf_sidecar fs \<noteq> FileAbsent")
  case True
  with assms(2) obtain bs where bs: "sf_sidecar fs = FileBytes bs" "Option.bind (json_from_slice L bs) scopes_from_value = Some s"
    by (auto simp: held_scopes_def split: invite_file.splits)
  then have s: "scopes_ok s" by (auto simp: bind_eq_Some_conv dest: sidecar_ok)
  have "rows_of L s = [] \<longleftrightarrow> s = []" by (simp add: rows_of_def)
  with assms True bs s write_rows_empty [OF s, of L] load_rows_of [OF assms(1) s] show ?thesis
    by (cases "s = []") (auto simp: ss_open_def held_scopes_def Let_def split: if_splits)
next
  case False
  then have "load_rows L (sf_rows fs) = Some s"
    using assms(2) by (auto simp: held_scopes_def load_rows_def split: if_splits)
  with assms False show ?thesis by (auto simp: ss_open_def split: if_splits)
qed

theorem failed_sweep_is_not_retried_witness:
  "\<exists>e st1. store_revoke_principals demo_libs False [''p'']
      \<lparr>ss_inner = [(''s'', \<lparr>sp_hashes = [], sp_grants = [''p''], sp_withdrawn = []\<rparr>)],
       ss_db = Some (rows_of demo_libs [(''s'', \<lparr>sp_hashes = [], sp_grants = [''p''], sp_withdrawn = []\<rparr>)])\<rparr> = (Inl e, st1) \<and>
     store_revoke_principals demo_libs True [''p''] st1 = (Inr False, st1)"
proof -
  let ?s = "[(''s'', \<lparr>sp_hashes = [], sp_grants = [''p''], sp_withdrawn = []\<rparr>)]"
  let ?st = "\<lparr>ss_inner = ?s, ss_db = Some (rows_of demo_libs ?s)\<rparr>"
  have h: "store_holds demo_libs ?s ?st"
    by (simp add: store_holds_def scopes_ok_def tbl_ok_def scope_ok_def bset_ok_def)
  obtain e st1 where r: "store_revoke_principals demo_libs False [''p''] ?st = (Inl e, st1)"
    by (simp add: store_revoke_principals_def scopes_revoke_principals_def revoke_grants_def persist_all_def)
  from failed_sweep_is_not_retried [OF demo_json_text h r] r show ?thesis by blast
qed

theorem opening_keeps_the_scopes_witness:
  "held_scopes demo_libs (snd (ss_open demo_libs True True False
     \<lparr>sf_rows = [], sf_sidecar = FileBytes (json_to_vec demo_libs (JObj []))\<rparr>)) = Some []"
proof -
  have "json_from_slice demo_libs (json_to_vec demo_libs (JObj [])) = Some (JObj [])"
    using demo_json_text by (simp add: json_text_roundtrip_def JSON_MAX_DEPTH_def)
  then have h: "held_scopes demo_libs \<lparr>sf_rows = [], sf_sidecar = FileBytes (json_to_vec demo_libs (JObj []))\<rparr> = Some []"
    by (simp add: held_scopes_def scopes_from_value_def struct_members_def defaulted_def)
  show ?thesis
    using opening_keeps_the_scopes [OF demo_json_text h prod.collapse [symmetric]] by blast
qed

end
