(* ===== verification/Blob_Life.thy ===== *)
theory Blob_Life
  imports Blob_Store_Props
begin

text \<open>
  Histories of the blob provider: imports, membership verbs whose writes may fail, collections that
  may fall into the gap of a republish, and restarts. What survives them.
\<close>

subsection \<open>Histories\<close>

datatype blob_op =
    OpInsert string bytes
  | OpGrant string string
  | OpRevoke string "string list"
  | OpUnpublish string string
  | OpRepublish bool string string
  | OpSweep "string list"

definition ack :: "('e + 'a) \<times> 's \<Rightarrow> ('e + unit) \<times> 's" where
  "ack m = (case m of (r, b) \<Rightarrow> (rbind r (\<lambda>_. Inr ()), b))"

fun blob_do :: "libs \<Rightarrow> (string \<Rightarrow> bytes option) \<Rightarrow> bool \<Rightarrow> blob_op \<Rightarrow> app_blobs \<Rightarrow> (blob_error + unit) \<times> app_blobs" where
  "blob_do L P ok (OpInsert name h) b = ack (publish_insert L ok name h b)"
| "blob_do L P ok (OpGrant name p) b = blob_grant L ok name p b"
| "blob_do L P ok (OpRevoke name ps) b = blob_revoke L ok name ps b"
| "blob_do L P ok (OpUnpublish name h) b = blob_unpublish L P ok name h b"
| "blob_do L P ok (OpRepublish pin_ok name h) b = ack (blob_republish L P pin_ok ok name h b)"
| "blob_do L P ok (OpSweep ps) b = ack (provider_revoke_principals L ok ps b)"

fun op_scope :: "blob_op \<Rightarrow> string option" where
  "op_scope (OpInsert name h) = Some name"
| "op_scope (OpGrant name p) = Some name"
| "op_scope (OpRevoke name ps) = Some name"
| "op_scope (OpUnpublish name h) = Some name"
| "op_scope (OpRepublish pin_ok name h) = Some name"
| "op_scope (OpSweep ps) = None"

text \<open>
  A publish is an import and, later, an insert of what is still pinned. \<open>RepublishSwept\<close> is a
  republish with a collection between its check and its insert. A restart reads the rows back and
  forgets the pins.
\<close>

datatype blob_label =
    Import bytes
  | Verb blob_op bool "blob_error + unit"
  | RepublishSwept string string bool "blob_error + unit"
  | Collect
  | Reopen

fun blob_step :: "libs \<Rightarrow> (string \<Rightarrow> bytes option) \<Rightarrow> app_blobs \<Rightarrow> blob_label \<Rightarrow> app_blobs \<Rightarrow> bool" where
  "blob_step L P b (Import h) b' \<longleftrightarrow> length h = 32 \<and> b' = import_path h b"
| "blob_step L P b (Verb op ok r) b' \<longleftrightarrow>
     (case op of OpInsert name h \<Rightarrow> h \<in> set (ab_pins b) | _ \<Rightarrow> True) \<and> blob_do L P ok op b = (r, b')"
| "blob_step L P b (RepublishSwept name h ok r) b' \<longleftrightarrow>
     ack (sbind (republish_check L P True name h b) (\<lambda>hash b. publish_insert L ok name hash (gc_run P b))) = (r, b')"
| "blob_step L P b Collect b' \<longleftrightarrow> b' = gc_run P b"
| "blob_step L P b Reopen b' \<longleftrightarrow> (\<exists>rows st fs. ss_db (ab_scopes b) = Some rows \<and>
     ss_open L True True True \<lparr>sf_rows = rows, sf_sidecar = FileAbsent\<rparr> = (Inr st, fs) \<and>
     b' = b\<lparr>ab_scopes := st, ab_pins := []\<rparr>)"

definition blobs_fresh :: app_blobs where
  "blobs_fresh = \<lparr>ab_scopes = \<lparr>ss_inner = [], ss_db = Some []\<rparr>, ab_held = [], ab_pins = [], ab_gc_runs = 0, ab_gc_protected = 0\<rparr>"

subsection \<open>What a verb does to the table\<close>

fun op_effect :: "libs \<Rightarrow> (string \<Rightarrow> bytes option) \<Rightarrow> bytes list \<Rightarrow> blob_op \<Rightarrow> blob_scopes \<Rightarrow> blob_scopes \<Rightarrow> bool" where
  "op_effect L P held (OpInsert name h) s s' \<longleftrightarrow> s' = publish_hash name (hexlower L h) s"
| "op_effect L P held (OpGrant name p) s s' \<longleftrightarrow> s' = grant_scope name p s"
| "op_effect L P held (OpRevoke name ps) s s' \<longleftrightarrow> s' = snd (revoke_from_scope name ps s)"
| "op_effect L P held (OpUnpublish name h) s s' \<longleftrightarrow> has_scope name s \<and>
     (\<exists>c c'. canonical_hash L P h = Some c \<and> canonical_hash L P c = Some c' \<and> s' = snd (unpublish_hash name c' s))"
| "op_effect L P held (OpRepublish pin_ok name h) s s' \<longleftrightarrow>
     (\<exists>hash. parse_blob_hash P h = Some hash \<and> hash \<in> set held \<and> \<not> is_withdrawn name (hexlower L hash) s \<and>
        s' = publish_hash name (hexlower L hash) s)"
| "op_effect L P held (OpSweep ps) s s' \<longleftrightarrow> s' = snd (scopes_revoke_principals ps s)"

text \<open>What holds of one membership change: the new memory, the new rows, and what is acknowledged.\<close>

definition scope_change :: "libs \<Rightarrow> blob_scopes \<Rightarrow> string \<Rightarrow> ('e + 'a) \<Rightarrow> blob_scopes \<Rightarrow> app_blobs \<Rightarrow> app_blobs \<Rightarrow> bool" where
  "scope_change L d name r s' b b' \<longleftrightarrow> scopes_of b' = s' \<and>
     (\<exists>d'. store_holds L d' (ab_scopes b') \<and> moves_to_memory d s' d' \<and> (is_ok r \<longrightarrow> map_of d' name = map_of s' name))"

lemma with_scopes_sel: "with_scopes (r, st) b = (r', b') \<Longrightarrow> ab_scopes b' = st \<and> is_ok r' = is_ok r \<and>
    ab_held b' = ab_held b \<and> ab_pins b' = ab_pins b"
  by (auto simp: with_scopes_def lift_scope_def split: sum.splits)

lemma insert_change:
  assumes "store_holds L d (ab_scopes b)" and "publish_insert L ok name h b = (r, b')"
  shows "scope_change L d name r (publish_hash name (hexlower L h) (scopes_of b)) b b' \<and>
    ab_held b' = ab_held b \<and> ab_pins b' = remove1 h (ab_pins b)"
proof -
  obtain r1 st where st: "store_publish_hash L ok name (hexlower L h) (ab_scopes b) = (r1, st)" by fastforce
  obtain r2 b2 where w: "with_scopes (r1, st) b = (r2, b2)" by fastforce
  have "b' = unpin h b2" "is_ok r = is_ok r2"
    using assms(2) by (auto simp: publish_insert_def st w is_ok_def split: sum.splits)
  with with_scopes_sel [OF w] store_ops_move(1) [OF assms(1) st] show ?thesis
    by (auto simp: scope_change_def scopes_of_def unpin_def)
qed

lemma republish_checked:
  assumes "republish_check L P pin_ok name h b = (r, b1)"
  shows "(\<forall>e. r = Inl e \<longrightarrow> b1 = b) \<and> (\<forall>hash. r = Inr hash \<longrightarrow> parse_blob_hash P h = Some hash \<and> hash \<in> set (ab_held b) \<and>
     \<not> is_withdrawn name (hexlower L hash) (scopes_of b) \<and> b1 = (if pin_ok then b\<lparr>ab_pins := hash # ab_pins b\<rparr> else b))"
  using assms by (auto simp: republish_check_def Let_def split: if_splits option.splits)

lemma scopes_of_pins [simp]: "scopes_of (b\<lparr>ab_pins := ps\<rparr>) = scopes_of b" "scopes_of (gc_run P b) = scopes_of b"
  "scopes_of (import_path h b) = scopes_of b" "ab_scopes (gc_run P b) = ab_scopes b" "ab_scopes (import_path h b) = ab_scopes b"
  "ab_pins (gc_run P b) = ab_pins b"
  by (simp_all add: scopes_of_def gc_run_def Let_def import_path_def)

lemma ack_eq: "ack m = (r, b') \<longleftrightarrow> (\<exists>r0. m = (r0, b') \<and> r = rbind r0 (\<lambda>_. Inr ()))"
  by (cases m) (auto simp: ack_def)

lemma is_ok_ack [simp]: "is_ok (rbind r0 (\<lambda>_. Inr ())) = is_ok r0"
  by (cases r0) auto

definition op_changes :: "libs \<Rightarrow> (string \<Rightarrow> bytes option) \<Rightarrow> blob_scopes \<Rightarrow> blob_op \<Rightarrow> ('e + 'a) \<Rightarrow> app_blobs \<Rightarrow> app_blobs \<Rightarrow> bool" where
  "op_changes L P d op r b b' \<longleftrightarrow> op_effect L P (ab_held b) op (scopes_of b) (scopes_of b') \<and>
     (\<exists>d'. store_holds L d' (ab_scopes b') \<and> moves_to_memory d (scopes_of b') d' \<and>
       (\<forall>name. op_scope op = Some name \<longrightarrow> is_ok r \<longrightarrow> map_of d' name = map_of (scopes_of b') name))"

definition op_fails :: "('e + 'a) \<Rightarrow> app_blobs \<Rightarrow> app_blobs \<Rightarrow> bool" where
  "op_fails r b b' \<longleftrightarrow> \<not> is_ok r \<and> b' = b"

lemma republish_change:
  assumes "store_holds L d (ab_scopes b)" and "blob_republish L P pin_ok ok name h b = (r, b')"
  shows "(op_changes L P d (OpRepublish pin_ok name h) r b b' \<or> op_fails r b b') \<and>
    ab_held b' = ab_held b \<and> set (ab_pins b') \<subseteq> set (ab_pins b)"
proof -
  obtain rc b1 where c: "republish_check L P pin_ok name h b = (rc, b1)" by fastforce
  show ?thesis
  proof (cases rc)
    case (Inl e)
    then show ?thesis using assms(2) c republish_checked [OF c]
      by (auto simp: blob_republish_def republish_def op_fails_def)
  next
    case (Inr hash)
    note k = republish_checked [OF c, THEN conjunct2, rule_format, OF Inr]
    have b1: "ab_scopes b1 = ab_scopes b" "scopes_of b1 = scopes_of b" "ab_held b1 = ab_held b" using k by (auto split: if_splits)
    show ?thesis
    proof (cases pin_ok)
      case True
      have i: "publish_insert L ok name hash b1 = (r, b')" using assms(2) c Inr True by (simp add: blob_republish_def republish_def)
      have "store_holds L d (ab_scopes b1)" using assms(1) b1 by simp
      from insert_change [OF this i] k True b1 show ?thesis
        by (auto simp: scope_change_def op_changes_def)
    next
      case False
      obtain r1 st where st: "store_publish_hash L ok name (hexlower L hash) (ab_scopes b) = (r1, st)" by fastforce
      obtain r2 b2 where w: "with_scopes (r1, st) b = (r2, b2)" by fastforce
      have "b' = b2" "is_ok r = is_ok r2"
        using assms(2) c Inr False k by (auto simp: blob_republish_def republish_def st w is_ok_def split: sum.splits)
      with with_scopes_sel [OF w] store_ops_move(1) [OF assms(1) st] k show ?thesis
        by (auto simp: op_changes_def scopes_of_def)
    qed
  qed
qed

lemma blob_do_changes:
  assumes "store_holds L d (ab_scopes b)" and "blob_do L P ok op b = (r, b')"
  shows "(op_changes L P d op r b b' \<or> op_fails r b b') \<and> ab_held b' = ab_held b \<and> set (ab_pins b') \<subseteq> set (ab_pins b)"
proof (cases op)
  case (OpInsert name h)
  then show ?thesis using assms insert_change [OF assms(1), of ok name h] set_remove1_subset [of h "ab_pins b"]
    by (fastforce simp: ack_eq scope_change_def op_changes_def)
next
  case (OpGrant name p)
  obtain r1 st where st: "store_grant L ok name p (ab_scopes b) = (r1, st)" by fastforce
  with OpGrant assms(2) have "with_scopes (r1, st) b = (r, b')" by (simp add: blob_grant_def)
  from with_scopes_sel [OF this] store_ops_move(2) [OF assms(1) st] show ?thesis
    by (auto simp: OpGrant op_changes_def scopes_of_def)
next
  case (OpRevoke name ps)
  show ?thesis
  proof (cases "has_scope name (scopes_of b)")
    case True
    obtain r1 st where st: "store_revoke_from_scope L ok name ps (ab_scopes b) = (r1, st)" by fastforce
    obtain r2 b2 where w: "with_scopes (r1, st) b = (r2, b2)" by fastforce
    have "b' = b2" "is_ok r = is_ok r2"
      using OpRevoke assms(2) True w by (auto simp: blob_revoke_def st sbind_def split: sum.splits)
    with with_scopes_sel [OF w] store_ops_move(3) [OF assms(1) st] show ?thesis
      by (auto simp: OpRevoke op_changes_def scopes_of_def)
  next
    case False
    then show ?thesis using OpRevoke assms(2) by (auto simp: blob_revoke_def op_fails_def)
  qed
next
  case (OpUnpublish name h)
  show ?thesis
  proof (cases "op_fails r b b'")
    case True
    then show ?thesis by (auto simp: op_fails_def)
  next
    case False
    then obtain c c' where c: "canonical_hash L P h = Some c" "has_scope name (scopes_of b)" "canonical_hash L P c = Some c'"
      using OpUnpublish assms(2)
      by (cases "canonical_hash L P h"; cases "has_scope name (scopes_of b)"; cases "canonical_hash L P (the (canonical_hash L P h))")
         (auto simp: blob_unpublish_def unpublish_def op_fails_def)
    obtain r1 st where st: "store_unpublish_hash L ok name c' (ab_scopes b) = (r1, st)" by fastforce
    obtain r2 b2 where w: "with_scopes (r1, st) b = (r2, b2)" by fastforce
    have "b' = b2" "is_ok r = is_ok r2"
      using OpUnpublish assms(2) c w by (auto simp: blob_unpublish_def unpublish_def st sbind_def split: sum.splits)
    with with_scopes_sel [OF w] store_ops_move(4) [OF assms(1) st] c show ?thesis
      by (auto simp: OpUnpublish op_changes_def scopes_of_def)
  qed
next
  case (OpRepublish pin_ok name h)
  then show ?thesis using assms(2) republish_change [OF assms(1), of P pin_ok ok name h]
    by (fastforce simp: ack_eq op_changes_def op_fails_def)
next
  case (OpSweep ps)
  obtain r1 st where st: "store_revoke_principals L ok ps (ab_scopes b) = (r1, st)" by fastforce
  obtain r2 where "with_scopes (r1, st) b = (r2, b')" "is_ok r = is_ok r2"
    using OpSweep assms(2) st by (auto simp: ack_eq provider_revoke_principals_def)
  from with_scopes_sel [OF this(1)] store_ops_move(5) [OF assms(1) st] show ?thesis
    by (auto simp: OpSweep op_changes_def scopes_of_def)
qed

subsection \<open>Histories keep a table on disk\<close>

lemma reopen_reads:
  assumes "json_text_roundtrip L" and "store_holds L d st"
  shows "ss_open L True True True \<lparr>sf_rows = rows_of L d, sf_sidecar = FileAbsent\<rparr> =
    (Inr \<lparr>ss_inner = d, ss_db = Some (rows_of L d)\<rparr>, \<lparr>sf_rows = rows_of L d, sf_sidecar = FileAbsent\<rparr>)"
  using assms by (simp add: ss_open_def load_rows_of store_holds_def)

lemma reopen_step:
  assumes "json_text_roundtrip L" and "store_holds L d (ab_scopes b)"
  shows "blob_step L P b Reopen b' \<longleftrightarrow> b' = b\<lparr>ab_scopes := \<lparr>ss_inner = d, ss_db = Some (rows_of L d)\<rparr>, ab_pins := []\<rparr>"
  using assms reopen_reads [OF assms] by (auto simp: store_holds_def)

lemma republish_swept_change:
  assumes "store_holds L d (ab_scopes b)" and "blob_step L P b (RepublishSwept name h ok r) b'"
  shows "(op_changes L P d (OpRepublish True name h) r b b' \<and> (\<exists>hash. parse_blob_hash P h = Some hash \<and>
        ab_held b' = ab_held (gc_run P (b\<lparr>ab_pins := hash # ab_pins b\<rparr>))) \<or> op_fails r b b' \<and> ab_held b' = ab_held b) \<and>
     ab_pins b' = ab_pins b"
proof -
  obtain rc b1 where c: "republish_check L P True name h b = (rc, b1)" by fastforce
  show ?thesis
  proof (cases rc)
    case (Inl e)
    then show ?thesis using assms(2) c republish_checked [OF c] by (auto simp: ack_eq op_fails_def)
  next
    case (Inr hash)
    note k = republish_checked [OF c, THEN conjunct2, rule_format, OF Inr]
    obtain r0 where i: "publish_insert L ok name hash (gc_run P b1) = (r0, b')" "is_ok r = is_ok r0"
      using assms(2) c Inr by (auto simp: ack_eq)
    have h: "store_holds L d (ab_scopes (gc_run P b1))" using assms(1) k by simp
    show ?thesis using insert_change [OF h i(1)] k i(2) by (auto simp: scope_change_def op_changes_def)
  qed
qed

text \<open>
  One step, seen from the table: the memory and the rows each keep any property of tables that the
  step's change to the memory keeps row by row.
\<close>

definition label_op :: "blob_label \<Rightarrow> blob_op option" where
  "label_op l = (case l of Verb op _ _ \<Rightarrow> Some op | RepublishSwept name h _ _ \<Rightarrow> Some (OpRepublish True name h) | _ \<Rightarrow> None)"

lemma blob_step_tables:
  assumes "json_text_roundtrip L" and "store_holds L d (ab_scopes b)" and "blob_step L P b l b'"
  shows "\<exists>d'. store_holds L d' (ab_scopes b') \<and>
     (d' = d \<and> (scopes_of b' = scopes_of b \<or> scopes_of b' = d) \<or>
      moves_to_memory d (scopes_of b') d' \<and>
      (\<exists>op. label_op l = Some op \<and> op_effect L P (ab_held b) op (scopes_of b) (scopes_of b')))"
proof (cases l)
  case (Verb op ok r)
  then show ?thesis using blob_do_changes [OF assms(2), of P ok op r b'] assms(2,3)
    by (auto simp: op_changes_def op_fails_def label_op_def)
next
  case (RepublishSwept name h ok r)
  then show ?thesis using republish_swept_change [OF assms(2), of P name h ok r b'] assms(2,3)
    by (auto simp: op_changes_def op_fails_def label_op_def)
next
  case Reopen
  then have "b' = b\<lparr>ab_scopes := \<lparr>ss_inner = d, ss_db = Some (rows_of L d)\<rparr>, ab_pins := []\<rparr>"
    using assms(3) reopen_step [OF assms(1,2)] by blast
  then show ?thesis using assms(2) by (intro exI [of _ d]) (simp add: store_holds_def scopes_of_def)
qed (use assms in auto)

lemma fresh_holds: "store_holds L [] (ab_scopes blobs_fresh)"
  by (simp add: store_holds_def blobs_fresh_def rows_of_def scopes_ok_def tbl_ok_def)

lemma history_holds:
  assumes "json_text_roundtrip L" and "run (blob_step L P) b ls b'" and "store_holds L d (ab_scopes b)"
  shows "\<exists>d'. store_holds L d' (ab_scopes b')"
  using assms(2) exI [of "\<lambda>d. store_holds L d (ab_scopes b)", OF assms(3)]
  by (rule run_invariant) (use blob_step_tables [OF assms(1)] in blast)

subsection \<open>Acknowledged changes survive a restart\<close>

text \<open>
  An acknowledged change of a scope is durable. Over any history from a fresh store (writes may
  fail, sweeps and restarts may fall anywhere), once a verb on a scope has answered Ok, the store can
  be opened again, and the scope then reads exactly as it did in memory.
\<close>
theorem acknowledged_scope_survives_restart:
  assumes "json_text_roundtrip L" and "run (blob_step L P) blobs_fresh ls b"
    and "blob_step L P b (Verb op ok (Inr ())) b1" and "op_scope op = Some name"
  shows "\<exists>b2. blob_step L P b1 Reopen b2 \<and> map_of (scopes_of b2) name = map_of (scopes_of b1) name"
proof -
  from history_holds [OF assms(1,2) fresh_holds] obtain d where d: "store_holds L d (ab_scopes b)" by blast
  from blob_do_changes [OF d, of P ok op "Inr ()" b1] assms(3,4) obtain d1 where
    d1: "store_holds L d1 (ab_scopes b1)" "map_of d1 name = map_of (scopes_of b1) name"
    by (auto simp: op_changes_def op_fails_def)
  show ?thesis unfolding reopen_step [OF assms(1) d1(1)] using d1(2) by (auto simp: scopes_of_def)
qed

subsection \<open>Withdrawals last\<close>

lemma is_withdrawn_row: "is_withdrawn name c s \<longleftrightarrow> (\<exists>sc. map_of s name = Some sc \<and> c \<in> set (sp_withdrawn sc))"
  by (auto simp: is_withdrawn_def split: option.split)

lemma publish_keeps_withdrawn:
  "is_withdrawn name c s \<Longrightarrow> (n, h) \<noteq> (name, c) \<Longrightarrow> is_withdrawn name c (publish_hash n h s)"
  by (auto simp: is_withdrawn_row publish_hash_def Let_def alist_simps scope_entry_def)

lemma map_of_sweep: "map_of (snd (scopes_revoke_principals ps s)) n = map_option (\<lambda>sc. snd (revoke_grants ps sc)) (map_of s n)"
  by (simp add: scopes_revoke_principals_def map_of_map)

lemma revoke_grants_sel: "sp_withdrawn (snd (revoke_grants ps sc)) = sp_withdrawn sc" "sp_hashes (snd (revoke_grants ps sc)) = sp_hashes sc"
  by (simp_all add: revoke_grants_def split: prod.split)

lemma effect_keeps_withdrawn:
  assumes "op_effect L P held op s s'" and "is_withdrawn name c s"
    and "\<forall>h. op = OpInsert name h \<longrightarrow> hexlower L h \<noteq> c"
  shows "is_withdrawn name c s'"
  using assms
proof (cases op)
  case (OpInsert n h)
  with assms show ?thesis by (auto intro!: publish_keeps_withdrawn)
next
  case (OpRepublish pin_ok n h)
  with assms(1,2) show ?thesis by (auto intro!: publish_keeps_withdrawn)
next
  case (OpRevoke n ps)
  with assms(1,2) show ?thesis
    using revoke_grants_sel by (auto simp: is_withdrawn_row revoke_from_scope_def alist_simps split: option.splits prod.splits) (metis snd_conv)+
qed (auto simp: is_withdrawn_row grant_scope_def Let_def alist_simps scope_entry_def
      unpublish_hash_def map_of_sweep revoke_grants_sel split: option.splits)

text \<open>The hash parser and printer of \<open>iroh-blobs\<close>: a hash is 32 bytes, and its hexadecimal form parses back.\<close>

definition hash_codec :: "libs \<Rightarrow> (string \<Rightarrow> bytes option) \<Rightarrow> bool" where
  "hash_codec L P \<longleftrightarrow> (\<forall>s bs. P s = Some bs \<longrightarrow> length bs = 32) \<and>
     (\<forall>bs. length bs = 32 \<longrightarrow> length (hexlower L bs) = 64 \<and> list_all is_ascii_hexdigit (hexlower L bs) \<and> P (hexlower L bs) = Some bs)"

lemma parse_hex: "hash_codec L P \<Longrightarrow> length bs = 32 \<Longrightarrow> parse_blob_hash P (hexlower L bs) = Some bs"
  by (simp add: hash_codec_def parse_blob_hash_def)

lemma parsed_length: "hash_codec L P \<Longrightarrow> parse_blob_hash P s = Some bs \<Longrightarrow> length bs = 32"
  by (auto simp: hash_codec_def parse_blob_hash_def split: if_splits)

lemma canonical_twice: "hash_codec L P \<Longrightarrow> canonical_hash L P h = Some c \<Longrightarrow> canonical_hash L P c = Some c"
  using parse_hex parsed_length by (fastforce simp: canonical_hash_def)

definition withdrawal_stands :: "libs \<Rightarrow> string \<Rightarrow> string \<Rightarrow> app_blobs \<Rightarrow> bool" where
  "withdrawal_stands L name c b \<longleftrightarrow> is_withdrawn name c (scopes_of b) \<and>
     (\<exists>d. store_holds L d (ab_scopes b) \<and> is_withdrawn name c d)"

lemma withdrawal_kept:
  assumes "json_text_roundtrip L" and "withdrawal_stands L name c b" and "blob_step L P b l b'"
    and "\<forall>h ok r. l = Verb (OpInsert name h) ok r \<longrightarrow> hexlower L h \<noteq> c"
  shows "withdrawal_stands L name c b'"
proof -
  from assms(2) obtain d where d: "store_holds L d (ab_scopes b)" "is_withdrawn name c d" and m: "is_withdrawn name c (scopes_of b)"
    by (auto simp: withdrawal_stands_def)
  from blob_step_tables [OF assms(1) d(1) assms(3)] obtain d' where d': "store_holds L d' (ab_scopes b')"
    and step: "d' = d \<and> (scopes_of b' = scopes_of b \<or> scopes_of b' = d) \<or>
      moves_to_memory d (scopes_of b') d' \<and>
      (\<exists>op. label_op l = Some op \<and> op_effect L P (ab_held b) op (scopes_of b) (scopes_of b'))" by blast
  from step show ?thesis
  proof (elim disjE conjE exE)
    fix op assume mv: "moves_to_memory d (scopes_of b') d'" and op: "label_op l = Some op"
      and e: "op_effect L P (ab_held b) op (scopes_of b) (scopes_of b')"
    have "\<forall>h. op = OpInsert name h \<longrightarrow> hexlower L h \<noteq> c"
      using op assms(4) by (auto simp: label_op_def split: blob_label.splits)
    from effect_keeps_withdrawn [OF e m this] have m': "is_withdrawn name c (scopes_of b')" .
    with mv d(2) have "is_withdrawn name c d'"
      by (auto simp: moves_to_memory_def is_withdrawn_def split: option.splits) (metis option.sel option.simps(3))+
    with m' d' show ?thesis by (auto simp: withdrawal_stands_def)
  qed (use d d' m in \<open>auto simp: withdrawal_stands_def\<close>)
qed

text \<open>
  C13. A withdrawal lasts. Once an unpublish has answered Ok, then through any later verbs, failing
  writes, sweeps and restarts in which no file publish puts that hash back into that scope, the hash
  stays withdrawn there in memory and after the next restart; a republish of it is refused, and the
  scope admits nobody to it.
\<close>
theorem withdrawal_is_durable:
  assumes "json_text_roundtrip L" and "hash_codec L P" and "run (blob_step L P) blobs_fresh ks b"
    and "blob_step L P b (Verb (OpUnpublish name h) ok (Inr ())) b1" and "canonical_hash L P h = Some c"
    and "run (blob_step L P) b1 ls b2"
    and "\<forall>l \<in> set ls. \<forall>h ok r. l = Verb (OpInsert name h) ok r \<longrightarrow> hexlower L h \<noteq> c"
  shows "is_withdrawn name c (scopes_of b2) \<and> (\<forall>b3. blob_step L P b2 Reopen b3 \<longrightarrow> is_withdrawn name c (scopes_of b3)) \<and>
     (canonical_hash L P h' = Some c \<longrightarrow> \<not> is_ok (fst (blob_republish L P pin_ok ok' name h' b2))) \<and>
     \<not> allows c ps (filter (\<lambda>(n, _). n = name) (scopes_of b2))"
proof -
  from history_holds [OF assms(1,3) fresh_holds] obtain d where d: "store_holds L d (ab_scopes b)" by blast
  from blob_do_changes [OF d, of P ok "OpUnpublish name h" "Inr ()" b1] assms(4) obtain d1 where
    e: "op_effect L P (ab_held b) (OpUnpublish name h) (scopes_of b) (scopes_of b1)" and
    d1: "store_holds L d1 (ab_scopes b1)" "map_of d1 name = map_of (scopes_of b1) name"
    by (auto simp: op_changes_def op_fails_def)
  have "is_withdrawn name c (scopes_of b1)"
    using e assms(5) canonical_twice [OF assms(2,5)]
    by (auto simp: has_scope_def is_withdrawn_row unpublish_hash_def alist_simps split: option.splits)
  then have "withdrawal_stands L name c b1" using d1 by (auto simp: withdrawal_stands_def is_withdrawn_def)
  with assms(6) have s: "withdrawal_stands L name c b2"
    by (rule run_invariant_labels) (erule (1) withdrawal_kept [OF assms(1)], use assms(7) in blast)
  then obtain d2 where d2: "store_holds L d2 (ab_scopes b2)" "is_withdrawn name c d2" and m: "is_withdrawn name c (scopes_of b2)"
    by (auto simp: withdrawal_stands_def)
  have re: "\<forall>b3. blob_step L P b2 Reopen b3 \<longrightarrow> is_withdrawn name c (scopes_of b3)"
    unfolding reopen_step [OF assms(1) d2(1)] using d2(2) by (simp add: scopes_of_def)
  have rp: "\<not> is_ok (fst (blob_republish L P pin_ok ok' name h' b2))" if "canonical_hash L P h' = Some c"
    using that m by (auto simp: canonical_hash_def blob_republish_def republish_def republish_check_def Let_def split: if_split_asm)
  have dist: "distinct (al_keys (scopes_of b2))" using d2(1) by (simp add: store_holds_def scopes_ok_def tbl_ok_distinct scopes_of_def)
  from m obtain sc where sc: "(name, sc) \<in> set (scopes_of b2)" "c \<in> set (sp_withdrawn sc)"
    by (auto simp: is_withdrawn_row dest: map_of_SomeD)
  have "c \<in> set (sp_withdrawn sca)" if "(name, sca) \<in> set (scopes_of b2)" for sca
    using eq_key_imp_eq_value [OF dist sc(1) that] sc(2) by simp
  then have "\<not> allows c ps (filter (\<lambda>(n, _). n = name) (scopes_of b2))" unfolding allows_iff by auto
  with m re rp show ?thesis by blast
qed

subsection \<open>Every entry can be served\<close>

text \<open>
  Bytes behind the entries: every hash listed in memory names bytes the store holds complete, every
  hash of a row on disk is also in memory, held bytes have 32-byte hashes, and what is pinned is held.
\<close>

definition no_phantoms :: "libs \<Rightarrow> app_blobs \<Rightarrow> bool" where
  "no_phantoms L b \<longleftrightarrow> (\<forall>name sc h. map_of (scopes_of b) name = Some sc \<longrightarrow> h \<in> set (sp_hashes sc) \<longrightarrow>
       (\<exists>bs \<in> set (ab_held b). hexlower L bs = h)) \<and>
     (\<forall>bs \<in> set (ab_held b). length bs = 32) \<and> set (ab_pins b) \<subseteq> set (ab_held b)"

definition listed_on :: "blob_scopes \<Rightarrow> string \<Rightarrow> string set" where
  "listed_on s name = (case map_of s name of Some sc \<Rightarrow> set (sp_hashes sc) | None \<Rightarrow> {})"

definition rows_within :: "blob_scopes \<Rightarrow> blob_scopes \<Rightarrow> bool" where
  "rows_within d s \<longleftrightarrow> (\<forall>name. listed_on d name \<subseteq> listed_on s name)"

lemma no_phantoms_listed: "no_phantoms L b \<longleftrightarrow> (\<forall>name. listed_on (scopes_of b) name \<subseteq> hexlower L ` set (ab_held b)) \<and>
     (\<forall>bs \<in> set (ab_held b). length bs = 32) \<and> set (ab_pins b) \<subseteq> set (ab_held b)"
  by (fastforce simp: no_phantoms_def listed_on_def split: option.splits)

lemma live_listed: "map_of s name = Some sc \<Longrightarrow> h \<in> set (sp_hashes sc) \<Longrightarrow> h \<in> set (live_hashes s)"
  by (fastforce simp: live_hashes_def dest: map_of_SomeD)

lemma gc_keeps:
  assumes "hash_codec L P" and "bs \<in> set (ab_held b)" and "length bs = 32" and "hexlower L bs \<in> set (live_hashes (scopes_of b)) \<or> bs \<in> set (ab_pins b)"
  shows "bs \<in> set (ab_held (gc_run P b))"
  using assms parse_hex [OF assms(1,3)] by (force simp: gc_run_def Let_def gc_protected_def List.map_filter_def)

lemma gc_no_phantoms:
  assumes "hash_codec L P" and "no_phantoms L b"
  shows "no_phantoms L (gc_run P b)"
proof -
  have "\<exists>bs \<in> set (ab_held (gc_run P b)). hexlower L bs = h" if "map_of (scopes_of b) name = Some sc" "h \<in> set (sp_hashes sc)" for name sc h
  proof -
    from assms(2) that obtain bs where "bs \<in> set (ab_held b)" "hexlower L bs = h" "length bs = 32" unfolding no_phantoms_def by blast
    then show ?thesis using gc_keeps [OF assms(1), of bs b] live_listed [OF that] by blast
  qed
  moreover have "set (ab_pins b) \<subseteq> set (ab_held (gc_run P b))"
    using assms gc_keeps [OF assms(1)] unfolding no_phantoms_def by blast
  moreover have "set (ab_held (gc_run P b)) \<subseteq> set (ab_held b)" by (auto simp: gc_run_def Let_def)
  ultimately show ?thesis using assms(2) unfolding no_phantoms_def scopes_of_pins by blast
qed

text \<open>What a verb adds to the lists is one hash whose bytes are there; only an unpublish shortens them.\<close>

lemma effect_listed:
  assumes "op_effect L P held op s s'" and "\<forall>name h. op = OpInsert name h \<longrightarrow> h \<in> set held"
  shows "listed_on s' n \<subseteq> listed_on s n \<union> hexlower L ` set held"
    and "\<forall>h. op \<noteq> OpUnpublish n h \<Longrightarrow> listed_on s n \<subseteq> listed_on s' n"
proof -
  have "listed_on s' n \<subseteq> listed_on s n \<union> hexlower L ` set held \<and>
    ((\<forall>h. op \<noteq> OpUnpublish n h) \<longrightarrow> listed_on s n \<subseteq> listed_on s' n)"
    using assms
  proof (cases op)
    case (OpRevoke name ps)
    with assms(1) have "listed_on s' n = listed_on s n" using revoke_grants_sel(2) [of ps]
      by (auto simp: listed_on_def revoke_from_scope_def alist_simps split: option.splits prod.splits) (metis snd_conv)+
    then show ?thesis by blast
  qed (auto simp: listed_on_def publish_hash_def grant_scope_def unpublish_hash_def Let_def alist_simps scope_entry_def
      scope_default_def map_of_sweep revoke_grants_sel split: option.splits if_splits)
  then show "listed_on s' n \<subseteq> listed_on s n \<union> hexlower L ` set held"
    and "\<forall>h. op \<noteq> OpUnpublish n h \<Longrightarrow> listed_on s n \<subseteq> listed_on s' n" by blast+
qed

lemma no_phantoms_change:
  assumes "no_phantoms L b" and "op_effect L P (ab_held b) op (scopes_of b) (scopes_of b')"
    and "\<forall>name h. op = OpInsert name h \<longrightarrow> h \<in> set (ab_held b)"
    and "ab_held b' = ab_held b" and "set (ab_pins b') \<subseteq> set (ab_pins b)"
  shows "no_phantoms L b'"
  using assms(1,4,5) effect_listed(1) [OF assms(2,3)] unfolding no_phantoms_listed by fastforce

lemma rows_within_change:
  assumes "rows_within d s" and "op_effect L P held op s s'" and "\<forall>name h. op = OpInsert name h \<longrightarrow> h \<in> set held"
    and "moves_to_memory d s' d'" and "\<forall>name h. op = OpUnpublish name h \<longrightarrow> map_of d' name = map_of s' name"
  shows "rows_within d' s'"
  unfolding rows_within_def
proof
  fix n
  show "listed_on d' n \<subseteq> listed_on s' n"
  proof (cases "map_of d' n = map_of s' n")
    case True
    then show ?thesis by (simp add: listed_on_def)
  next
    case False
    then have "map_of d' n = map_of d n" "\<forall>h. op \<noteq> OpUnpublish n h"
      using assms(4,5) unfolding moves_to_memory_def by blast+
    then show ?thesis using effect_listed(2) [OF assms(2,3), of n] assms(1)
      by (auto simp: listed_on_def rows_within_def)
  qed
qed

lemma unpublish_commits: "blob_unpublish L P True name h b = (r, b') \<Longrightarrow> is_ok r \<or> b' = b"
  by (auto simp: blob_unpublish_def unpublish_def store_unpublish_hash_def persist_scope_def with_scopes_def lift_scope_def
      sbind_def ok_or_def split: sum.splits prod.splits option.splits if_splits)

definition backed :: "libs \<Rightarrow> app_blobs \<Rightarrow> bool" where
  "backed L b \<longleftrightarrow> no_phantoms L b \<and> (\<exists>d. store_holds L d (ab_scopes b) \<and> rows_within d (scopes_of b))"

lemma backed_step:
  assumes L: "json_text_roundtrip L" "hash_codec L P" and "backed L b" and "blob_step L P b l b'"
    and u: "\<forall>name h ok r. l = Verb (OpUnpublish name h) ok r \<longrightarrow> ok"
  shows "backed L b'"
proof -
  from assms(3) obtain d where n: "no_phantoms L b" and d: "store_holds L d (ab_scopes b)" and w: "rows_within d (scopes_of b)"
    unfolding backed_def by blast
  show ?thesis
  proof (cases l)
    case (Import h)
    with assms(4) have "no_phantoms L b'" using n by (auto simp: no_phantoms_def import_path_def push_new_def scopes_of_def)
    with Import assms(4) d w show ?thesis by (auto simp: backed_def)
  next
    case (Verb op ok r)
    with assms(4) have v: "blob_do L P ok op b = (r, b')" and pin: "\<forall>name h. op = OpInsert name h \<longrightarrow> h \<in> set (ab_held b)"
      using n by (auto simp: no_phantoms_def)
    have c: "\<forall>name h. op = OpUnpublish name h \<longrightarrow> is_ok r \<or> b' = b"
      using v u Verb unpublish_commits by fastforce
    from blob_do_changes [OF d v] show ?thesis
    proof (elim conjE disjE)
      assume o: "op_changes L P d op r b b'" and k: "ab_held b' = ab_held b" "set (ab_pins b') \<subseteq> set (ab_pins b)"
      show ?thesis
      proof (cases "b' = b")
        case False
        from o obtain d' where d': "store_holds L d' (ab_scopes b')" and mv: "moves_to_memory d (scopes_of b') d'"
          and e: "op_effect L P (ab_held b) op (scopes_of b) (scopes_of b')"
          and a: "\<forall>name. op_scope op = Some name \<longrightarrow> is_ok r \<longrightarrow> map_of d' name = map_of (scopes_of b') name"
          unfolding op_changes_def by blast
        have "rows_within d' (scopes_of b')"
          by (rule rows_within_change [OF w e pin mv]) (use a c False in auto)
        with no_phantoms_change [OF n e pin k] d' show ?thesis unfolding backed_def by blast
      qed (use assms(3) in simp)
    qed (use assms(3) in \<open>simp add: op_fails_def\<close>)
  next
    case (RepublishSwept name h ok r)
    from republish_swept_change [OF d, of P name h ok r b'] assms(4) RepublishSwept consider
      (change) hash where "op_changes L P d (OpRepublish True name h) r b b'" "parse_blob_hash P h = Some hash"
        "ab_held b' = ab_held (gc_run P (b\<lparr>ab_pins := hash # ab_pins b\<rparr>))" "ab_pins b' = ab_pins b"
      | (same) "b' = b" by (auto simp: op_fails_def)
    then show ?thesis
    proof cases
      case change
      then obtain d' where d': "store_holds L d' (ab_scopes b')" and mv: "moves_to_memory d (scopes_of b') d'"
        and e: "op_effect L P (ab_held b) (OpRepublish True name h) (scopes_of b) (scopes_of b')"
        unfolding op_changes_def by blast
      have rw: "rows_within d' (scopes_of b')" by (rule rows_within_change [OF w e _ mv]) simp_all
      let ?g = "gc_run P (b\<lparr>ab_pins := hash # ab_pins b\<rparr>)"
      have held: "hash \<in> set (ab_held b)" using e change(2) by auto
      with n have "no_phantoms L (b\<lparr>ab_pins := hash # ab_pins b\<rparr>)" by (auto simp: no_phantoms_def)
      then have g: "no_phantoms L ?g" by (rule gc_no_phantoms [OF L(2)])
      then have "hash \<in> set (ab_held ?g)" by (auto simp: no_phantoms_def)
      then have "op_effect L P (ab_held ?g) (OpRepublish True name h) (scopes_of ?g) (scopes_of b')" using e change(2) by auto
      from no_phantoms_change [OF g this _ change(3)] change(4) have "no_phantoms L b'" by auto
      with d' rw show ?thesis unfolding backed_def by blast
    qed (use assms(3) in simp)
  next
    case Collect
    with assms(4) n d w gc_no_phantoms [OF L(2)] show ?thesis by (auto simp: backed_def)
  next
    case Reopen
    with assms(4) reopen_step [OF L(1) d]
    have b': "b' = b\<lparr>ab_scopes := \<lparr>ss_inner = d, ss_db = Some (rows_of L d)\<rparr>, ab_pins := []\<rparr>" by blast
    have "no_phantoms L b'" using n w unfolding no_phantoms_listed rows_within_def b' by (fastforce simp: scopes_of_def)
    moreover have "store_holds L d (ab_scopes b')" "rows_within d (scopes_of b')"
      using d by (simp_all add: b' store_holds_def scopes_of_def rows_within_def)
    ultimately show ?thesis unfolding backed_def by blast
  qed
qed

text \<open>
  C14. The provider never advertises bytes it does not hold. Over any history from a fresh provider
  (imports and inserts apart, republishes with a collection in their gap, failing writes, restarts),
  in which no unpublish fails to reach the disk, every hash listed in a scope names bytes the store
  holds complete; and a collection reclaims exactly what no scope lists and nothing pins.
\<close>
theorem listed_blobs_are_held:
  assumes "json_text_roundtrip L" and "hash_codec L P" and "run (blob_step L P) blobs_fresh ls b"
    and "\<forall>l \<in> set ls. \<forall>name h ok r. l = Verb (OpUnpublish name h) ok r \<longrightarrow> ok"
  shows "(\<forall>h \<in> set (live_hashes (scopes_of b)). \<exists>bs \<in> set (ab_held b). hexlower L bs = h) \<and>
     set (ab_held (gc_run P b)) = {bs \<in> set (ab_held b). hexlower L bs \<in> set (live_hashes (scopes_of b)) \<or> bs \<in> set (ab_pins b)}"
proof -
  have "backed L blobs_fresh" using fresh_holds [of L]
    by (auto simp: backed_def no_phantoms_def blobs_fresh_def scopes_of_def rows_within_def)
  with assms(3) have b: "backed L b"
    by (rule run_invariant_labels) (erule (1) backed_step [OF assms(1,2)], use assms(4) in blast)
  then have n: "no_phantoms L b" and s: "distinct (al_keys (scopes_of b))"
    by (auto simp: backed_def store_holds_def scopes_ok_def tbl_ok_distinct scopes_of_def)
  have live: "h \<in> set (live_hashes (scopes_of b)) \<Longrightarrow> \<exists>bs \<in> set (ab_held b). hexlower L bs = h" for h
    using n s by (fastforce simp: no_phantoms_def live_hashes_def)
  have 1: "bs \<in> set (ab_held b) \<and> (hexlower L bs \<in> set (live_hashes (scopes_of b)) \<or> bs \<in> set (ab_pins b))"
    if "bs \<in> set (ab_held (gc_run P b))" for bs
  proof -
    from that have h: "bs \<in> set (ab_held b)" "bs \<in> set (gc_protected P (scopes_of b)) \<or> bs \<in> set (ab_pins b)"
      by (auto simp: gc_run_def Let_def)
    have "hexlower L bs \<in> set (live_hashes (scopes_of b))" if "bs \<in> set (gc_protected P (scopes_of b))"
    proof -
      from that obtain h where p: "h \<in> set (live_hashes (scopes_of b))" "parse_blob_hash P h = Some bs"
        by (auto simp: gc_protected_def List.map_filter_def)
      from live [OF p(1)] obtain bs' where "bs' \<in> set (ab_held b)" "hexlower L bs' = h" by blast
      with p parse_hex [OF assms(2), of bs'] n show ?thesis by (auto simp: no_phantoms_def)
    qed
    with h show ?thesis by blast
  qed
  have 2: "bs \<in> set (ab_held (gc_run P b))"
    if "bs \<in> set (ab_held b)" "hexlower L bs \<in> set (live_hashes (scopes_of b)) \<or> bs \<in> set (ab_pins b)" for bs
    using gc_keeps [OF assms(2) that(1) _ that(2)] n that(1) by (auto simp: no_phantoms_def)
  show ?thesis using live 1 2 by blast
qed

subsection \<open>An instance for the witnesses\<close>

text \<open>Real lower-case hexadecimal, and its parser for 32-byte hashes.\<close>

definition hex_digit :: "nat \<Rightarrow> char" where
  "hex_digit n = ''0123456789abcdef'' ! n"

definition hex_value :: "char \<Rightarrow> nat" where
  "hex_value c = (let n = of_char c in if n < 58 then n - 48 else n - 87)"

definition hex_of :: "bytes \<Rightarrow> string" where
  "hex_of bs = concat (map (\<lambda>b. [hex_digit (unat b div 16), hex_digit (unat b mod 16)]) bs)"

fun unhex :: "string \<Rightarrow> bytes" where
  "unhex (a # b # cs) = of_nat (16 * hex_value a + hex_value b) # unhex cs"
| "unhex _ = []"

definition parse_hash :: "string \<Rightarrow> bytes option" where
  "parse_hash s = (let bs = unhex s in if length bs = 32 then Some bs else None)"

definition blob_libs :: libs where
  "blob_libs = demo_libs\<lparr>hexlower := hex_of\<rparr>"

lemma hex_digits: "list_all (\<lambda>n. hex_value (hex_digit n) = n \<and> is_ascii_hexdigit (hex_digit n)) [0..<16]"
  by code_simp

lemma hex_digit_ok: "n < 16 \<Longrightarrow> hex_value (hex_digit n) = n \<and> is_ascii_hexdigit (hex_digit n)"
  using hex_digits by (auto simp: list_all_iff)

lemma unat_byte: "unat (b :: byte) < 256"
  using unsigned_less [where ?'a = nat, of b] by simp

lemma unhex_hex: "unhex (hex_of bs) = bs"
proof (induction bs)
  case (Cons b bs)
  have d: "unat b div 16 < 16" "unat b mod 16 < 16" using unat_byte [of b] by auto
  have "16 * (unat b div 16) + unat b mod 16 = unat b" by simp
  then have "(of_nat (16 * hex_value (hex_digit (unat b div 16)) + hex_value (hex_digit (unat b mod 16))) :: byte) = b"
    using hex_digit_ok [OF d(1)] hex_digit_ok [OF d(2)] by (simp del: of_nat_add of_nat_mult)
  with Cons show ?case by (simp add: hex_of_def)
qed (simp add: hex_of_def)

lemma hex_of_shape: "length (hex_of bs) = 2 * length bs \<and> list_all is_ascii_hexdigit (hex_of bs)"
proof (induction bs)
  case (Cons b bs)
  have d: "unat b div 16 < 16" "unat b mod 16 < 16" using unat_byte [of b] by auto
  with Cons hex_digit_ok [OF d(1)] hex_digit_ok [OF d(2)] show ?case by (simp add: hex_of_def)
qed (simp add: hex_of_def)

lemma blob_codec [simp]: "hash_codec blob_libs parse_hash"
  using hex_of_shape by (auto simp: hash_codec_def blob_libs_def parse_hash_def Let_def unhex_hex split: if_splits)

lemma blob_json [simp]: "json_text_roundtrip blob_libs"
  using demo_json_text by (simp add: json_text_roundtrip_def blob_libs_def)

definition demo_hash :: bytes where "demo_hash = replicate 32 1"
definition demo_hex_hash :: string where "demo_hex_hash = hex_of demo_hash"

lemma demo_hash_parses [simp]:
  "hexlower blob_libs demo_hash = demo_hex_hash" "canonical_hash blob_libs parse_hash demo_hex_hash = Some demo_hex_hash"
  "length demo_hash = 32"
proof -
  show 1: "hexlower blob_libs demo_hash = demo_hex_hash" "length demo_hash = 32"
    by (simp_all add: demo_hex_hash_def blob_libs_def demo_hash_def)
  then show "canonical_hash blob_libs parse_hash demo_hex_hash = Some demo_hex_hash"
    using parse_hex [OF blob_codec 1(2)] by (simp add: canonical_hash_def)
qed

text \<open>A file imported and published to the scope \<open>docs\<close>.\<close>

definition demo_published :: app_blobs where
  "demo_published = snd (publish_insert blob_libs True ''docs'' demo_hash (import_path demo_hash blobs_fresh))"

abbreviation "demo_publish \<equiv> [Import demo_hash, Verb (OpInsert ''docs'' demo_hash) True (Inr ())]"

lemma demo_publish_ok:
  "publish_insert blob_libs True ''docs'' demo_hash (import_path demo_hash blobs_fresh) = (Inr demo_hex_hash, demo_published)"
  by (simp add: demo_published_def publish_insert_def with_scopes_def lift_scope_def store_publish_hash_def persist_scope_def
      import_path_def blobs_fresh_def Let_def publish_hash_def)

lemma demo_published_scopes:
  "scopes_of demo_published = [(''docs'', \<lparr>sp_hashes = [demo_hex_hash], sp_grants = [], sp_withdrawn = []\<rparr>)]"
  by (simp add: demo_published_def publish_insert_def with_scopes_def lift_scope_def store_publish_hash_def persist_scope_def
      import_path_def blobs_fresh_def Let_def publish_hash_def scopes_of_def unpin_def scope_entry_def scope_default_def
      bset_insert_def bset_remove_def insort_insert_key_def)

lemma demo_published_run: "run (blob_step blob_libs parse_hash) blobs_fresh demo_publish demo_published"
proof -
  have "run (blob_step blob_libs parse_hash) blobs_fresh [Import demo_hash] (import_path demo_hash blobs_fresh)"
    by (rule run_one) simp
  from run_snoc [OF this, of "Verb (OpInsert ''docs'' demo_hash) True (Inr ())" demo_published] show ?thesis
    using demo_publish_ok by (simp add: ack_def import_path_def)
qed

lemma demo_withdraws: "\<exists>b1. blob_step blob_libs parse_hash demo_published (Verb (OpUnpublish ''docs'' demo_hex_hash) True (Inr ())) b1"
  by (simp add: blob_unpublish_def unpublish_def has_scope_def demo_published_scopes store_unpublish_hash_def persist_scope_def
      with_scopes_def lift_scope_def split: prod.split option.split)

theorem acknowledged_scope_survives_restart_witness:
  "\<exists>b1 b2. blob_step blob_libs parse_hash demo_published (Verb (OpUnpublish ''docs'' demo_hex_hash) True (Inr ())) b1 \<and>
     blob_step blob_libs parse_hash b1 Reopen b2 \<and> map_of (scopes_of b2) ''docs'' = map_of (scopes_of b1) ''docs''"
  using demo_withdraws acknowledged_scope_survives_restart [OF blob_json demo_published_run] by fastforce

theorem withdrawal_is_durable_witness:
  "\<exists>b1. blob_step blob_libs parse_hash demo_published (Verb (OpUnpublish ''docs'' demo_hex_hash) True (Inr ())) b1 \<and>
     is_withdrawn ''docs'' demo_hex_hash (scopes_of (gc_run parse_hash b1))"
proof -
  obtain b1 where b1: "blob_step blob_libs parse_hash demo_published (Verb (OpUnpublish ''docs'' demo_hex_hash) True (Inr ())) b1"
    using demo_withdraws by blast
  have "run (blob_step blob_libs parse_hash) b1 [Collect] (gc_run parse_hash b1)" by (rule run_one) simp
  from withdrawal_is_durable [OF blob_json blob_codec demo_published_run b1 demo_hash_parses(2) this] b1 show ?thesis by auto
qed

theorem listed_blobs_are_held_witness:
  "\<exists>bs \<in> set (ab_held demo_published). hexlower blob_libs bs = demo_hex_hash"
  using listed_blobs_are_held [OF blob_json blob_codec demo_published_run] by (simp add: demo_published_scopes live_hashes_def)

end
