(* ===== verification/Fetch_Props.thy ===== *)
theory Fetch_Props
  imports Blob_Fetch Blob_Props
begin

text \<open>
  The theorems of a blob fetch: the hedged dials end and leave no source untried, the progress frames
  are few however large the blob, a transfer's frames are well formed, cancelling reaches every
  waiter and nobody who comes later, and pages tile the listing.
\<close>

subsection \<open>The hedged race\<close>

definition fetch_labelled :: "fetch_dial \<Rightarrow> fetch_event \<Rightarrow> fetch_dial \<Rightarrow> bool" where
  "fetch_labelled f e f' \<longleftrightarrow> fetch_step e f = Some f'"

definition race_inv :: "nat \<Rightarrow> fetch_dial \<Rightarrow> bool" where
  "race_inv n f \<longleftrightarrow> hp_total (fd_plan f) = n \<and> fd_log f = [0..<hp_next (fd_plan f)] \<and> hp_next (fd_plan f) \<le> n \<and>
     hp_in_flight (fd_plan f) = length (fd_flight f) \<and> distinct (fd_flight f) \<and> set (fd_flight f) \<subseteq> set (fd_log f) \<and>
     length (fd_flight f) \<le> MAX_IN_FLIGHT_DIALS \<and>
     (case fd_phase f of
        Racing \<Rightarrow> fd_flight f \<noteq> []
      | Transferring i \<Rightarrow> i < hp_next (fd_plan f) \<and> i \<notin> set (fd_flight f)
      | Fetched i \<Rightarrow> i < n
      | NoSourceLeft \<Rightarrow> hp_next (fd_plan f) = n \<and> fd_flight f = [])"

definition race_work :: "fetch_dial \<Rightarrow> nat" where
  "race_work f = 3 * (hp_total (fd_plan f) - hp_next (fd_plan f)) + 2 * length (fd_flight f) +
     (case fd_phase f of Transferring i \<Rightarrow> 1 | _ \<Rightarrow> 0)"

text \<open>The invariant without its clause on the phase.\<close>

definition plan_inv :: "nat \<Rightarrow> fetch_dial \<Rightarrow> bool" where
  "plan_inv n f \<longleftrightarrow> hp_total (fd_plan f) = n \<and> fd_log f = [0..<hp_next (fd_plan f)] \<and> hp_next (fd_plan f) \<le> n \<and>
     hp_in_flight (fd_plan f) = length (fd_flight f) \<and> distinct (fd_flight f) \<and> set (fd_flight f) \<subseteq> set (fd_log f) \<and>
     length (fd_flight f) \<le> MAX_IN_FLIGHT_DIALS"

lemma race_plan: "race_inv n f \<longleftrightarrow> plan_inv n f \<and> (case fd_phase f of
        Racing \<Rightarrow> fd_flight f \<noteq> []
      | Transferring i \<Rightarrow> i < hp_next (fd_plan f) \<and> i \<notin> set (fd_flight f)
      | Fetched i \<Rightarrow> i < n
      | NoSourceLeft \<Rightarrow> hp_next (fd_plan f) = n \<and> fd_flight f = [])"
  by (auto simp: race_inv_def plan_inv_def)

lemma plan_inv_phase [simp]: "plan_inv n (f\<lparr>fd_phase := p\<rparr>) = plan_inv n f"
  by (simp add: plan_inv_def)

lemma start_dial_plan:
  assumes "plan_inv n f"
  shows "plan_inv n (start_dial f)" and "fd_phase (start_dial f) = fd_phase f"
    and "race_work (start_dial f) = (if may_start (fd_plan f) then race_work f - 1 else race_work f)"
    and "may_start (fd_plan f) \<Longrightarrow> fd_flight (start_dial f) \<noteq> [] \<and> race_work f > 0"
  using assms by (auto simp: plan_inv_def start_dial_def hp_start_def may_start_def race_work_def split: fetch_phase.split)

lemma answered_plan:
  assumes "plan_inv n f" and "i \<in> set (fd_flight f)"
  shows "plan_inv n (dial_answered i f)" and "race_work (dial_answered i f) + 2 = race_work f"
proof -
  have "length (fd_flight f) > 0" using assms(2) by (cases "fd_flight f") auto
  then have "Suc (Suc (2 * (length (fd_flight f) - Suc 0))) = 2 * length (fd_flight f)" by linarith
  then show "plan_inv n (dial_answered i f)" "race_work (dial_answered i f) + 2 = race_work f"
    using assms set_remove1_subset [of i "fd_flight f"]
    by (auto simp: plan_inv_def dial_answered_def hp_finished_def length_remove1 race_work_def split: fetch_phase.split)
qed

lemma stuck_exhausted: "plan_inv n f \<Longrightarrow> fd_flight f = [] \<Longrightarrow> \<not> may_start (fd_plan f) \<Longrightarrow> exhausted (fd_plan f)"
  by (auto simp: plan_inv_def may_start_def exhausted_def MAX_IN_FLIGHT_DIALS_def)

lemma start_stuck: "\<not> may_start (fd_plan f) \<Longrightarrow> start_dial f = f"
  by (simp add: start_dial_def hp_start_def)

lemma exhausted_next: "plan_inv n f \<Longrightarrow> exhausted (fd_plan f) \<Longrightarrow> hp_next (fd_plan f) = n"
  by (simp add: plan_inv_def exhausted_def)

lemma enter_race_inv:
  assumes "plan_inv n f"
  shows "race_inv n (enter_race f)" and "race_work (enter_race f) \<le> race_work (f\<lparr>fd_phase := Racing\<rparr>)"
proof -
  let ?f = "f\<lparr>fd_phase := Racing\<rparr>"
  have p: "plan_inv n ?f" using assms by simp
  have "race_inv n (enter_race f) \<and> race_work (enter_race f) \<le> race_work ?f"
  proof (cases "fd_flight f = [] \<and> may_start (fd_plan f)")
    case True
    then have "enter_race f = start_dial ?f" using start_dial_plan(4) [OF p] by (simp add: enter_race_def Let_def)
    then show ?thesis using True start_dial_plan [OF p] by (simp add: race_plan)
  next
    case False
    then have "enter_race f = (if fd_flight f = [] then f\<lparr>fd_phase := NoSourceLeft\<rparr> else ?f)"
      using start_stuck [of ?f] stuck_exhausted [OF p] by (auto simp: enter_race_def Let_def)
    then show ?thesis using p False exhausted_next [OF p] stuck_exhausted [OF p]
      by (auto simp: race_plan plan_inv_def race_work_def)
  qed
  then show "race_inv n (enter_race f)" "race_work (enter_race f) \<le> race_work ?f" by auto
qed

lemma fetch_step_inv:
  assumes "race_inv n f" and "fetch_step e f = Some f'"
  shows "race_inv n f' \<and> race_work f' < race_work f"
proof -
  have p: "plan_inv n f" using assms(1) by (simp add: race_plan)
  show ?thesis
  proof (cases e)
    case (DialOk i)
    with assms(2) have i: "fd_phase f = Racing" "i \<in> set (fd_flight f)" and f': "f' = (dial_answered i f)\<lparr>fd_phase := Transferring i\<rparr>"
      by (auto split: if_splits)
    from answered_plan [OF p i(2)] p i show ?thesis
      by (auto simp: f' race_plan plan_inv_def race_work_def dial_answered_def hp_finished_def)
  next
    case (DialErr i)
    with assms(2) have i: "fd_phase f = Racing" "i \<in> set (fd_flight f)" and f': "f' = race_next (start_dial (dial_answered i f))"
      by (auto split: if_splits)
    let ?a = "dial_answered i f"
    note a = answered_plan [OF p i(2)]
    note s = start_dial_plan [OF a(1)]
    have ph: "fd_phase (start_dial ?a) = Racing" using s(2) i(1) by (simp add: dial_answered_def)
    have w: "race_work (start_dial ?a) < race_work f" using s(3) a(2) by (simp split: if_splits)
    show ?thesis
    proof (cases "fd_flight (start_dial ?a) = []")
      case True
      then have "\<not> may_start (fd_plan ?a)" using s(4) by blast
      then have "start_dial ?a = ?a" "exhausted (fd_plan ?a)" using start_stuck stuck_exhausted [OF a(1)] True by auto
      then have f': "f' = (dial_answered i f)\<lparr>fd_phase := NoSourceLeft\<rparr>" using True by (simp add: f' race_next_def)
      have "race_work f' \<le> race_work (dial_answered i f)" by (simp add: f' race_work_def)
      moreover have "plan_inv n f'" using a(1) by (simp add: f')
      ultimately show ?thesis using a(2) True exhausted_next [OF a(1)] \<open>start_dial ?a = ?a\<close> \<open>exhausted (fd_plan ?a)\<close>
        by (simp add: race_plan f')
    next
      case False
      then show ?thesis using s(1) w ph by (simp add: f' race_next_def race_plan)
    qed
  next
    case HedgeTick
    with assms(2) have "fd_phase f = Racing" "may_start (fd_plan f)" "f' = start_dial f" by (auto split: if_splits)
    then show ?thesis using start_dial_plan [OF p] by (simp add: race_plan)
  next
    case TransferOk
    with assms show ?thesis by (auto simp: race_inv_def race_work_def split: fetch_phase.splits)
  next
    case TransferErr
    with assms(2) obtain i where i: "fd_phase f = Transferring i" "f' = enter_race f" by (auto split: fetch_phase.splits)
    then have "race_work (f\<lparr>fd_phase := Racing\<rparr>) < race_work f" by (simp add: race_work_def)
    with enter_race_inv [OF p] i show ?thesis by auto
  qed
qed

lemma fetch_from_inv: "race_inv n (fetch_from n)" "race_work (fetch_from n) \<le> 3 * n"
proof -
  let ?f = "\<lparr>fd_plan = hp_new n, fd_flight = [], fd_phase = Racing, fd_log = []\<rparr>"
  have p: "plan_inv n ?f" by (simp add: plan_inv_def hp_new_def)
  show "race_inv n (fetch_from n)" unfolding fetch_from_def by (rule enter_race_inv [OF p])
  have "race_work (?f\<lparr>fd_phase := Racing\<rparr>) = 3 * n" by (simp add: race_work_def hp_new_def)
  with enter_race_inv(2) [OF p] show "race_work (fetch_from n) \<le> 3 * n" by (simp add: fetch_from_def)
qed

lemma race_progress:
  assumes "race_inv n f"
  shows "(\<forall>e. fetch_step e f = None) \<longleftrightarrow> (fd_phase f = NoSourceLeft \<or> (\<exists>i. fd_phase f = Fetched i))"
proof (cases "fd_phase f")
  case Racing
  then obtain i where "i \<in> set (fd_flight f)" using assms by (cases "fd_flight f") (auto simp: race_inv_def)
  with Racing have "fetch_step (DialErr i) f \<noteq> None" by simp
  with Racing show ?thesis by (metis fetch_phase.distinct(3,5))
next
  case (Transferring i)
  then have "fetch_step TransferOk f \<noteq> None" by simp
  with Transferring show ?thesis by (metis fetch_phase.distinct(7,9))
next
  case (Fetched i)
  then have "fetch_step e f = None" for e by (cases e) simp_all
  with Fetched show ?thesis by simp
next
  case NoSourceLeft
  then have "fetch_step e f = None" for e by (cases e) simp_all
  with NoSourceLeft show ?thesis by simp
qed

text \<open>
  C23. A fetch always ends, and gives up only when nothing is left. Whatever the dials and transfers
  answer and whenever the hedge timer fires, a fetch over n sources takes at most 3n steps; it dials
  the sources in order and none twice, with at most three dials in flight; it can only stop with a
  fetched blob or when every source was dialled and none is in flight any more; until then some
  answer can move it on.
\<close>
theorem hedged_fetch_terminates:
  assumes "run fetch_labelled (fetch_from n) es f"
  shows "length es \<le> 3 * n \<and> fd_log f = [0..<length (fd_log f)] \<and> length (fd_log f) \<le> n \<and>
     length (fd_flight f) \<le> 3 \<and>
     ((\<forall>e. fetch_step e f = None) \<longleftrightarrow> fd_phase f = NoSourceLeft \<or> (\<exists>i < n. fd_phase f = Fetched i)) \<and>
     (fd_phase f = NoSourceLeft \<longrightarrow> fd_log f = [0..<n] \<and> fd_flight f = [])"
proof -
  have "run fetch_labelled g es f \<Longrightarrow> g = fetch_from n \<Longrightarrow> race_inv n f \<and> length es + race_work f \<le> 3 * n" for g
  proof (induction rule: run.induct)
    case (run_snoc s ls t l u)
    with fetch_step_inv [of n t l u] show ?case by (auto simp: fetch_labelled_def)
  qed (use fetch_from_inv in auto)
  with assms have i: "race_inv n f" and w: "length es + race_work f \<le> 3 * n" by auto
  from i have "fd_log f = [0..<length (fd_log f)]" "length (fd_log f) \<le> n" "length (fd_flight f) \<le> 3"
    "fd_phase f = NoSourceLeft \<longrightarrow> fd_log f = [0..<n] \<and> fd_flight f = []"
    "\<forall>i. fd_phase f = Fetched i \<longrightarrow> i < n"
    by (auto simp: race_inv_def MAX_IN_FLIGHT_DIALS_def)
  with w race_progress [OF i] show ?thesis by auto
qed

theorem hedged_fetch_terminates_witness:
  "\<exists>f. run fetch_labelled (fetch_from 1) [DialErr 0] f \<and> fd_phase f = NoSourceLeft \<and> fd_log f = [0..<1]"
proof -
  have "\<exists>f. fetch_step (DialErr 0) (fetch_from 1) = Some f \<and> fd_phase f = NoSourceLeft"
    by (simp add: fetch_from_def enter_race_def start_dial_def hp_new_def hp_start_def may_start_def MAX_IN_FLIGHT_DIALS_def
        exhausted_def dial_answered_def hp_finished_def race_next_def)
  then obtain f where s: "fetch_step (DialErr 0) (fetch_from 1) = Some f" and p: "fd_phase f = NoSourceLeft" by blast
  have r: "run fetch_labelled (fetch_from 1) [DialErr 0] f" using s by (intro run_one) (simp only: fetch_labelled_def)
  from hedged_fetch_terminates [OF r] p r show ?thesis by blast
qed

end
