(* ===== verification/Progress_Props.thy ===== *)
theory Progress_Props
  imports Fetch_Props
begin

text \<open>How many progress frames a transfer costs, and in which order its frames come.\<close>

lemma unat_push_bit_1: "n < 64 \<Longrightarrow> unat (push_bit n 1 :: u64) = 2 ^ n"
  by (simp only: unsigned_push_bit_eq unsigned_1) (simp add: push_bit_eq_mult take_bit_of_exp)

lemma unat_max: "unat (max a b) = max (unat a) (unat b)" for a b :: u64
  by (auto simp: max_def word_le_nat_alt)

lemma unat_saturating_sub: "unat (u64_saturating_sub a b) = unat a - unat b"
  by (auto simp: u64_saturating_sub_def word_le_nat_alt unat_sub)

lemma unat_saturating_mul: "unat a * unat b < 2 ^ 64 \<Longrightarrow> unat (u64_saturating_mul a b) = unat a * unat b"
  using unat_mult_lem [of a b] by (simp add: u64_saturating_mul_def)

lemma unat_stride_bytes: "unat PROGRESS_STRIDE_BYTES = 2 ^ 20"
  by (simp add: PROGRESS_STRIDE_BYTES_def)

lemma stride_unknown:
  assumes "tp_total st = None" and "unat (tp_epochs st) \<le> 40"
  shows "unat (stride st) = 2 ^ (20 + unat (tp_epochs st))"
proof -
  let ?e = "unat (tp_epochs st)"
  have "unat (min (tp_epochs st) 40) = ?e" using assms(2) by (simp add: min_def word_le_nat_alt)
  then have b: "unat (push_bit (unat (min (tp_epochs st) 40)) 1 :: u64) = 2 ^ ?e" using assms(2) unat_push_bit_1 [of ?e] by simp
  have "(2::nat) ^ (20 + ?e) \<le> 2 ^ 60" by (rule power_increasing) (use assms(2) in auto)
  then have "unat PROGRESS_STRIDE_BYTES * unat (push_bit (unat (min (tp_epochs st) 40)) 1 :: u64) < 2 ^ 64"
    unfolding b unat_stride_bytes by (simp add: power_add)
  from unat_saturating_mul [OF this] have
    "unat (u64_saturating_mul PROGRESS_STRIDE_BYTES (push_bit (unat (min (tp_epochs st) 40)) 1)) = 2 ^ (20 + ?e)"
    unfolding b unat_stride_bytes by (simp add: power_add)
  then show ?thesis using assms(1) by (simp add: stride_def unat_max unat_stride_bytes power_add)
qed

text \<open>The \<open>F\<close> frames sent so far, as epochs of sixteen, and the bytes they stand for.\<close>

definition paced :: "nat \<Rightarrow> transfer_progress \<Rightarrow> bool" where
  "paced F st \<longleftrightarrow> tp_total st = None \<and> F = 16 * unat (tp_epochs st) + unat (tp_in_epoch st) \<and> unat (tp_in_epoch st) < 16 \<and>
     2 ^ 24 * (2 ^ unat (tp_epochs st) - 1) + unat (tp_in_epoch st) * 2 ^ (20 + unat (tp_epochs st)) \<le> unat (tp_last_emitted st)"

lemma paced_epochs:
  assumes "paced F st"
  shows "unat (tp_epochs st) \<le> 40"
proof (rule ccontr)
  let ?e = "unat (tp_epochs st)"
  assume "\<not> ?e \<le> 40"
  then have "(2::nat) ^ 41 \<le> 2 ^ ?e" by (intro power_increasing) auto
  then have "2 ^ 24 * ((2::nat) ^ 41 - 1) \<le> 2 ^ 24 * (2 ^ ?e - 1)" by simp
  moreover have "2 ^ 24 * (2 ^ ?e - 1) \<le> unat (tp_last_emitted st)" using assms by (simp add: paced_def)
  moreover have "unat (tp_last_emitted st) < 2 ^ 64" using unsigned_less [where ?'a = nat, of "tp_last_emitted st"] by simp
  ultimately show False by simp
qed

lemma note_emitted_paced:
  assumes "paced F st" and "unat (tp_last_emitted st) + 2 ^ (20 + unat (tp_epochs st)) \<le> unat x"
  shows "paced (Suc F) (note_emitted (st\<lparr>tp_done := x\<rparr>))"
proof -
  let ?e = "unat (tp_epochs st)" and ?i = "unat (tp_in_epoch st)"
  note p = assms(1) [unfolded paced_def]
  have i1: "unat (tp_in_epoch st + 1) = ?i + 1" using p by (simp add: unat_plus_if')
  have e: "?e \<le> 40" by (rule paced_epochs [OF assms(1)])
  have "unat (- 1 :: u32) = 4294967295" by (simp add: unsigned_minus_1_eq_mask mask_eq_exp_minus_1)
  with e have ne: "tp_epochs st \<noteq> - 1" by force
  have e1: "unat (tp_epochs st + 1) = ?e + 1" using e by (simp add: unat_plus_if')
  have ge: "tp_in_epoch st + 1 \<ge> FRAMES_PER_EPOCH \<longleftrightarrow> ?i = 15"
    using p by (simp add: word_le_nat_alt i1 FRAMES_PER_EPOCH_def) linarith
  have pow: "(1::nat) \<le> 2 ^ ?e" by simp
  show ?thesis
  proof (cases "?i = 15")
    case True
    have "2 ^ 24 * (2 ^ (?e + 1) - 1) \<le> unat x"
      using p assms(2) True by (simp add: power_add algebra_simps diff_mult_distrib2) (use pow in linarith)
    then show ?thesis using p True ge ne e1 by (simp add: note_emitted_def Let_def paced_def u32_saturating_succ_def)
  next
    case False
    have "2 ^ 24 * (2 ^ ?e - 1) + (?i + 1) * 2 ^ (20 + ?e) \<le> unat x"
      using p assms(2) by (simp add: algebra_simps)
    then show ?thesis using p False ge i1 by (simp add: note_emitted_def Let_def paced_def)
  qed
qed

lemma fetch_progress_paced:
  assumes "paced F st" and "fetch_progress x st = (st', frames)"
  shows "paced (F + length frames) st' \<and>
     (frames = [] \<and> tp_last_emitted st' = tp_last_emitted st \<or>
      (\<exists>fr. frames = [fr] \<and> bt_bytes_done fr = x \<and> bt_direction fr = Fetch \<and> bt_state fr = TransferProgress) \<and>
        tp_last_emitted st' = x \<and> tp_last_emitted st < x)"
proof -
  let ?st = "st\<lparr>tp_done := x\<rparr>"
  have e: "unat (tp_epochs st) \<le> 40" by (rule paced_epochs [OF assms(1)])
  have s: "unat (stride ?st) = 2 ^ (20 + unat (tp_epochs st))" using stride_unknown [of ?st] assms(1) e by (simp add: paced_def)
  show ?thesis
  proof (cases "u64_saturating_sub x (tp_last_emitted st) \<ge> stride ?st")
    case True
    then have "2 ^ (20 + unat (tp_epochs st)) \<le> unat x - unat (tp_last_emitted st)"
      by (simp only: word_le_nat_alt unat_saturating_sub s)
    moreover have "(0::nat) < 2 ^ (20 + unat (tp_epochs st))" by simp
    ultimately have g: "unat (tp_last_emitted st) + 2 ^ (20 + unat (tp_epochs st)) \<le> unat x" by linarith
    then have "tp_last_emitted st < x" unfolding word_less_nat_alt by (rule less_le_trans [rotated]) simp
    moreover have "st' = note_emitted ?st" "frames = [emit_fetch (note_emitted ?st) TransferProgress]"
      using assms(2) True by (auto simp: fetch_progress_def Let_def)
    moreover have "tp_done (note_emitted ?st) = x" "tp_last_emitted (note_emitted ?st) = x"
      by (simp_all add: note_emitted_def Let_def)
    ultimately show ?thesis using note_emitted_paced [OF assms(1) g] by (simp add: emit_fetch_def)
  next
    case False
    then show ?thesis using assms by (auto simp: fetch_progress_def Let_def paced_def)
  qed
qed

lemma fetch_progress_all_paced:
  assumes "paced F st" and "fetch_progress_all xs st = (st', frames)" and "\<forall>x \<in> set xs. unat x \<le> B" and "unat (tp_last_emitted st) \<le> B"
  shows "paced (F + length frames) st' \<and> unat (tp_last_emitted st') \<le> B \<and>
     (\<forall>fr \<in> set frames. tp_last_emitted st < bt_bytes_done fr) \<and> sorted_wrt (<) (map bt_bytes_done frames)"
  using assms
proof (induction xs arbitrary: F st st' frames)
  case (Cons x xs)
  obtain st1 fr1 where 1: "fetch_progress x st = (st1, fr1)" by fastforce
  obtain st2 fr2 where 2: "fetch_progress_all xs st1 = (st2, fr2)" by fastforce
  have r: "st' = st2" "frames = fr1 @ fr2" using Cons.prems(2) 1 2 by auto
  note p = fetch_progress_paced [OF Cons.prems(1) 1]
  have "unat (tp_last_emitted st1) \<le> B" using p Cons.prems(3,4) by auto
  from Cons.IH [OF conjunct1 [OF p] 2 _ this] Cons.prems(3)
  have q: "paced (F + length fr1 + length fr2) st2" "unat (tp_last_emitted st2) \<le> B"
    "\<forall>fr \<in> set fr2. tp_last_emitted st1 < bt_bytes_done fr" "sorted_wrt (<) (map bt_bytes_done fr2)" by auto
  have "tp_last_emitted st \<le> tp_last_emitted st1" using p by auto
  with q p show ?case by (auto simp: r add.assoc intro: le_less_trans)
qed auto

text \<open>
  The progress of a fetch costs logarithmically many frames, although the size is not known in
  advance. For any sequence of offsets up to B bytes, if the fetch sends F progress frames then
  16 MiB * (2 ^ (F div 16) - 1) is at most B; so no blob, however large, costs more than 656 frames;
  and the bytes they report strictly increase.
\<close>
theorem fetch_progress_is_logarithmic:
  assumes "\<forall>x \<in> set offsets. unat x \<le> B"
  shows "let frames = snd (fetch_progress_all offsets (fetch_started h)) in
     2 ^ 24 * (2 ^ (length frames div 16) - 1) \<le> B \<and> length frames < 656 \<and> sorted_wrt (<) (map bt_bytes_done frames)"
proof -
  obtain st' frames where f: "fetch_progress_all offsets (fetch_started h) = (st', frames)" by fastforce
  have "paced 0 (fetch_started h)" by (simp add: paced_def fetch_started_def)
  from fetch_progress_all_paced [OF this f assms] have p: "paced (length frames) st'" "unat (tp_last_emitted st') \<le> B"
    and s: "sorted_wrt (<) (map bt_bytes_done frames)" by (simp_all add: fetch_started_def)
  have d: "length frames div 16 = unat (tp_epochs st')" using p(1) by (simp add: paced_def)
  have "2 ^ 24 * (2 ^ unat (tp_epochs st') - 1) \<le> unat (tp_last_emitted st')" using p(1) by (simp add: paced_def)
  then have "2 ^ 24 * (2 ^ (length frames div 16) - 1) \<le> B" unfolding d using p(2) by linarith
  moreover have "length frames < 656" using paced_epochs [OF p(1)] d by linarith
  ultimately show ?thesis using s by (simp add: f Let_def)
qed

theorem fetch_progress_is_logarithmic_witness:
  "2 ^ 24 * (2 ^ (length (snd (fetch_progress_all [2 * 1024 * 1024] (fetch_started []))) div 16) - 1) \<le> (2 * 1024 * 1024 :: nat)"
  using fetch_progress_is_logarithmic [of "[2 * 1024 * 1024]" "2 * 1024 * 1024" "[]"] by (simp add: Let_def)

subsection \<open>The frames of a served transfer\<close>

fun no_restart :: "u64 \<Rightarrow> request_update list \<Rightarrow> bool" where
  "no_restart t [] \<longleftrightarrow> True"
| "no_restart t (Started h n # us) \<longleftrightarrow> False"
| "no_restart t (Progress x # us) \<longleftrightarrow> x \<le> t \<and> no_restart t us"
| "no_restart t (Completed # us) \<longleftrightarrow> no_restart t us"
| "no_restart t (Aborted # us) \<longleftrightarrow> no_restart t us"

fun outcome :: "request_update list \<Rightarrow> transfer_state" where
  "outcome [] = TransferAborted"
| "outcome (Completed # us) = TransferCompleted"
| "outcome (Aborted # us) = TransferAborted"
| "outcome (u # us) = outcome us"

lemma drain_known:
  assumes "tp_total cur = Some t" and "no_restart t us" and "tp_last_emitted cur \<le> t" and "tp_done cur \<le> t"
  shows "\<exists>ps fin. drain_updates peer us (Some cur) = ps @ [fin] \<and> (\<forall>fr \<in> set ps. bt_state fr = TransferProgress) \<and>
     bt_state fin = outcome us \<and> (outcome us = TransferCompleted \<longrightarrow> bt_bytes_done fin = t) \<and>
     length ps * unat (stride cur) + unat (tp_last_emitted cur) \<le> unat t"
  using assms
proof (induction us arbitrary: cur)
  case Nil
  then show ?case by (intro exI [of _ "[]"]) (simp add: emit_transfer_def word_le_nat_alt)
next
  case (Cons u us)
  show ?case
  proof (cases u)
    case (Progress x)
    let ?cur = "cur\<lparr>tp_done := x\<rparr>"
    from Cons.prems Progress have x: "x \<le> t" "no_restart t us" by auto
    show ?thesis
    proof (cases "u64_saturating_sub x (tp_last_emitted cur) \<ge> stride ?cur")
      case True
      let ?n = "note_emitted ?cur"
      have n: "?n = ?cur\<lparr>tp_last_emitted := x\<rparr>" using Cons.prems(1) by (simp add: note_emitted_def Let_def)
      have s: "stride ?n = stride cur" "stride ?cur = stride cur" using Cons.prems(1) by (simp_all add: n stride_def)
      from Cons.IH [of ?n] Cons.prems x obtain ps fin where ih: "drain_updates peer us (Some ?n) = ps @ [fin]"
        "\<forall>fr \<in> set ps. bt_state fr = TransferProgress" "bt_state fin = outcome us"
        "outcome us = TransferCompleted \<longrightarrow> bt_bytes_done fin = t" "length ps * unat (stride cur) + unat x \<le> unat t"
        using s by (auto simp: n)
      have "unat (stride cur) \<le> unat x - unat (tp_last_emitted cur)"
        using True by (simp only: word_le_nat_alt unat_saturating_sub s)
      moreover have "0 < unat (stride cur)"
        using Cons.prems(1) by (simp add: stride_def unat_max unat_stride_bytes less_max_iff_disj)
      ultimately have "Suc (length ps) * unat (stride cur) + unat (tp_last_emitted cur) \<le> unat t" using ih(5) by simp
      moreover have "drain_updates peer (u # us) (Some cur) = (emit_transfer ?n TransferProgress # ps) @ [fin]"
        using True ih(1) by (simp add: Progress apply_transfer_update_def Let_def)
      ultimately show ?thesis using ih(2-4) Progress
        by (intro exI [of _ "emit_transfer ?n TransferProgress # ps"] exI [of _ fin]) (simp add: emit_transfer_def)
    next
      case False
      have s: "stride ?cur = stride cur" using Cons.prems(1) by (simp add: stride_def)
      have "drain_updates peer (u # us) (Some cur) = drain_updates peer us (Some ?cur)"
        using False by (simp add: Progress apply_transfer_update_def Let_def)
      with Cons.IH [of ?cur] Cons.prems x s Progress show ?thesis by simp
    qed
  next
    case Completed
    then show ?thesis using Cons.prems
      by (intro exI [of _ "[]"]) (auto simp: apply_transfer_update_def emit_transfer_def Let_def word_le_nat_alt max_def)
  next
    case Aborted
    then show ?thesis using Cons.prems
      by (intro exI [of _ "[]"]) (auto simp: apply_transfer_update_def emit_transfer_def Let_def word_le_nat_alt)
  qed (use Cons.prems in auto)
qed

text \<open>
  The frames of one served blob. For a blob of t bytes, whatever progress the store reports and
  however the stream ends, subscribers see one Started frame, at most a hundred Progress frames, and
  then exactly one final frame: Completed with all t bytes if the store said so, Aborted if it said
  so or the stream just ended.
\<close>
theorem served_transfer_frames:
  assumes "no_restart t us"
  shows "\<exists>start ps fin. drain_updates peer (Started h t # us) None = start # ps @ [fin] \<and> bt_state start = TransferStarted \<and>
     (\<forall>fr \<in> set ps. bt_state fr = TransferProgress) \<and> length ps \<le> 100 \<and> bt_state fin = outcome us \<and>
     (outcome us = TransferCompleted \<longrightarrow> bt_bytes_done fin = t)"
proof -
  let ?cur = "\<lparr>tp_hash = h, tp_peer = peer, tp_total = Some t, tp_done = 0, tp_last_emitted = 0, tp_epochs = 0, tp_in_epoch = 0\<rparr>"
  from drain_known [of ?cur t us peer] assms obtain ps fin where d: "drain_updates peer us (Some ?cur) = ps @ [fin]"
    "\<forall>fr \<in> set ps. bt_state fr = TransferProgress" "bt_state fin = outcome us"
    "outcome us = TransferCompleted \<longrightarrow> bt_bytes_done fin = t" "length ps * unat (stride ?cur) \<le> unat t" by auto
  have s: "unat (stride ?cur) = max (unat t div 100) (2 ^ 20)" by (simp add: stride_def unat_max unat_stride_bytes unat_div)
  have "length ps \<le> 100"
  proof (rule ccontr)
    assume "\<not> length ps \<le> 100"
    then have "101 * unat (stride ?cur) \<le> length ps * unat (stride ?cur)" by (intro mult_right_mono) auto
    then have "101 * unat (stride ?cur) \<le> unat t" using d(5) by linarith
    moreover have "unat t < 100 * (unat t div 100) + 100" by simp
    moreover have "unat t div 100 \<le> unat (stride ?cur)" "2 ^ 20 \<le> unat (stride ?cur)" unfolding s by auto
    ultimately show False by simp
  qed
  moreover have "drain_updates peer (Started h t # us) None = emit_transfer ?cur TransferStarted # ps @ [fin]"
    using d(1) by (simp add: apply_transfer_update_def Let_def)
  ultimately show ?thesis using d(2-4) by (intro exI conjI) (auto simp: emit_transfer_def)
qed

theorem served_transfer_frames_witness:
  "\<exists>start ps fin. drain_updates None [Started [] 5, Progress 3, Completed] None = start # ps @ [fin] \<and> bt_state fin = TransferCompleted"
  using served_transfer_frames [of 5 "[Progress 3, Completed]" None "[]"] by auto

end
