(* ===== verification/Cancel_Props.thy ===== *)
theory Cancel_Props
  imports Blob_Life Progress_Props
begin

text \<open>The registry of running fetches, and the pages of the scope listing.\<close>

subsection \<open>Cancelling\<close>

datatype fetch_call = StartFetch nat string | EndFetch nat | CancelFetch string bool

fun fetch_call_step :: "libs \<Rightarrow> (string \<Rightarrow> bytes option) \<Rightarrow> fetch_registry \<Rightarrow> fetch_call \<Rightarrow> fetch_registry \<Rightarrow> bool" where
  "fetch_call_step L P r (StartFetch g key) r' \<longleftrightarrow> g \<notin> set (al_keys (fg_guards r)) \<and> r' = guard_register g key r"
| "fetch_call_step L P r (EndFetch g) r' \<longleftrightarrow> r' = guard_drop g r"
| "fetch_call_step L P r (CancelFetch h found) r' \<longleftrightarrow> blob_fetch_cancel L P h r = (Some found, r')"

text \<open>
  Guards have distinct names and tokens in use are allocated; a slot counts the guards of its key, at
  least one; a guard's token is its slot's, unless it was tripped; and slots do not share tokens.
\<close>

definition guards_of :: "fetch_registry \<Rightarrow> string \<Rightarrow> (nat \<times> string \<times> nat) list" where
  "guards_of r key = filter (\<lambda>(g, k, t). k = key) (fg_guards r)"

definition fetch_inv :: "fetch_registry \<Rightarrow> bool" where
  "fetch_inv r \<longleftrightarrow> distinct (al_keys (fg_guards r)) \<and>
     (\<forall>(g, k, t) \<in> set (fg_guards r). t < fg_next_token r) \<and> (\<forall>t \<in> set (fg_cancelled r). t < fg_next_token r) \<and>
     (\<forall>key. case map_of (fg_slots r) key of
        None \<Rightarrow> guards_of r key = []
      | Some slot \<Rightarrow> fs_waiters slot = length (guards_of r key) \<and> guards_of r key \<noteq> [] \<and> fs_token slot < fg_next_token r \<and>
          (\<forall>(g, k, t) \<in> set (guards_of r key). t = fs_token slot \<or> t \<in> set (fg_cancelled r)))"

lemma fetch_inv_slot:
  "fetch_inv r \<Longrightarrow> map_of (fg_slots r) key = Some slot \<Longrightarrow> fs_waiters slot = length (guards_of r key) \<and> guards_of r key \<noteq> [] \<and>
     fs_token slot < fg_next_token r \<and> (\<forall>(g, k, t) \<in> set (guards_of r key). t = fs_token slot \<or> t \<in> set (fg_cancelled r))"
  "fetch_inv r \<Longrightarrow> map_of (fg_slots r) key = None \<Longrightarrow> guards_of r key = []"
  by (auto simp: fetch_inv_def split: option.splits dest!: spec [of _ key])

lemma register_effect:
  assumes "fetch_inv r"
  shows "\<exists>t. map_of (fg_slots (guard_register g key r)) =
      (map_of (fg_slots r))(key \<mapsto> \<lparr>fs_token = t, fs_waiters = Suc (length (guards_of r key))\<rparr>) \<and>
     fg_guards (guard_register g key r) = (g, key, t) # fg_guards r \<and>
     fg_cancelled (guard_register g key r) = fg_cancelled r \<and> t \<notin> set (fg_cancelled r) \<and>
     t < fg_next_token (guard_register g key r) \<and> fg_next_token r \<le> fg_next_token (guard_register g key r) \<and>
     (\<forall>slot. map_of (fg_slots r) key = Some slot \<longrightarrow> t = fs_token slot \<or> fs_token slot \<in> set (fg_cancelled r))"
proof (cases "map_of (fg_slots r) key")
  case None
  have "fg_next_token r \<notin> set (fg_cancelled r)" using assms(1) by (auto simp: fetch_inv_def)
  with None fetch_inv_slot(2) [OF assms(1) None] show ?thesis
    by (intro exI [of _ "fg_next_token r"]) (simp add: guard_register_def new_token_def is_cancelled_def alist_simps)
next
  case (Some slot)
  have n: "fg_next_token r \<notin> set (fg_cancelled r)" using assms(1) by (auto simp: fetch_inv_def)
  from Some n fetch_inv_slot(1) [OF assms(1) Some] show ?thesis
    by (intro exI [of _ "if is_cancelled r (fs_token slot) then fg_next_token r else fs_token slot"], cases slot)
       (auto simp: guard_register_def new_token_def is_cancelled_def alist_simps)
qed

lemma register_inv:
  assumes "fetch_inv r" and "g \<notin> set (al_keys (fg_guards r))"
  shows "fetch_inv (guard_register g key r)"
proof -
  let ?r = "guard_register g key r"
  obtain t where e: "map_of (fg_slots ?r) = (map_of (fg_slots r))(key \<mapsto> \<lparr>fs_token = t, fs_waiters = Suc (length (guards_of r key))\<rparr>)"
     "fg_guards ?r = (g, key, t) # fg_guards r" "fg_cancelled ?r = fg_cancelled r" "t < fg_next_token ?r"
     "fg_next_token r \<le> fg_next_token ?r"
     "\<forall>slot. map_of (fg_slots r) key = Some slot \<longrightarrow> t = fs_token slot \<or> fs_token slot \<in> set (fg_cancelled r)"
    using register_effect [OF assms(1), of g key] by blast
  have go: "guards_of ?r k = (if k = key then [(g, key, t)] else []) @ guards_of r k" for k
    by (simp add: guards_of_def e(2))
  have old: "\<forall>(g, k, t') \<in> set (guards_of r key). t' = t \<or> t' \<in> set (fg_cancelled r)"
    using fetch_inv_slot [OF assms(1), of key] e(6) by (cases "map_of (fg_slots r) key") fastforce+
  have "case map_of (fg_slots ?r) k of
        None \<Rightarrow> guards_of ?r k = []
      | Some slot \<Rightarrow> fs_waiters slot = length (guards_of ?r k) \<and> guards_of ?r k \<noteq> [] \<and> fs_token slot < fg_next_token ?r \<and>
          (\<forall>(g, k, t) \<in> set (guards_of ?r k). t = fs_token slot \<or> t \<in> set (fg_cancelled ?r))" for k
  proof (cases "k = key")
    case True
    then show ?thesis using e old by (auto simp: go)
  next
    case False
    then show ?thesis using fetch_inv_slot [OF assms(1), of k] e(1,3,5)
      by (cases "map_of (fg_slots r) k") (auto simp: go)
  qed
  moreover have "(\<forall>(g, k, t) \<in> set (fg_guards ?r). t < fg_next_token ?r) \<and> (\<forall>t \<in> set (fg_cancelled ?r). t < fg_next_token ?r)"
    using assms(1) e by (fastforce simp: fetch_inv_def)
  ultimately show ?thesis using assms e(2) unfolding fetch_inv_def by simp
qed

text \<open>Every token in use belongs to one key.\<close>

definition owned :: "fetch_registry \<Rightarrow> bool" where
  "owned r \<longleftrightarrow> (\<exists>own. (\<forall>(g, k, t) \<in> set (fg_guards r). own t = k) \<and>
     (\<forall>k slot. map_of (fg_slots r) k = Some slot \<longrightarrow> own (fs_token slot) = k))"

lemma register_owned:
  assumes "fetch_inv r" and "owned r"
  shows "owned (guard_register g key r)"
proof -
  from assms(2) obtain own where o: "\<forall>(g, k, t) \<in> set (fg_guards r). own t = k"
    "\<forall>k slot. map_of (fg_slots r) k = Some slot \<longrightarrow> own (fs_token slot) = k" unfolding owned_def by blast
  have fresh: "\<forall>(g, k, t) \<in> set (fg_guards r). t \<noteq> fg_next_token r"
    "\<forall>k slot. map_of (fg_slots r) k = Some slot \<longrightarrow> fs_token slot \<noteq> fg_next_token r"
    using assms(1) fetch_inv_slot(1) [OF assms(1)] by (fastforce simp: fetch_inv_def)+
  have "(\<forall>(g, k, t) \<in> set (fg_guards (guard_register g key r)). (own(fg_next_token r := key)) t = k) \<and>
     (\<forall>k slot. map_of (fg_slots (guard_register g key r)) k = Some slot \<longrightarrow> (own(fg_next_token r := key)) (fs_token slot) = k) \<or>
     (\<forall>(g, k, t) \<in> set (fg_guards (guard_register g key r)). own t = k) \<and>
     (\<forall>k slot. map_of (fg_slots (guard_register g key r)) k = Some slot \<longrightarrow> own (fs_token slot) = k)"
  proof (cases "\<exists>slot. map_of (fg_slots r) key = Some slot \<and> \<not> is_cancelled r (fs_token slot)")
    case True
    then obtain slot where s: "map_of (fg_slots r) key = Some slot" "\<not> is_cancelled r (fs_token slot)" by blast
    then show ?thesis using o by (intro disjI2) (auto simp: guard_register_def alist_simps)
  next
    case False
    then have "map_of (fg_slots (guard_register g key r)) =
        (map_of (fg_slots r))(key \<mapsto> \<lparr>fs_token = fg_next_token r, fs_waiters = Suc (case map_of (fg_slots r) key of Some s \<Rightarrow> fs_waiters s | None \<Rightarrow> 0)\<rparr>) \<and>
        fg_guards (guard_register g key r) = (g, key, fg_next_token r) # fg_guards r"
    proof (cases "map_of (fg_slots r) key")
      case None
      have "fg_next_token r \<notin> set (fg_cancelled r)" using assms(1) by (auto simp: fetch_inv_def)
      with None show ?thesis by (simp add: guard_register_def new_token_def is_cancelled_def alist_simps)
    next
      case (Some slot)
      with False show ?thesis by (cases slot) (simp add: guard_register_def new_token_def is_cancelled_def alist_simps)
    qed
    then show ?thesis using o fresh by (intro disjI1) auto
  qed
  then show ?thesis unfolding owned_def by blast
qed

lemma drop_effect:
  assumes "fetch_inv r" and "map_of (fg_guards r) g = Some (key, t)" and "r' = guard_drop g r"
  shows "fg_guards r' = al_remove g (fg_guards r) \<and> fg_cancelled r' = fg_cancelled r \<and> fg_next_token r' = fg_next_token r \<and>
     (\<exists>slot. map_of (fg_slots r) key = Some slot \<and>
       map_of (fg_slots r') = (map_of (fg_slots r))(key :=
         (if length (guards_of r key) = 1 then None else Some (slot\<lparr>fs_waiters := length (guards_of r key) - 1\<rparr>))))"
proof -
  have "(g, key, t) \<in> set (guards_of r key)" using assms(2) by (auto simp: guards_of_def dest: map_of_SomeD)
  then have ne: "guards_of r key \<noteq> []" by auto
  with fetch_inv_slot(2) [OF assms(1), of key] obtain slot where s: "map_of (fg_slots r) key = Some slot"
    by (cases "map_of (fg_slots r) key") auto
  have w: "fs_waiters slot = length (guards_of r key)" using fetch_inv_slot(1) [OF assms(1) s] by blast
  have "length (guards_of r key) - 1 = 0 \<longleftrightarrow> length (guards_of r key) = 1" using ne by (cases "guards_of r key") auto
  with s w show ?thesis by (auto simp: assms(3) guard_drop_def assms(2) Let_def alist_simps)
qed

lemma guards_of_drop:
  assumes "distinct (al_keys (fg_guards r))" and "map_of (fg_guards r) g = Some (key, t)" and "fg_guards r' = al_remove g (fg_guards r)"
  shows "guards_of r' k = (if k = key then filter (\<lambda>(g', _). g' \<noteq> g) (guards_of r k) else guards_of r k)"
    and "Suc (length (guards_of r' key)) = length (guards_of r key)"
proof -
  have *: "distinct (al_keys gs) \<Longrightarrow> map_of gs g = Some (key, t) \<Longrightarrow>
    filter (\<lambda>(g, k', t). k' = k) (al_remove g gs) =
      (if k = key then filter (\<lambda>(g', _). g' \<noteq> g) (filter (\<lambda>(g, k', t). k' = k) gs) else filter (\<lambda>(g, k', t). k' = k) gs) \<and>
    Suc (length (filter (\<lambda>(g, k', t). k' = key) (al_remove g gs))) = length (filter (\<lambda>(g, k', t). k' = key) gs)" for gs k
  proof (induction gs)
    case (Cons x gs)
    obtain a b c where x: "x = (a, b, c)" by (cases x)
    show ?case
    proof (cases "a = g")
      case True
      with Cons.prems have "al_remove g gs = gs" "\<forall>y \<in> set gs. fst y \<noteq> g" by (auto simp: x al_remove_def filter_id_conv)
      moreover from this(2) have "filter (\<lambda>(g', _). g' \<noteq> g) (filter Q gs) = filter Q gs" for Q by (intro filter_True) auto
      ultimately show ?thesis using True Cons.prems by (simp add: x al_remove_def del: filter_filter)
    next
      case False
      with Cons show ?thesis by (auto simp: x al_remove_def)
    qed
  qed simp
  show "guards_of r' k = (if k = key then filter (\<lambda>(g', _). g' \<noteq> g) (guards_of r k) else guards_of r k)"
    unfolding guards_of_def assms(3) by (rule * [OF assms(1,2), THEN conjunct1])
  show "Suc (length (guards_of r' key)) = length (guards_of r key)"
    unfolding guards_of_def assms(3) by (rule * [OF assms(1,2), THEN conjunct2])
qed

lemma drop_inv:
  assumes "fetch_inv r" and "owned r"
  shows "fetch_inv (guard_drop g r) \<and> owned (guard_drop g r)"
proof (cases "map_of (fg_guards r) g")
  case None
  then show ?thesis using assms by (simp add: guard_drop_def)
next
  case (Some p)
  obtain key t where p: "p = (key, t)" by fastforce
  let ?r = "guard_drop g r"
  have d: "distinct (al_keys (fg_guards r))" using assms(1) by (simp add: fetch_inv_def)
  from drop_effect [OF assms(1) Some [unfolded p] refl] obtain slot where e: "fg_guards ?r = al_remove g (fg_guards r)"
    "fg_cancelled ?r = fg_cancelled r" "fg_next_token ?r = fg_next_token r" "map_of (fg_slots r) key = Some slot"
    "map_of (fg_slots ?r) = (map_of (fg_slots r))(key :=
         (if length (guards_of r key) = 1 then None else Some (slot\<lparr>fs_waiters := length (guards_of r key) - 1\<rparr>)))" by blast
  note go = guards_of_drop [OF d Some [unfolded p] e(1)]
  have "case map_of (fg_slots ?r) k of
        None \<Rightarrow> guards_of ?r k = []
      | Some slot \<Rightarrow> fs_waiters slot = length (guards_of ?r k) \<and> guards_of ?r k \<noteq> [] \<and> fs_token slot < fg_next_token ?r \<and>
          (\<forall>(g, k, t) \<in> set (guards_of ?r k). t = fs_token slot \<or> t \<in> set (fg_cancelled ?r))" for k
  proof (cases "k = key")
    case True
    have sub: "set (guards_of ?r key) \<subseteq> set (guards_of r key)" using go(1) [of key] by auto
    have l: "length (guards_of ?r key) = length (guards_of r key) - 1" using go(2) by simp
    show ?thesis
    proof (cases "length (guards_of r key) = 1")
      case one: True
      then show ?thesis using l e(5) True by simp
    next
      case False
      then have "guards_of ?r key \<noteq> []" using go(2) by auto
      then show ?thesis using l e(2,3,5) True False sub fetch_inv_slot(1) [OF assms(1) e(4)] by auto
    qed
  next
    case False
    then show ?thesis using fetch_inv_slot [OF assms(1), of k] e go(1) [of k] by (cases "map_of (fg_slots r) k") auto
  qed
  moreover have "distinct (al_keys (fg_guards ?r))" using d by (simp add: e(1) distinct_al_remove)
  ultimately have "fetch_inv ?r" using assms(1) e(1-3) unfolding fetch_inv_def by (auto simp: al_remove_def)
  moreover from assms(2) obtain own where "\<forall>(g, k, t) \<in> set (fg_guards r). own t = k"
    "\<forall>k slot. map_of (fg_slots r) k = Some slot \<longrightarrow> own (fs_token slot) = k" unfolding owned_def by blast
  then have "owned ?r" unfolding owned_def using e by (intro exI [of _ own]) (auto simp: al_remove_def split: if_splits)
  ultimately show ?thesis by blast
qed

lemma cancel_inv:
  assumes "fetch_inv r" and "owned r" and "blob_fetch_cancel L P h r = (Some found, r')"
  shows "fetch_inv r' \<and> owned r'"
proof (cases "found")
  case False
  then have "r' = r" using assms(3) by (auto simp: blob_fetch_cancel_def split: option.splits)
  then show ?thesis using assms by simp
next
  case True
  then obtain key slot where s: "map_of (fg_slots r) key = Some slot" "r' = cancel_token (fs_token slot) r"
    using assms(3) by (auto simp: blob_fetch_cancel_def split: option.splits)
  have c: "fg_cancelled r' = push_new (fg_cancelled r) (fs_token slot)" "fg_guards r' = fg_guards r" "fg_slots r' = fg_slots r"
    "fg_next_token r' = fg_next_token r" by (simp_all add: s(2) cancel_token_def)
  have g: "guards_of r' k = guards_of r k" for k by (simp add: guards_of_def c)
  have t: "fs_token slot < fg_next_token r" using fetch_inv_slot(1) [OF assms(1) s(1)] by blast
  have "case map_of (fg_slots r') k of
        None \<Rightarrow> guards_of r' k = []
      | Some slot \<Rightarrow> fs_waiters slot = length (guards_of r' k) \<and> guards_of r' k \<noteq> [] \<and> fs_token slot < fg_next_token r' \<and>
          (\<forall>(g, k, t) \<in> set (guards_of r' k). t = fs_token slot \<or> t \<in> set (fg_cancelled r'))" for k
    using fetch_inv_slot [OF assms(1), of k] by (cases "map_of (fg_slots r) k") (auto simp: c g push_new_def)
  moreover have "\<forall>t \<in> set (fg_cancelled r'). t < fg_next_token r'" using assms(1) t by (auto simp: fetch_inv_def c push_new_def)
  ultimately have "fetch_inv r'" using assms(1) unfolding fetch_inv_def by (simp add: c)
  moreover have "owned r'" using assms(2) by (simp add: owned_def c)
  ultimately show ?thesis by blast
qed

lemma fetch_calls_inv:
  assumes "run (fetch_call_step L P) registry_new cs r"
  shows "fetch_inv r \<and> owned r"
  using assms
proof (rule run_invariant)
  show "fetch_inv registry_new \<and> owned registry_new"
    by (simp add: fetch_inv_def owned_def registry_new_def guards_of_def)
  fix t l u
  assume "fetch_inv t \<and> owned t" and "fetch_call_step L P t l u"
  then show "fetch_inv u \<and> owned u"
    by (cases l) (auto dest: cancel_inv simp: register_inv register_owned drop_inv)
qed

text \<open>
  Cancelling a fetch reaches everybody who waits for it and nobody else. Over any history of
  starting, ending and cancelling fetches, a cancel answers true exactly when some fetch of that hash
  is running; then every running fetch of it is cancelled, no fetch of another hash is, and a fetch
  that starts afterwards, of this hash or another, is not cancelled.
\<close>
theorem cancel_reaches_every_waiter:
  assumes "run (fetch_call_step L P) registry_new cs r" and "canonical_hash L P h = Some key"
    and "fetch_call_step L P r (CancelFetch h found) r'"
  shows "(found \<longleftrightarrow> (\<exists>g t. (g, key, t) \<in> set (fg_guards r))) \<and> fg_guards r' = fg_guards r \<and>
     (\<forall>(g, k, t) \<in> set (fg_guards r'). is_cancelled r' t \<longleftrightarrow> k = key \<or> is_cancelled r t) \<and>
     (fetch_call_step L P r' (StartFetch g' k') r'' \<longrightarrow> (\<exists>t. map_of (fg_guards r'') g' = Some (k', t) \<and> \<not> is_cancelled r'' t))"
proof -
  from fetch_calls_inv [OF assms(1)] have i: "fetch_inv r" and o: "owned r" by auto
  have c: "blob_fetch_cancel L P h r = (Some found, r')" using assms(3) by simp
  have later: "\<exists>t. map_of (fg_guards r'') g' = Some (k', t) \<and> \<not> is_cancelled r'' t"
    if "fetch_call_step L P r' (StartFetch g' k') r''"
  proof -
    from cancel_inv [OF i o c] have "fetch_inv r'" by blast
    from register_effect [OF this, of g' k'] that show ?thesis by (auto simp: is_cancelled_def)
  qed
  show ?thesis
  proof (cases "map_of (fg_slots r) key")
    case None
    then have "guards_of r key = []" by (rule fetch_inv_slot(2) [OF i])
    then have none: "\<forall>(g, k, t) \<in> set (fg_guards r). k \<noteq> key" by (auto simp: guards_of_def filter_empty_conv)
    moreover have "found = False" "r' = r" using None c assms(2) by (simp_all add: blob_fetch_cancel_def)
    ultimately show ?thesis using later by auto
  next
    case (Some slot)
    then have f: "found" "r' = cancel_token (fs_token slot) r" using c assms(2) by (simp_all add: blob_fetch_cancel_def)
    note s = fetch_inv_slot(1) [OF i Some]
    then obtain g k t where "(g, k, t) \<in> set (guards_of r key)" using last_in_set by (metis prod_cases3)
    then have ex: "\<exists>g t. (g, key, t) \<in> set (fg_guards r)" by (auto simp: guards_of_def)
    from o obtain own where own: "\<forall>(g, k, t) \<in> set (fg_guards r). own t = k" "own (fs_token slot) = key"
      using Some unfolding owned_def by blast
    have "is_cancelled r' t \<longleftrightarrow> k = key \<or> is_cancelled r t" if "(g, k, t) \<in> set (fg_guards r)" for g k t
    proof -
      have "t = fs_token slot \<or> is_cancelled r t" if "k = key"
        using s that \<open>(g, k, t) \<in> set (fg_guards r)\<close> by (auto simp: guards_of_def is_cancelled_def)
      moreover have "k = key" if "t = fs_token slot" using own that \<open>(g, k, t) \<in> set (fg_guards r)\<close> by auto
      ultimately show ?thesis by (auto simp: f(2) cancel_token_def is_cancelled_def push_new_def)
    qed
    then show ?thesis using f ex later by (auto simp: cancel_token_def)
  qed
qed

theorem cancel_reaches_every_waiter_witness:
  "\<exists>r r'. run (fetch_call_step blob_libs parse_hash) registry_new [StartFetch 0 demo_hex_hash] r \<and>
     fetch_call_step blob_libs parse_hash r (CancelFetch demo_hex_hash True) r' \<and> is_cancelled r' 0"
proof -
  let ?r = "guard_register 0 demo_hex_hash registry_new"
  have run: "run (fetch_call_step blob_libs parse_hash) registry_new [StartFetch 0 demo_hex_hash] ?r"
    by (rule run_one) (simp add: registry_new_def)
  have r: "?r = \<lparr>fg_slots = [(demo_hex_hash, \<lparr>fs_token = 0, fs_waiters = 1\<rparr>)], fg_next_token = 1, fg_cancelled = [],
      fg_guards = [(0, demo_hex_hash, 0)]\<rparr>"
    by (simp add: guard_register_def registry_new_def new_token_def is_cancelled_def)
  obtain r' where c: "fetch_call_step blob_libs parse_hash ?r (CancelFetch demo_hex_hash True) r'"
    by (simp add: blob_fetch_cancel_def r)
  from cancel_reaches_every_waiter [OF run demo_hash_parses(2) c] have "fg_guards r' = fg_guards ?r"
    "\<forall>(g, k, t) \<in> set (fg_guards r'). is_cancelled r' t \<longleftrightarrow> k = demo_hex_hash \<or> is_cancelled ?r t" by blast+
  then have "is_cancelled r' 0" by (simp add: r)
  with run c show ?thesis by blast
qed

subsection \<open>Pages\<close>

text \<open>
  Following the pages of a listing shows every scope once. With any page size up to the maximum,
  the rows of the first k pages are the first k * n matching scopes, in order; the total is that of
  the whole listing on every page; and a page says it is truncated exactly when rows remain after it.
\<close>
theorem pages_tile_the_listing:
  assumes "0 < n" and "n \<le> MAX_LIST_LIMIT" and "canonical_hash L P h = Some c"
  shows "\<exists>found. found = map (page_row counts) (matching want (Some c) s) \<and>
     concat (map (\<lambda>i. case list_page L P \<lparr>lq_scope = want, lq_hash = Some h, lq_limit = Some n, lq_offset = Some (i * n),
        lq_counts_only = counts\<rparr> s of Some p \<Rightarrow> pg_rows p | None \<Rightarrow> []) [0..<k]) = take (k * n) found \<and>
     (\<exists>p. list_page L P \<lparr>lq_scope = want, lq_hash = Some h, lq_limit = Some n, lq_offset = Some (k * n),
        lq_counts_only = counts\<rparr> s = Some p \<and> pg_total p = length found \<and> (pg_truncated p \<longleftrightarrow> (k + 1) * n < length found))"
proof -
  let ?found = "map (page_row counts) (matching want (Some c) s)"
  have page: "list_page L P \<lparr>lq_scope = want, lq_hash = Some h, lq_limit = Some n, lq_offset = Some (i * n), lq_counts_only = counts\<rparr> s
      = Some \<lparr>pg_rows = take n (drop (i * n) ?found), pg_total = length ?found,
          pg_truncated = i * n + length (take n (drop (i * n) ?found)) < length ?found\<rparr>" for i
    using assms(2,3) by (simp add: list_page_def Let_def take_map drop_map min_def)
  have "concat (map (\<lambda>i. take n (drop (i * n) xs)) [0..<k]) = take (k * n) xs" for xs :: "scope_row list"
  proof (induction k)
    case (Suc k)
    have "Suc k * n = k * n + n" by simp
    then show ?case using Suc by (simp only: upt_Suc_append [OF le0] map_append concat_append take_add) simp
  qed simp
  then have "concat (map (\<lambda>i. case list_page L P \<lparr>lq_scope = want, lq_hash = Some h, lq_limit = Some n, lq_offset = Some (i * n),
        lq_counts_only = counts\<rparr> s of Some p \<Rightarrow> pg_rows p | None \<Rightarrow> []) [0..<k]) = take (k * n) ?found"
    by (simp only: page option.case scope_page.simps)
  moreover have "k * n + length (take n (drop (k * n) ?found)) < length ?found \<longleftrightarrow> (k + 1) * n < length ?found"
    by (auto simp: min_def)
  ultimately show ?thesis unfolding page by auto
qed

theorem pages_tile_the_listing_witness:
  "\<exists>p. list_page blob_libs parse_hash \<lparr>lq_scope = None, lq_hash = Some demo_hex_hash, lq_limit = Some 1, lq_offset = Some (0 * 1),
      lq_counts_only = False\<rparr> [] = Some p \<and> pg_total p = 0"
proof -
  have "(0::nat) < 1" "1 \<le> MAX_LIST_LIMIT" by (simp_all add: MAX_LIST_LIMIT_def)
  from pages_tile_the_listing [OF this demo_hash_parses(2), of False None "[]" 0] show ?thesis by (auto simp: matching_def)
qed

end
