(* ===== verification/Presence.thy ===== *)
theory Presence
  imports Roster_Install
begin

text \<open>
  Presence heartbeats (\<open>node/src/roster/presence.rs\<close>): the signed beat, its acceptance against the
  roster, and the advisory table of who was seen when. The table is the hash map's entries in its
  iteration order.
\<close>

definition PRESENCE_DOMAIN :: bytes where "PRESENCE_DOMAIN = str_bytes ''mcpmesh/presence/1''"
definition PRESENCE_SKEW_SECS :: int where "PRESENCE_SKEW_SECS = 120"
definition PRESENCE_TTL_SECS :: int where "PRESENCE_TTL_SECS = 180"
definition PRESENCE_PERIOD_SECS :: int where "PRESENCE_PERIOD_SECS = 60"
definition PRESENCE_JITTER_SECS :: int where "PRESENCE_JITTER_SECS = 15"

subsection \<open>Beats\<close>

record beat =
  pr_t :: string
  pr_endpoint_id :: string
  pr_user_id :: string
  pr_ts :: int
  pr_roster_serial :: u64
  pr_meta :: string
  pr_sig :: string

definition beat_preimage :: "bytes \<Rightarrow> string \<Rightarrow> int \<Rightarrow> u64 \<Rightarrow> string \<Rightarrow> bytes" where
  "beat_preimage endpoint_id uid ts serial meta =
     PRESENCE_DOMAIN @ endpoint_id @ str_bytes uid @ le_bytes 8 (unat (word_of_int ts :: u64)) @ le_bytes 8 (unat serial) @
     (if meta \<noteq> [] then str_bytes meta else [])"

definition beat_signed :: "libs \<Rightarrow> bytes \<Rightarrow> bytes \<Rightarrow> string \<Rightarrow> int \<Rightarrow> u64 \<Rightarrow> string \<Rightarrow> beat" where
  "beat_signed L device_key endpoint_id uid ts serial meta =
     \<lparr>pr_t = ''presence'', pr_endpoint_id = encode_b64u L endpoint_id, pr_user_id = uid, pr_ts = ts,
      pr_roster_serial = serial, pr_meta = meta,
      pr_sig = encode_b64u L (ed_sign L device_key (beat_preimage endpoint_id uid ts serial meta))\<rparr>"

definition beat_verify :: "libs \<Rightarrow> int \<Rightarrow> beat \<Rightarrow> bytes option" where
  "beat_verify L now b =
     (if pr_t b \<noteq> ''presence'' \<or> PRESENCE_SKEW_SECS \<le> i64_saturating_abs (i64_saturating_sub now (pr_ts b)) \<or>
         length (pr_meta b) > APP_METADATA_MAX_BYTES then None
      else case decode_endpoint_id L (pr_endpoint_id b) of Inl _ \<Rightarrow> None
        | Inr eid \<Rightarrow>
            if \<not> vk_from_bytes L eid then None
            else case decode_b64u L (pr_sig b) of Inl _ \<Rightarrow> None
              | Inr bs \<Rightarrow>
                  (case sig_from_slice bs of None \<Rightarrow> None
                   | Some sig \<Rightarrow>
                       if verify_strict L eid (beat_preimage eid (pr_user_id b) (pr_ts b) (pr_roster_serial b) (pr_meta b)) sig
                       then Some eid else None))"

definition beat_accept :: "libs \<Rightarrow> int \<Rightarrow> roster_view \<Rightarrow> beat \<Rightarrow> bytes option" where
  "beat_accept L now view b =
     Option.bind (beat_verify L now b) (\<lambda>eid.
     Option.bind (view_resolve view eid) (\<lambda>d.
       if d_user_id d = pr_user_id b then Some eid else None))"

definition beat_to_value :: "beat \<Rightarrow> json" where
  "beat_to_value b = JObj ([(''t'', JStr (pr_t b)), (''endpoint_id'', JStr (pr_endpoint_id b)), (''user_id'', JStr (pr_user_id b)),
     (''ts'', JNum (pr_ts b)), (''roster_serial'', JNum (uint (pr_roster_serial b)))] @
     (if pr_meta b = [] then [] else [(''meta'', JStr (pr_meta b))]) @ [(''sig'', JStr (pr_sig b))])"

definition de_i64 :: "json \<Rightarrow> int option" where
  "de_i64 v = (case v of JNum n \<Rightarrow> (if in_i64 n then Some n else None) | _ \<Rightarrow> None)"

definition beat_fields :: "string list" where
  "beat_fields = [''t'', ''endpoint_id'', ''user_id'', ''ts'', ''roster_serial'', ''meta'', ''sig'']"

definition beat_from_value :: "json \<Rightarrow> beat option" where
  "beat_from_value v =
     Option.bind (struct_members beat_fields v) (\<lambda>m.
     Option.bind (required m ''t'' as_str) (\<lambda>t.
     Option.bind (required m ''endpoint_id'' as_str) (\<lambda>e.
     Option.bind (required m ''user_id'' as_str) (\<lambda>u.
     Option.bind (required m ''ts'' de_i64) (\<lambda>ts.
     Option.bind (required m ''roster_serial'' de_word) (\<lambda>n.
     Option.bind (defaulted m ''meta'' [] as_str) (\<lambda>meta.
     Option.bind (required m ''sig'' as_str) (\<lambda>sig.
     Some \<lparr>pr_t = t, pr_endpoint_id = e, pr_user_id = u, pr_ts = ts, pr_roster_serial = n, pr_meta = meta, pr_sig = sig\<rparr>))))))))"

definition beat_to_bytes :: "libs \<Rightarrow> beat \<Rightarrow> bytes" where
  "beat_to_bytes L b = json_to_vec L (beat_to_value b)"

definition beat_from_bytes :: "libs \<Rightarrow> bytes \<Rightarrow> beat option" where
  "beat_from_bytes L bs = Option.bind (json_from_slice L bs) beat_from_value"

subsection \<open>The table\<close>

record presence_entry =
  pe_user :: string
  pe_ts :: int
  pe_meta :: string

type_synonym presence_table = "(bytes \<times> presence_entry) list"

definition presence_record :: "bytes \<Rightarrow> string \<Rightarrow> int \<Rightarrow> string \<Rightarrow> presence_table \<Rightarrow> presence_table" where
  "presence_record eid uid ts meta t = (case map_of t eid of
     Some e \<Rightarrow> if pe_ts e \<ge> ts then t else al_insert eid \<lparr>pe_user = uid, pe_ts = ts, pe_meta = meta\<rparr> t
   | None \<Rightarrow> al_insert eid \<lparr>pe_user = uid, pe_ts = ts, pe_meta = meta\<rparr> t)"

definition presence_active :: "int \<Rightarrow> presence_table \<Rightarrow> presence_table" where
  "presence_active now t = filter (\<lambda>(_, e). i64_sub now (pe_ts e) < PRESENCE_TTL_SECS) t"

definition endpoints_for_user_by_recency :: "string \<Rightarrow> presence_table \<Rightarrow> bytes list" where
  "endpoints_for_user_by_recency uid t =
     map fst (sort_key (\<lambda>(_, e). - pe_ts e) (filter (\<lambda>(_, e). pe_user e = uid) t))"

text \<open>One message of the tracking loop, with the clock and the roster view read when it arrives.\<close>

definition track_message :: "libs \<Rightarrow> int \<Rightarrow> roster_view option \<Rightarrow> bytes \<Rightarrow> presence_table \<Rightarrow> presence_table" where
  "track_message L now view content t = (case beat_from_bytes L content of
     None \<Rightarrow> t
   | Some p \<Rightarrow> (case view of None \<Rightarrow> t
       | Some v \<Rightarrow> (case beat_accept L now v p of None \<Rightarrow> t
           | Some eid \<Rightarrow> presence_record eid (pr_user_id p) (pr_ts p) (pr_meta p) t)))"

text \<open>One beat of the publishing loop, and the pause after it; \<open>r\<close> is the random word.\<close>

definition publish_beat :: "libs \<Rightarrow> bytes \<Rightarrow> string \<Rightarrow> int \<Rightarrow> roster_view option \<Rightarrow> string \<Rightarrow> bytes" where
  "publish_beat L device_key uid now view meta =
     beat_to_bytes L (beat_signed L device_key (ed_pk L device_key) uid now
       (case view of Some v \<Rightarrow> v_serial v | None \<Rightarrow> 0) meta)"

definition next_beat_secs :: "u32 \<Rightarrow> u64" where
  "next_beat_secs r =
     (let span = 2 * PRESENCE_JITTER_SECS + 1; jitter = uint r mod span - PRESENCE_JITTER_SECS
      in word_of_int (max (i64_add PRESENCE_PERIOD_SECS jitter) 1))"

end
