(* ===== verification/Dial.thy ===== *)
theory Dial
  imports Dial_Addr Presence Service
begin

text \<open>
  Outbound dials (\<open>node/src/daemon/dial.rs\<close>): which endpoint a name reaches, the revocation check
  every dial meets, the order of a person's devices, the staggered race over them, the per-session
  transport configuration, and the service name written into the first frame. A connection attempt is
  its answer. \<open>iroh\<close>'s reader of a stored address and its bound on idle timeouts are parameters.
\<close>

record dial_lib =
  dl_addr :: "string \<Rightarrow> dial_addr option"
  dl_idle_ok :: "u64 \<Rightarrow> bool"

record dial_node =
  dn_store :: peer_store
  dn_view :: "roster_view option"
  dn_presence :: presence_table
  dn_keep_alive :: u64

datatype dial_error =
    PeerRevoked string
  | EveryDeviceRevoked
  | NotInAllowlist string
  | InvalidEid
  | InvalidStoredId
  | IdleBelowKeepalive
  | IdleOutOfRange
  | NoSuchPeer string
  | TooManySources
  | NoBlobSource string
  | DialStore store_error

definition lift_store :: "store_error + 'a \<Rightarrow> dial_error + 'a" where
  "lift_store r = (case r of Inl e \<Rightarrow> Inl (DialStore e) | Inr x \<Rightarrow> Inr x)"

subsection \<open>Whom this node refuses to dial\<close>

definition refused_by :: "peer_store \<Rightarrow> roster_view option \<Rightarrow> bytes \<Rightarrow> bool" where
  "refused_by store view i =
     (if is_refused store i then True
      else case view of None \<Rightarrow> False
        | Some v \<Rightarrow> view_is_revoked v i \<or>
            (case view_resolve v i of Some d \<Rightarrow> is_roster_user_revoked store (d_user_id d) | None \<Rightarrow> False))"

definition dial_refused :: "dial_node \<Rightarrow> bytes \<Rightarrow> bool" where
  "dial_refused n i = refused_by (dn_store n) (dn_view n) i"

definition refuse_if_revoked :: "dial_node \<Rightarrow> bytes \<Rightarrow> string \<Rightarrow> dial_error + unit" where
  "refuse_if_revoked n i peer = (if dial_refused n i then Inl (PeerRevoked peer) else Inr ())"

subsection \<open>The per-session transport configuration\<close>

record transport_config =
  tc_max_idle :: "u64 option"
  tc_keep_alive :: u64
  tc_path_keep_alive :: u64

definition per_session_transport_config :: "dial_lib \<Rightarrow> u64 option \<Rightarrow> u64 \<Rightarrow> dial_error + transport_config option" where
  "per_session_transport_config D secs keepalive_secs =
     (let config = (\<lambda>idle. Some \<lparr>tc_max_idle = idle, tc_keep_alive = keepalive_secs, tc_path_keep_alive = keepalive_secs\<rparr>)
      in case secs of
        None \<Rightarrow> Inr None
      | Some s \<Rightarrow>
          if s = 0 then Inr (config None)
          else if \<not> s > keepalive_secs then Inl IdleBelowKeepalive
          else if \<not> dl_idle_ok D s then Inl IdleOutOfRange
          else Inr (config (Some s)))"

subsection \<open>The candidates of a race\<close>

definition dial_role_rank :: "string \<Rightarrow> nat" where
  "dial_role_rank role = (if role = ''primary'' then 0 else if role = ''mirror'' then 1 else 2)"

fun position :: "'a \<Rightarrow> 'a list \<Rightarrow> nat option" where
  "position x [] = None"
| "position x (y # ys) = (if y = x then Some 0 else map_option Suc (position x ys))"

text \<open>A device without a presence entry ranks behind every present one (\<open>usize::MAX\<close>).\<close>

definition recency_rank :: "presence_table \<Rightarrow> string \<Rightarrow> bytes \<Rightarrow> nat" where
  "recency_rank presence uid e =
     (case position e (endpoints_for_user_by_recency uid presence) of Some i \<Rightarrow> i | None \<Rightarrow> 2 ^ 64 - 1)"

definition order_dial_candidates :: "(bytes \<times> string) list \<Rightarrow> presence_table \<Rightarrow> string \<Rightarrow> bytes list" where
  "order_dial_candidates devices presence uid =
     map fst (sort_key (\<lambda>(e, role). (dial_role_rank role, recency_rank presence uid e)) devices)"

definition stored_hint :: "peer_store \<Rightarrow> bytes \<Rightarrow> string option" where
  "stored_hint store e = (case store_resolve store e of Inr (Some entry) \<Rightarrow> pe_last_addr entry | _ \<Rightarrow> None)"

definition hinted_addrs :: "libs \<Rightarrow> dial_lib \<Rightarrow> dial_node \<Rightarrow> bytes list \<Rightarrow> dial_error + dial_addr list" where
  "hinted_addrs L D n candidates =
     (let candidates = filter (\<lambda>i. \<not> dial_refused n i) candidates
      in if candidates = [] then Inl EveryDeviceRevoked
         else Inr (map (\<lambda>e. stored_dial_addr (dl_addr D) (stored_hint (dn_store n) e) e) (filter (vk_from_bytes L) candidates)))"

subsection \<open>Which dial a name asks for\<close>

datatype dial_plan = Single dial_addr "transport_config option" | Race "dial_addr list"

definition eid_bytes :: "libs \<Rightarrow> string \<Rightarrow> bytes option" where
  "eid_bytes L hex = Option.bind (hexlower_decode L hex) (\<lambda>bs. if length bs = 32 then Some bs else None)"

definition dial_by_eid :: "libs \<Rightarrow> dial_lib \<Rightarrow> dial_node \<Rightarrow> string \<Rightarrow> transport_config option \<Rightarrow> dial_error + dial_plan" where
  "dial_by_eid L D n hex per_conn =
     rbind (ok_or InvalidEid (eid_bytes L hex)) (\<lambda>e.
       if \<not> vk_from_bytes L e then Inl InvalidEid
       else Inr (Single (stored_dial_addr (dl_addr D) (stored_hint (dn_store n) e) e) per_conn))"

text \<open>A nickname's entry, else the entries of a user id: one, or several to race.\<close>

definition stored_target :: "peer_store \<Rightarrow> string \<Rightarrow> dial_error + peer_entry option \<times> bytes list" where
  "stored_target store peer =
     rbind (lift_store (entry_for store peer)) (\<lambda>e. case e of
       Some e \<Rightarrow> Inr (Some e, [])
     | None \<Rightarrow> rbind (lift_store (entries_for_user store peer)) (\<lambda>by_user. case by_user of
           [] \<Rightarrow> Inr (None, [])
         | [e] \<Rightarrow> Inr (Some e, [])
         | _ \<Rightarrow> Inr (None, map pe_endpoint_id by_user)))"

definition dial_entry :: "libs \<Rightarrow> dial_lib \<Rightarrow> dial_node \<Rightarrow> string \<Rightarrow> peer_entry \<Rightarrow> transport_config option \<Rightarrow> dial_error + dial_plan" where
  "dial_entry L D n peer e per_conn =
     rbind (refuse_if_revoked n (pe_endpoint_id e) peer) (\<lambda>_.
       if \<not> vk_from_bytes L (pe_endpoint_id e) then Inl InvalidStoredId
       else Inr (Single (stored_dial_addr (dl_addr D) (pe_last_addr e) (pe_endpoint_id e)) per_conn))"

definition dial_service_with_idle_timeout :: "libs \<Rightarrow> dial_lib \<Rightarrow> dial_node \<Rightarrow> string \<Rightarrow> u64 option \<Rightarrow> dial_error + dial_plan" where
  "dial_service_with_idle_timeout L D n peer idle_timeout_secs =
     rbind (per_session_transport_config D idle_timeout_secs (dn_keep_alive n)) (\<lambda>per_conn.
     case strip_prefix ''eid:'' peer of
       Some hex \<Rightarrow>
         rbind (case eid_bytes L hex of Some i \<Rightarrow> refuse_if_revoked n i peer | None \<Rightarrow> Inr ()) (\<lambda>_.
           dial_by_eid L D n hex per_conn)
     | None \<Rightarrow>
         (let devices = (case dn_view n of Some v \<Rightarrow> devices_for_user v peer | None \<Rightarrow> [])
          in if devices \<noteq> []
             then rbind (hinted_addrs L D n (order_dial_candidates devices (dn_presence n) peer)) (\<lambda>as. Inr (Race as))
             else rbind (stored_target (dn_store n) peer) (\<lambda>(single, multi).
               if multi \<noteq> [] then rbind (hinted_addrs L D n multi) (\<lambda>as. Inr (Race as))
               else case single of
                 None \<Rightarrow> Inl (NotInAllowlist peer)
               | Some e \<Rightarrow> dial_entry L D n peer e per_conn)))"

subsection \<open>Candidates of a protocol dial and of a blob fetch\<close>

definition resolve_candidates :: "libs \<Rightarrow> dial_node \<Rightarrow> string \<Rightarrow> dial_error + bytes list" where
  "resolve_candidates L n peer = (case strip_prefix ''eid:'' peer of
     Some hex \<Rightarrow> rbind (ok_or InvalidEid (eid_bytes L hex)) (\<lambda>i. Inr [i])
   | None \<Rightarrow>
       (let out = (case dn_view n of Some v \<Rightarrow> map fst (devices_for_user v peer) | None \<Rightarrow> [])
        in rbind (lift_store (entry_for (dn_store n) peer)) (\<lambda>e.
           rbind (lift_store (entries_for_user (dn_store n) peer)) (\<lambda>es.
             Inr (rev (remdups (rev (out @ (case e of Some e \<Rightarrow> [pe_endpoint_id e] | None \<Rightarrow> []) @ map pe_endpoint_id es))))))))"

record candidates =
  cd_dialable :: "bytes list"
  cd_refused :: nat

definition protocol_candidates :: "libs \<Rightarrow> dial_node \<Rightarrow> string \<Rightarrow> dial_error + candidates" where
  "protocol_candidates L n peer = rbind (resolve_candidates L n peer) (\<lambda>resolved.
     let dialable = filter (\<lambda>i. \<not> dial_refused n i) resolved
     in Inr \<lparr>cd_dialable = dialable, cd_refused = length resolved - length dialable\<rparr>)"

definition connect_candidates :: "libs \<Rightarrow> dial_node \<Rightarrow> string \<Rightarrow> dial_error + bytes list" where
  "connect_candidates L n peer = rbind (protocol_candidates L n peer) (\<lambda>c.
     if cd_dialable c = [] then (if cd_refused c > 0 then Inl (PeerRevoked peer) else Inl (NoSuchPeer peer))
     else Inr (cd_dialable c))"

definition MAX_BLOB_SOURCES :: nat where "MAX_BLOB_SOURCES = 32"

record blob_sources_found =
  bs_addrs :: "dial_addr list"
  bs_skipped_revoked :: nat

text \<open>One name's devices: those not seen yet, with their stored hints.\<close>

fun source_devices :: "libs \<Rightarrow> dial_lib \<Rightarrow> dial_node \<Rightarrow> bytes list \<Rightarrow> bytes list \<Rightarrow> dial_error + bytes list \<times> dial_addr list" where
  "source_devices L D n seen [] = Inr (seen, [])"
| "source_devices L D n seen (e # es) =
     (if e \<in> set seen then source_devices L D n seen es
      else if \<not> vk_from_bytes L e then source_devices L D n (e # seen) es
      else rbind (lift_store (store_resolve (dn_store n) e)) (\<lambda>entry.
           rbind (source_devices L D n (e # seen) es) (\<lambda>(seen, as).
             Inr (seen, stored_dial_addr (dl_addr D) (Option.bind entry pe_last_addr) e # as))))"

fun source_names :: "libs \<Rightarrow> dial_lib \<Rightarrow> dial_node \<Rightarrow> bytes list \<Rightarrow> string list \<Rightarrow> dial_error + dial_addr list \<times> nat" where
  "source_names L D n seen [] = Inr ([], 0)"
| "source_names L D n seen (name # names) =
     rbind (protocol_candidates L n name) (\<lambda>c.
       if cd_dialable c = [] \<and> cd_refused c = 0 then Inl (NoBlobSource name)
       else rbind (source_devices L D n seen (cd_dialable c)) (\<lambda>(seen, as).
            rbind (source_names L D n seen names) (\<lambda>(as', k).
              Inr (as @ as', if cd_dialable c = [] then k + 1 else k))))"

definition blob_source_addrs :: "libs \<Rightarrow> dial_lib \<Rightarrow> dial_node \<Rightarrow> string list \<Rightarrow> dial_error + blob_sources_found" where
  "blob_source_addrs L D n from =
     (if length from > MAX_BLOB_SOURCES then Inl TooManySources
      else rbind (source_names L D n [] from) (\<lambda>(as, k). Inr \<lparr>bs_addrs = as, bs_skipped_revoked = k\<rparr>))"

subsection \<open>The staggered race\<close>

datatype dial_event = Connected nat | DialFailed nat | Stagger

record dial_race =
  rc_total :: nat
  rc_next :: nat
  rc_flight :: "nat list"
  rc_outcome :: "nat option option"

definition spawn_dial :: "dial_race \<Rightarrow> dial_race" where
  "spawn_dial r = r\<lparr>rc_flight := rc_flight r @ [rc_next r], rc_next := rc_next r + 1\<rparr>"

definition race_dial :: "nat \<Rightarrow> dial_race option" where
  "race_dial n = (if n = 0 then None
     else Some (spawn_dial \<lparr>rc_total = n, rc_next = 0, rc_flight = [], rc_outcome = None\<rparr>))"

text \<open>
  An empty set of dials launches the next candidate at once, or ends the race when there is none.
  \<open>Some (Some i)\<close> is the winner's index, \<open>Some None\<close> the failure of all.
\<close>

fun race_dial_step :: "dial_event \<Rightarrow> dial_race \<Rightarrow> dial_race option" where
  "race_dial_step (Connected i) r =
     (if rc_outcome r = None \<and> i \<in> set (rc_flight r) then Some (r\<lparr>rc_outcome := Some (Some i), rc_flight := []\<rparr>) else None)"
| "race_dial_step (DialFailed i) r =
     (if rc_outcome r = None \<and> i \<in> set (rc_flight r)
      then (let r = r\<lparr>rc_flight := remove1 i (rc_flight r)\<rparr>
            in Some (if rc_flight r \<noteq> [] then r
                     else if rc_next r < rc_total r then spawn_dial r
                     else r\<lparr>rc_outcome := Some None\<rparr>))
      else None)"
| "race_dial_step Stagger r =
     (if rc_outcome r = None \<and> rc_next r < rc_total r then Some (spawn_dial r) else None)"

subsection \<open>Naming the service\<close>

definition inject_service :: "json \<Rightarrow> string \<Rightarrow> json" where
  "inject_service frame service = (case as_object frame of
     None \<Rightarrow> frame
   | Some m \<Rightarrow>
       (let params = (case map_of m ''params'' of Some (JObj p) \<Rightarrow> p | _ \<Rightarrow> []);
            meta = (case map_of params ''_meta'' of Some (JObj q) \<Rightarrow> q | _ \<Rightarrow> []);
            meta = foldl (\<lambda>q key. al_insert key (JStr service) q) meta SERVICE_KEYS
        in JObj (al_insert ''params'' (JObj (al_insert ''_meta'' (JObj meta) params)) m)))"

end
