(* ===== verification/Dial_Props.thy ===== *)
theory Dial_Props
  imports Dial Session_Props Gate_Props Runs
begin

text \<open>
  The theorems of the dialling side: no dial reaches a device the gate refuses, presence only orders
  the candidates, the staggered race ends, and the far side selects the service that was named.
\<close>

subsection \<open>No dial to a refused device\<close>

fun plan_addrs :: "dial_plan \<Rightarrow> dial_addr list" where
  "plan_addrs (Single a _) = [a]"
| "plan_addrs (Race as) = as"

text \<open>What the composed gate refuses as revoked on the way in is refused on the way out.\<close>

lemma outbound_mirrors_inbound:
  assumes "cg_is_revoked g now e" and "rg_view (cg_roster g) = view"
  shows "refused_by (cg_pairs g) view e"
proof -
  have "is_roster_user_revoked (cg_pairs g) u \<Longrightarrow> rg_roster_user (cg_roster g) now e = Some u \<Longrightarrow> refused_by (cg_pairs g) view e" for u
    using assms(2) by (auto simp: rg_roster_user_def rg_resolve_Some roster_identity_def refused_by_def bind_eq_Some_conv)
  moreover have "rg_is_revoked (cg_roster g) e \<Longrightarrow> refused_by (cg_pairs g) view e"
    using assms(2) by (auto simp: rg_is_revoked_def refused_by_def split: option.splits)
  moreover have "is_refused (cg_pairs g) e \<Longrightarrow> refused_by (cg_pairs g) view e" by (simp add: refused_by_def)
  ultimately show ?thesis using assms(1)
    by (auto simp: cg_is_revoked_def allowlist_is_revoked_def roster_identity_revoked_def split: option.splits)
qed

definition safe_addr :: "dial_node \<Rightarrow> dial_addr \<Rightarrow> bool" where
  "safe_addr n a \<longleftrightarrow> \<not> dial_refused n (da_id a) \<and> (\<forall>t \<in> set (da_addrs a). is_dialable_addr t)"

lemma stored_addr_safe: "\<not> dial_refused n e \<Longrightarrow> safe_addr n (stored_dial_addr A h e)"
  by (auto simp: safe_addr_def dest: stored_dial_addr_dialable)

lemma hinted_safe: "hinted_addrs L D n cs = Inr as \<Longrightarrow> a \<in> set as \<Longrightarrow> safe_addr n a"
  by (auto simp: hinted_addrs_def Let_def intro: stored_addr_safe split: if_splits)

lemma plan_safe:
  assumes "dial_service_with_idle_timeout L D n peer secs = Inr plan" and "a \<in> set (plan_addrs plan)"
  shows "safe_addr n a"
proof -
  from assms(1) obtain pc where *: "(case strip_prefix ''eid:'' peer of
       Some hex \<Rightarrow>
         rbind (case eid_bytes L hex of Some i \<Rightarrow> refuse_if_revoked n i peer | None \<Rightarrow> Inr ()) (\<lambda>_.
           dial_by_eid L D n hex pc)
     | None \<Rightarrow>
         (let devices = (case dn_view n of Some v \<Rightarrow> devices_for_user v peer | None \<Rightarrow> [])
          in if devices \<noteq> []
             then rbind (hinted_addrs L D n (order_dial_candidates devices (dn_presence n) peer)) (\<lambda>as. Inr (Race as))
             else rbind (stored_target (dn_store n) peer) (\<lambda>(single, multi).
               if multi \<noteq> [] then rbind (hinted_addrs L D n multi) (\<lambda>as. Inr (Race as))
               else case single of
                 None \<Rightarrow> Inl (NotInAllowlist peer)
               | Some e \<Rightarrow> dial_entry L D n peer e pc))) = Inr plan"
    by (auto simp: dial_service_with_idle_timeout_def rbind_eq_Inr)
  show ?thesis
  proof (cases "strip_prefix ''eid:'' peer")
    case (Some hex)
    with * show ?thesis using assms(2)
      by (auto simp: result_simps dial_by_eid_def refuse_if_revoked_def split: if_splits option.splits intro: stored_addr_safe)
  next
    case None
    show ?thesis
    proof (cases "(case dn_view n of Some v \<Rightarrow> devices_for_user v peer | None \<Rightarrow> []) \<noteq> []")
      case True
      with * None assms(2) show ?thesis by (auto simp: Let_def result_simps intro: hinted_safe)
    next
      case False
      with * None obtain single multi where "stored_target (dn_store n) peer = Inr (single, multi)" and
        "(if multi \<noteq> [] then rbind (hinted_addrs L D n multi) (\<lambda>as. Inr (Race as))
          else case single of None \<Rightarrow> Inl (NotInAllowlist peer) | Some e \<Rightarrow> dial_entry L D n peer e pc) = Inr plan"
        by (auto simp: result_simps)
      then show ?thesis using assms(2)
        by (auto simp: result_simps dial_entry_def refuse_if_revoked_def split: if_splits option.splits
            intro: hinted_safe stored_addr_safe)
    qed
  qed
qed

lemma protocol_candidates_safe: "protocol_candidates L n peer = Inr c \<Longrightarrow> i \<in> set (cd_dialable c) \<Longrightarrow> \<not> dial_refused n i"
  by (auto simp: protocol_candidates_def Let_def result_simps)

lemma source_devices_safe:
  assumes "source_devices L D n seen es = Inr (seen', as)" and "\<forall>e \<in> set es. \<not> dial_refused n e"
  shows "\<forall>a \<in> set as. safe_addr n a \<and> da_id a \<in> set seen' - set seen" and "distinct (map da_id as)" and "set seen \<subseteq> set seen'"
proof -
  have "(\<forall>a \<in> set as. safe_addr n a \<and> da_id a \<in> set seen' - set seen) \<and> distinct (map da_id as) \<and> set seen \<subseteq> set seen'"
    using assms
  proof (induction es arbitrary: seen as)
    case (Cons e es)
    show ?case
    proof (cases "e \<in> set seen \<or> \<not> vk_from_bytes L e")
      case True
      with Cons.prems Cons.IH [of seen as] Cons.IH [of "e # seen" as] show ?thesis by (auto split: if_splits)
    next
      case False
      with Cons.prems(1) have "\<exists>(entry :: peer_entry option) as1. source_devices L D n (e # seen) es = Inr (seen', as1) \<and>
        as = stored_dial_addr (dl_addr D) (Option.bind entry pe_last_addr) e # as1"
        by (auto simp: result_simps)
      then obtain entry :: "peer_entry option" and as1 where "source_devices L D n (e # seen) es = Inr (seen', as1)"
        "as = stored_dial_addr (dl_addr D) (Option.bind entry pe_last_addr) e # as1" by blast
      with Cons.IH [of "e # seen" as1] Cons.prems(2) False show ?thesis by (auto intro: stored_addr_safe)
    qed
  qed auto
  then show "\<forall>a \<in> set as. safe_addr n a \<and> da_id a \<in> set seen' - set seen" and "distinct (map da_id as)" and "set seen \<subseteq> set seen'"
    by auto
qed

lemma source_names_safe:
  "source_names L D n seen names = Inr (as, k) \<Longrightarrow>
     (\<forall>a \<in> set as. safe_addr n a \<and> da_id a \<notin> set seen) \<and> distinct (map da_id as)"
proof (induction names arbitrary: seen as k)
  case (Cons name names)
  from Cons.prems obtain c seen1 as1 as2 k2 where c: "protocol_candidates L n name = Inr c"
    and d: "source_devices L D n seen (cd_dialable c) = Inr (seen1, as1)"
    and r: "source_names L D n seen1 names = Inr (as2, k2)" and as: "as = as1 @ as2"
    by (auto simp: result_simps split: if_splits)
  have "\<forall>e \<in> set (cd_dialable c). \<not> dial_refused n e" using protocol_candidates_safe [OF c] by blast
  from source_devices_safe [OF d this] Cons.IH [OF r] show ?case by (auto simp: as)
qed simp

text \<open>
  C15. No dial this node makes on a caller's behalf reaches a device the gate refuses. Whatever name
  is given and whatever the stored hints hold, every address a session dial, a protocol dial or a
  fetch from alternate sources goes to belongs to an endpoint that is refused neither by the outbound
  check nor, as revoked, by the composed gate over the same tables; session dials and sources go only
  to transport addresses that can be a peer, and no source is named twice.
\<close>
theorem no_dial_reaches_a_refused_device:
  assumes "rg_view (cg_roster g) = dn_view n" and "cg_pairs g = dn_store n"
  shows "(dial_service_with_idle_timeout L D n peer secs = Inr plan \<longrightarrow> (\<forall>a \<in> set (plan_addrs plan).
      \<not> dial_refused n (da_id a) \<and> \<not> cg_is_revoked g now (da_id a) \<and> (\<forall>t \<in> set (da_addrs a). is_dialable_addr t))) \<and>
    (connect_candidates L n peer = Inr ids \<longrightarrow> (\<forall>i \<in> set ids. \<not> dial_refused n i \<and> \<not> cg_is_revoked g now i)) \<and>
    (blob_source_addrs L D n from = Inr found \<longrightarrow> distinct (map da_id (bs_addrs found)) \<and> (\<forall>a \<in> set (bs_addrs found).
      \<not> dial_refused n (da_id a) \<and> \<not> cg_is_revoked g now (da_id a) \<and> (\<forall>t \<in> set (da_addrs a). is_dialable_addr t)))"
proof -
  have g: "\<not> dial_refused n i \<Longrightarrow> \<not> cg_is_revoked g now i" for i
    using outbound_mirrors_inbound [of g now i] assms by (auto simp: dial_refused_def)
  have "connect_candidates L n peer = Inr ids \<longrightarrow> (\<forall>i \<in> set ids. \<not> dial_refused n i)"
    by (auto simp: connect_candidates_def result_simps dest: protocol_candidates_safe split: if_splits)
  moreover have "blob_source_addrs L D n from = Inr found \<longrightarrow>
      distinct (map da_id (bs_addrs found)) \<and> (\<forall>a \<in> set (bs_addrs found). safe_addr n a)"
    by (auto simp: blob_source_addrs_def result_simps dest!: source_names_safe split: if_splits)
  ultimately show ?thesis using plan_safe [of L D n peer secs plan] g by (auto simp: safe_addr_def)
qed

definition demo_dial_node :: dial_node where
  "demo_dial_node = \<lparr>dn_store = demo_store, dn_view = None, dn_presence = [], dn_keep_alive = 5\<rparr>"

definition demo_dial_lib :: dial_lib where
  "demo_dial_lib = \<lparr>dl_addr = (\<lambda>_. None), dl_idle_ok = (\<lambda>_. True)\<rparr>"

lemma demo_dials_bob: "dial_service_with_idle_timeout demo_libs demo_dial_lib demo_dial_node ''bob'' None =
    Inr (Single (bare_addr (replicate 32 1)) None)"
proof -
  have "\<not> is_refused demo_store (replicate 32 1)"
    using demo_gate_admission by (simp add: is_refused_def demo_gate_def)
  then show ?thesis
    by (simp add: dial_service_with_idle_timeout_def per_session_transport_config_def strip_prefix_def demo_dial_node_def
        demo_dial_lib_def stored_target_def entry_for_def store_list_def demo_store_def store_open_def with_table_def demo_entry_def
        lift_store_def dial_entry_def refuse_if_revoked_def dial_refused_def refused_by_def stored_dial_addr_def demo_libs_def)
qed

theorem no_dial_reaches_a_refused_device_witness:
  "\<not> cg_is_revoked demo_gate 0 (replicate 32 1)"
proof -
  have "rg_view (cg_roster demo_gate) = dn_view demo_dial_node" "cg_pairs demo_gate = dn_store demo_dial_node"
    by (simp add: demo_gate_view demo_dial_node_def) (simp add: demo_dial_node_def demo_gate_def)
  from no_dial_reaches_a_refused_device [OF this, THEN conjunct1, rule_format, OF demo_dials_bob] show ?thesis
    by (simp add: bare_addr_def)
qed

subsection \<open>Presence is advisory\<close>

lemma mset_order: "mset (order_dial_candidates devices t uid) = mset (map fst devices)"
proof -
  have "mset (map fst (sort_key f devices)) = mset (map fst devices)" for f :: "bytes \<times> string \<Rightarrow> nat \<times> nat"
    by (metis mset_map mset_sort)
  then show ?thesis by (simp add: order_dial_candidates_def)
qed

lemma hinted_mset:
  assumes "mset cs = mset cs'" and that: "dn_store n' = dn_store n" "dn_view n' = dn_view n"
  shows "case hinted_addrs L D n cs of Inl e \<Rightarrow> hinted_addrs L D n' cs' = Inl e
     | Inr as \<Rightarrow> (\<exists>bs. hinted_addrs L D n' cs' = Inr bs \<and> mset as = mset bs)"
proof -
  have r: "dial_refused n' i = dial_refused n i" for i by (simp add: dial_refused_def that)
  have f: "mset (filter Q cs) = mset (filter Q cs')" for Q by (metis assms(1) mset_filter)
  have e: "filter Q cs = [] \<longleftrightarrow> filter Q cs' = []" for Q using f [of Q] by (metis mset_zero_iff)
  have "mset (map h (filter Q cs)) = mset (map h (filter Q cs'))" for h :: "bytes \<Rightarrow> dial_addr" and Q
    by (simp add: assms)
  then show ?thesis using e [of "\<lambda>i. \<not> dial_refused n i"]
    by (auto simp: hinted_addrs_def Let_def r that split: if_splits)
qed

lemma order_role_sorted:
  assumes "(e1, r1) \<in> set devices" and "(e2, r2) \<in> set devices" and "distinct (map fst devices)"
    and "order_dial_candidates devices t uid = xs @ e1 # ys" and "e2 \<in> set ys"
  shows "dial_role_rank r1 \<le> dial_role_rank r2"
proof -
  let ?key = "\<lambda>(e, role). (dial_role_rank role, recency_rank t uid e)"
  let ?s = "sort_key ?key devices"
  have s: "map fst ?s = xs @ e1 # ys" using assms(4) by (simp add: order_dial_candidates_def)
  then obtain as p bs where split: "?s = as @ p # bs" "map fst as = xs" "fst p = e1" "map fst bs = ys"
    by (auto simp: map_eq_append_conv map_eq_Cons_conv)
  have mem: "set ?s = set devices" by simp
  from split have "p \<in> set devices" using mem by auto
  then have p: "p = (e1, r1)" using assms(1,3) split(3) by (metis eq_key_imp_eq_value prod.collapse)
  from assms(5) split(4) obtain q where q: "q \<in> set bs" "fst q = e2" by auto
  then have "q \<in> set devices" using mem split(1) by auto
  then have q2: "q = (e2, r2)" using assms(2,3) q(2) by (metis eq_key_imp_eq_value prod.collapse)
  have "sorted (map ?key ?s)" by simp
  then have "?key p \<le> ?key q" using split(1) q(1) by (auto simp: sorted_append)
  then show ?thesis by (auto simp: p q2 less_eq_prod_def)
qed

text \<open>
  Presence is advisory. Whatever the presence table holds, a session dial of a name fails in the
  same way or goes to the same addresses: suppressing, forging or replaying beats neither adds nor
  removes a candidate; and among a person's devices a mirror never comes before a primary.
\<close>
theorem presence_only_orders_candidates:
  shows "(case dial_service_with_idle_timeout L D n peer secs of
      Inr (Race as) \<Rightarrow> \<exists>bs. dial_service_with_idle_timeout L D (n\<lparr>dn_presence := t\<rparr>) peer secs = Inr (Race bs) \<and> mset as = mset bs
    | r \<Rightarrow> dial_service_with_idle_timeout L D (n\<lparr>dn_presence := t\<rparr>) peer secs = r) \<and>
    (distinct (al_keys devices) \<longrightarrow> (e1, r1) \<in> set devices \<longrightarrow> (e2, r2) \<in> set devices \<longrightarrow>
      order_dial_candidates devices t uid = xs @ e1 # ys \<longrightarrow> e2 \<in> set ys \<longrightarrow> dial_role_rank r1 \<le> dial_role_rank r2)"
proof (rule conjI)
  let ?n = "n\<lparr>dn_presence := t\<rparr>"
  have r: "dial_refused ?n i = dial_refused n i" for i by (simp add: dial_refused_def)
  have same: "hinted_addrs L D ?n cs = hinted_addrs L D n cs" for cs by (simp add: hinted_addrs_def r Let_def)
  have one: "dial_by_eid L D ?n hex pc = dial_by_eid L D n hex pc" "dial_entry L D ?n peer e pc = dial_entry L D n peer e pc"
    "refuse_if_revoked ?n i peer = refuse_if_revoked n i peer" for hex pc e i
    by (simp_all add: dial_by_eid_def dial_entry_def refuse_if_revoked_def r cong: if_cong)
  define devices where "devices = (case dn_view n of Some v \<Rightarrow> devices_for_user v peer | None \<Rightarrow> [])"
  show "case dial_service_with_idle_timeout L D n peer secs of
      Inr (Race as) \<Rightarrow> \<exists>bs. dial_service_with_idle_timeout L D ?n peer secs = Inr (Race bs) \<and> mset as = mset bs
    | r \<Rightarrow> dial_service_with_idle_timeout L D ?n peer secs = r"
  proof (cases "strip_prefix ''eid:'' peer = None \<and> devices \<noteq> []")
    case True
    let ?c = "order_dial_candidates devices (dn_presence n) peer" and ?c' = "order_dial_candidates devices t peer"
    have "mset ?c = mset ?c'" by (simp add: mset_order)
    from hinted_mset [OF this, of ?n n L D] have h: "case hinted_addrs L D n ?c of Inl e \<Rightarrow> hinted_addrs L D ?n ?c' = Inl e
       | Inr as \<Rightarrow> \<exists>bs. hinted_addrs L D ?n ?c' = Inr bs \<and> mset as = mset bs" by simp
    have "dial_service_with_idle_timeout L D n peer secs = rbind (per_session_transport_config D secs (dn_keep_alive n))
        (\<lambda>_. rbind (hinted_addrs L D n ?c) (\<lambda>as. Inr (Race as)))"
      "dial_service_with_idle_timeout L D ?n peer secs = rbind (per_session_transport_config D secs (dn_keep_alive n))
        (\<lambda>_. rbind (hinted_addrs L D ?n ?c') (\<lambda>as. Inr (Race as)))"
      using True by (simp_all add: dial_service_with_idle_timeout_def Let_def devices_def)
    then show ?thesis using h
      by (cases "per_session_transport_config D secs (dn_keep_alive n)"; cases "hinted_addrs L D n ?c") auto
  next
    case False
    have "dial_service_with_idle_timeout L D ?n peer secs = dial_service_with_idle_timeout L D n peer secs"
    proof (cases "strip_prefix ''eid:'' peer")
      case None
      with False have "devices = []" by simp
      then show ?thesis
        by (simp add: dial_service_with_idle_timeout_def None same one devices_def [symmetric] Let_def cong: if_cong option.case_cong)
    qed (simp add: dial_service_with_idle_timeout_def one cong: option.case_cong)
    then show ?thesis by (auto split: sum.split dial_plan.split)
  qed
  show "distinct (al_keys devices) \<longrightarrow> (e1, r1) \<in> set devices \<longrightarrow> (e2, r2) \<in> set devices \<longrightarrow>
      order_dial_candidates devices t uid = xs @ e1 # ys \<longrightarrow> e2 \<in> set ys \<longrightarrow> dial_role_rank r1 \<le> dial_role_rank r2" for devices :: "(bytes \<times> string) list"
    using order_role_sorted by blast
qed

theorem presence_only_orders_candidates_witness:
  "dial_service_with_idle_timeout demo_libs demo_dial_lib
     (demo_dial_node\<lparr>dn_presence := [(replicate 32 1, \<lparr>pe_user = ''eve'', pe_ts = 9, pe_meta = []\<rparr>)]\<rparr>) ''bob'' None =
     Inr (Single (bare_addr (replicate 32 1)) None) \<and>
   (let devices = [([2], ''mirror''), ([1], ''primary'')] in
      distinct (al_keys devices) \<and> order_dial_candidates devices [] ''ann'' = [] @ [1] # [[2]] \<and> dial_role_rank ''primary'' \<le> dial_role_rank ''mirror'')"
proof -
  have o: "order_dial_candidates [([2], ''mirror''), ([1], ''primary'')] [] ''ann'' = [] @ [1] # [[2]]"
    by (simp add: order_dial_candidates_def dial_role_rank_def recency_rank_def endpoints_for_user_by_recency_def)
  have "dial_role_rank ''primary'' \<le> dial_role_rank ''mirror''"
    by (rule presence_only_orders_candidates [THEN conjunct2, rule_format, OF _ _ _ o]) auto
  with o presence_only_orders_candidates [where L = demo_libs and D = demo_dial_lib and n = demo_dial_node and peer = "''bob''" and secs = None, THEN conjunct1] show ?thesis
    by (simp add: demo_dials_bob)
qed

subsection \<open>The staggered race\<close>

fun race_run :: "dial_event list \<Rightarrow> dial_race \<Rightarrow> dial_race option" where
  "race_run [] r = Some r"
| "race_run (e # es) r = Option.bind (race_dial_step e r) (race_run es)"

lemma race_run_snoc: "race_run (es @ [e]) r = Option.bind (race_run es r) (race_dial_step e)"
  by (induction es arbitrary: r) (auto simp: bind_assoc split: bind_splits)

fun race_failed :: "dial_event list \<Rightarrow> nat list" where
  "race_failed [] = []"
| "race_failed (DialFailed i # es) = i # race_failed es"
| "race_failed (_ # es) = race_failed es"

lemma race_failed_append [simp]: "race_failed (es @ fs) = race_failed es @ race_failed fs"
  by (induction es rule: race_failed.induct) auto

definition race_fuel :: "dial_race \<Rightarrow> nat" where
  "race_fuel r = 2 * (rc_total r - rc_next r) + length (rc_flight r)"

text \<open>What holds of a race at every moment: the events so far, and what is left.\<close>

definition race_inv :: "nat \<Rightarrow> dial_event list \<Rightarrow> dial_race \<Rightarrow> bool" where
  "race_inv n es r \<longleftrightarrow> rc_total r = n \<and> rc_next r \<le> n \<and> length es + race_fuel r < 2 * n \<and> distinct (rc_flight r) \<and>
     (rc_outcome r = None \<longrightarrow> rc_flight r \<noteq> [] \<and> (\<forall>j. j \<in> set (race_failed es) \<or> j \<in> set (rc_flight r) \<longleftrightarrow> j < rc_next r)) \<and>
     (rc_outcome r = Some None \<longrightarrow> (\<forall>j. j \<in> set (race_failed es) \<longleftrightarrow> j < n)) \<and>
     (\<forall>i. rc_outcome r = Some (Some i) \<longrightarrow> i < n \<and> Connected i \<in> set es)"

lemma race_inv_start: "race_dial n = Some r \<Longrightarrow> race_inv n [] r"
  by (auto simp: race_dial_def race_inv_def race_fuel_def spawn_dial_def split: if_splits)

lemma race_inv_flight:
  assumes "race_inv n es r" and "rc_outcome r = None" and "i \<in> set (rc_flight r)"
  shows "i < rc_next r" and "i < n"
proof -
  from assms(1,2) have "\<forall>j. j \<in> set (race_failed es) \<or> j \<in> set (rc_flight r) \<longleftrightarrow> j < rc_next r" by (simp add: race_inv_def)
  with assms(3) show n: "i < rc_next r" by blast
  from assms(1) have "rc_next r \<le> n" by (simp add: race_inv_def)
  with n show "i < n" by simp
qed

lemma race_inv_step:
  assumes "race_inv n es r" and "race_dial_step e r = Some r'"
  shows "race_inv n (es @ [e]) r'"
proof (cases e)
  case (Connected i)
  with assms(2) have o: "rc_outcome r = None" "i \<in> set (rc_flight r)" and r': "r' = r\<lparr>rc_outcome := Some (Some i), rc_flight := []\<rparr>"
    by (auto split: if_splits)
  have "i < n" by (rule race_inv_flight(2) [OF assms(1) o])
  moreover have "1 \<le> length (rc_flight r)" using o(2) by (cases "rc_flight r") auto
  moreover have "length es + race_fuel r < 2 * n" "rc_total r = n" "rc_next r \<le> n" using assms(1) by (simp_all add: race_inv_def)
  ultimately show ?thesis using Connected by (simp add: race_inv_def race_fuel_def r')
next
  case (DialFailed i)
  define fl where "fl = remove1 i (rc_flight r)"
  from assms DialFailed have i: "rc_outcome r = None" "i \<in> set (rc_flight r)" and
    r': "r' = (if fl \<noteq> [] then r\<lparr>rc_flight := fl\<rparr> else if rc_next r < rc_total r then spawn_dial (r\<lparr>rc_flight := fl\<rparr>)
          else r\<lparr>rc_flight := fl, rc_outcome := Some None\<rparr>)"
    by (auto simp: Let_def fl_def split: if_splits)
  have len: "length (rc_flight r) = Suc (length fl)"
    using i(2) length_pos_if_in_set [OF i(2)] by (simp add: fl_def length_remove1)
  have set: "\<forall>j. j \<in> set fl \<longleftrightarrow> j \<in> set (rc_flight r) \<and> j \<noteq> i" "distinct fl"
    using assms(1) by (auto simp: race_inv_def fl_def)
  have all: "\<forall>j. j = i \<or> j \<in> set (race_failed es) \<or> j \<in> set fl \<longleftrightarrow> j < rc_next r"
    using assms(1) i set by (simp add: race_inv_def) blast
  show ?thesis
  proof (cases "fl = []")
    case True
    show ?thesis
    proof (cases "rc_next r < rc_total r")
      case lt: True
      with True r' have "r' = spawn_dial (r\<lparr>rc_flight := []\<rparr>)" by simp
      moreover have "\<forall>j. j = i \<or> j \<in> set (race_failed es) \<or> j = rc_next r \<longleftrightarrow> j < Suc (rc_next r)"
        using all True by (simp add: less_Suc_eq) blast
      moreover have "rc_total r = n" "length es + race_fuel r < 2 * n" using assms(1) by (simp_all add: race_inv_def)
      ultimately show ?thesis using DialFailed i lt len True by (simp add: race_inv_def race_fuel_def spawn_dial_def)
    next
      case ge: False
      with True r' have "r' = r\<lparr>rc_flight := [], rc_outcome := Some None\<rparr>" by simp
      moreover have "rc_next r = n" using ge assms(1) by (simp add: race_inv_def)
      ultimately show ?thesis using assms(1) DialFailed len True all by (simp add: race_inv_def race_fuel_def)
    qed
  next
    case False
    with r' have "r' = r\<lparr>rc_flight := fl\<rparr>" by simp
    moreover have "rc_total r = n" "length es + race_fuel r < 2 * n" "rc_next r \<le> n" using assms(1) by (simp_all add: race_inv_def)
    ultimately show ?thesis using DialFailed i(1) len False all set(2) by (simp add: race_inv_def race_fuel_def)
  qed
next
  case Stagger
  with assms have o: "rc_outcome r = None" "rc_next r < rc_total r" and r': "r' = spawn_dial r" by (auto split: if_splits)
  have new: "rc_next r \<notin> set (rc_flight r)" using race_inv_flight(1) [OF assms(1) o(1)] by blast
  have "\<forall>j. j \<in> set (race_failed es) \<or> j = rc_next r \<or> j \<in> set (rc_flight r) \<longleftrightarrow> j < Suc (rc_next r)"
    using assms(1) o(1) by (simp add: race_inv_def less_Suc_eq) blast
  moreover have "rc_total r = n" "length es + race_fuel r < 2 * n" "distinct (rc_flight r)" using assms(1) by (simp_all add: race_inv_def)
  ultimately show ?thesis using new o r' Stagger by (simp add: race_inv_def race_fuel_def spawn_dial_def)
qed

lemma race_inv_run: "race_dial n = Some r \<Longrightarrow> race_run es r = Some r' \<Longrightarrow> race_inv n es r'"
proof (induction es arbitrary: r' rule: rev_induct)
  case Nil
  then show ?case by (simp add: race_inv_start)
next
  case (snoc e es)
  from snoc.prems(2) obtain r1 where "race_run es r = Some r1" "race_dial_step e r1 = Some r'"
    by (auto simp: race_run_snoc bind_eq_Some_conv)
  with snoc.IH [OF snoc.prems(1)] race_inv_step show ?case by blast
qed

text \<open>
  The staggered race ends. A race over \<open>n\<close> candidates meets at most \<open>2 n - 1\<close> events; until it is
  decided a dial is in flight, so there is always something to wait for, and it may succeed or fail;
  it succeeds with a candidate that connected, and it fails only after every candidate was dialled
  and failed.
\<close>
theorem staggered_race_ends:
  assumes "race_dial n = Some r" and "race_run es r = Some r'"
  shows "length es < 2 * n \<and>
    (case rc_outcome r' of
       None \<Rightarrow> rc_flight r' \<noteq> [] \<and> (\<forall>i \<in> set (rc_flight r'). i < n \<and>
         race_dial_step (Connected i) r' \<noteq> None \<and> race_dial_step (DialFailed i) r' \<noteq> None)
     | Some None \<Rightarrow> set (race_failed es) = {..<n}
     | Some (Some i) \<Rightarrow> i < n \<and> Connected i \<in> set es)"
proof -
  have inv: "race_inv n es r'" by (rule race_inv_run [OF assms])
  have "rc_outcome r' = None \<Longrightarrow> i \<in> set (rc_flight r') \<Longrightarrow>
      i < n \<and> race_dial_step (Connected i) r' \<noteq> None \<and> race_dial_step (DialFailed i) r' \<noteq> None" for i
    using race_inv_flight(2) [OF inv] by (simp add: Let_def)
  moreover have "rc_outcome r' = Some None \<Longrightarrow> set (race_failed es) = {..<n}"
    using inv by (auto simp: race_inv_def)
  ultimately show ?thesis using inv by (simp add: race_inv_def split: option.split)
qed

theorem staggered_race_ends_witness:
  "length [Stagger, DialFailed 0, DialFailed 1] < 2 * (2 :: nat) \<and>
     (\<exists>r r'. race_dial 2 = Some r \<and> race_run [Stagger, DialFailed 0, DialFailed 1] r = Some r' \<and> rc_outcome r' = Some None \<and>
        set (race_failed [Stagger, DialFailed 0, DialFailed 1]) = {..<2})"
proof -
  have "\<exists>r r'. race_dial 2 = Some r \<and> race_run [Stagger, DialFailed 0, DialFailed 1] r = Some r' \<and> rc_outcome r' = Some None"
    by (simp add: race_dial_def spawn_dial_def Let_def)
  then obtain r r' where r: "race_dial 2 = Some r" "race_run [Stagger, DialFailed 0, DialFailed 1] r = Some r'" "rc_outcome r' = Some None"
    by blast
  from staggered_race_ends [OF r(1,2)] r show ?thesis by auto
qed

subsection \<open>The service a dial names\<close>

lemma map_of_keys_insert [simp]:
  "map_of (foldl (\<lambda>q key. al_insert key (JStr s) q) m SERVICE_KEYS) k = (if k \<in> set SERVICE_KEYS then Some (JStr s) else map_of m k)"
  by (auto simp: SERVICE_KEYS_def map_of_al_insert)

lemma inject_params: "jget k (inject_service (JObj m) s) = (if k = ''params'' then jget k (inject_service (JObj m) s) else map_of m k)"
  by (simp add: inject_service_def Let_def map_of_al_insert)

lemma inject_meta:
  "jpointer (meta_path @ [k]) (inject_service (JObj m) s) =
     (if k \<in> set SERVICE_KEYS then Some (JStr s) else jpointer (meta_path @ [k]) (JObj m))"
  by (auto simp: inject_service_def Let_def map_of_al_insert split: option.split json.split)

text \<open>
  What a dial names is what the far side selects. Whatever first request the caller hands over,
  even one that names another service or two different ones, the frame the dial sends selects the
  dialled service there if the caller may reach it and is refused otherwise; every other member of
  the request, and every other key under its \<open>_meta\<close>, arrives at the backend unless it is reserved.
\<close>
theorem dialled_service_is_selected:
  "fst (select_service (inject_service (JObj m) s) allowed) = (if s \<in> set allowed then Selected s else Refuse) \<and>
   (k \<noteq> ''params'' \<longrightarrow> jget k (snd (select_service (inject_service (JObj m) s) allowed)) = jget k (JObj m)) \<and>
   (\<not> reserved_key k \<and> k \<noteq> CLIENT_INFO_KEY \<longrightarrow>
      jpointer (meta_path @ [k]) (snd (select_service (inject_service (JObj m) s) allowed)) = jpointer (meta_path @ [k]) (JObj m))"
proof -
  have nb: "\<not> is_batch (inject_service (JObj m) s)" by (simp add: inject_service_def Let_def)
  have "service_request (inject_service (JObj m) s) = Named s"
    using inject_meta [of "''tech.counterpunch.mcpmesh/service''" m s] inject_meta [of "''mcpmesh/service''" m s]
    by (simp add: service_request_def SERVICE_KEYS_def del: jpointer.simps)
  moreover have "\<not> reserved_key k \<Longrightarrow> k \<notin> set SERVICE_KEYS"
    by (auto simp: SERVICE_KEYS_def reserved_key_def RESERVED_META_PREFIXES_def LEGACY_META_PREFIX_def META_PREFIX_def)
  ultimately show ?thesis
    using selected_frame_keeps_the_rest [OF nb, of k allowed] inject_meta [of k m s] inject_params [of k m s]
    by (auto simp: select_service_decision simp del: jpointer.simps)
qed

theorem dialled_service_is_selected_witness:
  "fst (select_service (inject_service (JObj [(''id'', JNum 1)]) ''kb'') [''kb'', ''notes'']) = Selected ''kb'' \<and>
   jget ''id'' (snd (select_service (inject_service (JObj [(''id'', JNum 1)]) ''kb'') [''kb'', ''notes''])) = Some (JNum 1)"
  using dialled_service_is_selected [of "[(''id'', JNum 1)]" "''kb''" "[''kb'', ''notes'']" "''id''"] by simp

end
