(* ===== verification/Presence_Props.thy ===== *)
theory Presence_Props
  imports Presence Roster_Props
begin

text \<open>
  The theorems of the presence table: what it says was signed by the device it is about and accepted
  against a roster that binds the device to that person, nothing older replaces it, and a beat this
  node publishes is one its peers record.
\<close>

subsection \<open>What the table holds\<close>

type_synonym heard = "int \<times> roster_view option \<times> bytes"

definition tracked :: "libs \<Rightarrow> heard list \<Rightarrow> presence_table" where
  "tracked L msgs = foldl (\<lambda>t (now, view, content). track_message L now view content t) [] msgs"

text \<open>The beat a message carries, when it is accepted.\<close>

definition accepted :: "libs \<Rightarrow> heard \<Rightarrow> (bytes \<times> beat) option" where
  "accepted L h = (case h of (now, view, content) \<Rightarrow>
     Option.bind view (\<lambda>v. Option.bind (beat_from_bytes L content) (\<lambda>p. map_option (\<lambda>eid. (eid, p)) (beat_accept L now v p))))"

lemma track_accepted:
  "track_message L now view content t = (case accepted L (now, view, content) of None \<Rightarrow> t
     | Some (eid, p) \<Rightarrow> presence_record eid (pr_user_id p) (pr_ts p) (pr_meta p) t)"
  by (simp add: track_message_def accepted_def split: option.split)

lemma tracked_snoc: "tracked L (msgs @ [(now, view, content)]) = track_message L now view content (tracked L msgs)"
  by (simp add: tracked_def)

lemma presence_record_lookup:
  "map_of (presence_record eid uid ts meta t) i =
     (if i = eid \<and> (\<forall>e. map_of t eid = Some e \<longrightarrow> pe_ts e < ts) then Some \<lparr>pe_user = uid, pe_ts = ts, pe_meta = meta\<rparr> else map_of t i)"
  by (auto simp: presence_record_def not_le map_of_al_insert split: option.split)

lemma accepted_genuine:
  assumes "accepted L (now, view, content) = Some (eid, p)"
  shows "\<exists>v sig. view = Some v \<and> beat_from_bytes L content = Some p \<and>
     map_option d_user_id (view_resolve v eid) = Some (pr_user_id p) \<and>
     decode_b64u L (pr_sig p) = Inr sig \<and>
     verify_strict L eid (beat_preimage eid (pr_user_id p) (pr_ts p) (pr_roster_serial p) (pr_meta p)) sig \<and>
     i64_saturating_abs (i64_saturating_sub now (pr_ts p)) < PRESENCE_SKEW_SECS \<and>
     length (pr_meta p) \<le> APP_METADATA_MAX_BYTES"
  using assms
  by (auto simp: accepted_def beat_accept_def beat_verify_def bind_eq_Some_conv split: if_splits sum.splits option.splits)

lemma tracked_lookup:
  fixes msgs :: "heard list"
  shows "case map_of (tracked L msgs) i of
     None \<Rightarrow> \<forall>h \<in> set msgs. \<forall>p. accepted L h \<noteq> Some (i, p)
   | Some e \<Rightarrow> (\<exists>h \<in> set msgs. \<exists>p. accepted L h = Some (i, p) \<and> e = \<lparr>pe_user = pr_user_id p, pe_ts = pr_ts p, pe_meta = pr_meta p\<rparr>) \<and>
       (\<forall>h \<in> set msgs. \<forall>p. accepted L h = Some (i, p) \<longrightarrow> pr_ts p \<le> pe_ts e)"
proof (induction msgs rule: rev_induct)
  case (snoc h msgs)
  obtain now view content where h: "h = (now, view, content)" by (cases h)
  show ?case
  proof (cases "accepted L h")
    case None
    with snoc show ?thesis by (simp add: h tracked_snoc track_accepted split: option.splits)
  next
    case (Some jp)
    obtain j p where jp: "jp = (j, p)" by (cases jp)
    show ?thesis
    proof (cases "j = i")
      case True
      show ?thesis
      proof (cases "map_of (tracked L msgs) i")
        case None
        with snoc Some jp True show ?thesis
          by (auto simp: h tracked_snoc track_accepted presence_record_lookup)
      next
        case (Some e)
        with snoc \<open>accepted L h = Some jp\<close> jp True show ?thesis
          by (fastforce simp: h tracked_snoc track_accepted presence_record_lookup)
      qed
    next
      case False
      with snoc Some jp show ?thesis
        by (simp add: h tracked_snoc track_accepted presence_record_lookup split: option.splits)
    qed
  qed
qed (simp add: tracked_def)

text \<open>
  C16. The presence table says only what devices said of themselves. An entry comes from a message
  whose signature verifies under the very device the entry is about, over the person, the time and
  the label it shows; the roster view of that moment bound the device to that person; the time was
  within two minutes of this node's clock and the label within its bound; and no accepted message of
  that device carries a later time, so a replayed beat changes nothing.
\<close>
theorem presence_entries_are_authentic:
  assumes "map_of (tracked L msgs) eid = Some e"
  shows "(\<exists>now v content p sig. (now, Some v, content) \<in> set msgs \<and> beat_from_bytes L content = Some p \<and>
       e = \<lparr>pe_user = pr_user_id p, pe_ts = pr_ts p, pe_meta = pr_meta p\<rparr> \<and>
       map_option d_user_id (view_resolve v eid) = Some (pe_user e) \<and> decode_b64u L (pr_sig p) = Inr sig \<and>
       verify_strict L eid (beat_preimage eid (pe_user e) (pe_ts e) (pr_roster_serial p) (pe_meta e)) sig \<and>
       i64_saturating_abs (i64_saturating_sub now (pe_ts e)) < PRESENCE_SKEW_SECS \<and> length (pe_meta e) \<le> APP_METADATA_MAX_BYTES) \<and>
     (\<forall>h \<in> set msgs. \<forall>p. accepted L h = Some (eid, p) \<longrightarrow> pr_ts p \<le> pe_ts e)"
proof -
  from tracked_lookup [of msgs L eid] assms have
    a: "\<exists>h \<in> set msgs. \<exists>p. accepted L h = Some (eid, p) \<and> e = \<lparr>pe_user = pr_user_id p, pe_ts = pr_ts p, pe_meta = pr_meta p\<rparr>"
    and b: "\<forall>h \<in> set msgs. \<forall>p. accepted L h = Some (eid, p) \<longrightarrow> pr_ts p \<le> pe_ts e" by auto
  from a obtain now view content p where h: "(now, view, content) \<in> set msgs" "accepted L (now, view, content) = Some (eid, p)"
    and e: "e = \<lparr>pe_user = pr_user_id p, pe_ts = pr_ts p, pe_meta = pr_meta p\<rparr>" by auto
  from accepted_genuine [OF h(2)] h(1) e b show ?thesis by (intro conjI b) (elim exE conjE, intro exI conjI, auto)
qed

subsection \<open>What a published beat does\<close>

lemma word_of_int_i64 [simp]: "in_i64 ts \<Longrightarrow> de_i64 (JNum ts) = Some ts"
  by (simp add: de_i64_def)

lemma beat_value_roundtrip: "in_i64 (pr_ts b) \<Longrightarrow> beat_from_value (beat_to_value b) = Some b"
  by (simp add: beat_from_value_def beat_to_value_def struct_members_def beat_fields_def required_def defaulted_def)

lemma beat_printable: "in_i64 (pr_ts b) \<Longrightarrow> json_printable (beat_to_value b)"
  using uint_lt2p [of "pr_roster_serial b"] uint_ge_0 [of "pr_roster_serial b"]
  by (auto simp: beat_to_value_def i64_defs intro: order_trans [OF _ uint_ge_0])

lemma beat_depth [simp]: "json_depth (beat_to_value b) \<le> JSON_MAX_DEPTH"
  by (simp add: beat_to_value_def JSON_MAX_DEPTH_def)

lemma signed_beat_verifies:
  assumes "ed25519_correct L" and "b64_canonical L" and "length meta \<le> APP_METADATA_MAX_BYTES"
    and "i64_saturating_abs (i64_saturating_sub now ts) < PRESENCE_SKEW_SECS"
  shows "beat_verify L now (beat_signed L k (ed_pk L k) uid ts serial meta) = Some (ed_pk L k)"
  using assms
  by (simp add: beat_verify_def beat_signed_def ed25519_correct_def decode_encode_b64u decode_endpoint_id_def sig_from_slice_def)

lemma recorded:
  assumes "ed25519_correct L" and "b64_canonical L" and "json_text_roundtrip L"
    and "in_i64 ts" and "length meta \<le> APP_METADATA_MAX_BYTES"
    and "i64_saturating_abs (i64_saturating_sub now ts) < PRESENCE_SKEW_SECS"
    and "map_option d_user_id (view_resolve v (ed_pk L k)) = Some uid"
    and "\<forall>e. map_of t (ed_pk L k) = Some e \<longrightarrow> pe_ts e < ts"
  shows "map_of (track_message L now (Some v) (publish_beat L k uid ts own meta) t) (ed_pk L k) =
       Some \<lparr>pe_user = uid, pe_ts = ts, pe_meta = meta\<rparr>"
proof -
  let ?b = "beat_signed L k (ed_pk L k) uid ts (case own of Some v \<Rightarrow> v_serial v | None \<Rightarrow> 0) meta"
  have "beat_from_bytes L (publish_beat L k uid ts own meta) = Some ?b"
    using assms(3) beat_printable [of ?b] beat_value_roundtrip [of ?b] assms(4)
    by (simp add: beat_from_bytes_def publish_beat_def beat_to_bytes_def json_text_roundtrip_def beat_signed_def)
  moreover have "beat_accept L now v ?b = Some (ed_pk L k)"
    using assms(7) signed_beat_verifies [OF assms(1,2,5,6)]
    by (auto simp: beat_accept_def) (simp add: beat_signed_def)
  ultimately show ?thesis
    using assms(8) by (auto simp: track_message_def presence_record_lookup beat_signed_def)
qed

text \<open>
  The beats this node publishes are ones its peers record. A beat published under a device key
  whose roster binding names the same person, heard by a peer whose clock is within two minutes and
  whose table holds nothing as late for that device, becomes that device's entry with the person, time
  and label published, and the device then counts among that person's present endpoints.
\<close>
theorem published_beat_is_recorded:
  assumes "ed25519_correct L" and "b64_canonical L" and "json_text_roundtrip L"
    and "in_i64 ts" and "length meta \<le> APP_METADATA_MAX_BYTES"
    and "i64_saturating_abs (i64_saturating_sub now ts) < PRESENCE_SKEW_SECS"
    and "map_option d_user_id (view_resolve v (ed_pk L k)) = Some uid"
    and "\<forall>e. map_of t (ed_pk L k) = Some e \<longrightarrow> pe_ts e < ts"
  shows "map_of (track_message L now (Some v) (publish_beat L k uid ts own meta) t) (ed_pk L k) =
       Some \<lparr>pe_user = uid, pe_ts = ts, pe_meta = meta\<rparr> \<and>
     ed_pk L k \<in> set (endpoints_for_user_by_recency uid (track_message L now (Some v) (publish_beat L k uid ts own meta) t))"
  using recorded [OF assms, of own]
  by (auto simp: endpoints_for_user_by_recency_def dest!: map_of_SomeD intro!: image_eqI)

definition demo_presence_view :: roster_view where
  "demo_presence_view = \<lparr>v_org_id = ''acme'', v_serial = 4, v_expires_at_epoch = 9,
     v_devices = [(ed_pk demo_libs [7], \<lparr>d_user_id = ''ann'', d_display_name = ''Ann'', d_groups = [], d_role = ''primary'', d_label = ''lap''\<rparr>)],
     v_revoked = [], v_groups = [], v_users = []\<rparr>"

abbreviation demo_heard :: heard where
  "demo_heard \<equiv> (40, Some demo_presence_view, publish_beat demo_libs [7] ''ann'' 30 None ''on'')"

lemma demo_tracked: "map_of (tracked demo_libs [demo_heard]) (ed_pk demo_libs [7]) =
    Some \<lparr>pe_user = ''ann'', pe_ts = 30, pe_meta = ''on''\<rparr>"
proof -
  have "in_i64 30" "length ''on'' \<le> APP_METADATA_MAX_BYTES" "i64_saturating_abs (i64_saturating_sub 40 30) < PRESENCE_SKEW_SECS"
    by (simp_all add: i64_defs APP_METADATA_MAX_BYTES_def i64_saturating_abs_def i64_saturating_sub_def i64_clamp_def PRESENCE_SKEW_SECS_def)
  moreover have "map_option d_user_id (view_resolve demo_presence_view (ed_pk demo_libs [7])) = Some ''ann''"
    by (simp add: view_resolve_def demo_presence_view_def)
  ultimately show ?thesis
    using recorded [of demo_libs 30 "''on''" 40 demo_presence_view "[7]" "''ann''" "[]" None] by (simp add: tracked_def)
qed

theorem presence_entries_are_authentic_witness:
  "\<exists>p. beat_from_bytes demo_libs (publish_beat demo_libs [7] ''ann'' 30 None ''on'') = Some p \<and> pr_user_id p = ''ann'' \<and> pr_ts p = 30"
  using presence_entries_are_authentic [OF demo_tracked] by auto

theorem published_beat_is_recorded_witness:
  "ed_pk demo_libs [7] \<in> set (endpoints_for_user_by_recency ''ann''
     (track_message demo_libs 40 (Some demo_presence_view) (publish_beat demo_libs [7] ''ann'' 30 None ''on'') []))"
proof -
  have "in_i64 30" "length ''on'' \<le> APP_METADATA_MAX_BYTES" "i64_saturating_abs (i64_saturating_sub 40 30) < PRESENCE_SKEW_SECS"
    by (simp_all add: i64_defs APP_METADATA_MAX_BYTES_def i64_saturating_abs_def i64_saturating_sub_def i64_clamp_def PRESENCE_SKEW_SECS_def)
  moreover have "map_option d_user_id (view_resolve demo_presence_view (ed_pk demo_libs [7])) = Some ''ann''"
    by (simp add: view_resolve_def demo_presence_view_def)
  ultimately show ?thesis
    using published_beat_is_recorded [of demo_libs 30 "''on''" 40 demo_presence_view "[7]" "''ann''" "[]" None] by simp
qed

end
