(* ===== verification/Conn_Cache.thy ===== *)
theory Conn_Cache
  imports Runs
begin

text \<open>
  The cache of client connections (\<open>node/src/daemon/conn_cache.rs\<close>): one connection per remote
  device, shared by every session to it, and one dial in flight per device. A cached handle is weak:
  it upgrades while something still holds the connection. The locked map is one value, each await of
  \<open>claim_loop\<close> is a point where a caller rests, and what it resumes with (the revocation check, the
  stream, the dial, the wake-up) is the label of the step. A deadline or a dropped future may end a
  caller wherever it rests. A connection may close, and its last holder go, at any time.
\<close>

record connection =
  cn_remote :: bytes
  cn_held :: bool
  cn_closed :: bool

datatype slot = SlotLive nat | SlotDialing nat

type_synonym slots = "bytes \<rightharpoonup> slot"
type_synonym connections = "nat \<rightharpoonup> connection"

definition upgrade :: "connections \<Rightarrow> nat \<Rightarrow> connection option" where
  "upgrade conns c = (case conns c of Some x \<Rightarrow> if cn_held x then Some x else None | None \<Rightarrow> None)"

definition open_handle :: "connections \<Rightarrow> nat \<Rightarrow> bool" where
  "open_handle conns c = (case upgrade conns c of Some x \<Rightarrow> \<not> cn_closed x | None \<Rightarrow> False)"

subsection \<open>Claiming\<close>

fun claim_live :: "connections \<Rightarrow> slots \<Rightarrow> bytes list \<Rightarrow> (bytes \<times> nat) option \<times> slots" where
  "claim_live conns m [] = (None, m)"
| "claim_live conns m (p # ps) = (case m p of
     Some (SlotLive c) \<Rightarrow> if open_handle conns c then (Some (p, c), m) else claim_live conns (m(p := None)) ps
   | _ \<Rightarrow> claim_live conns m ps)"

fun claim_dialing :: "slots \<Rightarrow> bytes list \<Rightarrow> nat option" where
  "claim_dialing m [] = None"
| "claim_dialing m (p # ps) = (case m p of Some (SlotDialing l) \<Rightarrow> Some l | _ \<Rightarrow> claim_dialing m ps)"

datatype claim_result = ClaimLive bytes nat | ClaimWait nat | ClaimLead

text \<open>\<open>l\<close> is the channel a new lead makes.\<close>

definition claim_peers :: "connections \<Rightarrow> nat \<Rightarrow> bytes list \<Rightarrow> slots \<Rightarrow> claim_result \<times> slots" where
  "claim_peers conns l peers m = (case claim_live conns m peers of
     (Some (p, c), m) \<Rightarrow> (ClaimLive p c, m)
   | (None, m) \<Rightarrow> (case claim_dialing m peers of
       Some l' \<Rightarrow> (ClaimWait l', m)
     | None \<Rightarrow> (ClaimLead, foldl (\<lambda>m p. m(p \<mapsto> SlotDialing l)) m peers)))"

subsection \<open>Leading\<close>

text \<open>A lead's channel: the failure it sent, if any, and whether the sender is alive.\<close>

record lead =
  ll_peers :: "bytes list"
  ll_why :: "string option"
  ll_sender :: bool

definition settle_slot :: "bytes \<Rightarrow> nat \<Rightarrow> slots \<Rightarrow> bytes \<Rightarrow> slots" where
  "settle_slot winner c m p =
     (if p = winner then m(p \<mapsto> SlotLive c)
      else case m p of Some (SlotDialing _) \<Rightarrow> m(p := None) | _ \<Rightarrow> m)"

definition lead_settle :: "bytes \<Rightarrow> nat \<Rightarrow> bytes list \<Rightarrow> slots \<Rightarrow> slots" where
  "lead_settle winner c peers m = foldl (settle_slot winner c) m peers"

definition clear_slot :: "slots \<Rightarrow> bytes \<Rightarrow> slots" where
  "clear_slot m p = (case m p of Some (SlotDialing _) \<Rightarrow> m(p := None) | _ \<Rightarrow> m)"

definition lead_drop :: "bytes list \<Rightarrow> slots \<Rightarrow> slots" where
  "lead_drop peers m = foldl clear_slot m peers"

subsection \<open>A stream on a connection the cache handed out\<close>

datatype stream_answer = StreamOpen | StreamRefused | NoCredit

definition open_on :: "connections \<Rightarrow> bytes \<Rightarrow> nat \<Rightarrow> stream_answer \<Rightarrow> slots \<Rightarrow> slots" where
  "open_on conns p c a m =
     (if a = StreamRefused
      then (case m p of Some (SlotLive c') \<Rightarrow> if upgrade conns c' \<noteq> None \<and> c' = c then m(p := None) else m | _ \<Rightarrow> m)
      else m)"

subsection \<open>Callers\<close>

datatype cache_error = ReuseRevoked | CheckFailed | DialError string | TimedOut "string option"

datatype session_end = Reused nat | Fresh nat | NoSession cache_error

text \<open>
  Where a caller rests. \<open>Panicked\<close> is the panic of a second dial (\<open>expect\<close>).
\<close>

datatype caller_at =
    Claiming
  | Checking bytes nat
  | Opening bytes nat
  | Waiting nat
  | Leading nat
  | DialingOwn
  | Ended session_end
  | Panicked

text \<open>\<open>ca_targets\<close> is what its dial goes to, \<open>ca_peers\<close> the candidates it still claims.\<close>

record caller =
  ca_targets :: "bytes list"
  ca_peers :: "bytes list"
  ca_dial :: bool
  ca_failure :: "string option"
  ca_at :: caller_at

definition session_on :: "bytes list \<Rightarrow> caller" where
  "session_on peers = \<lparr>ca_targets = peers, ca_peers = peers, ca_dial = True, ca_failure = None, ca_at = Claiming\<rparr>"

definition take_dial :: "caller_at \<Rightarrow> caller \<Rightarrow> caller" where
  "take_dial a ca = (if ca_dial ca then ca\<lparr>ca_dial := False, ca_at := a\<rparr> else ca\<lparr>ca_at := Panicked\<rparr>)"

record cache_world =
  cw_slots :: slots
  cw_leads :: "nat \<rightharpoonup> lead"
  cw_conns :: connections
  cw_callers :: "nat \<rightharpoonup> caller"

definition set_caller :: "nat \<Rightarrow> caller \<Rightarrow> cache_world \<Rightarrow> cache_world" where
  "set_caller k ca w = w\<lparr>cw_callers := (cw_callers w)(k \<mapsto> ca)\<rparr>"

definition caller_claims :: "nat \<Rightarrow> nat \<Rightarrow> caller \<Rightarrow> cache_world \<Rightarrow> cache_world" where
  "caller_claims k l ca w = (case claim_peers (cw_conns w) l (ca_peers ca) (cw_slots w) of
     (ClaimLive p c, m) \<Rightarrow> set_caller k (ca\<lparr>ca_at := Checking p c\<rparr>) (w\<lparr>cw_slots := m\<rparr>)
   | (ClaimWait l', m) \<Rightarrow> set_caller k (ca\<lparr>ca_at := Waiting l'\<rparr>) (w\<lparr>cw_slots := m\<rparr>)
   | (ClaimLead, m) \<Rightarrow> set_caller k (take_dial (Leading l) ca)
       (w\<lparr>cw_slots := m, cw_leads := (cw_leads w)(l \<mapsto> \<lparr>ll_peers = ca_peers ca, ll_why = None, ll_sender = True\<rparr>)\<rparr>))"

text \<open>The revocation check at the hand-out: refused or not, or a check that could not run.\<close>

definition caller_checked :: "bytes \<Rightarrow> nat \<Rightarrow> bool option \<Rightarrow> caller \<Rightarrow> caller" where
  "caller_checked p c answer ca = (case answer of
     Some False \<Rightarrow> ca\<lparr>ca_at := Opening p c\<rparr>
   | Some True \<Rightarrow>
       (let peers = filter (\<lambda>q. q \<noteq> p) (ca_peers ca)
        in if peers = [] then ca\<lparr>ca_peers := peers, ca_at := Ended (NoSession ReuseRevoked)\<rparr>
           else ca\<lparr>ca_peers := peers, ca_at := Claiming\<rparr>)
   | None \<Rightarrow> ca\<lparr>ca_at := Ended (NoSession CheckFailed)\<rparr>)"

definition caller_opened :: "nat \<Rightarrow> stream_answer \<Rightarrow> caller \<Rightarrow> caller" where
  "caller_opened c a ca = (case a of
     StreamOpen \<Rightarrow> ca\<lparr>ca_at := Ended (Reused c)\<rparr>
   | StreamRefused \<Rightarrow> ca\<lparr>ca_at := Claiming\<rparr>
   | NoCredit \<Rightarrow> take_dial DialingOwn ca)"

definition lead_over :: "lead \<Rightarrow> bool" where
  "lead_over ld \<longleftrightarrow> ll_why ld \<noteq> None \<or> \<not> ll_sender ld"

definition caller_woken :: "lead \<Rightarrow> caller \<Rightarrow> caller" where
  "caller_woken ld ca =
     (let ca = (if ll_why ld \<noteq> None then ca\<lparr>ca_failure := ll_why ld\<rparr> else ca) in ca\<lparr>ca_at := Claiming\<rparr>)"

text \<open>A lead that settled, failed, or was dropped with its caller.\<close>

definition end_lead :: "nat \<Rightarrow> lead \<Rightarrow> string option \<Rightarrow> slots \<Rightarrow> cache_world \<Rightarrow> cache_world" where
  "end_lead l ld why m w = w\<lparr>cw_slots := m, cw_leads := (cw_leads w)(l \<mapsto> ld\<lparr>ll_why := why, ll_sender := False\<rparr>)\<rparr>"

datatype cache_label =
    Arrives nat "bytes list"
  | Claims nat nat
  | Checks nat bytes "bool option"
  | Opens nat bytes stream_answer
  | Wakes nat
  | Settles nat nat bytes
  | LeadFails nat string
  | OwnDials nat nat bytes
  | OwnFails nat string
  | TimesOut nat
  | Closes nat
  | Releases nat

inductive cache_step :: "cache_world \<Rightarrow> cache_label \<Rightarrow> cache_world \<Rightarrow> bool" where
  Arrive: "cw_callers w k = None \<Longrightarrow> peers \<noteq> [] \<Longrightarrow> cache_step w (Arrives k peers) (set_caller k (session_on peers) w)"
| Claim: "cw_callers w k = Some ca \<Longrightarrow> ca_at ca = Claiming \<Longrightarrow> cw_leads w l = None \<Longrightarrow>
    cache_step w (Claims k l) (caller_claims k l ca w)"
| Check: "cw_callers w k = Some ca \<Longrightarrow> ca_at ca = Checking p c \<Longrightarrow>
    cache_step w (Checks k p answer) (set_caller k (caller_checked p c answer ca) w)"
| Open: "cw_callers w k = Some ca \<Longrightarrow> ca_at ca = Opening p c \<Longrightarrow>
    cache_step w (Opens k p a)
      (set_caller k (caller_opened c a ca) (w\<lparr>cw_slots := open_on (cw_conns w) p c a (cw_slots w)\<rparr>))"
| Wake: "cw_callers w k = Some ca \<Longrightarrow> ca_at ca = Waiting l \<Longrightarrow> cw_leads w l = Some ld \<Longrightarrow> lead_over ld \<Longrightarrow>
    cache_step w (Wakes k) (set_caller k (caller_woken ld ca) w)"
| Settle: "cw_callers w k = Some ca \<Longrightarrow> ca_at ca = Leading l \<Longrightarrow> cw_leads w l = Some ld \<Longrightarrow>
    cw_conns w c = None \<Longrightarrow> r \<in> set (ca_targets ca) \<Longrightarrow>
    cache_step w (Settles k c r)
      (set_caller k (ca\<lparr>ca_at := Ended (Fresh c)\<rparr>)
        (end_lead l ld None (lead_settle r c (ll_peers ld) (cw_slots w))
          (w\<lparr>cw_conns := (cw_conns w)(c \<mapsto> \<lparr>cn_remote = r, cn_held = True, cn_closed = False\<rparr>)\<rparr>)))"
| Lead_Fail: "cw_callers w k = Some ca \<Longrightarrow> ca_at ca = Leading l \<Longrightarrow> cw_leads w l = Some ld \<Longrightarrow>
    cache_step w (LeadFails k why)
      (set_caller k (ca\<lparr>ca_at := Ended (NoSession (DialError why))\<rparr>)
        (end_lead l ld (Some why) (lead_drop (ll_peers ld) (cw_slots w)) w))"
| Own_Dial: "cw_callers w k = Some ca \<Longrightarrow> ca_at ca = DialingOwn \<Longrightarrow> cw_conns w c = None \<Longrightarrow> r \<in> set (ca_targets ca) \<Longrightarrow>
    cache_step w (OwnDials k c r)
      (set_caller k (ca\<lparr>ca_at := Ended (Fresh c)\<rparr>)
        (w\<lparr>cw_conns := (cw_conns w)(c \<mapsto> \<lparr>cn_remote = r, cn_held = True, cn_closed = False\<rparr>)\<rparr>))"
| Own_Fail: "cw_callers w k = Some ca \<Longrightarrow> ca_at ca = DialingOwn \<Longrightarrow>
    cache_step w (OwnFails k why) (set_caller k (ca\<lparr>ca_at := Ended (NoSession (DialError why))\<rparr>) w)"
| Time_Out_Leading: "cw_callers w k = Some ca \<Longrightarrow> ca_at ca = Leading l \<Longrightarrow> cw_leads w l = Some ld \<Longrightarrow>
    cache_step w (TimesOut k)
      (set_caller k (ca\<lparr>ca_at := Ended (NoSession (TimedOut (ca_failure ca)))\<rparr>)
        (end_lead l ld None (lead_drop (ll_peers ld) (cw_slots w)) w))"
| Time_Out: "cw_callers w k = Some ca \<Longrightarrow> (\<forall>l. ca_at ca \<noteq> Leading l) \<Longrightarrow> (\<forall>e. ca_at ca \<noteq> Ended e) \<Longrightarrow> ca_at ca \<noteq> Panicked \<Longrightarrow>
    cache_step w (TimesOut k) (set_caller k (ca\<lparr>ca_at := Ended (NoSession (TimedOut (ca_failure ca)))\<rparr>) w)"
| Close: "cw_conns w c = Some x \<Longrightarrow> cache_step w (Closes c) (w\<lparr>cw_conns := (cw_conns w)(c \<mapsto> x\<lparr>cn_closed := True\<rparr>)\<rparr>)"
| Release: "cw_conns w c = Some x \<Longrightarrow> cache_step w (Releases c) (w\<lparr>cw_conns := (cw_conns w)(c \<mapsto> x\<lparr>cn_held := False\<rparr>)\<rparr>)"

definition empty_cache :: cache_world where
  "empty_cache = \<lparr>cw_slots = Map.empty, cw_leads = Map.empty, cw_conns = Map.empty, cw_callers = Map.empty\<rparr>"

end
