(* ===== verification/Cache_Props.thy ===== *)
theory Cache_Props
  imports Conn_Cache
begin

text \<open>
  The theorems of the connection cache, for callers interleaved in any order: one dial per device, no
  waiter left behind, and a reused connection that belongs to a device the caller asked for and that
  was not refused.
\<close>

subsection \<open>The map\<close>

lemma claim_live_Cons:
  assumes "claim_live conns m (p # ps) = (r, m')"
  obtains (found) c where "m p = Some (SlotLive c)" "r = Some (p, c)" "m' = m"
  | (stale) c where "m p = Some (SlotLive c)" "claim_live conns (m(p := None)) ps = (r, m')"
  | (other) "\<forall>c. m p \<noteq> Some (SlotLive c)" "claim_live conns m ps = (r, m')"
proof (cases "\<exists>c. m p = Some (SlotLive c)")
  case True
  then obtain c where c: "m p = Some (SlotLive c)" by blast
  show thesis
  proof (cases "open_handle conns c")
    case True
    with assms c have "r = Some (p, c)" "m' = m" by simp_all
    with c show thesis by (rule found)
  next
    case False
    with assms c have "claim_live conns (m(p := None)) ps = (r, m')" by simp
    with c show thesis by (rule stale)
  qed
next
  case False
  with assms have "claim_live conns m ps = (r, m')" by (simp split: option.splits slot.splits)
  with False show thesis by (intro other) auto
qed

lemma claim_live_slots:
  "claim_live conns m ps = (r, m') \<Longrightarrow> m' q = m q \<or> (m' q = None \<and> (\<exists>c. m q = Some (SlotLive c)))"
proof (induction ps arbitrary: m)
  case (Cons p ps)
  from Cons.prems show ?case
  proof (cases rule: claim_live_Cons)
    case (stale c)
    with Cons.IH [OF stale(2)] show ?thesis by (cases "q = p") auto
  qed (use Cons.IH in auto)
qed simp

lemma claim_live_found:
  "claim_live conns m ps = (Some (p, c), m') \<Longrightarrow> p \<in> set ps \<and> m' p = Some (SlotLive c)"
proof (induction ps arbitrary: m)
  case (Cons p' ps)
  from Cons.prems show ?case by (cases rule: claim_live_Cons) (use Cons.IH in auto)
qed simp

lemma claim_live_none:
  "claim_live conns m ps = (None, m') \<Longrightarrow> q \<in> set ps \<Longrightarrow> m' q \<noteq> Some (SlotLive c)"
proof (induction ps arbitrary: m)
  case (Cons p ps)
  from Cons.prems(1) show ?case
  proof (cases rule: claim_live_Cons)
    case (stale c1)
    with Cons.IH [OF stale(2)] Cons.prems(2) claim_live_slots [OF stale(2), of p] show ?thesis by auto
  next
    case other
    show ?thesis
    proof (cases "q = p")
      case True
      with other(1) claim_live_slots [OF other(2), of p] show ?thesis by (metis option.distinct(1))
    qed (use Cons.IH [OF other(2)] Cons.prems(2) in simp)
  qed simp
qed simp

lemma claim_dialing_Some: "claim_dialing m ps = Some l \<Longrightarrow> \<exists>p \<in> set ps. m p = Some (SlotDialing l)"
  by (induction m ps rule: claim_dialing.induct) (auto split: option.splits slot.splits)

lemma claim_dialing_None: "claim_dialing m ps = None \<Longrightarrow> p \<in> set ps \<Longrightarrow> m p \<noteq> Some (SlotDialing l)"
  by (induction m ps rule: claim_dialing.induct) (auto split: option.splits slot.splits)

lemma claims_lookup [simp]:
  "foldl (\<lambda>m p. m(p \<mapsto> SlotDialing l)) m ps q = (if q \<in> set ps then Some (SlotDialing l) else m q)"
  by (induction ps arbitrary: m) auto

lemma lead_drop_lookup:
  "lead_drop ps m q = (if q \<in> set ps \<and> (\<exists>l. m q = Some (SlotDialing l)) then None else m q)"
  unfolding lead_drop_def
  by (induction ps arbitrary: m) (auto simp: clear_slot_def split: option.splits slot.splits)

lemma lead_settle_lookup:
  "lead_settle r c ps m q = (if q \<in> set ps \<and> q = r then Some (SlotLive c)
     else if q \<in> set ps \<and> (\<exists>l. m q = Some (SlotDialing l)) then None else m q)"
  unfolding lead_settle_def
  by (induction ps arbitrary: m) (auto simp: settle_slot_def split: option.splits slot.splits)

lemma open_on_lookup: "open_on conns p c a m q = m q \<or> (open_on conns p c a m q = None \<and> (\<exists>c. m q = Some (SlotLive c)))"
  by (auto simp: open_on_def split: option.splits slot.splits)

subsection \<open>The invariant\<close>

definition remote_is :: "cache_world \<Rightarrow> nat \<Rightarrow> bytes \<Rightarrow> bool" where
  "remote_is w c p \<longleftrightarrow> map_option cn_remote (cw_conns w c) = Some p"

definition caller_wf :: "cache_world \<Rightarrow> caller \<Rightarrow> bool" where
  "caller_wf w ca \<longleftrightarrow> set (ca_peers ca) \<subseteq> set (ca_targets ca) \<and> (case ca_at ca of
     Claiming \<Rightarrow> ca_dial ca \<and> ca_peers ca \<noteq> []
   | Checking p c \<Rightarrow> ca_dial ca \<and> p \<in> set (ca_peers ca) \<and> remote_is w c p
   | Opening p c \<Rightarrow> ca_dial ca \<and> p \<in> set (ca_peers ca) \<and> remote_is w c p
   | Waiting l \<Rightarrow> ca_dial ca \<and> ca_peers ca \<noteq> [] \<and> cw_leads w l \<noteq> None
   | Leading l \<Rightarrow> ca_peers ca \<noteq> [] \<and> cw_leads w l = Some \<lparr>ll_peers = ca_peers ca, ll_why = None, ll_sender = True\<rparr> \<and>
       (\<forall>p \<in> set (ca_peers ca). cw_slots w p = Some (SlotDialing l))
   | DialingOwn \<Rightarrow> True
   | Ended (Reused c) \<Rightarrow> \<exists>p \<in> set (ca_peers ca). remote_is w c p
   | Ended (Fresh c) \<Rightarrow> \<exists>p \<in> set (ca_targets ca). remote_is w c p
   | Ended (NoSession e) \<Rightarrow> True
   | Panicked \<Rightarrow> False)"

definition cache_wf :: "cache_world \<Rightarrow> bool" where
  "cache_wf w \<longleftrightarrow>
     (\<forall>p l. cw_slots w p = Some (SlotDialing l) \<longrightarrow>
        (\<exists>k ca. cw_callers w k = Some ca \<and> ca_at ca = Leading l \<and> p \<in> set (ca_peers ca))) \<and>
     (\<forall>p c. cw_slots w p = Some (SlotLive c) \<longrightarrow> remote_is w c p) \<and>
     (\<forall>k ca. cw_callers w k = Some ca \<longrightarrow> caller_wf w ca) \<and>
     (\<forall>l ld. cw_leads w l = Some ld \<longrightarrow> \<not> lead_over ld \<longrightarrow> (\<exists>k ca. cw_callers w k = Some ca \<and> ca_at ca = Leading l)) \<and>
     (\<forall>k1 k2 ca1 ca2 l. cw_callers w k1 = Some ca1 \<longrightarrow> ca_at ca1 = Leading l \<longrightarrow>
        cw_callers w k2 = Some ca2 \<longrightarrow> ca_at ca2 = Leading l \<longrightarrow> k1 = k2)"

lemma cache_wfD:
  assumes "cache_wf w"
  shows "cw_slots w p = Some (SlotDialing l) \<Longrightarrow> \<exists>k ca. cw_callers w k = Some ca \<and> ca_at ca = Leading l \<and> p \<in> set (ca_peers ca)"
    and "cw_slots w p = Some (SlotLive c) \<Longrightarrow> remote_is w c p"
    and "cw_callers w k = Some ca \<Longrightarrow> caller_wf w ca"
    and "cw_leads w l = Some ld \<Longrightarrow> \<not> lead_over ld \<Longrightarrow> \<exists>k ca. cw_callers w k = Some ca \<and> ca_at ca = Leading l"
    and "cw_callers w k1 = Some ca1 \<Longrightarrow> ca_at ca1 = Leading l \<Longrightarrow> cw_callers w k2 = Some ca2 \<Longrightarrow> ca_at ca2 = Leading l \<Longrightarrow> k1 = k2"
  using assms unfolding cache_wf_def by blast+

text \<open>One caller moves: what must hold of the caller, and what must not change for the others.\<close>

lemma caller_wf_frame:
  assumes "caller_wf w ca" and "\<And>c p. remote_is w c p \<Longrightarrow> remote_is w' c p" and "\<And>l. cw_leads w l \<noteq> None \<Longrightarrow> cw_leads w' l \<noteq> None"
    and "\<And>l. ca_at ca = Leading l \<Longrightarrow> cw_leads w' l = cw_leads w l \<and> (\<forall>p. cw_slots w p = Some (SlotDialing l) \<longrightarrow> cw_slots w' p = cw_slots w p)"
  shows "caller_wf w' ca"
proof (cases "ca_at ca")
  case (Ended e)
  with assms(1,2) show ?thesis by (cases e) (auto simp: caller_wf_def)
next
  case (Leading l)
  with assms(1) assms(4) [OF Leading] show ?thesis by (simp add: caller_wf_def)
qed (use assms(1-3) in \<open>auto simp: caller_wf_def\<close>)

definition leads_at :: "cache_world \<Rightarrow> nat \<Rightarrow> nat \<Rightarrow> bool" where
  "leads_at w k l \<longleftrightarrow> (\<exists>ca. cw_callers w k = Some ca \<and> ca_at ca = Leading l)"

lemma caller_moves:
  assumes wf: "cache_wf w" and cs: "cw_callers w1 = cw_callers w" and own: "caller_wf w1 ca'"
    and remote: "\<And>c p. remote_is w c p \<Longrightarrow> remote_is w1 c p"
    and dialing: "\<And>p l. cw_slots w1 p = Some (SlotDialing l) \<Longrightarrow>
      (cw_slots w p = Some (SlotDialing l) \<and> \<not> leads_at w k l) \<or> (ca_at ca' = Leading l \<and> p \<in> set (ca_peers ca'))"
    and live: "\<And>p c. cw_slots w1 p = Some (SlotLive c) \<Longrightarrow> cw_slots w p = Some (SlotLive c) \<or> remote_is w1 c p"
    and leads: "\<And>l. cw_leads w l \<noteq> None \<Longrightarrow> cw_leads w1 l \<noteq> None"
    and flight: "\<And>l ld. cw_leads w1 l = Some ld \<Longrightarrow> \<not> lead_over ld \<Longrightarrow> (cw_leads w l = Some ld \<and> \<not> leads_at w k l) \<or> ca_at ca' = Leading l"
    and others: "\<And>k' l. k' \<noteq> k \<Longrightarrow> leads_at w k' l \<Longrightarrow>
      cw_leads w1 l = cw_leads w l \<and> (\<forall>p. cw_slots w p = Some (SlotDialing l) \<longrightarrow> cw_slots w1 p = cw_slots w p)"
    and new: "\<And>l k'. ca_at ca' = Leading l \<Longrightarrow> k' \<noteq> k \<Longrightarrow> \<not> leads_at w k' l"
  shows "cache_wf (set_caller k ca' w1)"
  unfolding cache_wf_def
proof (intro conjI allI impI)
  let ?w = "set_caller k ca' w1"
  have sel [simp]: "cw_slots ?w = cw_slots w1" "cw_leads ?w = cw_leads w1" "cw_conns ?w = cw_conns w1"
    "cw_callers ?w = (cw_callers w)(k \<mapsto> ca')" by (simp_all add: set_caller_def cs)
  have rem [simp]: "remote_is ?w = remote_is w1" by (simp add: remote_is_def fun_eq_iff)
  have same: "caller_wf w1 ca \<Longrightarrow> caller_wf ?w ca" for ca by (erule caller_wf_frame) auto
  show "\<exists>k' ca. cw_callers ?w k' = Some ca \<and> ca_at ca = Leading l \<and> p \<in> set (ca_peers ca)"
    if s: "cw_slots ?w p = Some (SlotDialing l)" for p l
  proof (cases "ca_at ca' = Leading l \<and> p \<in> set (ca_peers ca')")
    case False
    with dialing s have "cw_slots w p = Some (SlotDialing l)" "\<not> leads_at w k l" by auto
    with cache_wfD(1) [OF wf] obtain k' ca where "cw_callers w k' = Some ca" "ca_at ca = Leading l" "p \<in> set (ca_peers ca)" by blast
    moreover with \<open>\<not> leads_at w k l\<close> have "k' \<noteq> k" by (auto simp: leads_at_def)
    ultimately show ?thesis by auto
  qed auto
  show "remote_is ?w c p" if "cw_slots ?w p = Some (SlotLive c)" for p c
    using that live [of p c] cache_wfD(2) [OF wf, of p c] remote [of c p] by auto
  show "caller_wf ?w ca" if c: "cw_callers ?w k' = Some ca" for k' ca
  proof (cases "k' = k")
    case True
    with c own same show ?thesis by simp
  next
    case False
    with c have k: "cw_callers w k' = Some ca" by simp
    have "caller_wf w1 ca"
      by (rule caller_wf_frame [OF cache_wfD(3) [OF wf k] remote leads]) (use others [OF False] k in \<open>auto simp: leads_at_def\<close>)
    then show ?thesis by (rule same)
  qed
  show "\<exists>k' ca. cw_callers ?w k' = Some ca \<and> ca_at ca = Leading l" if "cw_leads ?w l = Some ld" "\<not> lead_over ld" for l ld
  proof (cases "ca_at ca' = Leading l")
    case False
    with flight that have "cw_leads w l = Some ld" "\<not> leads_at w k l" by auto
    with cache_wfD(4) [OF wf _ that(2)] obtain k' ca where "cw_callers w k' = Some ca" "ca_at ca = Leading l" by blast
    moreover with \<open>\<not> leads_at w k l\<close> have "k' \<noteq> k" by (auto simp: leads_at_def)
    ultimately show ?thesis by auto
  qed auto
  show "k1 = k2" if "cw_callers ?w k1 = Some ca1" "ca_at ca1 = Leading l" "cw_callers ?w k2 = Some ca2" "ca_at ca2 = Leading l" for k1 k2 ca1 ca2 l
    using that new [of l] cache_wfD(5) [OF wf] by (auto simp: leads_at_def split: if_splits)
qed

text \<open>A caller that neither led nor leads; the map only loses live handles.\<close>

definition prunes :: "slots \<Rightarrow> slots \<Rightarrow> bool" where
  "prunes m m' \<longleftrightarrow> (\<forall>q. m' q = m q \<or> (m' q = None \<and> (\<exists>c. m q = Some (SlotLive c))))"

lemma prunesD: "prunes m m' \<Longrightarrow> m' q = Some s \<Longrightarrow> m q = Some s" "prunes m m' \<Longrightarrow> m q = Some (SlotDialing l) \<Longrightarrow> m' q = Some (SlotDialing l)"
  unfolding prunes_def by (metis option.distinct(1)) (metis option.inject slot.distinct(1))

lemma prunes_refl [simp]: "prunes m m"
  by (simp add: prunes_def)

lemma caller_rests:
  assumes "cache_wf w" and "\<And>l. \<not> leads_at w k l" and "\<And>l. ca_at ca' \<noteq> Leading l" and "prunes (cw_slots w) m"
    and "\<And>c p. remote_is w c p \<Longrightarrow> remote_is (w\<lparr>cw_conns := conns\<rparr>) c p"
    and "caller_wf (w\<lparr>cw_conns := conns, cw_slots := m\<rparr>) ca'"
  shows "cache_wf (set_caller k ca' (w\<lparr>cw_conns := conns, cw_slots := m\<rparr>))"
proof (rule caller_moves [OF assms(1) _ assms(6)])
  show "remote_is w c p \<Longrightarrow> remote_is (w\<lparr>cw_conns := conns, cw_slots := m\<rparr>) c p" for c p
    using assms(5) [of c p] by (simp add: remote_is_def)
  let ?w1 = "w\<lparr>cw_conns := conns, cw_slots := m\<rparr>"
  show "(cw_slots w p = Some (SlotDialing l) \<and> \<not> leads_at w k l) \<or> (ca_at ca' = Leading l \<and> p \<in> set (ca_peers ca'))"
    if "cw_slots ?w1 p = Some (SlotDialing l)" for p l
    using that prunesD(1) [OF assms(4), of p] assms(2) by simp
  show "cw_slots w p = Some (SlotLive c) \<or> remote_is ?w1 c p" if "cw_slots ?w1 p = Some (SlotLive c)" for p c
    using that prunesD(1) [OF assms(4), of p] by simp
  show "(cw_leads w l = Some ld \<and> \<not> leads_at w k l) \<or> ca_at ca' = Leading l" if "cw_leads ?w1 l = Some ld" for l ld
    using that assms(2) by simp
  show "cw_leads ?w1 l = cw_leads w l \<and> (\<forall>p. cw_slots w p = Some (SlotDialing l) \<longrightarrow> cw_slots ?w1 p = cw_slots w p)" for l
    using prunesD(2) [OF assms(4)] by simp
  show "\<not> leads_at w k' l" if "ca_at ca' = Leading l" for l k' using that assms(3) by blast
qed simp_all

text \<open>A leader whose lead ends: its slots are cleared, the winner's excepted.\<close>

lemma lead_ends:
  assumes wf: "cache_wf w" and k: "cw_callers w k = Some ca" "ca_at ca = Leading l" and ld: "cw_leads w l = Some ld"
    and slots: "\<And>q. m q = (if q \<in> set (ll_peers ld) then (if won = Some q then Some (SlotLive c) else None) else cw_slots w q)"
    and won: "\<And>q. won = Some q \<Longrightarrow> q \<in> set (ll_peers ld) \<Longrightarrow> remote_is (w\<lparr>cw_conns := conns\<rparr>) c q"
    and remote: "\<And>c p. remote_is w c p \<Longrightarrow> remote_is (w\<lparr>cw_conns := conns\<rparr>) c p"
    and e: "caller_wf (w\<lparr>cw_conns := conns\<rparr>) (ca\<lparr>ca_at := Ended e\<rparr>)"
  shows "cache_wf (set_caller k (ca\<lparr>ca_at := Ended e\<rparr>) (end_lead l ld why m (w\<lparr>cw_conns := conns\<rparr>)))"
proof -
  let ?w1 = "end_lead l ld why m (w\<lparr>cw_conns := conns\<rparr>)"
  have sel [simp]: "cw_slots ?w1 = m" "cw_leads ?w1 = (cw_leads w)(l \<mapsto> ld\<lparr>ll_why := why, ll_sender := False\<rparr>)"
    "cw_callers ?w1 = cw_callers w" "remote_is ?w1 = remote_is (w\<lparr>cw_conns := conns\<rparr>)"
    by (simp_all add: end_lead_def remote_is_def fun_eq_iff)
  from cache_wfD(3) [OF wf k(1)] k(2) ld have peers: "ll_peers ld = ca_peers ca" "\<forall>p \<in> set (ca_peers ca). cw_slots w p = Some (SlotDialing l)"
    by (auto simp: caller_wf_def)
  have only: "leads_at w k' l \<Longrightarrow> k' = k" for k' using cache_wfD(5) [OF wf _ _ k] by (auto simp: leads_at_def)
  have mine: "q \<in> set (ca_peers ca)" if "cw_slots w q = Some (SlotDialing l)" for q
    using cache_wfD(1) [OF wf that] k cache_wfD(5) [OF wf _ _ k] by fastforce
  show ?thesis
  proof (rule caller_moves [OF wf])
    show "caller_wf ?w1 (ca\<lparr>ca_at := Ended e\<rparr>)" using e by (cases e) (auto simp: caller_wf_def)
    show "remote_is w c p \<Longrightarrow> remote_is ?w1 c p" for c p using remote by simp
    show "(cw_slots w p = Some (SlotDialing l') \<and> \<not> leads_at w k l') \<or> (ca_at (ca\<lparr>ca_at := Ended e\<rparr>) = Leading l' \<and> p \<in> set (ca_peers (ca\<lparr>ca_at := Ended e\<rparr>)))"
      if "cw_slots ?w1 p = Some (SlotDialing l')" for p l'
    proof -
      from that slots [of p] have s: "cw_slots w p = Some (SlotDialing l')" "p \<notin> set (ll_peers ld)" by (auto split: if_splits)
      with mine [of p] peers(1) have "l' \<noteq> l" by auto
      then show ?thesis using s k by (auto simp: leads_at_def)
    qed
    show "cw_slots w p = Some (SlotLive c') \<or> remote_is ?w1 c' p" if "cw_slots ?w1 p = Some (SlotLive c')" for p c'
      using that slots [of p] won [of p] by (auto split: if_splits)
    show "(cw_leads w l' = Some ld' \<and> \<not> leads_at w k l') \<or> ca_at (ca\<lparr>ca_at := Ended e\<rparr>) = Leading l'"
      if "cw_leads ?w1 l' = Some ld'" "\<not> lead_over ld'" for l' ld'
      using that k by (auto simp: lead_over_def leads_at_def split: if_splits)
    show "cw_leads ?w1 l' = cw_leads w l' \<and> (\<forall>p. cw_slots w p = Some (SlotDialing l') \<longrightarrow> cw_slots ?w1 p = cw_slots w p)"
      if "k' \<noteq> k" "leads_at w k' l'" for k' l'
    proof -
      from that only have "l' \<noteq> l" by auto
      then show ?thesis using slots peers by auto
    qed
  qed auto
qed

lemma leader_slots:
  assumes "cache_wf w" and "cw_callers w k = Some ca" "ca_at ca = Leading l" and "cw_leads w l = Some ld"
  shows "ld = \<lparr>ll_peers = ca_peers ca, ll_why = None, ll_sender = True\<rparr>" and "ca_peers ca \<noteq> []"
    and "set (ca_peers ca) \<subseteq> set (ca_targets ca)" and "\<forall>p \<in> set (ll_peers ld). cw_slots w p = Some (SlotDialing l)"
  using cache_wfD(3) [OF assms(1,2)] assms(3,4) by (auto simp: caller_wf_def)

lemma wf_lead_dropped:
  assumes "cache_wf w" and "cw_callers w k = Some ca" "ca_at ca = Leading l" and "cw_leads w l = Some ld"
  shows "cache_wf (set_caller k (ca\<lparr>ca_at := Ended (NoSession e)\<rparr>) (end_lead l ld why (lead_drop (ll_peers ld) (cw_slots w)) w))"
proof -
  note s = leader_slots [OF assms]
  have "cache_wf (set_caller k (ca\<lparr>ca_at := Ended (NoSession e)\<rparr>)
      (end_lead l ld why (lead_drop (ll_peers ld) (cw_slots w)) (w\<lparr>cw_conns := cw_conns w\<rparr>)))"
    by (rule lead_ends [OF assms, where won = None]) (use s in \<open>auto simp: lead_drop_lookup caller_wf_def\<close>)
  then show ?thesis by simp
qed

lemma wf_gives_up:
  assumes "cache_wf w" and "cw_callers w k = Some ca" and "\<forall>l. ca_at ca \<noteq> Leading l"
  shows "cache_wf (set_caller k (ca\<lparr>ca_at := Ended (NoSession e)\<rparr>) w)"
proof -
  from cache_wfD(3) [OF assms(1,2)] have "set (ca_peers ca) \<subseteq> set (ca_targets ca)" by (simp add: caller_wf_def)
  then have "cache_wf (set_caller k (ca\<lparr>ca_at := Ended (NoSession e)\<rparr>) (w\<lparr>cw_conns := cw_conns w, cw_slots := cw_slots w\<rparr>))"
    by (intro caller_rests [OF assms(1)]) (use assms in \<open>auto simp: leads_at_def caller_wf_def\<close>)
  then show ?thesis by simp
qed

lemma wf_conns:
  assumes "cache_wf w" and "cw_conns w c = Some x" and "cn_remote y = cn_remote x"
  shows "cache_wf (w\<lparr>cw_conns := (cw_conns w)(c \<mapsto> y)\<rparr>)"
proof -
  let ?w = "w\<lparr>cw_conns := (cw_conns w)(c \<mapsto> y)\<rparr>"
  have r: "remote_is ?w = remote_is w" using assms(2,3) by (auto simp: remote_is_def fun_eq_iff)
  have "caller_wf w ca \<Longrightarrow> caller_wf ?w ca" for ca by (erule caller_wf_frame) (auto simp: r)
  with assms(1) show ?thesis by (auto simp: cache_wf_def r)
qed

lemma wf_claims:
  assumes wf: "cache_wf w" and k: "cw_callers w k = Some ca" "ca_at ca = Claiming" and l: "cw_leads w l = None"
  shows "cache_wf (caller_claims k l ca w)"
proof -
  from cache_wfD(3) [OF wf k(1)] k(2) have ca: "set (ca_peers ca) \<subseteq> set (ca_targets ca)" "ca_dial ca" "ca_peers ca \<noteq> []"
    by (simp_all add: caller_wf_def)
  have idle: "\<not> leads_at w k l'" for l' using k by (simp add: leads_at_def)
  obtain found m where live: "claim_live (cw_conns w) (cw_slots w) (ca_peers ca) = (found, m)" by fastforce
  then have m: "prunes (cw_slots w) m" using claim_live_slots by (simp add: prunes_def)
  show ?thesis
  proof (cases found)
    case (Some pc)
    obtain p c where pc: "pc = (p, c)" by (cases pc)
    with live Some have f: "p \<in> set (ca_peers ca)" "m p = Some (SlotLive c)" using claim_live_found by auto
    with prunesD(1) [OF m] cache_wfD(2) [OF wf] have "remote_is w c p" by blast
    with f ca have "caller_wf (w\<lparr>cw_conns := cw_conns w, cw_slots := m\<rparr>) (ca\<lparr>ca_at := Checking p c\<rparr>)"
      by (auto simp: caller_wf_def remote_is_def)
    then have "cache_wf (set_caller k (ca\<lparr>ca_at := Checking p c\<rparr>) (w\<lparr>cw_conns := cw_conns w, cw_slots := m\<rparr>))"
      by (intro caller_rests [OF wf idle _ m]) auto
    with live Some pc show ?thesis by (simp add: caller_claims_def claim_peers_def)
  next
    case None
    show ?thesis
    proof (cases "claim_dialing m (ca_peers ca)")
      case (Some l')
      from claim_dialing_Some [OF this] prunesD(1) [OF m] obtain p where "cw_slots w p = Some (SlotDialing l')" by blast
      from cache_wfD(1) [OF wf this] cache_wfD(3) [OF wf] have "cw_leads w l' \<noteq> None" by (fastforce simp: caller_wf_def)
      with ca have "caller_wf (w\<lparr>cw_conns := cw_conns w, cw_slots := m\<rparr>) (ca\<lparr>ca_at := Waiting l'\<rparr>)"
        by (simp add: caller_wf_def)
      then have "cache_wf (set_caller k (ca\<lparr>ca_at := Waiting l'\<rparr>) (w\<lparr>cw_conns := cw_conns w, cw_slots := m\<rparr>))"
        by (intro caller_rests [OF wf idle _ m]) auto
      with live None Some show ?thesis by (simp add: caller_claims_def claim_peers_def)
    next
      case n: None
      let ?m = "foldl (\<lambda>m p. m(p \<mapsto> SlotDialing l)) m (ca_peers ca)"
      let ?ca = "ca\<lparr>ca_dial := False, ca_at := Leading l\<rparr>"
      let ?w1 = "w\<lparr>cw_slots := ?m, cw_leads := (cw_leads w)(l \<mapsto> \<lparr>ll_peers = ca_peers ca, ll_why = None, ll_sender = True\<rparr>)\<rparr>"
      have free: "m p = None" if "p \<in> set (ca_peers ca)" for p
        using claim_live_none [OF live [unfolded None] that] claim_dialing_None [OF n that] by (cases "m p"; cases "the (m p)") auto
      have led: "l' \<noteq> l" if "leads_at w k' l'" for k' l'
      proof -
        from that obtain ca' where "cw_callers w k' = Some ca'" "ca_at ca' = Leading l'" by (auto simp: leads_at_def)
        with cache_wfD(3) [OF wf this(1)] l show ?thesis by (auto simp: caller_wf_def)
      qed
      have "cache_wf (set_caller k ?ca ?w1)"
      proof (rule caller_moves [OF wf])
        show "caller_wf ?w1 ?ca" using ca by (simp add: caller_wf_def)
        show "(cw_slots w p = Some (SlotDialing l') \<and> \<not> leads_at w k l') \<or> (ca_at ?ca = Leading l' \<and> p \<in> set (ca_peers ?ca))"
          if "cw_slots ?w1 p = Some (SlotDialing l')" for p l'
          using that prunesD(1) [OF m, of p] idle by (auto split: if_splits)
        show "cw_slots w p = Some (SlotLive c) \<or> remote_is ?w1 c p" if "cw_slots ?w1 p = Some (SlotLive c)" for p c
          using that prunesD(1) [OF m, of p] by (auto split: if_splits)
        show "(cw_leads w l' = Some ld \<and> \<not> leads_at w k l') \<or> ca_at ?ca = Leading l'" if "cw_leads ?w1 l' = Some ld" for l' ld
          using that idle by (auto split: if_splits)
        show "cw_leads ?w1 l' = cw_leads w l' \<and> (\<forall>p. cw_slots w p = Some (SlotDialing l') \<longrightarrow> cw_slots ?w1 p = cw_slots w p)"
          if "leads_at w k' l'" for k' l'
          using led [OF that] prunesD(2) [OF m] free by fastforce
        show "\<not> leads_at w k' l'" if "ca_at ?ca = Leading l'" for l' k' using that led by auto
      qed (auto simp: remote_is_def)
      with live None n ca show ?thesis by (simp add: caller_claims_def claim_peers_def take_dial_def)
    qed
  qed
qed

lemma cache_wf_step:
  assumes "cache_step w lbl w'" and wf: "cache_wf w"
  shows "cache_wf w'"
  using assms(1)
proof (cases rule: cache_step.cases)
  case (Arrive k peers)
  have "cache_wf (set_caller k (session_on peers) (w\<lparr>cw_conns := cw_conns w, cw_slots := cw_slots w\<rparr>))"
    by (rule caller_rests [OF wf]) (use Arrive in \<open>auto simp: leads_at_def session_on_def caller_wf_def\<close>)
  with Arrive show ?thesis by simp
next
  case (Claim k ca l)
  show ?thesis unfolding Claim(2) by (rule wf_claims [OF wf Claim(3-5)])
next
  case (Check k ca p c answer)
  let ?c = "caller_checked p c answer ca"
  from cache_wfD(3) [OF wf Check(3)] Check(4) have ca: "set (ca_peers ca) \<subseteq> set (ca_targets ca)" "ca_dial ca" "p \<in> set (ca_peers ca)" "remote_is w c p"
    by (simp_all add: caller_wf_def)
  then have "caller_wf w ?c" by (auto simp: caller_wf_def caller_checked_def Let_def split: option.split bool.split)
  moreover have "ca_at ?c \<noteq> Leading l" for l by (auto simp: caller_checked_def Let_def split: option.split bool.split)
  ultimately have "cache_wf (set_caller k ?c (w\<lparr>cw_conns := cw_conns w, cw_slots := cw_slots w\<rparr>))"
    by (intro caller_rests [OF wf]) (use Check in \<open>auto simp: leads_at_def\<close>)
  with Check show ?thesis by simp
next
  case (Open k ca p c a)
  let ?c = "caller_opened c a ca"
  let ?m = "open_on (cw_conns w) p c a (cw_slots w)"
  from cache_wfD(3) [OF wf Open(3)] Open(4) have ca: "set (ca_peers ca) \<subseteq> set (ca_targets ca)" "ca_dial ca" "p \<in> set (ca_peers ca)" "remote_is w c p"
    by (simp_all add: caller_wf_def)
  then have "caller_wf (w\<lparr>cw_conns := cw_conns w, cw_slots := ?m\<rparr>) ?c"
    by (auto simp: caller_wf_def caller_opened_def take_dial_def remote_is_def split: stream_answer.split)
  moreover have "ca_at ?c \<noteq> Leading l" for l using ca(2) by (simp add: caller_opened_def take_dial_def split: stream_answer.split)
  moreover have "prunes (cw_slots w) ?m" using open_on_lookup by (simp add: prunes_def)
  ultimately have "cache_wf (set_caller k ?c (w\<lparr>cw_conns := cw_conns w, cw_slots := ?m\<rparr>))"
    by (intro caller_rests [OF wf]) (use Open in \<open>auto simp: leads_at_def\<close>)
  with Open show ?thesis by simp
next
  case (Wake k ca l ld)
  from cache_wfD(3) [OF wf Wake(3)] Wake(4) have "caller_wf w (caller_woken ld ca)"
    by (simp add: caller_wf_def caller_woken_def Let_def)
  then have "cache_wf (set_caller k (caller_woken ld ca) (w\<lparr>cw_conns := cw_conns w, cw_slots := cw_slots w\<rparr>))"
    by (intro caller_rests [OF wf]) (use Wake in \<open>auto simp: leads_at_def caller_woken_def Let_def\<close>)
  with Wake show ?thesis by simp
next
  case (Settle k ca l ld c r)
  let ?conns = "(cw_conns w)(c \<mapsto> \<lparr>cn_remote = r, cn_held = True, cn_closed = False\<rparr>)"
  from leader_slots [OF wf Settle(3-5)] have d: "\<forall>q \<in> set (ll_peers ld). \<exists>l. cw_slots w q = Some (SlotDialing l)" and
    t: "set (ca_peers ca) \<subseteq> set (ca_targets ca)" by auto
  have "cache_wf (set_caller k (ca\<lparr>ca_at := Ended (Fresh c)\<rparr>) (end_lead l ld None (lead_settle r c (ll_peers ld) (cw_slots w)) (w\<lparr>cw_conns := ?conns\<rparr>)))"
    by (rule lead_ends [OF wf Settle(3-5), where won = "Some r" and c = c])
      (use d t Settle in \<open>auto simp: lead_settle_lookup remote_is_def caller_wf_def\<close>)
  then show ?thesis unfolding Settle(2) .
next
  case (Lead_Fail k ca l ld why)
  show ?thesis unfolding Lead_Fail(2) by (rule wf_lead_dropped [OF wf Lead_Fail(3-5)])
next
  case (Own_Dial k ca c r)
  let ?conns = "(cw_conns w)(c \<mapsto> \<lparr>cn_remote = r, cn_held = True, cn_closed = False\<rparr>)"
  from cache_wfD(3) [OF wf Own_Dial(3)] have "set (ca_peers ca) \<subseteq> set (ca_targets ca)" by (simp add: caller_wf_def)
  then have "cache_wf (set_caller k (ca\<lparr>ca_at := Ended (Fresh c)\<rparr>) (w\<lparr>cw_conns := ?conns, cw_slots := cw_slots w\<rparr>))"
    by (intro caller_rests [OF wf]) (use Own_Dial in \<open>auto simp: leads_at_def remote_is_def caller_wf_def\<close>)
  with Own_Dial show ?thesis by simp
next
  case (Own_Fail k ca why)
  then show ?thesis using wf_gives_up [OF wf] by auto
next
  case (Time_Out_Leading k ca l ld)
  show ?thesis unfolding Time_Out_Leading(2) by (rule wf_lead_dropped [OF wf Time_Out_Leading(3-5)])
next
  case (Time_Out k ca)
  then show ?thesis using wf_gives_up [OF wf] by auto
next
  case (Close c x)
  then show ?thesis using wf_conns [OF wf, of c x "x\<lparr>cn_closed := True\<rparr>"] by simp
next
  case (Release c x)
  then show ?thesis using wf_conns [OF wf, of c x "x\<lparr>cn_held := False\<rparr>"] by simp
qed

lemma cache_wf_start: "cache_wf empty_cache"
  by (simp add: cache_wf_def empty_cache_def)

lemma cache_wf_run: "run cache_step empty_cache ls w \<Longrightarrow> cache_wf w"
  by (erule run_invariant [where P = cache_wf, OF _ cache_wf_start]) (rule cache_wf_step)

subsection \<open>One dial per device\<close>

text \<open>
  C17. One dial per device. Whatever the interleaving of callers, of dials that succeed, fail or are
  cancelled and of connections that close, two callers dialling at the same time lead for disjoint
  sets of devices; a device marked as dialling is one some caller is dialling for; a cached handle
  names a connection to the device it is cached under; and no caller is asked to dial twice.
\<close>
theorem one_dial_per_device:
  assumes "run cache_step empty_cache ls w"
  shows "(\<forall>k1 k2 ca1 ca2 l1 l2. cw_callers w k1 = Some ca1 \<longrightarrow> ca_at ca1 = Leading l1 \<longrightarrow>
        cw_callers w k2 = Some ca2 \<longrightarrow> ca_at ca2 = Leading l2 \<longrightarrow> k1 \<noteq> k2 \<longrightarrow> set (ca_peers ca1) \<inter> set (ca_peers ca2) = {}) \<and>
     (\<forall>p l. cw_slots w p = Some (SlotDialing l) \<longrightarrow>
        (\<exists>k ca. cw_callers w k = Some ca \<and> ca_at ca = Leading l \<and> p \<in> set (ca_peers ca))) \<and>
     (\<forall>p c. cw_slots w p = Some (SlotLive c) \<longrightarrow> map_option cn_remote (cw_conns w c) = Some p) \<and>
     (\<forall>k ca. cw_callers w k = Some ca \<longrightarrow> ca_at ca \<noteq> Panicked)"
proof (intro conjI allI impI)
  note wf = cache_wf_run [OF assms]
  show "set (ca_peers ca1) \<inter> set (ca_peers ca2) = {}" if "cw_callers w k1 = Some ca1" "ca_at ca1 = Leading l1"
    "cw_callers w k2 = Some ca2" "ca_at ca2 = Leading l2" "k1 \<noteq> k2" for k1 k2 ca1 ca2 l1 l2
  proof -
    have "l1 \<noteq> l2" using cache_wfD(5) [OF wf that(1,2,3)] that(4,5) by auto
    moreover have "\<forall>p \<in> set (ca_peers ca1). cw_slots w p = Some (SlotDialing l1)" "\<forall>p \<in> set (ca_peers ca2). cw_slots w p = Some (SlotDialing l2)"
      using cache_wfD(3) [OF wf that(1)] cache_wfD(3) [OF wf that(3)] that(2,4) by (auto simp: caller_wf_def)
    ultimately show ?thesis by fastforce
  qed
  show "\<exists>k ca. cw_callers w k = Some ca \<and> ca_at ca = Leading l \<and> p \<in> set (ca_peers ca)" if "cw_slots w p = Some (SlotDialing l)" for p l
    by (rule cache_wfD(1) [OF wf that])
  show "map_option cn_remote (cw_conns w c) = Some p" if "cw_slots w p = Some (SlotLive c)" for p c
    using cache_wfD(2) [OF wf that] by (simp add: remote_is_def)
  show "ca_at ca \<noteq> Panicked" if "cw_callers w k = Some ca" for k ca
    using cache_wfD(3) [OF wf that] by (auto simp: caller_wf_def)
qed

subsection \<open>No waiter is left behind\<close>

lemma woken_when_over:
  assumes "cw_callers w k = Some ca" "ca_at ca = Waiting l" "cw_leads w l = Some ld" "lead_over ld"
  shows "\<exists>w'. cache_step w (Wakes k) w'"
  using Wake [OF assms] by blast

lemma lead_steps_end_the_lead:
  assumes "cache_step w lbl w'" and "cw_callers w j = Some cj" "ca_at cj = Leading l" "cw_leads w l = Some ld"
    and "lbl = TimesOut j \<or> (\<exists>why. lbl = LeadFails j why) \<or> (\<exists>c r. lbl = Settles j c r)"
    and "k \<noteq> j"
  shows "cw_callers w' k = cw_callers w k \<and> (\<exists>ld'. cw_leads w' l = Some ld' \<and> lead_over ld')"
  using assms by (cases rule: cache_step.cases) (auto simp: set_caller_def end_lead_def lead_over_def)

text \<open>
  C18. No waiter is left behind. A caller waiting on another's dial can be woken, or the dial it waits
  on is led by a different caller, whose dial may still fail; and however that dial ends, by success,
  failure, deadline or cancellation, the waiter can then be woken.
\<close>
theorem no_waiter_is_stranded:
  assumes "run cache_step empty_cache ls w" and "cw_callers w k = Some ca" and "ca_at ca = Waiting l"
  shows "(\<exists>w'. cache_step w (Wakes k) w') \<or>
     (\<exists>j cj. j \<noteq> k \<and> cw_callers w j = Some cj \<and> ca_at cj = Leading l \<and>
        (\<forall>why. \<exists>w'. cache_step w (LeadFails j why) w') \<and>
        (\<forall>lbl w'. cache_step w lbl w' \<longrightarrow> lbl = TimesOut j \<or> (\<exists>why. lbl = LeadFails j why) \<or> (\<exists>c r. lbl = Settles j c r) \<longrightarrow>
           (\<exists>w''. cache_step w' (Wakes k) w'')))"
proof -
  note wf = cache_wf_run [OF assms(1)]
  from cache_wfD(3) [OF wf assms(2)] assms(3) obtain ld where ld: "cw_leads w l = Some ld" by (auto simp: caller_wf_def)
  show ?thesis
  proof (cases "lead_over ld")
    case True
    with woken_when_over [OF assms(2,3) ld] show ?thesis by blast
  next
    case False
    from cache_wfD(4) [OF wf ld this] obtain j cj where j: "cw_callers w j = Some cj" "ca_at cj = Leading l" by blast
    with assms(2,3) have "k \<noteq> j" by auto
    moreover have "\<exists>w''. cache_step w' (Wakes k) w''"
      if s: "cache_step w lbl w'" "lbl = TimesOut j \<or> (\<exists>why. lbl = LeadFails j why) \<or> (\<exists>c r. lbl = Settles j c r)" for lbl w'
      using lead_steps_end_the_lead [OF s(1) j ld s(2) \<open>k \<noteq> j\<close>] woken_when_over [of w' k ca l] assms(2,3) by auto
    moreover have "\<exists>w'. cache_step w (LeadFails j why) w'" for why using Lead_Fail [OF j ld] by blast
    ultimately have "j \<noteq> k \<and> cw_callers w j = Some cj \<and> ca_at cj = Leading l \<and>
        (\<forall>why. \<exists>w'. cache_step w (LeadFails j why) w') \<and>
        (\<forall>lbl w'. cache_step w lbl w' \<longrightarrow> lbl = TimesOut j \<or> (\<exists>why. lbl = LeadFails j why) \<or> (\<exists>c r. lbl = Settles j c r) \<longrightarrow>
           (\<exists>w''. cache_step w' (Wakes k) w''))" using j by simp
    then show ?thesis by (intro disjI2 exI)
  qed
qed

subsection \<open>Reuse\<close>

text \<open>What the labels say of each caller.\<close>

definition seen_ok :: "cache_label list \<Rightarrow> cache_world \<Rightarrow> nat \<Rightarrow> caller \<Rightarrow> bool" where
  "seen_ok ls w k ca \<longleftrightarrow>
     (\<forall>p. Checks k p (Some True) \<in> set ls \<longrightarrow> p \<notin> set (ca_peers ca)) \<and>
     (\<forall>p c. ca_at ca = Opening p c \<longrightarrow> Checks k p (Some False) \<in> set ls) \<and>
     (\<forall>c. ca_at ca = Ended (Reused c) \<longrightarrow> (\<exists>p \<in> set (ca_peers ca). remote_is w c p \<and> Checks k p (Some False) \<in> set ls))"

definition checked_inv :: "cache_label list \<Rightarrow> cache_world \<Rightarrow> bool" where
  "checked_inv ls w \<longleftrightarrow>
     (\<forall>k. cw_callers w k = None \<longrightarrow> (\<forall>p a. Checks k p a \<notin> set ls)) \<and> (\<forall>k ca. cw_callers w k = Some ca \<longrightarrow> seen_ok ls w k ca)"

lemma step_remote: "cache_step w lbl w' \<Longrightarrow> remote_is w c p \<Longrightarrow> remote_is w' c p"
  by (induction rule: cache_step.induct)
     (auto simp: remote_is_def set_caller_def end_lead_def caller_claims_def split: prod.split claim_result.split)

lemma checked_moves:
  assumes "checked_inv ls w" and "\<And>c p. remote_is w c p \<Longrightarrow> remote_is w' c p" and "cw_callers w' = (cw_callers w)(k \<mapsto> ca')"
    and "\<And>j p a. lbl = Checks j p a \<Longrightarrow> j = k" and "seen_ok (ls @ [lbl]) w' k ca'"
  shows "checked_inv (ls @ [lbl]) w'"
proof -
  have "seen_ok (ls @ [lbl]) w' j ca" if "seen_ok ls w j ca" "j \<noteq> k" for j ca
    using that assms(2,4) unfolding seen_ok_def by fastforce
  then show ?thesis using assms(1,3-5) by (auto simp: checked_inv_def split: if_splits)
qed

lemma checked_quiet:
  assumes "checked_inv ls w" and "cw_callers w k = Some ca" and "set (ca_peers ca') \<subseteq> set (ca_peers ca)"
    and "\<And>j p a. lbl \<noteq> Checks j p a" and "\<And>p c. ca_at ca' \<noteq> Opening p c" and "\<And>c. ca_at ca' \<noteq> Ended (Reused c)"
  shows "seen_ok (ls @ [lbl]) w' k ca'"
proof -
  from assms(1,2) have "seen_ok ls w k ca" by (simp add: checked_inv_def)
  with assms(3-6) show ?thesis unfolding seen_ok_def by fastforce
qed

lemma claims_caller:
  "\<exists>ca'. cw_callers (caller_claims k l ca w) = (cw_callers w)(k \<mapsto> ca') \<and> ca_peers ca' = ca_peers ca \<and>
     (\<forall>p c. ca_at ca' \<noteq> Opening p c) \<and> (\<forall>e. ca_at ca' \<noteq> Ended e)"
proof -
  obtain r m where "claim_peers (cw_conns w) l (ca_peers ca) (cw_slots w) = (r, m)" by fastforce
  moreover have "(f(k \<mapsto> x) = f(k \<mapsto> y)) = (x = y)" for f and x y :: caller by (auto dest: map_upd_eqD1)
  ultimately show ?thesis by (cases r) (simp_all add: caller_claims_def set_caller_def take_dial_def)
qed

lemma checked_stays:
  assumes "checked_inv ls w" and "\<And>c p. remote_is w c p \<Longrightarrow> remote_is w' c p" and "cw_callers w' = cw_callers w"
    and "\<And>j p a. lbl \<noteq> Checks j p a"
  shows "checked_inv (ls @ [lbl]) w'"
proof -
  have "seen_ok (ls @ [lbl]) w' j ca" if "seen_ok ls w j ca" for j ca
    using that assms(2,4) unfolding seen_ok_def by fastforce
  moreover have "Checks j p a \<in> set (ls @ [lbl]) \<longleftrightarrow> Checks j p a \<in> set ls" for j p a using assms(4) [of j p a] by auto
  ultimately show ?thesis using assms(1,3) by (simp add: checked_inv_def del: set_append)
qed

lemma checked_inv_step:
  assumes "cache_step w lbl w'" and wf: "cache_wf w" and inv: "checked_inv ls w"
  shows "checked_inv (ls @ [lbl]) w'"
  using assms(1)
proof (cases rule: cache_step.cases)
  case (Arrive k peers)
  show ?thesis
    by (rule checked_moves [OF inv step_remote [OF assms(1)], of k])
      (use Arrive inv in \<open>auto simp: set_caller_def checked_inv_def seen_ok_def session_on_def\<close>)
next
  case (Claim k ca l)
  obtain ca' where "cw_callers (caller_claims k l ca w) = (cw_callers w)(k \<mapsto> ca')" "ca_peers ca' = ca_peers ca"
    "\<forall>p c. ca_at ca' \<noteq> Opening p c" "\<forall>e. ca_at ca' \<noteq> Ended e" using claims_caller by meson
  with Claim show ?thesis
    by (intro checked_moves [OF inv step_remote [OF assms(1)], of k ca'] checked_quiet [OF inv Claim(3)]) auto
next
  case (Check k ca p c answer)
  from inv Check(3) have s: "seen_ok ls w k ca" by (simp add: checked_inv_def)
  show ?thesis
    by (rule checked_moves [OF inv step_remote [OF assms(1)], of k])
      (use Check s in \<open>auto simp: set_caller_def seen_ok_def caller_checked_def Let_def split: option.splits bool.splits\<close>)
next
  case (Open k ca p c a)
  from inv Open(3) have s: "seen_ok ls w k ca" by (simp add: checked_inv_def)
  from cache_wfD(3) [OF wf Open(3)] Open(4) have w: "p \<in> set (ca_peers ca)" "remote_is w c p" by (auto simp: caller_wf_def)
  from step_remote [OF assms(1) w(2)] have r: "remote_is w' c p" .
  show ?thesis
    by (rule checked_moves [OF inv step_remote [OF assms(1)], of k])
      (use Open s w r in \<open>auto simp: set_caller_def seen_ok_def caller_opened_def take_dial_def split: stream_answer.splits\<close>)
next
  case (Wake k ca l ld)
  show ?thesis
    by (rule checked_moves [OF inv step_remote [OF assms(1)], of k])
      (use Wake in \<open>auto simp: set_caller_def caller_woken_def Let_def intro!: checked_quiet [OF inv Wake(3)]\<close>)
next
  case (Settle k ca l ld c r)
  show ?thesis
    by (rule checked_moves [OF inv step_remote [OF assms(1)], of k])
      (use Settle in \<open>auto simp: set_caller_def end_lead_def intro!: checked_quiet [OF inv Settle(3)]\<close>)
next
  case (Lead_Fail k ca l ld why)
  show ?thesis
    by (rule checked_moves [OF inv step_remote [OF assms(1)], of k])
      (use Lead_Fail in \<open>auto simp: set_caller_def end_lead_def intro!: checked_quiet [OF inv Lead_Fail(3)]\<close>)
next
  case (Own_Dial k ca c r)
  show ?thesis
    by (rule checked_moves [OF inv step_remote [OF assms(1)], of k])
      (use Own_Dial in \<open>auto simp: set_caller_def intro!: checked_quiet [OF inv Own_Dial(3)]\<close>)
next
  case (Own_Fail k ca why)
  show ?thesis
    by (rule checked_moves [OF inv step_remote [OF assms(1)], of k])
      (use Own_Fail in \<open>auto simp: set_caller_def intro!: checked_quiet [OF inv Own_Fail(3)]\<close>)
next
  case (Time_Out_Leading k ca l ld)
  show ?thesis
    by (rule checked_moves [OF inv step_remote [OF assms(1)], of k])
      (use Time_Out_Leading in \<open>auto simp: set_caller_def end_lead_def intro!: checked_quiet [OF inv Time_Out_Leading(3)]\<close>)
next
  case (Time_Out k ca)
  show ?thesis
    by (rule checked_moves [OF inv step_remote [OF assms(1)], of k])
      (use Time_Out in \<open>auto simp: set_caller_def intro!: checked_quiet [OF inv Time_Out(3)]\<close>)
next
  case (Close c x)
  then show ?thesis by (intro checked_stays [OF inv step_remote [OF assms(1)]]) auto
next
  case (Release c x)
  then show ?thesis by (intro checked_stays [OF inv step_remote [OF assms(1)]]) auto
qed

lemma checked_inv_run: "run cache_step empty_cache ls w \<Longrightarrow> checked_inv ls w"
proof (induction empty_cache ls w rule: run.induct)
  case run_nil
  then show ?case by (simp add: checked_inv_def empty_cache_def)
next
  case (run_snoc ls t l u)
  then show ?case using checked_inv_step cache_wf_run by blast
qed

text \<open>
  C19. A session rides only a connection to a device it asked for, and only after the revocation check
  let that device through at the hand-out: a session that ended on a shared connection named its
  remote among its candidates, saw the check answer that it is not refused, and never saw the check
  refuse it.
\<close>
theorem reuse_needs_a_cleared_device:
  assumes "run cache_step empty_cache ls w" and "cw_callers w k = Some ca" and "ca_at ca = Ended (Reused c)"
  shows "\<exists>p \<in> set (ca_targets ca). map_option cn_remote (cw_conns w c) = Some p \<and>
     Checks k p (Some False) \<in> set ls \<and> Checks k p (Some True) \<notin> set ls"
proof -
  note wf = cache_wf_run [OF assms(1)]
  from checked_inv_run [OF assms(1)] assms(2) have "seen_ok ls w k ca" by (simp add: checked_inv_def)
  with assms(3) obtain p where p: "p \<in> set (ca_peers ca)" "remote_is w c p" "Checks k p (Some False) \<in> set ls"
    "Checks k p (Some True) \<notin> set ls" by (auto simp: seen_ok_def)
  moreover have "set (ca_peers ca) \<subseteq> set (ca_targets ca)" using cache_wfD(3) [OF wf assms(2)] by (simp add: caller_wf_def)
  ultimately show ?thesis by (auto simp: remote_is_def)
qed

subsection \<open>Two sessions on one connection\<close>

text \<open>One caller dials, a second waits on it, is woken and rides the connection.\<close>

definition demo_waiting :: cache_world where
  "demo_waiting = set_caller 1 ((session_on [[1]])\<lparr>ca_at := Waiting 5\<rparr>)
     (caller_claims 0 5 (session_on [[1]]) (set_caller 0 (session_on [[1]]) empty_cache))"

abbreviation demo_waiting_labels :: "cache_label list" where
  "demo_waiting_labels \<equiv> [Arrives 0 [[1]], Claims 0 5, Arrives 1 [[1]], Claims 1 6]"

lemmas cache_eval = caller_claims_def claim_peers_def set_caller_def session_on_def empty_cache_def take_dial_def end_lead_def
  lead_settle_def settle_slot_def open_handle_def upgrade_def

lemma run_then:
  "run cache_step s ls t \<Longrightarrow> cache_step t l u \<Longrightarrow> ks = ls @ [l] \<Longrightarrow> run cache_step s ks u"
  by (simp add: run_snoc)

lemma demo_waiting_run: "run cache_step empty_cache demo_waiting_labels demo_waiting"
proof -
  define one where "one = session_on [[1]]"
  define w1 where "w1 = set_caller 0 one empty_cache"
  define w2 where "w2 = caller_claims 0 5 one w1"
  define w3 where "w3 = set_caller 1 one w2"
  note ev = w1_def w2_def w3_def one_def cache_eval
  have s1: "cache_step empty_cache (Arrives 0 [[1]]) w1" unfolding w1_def one_def by (rule Arrive) (simp_all add: empty_cache_def)
  have s2: "cache_step w1 (Claims 0 5) w2" unfolding w2_def by (rule Claim) (simp_all add: w1_def one_def cache_eval)
  have s3: "cache_step w2 (Arrives 1 [[1]]) w3" unfolding w3_def one_def by (rule Arrive) (simp_all add: ev)
  have s4: "cache_step w3 (Claims 1 6) (caller_claims 1 6 one w3)" by (rule Claim) (simp_all add: ev)
  have "caller_claims 1 6 one w3 = demo_waiting" by (simp add: demo_waiting_def ev)
  with s4 have s5: "cache_step w3 (Claims 1 6) demo_waiting" by simp
  have r: "run cache_step empty_cache [] empty_cache" by (rule run_nil)
  from run_then [OF run_then [OF run_then [OF run_then [OF r s1 refl] s2 refl] s3 refl] s5 refl] show ?thesis by simp
qed

definition demo_riding :: cache_world where
  "demo_riding = (let ld = \<lparr>ll_peers = [[1]], ll_why = None, ll_sender = True\<rparr>; one = session_on [[1]] in
     set_caller 1 (one\<lparr>ca_at := Ended (Reused 9)\<rparr>)
       (set_caller 0 (one\<lparr>ca_dial := False, ca_at := Ended (Fresh 9)\<rparr>)
         (end_lead 5 ld None (Map.empty([1] \<mapsto> SlotLive 9))
           (demo_waiting\<lparr>cw_conns := [9 \<mapsto> \<lparr>cn_remote = [1], cn_held = True, cn_closed = False\<rparr>]\<rparr>))))"

abbreviation demo_riding_labels :: "cache_label list" where
  "demo_riding_labels \<equiv> demo_waiting_labels @ [Settles 0 9 [1], Wakes 1, Claims 1 6, Checks 1 [1] (Some False), Opens 1 [1] StreamOpen]"

lemma demo_riding_run: "run cache_step empty_cache demo_riding_labels demo_riding"
proof -
  define ld where "ld = \<lparr>ll_peers = [[1]], ll_why = None, ll_sender = True\<rparr>"
  define one where "one = session_on [[1]]"
  define ca where "ca = one\<lparr>ca_dial := False, ca_at := Leading 5\<rparr>"
  define w1 where "w1 = set_caller 0 (ca\<lparr>ca_at := Ended (Fresh 9)\<rparr>)
    (end_lead 5 ld None (lead_settle [1] 9 (ll_peers ld) (cw_slots demo_waiting))
      (demo_waiting\<lparr>cw_conns := (cw_conns demo_waiting)(9 \<mapsto> \<lparr>cn_remote = [1], cn_held = True, cn_closed = False\<rparr>)\<rparr>))"
  define w2 where "w2 = set_caller 1 one w1"
  define w3 where "w3 = set_caller 1 (one\<lparr>ca_at := Checking [1] 9\<rparr>) w2"
  define w4 where "w4 = set_caller 1 (one\<lparr>ca_at := Opening [1] 9\<rparr>) w3"
  note ev = demo_waiting_def ld_def one_def ca_def w1_def w2_def w3_def w4_def cache_eval
  have s1: "cache_step demo_waiting (Settles 0 9 [1]) w1" unfolding w1_def
    by (rule Settle) (simp_all add: demo_waiting_def ld_def one_def ca_def cache_eval)
  have "cache_step w1 (Wakes 1) (set_caller 1 (caller_woken (ld\<lparr>ll_sender := False\<rparr>) (one\<lparr>ca_at := Waiting 5\<rparr>)) w1)"
    by (rule Wake) (simp_all add: lead_over_def ev)
  moreover have "caller_woken (ld\<lparr>ll_sender := False\<rparr>) (one\<lparr>ca_at := Waiting 5\<rparr>) = one"
    by (simp add: caller_woken_def session_on_def ld_def one_def)
  ultimately have s2: "cache_step w1 (Wakes 1) w2" by (simp add: w2_def)
  have "cache_step w2 (Claims 1 6) (caller_claims 1 6 one w2)" by (rule Claim) (simp_all add: ev)
  moreover have "caller_claims 1 6 one w2 = w3" by (simp add: ev)
  ultimately have s3: "cache_step w2 (Claims 1 6) w3" by simp
  have "cache_step w3 (Checks 1 [1] (Some False)) (set_caller 1 (caller_checked [1] 9 (Some False) (one\<lparr>ca_at := Checking [1] 9\<rparr>)) w3)"
    by (rule Check) (simp_all add: w3_def set_caller_def)
  then have s4: "cache_step w3 (Checks 1 [1] (Some False)) w4" by (simp add: caller_checked_def w4_def)
  let ?w5 = "set_caller 1 (caller_opened 9 StreamOpen (one\<lparr>ca_at := Opening [1] 9\<rparr>)) (w4\<lparr>cw_slots := open_on (cw_conns w4) [1] 9 StreamOpen (cw_slots w4)\<rparr>)"
  have "cache_step w4 (Opens 1 [1] StreamOpen) ?w5" by (rule Open) (simp_all add: w4_def set_caller_def)
  moreover have "?w5 = demo_riding" by (simp add: demo_riding_def caller_opened_def open_on_def Let_def ev)
  ultimately have s5: "cache_step w4 (Opens 1 [1] StreamOpen) demo_riding" by simp
  from run_then [OF run_then [OF run_then [OF run_then [OF run_then [OF demo_waiting_run s1 refl] s2 refl] s3 refl] s4 refl] s5 refl]
  show ?thesis by simp
qed

theorem one_dial_per_device_witness:
  "map_option cn_remote (cw_conns demo_riding 9) = Some [1] \<and> cw_slots demo_riding [1] = Some (SlotLive 9)"
proof -
  have "cw_slots demo_riding [1] = Some (SlotLive 9)" by (simp add: demo_riding_def set_caller_def end_lead_def Let_def)
  with one_dial_per_device [OF demo_riding_run] show ?thesis by blast
qed

theorem no_waiter_is_stranded_witness:
  "\<exists>ca. cw_callers demo_waiting 1 = Some ca \<and> ca_at ca = Waiting 5 \<and> (\<exists>w'. cache_step demo_waiting (LeadFails 0 ''refused'') w' \<and> (\<exists>w''. cache_step w' (Wakes 1) w''))"
proof -
  let ?ca = "(session_on [[1]])\<lparr>ca_at := Waiting 5\<rparr>"
  have k: "cw_callers demo_waiting 1 = Some ?ca" "ca_at ?ca = Waiting 5" by (simp_all add: demo_waiting_def set_caller_def)
  have "\<not> (\<exists>w'. cache_step demo_waiting (Wakes 1) w')"
    by (auto elim!: cache_step.cases simp: demo_waiting_def cache_eval lead_over_def)
  with no_waiter_is_stranded [OF demo_waiting_run k] obtain j cj where j: "j \<noteq> 1" "cw_callers demo_waiting j = Some cj" and
    f: "\<forall>why. \<exists>w'. cache_step demo_waiting (LeadFails j why) w'"
    and e: "\<forall>lbl w'. cache_step demo_waiting lbl w' \<longrightarrow> lbl = TimesOut j \<or> (\<exists>why. lbl = LeadFails j why) \<or> (\<exists>c r. lbl = Settles j c r) \<longrightarrow>
           (\<exists>w''. cache_step w' (Wakes 1) w'')" by blast
  from j have "j = 0" by (simp add: demo_waiting_def cache_eval split: if_splits)
  with f e k show ?thesis by blast
qed

theorem reuse_needs_a_cleared_device_witness:
  "map_option cn_remote (cw_conns demo_riding 9) = Some [1] \<and>
   (\<exists>ca. cw_callers demo_riding 1 = Some ca \<and> ca_at ca = Ended (Reused 9) \<and> ca_targets ca = [[1]])"
proof -
  let ?ca = "(session_on [[1]])\<lparr>ca_at := Ended (Reused 9)\<rparr>"
  have k: "cw_callers demo_riding 1 = Some ?ca" "ca_at ?ca = Ended (Reused 9)" "ca_targets ?ca = [[1]]"
    by (simp_all add: demo_riding_def set_caller_def session_on_def Let_def)
  with reuse_needs_a_cleared_device [OF demo_riding_run k(1,2)] show ?thesis by auto
qed

end
