(* ===== verification/Paths.thy ===== *)
theory Paths
  imports Dial_Addr
begin

text \<open>
  Which path a connection uses (\<open>node/src/daemon/reach.rs\<close>): the structural reading of a connection's
  open paths, the settle window of a probe, and the measurement of where application frames went,
  window by window. A connection's path list, counters and events are arguments; \<open>url\<close> renders a relay
  URL, and a path id is a number.
\<close>

datatype peer_path = PathDirect | PathRelay "string option" | PathUnknown

type_synonym path_id = nat

subsection \<open>Relay URLs\<close>

text \<open>A parsed relay URL: its scheme, host and port, beside userinfo, path and query.\<close>

record relay_url =
  ru_scheme :: string
  ru_host :: "string option"
  ru_port :: "16 word option"
  ru_userinfo :: string
  ru_rest :: string

definition sanitize_relay_url :: "relay_url \<Rightarrow> string" where
  "sanitize_relay_url u = (case (ru_host u, ru_port u) of
     (Some host, Some port) \<Rightarrow> ru_scheme u @ ''://'' @ host @ '':'' @ show_nat (unat port)
   | (Some host, None) \<Rightarrow> ru_scheme u @ ''://'' @ host
   | (None, _) \<Rightarrow> ru_scheme u)"

definition normalize_relay_url :: "(string \<Rightarrow> relay_url option) \<Rightarrow> string \<Rightarrow> string option" where
  "normalize_relay_url parse raw = map_option sanitize_relay_url (parse raw)"

subsection \<open>The structural reading\<close>

definition path_kind :: "(string \<Rightarrow> string) \<Rightarrow> transport_addr \<Rightarrow> peer_path" where
  "path_kind url a = (case a of
     Relay u \<Rightarrow> PathRelay (Some (url u))
   | Ip _ _ \<Rightarrow> PathDirect
   | _ \<Rightarrow> PathUnknown)"

fun classify_paths_from :: "nat \<Rightarrow> peer_path option \<Rightarrow> (peer_path \<times> bool) list \<Rightarrow> peer_path" where
  "classify_paths_from n only [] = (case (n, only) of (Suc 0, Some kind) \<Rightarrow> kind | _ \<Rightarrow> PathUnknown)"
| "classify_paths_from n only ((kind, selected) # ps) =
     (if selected then kind else classify_paths_from (n + 1) (Some kind) ps)"

definition classify_paths :: "(peer_path \<times> bool) list \<Rightarrow> peer_path" where
  "classify_paths ps = classify_paths_from 0 None ps"

definition selected_path :: "(string \<Rightarrow> string) \<Rightarrow> (transport_addr \<times> bool) list \<Rightarrow> peer_path" where
  "selected_path url ps = classify_paths (map (\<lambda>(a, s). (path_kind url a, s)) ps)"

text \<open>
  The settle window: readings until one is direct or the deadline has passed, the first reading
  whatever the window. A reading comes with whether the deadline has passed when it is taken.
\<close>

fun settle :: "(peer_path \<times> bool) list \<Rightarrow> peer_path option" where
  "settle [] = None"
| "settle ((path, late) # rs) = (if path = PathDirect \<or> late then Some path else settle rs)"

subsection \<open>One measurement window\<close>

text \<open>Application frames (streams and datagrams, both ways).\<close>

record path_stats =
  ps_tx_stream :: u64
  ps_tx_datagram :: u64
  ps_rx_stream :: u64
  ps_rx_datagram :: u64

definition app_frames :: "path_stats \<Rightarrow> u64" where
  "app_frames s = ps_tx_stream s + ps_tx_datagram s + ps_rx_stream s + ps_rx_datagram s"

definition since :: "u64 \<Rightarrow> u64 \<Rightarrow> u64" where
  "since now before = (if now \<le> before then 0 else now - before)"

type_synonym path_sample = "path_id \<times> peer_path \<times> u64"

datatype observed_event =
    PathOpened path_id
  | PathClosed path_id transport_addr path_stats
  | PathSelected
  | EventsLagged
  | EventUnrecognised

datatype window_event =
    Opened path_id
  | Closed path_id peer_path u64
  | Lagged
  | Unrecognised

definition from_observed :: "(string \<Rightarrow> string) \<Rightarrow> observed_event \<Rightarrow> window_event option" where
  "from_observed url e = (case e of
     PathOpened i \<Rightarrow> Some (Opened i)
   | PathClosed i a s \<Rightarrow> Some (Closed i (path_kind url a) (app_frames s))
   | PathSelected \<Rightarrow> None
   | EventsLagged \<Rightarrow> Some Lagged
   | EventUnrecognised \<Rightarrow> Some Unrecognised)"

datatype window_reading = Moved peer_path | Idle peer_path | Unobservable

definition baseline :: "path_sample list \<Rightarrow> path_id \<Rightarrow> u64 option" where
  "baseline before i = map_option snd (map_of before i)"

definition opened_ids :: "window_event list \<Rightarrow> path_id list" where
  "opened_ids events = List.map_filter (\<lambda>e. case e of Opened i \<Rightarrow> Some i | _ \<Rightarrow> None) events"

definition closed_ids :: "window_event list \<Rightarrow> path_id list" where
  "closed_ids events = List.map_filter (\<lambda>e. case e of Closed i _ _ \<Rightarrow> Some i | _ \<Rightarrow> None) events"

text \<open>What the marks record: the first relay that moved, a direct path, an unmodelled one.\<close>

record marks =
  mk_relay :: "peer_path option"
  mk_direct :: bool
  mk_other :: bool

definition mark :: "marks \<Rightarrow> peer_path \<Rightarrow> marks" where
  "mark m kind = (case kind of
     PathRelay _ \<Rightarrow> (if mk_relay m = None then m\<lparr>mk_relay := Some kind\<rparr> else m)
   | PathDirect \<Rightarrow> m\<lparr>mk_direct := True\<rparr>
   | PathUnknown \<Rightarrow> m\<lparr>mk_other := True\<rparr>)"

definition mark_closed :: "path_sample list \<Rightarrow> path_id list \<Rightarrow> marks \<Rightarrow> window_event \<Rightarrow> marks" where
  "mark_closed before opened m e = (case e of
     Closed i kind frames \<Rightarrow>
       (case (case baseline before i of Some base \<Rightarrow> Some base | None \<Rightarrow> if i \<in> set opened then Some 0 else None) of
          None \<Rightarrow> m
        | Some from \<Rightarrow> if since frames from > 0 then mark m kind else m)
   | _ \<Rightarrow> m)"

definition mark_after :: "path_sample list \<Rightarrow> marks \<Rightarrow> path_sample \<Rightarrow> marks" where
  "mark_after before m s = (case s of (i, kind, now) \<Rightarrow>
     if since now (case baseline before i of Some b \<Rightarrow> b | None \<Rightarrow> 0) > 0 then mark m kind else m)"

definition classify_window ::
  "path_sample list \<Rightarrow> path_sample list \<Rightarrow> window_event list \<Rightarrow> peer_path \<Rightarrow> window_reading" where
  "classify_window before after events fallback =
     (let opened = opened_ids events;
          m = foldl (mark_closed before opened) \<lparr>mk_relay = None, mk_direct = False, mk_other = False\<rparr> events;
          closed = closed_ids events;
          untrusted_stream = (Lagged \<in> set events \<or> Unrecognised \<in> set events);
          m = foldl (mark_after before) m after;
          accounted = (\<lambda>i. i \<in> set (map fst after) \<or> i \<in> set closed);
          disappeared = (\<exists>i \<in> set (map fst before @ opened). \<not> accounted i)
      in case mk_relay m of
           Some relay \<Rightarrow> Moved relay
         | None \<Rightarrow>
             if mk_other m \<or> untrusted_stream \<or> disappeared then Unobservable
             else if mk_direct m then Moved PathDirect
             else Idle fallback)"

subsection \<open>What a connection delivers during a window\<close>

record window_source =
  ws_closed_first :: bool
  ws_before :: "path_sample list"
  ws_events :: "observed_event list"
  ws_ended :: bool
  ws_closed_last :: bool
  ws_after :: "path_sample list"
  ws_tail :: "observed_event list"
  ws_tail_ended :: bool
  ws_fallback :: peer_path

definition measure_window :: "(string \<Rightarrow> string) \<Rightarrow> window_source \<Rightarrow> window_reading" where
  "measure_window url s =
     (if ws_closed_first s then Unobservable
      else if ws_ended s then Unobservable
      else if ws_closed_last s then Unobservable
      else if ws_tail_ended s then Unobservable
      else classify_window (ws_before s) (ws_after s)
             (List.map_filter (from_observed url) (ws_events s @ ws_tail s)) (ws_fallback s))"

definition PATH_MEASURE_WINDOWS :: nat where "PATH_MEASURE_WINDOWS = 3"

fun combine_windows :: "nat \<Rightarrow> (nat \<Rightarrow> window_reading) \<Rightarrow> nat \<Rightarrow> peer_path" where
  "combine_windows 0 reading i = PathUnknown"
| "combine_windows (Suc windows) reading i = (case reading i of
     Moved path \<Rightarrow> path
   | Unobservable \<Rightarrow> PathUnknown
   | Idle path \<Rightarrow> if path = PathUnknown then combine_windows windows reading (i + 1) else path)"

definition measured_path :: "(string \<Rightarrow> string) \<Rightarrow> (nat \<Rightarrow> window_source) \<Rightarrow> peer_path" where
  "measured_path url source = combine_windows PATH_MEASURE_WINDOWS (\<lambda>i. measure_window url (source i)) 0"

end
