(* ===== verification/Reach.thy ===== *)
theory Reach
  imports Paths Dial Session
begin

text \<open>
  Reachability (\<open>node/src/daemon/reach.rs\<close>, \<open>node/src/daemon/path_watch.rs\<close>): the cache of probe results,
  its two writers, the probes and the watchers of live sessions, and the transitions pushed to
  subscribers. A row carries the ticket its writer took at its start and the one it took when its
  evidence landed; both come from one counter, which is a natural number here (the \<open>u64\<close> of the code
  wraps after \<open>2 ^ 64\<close> observations). The cache lock makes each commit one step; what a probe or a
  watcher does before and after it is a step of its own, so writers overlap freely and a frame may be
  sent after a later commit.
\<close>

definition REACH_TTL_SECS :: int where "REACH_TTL_SECS = 20"

record reach_entry =
  re_reachable :: bool
  re_rtt :: "u64 option"
  re_probed_at :: int
  re_meta :: string
  re_services :: "string list"
  re_pong_at :: "int option"
  re_seq :: nat
  re_observed :: nat
  re_path :: peer_path

type_synonym reach_cache = "(bytes \<times> reach_entry) list"

definition uncommitted_row :: "int \<Rightarrow> nat \<Rightarrow> reach_entry" where
  "uncommitted_row now seq = \<lparr>re_reachable = False, re_rtt = None, re_probed_at = now, re_meta = [], re_services = [],
     re_pong_at = None, re_seq = seq, re_observed = seq, re_path = PathUnknown\<rparr>"

subsection \<open>What a probe found\<close>

definition pong_services :: "json \<Rightarrow> string list" where
  "pong_services pong = (case jget ''services'' pong of Some (JArr vs) \<Rightarrow> List.map_filter as_str vs | _ \<Rightarrow> [])"

definition pong_meta :: "json \<Rightarrow> string" where
  "pong_meta pong = (case Option.bind (jget ''meta'' pong) as_str of
     Some s \<Rightarrow> if length s \<le> APP_METADATA_MAX_BYTES then s else [] | None \<Rightarrow> [])"

text \<open>
  The exchange, with its time-out: a pong and the round trip stamped at it, a failure, or a refusal by
  the peer's rate limiter. A pong's path is classified after the exchange.
\<close>

datatype exchange_outcome = Ponged json u64 | ExchangeFailed | ExchangeElapsed | ProbeThrottled

definition classify :: "exchange_outcome \<Rightarrow> peer_path \<Rightarrow> bool \<times> string \<times> string list \<times> peer_path \<times> u64 option" where
  "classify outcome settled = (case outcome of
     Ponged pong rtt \<Rightarrow> (True, pong_meta pong, pong_services pong, settled, Some rtt)
   | _ \<Rightarrow> (False, [], [], PathUnknown, None))"

definition probe_entry :: "exchange_outcome \<Rightarrow> peer_path \<Rightarrow> nat \<Rightarrow> nat \<Rightarrow> int \<Rightarrow> reach_entry" where
  "probe_entry outcome settled seq observed now =
     (let (reachable, meta, services, path, rtt) = classify outcome settled
      in \<lparr>re_reachable = reachable, re_rtt = rtt, re_probed_at = now, re_meta = meta, re_services = services,
          re_pong_at = (if reachable then Some now else None), re_seq = seq, re_observed = observed, re_path = path\<rparr>)"

subsection \<open>Committing a probe\<close>

definition supersedes :: "nat \<Rightarrow> reach_entry \<Rightarrow> bool" where
  "supersedes seq existing \<longleftrightarrow> seq \<ge> re_seq existing"

definition contradicted_by :: "reach_entry \<Rightarrow> nat \<Rightarrow> reach_entry \<Rightarrow> bool" where
  "contradicted_by ours seq existing \<longleftrightarrow> \<not> re_reachable ours \<and> re_reachable existing \<and> re_observed existing > seq"

datatype commit_outcome = Committed "reach_entry option" | Superseded reach_entry

definition keep_pong :: "reach_entry \<Rightarrow> reach_entry \<Rightarrow> reach_entry" where
  "keep_pong entry newer =
     (if re_reachable newer \<and> re_pong_at newer = None \<and> re_pong_at entry \<noteq> None
      then newer\<lparr>re_meta := re_meta entry, re_services := re_services entry, re_pong_at := re_pong_at entry\<rparr>
      else newer)"

definition commit_probe :: "bytes \<Rightarrow> reach_entry \<Rightarrow> reach_cache \<Rightarrow> commit_outcome \<times> reach_cache" where
  "commit_probe eid entry cache =
     (let seq = re_seq entry in case map_of cache eid of
        None \<Rightarrow> (Committed None, al_insert eid entry cache)
      | Some e \<Rightarrow>
          if \<not> supersedes seq e then (Superseded (keep_pong entry e), al_insert eid (keep_pong entry e) cache)
          else if contradicted_by entry seq e then (Superseded e, cache)
          else (Committed (Some e), al_insert eid entry cache))"

definition is_transition :: "reach_entry option \<Rightarrow> reach_entry \<Rightarrow> bool" where
  "is_transition previous current = (case previous of
     None \<Rightarrow> re_reachable current
   | Some prev \<Rightarrow> re_reachable prev \<noteq> re_reachable current \<or> re_path prev \<noteq> re_path current)"

record peer_reachability =
  pv_name :: string
  pv_reachable :: bool
  pv_rtt :: "u64 option"
  pv_age :: "int option"
  pv_meta :: string
  pv_principal :: "string option"
  pv_path :: peer_path

definition reachability_row :: "libs \<Rightarrow> string \<Rightarrow> bytes \<Rightarrow> reach_entry option \<Rightarrow> int option \<Rightarrow> peer_reachability" where
  "reachability_row L nickname eid entry age =
     \<lparr>pv_name = nickname,
      pv_reachable = (case entry of Some e \<Rightarrow> re_reachable e | None \<Rightarrow> False),
      pv_rtt = Option.bind entry re_rtt, pv_age = age,
      pv_meta = (case entry of Some e \<Rightarrow> re_meta e | None \<Rightarrow> []),
      pv_principal = Some (principal L eid),
      pv_path = (case entry of Some e \<Rightarrow> re_path e | None \<Rightarrow> PathUnknown)\<rparr>"

definition nickname_of :: "peer_store \<Rightarrow> bytes \<Rightarrow> string option" where
  "nickname_of store eid = (case store_resolve store eid of Inr (Some e) \<Rightarrow> Some (pe_nickname e) | _ \<Rightarrow> None)"

definition stored_row :: "libs \<Rightarrow> peer_store \<Rightarrow> bytes \<Rightarrow> reach_entry \<Rightarrow> peer_reachability option" where
  "stored_row L store eid entry = map_option (\<lambda>n. reachability_row L n eid (Some entry) (Some 0)) (nickname_of store eid)"

datatype reachability_source = ProbeSource | SessionSource

record reach_transition =
  rt_peer :: peer_reachability
  rt_source :: reachability_source

definition transition_frames :: "reachability_source \<Rightarrow> peer_reachability option \<Rightarrow> reach_transition list" where
  "transition_frames src row = (case row of Some p \<Rightarrow> [\<lparr>rt_peer = p, rt_source = src\<rparr>] | None \<Rightarrow> [])"

text \<open>What a commit returns to the prober, and the frames it sends.\<close>

definition after_commit :: "libs \<Rightarrow> peer_store \<Rightarrow> bytes \<Rightarrow> reach_entry \<Rightarrow> commit_outcome \<Rightarrow> reach_entry \<times> reach_transition list" where
  "after_commit L store eid entry outcome = (case outcome of
     Superseded newer \<Rightarrow> (newer, [])
   | Committed previous \<Rightarrow>
       (entry, if is_transition previous entry then transition_frames ProbeSource (stored_row L store eid entry) else []))"

text \<open>A refusal by the peer's limiter: the row already there, else one that is never cached.\<close>

definition throttled_row :: "bytes \<Rightarrow> int \<Rightarrow> nat \<Rightarrow> reach_cache \<Rightarrow> reach_entry" where
  "throttled_row eid now seq cache = (case map_of cache eid of Some e \<Rightarrow> e | None \<Rightarrow> uncommitted_row now seq)"

subsection \<open>The watcher of a live session\<close>

definition decide_path :: "peer_path \<Rightarrow> peer_path option \<Rightarrow> peer_path option" where
  "decide_path observed cached =
     (if observed = PathUnknown then None
      else case cached of
        Some known \<Rightarrow> if known = observed then None else Some observed
      | None \<Rightarrow> Some observed)"

text \<open>The row committed, if any; \<open>ticket\<close> is the commit ticket, drawn only when one is.\<close>

definition commit_observation :: "bytes \<Rightarrow> nat \<Rightarrow> peer_path \<Rightarrow> int \<Rightarrow> nat \<Rightarrow> reach_cache \<Rightarrow> reach_entry option \<times> reach_cache" where
  "commit_observation eid seq observed now ticket cache =
     (let existing = map_of cache eid in
      if (case existing of Some e \<Rightarrow> \<not> supersedes seq e | None \<Rightarrow> False) then (None, cache)
      else case decide_path observed (map_option re_path existing) of
        None \<Rightarrow> (None, cache)
      | Some path \<Rightarrow>
          (let e = (case existing of
               Some entry \<Rightarrow> entry\<lparr>re_path := path, re_seq := seq, re_observed := ticket\<rparr>
             | None \<Rightarrow> \<lparr>re_reachable = True, re_rtt = None, re_probed_at = now, re_meta = [], re_services = [],
                 re_pong_at = None, re_seq = seq, re_observed = ticket, re_path = path\<rparr>)
           in (Some e, al_insert eid e cache)))"

subsection \<open>Reading the cache\<close>

definition fresh_row :: "int \<Rightarrow> bytes \<Rightarrow> reach_cache \<Rightarrow> reach_entry option" where
  "fresh_row now eid cache = Option.bind (map_of cache eid) (\<lambda>e.
     let age = max (i64_sub now (re_probed_at e)) 0;
         has_payload = (\<not> re_reachable e \<or> re_pong_at e \<noteq> None)
     in if age \<le> REACH_TTL_SECS \<and> has_payload then Some e else None)"

fun reachability_rows :: "libs \<Rightarrow> int \<Rightarrow> reach_cache \<Rightarrow> (string \<times> bytes) list \<Rightarrow> bytes list \<times> peer_reachability list" where
  "reachability_rows L now cache [] = ([], [])"
| "reachability_rows L now cache ((nickname, eid) # peers) =
     (let (stale, out) = reachability_rows L now cache peers
      in case map_of cache eid of
        Some e \<Rightarrow>
          (let age = max (i64_sub now (re_probed_at e)) 0
           in (if age > REACH_TTL_SECS then eid # stale else stale, reachability_row L nickname eid (Some e) (Some age) # out))
      | None \<Rightarrow> (eid # stale, reachability_row L nickname eid None None # out))"

definition reachability_of :: "libs \<Rightarrow> int \<Rightarrow> peer_store \<Rightarrow> reach_cache \<Rightarrow> bytes list \<times> peer_reachability list" where
  "reachability_of L now store cache =
     reachability_rows L now cache
       (map (\<lambda>e. (pe_nickname e, pe_endpoint_id e)) (case store_list store of Inr es \<Rightarrow> es | Inl _ \<Rightarrow> []))"

text \<open>The refreshes a read may start: the stale peers no refresh runs for, marked as in flight.\<close>

fun claim_refreshes :: "bytes list \<Rightarrow> bytes list \<Rightarrow> bytes list \<times> bytes list" where
  "claim_refreshes inflight [] = ([], inflight)"
| "claim_refreshes inflight (eid # stale) =
     (if eid \<in> set inflight then claim_refreshes inflight stale
      else (let (claimed, inflight) = claim_refreshes (eid # inflight) stale in (eid # claimed, inflight)))"

definition caller_admitted_services :: "libs \<Rightarrow> live_services \<Rightarrow> peer_identity \<Rightarrow> string list" where
  "caller_admitted_services L live identity =
     sort (map fst (filter (\<lambda>(_, e). caller_admits L identity (se_allow e)) (ls_services live)))"

subsection \<open>Probes and watchers interleaved\<close>

record probe =
  pk_peer :: bytes
  pk_seq :: nat
  pk_entry :: "reach_entry option"

record reach_world =
  rw_ticket :: nat
  rw_cache :: reach_cache
  rw_probes :: "nat \<rightharpoonup> probe"
  rw_watches :: "nat \<rightharpoonup> bytes \<times> nat"
  rw_pending :: "reach_transition list"
  rw_sent :: "reach_transition list"

datatype reach_label =
    ProbeStarts nat bytes
  | ProbeRefused nat
  | ProbeLimited nat
  | ProbeAnswers nat exchange_outcome peer_path int
  | ProbeCommits nat
  | WatchStarts nat bytes
  | WatchRefused nat
  | WatchCommits nat peer_path int
  | Broadcasts nat

text \<open>The store is read when a row is named; here it stays as it is.\<close>

inductive reach_step :: "libs \<Rightarrow> peer_store \<Rightarrow> reach_world \<Rightarrow> reach_label \<Rightarrow> reach_world \<Rightarrow> bool"
  for L :: libs and store :: peer_store where
  Probe_Starts: "rw_probes w k = None \<Longrightarrow>
    reach_step L store w (ProbeStarts k eid)
      (w\<lparr>rw_ticket := rw_ticket w + 1, rw_probes := (rw_probes w)(k \<mapsto> \<lparr>pk_peer = eid, pk_seq = rw_ticket w, pk_entry = None\<rparr>)\<rparr>)"
| Probe_Refused: "rw_probes w k = Some p \<Longrightarrow> pk_entry p = None \<Longrightarrow>
    reach_step L store w (ProbeRefused k) (w\<lparr>rw_probes := (rw_probes w)(k := None)\<rparr>)"
| Probe_Limited: "rw_probes w k = Some p \<Longrightarrow> pk_entry p = None \<Longrightarrow>
    reach_step L store w (ProbeLimited k) (w\<lparr>rw_probes := (rw_probes w)(k := None)\<rparr>)"
| Probe_Answers: "rw_probes w k = Some p \<Longrightarrow> pk_entry p = None \<Longrightarrow> outcome \<noteq> ProbeThrottled \<Longrightarrow>
    reach_step L store w (ProbeAnswers k outcome settled now)
      (w\<lparr>rw_ticket := rw_ticket w + 1,
         rw_probes := (rw_probes w)(k \<mapsto> p\<lparr>pk_entry := Some (probe_entry outcome settled (pk_seq p) (rw_ticket w) now)\<rparr>)\<rparr>)"
| Probe_Commits: "rw_probes w k = Some p \<Longrightarrow> pk_entry p = Some entry \<Longrightarrow> commit_probe (pk_peer p) entry (rw_cache w) = (outcome, cache) \<Longrightarrow>
    reach_step L store w (ProbeCommits k)
      (w\<lparr>rw_cache := cache, rw_probes := (rw_probes w)(k := None),
         rw_pending := rw_pending w @ snd (after_commit L store (pk_peer p) entry outcome)\<rparr>)"
| Watch_Starts: "rw_watches w j = None \<Longrightarrow>
    reach_step L store w (WatchStarts j eid)
      (w\<lparr>rw_ticket := rw_ticket w + 1, rw_watches := (rw_watches w)(j \<mapsto> (eid, rw_ticket w))\<rparr>)"
| Watch_Refused: "rw_watches w j = Some x \<Longrightarrow>
    reach_step L store w (WatchRefused j) (w\<lparr>rw_watches := (rw_watches w)(j := None)\<rparr>)"
| Watch_Commits: "rw_watches w j = Some (eid, seq) \<Longrightarrow> commit_observation eid seq observed now (rw_ticket w) (rw_cache w) = (e, cache) \<Longrightarrow>
    reach_step L store w (WatchCommits j observed now)
      (w\<lparr>rw_ticket := (if e = None then rw_ticket w else rw_ticket w + 1), rw_cache := cache, rw_watches := (rw_watches w)(j := None),
         rw_pending := rw_pending w @ (case e of Some e \<Rightarrow> transition_frames SessionSource (stored_row L store eid e) | None \<Rightarrow> [])\<rparr>)"
| Broadcast: "i < length (rw_pending w) \<Longrightarrow>
    reach_step L store w (Broadcasts i)
      (w\<lparr>rw_sent := rw_sent w @ [rw_pending w ! i], rw_pending := take i (rw_pending w) @ drop (i + 1) (rw_pending w)\<rparr>)"

definition no_reach :: reach_world where
  "no_reach = \<lparr>rw_ticket = 0, rw_cache = [], rw_probes = Map.empty, rw_watches = Map.empty, rw_pending = [], rw_sent = []\<rparr>"

end
