(* ===== verification/Paths_Props.thy ===== *)
theory Paths_Props
  imports Paths
begin

text \<open>
  The theorems of path reading: what a connection said to be direct has shown, and that a relay URL is
  rendered without its credential.
\<close>

subsection \<open>What moved in a window\<close>

definition closed_moved :: "path_sample list \<Rightarrow> path_id list \<Rightarrow> window_event \<Rightarrow> peer_path option" where
  "closed_moved before opened e = (case e of
     Closed i kind frames \<Rightarrow>
       (case (case baseline before i of Some base \<Rightarrow> Some base | None \<Rightarrow> if i \<in> set opened then Some 0 else None) of
          None \<Rightarrow> None
        | Some from \<Rightarrow> if since frames from > 0 then Some kind else None)
   | _ \<Rightarrow> None)"

definition after_moved :: "path_sample list \<Rightarrow> path_sample \<Rightarrow> peer_path option" where
  "after_moved before s = (case s of (i, kind, now) \<Rightarrow>
     if since now (case baseline before i of Some b \<Rightarrow> b | None \<Rightarrow> 0) > 0 then Some kind else None)"

definition moved_kinds :: "path_sample list \<Rightarrow> path_sample list \<Rightarrow> window_event list \<Rightarrow> peer_path list" where
  "moved_kinds before after events =
     List.map_filter (closed_moved before (opened_ids events)) events @ List.map_filter (after_moved before) after"

fun is_relay_path :: "peer_path \<Rightarrow> bool" where
  "is_relay_path (PathRelay _) = True"
| "is_relay_path _ = False"

lemma marks_fold:
  assumes "\<And>m x. f m x = (case g x of None \<Rightarrow> m | Some k \<Rightarrow> mark m k)"
  shows "foldl f m xs = foldl mark m (List.map_filter g xs)"
  by (induction xs arbitrary: m) (simp_all add: assms List.map_filter_simps split: option.split)

lemma marks_read:
  "mk_relay (foldl mark m ks) = (if mk_relay m = None then find is_relay_path ks else mk_relay m)"
  "mk_direct (foldl mark m ks) \<longleftrightarrow> mk_direct m \<or> PathDirect \<in> set ks"
  "mk_other (foldl mark m ks) \<longleftrightarrow> mk_other m \<or> PathUnknown \<in> set ks"
  by (induction ks arbitrary: m) (auto simp: mark_def split: peer_path.split)

text \<open>Nothing of the window is unaccounted for.\<close>

definition window_complete :: "path_sample list \<Rightarrow> path_sample list \<Rightarrow> window_event list \<Rightarrow> bool" where
  "window_complete before after events \<longleftrightarrow> Lagged \<notin> set events \<and> Unrecognised \<notin> set events \<and>
     (\<forall>i \<in> set (map fst before) \<union> set (opened_ids events). i \<in> set (map fst after) \<or> i \<in> set (closed_ids events))"

lemma classify_window_moved:
  "classify_window before after events fallback = (case find is_relay_path (moved_kinds before after events) of
     Some relay \<Rightarrow> Moved relay
   | None \<Rightarrow>
       if PathUnknown \<in> set (moved_kinds before after events) \<or> \<not> window_complete before after events then Unobservable
       else if PathDirect \<in> set (moved_kinds before after events) then Moved PathDirect
       else Idle fallback)"
proof -
  let ?m0 = "\<lparr>mk_relay = None, mk_direct = False, mk_other = False\<rparr>"
  have c: "foldl (mark_closed before (opened_ids events)) ?m0 events =
      foldl mark ?m0 (List.map_filter (closed_moved before (opened_ids events)) events)"
    by (rule marks_fold) (simp add: mark_closed_def closed_moved_def split: window_event.split option.split)
  have a: "foldl (mark_after before) m after = foldl mark m (List.map_filter (after_moved before) after)" for m
    by (rule marks_fold) (simp add: mark_after_def after_moved_def split: prod.split option.split)
  have "foldl (mark_after before) (foldl (mark_closed before (opened_ids events)) ?m0 events) after =
      foldl mark ?m0 (moved_kinds before after events)"
    by (simp only: c a moved_kinds_def foldl_append)
  then show ?thesis
    by (simp add: classify_window_def Let_def marks_read window_complete_def Un_commute)
       (auto split: option.split)
qed

lemma find_None: "find P xs = None \<longleftrightarrow> (\<forall>x \<in> set xs. \<not> P x)"
  by (auto simp: find_None_iff)

lemma no_relay_moved:
  assumes "classify_window before after events fallback = r" and "r = Moved PathDirect \<or> (\<exists>p. r = Idle p)"
  shows "(\<forall>k \<in> set (moved_kinds before after events). k = PathDirect) \<and> window_complete before after events"
proof -
  have "find is_relay_path (moved_kinds before after events) = None"
  proof (cases "find is_relay_path (moved_kinds before after events)")
    case (Some k)
    then have "is_relay_path k" by (auto simp: find_Some_iff)
    with assms Some show ?thesis by (auto simp: classify_window_moved)
  qed
  with assms have n: "\<forall>k \<in> set (moved_kinds before after events). \<not> is_relay_path k"
    and "PathUnknown \<notin> set (moved_kinds before after events)" "window_complete before after events"
    by (auto simp: classify_window_moved find_None split: if_splits)
  moreover from this have "k = PathDirect" if "k \<in> set (moved_kinds before after events)" for k
    using that by (cases k) auto
  ultimately show ?thesis by blast
qed

text \<open>A window was seen through: open at both ends, its event stream not cut, nothing missed.\<close>

definition seen_through :: "(string \<Rightarrow> string) \<Rightarrow> window_source \<Rightarrow> bool" where
  "seen_through url s \<longleftrightarrow> \<not> ws_closed_first s \<and> \<not> ws_ended s \<and> \<not> ws_closed_last s \<and> \<not> ws_tail_ended s \<and>
     window_complete (ws_before s) (ws_after s) (List.map_filter (from_observed url) (ws_events s @ ws_tail s))"

definition window_moved :: "(string \<Rightarrow> string) \<Rightarrow> window_source \<Rightarrow> peer_path list" where
  "window_moved url s =
     moved_kinds (ws_before s) (ws_after s) (List.map_filter (from_observed url) (ws_events s @ ws_tail s))"

lemma measure_window_clean:
  assumes "measure_window url s = r" and "r = Moved PathDirect \<or> (\<exists>p. r = Idle p)"
  shows "seen_through url s \<and> (\<forall>k \<in> set (window_moved url s). k = PathDirect) \<and>
    (r = Moved PathDirect \<longrightarrow> PathDirect \<in> set (window_moved url s)) \<and> (\<forall>p. r = Idle p \<longrightarrow> window_moved url s = [] \<and> p = ws_fallback s)"
proof -
  from assms have o: "\<not> ws_closed_first s" "\<not> ws_ended s" "\<not> ws_closed_last s" "\<not> ws_tail_ended s" and
    c: "classify_window (ws_before s) (ws_after s) (List.map_filter (from_observed url) (ws_events s @ ws_tail s)) (ws_fallback s) = r"
    by (auto simp: measure_window_def split: if_splits)
  note n = no_relay_moved [OF c assms(2), folded window_moved_def]
  have "PathDirect \<in> set (window_moved url s)" if "r = Moved PathDirect"
    using c that n by (auto simp: classify_window_moved window_moved_def [symmetric] split: option.splits if_splits dest: find_Some_iff [THEN iffD1])
  moreover have "window_moved url s = [] \<and> p = ws_fallback s" if "r = Idle p" for p
  proof -
    from c that have "PathDirect \<notin> set (window_moved url s)" "p = ws_fallback s"
      by (auto simp: classify_window_moved window_moved_def [symmetric] split: option.splits if_splits)
    with n show ?thesis by (cases "window_moved url s") auto
  qed
  ultimately show ?thesis using o n by (auto simp: seen_through_def)
qed

lemma combine_windows_cases:
  assumes "combine_windows n reading i = path" and "path \<noteq> PathUnknown"
  shows "\<exists>k < n. (\<forall>j < k. reading (i + j) = Idle PathUnknown) \<and> (reading (i + k) = Moved path \<or> reading (i + k) = Idle path)"
  using assms
proof (induction n arbitrary: i)
  case (Suc n)
  show ?case
  proof (cases "reading i = Idle PathUnknown")
    case True
    with Suc.prems have "combine_windows n reading (i + 1) = path" by simp
    from Suc.IH [OF this Suc.prems(2)] obtain k where k: "k < n" "\<forall>j < k. reading (i + 1 + j) = Idle PathUnknown"
      "reading (i + 1 + k) = Moved path \<or> reading (i + 1 + k) = Idle path" by blast
    have "reading (i + j) = Idle PathUnknown" if "j < Suc k" for j
      using that True k(2) by (cases j) auto
    with k show ?thesis by (intro exI [of _ "Suc k"]) auto
  next
    case False
    with Suc.prems have "reading i = Moved path \<or> reading i = Idle path"
      by (auto split: window_reading.splits if_splits)
    then show ?thesis by (intro exI [of _ 0]) auto
  qed
qed simp

text \<open>
  C20. A connection is called direct only on evidence. Some window, the last of those measured, either
  moved application frames on direct paths or moved nothing while the structural reading was direct;
  in that window and in every one before it nothing moved on a relay or on an unmodelled transport,
  no event was lost or unrecognised, no path vanished unaccounted for, and the connection stayed open.
\<close>
theorem direct_is_never_a_guess:
  assumes "measured_path url source = PathDirect"
  shows "\<exists>k < PATH_MEASURE_WINDOWS.
    (\<forall>j \<le> k. seen_through url (source j) \<and> (\<forall>p \<in> set (window_moved url (source j)). p = PathDirect)) \<and>
    (\<forall>j < k. window_moved url (source j) = []) \<and>
    (PathDirect \<in> set (window_moved url (source k)) \<or> (window_moved url (source k) = [] \<and> ws_fallback (source k) = PathDirect))"
proof -
  from combine_windows_cases [OF assms [unfolded measured_path_def]] obtain k where k: "k < PATH_MEASURE_WINDOWS"
    "\<forall>j < k. measure_window url (source j) = Idle PathUnknown"
    "measure_window url (source k) = Moved PathDirect \<or> measure_window url (source k) = Idle PathDirect" by auto
  have early: "seen_through url (source j) \<and> window_moved url (source j) = []" if "j < k" for j
    using measure_window_clean [of url "source j" "Idle PathUnknown"] k(2) that by auto
  have last: "seen_through url (source k) \<and> (\<forall>p \<in> set (window_moved url (source k)). p = PathDirect) \<and>
      (PathDirect \<in> set (window_moved url (source k)) \<or> (window_moved url (source k) = [] \<and> ws_fallback (source k) = PathDirect))"
    using measure_window_clean [OF refl, of url "source k"] k(3) by auto
  have "seen_through url (source j) \<and> (\<forall>p \<in> set (window_moved url (source j)). p = PathDirect)" if "j \<le> k" for j
    using that early [of j] last by (cases "j = k") auto
  with early last k(1) show ?thesis by blast
qed

text \<open>A window in which audio moved on the one direct path beside an idle relay.\<close>

definition demo_window :: window_source where
  "demo_window = \<lparr>ws_closed_first = False, ws_before = [(1, PathRelay None, 7), (2, PathDirect, 4)], ws_events = [PathSelected],
     ws_ended = False, ws_closed_last = False, ws_after = [(1, PathRelay None, 7), (2, PathDirect, 9)], ws_tail = [],
     ws_tail_ended = False, ws_fallback = PathUnknown\<rparr>"

theorem direct_is_never_a_guess_witness:
  "measured_path id (\<lambda>_. demo_window) = PathDirect \<and> (\<exists>k. seen_through id ((\<lambda>_. demo_window) k))"
proof -
  have m: "measured_path id (\<lambda>_. demo_window) = PathDirect"
    by (simp add: measured_path_def PATH_MEASURE_WINDOWS_def numeral_3_eq_3 measure_window_def demo_window_def classify_window_def
        from_observed_def opened_ids_def closed_ids_def List.map_filter_simps mark_after_def mark_closed_def baseline_def since_def mark_def Let_def)
  from direct_is_never_a_guess [OF this] m show ?thesis by blast
qed

subsection \<open>The structural reading\<close>

lemma classify_paths_from_spec:
  "classify_paths_from n only ps = (case find snd ps of
     Some (k, _) \<Rightarrow> k
   | None \<Rightarrow> (case (n + length ps, if ps = [] then only else Some (fst (last ps))) of (Suc 0, Some k) \<Rightarrow> k | _ \<Rightarrow> PathUnknown))"
  by (induction n only ps rule: classify_paths_from.induct) (auto split: option.split nat.split)

text \<open>
  A path that is selected decides; without one, a single open path does; otherwise the answer is that
  nothing is known.
\<close>
theorem selected_path_reads:
  "classify_paths ps = (case find snd ps of Some (k, _) \<Rightarrow> k
     | None \<Rightarrow> (case ps of [(k, _)] \<Rightarrow> k | _ \<Rightarrow> PathUnknown))"
  by (cases ps rule: list.exhaust; cases "tl ps")
     (auto simp: classify_paths_def classify_paths_from_spec split: option.split nat.split)

subsection \<open>Relay URLs\<close>

text \<open>
  What is shown of a relay URL does not depend on its userinfo, path or query, and shows which host it
  is.
\<close>
theorem relay_url_shows_no_credential:
  "sanitize_relay_url (u\<lparr>ru_userinfo := a, ru_rest := b\<rparr>) = sanitize_relay_url u \<and>
   (ru_host u = Some h \<longrightarrow> (\<exists>port. sanitize_relay_url u = ru_scheme u @ ''://'' @ h @ port))"
  by (auto simp: sanitize_relay_url_def split: option.split)

end
