(* ===== verification/Reach_Props.thy ===== *)
theory Reach_Props
  imports Reach Paths_Props Gate_Props Runs
begin

text \<open>
  The theorems of the reachability cache, for probes and session watchers overlapping in any order:
  rows only move forward, a time-out never hides a pong that arrived inside its window, what a row says
  of services came with a pong, and the frames sent in commit order tell a subscriber what the cache says.
\<close>

subsection \<open>Rows\<close>

definition row_ok :: "nat \<Rightarrow> reach_entry \<Rightarrow> bool" where
  "row_ok ticket e \<longleftrightarrow> re_seq e < re_observed e \<and> re_observed e < ticket \<and>
     (re_pong_at e \<noteq> None \<longrightarrow> re_reachable e) \<and> (re_pong_at e = None \<longrightarrow> re_meta e = [] \<and> re_services e = [] \<and> re_rtt e = None)"

text \<open>An answered probe: reachable with its pong, or not and nothing known.\<close>

definition answer_ok :: "reach_entry \<Rightarrow> bool" where
  "answer_ok e \<longleftrightarrow> (re_reachable e \<longleftrightarrow> re_pong_at e \<noteq> None) \<and> (\<not> re_reachable e \<longrightarrow> re_path e = PathUnknown)"

definition reach_ok :: "reach_world \<Rightarrow> bool" where
  "reach_ok w \<longleftrightarrow>
     (\<forall>eid e. map_of (rw_cache w) eid = Some e \<longrightarrow> row_ok (rw_ticket w) e) \<and>
     (\<forall>k p. rw_probes w k = Some p \<longrightarrow> pk_seq p < rw_ticket w \<and>
        (\<forall>e. pk_entry p = Some e \<longrightarrow> row_ok (rw_ticket w) e \<and> answer_ok e \<and> re_seq e = pk_seq p)) \<and>
     (\<forall>j eid seq. rw_watches w j = Some (eid, seq) \<longrightarrow> seq < rw_ticket w)"

lemma row_ok_mono: "row_ok t e \<Longrightarrow> t \<le> t' \<Longrightarrow> row_ok t' e"
  by (auto simp: row_ok_def)

lemma probe_entry_ok:
  "seq < t \<Longrightarrow> row_ok (Suc t) (probe_entry outcome settled seq t now) \<and> answer_ok (probe_entry outcome settled seq t now) \<and>
     re_seq (probe_entry outcome settled seq t now) = seq"
  by (simp add: probe_entry_def classify_def row_ok_def answer_ok_def split: exchange_outcome.split)

text \<open>What a commit leaves under a key: the row before, one with the pong kept, or the new one.\<close>

lemma commit_probe_lookup:
  assumes "commit_probe eid entry cache = (outcome, cache')"
  shows "map_of cache' i = (if i = eid then Some (case outcome of Superseded e \<Rightarrow> e | Committed _ \<Rightarrow> entry) else map_of cache i)"
    and "outcome = Superseded e \<Longrightarrow> \<exists>old. map_of cache eid = Some old \<and> (e = old \<or> e = keep_pong entry old)"
    and "outcome = Committed prev \<Longrightarrow> prev = map_of cache eid \<and>
      (\<forall>old. prev = Some old \<longrightarrow> supersedes (re_seq entry) old \<and> \<not> contradicted_by entry (re_seq entry) old)"
  using assms by (auto simp: commit_probe_def Let_def map_of_al_insert split: option.splits if_splits)

lemma keep_pong_ok:
  "row_ok t old \<Longrightarrow> row_ok t entry \<Longrightarrow> row_ok t (keep_pong entry old)"
  "re_reachable (keep_pong entry old) = re_reachable old" "re_path (keep_pong entry old) = re_path old"
  "re_seq (keep_pong entry old) = re_seq old" "re_observed (keep_pong entry old) = re_observed old"
  by (auto simp: keep_pong_def row_ok_def)

lemma observation_lookup:
  assumes "commit_observation eid seq observed now ticket cache = (r, cache')"
  shows "map_of cache' i = (if i = eid \<and> r \<noteq> None then r else map_of cache i)"
    and "r = Some e \<Longrightarrow> observed \<noteq> PathUnknown \<and> re_path e = observed \<and> re_seq e = seq \<and> re_observed e = ticket \<and>
      (case map_of cache eid of
         Some old \<Rightarrow> re_seq old \<le> seq \<and> re_path old \<noteq> observed \<and> e = old\<lparr>re_path := observed, re_seq := seq, re_observed := ticket\<rparr>
       | None \<Rightarrow> re_reachable e \<and> re_pong_at e = None \<and> re_meta e = [] \<and> re_services e = [] \<and> re_rtt e = None)"
  using assms
  by (auto simp: commit_observation_def decide_path_def supersedes_def Let_def map_of_al_insert split: option.splits if_splits)

lemma reach_tick:
  assumes "reach_ok w"
  shows "reach_ok (w\<lparr>rw_ticket := Suc (rw_ticket w)\<rparr>)"
proof -
  have r: "row_ok (Suc (rw_ticket w)) e" if "row_ok (rw_ticket w) e" for e using that by (simp add: row_ok_def)
  show ?thesis using assms unfolding reach_ok_def by (auto intro!: r less_SucI)
qed

lemma reach_put:
  "reach_ok w \<Longrightarrow> pk_seq p < rw_ticket w \<Longrightarrow>
     (\<And>e. pk_entry p = Some e \<Longrightarrow> row_ok (rw_ticket w) e \<and> answer_ok e \<and> re_seq e = pk_seq p) \<Longrightarrow>
     reach_ok (w\<lparr>rw_probes := (rw_probes w)(k \<mapsto> p)\<rparr>)"
  "reach_ok w \<Longrightarrow> reach_ok (w\<lparr>rw_probes := (rw_probes w)(k := None)\<rparr>)"
  "reach_ok w \<Longrightarrow> seq < rw_ticket w \<Longrightarrow> reach_ok (w\<lparr>rw_watches := (rw_watches w)(j \<mapsto> (eid, seq))\<rparr>)"
  "reach_ok w \<Longrightarrow> reach_ok (w\<lparr>rw_watches := (rw_watches w)(j := None)\<rparr>)"
  "reach_ok w \<Longrightarrow> (\<And>i e. map_of cache i = Some e \<Longrightarrow> row_ok (rw_ticket w) e) \<Longrightarrow> reach_ok (w\<lparr>rw_cache := cache\<rparr>)"
  "reach_ok (w\<lparr>rw_pending := fs\<rparr>) = reach_ok w" "reach_ok (w\<lparr>rw_sent := fs\<rparr>) = reach_ok w"
  by (auto simp: reach_ok_def)

lemma reach_ok_step:
  assumes "reach_step L store w lbl w'" and ok: "reach_ok w"
  shows "reach_ok w'"
  using assms(1)
proof (cases rule: reach_step.cases)
  case (Probe_Starts k eid)
  show ?thesis using reach_put(1) [OF reach_tick [OF ok], of "\<lparr>pk_peer = eid, pk_seq = rw_ticket w, pk_entry = None\<rparr>" k]
    by (simp add: Probe_Starts)
next
  case (Probe_Answers k p outcome settled now)
  let ?p = "p\<lparr>pk_entry := Some (probe_entry outcome settled (pk_seq p) (rw_ticket w) now)\<rparr>"
  from ok Probe_Answers(3) have "pk_seq p < rw_ticket w" by (simp add: reach_ok_def)
  with reach_put(1) [OF reach_tick [OF ok], of ?p k] probe_entry_ok [OF this, of outcome settled now] show ?thesis
    by (simp add: Probe_Answers)
next
  case (Probe_Commits k p entry outcome cache)
  from ok Probe_Commits have e: "row_ok (rw_ticket w) entry" by (auto simp: reach_ok_def)
  have "row_ok (rw_ticket w) x" if "map_of cache i = Some x" for i x
  proof (cases "i = pk_peer p")
    case True
    show ?thesis
    proof (cases outcome)
      case (Superseded s)
      with commit_probe_lookup(2) [OF Probe_Commits(5)] ok keep_pong_ok(1) [OF _ e] have "row_ok (rw_ticket w) s"
        by (auto simp: reach_ok_def)
      with commit_probe_lookup(1) [OF Probe_Commits(5), of i] True Superseded that show ?thesis by simp
    next
      case (Committed prev)
      with commit_probe_lookup(1) [OF Probe_Commits(5), of i] True that e show ?thesis by simp
    qed
  next
    case False
    with commit_probe_lookup(1) [OF Probe_Commits(5), of i] that ok show ?thesis by (auto simp: reach_ok_def)
  qed
  then have "reach_ok (w\<lparr>rw_cache := cache\<rparr>)" by (rule reach_put(5) [OF ok])
  from reach_put(2) [OF this, of k] show ?thesis by (simp add: Probe_Commits reach_put)
next
  case (Watch_Starts j eid)
  show ?thesis using reach_put(3) [OF reach_tick [OF ok], of "rw_ticket w" j eid] by (simp add: Watch_Starts)
next
  case (Watch_Commits j eid seq observed now r cache)
  from ok Watch_Commits have s: "seq < rw_ticket w" by (auto simp: reach_ok_def)
  show ?thesis
  proof (cases r)
    case None
    with observation_lookup(1) [OF Watch_Commits(4)] ok have "row_ok (rw_ticket w) x" if "map_of cache i = Some x" for i x
      using that by (auto simp: reach_ok_def)
    then have "reach_ok (w\<lparr>rw_cache := cache\<rparr>)" by (rule reach_put(5) [OF ok])
    from reach_put(4) [OF this, of j] None show ?thesis by (simp add: Watch_Commits reach_put)
  next
    case (Some e)
    have "row_ok (Suc (rw_ticket w)) e"
    proof (cases "map_of (rw_cache w) eid")
      case None
      with observation_lookup(2) [OF Watch_Commits(4) Some] s show ?thesis by (auto simp: row_ok_def)
    next
      case old: (Some old)
      with ok have "row_ok (rw_ticket w) old" by (auto simp: reach_ok_def)
      with old observation_lookup(2) [OF Watch_Commits(4) Some] s show ?thesis by (auto simp: row_ok_def)
    qed
    with observation_lookup(1) [OF Watch_Commits(4)] Some reach_tick [OF ok]
    have "row_ok (Suc (rw_ticket w)) x" if "map_of cache i = Some x" for i x
      using that by (auto simp: reach_ok_def split: if_splits)
    then have "reach_ok (w\<lparr>rw_ticket := Suc (rw_ticket w), rw_cache := cache\<rparr>)"
      using reach_put(5) [OF reach_tick [OF ok], of cache] by simp
    from reach_put(4) [OF this, of j] Some show ?thesis by (simp add: Watch_Commits reach_put)
  qed
qed (use ok in \<open>simp_all add: reach_put\<close>)

lemma reach_ok_run: "run (reach_step L store) no_reach ls w \<Longrightarrow> reach_ok w"
  by (erule run_invariant [where P = reach_ok]) (simp add: reach_ok_def no_reach_def, rule reach_ok_step)

lemma cache_row_moves:
  assumes "reach_step L store w lbl w'" and "map_of (rw_cache w) eid = Some e"
  obtains e' where "map_of (rw_cache w') eid = Some e'" and "re_seq e \<le> re_seq e'"
    and "re_reachable e \<Longrightarrow> \<not> re_reachable e' \<Longrightarrow> \<exists>k p. lbl = ProbeCommits k \<and> rw_probes w k = Some p \<and> pk_peer p = eid \<and>
      pk_entry p = Some e' \<and> re_observed e \<le> re_seq e'"
  using assms(1)
proof (cases rule: reach_step.cases)
  case (Probe_Commits k p entry outcome cache)
  show thesis
  proof (cases "eid = pk_peer p")
    case False
    with commit_probe_lookup(1) [OF Probe_Commits(5), of eid] assms(2) have "map_of (rw_cache w') eid = Some e"
      by (simp add: Probe_Commits(2))
    then show thesis by (rule that) auto
  next
    case True
    note l = commit_probe_lookup(1) [OF Probe_Commits(5), of eid]
    show thesis
    proof (cases outcome)
      case (Superseded s)
      with commit_probe_lookup(2) [OF Probe_Commits(5)] assms(2) True have "s = e \<or> s = keep_pong entry e" by auto
      then have "re_seq s = re_seq e" "re_reachable s = re_reachable e" using keep_pong_ok(2,4) by auto
      moreover have "map_of (rw_cache w') eid = Some s" using l True Superseded by (simp add: Probe_Commits(2))
      ultimately show thesis by (intro that [of s]) auto
    next
      case (Committed prev)
      with commit_probe_lookup(3) [OF Probe_Commits(5)] assms(2) True
      have c: "re_seq e \<le> re_seq entry" "\<not> contradicted_by entry (re_seq entry) e" by (auto simp: supersedes_def)
      moreover have "map_of (rw_cache w') eid = Some entry" using l True Committed by (simp add: Probe_Commits(2))
      ultimately show thesis using Probe_Commits True by (intro that [of entry]) (auto simp: contradicted_by_def)
    qed
  qed
next
  case (Watch_Commits j i seq observed now r cache)
  note l = observation_lookup(1) [OF Watch_Commits(4), of eid]
  show thesis
  proof (cases "eid = i \<and> r \<noteq> None")
    case True
    then obtain x where r: "r = Some x" by auto
    with observation_lookup(2) [OF Watch_Commits(4) r] True assms(2)
    have "re_seq e \<le> re_seq x" "re_reachable x = re_reachable e" by auto
    moreover have "map_of (rw_cache w') eid = Some x" using l True r by (simp add: Watch_Commits(2))
    ultimately show thesis by (intro that [of x]) auto
  next
    case False
    with l assms(2) have "map_of (rw_cache w') eid = Some e" by (simp add: Watch_Commits(2))
    then show thesis by (rule that) auto
  qed
qed (use assms(2) that [of e] in auto)


subsection \<open>What subscribers are told\<close>

definition told :: "reach_transition list \<Rightarrow> string \<Rightarrow> bool \<times> peer_path" where
  "told frames = foldl (\<lambda>f fr. f(the (pv_principal (rt_peer fr)) := (pv_reachable (rt_peer fr), pv_path (rt_peer fr))))
     (\<lambda>_. (False, PathUnknown)) frames"

definition row_says :: "reach_entry option \<Rightarrow> bool \<times> peer_path" where
  "row_says e = (case e of Some e \<Rightarrow> (re_reachable e, re_path e) | None \<Rightarrow> (False, PathUnknown))"

lemma told_append_none [simp]: "told (fs @ []) = told fs" by simp

lemma told_transition:
  assumes "nickname_of store eid = Some n"
  shows "told (fs @ transition_frames src (stored_row L store eid e)) = (told fs)(principal L eid := (re_reachable e, re_path e))"
  by (simp add: told_def transition_frames_def stored_row_def assms reachability_row_def)

lemma told_other:
  assumes "principal L i \<noteq> principal L eid"
  shows "told (fs @ transition_frames src (stored_row L store i e)) (principal L eid) = told fs (principal L eid)"
  using assms by (simp add: told_def transition_frames_def stored_row_def reachability_row_def split: option.split)

lemma told_after_commit:
  assumes "commit_probe i entry cache = (outcome, cache')" and "answer_ok entry" and "hex_injective L" and "nickname_of store eid = Some n"
    and "told fs (principal L eid) = row_says (map_of cache eid)"
  shows "told (fs @ snd (after_commit L store i entry outcome)) (principal L eid) = row_says (map_of cache' eid)"
proof (cases "i = eid")
  case False
  then have "principal L i \<noteq> principal L eid" using assms(3) by (auto simp: principal_def hex_injective_def inj_eq)
  with False assms(5) commit_probe_lookup(1) [OF assms(1), of eid] told_other [OF this] show ?thesis
    by (simp add: after_commit_def split: commit_outcome.split)
next
  case True
  note l = commit_probe_lookup(1) [OF assms(1), of eid]
  show ?thesis
  proof (cases outcome)
    case (Superseded s)
    with commit_probe_lookup(2) [OF assms(1)] True keep_pong_ok have "row_says (Some s) = row_says (map_of cache eid)"
      by (auto simp: row_says_def)
    with l True Superseded assms(5) show ?thesis by (simp add: after_commit_def)
  next
    case (Committed prev)
    with commit_probe_lookup(3) [OF assms(1)] True have prev: "prev = map_of cache eid" by simp
    show ?thesis
    proof (cases "is_transition prev entry")
      case t: True
      with l True Committed told_transition [OF assms(4)] show ?thesis by (simp add: after_commit_def row_says_def)
    next
      case False
      with assms(2) have "row_says (Some entry) = row_says prev"
        by (auto simp: is_transition_def row_says_def answer_ok_def split: option.splits)
      with l True Committed False prev assms(5) show ?thesis by (simp add: after_commit_def)
    qed
  qed
qed

lemma told_after_observation:
  assumes "commit_observation i seq observed now ticket cache = (r, cache')" and "hex_injective L" and "nickname_of store eid = Some n"
    and "told fs (principal L eid) = row_says (map_of cache eid)"
  shows "told (fs @ (case r of Some e \<Rightarrow> transition_frames SessionSource (stored_row L store i e) | None \<Rightarrow> [])) (principal L eid) =
    row_says (map_of cache' eid)"
proof (cases r)
  case None
  with observation_lookup(1) [OF assms(1), of eid] assms(4) show ?thesis by simp
next
  case (Some e)
  show ?thesis
  proof (cases "i = eid")
    case True
    with Some observation_lookup(1) [OF assms(1), of eid] told_transition [OF assms(3)] show ?thesis by (simp add: row_says_def)
  next
    case False
    then have "principal L i \<noteq> principal L eid" using assms(2) by (auto simp: principal_def hex_injective_def inj_eq)
    with False Some observation_lookup(1) [OF assms(1), of eid] told_other [OF this] assms(4) show ?thesis by simp
  qed
qed

text \<open>
  C22. Subscribers learn what the cache says. A subscriber that knows nothing of a stored peer (which the
  snapshot shows as unreachable by an unknown path) and applies every frame knows, once the frames of
  the commits so far have been sent in their order, whether the cache calls the peer reachable and by
  which path, whatever mix of probes and watchers wrote the rows.
\<close>
theorem subscribers_learn_the_cache:
  assumes "run (reach_step L store) no_reach ls w" and "hex_injective L" and "nickname_of store eid = Some n"
    and "\<forall>i. Broadcasts i \<in> set ls \<longrightarrow> i = 0" and "rw_pending w = []"
  shows "told (rw_sent w) (principal L eid) = row_says (map_of (rw_cache w) eid)"
proof -
  have "reach_ok w \<and> told (rw_sent w @ rw_pending w) (principal L eid) = row_says (map_of (rw_cache w) eid)"
    using assms(1)
  proof (rule run_invariant_labels [where I = "\<lambda>w. reach_ok w \<and> told (rw_sent w @ rw_pending w) (principal L eid) = row_says (map_of (rw_cache w) eid)"])
    show "reach_ok no_reach \<and> told (rw_sent no_reach @ rw_pending no_reach) (principal L eid) = row_says (map_of (rw_cache no_reach) eid)"
      by (simp add: no_reach_def reach_ok_def told_def row_says_def)
  next
    fix t l u
    assume t: "reach_ok t \<and> told (rw_sent t @ rw_pending t) (principal L eid) = row_says (map_of (rw_cache t) eid)"
      and s: "reach_step L store t l u" and l: "l \<in> set ls"
    from reach_ok_step [OF s] t have "reach_ok u" by simp
    moreover have "told (rw_sent u @ rw_pending u) (principal L eid) = row_says (map_of (rw_cache u) eid)"
      using s
    proof (cases rule: reach_step.cases)
      case (Probe_Commits k p entry outcome cache)
      from t Probe_Commits have "answer_ok entry" by (auto simp: reach_ok_def)
      with told_after_commit [OF Probe_Commits(5) this assms(2,3), of "rw_sent t @ rw_pending t"] t show ?thesis
        by (simp add: Probe_Commits)
    next
      case (Watch_Commits j i seq observed now r cache)
      with told_after_observation [OF Watch_Commits(4) assms(2,3), of "rw_sent t @ rw_pending t"] t show ?thesis by simp
    next
      case (Broadcast i)
      with l assms(4) have "i = 0" by simp
      with Broadcast t show ?thesis by (cases "rw_pending t") auto
    qed (use t in simp_all)
    ultimately show "reach_ok u \<and> told (rw_sent u @ rw_pending u) (principal L eid) = row_says (map_of (rw_cache u) eid)" ..
  qed
  with assms(5) show ?thesis by simp
qed

subsection \<open>Refreshes\<close>

text \<open>A read starts at most one refresh of a peer, and none of a peer a refresh already runs for.\<close>

theorem refreshes_do_not_pile_up:
  assumes "claim_refreshes inflight stale = (claimed, inflight')"
  shows "distinct claimed" and "set claimed \<inter> set inflight = {}" and "set claimed \<subseteq> set stale"
    and "set inflight' = set inflight \<union> set claimed"
proof -
  have "distinct claimed \<and> set claimed \<inter> set inflight = {} \<and> set claimed \<subseteq> set stale \<and> set inflight' = set inflight \<union> set claimed"
    using assms
  proof (induction stale arbitrary: inflight claimed)
    case (Cons eid stale)
    show ?case
    proof (cases "eid \<in> set inflight")
      case True
      with Cons show ?thesis by auto
    next
      case False
      obtain c where c: "claim_refreshes (eid # inflight) stale = (c, inflight')" "claimed = eid # c"
        using Cons.prems False by (auto split: prod.splits)
      from Cons.IH [OF c(1)] False c(2) show ?thesis by auto
    qed
  qed simp
  then show "distinct claimed" "set claimed \<inter> set inflight = {}" "set claimed \<subseteq> set stale" "set inflight' = set inflight \<union> set claimed"
    by auto
qed

subsection \<open>Two probes that overlap\<close>

text \<open>The second probe of bob starts before the first one's pong lands, and then times out.\<close>

lemma reach_then:
  "run (reach_step L store) s ls t \<Longrightarrow> reach_step L store t l u \<Longrightarrow> ks = ls @ [l] \<Longrightarrow> run (reach_step L store) s ks u"
  by (simp add: run_snoc)

abbreviation bob_id :: bytes where "bob_id \<equiv> replicate 32 1"

definition demo_pong_row :: reach_entry where
  "demo_pong_row = probe_entry (Ponged (JObj []) 5) PathDirect 0 2 40"

definition demo_overlap :: reach_world where
  "demo_overlap = \<lparr>rw_ticket = 4, rw_cache = [(bob_id, demo_pong_row)],
     rw_probes = [1 \<mapsto> \<lparr>pk_peer = bob_id, pk_seq = 1, pk_entry = Some (probe_entry ExchangeElapsed PathUnknown 1 3 41)\<rparr>],
     rw_watches = Map.empty, rw_pending = [],
     rw_sent = transition_frames ProbeSource (stored_row demo_libs demo_store bob_id demo_pong_row)\<rparr>"

abbreviation demo_overlap_labels :: "reach_label list" where
  "demo_overlap_labels \<equiv> [ProbeStarts 0 bob_id, ProbeStarts 1 bob_id, ProbeAnswers 0 (Ponged (JObj []) 5) PathDirect 40,
     ProbeCommits 0, Broadcasts 0, ProbeAnswers 1 ExchangeElapsed PathUnknown 41]"

lemma bob_named: "nickname_of demo_store bob_id = Some ''bob''"
  by (simp add: nickname_of_def store_resolve_def demo_store_def store_open_def with_table_def demo_entry_def)

lemma demo_overlap_run: "run (reach_step demo_libs demo_store) no_reach demo_overlap_labels demo_overlap"
proof -
  let ?R = "reach_step demo_libs demo_store"
  define p0 where "p0 = \<lparr>pk_peer = bob_id, pk_seq = 0, pk_entry = None\<rparr>"
  define p1 where "p1 = \<lparr>pk_peer = bob_id, pk_seq = 1, pk_entry = None\<rparr>"
  define w1 where "w1 = no_reach\<lparr>rw_ticket := 1, rw_probes := [0 \<mapsto> p0]\<rparr>"
  define w2 where "w2 = no_reach\<lparr>rw_ticket := 2, rw_probes := [0 \<mapsto> p0, 1 \<mapsto> p1]\<rparr>"
  define w3 where "w3 = no_reach\<lparr>rw_ticket := 3, rw_probes := [0 \<mapsto> p0\<lparr>pk_entry := Some demo_pong_row\<rparr>, 1 \<mapsto> p1]\<rparr>"
  define fs where "fs = transition_frames ProbeSource (stored_row demo_libs demo_store bob_id demo_pong_row)"
  define w4 where "w4 = no_reach\<lparr>rw_ticket := 3, rw_cache := [(bob_id, demo_pong_row)], rw_probes := [1 \<mapsto> p1], rw_pending := fs\<rparr>"
  define w5 where "w5 = no_reach\<lparr>rw_ticket := 3, rw_cache := [(bob_id, demo_pong_row)], rw_probes := [1 \<mapsto> p1], rw_sent := fs\<rparr>"
  obtain x where f: "fs = [x]" by (simp add: fs_def transition_frames_def stored_row_def bob_named)
  have s1: "?R no_reach (ProbeStarts 0 bob_id) w1"
    using Probe_Starts [of no_reach 0 demo_libs demo_store bob_id] by (simp add: no_reach_def w1_def p0_def)
  have s2: "?R w1 (ProbeStarts 1 bob_id) w2"
    using Probe_Starts [of w1 1 demo_libs demo_store bob_id] by (simp add: no_reach_def w1_def w2_def p1_def eval_nat_numeral)
  have s3: "?R w2 (ProbeAnswers 0 (Ponged (JObj []) 5) PathDirect 40) w3"
    using Probe_Answers [of w2 0 p0 "Ponged (JObj []) 5" demo_libs demo_store PathDirect 40]
    by (simp add: no_reach_def w2_def w3_def p0_def demo_pong_row_def fun_upd_twist eval_nat_numeral)
  have "?R w3 (ProbeCommits 0) (w3\<lparr>rw_cache := [(bob_id, demo_pong_row)], rw_probes := (rw_probes w3)(0 := None),
      rw_pending := rw_pending w3 @ snd (after_commit demo_libs demo_store bob_id demo_pong_row (Committed None))\<rparr>)"
    using Probe_Commits [of w3 0 "p0\<lparr>pk_entry := Some demo_pong_row\<rparr>" demo_pong_row "Committed None" "[(bob_id, demo_pong_row)]" demo_libs demo_store]
    by (simp add: no_reach_def w3_def p0_def commit_probe_def Let_def)
  moreover have "snd (after_commit demo_libs demo_store bob_id demo_pong_row (Committed None)) = fs"
    by (simp add: after_commit_def is_transition_def fs_def demo_pong_row_def probe_entry_def classify_def)
  moreover have "(rw_probes w3)(0 := None) = [1 \<mapsto> p1]" by (auto simp: w3_def)
  ultimately have s4: "?R w3 (ProbeCommits 0) w4" by (simp add: w3_def w4_def no_reach_def)
  have s5: "?R w4 (Broadcasts 0) w5"
    using Broadcast [of 0 w4 demo_libs demo_store] f by (simp add: w4_def w5_def no_reach_def)
  have "?R w5 (ProbeAnswers 1 ExchangeElapsed PathUnknown 41) demo_overlap"
    using Probe_Answers [of w5 1 p1 ExchangeElapsed demo_libs demo_store PathUnknown 41]
    by (simp add: w5_def no_reach_def demo_overlap_def p1_def fs_def eval_nat_numeral)
  from reach_then [OF reach_then [OF reach_then [OF reach_then [OF reach_then [OF reach_then [OF run_nil s1 refl] s2 refl] s3 refl] s4 refl] s5 refl] this refl]
  show ?thesis by simp
qed


theorem subscribers_learn_the_cache_witness:
  "told (rw_sent demo_overlap) (principal demo_libs bob_id) = (True, PathDirect)"
proof -
  have "\<forall>i. Broadcasts i \<in> set demo_overlap_labels \<longrightarrow> i = 0" by simp
  moreover have "rw_pending demo_overlap = []" by (simp add: demo_overlap_def)
  moreover have "row_says (map_of (rw_cache demo_overlap) bob_id) = (True, PathDirect)"
    by (simp add: demo_overlap_def row_says_def demo_pong_row_def probe_entry_def classify_def)
  ultimately show ?thesis using subscribers_learn_the_cache [OF demo_overlap_run demo_hex bob_named] by simp
qed

end
