(* ===== verification/Audit_Record.thy ===== *)
theory Audit_Record
  imports Service Serde Unicode
begin

text \<open>
  The audit record (\<open>AuditRecord\<close> of \<open>local-api/src/protocol.rs\<close>), its JSON form, and the two
  producer helpers of \<open>node/src/audit/record.rs\<close>: the digest of a request's arguments, which
  leaves out what the daemon itself wrote into \<open>_meta\<close>, and the RFC 3339 time stamp with its civil
  date arithmetic. A second of the day or a year is printed zero-padded, as \<open>{:02}\<close> and \<open>{:04}\<close> do.
\<close>

subsection \<open>Records\<close>

datatype audit_kind = SessionOpen | SessionClose | Request | BlobFetch | Trust

record audit_record =
  ar_ts :: string
  ar_kind :: audit_kind
  ar_peer :: "string option"
  ar_service :: "string option"
  ar_method :: "string option"
  ar_tool :: "string option"
  ar_args_hash :: "string option"
  ar_bytes_out :: "u64 option"
  ar_status :: "string option"
  ar_latency_ms :: "u64 option"
  ar_event :: "string option"
  ar_target :: "string option"
  ar_principal :: "string option"

definition ar_base :: "string \<Rightarrow> audit_kind \<Rightarrow> audit_record" where
  "ar_base ts kind = \<lparr>ar_ts = ts, ar_kind = kind, ar_peer = None, ar_service = None, ar_method = None,
     ar_tool = None, ar_args_hash = None, ar_bytes_out = None, ar_status = None, ar_latency_ms = None,
     ar_event = None, ar_target = None, ar_principal = None\<rparr>"

definition ar_session_open :: "string \<Rightarrow> string option \<Rightarrow> string \<Rightarrow> string option \<Rightarrow> audit_record" where
  "ar_session_open ts peer service prin =
     (ar_base ts SessionOpen)\<lparr>ar_peer := peer, ar_service := Some service, ar_principal := prin\<rparr>"

definition ar_with_status :: "string \<Rightarrow> audit_record \<Rightarrow> audit_record" where
  "ar_with_status status r = r\<lparr>ar_status := Some status\<rparr>"

definition ar_session_close :: "string \<Rightarrow> string option \<Rightarrow> string \<Rightarrow> string option \<Rightarrow> audit_record" where
  "ar_session_close ts peer service prin =
     (ar_base ts SessionClose)\<lparr>ar_peer := peer, ar_service := Some service, ar_principal := prin\<rparr>"

definition proxied_request ::
    "string \<Rightarrow> string option \<Rightarrow> string \<Rightarrow> string \<Rightarrow> string option \<Rightarrow> string \<Rightarrow> u64 \<Rightarrow> string \<Rightarrow> u64 \<Rightarrow>
     string option \<Rightarrow> audit_record" where
  "proxied_request ts peer service meth tool digest bytes_out status latency prin =
     (ar_base ts Request)\<lparr>ar_peer := peer, ar_service := Some service, ar_method := Some meth,
       ar_tool := tool, ar_args_hash := Some digest, ar_bytes_out := Some bytes_out,
       ar_status := Some status, ar_latency_ms := Some latency, ar_principal := prin\<rparr>"

definition proxied_notification ::
    "string \<Rightarrow> string option \<Rightarrow> string \<Rightarrow> string \<Rightarrow> string option \<Rightarrow> string \<Rightarrow> string option \<Rightarrow> audit_record" where
  "proxied_notification ts peer service meth tool digest prin =
     (ar_base ts Request)\<lparr>ar_peer := peer, ar_service := Some service, ar_method := Some meth,
       ar_tool := tool, ar_args_hash := Some digest, ar_principal := prin\<rparr>"

definition ar_blob_fetch :: "string \<Rightarrow> string option \<Rightarrow> string \<Rightarrow> string \<Rightarrow> string option \<Rightarrow> audit_record" where
  "ar_blob_fetch ts peer h status prin =
     (ar_base ts BlobFetch)\<lparr>ar_peer := peer, ar_target := Some h, ar_status := Some status, ar_principal := prin\<rparr>"

definition ar_trust :: "string \<Rightarrow> string \<Rightarrow> string option \<Rightarrow> string option \<Rightarrow> audit_record" where
  "ar_trust ts event target prin =
     (ar_base ts Trust)\<lparr>ar_event := Some event, ar_target := target, ar_principal := prin\<rparr>"

subsection \<open>JSON\<close>

text \<open>The kinds in \<open>snake_case\<close>, and the filter string of \<open>--kind\<close> read back.\<close>

fun kind_name :: "audit_kind \<Rightarrow> string" where
  "kind_name SessionOpen = ''session_open''"
| "kind_name SessionClose = ''session_close''"
| "kind_name Request = ''request''"
| "kind_name BlobFetch = ''blob_fetch''"
| "kind_name Trust = ''trust''"

definition parse_kind :: "string \<Rightarrow> audit_kind option" where
  "parse_kind s =
     (if s = ''session_open'' then Some SessionOpen
      else if s = ''session_close'' then Some SessionClose
      else if s = ''request'' then Some Request
      else if s = ''blob_fetch'' then Some BlobFetch
      else if s = ''trust'' then Some Trust
      else None)"

definition de_kind :: "json \<Rightarrow> audit_kind option" where
  "de_kind v = Option.bind (as_str v) parse_kind"

text \<open>Every field in declaration order, with the value it is written as when it is present.\<close>

definition ar_fields :: "audit_record \<Rightarrow> (string \<times> json option) list" where
  "ar_fields r =
     [(''ts'', Some (JStr (ar_ts r))),
      (''kind'', Some (JStr (kind_name (ar_kind r)))),
      (''peer'', map_option JStr (ar_peer r)),
      (''service'', map_option JStr (ar_service r)),
      (''method'', map_option JStr (ar_method r)),
      (''tool'', map_option JStr (ar_tool r)),
      (''args_hash'', map_option JStr (ar_args_hash r)),
      (''bytes_out'', map_option (\<lambda>n. JNum (uint n)) (ar_bytes_out r)),
      (''status'', map_option JStr (ar_status r)),
      (''latency_ms'', map_option (\<lambda>n. JNum (uint n)) (ar_latency_ms r)),
      (''event'', map_option JStr (ar_event r)),
      (''target'', map_option JStr (ar_target r)),
      (''principal'', map_option JStr (ar_principal r))]"

definition audit_record_names :: "string list" where
  "audit_record_names = [''ts'', ''kind'', ''peer'', ''service'', ''method'', ''tool'', ''args_hash'', ''bytes_out'',
     ''status'', ''latency_ms'', ''event'', ''target'', ''principal'']"

definition present_members :: "(string \<times> json option) list \<Rightarrow> (string \<times> json) list" where
  "present_members fs = List.map_filter (\<lambda>(k, v). map_option (Pair k) v) fs"

definition audit_to_value :: "audit_record \<Rightarrow> json" where
  "audit_to_value r = JObj (present_members (ar_fields r))"

definition opt_member :: "(string \<times> json) list \<Rightarrow> string \<Rightarrow> (json \<Rightarrow> 'a option) \<Rightarrow> 'a option option" where
  "opt_member m k dec = defaulted m k None (de_option dec)"

definition audit_of_value :: "json \<Rightarrow> audit_record option" where
  "audit_of_value v =
     Option.bind (struct_members audit_record_names v) (\<lambda>m.
     Option.bind (required m ''ts'' as_str) (\<lambda>ts.
     Option.bind (required m ''kind'' de_kind) (\<lambda>kind.
     Option.bind (opt_member m ''peer'' as_str) (\<lambda>peer.
     Option.bind (opt_member m ''service'' as_str) (\<lambda>service.
     Option.bind (opt_member m ''method'' as_str) (\<lambda>meth.
     Option.bind (opt_member m ''tool'' as_str) (\<lambda>tool.
     Option.bind (opt_member m ''args_hash'' as_str) (\<lambda>digest.
     Option.bind (opt_member m ''bytes_out'' de_word) (\<lambda>bytes_out.
     Option.bind (opt_member m ''status'' as_str) (\<lambda>status.
     Option.bind (opt_member m ''latency_ms'' de_word) (\<lambda>latency.
     Option.bind (opt_member m ''event'' as_str) (\<lambda>event.
     Option.bind (opt_member m ''target'' as_str) (\<lambda>target.
     Option.bind (opt_member m ''principal'' as_str) (\<lambda>prin.
       Some \<lparr>ar_ts = ts, ar_kind = kind, ar_peer = peer, ar_service = service, ar_method = meth,
         ar_tool = tool, ar_args_hash = digest, ar_bytes_out = bytes_out, ar_status = status,
         ar_latency_ms = latency, ar_event = event, ar_target = target, ar_principal = prin\<rparr>))))))))))))))"

lemma map_of_present_members:
  "distinct (map fst fs) \<Longrightarrow> map_of (present_members fs) k = Option.bind (map_of fs k) id"
proof (induction fs)
  case Nil
  then show ?case by (simp add: present_members_def)
next
  case (Cons p fs)
  obtain k' v where p: "p = (k', v)" by (cases p)
  have "map_of fs k' = None" using Cons.prems p by (simp add: map_of_eq_None_iff)
  then show ?case using Cons p by (cases v) (auto simp: present_members_def)
qed

lemma keys_present_members: "al_keys (present_members fs) = map fst (filter (\<lambda>p. snd p \<noteq> None) fs)"
  by (induction fs) (auto simp: present_members_def split: option.splits)

lemma opt_member_present:
  "distinct (map fst fs) \<Longrightarrow> map_of fs k = Some (map_option enc x) \<Longrightarrow>
   (\<And>y. dec (enc y) = Some y \<and> enc y \<noteq> JNull) \<Longrightarrow> opt_member (present_members fs) k dec = Some x"
  by (cases x) (auto simp: opt_member_def defaulted_def de_option_def map_of_present_members)

lemma parse_kind_name [simp]: "parse_kind (kind_name k) = Some k"
  by (cases k) (simp_all add: parse_kind_def)

lemma distinct_ar_fields: "distinct (map fst (ar_fields r))"
  by (simp add: ar_fields_def)

lemma required_present:
  "distinct (map fst fs) \<Longrightarrow> map_of fs k = Some (Some v) \<Longrightarrow> required (present_members fs) k dec = dec v"
  by (simp add: required_def map_of_present_members)

lemma audit_of_to_value: "audit_of_value (audit_to_value r) = Some r"
proof -
  let ?m = "present_members (ar_fields r)"
  have "distinct (filter (\<lambda>k. k \<in> set audit_record_names) (al_keys ?m))"
    unfolding keys_present_members using distinct_ar_fields [of r]
    by (intro distinct_filter distinct_map_filter) 
  then have m: "struct_members audit_record_names (audit_to_value r) = Some ?m"
    by (simp add: struct_members_def audit_to_value_def)
  note req = required_present [OF distinct_ar_fields] and opt = opt_member_present [OF distinct_ar_fields]
  have f: "required ?m ''ts'' as_str = Some (ar_ts r)" "required ?m ''kind'' de_kind = Some (ar_kind r)"
    "opt_member ?m ''peer'' as_str = Some (ar_peer r)" "opt_member ?m ''service'' as_str = Some (ar_service r)"
    "opt_member ?m ''method'' as_str = Some (ar_method r)" "opt_member ?m ''tool'' as_str = Some (ar_tool r)"
    "opt_member ?m ''args_hash'' as_str = Some (ar_args_hash r)" "opt_member ?m ''status'' as_str = Some (ar_status r)"
    "opt_member ?m ''event'' as_str = Some (ar_event r)" "opt_member ?m ''target'' as_str = Some (ar_target r)"
    "opt_member ?m ''principal'' as_str = Some (ar_principal r)"
    "opt_member ?m ''bytes_out'' de_word = Some (ar_bytes_out r)"
    "opt_member ?m ''latency_ms'' de_word = Some (ar_latency_ms r)"
    by (subst req, simp add: ar_fields_def, simp add: de_kind_def
      | rule opt [where enc = JStr], simp add: ar_fields_def, simp
      | rule opt [where enc = "\<lambda>n. JNum (uint n)"], simp add: ar_fields_def, simp)+
  show ?thesis by (simp add: audit_of_value_def m f)
qed

subsection \<open>The digest of a request's arguments\<close>

text \<open>
  Every reserved key is left out, by prefix; a \<open>_meta\<close> that held only reserved keys goes too. A
  \<open>_meta\<close> with none is hashed as it is.
\<close>

definition hashed_params :: "json \<Rightarrow> json" where
  "hashed_params params =
     (case Option.bind (jget ''_meta'' params) as_object of
        Some meta \<Rightarrow>
          (if \<exists>k \<in> set (al_keys meta). reserved_key k then
             (let kept = filter (\<lambda>p. \<not> reserved_key (fst p)) meta;
                  owned = jupdate [''_meta''] (\<lambda>_. JObj kept) params
              in if kept = [] then (case as_object owned of Some m \<Rightarrow> JObj (jobj_remove ''_meta'' m) | None \<Rightarrow> owned)
                 else owned)
           else params)
      | None \<Rightarrow> params)"

definition args_hash :: "libs \<Rightarrow> json \<Rightarrow> string" where
  "args_hash L params = ''blake3:'' @ hexlower L (blake3_hash L (json_to_vec L (hashed_params params)))"

subsection \<open>Time stamps\<close>

text \<open>
  Days since 1970-01-01 to a civil date. The two divisions written over \<open>i64\<close> truncate towards
  zero in the source; the era's is arranged to round down, the others only see non-negative values.
  Here the days are unbounded integers: the first addition overflows \<open>i64\<close> only for the last 719468
  values of that type, and the caller divides a count of seconds held in an \<open>i64\<close> by 86400.
\<close>

definition civil_from_days :: "int \<Rightarrow> int \<times> int \<times> int" where
  "civil_from_days days =
     (let z = days + 719468;
          era = (if z \<ge> 0 then z div 146097 else - ((146096 - z) div 146097));
          doe = z - era * 146097;
          yoe = (doe - doe div 1460 + doe div 36524 - doe div 146096) div 365;
          y = yoe + era * 400;
          doy = doe - (365 * yoe + yoe div 4 - yoe div 100);
          mp = (5 * doy + 2) div 153;
          d = doy - (153 * mp + 2) div 5 + 1;
          m = (if mp < 10 then mp + 3 else mp - 9)
      in (if m \<le> 2 then y + 1 else y, m, d))"

text \<open>\<open>{:0w}\<close>: the width counts the sign.\<close>

definition pad_nat :: "nat \<Rightarrow> nat \<Rightarrow> string" where
  "pad_nat w n = replicate (w - length (show_nat n)) (CHR ''0'') @ show_nat n"

definition pad_int :: "nat \<Rightarrow> int \<Rightarrow> string" where
  "pad_int w n = (if n < 0 then CHR ''-'' # pad_nat (w - 1) (nat (- n)) else pad_nat w (nat n))"

definition fmt_rfc3339_millis :: "nat \<Rightarrow> string" where
  "fmt_rfc3339_millis unix_millis =
     (let secs = wrap64 (int (unix_millis div 1000));
          millis = unix_millis mod 1000;
          days = secs div 86400;
          secs_of_day = secs mod 86400;
          h = secs_of_day div 3600;
          mi = secs_of_day mod 3600 div 60;
          s = secs_of_day mod 60
      in case civil_from_days days of (year, month, day) \<Rightarrow>
        pad_int 4 year @ ''-'' @ pad_int 2 month @ ''-'' @ pad_int 2 day @ ''T'' @
        pad_int 2 h @ '':'' @ pad_int 2 mi @ '':'' @ pad_int 2 s @ ''.'' @ pad_nat 3 millis @ ''Z'')"

end
