(* ===== verification/Calendar.thy ===== *)
theory Calendar
  imports Audit_Record
begin

text \<open>
  The civil date arithmetic against the Gregorian calendar: a reference that knows only the lengths
  of the months and the leap rule, and counts one day at a time.
\<close>

definition leap_year :: "int \<Rightarrow> bool" where
  "leap_year y \<longleftrightarrow> 4 dvd y \<and> (\<not> 100 dvd y \<or> 400 dvd y)"

definition month_length :: "int \<Rightarrow> int \<Rightarrow> int" where
  "month_length y m =
     (if m = 2 then (if leap_year y then 29 else 28)
      else if m \<in> {4, 6, 9, 11} then 30 else 31)"

fun next_day :: "int \<times> int \<times> int \<Rightarrow> int \<times> int \<times> int" where
  "next_day (y, m, d) =
     (if d < month_length y m then (y, m, d + 1)
      else if m < 12 then (y, m + 1, 1)
      else (y + 1, 1, 1))"

fun real_date :: "int \<times> int \<times> int \<Rightarrow> bool" where
  "real_date (y, m, d) \<longleftrightarrow> 1 \<le> m \<and> m \<le> 12 \<and> 1 \<le> d \<and> d \<le> month_length y m"

text \<open>A day by its 400-year era, the year of it (from March) and the day of that year.\<close>

definition year_start :: "int \<Rightarrow> int" where
  "year_start yoe = 365 * yoe + yoe div 4 - yoe div 100"

definition last_doy :: "int \<Rightarrow> int" where
  "last_doy yoe = (if leap_year (yoe + 1) then 365 else 364)"

definition parts_ok :: "int \<Rightarrow> int \<Rightarrow> bool" where
  "parts_ok yoe doy \<longleftrightarrow> 0 \<le> yoe \<and> yoe < 400 \<and> 0 \<le> doy \<and> doy \<le> last_doy yoe"

definition of_parts :: "int \<Rightarrow> int \<Rightarrow> int \<Rightarrow> int \<times> int \<times> int" where
  "of_parts era yoe doy =
     (let mp = (5 * doy + 2) div 153;
          m = (if mp < 10 then mp + 3 else mp - 9);
          y = yoe + era * 400
      in (if m \<le> 2 then y + 1 else y, m, doy - (153 * mp + 2) div 5 + 1))"

lemma leap_shift [simp]: "leap_year (y + 400 * k) = leap_year y"
proof -
  have "d dvd (400::int) \<Longrightarrow> d dvd y + 400 * k \<longleftrightarrow> d dvd y" for d by (simp add: dvd_add_left_iff)
  from this [of 4] this [of 100] this [of 400] show ?thesis by (simp add: leap_year_def)
qed

lemma leap_of_centuries:
  assumes "0 \<le> a" "a \<le> 3" "0 \<le> b" "b \<le> 24" "0 \<le> c" "c \<le> 3"
  shows "leap_year (100 * a + 4 * b + c + 1) \<longleftrightarrow> c = 3 \<and> (b \<noteq> 24 \<or> a = 3)"
proof (cases "c = 3")
  case False
  have "100 * a + 4 * b + c + 1 = 4 * (25 * a + b) + (c + 1)" by simp
  then have "4 dvd 100 * a + 4 * b + c + 1 \<longleftrightarrow> 4 dvd c + 1" by (metis dvd_add_right_iff dvd_triv_left)
  moreover have "c = 0 \<or> c = 1 \<or> c = 2" using assms(5,6) False by linarith
  ultimately show ?thesis using False by (auto simp: leap_year_def)
next
  case c: True
  have n: "100 * a + 4 * b + c + 1 = 100 * a + 4 * (b + 1)" using c by simp
  have "100 dvd 4 * (b + 1) \<Longrightarrow> b = 24"
  proof (elim dvdE)
    fix k assume "4 * (b + 1) = 100 * k"
    then have "b + 1 = 25 * k" by simp
    then show "b = 24" using assms(3,4) by presburger
  qed
  then have h: "100 dvd 100 * a + 4 * (b + 1) \<longleftrightarrow> b = 24" by (auto simp: dvd_add_right_iff)
  have "100 * a + 4 * (b + 1) = 4 * (25 * a + b + 1)" by simp
  then have f: "4 dvd 100 * a + 4 * (b + 1)" by (metis dvd_triv_left)
  have "a = 0 \<or> a = 1 \<or> a = 2 \<or> a = 3" using assms(1,2) by linarith
  then have "b = 24 \<Longrightarrow> 400 dvd 100 * a + 4 * (b + 1) \<longleftrightarrow> a = 3" by auto
  then show ?thesis unfolding leap_year_def n using h f c by auto
qed

lemma centuries:
  assumes "0 \<le> (yoe::int)" "yoe < 400"
  obtains a b c where "yoe = 100 * a + 4 * b + c" "0 \<le> a" "a \<le> 3" "0 \<le> b" "b \<le> 24" "0 \<le> c" "c \<le> 3"
proof
  have "yoe mod 100 mod 4 = yoe mod 4" by (simp add: mod_mod_cancel)
  then show "yoe = 100 * (yoe div 100) + 4 * (yoe mod 100 div 4) + yoe mod 4"
    using mult_div_mod_eq [of 100 yoe] mult_div_mod_eq [of 4 "yoe mod 100"] by linarith
  show "0 \<le> yoe div 100" "yoe div 100 \<le> 3" using assms by simp_all
  show "0 \<le> yoe mod 100 div 4" "yoe mod 100 div 4 \<le> 24" by simp_all
  show "0 \<le> yoe mod 4" "yoe mod 4 \<le> 3" by simp_all
qed

lemma year_start_centuries:
  assumes "0 \<le> b" "b \<le> 24" "0 \<le> c" "c \<le> (3::int)"
  shows "year_start (100 * a + 4 * b + c) = 36524 * a + 1461 * b + 365 * c"
proof -
  have "(100 * a + 4 * b + c) div 4 = (c + 4 * (25 * a + b)) div 4" by (simp add: algebra_simps)
  also have "\<dots> = 25 * a + b" using assms by simp
  finally have f: "(100 * a + 4 * b + c) div 4 = 25 * a + b" .
  have "(100 * a + 4 * b + c) div 100 = ((4 * b + c) + 100 * a) div 100" by (simp add: algebra_simps)
  also have "\<dots> = a" using assms by simp
  finally show ?thesis using f by (simp add: year_start_def)
qed

text \<open>The quotient by which the source finds the year of the era.\<close>

lemma year_of_era:
  assumes "parts_ok yoe doy" and d: "doe = year_start yoe + doy"
  shows "(doe - doe div 1460 + doe div 36524 - doe div 146096) div 365 = yoe"
proof -
  obtain a b c where y: "yoe = 100 * a + 4 * b + c" and r: "0 \<le> a" "a \<le> 3" "0 \<le> b" "b \<le> 24" "0 \<le> c" "c \<le> 3"
    using assms(1) centuries [of yoe] by (auto simp: parts_ok_def)
  have doe: "doe = 36524 * a + 1461 * b + 365 * c + doy" using d y year_start_centuries [of b c a] r by simp
  have doy: "0 \<le> doy" "doy \<le> 365" "doy = 365 \<Longrightarrow> c = 3 \<and> (b \<noteq> 24 \<or> a = 3)"
    using assms(1) leap_of_centuries [OF r] by (auto simp: parts_ok_def last_doy_def y split: if_splits)
  define q where "q = doe div 1460 - 25 * a - b"
  have "doe = 1460 * (25 * a + b) + (24 * a + b + 365 * c + doy)" using doe by simp
  then have q: "q = (24 * a + b + 365 * c + doy) div 1460" by (simp add: q_def)
  have le: "1461 * b + 365 * c + doy \<le> 36524" using r doy by (cases "b = 24"; cases "c = 3"; cases "doy = 365") auto
  have cent: "doe div 36524 - doe div 146096 = a"
  proof (cases "1461 * b + 365 * c + doy = 36524")
    case True
    have "b = 24 \<and> c = 3 \<and> doy = 365" using True r doy by linarith
    then have "a = 3" using doy by simp
    then have "doe = 146096" using True doe by simp
    then show ?thesis using \<open>a = 3\<close> by simp
  next
    case False
    then have l: "0 \<le> 1461 * b + 365 * c + doy" "1461 * b + 365 * c + doy < 36524" using le r doy by auto
    have "doe div 36524 = ((1461 * b + 365 * c + doy) + 36524 * a) div 36524" by (simp add: doe algebra_simps)
    also have "\<dots> = a" using l by simp
    finally have "doe div 36524 = a" .
    moreover have "doe div 146096 = 0" using doe r l by simp
    ultimately show ?thesis by simp
  qed
  have q2: "0 \<le> doy - q \<and> doy - q < 365"
  proof (cases "24 * a + b + 365 * c + doy < 1460")
    case True
    then have "q = 0" using q r doy by simp
    moreover have "doy \<noteq> 365" using True doy r by auto
    ultimately show ?thesis using doy by simp
  next
    case False
    moreover have "24 * a + b + 365 * c + doy < 2 * 1460" using r doy by linarith
    ultimately have "q = 1" unfolding q by linarith
    moreover have "doy \<noteq> 0" using False r by auto
    ultimately show ?thesis using doy by simp
  qed
  have "doe - doe div 1460 + doe div 36524 - doe div 146096 = 365 * yoe + (doy - q)"
    using cent doe q_def y by linarith
  then show ?thesis using q2 by simp
qed

lemma parts_exist:
  assumes "0 \<le> doe" "doe < 146097"
  obtains yoe doy where "parts_ok yoe doy" "doe = year_start yoe + doy"
proof -
  define a where "a = (if doe = 146096 then 3 else doe div 36524)"
  define r1 where "r1 = doe - 36524 * a"
  define b where "b = r1 div 1461"
  define r2 where "r2 = r1 - 1461 * b"
  define c where "c = (if r2 = 1460 then 3 else r2 div 365)"
  have a: "0 \<le> a" "a \<le> 3" "0 \<le> r1" "r1 \<le> 36524" "r1 = 36524 \<Longrightarrow> a = 3" using assms by (auto simp: a_def r1_def)
  have b: "0 \<le> b" "b \<le> 24" "0 \<le> r2" "r2 \<le> 1460" "r2 = 1460 \<Longrightarrow> b \<noteq> 24 \<or> a = 3"
    using a by (auto simp: b_def r2_def)
  have c: "0 \<le> c \<and> c \<le> 3 \<and> 0 \<le> r2 - 365 * c \<and> r2 - 365 * c \<le> 365 \<and> (r2 - 365 * c = 365 \<longrightarrow> r2 = 1460 \<and> c = 3)"
  proof (cases "r2 = 1460")
    case True
    then show ?thesis by (simp add: c_def)
  next
    case False
    then have c: "c = r2 div 365" by (simp add: c_def)
    then have m: "r2 - 365 * c = r2 mod 365" by (simp add: minus_mult_div_eq_mod)
    have l: "r2 mod 365 < 365" "0 \<le> r2 mod 365" by simp_all
    have "c \<le> 3" "0 \<le> c" unfolding c using False b(3,4) by simp_all
    then show ?thesis unfolding m using l by auto
  qed
  have c3: "0 \<le> c" "c \<le> 3" using c by blast+
  show ?thesis
  proof
    have "year_start (100 * a + 4 * b + c) = 36524 * a + 1461 * b + 365 * c"
      by (rule year_start_centuries [OF b(1,2) c3])
    then show "doe = year_start (100 * a + 4 * b + c) + (r2 - 365 * c)"
      unfolding r2_def r1_def by simp
    define doy where "doy = r2 - 365 * c"
    have d: "0 \<le> doy" "doy \<le> 365" "doy = 365 \<Longrightarrow> c = 3 \<and> (b \<noteq> 24 \<or> a = 3)" using b(5) c unfolding doy_def by blast+
    have y: "0 \<le> 100 * a + 4 * b + c" "100 * a + 4 * b + c < 400" using a(1,2) b(1,2) c3 by linarith+
    have leap: "leap_year (100 * a + 4 * b + c + 1) \<longleftrightarrow> c = 3 \<and> (b \<noteq> 24 \<or> a = 3)"
      by (rule leap_of_centuries [OF a(1,2) b(1,2) c3])
    have "doy \<le> last_doy (100 * a + 4 * b + c)"
    proof (cases "doy = 365")
      case True
      then show ?thesis using d(3) unfolding last_doy_def leap by simp
    next
      case False
      then show ?thesis using d(2) unfolding last_doy_def by (cases "leap_year (100 * a + 4 * b + c + 1)") simp_all
    qed
    then show "parts_ok (100 * a + 4 * b + c) (r2 - 365 * c)"
      using d(1) y unfolding parts_ok_def doy_def by blast
  qed
qed

lemma civil_of_parts:
  assumes "parts_ok yoe doy" and z: "days + 719468 = 146097 * era + year_start yoe + doy"
  shows "civil_from_days days = of_parts era yoe doy"
proof -
  define doe where "doe = year_start yoe + doy"
  obtain a b c where y: "yoe = 100 * a + 4 * b + c" and r: "0 \<le> a" "a \<le> 3" "0 \<le> b" "b \<le> 24" "0 \<le> c" "c \<le> 3"
    using assms(1) centuries [of yoe] by (auto simp: parts_ok_def)
  have doy: "0 \<le> doy" "doy \<le> 365" "doy = 365 \<Longrightarrow> c = 3 \<and> (b \<noteq> 24 \<or> a = 3)"
    using assms(1) leap_of_centuries [OF r] by (auto simp: parts_ok_def last_doy_def y split: if_splits)
  have doe: "0 \<le> doe" "doe < 146097"
    unfolding doe_def y year_start_centuries [OF r(3-6)] using r doy by (cases "doy = 365"; auto)+
  define z' where "z' = days + 719468"
  have z': "z' = 146097 * era + doe" using z by (simp add: z'_def doe_def)
  have era: "(if z' \<ge> 0 then z' div 146097 else - ((146096 - z') div 146097)) = era"
  proof (cases "z' \<ge> 0")
    case True
    then show ?thesis using z' doe by simp
  next
    case False
    have "146096 - z' = (146096 - doe) + 146097 * (- era)" using z' by simp
    then have "(146096 - z') div 146097 = - era" using doe by (simp only: div_mult_self2)
    then show ?thesis using False by simp
  qed
  have d: "z' - era * 146097 = doe" using z' by simp
  have doy: "doe - (365 * yoe + yoe div 4 - yoe div 100) = doy" by (simp add: doe_def year_start_def)
  show ?thesis
    unfolding civil_from_days_def Let_def z'_def [symmetric] era d year_of_era [OF assms(1) doe_def] doy
    by (simp only: of_parts_def Let_def)
qed

lemma parts_of:
  obtains era yoe doy where "parts_ok yoe doy" "days + 719468 = 146097 * era + year_start yoe + doy"
proof -
  have "0 \<le> (days + 719468) mod 146097" "(days + 719468) mod 146097 < 146097" by simp_all
  then obtain yoe doy where "parts_ok yoe doy" "(days + 719468) mod 146097 = year_start yoe + doy" by (rule parts_exist)
  then show ?thesis using that [of yoe doy "(days + 719468) div 146097"] by (metis add.assoc mult_div_mod_eq)
qed

lemma civil_from_days_parts:
  obtains era yoe doy where "parts_ok yoe doy" "days + 719468 = 146097 * era + year_start yoe + doy"
    "civil_from_days days = of_parts era yoe doy"
  using parts_of [of days] civil_of_parts by metis

subsection \<open>The day after\<close>

lemma year_start_Suc:
  assumes "0 \<le> yoe" "yoe < 399"
  shows "year_start (yoe + 1) = year_start yoe + last_doy yoe + 1"
proof -
  obtain a b c where y: "yoe = 100 * a + 4 * b + c" and r: "0 \<le> a" "a \<le> 3" "0 \<le> b" "b \<le> 24" "0 \<le> c" "c \<le> 3"
    using assms centuries [of yoe] by auto
  note e = leap_of_centuries [OF r, folded y] year_start_centuries [OF r(3-6), of a, folded y]
  show ?thesis
  proof (cases "c = 3")
    case False
    then have "year_start (100 * a + 4 * b + (c + 1)) = 36524 * a + 1461 * b + 365 * (c + 1)"
      by (intro year_start_centuries) (use r in simp_all)
    then show ?thesis using False e y by (simp add: last_doy_def add.assoc)
  next
    case c: True
    show ?thesis
    proof (cases "b = 24")
      case False
      then have "year_start (100 * a + 4 * (b + 1) + 0) = 36524 * a + 1461 * (b + 1) + 365 * 0"
        by (intro year_start_centuries) (use r in simp_all)
      moreover have "100 * a + 4 * (b + 1) + 0 = yoe + 1" using c y by simp
      ultimately have "year_start (yoe + 1) = 36524 * a + 1461 * (b + 1)" by (simp only: add_0_right mult_zero_right)
      then show ?thesis using False c e by (simp add: last_doy_def)
    next
      case True
      then have "a \<noteq> 3" using assms c y by simp
      have "year_start (100 * (a + 1) + 4 * 0 + 0) = 36524 * (a + 1) + 1461 * 0 + 365 * 0"
        by (intro year_start_centuries) simp_all
      moreover have "100 * (a + 1) + 4 * 0 + 0 = yoe + 1" using c True y by simp
      ultimately have "year_start (yoe + 1) = 36524 * (a + 1)" by (simp only: add_0_right mult_zero_right)
      then show ?thesis using True c e \<open>a \<noteq> 3\<close> by (simp add: last_doy_def)
    qed
  qed
qed

text \<open>The month of a day of the year: one of twelve intervals.\<close>

definition month_starts :: "(int \<times> int \<times> int) list" where
  "month_starts = [(0, 0, 31), (1, 31, 30), (2, 61, 31), (3, 92, 30), (4, 122, 31), (5, 153, 31), (6, 184, 30),
     (7, 214, 31), (8, 245, 30), (9, 275, 31), (10, 306, 31), (11, 337, 29)]"

lemma month_of_doy:
  assumes "0 \<le> doy" "doy \<le> 365"
  obtains mp start len where "(mp, start, len) \<in> set month_starts" "start \<le> doy" "doy < start + len"
    "(5 * doy + 2) div 153 = mp" "(153 * mp + 2) div 5 = start"
proof -
  define mp where "mp = (5 * doy + 2) div 153"
  have b: "153 * mp \<le> 5 * doy + 2" "5 * doy + 2 < 153 * mp + 153"
    using mult_div_mod_eq [of 153 "5 * doy + 2"] pos_mod_bound [of 153 "5 * doy + 2"] pos_mod_sign [of 153 "5 * doy + 2"]
    unfolding mp_def by linarith+
  have "0 \<le> mp" "mp \<le> 11" using assms unfolding mp_def by simp_all
  then have "mp \<in> {0, 1, 2, 3, 4, 5, 6, 7, 8, 9, 10, 11}" by (simp only: insert_iff empty_iff) presburger
  then have "\<exists>start len. (mp, start, len) \<in> set month_starts \<and> start \<le> doy \<and> doy < start + len \<and>
     (153 * mp + 2) div 5 = start"
    using b assms by (elim insertE; simp add: month_starts_def)
  then show ?thesis using that mp_def by blast
qed


lemma next_within:
  "d < month_length y m \<Longrightarrow> next_day (y, m, d) = (y, m, d + 1)"
  "d = month_length y m \<Longrightarrow> m < 12 \<Longrightarrow> next_day (y, m, d) = (y, m + 1, 1)"
  "d = month_length y 12 \<Longrightarrow> next_day (y, 12, d) = (y + 1, 1, 1)"
  by simp_all

lemma of_parts_month:
  assumes "(mp, start, len) \<in> set month_starts" "start \<le> doy" "doy < start + len"
  shows "of_parts era yoe doy = (if mp < 10 then (yoe + era * 400, mp + 3, doy - start + 1)
    else (yoe + era * 400 + 1, mp - 9, doy - start + 1))"
proof -
  have "(5 * doy + 2) div 153 = mp" "(153 * mp + 2) div 5 = start" "0 \<le> mp" "mp \<le> 11"
    using assms by (auto simp: month_starts_def)
  then show ?thesis by (simp add: of_parts_def Let_def)
qed

lemma of_parts_next:
  assumes ok: "parts_ok yoe doy"
  shows "next_day (of_parts era yoe doy) = (if doy < last_doy yoe then of_parts era yoe (doy + 1) else of_parts era (yoe + 1) 0)"
    and "real_date (of_parts era yoe doy)"
proof -
  have r: "0 \<le> doy" "doy \<le> 365" using ok by (auto simp: parts_ok_def last_doy_def split: if_splits)
  obtain mp start len where m: "(mp, start, len) \<in> set month_starts" "start \<le> doy" "doy < start + len"
    using month_of_doy [OF r] by metis
  have leap: "leap_year (yoe + era * 400 + 1) = leap_year (yoe + 1)"
    using leap_shift [of "yoe + 1" era] by (simp add: add_ac mult.commute)
  have now: "of_parts era yoe doy = (if mp < 10 then (yoe + era * 400, mp + 3, doy - start + 1)
    else (yoe + era * 400 + 1, mp - 9, doy - start + 1))" using of_parts_month [OF m] .
  have next_same: "of_parts era yoe (doy + 1) = (if mp < 10 then (yoe + era * 400, mp + 3, doy - start + 2)
    else (yoe + era * 400 + 1, mp - 9, doy - start + 2))" if "doy + 1 < start + len"
    using of_parts_month [OF m(1), of "doy + 1" era yoe] m that by simp
  have next_month: "of_parts era yoe (doy + 1) = (if mp < 9 then (yoe + era * 400, mp + 4, 1)
    else (yoe + era * 400 + 1, mp - 8, 1))" if "doy + 1 = start + len" "mp < 11"
    using m that by (auto simp: month_starts_def of_parts_def Let_def)
  have next_year: "of_parts era (yoe + 1) 0 = (yoe + era * 400 + 1, 3, 1)"
    by (simp add: of_parts_def Let_def)
  have doy_le: "doy \<le> last_doy yoe" using ok by (simp add: parts_ok_def)
  show "real_date (of_parts era yoe doy)"
    unfolding now using m doy_le leap
    by (auto simp: month_starts_def month_length_def last_doy_def split: if_splits)
  show "next_day (of_parts era yoe doy) = (if doy < last_doy yoe then of_parts era yoe (doy + 1) else of_parts era (yoe + 1) 0)"
  proof (cases "mp = 11")
    case True
    then have s: "start = 337" "len = 29" using m by (auto simp: month_starts_def)
    show ?thesis
    proof (cases "doy < last_doy yoe")
      case l: True
      then have "doy + 1 < start + len" using s by (simp add: last_doy_def split: if_splits)
      then show ?thesis unfolding now using next_same True l s leap
        by (auto simp: month_length_def last_doy_def split: if_splits)
    next
      case False
      then have "doy = last_doy yoe" using doy_le by simp
      then show ?thesis unfolding now using next_year True s leap
        by (auto simp: month_length_def last_doy_def)
    qed
  next
    case False
    then have l: "doy < last_doy yoe" and ml: "mp < 11"
      using m by (auto simp: month_starts_def last_doy_def split: if_splits)
    have len: "(if mp < 10 then month_length (yoe + era * 400) (mp + 3) else month_length (yoe + era * 400 + 1) (mp - 9)) = len"
      using m False by (auto simp: month_starts_def month_length_def)
    show ?thesis
    proof (cases "doy + 1 = start + len")
      case True
      have "(if mp < 10 then mp + 3 else mp - 9) < 12 \<or> mp = 9" using m False by (auto simp: month_starts_def)
      then show ?thesis unfolding now using next_month [OF True ml] l len True by (auto split: if_splits)
    next
      case False
      then have "doy + 1 < start + len" using m by simp
      then show ?thesis unfolding now using next_same l len by (auto split: if_splits)
    qed
  qed
qed


lemma civil_Suc: "civil_from_days (z + 1) = next_day (civil_from_days z)"
proof -
  obtain era yoe doy where ok: "parts_ok yoe doy" and z: "z + 719468 = 146097 * era + year_start yoe + doy"
    and civil: "civil_from_days z = of_parts era yoe doy"
    by (rule civil_from_days_parts [of z])
  show ?thesis
  proof (cases "doy < last_doy yoe")
    case True
    then have "civil_from_days (z + 1) = of_parts era yoe (doy + 1)"
      using ok z by (intro civil_of_parts) (simp_all add: parts_ok_def)
    then show ?thesis using True civil of_parts_next(1) [OF ok, of era] by simp
  next
    case l: False
    then have doy: "doy = last_doy yoe" using ok by (simp add: parts_ok_def)
    have civ: "next_day (civil_from_days z) = of_parts era (yoe + 1) 0" using l civil of_parts_next(1) [OF ok, of era] by simp
    show ?thesis
    proof (cases "yoe < 399")
      case True
      then have "civil_from_days (z + 1) = of_parts era (yoe + 1) 0"
        using ok z doy year_start_Suc [of yoe] by (intro civil_of_parts) (simp_all add: parts_ok_def last_doy_def)
      then show ?thesis using civ by simp
    next
      case False
      then have yoe: "yoe = 399" using ok by (simp add: parts_ok_def)
      then have "doy = 365" "year_start yoe = 145731" using doy by (simp_all add: last_doy_def leap_year_def year_start_def)
      then have "civil_from_days (z + 1) = of_parts (era + 1) 0 0"
        using z by (intro civil_of_parts) (simp_all add: parts_ok_def last_doy_def year_start_def)
      also have "\<dots> = of_parts era (yoe + 1) 0" by (simp add: of_parts_def Let_def yoe)
      finally show ?thesis using civ by simp
    qed
  qed
qed

lemma civil_epoch: "civil_from_days 0 = (1970, 1, 1)"
  by code_simp

lemma civil_real: "real_date (civil_from_days z)"
proof -
  obtain era yoe doy where "parts_ok yoe doy" and civil: "civil_from_days z = of_parts era yoe doy"
    by (rule civil_from_days_parts [of z])
  then show ?thesis unfolding civil by (intro of_parts_next(2))
qed

text \<open>
  C36. The date of an audit record is the Gregorian one: day 0 is 1970-01-01, every day number has a
  date that exists, and the date of the next day number is the day after, by the lengths of the
  months and the leap rule.
\<close>

theorem audit_dates_are_gregorian:
  "civil_from_days 0 = (1970, 1, 1) \<and> real_date (civil_from_days z) \<and>
   civil_from_days (z + 1) = next_day (civil_from_days z)"
  using civil_epoch civil_real [of z] civil_Suc [of z] by blast

end
