(* ===== verification/Backend.thy ===== *)
theory Backend
  imports Audit_Record Rate_Limits Codec Gate Runs
begin

text \<open>
  A served session (\<open>node/src/backends\<close>): the frames a caller sends are stripped of what only the
  daemon may say, stamped with the authenticated caller, counted against the caller's rate and noted
  in the audit log before they reach the local server; the server's answers complete the notes.

  The two directions of the pump run concurrently and share the auditor, so a session is a run of the
  step relation \<open>pump_step\<close>, one step per frame of either direction, in any interleaving. Clocks (the
  \<open>Instant\<close> in nanoseconds and the time stamp of the record) come with each step, and so does whether
  a write succeeded.
\<close>

subsection \<open>The caller a frame is attributed to\<close>

fun set_member :: "string \<Rightarrow> json \<Rightarrow> json \<Rightarrow> json" where
  "set_member k v (JObj m) = JObj (al_insert k v m)"
| "set_member k v w = w"

text \<open>Where \<open>_meta\<close> can be written: \<open>None\<close> for positional parameters.\<close>

definition with_params_object :: "json \<Rightarrow> json option" where
  "with_params_object frame =
     (case jget ''params'' frame of
        None \<Rightarrow> Some (set_member ''params'' (JObj []) frame)
      | Some JNull \<Rightarrow> Some (set_member ''params'' (JObj []) frame)
      | Some (JObj p) \<Rightarrow> Some frame
      | Some _ \<Rightarrow> None)"

definition with_meta_object :: "json \<Rightarrow> json" where
  "with_meta_object params =
     (case Option.bind (jget ''_meta'' params) as_object of
        Some m \<Rightarrow> params
      | None \<Rightarrow> set_member ''_meta'' (JObj []) params)"

definition stamp_peer :: "json \<Rightarrow> json \<Rightarrow> json" where
  "stamp_peer peer meta = foldl (\<lambda>m key. set_member key peer m) meta PEER_KEYS"

definition inject_peer_one :: "json \<Rightarrow> json \<Rightarrow> json" where
  "inject_peer_one peer frame =
     (case jget ''method'' frame of
        Some (JStr _) \<Rightarrow>
          (case with_params_object frame of
             None \<Rightarrow> frame
           | Some f \<Rightarrow> jupdate meta_path (stamp_peer peer) (jupdate [''params''] with_meta_object f))
      | _ \<Rightarrow> frame)"

function inject_peer :: "json \<Rightarrow> nat \<Rightarrow> json \<Rightarrow> json" where
  "inject_peer peer depth frame =
     (case frame of
        JArr batch \<Rightarrow> (if depth < 8 then JArr (map (inject_peer peer (depth + 1)) batch) else JArr batch)
      | _ \<Rightarrow> inject_peer_one peer frame)"
  by pat_completeness auto
termination by (relation "measure (\<lambda>(_, d, _). 8 - d)") auto

declare inject_peer.simps [simp del]

definition sanitize_caller_frame :: "json option \<Rightarrow> json \<Rightarrow> bool \<times> json" where
  "sanitize_caller_frame peer_meta frame =
     (let (impersonating, f) = strip_impersonating_client_info (strip_reserved_meta frame)
      in (impersonating, case peer_meta of None \<Rightarrow> f | Some peer \<Rightarrow> inject_peer peer 0 f))"

definition opt_str :: "string option \<Rightarrow> json" where
  "opt_str x = (case x of None \<Rightarrow> JNull | Some s \<Rightarrow> JStr s)"

definition peer_meta_value :: "libs \<Rightarrow> peer_identity \<Rightarrow> json" where
  "peer_meta_value L i = JObj [(''eid'', JStr (principal L (pi_endpoint i))), (''name'', JStr (pi_name i)),
     (''user_id'', opt_str (pi_user_id i)), (''groups'', ser_strings (pi_groups i))]"

definition audit_peer :: "peer_identity \<Rightarrow> string" where
  "audit_peer i = (case pi_user_id i of Some u \<Rightarrow> u | None \<Rightarrow> pi_name i)"

definition session_principal :: "libs \<Rightarrow> peer_identity option \<Rightarrow> string option" where
  "session_principal L identity = map_option (\<lambda>i. principal L (pi_endpoint i)) identity"

subsection \<open>Noting requests and answers\<close>

record pending_request =
  pd_method :: string
  pd_tool :: "string option"
  pd_args_hash :: string
  pd_started :: nat

record auditor =
  au_peer :: "string option"
  au_service :: string
  au_principal :: "string option"
  au_pending :: "bytes \<rightharpoonup> pending_request"
  au_drop_reported :: bool
  au_log :: "audit_record list"

definition auditor_new :: "string option \<Rightarrow> string \<Rightarrow> string option \<Rightarrow> audit_record list \<Rightarrow> auditor" where
  "auditor_new peer service prin records = \<lparr>au_peer = peer, au_service = service, au_principal = prin,
     au_pending = Map.empty, au_drop_reported = False, au_log = records\<rparr>"

text \<open>
  What the auditor hands to the sink, in order. The sink's channel is bounded and a full one drops the
  record (\<open>try_send\<close>); the channel and its drops are in theory \<open>Audit_Log\<close>.
\<close>

definition sink_record :: "audit_record \<Rightarrow> auditor \<Rightarrow> auditor" where
  "sink_record r a = a\<lparr>au_log := au_log a @ [r]\<rparr>"

definition frame_method :: "json \<Rightarrow> string option" where
  "frame_method frame = Option.bind (jget ''method'' frame) as_str"

definition frame_tool :: "string \<Rightarrow> json \<Rightarrow> string option" where
  "frame_tool meth frame =
     (if meth = ''tools/call'' then Option.bind (jpointer [''params'', ''name''] frame) as_str else None)"

definition frame_params :: "json \<Rightarrow> json" where
  "frame_params frame = (case jget ''params'' frame of None \<Rightarrow> JNull | Some p \<Rightarrow> p)"

text \<open>An id that is present and not null, and the text it is remembered under.\<close>

definition frame_id :: "json \<Rightarrow> json option" where
  "frame_id frame = (case jget ''id'' frame of None \<Rightarrow> None | Some JNull \<Rightarrow> None | Some i \<Rightarrow> Some i)"

definition notification_of :: "libs \<Rightarrow> string \<Rightarrow> auditor \<Rightarrow> string \<Rightarrow> json \<Rightarrow> audit_record" where
  "notification_of L ts a meth frame = proxied_notification ts (au_peer a) (au_service a) meth
     (frame_tool meth frame) (args_hash L (frame_params frame)) (au_principal a)"

definition on_dropped :: "libs \<Rightarrow> string \<Rightarrow> json \<Rightarrow> auditor \<Rightarrow> auditor" where
  "on_dropped L ts frame a =
     (if au_drop_reported a then a
      else let a = a\<lparr>au_drop_reported := True\<rparr>
           in case frame_method frame of
                None \<Rightarrow> a
              | Some meth \<Rightarrow> sink_record (ar_with_status ''rate_limited'' (notification_of L ts a meth frame)) a)"

definition on_request :: "libs \<Rightarrow> nat \<Rightarrow> string \<Rightarrow> json \<Rightarrow> auditor \<Rightarrow> auditor" where
  "on_request L now ts frame a =
     (let a = a\<lparr>au_drop_reported := False\<rparr>
      in case frame_method frame of
           None \<Rightarrow> a
         | Some meth \<Rightarrow>
             (case frame_id frame of
                Some i \<Rightarrow> a\<lparr>au_pending := (au_pending a)(json_to_vec L i \<mapsto>
                    \<lparr>pd_method = meth, pd_tool = frame_tool meth frame,
                     pd_args_hash = args_hash L (frame_params frame), pd_started = now\<rparr>)\<rparr>
              | None \<Rightarrow> sink_record (notification_of L ts a meth frame) a))"

definition response_status :: "json \<Rightarrow> string" where
  "response_status frame = (if jget ''error'' frame \<noteq> None then ''error'' else ''ok'')"

definition elapsed_ms :: "nat \<Rightarrow> nat \<Rightarrow> u64" where
  "elapsed_ms started now = word_of_nat (min ((now - started) div 10 ^ 6) (2 ^ 64 - 1))"

definition on_response :: "libs \<Rightarrow> nat \<Rightarrow> string \<Rightarrow> json \<Rightarrow> u64 \<Rightarrow> auditor \<Rightarrow> auditor" where
  "on_response L now ts frame bytes_out a =
     (if jget ''method'' frame \<noteq> None then a
      else case frame_id frame of
        None \<Rightarrow> a
      | Some i \<Rightarrow>
          (case au_pending a (json_to_vec L i) of
             None \<Rightarrow> a
           | Some p \<Rightarrow>
               sink_record
                 (proxied_request ts (au_peer a) (au_service a) (pd_method p) (pd_tool p) (pd_args_hash p)
                    bytes_out (response_status frame) (elapsed_ms (pd_started p) now) (au_principal a))
                 (a\<lparr>au_pending := (au_pending a)(json_to_vec L i := None)\<rparr>)))"

subsection \<open>The pump\<close>

text \<open>
  \<open>pu_forwarded\<close>: the frames written to the server, in order; \<open>pu_replies\<close>: those sent to the caller,
  refusals and answers. Direction A ends when the caller ends or the server stops reading, and the
  session goes on until direction B ends.
\<close>

record pump =
  pu_limiter :: rate_limiter
  pu_auditor :: auditor
  pu_warned :: bool
  pu_input_open :: bool
  pu_running :: bool
  pu_forwarded :: "json list"
  pu_replies :: "json list"

record session_env =
  sn_endpoint :: "bytes option"
  sn_peer_meta :: "json option"

text \<open>What a step did: a caller's frame was noted and handed on, or held back by the rate limit.\<close>

datatype pump_label =
    Noted nat string json bool
  | HeldBack nat string json
  | CallerEnds
  | Answered nat string json bool
  | ServerEnds

definition pump_start :: "rate_limiter \<Rightarrow> auditor \<Rightarrow> json \<Rightarrow> pump" where
  "pump_start limiter a initialize = \<lparr>pu_limiter = limiter, pu_auditor = a, pu_warned = False, pu_input_open = True,
     pu_running = True, pu_forwarded = [initialize], pu_replies = []\<rparr>"

definition to_server :: "libs \<Rightarrow> rounding \<Rightarrow> session_env \<Rightarrow> nat \<Rightarrow> string \<Rightarrow> json \<Rightarrow> bool \<Rightarrow> pump \<Rightarrow> pump_label \<times> pump" where
  "to_server L rnd e now ts frame server_reads p =
     (let (impersonating, f) = sanitize_caller_frame (sn_peer_meta e) frame;
          p = p\<lparr>pu_warned := pu_warned p \<or> impersonating\<rparr>;
          (verdict, limiter) = (if jget ''method'' f \<noteq> None
             then gate_admit_at rnd (pu_limiter p) (sn_endpoint e) now else (Inr (), pu_limiter p));
          p = p\<lparr>pu_limiter := limiter\<rparr>
      in case verdict of
           Inl retry_after \<Rightarrow> (HeldBack now ts f,
             (case frame_id f of
                Some i \<Rightarrow> p\<lparr>pu_replies := pu_replies p @ [synthesized_limited i retry_after]\<rparr>
              | None \<Rightarrow> p\<lparr>pu_auditor := on_dropped L ts f (pu_auditor p)\<rparr>))
         | Inr _ \<Rightarrow> (Noted now ts f server_reads,
             (let p = p\<lparr>pu_auditor := on_request L now ts f (pu_auditor p)\<rparr>
              in if server_reads then p\<lparr>pu_forwarded := pu_forwarded p @ [f]\<rparr>
                 else p\<lparr>pu_input_open := False\<rparr>)))"

definition to_transport :: "libs \<Rightarrow> nat \<Rightarrow> string \<Rightarrow> json \<Rightarrow> bool \<Rightarrow> pump \<Rightarrow> pump" where
  "to_transport L now ts frame caller_reads p =
     (let p = p\<lparr>pu_auditor := on_response L now ts frame (word_of_nat (length (json_to_vec L frame))) (pu_auditor p)\<rparr>
      in if caller_reads then p\<lparr>pu_replies := pu_replies p @ [frame]\<rparr> else p\<lparr>pu_running := False\<rparr>)"

inductive pump_step :: "libs \<Rightarrow> rounding \<Rightarrow> session_env \<Rightarrow> pump \<Rightarrow> pump_label \<Rightarrow> pump \<Rightarrow> bool" for L rnd e where
  caller_frame: "pu_running p \<Longrightarrow> pu_input_open p \<Longrightarrow> to_server L rnd e now ts frame ok p = (l, q) \<Longrightarrow> pump_step L rnd e p l q"
| caller_ends: "pu_running p \<Longrightarrow> pu_input_open p \<Longrightarrow> pump_step L rnd e p CallerEnds (p\<lparr>pu_input_open := False\<rparr>)"
| server_frame: "pu_running p \<Longrightarrow> pump_step L rnd e p (Answered now ts frame ok) (to_transport L now ts frame ok p)"
| server_ends: "pu_running p \<Longrightarrow> pump_step L rnd e p ServerEnds (p\<lparr>pu_running := False\<rparr>)"

inductive_cases pump_stepE: "pump_step L rnd e p l q"

subsection \<open>The two backends\<close>

text \<open>
  A socket backend stamps the first frame and every later one with the caller; a spawned server gets
  the caller in its environment. The first frame is the one the service was selected by.
\<close>

definition session_auditor :: "libs \<Rightarrow> peer_identity option \<Rightarrow> string \<Rightarrow> string \<Rightarrow> auditor" where
  "session_auditor L identity service ts =
     (let peer = map_option audit_peer identity;
          prin = session_principal L identity;
          opened = ar_session_open ts (Some (case peer of None \<Rightarrow> [] | Some n \<Rightarrow> n)) service prin
      in auditor_new peer service prin [opened])"

definition socket_env :: "libs \<Rightarrow> peer_identity option \<Rightarrow> session_env" where
  "socket_env L identity = \<lparr>sn_endpoint = map_option pi_endpoint identity,
     sn_peer_meta = map_option (peer_meta_value L) identity\<rparr>"

definition socket_start ::
    "libs \<Rightarrow> rate_limiter \<Rightarrow> peer_identity option \<Rightarrow> string \<Rightarrow> string \<Rightarrow> json \<Rightarrow> pump" where
  "socket_start L limiter identity service ts initialize =
     pump_start limiter (session_auditor L identity service ts)
       (case identity of None \<Rightarrow> initialize | Some i \<Rightarrow> inject_peer (peer_meta_value L i) 0 initialize)"

definition spawn_env :: "peer_identity option \<Rightarrow> session_env" where
  "spawn_env identity = \<lparr>sn_endpoint = map_option pi_endpoint identity, sn_peer_meta = None\<rparr>"

definition CONCURRENCY_RETRY_MS :: u64 where "CONCURRENCY_RETRY_MS = 1000"

text \<open>
  A spawn takes one of the service's permits for as long as the session lasts; without one the caller
  is told when to retry.
\<close>

definition spawn_start ::
    "libs \<Rightarrow> rate_limiter \<Rightarrow> nat \<Rightarrow> peer_identity option \<Rightarrow> string \<Rightarrow> string \<Rightarrow> json \<Rightarrow> (json + pump) \<times> nat" where
  "spawn_start L limiter permits identity service ts initialize =
     (if permits = 0
      then (Inl (synthesized_limited (case jget ''id'' initialize of None \<Rightarrow> JNull | Some i \<Rightarrow> i) CONCURRENCY_RETRY_MS), permits)
      else (Inr (pump_start limiter (session_auditor L identity service ts) initialize), permits - 1))"

definition ascii_uppercase :: "string \<Rightarrow> string" where
  "ascii_uppercase s = map (\<lambda>c. if of_char c \<in> {97..(122::nat)} then char_of (of_char c - (32::nat)) else c) s"

text \<open>The environment of the child, from the daemon's own, the service's and the caller.\<close>

definition join_commas :: "string list \<Rightarrow> string" where
  "join_commas gs = concat (case gs of [] \<Rightarrow> [] | g # gs \<Rightarrow> g # map (\<lambda>h. CHR '','' # h) gs)"

definition child_environment ::
    "libs \<Rightarrow> (string \<rightharpoonup> string) \<Rightarrow> (string \<times> string) list \<Rightarrow> peer_identity option \<Rightarrow> (string \<rightharpoonup> string)" where
  "child_environment L own service_vars identity =
     (let base = foldl (\<lambda>m (k, v). m(k \<mapsto> v)) own
            (filter (\<lambda>(k, _). \<not> starts_with (ascii_uppercase k) ''MCPMESH_'') service_vars)
      in case identity of
           Some i \<Rightarrow> base(''MCPMESH_PEER_NAME'' \<mapsto> pi_name i, ''MCPMESH_PEER_USER'' := pi_user_id i,
             ''MCPMESH_PEER_GROUPS'' \<mapsto> join_commas (pi_groups i), ''MCPMESH_PEER_EID'' \<mapsto> principal L (pi_endpoint i))
         | None \<Rightarrow> base(''MCPMESH_PEER_NAME'' := None, ''MCPMESH_PEER_USER'' := None,
             ''MCPMESH_PEER_GROUPS'' := None, ''MCPMESH_PEER_EID'' := None))"

end
