(* ===== verification/Backend_Props.thy ===== *)
theory Backend_Props
  imports Backend
begin

text \<open>
  The theorems of a served session: what its server is told about the caller, what the audit log says
  about the caller's requests, and what a flood of refused notifications can do to it.
\<close>

subsection \<open>The server hears of the caller from the daemon alone\<close>

definition daemon_only :: "json option \<Rightarrow> json \<Rightarrow> bool" where
  "daemon_only peer frame \<longleftrightarrow>
     (case Option.bind (jpointer meta_path frame) as_object of
        None \<Rightarrow> True
      | Some m \<Rightarrow> (\<forall>(k, v) \<in> set m. reserved_key k \<longrightarrow> k \<in> set PEER_KEYS \<and> peer = Some v) \<and> \<not> impersonates m)"

text \<open>A request whose parameters can carry it names the caller under both spellings of the key.\<close>

definition can_be_attributed :: "json \<Rightarrow> bool" where
  "can_be_attributed frame \<longleftrightarrow> frame_method frame \<noteq> None \<and>
     (case jget ''params'' frame of None \<Rightarrow> True | Some v \<Rightarrow> v = JNull \<or> as_object v \<noteq> None)"

definition attributed_to :: "json \<Rightarrow> json \<Rightarrow> bool" where
  "attributed_to peer frame \<longleftrightarrow> (\<forall>k \<in> set PEER_KEYS. jpointer (meta_path @ [k]) frame = Some peer)"

definition vouched_for :: "json option \<Rightarrow> json \<Rightarrow> bool" where
  "vouched_for peer frame \<longleftrightarrow> daemon_only peer frame \<and>
     (case peer of None \<Rightarrow> True | Some v \<Rightarrow> can_be_attributed frame \<longrightarrow> attributed_to v frame)"

lemma daemon_only_clean: "meta_clean f \<Longrightarrow> daemon_only peer f"
  by (auto simp: meta_clean_def daemon_only_def split: option.splits)

lemma members_al_insert: "set (al_insert k v m) \<subseteq> insert (k, v) (set m)"
  by (induction m) auto

lemma set_member_stamp: "stamp_peer peer (JObj m) =
    JObj (al_insert ''mcpmesh/peer'' peer (al_insert ''tech.counterpunch.mcpmesh/peer'' peer m))"
  by (simp add: stamp_peer_def PEER_KEYS_def)

lemma stamp_members:
  assumes "stamp_peer peer (JObj m) = JObj m'"
  shows "(k, v) \<in> set m' \<Longrightarrow> (k \<in> set PEER_KEYS \<and> v = peer) \<or> (k, v) \<in> set m"
    and "k \<in> set PEER_KEYS \<Longrightarrow> map_of m' k = Some peer"
    and "k \<notin> set PEER_KEYS \<Longrightarrow> map_of m' k = map_of m k"
proof -
  have m': "m' = al_insert ''mcpmesh/peer'' peer (al_insert ''tech.counterpunch.mcpmesh/peer'' peer m)"
    using assms by (simp add: set_member_stamp)
  show "(k, v) \<in> set m' \<Longrightarrow> (k \<in> set PEER_KEYS \<and> v = peer) \<or> (k, v) \<in> set m"
    using members_al_insert [of "''mcpmesh/peer''" peer "al_insert ''tech.counterpunch.mcpmesh/peer'' peer m"]
      members_al_insert [of "''tech.counterpunch.mcpmesh/peer''" peer m]
    unfolding m' PEER_KEYS_def by auto
  show "k \<in> set PEER_KEYS \<Longrightarrow> map_of m' k = Some peer" "k \<notin> set PEER_KEYS \<Longrightarrow> map_of m' k = map_of m k"
    by (auto simp: m' PEER_KEYS_def map_of_al_insert)
qed

lemma client_info_is_not_peer: "CLIENT_INFO_KEY \<notin> set PEER_KEYS"
  by (simp add: CLIENT_INFO_KEY_def PEER_KEYS_def)

lemma impersonates_cong: "map_of m CLIENT_INFO_KEY = map_of m' CLIENT_INFO_KEY \<Longrightarrow> impersonates m = impersonates m'"
  by (simp add: impersonates_def)

lemma with_params_objectD:
  assumes "with_params_object f = Some g" and "jget ''method'' f \<noteq> None"
  obtains p where "jget ''params'' g = Some (JObj p)" and "p = [] \<or> jget ''params'' f = Some (JObj p)"
proof -
  obtain fm where f: "f = JObj fm" using assms(2) by (cases f) auto
  show ?thesis using assms(1) that unfolding f
    by (cases "map_of fm ''params''"; (cases "the (map_of fm ''params'')")?)
      (auto simp: with_params_object_def map_of_al_insert)
qed

lemma with_meta_objectD:
  obtains m where "jget ''_meta'' (with_meta_object (JObj p)) = Some (JObj m)" and "m = [] \<or> map_of p ''_meta'' = Some (JObj m)"
  using that by (cases "map_of p ''_meta''"; (cases "the (map_of p ''_meta'')")?)
    (auto simp: with_meta_object_def map_of_al_insert)

text \<open>The \<open>_meta\<close> object a stamped frame has: the one it had, or none, with the daemon's two members.\<close>

lemma inject_peer_one_meta:
  assumes "frame_method f = Some me" and "with_params_object f = Some g"
  obtains m where "jpointer meta_path (inject_peer_one peer f) = Some (stamp_peer peer (JObj m))"
    and "m = [] \<or> jpointer meta_path f = Some (JObj m)"
proof -
  have me: "jget ''method'' f = Some (JStr me)" using assms(1) by (auto simp: frame_method_def bind_eq_Some_conv)
  obtain p where p: "jget ''params'' g = Some (JObj p)" "p = [] \<or> jget ''params'' f = Some (JObj p)"
    using with_params_objectD [OF assms(2)] me by auto
  obtain m where m: "jget ''_meta'' (with_meta_object (JObj p)) = Some (JObj m)" "m = [] \<or> map_of p ''_meta'' = Some (JObj m)"
    using with_meta_objectD by blast
  have "inject_peer_one peer f = jupdate meta_path (stamp_peer peer) (jupdate [''params''] with_meta_object g)"
    by (simp add: inject_peer_one_def me assms(2))
  then have "jpointer meta_path (inject_peer_one peer f) =
      map_option (stamp_peer peer) (jpointer meta_path (jupdate [''params''] with_meta_object g))"
    by (simp only: jpointer_meta_jupdate)
  moreover have "jpointer meta_path (jupdate [''params''] with_meta_object g) = Some (JObj m)"
    using p(1) m(1) by (simp add: jget_jupdate)
  ultimately have "jpointer meta_path (inject_peer_one peer f) = Some (stamp_peer peer (JObj m))" by (simp del: jpointer.simps)
  moreover have "m = [] \<or> jpointer meta_path f = Some (JObj m)" using p(2) m(2) by auto
  ultimately show ?thesis using that by blast
qed

lemma stamped_daemon_only:
  assumes "jpointer meta_path r = Some (stamp_peer peer (JObj m))" and "m = [] \<or> jpointer meta_path f = Some (JObj m)"
    and "meta_clean f"
  shows "daemon_only (Some peer) r" and "attributed_to peer r"
proof -
  obtain m' where m': "stamp_peer peer (JObj m) = JObj m'" by (simp add: set_member_stamp)
  have clean: "\<forall>p \<in> set m. \<not> reserved_key (fst p)" "\<not> impersonates m"
    using assms(2,3) by (fastforce simp: meta_clean_def impersonates_def simp del: jpointer.simps)+
  have "\<not> impersonates m'"
    using clean(2) stamp_members(3) [OF m' client_info_is_not_peer] impersonates_cong by blast
  then show "daemon_only (Some peer) r"
    using stamp_members(1) [OF m'] clean(1) assms(1) m' unfolding daemon_only_def by (fastforce simp del: jpointer.simps)
  show "attributed_to peer r"
    unfolding attributed_to_def jpointer_snoc using assms(1) m' stamp_members(2) [OF m'] by (simp del: jpointer.simps)
qed

lemma with_params_object_None:
  "with_params_object f = None \<Longrightarrow> jget ''method'' f \<noteq> None \<Longrightarrow> \<not> can_be_attributed f"
  by (auto simp: with_params_object_def can_be_attributed_def split: option.splits json.splits)

lemma inject_one_vouched:
  assumes "meta_clean f"
  shows "vouched_for (Some peer) (inject_peer_one peer f)"
proof (cases "frame_method f")
  case None
  then have "inject_peer_one peer f = f"
    by (auto simp: inject_peer_one_def frame_method_def split: option.splits json.splits)
  then show ?thesis using None assms by (simp add: vouched_for_def daemon_only_clean can_be_attributed_def)
next
  case (Some me)
  then have me: "jget ''method'' f = Some (JStr me)" by (auto simp: frame_method_def bind_eq_Some_conv)
  show ?thesis
  proof (cases "with_params_object f")
    case None
    then have "inject_peer_one peer f = f" by (simp add: inject_peer_one_def me)
    then show ?thesis using None assms me by (simp add: vouched_for_def daemon_only_clean with_params_object_None)
  next
    case g: (Some g)
    obtain m where "jpointer meta_path (inject_peer_one peer f) = Some (stamp_peer peer (JObj m))"
      and "m = [] \<or> jpointer meta_path f = Some (JObj m)"
      by (rule inject_peer_one_meta [OF Some g])
    from stamped_daemon_only [OF this assms] show ?thesis by (simp add: vouched_for_def)
  qed
qed

lemma is_batch_set_member [simp]: "is_batch (set_member k v w) = is_batch w"
  by (cases w) auto

lemma is_batch_inject_one: "\<not> is_batch f \<Longrightarrow> \<not> is_batch (inject_peer_one peer f)"
  by (auto simp: inject_peer_one_def with_params_object_def split: option.splits json.splits)

lemma inject_peer_flat: "\<not> is_batch f \<Longrightarrow> inject_peer peer d f = inject_peer_one peer f"
  by (subst inject_peer.simps) (cases f; simp)

lemma inject_peer_batch: "inject_peer peer d (JArr xs) = JArr (if d < 8 then map (inject_peer peer (Suc d)) xs else xs)"
  by (subst inject_peer.simps) simp

lemma inject_peer_vouched:
  "\<forall>g \<in> set (frames_within d v). meta_clean g \<Longrightarrow> f \<in> set (frames_within d (inject_peer peer d v)) \<Longrightarrow>
   vouched_for (Some peer) f"
proof (induction peer d v rule: inject_peer.induct)
  case (1 peer d v)
  show ?case
  proof (cases "is_batch v")
    case True
    then obtain xs where v: "v = JArr xs" by (auto simp: is_batch_iff)
    show ?thesis
    proof (cases "d < 8")
      case True
      then obtain x where x: "x \<in> set xs" "f \<in> set (frames_within (Suc d) (inject_peer peer (Suc d) x))"
        using "1.prems"(2) by (auto simp: v inject_peer_batch frames_within_batch MAX_BATCH_DEPTH_def)
      moreover have "\<forall>g \<in> set (frames_within (Suc d) x). meta_clean g"
        using "1.prems"(1) x(1) True by (auto simp: v frames_within_batch MAX_BATCH_DEPTH_def)
      ultimately show ?thesis using "1.IH" [OF v True x(1)] by simp
    next
      case False
      then show ?thesis using "1.prems"(2) by (simp add: v inject_peer_batch frames_within_batch MAX_BATCH_DEPTH_def)
    qed
  next
    case False
    then have "f = inject_peer_one peer v" "meta_clean v"
      using "1.prems" by (simp_all add: inject_peer_flat frames_within_flat is_batch_inject_one)
    then show ?thesis by (simp add: inject_one_vouched)
  qed
qed

definition all_vouched :: "json option \<Rightarrow> json \<Rightarrow> bool" where
  "all_vouched peer frame \<longleftrightarrow> (\<forall>f \<in> set (frames_within 0 frame). vouched_for peer f)"

lemma all_vouched_inject:
  "\<forall>g \<in> set (frames_within 0 v). meta_clean g \<Longrightarrow> all_vouched (Some peer) (inject_peer peer 0 v)"
  unfolding all_vouched_def using inject_peer_vouched by blast

lemma all_vouched_clean: "\<forall>g \<in> set (frames_within 0 v). meta_clean g \<Longrightarrow> all_vouched None v"
  by (simp add: all_vouched_def vouched_for_def daemon_only_clean)

lemma sanitized_vouched: "sanitize_caller_frame peer frame = (b, f) \<Longrightarrow> all_vouched peer f"
proof -
  assume s: "sanitize_caller_frame peer frame = (b, f)"
  define g where "g = snd (strip_impersonating_client_info (strip_reserved_meta frame))"
  have clean: "\<forall>h \<in> set (frames_within 0 g). meta_clean h"
    using strip_impersonating_clean strip_reserved_clean
    unfolding g_def strip_impersonating_client_info_def strip_reserved_meta_def by blast
  have "f = (case peer of None \<Rightarrow> g | Some v \<Rightarrow> inject_peer v 0 g)"
    using s unfolding sanitize_caller_frame_def g_def by (auto simp: case_prod_beta)
  then show ?thesis using all_vouched_inject [OF clean] all_vouched_clean [OF clean] by (cases peer) auto
qed

lemma to_server_cases:
  assumes "to_server L rnd e now ts frame ok p = (l, q)"
  obtains b f where "sanitize_caller_frame (sn_peer_meta e) frame = (b, f)"
    and "l = HeldBack now ts f \<and> pu_forwarded q = pu_forwarded p \<and>
        pu_auditor q = (if frame_id f = None then on_dropped L ts f (pu_auditor p) else pu_auditor p) \<or>
      l = Noted now ts f ok \<and> pu_forwarded q = pu_forwarded p @ (if ok then [f] else []) \<and>
        pu_auditor q = on_request L now ts f (pu_auditor p)"
proof -
  obtain b f where s: "sanitize_caller_frame (sn_peer_meta e) frame = (b, f)" by fastforce
  have "l = HeldBack now ts f \<and> pu_forwarded q = pu_forwarded p \<and>
        pu_auditor q = (if frame_id f = None then on_dropped L ts f (pu_auditor p) else pu_auditor p) \<or>
      l = Noted now ts f ok \<and> pu_forwarded q = pu_forwarded p @ (if ok then [f] else []) \<and>
        pu_auditor q = on_request L now ts f (pu_auditor p)"
    using assms unfolding to_server_def s by (auto simp: Let_def split: prod.splits sum.splits option.splits if_splits)
  then show ?thesis using s that by blast
qed

lemma forwarded_vouched:
  assumes "run (pump_step L rnd e) p ls q" and "\<forall>f \<in> set (pu_forwarded p). all_vouched (sn_peer_meta e) f"
  shows "\<forall>f \<in> set (pu_forwarded q). all_vouched (sn_peer_meta e) f"
proof (rule run_invariant [where P = "\<lambda>q. \<forall>f \<in> set (pu_forwarded q). all_vouched (sn_peer_meta e) f", OF assms])
  fix p l q assume "\<forall>f \<in> set (pu_forwarded p). all_vouched (sn_peer_meta e) f" and "pump_step L rnd e p l q"
  then show "\<forall>f \<in> set (pu_forwarded q). all_vouched (sn_peer_meta e) f"
    by (elim pump_stepE to_server_cases)
      (auto simp: sanitized_vouched to_transport_def Let_def split: if_splits)
qed

lemma socket_start_vouched:
  assumes "\<forall>g \<in> set (frames_within 0 initialize). meta_clean g"
  shows "\<forall>f \<in> set (pu_forwarded (socket_start L limiter identity service ts initialize)).
    all_vouched (sn_peer_meta (socket_env L identity)) f"
  using assms by (cases identity)
    (auto simp: socket_start_def pump_start_def socket_env_def all_vouched_clean all_vouched_inject)

text \<open>
  C32. A local server reached over a socket hears of the caller from the daemon alone, down to the depth the
  daemon looks. In every frame written to it, from the first to the last of the session, on its own or
  inside at most eight batches nested in one another (\<open>MAX_BATCH_DEPTH\<close>), a reserved \<open>_meta\<close> key is one
  of the two spellings of the caller's key and its value is the identity the trust gate gave, no client
  imitates a principal, and every request whose parameters can carry it names the caller under both
  spellings, whatever the caller sent. What lies inside a ninth batch is passed on as the caller
  wrote it, reserved keys included, and the claim does not cover it.
\<close>

theorem backend_hears_the_true_caller:
  assumes "run (pump_step L rnd (socket_env L identity))
      (socket_start L limiter identity service ts (snd (select_service init allowed))) ls p"
    and "f \<in> set (pu_forwarded p)" and "g \<in> set (frames_within 0 f)"
  shows "vouched_for (map_option (peer_meta_value L) identity) g"
proof -
  have "\<forall>g \<in> set (frames_within 0 (snd (select_service init allowed))). meta_clean g"
    using selected_frames_clean by blast
  from forwarded_vouched [OF assms(1) socket_start_vouched [OF this]] assms(2,3)
  show ?thesis by (simp add: all_vouched_def socket_env_def)
qed

subsection \<open>Requests and answers in the audit log\<close>

text \<open>The steps that concern an id: a request noted under it, or an answer to it.\<close>

definition request_key :: "libs \<Rightarrow> json \<Rightarrow> bytes option" where
  "request_key L frame = (if frame_method frame = None then None else map_option (json_to_vec L) (frame_id frame))"

definition answer_key :: "libs \<Rightarrow> json \<Rightarrow> bytes option" where
  "answer_key L frame = (if jget ''method'' frame \<noteq> None then None else map_option (json_to_vec L) (frame_id frame))"

fun concerns :: "libs \<Rightarrow> bytes \<Rightarrow> pump_label \<Rightarrow> bool" where
  "concerns L k (Noted now ts f ok) = (request_key L f = Some k)"
| "concerns L k (Answered now ts f ok) = (answer_key L f = Some k)"
| "concerns L k _ = False"

text \<open>The request an answer under \<open>k\<close> would be to: the last step that concerns \<open>k\<close>, if it is a request.\<close>

definition awaiting :: "libs \<Rightarrow> bytes \<Rightarrow> pump_label list \<Rightarrow> (nat \<times> json) option" where
  "awaiting L k ls = (let cs = filter (concerns L k) ls
     in if cs = [] then None else case last cs of Noted now ts f ok \<Rightarrow> Some (now, f) | _ \<Rightarrow> None)"

definition noted_request :: "libs \<Rightarrow> nat \<times> json \<Rightarrow> pending_request" where
  "noted_request L r = (case r of (now, f) \<Rightarrow> \<lparr>pd_method = the (frame_method f), pd_tool = frame_tool (the (frame_method f)) f,
     pd_args_hash = args_hash L (frame_params f), pd_started = now\<rparr>)"

lemma awaiting_snoc:
  "awaiting L k (ls @ [l]) = (if concerns L k l then (case l of Noted now ts f ok \<Rightarrow> Some (now, f) | _ \<Rightarrow> None)
     else awaiting L k ls)"
  by (simp add: awaiting_def)

lemma on_request_pending:
  "au_pending (on_request L now ts f a) k =
     (if request_key L f = Some k then Some (noted_request L (now, f)) else au_pending a k)"
  by (auto simp: on_request_def request_key_def noted_request_def sink_record_def Let_def split: option.splits)

lemma on_response_pending:
  "au_pending (on_response L now ts f n a) k = (if answer_key L f = Some k then None else au_pending a k)"
  by (auto simp: on_response_def answer_key_def sink_record_def Let_def split: option.splits)

lemma on_dropped_pending [simp]: "au_pending (on_dropped L ts f a) = au_pending a"
  by (simp add: on_dropped_def sink_record_def Let_def split: option.splits)

lemma pump_step_pending:
  assumes "pump_step L rnd e p l q"
  shows "au_pending (pu_auditor q) k =
    (if concerns L k l then map_option (noted_request L) (case l of Noted now ts f ok \<Rightarrow> Some (now, f) | _ \<Rightarrow> None)
     else au_pending (pu_auditor p) k)"
  using assms
  by (elim pump_stepE to_server_cases)
    (auto simp: on_request_pending on_response_pending to_transport_def Let_def split: if_splits)

lemma pending_is_awaiting:
  assumes "run (pump_step L rnd e) p ls q" and "au_pending (pu_auditor p) = Map.empty"
  shows "au_pending (pu_auditor q) k = map_option (noted_request L) (awaiting L k ls)"
  using assms
proof (induction rule: run.induct)
  case run_nil
  then show ?case by (simp add: awaiting_def)
next
  case (run_snoc s ls t l u)
  then show ?case by (simp add: awaiting_snoc pump_step_pending)
qed

lemma auditor_who:
  "au_peer (on_request L now ts f a) = au_peer a" "au_service (on_request L now ts f a) = au_service a"
  "au_principal (on_request L now ts f a) = au_principal a"
  "au_peer (on_response L now ts f n a) = au_peer a" "au_service (on_response L now ts f n a) = au_service a"
  "au_principal (on_response L now ts f n a) = au_principal a"
  "au_peer (on_dropped L ts f a) = au_peer a" "au_service (on_dropped L ts f a) = au_service a"
  "au_principal (on_dropped L ts f a) = au_principal a"
  by (simp_all add: on_request_def on_response_def on_dropped_def sink_record_def Let_def split: option.splits)

lemma pump_who:
  assumes "run (pump_step L rnd e) p ls q"
  shows "au_peer (pu_auditor q) = au_peer (pu_auditor p) \<and> au_service (pu_auditor q) = au_service (pu_auditor p) \<and>
    au_principal (pu_auditor q) = au_principal (pu_auditor p)"
proof (rule run_invariant [where P = "\<lambda>q. au_peer (pu_auditor q) = au_peer (pu_auditor p) \<and>
    au_service (pu_auditor q) = au_service (pu_auditor p) \<and> au_principal (pu_auditor q) = au_principal (pu_auditor p)", OF assms])
  fix q l r
  assume "au_peer (pu_auditor q) = au_peer (pu_auditor p) \<and> au_service (pu_auditor q) = au_service (pu_auditor p) \<and>
    au_principal (pu_auditor q) = au_principal (pu_auditor p)" and "pump_step L rnd e q l r"
  then show "au_peer (pu_auditor r) = au_peer (pu_auditor p) \<and> au_service (pu_auditor r) = au_service (pu_auditor p) \<and>
    au_principal (pu_auditor r) = au_principal (pu_auditor p)"
    by (elim pump_stepE to_server_cases) (auto simp: auditor_who to_transport_def Let_def split: if_splits)
qed simp

text \<open>The record of an answered request.\<close>

definition answered_record :: "libs \<Rightarrow> auditor \<Rightarrow> nat \<times> json \<Rightarrow> nat \<Rightarrow> string \<Rightarrow> json \<Rightarrow> audit_record" where
  "answered_record L a r now ts f = (let p = noted_request L r in
     proxied_request ts (au_peer a) (au_service a) (pd_method p) (pd_tool p) (pd_args_hash p)
       (word_of_nat (length (json_to_vec L f))) (response_status f) (elapsed_ms (pd_started p) now) (au_principal a))"

lemma on_response_log:
  "au_log (on_response L now ts f n a) = au_log a @
     (case Option.bind (answer_key L f) (au_pending a) of None \<Rightarrow> []
      | Some p \<Rightarrow> [proxied_request ts (au_peer a) (au_service a) (pd_method p) (pd_tool p) (pd_args_hash p) n
          (response_status f) (elapsed_ms (pd_started p) now) (au_principal a)])"
  by (auto simp: on_response_def answer_key_def sink_record_def Let_def split: option.splits)

text \<open>
  C33. What the audit log says of a proxied request is what happened. When the server answers an id,
  the log grows by exactly one record if the last frame that concerned that id was a request of the
  caller, with that request's method, tool name and argument digest, the size and status of this
  answer and the time between the two; otherwise it does not grow. Requests the server sends, which
  number their ids from the same start, never take a caller's place.
\<close>

theorem answers_are_attributed:
  assumes "run (pump_step L rnd e) (pump_start limiter (session_auditor L identity service ts0) initialize) ls p"
    and "pump_step L rnd e p (Answered now ts f ok) q"
  shows "au_log (pu_auditor q) = au_log (pu_auditor p) @
     (case Option.bind (answer_key L f) (\<lambda>k. awaiting L k ls) of None \<Rightarrow> []
      | Some r \<Rightarrow> [answered_record L (session_auditor L identity service ts0) r now ts f])"
proof -
  have q: "au_log (pu_auditor q) = au_log (on_response L now ts f (word_of_nat (length (json_to_vec L f))) (pu_auditor p))"
    using assms(2) by (elim pump_stepE to_server_cases) (auto simp: to_transport_def Let_def)
  have e: "au_pending (pu_auditor (pump_start limiter (session_auditor L identity service ts0) initialize)) = Map.empty"
    by (simp add: pump_start_def session_auditor_def auditor_new_def Let_def)
  have who: "au_peer (pu_auditor p) = au_peer (session_auditor L identity service ts0)"
    "au_service (pu_auditor p) = au_service (session_auditor L identity service ts0)"
    "au_principal (pu_auditor p) = au_principal (session_auditor L identity service ts0)"
    using pump_who [OF assms(1)] by (simp_all add: pump_start_def)
  show ?thesis
    unfolding q on_response_log using pending_is_awaiting [OF assms(1) e] who
    by (cases "answer_key L f") (auto simp: answered_record_def Let_def split: option.splits)
qed

subsection \<open>A flood of refused notifications\<close>

definition drop_reports :: "auditor \<Rightarrow> nat" where
  "drop_reports a = length (filter (\<lambda>r. ar_status r = Some ''rate_limited'') (au_log a))"

definition is_noted :: "pump_label \<Rightarrow> bool" where
  "is_noted l = (case l of Noted _ _ _ _ \<Rightarrow> True | _ \<Rightarrow> False)"

lemma drop_reports_step:
  assumes "pump_step L rnd e p l q"
  shows "drop_reports (pu_auditor q) + (if au_drop_reported (pu_auditor q) then 0 else 1) \<le>
    drop_reports (pu_auditor p) + (if au_drop_reported (pu_auditor p) then 0 else 1) + (if is_noted l then 1 else 0)"
  using assms
  by (elim pump_stepE to_server_cases)
    (auto simp: drop_reports_def is_noted_def on_request_def on_response_def on_dropped_def sink_record_def to_transport_def
      notification_of_def proxied_notification_def proxied_request_def ar_with_status_def ar_base_def response_status_def Let_def
      split: option.splits if_splits)

lemma drop_reports_run:
  assumes "run (pump_step L rnd e) p ls q"
  shows "drop_reports (pu_auditor q) + (if au_drop_reported (pu_auditor q) then 0 else 1) \<le>
    drop_reports (pu_auditor p) + (if au_drop_reported (pu_auditor p) then 0 else 1) + length (filter is_noted ls)"
  using assms
proof (induction rule: run.induct)
  case (run_snoc s ls t l u)
  then show ?case using drop_reports_step [OF run_snoc.hyps(2)] by auto
qed simp

text \<open>
  Refused notifications cannot flood the audit log: however many a session sends, at most one
  record tells of them, and one more for every frame that got through in between.
\<close>

theorem drop_reports_bounded:
  assumes "run (pump_step L rnd e) (pump_start limiter (session_auditor L identity service ts0) initialize) ls p"
  shows "drop_reports (pu_auditor p) \<le> 1 + length (filter is_noted ls)"
  using drop_reports_run [OF assms]
  by (simp add: drop_reports_def session_auditor_def pump_start_def auditor_new_def ar_session_open_def ar_base_def Let_def
    split: if_splits)

subsection \<open>Witnesses\<close>

definition demo_caller :: peer_identity where
  "demo_caller = \<lparr>pi_endpoint = [1], pi_name = ''bob'', pi_user_id = None, pi_groups = []\<rparr>"

definition demo_ping :: json where
  "demo_ping = JObj [(''id'', JNum 1), (''method'', JStr ''ping''),
     (''params'', JObj [(''_meta'', JObj [(''mcpmesh/peer'', JStr ''root'')])])]"

definition demo_call :: json where
  "demo_call = JObj [(''id'', JNum 2), (''method'', JStr ''tools/call''), (''params'', JObj [(''name'', JStr ''read'')])]"

definition demo_result :: json where
  "demo_result = JObj [(''id'', JNum 2), (''result'', JNull)]"

definition demo_limiter :: rate_limiter where
  "demo_limiter = \<lparr>rl_capacity = 1, rl_refill_per_sec = 1, rl_buckets = []\<rparr>"

text \<open>A session without an authenticated endpoint, which is not rate limited.\<close>

definition demo_env :: session_env where
  "demo_env = \<lparr>sn_endpoint = None, sn_peer_meta = None\<rparr>"

definition demo_pump :: pump where
  "demo_pump = pump_start demo_limiter (session_auditor demo_libs None ''notes'' ''t0'') JNull"

lemma demo_call_sanitized: "sanitize_caller_frame None demo_call = (False, demo_call)"
  by (simp add: sanitize_caller_frame_def strip_reserved_meta_def strip_impersonating_client_info_def strip_reserved_flat
    strip_impersonating_flat demo_call_def meta_impersonates_def)

definition demo_pump1 :: pump where
  "demo_pump1 = snd (to_server demo_libs id demo_env 5 ''t1'' demo_call True demo_pump)"

lemma demo_noted: "to_server demo_libs id demo_env 5 ''t1'' demo_call True demo_pump = (Noted 5 ''t1'' demo_call True, demo_pump1)"
  by (simp add: demo_pump1_def to_server_def demo_env_def demo_call_sanitized gate_admit_at_def Let_def)

lemma demo_pump1_runs: "pu_running demo_pump1"
  by (simp add: demo_pump1_def to_server_def demo_env_def demo_call_sanitized gate_admit_at_def demo_pump_def pump_start_def
    case_prod_beta Let_def split: sum.split option.split)

lemma demo_pump_run: "run (pump_step demo_libs id demo_env) demo_pump [Noted 5 ''t1'' demo_call True] demo_pump1"
  by (rule run_one, rule caller_frame [OF _ _ demo_noted]) (simp_all add: demo_pump_def pump_start_def)

theorem backend_hears_the_true_caller_witness:
  "\<exists>f g. f \<in> set (pu_forwarded (socket_start demo_libs demo_limiter (Some demo_caller) ''notes'' ''t0''
        (snd (select_service demo_ping [''notes''])))) \<and> g \<in> set (frames_within 0 f) \<and> can_be_attributed g \<and>
     attributed_to (peer_meta_value demo_libs demo_caller) g \<and> \<not> attributed_to (JStr ''root'') g"
proof -
  define f where "f = inject_peer (peer_meta_value demo_libs demo_caller) 0 (snd (select_service demo_ping [''notes'']))"
  have sel: "snd (select_service demo_ping [''notes'']) =
      JObj [(''id'', JNum 1), (''method'', JStr ''ping''), (''params'', JObj [(''_meta'', JObj [])])]"
    by (simp add: selected_frame_flat demo_ping_def retain_unreserved_def drop_client_info_def impersonates_def
      reserved_key_def RESERVED_META_PREFIXES_def LEGACY_META_PREFIX_def META_PREFIX_def)
  have f: "\<not> is_batch f" "can_be_attributed f"
    by (simp_all add: f_def sel inject_peer_flat inject_peer_one_def with_params_object_def with_meta_object_def stamp_peer_def
      PEER_KEYS_def can_be_attributed_def frame_method_def)
  have m: "f \<in> set (pu_forwarded (socket_start demo_libs demo_limiter (Some demo_caller) ''notes'' ''t0''
        (snd (select_service demo_ping [''notes'']))))"
    by (simp add: socket_start_def pump_start_def f_def)
  have "vouched_for (map_option (peer_meta_value demo_libs) (Some demo_caller)) f"
    by (rule backend_hears_the_true_caller [where rnd = id, OF run_nil m]) (simp add: frames_within_flat f)
  then have a: "attributed_to (peer_meta_value demo_libs demo_caller) f" using f(2) by (simp add: vouched_for_def)
  then have "\<not> attributed_to (JStr ''root'') f"
    by (simp add: attributed_to_def PEER_KEYS_def peer_meta_value_def del: jpointer.simps)
  then show ?thesis using m f a by (intro exI [of _ f]) (simp add: frames_within_flat)
qed

theorem answers_are_attributed_witness:
  "\<exists>q r. pump_step demo_libs id demo_env demo_pump1 (Answered 9 ''t2'' demo_result True) q \<and>
     au_log (pu_auditor q) = au_log (pu_auditor demo_pump1) @ [r] \<and> ar_method r = Some ''tools/call'' \<and>
     ar_tool r = Some ''read'' \<and> ar_status r = Some ''ok''"
proof -
  define q where "q = to_transport demo_libs 9 ''t2'' demo_result True demo_pump1"
  have s: "pump_step demo_libs id demo_env demo_pump1 (Answered 9 ''t2'' demo_result True) q"
    unfolding q_def by (intro server_frame demo_pump1_runs)
  have "awaiting demo_libs (json_to_vec demo_libs (JNum 2)) [Noted 5 ''t1'' demo_call True] = Some (5, demo_call)"
    by (simp add: awaiting_def request_key_def frame_method_def frame_id_def demo_call_def)
  then have b: "Option.bind (answer_key demo_libs demo_result) (\<lambda>k. awaiting demo_libs k [Noted 5 ''t1'' demo_call True]) = Some (5, demo_call)"
    by (simp add: answer_key_def demo_result_def frame_id_def)
  define r where "r = answered_record demo_libs (session_auditor demo_libs None ''notes'' ''t0'') (5, demo_call) 9 ''t2'' demo_result"
  have "au_log (pu_auditor q) = au_log (pu_auditor demo_pump1) @ [r]"
    using answers_are_attributed [OF demo_pump_run [unfolded demo_pump_def] s] b by (simp add: r_def)
  moreover have "ar_method r = Some ''tools/call''" "ar_tool r = Some ''read''" "ar_status r = Some ''ok''"
    by (simp_all add: r_def answered_record_def noted_request_def proxied_request_def ar_base_def frame_method_def frame_tool_def
        demo_call_def response_status_def demo_result_def Let_def)
  ultimately show ?thesis using s by blast
qed

theorem drop_reports_bounded_witness: "drop_reports (pu_auditor demo_pump1) \<le> 2"
  using drop_reports_bounded [OF demo_pump_run [unfolded demo_pump_def]] by (simp add: is_noted_def)

end
