(* ===== verification/Audit_Log.thy ===== *)
theory Audit_Log
  imports Audit_Record "HOL-Library.Char_ord"
begin

text \<open>
  The audit log on disk and its readers (\<open>node/src/audit\<close>) with the three verbs of the control
  socket that use them. The directory is an association list of file names and contents in the order
  \<open>read_dir\<close> gives them, or absent. The files whose opening or removal fails are an argument. The writer
  task takes records from a bounded channel; a full channel drops the record.
\<close>

type_synonym audit_dir = "(string \<times> bytes) list"

subsection \<open>Lines of text\<close>

definition utf8_valid :: "string \<Rightarrow> bool" where
  "utf8_valid s \<longleftrightarrow> string_of_chars (chars_of s) = s \<and>
     (\<forall>c \<in> set (chars_of s). c < 1114112 \<and> \<not> (55296 \<le> c \<and> c < 57344))"

definition bytes_text :: "bytes \<Rightarrow> string" where
  "bytes_text bs = map (\<lambda>b. char_of (unat b)) bs"

text \<open>\<open>BufRead::lines\<close>: up to each line feed, which is dropped with a carriage return before it.\<close>

definition chomp :: "bytes \<Rightarrow> bytes" where
  "chomp bs = (if bs \<noteq> [] \<and> last bs = 13 then butlast bs else bs)"

fun lines_from :: "bytes \<Rightarrow> bytes \<Rightarrow> bytes list" where
  "lines_from acc [] = (if acc = [] then [] else [acc])"
| "lines_from acc (b # bs) = (if b = 10 then chomp acc # lines_from [] bs else lines_from (acc @ [b]) bs)"

definition buf_lines :: "bytes \<Rightarrow> bytes list" where
  "buf_lines bs = lines_from [] bs"

subsection \<open>Writing\<close>

definition month_key :: "string \<Rightarrow> string" where
  "month_key ts = (if length ts = 7 \<or> 7 < length ts \<and> \<not> (of_char (ts ! 7) \<in> {128..(191::nat)}) then take 7 ts
     else ''0000-00'')"

definition month_filename :: "string \<Rightarrow> string" where
  "month_filename m = m @ ''.jsonl''"

definition append_record :: "libs \<Rightarrow> audit_record \<Rightarrow> audit_dir option \<Rightarrow> audit_dir option" where
  "append_record L r dir =
     (let d = (case dir of None \<Rightarrow> [] | Some d \<Rightarrow> d);
          name = month_filename (month_key (ar_ts r));
          line = json_to_vec L (audit_to_value r) @ [10]
      in Some (al_insert name ((case map_of d name of None \<Rightarrow> [] | Some b \<Rightarrow> b) @ line) d))"

subsection \<open>The writer and the table of live sessions\<close>

definition AUDIT_CHANNEL_DEPTH :: nat where "AUDIT_CHANNEL_DEPTH = 1024"

record active_session =
  as_peer :: string
  as_service :: string
  as_opened_at :: int
  as_principal :: "string option"

text \<open>\<open>lg_told\<close>: what was fanned out to live subscribers, in order.\<close>

record audit_log =
  lg_queue :: "audit_record list"
  lg_dir :: "audit_dir option"
  lg_told :: "audit_record list"
  lg_live :: "(u64 \<times> active_session) list"
  lg_seq :: u64

definition log_record :: "audit_record \<Rightarrow> audit_log \<Rightarrow> audit_log" where
  "log_record r g =
     (let g = g\<lparr>lg_told := lg_told g @ [r]\<rparr>
      in if length (lg_queue g) < AUDIT_CHANNEL_DEPTH then g\<lparr>lg_queue := lg_queue g @ [r]\<rparr> else g)"

text \<open>One turn of the writer task: an append that fails loses its record.\<close>

definition writer_turn :: "libs \<Rightarrow> bool \<Rightarrow> audit_log \<Rightarrow> audit_log" where
  "writer_turn L written g =
     (case lg_queue g of
        [] \<Rightarrow> g
      | r # q \<Rightarrow> (let g = g\<lparr>lg_queue := q\<rparr>
          in if written then g\<lparr>lg_dir := append_record L r (lg_dir g)\<rparr> else g))"

definition open_tracked :: "string \<Rightarrow> int \<Rightarrow> string \<Rightarrow> string \<Rightarrow> string option \<Rightarrow> audit_log \<Rightarrow> u64 \<times> audit_log" where
  "open_tracked ts now peer service prin g =
     (let i = lg_seq g;
          g = log_record (ar_session_open ts (Some peer) service prin) (g\<lparr>lg_seq := lg_seq g + 1\<rparr>)
      in (i, g\<lparr>lg_live := al_insert i \<lparr>as_peer = peer, as_service = service, as_opened_at = now, as_principal = prin\<rparr>
            (lg_live g)\<rparr>))"

definition close_tracked :: "string \<Rightarrow> u64 \<Rightarrow> audit_log \<Rightarrow> audit_log" where
  "close_tracked ts i g =
     (case map_of (lg_live g) i of
        None \<Rightarrow> g
      | Some s \<Rightarrow> log_record (ar_session_close ts (Some (as_peer s)) (as_service s) (as_principal s))
          (g\<lparr>lg_live := al_remove i (lg_live g)\<rparr>))"

definition active_sessions :: "audit_log \<Rightarrow> active_session list" where
  "active_sessions g = sort_key as_opened_at (map snd (lg_live g))"

subsection \<open>Reading\<close>

definition ascii_digits :: "string \<Rightarrow> bool" where
  "ascii_digits s \<longleftrightarrow> (\<forall>c \<in> set s. digit c \<noteq> None)"

definition month_shape :: "string \<Rightarrow> bool" where
  "month_shape s \<longleftrightarrow> length s = 7 \<and> s ! 4 = CHR ''-'' \<and> ascii_digits (take 4 s) \<and> ascii_digits (drop 5 s)"

definition month_of_filename :: "string \<Rightarrow> string option" where
  "month_of_filename name =
     (let n = length name - 6
      in if 6 \<le> length name \<and> drop n name = ''.jsonl'' \<and> month_shape (take n name) then Some (take n name) else None)"

fun month_entries :: "audit_dir \<Rightarrow> (string \<times> bytes) list" where
  "month_entries [] = []"
| "month_entries ((name, b) # d) =
     (case month_of_filename name of None \<Rightarrow> month_entries d | Some m \<Rightarrow> (m, b) # month_entries d)"

definition list_month_files :: "audit_dir option \<Rightarrow> (string \<times> bytes) list" where
  "list_month_files dir =
     (case dir of
        None \<Rightarrow> []
      | Some d \<Rightarrow> sort_key fst (month_entries d))"

text \<open>A line that does not parse is skipped; text that is not UTF-8 fails the read.\<close>

datatype audit_error =
    AuditIo
  | BadMonth string string
  | UnknownKind string
  | NoAuditWriter

definition parse_audit_line :: "libs \<Rightarrow> bytes \<Rightarrow> audit_record option" where
  "parse_audit_line L bs =
     (if str_trim (bytes_text bs) = [] then None else Option.bind (json_from_slice L bs) audit_of_value)"

definition read_records :: "libs \<Rightarrow> bytes \<Rightarrow> audit_error + audit_record list" where
  "read_records L body =
     (if utf8_valid (bytes_text body) then Inr (List.map_filter (parse_audit_line L) (buf_lines body)) else Inl AuditIo)"

fun read_months :: "libs \<Rightarrow> (string \<Rightarrow> bool) \<Rightarrow> (string \<times> bytes) list \<Rightarrow> audit_error + audit_record list" where
  "read_months L fails [] = Inr []"
| "read_months L fails ((m, b) # ms) =
     rbind (if fails m then Inl AuditIo else read_records L b) (\<lambda>rs. rbind (read_months L fails ms) (\<lambda>more. Inr (rs @ more)))"

definition read_all_records :: "libs \<Rightarrow> (string \<Rightarrow> bool) \<Rightarrow> audit_dir option \<Rightarrow> audit_error + audit_record list" where
  "read_all_records L fails dir = read_months L fails (list_month_files dir)"

definition filter_records :: "audit_kind option \<Rightarrow> string option \<Rightarrow> audit_record list \<Rightarrow> audit_record list" where
  "filter_records kind peer rs =
     filter (\<lambda>r. peer = None \<or> ar_peer r = peer \<or> ar_principal r = peer)
       (filter (\<lambda>r. kind = None \<or> Some (ar_kind r) = kind) rs)"

text \<open>Session counts by peer and by service, ascending by name.\<close>

definition bump :: "string \<Rightarrow> (string \<times> u64) list \<Rightarrow> (string \<times> u64) list" where
  "bump k m = sort_key fst (al_insert k ((case map_of m k of None \<Rightarrow> 0 | Some n \<Rightarrow> n) + 1) m)"

record audit_summary_result =
  su_per_peer :: "(string \<times> u64) list"
  su_per_service :: "(string \<times> u64) list"
  su_total_sessions :: u64

definition summarize_one :: "audit_summary_result \<Rightarrow> audit_record \<Rightarrow> audit_summary_result" where
  "summarize_one s r =
     (if ar_kind r \<noteq> SessionOpen then s
      else \<lparr>su_per_peer = (case ar_peer r of None \<Rightarrow> su_per_peer s | Some p \<Rightarrow> bump p (su_per_peer s)),
        su_per_service = (case ar_service r of None \<Rightarrow> su_per_service s | Some v \<Rightarrow> bump v (su_per_service s)),
        su_total_sessions = su_total_sessions s + 1\<rparr>)"

definition summarize_sessions :: "audit_record list \<Rightarrow> audit_summary_result" where
  "summarize_sessions rs = foldl summarize_one \<lparr>su_per_peer = [], su_per_service = [], su_total_sessions = 0\<rparr> rs"

text \<open>One page. The lines of a file are read one by one, so a line that is not UTF-8 fails the page where it stands.\<close>

record page_state =
  pg_total :: u64
  pg_records :: "audit_record list"
  pg_to_skip :: nat

definition wanted :: "audit_kind option \<Rightarrow> string option \<Rightarrow> audit_record \<Rightarrow> bool" where
  "wanted kind peer r \<longleftrightarrow> (kind = None \<or> Some (ar_kind r) = kind) \<and> (peer = None \<or> ar_peer r = peer)"

definition page_record :: "nat \<Rightarrow> audit_record \<Rightarrow> page_state \<Rightarrow> page_state" where
  "page_record limit r s =
     (let s = s\<lparr>pg_total := pg_total s + 1\<rparr>
      in if pg_to_skip s > 0 then s\<lparr>pg_to_skip := pg_to_skip s - 1\<rparr>
         else if length (pg_records s) < limit then s\<lparr>pg_records := pg_records s @ [r]\<rparr> else s)"

fun page_lines ::
    "libs \<Rightarrow> audit_kind option \<Rightarrow> string option \<Rightarrow> nat \<Rightarrow> bytes list \<Rightarrow> page_state \<Rightarrow> audit_error + page_state" where
  "page_lines L kind peer limit [] s = Inr s"
| "page_lines L kind peer limit (l # ls) s =
     (if \<not> utf8_valid (bytes_text l) then Inl AuditIo
      else page_lines L kind peer limit ls
        (case parse_audit_line L l of
           None \<Rightarrow> s
         | Some r \<Rightarrow> if wanted kind peer r then page_record limit r s else s))"

definition in_range :: "string option \<Rightarrow> string option \<Rightarrow> string \<Rightarrow> bool" where
  "in_range since until m \<longleftrightarrow>
     (case since of None \<Rightarrow> True | Some a \<Rightarrow> \<not> m < a) \<and> (case until of None \<Rightarrow> True | Some b \<Rightarrow> \<not> m > b)"

fun page_months ::
    "libs \<Rightarrow> (string \<Rightarrow> bool) \<Rightarrow> string option \<Rightarrow> string option \<Rightarrow> audit_kind option \<Rightarrow> string option \<Rightarrow> nat \<Rightarrow>
     (string \<times> bytes) list \<Rightarrow> page_state \<Rightarrow> audit_error + page_state" where
  "page_months L fails since until kind peer limit [] s = Inr s"
| "page_months L fails since until kind peer limit ((m, b) # ms) s =
     (if \<not> in_range since until m then page_months L fails since until kind peer limit ms s
      else if fails m then Inl AuditIo
      else rbind (page_lines L kind peer limit (buf_lines b) s)
        (\<lambda>s. page_months L fails since until kind peer limit ms s))"

definition list_page ::
    "libs \<Rightarrow> (string \<Rightarrow> bool) \<Rightarrow> audit_dir option \<Rightarrow> string option \<Rightarrow> string option \<Rightarrow> audit_kind option \<Rightarrow>
     string option \<Rightarrow> nat \<Rightarrow> nat \<Rightarrow> audit_error + audit_record list \<times> u64" where
  "list_page L fails dir since until kind peer limit skip =
     rbind (page_months L fails since until kind peer limit (list_month_files dir)
         \<lparr>pg_total = 0, pg_records = [], pg_to_skip = skip\<rparr>)
       (\<lambda>s. Inr (pg_records s, pg_total s))"

subsection \<open>Pruning\<close>

fun prune_months :: "(string \<Rightarrow> bool) \<Rightarrow> string \<Rightarrow> string list \<Rightarrow> audit_dir \<Rightarrow> string list \<Rightarrow> (audit_error + string list) \<times> audit_dir" where
  "prune_months fails before [] d deleted = (Inr deleted, d)"
| "prune_months fails before (m # ms) d deleted =
     (if m < before then
        (if fails m then (Inl AuditIo, d)
         else prune_months fails before ms (al_remove (month_filename m) d) (deleted @ [m]))
      else prune_months fails before ms d deleted)"

definition prune_before :: "(string \<Rightarrow> bool) \<Rightarrow> string \<Rightarrow> audit_dir option \<Rightarrow> (audit_error + string list) \<times> audit_dir option" where
  "prune_before fails before dir =
     (case dir of
        None \<Rightarrow> (Inr [], None)
      | Some d \<Rightarrow> (case prune_months fails before (map fst (list_month_files dir)) d [] of (r, d') \<Rightarrow> (r, Some d')))"

definition valid_month_key :: "string \<Rightarrow> bool" where
  "valid_month_key s \<longleftrightarrow> month_shape s \<and> ''01'' \<le> drop 5 s \<and> drop 5 s \<le> ''12''"

definition retention_cutoff :: "string \<Rightarrow> u32 \<Rightarrow> string option" where
  "retention_cutoff current retain_months =
     (if retain_months = 0 \<or> \<not> valid_month_key current then None
      else
        Option.bind (parse_i64 (take 4 current)) (\<lambda>year.
        Option.bind (parse_i64 (take 2 (drop 5 current))) (\<lambda>month.
          let months = year * 12 + (month - 1) - int (unat (retain_months - 1))
          in if months < 0 then None
             else Some (pad_nat 4 (nat (months div 12)) @ ''-'' @ pad_nat 2 (nat (months mod 12 + 1))))))"

text \<open>What a boot deletes: a failure is logged and the boot goes on.\<close>

definition boot_retention :: "(string \<Rightarrow> bool) \<Rightarrow> string \<Rightarrow> u32 \<Rightarrow> audit_dir option \<Rightarrow> audit_dir option" where
  "boot_retention fails now_ts retain_months dir =
     (case retention_cutoff (take 7 now_ts) retain_months of
        None \<Rightarrow> dir
      | Some cutoff \<Rightarrow> snd (prune_before fails cutoff dir))"

subsection \<open>The verbs\<close>

text \<open>\<open>sink\<close>: the directory this node's writer owns, if it has one; \<open>dflt\<close>: the one of the platform.\<close>

definition read_dir_of :: "audit_dir option option \<Rightarrow> audit_dir option \<Rightarrow> audit_dir option" where
  "read_dir_of sink dflt = (case sink of Some d \<Rightarrow> d | None \<Rightarrow> dflt)"

definition audit_summary ::
    "libs \<Rightarrow> (string \<Rightarrow> bool) \<Rightarrow> audit_dir option option \<Rightarrow> audit_dir option \<Rightarrow> audit_error + audit_summary_result" where
  "audit_summary L fails sink dflt =
     rbind (read_all_records L fails (read_dir_of sink dflt)) (\<lambda>rs. Inr (summarize_sessions rs))"

definition audit_prune ::
    "(string \<Rightarrow> bool) \<Rightarrow> string \<Rightarrow> audit_dir option option \<Rightarrow> (audit_error + string list) \<times> audit_dir option option" where
  "audit_prune fails before sink =
     (if \<not> valid_month_key before then (Inl (BadMonth ''before'' before), sink)
      else case sink of
        None \<Rightarrow> (Inl NoAuditWriter, None)
      | Some d \<Rightarrow> (case prune_before fails before d of (r, d') \<Rightarrow> (r, Some d')))"

record audit_list_params =
  lp_since :: "string option"
  lp_until :: "string option"
  lp_kind :: "string option"
  lp_peer :: "string option"
  lp_limit :: "u32 option"
  lp_offset :: "u32 option"

definition month_bound :: "string \<Rightarrow> string option \<Rightarrow> audit_error + unit" where
  "month_bound name bound =
     (case bound of None \<Rightarrow> Inr () | Some m \<Rightarrow> if valid_month_key m then Inr () else Inl (BadMonth name m))"

definition page_limit :: "audit_list_params \<Rightarrow> nat" where
  "page_limit p = min (case lp_limit p of None \<Rightarrow> 500 | Some n \<Rightarrow> unat n) 1000"

definition audit_list ::
    "libs \<Rightarrow> (string \<Rightarrow> bool) \<Rightarrow> audit_list_params \<Rightarrow> audit_dir option option \<Rightarrow> audit_dir option \<Rightarrow>
     audit_error + audit_record list \<times> u64" where
  "audit_list L fails p sink dflt =
     rbind (month_bound ''since'' (lp_since p)) (\<lambda>_.
     rbind (month_bound ''until'' (lp_until p)) (\<lambda>_.
     rbind (case lp_kind p of None \<Rightarrow> Inr None
            | Some s \<Rightarrow> (case parse_kind s of None \<Rightarrow> Inl (UnknownKind s) | Some k \<Rightarrow> Inr (Some k))) (\<lambda>kind.
       list_page L fails (read_dir_of sink dflt) (lp_since p) (lp_until p) kind (lp_peer p) (page_limit p)
         (case lp_offset p of None \<Rightarrow> 0 | Some n \<Rightarrow> unat n))))"

end
