(* ===== verification/Audit_Props.thy ===== *)
theory Audit_Props
  imports Audit_Log
begin

text \<open>
  The theorems of the audit log: what is written is what the listing shows, and what a retention
  window deletes.
\<close>

subsection \<open>Lines\<close>

text \<open>
  The compact text of an object is one line of UTF-8: no line feed, no carriage return at its end, not
  blank.
\<close>

definition json_one_line :: "libs \<Rightarrow> bool" where
  "json_one_line L \<longleftrightarrow> (\<forall>m. json_printable (JObj m) \<longrightarrow>
     (let t = json_to_vec L (JObj m) in 10 \<notin> set t \<and> t \<noteq> [] \<and> last t \<noteq> 13 \<and> utf8_valid (bytes_text t) \<and>
        str_trim (bytes_text t) \<noteq> []))"

definition record_text :: "libs \<Rightarrow> audit_record \<Rightarrow> bytes" where
  "record_text L r = json_to_vec L (audit_to_value r)"

lemma lines_from_append: "lines_from acc (xs @ 10 # ys) = lines_from acc (xs @ [10]) @ buf_lines ys"
  by (induction xs arbitrary: acc) (auto simp: buf_lines_def)

lemma lines_from_one: "10 \<notin> set t \<Longrightarrow> lines_from acc (t @ [10]) = [chomp (acc @ t)]"
  by (induction t arbitrary: acc) auto

lemma buf_lines_concat:
  assumes "\<And>t. t \<in> set ts \<Longrightarrow> 10 \<notin> set t \<and> (t = [] \<or> last t \<noteq> 13)"
  shows "buf_lines (concat (map (\<lambda>t. t @ [10]) ts)) = ts"
  using assms
proof (induction ts)
  case Nil
  then show ?case by (simp add: buf_lines_def)
next
  case (Cons t ts)
  have "chomp t = t" using Cons.prems [of t] by (auto simp: chomp_def)
  then have "buf_lines (t @ 10 # concat (map (\<lambda>t. t @ [10]) ts)) = t # buf_lines (concat (map (\<lambda>t. t @ [10]) ts))"
    using Cons.prems [of t] lines_from_append [of "[]" t] lines_from_one [of t "[]"] by (simp add: buf_lines_def)
  then show ?case using Cons by simp
qed

lemma present_memberD: "(k, v) \<in> set (present_members fs) \<Longrightarrow> (k, Some v) \<in> set fs"
  by (induction fs) (auto simp: present_members_def split: option.splits)

lemma record_printable: "json_printable (audit_to_value r)"
proof -
  have k: "distinct (al_keys (present_members (ar_fields r)))"
    unfolding keys_present_members using distinct_ar_fields [of r] by (rule distinct_map_filter)
  have n: "- (2 ^ 63) \<le> uint w \<and> uint w < 2 ^ 64" for w :: u64
    using uint_lt2p [of w] order_trans [OF _ uint_ge_0 [of w], of "- (2 ^ 63)"] by simp
  have f: "\<forall>p \<in> set (ar_fields r). \<forall>v. snd p = Some v \<longrightarrow> json_printable v"
    using n by (simp add: ar_fields_def) auto
  have "json_printable v" if "(k, v) \<in> set (present_members (ar_fields r))" for k v
    using present_memberD [OF that] f by auto
  then show ?thesis using k by (auto simp: audit_to_value_def list_all_iff)
qed

lemma record_depth [simp]: "json_depth (audit_to_value r) \<le> JSON_MAX_DEPTH"
proof -
  have f: "\<forall>p \<in> set (ar_fields r). \<forall>v. snd p = Some v \<longrightarrow> json_depth v \<le> 126" by (simp add: ar_fields_def) auto
  have "json_depth v \<le> 126" if "(k, v) \<in> set (present_members (ar_fields r))" for k v
    using present_memberD [OF that] f by auto
  then show ?thesis by (auto simp: audit_to_value_def JSON_MAX_DEPTH_def)
qed

lemma record_line:
  assumes "json_one_line L"
  shows "10 \<notin> set (record_text L r)" "record_text L r \<noteq> []" "last (record_text L r) \<noteq> 13"
    "utf8_valid (bytes_text (record_text L r))" "str_trim (bytes_text (record_text L r)) \<noteq> []"
  using assms record_printable [of r] unfolding json_one_line_def record_text_def audit_to_value_def Let_def by blast+

lemma parse_record_line:
  assumes "json_text_roundtrip L" and "json_one_line L"
  shows "parse_audit_line L (record_text L r) = Some r"
  using assms(1) record_printable [of r] record_line(5) [OF assms(2), of r]
  by (simp add: parse_audit_line_def json_text_roundtrip_def record_text_def audit_of_to_value)

subsection \<open>The directory a sequence of records leaves\<close>

abbreviation month_of :: "audit_record \<Rightarrow> string" where
  "month_of r \<equiv> month_key (ar_ts r)"

definition dir_of :: "libs \<Rightarrow> audit_record list \<Rightarrow> audit_dir option" where
  "dir_of L rs = foldl (\<lambda>d r. append_record L r d) None rs"

definition of_month :: "string \<Rightarrow> audit_record list \<Rightarrow> audit_record list" where
  "of_month m rs = filter (\<lambda>r. month_of r = m) rs"

definition file_of :: "libs \<Rightarrow> audit_record list \<Rightarrow> string \<Rightarrow> bytes" where
  "file_of L rs m = concat (map (\<lambda>r. record_text L r @ [10]) (of_month m rs))"

lemma month_filename_inj [simp]: "month_filename m = month_filename m' \<longleftrightarrow> m = m'"
  by (simp add: month_filename_def)

lemma month_of_filename_name: "month_of_filename (month_filename m) = (if month_shape m then Some m else None)"
  by (simp add: month_of_filename_def month_filename_def Let_def)

lemma dir_of_snoc: "dir_of L (rs @ [r]) = append_record L r (dir_of L rs)"
  by (simp add: dir_of_def)

definition dir_ok :: "libs \<Rightarrow> audit_record list \<Rightarrow> audit_dir \<Rightarrow> bool" where
  "dir_ok L rs d \<longleftrightarrow> distinct (al_keys d) \<and> set (al_keys d) = month_filename ` month_of ` set rs \<and>
     (\<forall>m. m \<in> month_of ` set rs \<longrightarrow> map_of d (month_filename m) = Some (file_of L rs m))"

lemma file_of_snoc:
  "file_of L (rs @ [r]) m = file_of L rs m @ (if month_of r = m then record_text L r @ [10] else [])"
  by (simp add: file_of_def of_month_def)

lemma file_of_absent: "m \<notin> month_of ` set rs \<Longrightarrow> file_of L rs m = []"
proof -
  assume "m \<notin> month_of ` set rs"
  then have "of_month m rs = []" unfolding of_month_def filter_empty_conv by blast
  then show ?thesis by (simp add: file_of_def)
qed

lemma dir_ok_append:
  assumes ok: "dir_ok L rs d"
  shows "\<exists>d'. append_record L r (Some d) = Some d' \<and> dir_ok L (rs @ [r]) d'"
proof -
  let ?m = "month_of r" and ?b = "file_of L (rs @ [r]) (month_of r)"
  have absent: "map_of d (month_filename m) = None" if "m \<notin> month_of ` set rs" for m
    using that ok unfolding dir_ok_def map_of_eq_None_iff by (simp add: image_iff)
  have content: "(case map_of d (month_filename m) of None \<Rightarrow> [] | Some b \<Rightarrow> b) = file_of L rs m" for m
  proof (cases "m \<in> month_of ` set rs")
    case True
    then show ?thesis using ok by (simp add: dir_ok_def)
  next
    case False
    then show ?thesis using absent [OF False] file_of_absent [OF False] by simp
  qed
  have "append_record L r (Some d) = Some (al_insert (month_filename ?m) ?b d)"
    by (simp add: append_record_def Let_def content file_of_snoc record_text_def)
  moreover have "map_of (al_insert (month_filename ?m) ?b d) (month_filename m) = Some (file_of L (rs @ [r]) m)"
    if "m \<in> month_of ` set (rs @ [r])" for m
    using that ok by (cases "m = ?m") (auto simp: map_of_al_insert dir_ok_def file_of_snoc)
  moreover have "distinct (al_keys (al_insert (month_filename ?m) ?b d))"
    using ok unfolding dir_ok_def by (intro distinct_al_insert) blast
  moreover have "set (al_keys (al_insert (month_filename ?m) ?b d)) = month_filename ` month_of ` set (rs @ [r])"
    unfolding set_al_keys_insert using ok unfolding dir_ok_def by simp
  ultimately show ?thesis unfolding dir_ok_def by blast
qed

lemma dir_of_ok: "rs \<noteq> [] \<Longrightarrow> \<exists>d. dir_of L rs = Some d \<and> dir_ok L rs d"
proof (induction rs rule: rev_induct)
  case (snoc r rs)
  show ?case
  proof (cases "rs = []")
    case True
    then have "dir_ok L (rs @ [r]) [(month_filename (month_of r), file_of L (rs @ [r]) (month_of r))]" by (simp add: dir_ok_def)
    then show ?thesis using True
      by (intro exI conjI) (simp_all add: dir_of_def append_record_def file_of_def of_month_def record_text_def Let_def)
  next
    case False
    then obtain d where "dir_of L rs = Some d" "dir_ok L rs d" using snoc.IH by blast
    then show ?thesis using dir_ok_append [of L rs d r] by (simp add: dir_of_snoc)
  qed
qed simp

lemma month_of_filenameD: "month_of_filename name = Some m \<Longrightarrow> name = month_filename m \<and> month_shape m"
  unfolding month_of_filename_def month_filename_def Let_def
  by (metis append_take_drop_id option.distinct(1) option.inject)

lemma mem_month_entries: "(m, b) \<in> set (month_entries d) \<longleftrightarrow> (month_filename m, b) \<in> set d \<and> month_shape m"
proof (induction d)
  case (Cons p d)
  obtain name b' where p: "p = (name, b')" by (cases p)
  show ?case
  proof (cases "month_of_filename name")
    case None
    then have "month_shape m \<Longrightarrow> name \<noteq> month_filename m" by (auto simp: month_of_filename_name)
    then show ?thesis using Cons None by (auto simp: p)
  next
    case (Some m')
    then have "name = month_filename m'" "month_shape m'" using month_of_filenameD by blast+
    then show ?thesis using Cons Some by (auto simp: p)
  qed
qed simp

lemma month_entries_distinct: "distinct (al_keys d) \<Longrightarrow> distinct (map fst (month_entries d))"
proof (induction d)
  case (Cons p d)
  obtain name b' where p: "p = (name, b')" by (cases p)
  have "m \<notin> fst ` set (month_entries d)" if "name = month_filename m" for m
    using Cons.prems that unfolding p by (force simp: mem_month_entries)
  then show ?case using Cons month_of_filenameD unfolding p by (simp split: option.split)
qed simp

lemma month_files_of:
  assumes "\<forall>r \<in> set rs. month_shape (month_of r)"
  shows "list_month_files (dir_of L rs) = map (\<lambda>m. (m, file_of L rs m)) (sorted_list_of_set (month_of ` set rs))"
proof (cases "rs = []")
  case True
  then show ?thesis by (simp add: dir_of_def list_month_files_def)
next
  case False
  then obtain d where d: "dir_of L rs = Some d" "dir_ok L rs d" using dir_of_ok by blast
  let ?xs = "month_entries d"
  have dist: "distinct (al_keys d)" and keys: "set (al_keys d) = month_filename ` month_of ` set rs"
    and files: "\<And>m. m \<in> month_of ` set rs \<Longrightarrow> map_of d (month_filename m) = Some (file_of L rs m)"
    using d(2) unfolding dir_ok_def by blast+
  have val: "m \<in> month_of ` set rs \<and> b = file_of L rs m" if "(m, b) \<in> set ?xs" for m b
  proof -
    have b: "(month_filename m, b) \<in> set d" using that by (simp add: mem_month_entries)
    then have "month_filename m \<in> month_filename ` month_of ` set rs" unfolding keys [symmetric] by force
    then have m: "m \<in> month_of ` set rs" by (simp add: image_iff)
    have "map_of d (month_filename m) = Some b" using b dist by simp
    then show ?thesis using m files [OF m] by simp
  qed
  have "m \<in> fst ` set ?xs" if "m \<in> month_of ` set rs" for m
  proof -
    have "(m, file_of L rs m) \<in> set ?xs"
      using that assms map_of_SomeD [OF files [OF that]] by (auto simp: mem_month_entries)
    then show ?thesis by force
  qed
  then have "set (map fst ?xs) = month_of ` set rs" using val by force
  then have "map fst (sort_key fst ?xs) = sorted_list_of_set (month_of ` set rs)"
    using month_entries_distinct [OF dist] by (intro sorted_distinct_set_unique) (simp_all add: distinct_map)
  moreover have "sort_key fst ?xs = map (\<lambda>m. (m, file_of L rs m)) (map fst (sort_key fst ?xs))"
    using val by (auto intro!: map_idI [symmetric])
  ultimately show ?thesis by (simp add: list_month_files_def d(1))
qed


subsection \<open>Paging\<close>

fun page_all :: "audit_kind option \<Rightarrow> string option \<Rightarrow> nat \<Rightarrow> audit_record list \<Rightarrow> page_state \<Rightarrow> page_state" where
  "page_all kind peer limit [] s = s"
| "page_all kind peer limit (r # rs) s =
     page_all kind peer limit rs (if wanted kind peer r then page_record limit r s else s)"

lemma page_all_append: "page_all kind peer limit (rs @ qs) s = page_all kind peer limit qs (page_all kind peer limit rs s)"
  by (induction rs arbitrary: s) auto

lemma page_all_result:
  "pg_to_skip s = 0 \<or> pg_records s = [] \<Longrightarrow>
   pg_records (page_all kind peer limit rs s) =
     pg_records s @ take (limit - length (pg_records s)) (drop (pg_to_skip s) (filter (wanted kind peer) rs)) \<and>
   pg_total (page_all kind peer limit rs s) = pg_total s + of_nat (length (filter (wanted kind peer) rs))"
proof (induction rs arbitrary: s)
  case (Cons r rs)
  let ?s = "page_record limit r s"
  have "pg_to_skip ?s = 0 \<or> pg_records ?s = []" using Cons.prems by (auto simp: page_record_def Let_def)
  note ih = Cons.IH [OF this] Cons.IH [OF Cons.prems]
  show ?case
  proof (cases "wanted kind peer r")
    case False
    then show ?thesis using ih(2) by simp
  next
    case w: True
    consider "pg_to_skip s > 0" | "pg_to_skip s = 0" "length (pg_records s) < limit" | "pg_to_skip s = 0" "\<not> length (pg_records s) < limit"
      by blast
    then show ?thesis
    proof cases
      case 1
      then obtain k where "pg_to_skip s = Suc k" by (cases "pg_to_skip s") auto
      then show ?thesis using w ih(1) by (simp add: page_record_def)
    next
      case 2
      then have "limit - length (pg_records s) = Suc (limit - Suc (length (pg_records s)))" by simp
      then show ?thesis using w ih(1) 2 by (simp add: page_record_def)
    next
      case 3
      then show ?thesis using w ih(1) by (simp add: page_record_def)
    qed
  qed
qed simp

lemma page_lines_records:
  assumes "json_text_roundtrip L" and "json_one_line L"
  shows "page_lines L kind peer limit (map (record_text L) rs) s = Inr (page_all kind peer limit rs s)"
  by (induction rs arbitrary: s) (simp_all add: record_line(4) [OF assms(2)] parse_record_line [OF assms])

lemma file_lines:
  assumes "json_one_line L"
  shows "buf_lines (file_of L rs m) = map (record_text L) (of_month m rs)"
proof -
  have "file_of L rs m = concat (map (\<lambda>t. t @ [10]) (map (record_text L) (of_month m rs)))" by (simp add: file_of_def comp_def)
  also have "buf_lines \<dots> = map (record_text L) (of_month m rs)"
    using record_line(1,3) [OF assms] by (intro buf_lines_concat) auto
  finally show ?thesis .
qed

lemma page_months_records:
  assumes "json_text_roundtrip L" and "json_one_line L"
  shows "page_months L (\<lambda>_. False) since until kind peer limit (map (\<lambda>m. (m, file_of L rs m)) ms) s =
    Inr (page_all kind peer limit (concat (map (\<lambda>m. of_month m rs) (filter (in_range since until) ms))) s)"
  by (induction ms arbitrary: s) (simp_all add: file_lines [OF assms(2)] page_lines_records [OF assms] page_all_append)

text \<open>Month by month in ascending order is the stable sort by month.\<close>

lemma months_in_order:
  "concat (map (\<lambda>m. of_month m rs) (sorted_list_of_set (month_of ` set rs))) = sort_key (\<lambda>r. month_of r) rs"
proof -
  let ?ms = "sorted_list_of_set (month_of ` set rs)"
  have sorted: "sorted (map month_of (concat (map (\<lambda>m. of_month m rs) ms)))" if "sorted ms" for ms
  proof -
    have "sorted (map month_of (of_month m qs))" for m qs by (induction qs) (auto simp: of_month_def)
    then show ?thesis using that by (induction ms) (auto simp: sorted_append, auto simp: of_month_def)
  qed
  have pick: "filter (\<lambda>r. month_of r = k) (concat (map (\<lambda>m. of_month m rs) ms)) = (if k \<in> set ms then of_month k rs else [])"
    if "distinct ms" for ms k
    using that by (induction ms) (auto simp: of_month_def filter_empty_conv)
  have eq: "filter (\<lambda>r. month_of r = k) (concat (map (\<lambda>m. of_month m rs) ?ms)) = filter (\<lambda>r. month_of r = k) rs" for k
    unfolding pick [OF distinct_sorted_list_of_set] by (auto simp: of_month_def intro!: filter_False [symmetric])
  have "mset (concat (map (\<lambda>m. of_month m rs) ?ms)) = mset rs"
  proof (rule multiset_eqI)
    fix r
    have "count (mset xs) r = count (mset (filter (\<lambda>q. month_of q = month_of r) xs)) r" for xs by simp
    from this [of "concat (map (\<lambda>m. of_month m rs) ?ms)"] this [of rs]
    show "count (mset (concat (map (\<lambda>m. of_month m rs) ?ms))) r = count (mset rs) r" by (simp only: eq)
  qed
  moreover have "filter (\<lambda>x. month_of k = month_of x) (concat (map (\<lambda>m. of_month m rs) ?ms)) = filter (\<lambda>x. month_of k = month_of x) rs" for k
    using eq [of "month_of k"] by (simp add: eq_commute)
  ultimately show ?thesis using sorted [of ?ms] by (intro properties_for_sort_key [symmetric]) simp_all
qed

lemma months_in_range:
  "concat (map (\<lambda>m. of_month m rs) (filter P ms)) = filter (\<lambda>r. P (month_of r)) (concat (map (\<lambda>m. of_month m rs) ms))"
proof (induction ms)
  case (Cons m ms)
  have "filter (\<lambda>r. P (month_of r)) (of_month m rs) = (if P m then of_month m rs else [])"
    by (auto simp: of_month_def filter_empty_conv conj_commute cong: conj_cong filter_cong)
  then show ?case using Cons by simp
qed simp

text \<open>
  C34. What was recorded is what the listing shows. For any sequence of records written one after the
  other to an empty directory, \<open>audit_list\<close> answers with the records of the asked months, kind and
  peer, in the order they were written within a month and the months ascending: the requested page of
  them, at most a thousand, and the number of all of them.
\<close>

theorem recorded_is_listed:
  assumes "json_text_roundtrip L" and "json_one_line L"
    and "\<forall>r \<in> set rs. month_shape (month_of r)"
    and "month_bound ''since'' (lp_since p) = Inr ()" and "month_bound ''until'' (lp_until p) = Inr ()"
    and "lp_kind p = map_option kind_name kind"
  shows "audit_list L (\<lambda>_. False) p (Some (dir_of L rs)) dflt =
    (let matches = filter (wanted kind (lp_peer p))
           (filter (\<lambda>r. in_range (lp_since p) (lp_until p) (month_of r)) (sort_key (\<lambda>r. month_of r) rs))
     in Inr (take (page_limit p) (drop (case lp_offset p of None \<Rightarrow> 0 | Some n \<Rightarrow> unat n) matches),
        of_nat (length matches)))"
proof -
  have "(case lp_kind p of None \<Rightarrow> Inr None
            | Some s \<Rightarrow> (case parse_kind s of None \<Rightarrow> Inl (UnknownKind s) | Some k \<Rightarrow> Inr (Some k))) = Inr kind"
    using assms(6) by (cases kind) simp_all
  then show ?thesis
    using page_all_result [of "\<lparr>pg_total = 0, pg_records = [], pg_to_skip = case lp_offset p of None \<Rightarrow> 0 | Some n \<Rightarrow> unat n\<rparr>" kind "lp_peer p"]
    by (simp add: audit_list_def assms(4,5) read_dir_of_def list_page_def month_files_of [OF assms(3)]
      page_months_records [OF assms(1,2)] months_in_range months_in_order Let_def)
qed


subsection \<open>Month keys in order\<close>

definition digits_value :: "string \<Rightarrow> nat" where
  "digits_value s = the (parse_digits 0 s)"

definition month_index :: "string \<Rightarrow> int" where
  "month_index m = 12 * int (digits_value (take 4 m)) + int (digits_value (drop 5 m))"

lemma digit_SomeD: "digit c = Some d \<Longrightarrow> of_char c = 48 + d \<and> d < 10"
  by (auto simp: digit_def Let_def split: if_splits)

lemma ascii_digits_Cons: "ascii_digits (c # s) \<longleftrightarrow> (\<exists>d. digit c = Some d) \<and> ascii_digits s"
  by (auto simp: ascii_digits_def)

lemma parse_ascii_digits: "ascii_digits s \<Longrightarrow> \<exists>n. parse_digits a s = Some n \<and> a * 10 ^ length s \<le> n \<and> n < (a + 1) * 10 ^ length s"
proof (induction s arbitrary: a)
  case (Cons c s)
  then obtain d where d: "digit c = Some d" "ascii_digits s" by (auto simp: ascii_digits_Cons)
  then have "d < 10" using digit_SomeD by blast
  obtain n where n: "parse_digits (a * 10 + d) s = Some n" "(a * 10 + d) * 10 ^ length s \<le> n" "n < (a * 10 + d + 1) * 10 ^ length s"
    using Cons.IH [OF d(2)] by blast
  have "a * 10 * 10 ^ length s \<le> (a * 10 + d) * 10 ^ length s" by simp
  moreover have "(a * 10 + d + 1) * 10 ^ length s \<le> (a + 1) * 10 * 10 ^ length s" using \<open>d < 10\<close> by (intro mult_right_mono) simp_all
  ultimately have "a * 10 * 10 ^ length s \<le> n" "n < (a + 1) * 10 * 10 ^ length s" using n(2,3) by linarith+
  then show ?case using n(1) d(1) by (simp add: algebra_simps)
qed simp

lemma digits_order:
  assumes "length s = length t" and "ascii_digits s" and "ascii_digits t"
  shows "the (parse_digits a s) < the (parse_digits b t) \<longleftrightarrow> a < b \<or> a = b \<and> s < t"
  using assms
proof (induction s t arbitrary: a b rule: list_induct2)
  case (Cons c s e t)
  then obtain d f where d: "digit c = Some d" "digit e = Some f" "ascii_digits s" "ascii_digits t" by (auto simp: ascii_digits_Cons)
  note v = digit_SomeD [OF d(1)] digit_SomeD [OF d(2)]
  have "c < e \<longleftrightarrow> d < f" using v by (simp add: less_char_def)
  moreover have "c = e \<longleftrightarrow> d = f" using v d(1,2) by (metis of_char_eq_iff option.inject)
  ultimately show ?case
    using Cons.IH [OF d(3,4), of "a * 10 + d" "b * 10 + f"] d v by (auto simp: Cons_less_Cons)
qed simp

lemma split_month: "month_shape m \<Longrightarrow> m = take 4 m @ CHR ''-'' # drop 5 m"
  using id_take_nth_drop [of 4 m] by (simp add: month_shape_def)

lemma append_less: "length a = length b \<Longrightarrow> (a @ x < b @ y) = (a < b \<or> a = b \<and> (x :: string) < y)"
  by (induction a b rule: list_induct2) (auto simp: Cons_less_Cons)

lemma valid_month_range: "valid_month_key m \<Longrightarrow> 1 \<le> digits_value (drop 5 m) \<and> digits_value (drop 5 m) \<le> 12"
proof -
  assume m: "valid_month_key m"
  then have s: "length (drop 5 m) = 2" "ascii_digits (drop 5 m)" "\<not> drop 5 m < ''01''" "\<not> ''12'' < drop 5 m"
    by (auto simp: valid_month_key_def month_shape_def)
  have "\<not> digits_value (drop 5 m) < digits_value ''01''" "\<not> digits_value ''12'' < digits_value (drop 5 m)"
    using s digits_order [of "drop 5 m" "''01''" 0 0] digits_order [of "''12''" "drop 5 m" 0 0]
    by (simp_all add: digits_value_def ascii_digits_def digit_def)
  then show ?thesis by (simp add: digits_value_def digit_def)
qed

lemma month_order:
  assumes "valid_month_key m" and "valid_month_key k"
  shows "m < k \<longleftrightarrow> month_index m < month_index k"
proof -
  have s: "length (take 4 m) = length (take 4 k)" "ascii_digits (take 4 m)" "ascii_digits (take 4 k)"
    "length (drop 5 m) = length (drop 5 k)" "ascii_digits (drop 5 m)" "ascii_digits (drop 5 k)" "month_shape m" "month_shape k"
    using assms by (simp_all add: valid_month_key_def month_shape_def)
  have "m < k \<longleftrightarrow> take 4 m < take 4 k \<or> take 4 m = take 4 k \<and> drop 5 m < drop 5 k"
    by (subst split_month [OF s(7)], subst split_month [OF s(8)], subst append_less [OF s(1)]) (simp only: Cons_less_Cons less_irrefl simp_thms)
  moreover have "take 4 m < take 4 k \<longleftrightarrow> digits_value (take 4 m) < digits_value (take 4 k)"
    "take 4 k < take 4 m \<longleftrightarrow> digits_value (take 4 k) < digits_value (take 4 m)"
    "drop 5 m < drop 5 k \<longleftrightarrow> digits_value (drop 5 m) < digits_value (drop 5 k)"
    unfolding digits_value_def using digits_order [OF s(1-3), of 0 0] digits_order [OF s(1) [symmetric] s(3,2), of 0 0]
      digits_order [OF s(4-6), of 0 0] by simp_all
  moreover have "take 4 m = take 4 k \<longleftrightarrow> digits_value (take 4 m) = digits_value (take 4 k)"
    using calculation(2,3) by (metis less_linear less_irrefl)
  ultimately have "m < k \<longleftrightarrow> digits_value (take 4 m) < digits_value (take 4 k) \<or>
      digits_value (take 4 m) = digits_value (take 4 k) \<and> digits_value (drop 5 m) < digits_value (drop 5 k)" by blast
  also have "\<dots> \<longleftrightarrow> month_index m < month_index k"
    using valid_month_range [OF assms(1)] valid_month_range [OF assms(2)] unfolding month_index_def by linarith
  finally show ?thesis .
qed

subsection \<open>The retention window\<close>

lemma parse_i64_digits:
  assumes "ascii_digits s" "s \<noteq> []" "length s \<le> 4"
  shows "parse_i64 s = Some (int (digits_value s))"
proof -
  obtain n where n: "parse_digits 0 s = Some n" "n < 10 ^ length s" using parse_ascii_digits [OF assms(1), of 0] by auto
  have "(10::nat) ^ length s \<le> 10 ^ 4" using assms(3) by (intro power_increasing) simp_all
  then have bound: "int n < 2 ^ 63" using n(2) by simp
  obtain c cs where s: "s = c # cs" using assms(2) by (cases s) auto
  have "c \<noteq> CHR ''-''" "c \<noteq> CHR ''+''" using assms(1) by (auto simp: s ascii_digits_def digit_def)
  then have "(case s of [] \<Rightarrow> None | c # cs \<Rightarrow>
           if cs \<noteq> [] \<and> c = CHR ''-'' then map_option (\<lambda>n. - int n) (parse_digits 0 cs)
           else if cs \<noteq> [] \<and> c = CHR ''+'' then map_option int (parse_digits 0 cs)
           else map_option int (parse_digits 0 s)) = Some (int n)"
    using n(1) by (simp only: s list.case simp_thms if_False option.map)
  then show ?thesis using bound n(1) by (simp add: parse_i64_def digits_value_def)
qed

lemma ascii_show_nat: "ascii_digits (show_nat n)"
proof (induction n rule: show_nat.induct)
  case (1 n)
  then show ?case by (subst show_nat.simps) (auto simp: ascii_digits_def)
qed

lemma length_show_nat: "n < 10 ^ k \<Longrightarrow> 0 < k \<Longrightarrow> length (show_nat n) \<le> k"
proof (induction n arbitrary: k rule: show_nat.induct)
  case (1 n)
  show ?case
  proof (cases "n < 10")
    case True
    then show ?thesis using "1.prems" by (subst show_nat.simps) simp
  next
    case False
    then obtain j where k: "k = Suc j" "0 < j" using "1.prems" by (cases k; cases "k - 1") auto
    then have "n div 10 < 10 ^ j" using "1.prems" by (simp add: less_mult_imp_div_less mult.commute)
    then show ?thesis using "1.IH" [OF False, of j] False k by (subst show_nat.simps) simp
  qed
qed

lemma pad_nat_facts:
  assumes "n < 10 ^ k" and "0 < k"
  shows "length (pad_nat k n) = k" "ascii_digits (pad_nat k n)" "digits_value (pad_nat k n) = n"
proof -
  have z: "parse_digits 0 (replicate j (CHR ''0'') @ s) = parse_digits 0 s" for j s
    by (induction j) (simp_all add: digit_def)
  show "length (pad_nat k n) = k" using length_show_nat [OF assms] by (simp add: pad_nat_def)
  show "ascii_digits (pad_nat k n)" using ascii_show_nat [of n] by (auto simp: pad_nat_def ascii_digits_def digit_def)
  show "digits_value (pad_nat k n) = n" by (simp add: digits_value_def pad_nat_def z)
qed

lemma written_month:
  assumes "y < 10000" "1 \<le> mo" "mo \<le> 12"
  shows "valid_month_key (pad_nat 4 y @ ''-'' @ pad_nat 2 mo)"
    and "month_index (pad_nat 4 y @ ''-'' @ pad_nat 2 mo) = 12 * int y + int mo"
proof -
  note p = pad_nat_facts [of y 4] pad_nat_facts [of mo 2]
  let ?c = "pad_nat 4 y @ ''-'' @ pad_nat 2 mo"
  have parts: "take 4 ?c = pad_nat 4 y" "drop 5 ?c = pad_nat 2 mo" "?c ! 4 = CHR ''-''" "length ?c = 7"
    using p assms by (simp_all add: nth_append)
  have "\<not> pad_nat 2 mo < ''01''" "\<not> ''12'' < pad_nat 2 mo"
    using digits_order [of "pad_nat 2 mo" "''01''" 0 0] digits_order [of "''12''" "pad_nat 2 mo" 0 0] p(4-6) assms
    by (simp_all add: digits_value_def [symmetric]) (simp_all add: digits_value_def ascii_digits_def digit_def)
  then have "''01'' \<le> pad_nat 2 mo" "pad_nat 2 mo \<le> ''12''" by (simp_all only: not_less)
  then show "valid_month_key ?c" using p parts assms by (simp add: valid_month_key_def month_shape_def)
  show "month_index ?c = 12 * int y + int mo" unfolding month_index_def parts(1,2) using p assms by simp
qed

lemma month_index_bounds: "valid_month_key m \<Longrightarrow> 1 \<le> month_index m \<and> month_index m \<le> 12 * 9999 + 12"
proof -
  assume m: "valid_month_key m"
  then have "length (take 4 m) = 4" "ascii_digits (take 4 m)" by (auto simp: valid_month_key_def month_shape_def)
  then have "digits_value (take 4 m) < 10000" using parse_ascii_digits [of "take 4 m" 0] by (auto simp: digits_value_def)
  then show ?thesis using valid_month_range [OF m] unfolding month_index_def by linarith
qed

lemma cutoff_index:
  assumes "valid_month_key cur" and "N \<noteq> 0"
  shows "case retention_cutoff cur N of
      None \<Rightarrow> month_index cur < int (unat N)
    | Some c \<Rightarrow> valid_month_key c \<and> month_index c = month_index cur - int (unat N) + 1"
proof -
  have s: "length (take 4 cur) = 4" "ascii_digits (take 4 cur)" "length (drop 5 cur) = 2" "ascii_digits (drop 5 cur)"
    using assms(1) by (auto simp: valid_month_key_def month_shape_def)
  have y: "parse_i64 (take 4 cur) = Some (int (digits_value (take 4 cur)))"
    using s(1,2) by (intro parse_i64_digits) auto
  have mo: "parse_i64 (take 2 (drop 5 cur)) = Some (int (digits_value (drop 5 cur)))"
    using s(3,4) parse_i64_digits [of "drop 5 cur"] by auto
  have n: "int (unat (N - 1)) = int (unat N) - 1"
    using assms(2) by (simp add: unat_minus_one unat_gt_0 of_nat_diff Suc_leI)
  define months where "months = month_index cur - int (unat N)"
  have months: "int (digits_value (take 4 cur)) * 12 + (int (digits_value (drop 5 cur)) - 1) - int (unat (N - 1)) = months"
    unfolding n months_def month_index_def by simp
  have r: "retention_cutoff cur N = (if months < 0 then None
      else Some (pad_nat 4 (nat (months div 12)) @ ''-'' @ pad_nat 2 (nat (months mod 12 + 1))))"
    unfolding retention_cutoff_def using assms y mo months by simp
  show ?thesis
  proof (cases "months < 0")
    case True
    then show ?thesis unfolding r by (simp add: months_def)
  next
    case False
    have "months \<le> 12 * 9999 + 12 - 1" using month_index_bounds [OF assms(1)] assms(2) unat_gt_0 [of N] unfolding months_def by linarith
    then have b: "nat (months div 12) < 10000" "1 \<le> nat (months mod 12 + 1)" "nat (months mod 12 + 1) \<le> 12" using False by simp_all
    have "0 \<le> months div 12" using False by (simp add: pos_imp_zdiv_nonneg_iff)
    then have "12 * int (nat (months div 12)) + int (nat (months mod 12 + 1)) = months + 1" using False by simp
    then show ?thesis unfolding r using False written_month [OF b] by (simp add: months_def)
  qed
qed

lemma prune_months_all:
  "prune_months (\<lambda>_. False) before ms d deleted =
     (Inr (deleted @ filter (\<lambda>m. m < before) ms),
      filter (\<lambda>p. \<forall>m \<in> set ms. m < before \<longrightarrow> fst p \<noteq> month_filename m) d)"
  by (induction ms arbitrary: d deleted) (auto simp: al_remove_def intro!: filter_cong)

lemma prune_before_all:
  "prune_before (\<lambda>_. False) before (Some d) =
     (Inr (filter (\<lambda>m. m < before) (map fst (list_month_files (Some d)))),
      Some (filter (\<lambda>p. \<not> (\<exists>m. month_of_filename (fst p) = Some m \<and> m < before)) d))"
proof -
  have "(\<forall>m \<in> set (map fst (list_month_files (Some d))). m < before \<longrightarrow> fst p \<noteq> month_filename m) \<longleftrightarrow>
      \<not> (\<exists>m. month_of_filename (fst p) = Some m \<and> m < before)" if "p \<in> set d" for p
  proof -
    obtain name b where p: "p = (name, b)" by (cases p)
    have "m \<in> set (map fst (list_month_files (Some d))) \<and> name = month_filename m \<longleftrightarrow> month_of_filename name = Some m" for m
    proof
      assume "m \<in> set (map fst (list_month_files (Some d))) \<and> name = month_filename m"
      then obtain b' where "(m, b') \<in> set (month_entries d)" "name = month_filename m" by (auto simp: list_month_files_def)
      then show "month_of_filename name = Some m" by (simp add: mem_month_entries month_of_filename_name)
    next
      assume n: "month_of_filename name = Some m"
      then have "(m, b) \<in> set (month_entries d)" using month_of_filenameD [OF n] that p by (simp add: mem_month_entries)
      then have "m \<in> set (map fst (list_month_files (Some d)))" by (force simp: list_month_files_def)
      then show "m \<in> set (map fst (list_month_files (Some d))) \<and> name = month_filename m" using month_of_filenameD [OF n] by blast
    qed
    then show ?thesis unfolding p fst_conv by blast
  qed
  then have "filter (\<lambda>p. \<forall>m \<in> set (map fst (list_month_files (Some d))). m < before \<longrightarrow> fst p \<noteq> month_filename m) d =
      filter (\<lambda>p. \<not> (\<exists>m. month_of_filename (fst p) = Some m \<and> m < before)) d"
    by (intro filter_cong) simp_all
  then show ?thesis by (simp add: prune_before_def prune_months_all)
qed

text \<open>
  C35. The retention window of \<open>N\<close> months is exact. A boot in month \<open>cur\<close>, when every removal succeeds,
  keeps the file of a month exactly when the month is less than \<open>N\<close> months before \<open>cur\<close> (the current one
  counts as the first), keeps its contents, and touches no other file; with \<open>N\<close> zero it deletes nothing.
\<close>

theorem retention_keeps_the_window:
  assumes "valid_month_key (take 7 now_ts)" and "valid_month_key m"
  shows "\<exists>d'. boot_retention (\<lambda>_. False) now_ts N (Some d) = Some d' \<and>
    ((month_filename m, b) \<in> set d' \<longleftrightarrow> (month_filename m, b) \<in> set d \<and>
       (N = 0 \<or> month_index (take 7 now_ts) < month_index m + int (unat N))) \<and>
    (month_of_filename name = None \<longrightarrow> (name, b) \<in> set d' \<longleftrightarrow> (name, b) \<in> set d)"
proof -
  have shape: "month_of_filename (month_filename m) = Some m" using assms(2) by (simp add: month_of_filename_name valid_month_key_def)
  show ?thesis
  proof (cases "N = 0")
    case True
    then show ?thesis by (simp add: boot_retention_def retention_cutoff_def)
  next
    case N: False
    show ?thesis
    proof (cases "retention_cutoff (take 7 now_ts) N")
      case None
      then have "month_index (take 7 now_ts) < int (unat N)" using cutoff_index [OF assms(1) N] by simp
      then have "month_index (take 7 now_ts) < month_index m + int (unat N)" using month_index_bounds [OF assms(2)] by linarith
      then show ?thesis by (simp add: boot_retention_def None)
    next
      case (Some c)
      then have "valid_month_key c" "month_index c = month_index (take 7 now_ts) - int (unat N) + 1"
        using cutoff_index [OF assms(1) N] by simp_all
      then have "m < c \<longleftrightarrow> \<not> month_index (take 7 now_ts) < month_index m + int (unat N)"
        using month_order [OF assms(2)] by auto
      then show ?thesis using N shape by (auto simp: boot_retention_def Some prune_before_all)
    qed
  qed
qed

text \<open>A concrete printer for the witness: a brace and as many digits as the number of the value.\<close>

definition demo_line_libs :: libs where
  "demo_line_libs = demo_libs\<lparr>json_to_vec := \<lambda>v. 123 # replicate (to_nat v) 48,
     json_to_vec_pretty := \<lambda>v. 123 # replicate (to_nat v) 48,
     json_from_slice := \<lambda>bs. Some (from_nat (length bs - 1))\<rparr>"

lemma demo_line_roundtrip: "json_text_roundtrip demo_line_libs"
  by (simp add: json_text_roundtrip_def demo_line_libs_def)

lemma demo_one_line: "json_one_line demo_line_libs"
proof -
  have "utf8_valid (bytes_text (123 # replicate n 48)) \<and> str_trim (bytes_text (123 # replicate n 48)) \<noteq> []" for n
  proof -
    let ?s = "bytes_text (123 # replicate n 48)"
    have s: "?s = CHR ''{'' # replicate n (CHR ''0'')" by (simp add: bytes_text_def char_of_def bit_Suc_0_iff)
    have ascii: "\<forall>c \<in> set ?s. (of_char c :: nat) < 128" unfolding s by auto
    have u: "utf8_valid ?s" unfolding utf8_valid_def chars_ascii [OF ascii] string_ascii [OF ascii] using ascii by auto
    have "trim_matches is_whitespace (map of_char ?s) = map of_char ?s"
      unfolding s by (rule trim_nothing) (cases n; simp add: is_whitespace_def)
    then have "str_trim ?s = ?s" unfolding str_trim_def chars_ascii [OF ascii] by (simp add: string_ascii [OF ascii])
    then show ?thesis using u s by simp
  qed
  then show ?thesis by (simp add: json_one_line_def demo_line_libs_def)
qed

definition demo_august :: audit_record where
  "demo_august = ar_trust ''2026-08-01T00:00:00.000Z'' ''pair'' (Some ''bob'') None"

definition demo_july :: audit_record where
  "demo_july = ar_trust ''2026-07-31T00:00:00.000Z'' ''unpair'' (Some ''bob'') None"

definition demo_query :: audit_list_params where
  "demo_query = \<lparr>lp_since = None, lp_until = Some ''2026-08'', lp_kind = Some ''trust'', lp_peer = None, lp_limit = None,
     lp_offset = None\<rparr>"

theorem recorded_is_listed_witness:
  "audit_list demo_line_libs (\<lambda>_. False) demo_query (Some (dir_of demo_line_libs [demo_august, demo_july])) None =
     Inr ([demo_july, demo_august], 2)"
proof -
  have m: "month_of demo_august = ''2026-08''" "month_of demo_july = ''2026-07''"
    by (simp_all add: demo_august_def demo_july_def ar_trust_def ar_base_def month_key_def)
  have shape: "\<forall>r \<in> set [demo_august, demo_july]. month_shape (month_of r)"
    by (simp add: m month_shape_def ascii_digits_def digit_def)
  have k: "ar_kind demo_august = Trust" "ar_kind demo_july = Trust"
    by (simp_all add: demo_august_def demo_july_def ar_trust_def ar_base_def)
  have b: "month_bound ''since'' (lp_since demo_query) = Inr ()" "month_bound ''until'' (lp_until demo_query) = Inr ()"
    by (simp_all add: demo_query_def month_bound_def valid_month_key_def month_shape_def ascii_digits_def digit_def less_char_def)
  have q: "lp_kind demo_query = map_option kind_name (Some Trust)" by (simp add: demo_query_def)
  have s: "sort_key (\<lambda>r. month_of r) [demo_august, demo_july] = [demo_july, demo_august]"
    by (simp add: m less_char_def)
  have f: "filter (\<lambda>r. in_range (lp_since demo_query) (lp_until demo_query) (month_of r)) [demo_july, demo_august] = [demo_july, demo_august]"
    by (simp add: in_range_def demo_query_def m less_char_def)
  have "filter (wanted (Some Trust) (lp_peer demo_query)) [demo_july, demo_august] = [demo_july, demo_august]"
    by (simp add: wanted_def k demo_query_def)
  then show ?thesis
    using recorded_is_listed [OF demo_line_roundtrip demo_one_line shape b q, of None] unfolding s f
    by (simp add: page_limit_def demo_query_def Let_def)
qed


theorem retention_keeps_the_window_witness:
  "\<exists>d'. boot_retention (\<lambda>_. False) ''2026-01-15T00:00:00.000Z'' 2
       (Some [(''2025-11.jsonl'', [1]), (''2025-12.jsonl'', [2])]) = Some d' \<and>
     (month_filename ''2025-12'', [2]) \<in> set d'"
proof -
  have v: "valid_month_key (take 7 ''2026-01-15T00:00:00.000Z'')" "valid_month_key ''2025-12''"
    by (simp_all add: valid_month_key_def month_shape_def ascii_digits_def digit_def less_char_def)
  have "month_index (take 7 ''2026-01-15T00:00:00.000Z'') < month_index ''2025-12'' + int (unat (2 :: u32))"
    by (simp add: month_index_def digits_value_def digit_def)
  then show ?thesis
    using retention_keeps_the_window [OF v, of 2 "[(''2025-11.jsonl'', [1]), (''2025-12.jsonl'', [2])]" "[2]" "[]"]
    by (auto simp: month_filename_def)
qed

end
