(* ===== verification/Hooks.thy ===== *)
theory Hooks
  imports Dial Runs
begin

text \<open>
  The endpoint hooks (\<open>node/src/daemon/hooks.rs\<close>): the veto on every connection this node opens,
  including those no code of the program dials, and the registry of them by which a revoke closes the
  ones that are already up.

  A run interleaves the steps of any number of dials, revokes and close passes. A store read answers
  with what the store and the roster hold at that step; the step of a read says whether its blocking
  task joined. A weak handle upgrades while its connection is open.
\<close>

definition ALPN_PAIR :: string where "ALPN_PAIR = ''mcpmesh/pair/1''"

record dial_gate =
  dg_store :: peer_store
  dg_view :: "roster_view option"

definition gate_refuses :: "bool \<Rightarrow> dial_gate \<Rightarrow> bytes \<Rightarrow> bool" where
  "gate_refuses joined g i = (if joined then refused_by (dg_store g) (dg_view g) i else True)"

subsection \<open>The registry\<close>

type_synonym peer_conns = "(bytes \<times> (u64 \<times> nat) list) list"

definition conns_insert :: "bytes \<Rightarrow> u64 \<Rightarrow> nat \<Rightarrow> peer_conns \<Rightarrow> peer_conns" where
  "conns_insert i key c m =
     al_insert i (al_insert key c (case map_of m i of None \<Rightarrow> [] | Some cs \<Rightarrow> cs)) m"

definition conns_remove :: "bytes \<Rightarrow> u64 \<Rightarrow> peer_conns \<Rightarrow> peer_conns" where
  "conns_remove i key m =
     (case map_of m i of
        None \<Rightarrow> m
      | Some cs \<Rightarrow> (let cs = al_remove key cs in if cs = [] then al_remove i m else al_insert i cs m))"

definition conns_len :: "peer_conns \<Rightarrow> nat" where
  "conns_len m = sum_list (map (\<lambda>(_, cs). length cs) m)"

text \<open>The registered connections to the devices in \<open>ids\<close>.\<close>

definition conns_to :: "bytes list \<Rightarrow> peer_conns \<Rightarrow> nat list" where
  "conns_to ids m = concat (map (\<lambda>(_, cs). map snd cs) (filter (\<lambda>(i, _). i \<in> set ids) m))"

subsection \<open>Links and passes\<close>

text \<open>
  A link is a connection with what the hooks have decided: \<open>lk_up\<close> when \<open>after_handshake\<close> accepted it and
  its dialler has it, \<open>lk_key\<close> its key in the registry once it was registered.
\<close>

record link =
  lk_remote :: bytes
  lk_alpn :: string
  lk_outbound :: bool
  lk_key :: "u64 option"
  lk_up :: bool
  lk_open :: bool

datatype close_pass = PassListed "bytes list" | PassJudged "bytes list" | PassDone nat

record hook_world =
  hk_armed :: bool
  hk_gate :: dial_gate
  hk_conns :: peer_conns
  hk_seq :: u64
  hk_links :: "nat \<rightharpoonup> link"
  hk_passes :: "nat \<rightharpoonup> close_pass"

definition hooks_new :: "dial_gate \<Rightarrow> hook_world" where
  "hooks_new g = \<lparr>hk_armed = False, hk_gate = g, hk_conns = [], hk_seq = 0, hk_links = Map.empty, hk_passes = Map.empty\<rparr>"

definition hook_refuses :: "bool \<Rightarrow> hook_world \<Rightarrow> bytes \<Rightarrow> bool" where
  "hook_refuses joined w i = (if hk_armed w then gate_refuses joined (hk_gate w) i else True)"

definition before_connect :: "bool \<Rightarrow> hook_world \<Rightarrow> bytes \<Rightarrow> string \<Rightarrow> bool" where
  "before_connect joined w remote alpn \<longleftrightarrow> alpn = ALPN_PAIR \<or> \<not> hook_refuses joined w remote"

text \<open>\<open>after_handshake\<close> up to its await: inbound and pairing connections pass, the others are registered.\<close>

definition handshake_done :: "nat \<Rightarrow> link \<Rightarrow> hook_world \<Rightarrow> hook_world" where
  "handshake_done c l w =
     (if \<not> lk_outbound l \<or> lk_alpn l = ALPN_PAIR then w\<lparr>hk_links := (hk_links w)(c \<mapsto> l\<lparr>lk_up := True\<rparr>)\<rparr>
      else w\<lparr>hk_conns := conns_insert (lk_remote l) (hk_seq w) c (hk_conns w), hk_seq := hk_seq w + 1,
             hk_links := (hk_links w)(c \<mapsto> l\<lparr>lk_key := Some (hk_seq w)\<rparr>)\<rparr>)"

text \<open>And after it: a device refused by now loses its entry and its connection.\<close>

definition recheck :: "bool \<Rightarrow> nat \<Rightarrow> link \<Rightarrow> u64 \<Rightarrow> hook_world \<Rightarrow> hook_world" where
  "recheck joined c l key w =
     (if hook_refuses joined w (lk_remote l)
      then w\<lparr>hk_conns := conns_remove (lk_remote l) key (hk_conns w), hk_links := (hk_links w)(c \<mapsto> l\<lparr>lk_open := False\<rparr>)\<rparr>
      else w\<lparr>hk_links := (hk_links w)(c \<mapsto> l\<lparr>lk_up := True\<rparr>)\<rparr>)"

definition close_link :: "link \<Rightarrow> link" where
  "close_link l = l\<lparr>lk_open := False\<rparr>"

text \<open>\<open>close_refused\<close> in its three parts: the ids, one round of reads, the closing.\<close>

definition pass_lists :: "nat \<Rightarrow> hook_world \<Rightarrow> hook_world" where
  "pass_lists p w = w\<lparr>hk_passes := (hk_passes w)(p \<mapsto>
     (let ids = al_keys (hk_conns w) in if ids = [] then PassDone 0 else PassListed ids))\<rparr>"

definition pass_judges :: "bool \<Rightarrow> nat \<Rightarrow> bytes list \<Rightarrow> hook_world \<Rightarrow> hook_world" where
  "pass_judges joined p ids w = w\<lparr>hk_passes := (hk_passes w)(p \<mapsto>
     (if joined then PassJudged (filter (refused_by (dg_store (hk_gate w)) (dg_view (hk_gate w))) ids) else PassDone 0))\<rparr>"

definition pass_closes :: "nat \<Rightarrow> bytes list \<Rightarrow> hook_world \<Rightarrow> hook_world" where
  "pass_closes p ids w =
     (let cs = filter (\<lambda>c. case hk_links w c of Some l \<Rightarrow> lk_open l | None \<Rightarrow> False) (conns_to ids (hk_conns w))
      in w\<lparr>hk_links := (\<lambda>c. if c \<in> set cs then map_option close_link (hk_links w c) else hk_links w c),
           hk_passes := (hk_passes w)(p \<mapsto> PassDone (length cs))\<rparr>)"

datatype hook_label =
    Arms
  | Dials nat bytes string bool
  | Vetoed bytes string bool
  | Incoming nat bytes string
  | ShakesHands nat
  | Rechecks nat bool
  | Closes nat
  | Watches nat
  | GateChanges dial_gate
  | PassLists nat
  | PassJudges nat bool
  | PassCloses nat

definition new_link :: "bytes \<Rightarrow> string \<Rightarrow> bool \<Rightarrow> link" where
  "new_link remote alpn outbound = \<lparr>lk_remote = remote, lk_alpn = alpn, lk_outbound = outbound, lk_key = None,
     lk_up = False, lk_open = True\<rparr>"

inductive hook_step :: "hook_world \<Rightarrow> hook_label \<Rightarrow> hook_world \<Rightarrow> bool" where
  arms: "hook_step w Arms (w\<lparr>hk_armed := True\<rparr>)"
| dials: "hk_links w c = None \<Longrightarrow> before_connect joined w remote alpn \<Longrightarrow>
    hook_step w (Dials c remote alpn joined) (w\<lparr>hk_links := (hk_links w)(c \<mapsto> new_link remote alpn True)\<rparr>)"
| vetoed: "\<not> before_connect joined w remote alpn \<Longrightarrow> hook_step w (Vetoed remote alpn joined) w"
| incoming: "hk_links w c = None \<Longrightarrow>
    hook_step w (Incoming c remote alpn) (w\<lparr>hk_links := (hk_links w)(c \<mapsto> new_link remote alpn False)\<rparr>)"
| shakes: "hk_links w c = Some l \<Longrightarrow> \<not> lk_up l \<Longrightarrow> lk_key l = None \<Longrightarrow> hook_step w (ShakesHands c) (handshake_done c l w)"
| rechecks: "hk_links w c = Some l \<Longrightarrow> \<not> lk_up l \<Longrightarrow> lk_key l = Some key \<Longrightarrow>
    hook_step w (Rechecks c joined) (recheck joined c l key w)"
| closes: "hk_links w c = Some l \<Longrightarrow> hook_step w (Closes c) (w\<lparr>hk_links := (hk_links w)(c \<mapsto> close_link l)\<rparr>)"
| watches: "hk_links w c = Some l \<Longrightarrow> \<not> lk_open l \<Longrightarrow> lk_key l = Some key \<Longrightarrow>
    hook_step w (Watches c) (w\<lparr>hk_conns := conns_remove (lk_remote l) key (hk_conns w)\<rparr>)"
| gate_changes: "hook_step w (GateChanges g) (w\<lparr>hk_gate := g\<rparr>)"
| pass_lists: "hk_passes w p = None \<Longrightarrow> hook_step w (PassLists p) (pass_lists p w)"
| pass_judges: "hk_passes w p = Some (PassListed ids) \<Longrightarrow> hook_step w (PassJudges p joined) (pass_judges joined p ids w)"
| pass_closes: "hk_passes w p = Some (PassJudged ids) \<Longrightarrow> hook_step w (PassCloses p) (pass_closes p ids w)"

inductive_cases hook_stepE: "hook_step w l w'"

end
