(* ===== verification/Hooks_Props.thy ===== *)
theory Hooks_Props
  imports Hooks
begin

text \<open>
  What the hooks guarantee: a device refused before a close pass begins is reached by no link this node
  opened once the pass is over, however the dials, the revoke and the pass interleave.
\<close>

definition registered :: "peer_conns \<Rightarrow> bytes \<Rightarrow> u64 \<Rightarrow> nat option" where
  "registered m i key = Option.bind (map_of m i) (\<lambda>cs. map_of cs key)"

lemma registered_insert:
  "registered (conns_insert i key c m) i' key' = (if i' = i \<and> key' = key then Some c else registered m i' key')"
  by (auto simp: registered_def conns_insert_def map_of_al_insert split: option.splits)

lemma registered_remove:
  "registered (conns_remove i key m) i' key' = (if i' = i \<and> key' = key then None else registered m i' key')"
proof (cases "map_of m i")
  case None
  then show ?thesis by (auto simp: registered_def conns_remove_def)
next
  case (Some cs)
  have "map_of (al_remove key cs) key' = (if key' = key then None else map_of cs key')"
    by (simp add: map_of_al_remove)
  moreover have "al_remove key cs = [] \<Longrightarrow> key' \<noteq> key \<Longrightarrow> map_of cs key' = None"
    using calculation by simp
  ultimately show ?thesis using Some
    by (auto simp: registered_def conns_remove_def map_of_al_insert map_of_al_remove Let_def)
qed

lemma registered_listed: "registered m i key = Some c \<Longrightarrow> i \<in> set (al_keys m)"
  by (auto simp: registered_def bind_eq_Some_conv dest: map_of_SomeD intro: rev_image_eqI)

lemma registered_conns_to: "registered m i key = Some c \<Longrightarrow> i \<in> set ids \<Longrightarrow> c \<in> set (conns_to ids m)"
proof -
  assume "registered m i key = Some c" and i: "i \<in> set ids"
  then obtain cs where "(i, cs) \<in> set m" "(key, c) \<in> set cs"
    by (auto simp: registered_def bind_eq_Some_conv dest: map_of_SomeD)
  then show ?thesis using i by (force simp: conns_to_def)
qed

subsection \<open>Every link is registered while it is open\<close>

text \<open>\<open>n\<close> bounds the keys handed out, which are distinct until the counter wraps.\<close>

definition link_ok :: "hook_world \<Rightarrow> nat \<Rightarrow> link \<Rightarrow> bool" where
  "link_ok w c l \<longleftrightarrow>
     (lk_key l = None \<longrightarrow> lk_up l \<longrightarrow> \<not> lk_outbound l \<or> lk_alpn l = ALPN_PAIR) \<and>
     (\<forall>key. lk_key l = Some key \<longrightarrow>
        key < hk_seq w \<and> (lk_open l \<longrightarrow> registered (hk_conns w) (lk_remote l) key = Some c))"

definition hooks_inv :: "nat \<Rightarrow> hook_world \<Rightarrow> bool" where
  "hooks_inv n w \<longleftrightarrow> unat (hk_seq w) \<le> n \<and> (\<forall>c l. hk_links w c = Some l \<longrightarrow> link_ok w c l) \<and>
     (\<forall>c c' l l' key. hk_links w c = Some l \<longrightarrow> hk_links w c' = Some l' \<longrightarrow> lk_key l = Some key \<longrightarrow> lk_key l' = Some key \<longrightarrow> c = c')"

lemma link_ok_closed: "link_ok w c l \<Longrightarrow> link_ok w c (close_link l)"
  by (auto simp: link_ok_def close_link_def split: option.splits)

lemma link_ok_cong: "hk_seq w' = hk_seq w \<Longrightarrow> hk_conns w' = hk_conns w \<Longrightarrow> link_ok w' c l = link_ok w c l"
  by (simp add: link_ok_def)

text \<open>A step that hands out no key keeps the invariant when it keeps each link in order.\<close>

lemma hooks_inv_keep:
  assumes "hooks_inv n w" and "hk_seq w' = hk_seq w"
    and "\<And>c l'. hk_links w' c = Some l' \<Longrightarrow> link_ok w' c l' \<and> (lk_key l' = None \<or> (\<exists>l. hk_links w c = Some l \<and> lk_key l = lk_key l'))"
  shows "hooks_inv (Suc n) w'"
proof -
  have d: "c = c'" if "hk_links w' c = Some l" "hk_links w' c' = Some l'" "lk_key l = Some key" "lk_key l' = Some key" for c c' l l' key
    using assms(1) assms(3) [OF that(1)] assms(3) [OF that(2)] that(3,4) unfolding hooks_inv_def by (metis option.distinct(1))
  have "unat (hk_seq w') \<le> Suc n" using assms(1,2) unfolding hooks_inv_def by simp
  then show ?thesis unfolding hooks_inv_def using assms(3) d by blast
qed

lemma hooks_inv_link: "hooks_inv n w \<Longrightarrow> hk_links w c = Some l \<Longrightarrow> link_ok w c l"
  unfolding hooks_inv_def by blast

lemma hooks_inv_key:
  "hooks_inv n w \<Longrightarrow> hk_links w c = Some l \<Longrightarrow> hk_links w c' = Some l' \<Longrightarrow> lk_key l = Some key \<Longrightarrow> lk_key l' = Some key \<Longrightarrow> c = c'"
  unfolding hooks_inv_def by blast

lemma hooks_inv_same:
  assumes "hooks_inv n w" and w': "hk_seq w' = hk_seq w" "hk_conns w' = hk_conns w" "hk_links w' = hk_links w"
  shows "hooks_inv (Suc n) w'"
proof (rule hooks_inv_keep [OF assms(1) w'(1)])
  fix d m assume "hk_links w' d = Some m"
  then have d: "hk_links w d = Some m" using w'(3) by simp
  then show "link_ok w' d m \<and> (lk_key m = None \<or> (\<exists>l. hk_links w d = Some l \<and> lk_key l = lk_key m))"
    using hooks_inv_link [OF assms(1) d] by (simp add: link_ok_cong [OF w'(1,2)])
qed

lemma hooks_inv_one:
  assumes "hooks_inv n w" and w': "hk_seq w' = hk_seq w" "hk_conns w' = hk_conns w" "hk_links w' = (hk_links w)(c \<mapsto> l')"
    and "link_ok w c l'" and "lk_key l' = None \<or> (\<exists>l. hk_links w c = Some l \<and> lk_key l = lk_key l')"
  shows "hooks_inv (Suc n) w'"
proof (rule hooks_inv_keep [OF assms(1) w'(1)])
  fix d m assume m: "hk_links w' d = Some m"
  show "link_ok w' d m \<and> (lk_key m = None \<or> (\<exists>l. hk_links w d = Some l \<and> lk_key l = lk_key m))"
  proof (cases "d = c")
    case True
    then have "m = l'" using m w'(3) by simp
    then show ?thesis using True assms(5,6) by (simp add: link_ok_cong [OF w'(1,2)])
  next
    case False
    then have "hk_links w d = Some m" using m w'(3) by simp
    then show ?thesis using hooks_inv_link [OF assms(1)] by (simp add: link_ok_cong [OF w'(1,2)])
  qed
qed

lemma hooks_inv_unregister:
  assumes inv: "hooks_inv n w" and l: "hk_links w c = Some l" "lk_key l = Some key"
    and w': "hk_seq w' = hk_seq w" "hk_conns w' = conns_remove (lk_remote l) key (hk_conns w)"
    "hk_links w' = (hk_links w)(c \<mapsto> close_link l)"
  shows "hooks_inv (Suc n) w'"
proof (rule hooks_inv_keep [OF inv w'(1)])
  fix d m assume m: "hk_links w' d = Some m"
  show "link_ok w' d m \<and> (lk_key m = None \<or> (\<exists>l. hk_links w d = Some l \<and> lk_key l = lk_key m))"
  proof (cases "d = c")
    case True
    then have "m = close_link l" using m w'(3) by simp
    then show ?thesis using True l hooks_inv_link [OF inv l(1)] w'(1) by (simp add: link_ok_def close_link_def)
  next
    case False
    then have d: "hk_links w d = Some m" using m w'(3) by simp
    have "lk_key m \<noteq> Some key" using hooks_inv_key [OF inv d l(1) _ l(2)] False by blast
    then show ?thesis using d hooks_inv_link [OF inv d] w'
      by (auto simp: link_ok_def registered_remove split: option.splits)
  qed
qed

lemma hooks_inv_shakes:
  assumes inv: "hooks_inv n w" and l: "hk_links w c = Some l" "\<not> lk_up l" "lk_key l = None" and n: "n + 1 < 2 ^ 64"
  shows "hooks_inv (Suc n) (handshake_done c l w)"
proof (cases "\<not> lk_outbound l \<or> lk_alpn l = ALPN_PAIR")
  case True
  then show ?thesis using l
    by (intro hooks_inv_one [OF inv, where c = c and l' = "l\<lparr>lk_up := True\<rparr>"]) (auto simp: handshake_done_def link_ok_def)
next
  case False
  let ?w = "handshake_done c l w" and ?key = "hk_seq w"
  have w: "hk_seq ?w = ?key + 1" "hk_conns ?w = conns_insert (lk_remote l) ?key c (hk_conns w)"
    "hk_links ?w = (hk_links w)(c \<mapsto> l\<lparr>lk_key := Some ?key\<rparr>)"
    using False by (simp_all add: handshake_done_def)
  have le: "unat ?key \<le> n" using inv unfolding hooks_inv_def by blast
  have suc: "unat (?key + 1) = Suc (unat ?key)" using le n by (simp add: unat_word_ariths)
  have old: "key < ?key" if "hk_links w d = Some m" "lk_key m = Some key" for d m key
    using hooks_inv_link [OF inv that(1)] that(2) by (simp add: link_ok_def)
  have less: "key < ?key \<Longrightarrow> key < ?key + 1" "?key < ?key + 1" for key using suc by (simp_all add: word_less_nat_alt)
  have ok: "link_ok ?w d m" if m: "hk_links ?w d = Some m" for d m
  proof (cases "d = c")
    case True
    then show ?thesis using m w less by (auto simp: link_ok_def registered_insert)
  next
    case d: False
    then have dm: "hk_links w d = Some m" using m w(3) by simp
    then show ?thesis using hooks_inv_link [OF inv dm] old [OF dm] less w
      by (auto simp: link_ok_def registered_insert split: option.splits)
  qed
  have "d = d'" if "hk_links ?w d = Some m" "hk_links ?w d' = Some m'" "lk_key m = Some key" "lk_key m' = Some key" for d d' m m' key
  proof (cases "key = ?key")
    case True
    then have "d = c" "d' = c" using that old [of d m ?key] old [of d' m' ?key] unfolding w(3) by (auto split: if_splits)
    then show ?thesis by simp
  next
    case k: False
    then have "d \<noteq> c" "d' \<noteq> c" using that unfolding w(3) by (auto split: if_splits)
    then show ?thesis using that hooks_inv_key [OF inv, of d m d' m' key] unfolding w(3) by simp
  qed
  then show ?thesis unfolding hooks_inv_def using ok le suc w(1) by simp
qed

lemma hooks_inv_step:
  assumes "hook_step w lab w'" and inv: "hooks_inv n w" and "n + 1 < 2 ^ 64"
  shows "hooks_inv (Suc n) w'"
  using assms(1)
proof (cases rule: hook_step.cases)
  case (shakes c l)
  then show ?thesis using hooks_inv_shakes [OF inv _ _ _ assms(3)] by blast
next
  case (rechecks c l key joined)
  show ?thesis
  proof (cases "hook_refuses joined w (lk_remote l)")
    case True
    then show ?thesis using rechecks
      by (intro hooks_inv_unregister [OF inv rechecks(3,5)]) (simp_all add: recheck_def close_link_def)
  next
    case False
    then show ?thesis unfolding rechecks(2) using rechecks(3-5) hooks_inv_link [OF inv rechecks(3)]
      by (intro hooks_inv_one [OF inv, where c = c and l' = "l\<lparr>lk_up := True\<rparr>"]) (auto simp: recheck_def link_ok_def)
  qed
next
  case (watches c l key)
  have "(hk_links w)(c \<mapsto> close_link l) = hk_links w" using watches(3,4) by (auto simp: close_link_def)
  then show ?thesis unfolding watches(2) by (intro hooks_inv_unregister [OF inv watches(3,5)]) simp_all
next
  case (pass_closes p ids)
  show ?thesis unfolding pass_closes(2)
  proof (rule hooks_inv_keep [OF inv])
    fix d m assume m: "hk_links (pass_closes p ids w) d = Some m"
    then obtain l where l: "hk_links w d = Some l" "m = l \<or> m = close_link l"
      by (auto simp: pass_closes_def Let_def split: if_splits)
    then have "link_ok w d m" using hooks_inv_link [OF inv l(1)] link_ok_closed by blast
    then show "link_ok (pass_closes p ids w) d m \<and> (lk_key m = None \<or> (\<exists>l. hk_links w d = Some l \<and> lk_key l = lk_key m))"
      using l by (auto simp: pass_closes_def Let_def link_ok_def close_link_def)
  qed (simp add: pass_closes_def Let_def)
next
  case (dials c joined remote alpn)
  then show ?thesis by (intro hooks_inv_one [OF inv, where c = c]) (auto simp: link_ok_def new_link_def)
next
  case (incoming c remote alpn)
  then show ?thesis by (intro hooks_inv_one [OF inv, where c = c]) (auto simp: link_ok_def new_link_def)
next
  case (closes c l)
  show ?thesis unfolding closes(2)
    by (rule hooks_inv_one [OF inv, where c = c and l' = "close_link l"])
      (use closes(3) link_ok_closed [OF hooks_inv_link [OF inv closes(3)]] in \<open>simp_all add: close_link_def\<close>)
qed (rule hooks_inv_same [OF inv]; simp add: pass_lists_def pass_judges_def)+


lemma hooks_inv_run:
  assumes "run hook_step w ls w'" and "hooks_inv n w" and "n + length ls < 2 ^ 64"
  shows "hooks_inv (n + length ls) w'"
  using assms
proof (induction rule: run.induct)
  case (run_snoc s ls t l u)
  then show ?case using hooks_inv_step [OF run_snoc.hyps(2), of "n + length ls"] by simp
qed simp

lemma hooks_inv_new: "hooks_inv 0 (hooks_new g)"
  by (simp add: hooks_inv_def hooks_new_def)

subsection \<open>A close pass after a revoke\<close>

definition refused_now :: "hook_world \<Rightarrow> bytes \<Rightarrow> bool" where
  "refused_now w x = refused_by (dg_store (hk_gate w)) (dg_view (hk_gate w)) x"

text \<open>The steps taken while \<open>x\<close> is refused: a revoked device stays revoked.\<close>

definition refusing_step :: "bytes \<Rightarrow> hook_world \<Rightarrow> hook_label \<Rightarrow> hook_world \<Rightarrow> bool" where
  "refusing_step x w l w' \<longleftrightarrow> hook_step w l w' \<and> refused_now w x \<and> refused_now w' x"

text \<open>A connection to \<open>x\<close> that this node opened, whose dialler has it, and that is not closed.\<close>

definition usable :: "hook_world \<Rightarrow> bytes \<Rightarrow> nat \<Rightarrow> bool" where
  "usable w x c \<longleftrightarrow> (\<exists>l. hk_links w c = Some l \<and> lk_remote l = x \<and> lk_outbound l \<and> lk_alpn l \<noteq> ALPN_PAIR \<and> lk_up l \<and> lk_open l)"

lemma usable_registered:
  assumes "hooks_inv n w" and "usable w x c"
  shows "\<exists>key. registered (hk_conns w) x key = Some c"
proof -
  obtain l where l: "hk_links w c = Some l" "lk_remote l = x" "lk_outbound l" "lk_alpn l \<noteq> ALPN_PAIR" "lk_up l" "lk_open l"
    using assms(2) by (auto simp: usable_def)
  then show ?thesis using hooks_inv_link [OF assms(1) l(1)] by (cases "lk_key l") (auto simp: link_ok_def)
qed

text \<open>While \<open>x\<close> is refused, no step makes a connection to it usable.\<close>

lemma refusing_no_new:
  assumes "refusing_step x w lab w'" and "usable w' x c"
  shows "usable w x c"
proof -
  have s: "hook_step w lab w'" and r: "refused_now w x" using assms(1) by (auto simp: refusing_step_def)
  have h: "hook_refuses joined w x" for joined using r by (simp add: hook_refuses_def gate_refuses_def refused_now_def)
  show ?thesis using s assms(2) h
    by (elim hook_stepE) (auto simp: usable_def new_link_def handshake_done_def recheck_def close_link_def pass_lists_def
      pass_judges_def pass_closes_def Let_def split: if_splits)
qed

lemma pass_closes_all:
  assumes "hooks_inv n w" and "x \<in> set ids" and "usable (pass_closes p ids w) x c"
  shows False
proof -
  obtain l where l: "hk_links (pass_closes p ids w) c = Some l" "lk_remote l = x" "lk_open l"
    using assms(3) by (auto simp: usable_def)
  then have w: "hk_links w c = Some l" by (auto simp: pass_closes_def Let_def close_link_def split: if_splits)
  have "usable w x c" using assms(3) w l(1) by (auto simp: usable_def)
  then have "c \<in> set (conns_to ids (hk_conns w))"
    using usable_registered [OF assms(1)] registered_conns_to assms(2) by blast
  then show False using l w by (cases l) (auto simp: pass_closes_def Let_def close_link_def)
qed

text \<open>What a pass begun in this run knows of \<open>x\<close>.\<close>

definition pass_ok :: "bytes \<Rightarrow> nat \<Rightarrow> hook_label list \<Rightarrow> hook_world \<Rightarrow> bool" where
  "pass_ok x p ls w \<longleftrightarrow>
     (hk_passes w p = None \<longrightarrow> PassLists p \<notin> set ls \<and> PassCloses p \<notin> set ls) \<and>
     (PassLists p \<in> set ls \<longrightarrow>
        (case hk_passes w p of
           None \<Rightarrow> False
         | Some (PassListed ids) \<Rightarrow> PassCloses p \<notin> set ls \<and> ((\<exists>c. usable w x c) \<longrightarrow> x \<in> set ids)
         | Some (PassJudged ids) \<Rightarrow> PassCloses p \<notin> set ls \<and> ((\<exists>c. usable w x c) \<longrightarrow> x \<in> set ids)
         | Some (PassDone k) \<Rightarrow> PassCloses p \<in> set ls \<longrightarrow> (\<forall>c. \<not> usable w x c)))"

lemma pass_ok_other:
  assumes "pass_ok x p ls w" and "hk_passes w' p = hk_passes w p" and "\<And>c. usable w' x c \<Longrightarrow> usable w x c"
    and "lab \<noteq> PassLists p" "lab \<noteq> PassCloses p"
  shows "pass_ok x p (ls @ [lab]) w'"
  using assms unfolding pass_ok_def by (auto split: option.splits close_pass.splits)

lemma pass_ok_step:
  assumes inv: "hooks_inv n w" and st: "refusing_step x w lab w'" and ok: "pass_ok x p ls w"
  shows "pass_ok x p (ls @ [lab]) w'"
proof -
  have s: "hook_step w lab w'" and r: "refused_now w x" using st by (auto simp: refusing_step_def)
  note keep = refusing_no_new [OF st]
  show ?thesis
  proof (cases "lab = PassLists p \<or> lab = PassCloses p \<or> (\<exists>j. lab = PassJudges p j)")
    case False
    then have "hk_passes w' p = hk_passes w p" using s
      by (elim hook_stepE) (auto simp: handshake_done_def recheck_def pass_lists_def pass_judges_def pass_closes_def Let_def)
    then show ?thesis using pass_ok_other [OF ok _ keep] False by blast
  next
    case True
    then consider "lab = PassLists p" | "lab = PassCloses p" | j where "lab = PassJudges p j" by blast
    then show ?thesis
    proof cases
      case 1
      then have w': "w' = pass_lists p w" "hk_passes w p = None" using s by (auto elim: hook_stepE)
      then have "PassCloses p \<notin> set ls" using ok by (simp add: pass_ok_def)
      moreover have "usable w' x c \<Longrightarrow> x \<in> set (al_keys (hk_conns w))" for c
        using usable_registered [OF inv keep] registered_listed by blast
      ultimately show ?thesis using 1 by (auto simp: pass_ok_def w' pass_lists_def Let_def)
    next
      case 2
      then obtain ids where w': "w' = pass_closes p ids w" "hk_passes w p = Some (PassJudged ids)" using s by (auto elim: hook_stepE)
      have "\<not> usable w' x c" if "PassLists p \<in> set ls" for c
      proof
        assume u: "usable w' x c"
        then have "x \<in> set ids" using that ok w'(2) keep by (auto simp: pass_ok_def)
        then show False using pass_closes_all [OF inv _ u [unfolded w'(1)]] by blast
      qed
      then show ?thesis using 2 by (auto simp: pass_ok_def w' pass_closes_def Let_def)
    next
      case (3 j)
      then obtain ids where w': "w' = pass_judges j p ids w" "hk_passes w p = Some (PassListed ids)" using s by (auto elim: hook_stepE)
      have "usable w' x c \<Longrightarrow> PassLists p \<in> set ls \<Longrightarrow> x \<in> set ids" for c
        using ok w'(2) keep by (auto simp: pass_ok_def)
      then show ?thesis using 3 ok r w'(2)
        by (auto simp: pass_ok_def w'(1) pass_judges_def refused_now_def)
    qed
  qed
qed

lemma pass_ok_run:
  assumes "run (refusing_step x) w ls w'" and "hooks_inv n w" and "n + length ls < 2 ^ 64"
  shows "hooks_inv (n + length ls) w' \<and> pass_ok x p ls w'"
  using assms
proof (induction rule: run.induct)
  case run_nil
  then show ?case by (simp add: pass_ok_def)
next
  case (run_snoc s ls t l u)
  then have ih: "hooks_inv (n + length ls) t" "pass_ok x p ls t" by simp_all
  moreover have "hook_step t l u" using run_snoc.hyps(2) by (simp add: refusing_step_def)
  ultimately show ?case
    using hooks_inv_step [of t l u "n + length ls"] pass_ok_step [OF ih(1) run_snoc.hyps(2) ih(2)] run_snoc.prems by simp
qed

text \<open>
  C3. A revoke reaches the links this node opened. Take any run of dials, handshakes, revokes and close
  passes since the start, and let a device be refused from some point on. Once a close pass that began
  after that point has closed, no connection to the device that this node opened, pairing apart, is in
  its dialler's hands and open, whatever dialled it and however its steps fell between those of the
  pass; and none becomes so while the device is refused.
\<close>

theorem revoke_closes_every_dialled_link:
  assumes "run hook_step (hooks_new g) ls0 w0" and "run (refusing_step x) w0 ls w"
    and "PassLists p \<in> set ls" and "PassCloses p \<in> set ls" and "length ls0 + length ls < 2 ^ 64"
    and "hk_links w c = Some l" and "lk_remote l = x" and "lk_outbound l" and "lk_alpn l \<noteq> ALPN_PAIR"
  shows "\<not> (lk_up l \<and> lk_open l)"
proof -
  have "hooks_inv (length ls0) w0" using hooks_inv_run [OF assms(1) hooks_inv_new] assms(5) by simp
  then have "pass_ok x p ls w" using pass_ok_run [OF assms(2)] assms(5) by blast
  then have "\<not> usable w x c" using assms(3,4) unfolding pass_ok_def by (auto split: option.splits close_pass.splits)
  then show ?thesis using assms(6-9) by (auto simp: usable_def)
qed

definition demo_open_gate :: dial_gate where
  "demo_open_gate = \<lparr>dg_store = store_open (\<lambda>_. False), dg_view = None\<rparr>"

definition demo_revoking_gate :: dial_gate where
  "demo_revoking_gate = \<lparr>dg_store = (store_open (\<lambda>_. False))\<lparr>ps_revoked := [([7], Corrupt)]\<rparr>, dg_view = None\<rparr>"

lemma demo_gate_answers:
  "\<not> refused_by (dg_store demo_open_gate) (dg_view demo_open_gate) [7]"
  "refused_by (dg_store demo_revoking_gate) (dg_view demo_revoking_gate) [7]"
  by (simp_all add: demo_open_gate_def demo_revoking_gate_def refused_by_def is_refused_def store_admission_def decide_admission_def
    with_table_def store_open_def)

definition demo_link :: link where
  "demo_link = \<lparr>lk_remote = [7], lk_alpn = ''mcpmesh/mcp/1'', lk_outbound = True, lk_key = Some 0, lk_up = True, lk_open = True\<rparr>"

definition demo_linked :: hook_world where
  "demo_linked = \<lparr>hk_armed = True, hk_gate = demo_open_gate, hk_conns = [([7], [(0, 0)])], hk_seq = 1,
     hk_links = [0 \<mapsto> demo_link], hk_passes = Map.empty\<rparr>"

lemma hook_then:
  "run hook_step w ls t \<Longrightarrow> hook_step t l u \<Longrightarrow> run hook_step w (ls @ [l]) u"
  by (rule run_snoc)

lemma demo_linked_run:
  "run hook_step (hooks_new demo_open_gate)
     [Arms, Dials 0 [7] ''mcpmesh/mcp/1'' True, ShakesHands 0, Rechecks 0 True, GateChanges demo_revoking_gate]
     (demo_linked\<lparr>hk_gate := demo_revoking_gate\<rparr>)"
proof -
  define w1 where "w1 = (hooks_new demo_open_gate)\<lparr>hk_armed := True\<rparr>"
  define l where "l = new_link [7] ''mcpmesh/mcp/1'' True"
  define w2 where "w2 = w1\<lparr>hk_links := [0 \<mapsto> l]\<rparr>"
  define w3 where "w3 = handshake_done 0 l w2"
  define l3 where "l3 = l\<lparr>lk_key := Some 0\<rparr>"
  have s1: "hook_step (hooks_new demo_open_gate) Arms w1" unfolding w1_def by (rule arms)
  have "before_connect True w1 [7] ''mcpmesh/mcp/1''"
    using demo_gate_answers(1) by (simp add: before_connect_def hook_refuses_def gate_refuses_def w1_def hooks_new_def)
  then have s2: "hook_step w1 (Dials 0 [7] ''mcpmesh/mcp/1'' True) w2"
    using dials [of w1 0 True "[7]" "''mcpmesh/mcp/1''"] by (simp add: w2_def w1_def hooks_new_def l_def)
  have s3: "hook_step w2 (ShakesHands 0) w3"
    unfolding w3_def by (rule shakes) (simp_all add: w2_def l_def new_link_def)
  have w3: "w3 = \<lparr>hk_armed = True, hk_gate = demo_open_gate, hk_conns = [([7], [(0, 0)])], hk_seq = 1,
     hk_links = [0 \<mapsto> l3], hk_passes = Map.empty\<rparr>"
    by (simp add: w3_def handshake_done_def w2_def w1_def hooks_new_def l_def l3_def new_link_def ALPN_PAIR_def conns_insert_def)
  have "recheck True 0 l3 0 w3 = demo_linked"
    using demo_gate_answers(1)
    by (simp add: recheck_def w3 l3_def l_def new_link_def demo_linked_def demo_link_def hook_refuses_def gate_refuses_def)
  then have s4: "hook_step w3 (Rechecks 0 True) demo_linked"
    using rechecks [of w3 0 l3 0 True] by (simp add: w3 l3_def l_def new_link_def)
  have s5: "hook_step demo_linked (GateChanges demo_revoking_gate) (demo_linked\<lparr>hk_gate := demo_revoking_gate\<rparr>)" by (rule gate_changes)
  from hook_then [OF hook_then [OF hook_then [OF hook_then [OF run_one [where step = hook_step, OF s1] s2] s3] s4] s5] show ?thesis by simp
qed

theorem revoke_closes_every_dialled_link_witness:
  "\<exists>w l. run (refusing_step [7]) (demo_linked\<lparr>hk_gate := demo_revoking_gate\<rparr>) [PassLists 0, PassJudges 0 True, PassCloses 0] w \<and>
     hk_links w 0 = Some l \<and> lk_up l \<and> \<not> lk_open l"
proof -
  let ?w0 = "demo_linked\<lparr>hk_gate := demo_revoking_gate\<rparr>"
  define w1 where "w1 = pass_lists 0 ?w0"
  define w2 where "w2 = pass_judges True 0 [[7]] w1"
  define w3 where "w3 = pass_closes 0 [[7]] w2"
  have g: "refused_now ?w0 [7]" "refused_now w1 [7]" "refused_now w2 [7]" "refused_now w3 [7]"
    using demo_gate_answers(2)
    by (simp_all add: refused_now_def w3_def w2_def w1_def pass_lists_def pass_judges_def pass_closes_def Let_def)
  have "hook_step ?w0 (PassLists 0) w1" unfolding w1_def by (rule pass_lists) (simp add: demo_linked_def)
  then have s1: "refusing_step [7] ?w0 (PassLists 0) w1" using g by (simp add: refusing_step_def)
  have "hook_step w1 (PassJudges 0 True) w2"
    unfolding w2_def by (rule pass_judges) (simp add: w1_def pass_lists_def demo_linked_def)
  then have s2: "refusing_step [7] w1 (PassJudges 0 True) w2" using g by (simp add: refusing_step_def)
  have "hk_passes w2 0 = Some (PassJudged [[7]])"
    using demo_gate_answers(2) by (simp add: w2_def w1_def pass_judges_def pass_lists_def)
  then have "hook_step w2 (PassCloses 0) w3" unfolding w3_def by (rule pass_closes)
  then have s3: "refusing_step [7] w2 (PassCloses 0) w3" using g by (simp add: refusing_step_def)
  have r: "run (refusing_step [7]) ?w0 [PassLists 0, PassJudges 0 True, PassCloses 0] w3"
    using run_snoc [where step = "refusing_step [7]", OF run_snoc [where step = "refusing_step [7]", OF run_one [where step = "refusing_step [7]", OF s1] s2] s3] by simp
  define l where "l = close_link demo_link"
  have w2: "hk_links w2 = [0 \<mapsto> demo_link]" "hk_conns w2 = [([7], [(0, 0)])]"
    by (simp_all add: w2_def w1_def pass_lists_def pass_judges_def demo_linked_def)
  have "hk_links w3 0 = Some l"
    unfolding w3_def pass_closes_def Let_def by (simp add: w2 conns_to_def l_def demo_link_def)
  moreover have "lk_up l" "lk_remote l = [7]" "lk_outbound l" "lk_alpn l = ''mcpmesh/mcp/1''"
    by (simp_all add: l_def close_link_def demo_link_def)
  ultimately have l: "hk_links w3 0 = Some l" "lk_up l" "lk_remote l = [7]" "lk_outbound l" "lk_alpn l = ''mcpmesh/mcp/1''" by blast+
  have "\<not> (lk_up l \<and> lk_open l)"
    by (rule revoke_closes_every_dialled_link [OF demo_linked_run r, where p = 0 and c = 0]) (use l in \<open>simp_all add: ALPN_PAIR_def\<close>)
  then show ?thesis using r l by blast
qed

end
