(* ===== verification/Distribution.thy ===== *)
theory Distribution
  imports Roster_Install Rate_Limits Dial Runs
begin

text \<open>
  Roster distribution (\<open>node/src/roster/distribute.rs\<close>, \<open>node/src/roster/transport.rs\<close>): the gossip
  announcements with the blobs they name, and the poll of the roster URL. Both end in
  \<open>converge_roster_bytes\<close>.

  The receive loop, up to four handlers of announcements and the poll loop run beside each other and
  beside everything else the node does, so a run interleaves their steps with arbitrary other changes of
  the node. A step is what happens between two awaits. The ticket parser of \<open>iroh_blobs\<close> and the ticket
  it prints for this node's address are parameters; the answer of a download, of a GET and of a task
  that may not join is part of the step's label.
\<close>

subsection \<open>Topics and announcements\<close>

definition roster_topic_bytes :: "libs \<Rightarrow> string \<Rightarrow> bytes" where
  "roster_topic_bytes L org_id = blake3_hash L (str_bytes (''mcpmesh/roster/'' @ org_id))"

definition presence_topic_bytes :: "libs \<Rightarrow> string \<Rightarrow> bytes" where
  "presence_topic_bytes L org_id = blake3_hash L (str_bytes (''mcpmesh/presence/'' @ org_id))"

record roster_announce =
  an_serial :: u64
  an_roster_hash :: string
  an_blob_ticket :: string

definition announce_to_value :: "roster_announce \<Rightarrow> json" where
  "announce_to_value a = JObj [(''serial'', JNum (uint (an_serial a))), (''roster_hash'', JStr (an_roster_hash a)),
     (''blob_ticket'', JStr (an_blob_ticket a))]"

definition announce_from_value :: "json \<Rightarrow> roster_announce option" where
  "announce_from_value v =
     Option.bind (struct_members [''serial'', ''roster_hash'', ''blob_ticket''] v) (\<lambda>m.
     Option.bind (required m ''serial'' de_word) (\<lambda>serial.
     Option.bind (required m ''roster_hash'' as_str) (\<lambda>hash.
     Option.bind (required m ''blob_ticket'' as_str) (\<lambda>ticket.
     Some \<lparr>an_serial = serial, an_roster_hash = hash, an_blob_ticket = ticket\<rparr>))))"

definition announce_to_bytes :: "libs \<Rightarrow> roster_announce \<Rightarrow> bytes" where
  "announce_to_bytes L a = json_to_vec L (announce_to_value a)"

definition announce_from_bytes :: "libs \<Rightarrow> bytes \<Rightarrow> roster_announce option" where
  "announce_from_bytes L bs = Option.bind (json_from_slice L bs) announce_from_value"

subsection \<open>Blobs and the address book\<close>

datatype fetch_error = BadTicket | DownloadFailed | HashMismatch string string

definition blob_hash_text :: "libs \<Rightarrow> bytes \<Rightarrow> string" where
  "blob_hash_text L bs = ''blake3:'' @ hexlower L (blake3_hash L bs)"

text \<open>\<open>T\<close> parses a ticket to the provider's address and the blob's hash.\<close>

type_synonym ticket_parser = "string \<Rightarrow> (dial_addr \<times> bytes) option"

definition blob_fetch_roster :: "libs \<Rightarrow> ticket_parser \<Rightarrow> bytes option \<Rightarrow> string \<Rightarrow> string \<Rightarrow> fetch_error + bytes" where
  "blob_fetch_roster L T downloaded ticket_str roster_hash =
     rbind (ok_or BadTicket (T ticket_str)) (\<lambda>_.
     rbind (ok_or DownloadFailed downloaded) (\<lambda>bs.
     let got = blob_hash_text L bs
     in if got \<noteq> roster_hash then Inl (HashMismatch roster_hash got) else Inr bs))"

text \<open>The book bounds the providers; what it hands to the endpoint's address lookup is beside it.\<close>

record addr_book =
  bk_known :: "bytes list"
  bk_cap :: nat

definition book_note :: "dial_addr \<Rightarrow> addr_book \<Rightarrow> dial_addr list \<Rightarrow> addr_book \<times> dial_addr list" where
  "book_note a book lookup =
     (let a = dialable_only a; i = da_id a
      in if i \<in> set (bk_known book) \<or> length (bk_known book) \<ge> bk_cap book then (book, lookup)
         else (book\<lparr>bk_known := bk_known book @ [i]\<rparr>, lookup @ [a]))"

subsection \<open>The GET of the poll\<close>

datatype poll_error = PollUnreachable | PollStatus | PollRead | PollTooLarge

record http_response =
  hr_ok :: bool
  hr_content_length :: "u64 option"
  hr_chunks :: "bytes option list"

definition MAX_ROSTER_BYTES :: nat where "MAX_ROSTER_BYTES = 4 * 1024 * 1024"

primrec read_chunks :: "nat \<Rightarrow> bytes \<Rightarrow> bytes option list \<Rightarrow> poll_error + bytes" where
  "read_chunks limit body [] = Inr body"
| "read_chunks limit body (c # cs) = (case c of
     None \<Rightarrow> Inl PollRead
   | Some chunk \<Rightarrow>
       if length body + length chunk \<le> limit then read_chunks limit (body @ chunk) cs else Inl PollTooLarge)"

definition fetch_capped :: "nat \<Rightarrow> http_response option \<Rightarrow> poll_error + bytes" where
  "fetch_capped limit resp =
     rbind (ok_or PollUnreachable resp) (\<lambda>r.
     if \<not> hr_ok r then Inl PollStatus
     else if (case hr_content_length r of Some n \<Rightarrow> unat n > limit | None \<Rightarrow> False) then Inl PollTooLarge
     else read_chunks limit [] (hr_chunks r))"

subsection \<open>The world of the channels\<close>

text \<open>A handler of an announcement between its awaits.\<close>

datatype fetch_task =
    TaskStarts roster_announce
  | TaskJudges roster_announce
  | TaskFetches roster_announce
  | TaskInstalls roster_announce bytes
  | TaskAnnounces
  | TaskSends u64

text \<open>The poll between its awaits.\<close>

datatype poll_task =
    PollIdle
  | PollInstalls bytes u64
  | PollVerifies roster int
  | PollConfirms int
  | PollAnnounces
  | PollSends u64

record dist_world =
  dw_node :: mesh_node
  dw_gossip :: bool
  dw_blobs :: bool
  dw_sender :: bool
  dw_book :: "addr_book option"
  dw_lookup :: "dial_addr list"
  dw_stored :: "bytes list"
  dw_sent :: "bytes list"
  dw_bucket :: token_bucket
  dw_permits :: nat
  dw_next :: nat
  dw_tasks :: "nat \<rightharpoonup> fetch_task"
  dw_poll :: poll_task

abbreviation dw_serial :: "dist_world \<Rightarrow> u64" where
  "dw_serial w \<equiv> gate_serial (mn_gate (dw_node w))"

definition GOSSIP_FETCH_CONCURRENCY :: nat where "GOSSIP_FETCH_CONCURRENCY = 4"

definition GOSSIP_ANNOUNCE_PER_MIN :: u32 where "GOSSIP_ANNOUNCE_PER_MIN = 60"

definition announce_bucket :: "rounding \<Rightarrow> nat \<Rightarrow> token_bucket" where
  "announce_bucket rnd now =
     tb_new (of_nat (unat GOSSIP_ANNOUNCE_PER_MIN)) (rnd (of_nat (unat GOSSIP_ANNOUNCE_PER_MIN) / 60)) now"

text \<open>The state in which boot spawns the loops.\<close>

definition dist_start :: "rounding \<Rightarrow> nat \<Rightarrow> mesh_node \<Rightarrow> dist_world" where
  "dist_start rnd now n = \<lparr>dw_node = n, dw_gossip = True, dw_blobs = True, dw_sender = True,
     dw_book = Some \<lparr>bk_known = [], bk_cap = 256\<rparr>, dw_lookup = [], dw_stored = [], dw_sent = [],
     dw_bucket = announce_bucket rnd now, dw_permits = GOSSIP_FETCH_CONCURRENCY, dw_next = 0,
     dw_tasks = Map.empty, dw_poll = PollIdle\<rparr>"

subsection \<open>Announcing\<close>

text \<open>
  \<open>announce_roster\<close> up to its file read: nothing to do without gossip, blobs or an installed roster.
  Then the bytes of the installed file are published and the announcement is broadcast. \<open>mk\<close> is the
  ticket for this node's address.
\<close>

definition announce_reads :: "dist_world \<Rightarrow> u64 option" where
  "announce_reads w =
     (if \<not> dw_gossip w \<or> \<not> dw_blobs w then None
      else map_option v_serial (rg_view (mn_gate (dw_node w))))"

definition announce_sends :: "libs \<Rightarrow> (bytes \<Rightarrow> string) \<Rightarrow> bool \<Rightarrow> bool \<Rightarrow> u64 \<Rightarrow> dist_world \<Rightarrow> dist_world" where
  "announce_sends L mk add_ok send_ok serial w = (case mn_roster_file (dw_node w) of
     FileBytes bs \<Rightarrow>
       if \<not> add_ok then w
       else
         (let a = \<lparr>an_serial = serial, an_roster_hash = blob_hash_text L bs, an_blob_ticket = mk bs\<rparr>;
              w = w\<lparr>dw_stored := dw_stored w @ [bs]\<rparr>
          in if dw_sender w \<and> send_ok then w\<lparr>dw_sent := dw_sent w @ [announce_to_bytes L a]\<rparr> else w)
   | _ \<Rightarrow> w)"

subsection \<open>Handling an announcement\<close>

definition task_to :: "nat \<Rightarrow> fetch_task \<Rightarrow> dist_world \<Rightarrow> dist_world" where
  "task_to t s w = w\<lparr>dw_tasks := (dw_tasks w)(t \<mapsto> s)\<rparr>"

text \<open>A handler that returns drops its permit.\<close>

definition task_ends :: "nat \<Rightarrow> dist_world \<Rightarrow> dist_world" where
  "task_ends t w = w\<lparr>dw_tasks := (dw_tasks w)(t := None), dw_permits := dw_permits w + 1\<rparr>"

text \<open>
  The receive loop: a payload that does not parse, one over the rate and one that finds no permit are
  dropped; the others get a handler.
\<close>

definition receive_message :: "libs \<Rightarrow> rounding \<Rightarrow> nat \<Rightarrow> bytes \<Rightarrow> dist_world \<Rightarrow> dist_world" where
  "receive_message L rnd now content w = (case announce_from_bytes L content of
     None \<Rightarrow> w
   | Some a \<Rightarrow>
       (case try_take rnd (dw_bucket w) now of
          (Inl _, b) \<Rightarrow> w\<lparr>dw_bucket := b\<rparr>
        | (Inr _, b) \<Rightarrow>
            (let w = w\<lparr>dw_bucket := b\<rparr>
             in if dw_permits w = 0 then w
                else task_to (dw_next w) (TaskStarts a) (w\<lparr>dw_permits := dw_permits w - 1, dw_next := dw_next w + 1\<rparr>))))"

definition dw_refuses :: "dist_world \<Rightarrow> bytes \<Rightarrow> bool" where
  "dw_refuses w i = refused_by (dm_store (pn_daemon (dw_node w))) (rg_view (mn_gate (dw_node w))) i"

text \<open>\<open>on_announce\<close>: the serial, then the provider, then the fetch, then the install.\<close>

definition announce_starts :: "ticket_parser \<Rightarrow> nat \<Rightarrow> roster_announce \<Rightarrow> dist_world \<Rightarrow> dist_world" where
  "announce_starts T t a w =
     (if an_serial a \<le> dw_serial w then task_ends t w
      else if \<not> dw_blobs w then task_ends t w
      else (case T (an_blob_ticket a) of
              Some _ \<Rightarrow> task_to t (TaskJudges a) w
            | None \<Rightarrow> task_to t (TaskFetches a) w))"

definition note_provider :: "dial_addr \<Rightarrow> dist_world \<Rightarrow> dist_world" where
  "note_provider a w = (case dw_book w of
     Some book \<Rightarrow> (case book_note a book (dw_lookup w) of (book, lookup) \<Rightarrow> w\<lparr>dw_book := Some book, dw_lookup := lookup\<rparr>)
   | None \<Rightarrow> w\<lparr>dw_lookup := dw_lookup w @ [dialable_only a]\<rparr>)"

definition announce_judged :: "ticket_parser \<Rightarrow> bool \<Rightarrow> nat \<Rightarrow> roster_announce \<Rightarrow> dist_world \<Rightarrow> dist_world" where
  "announce_judged T joined t a w = (case T (an_blob_ticket a) of
     None \<Rightarrow> task_to t (TaskFetches a) w
   | Some (addr, _) \<Rightarrow>
       if (if joined then dw_refuses w (da_id addr) else True) then task_ends t w
       else task_to t (TaskFetches a) (note_provider addr w))"

text \<open>The answer of the fetch is \<open>None\<close> when the time is up.\<close>

definition announce_fetched ::
  "libs \<Rightarrow> ticket_parser \<Rightarrow> bytes option option \<Rightarrow> nat \<Rightarrow> roster_announce \<Rightarrow> dist_world \<Rightarrow> dist_world" where
  "announce_fetched L T answer t a w = (case answer of
     None \<Rightarrow> task_ends t w
   | Some downloaded \<Rightarrow>
       (case blob_fetch_roster L T downloaded (an_blob_ticket a) (an_roster_hash a) of
          Inl _ \<Rightarrow> task_ends t w
        | Inr bs \<Rightarrow> task_to t (TaskInstalls a bs) w))"

definition announce_installs ::
  "libs \<Rightarrow> access_env \<Rightarrow> install_io \<Rightarrow> nat \<Rightarrow> roster_announce \<Rightarrow> bytes \<Rightarrow> dist_world \<Rightarrow> dist_world" where
  "announce_installs L E io t a bs w = (case converge_roster_bytes L E io bs (an_serial a) (dw_node w) of
     (r, n) \<Rightarrow> (if r = Inr True then task_to t TaskAnnounces (w\<lparr>dw_node := n\<rparr>) else task_ends t (w\<lparr>dw_node := n\<rparr>)))"

definition task_announces :: "nat \<Rightarrow> dist_world \<Rightarrow> dist_world" where
  "task_announces t w = (case announce_reads w of None \<Rightarrow> task_ends t w | Some s \<Rightarrow> task_to t (TaskSends s) w)"

definition task_sends :: "libs \<Rightarrow> (bytes \<Rightarrow> string) \<Rightarrow> bool \<Rightarrow> bool \<Rightarrow> nat \<Rightarrow> u64 \<Rightarrow> dist_world \<Rightarrow> dist_world" where
  "task_sends L mk add_ok send_ok t s w = task_ends t (announce_sends L mk add_ok send_ok s w)"

subsection \<open>One poll of the URL\<close>

definition poll_body :: "libs \<Rightarrow> roster_gate \<Rightarrow> bytes \<Rightarrow> int \<Rightarrow> poll_task" where
  "poll_body L g body now = (case parse_roster L body of
     None \<Rightarrow> PollIdle
   | Some r \<Rightarrow>
       if ro_serial r > gate_serial g then PollInstalls body (ro_serial r)
       else if ro_serial r = gate_serial g then PollVerifies r now
       else PollIdle)"

definition poll_fetched :: "libs \<Rightarrow> http_response option \<Rightarrow> int \<Rightarrow> dist_world \<Rightarrow> dist_world" where
  "poll_fetched L resp now w = (case fetch_capped MAX_ROSTER_BYTES resp of
     Inl _ \<Rightarrow> w
   | Inr body \<Rightarrow> w\<lparr>dw_poll := poll_body L (mn_gate (dw_node w)) body now\<rparr>)"

definition equal_serial_body_is_authentic :: "libs \<Rightarrow> access_env \<Rightarrow> mesh_node \<Rightarrow> roster \<Rightarrow> bool" where
  "equal_serial_body_is_authentic L E n r = (case mesh_config_org_root_pk E n of
     Inr (Some pk_b64) \<Rightarrow>
       (case parse_org_root_pk L pk_b64 of None \<Rightarrow> False | Some pk \<Rightarrow> verify L r pk = Inr ())
   | _ \<Rightarrow> False)"

definition poll_verified :: "libs \<Rightarrow> access_env \<Rightarrow> roster \<Rightarrow> int \<Rightarrow> dist_world \<Rightarrow> dist_world" where
  "poll_verified L E r now w =
     w\<lparr>dw_poll := (if equal_serial_body_is_authentic L E (dw_node w) r then PollConfirms now else PollIdle)\<rparr>"

definition poll_confirmed :: "install_io \<Rightarrow> int \<Rightarrow> dist_world \<Rightarrow> dist_world" where
  "poll_confirmed io now w = w\<lparr>dw_node := confirm_roster_current (io\<lparr>ii_now := now\<rparr>) (dw_node w), dw_poll := PollIdle\<rparr>"

definition poll_installed :: "libs \<Rightarrow> access_env \<Rightarrow> install_io \<Rightarrow> bytes \<Rightarrow> u64 \<Rightarrow> dist_world \<Rightarrow> dist_world" where
  "poll_installed L E io body s w = (case converge_roster_bytes L E io body s (dw_node w) of
     (r, n) \<Rightarrow> w\<lparr>dw_node := n, dw_poll := (if r = Inr True then PollAnnounces else PollIdle)\<rparr>)"

definition poll_announces :: "dist_world \<Rightarrow> dist_world" where
  "poll_announces w = w\<lparr>dw_poll := (case announce_reads w of None \<Rightarrow> PollIdle | Some s \<Rightarrow> PollSends s)\<rparr>"

definition poll_sends :: "libs \<Rightarrow> (bytes \<Rightarrow> string) \<Rightarrow> bool \<Rightarrow> bool \<Rightarrow> u64 \<Rightarrow> dist_world \<Rightarrow> dist_world" where
  "poll_sends L mk add_ok send_ok s w = (announce_sends L mk add_ok send_ok s w)\<lparr>dw_poll := PollIdle\<rparr>"

subsection \<open>Runs\<close>

datatype dist_label =
    Hears bytes nat
  | Starts nat
  | Judges nat bool
  | Fetches nat "bytes option option"
  | TInstalls nat install_io
  | TAnnounces nat
  | TSends nat bool bool
  | Polls "http_response option" int
  | Verifies
  | Confirms install_io
  | PInstalls install_io
  | PAnnounces
  | PSends bool bool
  | Aborts
  | Elsewhere

text \<open>
  \<open>Aborts\<close>: a new URL replaces the poll loop at one of its awaits. \<open>Elsewhere\<close>: any other part of the program, or the operator, changes the node in any way.
\<close>

inductive dist_step :: "libs \<Rightarrow> access_env \<Rightarrow> rounding \<Rightarrow> ticket_parser \<Rightarrow> (bytes \<Rightarrow> string) \<Rightarrow>
    dist_world \<Rightarrow> dist_label \<Rightarrow> dist_world \<Rightarrow> bool"
  for L E rnd T mk where
  d_hears: "dist_step L E rnd T mk w (Hears content now) (receive_message L rnd now content w)"
| d_starts: "dw_tasks w t = Some (TaskStarts a) \<Longrightarrow> dist_step L E rnd T mk w (Starts t) (announce_starts T t a w)"
| d_judges: "dw_tasks w t = Some (TaskJudges a) \<Longrightarrow> dist_step L E rnd T mk w (Judges t joined) (announce_judged T joined t a w)"
| d_fetches: "dw_tasks w t = Some (TaskFetches a) \<Longrightarrow> dist_step L E rnd T mk w (Fetches t answer) (announce_fetched L T answer t a w)"
| d_installs: "dw_tasks w t = Some (TaskInstalls a bs) \<Longrightarrow> dist_step L E rnd T mk w (TInstalls t io) (announce_installs L E io t a bs w)"
| d_announces: "dw_tasks w t = Some TaskAnnounces \<Longrightarrow> dist_step L E rnd T mk w (TAnnounces t) (task_announces t w)"
| d_sends: "dw_tasks w t = Some (TaskSends s) \<Longrightarrow> dist_step L E rnd T mk w (TSends t add_ok send_ok) (task_sends L mk add_ok send_ok t s w)"
| d_polls: "dw_poll w = PollIdle \<Longrightarrow> dist_step L E rnd T mk w (Polls resp now) (poll_fetched L resp now w)"
| d_verifies: "dw_poll w = PollVerifies r now \<Longrightarrow> dist_step L E rnd T mk w Verifies (poll_verified L E r now w)"
| d_confirms: "dw_poll w = PollConfirms now \<Longrightarrow> dist_step L E rnd T mk w (Confirms io) (poll_confirmed io now w)"
| d_poll_installs: "dw_poll w = PollInstalls body s \<Longrightarrow> dist_step L E rnd T mk w (PInstalls io) (poll_installed L E io body s w)"
| d_poll_announces: "dw_poll w = PollAnnounces \<Longrightarrow> dist_step L E rnd T mk w PAnnounces (poll_announces w)"
| d_poll_sends: "dw_poll w = PollSends s \<Longrightarrow> dist_step L E rnd T mk w (PSends add_ok send_ok) (poll_sends L mk add_ok send_ok s w)"
| d_aborts: "dist_step L E rnd T mk w Aborts (w\<lparr>dw_poll := PollIdle\<rparr>)"
| d_elsewhere: "dist_step L E rnd T mk w Elsewhere (w\<lparr>dw_node := n\<rparr>)"

inductive_cases dist_stepE: "dist_step L E rnd T mk w l w'"

end
