(* ===== verification/Distribution_Props.thy ===== *)
theory Distribution_Props
  imports Distribution Install_Props
begin

text \<open>
  The theorems of roster distribution: what makes a node believe its roster is current, whom an
  announcement can make it contact, and what a flood of announcements costs.
\<close>

subsection \<open>Announcements\<close>

lemma announce_value_roundtrip: "announce_from_value (announce_to_value a) = Some a"
  proof -
  have "uint (an_serial a) < 2 ^ 64" by (rule order_less_le_trans [OF uint_lt2p]) simp
  then have "de_word (JNum (uint (an_serial a))) = Some (an_serial a)" by (simp add: de_word_def)
  then show ?thesis by (simp add: announce_from_value_def announce_to_value_def struct_members_def required_def)
qed

lemma announce_roundtrip:
  assumes "json_text_roundtrip L"
  shows "announce_from_bytes L (announce_to_bytes L a) = Some a"
proof -
  have "uint (an_serial a) < 2 ^ 64" by (rule order_less_le_trans [OF uint_lt2p]) simp
  moreover have "- (2 ^ 63) \<le> uint (an_serial a)" by (rule order_trans [OF _ uint_ge_0]) simp
  ultimately have "json_printable (announce_to_value a)" unfolding announce_to_value_def by simp
  moreover have "json_depth (announce_to_value a) \<le> JSON_MAX_DEPTH"
    by (simp add: announce_to_value_def JSON_MAX_DEPTH_def)
  ultimately show ?thesis using assms
    by (simp add: announce_from_bytes_def announce_to_bytes_def json_text_roundtrip_def announce_value_roundtrip)
qed

text \<open>A capped read returns the whole body within the limit, or nothing.\<close>

lemma read_chunks_Inr:
  "read_chunks limit body cs = Inr out \<Longrightarrow> out = body @ concat (map the cs) \<and> (cs = [] \<or> length out \<le> limit)"
proof (induction cs arbitrary: body)
  case (Cons c cs)
  from Cons.prems obtain chunk where c: "c = Some chunk" "length body + length chunk \<le> limit"
    and r: "read_chunks limit (body @ chunk) cs = Inr out" by (auto split: option.splits if_splits)
  show ?case using Cons.IH [OF r] c r by auto
qed simp

lemma fetch_capped_bounded: "fetch_capped limit resp = Inr body \<Longrightarrow> length body \<le> limit"
  unfolding fetch_capped_def
  by (auto simp: result_simps split: if_splits option.splits dest!: read_chunks_Inr)

lemma blob_fetch_Inr:
  "blob_fetch_roster L T downloaded ticket h = Inr bs \<longleftrightarrow> T ticket \<noteq> None \<and> downloaded = Some bs \<and> h = blob_hash_text L bs"
  by (auto simp: blob_fetch_roster_def Let_def result_simps split: if_splits)


subsection \<open>Where in a run a step was taken\<close>

text \<open>In the run from \<open>w0\<close> along \<open>ls\<close> to \<open>w\<close>, the step \<open>l\<close> was taken in the state \<open>u\<close>.\<close>

definition taken :: "('s \<Rightarrow> 'l \<Rightarrow> 's \<Rightarrow> bool) \<Rightarrow> 's \<Rightarrow> 'l list \<Rightarrow> 's \<Rightarrow> 'l \<Rightarrow> 's \<Rightarrow> bool" where
  "taken R w0 ls w l u \<longleftrightarrow>
     (\<exists>ls1 ls2 u'. ls = ls1 @ l # ls2 \<and> run R w0 ls1 u \<and> R u l u' \<and> run R u' ls2 w)"

lemma taken_now: "run R w0 ls w \<Longrightarrow> R w l w' \<Longrightarrow> taken R w0 (ls @ [l]) w' l w"
  unfolding taken_def by (intro exI [of _ ls] exI [of _ "[]"] exI [of _ w']) (simp add: run_nil)

lemma taken_later: "taken R w0 ls w l u \<Longrightarrow> R w m w' \<Longrightarrow> taken R w0 (ls @ [m]) w' l u"
proof -
  assume "taken R w0 ls w l u" and m: "R w m w'"
  then obtain ls1 ls2 u' where t: "ls = ls1 @ l # ls2" "run R w0 ls1 u" "R u l u'" "run R u' ls2 w"
    unfolding taken_def by blast
  have "ls @ [m] = ls1 @ l # (ls2 @ [m])" using t(1) by simp
  then show ?thesis using t(2,3) run_snoc [OF t(4) m] unfolding taken_def by blast
qed

subsection \<open>What confirms a roster\<close>

lemma equal_serial_authentic:
  "equal_serial_body_is_authentic L E n r \<longleftrightarrow>
     (\<exists>p k. mesh_config_org_root_pk E n = Inr (Some p) \<and> parse_org_root_pk L p = Some k \<and> verify L r k = Inr ())"
  by (auto simp: equal_serial_body_is_authentic_def split: sum.splits option.splits)

text \<open>The roster in force and what the node believes about its currency, in the gate and on disk.\<close>

definition currency :: "mesh_node \<Rightarrow> roster_view option \<times> int option \<times> sidecar" where
  "currency n = (rg_view (mn_gate n), rg_last_confirmed (mn_gate n), mn_confirmed n)"

lemma currency_upd [simp]:
  "currency (with_config f n) = currency n" "currency (node_audit e t n) = currency n"
  "currency (n\<lparr>mn_roster_file := d\<rparr>) = currency n" "currency (n\<lparr>mn_closed := cs\<rparr>) = currency n"
  "currency (audit_successor_adoption ch org n) = currency n"
  "currency (reconcile_user_id_from_roster E ok n) = currency n"
  by (simp_all add: currency_def with_config_def node_audit_def audit_successor_adoption_def
      reconcile_user_id_from_roster_def Let_def split: option.split sum.split)

text \<open>A validated document, under the root pinned when the bytes arrived, or nothing.\<close>

definition validated_under_pin :: "libs \<Rightarrow> access_env \<Rightarrow> mesh_node \<Rightarrow> bytes \<Rightarrow> int \<Rightarrow> roster_view \<Rightarrow> bool" where
  "validated_under_pin L E n bs now v \<longleftrightarrow>
     (\<exists>p k r old ch. mesh_config_org_root_pk E n = Inr (Some p) \<and> parse_org_root_pk L p = Some k \<and>
        parse_roster L bs = Some r \<and> installed_serial L (mn_roster_file n) = Inr old \<and>
        validate_for_install_with_anchor L r k old now = Inr (v, ch))"

lemma adopt_currency: "ends (\<lambda>t. currency t = currency n) (adopt_successor_root E ok ch org n)"
  by (auto simp: adopt_successor_root_def pin_root_def ends_def sbind_def split: option.splits sum.splits)

lemma store_currency: "store_install L ok src k now n = (x, n1) \<Longrightarrow> currency n1 = currency n"
  by (auto simp: store_install_def split: sum.splits prod.splits)

lemma swap_gate:
  "install_view_and_sever v n = (cs, n') \<Longrightarrow> rg_last_confirmed (mn_gate n') = rg_last_confirmed (mn_gate n) \<and> rg_view (mn_gate n') = Some v"
  by (auto simp: install_view_and_sever_def install_roster_view_and_sever_def currency_def with_gate_def node_audit_def
      rg_install_def Let_def split: prod.splits)

lemma reconcile_gate [simp]: "mn_gate (reconcile_user_id_from_roster E ok n) = mn_gate n"
  by (simp add: reconcile_user_id_from_roster_def with_config_def Let_def split: option.split sum.split)

lemma converge_currency:
  assumes "converge_roster_bytes L E io bs s n = (res, n')"
  shows "currency n' = currency n \<and> res \<noteq> Inr True \<or>
    (\<exists>v. validated_under_pin L E n bs (ii_now io) v \<and> rg_view (mn_gate n') = Some v \<and>
       rg_last_confirmed (mn_gate n') = Some (ii_now io) \<and> res = Inr True)"
proof (cases "s \<le> gate_serial (mn_gate n)")
  case True
  then show ?thesis using assms by (auto simp: converge_roster_bytes_def)
next
  case serial: False
  show ?thesis
  proof (cases "\<exists>p k. mesh_config_org_root_pk E n = Inr (Some p) \<and> parse_org_root_pk L p = Some k")
    case False
    then show ?thesis using assms serial unfolding converge_roster_bytes_def
      by (cases "mesh_config_org_root_pk E n") (auto simp: ok_or_def split: option.splits if_splits)
  next
    case True
    then obtain p k where p: "mesh_config_org_root_pk E n = Inr (Some p)" and k: "parse_org_root_pk L p = Some k" by blast
    define m where "m = store_install L (ii_roster_ok io) (FileBytes bs) k (ii_now io) n"
    have eq: "(if \<not> ii_stage_ok io then (Inl StageFailed, n)
        else sbind m (\<lambda>(view, anchor) n. sbind (adopt_successor_root E (ii_pin_ok io) anchor (v_org_id view) n) (\<lambda>_ n.
          case install_view_and_sever view (confirm_roster_current io n) of
            (_, n) \<Rightarrow> (Inr True, reconcile_user_id_from_roster E (ii_reconcile_ok io) n)))) = (res, n')"
      using assms serial p k unfolding m_def by (simp add: converge_roster_bytes_def ok_or_def split del: if_split)
    obtain x n1 where m: "m = (x, n1)" by fastforce
    have c1: "currency n1 = currency n" using store_currency m m_def by metis
    show ?thesis
    proof (cases x)
      case (Inl e)
      then show ?thesis using eq m c1 by (auto split: if_splits)
    next
      case (Inr vc)
      obtain v ch where vc: "vc = (v, ch)" by fastforce
      obtain f where "install_from_file L (ii_roster_ok io) (mn_roster_file n) (FileBytes bs) k (ii_now io) = Inr ((v, ch), f)"
        using m Inr vc by (auto simp: m_def store_install_def split: sum.splits prod.splits)
      then have val: "validated_under_pin L E n bs (ii_now io) v"
        using p k unfolding validated_under_pin_def install_from_file_Inr by auto
      obtain y n2 where a: "adopt_successor_root E (ii_pin_ok io) ch (v_org_id v) n1 = (y, n2)" by fastforce
      have c2: "currency n2 = currency n1" using adopt_currency [of n1 E "ii_pin_ok io" ch "v_org_id v"] a by (simp add: ends_def)
      obtain cs n3 where sw: "install_view_and_sever v (confirm_roster_current io n2) = (cs, n3)" by fastforce
      have g: "rg_last_confirmed (mn_gate n3) = Some (ii_now io)" "rg_view (mn_gate n3) = Some v"
        using swap_gate [OF sw] by (simp_all add: currency_def confirm_roster_current_def with_gate_def rg_set_last_confirmed_def)
      show ?thesis using eq m Inr vc a c1 c2 sw g val by (cases y) (auto split: if_splits)
    qed
  qed
qed


subsection \<open>Currency needs the operator's signature\<close>

text \<open>
  The body of a poll answered at \<open>now\<close> was a roster \<open>r\<close> with the serial in force, and \<open>r\<close> verified
  under the root the configuration pinned when it was checked.
\<close>

definition served_at :: "libs \<Rightarrow> (dist_world \<Rightarrow> dist_label \<Rightarrow> dist_world \<Rightarrow> bool) \<Rightarrow> dist_world \<Rightarrow> dist_label list \<Rightarrow> dist_world \<Rightarrow> roster \<Rightarrow> int \<Rightarrow> bool" where
  "served_at L R w0 ls w r now \<longleftrightarrow>
     (\<exists>u resp body. taken R w0 ls w (Polls resp now) u \<and> fetch_capped MAX_ROSTER_BYTES resp = Inr body \<and>
        parse_roster L body = Some r \<and> ro_serial r = dw_serial u)"

definition verified_in :: "libs \<Rightarrow> access_env \<Rightarrow> (dist_world \<Rightarrow> dist_label \<Rightarrow> dist_world \<Rightarrow> bool) \<Rightarrow> dist_world \<Rightarrow> dist_label list \<Rightarrow> dist_world \<Rightarrow> roster \<Rightarrow> bool" where
  "verified_in L E R w0 ls w r \<longleftrightarrow>
     (\<exists>u p k. taken R w0 ls w Verifies u \<and> mesh_config_org_root_pk E (dw_node u) = Inr (Some p) \<and>
        parse_org_root_pk L p = Some k \<and> verify L r k = Inr ())"

definition poll_ok :: "libs \<Rightarrow> access_env \<Rightarrow> (dist_world \<Rightarrow> dist_label \<Rightarrow> dist_world \<Rightarrow> bool) \<Rightarrow> dist_world \<Rightarrow> dist_label list \<Rightarrow> dist_world \<Rightarrow> bool" where
  "poll_ok L E R w0 ls w = (case dw_poll w of
     PollVerifies r now \<Rightarrow> served_at L R w0 ls w r now
   | PollConfirms now \<Rightarrow> \<exists>r. served_at L R w0 ls w r now \<and> verified_in L E R w0 ls w r
   | _ \<Rightarrow> True)"

lemma served_later: "served_at L R w0 ls w r now \<Longrightarrow> R w m w' \<Longrightarrow> served_at L R w0 (ls @ [m]) w' r now"
  unfolding served_at_def using taken_later by metis

lemma verified_later: "verified_in L E R w0 ls w r \<Longrightarrow> R w m w' \<Longrightarrow> verified_in L E R w0 (ls @ [m]) w' r"
  unfolding verified_in_def using taken_later by metis

lemma poll_ok_later:
  "poll_ok L E R w0 ls w \<Longrightarrow> R w m w' \<Longrightarrow> dw_poll w' = dw_poll w \<Longrightarrow> poll_ok L E R w0 (ls @ [m]) w'"
  unfolding poll_ok_def by (auto split: poll_task.splits intro: served_later verified_later)

lemma poll_ok_trivial:
  "(case dw_poll w of PollVerifies r now \<Rightarrow> False | PollConfirms now \<Rightarrow> False | _ \<Rightarrow> True) \<Longrightarrow> poll_ok L E R w0 ls w"
  unfolding poll_ok_def by (auto split: poll_task.splits)

text \<open>The handlers leave the poll alone.\<close>

lemma keeps_poll [simp]:
  "dw_poll (task_ends t w) = dw_poll w" "dw_poll (task_to t s w) = dw_poll w"
  "dw_poll (receive_message L rnd now content w) = dw_poll w"
  "dw_poll (announce_sends L mk x y q w) = dw_poll w" "dw_poll (note_provider a w) = dw_poll w"
  by (simp_all add: task_ends_def task_to_def receive_message_def announce_sends_def note_provider_def Let_def
      split: option.split prod.split sum.split invite_file.split)

lemma keeps_poll_tasks [simp]:
  "dw_poll (announce_starts T t a w) = dw_poll w" "dw_poll (announce_judged T joined t a w) = dw_poll w"
  "dw_poll (announce_fetched L T answer t a w) = dw_poll w" "dw_poll (announce_installs L E io t a bs w) = dw_poll w"
  "dw_poll (task_announces t w) = dw_poll w" "dw_poll (task_sends L mk x y t s w) = dw_poll w"
  by (simp_all add: announce_starts_def announce_judged_def announce_fetched_def announce_installs_def task_announces_def
      task_sends_def split: option.split prod.split sum.split)

lemma poll_body_cases:
  "poll_body L g body now = PollVerifies r now' \<longleftrightarrow> parse_roster L body = Some r \<and> ro_serial r = gate_serial g \<and> now' = now"
  "poll_body L g body now \<noteq> PollConfirms now'"
  by (auto simp: poll_body_def split: option.splits)

lemma poll_ok_step:
  assumes r: "run (dist_step L E rnd T mk) w0 ls w" and ok: "poll_ok L E (dist_step L E rnd T mk) w0 ls w"
    and s: "dist_step L E rnd T mk w m w'"
  shows "poll_ok L E (dist_step L E rnd T mk) w0 (ls @ [m]) w'"
  using s
proof (cases rule: dist_step.cases)
  case (d_polls resp now)
  show ?thesis
  proof (cases "fetch_capped MAX_ROSTER_BYTES resp")
    case (Inl e)
    then show ?thesis using poll_ok_later [OF ok s] d_polls by (simp add: poll_fetched_def)
  next
    case (Inr body)
    have w': "dw_poll w' = poll_body L (mn_gate (dw_node w)) body now" using Inr d_polls by (simp add: poll_fetched_def)
    have "served_at L (dist_step L E rnd T mk) w0 (ls @ [m]) w' r now" if "dw_poll w' = PollVerifies r now'" for r now'
      using that taken_now [of "dist_step L E rnd T mk", OF r s] Inr d_polls(1)
      unfolding w' poll_body_cases served_at_def by blast
    then show ?thesis using poll_body_cases [of L "mn_gate (dw_node w)" body now]
      unfolding poll_ok_def w' by (auto split: poll_task.split)
  qed
next
  case (d_verifies ro now)
  have "served_at L (dist_step L E rnd T mk) w0 ls w ro now" using ok d_verifies(3) by (simp add: poll_ok_def)
  from served_later [of _ "dist_step L E rnd T mk", OF this s]
  have "served_at L (dist_step L E rnd T mk) w0 (ls @ [m]) w' ro now" .
  moreover have "verified_in L E (dist_step L E rnd T mk) w0 (ls @ [m]) w' ro"
    if "equal_serial_body_is_authentic L E (dw_node w) ro"
    using that taken_now [of "dist_step L E rnd T mk", OF r s] d_verifies(1)
    unfolding equal_serial_authentic verified_in_def by blast
  ultimately show ?thesis using d_verifies(2) by (auto simp: poll_ok_def poll_verified_def)
next
  case (d_poll_announces)
  then show ?thesis by (intro poll_ok_trivial) (simp add: poll_announces_def split: option.split)
qed (use poll_ok_later [OF ok s] in \<open>(simp; fail)\<close> |
  (rule poll_ok_trivial, simp add: poll_confirmed_def poll_installed_def poll_sends_def split: prod.split))+

lemma poll_ok_run:
  assumes "run (dist_step L E rnd T mk) w0 ls w" and "dw_poll w0 = PollIdle"
  shows "poll_ok L E (dist_step L E rnd T mk) w0 ls w"
  using assms
proof (induction rule: run.induct)
  case (run_snoc s ls t l u)
  then show ?case using poll_ok_step [OF run_snoc.hyps(1) _ run_snoc.hyps(2)] by blast
qed (simp add: poll_ok_def)


lemma keeps_node [simp]:
  "dw_node (task_ends t w) = dw_node w" "dw_node (task_to t s w) = dw_node w"
  "dw_node (receive_message L rnd now content w) = dw_node w"
  "dw_node (announce_sends L mk x y q w) = dw_node w" "dw_node (note_provider a w) = dw_node w"
  by (simp_all add: task_ends_def task_to_def receive_message_def announce_sends_def note_provider_def Let_def
      split: option.split prod.split sum.split invite_file.split)

lemma keeps_node_tasks [simp]:
  "dw_node (announce_starts T t a w) = dw_node w" "dw_node (announce_judged T joined t a w) = dw_node w"
  "dw_node (announce_fetched L T answer t a w) = dw_node w"
  "dw_node (task_announces t w) = dw_node w" "dw_node (task_sends L mk x y t q w) = dw_node w"
  "dw_node (poll_fetched L resp now w) = dw_node w" "dw_node (poll_verified L E r now w) = dw_node w"
  "dw_node (poll_announces w) = dw_node w" "dw_node (poll_sends L mk x y q w) = dw_node w"
  by (simp_all add: announce_starts_def announce_judged_def announce_fetched_def task_announces_def
      task_sends_def poll_fetched_def poll_verified_def poll_announces_def poll_sends_def split: option.split prod.split sum.split)

text \<open>
  C4. Only the operator's signature makes a node believe its roster is current. Let announcements, blobs
  and the bodies the URL serves be arbitrary bytes, interleaved in any way with each other and with
  everything else the node does. When a step of the two channels changes the roster in force, or when
  it was last confirmed, in memory or on disk, then either the step installed a document that passed
  full validation under the root the configuration pins at that moment, or it confirmed the roster in
  force after a poll served a roster of the serial then in force whose body verified under the root
  pinned when it was checked.
\<close>
theorem currency_needs_the_org_root:
  assumes "run (dist_step L E rnd T mk) w0 ls w" and "dw_poll w0 = PollIdle"
    and "dist_step L E rnd T mk w m w'" and "m \<noteq> Elsewhere" and "currency (dw_node w') \<noteq> currency (dw_node w)"
  shows "(\<exists>bs now v. validated_under_pin L E (dw_node w) bs now v \<and> rg_view (mn_gate (dw_node w')) = Some v \<and>
       rg_last_confirmed (mn_gate (dw_node w')) = Some now) \<or>
    (\<exists>r now. served_at L (dist_step L E rnd T mk) w0 ls w r now \<and> verified_in L E (dist_step L E rnd T mk) w0 ls w r \<and>
       rg_view (mn_gate (dw_node w')) = rg_view (mn_gate (dw_node w)) \<and>
       rg_last_confirmed (mn_gate (dw_node w')) = Some now)"
  using assms(3)
proof (cases rule: dist_step.cases)
  case (d_installs t a bs io)
  obtain res n where c: "converge_roster_bytes L E io bs (an_serial a) (dw_node w) = (res, n)" by fastforce
  then have "dw_node w' = n" using d_installs by (simp add: announce_installs_def)
  then show ?thesis using converge_currency [OF c] assms(5) by blast
next
  case (d_poll_installs body s io)
  obtain res n where c: "converge_roster_bytes L E io body s (dw_node w) = (res, n)" by fastforce
  then have "dw_node w' = n" using d_poll_installs by (simp add: poll_installed_def)
  then show ?thesis using converge_currency [OF c] assms(5) by blast
next
  case (d_confirms now io)
  then obtain r where "served_at L (dist_step L E rnd T mk) w0 ls w r now" "verified_in L E (dist_step L E rnd T mk) w0 ls w r"
    using poll_ok_run [OF assms(1,2)] by (auto simp: poll_ok_def)
  moreover have "rg_view (mn_gate (dw_node w')) = rg_view (mn_gate (dw_node w))" "rg_last_confirmed (mn_gate (dw_node w')) = Some now"
    by (simp_all add: d_confirms(2) poll_confirmed_def confirm_roster_current_def with_gate_def rg_set_last_confirmed_def)
  ultimately show ?thesis by blast
qed (use assms(4,5) in simp_all)


text \<open>A node with the demo roster in force whose URL serves that roster again.\<close>

definition demo_poll_libs :: libs where
  "demo_poll_libs = demo_libs\<lparr>json_from_slice := \<lambda>bs. if bs = [123] then Some (roster_to_value demo_signed) else None\<rparr>"

definition demo_rostered :: mesh_node where
  "demo_rostered = with_gate (rg_install (mn_gate demo_operator) (spec_view demo_libs demo_roster 6))
     (demo_operator\<lparr>mn_roster_file := FileBytes [123]\<rparr>)"

definition demo_served :: http_response where
  "demo_served = \<lparr>hr_ok = True, hr_content_length = None, hr_chunks = [Some [123]]\<rparr>"

abbreviation demo_dist_step :: "dist_world \<Rightarrow> dist_label \<Rightarrow> dist_world \<Rightarrow> bool" where
  "demo_dist_step \<equiv> dist_step demo_poll_libs demo_env id (\<lambda>_. None) (\<lambda>_. [])"

lemma demo_served_body:
  "fetch_capped MAX_ROSTER_BYTES (Some demo_served) = Inr [123]"
  "parse_roster demo_poll_libs [123] = Some demo_signed"
  by (simp_all add: fetch_capped_def demo_served_def MAX_ROSTER_BYTES_def parse_roster_def demo_poll_libs_def roster_roundtrip)

lemma demo_body_authentic: "equal_serial_body_is_authentic demo_poll_libs demo_env demo_rostered demo_signed"
proof -
  have "sign demo_libs demo_root demo_roster = Inr demo_signed"
    using canonical_bytes_total [OF demo_jcs, of demo_roster] by (auto simp: sign_def demo_signed_def)
  then have "verify demo_libs demo_signed demo_root = Inr ()" using sign_verifies [OF demo_b64 demo_ed25519, of demo_root] by simp
  then have v: "verify demo_poll_libs demo_signed demo_root = Inr ()"
    by (simp add: demo_poll_libs_def verify_def canonical_bytes_def canonical_bytes_without_sig_def decode_b64u_def)
  have sel: "b64_decode demo_poll_libs = b64_decode demo_libs" "vk_from_bytes demo_poll_libs = vk_from_bytes demo_libs"
    by (simp_all add: demo_poll_libs_def)
  have k: "parse_org_root_pk demo_poll_libs demo_pin = Some demo_root"
    using demo_pin_parses unfolding parse_org_root_pk_def decode_b64u_def sel .
  have "mesh_config_org_root_pk demo_env demo_rostered = Inr (Some demo_pin)"
    using demo_pinned by (simp add: mesh_config_org_root_pk_def demo_rostered_def with_gate_def)
  then show ?thesis using v k by (simp add: equal_serial_authentic)
qed

theorem currency_needs_the_org_root_witness:
  "\<exists>w r. run demo_dist_step (dist_start id 0 demo_rostered) [Polls (Some demo_served) 9, Verifies] w \<and>
     served_at demo_poll_libs demo_dist_step (dist_start id 0 demo_rostered) [Polls (Some demo_served) 9, Verifies] w r 9 \<and>
     rg_last_confirmed (mn_gate (dw_node (poll_confirmed demo_writes 9 w))) = Some 9"
proof -
  let ?w0 = "dist_start id 0 demo_rostered"
  define w1 where "w1 = poll_fetched demo_poll_libs (Some demo_served) 9 ?w0"
  define w2 where "w2 = poll_verified demo_poll_libs demo_env demo_signed 9 w1"
  define w3 where "w3 = poll_confirmed demo_writes 9 w2"
  have g: "gate_serial (mn_gate demo_rostered) = 5" "rg_last_confirmed (mn_gate demo_rostered) = None"
    by (simp_all add: demo_rostered_def with_gate_def gate_serial_def rg_install_def spec_view_def demo_operator_def
        with_config_def demo_mesh_def pair_node.defs demo_alice_def rg_empty_def)
  have p1: "dw_poll w1 = PollVerifies demo_signed 9" "dw_node w1 = demo_rostered"
    by (simp_all add: w1_def poll_fetched_def demo_served_body poll_body_def dist_start_def g)
  have p2: "dw_poll w2 = PollConfirms 9" "dw_node w2 = demo_rostered"
    using demo_body_authentic by (simp_all add: w2_def poll_verified_def p1)
  have s1: "demo_dist_step ?w0 (Polls (Some demo_served) 9) w1" unfolding w1_def by (rule d_polls) (simp add: dist_start_def)
  have s2: "demo_dist_step w1 Verifies w2" unfolding w2_def by (rule d_verifies) (rule p1)
  have s3: "demo_dist_step w2 (Confirms demo_writes) w3" unfolding w3_def by (rule d_confirms) (rule p2)
  have r: "run demo_dist_step ?w0 [Polls (Some demo_served) 9, Verifies] w2"
    using run_snoc [where step = demo_dist_step, OF run_one [where step = demo_dist_step, OF s1] s2] by simp
  have l: "rg_last_confirmed (mn_gate (dw_node w3)) = Some 9" "rg_view (mn_gate (dw_node w3)) = rg_view (mn_gate demo_rostered)"
    by (simp_all add: w3_def poll_confirmed_def p2 confirm_roster_current_def with_gate_def rg_set_last_confirmed_def)
  have idle: "dw_poll ?w0 = PollIdle" by (simp add: dist_start_def)
  have ch: "currency (dw_node w3) \<noteq> currency (dw_node w2)" using l(1) g(2) by (simp add: currency_def p2)
  have "\<not> validated_under_pin demo_poll_libs demo_env demo_rostered bs now v" for bs now v
  proof
    assume "validated_under_pin demo_poll_libs demo_env demo_rostered bs now v"
    then obtain k r ch old where "parse_roster demo_poll_libs bs = Some r"
      and "installed_serial demo_poll_libs (mn_roster_file demo_rostered) = Inr old"
      and "validate_for_install_with_anchor demo_poll_libs r k old now = Inr (v, ch)"
      unfolding validated_under_pin_def by blast
    moreover have "installed_serial demo_poll_libs (mn_roster_file demo_rostered) = Inr 5"
      by (simp add: installed_serial_def demo_rostered_def with_gate_def demo_served_body)
    moreover have "r = demo_signed" if "parse_roster demo_poll_libs bs = Some r" for r
      using that by (simp add: parse_roster_def demo_poll_libs_def roster_roundtrip split: if_splits)
    ultimately show False by (auto simp: validate_Inr)
  qed
  then obtain r where "served_at demo_poll_libs demo_dist_step ?w0 [Polls (Some demo_served) 9, Verifies] w2 r 9"
    using currency_needs_the_org_root [OF r idle s3 _ ch] l p2 by auto
  then show ?thesis using r l(1) w3_def by blast
qed


text \<open>
  The signature is all a confirmation needs: the bytes of the roster in force, which every device of the
  organisation holds, confirm it whenever they are served again.
\<close>

lemma replayed_body_confirms:
  assumes "dw_poll w = PollIdle" and "fetch_capped MAX_ROSTER_BYTES resp = Inr body" and "parse_roster L body = Some r"
    and "ro_serial r = dw_serial w" and "equal_serial_body_is_authentic L E (dw_node w) r"
  shows "\<exists>w'. run (dist_step L E rnd T mk) w [Polls resp now, Verifies, Confirms io] w' \<and>
    rg_last_confirmed (mn_gate (dw_node w')) = Some now \<and> rg_view (mn_gate (dw_node w')) = rg_view (mn_gate (dw_node w))"
proof -
  define w1 where "w1 = poll_fetched L resp now w"
  define w2 where "w2 = poll_verified L E r now w1"
  define w3 where "w3 = poll_confirmed io now w2"
  have p1: "dw_poll w1 = PollVerifies r now" "dw_node w1 = dw_node w"
    by (simp_all add: w1_def poll_fetched_def assms poll_body_def)
  have p2: "dw_poll w2 = PollConfirms now" "dw_node w2 = dw_node w"
    by (simp_all add: w2_def poll_verified_def p1 assms)
  let ?R = "dist_step L E rnd T mk"
  have s: "?R w (Polls resp now) w1" "?R w1 Verifies w2" "?R w2 (Confirms io) w3"
    unfolding w1_def w2_def w3_def using assms(1) p1(1) p2(1) by (auto intro: dist_step.intros simp: w1_def w2_def)
  have "run ?R w [Polls resp now, Verifies, Confirms io] w3"
    using run_snoc [where step = ?R, OF run_snoc [where step = ?R, OF run_one [where step = ?R, OF s(1)] s(2)] s(3)] by simp
  moreover have "rg_last_confirmed (mn_gate (dw_node w3)) = Some now"
    "rg_view (mn_gate (dw_node w3)) = rg_view (mn_gate (dw_node w))"
    by (simp_all add: w3_def poll_confirmed_def p2 confirm_roster_current_def with_gate_def rg_set_last_confirmed_def)
  ultimately show ?thesis by blast
qed

text \<open>With no roster installed, a body of serial 0 is checked for currency like any of the serial in force.\<close>

lemma serial_zero_is_checked:
  assumes "rg_view g = None" and "parse_roster L body = Some r" and "ro_serial r = 0"
  shows "poll_body L g body now = PollVerifies r now"
  using assms by (simp add: poll_body_def gate_serial_def)

subsection \<open>Whom an announcement contacts\<close>

text \<open>What is known of a handler's announcement.\<close>

definition task_ok :: "libs \<Rightarrow> ticket_parser \<Rightarrow> (dist_world \<Rightarrow> dist_label \<Rightarrow> dist_world \<Rightarrow> bool) \<Rightarrow> dist_world \<Rightarrow> dist_label list \<Rightarrow>
    dist_world \<Rightarrow> nat \<Rightarrow> fetch_task \<Rightarrow> bool" where
  "task_ok L T R w0 ls w t s \<longleftrightarrow>
     (let newer = (\<lambda>a. \<exists>u. taken R w0 ls w (Starts t) u \<and> dw_serial u < an_serial a);
          cleared = (\<lambda>a. \<forall>addr h. T (an_blob_ticket a) = Some (addr, h) \<longrightarrow>
            (\<exists>u. taken R w0 ls w (Judges t True) u \<and> dw_tasks u t = Some (TaskJudges a) \<and> \<not> dw_refuses u (da_id addr)))
      in case s of
           TaskJudges a \<Rightarrow> newer a
         | TaskFetches a \<Rightarrow> newer a \<and> cleared a
         | TaskInstalls a bs \<Rightarrow> newer a \<and> cleared a \<and> an_roster_hash a = blob_hash_text L bs
         | _ \<Rightarrow> True)"

lemma task_ok_later:
  assumes "task_ok L T R w0 ls w t s" and "R w m w'"
  shows "task_ok L T R w0 (ls @ [m]) w' t s"
proof -
  have k: "taken R w0 ls w l u \<Longrightarrow> taken R w0 (ls @ [m]) w' l u" for l u by (rule taken_later [of R]) (use assms(2) in simp_all)
  then show ?thesis using assms(1) unfolding task_ok_def Let_def by (auto split: fetch_task.splits) meson+
qed


lemma tasks_upd [simp]:
  "dw_tasks (task_to t s w) = (dw_tasks w)(t \<mapsto> s)" "dw_tasks (task_ends t w) = (dw_tasks w)(t := None)"
  "dw_tasks (note_provider a w) = dw_tasks w" "dw_tasks (announce_sends L mk x y q w) = dw_tasks w"
  by (simp_all add: task_to_def task_ends_def note_provider_def announce_sends_def Let_def
      split: option.split prod.split invite_file.split)

lemma poll_tasks [simp]:
  "dw_tasks (poll_fetched L resp now w) = dw_tasks w" "dw_tasks (poll_verified L E r now w) = dw_tasks w"
  "dw_tasks (poll_confirmed io now w) = dw_tasks w" "dw_tasks (poll_installed L E io body q w) = dw_tasks w"
  "dw_tasks (poll_announces w) = dw_tasks w" "dw_tasks (poll_sends L mk x y q w) = dw_tasks w"
  by (simp_all add: poll_fetched_def poll_verified_def poll_confirmed_def poll_installed_def poll_announces_def
      poll_sends_def split: sum.split prod.split)

lemma task_ok_trivial [simp]:
  "task_ok L T R w0 ls w t (TaskStarts a)" "task_ok L T R w0 ls w t TaskAnnounces" "task_ok L T R w0 ls w t (TaskSends q)"
  by (simp_all add: task_ok_def Let_def)

lemma task_ok_step:
  assumes r: "run (dist_step L E rnd T mk) w0 ls w"
    and ok: "\<And>t s. dw_tasks w t = Some s \<Longrightarrow> task_ok L T (dist_step L E rnd T mk) w0 ls w t s"
    and st: "dist_step L E rnd T mk w m w'" and t: "dw_tasks w' t = Some s"
  shows "task_ok L T (dist_step L E rnd T mk) w0 (ls @ [m]) w' t s"
proof (cases "dw_tasks w t = Some s")
  case True
  then show ?thesis using task_ok_later [of L T "dist_step L E rnd T mk", OF ok st] by blast
next
  case new: False
  note now = taken_now [of "dist_step L E rnd T mk", OF r st]
  have old: "task_ok L T (dist_step L E rnd T mk) w0 (ls @ [m]) w' t q" if "dw_tasks w t = Some q" for q
    using task_ok_later [of L T "dist_step L E rnd T mk", OF ok [OF that] st] .
  show ?thesis using st
  proof (cases rule: dist_step.cases)
    case (d_hears content now)
    then show ?thesis using t new
      by (auto simp: receive_message_def Let_def split: option.splits prod.splits sum.splits if_splits)
  next
    case (d_starts u a)
    have s: "u = t" "dw_serial w < an_serial a" "s = TaskJudges a \<or> s = TaskFetches a \<and> T (an_blob_ticket a) = None"
      using t new d_starts(2) by (auto simp: announce_starts_def split: if_splits option.splits)
    have "taken (dist_step L E rnd T mk) w0 (ls @ [m]) w' (Starts t) w" using now s(1) d_starts(1) by simp
    then show ?thesis using s(2,3) by (auto simp: task_ok_def Let_def)
  next
    case (d_judges u a joined)
    have s: "u = t" "s = TaskFetches a" and c: "T (an_blob_ticket a) = Some (addr, h) \<Longrightarrow> joined \<and> \<not> dw_refuses w (da_id addr)" for addr h
      using t new d_judges(2) by (auto simp: announce_judged_def split: if_splits option.splits prod.splits)
    have a: "dw_tasks w t = Some (TaskJudges a)" using d_judges(3) s(1) by simp
    have "\<exists>v. taken (dist_step L E rnd T mk) w0 (ls @ [m]) w' (Judges t True) v \<and> dw_tasks v t = Some (TaskJudges a) \<and>
        \<not> dw_refuses v (da_id addr)" if "T (an_blob_ticket a) = Some (addr, h)" for addr h
      using now d_judges(1) s(1) c [OF that] a by auto
    then show ?thesis using old [OF a] s(2) by (auto simp: task_ok_def Let_def)
  next
    case (d_fetches u a answer)
    then obtain bs where s: "u = t" "s = TaskInstalls a bs" "an_roster_hash a = blob_hash_text L bs"
      using t new by (auto simp: announce_fetched_def blob_fetch_Inr split: option.splits sum.splits if_splits)
    then show ?thesis using old [of "TaskFetches a"] d_fetches(3) by (simp add: task_ok_def Let_def)
  next
    case (d_installs u a bs io)
    then show ?thesis using t new by (auto simp: announce_installs_def split: prod.splits if_splits)
  next
    case (d_announces u)
    then show ?thesis using t new by (auto simp: task_announces_def split: option.splits if_splits)
  next
    case (d_sends u q x y)
    then show ?thesis using t new by (auto simp: task_sends_def split: if_splits)
  qed (use t new in simp_all)
qed

lemma task_ok_run:
  assumes "run (dist_step L E rnd T mk) w0 ls w" and "dw_tasks w0 = Map.empty" and "dw_tasks w t = Some s"
  shows "task_ok L T (dist_step L E rnd T mk) w0 ls w t s"
  using assms
proof (induction arbitrary: t s rule: run.induct)
  case (run_snoc s0 ls u l w)
  then show ?case using task_ok_step [OF run_snoc.hyps(1) _ run_snoc.hyps(2)] by blast
qed simp

text \<open>
  C5. An announcement makes this node contact only a provider it does not refuse. Announcements are
  unsigned and name any provider. Whatever arrives and whatever else the node does, when a handler
  fetches the blob of an announcement, the announced serial was above the one in force when the handler
  started, and if the ticket names a provider at all, the node had read its store and its roster and
  found the provider not refused, in that handler; a read that could not be made is a refusal.
\<close>
theorem no_fetch_from_a_refused_provider:
  assumes "run (dist_step L E rnd T mk) w0 ls w" and "dw_tasks w0 = Map.empty"
    and "dist_step L E rnd T mk w (Fetches t answer) w'"
  shows "\<exists>a. dw_tasks w t = Some (TaskFetches a) \<and>
     (\<exists>u. taken (dist_step L E rnd T mk) w0 ls w (Starts t) u \<and> dw_serial u < an_serial a) \<and>
     (\<forall>addr h. T (an_blob_ticket a) = Some (addr, h) \<longrightarrow>
        (\<exists>u. taken (dist_step L E rnd T mk) w0 ls w (Judges t True) u \<and> dw_tasks u t = Some (TaskJudges a) \<and>
           \<not> dw_refuses u (da_id addr)))"
proof -
  from assms(3) obtain a where a: "dw_tasks w t = Some (TaskFetches a)" by (rule dist_stepE) auto
  show ?thesis using task_ok_run [OF assms(1,2) a] a by (auto simp: task_ok_def Let_def)
qed

subsection \<open>What a flood of announcements costs\<close>

definition flood_inv :: "dist_world \<Rightarrow> bool" where
  "flood_inv w \<longleftrightarrow> finite (dom (dw_tasks w)) \<and> card (dom (dw_tasks w)) + dw_permits w = GOSSIP_FETCH_CONCURRENCY \<and>
     (\<forall>t \<in> dom (dw_tasks w). t < dw_next w) \<and>
     (\<exists>book. dw_book w = Some book \<and> length (bk_known book) \<le> bk_cap book \<and> bk_cap book = 256 \<and>
        distinct (bk_known book) \<and> map da_id (dw_lookup w) = bk_known book) \<and>
     (\<forall>a \<in> set (dw_lookup w). \<forall>x \<in> set (da_addrs a). is_dialable_addr x)"


lemma flood_task_to: "flood_inv w \<Longrightarrow> dw_tasks w t = Some q \<Longrightarrow> flood_inv (task_to t s w)"
  unfolding flood_inv_def task_to_def by (auto simp: insert_absorb domI)

lemma flood_task_ends:
  assumes "flood_inv w" and "dw_tasks w t = Some q"
  shows "flood_inv (task_ends t w)"
proof -
  have t: "t \<in> dom (dw_tasks w)" using assms(2) by blast
  have "finite (dom (dw_tasks w))" using assms(1) by (simp add: flood_inv_def)
  from card_Suc_Diff1 [OF this t] show ?thesis using assms(1) unfolding flood_inv_def task_ends_def by auto
qed

lemma flood_note: "flood_inv w \<Longrightarrow> flood_inv (note_provider a w)"
  unfolding flood_inv_def note_provider_def book_note_def Let_def by (auto split: option.split)

text \<open>Everything the invariant reads.\<close>

definition flood_part :: "dist_world \<Rightarrow> (nat \<rightharpoonup> fetch_task) \<times> nat \<times> nat \<times> addr_book option \<times> dial_addr list" where
  "flood_part w = (dw_tasks w, dw_permits w, dw_next w, dw_book w, dw_lookup w)"

lemma flood_same: "flood_inv w \<Longrightarrow> flood_part w' = flood_part w \<Longrightarrow> flood_inv w'"
  by (simp add: flood_inv_def flood_part_def)

lemma flood_part_upd [simp]:
  "flood_part (w\<lparr>dw_node := n\<rparr>) = flood_part w" "flood_part (w\<lparr>dw_poll := p\<rparr>) = flood_part w"
  "flood_part (w\<lparr>dw_bucket := b\<rparr>) = flood_part w" "flood_part (announce_sends L mk x y q w) = flood_part w"
  by (simp_all add: flood_part_def announce_sends_def Let_def split: invite_file.split)

lemma flood_poll [simp]:
  "flood_part (poll_fetched L resp now w) = flood_part w" "flood_part (poll_verified L E r now w) = flood_part w"
  "flood_part (poll_confirmed io now w) = flood_part w" "flood_part (poll_installed L E io body q w) = flood_part w"
  "flood_part (poll_announces w) = flood_part w" "flood_part (poll_sends L mk x y q w) = flood_part w"
  by (simp_all add: poll_fetched_def poll_verified_def poll_confirmed_def poll_installed_def poll_announces_def
      poll_sends_def flood_part_def announce_sends_def Let_def split: sum.split prod.split invite_file.split)

lemma flood_spawn:
  assumes "flood_inv w" and "dw_permits w \<noteq> 0"
  shows "flood_inv (task_to (dw_next w) s (w\<lparr>dw_permits := dw_permits w - 1, dw_next := dw_next w + 1\<rparr>))"
proof -
  have "dw_next w \<notin> dom (dw_tasks w)" using assms(1) unfolding flood_inv_def by blast
  then show ?thesis using assms unfolding flood_inv_def task_to_def by (auto simp: less_Suc_eq)
qed

lemma flood_hears: "flood_inv w \<Longrightarrow> flood_inv (receive_message L rnd now content w)"
  unfolding receive_message_def Let_def
  using flood_same [of w "w\<lparr>dw_bucket := b\<rparr>" for b] flood_spawn [of "w\<lparr>dw_bucket := b\<rparr>" for b]
  by (auto split: option.split prod.split sum.split)

lemma flood_step:
  assumes "dist_step L E rnd T mk w m w'" and "flood_inv w"
  shows "flood_inv w'"
  using assms(1)
proof (cases rule: dist_step.cases)
  case (d_hears content now)
  then show ?thesis using flood_hears assms(2) by blast
next
  case (d_starts t a)
  then show ?thesis using flood_task_to [OF assms(2)] flood_task_ends [OF assms(2)]
    by (simp add: announce_starts_def split: option.split)
next
  case (d_judges t a joined)
  then show ?thesis using flood_task_to [OF assms(2)] flood_task_ends [OF assms(2)] flood_task_to [OF flood_note [OF assms(2)]]
    by (simp add: announce_judged_def split: option.split prod.split)
next
  case (d_fetches t a answer)
  then show ?thesis using flood_task_to [OF assms(2)] flood_task_ends [OF assms(2)]
    by (simp add: announce_fetched_def split: option.split sum.split)
next
  case (d_installs t a bs io)
  have "flood_inv (w\<lparr>dw_node := n\<rparr>)" for n by (rule flood_same [OF assms(2)]) simp
  then show ?thesis using d_installs flood_task_to flood_task_ends by (auto simp: announce_installs_def split: prod.split)
next
  case (d_announces t)
  then show ?thesis using flood_task_to [OF assms(2)] flood_task_ends [OF assms(2)]
    by (simp add: task_announces_def split: option.split)
next
  case (d_sends t q x y)
  have "flood_inv (announce_sends L mk x y q w)" by (rule flood_same [OF assms(2)]) simp
  then show ?thesis using d_sends by (simp add: task_sends_def flood_task_ends)
qed (rule flood_same [OF assms(2)]; simp)+

text \<open>
  Announcements cannot exhaust the node: at most four handlers run at a time, and all the announcements
  of a life put at most 256 providers, each once and with addresses that can be dialled, into the
  endpoint's address lookup.
\<close>

theorem announcements_are_bounded:
  assumes "run (dist_step L E rnd T mk) (dist_start rnd t0 n) ls w"
  shows "card (dom (dw_tasks w)) \<le> 4" and "length (dw_lookup w) \<le> 256" and "distinct (map da_id (dw_lookup w))"
    and "\<forall>a \<in> set (dw_lookup w). \<forall>x \<in> set (da_addrs a). is_dialable_addr x"
proof -
  have inv: "flood_inv w" using assms
  proof (induction "dist_start rnd t0 n" ls w rule: run.induct)
    case (run_snoc ls t l u)
    then show ?case using flood_step by blast
  qed (simp add: flood_inv_def dist_start_def)
  then have "card (dom (dw_tasks w)) + dw_permits w = 4" by (simp add: flood_inv_def GOSSIP_FETCH_CONCURRENCY_def)
  then show "card (dom (dw_tasks w)) \<le> 4" by simp
  obtain book :: addr_book where b: "length (bk_known book) \<le> bk_cap book \<and> bk_cap book = 256 \<and> distinct (bk_known book) \<and>
      map da_id (dw_lookup w) = bk_known book" using inv unfolding flood_inv_def by blast
  then have "length (map da_id (dw_lookup w)) \<le> 256" by simp
  then show "length (dw_lookup w) \<le> 256" by simp
  show "distinct (map da_id (dw_lookup w))" using b by simp
  show "\<forall>a \<in> set (dw_lookup w). \<forall>x \<in> set (da_addrs a). is_dialable_addr x" using inv by (simp add: flood_inv_def)
qed

text \<open>An announcement of a newer roster by a peer that is not refused, fetched after its handler's checks.\<close>

definition demo_news :: roster_announce where
  "demo_news = \<lparr>an_serial = 6, an_roster_hash = ''h'', an_blob_ticket = ''t''\<rparr>"

definition demo_news_libs :: libs where
  "demo_news_libs = demo_libs\<lparr>json_from_slice := \<lambda>_. Some (announce_to_value demo_news)\<rparr>"

abbreviation demo_news_step :: "dist_world \<Rightarrow> dist_label \<Rightarrow> dist_world \<Rightarrow> bool" where
  "demo_news_step \<equiv> dist_step demo_news_libs demo_env id (\<lambda>_. Some (bare_addr [9], [])) (\<lambda>_. [])"


lemma demo_news_heard:
  "announce_from_bytes demo_news_libs [] = Some demo_news"
  "\<exists>b. try_take id (announce_bucket id 0) 0 = (Inr (), b)"
  by (simp_all add: announce_from_bytes_def demo_news_libs_def announce_value_roundtrip try_take_def try_take_cost_def
      announce_bucket_def tb_new_def refilled_def secs_since_def GOSSIP_ANNOUNCE_PER_MIN_def)

theorem no_fetch_from_a_refused_provider_witness:
  "\<exists>w w'. run demo_news_step (dist_start id 0 demo_mesh) [Hears [] 0, Starts 0, Judges 0 True] w \<and>
     demo_news_step w (Fetches 0 None) w' \<and>
     (\<exists>u. taken demo_news_step (dist_start id 0 demo_mesh) [Hears [] 0, Starts 0, Judges 0 True] w (Judges 0 True) u \<and>
        \<not> dw_refuses u [9])"
proof -
  let ?w0 = "dist_start id 0 demo_mesh" and ?T = "\<lambda>_. Some (bare_addr [9], [])"
  define w1 where "w1 = receive_message demo_news_libs id 0 [] ?w0"
  define w2 where "w2 = announce_starts ?T 0 demo_news w1"
  define w3 where "w3 = announce_judged ?T True 0 demo_news w2"
  define w4 where "w4 = announce_fetched demo_news_libs ?T None 0 demo_news w3"
  have n1: "dw_node w1 = demo_mesh" "dw_node w2 = demo_mesh" by (simp_all add: w1_def w2_def dist_start_def)
  have t1: "dw_tasks w1 0 = Some (TaskStarts demo_news)" "dw_blobs w1"
    using demo_news_heard
    by (auto simp: w1_def receive_message_def dist_start_def Let_def GOSSIP_FETCH_CONCURRENCY_def task_to_def)
  have g: "gate_serial (mn_gate demo_mesh) = 0" by (simp add: gate_serial_def)
  have t2: "dw_tasks w2 0 = Some (TaskJudges demo_news)" by (simp add: w2_def announce_starts_def n1 g t1 demo_news_def)
  have "\<not> refused_by (dm_store (pn_daemon demo_mesh)) None [9]"
    by (simp add: demo_mesh_def pair_node.defs demo_alice_def refused_by_def is_refused_def store_admission_def
        decide_admission_def with_table_def store_open_def)
  then have r: "\<not> dw_refuses w2 [9]" by (simp add: dw_refuses_def n1)
  have t3: "dw_tasks w3 0 = Some (TaskFetches demo_news)" using r by (simp add: w3_def announce_judged_def bare_addr_def)
  have s1: "demo_news_step ?w0 (Hears [] 0) w1" unfolding w1_def by (rule d_hears)
  have s2: "demo_news_step w1 (Starts 0) w2" unfolding w2_def by (rule d_starts) (rule t1)
  have s3: "demo_news_step w2 (Judges 0 True) w3" unfolding w3_def by (rule d_judges) (rule t2)
  have s4: "demo_news_step w3 (Fetches 0 None) w4" unfolding w4_def by (rule d_fetches) (rule t3)
  have run: "run demo_news_step ?w0 [Hears [] 0, Starts 0, Judges 0 True] w3"
    using run_snoc [where step = demo_news_step, OF run_snoc [where step = demo_news_step, OF run_one [where step = demo_news_step, OF s1] s2] s3] by simp
  have empty: "dw_tasks ?w0 = Map.empty" by (simp add: dist_start_def)
  show ?thesis using no_fetch_from_a_refused_provider [OF run empty s4] run s4 by (auto simp: bare_addr_def)
qed

end
