(* ===== verification/App_Sig.thy ===== *)
theory App_Sig
  imports Presence
begin

text \<open>
  Application signatures with the device key (\<open>trust/src/app.rs\<close>): the signed bytes fix the domain
  and its length before the message, so no choice of domain and message meets another one, nor the
  presence heartbeat, the other statement this key signs.
\<close>

definition APP_SIG_DOMAIN :: bytes where "APP_SIG_DOMAIN = str_bytes ''mcpmesh/app-sig/1''"

definition app_preimage :: "bytes \<Rightarrow> bytes \<Rightarrow> bytes" where
  "app_preimage domain msg = APP_SIG_DOMAIN @ le_bytes 8 (length domain) @ domain @ msg"

definition sign_app :: "libs \<Rightarrow> bytes \<Rightarrow> bytes \<Rightarrow> bytes \<Rightarrow> bytes" where
  "sign_app L device_key domain msg = ed_sign L device_key (app_preimage domain msg)"

definition verify_app :: "libs \<Rightarrow> bytes \<Rightarrow> bytes \<Rightarrow> bytes \<Rightarrow> bytes \<Rightarrow> bool" where
  "verify_app L endpoint_id domain msg sig =
     (if \<not> vk_from_bytes L endpoint_id then False
      else verify_strict L endpoint_id (app_preimage domain msg) sig)"

lemma sign_app_verifies:
  "ed25519_correct L \<Longrightarrow> verify_app L (ed_pk L key) domain msg (sign_app L key domain msg)"
  by (simp add: verify_app_def sign_app_def ed25519_correct_def)

text \<open>A slice in memory is shorter than \<open>2 ^ 64\<close>.\<close>

lemma app_preimage_inj:
  assumes "app_preimage d m = app_preimage d' m'" and "length d < 2 ^ 64" and "length d' < 2 ^ 64"
  shows "d = d' \<and> m = m'"
proof -
  have "le_bytes 8 (length d) @ d @ m = le_bytes 8 (length d') @ d' @ m'"
    using assms(1) by (simp add: app_preimage_def)
  then have e: "le_bytes 8 (length d) = le_bytes 8 (length d')" "d @ m = d' @ m'" by (simp_all add: append_eq_append_conv)
  have "length d < 256 ^ 8" "length d' < 256 ^ 8" using assms(2,3) by simp_all
  then have "length d = length d'" using le_bytes_inj e(1) by blast
  then show ?thesis using e(2) by (simp add: append_eq_append_conv)
qed

lemma app_preimage_no_beat: "app_preimage d m \<noteq> beat_preimage e uid ts serial meta"
proof
  assume "app_preimage d m = beat_preimage e uid ts serial meta"
  then have "app_preimage d m ! 8 = beat_preimage e uid ts serial meta ! 8" by simp
  then show False by (simp add: app_preimage_def beat_preimage_def APP_SIG_DOMAIN_def PRESENCE_DOMAIN_def str_bytes_def
      nth_append nth_Cons')
qed

end
