(* ===== verification/Spec2Isabelle.thy ===== *)
theory Spec2Isabelle
  imports Gate_Props Rate_Props Verb_Props Phrase_Props Attest Install_Props Cancel_Props Dial_Props Presence_Props Cache_Props Reach_Props Calendar Backend_Props Audit_Props Hooks_Props Distribution_Props App_Sig
begin

text \<open>
  A verification library for mcpmesh: a daemon that serves local MCP services to authenticated peers
  over QUIC and decides, per connection and per session, who may call what.

  \<^bold>\<open>The program and how its parts meet.\<close> A node knows its peers in two ways. A pairing ceremony
  (\<open>node/src/pairing/\<close>) stores a row per device in the peer store (\<open>node/src/allowlist.rs\<close>); a signed
  roster (\<open>trust/src/roster/\<close>), installed from a file, a URL or gossip
  (\<open>node/src/daemon/roster_install.rs\<close>) and authored by an operator (\<open>node/src/daemon/org_author.rs\<close>),
  names a whole organisation. Both feed the composed trust gate (\<open>node/src/roster/gate.rs\<close>). An accepted
  connection is resolved by the gate and tracked in a registry (\<open>net/src/registry.rs\<close>); each of its
  streams is a session (\<open>net/src/endpoint.rs\<close>) whose first frame names a service
  (\<open>net/src/service.rs\<close>), admitted by the live service registry, which the control verbs
  (\<open>node/src/daemon/handlers.rs\<close>) rebuild from \<open>config.toml\<close> and the ephemeral registrations. Every
  withdrawal of trust swaps the state first and severs the registered connections after. On the other
  side a node dials (\<open>node/src/daemon/dial.rs\<close>), over one cached connection per device
  (\<open>node/src/daemon/conn_cache.rs\<close>), fetches blobs it was granted (\<open>node/src/blobs/\<close>) and publishes
  presence (\<open>node/src/roster/presence.rs\<close>).

  \<^bold>\<open>Where what is modelled.\<close> Each group lists its theories, and what its lemmas and theorems show.

  \<^item> Shared vocabulary: \<open>Prelude\<close> (bytes, results, 64-bit arithmetic, association lists), \<open>Json\<close>,
    \<open>Serde\<close> (derived decoders), \<open>Unicode\<close> (UTF-8), \<open>Libs\<close> (the third-party functions as a record, their
    documented laws as predicates, one concrete instance), \<open>Runs\<close> (runs of a labelled step relation and
    the locale of simulations).
  \<^item> Wire: \<open>Codec\<close> (\<open>codec/src/lib.rs\<close>, \<open>net/src/framing.rs\<close>, \<open>net/src/errors.rs\<close>, \<open>recv_frame\<close>),
    \<open>Service\<close> (\<open>net/src/service.rs\<close>), \<open>Session\<close> (\<open>net/src/endpoint.rs\<close>, \<open>local-api/src/principals.rs\<close>);
    theorems in \<open>Session_Props\<close>: a line is cut and parsed as written, frames nested no deeper than the
    parser accepts come back as they were written, the buffer is bounded, what a
    session is served was asked for, allowed and carries no forged authority, and a refusal says nothing
    of what exists.
  \<^item> Trust kernel: \<open>Roster_Doc\<close>, \<open>Roster_View\<close>, \<open>Roster_Mutate\<close> (\<open>trust/src/roster/\<close>), \<open>Binding\<close>
    (\<open>trust/src/binding.rs\<close>); \<open>Roster_Props\<close>: which documents install, stated without the loops
    (\<open>wf_roster\<close>, \<open>spec_view\<close>), and that what the operator's transforms produce is accepted.
  \<^item> Who a peer is: \<open>Peer_Store\<close>, \<open>Gate\<close> (\<open>node/src/allowlist.rs\<close>, \<open>net/src/identity.rs\<close>,
    \<open>node/src/roster/gate.rs\<close>, \<open>node/src/daemon/sever.rs\<close>); \<open>Gate_Props\<close>: what the composed gate
    decides, with every store failure refusing.
  \<^item> Severing: \<open>Registry\<close>, \<open>Sever\<close>; \<open>Sever_Props\<close>: after a roster install no
    connection or session it concerns is left, and none admitted as a revoked principal after the sever
    pass of a revoke, unless a later registry admits it, in every interleaving with admissions. Registry
    rebuilds that sever nothing (unregistering, a smaller re-registration) let running sessions finish.
  \<^item> Rosters on a node: \<open>Roster_Store\<close>, \<open>Roster_Install\<close>, \<open>Org_Author\<close>; \<open>Authority\<close> is the abstract
    machine of document, anchor and view that the channels implement, \<open>Authority_Props\<close> the simulation,
    \<open>Install_Props\<close> what follows: serials never go back, the anchor moves only by a signed rotation, a
    failed rotation restores the root if its rollback write succeeds.
  \<^item> Pairing: \<open>Invites\<close>, \<open>Phrase\<close>, \<open>Pairing\<close>, \<open>Redeem\<close>, \<open>Pair_Verbs\<close>, \<open>Attest\<close>
    (\<open>node/src/pairing/\<close>); \<open>Invite_Props\<close>, \<open>Phrase_Props\<close>, \<open>Pairing_Props\<close>, \<open>Verb_Props\<close>: a use of an
    invite is issued once, a row needs a proof and burns a use, a ceremony that succeeds admits both sides,
    the hello with an invite's secret leaves the node (\<open>pn_sent\<close>) only towards the endpoint it names.
  \<^item> Access: \<open>Config_Write\<close> (\<open>node/src/daemon/config_write.rs\<close>), \<open>Service_Access\<close>; \<open>Access_Props\<close>:
    what a grant, a revoke and an unpair do from any state, that a change of the sources is live at once,
    that successful verbs keep the registry in step with its sources, and that the retry of a verb that
    failed may leave the registry behind them (\<open>retried_revoke_leaves_live\<close>).
  \<^item> Limits: \<open>Rate_Limits\<close> (\<open>node/src/limits.rs\<close>); \<open>Rate_Props\<close>: how much a bucket grants over time.
  \<^item> Blobs: \<open>Blob_Scopes\<close>, \<open>Blob_Store\<close>, \<open>Blob_Gate\<close>, \<open>Blob_Verbs\<close>, \<open>Blob_Fetch\<close> (\<open>node/src/blobs/\<close>,
    \<open>node/src/cancel.rs\<close>); \<open>Blob_Props\<close>, \<open>Blob_Store_Props\<close>, \<open>Blob_Life\<close>, \<open>Fetch_Props\<close>,
    \<open>Progress_Props\<close>, \<open>Cancel_Props\<close>: bytes are served to the granted only, a withdrawal survives
    histories of verbs, failures, collections and restarts, a hedged fetch ends, a cancel reaches every
    waiter.
  \<^item> Dialling: \<open>Dial_Addr\<close>, \<open>Presence\<close>, \<open>Dial\<close>, \<open>Conn_Cache\<close>; \<open>Presence_Props\<close>, \<open>Dial_Props\<close>,
    \<open>Cache_Props\<close>: no dial reaches a refused device, presence only orders candidates, a race ends, one
    dial per device with no waiter left behind.
  \<^item> Reachability: \<open>Paths\<close>, \<open>Reach\<close> (\<open>node/src/daemon/reach.rs\<close>, \<open>path_watch.rs\<close>); \<open>Paths_Props\<close>,
    \<open>Reach_Props\<close>: a connection is called direct only on evidence, a time-out never hides a pong that
    arrived inside its window, and subscribers learn what the cache says.
  \<^item> Connections this node opens: \<open>Hooks\<close> (\<open>node/src/daemon/hooks.rs\<close>), the veto of every dial and the
    registry a revoke closes them by; \<open>Hooks_Props\<close>: once a close pass has run, no connection to a
    revoked device that this node opened is left, in every interleaving with dials and handshakes.
  \<^item> Distribution: \<open>Distribution\<close> (\<open>node/src/roster/distribute.rs\<close>, \<open>transport.rs\<close>), the gossip
    announcements and the URL poll; \<open>Distribution_Props\<close>: only the operator's signature installs a roster
    or confirms its currency, no announcement contacts a refused provider, and a flood of them is bounded.
  \<^item> Backends: \<open>Backend\<close> (\<open>node/src/backends/\<close>), the frames between a session and the process or socket
    that serves it; \<open>Backend_Props\<close>: the server hears the caller the gate resolved and nobody else, in
    batches nested up to \<open>MAX_BATCH_DEPTH\<close>, and each answer is noted against the request it answers.
  \<^item> Audit: \<open>Audit_Record\<close>, \<open>Audit_Log\<close> (\<open>node/src/audit/\<close>, the audit verbs of \<open>node/src/control.rs\<close>),
    \<open>Calendar\<close>; \<open>Audit_Props\<close>: what is recorded is listed, in order and counted; retention drops exactly
    the months outside its window; and dates are those of the Gregorian calendar.
  \<^item> Application signatures: \<open>App_Sig\<close> (\<open>trust/src/app.rs\<close>): no two application statements share their
    signed bytes, nor does one with a presence beat.

  \<^bold>\<open>How the code is modelled.\<close> A struct is a record, an enum a datatype, a fallible function returns
  \<open>error + 'a\<close>; \<open>u64\<close> and \<open>u32\<close> are words, \<open>i64\<close> an \<open>int\<close> with the wrap-around or saturation written
  out, \<open>f64\<close> in the rate limiter a rational whose rounding is a parameter. A \<open>HashMap\<close> is an association
  list in its iteration order or a map where the order is never read, a \<open>BTreeMap\<close> a list in key order.
  A handler takes the state and returns it; what runs under one lock is one step. Concurrent parts
  (severing, the hooks, roster distribution, the blob fetch, its registry, the connection cache, the
  race of dials, the probes) are step relations
  whose labels are what the environment answers, and their theorems hold for every run. A write to disk
  takes a flag that says whether it succeeds, and the theorems hold for both. The functions of other
  crates (\<open>ed25519_dalek\<close>, \<open>blake3\<close>, \<open>serde_json\<close>, \<open>serde_jcs\<close>, \<open>data_encoding\<close>, \<open>chrono\<close>, \<open>toml\<close>,
  \<open>redb\<close>, \<open>iroh\<close>) are parameters; a theorem that needs a law of one names it as a hypothesis, and a
  witness shows it can hold. JSON values have \<open>serde_json\<close>'s integers and no floating-point numbers.

  \<^bold>\<open>Bounds and termination.\<close> No definition runs on fuel that could run out: \<open>recv_frame\<close> recurs on the
  strikes that are left, \<open>fr_next\<close> on the input, the batch walk on the depth up to \<open>MAX_BATCH_DEPTH\<close>.
  The step relations have no bound; where an end is claimed (a hedged fetch, a race of dials) the bound
  on the number of steps is part of the theorem. Counters that are \<open>u64\<close> in the code and that a theorem
  needs not to wrap carry that as a hypothesis (the sequence numbers of the connection registry).

  \<^bold>\<open>Not modelled.\<close> The command line (\<open>cli/\<close>) formats answers and forwards lines. The local API crate's
  clients and transports (\<open>local-api/src/client.rs\<close>, \<open>service.rs\<close>, \<open>transport/\<close>) move bytes over a
  socket; of its protocol the messages the modelled verbs exchange are modelled with them. Boot, the accept
  loop and the control socket (\<open>node/src/daemon/boot.rs\<close>, \<open>accept.rs\<close>, \<open>node/src/control.rs\<close>,
  \<open>ipc.rs\<close>, \<open>node.rs\<close>) wire the parts together; the parts of them that restore state are in
  \<open>Roster_Install\<close> and \<open>Service_Access\<close>. Starting the process of
  a backend and connecting its socket, discovery, the gossip swarm and the HTTP client are answers a
  step receives. The status verb (\<open>node/src/daemon/status.rs\<close>) only reads; \<open>lookup_hygiene.rs\<close>,
  \<open>self_net.rs\<close> and \<open>resume.rs\<close> adapt watchers of \<open>iroh\<close> and of the clock. Time-outs are steps that may
  happen at any moment.
\<close>

end
